(* ===== verification/TokenAccounting.thy ===== *)
theory TokenAccounting
  imports Prelude
begin

text \<open>
  Token accounting of one request (\<open>backend/sdk/cliproxy/usage/accounting.go\<close>): the canonical
  breakdown of a usage record into non-overlapping buckets, the constructors for the three
  protocol semantics, and the normalisation of legacy records. Every token count is an
  \<open>int64\<close>: sums wrap around (\<open>wrap64\<close>) unless the code checks them with \<open>nonNegativeSum\<close>.
\<close>

section \<open>Data\<close>

abbreviation TokenAccountingSchemaVersion :: int where
  "TokenAccountingSchemaVersion \<equiv> 2"

datatype TokenAccountingQuality =
    QualityComplete | QualityInconsistent | QualityUnclassified | QualityOther string

datatype tokenAccountingSemantics =
    SemanticsUnknown | SemanticsSubset | SemanticsIndependent | SemanticsSeparateReasoning

record TokenInputBreakdown =
  in_TotalTokens :: int
  in_UncachedTokens :: int
  in_CacheReadTokens :: int
  in_CacheWriteTokens :: int

record TokenOutputBreakdown =
  out_TotalTokens :: int
  out_NonReasoningTokens :: int
  out_ReasoningTokens :: int

record TokenBreakdown =
  tb_SchemaVersion :: int
  tb_Quality :: TokenAccountingQuality
  tb_TotalTokens :: int
  tb_Input :: TokenInputBreakdown
  tb_Output :: TokenOutputBreakdown
  tb_UnclassifiedTokens :: int

record Detail =
  d_InputTokens :: int
  d_OutputTokens :: int
  d_ReasoningTokens :: int
  d_CachedTokens :: int
  d_CacheReadTokens :: int
  d_CacheCreationTokens :: int
  d_TotalTokens :: int
  d_TokenBreakdown :: TokenBreakdown
  d_ResponseServiceTier :: string

abbreviation zeroInput :: TokenInputBreakdown where
  "zeroInput \<equiv> \<lparr>in_TotalTokens = 0, in_UncachedTokens = 0, in_CacheReadTokens = 0,
    in_CacheWriteTokens = 0\<rparr>"

abbreviation zeroOutput :: TokenOutputBreakdown where
  "zeroOutput \<equiv> \<lparr>out_TotalTokens = 0, out_NonReasoningTokens = 0, out_ReasoningTokens = 0\<rparr>"

section \<open>The accounting invariant\<close>

fun validTokenAccountingQuality :: "TokenAccountingQuality \<Rightarrow> bool" where
  "validTokenAccountingQuality QualityComplete = True"
| "validTokenAccountingQuality QualityInconsistent = True"
| "validTokenAccountingQuality QualityUnclassified = True"
| "validTokenAccountingQuality (QualityOther _) = False"

definition Valid :: "TokenBreakdown \<Rightarrow> bool" where
  "Valid b =
     (if tb_SchemaVersion b \<noteq> TokenAccountingSchemaVersion
         \<or> \<not> validTokenAccountingQuality (tb_Quality b) then False
      else if tb_TotalTokens b < 0 \<or> tb_UnclassifiedTokens b < 0
         \<or> in_TotalTokens (tb_Input b) < 0 \<or> in_UncachedTokens (tb_Input b) < 0
         \<or> in_CacheReadTokens (tb_Input b) < 0 \<or> in_CacheWriteTokens (tb_Input b) < 0
         \<or> out_TotalTokens (tb_Output b) < 0 \<or> out_NonReasoningTokens (tb_Output b) < 0
         \<or> out_ReasoningTokens (tb_Output b) < 0 then False
      else if in_TotalTokens (tb_Input b) \<noteq>
           wrap64 (wrap64 (in_UncachedTokens (tb_Input b) + in_CacheReadTokens (tb_Input b))
             + in_CacheWriteTokens (tb_Input b)) then False
      else if out_TotalTokens (tb_Output b) \<noteq>
           wrap64 (out_NonReasoningTokens (tb_Output b) + out_ReasoningTokens (tb_Output b))
         then False
      else if tb_TotalTokens b \<noteq>
           wrap64 (wrap64 (in_TotalTokens (tb_Input b) + out_TotalTokens (tb_Output b))
             + tb_UnclassifiedTokens b) then False
      else if tb_Quality b = QualityComplete \<and> tb_UnclassifiedTokens b \<noteq> 0 then False
      else True)"

section \<open>Checked sums\<close>

text \<open>The loop of \<open>nonNegativeSum\<close>; the boolean is the second result.\<close>

fun nonNegativeSum_loop :: "int \<Rightarrow> int list \<Rightarrow> int \<times> bool" where
  "nonNegativeSum_loop tot [] = (tot, True)"
| "nonNegativeSum_loop tot (v # vs) =
     (if v < 0 \<or> tot > wrap64 (max_int64 - v) then (0, False)
      else nonNegativeSum_loop (wrap64 (tot + v)) vs)"

definition nonNegativeSum :: "int list \<Rightarrow> int \<times> bool" where
  "nonNegativeSum values = nonNegativeSum_loop 0 values"

definition resolveAccountingTotal :: "int \<Rightarrow> int \<Rightarrow> int \<times> bool" where
  "resolveAccountingTotal tot expected =
     (if tot < 0 \<or> expected < 0 then (0, False)
      else if tot = 0 then (expected, True)
      else (tot, tot = expected))"

definition inconsistentTokenBreakdown :: "int \<Rightarrow> int \<Rightarrow> TokenBreakdown" where
  "inconsistentTokenBreakdown tot fallback =
     (let resolved = (if tot \<le> 0 then fallback else tot);
          resolved = (if resolved < 0 then 0 else resolved)
      in \<lparr>tb_SchemaVersion = TokenAccountingSchemaVersion, tb_Quality = QualityInconsistent,
          tb_TotalTokens = resolved, tb_Input = zeroInput, tb_Output = zeroOutput,
          tb_UnclassifiedTokens = resolved\<rparr>)"

section \<open>Constructors of a breakdown\<close>

definition NewSubsetTokenBreakdown ::
    "int \<Rightarrow> int \<Rightarrow> int \<Rightarrow> int \<Rightarrow> int \<Rightarrow> int \<Rightarrow> TokenBreakdown" where
  "NewSubsetTokenBreakdown inputTotal cacheRead cacheWrite outputTotal reasoning tot =
     (let (expectedTotal, okExpected) = nonNegativeSum [inputTotal, outputTotal]
      in if \<not> okExpected \<or> cacheRead < 0 \<or> cacheWrite < 0 \<or> reasoning < 0
            \<or> wrap64 (cacheRead + cacheWrite) > inputTotal \<or> reasoning > outputTotal
         then inconsistentTokenBreakdown tot expectedTotal
         else let (resolvedTotal, okTotal) = resolveAccountingTotal tot expectedTotal
           in if \<not> okTotal then inconsistentTokenBreakdown tot expectedTotal
              else \<lparr>tb_SchemaVersion = TokenAccountingSchemaVersion, tb_Quality = QualityComplete,
                tb_TotalTokens = resolvedTotal,
                tb_Input = \<lparr>in_TotalTokens = inputTotal,
                  in_UncachedTokens = wrap64 (wrap64 (inputTotal - cacheRead) - cacheWrite),
                  in_CacheReadTokens = cacheRead, in_CacheWriteTokens = cacheWrite\<rparr>,
                tb_Output = \<lparr>out_TotalTokens = outputTotal,
                  out_NonReasoningTokens = wrap64 (outputTotal - reasoning),
                  out_ReasoningTokens = reasoning\<rparr>,
                tb_UnclassifiedTokens = 0\<rparr>)"

definition NewPartialSubsetTokenBreakdown ::
    "int \<Rightarrow> int \<Rightarrow> int \<Rightarrow> int \<Rightarrow> int \<Rightarrow> int \<Rightarrow> TokenBreakdown" where
  "NewPartialSubsetTokenBreakdown inputTotal cacheRead cacheWrite outputTotal reasoning tot =
     (let (cacheTotal, okCache) = nonNegativeSum [cacheRead, cacheWrite];
          (expectedTotal, okExpected) = nonNegativeSum [inputTotal, outputTotal]
      in if \<not> okCache \<or> \<not> okExpected \<or> inputTotal < 0 \<or> outputTotal < 0 \<or> reasoning < 0
            \<or> cacheTotal > inputTotal \<or> reasoning > outputTotal \<or> tot < 0
         then inconsistentTokenBreakdown tot expectedTotal
         else let resolvedTotal = (if tot = 0 then expectedTotal else tot)
           in if resolvedTotal < expectedTotal then inconsistentTokenBreakdown tot expectedTotal
              else let unclassified = wrap64 (resolvedTotal - expectedTotal);
                       quality = (if unclassified > 0 then QualityUnclassified else QualityComplete)
                in \<lparr>tb_SchemaVersion = TokenAccountingSchemaVersion, tb_Quality = quality,
                   tb_TotalTokens = resolvedTotal,
                   tb_Input = \<lparr>in_TotalTokens = inputTotal,
                     in_UncachedTokens = wrap64 (inputTotal - cacheTotal),
                     in_CacheReadTokens = cacheRead, in_CacheWriteTokens = cacheWrite\<rparr>,
                   tb_Output = \<lparr>out_TotalTokens = outputTotal,
                     out_NonReasoningTokens = wrap64 (outputTotal - reasoning),
                     out_ReasoningTokens = reasoning\<rparr>,
                   tb_UnclassifiedTokens = unclassified\<rparr>)"

definition NewIndependentTokenBreakdown ::
    "int \<Rightarrow> int \<Rightarrow> int \<Rightarrow> int \<Rightarrow> int \<Rightarrow> int \<Rightarrow> TokenBreakdown" where
  "NewIndependentTokenBreakdown uncachedInput cacheRead cacheWrite nonReasoningOutput reasoning tot =
     (let (inputTotal, okInput) = nonNegativeSum [uncachedInput, cacheRead, cacheWrite];
          (outputTotal, okOutput) = nonNegativeSum [nonReasoningOutput, reasoning];
          (expectedTotal, okExpected) = nonNegativeSum [inputTotal, outputTotal]
      in if \<not> okInput \<or> \<not> okOutput \<or> \<not> okExpected
         then inconsistentTokenBreakdown tot expectedTotal
         else let (resolvedTotal, okTotal) = resolveAccountingTotal tot expectedTotal
           in if \<not> okTotal then inconsistentTokenBreakdown tot expectedTotal
              else \<lparr>tb_SchemaVersion = TokenAccountingSchemaVersion, tb_Quality = QualityComplete,
                tb_TotalTokens = resolvedTotal,
                tb_Input = \<lparr>in_TotalTokens = inputTotal, in_UncachedTokens = uncachedInput,
                  in_CacheReadTokens = cacheRead, in_CacheWriteTokens = cacheWrite\<rparr>,
                tb_Output = \<lparr>out_TotalTokens = outputTotal,
                  out_NonReasoningTokens = nonReasoningOutput, out_ReasoningTokens = reasoning\<rparr>,
                tb_UnclassifiedTokens = 0\<rparr>)"

definition NewSeparateReasoningTokenBreakdown ::
    "int \<Rightarrow> int \<Rightarrow> int \<Rightarrow> int \<Rightarrow> int \<Rightarrow> int \<Rightarrow> TokenBreakdown" where
  "NewSeparateReasoningTokenBreakdown inputTotal cacheRead cacheWrite nonReasoningOutput reasoning tot =
     (if inputTotal < 0 \<or> cacheRead < 0 \<or> cacheWrite < 0
         \<or> wrap64 (cacheRead + cacheWrite) > inputTotal
      then inconsistentTokenBreakdown tot 0
      else let (outputTotal, okOutput) = nonNegativeSum [nonReasoningOutput, reasoning];
               (expectedTotal, okExpected) = nonNegativeSum [inputTotal, outputTotal]
      in if \<not> okOutput \<or> \<not> okExpected then inconsistentTokenBreakdown tot expectedTotal
         else let (resolvedTotal, okTotal) = resolveAccountingTotal tot expectedTotal
           in if \<not> okTotal then inconsistentTokenBreakdown tot expectedTotal
              else \<lparr>tb_SchemaVersion = TokenAccountingSchemaVersion, tb_Quality = QualityComplete,
                tb_TotalTokens = resolvedTotal,
                tb_Input = \<lparr>in_TotalTokens = inputTotal,
                  in_UncachedTokens = wrap64 (wrap64 (inputTotal - cacheRead) - cacheWrite),
                  in_CacheReadTokens = cacheRead, in_CacheWriteTokens = cacheWrite\<rparr>,
                tb_Output = \<lparr>out_TotalTokens = outputTotal,
                  out_NonReasoningTokens = nonReasoningOutput, out_ReasoningTokens = reasoning\<rparr>,
                tb_UnclassifiedTokens = 0\<rparr>)"

definition NewUnclassifiedTokenBreakdown :: "int \<Rightarrow> TokenBreakdown" where
  "NewUnclassifiedTokenBreakdown tot =
     (if tot \<le> 0
      then \<lparr>tb_SchemaVersion = TokenAccountingSchemaVersion,
        tb_Quality = (if tot < 0 then QualityInconsistent else QualityComplete),
        tb_TotalTokens = 0, tb_Input = zeroInput, tb_Output = zeroOutput, tb_UnclassifiedTokens = 0\<rparr>
      else \<lparr>tb_SchemaVersion = TokenAccountingSchemaVersion, tb_Quality = QualityUnclassified,
        tb_TotalTokens = tot, tb_Input = zeroInput, tb_Output = zeroOutput,
        tb_UnclassifiedTokens = tot\<rparr>)"

section \<open>Normalising a usage record\<close>

definition unclassifiedTokenLowerBound :: "Detail \<Rightarrow> int \<times> bool" where
  "unclassifiedTokenLowerBound detail =
     (let (cacheTokens, okCache) =
            nonNegativeSum [d_CacheReadTokens detail, d_CacheCreationTokens detail]
      in if \<not> okCache \<or> d_InputTokens detail < 0 \<or> d_OutputTokens detail < 0
            \<or> d_ReasoningTokens detail < 0 \<or> d_CachedTokens detail < 0 then (0, False)
         else let inputTotal = d_InputTokens detail;
                  inputTotal = (if cacheTokens > inputTotal then cacheTokens else inputTotal);
                  inputTotal = (if d_CachedTokens detail > inputTotal then d_CachedTokens detail
                    else inputTotal);
                  outputTotal = d_OutputTokens detail;
                  outputTotal = (if d_ReasoningTokens detail > outputTotal
                    then d_ReasoningTokens detail else outputTotal)
           in nonNegativeSum [inputTotal, outputTotal])"

definition tokenAccountingSemanticsFor :: "string \<Rightarrow> string \<Rightarrow> tokenAccountingSemantics" where
  "tokenAccountingSemanticsFor provider executorType =
     (let normalizedProvider = to_lower (trim_space provider);
          normalizedExecutor = to_lower (trim_space executorType);
          value = trim_space (normalizedProvider @ '' '' @ normalizedExecutor)
      in if value = [] \<or> value = ''unknown'' \<or> value = ''unknown unknown'' then SemanticsUnknown
         else if normalizedExecutor = ''openaicompatexecutor''
           \<or> normalizedProvider = ''openai-compatibility''
           \<or> has_prefix normalizedProvider ''openai-compatible-'' then SemanticsSubset
         else if contains value ''claude'' \<or> contains value ''anthropic'' then SemanticsIndependent
         else if list_ex (contains value)
           [''gemini'', ''aistudio'', ''antigravity'', ''vertex'', ''interaction'']
           then SemanticsSeparateReasoning
         else if list_ex (contains value)
           [''openai'', ''codex'', ''xai'', ''grok'', ''kimi'', ''qwen'', ''deepseek'', ''openrouter'']
           then SemanticsSubset
         else SemanticsUnknown)"

text \<open>The dispatch on the semantics, after the early test for records with no totals.\<close>

definition semanticsDispatch :: "Detail \<Rightarrow> tokenAccountingSemantics \<Rightarrow> TokenBreakdown" where
  "semanticsDispatch detail semantics =
     (case semantics of
        SemanticsSubset \<Rightarrow>
          NewSubsetTokenBreakdown (d_InputTokens detail) (d_CacheReadTokens detail)
            (d_CacheCreationTokens detail) (d_OutputTokens detail) (d_ReasoningTokens detail)
            (d_TotalTokens detail)
      | SemanticsIndependent \<Rightarrow>
          NewIndependentTokenBreakdown (d_InputTokens detail) (d_CacheReadTokens detail)
            (d_CacheCreationTokens detail) (d_OutputTokens detail) (d_ReasoningTokens detail)
            (d_TotalTokens detail)
      | SemanticsSeparateReasoning \<Rightarrow>
          NewSeparateReasoningTokenBreakdown (d_InputTokens detail) (d_CacheReadTokens detail)
            (d_CacheCreationTokens detail) (d_OutputTokens detail) (d_ReasoningTokens detail)
            (d_TotalTokens detail)
      | SemanticsUnknown \<Rightarrow>
          (if d_TotalTokens detail = 0
           then (let (tot, okTotal) = unclassifiedTokenLowerBound detail
             in if \<not> okTotal then inconsistentTokenBreakdown (d_TotalTokens detail) 0
                else NewUnclassifiedTokenBreakdown tot)
           else NewUnclassifiedTokenBreakdown (d_TotalTokens detail)))"

definition tokenBreakdownForSemantics ::
    "Detail \<Rightarrow> tokenAccountingSemantics \<Rightarrow> TokenBreakdown" where
  "tokenBreakdownForSemantics detail semantics =
     (if d_TotalTokens detail = 0 \<and> d_InputTokens detail = 0 \<and> d_OutputTokens detail = 0
      then (let (tot, okTotal) = unclassifiedTokenLowerBound detail
        in if \<not> okTotal then inconsistentTokenBreakdown (d_TotalTokens detail) 0
           else if tot > 0 \<and> (semantics = SemanticsUnknown \<or> semantics = SemanticsSubset
               \<or> (semantics = SemanticsSeparateReasoning
                   \<and> (d_CacheReadTokens detail > 0 \<or> d_CacheCreationTokens detail > 0
                       \<or> d_CachedTokens detail > 0)))
             then NewUnclassifiedTokenBreakdown tot
             else semanticsDispatch detail semantics)
      else semanticsDispatch detail semantics)"

definition EnsureTokenBreakdownForProvider :: "Detail \<Rightarrow> string \<Rightarrow> string \<Rightarrow> Detail" where
  "EnsureTokenBreakdownForProvider detail provider executorType =
     (let detail =
        (if \<not> Valid (d_TokenBreakdown detail)
         then (let semantics = tokenAccountingSemanticsFor provider executorType;
                   detail = (if d_CacheReadTokens detail = 0 \<and> d_CachedTokens detail > 0
                       \<and> d_InputTokens detail = 0 \<and> d_OutputTokens detail = 0
                       \<and> d_ReasoningTokens detail = 0 \<and> d_CacheCreationTokens detail = 0
                       \<and> d_TotalTokens detail = 0
                       \<and> (semantics = SemanticsSubset \<or> semantics = SemanticsSeparateReasoning)
                     then detail\<lparr>d_CacheReadTokens := d_CachedTokens detail\<rparr> else detail)
           in detail\<lparr>d_TokenBreakdown := tokenBreakdownForSemantics detail semantics\<rparr>)
         else detail)
      in if d_TotalTokens detail = 0
         then detail\<lparr>d_TotalTokens := tb_TotalTokens (d_TokenBreakdown detail)\<rparr> else detail)"

definition EnsureTokenBreakdown :: "Detail \<Rightarrow> Detail" where
  "EnsureTokenBreakdown detail = EnsureTokenBreakdownForProvider detail [] []"

section \<open>Correctness of the checked sums\<close>

lemma nonNegativeSum_loop_spec:
  assumes "0 \<le> t" "t \<le> max_int64" "\<forall>v\<in>set vs. in64 v"
  shows "nonNegativeSum_loop t vs =
    (if (\<forall>v\<in>set vs. 0 \<le> v) \<and> t + sum_list vs \<le> max_int64 then (t + sum_list vs, True)
     else (0, False))"
  using assms
proof (induction vs arbitrary: t)
  case Nil
  then show ?case by simp
next
  case (Cons v vs)
  show ?case
  proof (cases "0 \<le> v \<and> t + v \<le> max_int64")
    case True
    with Cons.prems have w: "wrap64 (max_int64 - v) = max_int64 - v" "wrap64 (t + v) = t + v"
      by (auto simp: in64_def intro!: wrap64_id)
    have "nonNegativeSum_loop (t + v) vs =
      (if (\<forall>v\<in>set vs. 0 \<le> v) \<and> t + v + sum_list vs \<le> max_int64 then (t + v + sum_list vs, True)
       else (0, False))"
      using True Cons.prems by (intro Cons.IH) auto
    with w True show ?thesis by (simp add: add.assoc)
  next
    case False
    have w: "0 \<le> v \<Longrightarrow> wrap64 (max_int64 - v) = max_int64 - v"
      using Cons.prems by (auto simp: in64_def intro!: wrap64_id)
    have big: "max_int64 < t + (v + sum_list vs)" if "0 \<le> v" "\<forall>u\<in>set vs. 0 \<le> u"
      using False that sum_list_nonneg [of vs] by auto
    show ?thesis
    proof (cases "0 \<le> v \<and> (\<forall>u\<in>set vs. 0 \<le> u)")
      case True
      with big w False show ?thesis by simp
    next
      case outer: False
      with False w show ?thesis by auto
    qed
  qed
qed

lemma nonNegativeSum_spec:
  "\<forall>v\<in>set vs. in64 v \<Longrightarrow> nonNegativeSum vs =
    (if (\<forall>v\<in>set vs. 0 \<le> v) \<and> sum_list vs \<le> max_int64 then (sum_list vs, True) else (0, False))"
  unfolding nonNegativeSum_def by (subst nonNegativeSum_loop_spec) auto

lemma nonNegativeSum2:
  "in64 a \<Longrightarrow> in64 b \<Longrightarrow> nonNegativeSum [a, b] =
    (if 0 \<le> a \<and> 0 \<le> b \<and> a + b \<le> max_int64 then (a + b, True) else (0, False))"
  by (subst nonNegativeSum_spec) auto

lemma nonNegativeSum3:
  "in64 a \<Longrightarrow> in64 b \<Longrightarrow> in64 c \<Longrightarrow> nonNegativeSum [a, b, c] =
    (if 0 \<le> a \<and> 0 \<le> b \<and> 0 \<le> c \<and> a + b + c \<le> max_int64 then (a + b + c, True) else (0, False))"
  by (subst nonNegativeSum_spec) (auto simp: add.assoc)

lemma resolveAccountingTotal_ok:
  "resolveAccountingTotal t e = (r, True) \<longleftrightarrow> 0 \<le> e \<and> r = e \<and> (t = 0 \<or> t = e)"
  by (auto simp: resolveAccountingTotal_def)

section \<open>Every constructor keeps the invariant\<close>

text \<open>
  What a breakdown promises: it is valid, and its six leaf buckets add up to its total as
  integers. \<open>Valid\<close> alone compares the sums modulo $2^{64}$.
\<close>

definition leaf_sum :: "TokenBreakdown \<Rightarrow> int" where
  "leaf_sum b = in_UncachedTokens (tb_Input b) + in_CacheReadTokens (tb_Input b)
     + in_CacheWriteTokens (tb_Input b) + out_NonReasoningTokens (tb_Output b)
     + out_ReasoningTokens (tb_Output b) + tb_UnclassifiedTokens b"

definition Exact :: "TokenBreakdown \<Rightarrow> bool" where
  "Exact b \<longleftrightarrow> Valid b \<and> tb_TotalTokens b = leaf_sum b"

lemma Exact_intro:
  assumes "validTokenAccountingQuality q" "0 \<le> u" "0 \<le> r" "0 \<le> w" "0 \<le> nr" "0 \<le> rs" "0 \<le> un"
    and "i = u + r + w" "ot = nr + rs" "t = i + ot + un" "t \<le> max_int64"
    and "q = QualityComplete \<Longrightarrow> un = 0"
  shows "Exact \<lparr>tb_SchemaVersion = 2, tb_Quality = q, tb_TotalTokens = t,
      tb_Input = \<lparr>in_TotalTokens = i, in_UncachedTokens = u, in_CacheReadTokens = r,
        in_CacheWriteTokens = w\<rparr>,
      tb_Output = \<lparr>out_TotalTokens = ot, out_NonReasoningTokens = nr, out_ReasoningTokens = rs\<rparr>,
      tb_UnclassifiedTokens = un\<rparr>"
proof -
  have "in64 (u + r)" "in64 (u + r + w)" "in64 (nr + rs)" "in64 (i + ot)" "in64 (i + ot + un)"
    using assms by (auto simp: in64_def)
  then show ?thesis using assms by (auto simp: Exact_def leaf_sum_def Valid_def wrap64_id)
qed

lemma Exact_inconsistent: "in64 t \<Longrightarrow> in64 f \<Longrightarrow> Exact (inconsistentTokenBreakdown t f)"
  by (auto simp: inconsistentTokenBreakdown_def Let_def in64_def intro!: Exact_intro)

lemma Exact_unclassified: "in64 t \<Longrightarrow> Exact (NewUnclassifiedTokenBreakdown t)"
  by (auto simp: NewUnclassifiedTokenBreakdown_def in64_def intro!: Exact_intro)

lemma in64_zero [simp]: "in64 0"
  by (simp add: in64_def)

text \<open>The subtractions of the subset constructors do not wrap when the checks have passed.\<close>

lemma subset_wraps:
  assumes "in64 i" "0 \<le> r" "0 \<le> w" "r + w \<le> i"
  shows "wrap64 (r + w) = r + w" "wrap64 (wrap64 (i - r) - w) = i - r - w"
    "wrap64 (i - r) = i - r" "wrap64 (i - r - w) = i - r - w"
proof -
  have "in64 (r + w)" "in64 (i - r)" "in64 (i - r - w)" using assms by (auto simp: in64_def)
  then show "wrap64 (r + w) = r + w" "wrap64 (wrap64 (i - r) - w) = i - r - w"
      "wrap64 (i - r) = i - r" "wrap64 (i - r - w) = i - r - w"
    by (simp_all add: wrap64_id)
qed

lemma diff_wrap: "0 \<le> s \<Longrightarrow> s \<le> t \<Longrightarrow> in64 t \<Longrightarrow> wrap64 (t - s) = t - s"
  by (rule wrap64_id) (auto simp: in64_def)

lemma sum_wrap: "0 \<le> r \<Longrightarrow> 0 \<le> w \<Longrightarrow> r + w \<le> max_int64 \<Longrightarrow> wrap64 (r + w) = r + w"
  by (rule wrap64_id) (auto simp: in64_def)

lemma Exact_subset:
  assumes "in64 i" "in64 r" "in64 w" "in64 ot" "in64 rs" "in64 t"
    and no_overflow: "r + w \<le> max_int64"
  shows "Exact (NewSubsetTokenBreakdown i r w ot rs t)"
proof (cases "0 \<le> i \<and> 0 \<le> ot \<and> i + ot \<le> max_int64 \<and> 0 \<le> r \<and> 0 \<le> w \<and> 0 \<le> rs \<and> r + w \<le> i \<and> rs \<le> ot
    \<and> (t = 0 \<or> t = i + ot)")
  case True
  then have "NewSubsetTokenBreakdown i r w ot rs t =
    \<lparr>tb_SchemaVersion = 2, tb_Quality = QualityComplete, tb_TotalTokens = i + ot,
      tb_Input = \<lparr>in_TotalTokens = i, in_UncachedTokens = i - r - w, in_CacheReadTokens = r,
        in_CacheWriteTokens = w\<rparr>,
      tb_Output = \<lparr>out_TotalTokens = ot, out_NonReasoningTokens = ot - rs, out_ReasoningTokens = rs\<rparr>,
      tb_UnclassifiedTokens = 0\<rparr>"
    using assms(1,4) by (auto simp: NewSubsetTokenBreakdown_def nonNegativeSum2 subset_wraps diff_wrap
      resolveAccountingTotal_def)
  with True show ?thesis by (auto intro!: Exact_intro)
next
  case False
  have e: "in64 (fst (nonNegativeSum [i, ot]))"
    using assms(1,4) by (simp add: nonNegativeSum2) (simp add: in64_def)
  have "NewSubsetTokenBreakdown i r w ot rs t
      = inconsistentTokenBreakdown t (fst (nonNegativeSum [i, ot]))"
  proof (cases "0 \<le> i \<and> 0 \<le> ot \<and> i + ot \<le> max_int64 \<and> 0 \<le> r \<and> 0 \<le> w")
    case True
    then have wr: "wrap64 (r + w) = r + w" using no_overflow by (intro sum_wrap) auto
    have "\<not> snd (resolveAccountingTotal t (i + ot)) \<or> rs < 0 \<or> i < r + w \<or> ot < rs"
      using False True by (auto simp: resolveAccountingTotal_def)
    with True wr show ?thesis using assms(1,4)
      by (auto simp: NewSubsetTokenBreakdown_def nonNegativeSum2 split: prod.splits)
  next
    case outer: False
    then show ?thesis using assms(1,4)
      by (auto simp: NewSubsetTokenBreakdown_def nonNegativeSum2)
  qed
  with e assms show ?thesis by (simp add: Exact_inconsistent)
qed

lemma Exact_separate:
  assumes "in64 i" "in64 r" "in64 w" "in64 nr" "in64 rs" "in64 t"
    and no_overflow: "r + w \<le> max_int64"
  shows "Exact (NewSeparateReasoningTokenBreakdown i r w nr rs t)"
proof (cases "0 \<le> i \<and> 0 \<le> r \<and> 0 \<le> w \<and> r + w \<le> i \<and> 0 \<le> nr \<and> 0 \<le> rs \<and> nr + rs \<le> max_int64
    \<and> i + (nr + rs) \<le> max_int64 \<and> (t = 0 \<or> t = i + (nr + rs))")
  case True
  then have "in64 (nr + rs)" by (auto simp: in64_def)
  with True have "NewSeparateReasoningTokenBreakdown i r w nr rs t =
    \<lparr>tb_SchemaVersion = 2, tb_Quality = QualityComplete, tb_TotalTokens = i + (nr + rs),
      tb_Input = \<lparr>in_TotalTokens = i, in_UncachedTokens = i - r - w, in_CacheReadTokens = r,
        in_CacheWriteTokens = w\<rparr>,
      tb_Output = \<lparr>out_TotalTokens = nr + rs, out_NonReasoningTokens = nr, out_ReasoningTokens = rs\<rparr>,
      tb_UnclassifiedTokens = 0\<rparr>"
    using assms(1-5) by (auto simp: NewSeparateReasoningTokenBreakdown_def nonNegativeSum2
      subset_wraps resolveAccountingTotal_def)
  with True show ?thesis by (auto intro!: Exact_intro)
next
  case False
  show ?thesis
  proof (cases "0 \<le> i \<and> 0 \<le> r \<and> 0 \<le> w \<and> r + w \<le> i \<and> 0 \<le> nr \<and> 0 \<le> rs \<and> nr + rs \<le> max_int64")
    case True
    then have wr: "wrap64 (r + w) = r + w" and o: "in64 (nr + rs)"
      using no_overflow by (auto intro!: sum_wrap simp: in64_def)
    have e: "in64 (fst (nonNegativeSum [i, nr + rs]))"
      using assms(1) o by (simp add: nonNegativeSum2) (simp add: in64_def)
    have "NewSeparateReasoningTokenBreakdown i r w nr rs t
        = inconsistentTokenBreakdown t (fst (nonNegativeSum [i, nr + rs]))"
    proof (cases "i + (nr + rs) \<le> max_int64")
      case le: True
      with False True have "\<not> snd (resolveAccountingTotal t (i + (nr + rs)))"
        by (auto simp: resolveAccountingTotal_def)
      with True le wr o show ?thesis using assms(1,4,5)
        by (auto simp: NewSeparateReasoningTokenBreakdown_def nonNegativeSum2 split: prod.splits)
    next
      case gt: False
      with True wr o show ?thesis using assms(1,4,5)
        by (auto simp: NewSeparateReasoningTokenBreakdown_def nonNegativeSum2)
    qed
    with e assms show ?thesis by (simp add: Exact_inconsistent)
  next
    case outer: False
    have "\<exists>f. in64 f \<and> NewSeparateReasoningTokenBreakdown i r w nr rs t
        = inconsistentTokenBreakdown t f"
    proof (cases "0 \<le> i \<and> 0 \<le> r \<and> 0 \<le> w \<and> r + w \<le> i")
      case True
      then have "wrap64 (r + w) = r + w" using no_overflow by (intro sum_wrap) auto
      moreover have "i \<le> max_int64" using assms(1) by (simp add: in64_def)
      ultimately show ?thesis using True outer assms(1,4,5)
        by (auto simp: NewSeparateReasoningTokenBreakdown_def nonNegativeSum2)
    next
      case no: False
      then have "NewSeparateReasoningTokenBreakdown i r w nr rs t = inconsistentTokenBreakdown t 0"
        using no_overflow by (auto simp: NewSeparateReasoningTokenBreakdown_def sum_wrap)
      then show ?thesis by (intro exI [of _ 0]) simp
    qed
    with assms show ?thesis by (auto intro: Exact_inconsistent)
  qed
qed

lemma Exact_independent:
  assumes "in64 u" "in64 r" "in64 w" "in64 nr" "in64 rs" "in64 t"
  shows "Exact (NewIndependentTokenBreakdown u r w nr rs t)"
proof (cases "0 \<le> u \<and> 0 \<le> r \<and> 0 \<le> w \<and> u + r + w \<le> max_int64 \<and> 0 \<le> nr \<and> 0 \<le> rs \<and> nr + rs \<le> max_int64")
  case True
  then have o: "in64 (u + r + w)" "in64 (nr + rs)" by (auto simp: in64_def)
  show ?thesis
  proof (cases "u + r + w + (nr + rs) \<le> max_int64 \<and> (t = 0 \<or> t = u + r + w + (nr + rs))")
    case total: True
    with True o show ?thesis using assms
      by (auto simp: NewIndependentTokenBreakdown_def nonNegativeSum2 nonNegativeSum3
        resolveAccountingTotal_def intro!: Exact_intro)
  next
    case False
    have e: "in64 (fst (nonNegativeSum [u + r + w, nr + rs]))"
      using o by (simp add: nonNegativeSum2) (simp add: in64_def)
    have "\<not> snd (resolveAccountingTotal t (u + r + w + (nr + rs)))
        \<or> max_int64 < u + r + w + (nr + rs)"
      using False True by (auto simp: resolveAccountingTotal_def)
    with True o have "NewIndependentTokenBreakdown u r w nr rs t
        = inconsistentTokenBreakdown t (fst (nonNegativeSum [u + r + w, nr + rs]))"
      using assms by (auto simp: NewIndependentTokenBreakdown_def nonNegativeSum2 nonNegativeSum3
        split: prod.splits)
    with e assms show ?thesis by (simp add: Exact_inconsistent)
  qed
next
  case False
  have e: "in64 (fst (nonNegativeSum [fst (nonNegativeSum [u, r, w]), fst (nonNegativeSum [nr, rs])]))"
    using assms by (simp add: nonNegativeSum2 nonNegativeSum3) (auto simp: in64_def nonNegativeSum2)
  have "NewIndependentTokenBreakdown u r w nr rs t = inconsistentTokenBreakdown t
      (fst (nonNegativeSum [fst (nonNegativeSum [u, r, w]), fst (nonNegativeSum [nr, rs])]))"
    using False assms
    by (auto simp: NewIndependentTokenBreakdown_def nonNegativeSum2 nonNegativeSum3 split: prod.splits)
  with e assms show ?thesis by (simp add: Exact_inconsistent)
qed

lemma Exact_partial_subset:
  assumes "in64 i" "in64 r" "in64 w" "in64 ot" "in64 rs" "in64 t"
  shows "Exact (NewPartialSubsetTokenBreakdown i r w ot rs t)"
proof (cases "0 \<le> i \<and> 0 \<le> ot \<and> i + ot \<le> max_int64 \<and> 0 \<le> r \<and> 0 \<le> w \<and> 0 \<le> rs \<and> r + w \<le> i \<and> rs \<le> ot
    \<and> (t = 0 \<or> i + ot \<le> t)")
  case True
  then have w: "wrap64 (t - (i + ot)) = t - (i + ot)" if "t \<noteq> 0"
    using assms(6) that by (intro diff_wrap) auto
  have le: "i \<le> max_int64" using assms(1) by (simp add: in64_def)
  with True have rw: "r + w \<le> max_int64" by simp
  show ?thesis
  proof (cases "t = 0")
    case zero: True
    with True rw show ?thesis using assms(1-5)
      by (simp add: NewPartialSubsetTokenBreakdown_def nonNegativeSum2 diff_wrap wrap64_id Exact_intro)
  next
    case nonzero: False
    have "t \<le> max_int64" using assms(6) by (simp add: in64_def)
    with True rw w [OF nonzero] nonzero show ?thesis using assms(1-5)
      by (auto simp: NewPartialSubsetTokenBreakdown_def nonNegativeSum2 diff_wrap intro!: Exact_intro)
  qed
next
  case False
  have e: "in64 (fst (nonNegativeSum [i, ot]))"
    using assms(1,4) by (simp add: nonNegativeSum2) (simp add: in64_def)
  have "NewPartialSubsetTokenBreakdown i r w ot rs t
      = inconsistentTokenBreakdown t (fst (nonNegativeSum [i, ot]))"
  proof (cases "0 \<le> i \<and> 0 \<le> ot \<and> i + ot \<le> max_int64 \<and> 0 \<le> r \<and> 0 \<le> w \<and> r + w \<le> max_int64")
    case True
    with False show ?thesis using assms
      by (auto simp: NewPartialSubsetTokenBreakdown_def nonNegativeSum2)
  next
    case outer: False
    then show ?thesis using assms
      by (auto simp: NewPartialSubsetTokenBreakdown_def nonNegativeSum2)
  qed
  with e assms show ?thesis by (simp add: Exact_inconsistent)
qed

lemmas Exact_constructors =
  Exact_inconsistent Exact_unclassified Exact_subset Exact_separate Exact_independent
  Exact_partial_subset

section \<open>Normalised records\<close>

text \<open>Every counter of the record fits an \<open>int64\<close>, and its two cache counters add up in one.\<close>

definition detail_ok :: "Detail \<Rightarrow> bool" where
  "detail_ok d \<longleftrightarrow> in64 (d_InputTokens d) \<and> in64 (d_OutputTokens d) \<and> in64 (d_ReasoningTokens d)
     \<and> in64 (d_CachedTokens d) \<and> in64 (d_CacheReadTokens d) \<and> in64 (d_CacheCreationTokens d)
     \<and> in64 (d_TotalTokens d) \<and> d_CacheReadTokens d + d_CacheCreationTokens d \<le> max_int64"

lemma in64_max: "in64 a \<Longrightarrow> in64 b \<Longrightarrow> in64 (if a < b then b else a)"
  by simp

lemma in64_lower_bound: "detail_ok d \<Longrightarrow> in64 (fst (unclassifiedTokenLowerBound d))"
proof -
  assume ok: "detail_ok d"
  have s: "in64 (fst (nonNegativeSum [a, b]))" if "in64 a" "in64 b" for a b
    using that by (simp add: nonNegativeSum2) (simp add: in64_def)
  let ?c = "nonNegativeSum [d_CacheReadTokens d, d_CacheCreationTokens d]"
  have c: "in64 (fst ?c)" using ok by (intro s) (auto simp: detail_ok_def)
  show ?thesis using ok s [OF in64_max in64_max] c
    by (auto simp: unclassifiedTokenLowerBound_def Let_def detail_ok_def split_def intro!: s)
qed

lemma Exact_semanticsDispatch: "detail_ok d \<Longrightarrow> Exact (semanticsDispatch d sem)"
  using in64_lower_bound [of d]
  by (cases sem)
    (auto simp: semanticsDispatch_def detail_ok_def split_def Let_def intro!: Exact_constructors)

lemma Exact_tokenBreakdownForSemantics:
  "detail_ok d \<Longrightarrow> Exact (tokenBreakdownForSemantics d sem)"
  using in64_lower_bound [of d] Exact_semanticsDispatch [of d sem]
  by (auto simp: tokenBreakdownForSemantics_def split_def Let_def intro!: Exact_constructors)

lemma Exact_Valid: "Exact b \<Longrightarrow> Valid b"
  by (simp add: Exact_def)

lemma Exact_Ensure:
  assumes "detail_ok d" "\<not> Valid (d_TokenBreakdown d)"
  shows "Exact (d_TokenBreakdown (EnsureTokenBreakdownForProvider d p e))"
proof -
  have "detail_ok (d\<lparr>d_CacheReadTokens := d_CachedTokens d\<rparr>)" if "d_CacheCreationTokens d = 0"
    using assms(1) that by (simp add: detail_ok_def) (simp add: in64_def)
  then show ?thesis
    using assms by (simp add: EnsureTokenBreakdownForProvider_def Let_def Exact_tokenBreakdownForSemantics)
qed

lemma Valid_Ensure:
  "detail_ok d \<Longrightarrow> Valid (d_TokenBreakdown (EnsureTokenBreakdownForProvider d p e))"
  using Exact_Ensure [of d p e] by (cases "Valid (d_TokenBreakdown d)")
    (simp_all add: Exact_Valid, simp add: EnsureTokenBreakdownForProvider_def Let_def)

lemma Ensure_Valid:
  "Valid (d_TokenBreakdown d) \<Longrightarrow> EnsureTokenBreakdownForProvider d p e =
    (if d_TotalTokens d = 0 then d\<lparr>d_TotalTokens := tb_TotalTokens (d_TokenBreakdown d)\<rparr> else d)"
  by (simp add: EnsureTokenBreakdownForProvider_def Let_def)

lemma Ensure_total:
  "d_TotalTokens (EnsureTokenBreakdownForProvider d p e) =
    (if d_TotalTokens d = 0
     then tb_TotalTokens (d_TokenBreakdown (EnsureTokenBreakdownForProvider d p e))
     else d_TotalTokens d)"
  by (simp add: EnsureTokenBreakdownForProvider_def Let_def)

section \<open>Properties\<close>


abbreviation sample_detail :: Detail where
  "sample_detail \<equiv> \<lparr>d_InputTokens = 100, d_OutputTokens = 40, d_ReasoningTokens = 15,
     d_CachedTokens = 0, d_CacheReadTokens = 60, d_CacheCreationTokens = 10, d_TotalTokens = 0,
     d_TokenBreakdown = \<lparr>tb_SchemaVersion = 0, tb_Quality = QualityOther [], tb_TotalTokens = 0,
       tb_Input = zeroInput, tb_Output = zeroOutput, tb_UnclassifiedTokens = 0\<rparr>,
     d_ResponseServiceTier = []\<rparr>"

lemma sample_detail_ok: "detail_ok sample_detail"
  by (simp add: detail_ok_def in64_def)


text \<open>
  normalisation is idempotent: a record that has passed through
  \<open>EnsureTokenBreakdownForProvider\<close> once is left unchanged by a second pass, even one that
  names another provider or executor (the usage record travels through several of them).
\<close>

theorem EnsureTokenBreakdownForProvider_idem:
  assumes "detail_ok d"
  shows "EnsureTokenBreakdownForProvider (EnsureTokenBreakdownForProvider d p e) p' e'
    = EnsureTokenBreakdownForProvider d p e"
  using Valid_Ensure [OF assms, of p e] Ensure_total [of d p e]
  by (simp add: Ensure_Valid)

lemma EnsureTokenBreakdownForProvider_idem_witness:
  "EnsureTokenBreakdownForProvider (EnsureTokenBreakdownForProvider sample_detail ''openai'' [])
     ''claude'' [] = EnsureTokenBreakdownForProvider sample_detail ''openai'' []"
  using EnsureTokenBreakdownForProvider_idem [OF sample_detail_ok] .

text \<open>
  \<open>NewSubsetTokenBreakdown\<close> and \<open>NewSeparateReasoningTokenBreakdown\<close> add their two cache
  counters without the overflow check the other constructors use: two counters of $2^{62}$ wrap
  to a negative sum that passes the guard, and the result is marked complete although it
  violates the invariant (its uncached count is negative). The partial constructor detects the
  same input.
\<close>

theorem subset_cache_overflow:
  "tb_Quality (NewSubsetTokenBreakdown 5 4611686018427387904 4611686018427387904 3 0 8)
     = QualityComplete
   \<and> \<not> Valid (NewSubsetTokenBreakdown 5 4611686018427387904 4611686018427387904 3 0 8)
   \<and> tb_Quality (NewSeparateReasoningTokenBreakdown 5 4611686018427387904 4611686018427387904 3 0 8)
     = QualityComplete
   \<and> \<not> Valid (NewSeparateReasoningTokenBreakdown 5 4611686018427387904 4611686018427387904 3 0 8)
   \<and> tb_Quality (NewPartialSubsetTokenBreakdown 5 4611686018427387904 4611686018427387904 3 0 8)
     = QualityInconsistent"
  by code_simp

end
