(* ===== verification/AnyValue.thy ===== *)
theory AnyValue
  imports Prelude "HOL-Library.Word"
begin

text \<open>
  Go values of static type \<open>any\<close>, as configuration files and auth-file metadata carry them, the
  conversions of \<open>strconv\<close> between integers and decimal text, and the two tolerant readers
  \<open>parseBoolAny\<close> and \<open>parseIntAny\<close> of \<open>backend/sdk/cliproxy/auth/types.go\<close>.

  A sized integer is a word of its width. A finite \<open>float64\<close> is its mantissa and binary exponent,
  so its value is exactly $m \cdot 2^e$; a \<open>float32\<close> is one of the same shape, since widening it
  is exact. \<open>GoMap\<close> and \<open>GoStringMap\<close> are \<open>map[string]any\<close> and \<open>map[string]string\<close>, \<open>GoDuration\<close> is a
  \<open>time.Duration\<close>; other composite values, which the readers treat as they treat a map, have no
  constructor of their own.
\<close>

datatype gofloat = FNaN | FInf bool | FFin int int

datatype goany =
    GoNil | GoBool bool | GoString string | GoNumber string
  | GoInt "64 word" | GoInt8 "8 word" | GoInt16 "16 word" | GoInt32 "32 word" | GoInt64 "64 word"
  | GoUint "64 word" | GoUint8 "8 word" | GoUint16 "16 word" | GoUint32 "32 word" | GoUint64 "64 word"
  | GoFloat64 gofloat | GoFloat32 gofloat
  | GoMap "(string \<times> goany) list" | GoStringMap "(string \<times> string) list" | GoDuration "64 word"

section \<open>Floats\<close>

text \<open>\<open>math.Trunc(f) == f\<close>, and the conversion to \<open>int64\<close>: truncation towards zero, and the
  amd64 result (the least integer) for a value that does not fit.\<close>

fun float_integral :: "gofloat \<Rightarrow> bool" where
  "float_integral (FFin m e) \<longleftrightarrow> 0 \<le> e \<or> m mod 2 ^ nat (- e) = 0"
| "float_integral (FInf _) \<longleftrightarrow> True"
| "float_integral FNaN \<longleftrightarrow> False"

definition fin_trunc :: "int \<Rightarrow> int \<Rightarrow> int" where
  "fin_trunc m e = (if 0 \<le> e then m * 2 ^ nat e else go_div m (2 ^ nat (- e)))"

fun float_to_int64 :: "gofloat \<Rightarrow> int" where
  "float_to_int64 (FFin m e) = (let n = fin_trunc m e in if in64 n then n else min_int64)"
| "float_to_int64 _ = min_int64"

section \<open>Decimal text\<close>

definition digit_char :: "nat \<Rightarrow> char" where
  "digit_char n = char_of (48 + n)"

fun format_nat :: "nat \<Rightarrow> string" where
  "format_nat n = (if n < 10 then [digit_char n] else format_nat (n div 10) @ [digit_char (n mod 10)])"

declare format_nat.simps [simp del]

definition format_int :: "int \<Rightarrow> string" where
  "format_int n = (if n < 0 then CHR ''-'' # format_nat (nat (- n)) else format_nat (nat n))"

lemma of_char_digit: "n < 10 \<Longrightarrow> of_char (digit_char n) = (48 + n :: nat)"
  by (simp add: digit_char_def of_char_of)

lemma is_digit_digit_char [simp]: "n < 10 \<Longrightarrow> is_digit (digit_char n)"
  by (simp add: is_digit_def less_eq_char_def of_char_digit)

lemma int_of_char_digit: "n < 10 \<Longrightarrow> int (of_char (digit_char n)) = 48 + int n"
  by (simp add: of_char_digit)

lemma format_nat_digits: "list_all is_digit (format_nat n) \<and> format_nat n \<noteq> []"
  by (induction n rule: format_nat.induct) (subst (1 2) format_nat.simps, auto)

lemma digits_val_snoc: "digits_val (s @ [c]) = 10 * digits_val s + (int (of_char c) - 48)"
  by (simp add: digits_val_def)

lemma digits_val_format: "digits_val (format_nat n) = int n"
proof (induction n rule: format_nat.induct)
  case (1 n)
  show ?case
  proof (cases "n < 10")
    case True
    then show ?thesis
      by (subst format_nat.simps) (simp add: digits_val_def int_of_char_digit)
  next
    case False
    then have "digits_val (format_nat n) = 10 * int (n div 10) + int (n mod 10)"
      using 1 by (subst format_nat.simps) (simp add: digits_val_snoc of_char_digit)
    also have "\<dots> = int (10 * (n div 10) + n mod 10)"
      by (simp only: of_nat_add of_nat_mult of_nat_numeral)
    also have "\<dots> = int n" by (simp only: mult_div_mod_eq)
    finally show ?thesis .
  qed
qed

lemma parse_digits_format [simp]: "parse_digits (format_nat n) = Some (int n)"
  by (simp add: parse_digits_def format_nat_digits digits_val_format)

lemma digit_not_sign: "is_digit c \<Longrightarrow> c \<noteq> CHR ''-'' \<and> c \<noteq> CHR ''+''"
  by (auto simp: is_digit_def less_eq_char_def)

lemma digit_not_space: "is_digit c \<Longrightarrow> \<not> is_space c"
  by (auto simp: is_digit_def is_space_def less_eq_char_def)

lemma format_nat_Cons: "\<exists>c r. format_nat n = c # r \<and> is_digit c"
  using format_nat_digits [of n] by (cases "format_nat n") auto

text \<open>\<open>FormatInt\<close> and \<open>ParseInt\<close> are inverse on \<open>int64\<close>.\<close>

lemma parse_format_int: "in64 n \<Longrightarrow> parse_int64 (format_int n) = Some n"
proof (cases "n < 0")
  case True
  then show "in64 n \<Longrightarrow> ?thesis" by (simp add: parse_int64_def format_int_def)
next
  case False
  obtain c r where "format_nat (nat n) = c # r" "is_digit c" using format_nat_Cons by blast
  with False parse_digits_format [of "nat n"] show "in64 n \<Longrightarrow> ?thesis"
    by (auto simp: parse_int64_def format_int_def dest: digit_not_sign)
qed

lemma trim_space_none: "list_all (\<lambda>c. \<not> is_space c) s \<Longrightarrow> trim_space s = s"
  by (simp add: trim_space_def trim_left_def trim_right_def dropWhile_none)

lemma trim_space_format [simp]: "trim_space (format_int n) = format_int n"
proof (rule trim_space_none)
  have "list_all (\<lambda>c. \<not> is_space c) (format_nat k)" for k
    using format_nat_digits [of k] by (auto simp: list_all_iff digit_not_space)
  moreover have "\<not> is_space CHR ''-''" by (simp add: is_space_def)
  ultimately show "list_all (\<lambda>c. \<not> is_space c) (format_int n)" by (simp add: format_int_def)
qed

lemma format_int_not_Nil [simp]: "format_int n \<noteq> []"
  using format_nat_digits by (simp add: format_int_def)

section \<open>Tolerant readers\<close>

text \<open>\<open>strconv.ParseBool\<close>.\<close>

definition parse_bool :: "string \<Rightarrow> bool option" where
  "parse_bool s =
     (if s \<in> set [''1'', ''t'', ''T'', ''TRUE'', ''true'', ''True''] then Some True
      else if s \<in> set [''0'', ''f'', ''F'', ''FALSE'', ''false'', ''False''] then Some False
      else None)"

fun float_zero :: "gofloat \<Rightarrow> bool" where
  "float_zero (FFin m e) = (m = 0)"
| "float_zero _ = False"

fun parseBoolAny :: "goany \<Rightarrow> bool option" where
  "parseBoolAny (GoBool b) = Some b"
| "parseBoolAny (GoString s) =
     (let trimmed = trim_space s in if trimmed = [] then None else parse_bool trimmed)"
| "parseBoolAny (GoFloat64 f) = Some (\<not> float_zero f)"
| "parseBoolAny (GoNumber s) = map_option (\<lambda>n. n \<noteq> 0) (parse_int64 s)"
| "parseBoolAny _ = None"

fun parseIntAny :: "goany \<Rightarrow> int option" where
  "parseIntAny (GoInt w) = Some (sint w)"
| "parseIntAny (GoInt32 w) = Some (sint w)"
| "parseIntAny (GoInt64 w) = Some (sint w)"
| "parseIntAny (GoFloat64 f) = Some (float_to_int64 f)"
| "parseIntAny (GoNumber s) = parse_int64 s"
| "parseIntAny (GoString s) =
     (let trimmed = trim_space s in if trimmed = [] then None else parse_int64 trimmed)"
| "parseIntAny _ = None"

lemma parse_int64_in64: "parse_int64 s = Some n \<Longrightarrow> in64 n"
  by (auto simp: parse_int64_def Let_def split: option.splits if_splits)

lemma in64_sint64: "in64 (sint (w :: 64 word))"
  using sint_ge [of w] sint_lt [of w] by (simp add: in64_def)

lemma in64_sint32: "in64 (sint (w :: 32 word))"
  using sint_ge [of w] sint_lt [of w] by (simp add: in64_def)

lemma in64_float: "in64 (float_to_int64 f)"
  by (cases f) (simp_all add: Let_def, simp_all add: in64_def)

lemma parseIntAny_in64: "parseIntAny v = Some n \<Longrightarrow> in64 n"
  by (cases v) (auto simp: in64_sint64 in64_sint32 in64_float Let_def
    dest: parse_int64_in64 split: if_splits)

end
