(* ===== verification/CredentialWeight.thy ===== *)
theory CredentialWeight
  imports AnyValue
begin

text \<open>
  Credential weights (\<open>backend/internal/credentialweight/weight.go\<close>): the validation of the
  routing weight a credential may carry, as a scheduler attribute (text) or as a value of the auth
  file's metadata. An error is its own datatype; a parse error of \<open>strconv\<close> keeps its case.
\<close>

abbreviation (input) DefaultWeight :: int where "DefaultWeight \<equiv> 1"
abbreviation (input) MaxWeight :: int where "MaxWeight \<equiv> 1000000"

datatype weight_error = WeightExceedsMax | WeightNotInteger | WeightParseFailed

definition Normalize :: "int \<Rightarrow> weight_error + int" where
  "Normalize weight =
     (if weight \<le> 0 then Inr 0
      else if weight > MaxWeight then Inl WeightExceedsMax
      else Inr weight)"

definition ParseString :: "string \<Rightarrow> weight_error + int" where
  "ParseString raw =
     (let raw = trim_space raw
      in if raw = [] then Inr DefaultWeight
         else (case parse_int64 raw of
                 None \<Rightarrow> Inl WeightParseFailed
               | Some weight \<Rightarrow> Normalize weight))"

text \<open>The \<open>float64\<close> case of \<open>ParseValue\<close>; the \<open>float32\<close> case widens and comes here.\<close>

fun parseFloatWeight :: "gofloat \<Rightarrow> weight_error + int" where
  "parseFloatWeight FNaN = Inl WeightNotInteger"
| "parseFloatWeight (FInf _) = Inl WeightNotInteger"
| "parseFloatWeight (FFin m e) =
     (if \<not> float_integral (FFin m e) then Inl WeightNotInteger
      else if m \<le> 0 then Inr 0
      else if fin_trunc m e > MaxWeight then Inl WeightExceedsMax
      else Inr (fin_trunc m e))"

fun ParseValue :: "goany \<Rightarrow> weight_error + int" where
  "ParseValue (GoInt w) = Normalize (sint w)"
| "ParseValue (GoInt8 w) = Normalize (sint w)"
| "ParseValue (GoInt16 w) = Normalize (sint w)"
| "ParseValue (GoInt32 w) = Normalize (sint w)"
| "ParseValue (GoInt64 w) = Normalize (sint w)"
| "ParseValue (GoUint w) = (if uint w > MaxWeight then Inl WeightExceedsMax else Inr (uint w))"
| "ParseValue (GoUint8 w) = Inr (uint w)"
| "ParseValue (GoUint16 w) = Inr (uint w)"
| "ParseValue (GoUint32 w) = (if uint w > MaxWeight then Inl WeightExceedsMax else Inr (uint w))"
| "ParseValue (GoUint64 w) = (if uint w > MaxWeight then Inl WeightExceedsMax else Inr (uint w))"
| "ParseValue (GoFloat64 f) = parseFloatWeight f"
| "ParseValue (GoFloat32 f) = parseFloatWeight f"
| "ParseValue (GoNumber s) =
     (case parse_int64 s of None \<Rightarrow> Inl WeightParseFailed | Some weight \<Rightarrow> Normalize weight)"
| "ParseValue (GoString s) = ParseString s"
| "ParseValue GoNil = Inl WeightNotInteger"
| "ParseValue (GoBool _) = Inl WeightNotInteger"
| "ParseValue (GoMap _) = Inl WeightNotInteger"
| "ParseValue (GoStringMap _) = Inl WeightNotInteger"
| "ParseValue (GoDuration _) = Inl WeightNotInteger"

section \<open>Range of an accepted weight\<close>

lemma Normalize_range: "Normalize n = Inr w \<Longrightarrow> 0 \<le> w \<and> w \<le> MaxWeight"
  by (auto simp: Normalize_def split: if_splits)

lemma Normalize_fixed: "0 \<le> w \<Longrightarrow> w \<le> MaxWeight \<Longrightarrow> Normalize w = Inr w"
  by (simp add: Normalize_def)

lemma ParseString_range: "ParseString s = Inr w \<Longrightarrow> 0 \<le> w \<and> w \<le> MaxWeight"
  by (auto simp: ParseString_def Let_def dest: Normalize_range split: if_splits option.splits)

lemma parseFloatWeight_range: "parseFloatWeight f = Inr w \<Longrightarrow> 0 \<le> w \<and> w \<le> MaxWeight"
proof (cases f)
  case (FFin m e)
  have "0 < m \<Longrightarrow> 0 \<le> fin_trunc m e"
    by (simp add: fin_trunc_def go_div_nonneg pos_imp_zdiv_nonneg_iff)
  with FFin show "parseFloatWeight f = Inr w \<Longrightarrow> ?thesis" by (auto split: if_splits)
qed simp_all

lemma uint8_le: "uint (w :: 8 word) \<le> MaxWeight"
  using uint_lt2p [of w] by simp

lemma uint16_le: "uint (w :: 16 word) \<le> MaxWeight"
  using uint_lt2p [of w] by simp

lemma ParseValue_range: "ParseValue v = Inr w \<Longrightarrow> 0 \<le> w \<and> w \<le> MaxWeight"
  by (cases v) (auto simp: uint8_le uint16_le
    dest: Normalize_range ParseString_range parseFloatWeight_range split: if_splits option.splits)

lemma ParseString_format: "0 \<le> w \<Longrightarrow> w \<le> MaxWeight \<Longrightarrow> ParseString (format_int w) = Inr w"
  by (simp add: ParseString_def Let_def parse_format_int Normalize_fixed in64_def)

section \<open>Properties\<close>

text \<open>
  a weight the parser accepts from any metadata value, of every Go numeric type, lies between
  0 and \<open>MaxWeight\<close>; its decimal text is accepted as a scheduler attribute with the same value, so a
  weight survives the write of the metadata value to the attribute map.
\<close>

theorem ParseValue_roundtrip:
  "case ParseValue v of
     Inl _ \<Rightarrow> True
   | Inr w \<Rightarrow> 0 \<le> w \<and> w \<le> MaxWeight \<and> ParseString (format_int w) = Inr w"
  using ParseValue_range [of v] by (auto simp: ParseString_format split: sum.splits)

end
