(* ===== verification/AuthTypes.thy ===== *)
theory AuthTypes
  imports CredentialWeight
begin

text \<open>
  The credential record and its satellites (\<open>backend/sdk/cliproxy/auth/types.go\<close>, \<open>status.go\<close>,
  \<open>errors.go\<close>, \<open>classification.go\<close>, \<open>weight.go\<close>): the fields the runtime reads and writes, the
  accessors on attributes and metadata, the classification of a credential, the validation of its
  weight, and the ring of recent request counters. The fields \<open>Storage\<close> and \<open>Runtime\<close> are opaque
  to this code and are left out. A receiver or argument the callers guarantee to be non-nil is the
  record itself; the nil guards stay where a nil value can reach them (an option).
\<close>

section \<open>Data\<close>

datatype Status =
    StatusUnknown | StatusActive | StatusPending | StatusRefreshing | StatusError | StatusDisabled
  | StatusOther string

record AuthError =
  e_Code :: string
  e_Message :: string
  e_Retryable :: bool
  e_HTTPStatus :: int

record QuotaState =
  q_Exceeded :: bool
  q_Reason :: string
  q_NextRecoverAt :: gotime
  q_BackoffLevel :: int

record ModelState =
  s_Status :: Status
  s_StatusMessage :: string
  s_Unavailable :: bool
  s_NextRetryAfter :: gotime
  s_LastError :: "AuthError option"
  s_Quota :: QuotaState
  s_UpdatedAt :: gotime

record recentRequestBucket =
  rb_bucketID :: int
  rb_success :: int
  rb_failed :: int

record RecentRequestBucket =
  r_Time :: string
  r_Success :: int
  r_Failed :: int

record Auth =
  a_ID :: string
  a_Index :: string
  a_Provider :: string
  a_Prefix :: string
  a_FileName :: string
  a_Label :: string
  a_Status :: Status
  a_StatusMessage :: string
  a_Disabled :: bool
  a_Unavailable :: bool
  a_ProxyURL :: string
  a_Attributes :: "(string, string) gomap"
  a_Metadata :: "(string, goany) gomap"
  a_Quota :: QuotaState
  a_LastError :: "AuthError option"
  a_CreatedAt :: gotime
  a_UpdatedAt :: gotime
  a_LastRefreshedAt :: gotime
  a_NextRefreshAfter :: gotime
  a_NextRetryAfter :: gotime
  a_ModelStates :: "(string, ModelState option) gomap"
  a_Success :: int
  a_Failed :: int
  a_recentRequests :: "recentRequestBucket list"
  a_indexAssigned :: bool

abbreviation zeroQuota :: QuotaState where
  "zeroQuota \<equiv> \<lparr>q_Exceeded = False, q_Reason = [], q_NextRecoverAt = 0, q_BackoffLevel = 0\<rparr>"

abbreviation zeroBucket :: recentRequestBucket where
  "zeroBucket \<equiv> \<lparr>rb_bucketID = 0, rb_success = 0, rb_failed = 0\<rparr>"

abbreviation recentRequestBucketSeconds :: int where "recentRequestBucketSeconds \<equiv> 600"
abbreviation recentRequestBucketCount :: nat where "recentRequestBucketCount \<equiv> 20"

text \<open>A credential as a loader creates it: an identity, a provider, and zero values elsewhere.\<close>

definition new_auth :: "string \<Rightarrow> string \<Rightarrow> Auth" where
  "new_auth ident provider =
     \<lparr>a_ID = ident, a_Index = [], a_Provider = provider, a_Prefix = [], a_FileName = [], a_Label = [],
      a_Status = StatusActive, a_StatusMessage = [], a_Disabled = False, a_Unavailable = False,
      a_ProxyURL = [], a_Attributes = [], a_Metadata = [], a_Quota = zeroQuota, a_LastError = None,
      a_CreatedAt = 0, a_UpdatedAt = 0, a_LastRefreshedAt = 0, a_NextRefreshAfter = 0,
      a_NextRetryAfter = 0, a_ModelStates = [], a_Success = 0, a_Failed = 0,
      a_recentRequests = replicate recentRequestBucketCount zeroBucket, a_indexAssigned = False\<rparr>"

definition IsRequestScoped :: "AuthError \<Rightarrow> bool" where
  "IsRequestScoped e \<longleftrightarrow> e_Code e = ''request_scoped''"

definition errorText :: "AuthError \<Rightarrow> string" where
  "errorText e = (if e_Code e = [] then e_Message e else e_Code e @ '': '' @ e_Message e)"

section \<open>Attributes and metadata\<close>

definition authAttribute :: "Auth \<Rightarrow> string \<Rightarrow> string" where
  "authAttribute auth key = trim_space (m_get0 [] (a_Attributes auth) key)"

definition authMetadataString :: "Auth \<Rightarrow> string \<Rightarrow> string" where
  "authMetadataString auth key =
     (case m_get (a_Metadata auth) key of Some (GoString v) \<Rightarrow> trim_space v | _ \<Rightarrow> [])"

text \<open>The loop over the spellings of a metadata key that stops at the first value that parses.\<close>

fun firstParsed :: "(goany \<Rightarrow> 'a option) \<Rightarrow> (string, goany) gomap \<Rightarrow> string list \<Rightarrow> 'a option" where
  "firstParsed parse m [] = None"
| "firstParsed parse m (key # keys) =
     (case m_get m key of
        None \<Rightarrow> firstParsed parse m keys
      | Some v \<Rightarrow> (case parse v of None \<Rightarrow> firstParsed parse m keys | Some r \<Rightarrow> Some r))"

definition DisableCoolingOverride :: "Auth \<Rightarrow> bool \<times> bool" where
  "DisableCoolingOverride a =
     (case firstParsed parseBoolAny (a_Metadata a) [''disable_cooling'', ''disable-cooling''] of
        None \<Rightarrow> (False, False)
      | Some parsed \<Rightarrow> if \<not> parsed then (False, False) else (parsed, True))"

definition ToolPrefixDisabled :: "Auth \<Rightarrow> bool" where
  "ToolPrefixDisabled a =
     (case firstParsed parseBoolAny (a_Metadata a) [''tool_prefix_disabled'', ''tool-prefix-disabled''] of
        None \<Rightarrow> False | Some parsed \<Rightarrow> parsed)"

definition RequestRetryOverride :: "Auth \<Rightarrow> int \<times> bool" where
  "RequestRetryOverride a =
     (case firstParsed parseIntAny (a_Metadata a) [''request_retry'', ''request-retry''] of
        None \<Rightarrow> (0, False)
      | Some parsed \<Rightarrow> (if parsed < 0 then 0 else parsed, True))"

definition ProxyInfo :: "Auth \<Rightarrow> string" where
  "ProxyInfo a =
     (let proxyStr = trim_space (a_ProxyURL a)
      in if proxyStr = [] then []
         else (case cut_at ''://'' proxyStr of
                 Some (scheme, _) \<Rightarrow>
                   if scheme \<noteq> [] then ''via '' @ scheme @ '' proxy'' else ''via proxy''
               | None \<Rightarrow> ''via proxy''))"

definition MarkPluginVirtualAuth :: "Auth \<Rightarrow> string \<Rightarrow> int \<Rightarrow> Auth" where
  "MarkPluginVirtualAuth auth sourcePath ordinal =
     (let attrs = m_put ''plugin_virtual'' ''true'' (a_Attributes auth);
          sourcePath = trim_space sourcePath;
          attrs = (if sourcePath \<noteq> [] then m_put ''virtual_source'' sourcePath attrs else attrs);
          seedID = trim_space (a_ID auth);
          seedID = (if seedID = [] then trim_space (a_FileName auth) else seedID);
          seedID = (if seedID = [] then format_int ordinal else seedID);
          seed = to_lower (trim_space (a_Provider auth)) @ ''|'' @ sourcePath @ ''|'' @ seedID
            @ ''|'' @ format_int ordinal
      in auth\<lparr>a_Attributes := m_put ''auth_index_seed'' seed attrs\<rparr>)"

definition IsPluginVirtualAuth :: "Auth \<Rightarrow> bool" where
  "IsPluginVirtualAuth auth \<longleftrightarrow> a_Attributes auth \<noteq> []
     \<and> equal_fold (trim_space (m_get0 [] (a_Attributes auth) ''plugin_virtual'')) ''true''"

section \<open>Classification\<close>

definition normalizeAuthKind :: "string \<Rightarrow> string" where
  "normalizeAuthKind kind =
     (let k = to_lower (trim_space kind)
      in if k \<in> set [''apikey'', ''api_key'', ''api-key''] then ''apikey''
         else if k \<in> set [''oauth'', ''oauth2''] then ''oauth'' else [])"

definition authHasOAuthMetadata :: "Auth \<Rightarrow> bool" where
  "authHasOAuthMetadata auth \<longleftrightarrow> a_Metadata auth \<noteq> [] \<and>
     (list_ex (\<lambda>key. authMetadataString auth key \<noteq> [])
        [''access_token'', ''refresh_token'', ''id_token'', ''email'', ''token_type'', ''expires_at'',
         ''expired'']
      \<or> (case m_get (a_Metadata auth) ''token'' of Some (GoMap t) \<Rightarrow> t \<noteq> [] | _ \<Rightarrow> False))"

definition AuthKind :: "Auth \<Rightarrow> string" where
  "AuthKind a =
     (let kind = normalizeAuthKind (authAttribute a ''auth_kind'')
      in if kind \<noteq> [] then kind
         else let kind = normalizeAuthKind (authMetadataString a ''auth_kind'')
           in if kind \<noteq> [] then kind
              else if authAttribute a ''api_key'' \<noteq> [] then ''apikey''
              else if authHasOAuthMetadata a then ''oauth'' else [])"

definition normalizeAuthSourceKind :: "string \<Rightarrow> string" where
  "normalizeAuthSourceKind source =
     (let s = to_lower (trim_space source)
      in if s = ''config'' then ''config''
         else if s \<in> set [''file'', ''filesystem''] then ''file''
         else if s = ''git'' then ''git''
         else if s \<in> set [''memory'', ''runtime'', ''runtime_only''] then ''memory''
         else if s \<in> set [''objectstore'', ''object-store''] then ''objectstore''
         else if s \<in> set [''postgres'', ''postgresql'', ''database'', ''db''] then ''postgres''
         else [])"

definition AuthSourceKind :: "Auth \<Rightarrow> string" where
  "AuthSourceKind a =
     (if equal_fold (authAttribute a ''runtime_only'') ''true'' then ''memory''
      else let backend = normalizeAuthSourceKind (authAttribute a ''source_backend'')
        in if backend \<noteq> [] then backend
           else let source = authAttribute a ''source''
             in if source \<noteq> []
                then (if has_prefix (to_lower source) ''config:'' then ''config''
                      else let normalized = normalizeAuthSourceKind source
                        in if normalized \<noteq> [] then normalized else ''file'')
                else if authAttribute a ''path'' \<noteq> [] then ''file''
                else if trim_space (a_FileName a) \<noteq> [] then ''file''
                else [])"

definition AccountInfo :: "Auth \<Rightarrow> string \<times> string" where
  "AccountInfo a =
     (if AuthKind a = ''oauth''
      then (case m_get (a_Metadata a) ''email'' of
              Some (GoString v) \<Rightarrow>
                (let email = trim_space v in if email \<noteq> [] then (''oauth'', email) else (''oauth'', []))
            | _ \<Rightarrow> (''oauth'', []))
      else if AuthKind a = ''apikey''
      then (let apiKey = authAttribute a ''api_key''
            in if apiKey \<noteq> [] then (''api_key'', apiKey) else (''api_key'', []))
      else ([], []))"

section \<open>Validation of the weight\<close>

datatype weight_source_error =
    InvalidAttributesWeight weight_error | InvalidMetadataWeight weight_error

definition ValidateAuthWeight :: "Auth \<Rightarrow> weight_source_error option" where
  "ValidateAuthWeight auth =
     (case (case m_get (a_Attributes auth) ''weight'' of
              None \<Rightarrow> None
            | Some rawWeight \<Rightarrow> (case ParseString rawWeight of
                Inl errParse \<Rightarrow> Some (InvalidAttributesWeight errParse) | Inr _ \<Rightarrow> None)) of
        Some e \<Rightarrow> Some e
      | None \<Rightarrow> (case m_get (a_Metadata auth) ''weight'' of
            None \<Rightarrow> None
          | Some rawWeight \<Rightarrow> (case ParseValue rawWeight of
              Inl errParse \<Rightarrow> Some (InvalidMetadataWeight errParse) | Inr _ \<Rightarrow> None)))"

definition ApplyAuthWeightMetadata ::
    "Auth \<Rightarrow> (string, goany) gomap option \<Rightarrow> weight_source_error + Auth" where
  "ApplyAuthWeightMetadata auth metadata =
     (case ValidateAuthWeight auth of
        Some errWeight \<Rightarrow> Inl errWeight
      | None \<Rightarrow> (case metadata of
            None \<Rightarrow> Inr auth
          | Some md \<Rightarrow> (case m_get md ''weight'' of
                None \<Rightarrow> Inr auth
              | Some rawWeight \<Rightarrow> (case ParseValue rawWeight of
                    Inl errParse \<Rightarrow> Inl (InvalidMetadataWeight errParse)
                  | Inr weight \<Rightarrow>
                      Inr (auth\<lparr>a_Attributes := m_put ''weight'' (format_int weight) (a_Attributes auth)\<rparr>)))))"

section \<open>Recent requests\<close>

text \<open>\<open>time.Time.Unix\<close>: seconds since 1970, rounded down.\<close>

definition unix_seconds :: "gotime \<Rightarrow> int" where
  "unix_seconds t = t div 1000000000 - 62135596800"

definition recentRequestBucketID :: "gotime \<Rightarrow> int" where
  "recentRequestBucketID now =
     (if is_zero now then 0 else go_div (unix_seconds now) recentRequestBucketSeconds)"

definition recentRequestBucketIndex :: "int \<Rightarrow> nat" where
  "recentRequestBucketIndex bucketID =
     (let m = go_mod bucketID (int recentRequestBucketCount);
          m = (if m < 0 then m + int recentRequestBucketCount else m)
      in nat m)"

text \<open>The label is the local clock's \<open>15:04-15:04\<close>; \<open>zone\<close> is the offset in seconds the host's
  zone has at an instant (seconds since 1970).\<close>

definition two_digits :: "int \<Rightarrow> string" where
  "two_digits n = [digit_char (nat (n div 10)), digit_char (nat (n mod 10))]"

definition clock_label :: "(int \<Rightarrow> int) \<Rightarrow> int \<Rightarrow> string" where
  "clock_label zone t =
     (let s = (t + zone t) mod 86400
      in two_digits (s div 3600) @ '':'' @ two_digits (s div 60 mod 60))"

definition formatRecentRequestBucketLabel :: "(int \<Rightarrow> int) \<Rightarrow> int \<Rightarrow> string" where
  "formatRecentRequestBucketLabel zone bucketID =
     (let start = bucketID * recentRequestBucketSeconds;
          stop = start + recentRequestBucketSeconds
      in clock_label zone start @ ''-'' @ clock_label zone stop)"

definition recordInRing ::
    "recentRequestBucket list \<Rightarrow> gotime \<Rightarrow> bool \<Rightarrow> recentRequestBucket list" where
  "recordInRing ring now success =
     (let bucketID = recentRequestBucketID now;
          idx = recentRequestBucketIndex bucketID;
          bucket = ring ! idx;
          bucket = (if rb_bucketID bucket \<noteq> bucketID
            then \<lparr>rb_bucketID = bucketID, rb_success = 0, rb_failed = 0\<rparr> else bucket);
          bucket = (if success then bucket\<lparr>rb_success := wrap64 (rb_success bucket + 1)\<rparr>
            else bucket\<lparr>rb_failed := wrap64 (rb_failed bucket + 1)\<rparr>)
      in ring[idx := bucket])"

definition recordRecentRequest :: "Auth \<Rightarrow> gotime \<Rightarrow> bool \<Rightarrow> Auth" where
  "recordRecentRequest a now success =
     a\<lparr>a_recentRequests := recordInRing (a_recentRequests a) now success\<rparr>"

definition ringSnapshot ::
    "(int \<Rightarrow> int) \<Rightarrow> recentRequestBucket list \<Rightarrow> gotime \<Rightarrow> RecentRequestBucket list" where
  "ringSnapshot zone ring now =
     (let currentBucketID = recentRequestBucketID now
      in map (\<lambda>i.
           let bucketID = currentBucketID - int i;
               bucket = ring ! recentRequestBucketIndex bucketID;
               lbl = formatRecentRequestBucketLabel zone bucketID
           in if rb_bucketID bucket = bucketID
              then \<lparr>r_Time = lbl, r_Success = rb_success bucket, r_Failed = rb_failed bucket\<rparr>
              else \<lparr>r_Time = lbl, r_Success = 0, r_Failed = 0\<rparr>)
         (rev [0..<recentRequestBucketCount]))"

definition RecentRequestsSnapshot :: "(int \<Rightarrow> int) \<Rightarrow> Auth \<Rightarrow> gotime \<Rightarrow> RecentRequestBucket list" where
  "RecentRequestsSnapshot zone a now = ringSnapshot zone (a_recentRequests a) now"

section \<open>The ring is a sliding window over the request log\<close>

lemma bucket_index: "recentRequestBucketIndex b = nat (b mod 20)"
proof (cases "b < 0")
  case True
  then have "go_mod b 20 = b + 20 * (- b div 20)"
    by (simp add: go_mod_def go_div_def)
  moreover have "(if b + 20 * (- b div 20) < 0 then b + 20 * (- b div 20) + 20
      else b + 20 * (- b div 20)) = b mod 20"
  proof -
    have "b + 20 * (- b div 20) = - (- b mod 20)" using mult_div_mod_eq [of 20 "- b"] by linarith
    moreover have "b mod 20 = (if - b mod 20 = 0 then 0 else 20 - (- b mod 20))"
      using zmod_zminus1_eq_if [of "- b" 20] by simp
    moreover have "0 \<le> - b mod 20" by simp
    ultimately show ?thesis by auto
  qed
  ultimately show ?thesis
    by (simp only: recentRequestBucketIndex_def Let_def of_nat_numeral)
next
  case False
  then show ?thesis
    by (simp add: recentRequestBucketIndex_def Let_def go_mod_nonneg)
qed

lemma bucket_index_less [simp]: "recentRequestBucketIndex b < 20"
  by (simp add: bucket_index nat_less_iff)

lemma bucket_index_inj:
  assumes "recentRequestBucketIndex b = recentRequestBucketIndex b'" "\<bar>b - b'\<bar> < 20"
  shows "b = b'"
proof -
  have "b mod 20 = b' mod 20" using assms(1) by (simp add: bucket_index eq_nat_nat_iff)
  then obtain k where "b - b' = 20 * k" by (auto simp: mod_eq_dvd_iff)
  with assms(2) show ?thesis by (cases "k = 0") (auto simp: abs_if split: if_splits)
qed

text \<open>How many requests of the log fell in a bucket.\<close>

definition requests_in :: "(gotime \<times> bool) list \<Rightarrow> int \<Rightarrow> bool \<Rightarrow> int" where
  "requests_in log b ok =
     int (length (filter (\<lambda>(t, s). recentRequestBucketID t = b \<and> s = ok) log))"

definition ring_of :: "(gotime \<times> bool) list \<Rightarrow> recentRequestBucket list" where
  "ring_of log = foldl (\<lambda>r (t, s). recordInRing r t s) (replicate 20 zeroBucket) log"

lemma requests_in_snoc:
  "requests_in (log @ [(t, s)]) b ok =
    requests_in log b ok + (if recentRequestBucketID t = b \<and> s = ok then 1 else 0)"
  by (simp add: requests_in_def)

lemma requests_in_none:
  "\<forall>(t, s)\<in>set log. recentRequestBucketID t \<noteq> b \<Longrightarrow> requests_in log b ok = 0"
  by (auto simp: requests_in_def filter_empty_conv)

definition ring_inv :: "recentRequestBucket list \<Rightarrow> (gotime \<times> bool) list \<Rightarrow> bool" where
  "ring_inv ring log \<longleftrightarrow> length ring = 20 \<and>
     (\<forall>b. let k = ring ! recentRequestBucketIndex b in
        if rb_bucketID k = b
        then rb_success k = wrap64 (requests_in log b True)
          \<and> rb_failed k = wrap64 (requests_in log b False)
        else (\<forall>(t, s)\<in>set log. recentRequestBucketID t < b + 20) \<longrightarrow>
          (\<forall>(t, s)\<in>set log. recentRequestBucketID t \<noteq> b))"

lemma wrap64_step: "wrap64 (wrap64 x + 1) = wrap64 (x + 1)"
  by (simp add: wrap64_def mod_simps)

lemma ring_inv_record:
  assumes "ring_inv ring log"
    and newest: "\<forall>(u, s)\<in>set log. recentRequestBucketID u \<le> recentRequestBucketID t"
  shows "ring_inv (recordInRing ring t ok) (log @ [(t, ok)])"
proof -
  define n where "n = recentRequestBucketID t"
  define k where "k = ring ! recentRequestBucketIndex n"
  have len: "length ring = 20"
    and inv: "\<And>b. if rb_bucketID (ring ! recentRequestBucketIndex b) = b
        then rb_success (ring ! recentRequestBucketIndex b) = wrap64 (requests_in log b True)
          \<and> rb_failed (ring ! recentRequestBucketIndex b) = wrap64 (requests_in log b False)
        else (\<forall>(t, s)\<in>set log. recentRequestBucketID t < b + 20) \<longrightarrow>
          (\<forall>(t, s)\<in>set log. recentRequestBucketID t \<noteq> b)"
    using assms(1) by (auto simp: ring_inv_def Let_def)
  have fresh: "requests_in log n o' = 0" if "rb_bucketID k \<noteq> n" for o'
    using inv [of n] that newest by (intro requests_in_none) (fastforce simp: k_def n_def)
  define k0 where "k0 = (if rb_bucketID k \<noteq> n
    then \<lparr>rb_bucketID = n, rb_success = 0, rb_failed = 0\<rparr> else k)"
  have k0: "rb_bucketID k0 = n" "rb_success k0 = wrap64 (requests_in log n True)"
      "rb_failed k0 = wrap64 (requests_in log n False)"
    using inv [of n] fresh by (auto simp: k0_def k_def wrap64_id in64_def)
  have new: "recordInRing ring t ok = ring[recentRequestBucketIndex n :=
      (if ok then k0\<lparr>rb_success := wrap64 (rb_success k0 + 1)\<rparr>
       else k0\<lparr>rb_failed := wrap64 (rb_failed k0 + 1)\<rparr>)]"
    by (simp add: recordInRing_def Let_def n_def k_def k0_def)
  show ?thesis
    unfolding ring_inv_def
  proof (intro conjI allI)
    show "length (recordInRing ring t ok) = 20" using len by (simp add: new)
  next
    fix b
    show "let k = recordInRing ring t ok ! recentRequestBucketIndex b in
        if rb_bucketID k = b
        then rb_success k = wrap64 (requests_in (log @ [(t, ok)]) b True)
          \<and> rb_failed k = wrap64 (requests_in (log @ [(t, ok)]) b False)
        else (\<forall>(u, s)\<in>set (log @ [(t, ok)]). recentRequestBucketID u < b + 20) \<longrightarrow>
          (\<forall>(u, s)\<in>set (log @ [(t, ok)]). recentRequestBucketID u \<noteq> b)"
    proof (cases "recentRequestBucketIndex b = recentRequestBucketIndex n")
      case same: True
      then have nb: "b = n \<or> b + 20 \<le> n \<or> n + 20 \<le> b"
        using bucket_index_inj [of b n] by linarith
      show ?thesis
      proof (cases "b = n")
        case True
        then show ?thesis
          using k0 len by (simp add: new n_def [symmetric] requests_in_snoc wrap64_step)
      next
        case False
        with nb newest same len k0 show ?thesis
          by (fastforce simp: new n_def [symmetric])
      qed
    next
      case other: False
      then have "n \<noteq> b" by auto
      then show ?thesis
        using inv [of b] other len
        by (simp add: new requests_in_snoc n_def [symmetric] Let_def del: split_paired_All)
    qed
  qed
qed

lemma ring_inv_log:
  "sorted (map (recentRequestBucketID \<circ> fst) log) \<Longrightarrow> ring_inv (ring_of log) log"
proof (induction log rule: rev_induct)
  case Nil
  have "replicate 20 zeroBucket ! recentRequestBucketIndex b = zeroBucket" for b
    by (rule nth_replicate) simp
  then show ?case
    by (simp only: ring_inv_def ring_of_def) (simp add: Let_def requests_in_def wrap64_id in64_def)
next
  case (snoc x log)
  obtain t ok where x: "x = (t, ok)" by force
  have "ring_inv (ring_of log) log" using snoc by (simp add: sorted_append)
  moreover have "\<forall>(u, s)\<in>set log. recentRequestBucketID u \<le> recentRequestBucketID t"
    using snoc.prems x by (auto simp: sorted_append)
  ultimately show ?case
    using ring_inv_record [of "ring_of log" log t ok] x by (simp add: ring_of_def)
qed

lemma bucket_id_mono:
  "0 \<le> unix_seconds t \<Longrightarrow> t \<le> u \<Longrightarrow> recentRequestBucketID t \<le> recentRequestBucketID u"
proof -
  assume t: "0 \<le> unix_seconds t" and "t \<le> u"
  then have m: "unix_seconds t \<le> unix_seconds u"
    by (simp add: unix_seconds_def zdiv_mono1)
  have "t \<noteq> 0" "u \<noteq> 0" using t m by (auto simp: unix_seconds_def)
  with t m show ?thesis
    by (simp add: recentRequestBucketID_def go_div_nonneg zdiv_mono1)
qed

lemma bucket_ids_sorted:
  "sorted (map fst log) \<Longrightarrow> \<forall>(t, s)\<in>set log. 0 \<le> unix_seconds t \<Longrightarrow>
    sorted (map (recentRequestBucketID \<circ> fst) log)"
  by (induction log) (auto intro: bucket_id_mono)

section \<open>Properties\<close>

text \<open>
  a credential that accepted its metadata weight passes validation, its weight attribute
  reads back as the metadata value, and applying the same metadata again changes nothing.
\<close>

theorem ApplyAuthWeightMetadata_stable:
  assumes "ApplyAuthWeightMetadata auth (Some md) = Inr auth'"
  shows "ValidateAuthWeight auth' = None
    \<and> (case m_get md ''weight'' of
         None \<Rightarrow> auth' = auth
       | Some v \<Rightarrow> \<exists>w. ParseValue v = Inr w \<and> m_get (a_Attributes auth') ''weight'' = Some (format_int w)
           \<and> ParseString (format_int w) = Inr w)
    \<and> ApplyAuthWeightMetadata auth' (Some md) = Inr auth'"
proof (cases "m_get md ''weight''")
  case None
  with assms show ?thesis by (auto simp: ApplyAuthWeightMetadata_def split: option.splits)
next
  case (Some v)
  with assms obtain w where w: "ValidateAuthWeight auth = None" "ParseValue v = Inr w"
      and auth': "auth' = auth\<lparr>a_Attributes := m_put ''weight'' (format_int w) (a_Attributes auth)\<rparr>"
    by (auto simp: ApplyAuthWeightMetadata_def split: option.splits sum.splits)
  have "ParseString (format_int w) = Inr w"
    using ParseValue_range [OF w(2)] by (simp add: ParseString_format)
  moreover from this have "ValidateAuthWeight auth' = None"
    using w(1) by (auto simp: ValidateAuthWeight_def auth' split: option.splits)
  moreover have "AList.update k x (AList.update k x m) = AList.update k x m"
      for k :: string and x :: string and m
    by (induction m) auto
  ultimately show ?thesis
    using w Some by (simp add: ApplyAuthWeightMetadata_def auth')
qed

abbreviation sample_weighted :: Auth where
  "sample_weighted \<equiv> new_auth ''a'' ''codex''"

lemma ApplyAuthWeightMetadata_stable_witness:
  "\<exists>auth'. ApplyAuthWeightMetadata sample_weighted (Some [(''weight'', GoFloat64 (FFin 3 2))]) = Inr auth'
     \<and> m_get (a_Attributes auth') ''weight'' = Some ''12'' \<and> ValidateAuthWeight auth' = None"
proof -
  have e: "ApplyAuthWeightMetadata sample_weighted (Some [(''weight'', GoFloat64 (FFin 3 2))])
      = Inr (sample_weighted\<lparr>a_Attributes := [(''weight'', ''12'')]\<rparr>)"
    by code_simp
  show ?thesis
    using ApplyAuthWeightMetadata_stable [OF e] e by auto
qed

text \<open>
  the ring of twenty ten-minute buckets refines the full request log: while the clock does
  not go back, the snapshot shows, for each of the last twenty buckets in order, how many logged
  requests succeeded and failed in it (as \<open>int64\<close> counters), however many requests were logged
  and whatever older buckets the ring has overwritten.
\<close>

theorem recent_requests_window:
  assumes "sorted (map fst log @ [now])" "\<forall>(t, s)\<in>set log. 0 \<le> unix_seconds t"
    and "a_recentRequests a = ring_of log"
  shows "RecentRequestsSnapshot zone a now =
    map (\<lambda>i. let b = recentRequestBucketID now - int i
             in \<lparr>r_Time = formatRecentRequestBucketLabel zone b,
                 r_Success = wrap64 (requests_in log b True),
                 r_Failed = wrap64 (requests_in log b False)\<rparr>)
        (rev [0..<20])"
proof -
  have "sorted (map fst log)" using assms(1) by (simp add: sorted_append)
  then have inv: "ring_inv (ring_of log) log"
    using assms(2) by (intro ring_inv_log bucket_ids_sorted)
  have le: "\<forall>(t, s)\<in>set log. recentRequestBucketID t \<le> recentRequestBucketID now"
    using assms(1,2) by (fastforce simp: sorted_append intro: bucket_id_mono)
  have zero: "requests_in log (recentRequestBucketID now - int i) ok = 0"
    if "i < 20" "rb_bucketID (ring_of log ! recentRequestBucketIndex (recentRequestBucketID now - int i))
      \<noteq> recentRequestBucketID now - int i" for i ok
  proof (rule requests_in_none)
    have "\<forall>(t, s)\<in>set log. recentRequestBucketID t < recentRequestBucketID now - int i + 20"
      using le that(1) by fastforce
    with inv that(2) show "\<forall>(t, s)\<in>set log. recentRequestBucketID t \<noteq> recentRequestBucketID now - int i"
      by (auto simp: ring_inv_def Let_def split: if_splits)
  qed
  show ?thesis
    unfolding RecentRequestsSnapshot_def ringSnapshot_def Let_def assms(3)
  proof (rule map_cong [OF refl])
    fix i assume "i \<in> set (rev [0..<20])"
    then have "i < 20" by simp
    with inv zero [of i] show "(if rb_bucketID (ring_of log !
          recentRequestBucketIndex (recentRequestBucketID now - int i)) = recentRequestBucketID now - int i
        then \<lparr>r_Time = formatRecentRequestBucketLabel zone (recentRequestBucketID now - int i),
          r_Success = rb_success (ring_of log ! recentRequestBucketIndex (recentRequestBucketID now - int i)),
          r_Failed = rb_failed (ring_of log ! recentRequestBucketIndex (recentRequestBucketID now - int i))\<rparr>
        else \<lparr>r_Time = formatRecentRequestBucketLabel zone (recentRequestBucketID now - int i),
          r_Success = 0, r_Failed = 0\<rparr>) =
      \<lparr>r_Time = formatRecentRequestBucketLabel zone (recentRequestBucketID now - int i),
        r_Success = wrap64 (requests_in log (recentRequestBucketID now - int i) True),
        r_Failed = wrap64 (requests_in log (recentRequestBucketID now - int i) False)\<rparr>"
      by (auto simp: ring_inv_def Let_def wrap64_id in64_def)
  qed
qed

text \<open>Two requests in one bucket and one in the next, read in the second bucket.\<close>

abbreviation sample_log :: "(gotime \<times> bool) list" where
  "sample_log \<equiv> [(63900000000000000000, True), (63900000100000000000, False),
     (63900000700000000000, True)]"

lemma recent_requests_window_witness:
  "\<exists>a. a_recentRequests a = ring_of sample_log
     \<and> map r_Success (drop 18 (RecentRequestsSnapshot (\<lambda>_. 0) a 63900000800000000000)) = [1, 1]"
proof (intro exI conjI)
  let ?a = "(new_auth ''a'' ''codex'')\<lparr>a_recentRequests := ring_of sample_log\<rparr>"
  show "a_recentRequests ?a = ring_of sample_log" by simp
  have c: "map (\<lambda>i. wrap64 (requests_in sample_log (recentRequestBucketID 63900000800000000000 - i) True))
      [1, 0] = [1, 1]"
    by code_simp
  have "sorted (map fst sample_log @ [63900000800000000000])"
    and "\<forall>(t, s)\<in>set sample_log. 0 \<le> unix_seconds t"
    by (simp_all add: unix_seconds_def)
  from recent_requests_window [OF this, of ?a "\<lambda>_. 0"]
  show "map r_Success (drop 18 (RecentRequestsSnapshot (\<lambda>_. 0) ?a 63900000800000000000)) = [1, 1]"
    using c by (simp add: Let_def upt_rec)
qed

end
