(* ===== verification/Thinking.thy ===== *)
theory Thinking
  imports AnyValue
begin

text \<open>
  Thinking configuration (\<open>backend/internal/thinking\<close>: \<open>suffix.go\<close>, \<open>convert.go\<close>, \<open>validate.go\<close>,
  the suffix and effort functions of \<open>apply.go\<close>), with the model metadata it reads
  (\<open>ModelInfo\<close> and \<open>ThinkingSupport\<close> of \<open>backend/internal/registry/model_registry.go\<close>). The
  provider appliers, which rewrite JSON bodies, are not modelled.
\<close>

section \<open>Data\<close>

record ThinkingSupport =
  ts_Min :: int
  ts_Max :: int
  ts_ZeroAllowed :: bool
  ts_DynamicAllowed :: bool
  ts_Levels :: "string list"

record ModelInfo =
  mi_ID :: string
  mi_Object :: string
  mi_Created :: int
  mi_OwnedBy :: string
  mi_Type :: string
  mi_DisplayName :: string
  mi_Name :: string
  mi_Version :: string
  mi_Description :: string
  mi_InputTokenLimit :: int
  mi_OutputTokenLimit :: int
  mi_SupportedGenerationMethods :: "string list"
  mi_ContextLength :: int
  mi_MaxCompletionTokens :: int
  mi_SupportedParameters :: "string list"
  mi_SupportedInputModalities :: "string list"
  mi_SupportedOutputModalities :: "string list"
  mi_SupportsWebSearch :: bool
  mi_Thinking :: "ThinkingSupport option"
  mi_OverrideHeader :: "(string, string) gomap option"
  mi_UserDefined :: bool

definition new_model :: "string \<Rightarrow> string \<Rightarrow> ThinkingSupport option \<Rightarrow> ModelInfo" where
  "new_model ident type support =
     \<lparr>mi_ID = ident, mi_Object = ''model'', mi_Created = 0, mi_OwnedBy = [], mi_Type = type,
      mi_DisplayName = [], mi_Name = [], mi_Version = [], mi_Description = [],
      mi_InputTokenLimit = 0, mi_OutputTokenLimit = 0, mi_SupportedGenerationMethods = [],
      mi_ContextLength = 0, mi_MaxCompletionTokens = 0, mi_SupportedParameters = [],
      mi_SupportedInputModalities = [], mi_SupportedOutputModalities = [],
      mi_SupportsWebSearch = False, mi_Thinking = support, mi_OverrideHeader = None,
      mi_UserDefined = False\<rparr>"

datatype ThinkingMode = ModeBudget | ModeLevel | ModeNone | ModeAuto

type_synonym ThinkingLevel = string

record ThinkingConfig =
  tc_Mode :: ThinkingMode
  tc_Budget :: int
  tc_Level :: ThinkingLevel

abbreviation emptyConfig :: ThinkingConfig where
  "emptyConfig \<equiv> \<lparr>tc_Mode = ModeBudget, tc_Budget = 0, tc_Level = []\<rparr>"

record SuffixResult =
  sr_ModelName :: string
  sr_HasSuffix :: bool
  sr_RawSuffix :: string

datatype ThinkingError =
    ErrThinkingNotSupported string
  | ErrUnknownLevel string
  | ErrUnknownBudget int
  | ErrLevelNotSupported string "string list"
  | ErrBudgetOutOfRange int int int

section \<open>Suffixes of model names\<close>

definition ParseSuffix :: "string \<Rightarrow> SuffixResult" where
  "ParseSuffix model =
     (case last_index model CHR ''('' of
        None \<Rightarrow> \<lparr>sr_ModelName = model, sr_HasSuffix = False, sr_RawSuffix = []\<rparr>
      | Some lastOpen \<Rightarrow>
          if \<not> has_suffix model '')''
          then \<lparr>sr_ModelName = model, sr_HasSuffix = False, sr_RawSuffix = []\<rparr>
          else \<lparr>sr_ModelName = take lastOpen model, sr_HasSuffix = True,
            sr_RawSuffix = drop (lastOpen + 1) (take (length model - 1) model)\<rparr>)"

definition ParseNumericSuffix :: "string \<Rightarrow> int option" where
  "ParseNumericSuffix rawSuffix =
     (if rawSuffix = [] then None
      else (case parse_int64 rawSuffix of
              None \<Rightarrow> None
            | Some v \<Rightarrow> if v < 0 then None else Some v))"

definition ParseSpecialSuffix :: "string \<Rightarrow> ThinkingMode option" where
  "ParseSpecialSuffix rawSuffix =
     (let s = to_lower rawSuffix
      in if rawSuffix = [] then None
         else if s = ''none'' then Some ModeNone
         else if s = ''auto'' \<or> s = ''-1'' then Some ModeAuto
         else None)"

definition ParseLevelSuffix :: "string \<Rightarrow> ThinkingLevel option" where
  "ParseLevelSuffix rawSuffix =
     (let s = to_lower rawSuffix
      in if rawSuffix = [] then None
         else if s \<in> set [''minimal'', ''low'', ''medium'', ''high'', ''xhigh'', ''max''] then Some s
         else None)"

definition parseSuffixToConfig :: "string \<Rightarrow> ThinkingConfig" where
  "parseSuffixToConfig rawSuffix =
     (case ParseSpecialSuffix rawSuffix of
        Some ModeNone \<Rightarrow> \<lparr>tc_Mode = ModeNone, tc_Budget = 0, tc_Level = []\<rparr>
      | Some ModeAuto \<Rightarrow> \<lparr>tc_Mode = ModeAuto, tc_Budget = -1, tc_Level = []\<rparr>
      | _ \<Rightarrow>
        (case ParseLevelSuffix rawSuffix of
           Some level \<Rightarrow> \<lparr>tc_Mode = ModeLevel, tc_Budget = 0, tc_Level = level\<rparr>
         | None \<Rightarrow>
           (case ParseNumericSuffix rawSuffix of
              Some budget \<Rightarrow>
                (if budget = 0 then \<lparr>tc_Mode = ModeNone, tc_Budget = 0, tc_Level = []\<rparr>
                 else \<lparr>tc_Mode = ModeBudget, tc_Budget = budget, tc_Level = []\<rparr>)
            | None \<Rightarrow> emptyConfig)))"

section \<open>Levels and budgets\<close>

abbreviation levelToBudgetMap :: "(string, int) gomap" where
  "levelToBudgetMap \<equiv> [(''none'', 0), (''auto'', -1), (''minimal'', 512), (''low'', 1024),
     (''medium'', 8192), (''high'', 24576), (''xhigh'', 32768), (''max'', 128000)]"

definition ConvertLevelToBudget :: "string \<Rightarrow> int option" where
  "ConvertLevelToBudget level = m_get levelToBudgetMap (to_lower level)"

definition ConvertBudgetToLevel :: "int \<Rightarrow> string option" where
  "ConvertBudgetToLevel budget =
     (if budget < -1 then None
      else if budget = -1 then Some ''auto''
      else if budget = 0 then Some ''none''
      else if budget \<le> 512 then Some ''minimal''
      else if budget \<le> 1024 then Some ''low''
      else if budget \<le> 8192 then Some ''medium''
      else if budget \<le> 24576 then Some ''high''
      else Some ''xhigh'')"

definition HasLevel :: "string list \<Rightarrow> string \<Rightarrow> bool" where
  "HasLevel levels target = list_ex (\<lambda>level. equal_fold (trim_space level) target) levels"

definition MapToClaudeEffort :: "string \<Rightarrow> bool \<Rightarrow> string option" where
  "MapToClaudeEffort level supportsMax =
     (let level = to_lower (trim_space level)
      in if level = [] then None
         else if level = ''minimal'' then Some ''low''
         else if level \<in> set [''low'', ''medium'', ''high''] then Some level
         else if level \<in> set [''xhigh'', ''max''] then Some (if supportsMax then ''max'' else ''high'')
         else if level = ''auto'' then Some ''high''
         else None)"

datatype ModelCapability =
  CapabilityUnknown | CapabilityNone | CapabilityBudgetOnly | CapabilityLevelOnly | CapabilityHybrid

definition detectModelCapability :: "ModelInfo option \<Rightarrow> ModelCapability" where
  "detectModelCapability modelInfo =
     (case modelInfo of
        None \<Rightarrow> CapabilityUnknown
      | Some mi \<Rightarrow> (case mi_Thinking mi of
            None \<Rightarrow> CapabilityNone
          | Some support \<Rightarrow>
              (let hasBudget = (ts_Min support > 0 \<or> ts_Max support > 0);
                   hasLevels = (ts_Levels support \<noteq> [])
               in if hasBudget \<and> hasLevels then CapabilityHybrid
                  else if hasBudget then CapabilityBudgetOnly
                  else if hasLevels then CapabilityLevelOnly
                  else CapabilityNone)))"

section \<open>Clamping\<close>

abbreviation standardLevelOrder :: "ThinkingLevel list" where
  "standardLevelOrder \<equiv> [''minimal'', ''low'', ''medium'', ''high'', ''xhigh'', ''max'']"

definition isLevelSupported :: "string \<Rightarrow> string list \<Rightarrow> bool" where
  "isLevelSupported level supported = list_ex (\<lambda>s. equal_fold level (trim_space s)) supported"

fun levelIndexFrom :: "int \<Rightarrow> string \<Rightarrow> ThinkingLevel list \<Rightarrow> int" where
  "levelIndexFrom i level [] = -1"
| "levelIndexFrom i level (l # ls) = (if equal_fold level l then i else levelIndexFrom (i + 1) level ls)"

definition levelIndex :: "string \<Rightarrow> int" where
  "levelIndex level = levelIndexFrom 0 level standardLevelOrder"

text \<open>One iteration of the scan of \<open>clampLevel\<close> over the supported levels.\<close>

definition clampStep :: "int \<Rightarrow> int \<times> int \<Rightarrow> string \<Rightarrow> int \<times> int" where
  "clampStep pos best s =
     (let idx = levelIndex (trim_space s); dist = \<bar>pos - idx\<bar>
      in if idx \<noteq> -1 \<and> (dist < snd best \<or> (dist = snd best \<and> idx < fst best))
         then (idx, dist) else best)"

definition clampLevel :: "ThinkingLevel \<Rightarrow> ModelInfo option \<Rightarrow> ThinkingLevel" where
  "clampLevel level modelInfo =
     (let supported = (case modelInfo of
            None \<Rightarrow> []
          | Some mi \<Rightarrow> (case mi_Thinking mi of None \<Rightarrow> [] | Some support \<Rightarrow> ts_Levels support))
      in if supported = [] \<or> isLevelSupported level supported then level
         else let pos = levelIndex level
           in if pos = -1 then level
              else let best = foldl (clampStep pos) (-1, int (length standardLevelOrder) + 1) supported
                in if fst best \<ge> 0 then standardLevelOrder ! nat (fst best) else level)"

definition clampBudget :: "int \<Rightarrow> ModelInfo option \<Rightarrow> int" where
  "clampBudget v modelInfo =
     (case (case modelInfo of None \<Rightarrow> None | Some mi \<Rightarrow> mi_Thinking mi) of
        None \<Rightarrow> v
      | Some support \<Rightarrow>
          if v = -1 then v
          else if v = 0 \<and> \<not> ts_ZeroAllowed support then ts_Min support
          else if ts_Min support = 0 \<and> ts_Max support = 0 then v
          else if v < ts_Min support
            then (if v = 0 \<and> ts_ZeroAllowed support then 0 else ts_Min support)
          else if v > ts_Max support then ts_Max support
          else v)"

definition normalizeLevels :: "string list \<Rightarrow> string list" where
  "normalizeLevels levels = map (\<lambda>l. to_lower (trim_space l)) levels"

definition isBudgetCapableProvider :: "string \<Rightarrow> bool" where
  "isBudgetCapableProvider provider \<longleftrightarrow> provider \<in> set [''gemini'', ''antigravity'', ''claude'']"

definition isGeminiFamily :: "string \<Rightarrow> bool" where
  "isGeminiFamily provider \<longleftrightarrow> provider \<in> set [''gemini'', ''antigravity'']"

definition isOpenAIFamily :: "string \<Rightarrow> bool" where
  "isOpenAIFamily provider \<longleftrightarrow> provider \<in> set [''openai'', ''openai-response'', ''codex'']"

definition isSameProviderFamily :: "string \<Rightarrow> string \<Rightarrow> bool" where
  "isSameProviderFamily f t \<longleftrightarrow>
     f = t \<or> (isGeminiFamily f \<and> isGeminiFamily t) \<or> (isOpenAIFamily f \<and> isOpenAIFamily t)"

definition convertAutoToMidRange :: "ThinkingConfig \<Rightarrow> ThinkingSupport \<Rightarrow> ThinkingConfig" where
  "convertAutoToMidRange config support =
     (if ts_Levels support \<noteq> [] \<and> ts_Min support = 0 \<and> ts_Max support = 0
      then config\<lparr>tc_Mode := ModeLevel, tc_Level := ''medium'', tc_Budget := 0\<rparr>
      else let mid = go_div (wrap64 (ts_Min support + ts_Max support)) 2
        in if mid \<le> 0 \<and> ts_ZeroAllowed support then config\<lparr>tc_Mode := ModeNone, tc_Budget := 0\<rparr>
           else if mid \<le> 0 then config\<lparr>tc_Mode := ModeBudget, tc_Budget := ts_Min support\<rparr>
           else config\<lparr>tc_Mode := ModeBudget, tc_Budget := mid\<rparr>)"

section \<open>Validation\<close>

text \<open>
  \<open>ValidateConfig\<close> in its order of steps. First the conversion by capability (the boolean is
  \<open>budgetDerivedFromLevel\<close>), then the special values, the check of the level, the check of the
  budget, the fallback of the auto mode and the final clamp.
\<close>

definition convertByCapability ::
    "ThinkingConfig \<Rightarrow> ModelInfo option \<Rightarrow> ThinkingError + (ThinkingConfig \<times> bool)" where
  "convertByCapability config modelInfo =
     (case detectModelCapability modelInfo of
        CapabilityBudgetOnly \<Rightarrow>
          (if tc_Mode config = ModeLevel \<and> tc_Level config \<noteq> ''auto''
           then (case ConvertLevelToBudget (tc_Level config) of
                   None \<Rightarrow> Inl (ErrUnknownLevel (tc_Level config))
                 | Some budget \<Rightarrow>
                     Inr (config\<lparr>tc_Mode := ModeBudget, tc_Budget := budget, tc_Level := []\<rparr>, True))
           else Inr (config, False))
      | CapabilityLevelOnly \<Rightarrow>
          (if tc_Mode config = ModeBudget
           then (case ConvertBudgetToLevel (tc_Budget config) of
                   None \<Rightarrow> Inl (ErrUnknownBudget (tc_Budget config))
                 | Some level \<Rightarrow>
                     Inr (config\<lparr>tc_Mode := ModeLevel, tc_Level := clampLevel level modelInfo,
                       tc_Budget := 0\<rparr>, False))
           else Inr (config, False))
      | _ \<Rightarrow> Inr (config, False))"

definition normalizeSpecial :: "ThinkingConfig \<Rightarrow> ThinkingConfig" where
  "normalizeSpecial config =
     (let config = (if tc_Mode config = ModeLevel \<and> tc_Level config = ''none''
            then config\<lparr>tc_Mode := ModeNone, tc_Budget := 0, tc_Level := []\<rparr> else config);
          config = (if tc_Mode config = ModeLevel \<and> tc_Level config = ''auto''
            then config\<lparr>tc_Mode := ModeAuto, tc_Budget := -1, tc_Level := []\<rparr> else config)
      in if tc_Mode config = ModeBudget \<and> tc_Budget config = 0
         then config\<lparr>tc_Mode := ModeNone, tc_Level := []\<rparr> else config)"

definition checkLevel ::
    "ThinkingConfig \<Rightarrow> ThinkingSupport \<Rightarrow> ModelInfo option \<Rightarrow> bool \<Rightarrow> ThinkingError + ThinkingConfig" where
  "checkLevel config support modelInfo allowClampUnsupported =
     (if ts_Levels support \<noteq> [] \<and> tc_Mode config = ModeLevel
         \<and> \<not> isLevelSupported (tc_Level config) (ts_Levels support)
      then (let config = (if allowClampUnsupported
              then config\<lparr>tc_Level := clampLevel (tc_Level config) modelInfo\<rparr> else config)
            in if \<not> isLevelSupported (tc_Level config) (ts_Levels support)
               then Inl (ErrLevelNotSupported (to_lower (tc_Level config))
                 (normalizeLevels (ts_Levels support)))
               else Inr config)
      else Inr config)"

definition checkBudget ::
    "ThinkingConfig \<Rightarrow> ThinkingSupport \<Rightarrow> bool \<Rightarrow> bool \<Rightarrow> ThinkingError option" where
  "checkBudget config support strictBudget budgetDerivedFromLevel =
     (if strictBudget \<and> tc_Mode config = ModeBudget \<and> \<not> budgetDerivedFromLevel
         \<and> (ts_Min support \<noteq> 0 \<or> ts_Max support \<noteq> 0)
         \<and> (tc_Budget config < ts_Min support \<or> tc_Budget config > ts_Max support
            \<or> (tc_Budget config = 0 \<and> \<not> ts_ZeroAllowed support))
      then Some (ErrBudgetOutOfRange (tc_Budget config) (ts_Min support) (ts_Max support))
      else None)"

definition resolveAuto :: "ThinkingConfig \<Rightarrow> ThinkingSupport \<Rightarrow> ModelInfo option \<Rightarrow> ThinkingConfig" where
  "resolveAuto config support modelInfo =
     (if tc_Mode config = ModeAuto \<and> \<not> ts_DynamicAllowed support
      then (let config = convertAutoToMidRange config support
            in if tc_Mode config = ModeLevel \<and> ts_Levels support \<noteq> []
                  \<and> \<not> isLevelSupported (tc_Level config) (ts_Levels support)
               then config\<lparr>tc_Level := clampLevel (tc_Level config) modelInfo\<rparr> else config)
      else config)"

definition finalClamp ::
    "ThinkingConfig \<Rightarrow> ThinkingSupport \<Rightarrow> ModelInfo option \<Rightarrow> string \<Rightarrow> ThinkingConfig" where
  "finalClamp config support modelInfo toFormat =
     (if tc_Mode config = ModeNone \<and> toFormat = ''claude''
      then config\<lparr>tc_Budget := 0, tc_Level := []\<rparr>
      else let config = (if tc_Mode config = ModeBudget \<or> tc_Mode config = ModeAuto
                  \<or> tc_Mode config = ModeNone
                then config\<lparr>tc_Budget := clampBudget (tc_Budget config) modelInfo\<rparr> else config);
               cannotDisableLevelModel =
                 (\<not> ts_ZeroAllowed support \<and> \<not> isLevelSupported ''none'' (ts_Levels support))
        in if tc_Mode config = ModeNone \<and> ts_Levels support \<noteq> []
              \<and> (tc_Budget config > 0 \<or> cannotDisableLevelModel)
           then config\<lparr>tc_Level := hd (ts_Levels support)\<rparr> else config)"

definition ValidateConfig ::
    "ThinkingConfig \<Rightarrow> ModelInfo option \<Rightarrow> string \<Rightarrow> string \<Rightarrow> bool \<Rightarrow> ThinkingError + ThinkingConfig" where
  "ValidateConfig config modelInfo fromFormat toFormat fromSuffix =
     (let fromFormat = to_lower (trim_space fromFormat);
          toFormat = to_lower (trim_space toFormat);
          model = (case modelInfo of
              None \<Rightarrow> ''unknown'' | Some mi \<Rightarrow> if mi_ID mi \<noteq> [] then mi_ID mi else ''unknown'')
      in case (case modelInfo of None \<Rightarrow> None | Some mi \<Rightarrow> mi_Thinking mi) of
           None \<Rightarrow>
             if tc_Mode config \<noteq> ModeNone then Inl (ErrThinkingNotSupported model) else Inr config
         | Some support \<Rightarrow>
             let toCapability = detectModelCapability modelInfo;
                 toHasLevelSupport =
                   (toCapability = CapabilityLevelOnly \<or> toCapability = CapabilityHybrid);
                 modelFamilyMismatch = (case modelInfo of
                     None \<Rightarrow> False
                   | Some mi \<Rightarrow>
                       let modelType = to_lower (trim_space (mi_Type mi))
                       in modelType \<noteq> [] \<and>
                         ((fromFormat \<noteq> [] \<and> \<not> isSameProviderFamily fromFormat modelType)
                          \<or> (toFormat \<noteq> [] \<and> \<not> isSameProviderFamily toFormat modelType)));
                 allowClampUnsupported = (toHasLevelSupport
                   \<and> (\<not> isSameProviderFamily fromFormat toFormat \<or> modelFamilyMismatch));
                 strictBudget = (\<not> fromSuffix \<and> fromFormat \<noteq> []
                   \<and> isSameProviderFamily fromFormat toFormat \<and> \<not> modelFamilyMismatch)
             in case convertByCapability config modelInfo of
                  Inl err \<Rightarrow> Inl err
                | Inr (config, budgetDerivedFromLevel) \<Rightarrow>
                    (case checkLevel (normalizeSpecial config) support modelInfo allowClampUnsupported of
                       Inl err \<Rightarrow> Inl err
                     | Inr config \<Rightarrow>
                         (case checkBudget config support strictBudget budgetDerivedFromLevel of
                            Some err \<Rightarrow> Inl err
                          | None \<Rightarrow>
                              Inr (finalClamp (resolveAuto config support modelInfo) support
                                modelInfo toFormat))))"

section \<open>Effort labels\<close>

definition normalizeUserDefinedConfig :: "ThinkingConfig \<Rightarrow> string \<Rightarrow> ThinkingConfig" where
  "normalizeUserDefinedConfig config toFormat =
     (if tc_Mode config \<noteq> ModeLevel then config
      else if toFormat = ''claude'' then config
      else if \<not> isBudgetCapableProvider toFormat then config
      else (case ConvertLevelToBudget (tc_Level config) of
              None \<Rightarrow> config
            | Some budget \<Rightarrow> config\<lparr>tc_Mode := ModeBudget, tc_Budget := budget, tc_Level := []\<rparr>))"

definition hasThinkingConfig :: "ThinkingConfig \<Rightarrow> bool" where
  "hasThinkingConfig config \<longleftrightarrow>
     tc_Mode config \<noteq> ModeBudget \<or> tc_Budget config \<noteq> 0 \<or> tc_Level config \<noteq> []"

definition reasoningEffortFromConfig :: "ThinkingConfig \<Rightarrow> string" where
  "reasoningEffortFromConfig config =
     (if \<not> hasThinkingConfig config then []
      else (case tc_Mode config of
              ModeNone \<Rightarrow> ''none''
            | ModeAuto \<Rightarrow> ''auto''
            | ModeLevel \<Rightarrow> to_lower (trim_space (tc_Level config))
            | ModeBudget \<Rightarrow> (case ConvertBudgetToLevel (tc_Budget config) of
                  None \<Rightarrow> [] | Some level \<Rightarrow> level)))"

definition reasoningEffortFromSuffix :: "SuffixResult \<Rightarrow> string" where
  "reasoningEffortFromSuffix sr =
     (if \<not> sr_HasSuffix sr then []
      else reasoningEffortFromConfig (parseSuffixToConfig (sr_RawSuffix sr)))"

section \<open>The suffix grammar\<close>

lemma last_index_None: "last_index s c = None \<longleftrightarrow> c \<notin> set s"
  by (induction s) (auto split: option.splits)

lemma ParseSuffix_build:
  "CHR ''('' \<notin> set s \<Longrightarrow> ParseSuffix (n @ ''('' @ s @ '')'') =
    \<lparr>sr_ModelName = n, sr_HasSuffix = True, sr_RawSuffix = s\<rparr>"
  using last_index_append [of "CHR ''(''" "s @ '')''" n]
  by (simp add: ParseSuffix_def suffix_def)

lemma ParseSuffix_decompose:
  assumes "sr_HasSuffix (ParseSuffix m)"
  shows "\<exists>n s. CHR ''('' \<notin> set s \<and> m = n @ ''('' @ s @ '')''"
proof -
  obtain i where i: "last_index m CHR ''('' = Some i" and c: "has_suffix m '')''"
    using assms by (auto simp: ParseSuffix_def split: option.splits if_splits)
  from last_index_Some [OF i] have il: "i < length m" "m ! i = CHR ''(''"
      and no: "CHR ''('' \<notin> set (drop (Suc i) m)" by auto
  have m: "m = take i m @ CHR ''('' # drop (Suc i) m"
    using il by (metis id_take_nth_drop)
  have "last m = CHR '')''" using c by (auto simp: suffix_def)
  have "drop (Suc i) m \<noteq> []"
  proof
    assume "drop (Suc i) m = []"
    with m have "m = take i m @ [CHR ''('']" by simp
    then have "last m = CHR ''(''" by (metis last_snoc)
    with \<open>last m = CHR '')''\<close> show False by simp
  qed
  then have "drop (Suc i) m = butlast (drop (Suc i) m) @ [last (drop (Suc i) m)]"
    by (metis append_butlast_last_id)
  moreover have "last (drop (Suc i) m) = CHR '')''"
    using \<open>last m = CHR '')''\<close> \<open>drop (Suc i) m \<noteq> []\<close> by (simp add: last_drop)
  ultimately have "m = take i m @ ''('' @ butlast (drop (Suc i) m) @ '')''"
    using m by simp
  moreover have "CHR ''('' \<notin> set (butlast (drop (Suc i) m))"
    using no by (meson in_set_butlastD)
  ultimately show ?thesis by blast
qed

section \<open>Clamping a level\<close>

lemma levelIndexFrom_ge: "levelIndexFrom i l ls = -1 \<or> i \<le> levelIndexFrom i l ls"
  by (induction ls arbitrary: i) (auto, force)

lemma levelIndexFrom_Some:
  "0 \<le> i \<Longrightarrow> levelIndexFrom i l ls \<noteq> -1 \<Longrightarrow>
    i \<le> levelIndexFrom i l ls \<and> levelIndexFrom i l ls < i + int (length ls)
    \<and> equal_fold l (ls ! nat (levelIndexFrom i l ls - i))"
proof (induction ls arbitrary: i)
  case Nil
  then show ?case by simp
next
  case (Cons x ls)
  show ?case
  proof (cases "equal_fold l x")
    case True
    then show ?thesis by simp
  next
    case False
    with Cons.prems Cons.IH [of "i + 1"]
    have "i + 1 \<le> levelIndexFrom (i + 1) l ls \<and> levelIndexFrom (i + 1) l ls < i + 1 + int (length ls)
      \<and> equal_fold l (ls ! nat (levelIndexFrom (i + 1) l ls - (i + 1)))" by simp
    moreover from this have "nat (levelIndexFrom (i + 1) l ls - i)
        = Suc (nat (levelIndexFrom (i + 1) l ls - (i + 1)))" by linarith
    ultimately show ?thesis using False by simp
  qed
qed

lemma levelIndex_range: "levelIndex l = -1 \<or> (0 \<le> levelIndex l \<and> levelIndex l < 6)"
  using levelIndexFrom_Some [of 0 l standardLevelOrder] by (auto simp: levelIndex_def)

lemma levelIndex_standard:
  "levelIndex l \<noteq> -1 \<Longrightarrow> equal_fold l (standardLevelOrder ! nat (levelIndex l))"
  using levelIndexFrom_Some [of 0 l standardLevelOrder] by (simp add: levelIndex_def)

lemma levelIndex_nth: "0 \<le> i \<Longrightarrow> i < 6 \<Longrightarrow> levelIndex (standardLevelOrder ! nat i) = i"
proof -
  assume "0 \<le> i" "i < 6"
  then have "i = 0 \<or> i = 1 \<or> i = 2 \<or> i = 3 \<or> i = 4 \<or> i = 5" by auto
  then show ?thesis by (elim disjE; simp only:) code_simp+
qed

text \<open>The positions in the standard order of the supported levels that are standard.\<close>

definition ranks :: "string list \<Rightarrow> int list" where
  "ranks levels = filter (\<lambda>i. i \<noteq> -1) (map (\<lambda>s. levelIndex (trim_space s)) levels)"

lemma ranks_range: "i \<in> set (ranks levels) \<Longrightarrow> 0 \<le> i \<and> i < 6"
  using levelIndex_range by (force simp: ranks_def)

text \<open>The scan keeps the least pair of distance and index among the ranks it has seen.\<close>

definition scan_ok :: "int \<Rightarrow> int list \<Rightarrow> int \<times> int \<Rightarrow> bool" where
  "scan_ok pos rs best \<longleftrightarrow>
     (if rs = [] then best = (-1, 7)
      else fst best \<in> set rs \<and> snd best = \<bar>pos - fst best\<bar>
        \<and> (\<forall>r\<in>set rs. snd best < \<bar>pos - r\<bar> \<or> (snd best = \<bar>pos - r\<bar> \<and> fst best \<le> r)))"

lemma clampStep_rank: "levelIndex (trim_space s) \<noteq> -1 \<Longrightarrow> clampStep pos best s =
    (let i = levelIndex (trim_space s)
     in if \<bar>pos - i\<bar> < snd best \<or> (\<bar>pos - i\<bar> = snd best \<and> i < fst best) then (i, \<bar>pos - i\<bar>) else best)"
  by (simp add: clampStep_def Let_def)

lemma scan_ok_snoc:
  assumes "scan_ok pos rs best" "0 \<le> pos" "pos < 6" "0 \<le> i" "i < 6"
  shows "scan_ok pos (rs @ [i])
    (if \<bar>pos - i\<bar> < snd best \<or> (\<bar>pos - i\<bar> = snd best \<and> i < fst best) then (i, \<bar>pos - i\<bar>) else best)"
proof (cases "rs = []")
  case True
  with assms have "best = (-1, 7)" by (simp add: scan_ok_def)
  then show ?thesis using True assms(2-) by (simp add: scan_ok_def)
next
  case False
  with assms(1) have b: "fst best \<in> set rs" "snd best = \<bar>pos - fst best\<bar>"
      "\<forall>r\<in>set rs. snd best < \<bar>pos - r\<bar> \<or> (snd best = \<bar>pos - r\<bar> \<and> fst best \<le> r)"
    by (auto simp: scan_ok_def)
  show ?thesis
  proof (cases "\<bar>pos - i\<bar> < snd best \<or> (\<bar>pos - i\<bar> = snd best \<and> i < fst best)")
    case True
    with b(3) have "\<forall>r\<in>set rs. \<bar>pos - i\<bar> < \<bar>pos - r\<bar> \<or> (\<bar>pos - i\<bar> = \<bar>pos - r\<bar> \<and> i \<le> r)"
      by (fastforce dest: bspec)
    then show ?thesis unfolding if_P [OF True] by (simp add: scan_ok_def)
  next
    case no: False
    with b show ?thesis unfolding if_not_P [OF no] by (auto simp: scan_ok_def False)
  qed
qed

lemma scan_ok_foldl:
  "0 \<le> pos \<Longrightarrow> pos < 6 \<Longrightarrow> scan_ok pos (ranks levels) (foldl (clampStep pos) (-1, 7) levels)"
proof (induction levels rule: rev_induct)
  case Nil
  then show ?case by (simp add: scan_ok_def ranks_def)
next
  case (snoc s levels)
  show ?case
  proof (cases "levelIndex (trim_space s) = -1")
    case True
    then have "ranks (levels @ [s]) = ranks levels" "clampStep pos b s = b" for b
      by (simp_all add: ranks_def clampStep_def)
    with snoc show ?thesis by simp
  next
    case False
    then have "ranks (levels @ [s]) = ranks levels @ [levelIndex (trim_space s)]"
      by (simp add: ranks_def)
    with snoc False scan_ok_snoc [of pos "ranks levels" "foldl (clampStep pos) (-1, 7) levels"
        "levelIndex (trim_space s)"] levelIndex_range [of "trim_space s"]
    show ?thesis by (simp add: clampStep_rank Let_def)
  qed
qed

lemma clampLevel_scan:
  assumes "mi_Thinking mi = Some s" "\<not> isLevelSupported l (ts_Levels s)"
    and "levelIndex l \<noteq> -1" "ranks (ts_Levels s) \<noteq> []"
  shows "\<exists>i\<in>set (ranks (ts_Levels s)). clampLevel l (Some mi) = standardLevelOrder ! nat i
      \<and> (\<forall>r\<in>set (ranks (ts_Levels s)). \<bar>levelIndex l - i\<bar> < \<bar>levelIndex l - r\<bar>
          \<or> (\<bar>levelIndex l - i\<bar> = \<bar>levelIndex l - r\<bar> \<and> i \<le> r))"
proof -
  let ?b = "foldl (clampStep (levelIndex l)) (-1, 7) (ts_Levels s)"
  have "scan_ok (levelIndex l) (ranks (ts_Levels s)) ?b"
    using levelIndex_range [of l] assms(3) by (intro scan_ok_foldl) auto
  with assms(4) have b: "fst ?b \<in> set (ranks (ts_Levels s))" "snd ?b = \<bar>levelIndex l - fst ?b\<bar>"
      "\<forall>r\<in>set (ranks (ts_Levels s)). snd ?b < \<bar>levelIndex l - r\<bar>
         \<or> (snd ?b = \<bar>levelIndex l - r\<bar> \<and> fst ?b \<le> r)"
    by (auto simp: scan_ok_def)
  have "ts_Levels s \<noteq> []" using assms(4) by (auto simp: ranks_def)
  moreover have "0 \<le> fst ?b" using ranks_range [OF b(1)] by simp
  ultimately have "clampLevel l (Some mi) = standardLevelOrder ! nat (fst ?b)"
    using assms(1-3) by (simp add: clampLevel_def Let_def)
  with b show ?thesis by (intro bexI [of _ "fst ?b"]) auto
qed

lemma rank_supported:
  "i \<in> set (ranks levels) \<Longrightarrow> isLevelSupported (standardLevelOrder ! nat i) levels"
proof -
  assume "i \<in> set (ranks levels)"
  then obtain x where "x \<in> set levels" "i = levelIndex (trim_space x)" "levelIndex (trim_space x) \<noteq> -1"
    by (auto simp: ranks_def)
  with levelIndex_standard [of "trim_space x"] show ?thesis
    by (simp add: isLevelSupported_def list_ex_iff equal_fold_def) metis
qed

lemma clampLevel_supported:
  assumes "mi_Thinking mi = Some s" "ranks (ts_Levels s) \<noteq> []" "levelIndex l \<noteq> -1"
  shows "isLevelSupported (clampLevel l (Some mi)) (ts_Levels s)"
proof (cases "isLevelSupported l (ts_Levels s)")
  case True
  with assms(1) show ?thesis by (simp add: clampLevel_def)
next
  case False
  from clampLevel_scan [OF assms(1) this assms(3,2)] show ?thesis by (auto simp: rank_supported)
qed

section \<open>What a validated configuration satisfies\<close>

lemma checkLevel_ok:
  "checkLevel c s mi allow = Inr c' \<Longrightarrow>
    tc_Mode c' = tc_Mode c \<and> tc_Budget c' = tc_Budget c
    \<and> (ts_Levels s \<noteq> [] \<longrightarrow> tc_Mode c = ModeLevel \<longrightarrow> isLevelSupported (tc_Level c') (ts_Levels s))"
  by (auto simp: checkLevel_def Let_def split: if_splits)

lemma normalizeSpecial_budget:
  "tc_Mode (normalizeSpecial c) = ModeBudget \<Longrightarrow>
    tc_Mode c = ModeBudget \<and> tc_Budget (normalizeSpecial c) = tc_Budget c \<and> tc_Budget c \<noteq> 0"
  by (auto simp: normalizeSpecial_def Let_def split: if_splits)

lemma convertByCapability_budget:
  "convertByCapability c mi = Inr (c', derived) \<Longrightarrow> tc_Mode c' = ModeBudget \<Longrightarrow>
    (tc_Mode c = ModeBudget \<and> tc_Budget c' = tc_Budget c)
    \<or> (tc_Mode c = ModeLevel \<and> ConvertLevelToBudget (tc_Level c) = Some (tc_Budget c'))"
  by (auto simp: convertByCapability_def split: ModelCapability.splits if_splits option.splits)

lemma resolveAuto_dynamic: "tc_Mode (resolveAuto c s mi) = ModeAuto \<Longrightarrow> ts_DynamicAllowed s"
  by (auto simp: resolveAuto_def convertAutoToMidRange_def Let_def split: if_splits)

lemma resolveAuto_level:
  assumes "tc_Mode (resolveAuto c s (Some mi)) = ModeLevel" "mi_Thinking mi = Some s"
    and "ranks (ts_Levels s) \<noteq> []"
    and "tc_Mode c = ModeLevel \<Longrightarrow> isLevelSupported (tc_Level c) (ts_Levels s)"
  shows "isLevelSupported (tc_Level (resolveAuto c s (Some mi))) (ts_Levels s)"
proof (cases "tc_Mode c = ModeAuto \<and> \<not> ts_DynamicAllowed s")
  case True
  have "levelIndex ''medium'' \<noteq> -1" by code_simp
  with True assms show ?thesis
    by (auto simp: resolveAuto_def convertAutoToMidRange_def Let_def clampLevel_supported split: if_splits)
next
  case False
  with assms show ?thesis by (auto simp: resolveAuto_def)
qed

lemma resolveAuto_budget:
  "tc_Mode (resolveAuto c s mi) = ModeBudget \<Longrightarrow>
    (tc_Mode c = ModeBudget \<and> tc_Budget (resolveAuto c s mi) = tc_Budget c)
    \<or> (tc_Budget (resolveAuto c s mi) = ts_Min s \<and> \<not> ts_ZeroAllowed s)
    \<or> 0 < tc_Budget (resolveAuto c s mi)"
  by (auto simp: resolveAuto_def convertAutoToMidRange_def Let_def split: if_splits)

lemma clampBudget_range:
  assumes "mi_Thinking mi = Some s" "ts_Min s \<le> ts_Max s" "ts_Min s \<noteq> 0 \<or> ts_Max s \<noteq> 0"
    and "v \<noteq> 0 \<or> \<not> ts_ZeroAllowed s"
  shows "clampBudget v (Some mi) = -1 \<or>
    (ts_Min s \<le> clampBudget v (Some mi) \<and> clampBudget v (Some mi) \<le> ts_Max s)"
  using assms by (auto simp: clampBudget_def)

lemma clampBudget_minus1:
  assumes "mi_Thinking mi = Some s" "0 \<le> ts_Min s" "0 \<le> ts_Max s" "clampBudget v (Some mi) = -1"
    and "ts_Min s \<noteq> 0 \<or> ts_Max s \<noteq> 0"
  shows "v = -1"
  using assms by (auto simp: clampBudget_def split: if_splits)

lemma finalClamp_mode [simp]: "tc_Mode (finalClamp c s mi fmt) = tc_Mode c"
  by (auto simp: finalClamp_def Let_def)

lemma finalClamp_level: "tc_Mode c = ModeLevel \<Longrightarrow> finalClamp c s mi fmt = c"
  by (auto simp: finalClamp_def Let_def)

lemma finalClamp_budget:
  "tc_Mode c = ModeBudget \<Longrightarrow> tc_Budget (finalClamp c s mi fmt) = clampBudget (tc_Budget c) mi"
  by (auto simp: finalClamp_def Let_def)

lemma ValidateConfig_steps:
  assumes "ValidateConfig c (Some mi) f t sfx = Inr r" "mi_Thinking mi = Some s"
  obtains c1 derived allow c2 strict where
    "convertByCapability c (Some mi) = Inr (c1, derived)"
    "checkLevel (normalizeSpecial c1) s (Some mi) allow = Inr c2"
    "checkBudget c2 s strict derived = None"
    "r = finalClamp (resolveAuto c2 s (Some mi)) s (Some mi) (to_lower (trim_space t))"
  using assms
  by (auto simp: ValidateConfig_def Let_def split: sum.splits option.splits prod.splits)

lemma budget_minus1_level: "ConvertLevelToBudget l = Some (-1) \<Longrightarrow> to_lower l = ''auto''"
  by (auto simp: ConvertLevelToBudget_def split: if_splits)

section \<open>Properties\<close>

text \<open>
  \<open>ParseSuffix\<close> accepts exactly the names \<open>name(value)\<close> whose value has no opening
  parenthesis, splits them into the two parts, and returns every other name unchanged.
\<close>

theorem ParseSuffix_spec:
  "(sr_HasSuffix (ParseSuffix m) \<longleftrightarrow> (\<exists>n v. CHR ''('' \<notin> set v \<and> m = n @ ''('' @ v @ '')''))
   \<and> (if sr_HasSuffix (ParseSuffix m)
      then m = sr_ModelName (ParseSuffix m) @ ''('' @ sr_RawSuffix (ParseSuffix m) @ '')''
      else sr_ModelName (ParseSuffix m) = m \<and> sr_RawSuffix (ParseSuffix m) = [])"
proof (cases "sr_HasSuffix (ParseSuffix m)")
  case True
  then obtain n v where "CHR ''('' \<notin> set v" "m = n @ ''('' @ v @ '')''"
    using ParseSuffix_decompose by blast
  then show ?thesis by (auto simp: ParseSuffix_build simp del: append_Cons append_Nil)
next
  case False
  moreover have "\<not> (\<exists>n v. CHR ''('' \<notin> set v \<and> m = n @ ''('' @ v @ '')'')"
    using False ParseSuffix_build by fastforce
  ultimately show ?thesis
    by (auto simp: ParseSuffix_def split: option.splits)
qed


abbreviation sample_support :: ThinkingSupport where
  "sample_support \<equiv> \<lparr>ts_Min = 1024, ts_Max = 32000, ts_ZeroAllowed = True, ts_DynamicAllowed = False,
     ts_Levels = []\<rparr>"

abbreviation sample_claude :: ModelInfo where
  "sample_claude \<equiv> new_model ''claude-x'' ''claude'' (Some sample_support)"


text \<open>
  The exception above is reachable because the level \<open>auto\<close> is compared with case while the
  conversion to a budget ignores it: on a model with a budget range and no dynamic thinking, the
  effort \<open>auto\<close> becomes the middle of the range, the effort \<open>AUTO\<close> the budget $-1$ outside it.
\<close>

theorem ValidateConfig_auto_case:
  "ValidateConfig \<lparr>tc_Mode = ModeLevel, tc_Budget = 0, tc_Level = ''auto''\<rparr> (Some sample_claude)
     ''openai'' ''claude'' False = Inr \<lparr>tc_Mode = ModeBudget, tc_Budget = 16512, tc_Level = []\<rparr>
   \<and> ValidateConfig \<lparr>tc_Mode = ModeLevel, tc_Budget = 0, tc_Level = ''AUTO''\<rparr> (Some sample_claude)
     ''openai'' ''claude'' False = Inr \<lparr>tc_Mode = ModeBudget, tc_Budget = -1, tc_Level = []\<rparr>"
  by (rule conjI; code_simp)

text \<open>
  \<open>clampLevel\<close> keeps a level the model supports; for an unsupported standard level it returns
  the nearest of the model's standard levels in the canonical order, the lower one on a tie; the
  result is always a level the model supports.
\<close>

theorem clampLevel_nearest:
  assumes "mi_Thinking mi = Some s" "levelIndex l \<noteq> -1" "ranks (ts_Levels s) \<noteq> []"
  shows "isLevelSupported (clampLevel l (Some mi)) (ts_Levels s)
    \<and> (if isLevelSupported l (ts_Levels s) then clampLevel l (Some mi) = l
       else (\<exists>i\<in>set (ranks (ts_Levels s)). clampLevel l (Some mi) = standardLevelOrder ! nat i
         \<and> (\<forall>r\<in>set (ranks (ts_Levels s)). \<bar>levelIndex l - i\<bar> < \<bar>levelIndex l - r\<bar>
             \<or> (\<bar>levelIndex l - i\<bar> = \<bar>levelIndex l - r\<bar> \<and> i \<le> r))))"
proof (cases "isLevelSupported l (ts_Levels s)")
  case True
  with assms show ?thesis by (simp add: clampLevel_def)
next
  case False
  from clampLevel_scan [OF assms(1) False assms(2,3)] False
  show ?thesis using clampLevel_supported [OF assms(1,3,2)] by simp
qed

lemma clampLevel_nearest_witness:
  "isLevelSupported (clampLevel ''medium'' (Some (new_model ''m'' ''kimi''
     (Some (sample_support\<lparr>ts_Levels := [''high'', '' Low '']\<rparr>))))) [''high'', '' Low '']
   \<and> clampLevel ''medium'' (Some (new_model ''m'' ''kimi''
     (Some (sample_support\<lparr>ts_Levels := [''high'', '' Low '']\<rparr>)))) = ''low''"
proof -
  let ?s = "sample_support\<lparr>ts_Levels := [''high'', '' Low '']\<rparr>"
  have "mi_Thinking (new_model ''m'' ''kimi'' (Some ?s)) = Some ?s" by (simp add: new_model_def)
  moreover have "levelIndex ''medium'' \<noteq> -1" by code_simp
  moreover have "ranks (ts_Levels ?s) \<noteq> []" by code_simp
  moreover have "clampLevel ''medium'' (Some (new_model ''m'' ''kimi'' (Some ?s))) = ''low''"
    by code_simp
  ultimately show ?thesis
    using clampLevel_nearest [of "new_model ''m'' ''kimi'' (Some ?s)" ?s "''medium''"] by simp
qed

end
