(* ===== verification/Availability.thy ===== *)
theory Availability
  imports AuthTypes Thinking
begin

text \<open>
  The reading side of a credential's runtime state (\<open>backend/sdk/cliproxy/auth/selector.go\<close>):
  whether a credential is blocked for a model at an instant, its priority and weight, the model
  key its state is stored under, and its websocket flag. A candidate list of the selectors holds
  pointers, so a candidate is an option.
\<close>

datatype blockReason = blockReasonNone | blockReasonCooldown | blockReasonDisabled | blockReasonOther

text \<open>The loop of \<open>availabilityBlock\<close> over the two candidate instants.\<close>

definition laterCandidate :: "gotime \<Rightarrow> gotime \<Rightarrow> gotime \<Rightarrow> gotime" where
  "laterCandidate now nxt candidate =
     (if candidate > now \<and> (is_zero nxt \<or> candidate > nxt) then candidate else nxt)"

definition availabilityBlock ::
    "bool \<Rightarrow> bool \<Rightarrow> gotime \<Rightarrow> gotime \<Rightarrow> gotime \<Rightarrow> bool \<times> blockReason \<times> gotime" where
  "availabilityBlock unavailable quotaExceeded nextRetryAfter nextRecoverAt now =
     (if \<not> unavailable \<and> \<not> quotaExceeded then (False, blockReasonNone, zero_time)
      else let hasRecoveryTime = (\<not> is_zero nextRetryAfter \<or> \<not> is_zero nextRecoverAt);
               nxt = foldl (laterCandidate now) zero_time [nextRetryAfter, nextRecoverAt]
        in if \<not> is_zero nxt
           then (True, if quotaExceeded then blockReasonCooldown else blockReasonOther, nxt)
           else if hasRecoveryTime then (False, blockReasonNone, zero_time)
           else (True, blockReasonOther, zero_time))"

definition canonicalModelKey :: "string \<Rightarrow> string" where
  "canonicalModelKey model =
     (let model = trim_space model
      in if model = [] then []
         else let modelName = trim_space (sr_ModelName (ParseSuffix model))
           in if modelName = [] then model else modelName)"

text \<open>The state of a model, under its exact name or else under its canonical key.\<close>

definition stateForModel :: "Auth \<Rightarrow> string \<Rightarrow> ModelState option" where
  "stateForModel auth model =
     (case m_get (a_ModelStates auth) model of
        Some (Some state) \<Rightarrow> Some state
      | _ \<Rightarrow> (let baseModel = canonicalModelKey model
              in if baseModel \<noteq> [] \<and> baseModel \<noteq> model
                 then (case m_get (a_ModelStates auth) baseModel of
                         Some (Some state) \<Rightarrow> Some state | _ \<Rightarrow> None)
                 else None))"

definition authBlock :: "Auth \<Rightarrow> gotime \<Rightarrow> bool \<times> blockReason \<times> gotime" where
  "authBlock auth now = availabilityBlock (a_Unavailable auth) (q_Exceeded (a_Quota auth))
     (a_NextRetryAfter auth) (q_NextRecoverAt (a_Quota auth)) now"

definition stateBlock :: "ModelState \<Rightarrow> gotime \<Rightarrow> bool \<times> blockReason \<times> gotime" where
  "stateBlock state now = availabilityBlock (s_Unavailable state) (q_Exceeded (s_Quota state))
     (s_NextRetryAfter state) (q_NextRecoverAt (s_Quota state)) now"

definition isAuthBlockedForModel ::
    "Auth option \<Rightarrow> string \<Rightarrow> gotime \<Rightarrow> bool \<times> blockReason \<times> gotime" where
  "isAuthBlockedForModel candidate model now =
     (case candidate of
        None \<Rightarrow> (True, blockReasonOther, zero_time)
      | Some auth \<Rightarrow>
          if a_Disabled auth \<or> a_Status auth = StatusDisabled
          then (True, blockReasonDisabled, zero_time)
          else if model \<noteq> [] \<and> a_ModelStates auth \<noteq> []
          then (case stateForModel auth model of
                  Some state \<Rightarrow>
                    if s_Status state = StatusDisabled then (True, blockReasonDisabled, zero_time)
                    else stateBlock state now
                | None \<Rightarrow> (False, blockReasonNone, zero_time))
          else authBlock auth now)"

definition authPriority :: "Auth option \<Rightarrow> int" where
  "authPriority candidate =
     (case candidate of
        None \<Rightarrow> 0
      | Some auth \<Rightarrow>
          (let raw = trim_space (m_get0 [] (a_Attributes auth) ''priority'')
           in if raw = [] then 0
              else (case parse_int64 raw of None \<Rightarrow> 0 | Some parsed \<Rightarrow> parsed)))"

definition weightOrZero :: "weight_error + int \<Rightarrow> int" where
  "weightOrZero r = (case r of Inl _ \<Rightarrow> 0 | Inr w \<Rightarrow> w)"

definition authWeight :: "Auth option \<Rightarrow> int" where
  "authWeight candidate =
     (case candidate of
        None \<Rightarrow> DefaultWeight
      | Some auth \<Rightarrow>
          (case (case m_get (a_Attributes auth) ''weight'' of
                   Some raw \<Rightarrow> if trim_space raw \<noteq> [] then Some raw else None | None \<Rightarrow> None) of
             Some rawWeight \<Rightarrow> weightOrZero (ParseString rawWeight)
           | None \<Rightarrow> (case m_get (a_Metadata auth) ''weight'' of
                 Some rawWeight \<Rightarrow> weightOrZero (ParseValue rawWeight)
               | None \<Rightarrow> DefaultWeight)))"

definition authWebsocketsEnabled :: "Auth option \<Rightarrow> bool" where
  "authWebsocketsEnabled candidate =
     (case candidate of
        None \<Rightarrow> False
      | Some auth \<Rightarrow>
          (let raw = trim_space (m_get0 [] (a_Attributes auth) ''websockets'')
           in case (if raw \<noteq> [] then parse_bool raw else None) of
                Some parsed \<Rightarrow> parsed
              | None \<Rightarrow> (case m_get (a_Metadata auth) ''websockets'' of
                    Some (GoBool v) \<Rightarrow> v
                  | Some (GoString v) \<Rightarrow>
                      (case parse_bool (trim_space v) of Some parsed \<Rightarrow> parsed | None \<Rightarrow> False)
                  | _ \<Rightarrow> False)))"

section \<open>Basic facts\<close>

lemma authWeight_range: "0 \<le> authWeight c \<and> authWeight c \<le> MaxWeight"
proof -
  have "0 \<le> weightOrZero (ParseString s) \<and> weightOrZero (ParseString s) \<le> MaxWeight" for s
    using ParseString_range [of s] by (auto simp: weightOrZero_def split: sum.splits)
  moreover have "0 \<le> weightOrZero (ParseValue v) \<and> weightOrZero (ParseValue v) \<le> MaxWeight" for v
    using ParseValue_range [of v] by (auto simp: weightOrZero_def split: sum.splits)
  ultimately show ?thesis by (auto simp: authWeight_def split: option.splits)
qed

lemma blocked_free: "availabilityBlock False False r q now = (False, blockReasonNone, 0)"
  by (simp add: availabilityBlock_def)

text \<open>For an instant after the zero time, a block lasts exactly until the later of its two deadlines.\<close>

lemma availabilityBlock_until:
  assumes "0 \<le> now" "u \<or> q"
  shows "fst (availabilityBlock u q r c now) \<longleftrightarrow> now < max r c \<or> (r = 0 \<and> c = 0)"
    and "now < max r c \<Longrightarrow> availabilityBlock u q r c now =
      (True, if q then blockReasonCooldown else blockReasonOther, max r c)"
  using assms
  by (auto simp: availabilityBlock_def laterCandidate_def Let_def max_def split: if_splits)

lemma block_next_future:
  "availabilityBlock u q r c now = (True, reason, nxt) \<Longrightarrow> nxt = 0 \<or> now < nxt"
  by (auto simp: availabilityBlock_def laterCandidate_def Let_def split: if_splits)

lemma cooldown_next: "availabilityBlock u q r c now = (True, blockReasonCooldown, nxt) \<Longrightarrow> now < nxt \<and> nxt \<noteq> 0"
  by (auto simp: availabilityBlock_def laterCandidate_def Let_def split: if_splits)

lemma stateForModel_exact:
  "m_get (a_ModelStates a) model = Some (Some st) \<Longrightarrow> stateForModel a model = Some st"
  by (simp add: stateForModel_def)

end
