(* ===== verification/CooldownState.thy ===== *)
theory CooldownState
  imports Availability
begin

text \<open>
  The writing side of a credential's runtime state, first half
  (\<open>backend/sdk/cliproxy/auth/conductor_cooldown.go\<close>): which errors are classified how, the
  back-off ladder, the reset and aggregation of model states, and the failure of a whole
  credential. The clock reading and the process-wide settings are arguments.
\<close>

section \<open>Settings\<close>

text \<open>A model of a configured provider: the five configuration types that serve as model entries (for
  Claude, Codex, Gemini, Vertex and the compatible providers) have the same three fields.\<close>

record ConfigModel =
  cm_Name :: string
  cm_Alias :: string
  cm_ForceMapping :: bool

record OpenAICompat =
  oc_Name :: string
  oc_Disabled :: bool
  oc_DisableCooling :: bool
  oc_Models :: "ConfigModel list"

record CoolingConfig =
  cc_DisableCooling :: bool
  cc_OpenAICompatibility :: "OpenAICompat list"

record CoolingEnv =
  ce_config :: "CoolingConfig option"
  ce_quotaCooldownDisabled :: bool
  ce_transientErrorCooldownSeconds :: int
  ce_hasCooldownStore :: bool

definition resolveOpenAICompatConfig ::
    "'c CoolingConfig_scheme \<Rightarrow> string \<Rightarrow> string \<Rightarrow> string \<Rightarrow> OpenAICompat option" where
  "resolveOpenAICompatConfig cfg providerKey compatName authProvider =
     (let candidates = filter (\<lambda>v. v \<noteq> [])
            [trim_space compatName, trim_space providerKey, trim_space authProvider]
      in find (\<lambda>compat. \<not> oc_Disabled compat
           \<and> list_ex (\<lambda>candidate. candidate \<noteq> [] \<and> equal_fold (trim_space candidate) (oc_Name compat)) candidates)
         (cc_OpenAICompatibility cfg))"

definition providerCoolingDisabledForAuth :: "Auth \<Rightarrow> CoolingConfig option \<Rightarrow> bool" where
  "providerCoolingDisabledForAuth auth cfg =
     (case cfg of
        None \<Rightarrow> False
      | Some cfg \<Rightarrow>
          (let provider = to_lower (trim_space (a_Provider auth));
               providerKey = authAttribute auth ''provider_key'';
               compatName = authAttribute auth ''compat_name''
           in if provider = [] then False
              else if providerKey = [] \<and> compatName = [] \<and> provider \<noteq> ''openai-compatibility'' then False
              else (case resolveOpenAICompatConfig cfg
                       (if providerKey = [] then provider else providerKey) compatName provider of
                      None \<Rightarrow> False | Some entry \<Rightarrow> oc_DisableCooling entry)))"

definition cooldownDisabledForAuth :: "CoolingEnv \<Rightarrow> Auth \<Rightarrow> bool" where
  "cooldownDisabledForAuth env auth =
     (let (override, ok) = DisableCoolingOverride auth
      in if ok then override
         else if providerCoolingDisabledForAuth auth (ce_config env) then True
         else if (case ce_config env of None \<Rightarrow> False | Some cfg \<Rightarrow> cc_DisableCooling cfg) then True
         else ce_quotaCooldownDisabled env)"

section \<open>Deadlines\<close>

abbreviation (input) transientErrorCooldown :: goduration where "transientErrorCooldown \<equiv> minute"
abbreviation (input) quotaBackoffBase :: goduration where "quotaBackoffBase \<equiv> second"
abbreviation (input) quotaBackoffMax :: goduration where "quotaBackoffMax \<equiv> 30 * minute"

definition nextTransientErrorRetryAfter :: "CoolingEnv \<Rightarrow> gotime \<Rightarrow> gotime" where
  "nextTransientErrorRetryAfter env now =
     (let seconds = ce_transientErrorCooldownSeconds env
      in if seconds < 0 then zero_time
         else if seconds = 0 then now + transientErrorCooldown
         else now + wrap64 (seconds * second))"

definition recoverableFailureRetryAfter :: "CoolingEnv \<Rightarrow> gotime \<Rightarrow> bool \<Rightarrow> gotime" where
  "recoverableFailureRetryAfter env now disableCooling =
     (if disableCooling then zero_time else nextTransientErrorRetryAfter env now)"

text \<open>\<open>1<<prevLevel\<close> has type \<open>time.Duration\<close>, so both the shift and the product wrap.\<close>

definition nextQuotaCooldown :: "int \<Rightarrow> bool \<Rightarrow> goduration \<times> int" where
  "nextQuotaCooldown prevLevel disableCooling =
     (let prevLevel = (if prevLevel < 0 then 0 else prevLevel)
      in if disableCooling then (0, prevLevel)
         else let cooldown = wrap64 (quotaBackoffBase * wrap64 (2 ^ nat prevLevel));
                  cooldown = (if cooldown < quotaBackoffBase then quotaBackoffBase else cooldown)
           in if cooldown \<ge> quotaBackoffMax then (quotaBackoffMax, prevLevel)
              else (cooldown, prevLevel + 1))"

definition quotaCooldownAfterFailure :: "QuotaState \<Rightarrow> gotime \<Rightarrow> gotime \<times> int" where
  "quotaCooldownAfterFailure quota now =
     (if q_NextRecoverAt quota > now then (q_NextRecoverAt quota, q_BackoffLevel quota)
      else let (cooldown, nextLevel) = nextQuotaCooldown (q_BackoffLevel quota) False
        in (if cooldown > 0 then now + cooldown else zero_time, nextLevel))"

definition nextCloudflareCooldown :: "int \<Rightarrow> bool \<Rightarrow> gotime \<Rightarrow> gotime \<times> int" where
  "nextCloudflareCooldown backoffLevel disableCooling now =
     (if disableCooling then (zero_time, backoffLevel)
      else let (cooldown, nextLevel) = nextQuotaCooldown backoffLevel disableCooling;
               cooldown = (if cooldown < 10 * second then 10 * second else cooldown)
        in (if cooldown > 0 then now + cooldown else zero_time, nextLevel))"

section \<open>Classification of errors\<close>

definition statusCodeFromResult :: "AuthError option \<Rightarrow> int" where
  "statusCodeFromResult err = (case err of None \<Rightarrow> 0 | Some e \<Rightarrow> e_HTTPStatus e)"

definition isModelSupportErrorMessage :: "string \<Rightarrow> bool" where
  "isModelSupportErrorMessage message =
     (let lower = to_lower (trim_space message)
      in if lower = [] then False
         else list_ex (contains lower)
           [''model_not_supported'', ''requested model is not supported'',
            ''requested model is unsupported'', ''requested model is unavailable'',
            ''model is not supported'', ''model not supported'', ''unsupported model'',
            ''model unavailable'', ''not available for your plan'',
            ''not available for your account''])"

definition isModelSupportResultError :: "AuthError option \<Rightarrow> bool" where
  "isModelSupportResultError err =
     (case err of
        None \<Rightarrow> False
      | Some e \<Rightarrow> (statusCodeFromResult err = 400 \<or> statusCodeFromResult err = 422)
          \<and> isModelSupportErrorMessage (e_Message e))"

definition isInvalidGrantErrorMessage :: "string \<Rightarrow> bool" where
  "isInvalidGrantErrorMessage message = contains (to_lower message) ''invalid_grant''"

definition isInvalidGrantResultError :: "AuthError option \<Rightarrow> bool" where
  "isInvalidGrantResultError err =
     (case err of
        None \<Rightarrow> False
      | Some e \<Rightarrow> (statusCodeFromResult err = 400 \<or> statusCodeFromResult err = 401)
          \<and> (isInvalidGrantErrorMessage (e_Code e) \<or> isInvalidGrantErrorMessage (e_Message e)))"

definition isCloudflareChallengeErrorMessage :: "string \<Rightarrow> bool" where
  "isCloudflareChallengeErrorMessage message =
     (let lower = to_lower (trim_space message)
      in contains lower ''challenge-platform'' \<or> contains lower ''cf-mitigated''
         \<or> contains lower ''cloudflare challenge''
         \<or> (contains lower ''cloudflare'' \<and> contains lower ''<html''))"

definition isCloudflareChallengeResultError :: "AuthError option \<Rightarrow> bool" where
  "isCloudflareChallengeResultError err =
     (case err of None \<Rightarrow> False | Some e \<Rightarrow> isCloudflareChallengeErrorMessage (e_Message e))"

definition isRequestScopedNotFoundMessage :: "string \<Rightarrow> bool" where
  "isRequestScopedNotFoundMessage message =
     (if message = [] then False
      else let lower = to_lower message
        in contains lower ''item with id'' \<and> contains lower ''not found''
           \<and> contains lower ''items are not persisted when `store` is set to false'')"

definition isRequestScopedNotFoundResultError :: "AuthError option \<Rightarrow> bool" where
  "isRequestScopedNotFoundResultError err =
     (case err of
        None \<Rightarrow> False
      | Some e \<Rightarrow> statusCodeFromResult err = 404 \<and> isRequestScopedNotFoundMessage (e_Message e))"

definition isRequestScopedResultError :: "AuthError option \<Rightarrow> bool" where
  "isRequestScopedResultError err =
     (case err of
        None \<Rightarrow> False | Some e \<Rightarrow> IsRequestScoped e \<or> isRequestScopedNotFoundResultError err)"

section \<open>Model states\<close>

definition freshModelState :: ModelState where
  "freshModelState = \<lparr>s_Status = StatusActive, s_StatusMessage = [], s_Unavailable = False,
     s_NextRetryAfter = zero_time, s_LastError = None, s_Quota = zeroQuota, s_UpdatedAt = zero_time\<rparr>"

text \<open>\<open>ensureModelState\<close> returns a pointer into the map; the model returns the state and the
  credential that holds it, and \<open>putModelState\<close> writes through the pointer.\<close>

definition ensureModelState :: "Auth \<Rightarrow> string \<Rightarrow> ModelState \<times> Auth" where
  "ensureModelState auth model =
     (case m_get (a_ModelStates auth) model of
        Some (Some state) \<Rightarrow> (state, auth)
      | _ \<Rightarrow> (freshModelState,
          auth\<lparr>a_ModelStates := m_put model (Some freshModelState) (a_ModelStates auth)\<rparr>))"

definition putModelState :: "string \<Rightarrow> ModelState \<Rightarrow> Auth \<Rightarrow> Auth" where
  "putModelState model state auth =
     auth\<lparr>a_ModelStates := m_put model (Some state) (a_ModelStates auth)\<rparr>"

definition resetModelState :: "ModelState \<Rightarrow> gotime \<Rightarrow> ModelState" where
  "resetModelState state now =
     state\<lparr>s_Unavailable := False, s_Status := StatusActive, s_StatusMessage := [],
       s_NextRetryAfter := zero_time, s_LastError := None, s_Quota := zeroQuota, s_UpdatedAt := now\<rparr>"

definition modelStateIsClean :: "ModelState option \<Rightarrow> bool" where
  "modelStateIsClean st =
     (case st of
        None \<Rightarrow> True
      | Some state \<Rightarrow>
          if s_Status state \<noteq> StatusActive then False
          else if s_Unavailable state \<or> s_StatusMessage state \<noteq> [] \<or> \<not> is_zero (s_NextRetryAfter state)
            \<or> s_LastError state \<noteq> None then False
          else if q_Exceeded (s_Quota state) \<or> q_Reason (s_Quota state) \<noteq> []
            \<or> \<not> is_zero (q_NextRecoverAt (s_Quota state)) \<or> q_BackoffLevel (s_Quota state) \<noteq> 0 then False
          else True)"

section \<open>Aggregation\<close>

text \<open>The locals of the loop of \<open>updateAggregatedAvailability\<close>.\<close>

record Aggregate =
  ag_allUnavailable :: bool
  ag_earliestRetry :: gotime
  ag_quotaExceeded :: bool
  ag_quotaRecover :: gotime
  ag_maxBackoffLevel :: int
  ag_hasState :: bool

abbreviation initAggregate :: Aggregate where
  "initAggregate \<equiv> \<lparr>ag_allUnavailable = True, ag_earliestRetry = 0, ag_quotaExceeded = False,
     ag_quotaRecover = 0, ag_maxBackoffLevel = 0, ag_hasState = False\<rparr>"

text \<open>The loop body on one non-nil state: the availability part and the write it makes to an expired
  state, and the part that folds the state into the locals.\<close>

definition stateUnavailable :: "gotime \<Rightarrow> ModelState \<Rightarrow> bool" where
  "stateUnavailable now state =
     (if s_Status state = StatusDisabled then True
      else s_Unavailable state \<and> \<not> is_zero (s_NextRetryAfter state) \<and> s_NextRetryAfter state > now)"

definition expireState :: "gotime \<Rightarrow> ModelState \<Rightarrow> ModelState" where
  "expireState now state =
     (if s_Status state \<noteq> StatusDisabled \<and> s_Unavailable state
         \<and> \<not> is_zero (s_NextRetryAfter state) \<and> \<not> s_NextRetryAfter state > now
      then state\<lparr>s_Unavailable := False, s_NextRetryAfter := zero_time\<rparr> else state)"

definition aggregateStep :: "gotime \<Rightarrow> Aggregate \<Rightarrow> ModelState \<Rightarrow> Aggregate" where
  "aggregateStep now g state =
     (let cooling = (s_Status state \<noteq> StatusDisabled \<and> stateUnavailable now state);
          retry = s_NextRetryAfter state;
          earliest = (if cooling \<and> (is_zero (ag_earliestRetry g) \<or> retry < ag_earliestRetry g)
            then retry else ag_earliestRetry g);
          recov = q_NextRecoverAt (s_Quota state);
          recover = (if q_Exceeded (s_Quota state) \<and> (is_zero (ag_quotaRecover g)
              \<or> (\<not> is_zero recov \<and> recov < ag_quotaRecover g))
            then recov else ag_quotaRecover g);
          level = (if q_Exceeded (s_Quota state) \<and> q_BackoffLevel (s_Quota state) > ag_maxBackoffLevel g
            then q_BackoffLevel (s_Quota state) else ag_maxBackoffLevel g)
      in \<lparr>ag_allUnavailable = (ag_allUnavailable g \<and> stateUnavailable now state),
          ag_earliestRetry = earliest,
          ag_quotaExceeded = (ag_quotaExceeded g \<or> q_Exceeded (s_Quota state)),
          ag_quotaRecover = recover, ag_maxBackoffLevel = level, ag_hasState = True\<rparr>)"

definition statesOf :: "Auth \<Rightarrow> ModelState list" where
  "statesOf auth = List.map_filter snd (a_ModelStates auth)"

definition clearAggregatedAvailability :: "Auth \<Rightarrow> Auth" where
  "clearAggregatedAvailability auth =
     auth\<lparr>a_Unavailable := False, a_NextRetryAfter := zero_time, a_Quota := zeroQuota\<rparr>"

definition updateAggregatedAvailability :: "Auth \<Rightarrow> gotime \<Rightarrow> Auth" where
  "updateAggregatedAvailability auth now =
     (if a_ModelStates auth = [] then clearAggregatedAvailability auth
      else let g = foldl (aggregateStep now) initAggregate (statesOf auth);
               auth = auth\<lparr>a_ModelStates :=
                 map (\<lambda>(k, st). (k, map_option (expireState now) st)) (a_ModelStates auth)\<rparr>
        in if \<not> ag_hasState g then clearAggregatedAvailability auth
           else auth\<lparr>a_Unavailable := ag_allUnavailable g,
             a_NextRetryAfter := (if ag_allUnavailable g then ag_earliestRetry g else zero_time),
             a_Quota := (if ag_quotaExceeded g
               then \<lparr>q_Exceeded = True, q_Reason = ''quota'', q_NextRecoverAt = ag_quotaRecover g,
                 q_BackoffLevel = ag_maxBackoffLevel g\<rparr>
               else zeroQuota)\<rparr>)"

definition hasModelError :: "Auth \<Rightarrow> gotime \<Rightarrow> bool" where
  "hasModelError auth now =
     list_ex (\<lambda>state. s_LastError state \<noteq> None
         \<or> (s_Status state = StatusError \<and> s_Unavailable state
            \<and> (is_zero (s_NextRetryAfter state) \<or> s_NextRetryAfter state > now)))
       (statesOf auth)"

definition clearAuthStateOnSuccess :: "Auth \<Rightarrow> gotime \<Rightarrow> Auth" where
  "clearAuthStateOnSuccess auth now =
     auth\<lparr>a_Unavailable := False, a_Status := StatusActive, a_StatusMessage := [],
       a_Quota := zeroQuota, a_LastError := None, a_NextRetryAfter := zero_time, a_UpdatedAt := now\<rparr>"

section \<open>Failure of a whole credential\<close>

text \<open>The switch of \<open>applyAuthFailureState\<close> on the kind of error and the status code, after the
  common updates.\<close>

definition authFailureByKind ::
    "CoolingEnv \<Rightarrow> AuthError option \<Rightarrow> goduration option \<Rightarrow> gotime \<Rightarrow> bool \<Rightarrow> Auth \<Rightarrow> Auth" where
  "authFailureByKind env resultErr retryAfter now disableCooling auth =
     (let statusCode = statusCodeFromResult resultErr;
          halfHour = (if disableCooling then zero_time else now + 30 * minute);
          recoverable = recoverableFailureRetryAfter env now disableCooling
      in if isCloudflareChallengeResultError resultErr
         then (let (nxt, backoffLevel) =
                     nextCloudflareCooldown (q_BackoffLevel (a_Quota auth)) disableCooling now
               in auth\<lparr>a_StatusMessage := ''cloudflare challenge'',
                    a_Quota := \<lparr>q_Exceeded = True, q_Reason = ''cloudflare challenge'',
                      q_NextRecoverAt = nxt, q_BackoffLevel = backoffLevel\<rparr>,
                    a_NextRetryAfter := nxt\<rparr>)
         else if isInvalidGrantResultError resultErr
         then auth\<lparr>a_StatusMessage := ''invalid_grant'', a_NextRetryAfter := halfHour\<rparr>
         else if statusCode = 401
         then auth\<lparr>a_StatusMessage := ''unauthorized'', a_NextRetryAfter := halfHour\<rparr>
         else if statusCode = 402 \<or> statusCode = 403
         then auth\<lparr>a_StatusMessage := ''payment_required'', a_NextRetryAfter := halfHour\<rparr>
         else if statusCode = 404
         then auth\<lparr>a_StatusMessage := ''not_found'',
           a_NextRetryAfter := (if disableCooling then zero_time else now + 12 * hour)\<rparr>
         else if statusCode = 429
         then (let (nxt, level) =
                 (if disableCooling then (zero_time, q_BackoffLevel (a_Quota auth))
                  else (case retryAfter of
                          Some d \<Rightarrow> (now + d, q_BackoffLevel (a_Quota auth))
                        | None \<Rightarrow> quotaCooldownAfterFailure (a_Quota auth) now))
               in auth\<lparr>a_StatusMessage := ''quota exhausted'',
                    a_Quota := \<lparr>q_Exceeded = True, q_Reason = ''quota'', q_NextRecoverAt = nxt,
                      q_BackoffLevel = level\<rparr>,
                    a_NextRetryAfter := nxt\<rparr>)
         else if statusCode \<in> set [408, 500, 502, 503, 504]
         then auth\<lparr>a_StatusMessage := ''transient upstream error'', a_NextRetryAfter := recoverable,
           a_Unavailable := (\<not> is_zero recoverable)\<rparr>
         else auth\<lparr>a_StatusMessage :=
             (if a_StatusMessage auth = [] then ''request failed'' else a_StatusMessage auth),
           a_NextRetryAfter := recoverable, a_Unavailable := (\<not> is_zero recoverable)\<rparr>)"

definition applyAuthFailureState ::
    "CoolingEnv \<Rightarrow> Auth \<Rightarrow> AuthError option \<Rightarrow> goduration option \<Rightarrow> gotime \<Rightarrow> bool \<Rightarrow> Auth" where
  "applyAuthFailureState env auth resultErr retryAfter now disableCooling =
     (if isRequestScopedResultError resultErr then auth
      else let auth = auth\<lparr>a_Unavailable := True, a_Status := StatusError, a_UpdatedAt := now\<rparr>;
               auth = (case resultErr of
                   None \<Rightarrow> auth
                 | Some e \<Rightarrow> auth\<lparr>a_LastError := Some e,
                     a_StatusMessage := (if e_Message e \<noteq> [] then e_Message e else a_StatusMessage auth)\<rparr>);
               auth = authFailureByKind env resultErr retryAfter now disableCooling auth
        in if disableCooling \<and> is_zero (a_NextRetryAfter auth) \<and> is_zero (q_NextRecoverAt (a_Quota auth))
           then auth\<lparr>a_Unavailable := False, a_Quota := (a_Quota auth)\<lparr>q_Exceeded := False\<rparr>\<rparr>
           else auth)"

section \<open>The back-off ladder\<close>

lemma nextQuotaCooldown_level:
  assumes "0 \<le> l" "l \<le> 11"
  shows "nextQuotaCooldown l False =
    (if l = 11 then (quotaBackoffMax, 11) else (second * 2 ^ nat l, l + 1))"
proof -
  have "l = 0 \<or> l = 1 \<or> l = 2 \<or> l = 3 \<or> l = 4 \<or> l = 5 \<or> l = 6 \<or> l = 7 \<or> l = 8 \<or> l = 9
    \<or> l = 10 \<or> l = 11"
    using assms by arith
  then show ?thesis
    by (elim disjE) (simp_all add: nextQuotaCooldown_def Let_def wrap64_def)
qed

lemma nextQuotaCooldown_range:
  "second \<le> fst (nextQuotaCooldown l False) \<and> fst (nextQuotaCooldown l False) \<le> quotaBackoffMax"
  by (simp add: nextQuotaCooldown_def Let_def)

lemma quotaCooldown_future: "now < fst (quotaCooldownAfterFailure q now)"
  using nextQuotaCooldown_range [of "q_BackoffLevel q"]
  by (auto simp: quotaCooldownAfterFailure_def split: prod.splits)

lemma quotaCooldown_burst:
  "t < fst (quotaCooldownAfterFailure q now) \<Longrightarrow> 
    quotaCooldownAfterFailure \<lparr>q_Exceeded = e, q_Reason = r,
      q_NextRecoverAt = fst (quotaCooldownAfterFailure q now),
      q_BackoffLevel = snd (quotaCooldownAfterFailure q now)\<rparr> t = quotaCooldownAfterFailure q now"
  by (simp add: quotaCooldownAfterFailure_def [of "\<lparr>q_Exceeded = e, q_Reason = r,
      q_NextRecoverAt = fst (quotaCooldownAfterFailure q now),
      q_BackoffLevel = snd (quotaCooldownAfterFailure q now)\<rparr>"])

section \<open>Aggregation is a minimum over the states\<close>

text \<open>The least of the non-zero instants of a list, or zero.\<close>

definition earliest :: "gotime list \<Rightarrow> gotime" where
  "earliest ts = (let us = filter (\<lambda>t. t \<noteq> 0) ts in if us = [] then 0 else Min (set us))"

lemma earliest_snoc:
  "earliest (ts @ [t]) = (if t \<noteq> 0 \<and> (earliest ts = 0 \<or> t < earliest ts) then t else earliest ts)"
proof (cases "filter (\<lambda>t. t \<noteq> 0) ts = []")
  case True
  then show ?thesis by (simp add: earliest_def)
next
  case False
  define U where "U = set (filter (\<lambda>t. t \<noteq> 0) ts)"
  define M where "M = Min U"
  have "finite U" "U \<noteq> {}" "0 \<notin> U" using False by (auto simp: U_def filter_empty_conv)
  then have "M \<noteq> 0" and ins: "Min (insert t U) = min t M"
    using Min_in [of U] by (auto simp: M_def simp del: Min_in)
  have "earliest ts = M" using False by (simp only: earliest_def Let_def M_def U_def if_False)
  moreover have "earliest (ts @ [t]) = (if t = 0 then M else min t M)"
    using False ins by (simp add: earliest_def U_def M_def)
  ultimately show ?thesis using \<open>M \<noteq> 0\<close> by (simp add: min_def)
qed

definition coolingRetries :: "gotime \<Rightarrow> ModelState list \<Rightarrow> gotime list" where
  "coolingRetries now states = map s_NextRetryAfter
     (filter (\<lambda>st. s_Status st \<noteq> StatusDisabled \<and> stateUnavailable now st) states)"

definition quotaStates :: "ModelState list \<Rightarrow> QuotaState list" where
  "quotaStates states = filter q_Exceeded (map s_Quota states)"

lemma foldl_aggregate:
  "foldl (aggregateStep now) initAggregate states =
    \<lparr>ag_allUnavailable = (\<forall>st\<in>set states. stateUnavailable now st),
     ag_earliestRetry = earliest (coolingRetries now states),
     ag_quotaExceeded = (quotaStates states \<noteq> []),
     ag_quotaRecover = earliest (map q_NextRecoverAt (quotaStates states)),
     ag_maxBackoffLevel = Max (insert 0 (q_BackoffLevel ` set (quotaStates states))),
     ag_hasState = (states \<noteq> [])\<rparr>"
proof (induction states rule: rev_induct)
  case Nil
  then show ?case by (simp add: coolingRetries_def quotaStates_def earliest_def)
next
  case (snoc st states)
  have r: "s_Status st \<noteq> StatusDisabled \<Longrightarrow> stateUnavailable now st \<Longrightarrow> s_NextRetryAfter st \<noteq> 0"
    by (simp add: stateUnavailable_def)
  have retries: "earliest (coolingRetries now (states @ [st])) =
      (if (s_Status st \<noteq> StatusDisabled \<and> stateUnavailable now st)
          \<and> (earliest (coolingRetries now states) = 0
             \<or> s_NextRetryAfter st < earliest (coolingRetries now states))
       then s_NextRetryAfter st else earliest (coolingRetries now states))"
    using r by (auto simp: coolingRetries_def earliest_snoc)
  have qs: "quotaStates (states @ [st]) =
      (if q_Exceeded (s_Quota st) then quotaStates states @ [s_Quota st] else quotaStates states)"
    by (simp add: quotaStates_def)
  have none: "earliest (map q_NextRecoverAt (quotaStates states @ [q])) =
      (if earliest (map q_NextRecoverAt (quotaStates states)) = 0
          \<or> (q_NextRecoverAt q \<noteq> 0 \<and> q_NextRecoverAt q < earliest (map q_NextRecoverAt (quotaStates states)))
       then q_NextRecoverAt q else earliest (map q_NextRecoverAt (quotaStates states)))" for q
    by (simp add: earliest_snoc)
  have lvl: "Max (insert 0 (q_BackoffLevel ` (set (quotaStates states) \<union> {q}))) =
      (if q_BackoffLevel q > Max (insert 0 (q_BackoffLevel ` set (quotaStates states)))
       then q_BackoffLevel q else Max (insert 0 (q_BackoffLevel ` set (quotaStates states))))" for q
  proof -
    have "insert 0 (q_BackoffLevel ` (set (quotaStates states) \<union> {q}))
        = insert (q_BackoffLevel q) (insert 0 (q_BackoffLevel ` set (quotaStates states)))" by auto
    moreover have "Max (insert (q_BackoffLevel q) (insert 0 (q_BackoffLevel ` set (quotaStates states))))
        = max (q_BackoffLevel q) (Max (insert 0 (q_BackoffLevel ` set (quotaStates states))))"
      by (rule Max_insert) auto
    ultimately show ?thesis by (simp only: max_def not_le [symmetric] split: if_splits) auto
  qed
  show ?case
    by (cases "q_Exceeded (s_Quota st)")
      (simp_all only: foldl_append foldl.simps snoc.IH, simp_all only: aggregateStep_def Let_def
        retries qs none lvl simp_thms if_True if_False Aggregate.simps set_append list.set
        ball_Un ball_simps append_is_Nil_conv list.distinct conj_commute)
qed

lemma statesOf_Nil [simp]: "a_ModelStates a = [] \<Longrightarrow> statesOf a = []"
  by (simp add: statesOf_def List.map_filter_def)

lemma stateUnavailable_expire [simp]: "stateUnavailable now (expireState now st) = stateUnavailable now st"
  by (auto simp: stateUnavailable_def expireState_def)

lemma expireState_idem [simp]: "expireState now (expireState now st) = expireState now st"
  by (simp add: expireState_def)

lemma expireState_quota [simp]: "s_Quota (expireState now st) = s_Quota st"
  by (simp add: expireState_def)

lemma expireState_status [simp]: "s_Status (expireState now st) = s_Status st"
  by (simp add: expireState_def)

lemma expireState_unavailable: "stateUnavailable now st \<Longrightarrow> expireState now st = st"
  by (auto simp: stateUnavailable_def expireState_def)

lemma coolingRetries_expire [simp]:
  "coolingRetries now (map (expireState now) states) = coolingRetries now states"
  by (induction states) (auto simp: coolingRetries_def expireState_unavailable)

lemma quotaStates_expire [simp]: "quotaStates (map (expireState now) states) = quotaStates states"
  by (induction states) (auto simp: quotaStates_def)

lemma update_aggregate:
  "updateAggregatedAvailability auth now =
    auth\<lparr>a_ModelStates := map (\<lambda>(k, st). (k, map_option (expireState now) st)) (a_ModelStates auth),
      a_Unavailable := (statesOf auth \<noteq> [] \<and> (\<forall>st\<in>set (statesOf auth). stateUnavailable now st)),
      a_NextRetryAfter :=
        (if statesOf auth \<noteq> [] \<and> (\<forall>st\<in>set (statesOf auth). stateUnavailable now st)
         then earliest (coolingRetries now (statesOf auth)) else 0),
      a_Quota := (if quotaStates (statesOf auth) \<noteq> []
        then \<lparr>q_Exceeded = True, q_Reason = ''quota'',
          q_NextRecoverAt = earliest (map q_NextRecoverAt (quotaStates (statesOf auth))),
          q_BackoffLevel = Max (insert 0 (q_BackoffLevel ` set (quotaStates (statesOf auth))))\<rparr>
        else zeroQuota)\<rparr>"
proof (cases "statesOf auth = []")
  case True
  then show ?thesis
    by (auto simp: updateAggregatedAvailability_def foldl_aggregate clearAggregatedAvailability_def
      Let_def quotaStates_def)
next
  case False
  then have "a_ModelStates auth \<noteq> []" by (auto simp: statesOf_def List.map_filter_def)
  with False show ?thesis
    by (simp add: updateAggregatedAvailability_def foldl_aggregate Let_def)
qed

lemma map_filter_expire:
  "List.map_filter snd (map (\<lambda>(k, st). (k, map_option f st)) ms) = map f (List.map_filter snd ms)"
  by (induction ms) (auto simp: List.map_filter_def)

lemma update_fields:
  shows "statesOf (updateAggregatedAvailability auth now) = map (expireState now) (statesOf auth)"
    and "a_ModelStates (updateAggregatedAvailability auth now) =
      map (\<lambda>(k, st). (k, map_option (expireState now) st)) (a_ModelStates auth)"
    and "a_Status (updateAggregatedAvailability auth now) = a_Status auth"
    "a_Disabled (updateAggregatedAvailability auth now) = a_Disabled auth"
    "a_LastError (updateAggregatedAvailability auth now) = a_LastError auth"
    "a_StatusMessage (updateAggregatedAvailability auth now) = a_StatusMessage auth"
    "a_ID (updateAggregatedAvailability auth now) = a_ID auth"
  by (simp_all add: update_aggregate statesOf_def map_filter_expire)

lemma update_idem:
  "updateAggregatedAvailability (updateAggregatedAvailability auth now) now
    = updateAggregatedAvailability auth now" (is "updateAggregatedAvailability ?r now = ?r")
proof -
  have s: "statesOf ?r = map (expireState now) (statesOf auth)" by (rule update_fields(1))
  have idem: "map (\<lambda>(k, st). (k, map_option (expireState now) st)) (a_ModelStates ?r) = a_ModelStates ?r"
    unfolding update_fields(2) by (simp add: split_def option.map_comp o_def)
  show ?thesis
    unfolding update_aggregate [of ?r] s idem by (simp add: update_aggregate [of auth])
qed

section \<open>Properties\<close>

text \<open>
  the back-off ladder. After $n$ consecutive quota failures that each start from an expired
  window the level is $\min(n, 11)$ and the next cooldown is $2^n$ seconds, capped at thirty
  minutes; from any stored level whatever the cooldown stays between one second and thirty
  minutes, so a quota failure always has a deadline in the future; and a failure before that
  deadline reuses the deadline and the level instead of climbing.
\<close>

theorem quota_backoff_ladder:
  "((\<lambda>l. snd (nextQuotaCooldown l False)) ^^ n) 0 = int (min n 11)
   \<and> fst (nextQuotaCooldown (int (min n 11)) False) = min (1000000000 * 2 ^ n) 1800000000000
   \<and> 1000000000 \<le> fst (nextQuotaCooldown l False) \<and> fst (nextQuotaCooldown l False) \<le> 1800000000000
   \<and> (let d = quotaCooldownAfterFailure q now
      in now < fst d
       \<and> quotaCooldownAfterFailure \<lparr>q_Exceeded = True, q_Reason = ''quota'',
              q_NextRecoverAt = fst d, q_BackoffLevel = snd d\<rparr> (min t (fst d - 1)) = d)"
proof -
  have step: "snd (nextQuotaCooldown (int (min n 11)) False) = int (min (Suc n) 11)" for n
    using nextQuotaCooldown_level [of "int (min n 11)"] by auto
  have "((\<lambda>l. snd (nextQuotaCooldown l False)) ^^ n) 0 = int (min n 11)"
    by (induction n) (simp, simp only: funpow.simps comp_apply step)
  moreover have "fst (nextQuotaCooldown (int (min n 11)) False) = min (1000000000 * 2 ^ n) 1800000000000"
  proof (cases "n < 11")
    case True
    then have "(2 :: int) ^ n \<le> 2 ^ 10" by (intro power_increasing) auto
    with True show ?thesis using nextQuotaCooldown_level [of "int n"] by simp
  next
    case False
    then have "(2 :: int) ^ 11 \<le> 2 ^ n" by (intro power_increasing) auto
    with False show ?thesis using nextQuotaCooldown_level [of 11] by simp
  qed
  ultimately show ?thesis
    using nextQuotaCooldown_range [of l] quotaCooldown_future [of now q]
      quotaCooldown_burst [of "min t (fst (quotaCooldownAfterFailure q now) - 1)" q now]
    by (simp add: Let_def)
qed

text \<open>
  the availability a credential shows is a function of the set of its model states: it is
  unavailable exactly when it has states and each is disabled or still cooling, its retry time is
  then the earliest of the cooling ones, its quota recovers at the earliest deadline of the
  exceeded ones with their highest level. So the order in which the map is visited does not
  matter, and a second aggregation at the same instant changes nothing.
\<close>

theorem updateAggregatedAvailability_spec:
  "a_Unavailable (updateAggregatedAvailability auth now) =
     (statesOf auth \<noteq> [] \<and> list_all (\<lambda>st. s_Status st = StatusDisabled
        \<or> (s_Unavailable st \<and> s_NextRetryAfter st \<noteq> 0 \<and> now < s_NextRetryAfter st)) (statesOf auth))
   \<and> a_NextRetryAfter (updateAggregatedAvailability auth now) =
      (if a_Unavailable (updateAggregatedAvailability auth now)
       then earliest (coolingRetries now (statesOf auth)) else 0)
   \<and> a_Quota (updateAggregatedAvailability auth now) =
      (if quotaStates (statesOf auth) = [] then zeroQuota
       else \<lparr>q_Exceeded = True, q_Reason = ''quota'',
          q_NextRecoverAt = earliest (map q_NextRecoverAt (quotaStates (statesOf auth))),
          q_BackoffLevel = Max (insert 0 (q_BackoffLevel ` set (quotaStates (statesOf auth))))\<rparr>)
   \<and> updateAggregatedAvailability (updateAggregatedAvailability auth now) now
      = updateAggregatedAvailability auth now"
  by (intro conjI) (simp_all only: update_idem, simp_all add: update_aggregate stateUnavailable_def disj_imp list_all_iff)

end
