(* ===== verification/CooldownOps.thy ===== *)
theory CooldownOps
  imports CooldownState
begin

text \<open>
  The writing side of a credential's runtime state, second half
  (\<open>backend/sdk/cliproxy/auth/conductor_cooldown.go\<close>): \<open>MarkResult\<close> on every outcome of a
  request, the reset by an operator, and the cooldown records that survive a restart. The calls
  these operations make on the model registry are returned as a list, in the order the code makes
  them; \<open>ModelRegistry\<close> gives their meaning. The auths map holds no nil pointer.
\<close>

section \<open>Data\<close>

record Result =
  res_AuthID :: string
  res_Provider :: string
  res_Model :: string
  res_Success :: bool
  res_RetryAfter :: "goduration option"
  res_Error :: "AuthError option"

datatype RegistryCall =
    ClearQuotaCall string string
  | SetQuotaCall string string
  | ResumeCall string string
  | SuspendCall string string string

record CooldownStateRecord =
  cr_Provider :: string
  cr_AuthID :: string
  cr_AuthFile :: string
  cr_Model :: string
  cr_Status :: string
  cr_NextRetryAfter :: gotime
  cr_Reason :: string
  cr_Quota :: QuotaState
  cr_LastError :: "AuthError option"
  cr_UpdatedAt :: gotime

text \<open>What an operation leaves behind: the auths map, the registry calls, the snapshot given to the
  scheduler, and whether the cooldown records are persisted.\<close>

record Outcome =
  out_auths :: "(string, Auth) gomap"
  out_registry :: "RegistryCall list"
  out_snapshot :: "Auth option"
  out_persist :: bool

section \<open>Cooldown records\<close>

definition cooldownAuthFile :: "Auth \<Rightarrow> string" where
  "cooldownAuthFile auth =
     (let path = authAttribute auth ''path''
      in if path \<noteq> [] then path
         else let fileName = trim_space (a_FileName auth)
           in if fileName \<noteq> [] then fileName else [])"

definition cooldownReason :: "string \<Rightarrow> QuotaState \<Rightarrow> AuthError option \<Rightarrow> string" where
  "cooldownReason statusMessage quota lastErr =
     (if trim_space (q_Reason quota) \<noteq> [] then trim_space (q_Reason quota)
      else if trim_space statusMessage \<noteq> [] then trim_space statusMessage
      else (case lastErr of
              None \<Rightarrow> []
            | Some e \<Rightarrow>
                if trim_space (e_Code e) \<noteq> [] then trim_space (e_Code e)
                else if trim_space (e_Message e) \<noteq> [] then trim_space (e_Message e)
                else []))"

definition authCooldownStateRecord :: "Auth \<Rightarrow> gotime \<Rightarrow> CooldownStateRecord option" where
  "authCooldownStateRecord auth now =
     (if \<not> a_Unavailable auth \<or> is_zero (a_NextRetryAfter auth) \<or> \<not> a_NextRetryAfter auth > now then None
      else Some \<lparr>cr_Provider = trim_space (a_Provider auth), cr_AuthID = a_ID auth,
        cr_AuthFile = cooldownAuthFile auth, cr_Model = [], cr_Status = ''cooling'',
        cr_NextRetryAfter = a_NextRetryAfter auth,
        cr_Reason = cooldownReason (a_StatusMessage auth) (a_Quota auth) (a_LastError auth),
        cr_Quota = a_Quota auth, cr_LastError = a_LastError auth, cr_UpdatedAt = a_UpdatedAt auth\<rparr>)"

definition modelCooldownStateRecord ::
    "Auth \<Rightarrow> string \<Rightarrow> ModelState option \<Rightarrow> gotime \<Rightarrow> CooldownStateRecord option" where
  "modelCooldownStateRecord auth model st now =
     (let model = trim_space model
      in case st of
           None \<Rightarrow> None
         | Some state \<Rightarrow>
             if model = [] \<or> \<not> s_Unavailable state \<or> is_zero (s_NextRetryAfter state)
               \<or> \<not> s_NextRetryAfter state > now then None
             else Some \<lparr>cr_Provider = trim_space (a_Provider auth), cr_AuthID = a_ID auth,
               cr_AuthFile = cooldownAuthFile auth, cr_Model = model, cr_Status = ''cooling'',
               cr_NextRetryAfter = s_NextRetryAfter state,
               cr_Reason = cooldownReason (s_StatusMessage state) (s_Quota state) (s_LastError state),
               cr_Quota = s_Quota state, cr_LastError = s_LastError state,
               cr_UpdatedAt = s_UpdatedAt state\<rparr>)"

definition cooldownStateRecordsForAuthLocked ::
    "CoolingEnv \<Rightarrow> Auth \<Rightarrow> gotime \<Rightarrow> CooldownStateRecord list" where
  "cooldownStateRecordsForAuthLocked env auth now =
     (if a_ID auth = [] \<or> a_Disabled auth \<or> a_Status auth = StatusDisabled
         \<or> cooldownDisabledForAuth env auth then []
      else sort_key cr_Model
        ((case authCooldownStateRecord auth now of None \<Rightarrow> [] | Some r \<Rightarrow> [r])
         @ List.map_filter (\<lambda>(model, st). modelCooldownStateRecord auth model st now)
             (a_ModelStates auth)))"

text \<open>Comparing records field by field is equality of the values.\<close>

definition cooldownStateRecordsEqual ::
    "CooldownStateRecord list \<Rightarrow> CooldownStateRecord list \<Rightarrow> bool" where
  "cooldownStateRecordsEqual a b \<longleftrightarrow> a = b"

definition cooldownStateRecordsSnapshot ::
    "CoolingEnv \<Rightarrow> (string, Auth) gomap \<Rightarrow> gotime \<Rightarrow> CooldownStateRecord list" where
  "cooldownStateRecordsSnapshot env auths now =
     sort_key (\<lambda>r. (cr_Provider r, cr_AuthID r, cr_Model r))
       (concat (map (\<lambda>(_, auth). cooldownStateRecordsForAuthLocked env auth now) auths))"

definition restoreCooldownRecordLocked ::
    "CoolingEnv \<Rightarrow> CooldownStateRecord \<Rightarrow> gotime \<Rightarrow> (string, Auth) gomap \<Rightarrow> (string, Auth) gomap \<times> bool" where
  "restoreCooldownRecordLocked env rcd now auths =
     (let authID = trim_space (cr_AuthID rcd)
      in if authID = [] \<or> is_zero (cr_NextRetryAfter rcd) \<or> \<not> cr_NextRetryAfter rcd > now
         then (auths, False)
         else (case m_get auths authID of
             None \<Rightarrow> (auths, False)
           | Some auth \<Rightarrow>
               if a_Disabled auth \<or> a_Status auth = StatusDisabled \<or> cooldownDisabledForAuth env auth
               then (auths, False)
               else let updatedAt = (if is_zero (cr_UpdatedAt rcd) then now else cr_UpdatedAt rcd);
                        reason = trim_space (cr_Reason rcd);
                        model = trim_space (cr_Model rcd);
                        quota = (if q_Exceeded (cr_Quota rcd) \<and> is_zero (q_NextRecoverAt (cr_Quota rcd))
                          then (cr_Quota rcd)\<lparr>q_NextRecoverAt := cr_NextRetryAfter rcd\<rparr> else cr_Quota rcd)
                 in if model = []
                    then (m_put authID
                      (auth\<lparr>a_Unavailable := True, a_Status := StatusError,
                        a_NextRetryAfter := cr_NextRetryAfter rcd, a_Quota := quota,
                        a_UpdatedAt := updatedAt,
                        a_StatusMessage := (if reason \<noteq> [] then reason else a_StatusMessage auth),
                        a_LastError := cr_LastError rcd\<rparr>) auths, True)
                    else let (state, auth) = ensureModelState auth model;
                             state = state\<lparr>s_Unavailable := True, s_Status := StatusError,
                               s_NextRetryAfter := cr_NextRetryAfter rcd, s_Quota := quota,
                               s_UpdatedAt := updatedAt,
                               s_StatusMessage := (if reason \<noteq> [] then reason else s_StatusMessage state),
                               s_LastError := cr_LastError rcd\<rparr>
                      in (m_put authID
                        (updateAggregatedAvailability (putModelState model state auth) now) auths, True)))"

section \<open>Clearing\<close>

definition cooldownStateDirty :: "ModelState \<Rightarrow> bool" where
  "cooldownStateDirty state \<longleftrightarrow> s_Unavailable state \<or> \<not> is_zero (s_NextRetryAfter state)
     \<or> q_Exceeded (s_Quota state) \<or> \<not> is_zero (q_NextRecoverAt (s_Quota state))"

definition clearStateCooldown :: "gotime \<Rightarrow> ModelState \<Rightarrow> ModelState" where
  "clearStateCooldown now state =
     (if cooldownStateDirty state
      then state\<lparr>s_Unavailable := False, s_NextRetryAfter := zero_time, s_Quota := zeroQuota,
        s_UpdatedAt := now\<rparr>
      else state)"

definition clearCooldownStateForAuth :: "Auth \<Rightarrow> gotime \<Rightarrow> Auth \<times> bool" where
  "clearCooldownStateForAuth auth now =
     (let dirty = (a_Unavailable auth \<or> \<not> is_zero (a_NextRetryAfter auth) \<or> q_Exceeded (a_Quota auth)
            \<or> \<not> is_zero (q_NextRecoverAt (a_Quota auth)));
          auth = (if dirty
            then auth\<lparr>a_Unavailable := False, a_NextRetryAfter := zero_time, a_Quota := zeroQuota,
              a_UpdatedAt := now\<rparr> else auth);
          changed = (dirty \<or> list_ex cooldownStateDirty (statesOf auth));
          auth = auth\<lparr>a_ModelStates := map (\<lambda>(k, st).
            (k, map_option (clearStateCooldown now) st)) (a_ModelStates auth)\<rparr>
      in (if a_ModelStates auth \<noteq> [] then updateAggregatedAvailability auth now else auth, changed))"

definition clearDisabledCooldownStates ::
    "CoolingEnv \<Rightarrow> gotime \<Rightarrow> (string, Auth) gomap \<Rightarrow> (string, Auth) gomap \<times> Auth list" where
  "clearDisabledCooldownStates env now auths =
     (let res = map (\<lambda>(k, auth).
            if \<not> cooldownDisabledForAuth env auth \<and> \<not> a_Disabled auth \<and> a_Status auth \<noteq> StatusDisabled
            then (k, auth, False)
            else let (auth', changed) = clearCooldownStateForAuth auth now in (k, auth', changed)) auths
      in (map (\<lambda>(k, auth, _). (k, auth)) res,
          List.map_filter (\<lambda>(_, auth, changed). if changed then Some auth else None) res))"

text \<open>The loop of \<open>dedupeStrings\<close> for a list of at least two values.\<close>

fun dedupe_loop :: "string list \<Rightarrow> string list \<Rightarrow> string list" where
  "dedupe_loop seen [] = []"
| "dedupe_loop seen (v # vs) =
     (let v = trim_space v
      in if v = [] \<or> v \<in> set seen then dedupe_loop seen vs
         else v # dedupe_loop (v # seen) vs)"

definition dedupeStrings :: "string list \<Rightarrow> string list" where
  "dedupeStrings values = (if length values < 2 then values else dedupe_loop [] values)"

definition RestoreCooldownStates ::
    "CoolingEnv \<Rightarrow> CooldownStateRecord list \<Rightarrow> gotime \<Rightarrow> (string, Auth) gomap \<Rightarrow>
      (string, Auth) gomap \<times> string list" where
  "RestoreCooldownStates env records now auths =
     (let modelRecords = filter (\<lambda>r. trim_space (cr_Model r) \<noteq> []) records;
          authLevelRecords = filter (\<lambda>r. trim_space (cr_Model r) = []) records
      in foldl (\<lambda>(auths, touched) rcd.
            let (auths', ok) = restoreCooldownRecordLocked env rcd now auths
            in (auths', if ok then trim_space (cr_AuthID rcd) # touched else touched))
          (auths, []) (modelRecords @ authLevelRecords))"

section \<open>Results of requests\<close>

definition countRequest :: "gotime \<Rightarrow> bool \<Rightarrow> Auth \<Rightarrow> Auth" where
  "countRequest now success auth =
     (let auth = recordRecentRequest auth now success
      in if success then auth\<lparr>a_Success := wrap64 (a_Success auth + 1)\<rparr>
         else auth\<lparr>a_Failed := wrap64 (a_Failed auth + 1)\<rparr>)"

definition markModelSuccess :: "string \<Rightarrow> gotime \<Rightarrow> Auth \<Rightarrow> Auth" where
  "markModelSuccess model now auth =
     (let (state, auth) = ensureModelState auth model;
          auth = putModelState model (resetModelState state now) auth;
          auth = updateAggregatedAvailability auth now;
          auth = (if \<not> hasModelError auth now
            then auth\<lparr>a_LastError := None, a_StatusMessage := [], a_Status := StatusActive\<rparr> else auth)
      in auth\<lparr>a_UpdatedAt := now\<rparr>)"

text \<open>The chain of cases on a failure of one model: the new state, the reason of a suspension in the
  registry, and whether the registry's quota flag is set.\<close>

definition modelFailureByKind ::
    "CoolingEnv \<Rightarrow> AuthError option \<Rightarrow> goduration option \<Rightarrow> gotime \<Rightarrow> bool \<Rightarrow> ModelState
      \<Rightarrow> ModelState \<times> string option \<times> bool" where
  "modelFailureByKind env err retryAfter now disableCooling state =
     (let statusCode = statusCodeFromResult err;
          suspendFor = (\<lambda>d reason. if disableCooling then (state\<lparr>s_NextRetryAfter := zero_time\<rparr>, None, False)
            else (state\<lparr>s_NextRetryAfter := now + d\<rparr>, Some reason, False));
          recoverable = recoverableFailureRetryAfter env now disableCooling
      in if isModelSupportResultError err
         then (state\<lparr>s_NextRetryAfter := now + 12 * hour\<rparr>, Some ''model_not_supported'', False)
         else if isCloudflareChallengeResultError err
         then (let (nxt, backoffLevel) =
                     nextCloudflareCooldown (q_BackoffLevel (s_Quota state)) disableCooling now
               in (state\<lparr>s_NextRetryAfter := nxt, s_StatusMessage := ''cloudflare challenge'',
                     s_Quota := \<lparr>q_Exceeded = True, q_Reason = ''cloudflare challenge'',
                       q_NextRecoverAt = nxt, q_BackoffLevel = backoffLevel\<rparr>\<rparr>, None, False))
         else if isInvalidGrantResultError err then suspendFor (30 * minute) ''invalid_grant''
         else if statusCode = 401 then suspendFor (30 * minute) ''unauthorized''
         else if statusCode = 402 \<or> statusCode = 403 then suspendFor (30 * minute) ''payment_required''
         else if statusCode = 404 then suspendFor (12 * hour) ''not_found''
         else if statusCode = 429
         then (let (nxt, backoffLevel) =
                 (if disableCooling then (zero_time, q_BackoffLevel (s_Quota state))
                  else (case retryAfter of
                          Some d \<Rightarrow> (now + d, q_BackoffLevel (s_Quota state))
                        | None \<Rightarrow> quotaCooldownAfterFailure (s_Quota state) now))
               in (state\<lparr>s_NextRetryAfter := nxt,
                     s_Quota := \<lparr>q_Exceeded = True, q_Reason = ''quota'', q_NextRecoverAt = nxt,
                       q_BackoffLevel = backoffLevel\<rparr>\<rparr>,
                   if disableCooling then None else Some ''quota'', \<not> disableCooling))
         else (state\<lparr>s_NextRetryAfter := recoverable, s_Unavailable := (\<not> is_zero recoverable)\<rparr>,
               None, False))"

definition markModelFailure ::
    "CoolingEnv \<Rightarrow> Result \<Rightarrow> gotime \<Rightarrow> Auth \<Rightarrow> Auth \<times> string option \<times> bool" where
  "markModelFailure env result now auth =
     (let err = res_Error result;
          disableCooling = cooldownDisabledForAuth env auth;
          (state, auth) = ensureModelState auth (res_Model result);
          state = state\<lparr>s_Unavailable := True, s_Status := StatusError, s_UpdatedAt := now\<rparr>;
          state = (case err of None \<Rightarrow> state
            | Some e \<Rightarrow> state\<lparr>s_LastError := Some e, s_StatusMessage := e_Message e\<rparr>);
          auth = (case err of None \<Rightarrow> auth
            | Some e \<Rightarrow> auth\<lparr>a_LastError := Some e, a_StatusMessage := e_Message e\<rparr>);
          (state, suspendReason, setModelQuota) =
            modelFailureByKind env err (res_RetryAfter result) now disableCooling state;
          auth = (if \<not> isModelSupportResultError err \<and> isCloudflareChallengeResultError err
              \<and> a_LastError auth \<noteq> None
            then auth\<lparr>a_StatusMessage := ''cloudflare challenge''\<rparr> else auth);
          state = (if disableCooling \<and> is_zero (s_NextRetryAfter state)
              \<and> is_zero (q_NextRecoverAt (s_Quota state))
            then state\<lparr>s_Unavailable := False, s_Quota := (s_Quota state)\<lparr>q_Exceeded := False\<rparr>\<rparr>
            else state);
          auth = (putModelState (res_Model result) state auth)\<lparr>a_Status := StatusError, a_UpdatedAt := now\<rparr>
      in (updateAggregatedAvailability auth now, suspendReason, setModelQuota))"

text \<open>The whole of \<open>MarkResult\<close>. The snapshot of the credential reaches the scheduler when the
  manager has one; hooks and error events only observe.\<close>

definition MarkResult ::
    "CoolingEnv \<Rightarrow> gotime \<Rightarrow> Result \<Rightarrow> (string, Auth) gomap \<Rightarrow> Outcome" where
  "MarkResult env now result auths =
     (case (if res_AuthID result = [] then None else m_get auths (res_AuthID result)) of
        None \<Rightarrow> \<lparr>out_auths = auths, out_registry = [], out_snapshot = None, out_persist = False\<rparr>
      | Some auth \<Rightarrow>
          (let before = cooldownStateRecordsForAuthLocked env auth now;
               ident = res_AuthID result;
               model = res_Model result;
               auth = countRequest now (res_Success result) auth;
               (auth, calls) =
                 (if res_Success result
                  then (if model \<noteq> []
                        then (markModelSuccess model now auth,
                          [ClearQuotaCall ident model, ResumeCall ident model])
                        else (clearAuthStateOnSuccess auth now, []))
                  else if model \<noteq> []
                  then (if isRequestScopedResultError (res_Error result) then (auth, [])
                        else let (auth, suspendReason, setModelQuota) = markModelFailure env result now auth
                          in (auth, (if setModelQuota then [SetQuotaCall ident model] else [])
                            @ (case suspendReason of None \<Rightarrow> []
                               | Some reason \<Rightarrow> [SuspendCall ident model reason])))
                  else (applyAuthFailureState env auth (res_Error result) (res_RetryAfter result) now
                          (cooldownDisabledForAuth env auth), []));
               changed = (ce_hasCooldownStore env
                 \<and> \<not> cooldownStateRecordsEqual before (cooldownStateRecordsForAuthLocked env auth now))
           in \<lparr>out_auths = m_put ident auth auths, out_registry = calls, out_snapshot = Some auth,
               out_persist = changed\<rparr>))"

definition recordAvailabilityNeutralResult ::
    "gotime \<Rightarrow> Result \<Rightarrow> (string, Auth) gomap \<Rightarrow> (string, Auth) gomap" where
  "recordAvailabilityNeutralResult now result auths =
     (case (if res_AuthID result = [] then None else m_get auths (res_AuthID result)) of
        None \<Rightarrow> auths
      | Some auth \<Rightarrow> m_put (res_AuthID result) (countRequest now (res_Success result) auth) auths)"

section \<open>Reset by an operator\<close>

text \<open>\<open>registeredModels\<close> are the non-empty model ids the registry lists for the credential, and
  \<open>persistFails\<close> says whether the auth store returns an error. An error leaves the credential
  already reset in memory, with nothing told to the registry or the scheduler.\<close>

definition resetAuthForQuota :: "gotime \<Rightarrow> string list \<Rightarrow> Auth \<Rightarrow> Auth \<times> string list" where
  "resetAuthForQuota now registeredModels auth =
     (let named = filter (\<lambda>k. trim_space k \<noteq> []) (m_keys (a_ModelStates auth));
          auth = auth\<lparr>a_ModelStates := map (\<lambda>(k, st).
              (k, if trim_space k = [] then st else map_option (\<lambda>state. resetModelState state now) st))
            (a_ModelStates auth)\<rparr>;
          (cleared, changed) = clearCooldownStateForAuth auth now;
          auth = (if changed then cleared
            else if a_ModelStates cleared \<noteq> [] then updateAggregatedAvailability cleared now
            else cleared);
          models = dedupeStrings (if named = [] then registeredModels else named);
          auth = (if \<not> a_Disabled auth \<and> a_Status auth \<noteq> StatusDisabled \<and> \<not> hasModelError auth now
            then auth\<lparr>a_LastError := None, a_StatusMessage := [], a_Status := StatusActive\<rparr> else auth)
      in (auth\<lparr>a_UpdatedAt := now\<rparr>, models))"

datatype reset_error = AuthIDRequired | PersistFailed

definition ResetQuota ::
    "CoolingEnv \<Rightarrow> gotime \<Rightarrow> string list \<Rightarrow> bool \<Rightarrow> string \<Rightarrow> (string, Auth) gomap
      \<Rightarrow> (reset_error + string list option) \<times> Outcome" where
  "ResetQuota env now registeredModels persistFails authID auths =
     (let authID = trim_space authID;
          quiet = (\<lambda>m. \<lparr>out_auths = m, out_registry = [], out_snapshot = None, out_persist = False\<rparr>)
      in if authID = [] then (Inl AuthIDRequired, quiet auths)
         else (case m_get auths authID of
                 None \<Rightarrow> (Inr None, quiet auths)
               | Some auth \<Rightarrow>
                   (let (auth', models) = resetAuthForQuota now registeredModels auth;
                        auths' = m_put authID auth' auths;
                        changed = (ce_hasCooldownStore env \<and> \<not> cooldownStateRecordsEqual
                          (cooldownStateRecordsForAuthLocked env auth now)
                          (cooldownStateRecordsForAuthLocked env auth' now))
                    in if persistFails then (Inl PersistFailed, quiet auths')
                       else (Inr (Some models),
                         \<lparr>out_auths = auths',
                          out_registry = concat (map (\<lambda>k. [ClearQuotaCall authID k, ResumeCall authID k]) models),
                          out_snapshot = Some auth', out_persist = changed\<rparr>))))"

section \<open>Reading back what was written\<close>

lemma blocked_by_state:
  assumes "m_get (a_ModelStates a) model = Some (Some st)" "model \<noteq> []"
    and "\<not> a_Disabled a" "a_Status a \<noteq> StatusDisabled" "s_Status st \<noteq> StatusDisabled"
  shows "isAuthBlockedForModel (Some a) model t = stateBlock st t"
proof -
  have "a_ModelStates a \<noteq> []" using assms(1) by auto
  with assms show ?thesis by (simp add: isAuthBlockedForModel_def stateForModel_exact)
qed

lemma get_update_state [simp]:
  "m_get (a_ModelStates (updateAggregatedAvailability a now)) k =
    map_option (map_option (expireState now)) (m_get (a_ModelStates a) k)"
  unfolding update_fields(2) by (rule m_get_map_snd)

lemma get_putModelState [simp]:
  "m_get (a_ModelStates (putModelState model st a)) k =
    (if k = model then Some (Some st) else m_get (a_ModelStates a) k)"
  by (simp add: putModelState_def)

lemma putModelState_fields [simp]:
  "a_Disabled (putModelState model st a) = a_Disabled a" "a_Status (putModelState model st a) = a_Status a"
  "a_ID (putModelState model st a) = a_ID a" "a_LastError (putModelState model st a) = a_LastError a"
  by (simp_all add: putModelState_def)

lemma countRequest_fields [simp]:
  "a_ModelStates (countRequest now ok a) = a_ModelStates a" "a_Disabled (countRequest now ok a) = a_Disabled a"
  "a_Status (countRequest now ok a) = a_Status a" "a_Attributes (countRequest now ok a) = a_Attributes a"
  "a_Metadata (countRequest now ok a) = a_Metadata a" "a_Provider (countRequest now ok a) = a_Provider a"
  "a_ID (countRequest now ok a) = a_ID a" "a_Quota (countRequest now ok a) = a_Quota a"
  by (simp_all add: countRequest_def recordRecentRequest_def Let_def)

lemma cooldownDisabled_count [simp]:
  "cooldownDisabledForAuth env (countRequest now ok a) = cooldownDisabledForAuth env a"
proof -
  have "authAttribute (countRequest now ok a) = authAttribute a"
    by (rule ext) (simp only: authAttribute_def countRequest_fields)
  then have "providerCoolingDisabledForAuth (countRequest now ok a) = providerCoolingDisabledForAuth a"
    by (intro ext) (simp only: providerCoolingDisabledForAuth_def countRequest_fields)
  moreover have "DisableCoolingOverride (countRequest now ok a) = DisableCoolingOverride a"
    by (simp only: DisableCoolingOverride_def countRequest_fields)
  ultimately show ?thesis by (simp only: cooldownDisabledForAuth_def)
qed

text \<open>The state a request finds for its model.\<close>

definition currentState :: "Auth \<Rightarrow> string \<Rightarrow> ModelState" where
  "currentState auth model =
     (case m_get (a_ModelStates auth) model of Some (Some st) \<Rightarrow> st | _ \<Rightarrow> freshModelState)"

lemma ensure_current: "fst (ensureModelState a model) = currentState a model"
  by (simp add: ensureModelState_def currentState_def split: option.splits)

lemma ensure_fields [simp]:
  "a_Disabled (snd (ensureModelState a model)) = a_Disabled a"
  "a_Status (snd (ensureModelState a model)) = a_Status a"
  by (simp_all add: ensureModelState_def split: option.splits)

lemma currentState_count [simp]: "currentState (countRequest now ok a) model = currentState a model"
  by (simp add: currentState_def)

text \<open>The model state, the suspension and the quota flag a failure of one model leaves.\<close>

definition failedState ::
    "CoolingEnv \<Rightarrow> Result \<Rightarrow> gotime \<Rightarrow> Auth \<Rightarrow> ModelState \<times> string option \<times> bool" where
  "failedState env result now auth =
     (let err = res_Error result;
          disableCooling = cooldownDisabledForAuth env auth;
          state = (currentState auth (res_Model result))
            \<lparr>s_Unavailable := True, s_Status := StatusError, s_UpdatedAt := now\<rparr>;
          state = (case err of None \<Rightarrow> state
            | Some e \<Rightarrow> state\<lparr>s_LastError := Some e, s_StatusMessage := e_Message e\<rparr>);
          (state, suspendReason, setModelQuota) =
            modelFailureByKind env err (res_RetryAfter result) now disableCooling state
      in (if disableCooling \<and> is_zero (s_NextRetryAfter state) \<and> is_zero (q_NextRecoverAt (s_Quota state))
          then state\<lparr>s_Unavailable := False, s_Quota := (s_Quota state)\<lparr>q_Exceeded := False\<rparr>\<rparr>
          else state, suspendReason, setModelQuota))"

lemma markModelFailure_state:
  fixes env result now a
  defines "r \<equiv> markModelFailure env result now a"
  shows "m_get (a_ModelStates (fst r)) (res_Model result) =
      Some (Some (expireState now (fst (failedState env result now a))))"
    and "snd r = snd (failedState env result now a)"
    and "a_Disabled (fst r) = a_Disabled a" and "a_Status (fst r) = StatusError"
  by (cases "res_Error result"; cases "cooldownDisabledForAuth env a";
      simp add: r_def markModelFailure_def failedState_def Let_def split_def ensure_current
        update_fields(3-))+

lemma ensure_other: "k \<noteq> model \<Longrightarrow> m_get (a_ModelStates (snd (ensureModelState a model))) k = m_get (a_ModelStates a) k"
  by (simp add: ensureModelState_def split: option.splits)

lemma markModelFailure_other:
  assumes "k \<noteq> res_Model result"
  shows "m_get (a_ModelStates (fst (markModelFailure env result now a))) k =
    map_option (map_option (expireState now)) (m_get (a_ModelStates a) k)"
  using assms by (simp add: markModelFailure_def Let_def split_def ensure_other split: option.split)

lemma failedState_status [simp]: "s_Status (fst (failedState env result now a)) = StatusError"
proof -
  have "s_Status (fst (modelFailureByKind env err ra now dis st)) = s_Status st" for err ra dis st
    by (simp add: modelFailureByKind_def Let_def split_def)
  then show ?thesis
    by (simp add: failedState_def Let_def split_def split: option.splits)
qed

lemma MarkResult_failure:
  assumes "res_AuthID result \<noteq> []" "m_get auths (res_AuthID result) = Some a"
    and "\<not> res_Success result" "res_Model result \<noteq> []" "\<not> isRequestScopedResultError (res_Error result)"
    and "\<not> a_Disabled a"
  shows "\<exists>a'. m_get (out_auths (MarkResult env now result auths)) (res_AuthID result) = Some a'
     \<and> (\<forall>t. isAuthBlockedForModel (Some a') (res_Model result) t
          = stateBlock (expireState now (fst (failedState env result now (countRequest now False a)))) t)
     \<and> out_registry (MarkResult env now result auths) =
        (if snd (snd (failedState env result now (countRequest now False a)))
         then [SetQuotaCall (res_AuthID result) (res_Model result)] else [])
        @ (case fst (snd (failedState env result now (countRequest now False a))) of
             None \<Rightarrow> [] | Some reason \<Rightarrow> [SuspendCall (res_AuthID result) (res_Model result) reason])
     \<and> a_Disabled a' = a_Disabled a \<and> a_Status a' = StatusError \<and> a_ModelStates a' \<noteq> []
     \<and> (\<forall>k. k \<noteq> res_Model result \<longrightarrow>
          m_get (a_ModelStates a') k = map_option (map_option (expireState now)) (m_get (a_ModelStates a) k))"
proof -
  let ?a = "countRequest now False a"
  let ?r = "markModelFailure env result now ?a"
  have "isAuthBlockedForModel (Some (fst ?r)) (res_Model result) t
      = stateBlock (expireState now (fst (failedState env result now ?a))) t" for t
    using assms(4,6) by (intro blocked_by_state) (simp_all add: markModelFailure_state)
  moreover have "a_ModelStates (fst ?r) \<noteq> []" using markModelFailure_state(1) [of env result now ?a] by auto
  ultimately show ?thesis
    using assms markModelFailure_other [of _ result env now ?a]
    by (simp add: MarkResult_def Let_def split_def markModelFailure_state(2-))
qed

text \<open>A quota failure with cooling enabled: the block, the registry calls and what is left alone.\<close>

lemma quota_failure:
  assumes "res_AuthID result \<noteq> []" "m_get auths (res_AuthID result) = Some a"
    and "\<not> res_Success result" "res_Model result \<noteq> []" "\<not> a_Disabled a"
    and "res_Error result = Some e" "e_HTTPStatus e = 429" "e_Code e \<noteq> ''request_scoped''"
    and "\<not> isCloudflareChallengeErrorMessage (e_Message e)" "\<not> cooldownDisabledForAuth env a"
    and "d = (case res_RetryAfter result of Some r \<Rightarrow> now + r
      | None \<Rightarrow> fst (quotaCooldownAfterFailure (s_Quota (currentState a (res_Model result))) now))"
    and "0 \<le> now" "now < d"
  shows "\<exists>a'. m_get (out_auths (MarkResult env now result auths)) (res_AuthID result) = Some a'
     \<and> (\<forall>t\<ge>now. isAuthBlockedForModel (Some a') (res_Model result) t =
        (if t < d then (True, blockReasonCooldown, d) else (False, blockReasonNone, 0)))
     \<and> out_registry (MarkResult env now result auths) =
        [SetQuotaCall (res_AuthID result) (res_Model result),
         SuspendCall (res_AuthID result) (res_Model result) ''quota'']
     \<and> a_Disabled a' = a_Disabled a \<and> a_Status a' = StatusError \<and> a_ModelStates a' \<noteq> []
     \<and> (\<forall>k. k \<noteq> res_Model result \<longrightarrow>
          m_get (a_ModelStates a') k = map_option (map_option (expireState now)) (m_get (a_ModelStates a) k))"
proof -
  let ?f = "failedState env result now (countRequest now False a)"
  have scoped: "\<not> isRequestScopedResultError (res_Error result)"
    using assms(6-8) by (simp add: isRequestScopedResultError_def IsRequestScoped_def
      isRequestScopedNotFoundResultError_def statusCodeFromResult_def)
  have kinds: "\<not> isModelSupportResultError (Some e)" "\<not> isCloudflareChallengeResultError (Some e)"
      "\<not> isInvalidGrantResultError (Some e)" "statusCodeFromResult (Some e) = 429"
    using assms(7,9) by (simp_all add: isModelSupportResultError_def isCloudflareChallengeResultError_def
      isInvalidGrantResultError_def statusCodeFromResult_def)
  have f: "s_Unavailable (fst ?f)" "s_NextRetryAfter (fst ?f) = d" "q_Exceeded (s_Quota (fst ?f))"
      "q_NextRecoverAt (s_Quota (fst ?f)) = d" "snd ?f = (Some ''quota'', True)"
    using assms(6,10,11) kinds
    by (simp_all add: failedState_def Let_def split_def modelFailureByKind_def split: option.splits)
  have exp: "expireState now (fst ?f) = fst ?f" using assms(13) f(2) by (simp add: expireState_def)
  have "\<forall>t\<ge>now. stateBlock (fst ?f) t = (if t < d then (True, blockReasonCooldown, d) else (False, blockReasonNone, 0))"
    using f(1-4) assms(12,13)
    by (auto simp: stateBlock_def availabilityBlock_def laterCandidate_def Let_def)
  with MarkResult_failure [OF assms(1-4) scoped assms(5), of env now] exp f(5)
  show ?thesis by auto
qed

section \<open>Properties\<close>

text \<open>
  a successful request on a model makes the model selectable at once: whatever failures and
  cooldowns came before, the stored credential is not blocked for the model at any instant, and
  the registry is told to drop the quota mark and to resume the model.
\<close>

theorem MarkResult_success_unblocks:
  assumes "res_AuthID result \<noteq> []" "m_get auths (res_AuthID result) = Some a"
    and "res_Success result" "res_Model result \<noteq> []" "\<not> a_Disabled a" "a_Status a \<noteq> StatusDisabled"
  shows "\<exists>a'. m_get (out_auths (MarkResult env now result auths)) (res_AuthID result) = Some a'
     \<and> isAuthBlockedForModel (Some a') (res_Model result) t = (False, blockReasonNone, 0)
     \<and> out_registry (MarkResult env now result auths) =
        [ClearQuotaCall (res_AuthID result) (res_Model result),
         ResumeCall (res_AuthID result) (res_Model result)]"
proof -
  let ?a = "countRequest now True a"
  let ?st = "resetModelState (currentState ?a (res_Model result)) now"
  let ?r = "markModelSuccess (res_Model result) now ?a"
  have st: "expireState now ?st = ?st" "s_Status ?st \<noteq> StatusDisabled"
    by (simp_all add: expireState_def resetModelState_def)
  have g: "m_get (a_ModelStates ?r) (res_Model result) = Some (Some ?st)"
    using st by (simp add: markModelSuccess_def Let_def split_def ensure_current)
  have d: "\<not> a_Disabled ?r" "a_Status ?r \<noteq> StatusDisabled"
    using assms(5,6) by (simp_all add: markModelSuccess_def Let_def split_def update_fields(3-))
  have "isAuthBlockedForModel (Some ?r) (res_Model result) t = stateBlock ?st t"
    using g assms(4) d st(2) by (rule blocked_by_state)
  also have "\<dots> = (False, blockReasonNone, 0)"
    by (simp add: stateBlock_def resetModelState_def blocked_free)
  finally show ?thesis
    using assms(1-4) by (simp add: MarkResult_def Let_def split_def)
qed

abbreviation sample_env :: CoolingEnv where
  "sample_env \<equiv> \<lparr>ce_config = None, ce_quotaCooldownDisabled = False,
     ce_transientErrorCooldownSeconds = 0, ce_hasCooldownStore = False\<rparr>"

abbreviation sample_result :: "bool \<Rightarrow> AuthError option \<Rightarrow> Result" where
  "sample_result ok err \<equiv> \<lparr>res_AuthID = ''a'', res_Provider = ''codex'', res_Model = ''m'',
     res_Success = ok, res_RetryAfter = None, res_Error = err\<rparr>"

abbreviation sample_pool :: "(string, Auth) gomap" where
  "sample_pool \<equiv> [(''a'', new_auth ''a'' ''codex'')]"

lemma sample_pool_active:
  "\<not> a_Disabled (new_auth ''a'' ''codex'')" "a_Status (new_auth ''a'' ''codex'') \<noteq> StatusDisabled"
  by (simp_all add: new_auth_def)

lemma MarkResult_success_unblocks_witness:
  "\<exists>a'. m_get (out_auths (MarkResult sample_env 5 (sample_result True None) sample_pool)) ''a'' = Some a'
     \<and> isAuthBlockedForModel (Some a') ''m'' 9 = (False, blockReasonNone, 0)"
  using MarkResult_success_unblocks [of "sample_result True None" sample_pool "new_auth ''a'' ''codex''"
    sample_env 5 9] sample_pool_active by auto

text \<open>
  a quota failure (status 429) blocks exactly its model exactly until its deadline: with
  cooling enabled the credential is blocked for the model, as cooling down and with that deadline,
  at every instant before it, and free from the deadline on. The deadline is the provider's retry
  hint when there is one, and the back-off ladder's otherwise; the registry gets the quota mark
  and the suspension.
\<close>

theorem MarkResult_quota_blocks:
  assumes "res_AuthID result \<noteq> []" "m_get auths (res_AuthID result) = Some a"
    and "\<not> res_Success result" "res_Model result \<noteq> []" "\<not> a_Disabled a"
    and "res_Error result = Some e" "e_HTTPStatus e = 429" "e_Code e \<noteq> ''request_scoped''"
    and "\<not> isCloudflareChallengeErrorMessage (e_Message e)" "\<not> cooldownDisabledForAuth env a"
    and "d = (case res_RetryAfter result of Some r \<Rightarrow> now + r
      | None \<Rightarrow> fst (quotaCooldownAfterFailure (s_Quota (currentState a (res_Model result))) now))"
    and "0 \<le> now" "now < d" "now \<le> t"
  shows "\<exists>a'. m_get (out_auths (MarkResult env now result auths)) (res_AuthID result) = Some a'
     \<and> isAuthBlockedForModel (Some a') (res_Model result) t =
        (if t < d then (True, blockReasonCooldown, d) else (False, blockReasonNone, 0))
     \<and> out_registry (MarkResult env now result auths) =
        [SetQuotaCall (res_AuthID result) (res_Model result),
         SuspendCall (res_AuthID result) (res_Model result) ''quota'']"
  using quota_failure [OF assms(1-13)] assms(14) by auto

lemma MarkResult_quota_blocks_witness:
  "\<exists>a'. m_get (out_auths (MarkResult sample_env 5 (sample_result False
       (Some \<lparr>e_Code = [], e_Message = ''limit'', e_Retryable = False, e_HTTPStatus = 429\<rparr>)) sample_pool)) ''a''
       = Some a'
     \<and> isAuthBlockedForModel (Some a') ''m'' 9 = (True, blockReasonCooldown, 1000000005)"
proof -
  let ?e = "\<lparr>e_Code = [], e_Message = ''limit'', e_Retryable = False, e_HTTPStatus = 429\<rparr>"
  have c: "\<not> isCloudflareChallengeErrorMessage (e_Message ?e)"
      "\<not> cooldownDisabledForAuth sample_env (new_auth ''a'' ''codex'')"
      "1000000005 = fst (quotaCooldownAfterFailure (s_Quota (currentState (new_auth ''a'' ''codex'') ''m'')) 5)"
    by code_simp+
  show ?thesis
    using MarkResult_quota_blocks [of "sample_result False (Some ?e)" sample_pool
      "new_auth ''a'' ''codex''" ?e sample_env 1000000005 5 9] c sample_pool_active by auto
qed

section \<open>No permanent block\<close>

text \<open>A state that has a recovery time whenever it can block.\<close>

definition recoverable :: "ModelState \<Rightarrow> bool" where
  "recoverable st \<longleftrightarrow> (q_Exceeded (s_Quota st) \<longrightarrow> q_NextRecoverAt (s_Quota st) \<noteq> 0)
     \<and> (s_Unavailable st \<longrightarrow> s_NextRetryAfter st \<noteq> 0 \<or> q_NextRecoverAt (s_Quota st) \<noteq> 0)"

definition states_recoverable :: "Auth \<Rightarrow> bool" where
  "states_recoverable a \<longleftrightarrow> (\<forall>st\<in>set (statesOf a). recoverable st)"

lemma recoverable_fresh: "recoverable freshModelState"
  by (simp add: recoverable_def freshModelState_def)

lemma recoverable_reset: "recoverable (resetModelState st now)"
  by (simp add: recoverable_def resetModelState_def)

lemma recoverable_expire: "recoverable st \<Longrightarrow> recoverable (expireState now st)"
  by (auto simp: recoverable_def expireState_def)

lemma recoverable_free:
  "recoverable st \<Longrightarrow> 0 \<le> t \<Longrightarrow> s_NextRetryAfter st \<le> t \<Longrightarrow> q_NextRecoverAt (s_Quota st) \<le> t \<Longrightarrow>
    \<not> fst (stateBlock st t)"
  by (auto simp: recoverable_def stateBlock_def availabilityBlock_def laterCandidate_def Let_def)

text \<open>The settings and the retry hint give instants after the zero time.\<close>

definition sane_times :: "CoolingEnv \<Rightarrow> Result \<Rightarrow> gotime \<Rightarrow> bool" where
  "sane_times env result now \<longleftrightarrow> 0 < now \<and> ce_transientErrorCooldownSeconds env \<le> 9000000000
     \<and> (\<forall>r. res_RetryAfter result = Some r \<longrightarrow> 0 \<le> r)"

lemma transient_nonneg:
  "0 < now \<Longrightarrow> ce_transientErrorCooldownSeconds env \<le> 9000000000 \<Longrightarrow>
    nextTransientErrorRetryAfter env now = 0 \<or> now \<le> nextTransientErrorRetryAfter env now"
  by (auto simp: nextTransientErrorRetryAfter_def Let_def wrap64_id in64_def)

lemma cloudflare_future:
  "0 < now \<Longrightarrow> \<not> dis \<Longrightarrow> now < fst (nextCloudflareCooldown l dis now)"
  using nextQuotaCooldown_range [of l]
  by (auto simp: nextCloudflareCooldown_def Let_def split_def)

lemma failureByKind_recoverable:
  assumes "sane_times env result now" "q_Exceeded (s_Quota st) \<longrightarrow> q_NextRecoverAt (s_Quota st) \<noteq> 0"
    and "\<not> dis"
  shows "recoverable (fst (modelFailureByKind env err (res_RetryAfter result) now dis st))"
proof -
  have "0 < now" and hint: "\<And>r. res_RetryAfter result = Some r \<Longrightarrow> 0 \<le> r"
    using assms(1) by (auto simp: sane_times_def)
  moreover have "nextTransientErrorRetryAfter env now = 0 \<or> now \<le> nextTransientErrorRetryAfter env now"
    using assms(1) transient_nonneg [of now env] by (auto simp: sane_times_def)
  moreover have "0 < fst (quotaCooldownAfterFailure (s_Quota st) now)"
    using quotaCooldown_future [of now "s_Quota st"] \<open>0 < now\<close> by simp
  moreover have "0 < fst (nextCloudflareCooldown (q_BackoffLevel (s_Quota st)) dis now)"
    using cloudflare_future [OF \<open>0 < now\<close> assms(3)] \<open>0 < now\<close> by (rule less_trans [rotated])
  ultimately show ?thesis
    using assms(2,3)
    by (auto simp: modelFailureByKind_def Let_def split_def recoverable_def
      recoverableFailureRetryAfter_def split: option.splits dest: hint)
qed

lemma failureByKind_quota_disabled:
  "\<not> isModelSupportResultError err \<Longrightarrow>
   let st' = fst (modelFailureByKind env err ra now True st)
   in s_NextRetryAfter st' = 0
    \<and> (q_NextRecoverAt (s_Quota st') = 0 \<or> s_Quota st' = s_Quota st)"
  by (auto simp: modelFailureByKind_def Let_def split_def nextCloudflareCooldown_def
    recoverableFailureRetryAfter_def)

lemma failureByKind_support:
  "isModelSupportResultError err \<Longrightarrow>
   fst (modelFailureByKind env err ra now dis st) = st\<lparr>s_NextRetryAfter := now + 12 * hour\<rparr>"
  by (simp add: modelFailureByKind_def Let_def)

lemma failedState_recoverable:
  assumes "sane_times env result now" "recoverable (currentState a (res_Model result))"
  shows "recoverable (fst (failedState env result now a))"
proof -
  define dis where "dis = cooldownDisabledForAuth env a"
  define st where "st = (case res_Error result of
      None \<Rightarrow> (currentState a (res_Model result))\<lparr>s_Unavailable := True, s_Status := StatusError, s_UpdatedAt := now\<rparr>
    | Some e \<Rightarrow> (currentState a (res_Model result))\<lparr>s_Unavailable := True, s_Status := StatusError,
        s_UpdatedAt := now, s_LastError := Some e, s_StatusMessage := e_Message e\<rparr>)"
  define st' where "st' = fst (modelFailureByKind env (res_Error result) (res_RetryAfter result) now dis st)"
  have q: "s_Quota st = s_Quota (currentState a (res_Model result))" by (simp add: st_def split: option.splits)
  then have st: "q_Exceeded (s_Quota st) \<longrightarrow> q_NextRecoverAt (s_Quota st) \<noteq> 0"
    using assms(2) by (simp add: recoverable_def)
  have f: "fst (failedState env result now a) =
      (if dis \<and> s_NextRetryAfter st' = 0 \<and> q_NextRecoverAt (s_Quota st') = 0
       then st'\<lparr>s_Unavailable := False, s_Quota := (s_Quota st')\<lparr>q_Exceeded := False\<rparr>\<rparr> else st')"
    by (auto simp: failedState_def Let_def split_def st'_def st_def dis_def split: option.splits)
  show ?thesis
  proof (cases dis)
    case False
    with failureByKind_recoverable [OF assms(1) st] f show ?thesis by (simp add: st'_def)
  next
    case True
    show ?thesis
    proof (cases "isModelSupportResultError (res_Error result)")
      case support: True
      have "now + 12 * hour \<noteq> 0" using assms(1) by (simp add: sane_times_def)
      with support st f show ?thesis by (simp add: st'_def failureByKind_support recoverable_def)
    next
      case other: False
      with failureByKind_quota_disabled [OF other, of env "res_RetryAfter result" now st] st f True
      show ?thesis by (auto simp: st'_def recoverable_def Let_def)
    qed
  qed
qed

lemma statesOf_iff:
  "m_ok (a_ModelStates a) \<Longrightarrow> st \<in> set (statesOf a) \<longleftrightarrow> (\<exists>k. m_get (a_ModelStates a) k = Some (Some st))"
  by (force simp: statesOf_def List.map_filter_def)

lemma recoverable_current: "states_recoverable a \<Longrightarrow> recoverable (currentState a model)"
proof -
  assume r: "states_recoverable a"
  have "st \<in> set (statesOf a)" if "m_get (a_ModelStates a) model = Some (Some st)" for st
    using map_of_SomeD [OF that] by (force simp: statesOf_def List.map_filter_def)
  with r show ?thesis
    by (auto simp: currentState_def states_recoverable_def recoverable_fresh split: option.splits)
qed

lemma states_put:
  "set (statesOf (putModelState model st a)) \<subseteq> insert st (set (statesOf a))"
proof -
  have "set (List.map_filter snd (m_put model (Some st) ms)) \<subseteq> insert st (set (List.map_filter snd ms))" for ms
    by (induction ms) (auto simp: List.map_filter_def)
  then show ?thesis by (simp add: statesOf_def putModelState_def)
qed

lemma recoverable_success:
  "states_recoverable a \<Longrightarrow> states_recoverable (markModelSuccess model now a)"
proof -
  assume r: "states_recoverable a"
  let ?p = "putModelState model (resetModelState (currentState a model) now) (snd (ensureModelState a model))"
  have e: "set (statesOf (snd (ensureModelState a model))) \<subseteq> insert freshModelState (set (statesOf a))"
    using states_put [of model freshModelState a]
    by (auto simp: ensureModelState_def putModelState_def split: option.splits)
  have "\<forall>st\<in>set (statesOf ?p). recoverable st"
    using states_put [of model _ "snd (ensureModelState a model)"] e r
    by (fastforce simp: states_recoverable_def recoverable_reset recoverable_fresh)
  then have "\<forall>st\<in>set (statesOf (updateAggregatedAvailability ?p now)). recoverable st"
    by (auto simp: update_fields(1) intro: recoverable_expire)
  moreover have "statesOf (markModelSuccess model now a) = statesOf (updateAggregatedAvailability ?p now)"
    by (simp add: markModelSuccess_def Let_def split_def ensure_current statesOf_def)
  ultimately show ?thesis by (simp add: states_recoverable_def)
qed

lemma markModelFailure_states:
  "statesOf (fst (markModelFailure env result now a)) =
    map (expireState now) (statesOf (putModelState (res_Model result)
      (fst (failedState env result now a)) (snd (ensureModelState a (res_Model result)))))"
  by (cases "res_Error result"; cases "cooldownDisabledForAuth env a";
      simp add: markModelFailure_def failedState_def Let_def split_def ensure_current
        update_fields(1); simp add: statesOf_def putModelState_def)

lemma recoverable_failure:
  assumes "states_recoverable a" "sane_times env result now"
  shows "states_recoverable (fst (markModelFailure env result now a))"
proof -
  have "recoverable (fst (failedState env result now a))"
    using assms by (intro failedState_recoverable recoverable_current)
  moreover have "set (statesOf (snd (ensureModelState a (res_Model result))))
      \<subseteq> insert freshModelState (set (statesOf a))"
    using states_put [of "res_Model result" freshModelState a]
    by (auto simp: ensureModelState_def putModelState_def split: option.splits)
  ultimately have "\<forall>st\<in>set (statesOf (putModelState (res_Model result)
      (fst (failedState env result now a)) (snd (ensureModelState a (res_Model result))))). recoverable st"
    using states_put [of "res_Model result" "fst (failedState env result now a)"
        "snd (ensureModelState a (res_Model result))"] assms(1)
    by (fastforce simp: states_recoverable_def recoverable_fresh)
  then show ?thesis
    by (auto simp: states_recoverable_def markModelFailure_states intro: recoverable_expire)
qed

lemma statesOf_count [simp]: "statesOf (countRequest now ok a) = statesOf a"
  by (simp add: statesOf_def)

lemma statesOf_authFailure [simp]:
  "statesOf (applyAuthFailureState env a err ra now dis) = statesOf a"
  by (simp add: statesOf_def applyAuthFailureState_def authFailureByKind_def Let_def split_def
    split: option.splits)

lemma statesOf_clear: "statesOf (clearAuthStateOnSuccess a now) = statesOf a"
  by (simp add: statesOf_def clearAuthStateOnSuccess_def)



section \<open>Persisted cooldowns and resets\<close>

lemma modelRecord_Some:
  "modelCooldownStateRecord a model (Some st) now = Some r \<Longrightarrow>
    cr_Model r = trim_space model \<and> trim_space model \<noteq> [] \<and> cr_AuthID r = a_ID a
    \<and> cr_NextRetryAfter r = s_NextRetryAfter st \<and> cr_Quota r = s_Quota st
    \<and> s_Unavailable st \<and> s_NextRetryAfter st \<noteq> 0 \<and> now < s_NextRetryAfter st"
  by (auto simp: modelCooldownStateRecord_def Let_def split: if_splits)

text \<open>
  a cooldown survives a restart. The record written for a model of a credential, restored
  into a pool in which the credential has no runtime state, blocks the credential for that model
  at the same instants, for the same reason and until the same deadline as the state it was
  taken from.
\<close>

theorem cooldown_record_roundtrip:
  assumes "modelCooldownStateRecord a model (Some st) now = Some r"
    and "trim_space (a_ID a) = a_ID a" "a_ID a \<noteq> []"
    and "m_get auths (a_ID a) = Some b" "a_ModelStates b = []" "\<not> a_Disabled b"
    and "a_Status b \<noteq> StatusDisabled" "\<not> cooldownDisabledForAuth env b"
    and "0 \<le> now" "now \<le> now'" "now' < s_NextRetryAfter st" "0 \<le> t" "0 \<le> q_NextRecoverAt (s_Quota st)"
  shows "\<exists>b'. m_get (fst (restoreCooldownRecordLocked env r now' auths)) (a_ID a) = Some b'
    \<and> snd (restoreCooldownRecordLocked env r now' auths)
    \<and> isAuthBlockedForModel (Some b') (trim_space model) t = stateBlock st t"
proof -
  note r = modelRecord_Some [OF assms(1)]
  define quota where "quota = (if q_Exceeded (cr_Quota r) \<and> is_zero (q_NextRecoverAt (cr_Quota r))
    then (cr_Quota r)\<lparr>q_NextRecoverAt := cr_NextRetryAfter r\<rparr> else cr_Quota r)"
  define st' where "st' = freshModelState\<lparr>s_Unavailable := True, s_Status := StatusError,
    s_NextRetryAfter := cr_NextRetryAfter r, s_Quota := quota,
    s_UpdatedAt := (if is_zero (cr_UpdatedAt r) then now' else cr_UpdatedAt r),
    s_StatusMessage := (if trim_space (cr_Reason r) \<noteq> [] then trim_space (cr_Reason r)
      else s_StatusMessage freshModelState), s_LastError := cr_LastError r\<rparr>"
  define b' where "b' = updateAggregatedAvailability (putModelState (trim_space model) st'
    (snd (ensureModelState b (trim_space model)))) now'"
  have e: "fst (ensureModelState b (trim_space model)) = freshModelState"
    using assms(5) by (simp add: ensureModelState_def)
  have "restoreCooldownRecordLocked env r now' auths = (m_put (a_ID a) b' auths, True)"
    using r assms(2-11) e
    by (simp add: restoreCooldownRecordLocked_def Let_def split_def b'_def st'_def quota_def)
  moreover have "isAuthBlockedForModel (Some b') (trim_space model) t = stateBlock st' t"
  proof (rule blocked_by_state)
    have "expireState now' st' = st'" using r assms(11) by (simp add: st'_def expireState_def)
    then show "m_get (a_ModelStates b') (trim_space model) = Some (Some st')" by (simp add: b'_def)
  qed (use r assms(6,7) in \<open>simp_all add: b'_def st'_def update_fields(3-)\<close>)
  moreover have "stateBlock st' t = stateBlock st t"
    using r assms(9-13)
    by (auto simp: stateBlock_def st'_def quota_def availabilityBlock_def laterCandidate_def Let_def)
  ultimately show ?thesis by simp
qed

abbreviation sample_cooling :: ModelState where
  "sample_cooling \<equiv> freshModelState\<lparr>s_Unavailable := True, s_Status := StatusError,
     s_NextRetryAfter := 100, s_Quota := \<lparr>q_Exceeded = True, q_Reason = ''quota'', q_NextRecoverAt = 100,
       q_BackoffLevel = 3\<rparr>\<rparr>"

lemma cooldown_record_roundtrip_witness:
  "\<exists>r b'. modelCooldownStateRecord (new_auth ''a'' ''codex'') ''m'' (Some sample_cooling) 5 = Some r
     \<and> m_get (fst (restoreCooldownRecordLocked sample_env r 7 sample_pool)) ''a'' = Some b'
     \<and> isAuthBlockedForModel (Some b') ''m'' 50 = (True, blockReasonCooldown, 100)"
proof -
  have t: "trim_space ''m'' = ''m''" "trim_space ''a'' = ''a''" by code_simp+
  obtain r where r: "modelCooldownStateRecord (new_auth ''a'' ''codex'') ''m'' (Some sample_cooling) 5 = Some r"
    by (simp add: modelCooldownStateRecord_def t)
  have "\<not> cooldownDisabledForAuth sample_env (new_auth ''a'' ''codex'')" by code_simp
  moreover have "stateBlock sample_cooling 50 = (True, blockReasonCooldown, 100)" by code_simp
  ultimately show ?thesis
    using cooldown_record_roundtrip [OF r, of sample_pool "new_auth ''a'' ''codex''" sample_env 7 50] t r
      sample_pool_active
    by (fastforce simp: new_auth_def freshModelState_def)
qed

lemma statesOf_mapped:
  "statesOf (a\<lparr>a_ModelStates := map (\<lambda>(k, st). (k, map_option f st)) (a_ModelStates a)\<rparr>) =
    map f (statesOf a)"
  by (simp add: statesOf_def map_filter_expire)

lemma clear_updates:
  "a_ModelStates a \<noteq> [] \<Longrightarrow> \<exists>b. fst (clearCooldownStateForAuth a now) = updateAggregatedAvailability b now
    \<and> a_Disabled b = a_Disabled a \<and> a_Status b = a_Status a
    \<and> a_ModelStates b = map (\<lambda>(k, st). (k, map_option (clearStateCooldown now) st)) (a_ModelStates a)"
  by (auto simp: clearCooldownStateForAuth_def Let_def)

lemma statesOf_updates [simp]:
  "statesOf (a\<lparr>a_LastError := e\<rparr>) = statesOf a" "statesOf (a\<lparr>a_StatusMessage := m\<rparr>) = statesOf a"
  "statesOf (a\<lparr>a_Status := st\<rparr>) = statesOf a" "statesOf (a\<lparr>a_UpdatedAt := t\<rparr>) = statesOf a"
  by (simp_all add: statesOf_def)

text \<open>A state, or a credential, that blocks nothing.\<close>

definition quiet :: "ModelState \<Rightarrow> bool" where
  "quiet st \<longleftrightarrow> \<not> s_Unavailable st \<and> \<not> q_Exceeded (s_Quota st) \<and> s_Status st \<noteq> StatusDisabled"

lemma quiet_free: "quiet st \<Longrightarrow> stateBlock st t = (False, blockReasonNone, 0)"
  by (simp add: quiet_def stateBlock_def availabilityBlock_def)

lemma quiet_unblocks:
  assumes "\<not> a_Disabled a" "a_Status a \<noteq> StatusDisabled" "\<forall>st\<in>set (statesOf a). quiet st"
    and "\<not> a_Unavailable a" "\<not> q_Exceeded (a_Quota a)"
  shows "isAuthBlockedForModel (Some a) model t = (False, blockReasonNone, 0)"
proof -
  have "authBlock a t = (False, blockReasonNone, 0)"
    using assms(4,5) by (simp add: authBlock_def availabilityBlock_def)
  moreover have "st \<in> set (statesOf a)" if "stateForModel a model = Some st" for st
    using that by (force simp: stateForModel_def statesOf_def List.map_filter_def Let_def
      dest: map_of_SomeD split: option.splits if_splits)
  ultimately show ?thesis
    using assms(1-3) quiet_free
    by (auto simp: isAuthBlockedForModel_def quiet_def split: option.splits)
qed

lemma quiet_update:
  assumes "\<forall>st\<in>set (statesOf a). quiet st"
  shows "\<not> a_Unavailable (updateAggregatedAvailability a now)"
    "\<not> q_Exceeded (a_Quota (updateAggregatedAvailability a now))"
    "\<forall>st\<in>set (statesOf (updateAggregatedAvailability a now)). quiet st"
proof -
  have "\<not> stateUnavailable now st" if "st \<in> set (statesOf a)" for st
    using assms that by (auto simp: quiet_def stateUnavailable_def)
  moreover have "quotaStates (statesOf a) = []"
    using assms by (auto simp: quiet_def quotaStates_def filter_empty_conv)
  ultimately show "\<not> a_Unavailable (updateAggregatedAvailability a now)"
    "\<not> q_Exceeded (a_Quota (updateAggregatedAvailability a now))"
    by (auto simp: update_aggregate neq_Nil_conv)
  show "\<forall>st\<in>set (statesOf (updateAggregatedAvailability a now)). quiet st"
    using assms by (auto simp: update_fields(1) quiet_def expireState_def)
qed

lemma reset_quiet:
  fixes regs now
  assumes "\<forall>k\<in>set (m_keys (a_ModelStates a)). trim_space k \<noteq> []"
    and "\<not> a_Disabled a" "a_Status a \<noteq> StatusDisabled"
  defines "r \<equiv> fst (resetAuthForQuota now regs a)"
  shows "\<not> a_Disabled r \<and> a_Status r \<noteq> StatusDisabled \<and> (\<forall>st\<in>set (statesOf r). quiet st)
    \<and> \<not> a_Unavailable r \<and> \<not> q_Exceeded (a_Quota r)"
proof -
  define a1 where "a1 = a\<lparr>a_ModelStates := map (\<lambda>(k, st).
      (k, if trim_space k = [] then st else map_option (\<lambda>state. resetModelState state now) st))
    (a_ModelStates a)\<rparr>"
  have a1: "a1 = a\<lparr>a_ModelStates := map (\<lambda>(k, st). (k, map_option (\<lambda>state. resetModelState state now) st))
      (a_ModelStates a)\<rparr>"
  proof -
    have "map (\<lambda>(k, st). (k, if trim_space k = [] then st
          else map_option (\<lambda>state. resetModelState state now) st)) (a_ModelStates a)
        = map (\<lambda>(k, st). (k, map_option (\<lambda>state. resetModelState state now) st)) (a_ModelStates a)"
      using assms(1) by (intro map_cong) auto
    then show ?thesis by (simp only: a1_def)
  qed
  define c where "c = fst (clearCooldownStateForAuth a1 now)"
  obtain upd where r: "r = (let b = (if upd then updateAggregatedAvailability c now else c)
      in if \<not> a_Disabled b \<and> a_Status b \<noteq> StatusDisabled \<and> \<not> hasModelError b now
         then b\<lparr>a_LastError := None, a_StatusMessage := [], a_Status := StatusActive, a_UpdatedAt := now\<rparr>
         else b\<lparr>a_UpdatedAt := now\<rparr>)"
    and upd: "upd \<longrightarrow> a_ModelStates c \<noteq> []"
  proof (rule that)
    let ?upd = "\<not> snd (clearCooldownStateForAuth a1 now) \<and> a_ModelStates c \<noteq> []"
    show "r = (let b = (if ?upd then updateAggregatedAvailability c now else c)
      in if \<not> a_Disabled b \<and> a_Status b \<noteq> StatusDisabled \<and> \<not> hasModelError b now
         then b\<lparr>a_LastError := None, a_StatusMessage := [], a_Status := StatusActive, a_UpdatedAt := now\<rparr>
         else b\<lparr>a_UpdatedAt := now\<rparr>)"
      by (simp add: r_def resetAuthForQuota_def Let_def split_def a1_def c_def)
  qed simp
  have c: "\<not> a_Disabled c \<and> a_Status c \<noteq> StatusDisabled \<and> (\<forall>st\<in>set (statesOf c). quiet st)
    \<and> \<not> a_Unavailable c \<and> \<not> q_Exceeded (a_Quota c)"
  proof (cases "a_ModelStates a1 = []")
    case True
    then have "statesOf c = []" by (simp add: c_def clearCooldownStateForAuth_def Let_def)
    with True assms(2,3) show ?thesis
      by (simp add: c_def clearCooldownStateForAuth_def Let_def a1)
  next
    case False
    then obtain b where b: "c = updateAggregatedAvailability b now" "a_Disabled b = a_Disabled a1"
        "a_Status b = a_Status a1"
        "a_ModelStates b = map (\<lambda>(k, st). (k, map_option (clearStateCooldown now) st)) (a_ModelStates a1)"
      using clear_updates [of a1 now] by (auto simp: c_def)
    have "statesOf b = map (clearStateCooldown now) (statesOf a1)"
      unfolding statesOf_def b(4) by (rule map_filter_expire)
    moreover have "statesOf a1 = map (\<lambda>state. resetModelState state now) (statesOf a)"
      unfolding a1 by (rule statesOf_mapped)
    ultimately have "\<forall>st\<in>set (statesOf b). quiet st"
      by (auto simp: quiet_def clearStateCooldown_def cooldownStateDirty_def resetModelState_def)
    with b(1-3) assms(2,3) quiet_update [of b now] show ?thesis
      by (simp add: update_fields(3-) a1)
  qed
  have u: "\<not> a_Disabled (updateAggregatedAvailability c now) \<and> a_Status (updateAggregatedAvailability c now) \<noteq> StatusDisabled"
    using c by (simp add: update_fields(3-))
  show ?thesis
    using c u quiet_update [of c now] by (auto simp: r Let_def)
qed

text \<open>
  an operator's reset frees the credential: after \<open>ResetQuota\<close> the stored credential is
  blocked for no model at any instant (unless an operator has disabled it), and, when the auth
  store accepts it, the registry is told to unmark and resume every model in the returned list,
  which holds every model the credential has a state for. When the store fails the credential is
  reset in memory all the same and the registry hears nothing.
\<close>

theorem ResetQuota_unblocks:
  assumes "trim_space ident \<noteq> []" "m_get auths (trim_space ident) = Some a"
    and "\<not> a_Disabled a" "a_Status a \<noteq> StatusDisabled"
    and "\<forall>k\<in>set (m_keys (a_ModelStates a)). trim_space k = k \<and> k \<noteq> []"
  shows "\<exists>a'. m_get (out_auths (snd (ResetQuota env now regs fails ident auths))) (trim_space ident) = Some a'
     \<and> isAuthBlockedForModel (Some a') model t = (False, blockReasonNone, 0)
     \<and> (if fails then out_registry (snd (ResetQuota env now regs fails ident auths)) = []
        else \<exists>models. fst (ResetQuota env now regs fails ident auths) = Inr (Some models)
          \<and> set (m_keys (a_ModelStates a)) \<subseteq> set models
          \<and> out_registry (snd (ResetQuota env now regs fails ident auths)) =
             concat (map (\<lambda>k. [ClearQuotaCall (trim_space ident) k, ResumeCall (trim_space ident) k]) models))"
proof -
  let ?r = "resetAuthForQuota now regs a"
  have "\<forall>k\<in>set (m_keys (a_ModelStates a)). trim_space k \<noteq> []" using assms(5) by auto
  then have "isAuthBlockedForModel (Some (fst ?r)) model t = (False, blockReasonNone, 0)"
    using reset_quiet [of a now regs] assms(3,4) by (intro quiet_unblocks) auto
  moreover have "set (m_keys (a_ModelStates a)) \<subseteq> set (snd ?r)"
  proof -
    have d: "x \<in> set vs \<Longrightarrow> x \<noteq> [] \<Longrightarrow> trim_space x = x \<Longrightarrow> x \<in> set seen \<or> x \<in> set (dedupe_loop seen vs)"
      for x seen vs
      by (induction seen vs rule: dedupe_loop.induct) (auto simp: Let_def)
    have "x \<in> set (dedupeStrings vs)" if "x \<in> set vs" "x \<noteq> []" "trim_space x = x" for x vs
      using d [OF that, of "[]"] that by (simp add: dedupeStrings_def)
    moreover have "filter (\<lambda>k. trim_space k \<noteq> []) (m_keys (a_ModelStates a)) = m_keys (a_ModelStates a)"
      using assms(5) by (simp add: filter_id_conv)
    then have "snd ?r = dedupeStrings (m_keys (a_ModelStates a))" if "a_ModelStates a \<noteq> []"
      using that by (simp add: resetAuthForQuota_def Let_def split_def)
    ultimately have "k \<in> set (snd ?r)" if "k \<in> set (m_keys (a_ModelStates a))" for k
      using that assms(5) by (metis list.map_disc_iff list.set_cases list.discI)
    then show ?thesis by (rule subsetI)
  qed
  moreover have "ResetQuota env now regs fails ident auths = (let auths' = m_put (trim_space ident) (fst ?r) auths
      in if fails then (Inl PersistFailed, \<lparr>out_auths = auths', out_registry = [], out_snapshot = None,
           out_persist = False\<rparr>)
         else (Inr (Some (snd ?r)), \<lparr>out_auths = auths',
           out_registry = concat (map (\<lambda>k. [ClearQuotaCall (trim_space ident) k, ResumeCall (trim_space ident) k])
             (snd ?r)),
           out_snapshot = Some (fst ?r),
           out_persist = (ce_hasCooldownStore env \<and> \<not> cooldownStateRecordsEqual
             (cooldownStateRecordsForAuthLocked env a now)
             (cooldownStateRecordsForAuthLocked env (fst ?r) now))\<rparr>))"
    using assms(1,2) by (simp add: ResetQuota_def Let_def split_def)
  ultimately show ?thesis
    by (cases fails) (simp_all add: Let_def)
qed

lemma ResetQuota_unblocks_witness:
  "\<exists>a'. m_get (out_auths (snd (ResetQuota sample_env 9 [] False '' a ''
       [(''a'', (new_auth ''a'' ''codex'')\<lparr>a_ModelStates := [(''m'', Some sample_cooling)]\<rparr>)]))) ''a'' = Some a'
     \<and> isAuthBlockedForModel (Some a') ''m'' 50 = (False, blockReasonNone, 0)"
proof -
  have t: "trim_space ''m'' = ''m''" "trim_space '' a '' = ''a''" by code_simp+
  show ?thesis
    using ResetQuota_unblocks [of "'' a ''" "[(''a'', (new_auth ''a'' ''codex'')
      \<lparr>a_ModelStates := [(''m'', Some sample_cooling)]\<rparr>)]"
      "(new_auth ''a'' ''codex'')\<lparr>a_ModelStates := [(''m'', Some sample_cooling)]\<rparr>" sample_env 9 "[]" False
      "''m''" 50] t sample_pool_active by auto
qed

end
