(* ===== verification/Selector.thy ===== *)
theory Selector
  imports Availability
begin

text \<open>
  Selection of a credential for a request (\<open>backend/sdk/cliproxy/auth/selector.go\<close>): the available
  candidates of the best priority, and the round-robin, weighted round-robin and fill-first
  selectors. A \<open>Pick\<close> takes its clock reading and what it reads from the context (the websocket
  flag, the route model) and from the options (the session identifiers \<open>extractSessionIDs\<close> finds
  in the headers and the JSON body) in a request record; the readings of one \<open>Pick\<close> are one
  instant. A selector's state is passed and returned. Candidates are sorted by a stable sort; they
  have distinct identifiers, so \<open>sort.Slice\<close> has no choice of its own.
\<close>

section \<open>Requests and errors\<close>

record PickRequest =
  pr_provider :: string
  pr_model :: string
  pr_now :: gotime
  pr_websocket :: bool
  pr_routeModel :: "string option"
  pr_primaryID :: string
  pr_fallbackID :: string

datatype PickError =
    ErrAuthNotFound | ErrAuthUnavailable string | ErrModelCooldown string string goduration

definition newModelCooldownError :: "string \<Rightarrow> string \<Rightarrow> goduration \<Rightarrow> PickError" where
  "newModelCooldownError model provider resetIn =
     ErrModelCooldown model provider (if resetIn < 0 then 0 else resetIn)"

section \<open>Available candidates\<close>

text \<open>One iteration of \<open>collectAvailableByPriority\<close>: the candidates by priority, the number of those
  cooling down, and the earliest end of a cooldown. A nil candidate is always blocked.\<close>

definition collectStep :: "string \<Rightarrow> gotime \<Rightarrow> (int, Auth list) gomap \<times> int \<times> gotime \<Rightarrow> Auth option
    \<Rightarrow> (int, Auth list) gomap \<times> int \<times> gotime" where
  "collectStep model now acc candidate =
     (let (available, cooldownCount, earliest) = acc;
          (blocked, reason, nxt) = isAuthBlockedForModel candidate model now
      in if \<not> blocked
         then (case candidate of
                 None \<Rightarrow> acc
               | Some a \<Rightarrow>
                   (let priority = authPriority candidate
                    in (m_put priority (m_get0 [] available priority @ [a]) available, cooldownCount, earliest)))
         else if reason = blockReasonCooldown
         then (available, cooldownCount + 1,
               if \<not> is_zero nxt \<and> (is_zero earliest \<or> nxt < earliest) then nxt else earliest)
         else acc)"

definition collectAvailableByPriority ::
    "Auth option list \<Rightarrow> string \<Rightarrow> gotime \<Rightarrow> (int, Auth list) gomap \<times> int \<times> gotime" where
  "collectAvailableByPriority auths model now =
     foldl (collectStep model now) ([], 0, zero_time) auths"

text \<open>The scan for the greatest key; \<open>None\<close> stands for \<open>found = false\<close>.\<close>

definition bestPriority :: "int list \<Rightarrow> int option" where
  "bestPriority ps = foldl (\<lambda>best p. case best of
       None \<Rightarrow> Some p | Some b \<Rightarrow> if p > b then Some p else Some b) None ps"

definition getAvailableAuths ::
    "Auth option list \<Rightarrow> string \<Rightarrow> string \<Rightarrow> gotime \<Rightarrow> PickError + Auth list" where
  "getAvailableAuths auths provider model now =
     (if auths = [] then Inl ErrAuthNotFound
      else let (available, cooldownCount, earliest) = collectAvailableByPriority auths model now
        in (case bestPriority (m_keys available) of
              None \<Rightarrow>
                if cooldownCount = int (length auths) \<and> \<not> is_zero earliest
                then (let providerForError = (if provider = ''mixed'' then [] else provider);
                          resetIn = time_sub earliest now;
                          resetIn = (if resetIn < 0 then 0 else resetIn)
                      in Inl (newModelCooldownError model providerForError resetIn))
                else Inl (ErrAuthUnavailable ''no auth available'')
            | Some best \<Rightarrow> Inr (sort_key a_ID (m_get0 [] available best))))"

definition preferCodexWebsocketAuths :: "bool \<Rightarrow> string \<Rightarrow> Auth list \<Rightarrow> Auth list" where
  "preferCodexWebsocketAuths websocket provider available =
     (if available = [] then available
      else if \<not> websocket then available
      else if \<not> equal_fold (trim_space provider) ''codex'' then available
      else let wsEnabled = filter (\<lambda>a. authWebsocketsEnabled (Some a)) available
        in if wsEnabled \<noteq> [] then wsEnabled else available)"

definition availableFor :: "PickRequest \<Rightarrow> Auth option list \<Rightarrow> PickError + Auth list" where
  "availableFor r auths =
     map_sum id (preferCodexWebsocketAuths (pr_websocket r) (pr_provider r))
       (getAvailableAuths auths (pr_provider r) (pr_model r) (pr_now r))"

section \<open>Round robin and fill first\<close>

record RoundRobinState =
  rr_cursors :: "(string, int) gomap"
  rr_maxKeys :: int

definition ensureCursorKey :: "string \<Rightarrow> int \<Rightarrow> (string, int) gomap \<Rightarrow> (string, int) gomap" where
  "ensureCursorKey key limit cursors =
     (if m_get cursors key = None \<and> int (length cursors) \<ge> limit then [] else cursors)"

definition roundRobinPick ::
    "RoundRobinState \<Rightarrow> PickRequest \<Rightarrow> Auth option list \<Rightarrow> RoundRobinState \<times> (PickError + Auth)" where
  "roundRobinPick s r auths =
     (case availableFor r auths of
        Inl err \<Rightarrow> (s, Inl err)
      | Inr available \<Rightarrow>
          (let key = pr_provider r @ '':'' @ canonicalModelKey (pr_model r);
               limit = (if rr_maxKeys s \<le> 0 then 4096 else rr_maxKeys s);
               cursors = ensureCursorKey key limit (rr_cursors s);
               index = m_get0 0 cursors key;
               index = (if index \<ge> 2147483640 then 0 else index)
           in (s\<lparr>rr_cursors := m_put key (index + 1) cursors\<rparr>,
               Inr (available ! nat (go_mod index (int (length available)))))))"

definition fillFirstPick :: "unit \<Rightarrow> PickRequest \<Rightarrow> Auth option list \<Rightarrow> unit \<times> (PickError + Auth)" where
  "fillFirstPick s r auths =
     (case availableFor r auths of
        Inl err \<Rightarrow> (s, Inl err)
      | Inr available \<Rightarrow> (s, Inr (hd available)))"

section \<open>Smooth weighted round robin\<close>

definition saturatingAddInt64 :: "int \<Rightarrow> int \<Rightarrow> int" where
  "saturatingAddInt64 v delta =
     (if delta > 0 \<and> v > wrap64 (max_int64 - delta) then max_int64
      else if delta < 0 \<and> v < wrap64 (min_int64 - delta) then min_int64
      else wrap64 (v + delta))"

definition positiveWeightAuths :: "Auth option list \<Rightarrow> Auth option list" where
  "positiveWeightAuths auths = filter (\<lambda>a. authWeight a > 0) auths"

definition authWeightVector :: "Auth list \<Rightarrow> (string, int) gomap" where
  "authWeightVector auths =
     foldl (\<lambda>weights a. let weight = authWeight (Some a)
        in if weight > 0 then m_put (a_ID a) weight weights else weights) [] auths"

definition weightVectorsEqual :: "(string, int) gomap \<Rightarrow> (string, int) gomap \<Rightarrow> bool" where
  "weightVectorsEqual left right \<longleftrightarrow> length left = length right
     \<and> list_all (\<lambda>(authID, weight). m_get0 0 right authID = weight) left"

record smoothWeightedState =
  sw_current :: "(string, int) gomap option"
  sw_weights :: "(string, int) gomap"

definition prepare :: "smoothWeightedState \<Rightarrow> (string, int) gomap \<Rightarrow> smoothWeightedState" where
  "prepare s weights =
     s\<lparr>sw_current := (if sw_current s = None \<or> \<not> weightVectorsEqual (sw_weights s) weights
         then Some [] else sw_current s),
       sw_weights := weights\<rparr>"

text \<open>The locals of the loop of \<open>pickSmoothWeightedAuth\<close>, and its body.\<close>

record SmoothLoop =
  sl_active :: "string list"
  sl_current :: "(string, int) gomap"
  sl_picked :: "Auth option"
  sl_pickedCurrent :: int
  sl_totalWeight :: int

definition smoothStep :: "SmoothLoop \<Rightarrow> Auth \<Rightarrow> SmoothLoop" where
  "smoothStep l a =
     (let weight = authWeight (Some a)
      in if weight \<le> 0 then l
         else let cur = saturatingAddInt64 (m_get0 0 (sl_current l) (a_ID a)) weight;
                  better = (sl_picked l = None \<or> cur > sl_pickedCurrent l)
           in \<lparr>sl_active = a_ID a # sl_active l,
               sl_current = m_put (a_ID a) cur (sl_current l),
               sl_picked = (if better then Some a else sl_picked l),
               sl_pickedCurrent = (if better then cur else sl_pickedCurrent l),
               sl_totalWeight = saturatingAddInt64 (sl_totalWeight l) weight\<rparr>)"

definition pickSmoothWeightedAuth ::
    "Auth list \<Rightarrow> (string, int) gomap \<Rightarrow> (string, int) gomap \<times> Auth option" where
  "pickSmoothWeightedAuth auths current =
     (let l = foldl smoothStep \<lparr>sl_active = [], sl_current = current, sl_picked = None,
            sl_pickedCurrent = 0, sl_totalWeight = 0\<rparr> auths;
          current = filter (\<lambda>(authID, _). authID \<in> set (sl_active l)) (sl_current l)
      in case sl_picked l of
           None \<Rightarrow> (current, None)
         | Some picked \<Rightarrow>
             (m_put (a_ID picked)
               (saturatingAddInt64 (m_get0 0 current (a_ID picked)) (- sl_totalWeight l)) current,
              Some picked))"

record WeightedState =
  wr_states :: "(string, smoothWeightedState) gomap"
  wr_maxKeys :: int

definition weightedSelectorStateModel :: "PickRequest \<Rightarrow> string" where
  "weightedSelectorStateModel r =
     (case pr_routeModel r of
        Some routeModel \<Rightarrow> if trim_space routeModel \<noteq> [] then routeModel else pr_model r
      | None \<Rightarrow> pr_model r)"

definition weightedPick ::
    "WeightedState \<Rightarrow> PickRequest \<Rightarrow> Auth option list \<Rightarrow> WeightedState \<times> (PickError + Auth)" where
  "weightedPick s r auths =
     (case availableFor r (positiveWeightAuths auths) of
        Inl err \<Rightarrow> (s, Inl err)
      | Inr available \<Rightarrow>
          (let key = pr_provider r @ '':'' @ canonicalModelKey (weightedSelectorStateModel r);
               limit = (if wr_maxKeys s \<le> 0 then 4096 else wr_maxKeys s);
               states = (if m_get (wr_states s) key = None \<and> int (length (wr_states s)) \<ge> limit
                 then [] else wr_states s);
               state = m_get0 \<lparr>sw_current = None, sw_weights = []\<rparr> states key;
               state = prepare state (authWeightVector available);
               (current, picked) = pickSmoothWeightedAuth available (the (sw_current state));
               s = s\<lparr>wr_states := m_put key (state\<lparr>sw_current := Some current\<rparr>) states\<rparr>
           in case picked of
                None \<Rightarrow> (s, Inl (ErrAuthUnavailable ''no auth available with positive weight''))
              | Some a \<Rightarrow> (s, Inr a)))"

section \<open>What the available candidates are\<close>

definition freeAuths :: "string \<Rightarrow> gotime \<Rightarrow> Auth option list \<Rightarrow> Auth list" where
  "freeAuths model now cs =
     List.map_filter (\<lambda>c. if fst (isAuthBlockedForModel c model now) then None else c) cs"

text \<open>The best candidates of a request: not blocked, eligible, and of the greatest priority.\<close>

definition bestCandidate ::
    "(Auth option \<Rightarrow> bool) \<Rightarrow> PickRequest \<Rightarrow> Auth option list \<Rightarrow> Auth \<Rightarrow> bool" where
  "bestCandidate elig r cs a \<longleftrightarrow> Some a \<in> set cs \<and> elig (Some a)
     \<and> \<not> fst (isAuthBlockedForModel (Some a) (pr_model r) (pr_now r))
     \<and> (\<forall>b. Some b \<in> set cs \<and> elig (Some b)
          \<and> \<not> fst (isAuthBlockedForModel (Some b) (pr_model r) (pr_now r))
          \<longrightarrow> authPriority (Some b) \<le> authPriority (Some a))"

lemma nil_blocked [simp]: "isAuthBlockedForModel None model now = (True, blockReasonOther, 0)"
  by (simp add: isAuthBlockedForModel_def)

lemma freeAuths_set:
  "a \<in> set (freeAuths model now cs) \<longleftrightarrow>
    Some a \<in> set cs \<and> \<not> fst (isAuthBlockedForModel (Some a) model now)"
  by (force simp: freeAuths_def List.map_filter_def split: if_splits)

lemma freeAuths_snoc:
  "freeAuths model now (cs @ [c]) = freeAuths model now cs @
    (if fst (isAuthBlockedForModel c model now) then [] else [the c])"
  by (cases c) (auto simp: freeAuths_def List.map_filter_def)

lemma collect_spec:
  "m_ok (fst (collectAvailableByPriority cs model now))
   \<and> (\<forall>p. m_get0 [] (fst (collectAvailableByPriority cs model now)) p =
        filter (\<lambda>a. authPriority (Some a) = p) (freeAuths model now cs))
   \<and> set (m_keys (fst (collectAvailableByPriority cs model now))) =
       (\<lambda>a. authPriority (Some a)) ` set (freeAuths model now cs)"
proof (induction cs rule: rev_induct)
  case Nil
  then show ?case by (simp add: collectAvailableByPriority_def freeAuths_def List.map_filter_def)
next
  case (snoc c cs)
  let ?acc = "collectAvailableByPriority cs model now"
  have step: "collectAvailableByPriority (cs @ [c]) model now = collectStep model now ?acc c"
    by (simp add: collectAvailableByPriority_def)
  show ?case
  proof (cases "fst (isAuthBlockedForModel c model now)")
    case True
    then have "fst (collectStep model now ?acc c) = fst ?acc"
      by (auto simp: collectStep_def split_def Let_def)
    with snoc True show ?thesis by (simp add: step freeAuths_snoc)
  next
    case False
    then obtain a where c: "c = Some a" by (cases c) auto
    with False have "fst (collectStep model now ?acc c) = m_put (authPriority c)
        (m_get0 [] (fst ?acc) (authPriority c) @ [a]) (fst ?acc)"
      by (simp add: collectStep_def split_def Let_def)
    moreover have "freeAuths model now (cs @ [c]) = freeAuths model now cs @ [a]"
      using False c by (simp add: freeAuths_snoc)
    moreover have "set (m_keys (m_put k v m)) = insert k (set (m_keys m))" for k v and m :: "(int, Auth list) gomap"
      using dom_update [of k v m] by simp
    ultimately show ?thesis
      using snoc by (simp only: step) (auto simp: m_ok_put c)
  qed
qed

lemma bestPriority_Max: "bestPriority ps = (if ps = [] then None else Some (Max (set ps)))"
proof (induction ps rule: rev_induct)
  case (snoc p ps)
  have "Max (insert p (set ps)) = max p (Max (set ps))" if "ps \<noteq> []"
    using that by (intro Max_insert) auto
  with snoc show ?case
    by (cases "ps = []") (simp_all add: bestPriority_def max_def not_le del: Max_insert Max_less_iff)
qed (simp add: bestPriority_def)

lemma getAvailable_keys:
  "m_keys (fst (collectAvailableByPriority cs model now)) = [] \<longleftrightarrow> freeAuths model now cs = []"
  using collect_spec [of cs model now] by (metis image_is_empty set_empty)

lemma getAvailable_none:
  "freeAuths model now cs = [] \<Longrightarrow> \<exists>e. getAvailableAuths cs provider model now = Inl e"
  using getAvailable_keys [of cs model now]
  by (auto simp: getAvailableAuths_def split_def Let_def bestPriority_Max)

lemma getAvailable_some:
  assumes "freeAuths model now cs \<noteq> []"
  shows "getAvailableAuths cs provider model now = Inr (sort_key a_ID (filter
      (\<lambda>a. authPriority (Some a) = Max ((\<lambda>a. authPriority (Some a)) ` set (freeAuths model now cs)))
      (freeAuths model now cs)))"
proof -
  have "cs \<noteq> []" using assms by (auto simp: freeAuths_def List.map_filter_def)
  with assms collect_spec [of cs model now] getAvailable_keys [of cs model now] show ?thesis
    by (simp add: getAvailableAuths_def split_def Let_def bestPriority_Max del: set_map)
qed

lemma preferWebsocket_subset:
  "set (preferCodexWebsocketAuths ws p av) \<subseteq> set av"
  "av \<noteq> [] \<Longrightarrow> preferCodexWebsocketAuths ws p av \<noteq> []"
  by (auto simp: preferCodexWebsocketAuths_def Let_def)

lemma availableFor_Inr:
  assumes "availableFor r cs = Inr av"
  shows "av \<noteq> []" "\<forall>a\<in>set av. bestCandidate (\<lambda>_. True) r cs a"
proof -
  let ?f = "freeAuths (pr_model r) (pr_now r) cs"
  let ?m = "Max ((\<lambda>a. authPriority (Some a)) ` set ?f)"
  obtain v where v: "getAvailableAuths cs (pr_provider r) (pr_model r) (pr_now r) = Inr v"
      and av: "av = preferCodexWebsocketAuths (pr_websocket r) (pr_provider r) v"
    using assms
    by (cases "getAvailableAuths cs (pr_provider r) (pr_model r) (pr_now r)") (auto simp: availableFor_def)
  from v have f: "?f \<noteq> []"
    using getAvailable_none [of "pr_model r" "pr_now r" cs "pr_provider r"] by auto
  with v have sv: "v = sort_key a_ID (filter (\<lambda>a. authPriority (Some a) = ?m) ?f)"
    by (simp add: getAvailable_some)
  have "?m \<in> (\<lambda>a. authPriority (Some a)) ` set ?f" using f by (intro Max_in) auto
  then have "filter (\<lambda>a. authPriority (Some a) = ?m) ?f \<noteq> []" by (auto simp: filter_empty_conv)
  then have "v \<noteq> []" unfolding sv by (metis set_empty set_sort)
  then show "av \<noteq> []" by (simp add: av preferWebsocket_subset)
  have "bestCandidate (\<lambda>_. True) r cs a" if "a \<in> set v" for a
    using that by (auto simp: sv bestCandidate_def freeAuths_set intro!: Max_ge)
  then show "\<forall>a\<in>set av. bestCandidate (\<lambda>_. True) r cs a"
    using preferWebsocket_subset(1) by (fastforce simp: av)
qed

lemma availableFor_Inl:
  "availableFor r cs = Inl e \<Longrightarrow> \<not> bestCandidate (\<lambda>_. True) r cs a"
  using getAvailable_some [of "pr_model r" "pr_now r" cs "pr_provider r"]
    freeAuths_set [of a "pr_model r" "pr_now r" cs]
  by (cases "freeAuths (pr_model r) (pr_now r) cs = []") (auto simp: availableFor_def bestCandidate_def)

section \<open>The interface of a selector\<close>

text \<open>
  What the callers of the Go interface \<open>Selector\<close> rely on: a \<open>Pick\<close> returns a best candidate,
  and returns an error only when there is none. \<open>elig\<close> is the candidates the strategy considers.
\<close>

locale selector =
  fixes inv :: "'s \<Rightarrow> bool"
    and pick :: "'s \<Rightarrow> PickRequest \<Rightarrow> Auth option list \<Rightarrow> 's \<times> (PickError + Auth)"
    and elig :: "Auth option \<Rightarrow> bool"
  assumes pick_inv: "inv s \<Longrightarrow> inv (fst (pick s r cs))"
    and pick_best: "inv s \<Longrightarrow> snd (pick s r cs) = Inr a \<Longrightarrow> bestCandidate elig r cs a"
    and pick_total: "inv s \<Longrightarrow> snd (pick s r cs) = Inl e \<Longrightarrow> \<not> bestCandidate elig r cs a"
begin

lemma pick_iff: "inv s \<Longrightarrow> (\<exists>a. snd (pick s r cs) = Inr a) \<longleftrightarrow> (\<exists>a. bestCandidate elig r cs a)"
  using pick_best pick_total by (cases "snd (pick s r cs)") fastforce+

lemma pick_unblocked:
  "inv s \<Longrightarrow> snd (pick s r cs) = Inr a \<Longrightarrow>
    Some a \<in> set cs \<and> \<not> fst (isAuthBlockedForModel (Some a) (pr_model r) (pr_now r))"
  using pick_best by (auto simp: bestCandidate_def)

end

text \<open>A sequence of requests served by one selector.\<close>

fun runPicks :: "('s \<Rightarrow> PickRequest \<Rightarrow> Auth option list \<Rightarrow> 's \<times> (PickError + Auth)) \<Rightarrow> 's
    \<Rightarrow> (PickRequest \<times> Auth option list) list \<Rightarrow> 's \<times> (PickError + Auth) list" where
  "runPicks pick s [] = (s, [])"
| "runPicks pick s ((r, cs) # reqs) =
     (let (s', res) = pick s r cs; (s'', rest) = runPicks pick s' reqs in (s'', res # rest))"

context selector
begin

lemma run_inv: "inv s \<Longrightarrow> inv (fst (runPicks pick s reqs))"
proof (induction reqs arbitrary: s)
  case (Cons q reqs)
  then show ?case
    using pick_inv [of s "fst q" "snd q"] by (cases q) (simp add: split_def Let_def)
qed simp

lemma run_best:
  "inv s \<Longrightarrow> list_all2 (\<lambda>(r, cs) res. case res of
      Inr a \<Rightarrow> bestCandidate elig r cs a
    | Inl _ \<Rightarrow> \<not> (\<exists>a. bestCandidate elig r cs a)) reqs (snd (runPicks pick s reqs))"
proof (induction reqs arbitrary: s)
  case (Cons q reqs)
  obtain r cs where q: "q = (r, cs)" by force
  have "inv (fst (pick s r cs))" using Cons.prems by (rule pick_inv)
  from Cons.IH [OF this] Cons.prems pick_best [of s r cs] pick_total [of s r cs] show ?case
    by (auto simp: q split_def Let_def split: sum.splits)
qed simp

end

section \<open>The three strategies implement the interface\<close>

definition cursors_ok :: "RoundRobinState \<Rightarrow> bool" where
  "cursors_ok s \<longleftrightarrow> (\<forall>(k, v)\<in>set (rr_cursors s). 0 \<le> v)"

text \<open>The key, the cursor map after the capacity check, and the index of a round-robin pick.\<close>

definition rrKey :: "PickRequest \<Rightarrow> string" where
  "rrKey r = pr_provider r @ '':'' @ canonicalModelKey (pr_model r)"

definition rrCursors :: "RoundRobinState \<Rightarrow> PickRequest \<Rightarrow> (string, int) gomap" where
  "rrCursors s r = ensureCursorKey (rrKey r) (if rr_maxKeys s \<le> 0 then 4096 else rr_maxKeys s) (rr_cursors s)"

definition rrIndex :: "RoundRobinState \<Rightarrow> PickRequest \<Rightarrow> int" where
  "rrIndex s r = (let i = m_get0 0 (rrCursors s r) (rrKey r) in if i \<ge> 2147483640 then 0 else i)"

lemma rr_unfold:
  "roundRobinPick s r cs = (case availableFor r cs of
      Inl e \<Rightarrow> (s, Inl e)
    | Inr av \<Rightarrow> (s\<lparr>rr_cursors := m_put (rrKey r) (rrIndex s r + 1) (rrCursors s r)\<rparr>,
        Inr (av ! nat (go_mod (rrIndex s r) (int (length av))))))"
  by (simp add: roundRobinPick_def Let_def rrIndex_def rrCursors_def rrKey_def split: sum.splits)

lemma rrCursors_ok: "cursors_ok s \<Longrightarrow> \<forall>(k, v)\<in>set (rrCursors s r). 0 \<le> v"
  by (auto simp: cursors_ok_def rrCursors_def ensureCursorKey_def)

lemma rrIndex_range: "cursors_ok s \<Longrightarrow> 0 \<le> rrIndex s r \<and> rrIndex s r < 2147483640"
  using rrCursors_ok [of s r]
  by (fastforce simp: rrIndex_def Let_def m_get0_def dest: map_of_SomeD split: option.splits)

lemma rr_inv:
  assumes "cursors_ok s"
  shows "cursors_ok (fst (roundRobinPick s r cs))"
proof -
  have "0 \<le> v" if "(k, v) \<in> set (m_put (rrKey r) (rrIndex s r + 1) (rrCursors s r))" for k v
    using m_put_subset [of "rrKey r" "rrIndex s r + 1" "rrCursors s r"] that
      rrIndex_range [OF assms, of r] rrCursors_ok [OF assms, of r] by auto
  with assms show ?thesis
    by (auto simp: rr_unfold cursors_ok_def split: sum.splits)
qed

lemma nth_go_mod: "0 \<le> i \<Longrightarrow> av \<noteq> [] \<Longrightarrow> av ! nat (go_mod i (int (length av))) \<in> set av"
  by (intro nth_mem) (simp add: go_mod_nonneg nat_less_iff)

lemma rr_in:
  assumes "cursors_ok s" "snd (roundRobinPick s r cs) = Inr a"
  shows "\<exists>av. availableFor r cs = Inr av \<and> a \<in> set av"
proof (cases "availableFor r cs")
  case (Inr av)
  have "av ! nat (go_mod (rrIndex s r) (int (length av))) \<in> set av"
    using rrIndex_range [OF assms(1), of r] availableFor_Inr(1) [OF Inr] by (intro nth_go_mod) auto
  with assms(2) Inr show ?thesis by (simp add: rr_unfold)
qed (use assms(2) in \<open>simp add: rr_unfold\<close>)

interpretation rr: selector cursors_ok roundRobinPick "\<lambda>_. True"
proof
  fix s r cs a e
  assume ok: "cursors_ok s"
  then show "cursors_ok (fst (roundRobinPick s r cs))" by (rule rr_inv)
  show "bestCandidate (\<lambda>_. True) r cs a" if "snd (roundRobinPick s r cs) = Inr a"
    using rr_in [OF ok that] availableFor_Inr(2) by blast
  show "\<not> bestCandidate (\<lambda>_. True) r cs a" if "snd (roundRobinPick s r cs) = Inl e"
    using that availableFor_Inl by (auto simp: rr_unfold split: sum.splits)
qed

interpretation ff: selector "\<lambda>_. True" fillFirstPick "\<lambda>_. True"
proof
  fix s r cs a e
  show "bestCandidate (\<lambda>_. True) r cs a" if "snd (fillFirstPick s r cs) = Inr a"
    using that availableFor_Inr by (auto simp: fillFirstPick_def split: sum.splits)
  show "\<not> bestCandidate (\<lambda>_. True) r cs a" if "snd (fillFirstPick s r cs) = Inl e"
    using that availableFor_Inl by (auto simp: fillFirstPick_def split: sum.splits)
qed simp

abbreviation positiveWeight :: "Auth option \<Rightarrow> bool" where
  "positiveWeight c \<equiv> 0 < authWeight c"

lemma best_positive:
  "bestCandidate (\<lambda>_. True) r (positiveWeightAuths cs) a \<longleftrightarrow> bestCandidate positiveWeight r cs a"
  by (auto simp: bestCandidate_def positiveWeightAuths_def)

lemma smooth_picked:
  assumes "\<forall>a\<in>set av. positiveWeight (Some a)" "av \<noteq> []" "sl_picked l = None"
  shows "\<exists>p\<in>set av. sl_picked (foldl smoothStep l av) = Some p"
  using assms(1,2)
proof (induction av rule: rev_induct)
  case (snoc a av)
  then show ?case using assms(3) by (cases "av = []") (auto simp: smoothStep_def Let_def)
qed simp

lemma pickSmooth_some:
  "\<forall>a\<in>set av. positiveWeight (Some a) \<Longrightarrow> av \<noteq> [] \<Longrightarrow>
    \<exists>p\<in>set av. snd (pickSmoothWeightedAuth av current) = Some p"
  using smooth_picked [of av "\<lparr>sl_active = [], sl_current = current, sl_picked = None,
            sl_pickedCurrent = 0, sl_totalWeight = 0\<rparr>"]
  by (fastforce simp: pickSmoothWeightedAuth_def Let_def)

lemma weighted_result:
  "case availableFor r (positiveWeightAuths cs) of
     Inl e \<Rightarrow> snd (weightedPick s r cs) = Inl e
   | Inr av \<Rightarrow> \<exists>a\<in>set av. snd (weightedPick s r cs) = Inr a"
proof (cases "availableFor r (positiveWeightAuths cs)")
  case (Inr av)
  have "\<forall>a\<in>set av. positiveWeight (Some a)" "av \<noteq> []"
    using availableFor_Inr [OF Inr] by (auto simp: bestCandidate_def positiveWeightAuths_def)
  note some = pickSmooth_some [OF this]
  let ?w = "pickSmoothWeightedAuth av (the (sw_current (prepare
      (m_get0 \<lparr>sw_current = None, sw_weights = []\<rparr>
        (if m_get (wr_states s) (pr_provider r @ '':'' @ canonicalModelKey (weightedSelectorStateModel r)) = None
            \<and> int (length (wr_states s)) \<ge> (if wr_maxKeys s \<le> 0 then 4096 else wr_maxKeys s)
         then [] else wr_states s)
        (pr_provider r @ '':'' @ canonicalModelKey (weightedSelectorStateModel r)))
      (authWeightVector av))))"
  have "snd (weightedPick s r cs) = (case snd ?w of
      None \<Rightarrow> Inl (ErrAuthUnavailable ''no auth available with positive weight'') | Some a \<Rightarrow> Inr a)"
    unfolding weightedPick_def Inr sum.case Let_def split_def by (simp only: split: option.split) simp
  moreover obtain p where "p \<in> set av" "snd ?w = Some p" using some by blast
  ultimately show ?thesis by (simp add: Inr)
qed (simp add: weightedPick_def)

interpretation wrr: selector "\<lambda>_. True" weightedPick positiveWeight
proof
  fix s :: WeightedState and r cs a e
  show "bestCandidate positiveWeight r cs a" if "snd (weightedPick s r cs) = Inr a"
    using that weighted_result [of s r cs] availableFor_Inr(2)
    by (auto simp flip: best_positive split: sum.splits)
  show "\<not> bestCandidate positiveWeight r cs a" if "snd (weightedPick s r cs) = Inl e"
    using that weighted_result [of s r cs] availableFor_Inl
    by (auto simp flip: best_positive split: sum.splits)
qed simp

section \<open>Rotation\<close>

lemma rr_rotate:
  assumes "\<forall>(r, cs)\<in>set reqs. rrKey r = key \<and> availableFor r cs = Inr av" "av \<noteq> []"
    and "m_get (rr_cursors s) key = Some (int c)" "c + length reqs \<le> 2147483640"
  shows "snd (runPicks roundRobinPick s reqs) =
    map (\<lambda>i. Inr (av ! ((c + i) mod length av))) [0..<length reqs]"
  using assms
proof (induction reqs arbitrary: s c)
  case Nil
  then show ?case by simp
next
  case (Cons q reqs)
  obtain r cs where q: "q = (r, cs)" by force
  have r: "rrKey r = key" "availableFor r cs = Inr av" using Cons.prems(1) q by auto
  have c: "rrCursors s r = rr_cursors s"
    using Cons.prems(3) r(1) by (simp add: rrCursors_def ensureCursorKey_def)
  then have i: "rrIndex s r = int c"
    using Cons.prems(3,4) r(1) by (simp add: rrIndex_def m_get0_def)
  let ?s = "s\<lparr>rr_cursors := m_put key (int (Suc c)) (rr_cursors s)\<rparr>"
  have first: "roundRobinPick s r cs = (?s, Inr (av ! (c mod length av)))"
    using Cons.prems(2) by (simp add: rr_unfold r i c go_mod_nonneg add.commute flip: zmod_int)
  have "snd (runPicks roundRobinPick ?s reqs) =
      map (\<lambda>i. Inr (av ! ((Suc c + i) mod length av))) [0..<length reqs]"
    using Cons.prems by (intro Cons.IH) auto
  then show ?case
    by (simp add: q first split_def Let_def map_upt_Suc del: upt_Suc)
qed

lemma rounds_rotate:
  "av \<noteq> [] \<Longrightarrow> map (\<lambda>i. av ! ((c + i) mod length av)) [0..<k * length av] = concat (replicate k (rotate c av))"
proof (induction k)
  case (Suc k)
  have "[0..<Suc k * length av] = [0..<k * length av] @ map (\<lambda>i. i + k * length av) [0..<length av]"
    using upt_add_eq_append [of 0 "k * length av" "length av"]
    by (simp add: map_add_upt add.commute)
  moreover have "map (\<lambda>i. av ! ((c + (i + k * length av)) mod length av)) [0..<length av] = rotate c av"
    by (rule nth_equalityI) (simp_all add: nth_rotate add.assoc [symmetric])
  ultimately show ?case using Suc by (simp add: replicate_append_same [symmetric] o_def)
qed simp

lemma count_rounds: "count_list (concat (replicate k xs)) a = k * count_list xs a"
  by (induction k) (simp_all add: count_list_append)

lemma count_rotate: "count_list (rotate c xs) a = count_list xs a"
proof (induction c)
  case (Suc c)
  have "count_list (rotate1 ys) a = count_list ys a" for ys
    by (cases ys) (simp_all add: count_list_append)
  with Suc show ?case by simp
qed simp

section \<open>Properties\<close>

text \<open>
  C20: every selector serves every request of a sequence as its interface promises, from its
  initial state: it returns a candidate that is not blocked for the model and has the greatest
  priority among those (for the weighted one, among those of positive weight), and an error only
  when there is no such candidate. A failing or cooling credential is never returned, and a usable
  one is never overlooked.
\<close>

theorem selectors_serve_best:
  "list_all2 (\<lambda>(r, cs) res. case res of
       Inr a \<Rightarrow> bestCandidate (\<lambda>_. True) r cs a
     | Inl _ \<Rightarrow> \<not> (\<exists>a. bestCandidate (\<lambda>_. True) r cs a))
     reqs (snd (runPicks roundRobinPick \<lparr>rr_cursors = [], rr_maxKeys = k\<rparr> reqs))
   \<and> list_all2 (\<lambda>(r, cs) res. case res of
       Inr a \<Rightarrow> bestCandidate (\<lambda>_. True) r cs a
     | Inl _ \<Rightarrow> \<not> (\<exists>a. bestCandidate (\<lambda>_. True) r cs a))
     reqs (snd (runPicks fillFirstPick () reqs))
   \<and> list_all2 (\<lambda>(r, cs) res. case res of
       Inr a \<Rightarrow> bestCandidate (\<lambda>c. 0 < authWeight c) r cs a
     | Inl _ \<Rightarrow> \<not> (\<exists>a. bestCandidate (\<lambda>c. 0 < authWeight c) r cs a))
     reqs (snd (runPicks weightedPick \<lparr>wr_states = [], wr_maxKeys = k\<rparr> reqs))"
  by (intro conjI rr.run_best ff.run_best wrr.run_best) (simp_all add: cursors_ok_def)

text \<open>
  round robin is fair: while the available candidates of a key stay the same, consecutive
  picks walk through them in order, so $k$ full rounds serve every candidate exactly $k$ times,
  wherever the cursor started.
\<close>

theorem roundRobin_fair:
  assumes "\<forall>(r, cs)\<in>set reqs. rrKey r = key \<and> availableFor r cs = Inr av"
    and "m_get (rr_cursors s) key = Some (int c)" "c + length reqs \<le> 2147483640"
    and "length reqs = k * length av" "distinct av" "a \<in> set av"
  shows "snd (runPicks roundRobinPick s reqs) = map Inr (concat (replicate k (rotate c av)))
    \<and> count_list (snd (runPicks roundRobinPick s reqs)) (Inr a) = k"
proof -
  have ne: "av \<noteq> []" using assms(6) by auto
  have "snd (runPicks roundRobinPick s reqs) = map (\<lambda>i. Inr (av ! ((c + i) mod length av))) [0..<length reqs]"
    using assms(1) ne assms(2,3) by (rule rr_rotate)
  also have "\<dots> = map Inr (map (\<lambda>i. av ! ((c + i) mod length av)) [0..<k * length av])"
    using assms(4) by simp
  also have "\<dots> = map Inr (concat (replicate k (rotate c av)))"
    using rounds_rotate [OF ne] by (simp only:)
  finally have l: "snd (runPicks roundRobinPick s reqs) = map Inr (concat (replicate k (rotate c av)))" .
  have "count_list (map (Inr :: Auth \<Rightarrow> PickError + Auth) xs) (Inr a) = count_list xs a" for xs
    by (induction xs) auto
  moreover have "count_list av a = 1" using assms(5,6) by (simp add: count_list_eq_length_filter distinct_length_filter Int_absorb1)
  ultimately show ?thesis by (simp add: l count_rounds count_rotate)
qed

abbreviation sample_request :: PickRequest where
  "sample_request \<equiv> \<lparr>pr_provider = ''codex'', pr_model = ''m'', pr_now = 5, pr_websocket = False,
     pr_routeModel = None, pr_primaryID = [], pr_fallbackID = []\<rparr>"

lemma roundRobin_fair_witness:
  "snd (runPicks roundRobinPick \<lparr>rr_cursors = [(''codex:m'', 1)], rr_maxKeys = 0\<rparr>
     (replicate 2 (sample_request, [Some (new_auth ''a'' ''codex''), Some (new_auth ''b'' ''codex'')])))
   = [Inr (new_auth ''b'' ''codex''), Inr (new_auth ''a'' ''codex'')]"
proof -
  let ?a = "new_auth ''a'' ''codex''" and ?b = "new_auth ''b'' ''codex''"
  let ?reqs = "replicate 2 (sample_request, [Some ?a, Some ?b])"
  have k: "rrKey sample_request = ''codex:m''" by code_simp
  have av: "availableFor sample_request [Some ?a, Some ?b] = Inr [?a, ?b]" by code_simp
  have "?a \<noteq> ?b" by (simp add: new_auth_def)
  then show ?thesis
    using roundRobin_fair [of ?reqs "''codex:m''" "[?a, ?b]"
      "\<lparr>rr_cursors = [(''codex:m'', 1)], rr_maxKeys = 0\<rparr>" 1 1 ?a] k av by simp
qed

end
