(* ===== verification/SmoothWeighted.thy ===== *)
theory SmoothWeighted
  imports Selector
begin

text \<open>
  Exactness of the smooth weighted round robin of \<open>backend/sdk/cliproxy/auth/selector.go\<close>
  (\<open>pickSmoothWeightedAuth\<close>): the running counters obey a conservation law, stay far from the
  bounds where the saturating addition would clip them, and return to zero after as many picks as
  the weights add up to.
\<close>

section \<open>One pick\<close>

abbreviation weightOf :: "Auth \<Rightarrow> int" where "weightOf a \<equiv> authWeight (Some a)"

abbreviation curOf :: "(string, int) gomap \<Rightarrow> Auth \<Rightarrow> int" where
  "curOf current a \<equiv> m_get0 0 current (a_ID a)"

text \<open>A pool the algorithm runs on: distinct identities, positive weights, at most a million of
  them (so the counters stay below $10^{18}$).\<close>

definition weighted_pool :: "Auth list \<Rightarrow> bool" where
  "weighted_pool av \<longleftrightarrow> av \<noteq> [] \<and> distinct (map a_ID av) \<and> (\<forall>a\<in>set av. 0 < weightOf a)
     \<and> length av \<le> 1000000"

definition totalWeight :: "Auth list \<Rightarrow> int" where
  "totalWeight av = (\<Sum>a\<in>set av. weightOf a)"

lemma saturatingAdd_exact:
  "in64 v \<Longrightarrow> in64 d \<Longrightarrow> in64 (v + d) \<Longrightarrow> saturatingAddInt64 v d = v + d"
proof -
  assume v: "in64 v" "in64 d" "in64 (v + d)"
  then have "0 < d \<Longrightarrow> wrap64 (max_int64 - d) = max_int64 - d" "d < 0 \<Longrightarrow> wrap64 (min_int64 - d) = min_int64 - d"
    by (auto simp: in64_def intro!: wrap64_id)
  with v show ?thesis by (auto simp: saturatingAddInt64_def wrap64_id in64_def)
qed

lemma weightOf_le: "weightOf a \<le> 1000000" "0 \<le> weightOf a"
  using authWeight_range by auto

lemma m_get0_filter:
  "m_ok m \<Longrightarrow> m_get0 0 (filter (\<lambda>(k, _). k \<in> K) m) k = (if k \<in> K then m_get0 0 m k else 0)"
  using m_get_filter [of m "\<lambda>k _. k \<in> K" k] by (auto simp: m_get0_def split: option.splits)

definition loop_ok :: "(string, int) gomap \<Rightarrow> Auth list \<Rightarrow> SmoothLoop \<Rightarrow> bool" where
  "loop_ok current p l \<longleftrightarrow>
     set (sl_active l) = a_ID ` set p \<and> m_ok (sl_current l)
     \<and> (\<forall>a\<in>set p. curOf (sl_current l) a = curOf current a + weightOf a)
     \<and> (\<forall>k. k \<notin> a_ID ` set p \<longrightarrow> m_get0 0 (sl_current l) k = m_get0 0 current k)
     \<and> sl_totalWeight l = (\<Sum>a\<in>set p. weightOf a)
     \<and> (if p = [] then sl_picked l = None
        else \<exists>b\<in>set p. sl_picked l = Some b \<and> sl_pickedCurrent l = curOf current b + weightOf b
          \<and> (\<forall>a\<in>set p. curOf current a + weightOf a \<le> curOf current b + weightOf b))"

lemma loop_ok_step:
  assumes "loop_ok current p l" "distinct (map a_ID (p @ [a]))" "0 < weightOf a"
    and "\<bar>curOf current a\<bar> \<le> 1000000000000000000" "length p \<le> 1000000"
  shows "loop_ok current (p @ [a]) (smoothStep l a)"
proof -
  have new: "a_ID a \<notin> a_ID ` set p" and a: "a \<notin> set p" using assms(2) by auto
  note l = assms(1) [unfolded loop_ok_def]
  have w: "weightOf a \<le> 1000000" by (rule weightOf_le)
  have cur: "saturatingAddInt64 (curOf (sl_current l) a) (weightOf a) = curOf current a + weightOf a"
    using l new assms(3,4) w by (subst saturatingAdd_exact) (auto simp: in64_def)
  have tot: "(\<Sum>b\<in>set p. weightOf b) \<le> 1000000 * 1000000" "0 \<le> (\<Sum>b\<in>set p. weightOf b)"
  proof -
    have "(\<Sum>b\<in>set p. weightOf b) \<le> (\<Sum>b\<in>set p. 1000000)" by (intro sum_mono weightOf_le)
    also have "\<dots> \<le> 1000000 * 1000000" using assms(5) card_length [of p] by simp
    finally show "(\<Sum>b\<in>set p. weightOf b) \<le> 1000000 * 1000000" .
    show "0 \<le> (\<Sum>b\<in>set p. weightOf b)" by (intro sum_nonneg weightOf_le)
  qed
  have sat: "saturatingAddInt64 (sl_totalWeight l) (weightOf a) = (\<Sum>b\<in>set (p @ [a]). weightOf b)"
    using l tot w assms(3) a by (subst saturatingAdd_exact) (auto simp: in64_def)
  define better where "better \<longleftrightarrow> sl_picked l = None \<or> curOf current a + weightOf a > sl_pickedCurrent l"
  have st: "smoothStep l a = \<lparr>sl_active = a_ID a # sl_active l,
      sl_current = m_put (a_ID a) (curOf current a + weightOf a) (sl_current l),
      sl_picked = (if better then Some a else sl_picked l),
      sl_pickedCurrent = (if better then curOf current a + weightOf a else sl_pickedCurrent l),
      sl_totalWeight = (\<Sum>b\<in>set (p @ [a]). weightOf b)\<rparr>"
    using assms(3) by (simp add: smoothStep_def Let_def cur sat better_def)
  have pick: "\<exists>b\<in>set (p @ [a]). sl_picked (smoothStep l a) = Some b
      \<and> sl_pickedCurrent (smoothStep l a) = curOf current b + weightOf b
      \<and> (\<forall>c\<in>set (p @ [a]). curOf current c + weightOf c \<le> curOf current b + weightOf b)"
  proof (cases "p = []")
    case True
    with l have "better" by (simp add: better_def)
    with True show ?thesis by (simp add: st)
  next
    case False
    with l obtain b where b: "b \<in> set p" "sl_picked l = Some b" "sl_pickedCurrent l = curOf current b + weightOf b"
        "\<forall>c\<in>set p. curOf current c + weightOf c \<le> curOf current b + weightOf b" by auto
    show ?thesis
    proof (cases better)
      case True
      with b have "\<forall>c\<in>set p. curOf current c + weightOf c \<le> curOf current a + weightOf a"
        by (auto simp: better_def intro: order_trans less_imp_le)
      with True show ?thesis by (intro bexI [of _ a]) (simp_all add: st)
    next
      case no: False
      with b show ?thesis by (intro bexI [of _ b]) (auto simp: st better_def)
    qed
  qed
  have eq: "m_get0 0 (sl_current (smoothStep l a)) k =
      (if k = a_ID a then curOf current a + weightOf a else m_get0 0 (sl_current l) k)" for k
    by (simp add: st)
  have others: "\<forall>b\<in>set p. a_ID b \<noteq> a_ID a" using new by (metis imageI)
  show ?thesis
    unfolding loop_ok_def
    using l pick others by (simp add: eq) (auto simp: st m_ok_put)
qed

lemma loop_ok_all:
  assumes "distinct (map a_ID p)" "\<forall>a\<in>set p. 0 < weightOf a \<and> \<bar>curOf current a\<bar> \<le> 1000000000000000000"
    and "length p \<le> 1000000" "m_ok current"
  shows "loop_ok current p (foldl smoothStep \<lparr>sl_active = [], sl_current = current, sl_picked = None,
            sl_pickedCurrent = 0, sl_totalWeight = 0\<rparr> p)"
  using assms(1-3)
proof (induction p rule: rev_induct)
  case Nil
  then show ?case using assms(4) by (simp add: loop_ok_def)
next
  case (snoc a p)
  then show ?case by (simp del: distinct_append map_append) (intro loop_ok_step; simp)
qed

lemma pool_sum_bounds:
  assumes "weighted_pool av"
  shows "0 < totalWeight av" "totalWeight av \<le> 1000000000000"
proof -
  obtain a where a: "a \<in> set av" "0 < weightOf a" using assms by (cases av) (auto simp: weighted_pool_def)
  have "0 \<le> (\<Sum>b\<in>set av - {a}. weightOf b)" by (intro sum_nonneg weightOf_le)
  with a show "0 < totalWeight av" by (simp add: totalWeight_def sum.remove [of "set av" a])
  have "totalWeight av \<le> (\<Sum>b\<in>set av. 1000000)" unfolding totalWeight_def by (intro sum_mono weightOf_le)
  also have "\<dots> \<le> 1000000000000" using assms card_length [of av] by (simp add: weighted_pool_def)
  finally show "totalWeight av \<le> 1000000000000" .
qed

lemma pickSmooth_step:
  assumes "weighted_pool av" "m_ok current" "\<forall>a\<in>set av. \<bar>curOf current a\<bar> \<le> 1000000000000000000"
  shows "\<exists>b\<in>set av. snd (pickSmoothWeightedAuth av current) = Some b
    \<and> m_ok (fst (pickSmoothWeightedAuth av current))
    \<and> (\<forall>a\<in>set av. curOf (fst (pickSmoothWeightedAuth av current)) a =
         curOf current a + weightOf a - (if a = b then totalWeight av else 0))
    \<and> (\<forall>a\<in>set av. curOf current a + weightOf a \<le> curOf current b + weightOf b)"
proof -
  let ?l = "foldl smoothStep \<lparr>sl_active = [], sl_current = current, sl_picked = None,
            sl_pickedCurrent = 0, sl_totalWeight = 0\<rparr> av"
  have pool: "av \<noteq> []" "distinct (map a_ID av)" "\<forall>a\<in>set av. 0 < weightOf a" "length av \<le> 1000000"
    using assms(1) by (auto simp: weighted_pool_def)
  have "loop_ok current av ?l" using pool assms by (intro loop_ok_all) auto
  then obtain b where l: "set (sl_active ?l) = a_ID ` set av" "m_ok (sl_current ?l)"
      "\<forall>a\<in>set av. curOf (sl_current ?l) a = curOf current a + weightOf a"
      "sl_totalWeight ?l = totalWeight av" "b \<in> set av" "sl_picked ?l = Some b"
      "\<forall>a\<in>set av. curOf current a + weightOf a \<le> curOf current b + weightOf b"
    using pool(1) by (auto simp: loop_ok_def totalWeight_def)
  let ?c = "filter (\<lambda>(authID, _). authID \<in> set (sl_active ?l)) (sl_current ?l)"
  have c: "curOf ?c a = curOf current a + weightOf a" if "a \<in> set av" for a
    using that l(1-3) by (simp add: m_get0_filter)
  have sat: "saturatingAddInt64 (curOf ?c b) (- totalWeight av) = curOf current b + weightOf b - totalWeight av"
    using pool_sum_bounds [OF assms(1)] c [OF l(5)] bspec [OF assms(3) l(5)] weightOf_le [of b]
    by (subst saturatingAdd_exact) (auto simp: in64_def)
  have res: "pickSmoothWeightedAuth av current =
      (m_put (a_ID b) (curOf current b + weightOf b - totalWeight av) ?c, Some b)"
    using sat l(4,6) by (simp add: pickSmoothWeightedAuth_def Let_def)
  have inj: "a = b" if "a \<in> set av" "a_ID a = a_ID b" for a
    using that l(5) pool(2) by (auto simp: distinct_map dest: inj_onD)
  have "curOf (fst (pickSmoothWeightedAuth av current)) a =
      curOf current a + weightOf a - (if a = b then totalWeight av else 0)" if "a \<in> set av" for a
    using that c [OF that] inj [OF that] by (auto simp: res)
  moreover have "m_ok (fst (pickSmoothWeightedAuth av current))"
    using l(2) by (simp add: res m_ok_put m_ok_filter)
  ultimately show ?thesis using l(5,7) by (intro bexI [of _ b]) (auto simp: res)
qed

section \<open>Many picks\<close>

text \<open>\<open>n\<close> consecutive picks from the same pool: the picked credentials, oldest first.\<close>

fun smoothRun :: "nat \<Rightarrow> Auth list \<Rightarrow> (string, int) gomap \<Rightarrow> (string, int) gomap \<times> Auth option list" where
  "smoothRun 0 av current = (current, [])"
| "smoothRun (Suc n) av current =
     (let (current', picks) = smoothRun n av current;
          (current'', picked) = pickSmoothWeightedAuth av current'
      in (current'', picks @ [picked]))"

definition picksOf :: "nat \<Rightarrow> Auth list \<Rightarrow> Auth \<Rightarrow> int" where
  "picksOf n av a = int (count_list (snd (smoothRun n av [])) (Some a))"

text \<open>The conservation law and the lower bound.\<close>

definition run_inv :: "nat \<Rightarrow> Auth list \<Rightarrow> bool" where
  "run_inv n av \<longleftrightarrow> m_ok (fst (smoothRun n av []))
     \<and> (\<forall>a\<in>set av. curOf (fst (smoothRun n av [])) a =
          int n * weightOf a - totalWeight av * picksOf n av a
        \<and> - totalWeight av < curOf (fst (smoothRun n av [])) a)
     \<and> (\<Sum>a\<in>set av. picksOf n av a) = int n"

lemma run_sum_zero:
  assumes "run_inv n av"
  shows "(\<Sum>a\<in>set av. curOf (fst (smoothRun n av [])) a) = 0"
proof -
  have "(\<Sum>a\<in>set av. curOf (fst (smoothRun n av [])) a) =
      (\<Sum>a\<in>set av. int n * weightOf a - totalWeight av * picksOf n av a)"
    using assms by (intro sum.cong) (auto simp: run_inv_def)
  also have "\<dots> = int n * totalWeight av - totalWeight av * (\<Sum>a\<in>set av. picksOf n av a)"
    by (simp add: sum_subtractf sum_distrib_left totalWeight_def)
  finally show ?thesis using assms by (simp add: run_inv_def)
qed

lemma run_upper:
  assumes "run_inv n av" "weighted_pool av" "a \<in> set av"
  shows "curOf (fst (smoothRun n av [])) a \<le> 1000000000000000000"
proof -
  let ?c = "curOf (fst (smoothRun n av []))"
  have W: "totalWeight av \<le> 1000000000000" "0 < totalWeight av" by (simp_all add: pool_sum_bounds assms)
  have "?c a = - (\<Sum>b\<in>set av - {a}. ?c b)"
    using run_sum_zero [OF assms(1)] assms(3) by (simp add: sum.remove [of "set av" a])
  also have "\<dots> \<le> (\<Sum>b\<in>set av - {a}. totalWeight av)"
  proof -
    have "(\<Sum>b\<in>set av - {a}. - totalWeight av) \<le> (\<Sum>b\<in>set av - {a}. ?c b)"
      using assms(1) by (intro sum_mono) (auto simp: run_inv_def less_imp_le)
    then show ?thesis by (simp add: sum_negf)
  qed
  also have "\<dots> = int (card (set av - {a})) * totalWeight av" by simp
  also have "\<dots> \<le> 1000000 * 1000000000000"
  proof (intro mult_mono)
    have "card (set av - {a}) \<le> length av" using card_length [of av] by (meson card_Diff1_le order_trans)
    then show "int (card (set av - {a})) \<le> 1000000" using assms(2) by (simp add: weighted_pool_def)
  qed (use W in auto)
  finally show ?thesis by simp
qed

lemma run_inv_all:
  assumes "weighted_pool av"
  shows "run_inv n av"
proof (induction n)
  case 0
  then show ?case using pool_sum_bounds [OF assms] by (simp add: run_inv_def picksOf_def)
next
  case (Suc n)
  let ?c = "fst (smoothRun n av [])"
  let ?W = "totalWeight av"
  have W: "0 < ?W" "?W \<le> 1000000000000" by (simp_all add: pool_sum_bounds assms)
  have b: "\<forall>a\<in>set av. \<bar>curOf ?c a\<bar> \<le> 1000000000000000000"
    using Suc run_upper [OF Suc assms] W by (fastforce simp: run_inv_def abs_le_iff)
  have "m_ok ?c" using Suc by (simp add: run_inv_def)
  from pickSmooth_step [OF assms this b] obtain p where p: "p \<in> set av"
      "snd (pickSmoothWeightedAuth av ?c) = Some p" "m_ok (fst (pickSmoothWeightedAuth av ?c))"
      and cur: "\<forall>a\<in>set av. curOf (fst (pickSmoothWeightedAuth av ?c)) a =
         curOf ?c a + weightOf a - (if a = p then ?W else 0)"
      and top: "\<forall>a\<in>set av. curOf ?c a + weightOf a \<le> curOf ?c p + weightOf p" by auto
  have run: "smoothRun (Suc n) av [] = (fst (pickSmoothWeightedAuth av ?c), snd (smoothRun n av []) @ [Some p])"
    using p(2) by (simp add: split_def Let_def)
  have picks: "picksOf (Suc n) av a = picksOf n av a + (if a = p then 1 else 0)" for a
    by (simp only: picksOf_def run snd_conv count_list_append) simp
  have pos: "0 < curOf ?c p + weightOf p"
  proof (rule ccontr)
    assume "\<not> 0 < curOf ?c p + weightOf p"
    then have "\<forall>a\<in>set av. curOf ?c a + weightOf a \<le> 0" using top by (auto intro: order_trans)
    then have "(\<Sum>a\<in>set av. curOf ?c a + weightOf a) \<le> 0" by (intro sum_nonpos) auto
    then show False using run_sum_zero [OF Suc] W by (simp add: sum.distrib totalWeight_def)
  qed
  have "(\<Sum>a\<in>set av. picksOf (Suc n) av a) = int (Suc n)"
    using Suc p(1) by (simp add: picks sum.distrib run_inv_def)
  moreover have "curOf (fst (smoothRun (Suc n) av [])) a =
        int (Suc n) * weightOf a - ?W * picksOf (Suc n) av a
      \<and> - ?W < curOf (fst (smoothRun (Suc n) av [])) a" if "a \<in> set av" for a
  proof -
    have "curOf ?c a = int n * weightOf a - ?W * picksOf n av a" "- ?W < curOf ?c a"
      using Suc that by (auto simp: run_inv_def)
    with cur that pos W weightOf_le(2) [of a] show ?thesis
      by (simp only: run fst_conv picks) (auto simp: algebra_simps)
  qed
  moreover have "m_ok (fst (smoothRun (Suc n) av []))" using p(3) by (simp only: run fst_conv)
  ultimately show ?case by (simp only: run_inv_def) blast
qed

section \<open>Property\<close>

text \<open>
  C30: the smooth weighted round robin is exactly proportional and never drifts. From fresh
  counters, after any number $n$ of picks each credential's counter is $n$ times its weight minus
  the total weight times its picks, no saturation ever occurring, and never as low as minus the
  total weight; after $k$ times the total weight picks every credential has been picked exactly
  $k$ times its weight, and every counter is zero again.
\<close>

theorem smooth_weighted_exact:
  assumes "weighted_pool av" "a \<in> set av"
  shows "curOf (fst (smoothRun n av [])) a = int n * weightOf a - totalWeight av * picksOf n av a
    \<and> - totalWeight av < curOf (fst (smoothRun n av [])) a
    \<and> picksOf (k * nat (totalWeight av)) av a = int k * weightOf a
    \<and> curOf (fst (smoothRun (k * nat (totalWeight av)) av [])) a = 0"
proof -
  let ?N = "k * nat (totalWeight av)" and ?W = "totalWeight av"
  let ?c = "curOf (fst (smoothRun ?N av []))"
  note inv = run_inv_all [OF assms(1)]
  have W: "0 < ?W" by (simp add: pool_sum_bounds assms)
  have c: "?c b = ?W * (int k * weightOf b - picksOf ?N av b)" "- ?W < ?c b" if "b \<in> set av" for b
    using inv [of ?N] that W by (auto simp: run_inv_def algebra_simps)
  have "0 \<le> int k * weightOf b - picksOf ?N av b" if "b \<in> set av" for b
  proof -
    have "?W * (-1) < ?W * (int k * weightOf b - picksOf ?N av b)" using c [OF that] by simp
    then have "-1 < int k * weightOf b - picksOf ?N av b" using W by (simp only: mult_less_cancel_left_pos)
    then show ?thesis by simp
  qed
  then have "0 \<le> ?c b" if "b \<in> set av" for b using c(1) [OF that] W that by simp
  with run_sum_zero [OF inv [of ?N]] assms(2) have z: "?c a = 0"
    by (simp add: sum_nonneg_eq_0_iff)
  with c(1) [OF assms(2)] W have "picksOf ?N av a = int k * weightOf a" by simp
  moreover have "curOf (fst (smoothRun n av [])) a = int n * weightOf a - ?W * picksOf n av a"
    "- ?W < curOf (fst (smoothRun n av [])) a"
    using inv [of n] assms(2) by (auto simp: run_inv_def)
  ultimately show ?thesis using z by blast
qed

lemma smooth_weighted_exact_witness:
  "map (\<lambda>p. map_option a_ID p) (snd (smoothRun 3 [new_auth ''a'' ''codex'',
     (new_auth ''b'' ''codex'')\<lparr>a_Attributes := [(''weight'', ''2'')]\<rparr>] []))
     = [Some ''b'', Some ''a'', Some ''b'']
   \<and> picksOf 3 [new_auth ''a'' ''codex'',
     (new_auth ''b'' ''codex'')\<lparr>a_Attributes := [(''weight'', ''2'')]\<rparr>]
     ((new_auth ''b'' ''codex'')\<lparr>a_Attributes := [(''weight'', ''2'')]\<rparr>) = 2"
proof -
  let ?a = "new_auth ''a'' ''codex''" and ?b = "(new_auth ''b'' ''codex'')\<lparr>a_Attributes := [(''weight'', ''2'')]\<rparr>"
  have w: "weightOf ?a = 1" "weightOf ?b = 2" by code_simp+
  have d: "a_ID ?a \<noteq> a_ID ?b" by (simp add: new_auth_def)
  have ne: "?a \<noteq> ?b" using d by metis
  have pool: "weighted_pool [?a, ?b]" unfolding weighted_pool_def using w d by auto
  have "totalWeight [?a, ?b] = 3" unfolding totalWeight_def using w ne by simp
  with smooth_weighted_exact [OF pool, of ?b 0 1] w(2) have "picksOf 3 [?a, ?b] ?b = 2" by simp
  moreover have "map (\<lambda>p. map_option a_ID p) (snd (smoothRun 3 [?a, ?b] [])) = [Some ''b'', Some ''a'', Some ''b'']"
    by code_simp
  ultimately show ?thesis by simp
qed

end
