(* ===== verification/SessionCache.thy ===== *)
theory SessionCache
  imports Prelude
begin

text \<open>
  The session cache of \<open>backend/sdk/cliproxy/auth/session_cache.go\<close>: a map from session
  identifiers to credentials with a time to live, in which the identifiers of one logical session
  form an alias group. \<open>NewSessionCache\<close> is \<open>newSessionCache\<close>; each operation takes the clock
  readings it makes. The channel that stops the background sweep is not part of the state.
\<close>

section \<open>State and helpers\<close>

record sessionEntry =
  se_authID :: string
  se_expiresAt :: gotime
  se_aliases :: "string list"

record SessionCache =
  sc_entries :: "(string, sessionEntry) gomap"
  sc_ttl :: goduration

abbreviation maxStableSessionAliases :: nat where "maxStableSessionAliases \<equiv> 64"

definition newSessionCache :: "goduration \<Rightarrow> SessionCache" where
  "newSessionCache ttl = \<lparr>sc_entries = [], sc_ttl = (if ttl \<le> 0 then 30 * minute else ttl)\<rparr>"

text \<open>The closure \<open>add\<close> of \<open>mergeSessionAliases\<close>; its \<open>seen\<close> map holds the collected aliases.\<close>

definition addAlias :: "string list \<Rightarrow> string \<Rightarrow> string list" where
  "addAlias aliases alias =
     (if alias = [] then aliases else if alias \<in> set aliases then aliases else aliases @ [alias])"

definition mergeSessionAliases :: "string list \<Rightarrow> string list \<Rightarrow> string list" where
  "mergeSessionAliases existing candidates = foldl addAlias (foldl addAlias [] existing) candidates"

fun compactLoop :: "(string \<Rightarrow> bool) \<Rightarrow> bool \<Rightarrow> nat \<Rightarrow> string list \<Rightarrow> string list" where
  "compactLoop isPromptCacheAlias hasPromptCacheKey stableAliases [] = []"
| "compactLoop isPromptCacheAlias hasPromptCacheKey stableAliases (alias # aliases) =
     (if isPromptCacheAlias alias
      then if hasPromptCacheKey then compactLoop isPromptCacheAlias hasPromptCacheKey stableAliases aliases
           else alias # compactLoop isPromptCacheAlias True stableAliases aliases
      else if stableAliases \<ge> maxStableSessionAliases
           then compactLoop isPromptCacheAlias hasPromptCacheKey stableAliases aliases
           else alias # compactLoop isPromptCacheAlias hasPromptCacheKey (stableAliases + 1) aliases)"

definition compactSessionAliasesWith :: "string list \<Rightarrow> (string \<Rightarrow> bool) \<Rightarrow> string list" where
  "compactSessionAliasesWith aliases isPromptCacheAlias = compactLoop isPromptCacheAlias False 0 aliases"

definition isLocalPromptCacheSessionAlias :: "string \<Rightarrow> bool" where
  "isLocalPromptCacheSessionAlias alias \<longleftrightarrow>
     (if has_prefix alias ''pck:'' then True
      else case cut_at ''::'' alias of
             Some (_, sessionAndModel) \<Rightarrow> has_prefix sessionAndModel ''pck:''
           | None \<Rightarrow> False)"

definition compactSessionAliases :: "string list \<Rightarrow> string list" where
  "compactSessionAliases aliases = compactSessionAliasesWith aliases isLocalPromptCacheSessionAlias"

definition compactHomeSessionAliases :: "string list \<Rightarrow> string list" where
  "compactHomeSessionAliases aliases = compactSessionAliasesWith aliases (\<lambda>alias. has_prefix alias ''pck:'')"

definition equalSessionAliases :: "string list \<Rightarrow> string list \<Rightarrow> bool" where
  "equalSessionAliases left right \<longleftrightarrow>
     length left = length right \<and> list_all (\<lambda>(l, r). l = r) (zip left right)"

definition removeAliasGroupLocked ::
    "sessionEntry \<Rightarrow> (string, sessionEntry) gomap \<Rightarrow> (string, sessionEntry) gomap" where
  "removeAliasGroupLocked entry entries =
     foldl (\<lambda>entries alias. case m_get entries alias of
         None \<Rightarrow> entries
       | Some current \<Rightarrow>
           if se_authID current \<noteq> se_authID entry \<or> se_expiresAt current \<noteq> se_expiresAt entry
             \<or> \<not> equalSessionAliases (se_aliases current) (se_aliases entry)
           then entries else m_del alias entries)
       entries (se_aliases entry)"

definition replaceAliasGroupsLocked :: "string \<Rightarrow> gotime \<Rightarrow> string list \<Rightarrow> sessionEntry list
    \<Rightarrow> (string, sessionEntry) gomap \<Rightarrow> (string, sessionEntry) gomap" where
  "replaceAliasGroupsLocked authID expiresAt aliases previousGroups entries =
     (let entries = foldl (\<lambda>es previous. removeAliasGroupLocked previous es) entries previousGroups;
          entry = \<lparr>se_authID = authID, se_expiresAt = expiresAt, se_aliases = aliases\<rparr>
      in foldl (\<lambda>es alias. m_put alias entry es) entries aliases)"

section \<open>Operations\<close>

text \<open>\<open>Get\<close> reads the clock under the read lock, and again under the write lock when the entry it
  found has expired; a result \<open>None\<close> is \<open>"", false\<close>.\<close>

definition sc_Get :: "gotime \<Rightarrow> gotime \<Rightarrow> string \<Rightarrow> SessionCache \<Rightarrow> SessionCache \<times> string option" where
  "sc_Get now now' sessionID c =
     (if sessionID = [] then (c, None)
      else case m_get (sc_entries c) sessionID of
        None \<Rightarrow> (c, None)
      | Some entry \<Rightarrow>
          if now < se_expiresAt entry then (c, Some (se_authID entry))
          else if now' < se_expiresAt entry then (c, Some (se_authID entry))
          else (c\<lparr>sc_entries := removeAliasGroupLocked entry (sc_entries c)\<rparr>, None))"

definition sc_GetAndRefresh :: "gotime \<Rightarrow> string \<Rightarrow> SessionCache \<Rightarrow> SessionCache \<times> string option" where
  "sc_GetAndRefresh now sessionID c =
     (if sessionID = [] then (c, None)
      else case m_get (sc_entries c) sessionID of
        None \<Rightarrow> (c, None)
      | Some entry \<Rightarrow>
          if \<not> now < se_expiresAt entry
          then (c\<lparr>sc_entries := removeAliasGroupLocked entry (sc_entries c)\<rparr>, None)
          else (let aliases = compactSessionAliases (mergeSessionAliases [sessionID] (se_aliases entry))
                in (c\<lparr>sc_entries := replaceAliasGroupsLocked (se_authID entry) (now + sc_ttl c) aliases [entry]
                      (sc_entries c)\<rparr>,
                    Some (se_authID entry))))"

text \<open>The loop of \<open>SetAliases\<close> over the identifiers: the entries, the live groups found, and the
  aliases collected.\<close>

definition setAliasesStep :: "gotime \<Rightarrow> (string, sessionEntry) gomap \<times> sessionEntry list \<times> string list
    \<Rightarrow> string \<Rightarrow> (string, sessionEntry) gomap \<times> sessionEntry list \<times> string list" where
  "setAliasesStep now acc sessionID =
     (let (entries, previousGroups, aliases) = acc
      in case m_get entries sessionID of
           None \<Rightarrow> acc
         | Some entry \<Rightarrow>
             if \<not> now < se_expiresAt entry
             then (removeAliasGroupLocked entry entries, previousGroups, aliases)
             else (entries, previousGroups @ [entry], mergeSessionAliases aliases (se_aliases entry)))"

definition sc_SetAliases :: "gotime \<Rightarrow> string \<Rightarrow> string list \<Rightarrow> SessionCache \<Rightarrow> SessionCache" where
  "sc_SetAliases now authID sessionIDs c =
     (if authID = [] then c
      else let (entries, previousGroups, aliases) =
                 foldl (setAliasesStep now) (sc_entries c, [], mergeSessionAliases [] sessionIDs) sessionIDs;
               aliases = compactSessionAliases aliases
           in if aliases = [] then c\<lparr>sc_entries := entries\<rparr>
              else c\<lparr>sc_entries :=
                replaceAliasGroupsLocked authID (now + sc_ttl c) aliases previousGroups entries\<rparr>)"

definition sc_Set :: "gotime \<Rightarrow> string \<Rightarrow> string \<Rightarrow> SessionCache \<Rightarrow> SessionCache" where
  "sc_Set now sessionID authID c = sc_SetAliases now authID [sessionID] c"

text \<open>The loop body of \<open>Invalidate\<close> over the other aliases of the removed entry.\<close>

definition invalidateStep :: "string \<Rightarrow> sessionEntry \<Rightarrow> (string, sessionEntry) gomap \<Rightarrow> string
    \<Rightarrow> (string, sessionEntry) gomap" where
  "invalidateStep sessionID entry entries alias =
     (if alias = sessionID then entries
      else case m_get entries alias of
        None \<Rightarrow> entries
      | Some current \<Rightarrow>
          if se_authID current \<noteq> se_authID entry then entries
          else m_put alias
            (current\<lparr>se_aliases := filter (\<lambda>candidate. candidate \<noteq> sessionID) (se_aliases current)\<rparr>) entries)"

definition sc_Invalidate :: "string \<Rightarrow> SessionCache \<Rightarrow> SessionCache" where
  "sc_Invalidate sessionID c =
     (if sessionID = [] then c
      else let entries = m_del sessionID (sc_entries c)
           in c\<lparr>sc_entries := (case m_get (sc_entries c) sessionID of
                  None \<Rightarrow> entries
                | Some entry \<Rightarrow> foldl (invalidateStep sessionID entry) entries (se_aliases entry))\<rparr>)"

definition sc_InvalidateAuth :: "string \<Rightarrow> SessionCache \<Rightarrow> SessionCache" where
  "sc_InvalidateAuth authID c =
     (if authID = [] then c
      else c\<lparr>sc_entries := filter (\<lambda>(_, entry). se_authID entry \<noteq> authID) (sc_entries c)\<rparr>)"

definition sc_cleanup :: "gotime \<Rightarrow> SessionCache \<Rightarrow> SessionCache" where
  "sc_cleanup now c =
     c\<lparr>sc_entries := filter (\<lambda>(_, entry). now < se_expiresAt entry) (sc_entries c)\<rparr>"

section \<open>Alias lists\<close>

lemma addAlias_set: "set (addAlias as a) = set as \<union> ({a} - {[]})"
  by (auto simp: addAlias_def)

lemma foldl_addAlias:
  "set (foldl addAlias as cs) = set as \<union> (set cs - {[]})"
  "distinct as \<Longrightarrow> distinct (foldl addAlias as cs)"
  "prefix as (foldl addAlias as cs)"
proof (induction cs arbitrary: as)
  case (Cons c cs)
  { case 1 show ?case by (simp add: Cons(1) addAlias_set) auto }
  { case 2
    then have "distinct (addAlias as c)" by (simp add: addAlias_def)
    then show ?case by (simp add: Cons(2)) }
  { case 3
    have "prefix as (addAlias as c)" by (simp add: addAlias_def)
    then show ?case using Cons(3) [of "addAlias as c"] prefix_order.trans by auto }
qed simp_all

lemma foldl_addAlias_id:
  "distinct (as @ cs) \<Longrightarrow> [] \<notin> set cs \<Longrightarrow> foldl addAlias as cs = as @ cs"
  by (induction cs arbitrary: as) (auto simp: addAlias_def)

lemma merge_set [simp]: "set (mergeSessionAliases ex cs) = (set ex \<union> set cs) - {[]}"
  by (auto simp: mergeSessionAliases_def foldl_addAlias)

lemma merge_distinct [simp]: "distinct (mergeSessionAliases ex cs)"
  by (simp add: mergeSessionAliases_def foldl_addAlias)

lemma merge_prefix: "distinct ex \<Longrightarrow> [] \<notin> set ex \<Longrightarrow> prefix ex (mergeSessionAliases ex cs)"
  using foldl_addAlias(3) [of ex cs] by (simp add: mergeSessionAliases_def foldl_addAlias_id)

lemma merge_Nil_hd: "k \<noteq> [] \<Longrightarrow> prefix [k] (mergeSessionAliases [] (k # ks))"
  using foldl_addAlias(3) [of "[k]" ks] by (simp add: mergeSessionAliases_def addAlias_def)

text \<open>An alias list within the limits of compaction.\<close>

definition within_limits :: "string list \<Rightarrow> bool" where
  "within_limits as \<longleftrightarrow> length (filter (\<lambda>a. \<not> isLocalPromptCacheSessionAlias a) as) \<le> maxStableSessionAliases
     \<and> length (filter isLocalPromptCacheSessionAlias as) \<le> 1"

lemma compactLoop_id:
  "length (filter (\<lambda>a. \<not> P a) as) + n \<le> 64 \<Longrightarrow> length (filter P as) + (if h then 1 else 0) \<le> 1 \<Longrightarrow>
    compactLoop P h n as = as"
  by (induction as arbitrary: h n) (auto split: if_splits)

lemma compactLoop_limits:
  "n \<le> 64 \<Longrightarrow> length (filter (\<lambda>a. \<not> P a) (compactLoop P h n as)) + n \<le> 64
    \<and> length (filter P (compactLoop P h n as)) + (if h then 1 else 0) \<le> 1"
  by (induction P h n as rule: compactLoop.induct) (auto split: if_splits)

lemma compactLoop_sub: "set (compactLoop P h n as) \<subseteq> set as"
  by (induction as arbitrary: h n) auto

lemma compactLoop_distinct: "distinct as \<Longrightarrow> distinct (compactLoop P h n as)"
  using compactLoop_sub by (induction as arbitrary: h n) fastforce+

lemmas compact_defs = compactSessionAliases_def compactSessionAliasesWith_def

lemma compact_within [simp]: "within_limits (compactSessionAliases as)"
  using compactLoop_limits [of 0 isLocalPromptCacheSessionAlias False as]
  by (simp add: compact_defs within_limits_def)

lemma compact_id: "within_limits as \<Longrightarrow> compactSessionAliases as = as"
  by (simp add: compact_defs within_limits_def compactLoop_id)

lemma compact_sub: "set (compactSessionAliases as) \<subseteq> set as"
  by (simp add: compact_defs compactLoop_sub)

lemma compact_distinct: "distinct as \<Longrightarrow> distinct (compactSessionAliases as)"
  by (simp add: compact_defs compactLoop_distinct)

lemma compact_hd: "prefix [k] as \<Longrightarrow> prefix [k] (compactSessionAliases as)"
  by (cases as) (simp_all add: compact_defs)

lemma within_limits_length: "within_limits as \<Longrightarrow> length as \<le> 65"
  using sum_length_filter_compl [of isLocalPromptCacheSessionAlias as] by (simp add: within_limits_def)

lemma within_limits_perm:
  "distinct as \<Longrightarrow> distinct bs \<Longrightarrow> set as = set bs \<Longrightarrow> within_limits as \<Longrightarrow> within_limits bs"
  unfolding within_limits_def by (metis distinct_card distinct_filter set_filter)

section \<open>The alias-group invariant\<close>

text \<open>Every alias of an entry is bound to that same entry, so the entries partition the identifiers
  into the groups of the logical sessions; a group holds no empty and no repeated identifier and
  stays within the limits.\<close>

definition entry_ok :: "sessionEntry \<Rightarrow> bool" where
  "entry_ok e \<longleftrightarrow> distinct (se_aliases e) \<and> [] \<notin> set (se_aliases e) \<and> within_limits (se_aliases e)"

definition groups_ok :: "(string, sessionEntry) gomap \<Rightarrow> bool" where
  "groups_ok es \<longleftrightarrow> m_ok es \<and> (\<forall>k e. m_get es k = Some e \<longrightarrow>
     entry_ok e \<and> k \<in> set (se_aliases e) \<and> (\<forall>a\<in>set (se_aliases e). m_get es a = Some e))"

definition cache_ok :: "SessionCache \<Rightarrow> bool" where
  "cache_ok c \<longleftrightarrow> groups_ok (sc_entries c) \<and> 0 < sc_ttl c"

lemma groups_okD:
  "groups_ok es \<Longrightarrow> m_get es k = Some e \<Longrightarrow> k \<in> set (se_aliases e)"
  "groups_ok es \<Longrightarrow> m_get es k = Some e \<Longrightarrow> entry_ok e"
  "groups_ok es \<Longrightarrow> m_get es k = Some e \<Longrightarrow> a \<in> set (se_aliases e) \<Longrightarrow> m_get es a = Some e"
  "groups_ok es \<Longrightarrow> m_ok es"
  unfolding groups_ok_def by blast+

lemma equalSessionAliases_iff [simp]: "equalSessionAliases l r \<longleftrightarrow> l = r"
  unfolding equalSessionAliases_def
  by (induction l r rule: list_induct2') auto

lemma groups_okI:
  assumes "m_ok es" "\<And>k e. m_get es k = Some e \<Longrightarrow> entry_ok e"
    and "\<And>k e. m_get es k = Some e \<Longrightarrow> k \<in> set (se_aliases e)"
    and "\<And>k e a. m_get es k = Some e \<Longrightarrow> a \<in> set (se_aliases e) \<Longrightarrow> m_get es a = Some e"
  shows "groups_ok es"
  using assms unfolding groups_ok_def by blast

lemma remove_match:
  fixes cur e :: sessionEntry
  shows "(se_authID cur \<noteq> se_authID e \<or> se_expiresAt cur \<noteq> se_expiresAt e \<or> se_aliases cur \<noteq> se_aliases e)
    \<longleftrightarrow> cur \<noteq> e"
  by (cases cur; cases e) auto

lemma remove_get:
  "m_get (removeAliasGroupLocked e es) k =
    (if k \<in> set (se_aliases e) \<and> m_get es k = Some e then None else m_get es k)"
proof -
  have "m_get (foldl (\<lambda>es a. case m_get es a of None \<Rightarrow> es | Some cur \<Rightarrow> if cur \<noteq> e then es else m_del a es) es as) k =
    (if k \<in> set as \<and> m_get es k = Some e then None else m_get es k)" for as
    by (induction as arbitrary: es) (auto split: option.splits)
  then show ?thesis by (simp only: removeAliasGroupLocked_def equalSessionAliases_iff remove_match)
qed

lemma remove_m_ok: "m_ok es \<Longrightarrow> m_ok (removeAliasGroupLocked e es)"
  unfolding removeAliasGroupLocked_def
  by (rule foldl_invariant) (auto intro: m_ok_del split: option.splits)

lemma remove_get_ok:
  "groups_ok es \<Longrightarrow> m_get (removeAliasGroupLocked e es) k =
    (if m_get es k = Some e then None else m_get es k)"
  using groups_okD(1) by (auto simp: remove_get)

lemma remove_ok [wf_intros]:
  assumes es: "groups_ok es"
  shows "groups_ok (removeAliasGroupLocked e es)"
proof -
  have g: "m_get es k = Some d \<and> d \<noteq> e" if "m_get (removeAliasGroupLocked e es) k = Some d" for k d
    using that by (auto simp: remove_get_ok [OF es] split: if_splits)
  show ?thesis
  proof (rule groups_okI)
    show "m_ok (removeAliasGroupLocked e es)" by (intro remove_m_ok groups_okD(4) [OF es])
    fix k d a
    assume d: "m_get (removeAliasGroupLocked e es) k = Some d"
    note gd = g [OF d]
    show "entry_ok d" "k \<in> set (se_aliases d)" using groups_okD(1,2) [OF es] gd by blast+
    show "m_get (removeAliasGroupLocked e es) a = Some d" if "a \<in> set (se_aliases d)"
      using groups_okD(3) [OF es conjunct1 [OF gd] that] gd by (simp add: remove_get_ok [OF es])
  qed
qed

lemma removeAll_get:
  "groups_ok es \<Longrightarrow> groups_ok (foldl (\<lambda>es p. removeAliasGroupLocked p es) es ps)
    \<and> m_get (foldl (\<lambda>es p. removeAliasGroupLocked p es) es ps) k =
        (if m_get es k \<in> Some ` set ps then None else m_get es k)"
  by (induction ps arbitrary: es) (auto simp: remove_ok remove_get_ok)

lemma putAll_get:
  "m_get (foldl (\<lambda>es a. m_put a e es) es as) k = (if k \<in> set as then Some e else m_get es k)"
  by (induction as arbitrary: es) auto

lemma putAll_m_ok: "m_ok es \<Longrightarrow> m_ok (foldl (\<lambda>es a. m_put a e es) es as)"
  by (rule foldl_invariant) (auto intro: m_ok_put)

lemma replace_get:
  "groups_ok es \<Longrightarrow> m_get (replaceAliasGroupsLocked a t as ps es) k =
    (if k \<in> set as then Some \<lparr>se_authID = a, se_expiresAt = t, se_aliases = as\<rparr>
     else if m_get es k \<in> Some ` set ps then None else m_get es k)"
  by (simp add: replaceAliasGroupsLocked_def Let_def putAll_get removeAll_get)

text \<open>Replacing groups keeps the invariant when the new aliases belong to no other group.\<close>

lemma replace_ok:
  assumes es: "groups_ok es" and as: "distinct as" "[] \<notin> set as" "within_limits as"
    and own: "\<And>k e. k \<in> set as \<Longrightarrow> m_get es k = Some e \<Longrightarrow> e \<in> set ps"
  shows "groups_ok (replaceAliasGroupsLocked a t as ps es)"
proof -
  have "m_ok (replaceAliasGroupsLocked a t as ps es)"
    using removeAll_get [OF es] by (simp add: replaceAliasGroupsLocked_def Let_def putAll_m_ok groups_okD(4))
  moreover have "k \<notin> set as" if "m_get es b = Some e" "e \<notin> set ps" "k \<in> set (se_aliases e)" for k b e
    using own [of k e] groups_okD(3) [OF es that(1,3)] that(2) by auto
  moreover have "entry_ok \<lparr>se_authID = a, se_expiresAt = t, se_aliases = as\<rparr>"
    using as by (simp add: entry_ok_def)
  ultimately show ?thesis
    by (intro groups_okI)
      (auto simp: replace_get [OF es] dest: groups_okD(1-3) [OF es] split: if_splits)
qed

section \<open>What the operations do to the map\<close>

text \<open>The state of the loop of \<open>SetAliases\<close> after the identifiers \<open>done\<close>, from the entries \<open>es\<close>.\<close>

definition set_loop_ok :: "gotime \<Rightarrow> (string, sessionEntry) gomap \<Rightarrow> string list \<Rightarrow> string list
    \<Rightarrow> (string, sessionEntry) gomap \<times> sessionEntry list \<times> string list \<Rightarrow> bool" where
  "set_loop_ok now es start seen acc \<longleftrightarrow>
     (let (es', prev, as) = acc in groups_ok es' \<and> distinct as \<and> [] \<notin> set as \<and> prefix start as
      \<and> (\<forall>k. m_get es' k = (case m_get es k of None \<Rightarrow> None | Some e \<Rightarrow>
             if (\<exists>s\<in>set seen. m_get es s = Some e) \<and> \<not> now < se_expiresAt e then None else Some e))
      \<and> set prev = {e. \<exists>s\<in>set seen. m_get es s = Some e \<and> now < se_expiresAt e}
      \<and> set as = set start \<union> (\<Union>e\<in>set prev. set (se_aliases e)))"

lemma set_loop_step:
  assumes es: "groups_ok es" and l: "set_loop_ok now es start seen acc"
  shows "set_loop_ok now es start (seen @ [s]) (setAliasesStep now acc s)"
proof -
  obtain es' prev as where acc: "acc = (es', prev, as)" by (cases acc)
  have ok: "groups_ok es'" "distinct as" "[] \<notin> set as" "prefix start as"
    and get: "\<And>k. m_get es' k = (case m_get es k of None \<Rightarrow> None | Some e \<Rightarrow>
             if (\<exists>s\<in>set seen. m_get es s = Some e) \<and> \<not> now < se_expiresAt e then None else Some e)"
    and prev: "set prev = {e. \<exists>s\<in>set seen. m_get es s = Some e \<and> now < se_expiresAt e}"
    and as: "set as = set start \<union> (\<Union>e\<in>set prev. set (se_aliases e))"
    using l by (auto simp: set_loop_ok_def acc)
  show ?thesis
  proof (cases "m_get es' s")
    case None
    then have "m_get es s = Some e \<Longrightarrow> (\<exists>s\<in>set seen. m_get es s = Some e) \<and> \<not> now < se_expiresAt e" for e
      using get [of s] by (simp split: if_splits)
    then have "(\<exists>x\<in>set (seen @ [s]). m_get es x = Some e) \<longleftrightarrow> (\<exists>x\<in>set seen. m_get es x = Some e)"
      "(\<exists>x\<in>set (seen @ [s]). m_get es x = Some e \<and> now < se_expiresAt e) \<longleftrightarrow>
        (\<exists>x\<in>set seen. m_get es x = Some e \<and> now < se_expiresAt e)" for e
      by auto
    moreover have "setAliasesStep now acc s = acc" using None by (simp add: acc setAliasesStep_def)
    ultimately show ?thesis using l by (simp only: set_loop_ok_def)
  next
    case (Some e)
    then have e: "m_get es s = Some e" using get [of s] by (auto split: option.splits if_splits)
    show ?thesis
    proof (cases "now < se_expiresAt e")
      case True
      have "prefix start (mergeSessionAliases as (se_aliases e))"
        using ok merge_prefix prefix_order.trans by blast
      moreover have "[] \<notin> set (se_aliases e)" using groups_okD(2) [OF es e] by (simp add: entry_ok_def)
      ultimately show ?thesis
        using ok True e as
        by (simp add: set_loop_ok_def acc setAliasesStep_def Some get prev) (auto split: option.splits)
    next
      case False
      then show ?thesis
        using ok e as prev
        by (simp add: set_loop_ok_def acc setAliasesStep_def Some remove_ok remove_get_ok get)
          (auto split: option.splits)
    qed
  qed
qed

lemma set_loop:
  assumes es: "groups_ok es" "distinct start" "[] \<notin> set start"
  shows "set_loop_ok now es start ss (foldl (setAliasesStep now) (es, [], start) ss)"
proof (induction ss rule: rev_induct)
  case Nil
  then show ?case using assms by (simp add: set_loop_ok_def split: option.splits)
next
  case (snoc s ss)
  with set_loop_step [OF es(1)] show ?case by simp
qed

text \<open>The groups an operation on the identifiers \<open>ss\<close> touches.\<close>

definition touched :: "(string, sessionEntry) gomap \<Rightarrow> string list \<Rightarrow> sessionEntry set" where
  "touched es ss = {e. \<exists>s\<in>set ss. m_get es s = Some e}"

definition live_aliases :: "gotime \<Rightarrow> (string, sessionEntry) gomap \<Rightarrow> string list \<Rightarrow> string set" where
  "live_aliases now es ss = (\<Union>e\<in>{e\<in>touched es ss. now < se_expiresAt e}. set (se_aliases e))"

lemma SetAliases_spec:
  assumes c: "cache_ok c" and a: "a \<noteq> []" and s: "s \<noteq> []"
  shows "\<exists>full as. as = compactSessionAliases full \<and> distinct full \<and> prefix [s] as
      \<and> set full = (set (s # ss) - {[]}) \<union> live_aliases now (sc_entries c) (s # ss)
      \<and> cache_ok (sc_SetAliases now a (s # ss) c) \<and> sc_ttl (sc_SetAliases now a (s # ss) c) = sc_ttl c
      \<and> (\<forall>k. m_get (sc_entries (sc_SetAliases now a (s # ss) c)) k =
           (if k \<in> set as then Some \<lparr>se_authID = a, se_expiresAt = now + sc_ttl c, se_aliases = as\<rparr>
            else if m_get (sc_entries c) k \<in> Some ` touched (sc_entries c) (s # ss) then None
            else m_get (sc_entries c) k))"
proof -
  let ?es = "sc_entries c" and ?st = "mergeSessionAliases [] (s # ss)"
  have es: "groups_ok ?es" using c by (simp add: cache_ok_def)
  obtain es' prev as where r: "foldl (setAliasesStep now) (?es, [], ?st) (s # ss) = (es', prev, as)"
    by (metis prod_cases3)
  have loop: "set_loop_ok now ?es ?st (s # ss) (es', prev, as)"
    using set_loop [OF es, of ?st now "s # ss"] r by simp
  have es': "groups_ok es'" "distinct as" "[] \<notin> set as" "prefix ?st as"
    and get: "\<And>k. m_get es' k = (case m_get ?es k of None \<Rightarrow> None | Some e \<Rightarrow>
             if (\<exists>x\<in>set (s # ss). m_get ?es x = Some e) \<and> \<not> now < se_expiresAt e then None else Some e)"
    and prev: "set prev = {e. \<exists>x\<in>set (s # ss). m_get ?es x = Some e \<and> now < se_expiresAt e}"
    and as: "set as = set ?st \<union> (\<Union>e\<in>set prev. set (se_aliases e))"
    using loop by (auto simp only: set_loop_ok_def Let_def prod.case)
  let ?as = "compactSessionAliases as"
  have p: "prefix [s] ?as" using merge_Nil_hd [OF s] es'(4) prefix_order.trans compact_hd by blast
  then have ne: "?as \<noteq> []" by auto
  have res: "sc_SetAliases now a (s # ss) c =
      c\<lparr>sc_entries := replaceAliasGroupsLocked a (now + sc_ttl c) ?as prev es'\<rparr>"
    unfolding sc_SetAliases_def r Let_def using a ne by simp
  have own: "e \<in> set prev" if k: "k \<in> set ?as" and g: "m_get es' k = Some e" for k e
  proof -
    have "k \<in> set as" using k compact_sub by blast
    then consider "k \<in> set (s # ss)" | e' where "e' \<in> set prev" "k \<in> set (se_aliases e')"
      unfolding as merge_set by auto
    then show ?thesis
    proof cases
      case 1
      then show ?thesis
        using get [of k] g unfolding prev by (cases "m_get (sc_entries c) k") (auto split: if_splits)
    next
      case 2
      then obtain x where "m_get ?es x = Some e'" using prev by blast
      from groups_okD(3) [OF es this 2(2)] have "m_get ?es k = Some e'" .
      with 2 get [of k] g show ?thesis by (auto split: if_splits)
    qed
  qed
  have "groups_ok (replaceAliasGroupsLocked a (now + sc_ttl c) ?as prev es')"
    using es' own compact_sub [of as] by (intro replace_ok) (auto intro: compact_distinct)
  moreover have "(if m_get es' k \<in> Some ` set prev then None else m_get es' k) =
      (if m_get ?es k \<in> Some ` touched ?es (s # ss) then None else m_get ?es k)" for k
    by (cases "m_get ?es k") (auto simp: get prev touched_def split: if_splits)
  moreover have "set as = (set (s # ss) - {[]}) \<union> live_aliases now ?es (s # ss)"
    unfolding as prev live_aliases_def touched_def merge_set by auto
  ultimately show ?thesis
    using p es'(2) c
    by (intro exI [of _ as] exI [of _ ?as]) (simp add: res cache_ok_def replace_get [OF es'(1)])
qed

lemma GetAndRefresh_spec:
  assumes c: "cache_ok c" and s: "s \<noteq> []"
  shows "cache_ok (fst (sc_GetAndRefresh now s c)) \<and> sc_ttl (fst (sc_GetAndRefresh now s c)) = sc_ttl c
    \<and> (case m_get (sc_entries c) s of
         None \<Rightarrow> sc_GetAndRefresh now s c = (c, None)
       | Some e \<Rightarrow>
           if now < se_expiresAt e
           then snd (sc_GetAndRefresh now s c) = Some (se_authID e)
             \<and> (\<exists>as. set as = set (se_aliases e) \<and> (\<forall>k. m_get (sc_entries (fst (sc_GetAndRefresh now s c))) k =
               (if k \<in> set (se_aliases e) then Some (e\<lparr>se_expiresAt := now + sc_ttl c, se_aliases := as\<rparr>)
                else m_get (sc_entries c) k)))
           else snd (sc_GetAndRefresh now s c) = None
             \<and> (\<forall>k. m_get (sc_entries (fst (sc_GetAndRefresh now s c))) k =
               (if m_get (sc_entries c) k = Some e then None else m_get (sc_entries c) k)))"
proof (cases "m_get (sc_entries c) s")
  case None
  then show ?thesis using c by (simp add: sc_GetAndRefresh_def)
next
  case (Some e)
  have es: "groups_ok (sc_entries c)" using c by (simp add: cache_ok_def)
  have e: "entry_ok e" "s \<in> set (se_aliases e)" using groups_okD(1,2) [OF es Some] by auto
  let ?m = "mergeSessionAliases [s] (se_aliases e)"
  have m: "set ?m = set (se_aliases e)" using e s by (auto simp: entry_ok_def)
  have "within_limits ?m"
    by (rule within_limits_perm [of "se_aliases e"]) (use e m in \<open>simp_all only: entry_ok_def merge_distinct\<close>)
  then have cm: "compactSessionAliases ?m = ?m" by (rule compact_id)
  show ?thesis
  proof (cases "now < se_expiresAt e")
    case True
    let ?r = "replaceAliasGroupsLocked (se_authID e) (now + sc_ttl c) ?m [e] (sc_entries c)"
    have r: "sc_GetAndRefresh now s c = (c\<lparr>sc_entries := ?r\<rparr>, Some (se_authID e))"
      using True s Some cm by (simp add: sc_GetAndRefresh_def)
    have "groups_ok ?r"
    proof (rule replace_ok [OF es])
      show "[] \<notin> set ?m" by simp
      show "d \<in> set [e]" if "k \<in> set ?m" "m_get (sc_entries c) k = Some d" for k d
        using groups_okD(3) [OF es Some, of k] that unfolding m by simp
    qed (simp_all add: \<open>within_limits ?m\<close>)
    moreover have "m_get ?r k = (if k \<in> set (se_aliases e) then Some (e\<lparr>se_expiresAt := now + sc_ttl c, se_aliases := ?m\<rparr>)
                else m_get (sc_entries c) k)" for k
      using groups_okD(1) [OF es, of k e] unfolding replace_get [OF es] m by auto
    ultimately show ?thesis
      using True m c by (simp add: r Some cache_ok_def del: merge_set) blast
  next
    case False
    then show ?thesis using c s Some es
      by (simp add: sc_GetAndRefresh_def cache_ok_def remove_ok remove_get_ok)
  qed
qed

lemma Get_spec:
  assumes c: "cache_ok c"
  shows "cache_ok (fst (sc_Get now now' s c)) \<and> sc_ttl (fst (sc_Get now now' s c)) = sc_ttl c
    \<and> (\<forall>k. m_get (sc_entries (fst (sc_Get now now' s c))) k =
         (case m_get (sc_entries c) k of None \<Rightarrow> None | Some e \<Rightarrow>
            if s \<noteq> [] \<and> m_get (sc_entries c) s = Some e \<and> \<not> now < se_expiresAt e \<and> \<not> now' < se_expiresAt e
            then None else Some e))"
proof -
  have "groups_ok (sc_entries c)" using c by (simp add: cache_ok_def)
  with c show ?thesis
    by (auto simp: sc_Get_def cache_ok_def remove_ok remove_get_ok split: option.splits)
qed

lemma filter_groups_ok:
  assumes es: "groups_ok es"
  shows "groups_ok (filter (\<lambda>(_, e). P e) es)"
proof -
  have get: "m_get (filter (\<lambda>(_, e). P e) es) k = (case m_get es k of None \<Rightarrow> None | Some e \<Rightarrow> if P e then Some e else None)" for k
    using m_get_filter [of es "\<lambda>_. P" k] groups_okD(4) [OF es] by simp
  have g: "m_get es k = Some d \<and> P d" if "m_get (filter (\<lambda>(_, e). P e) es) k = Some d" for k d
    using that by (simp add: get split: option.splits if_splits)
  show ?thesis
  proof (rule groups_okI)
    show "m_ok (filter (\<lambda>(_, e). P e) es)" by (intro m_ok_filter groups_okD(4) [OF es])
    fix k d a
    assume d: "m_get (filter (\<lambda>(_, e). P e) es) k = Some d"
    note gd = g [OF d]
    show "entry_ok d" "k \<in> set (se_aliases d)" using groups_okD(1,2) [OF es] gd by blast+
    show "m_get (filter (\<lambda>(_, e). P e) es) a = Some d" if "a \<in> set (se_aliases d)"
      using groups_okD(3) [OF es conjunct1 [OF gd] that] gd by (simp add: get)
  qed
qed

lemma InvalidateAuth_ok [wf_intros]: "cache_ok c \<Longrightarrow> cache_ok (sc_InvalidateAuth a c)"
  by (simp add: cache_ok_def sc_InvalidateAuth_def filter_groups_ok)

lemma cleanup_ok [wf_intros]: "cache_ok c \<Longrightarrow> cache_ok (sc_cleanup now c)"
  by (simp add: cache_ok_def sc_cleanup_def filter_groups_ok)

lemma invalidate_loop_get:
  assumes "\<And>a. a \<in> set as \<Longrightarrow> a \<noteq> s \<Longrightarrow> m_get es a = Some e" "distinct as"
  shows "m_get (foldl (invalidateStep s e) es as) k =
    (if k \<in> set as \<and> k \<noteq> s then Some (e\<lparr>se_aliases := filter (\<lambda>x. x \<noteq> s) (se_aliases e)\<rparr>) else m_get es k)"
  using assms
proof (induction as arbitrary: es)
  case (Cons a as)
  let ?e = "e\<lparr>se_aliases := filter (\<lambda>x. x \<noteq> s) (se_aliases e)\<rparr>"
  have step: "m_get (invalidateStep s e es a) b = (if b = a \<and> a \<noteq> s then Some ?e else m_get es b)" for b
    using Cons.prems(1) [of a] by (cases "a = s") (simp_all add: invalidateStep_def)
  have "m_get (invalidateStep s e es a) b = Some e" if "b \<in> set as" "b \<noteq> s" for b
    using Cons.prems(1) [of b] Cons.prems(2) that by (auto simp: step)
  with Cons.IH Cons.prems have "m_get (foldl (invalidateStep s e) es (a # as)) k =
    (if k \<in> set as \<and> k \<noteq> s then Some (e\<lparr>se_aliases := filter (\<lambda>x. x \<noteq> s) (se_aliases e)\<rparr>)
     else m_get (invalidateStep s e es a) k)"
    by simp
  then show ?case using Cons.prems(2) unfolding step by auto
qed simp

lemma Invalidate_get:
  assumes c: "cache_ok c" and s: "s \<noteq> []"
  shows "m_get (sc_entries (sc_Invalidate s c)) k =
    (if k = s then None else map_option (\<lambda>e. if m_get (sc_entries c) s = Some e
       then e\<lparr>se_aliases := filter (\<lambda>x. x \<noteq> s) (se_aliases e)\<rparr> else e) (m_get (sc_entries c) k))"
proof (cases "m_get (sc_entries c) s")
  case None
  then show ?thesis using s by (auto simp: sc_Invalidate_def option.map_ident)
next
  case (Some e)
  have es: "groups_ok (sc_entries c)" using c by (simp add: cache_ok_def)
  note g = groups_okD(3) [OF es Some]
  have "m_get (foldl (invalidateStep s e) (m_del s (sc_entries c)) (se_aliases e)) k =
      (if k \<in> set (se_aliases e) \<and> k \<noteq> s then Some (e\<lparr>se_aliases := filter (\<lambda>x. x \<noteq> s) (se_aliases e)\<rparr>)
       else m_get (m_del s (sc_entries c)) k)"
    using g groups_okD(2) [OF es Some] by (intro invalidate_loop_get) (auto simp: entry_ok_def)
  moreover have "m_get (sc_entries c) k = Some e \<longleftrightarrow> k \<in> set (se_aliases e)"
    using g [of k] groups_okD(1) [OF es, of k e] by blast
  ultimately show ?thesis
    unfolding sc_Invalidate_def using s Some
    by (cases "k = s"; cases "k \<in> set (se_aliases e)"; cases "m_get (sc_entries c) k") simp_all
qed

lemma invalidate_loop_m_ok: "m_ok es \<Longrightarrow> m_ok (foldl (invalidateStep s e) es as)"
  by (rule foldl_invariant) (auto simp: invalidateStep_def intro: m_ok_put split: option.splits)

lemma Invalidate_m_ok: "m_ok (sc_entries c) \<Longrightarrow> m_ok (sc_entries (sc_Invalidate s c))"
  by (auto simp: sc_Invalidate_def Let_def intro!: invalidate_loop_m_ok m_ok_del split: option.splits)

lemma filter_within: "within_limits as \<Longrightarrow> within_limits (filter P as)"
proof -
  have "length (filter Q (filter P as)) \<le> length (filter Q as)" for Q
    by (induction as) auto
  then show "within_limits as \<Longrightarrow> within_limits (filter P as)"
    unfolding within_limits_def by (meson order_trans)
qed

lemma Invalidate_ok [wf_intros]:
  assumes c: "cache_ok c"
  shows "cache_ok (sc_Invalidate s c)"
proof (cases "s = []")
  case False
  have es: "groups_ok (sc_entries c)" using c by (simp add: cache_ok_def)
  note get = Invalidate_get [OF c False]
  have "groups_ok (sc_entries (sc_Invalidate s c))"
  proof (rule groups_okI)
    show "m_ok (sc_entries (sc_Invalidate s c))" by (intro Invalidate_m_ok groups_okD(4) [OF es])
    fix k d a
    assume r: "m_get (sc_entries (sc_Invalidate s c)) k = Some d"
    then have k: "k \<noteq> s" by (auto simp: get)
    with r obtain e where e: "m_get (sc_entries c) k = Some e"
      and d: "d = (if m_get (sc_entries c) s = Some e
        then e\<lparr>se_aliases := filter (\<lambda>x. x \<noteq> s) (se_aliases e)\<rparr> else e)"
      by (cases "m_get (sc_entries c) k") (auto simp: get)
    note oke = groups_okD(1-3) [OF es e]
    show "entry_ok d" using oke(2) by (simp add: d entry_ok_def filter_within)
    show "k \<in> set (se_aliases d)" using oke(1) k by (simp add: d)
    assume "a \<in> set (se_aliases d)"
    then have a: "a \<in> set (se_aliases e)" "m_get (sc_entries c) s = Some e \<Longrightarrow> a \<noteq> s"
      by (auto simp: d split: if_splits)
    then have "a \<noteq> s" using oke(3) [of a] by auto
    then show "m_get (sc_entries (sc_Invalidate s c)) a = Some d"
      using oke(3) [OF a(1)] by (simp add: get d)
  qed
  then show ?thesis using c by (simp add: cache_ok_def sc_Invalidate_def Let_def)
qed (use c in \<open>simp add: sc_Invalidate_def\<close>)

lemma SetAliases_ok:
  assumes "cache_ok c" "s \<noteq> []"
  shows "cache_ok (sc_SetAliases now a (s # ss) c)" "sc_ttl (sc_SetAliases now a (s # ss) c) = sc_ttl c"
proof -
  have "cache_ok (sc_SetAliases now a (s # ss) c) \<and> sc_ttl (sc_SetAliases now a (s # ss) c) = sc_ttl c"
    using SetAliases_spec [OF assms(1) _ assms(2), of a ss now] assms(1)
    by (cases "a = []") (auto simp: sc_SetAliases_def)
  then show "cache_ok (sc_SetAliases now a (s # ss) c)" "sc_ttl (sc_SetAliases now a (s # ss) c) = sc_ttl c"
    by auto
qed

section \<open>The interface of a session store\<close>

text \<open>The binding a store shows at an instant, and separation: a set of identifiers no alias group
  crosses.\<close>

definition bound :: "SessionCache \<Rightarrow> gotime \<Rightarrow> string \<Rightarrow> string option" where
  "bound c t k = (case m_get (sc_entries c) k of
     None \<Rightarrow> None | Some e \<Rightarrow> if t < se_expiresAt e then Some (se_authID e) else None)"

definition separated :: "string set \<Rightarrow> SessionCache \<Rightarrow> bool" where
  "separated S c \<longleftrightarrow> (\<forall>k e. m_get (sc_entries c) k = Some e \<longrightarrow>
     set (se_aliases e) \<subseteq> S \<or> set (se_aliases e) \<inter> S = {})"

text \<open>
  What a client of the store relies on. Reading and refreshing return the binding; a binding made
  is seen until its time to live ends, and so is a refreshed one; and operations on identifiers
  outside a separated set leave the bindings inside it alone.
\<close>

locale session_store =
  fixes ok :: "'c \<Rightarrow> bool"
    and ttl :: "'c \<Rightarrow> goduration"
    and look :: "'c \<Rightarrow> gotime \<Rightarrow> string \<Rightarrow> string option"
    and sep :: "string set \<Rightarrow> 'c \<Rightarrow> bool"
    and peek :: "gotime \<Rightarrow> string \<Rightarrow> 'c \<Rightarrow> 'c \<times> string option"
    and refresh :: "gotime \<Rightarrow> string \<Rightarrow> 'c \<Rightarrow> 'c \<times> string option"
    and bind_to :: "gotime \<Rightarrow> string \<Rightarrow> string list \<Rightarrow> 'c \<Rightarrow> 'c"
  assumes peek_ok: "ok c \<Longrightarrow> ok (fst (peek now k c)) \<and> ttl (fst (peek now k c)) = ttl c"
    and refresh_ok: "ok c \<Longrightarrow> ok (fst (refresh now k c)) \<and> ttl (fst (refresh now k c)) = ttl c"
    and bind_ok: "ok c \<Longrightarrow> k \<noteq> [] \<Longrightarrow> ok (bind_to now a (k # ks) c) \<and> ttl (bind_to now a (k # ks) c) = ttl c"
    and peek_look: "ok c \<Longrightarrow> k \<noteq> [] \<Longrightarrow> snd (peek now k c) = look c now k"
    and refresh_look: "ok c \<Longrightarrow> k \<noteq> [] \<Longrightarrow> snd (refresh now k c) = look c now k"
    and refresh_keeps: "ok c \<Longrightarrow> k \<noteq> [] \<Longrightarrow> look c now k = Some a \<Longrightarrow> t < now + ttl c \<Longrightarrow>
      look (fst (refresh now k c)) t k = Some a"
    and bind_look: "ok c \<Longrightarrow> a \<noteq> [] \<Longrightarrow> k \<noteq> [] \<Longrightarrow> t < now + ttl c \<Longrightarrow>
      look (bind_to now a (k # ks) c) t k = Some a"
    and peek_sep: "ok c \<Longrightarrow> sep S c \<Longrightarrow> sep S (fst (peek now k c))"
    and refresh_sep: "ok c \<Longrightarrow> sep S c \<Longrightarrow> sep S (fst (refresh now k c))"
    and bind_sep: "ok c \<Longrightarrow> sep S c \<Longrightarrow> k \<noteq> [] \<Longrightarrow> set (k # ks) \<subseteq> S \<or> set (k # ks) \<inter> S = {} \<Longrightarrow>
      sep S (bind_to now a (k # ks) c)"
    and peek_frame: "ok c \<Longrightarrow> sep S c \<Longrightarrow> x \<in> S \<Longrightarrow> k \<notin> S \<Longrightarrow> look (fst (peek now k c)) t x = look c t x"
    and refresh_frame: "ok c \<Longrightarrow> sep S c \<Longrightarrow> x \<in> S \<Longrightarrow> k \<notin> S \<Longrightarrow>
      look (fst (refresh now k c)) t x = look c t x"
    and bind_frame: "ok c \<Longrightarrow> sep S c \<Longrightarrow> x \<in> S \<Longrightarrow> k \<noteq> [] \<Longrightarrow> set (k # ks) \<inter> S = {} \<Longrightarrow>
      look (bind_to now a (k # ks) c) t x = look c t x"
begin

lemma refresh_bind:
  "ok c \<Longrightarrow> a \<noteq> [] \<Longrightarrow> k \<noteq> [] \<Longrightarrow> t < now + ttl c \<Longrightarrow>
    look (bind_to now a (k # ks) (fst (refresh now k c))) t k = Some a"
  using refresh_ok [of c now k] bind_look [of "fst (refresh now k c)" a k t now ks] by simp

end

lemma own_alias: "cache_ok c \<Longrightarrow> m_get (sc_entries c) k = Some e \<Longrightarrow> k \<in> set (se_aliases e)"
  unfolding cache_ok_def using groups_okD(1) by blast

lemma group_side:
  assumes c: "cache_ok c" and S: "separated S c" and k: "m_get (sc_entries c) k = Some e"
  shows "k \<in> S \<Longrightarrow> set (se_aliases e) \<subseteq> S" "k \<notin> S \<Longrightarrow> set (se_aliases e) \<inter> S = {}"
proof -
  have "k \<in> set (se_aliases e)" by (rule own_alias [OF c k])
  moreover have "set (se_aliases e) \<subseteq> S \<or> set (se_aliases e) \<inter> S = {}"
    using S k unfolding separated_def by blast
  ultimately show "k \<in> S \<Longrightarrow> set (se_aliases e) \<subseteq> S" "k \<notin> S \<Longrightarrow> set (se_aliases e) \<inter> S = {}" by auto
qed

lemma bind_separated:
  assumes c: "cache_ok c" and S: "separated S c" and s: "s \<noteq> []"
    and side: "set (s # ss) \<subseteq> S \<or> set (s # ss) \<inter> S = {}"
  shows "separated S (sc_SetAliases now a (s # ss) c)"
    and "x \<in> S \<Longrightarrow> set (s # ss) \<inter> S = {} \<Longrightarrow>
      m_get (sc_entries (sc_SetAliases now a (s # ss) c)) x = m_get (sc_entries c) x"
proof -
  have "separated S (sc_SetAliases now a (s # ss) c) \<and> (x \<in> S \<longrightarrow> set (s # ss) \<inter> S = {} \<longrightarrow>
      m_get (sc_entries (sc_SetAliases now a (s # ss) c)) x = m_get (sc_entries c) x)"
  proof (cases "a = []")
    case True
    then show ?thesis using S by (simp add: sc_SetAliases_def)
  next
    case False
    let ?L = "live_aliases now (sc_entries c) (s # ss)"
    obtain full as where as: "as = compactSessionAliases full" "set full = (set (s # ss) - {[]}) \<union> ?L"
      and get: "\<And>k. m_get (sc_entries (sc_SetAliases now a (s # ss) c)) k =
           (if k \<in> set as then Some \<lparr>se_authID = a, se_expiresAt = now + sc_ttl c, se_aliases = as\<rparr>
            else if m_get (sc_entries c) k \<in> Some ` touched (sc_entries c) (s # ss) then None
            else m_get (sc_entries c) k)"
      using SetAliases_spec [OF c False s, of ss now] by blast
    have L: "set (s # ss) \<subseteq> S \<Longrightarrow> ?L \<subseteq> S" "set (s # ss) \<inter> S = {} \<Longrightarrow> ?L \<inter> S = {}"
      using group_side [OF c S] unfolding live_aliases_def touched_def by blast+
    then have side': "set (s # ss) \<subseteq> S \<Longrightarrow> set as \<subseteq> S" "set (s # ss) \<inter> S = {} \<Longrightarrow> set as \<inter> S = {}"
      using compact_sub [of full] unfolding as by blast+
    then have "separated S (sc_SetAliases now a (s # ss) c)"
      using S side unfolding separated_def get by (auto split: if_splits)
    moreover have "m_get (sc_entries c) x \<notin> Some ` touched (sc_entries c) (s # ss)"
      if "x \<in> S" "set (s # ss) \<inter> S = {}"
    proof
      assume "m_get (sc_entries c) x \<in> Some ` touched (sc_entries c) (s # ss)"
      then obtain e y where e: "m_get (sc_entries c) x = Some e" "m_get (sc_entries c) y = Some e" "y \<in> set (s # ss)"
        unfolding touched_def by auto
      have "x \<in> set (se_aliases e)" by (rule own_alias [OF c e(1)])
      with group_side(2) [OF c S e(2)] e(3) that show False by blast
    qed
    ultimately show ?thesis using side' get [of x] by auto
  qed
  then show "separated S (sc_SetAliases now a (s # ss) c)"
    "x \<in> S \<Longrightarrow> set (s # ss) \<inter> S = {} \<Longrightarrow>
      m_get (sc_entries (sc_SetAliases now a (s # ss) c)) x = m_get (sc_entries c) x" by auto
qed

lemma refresh_separated:
  assumes c: "cache_ok c" and S: "separated S c"
  shows "separated S (fst (sc_GetAndRefresh now k c))"
    and "x \<in> S \<Longrightarrow> k \<notin> S \<Longrightarrow>
      m_get (sc_entries (fst (sc_GetAndRefresh now k c))) x = m_get (sc_entries c) x"
proof -
  let ?c = "fst (sc_GetAndRefresh now k c)"
  have "separated S ?c \<and> (x \<in> S \<longrightarrow> k \<notin> S \<longrightarrow> m_get (sc_entries ?c) x = m_get (sc_entries c) x)"
  proof (cases "k = [] \<or> m_get (sc_entries c) k = None")
    case True
    then show ?thesis using S by (auto simp: sc_GetAndRefresh_def)
  next
    case False
    then obtain e where k: "k \<noteq> []" and e: "m_get (sc_entries c) k = Some e" by auto
    have side: "set (se_aliases e) \<subseteq> S \<or> set (se_aliases e) \<inter> S = {}"
      using S e unfolding separated_def by blast
    show ?thesis
    proof (cases "now < se_expiresAt e")
      case True
      then obtain as where as: "set as = set (se_aliases e)"
        and get: "\<And>y. m_get (sc_entries ?c) y = (if y \<in> set (se_aliases e)
          then Some (e\<lparr>se_expiresAt := now + sc_ttl c, se_aliases := as\<rparr>) else m_get (sc_entries c) y)"
        using GetAndRefresh_spec [OF c k, of now] e by auto
      show ?thesis
        using S side group_side [OF c S e] unfolding separated_def get by (auto simp: as split: if_splits)
    next
      case False
      then have get: "\<And>y. m_get (sc_entries ?c) y =
          (if m_get (sc_entries c) y = Some e then None else m_get (sc_entries c) y)"
        using GetAndRefresh_spec [OF c k, of now] e by auto
      have "m_get (sc_entries c) x = Some e \<Longrightarrow> x \<in> S \<Longrightarrow> k \<in> S"
        using group_side [OF c S] own_alias [OF c] e by blast
      then show ?thesis using S unfolding separated_def get by (auto split: if_splits)
    qed
  qed
  then show "separated S ?c" "x \<in> S \<Longrightarrow> k \<notin> S \<Longrightarrow> m_get (sc_entries ?c) x = m_get (sc_entries c) x" by auto
qed

interpretation sc: session_store cache_ok sc_ttl bound separated "\<lambda>now. sc_Get now now" sc_GetAndRefresh sc_SetAliases
proof
  fix c :: SessionCache and now t :: gotime and k a x :: string and ks S
  assume c: "cache_ok c"
  show "cache_ok (fst (sc_Get now now k c)) \<and> sc_ttl (fst (sc_Get now now k c)) = sc_ttl c"
    using Get_spec [OF c] by blast
  have refresh: "cache_ok (fst (sc_GetAndRefresh now k c)) \<and> sc_ttl (fst (sc_GetAndRefresh now k c)) = sc_ttl c"
    using GetAndRefresh_spec [OF c, of k now] c by (cases "k = []") (auto simp: sc_GetAndRefresh_def)
  then show "cache_ok (fst (sc_GetAndRefresh now k c)) \<and> sc_ttl (fst (sc_GetAndRefresh now k c)) = sc_ttl c" .
  show "cache_ok (sc_SetAliases now a (k # ks) c) \<and> sc_ttl (sc_SetAliases now a (k # ks) c) = sc_ttl c" if "k \<noteq> []"
    using SetAliases_ok [OF c that] by blast
  show "snd (sc_Get now now k c) = bound c now k" if "k \<noteq> []"
    using that by (auto simp: sc_Get_def bound_def split: option.splits)
  show "snd (sc_GetAndRefresh now k c) = bound c now k" if "k \<noteq> []"
    using that by (auto simp: sc_GetAndRefresh_def bound_def Let_def split: option.splits)
  show "bound (fst (sc_GetAndRefresh now k c)) t k = Some a"
    if k: "k \<noteq> []" and b: "bound c now k = Some a" and t: "t < now + sc_ttl c"
  proof -
    obtain e where e: "m_get (sc_entries c) k = Some e" "now < se_expiresAt e" "se_authID e = a"
      using b by (auto simp: bound_def split: option.splits if_splits)
    moreover have "k \<in> set (se_aliases e)" by (rule own_alias [OF c e(1)])
    ultimately show ?thesis using GetAndRefresh_spec [OF c k, of now] t by (auto simp: bound_def)
  qed
  show "bound (sc_SetAliases now a (k # ks) c) t k = Some a" if "a \<noteq> []" "k \<noteq> []" "t < now + sc_ttl c"
    using SetAliases_spec [OF c that(1,2), of ks now] that(3) by (auto simp: bound_def prefix_def)
  assume S: "separated S c"
  have get: "m_get (sc_entries (fst (sc_Get now now k c))) y =
         (case m_get (sc_entries c) y of None \<Rightarrow> None | Some e \<Rightarrow>
            if k \<noteq> [] \<and> m_get (sc_entries c) k = Some e \<and> \<not> now < se_expiresAt e then None else Some e)" for y
    using Get_spec [OF c, of now now k] by (cases "m_get (sc_entries c) y") simp_all
  show "separated S (fst (sc_Get now now k c))"
    using S unfolding separated_def get by (auto split: option.splits if_splits)
  have side: "m_get (sc_entries c) k = Some e \<Longrightarrow> m_get (sc_entries c) x = Some e \<Longrightarrow> x \<in> S \<longleftrightarrow> k \<in> S" for e
    using group_side [OF c S] own_alias [OF c] by blast
  show "bound (fst (sc_Get now now k c)) t x = bound c t x" if "x \<in> S" "k \<notin> S"
    using side that unfolding bound_def get by (auto split: option.splits)
  show "separated S (sc_SetAliases now a (k # ks) c)"
    if "k \<noteq> []" "set (k # ks) \<subseteq> S \<or> set (k # ks) \<inter> S = {}"
    using bind_separated(1) [OF c S that] .
  show "bound (sc_SetAliases now a (k # ks) c) t x = bound c t x"
    if "x \<in> S" "k \<noteq> []" "set (k # ks) \<inter> S = {}"
    using bind_separated(2) [OF c S that(2) disjI2 [OF that(3)] that(1,3)] by (simp add: bound_def)
  show "separated S (fst (sc_GetAndRefresh now k c))" by (rule refresh_separated(1) [OF c S])
  show "bound (fst (sc_GetAndRefresh now k c)) t x = bound c t x" if "x \<in> S" "k \<notin> S"
    using refresh_separated(2) [OF c S that] by (simp add: bound_def)
qed

section \<open>Reachable caches\<close>

text \<open>The operations in any order, with any arguments and clock readings, among them the sweep the
  background goroutine makes.\<close>

inductive cache_reach :: "SessionCache \<Rightarrow> SessionCache \<Rightarrow> bool" where
  init: "cache_reach c c"
| get: "cache_reach c d \<Longrightarrow> cache_reach c (fst (sc_Get now now' s d))"
| refresh: "cache_reach c d \<Longrightarrow> cache_reach c (fst (sc_GetAndRefresh now s d))"
| set_: "cache_reach c d \<Longrightarrow> cache_reach c (sc_Set now s a d)"
| set_aliases: "cache_reach c d \<Longrightarrow> cache_reach c (sc_SetAliases now a ss d)"
| invalidate: "cache_reach c d \<Longrightarrow> cache_reach c (sc_Invalidate s d)"
| invalidate_auth: "cache_reach c d \<Longrightarrow> cache_reach c (sc_InvalidateAuth a d)"
| cleanup: "cache_reach c d \<Longrightarrow> cache_reach c (sc_cleanup now d)"

text \<open>Empty identifiers are skipped, so a list of identifiers acts as its non-empty part.\<close>

lemma no_empty_key: "cache_ok c \<Longrightarrow> m_get (sc_entries c) [] = None"
proof (rule ccontr)
  assume c: "cache_ok c" and "m_get (sc_entries c) [] \<noteq> None"
  then obtain e where e: "m_get (sc_entries c) [] = Some e" by auto
  have "groups_ok (sc_entries c)" using c by (simp add: cache_ok_def)
  from groups_okD(2) [OF this e] own_alias [OF c e] show False by (simp add: entry_ok_def)
qed

lemma SetAliases_skip_empty:
  assumes c: "cache_ok c"
  shows "sc_SetAliases now a ([] # ss) c = sc_SetAliases now a ss c"
proof -
  have "setAliasesStep now (sc_entries c, [], as) [] = (sc_entries c, [], as)" for as
    by (simp add: setAliasesStep_def no_empty_key [OF c])
  moreover have "mergeSessionAliases [] ([] # ss) = mergeSessionAliases [] ss"
    by (simp add: mergeSessionAliases_def addAlias_def)
  ultimately show ?thesis by (simp add: sc_SetAliases_def)
qed

lemma SetAliases_ok_any [wf_intros]: "cache_ok c \<Longrightarrow> cache_ok (sc_SetAliases now a ss c)"
proof (induction ss)
  case Nil
  then show ?case by (simp add: sc_SetAliases_def mergeSessionAliases_def compact_defs)
next
  case (Cons s ss)
  then show ?case by (cases "s = []") (simp_all add: SetAliases_skip_empty SetAliases_ok)
qed

lemma reach_ok: "cache_reach c d \<Longrightarrow> cache_ok c \<Longrightarrow> cache_ok d"
proof (induction rule: cache_reach.induct)
  case (get c d now now' s)
  then show ?case using Get_spec [of d now now' s] by simp
next
  case (refresh c d now s)
  then show ?case using sc.refresh_ok [of d now s] by simp
qed (auto simp: sc_Set_def intro: wf_intros)

section \<open>Properties\<close>

text \<open>
  C19: the alias groups of the session cache are consistent in every reachable state: every
  identifier of an entry is bound to that same entry (credential, deadline and alias list), no
  entry lists an identifier twice, and a group never holds more than sixty-five identifiers, so
  the cache cannot be grown without bound through one session.
\<close>

theorem session_groups_consistent:
  assumes "cache_reach (newSessionCache ttl) c" "m_get (sc_entries c) k = Some e"
  shows "k \<in> set (se_aliases e) \<and> (\<forall>a\<in>set (se_aliases e). m_get (sc_entries c) a = Some e)
    \<and> distinct (se_aliases e) \<and> length (se_aliases e) \<le> 65"
proof -
  have "cache_ok (newSessionCache ttl)"
    by (simp add: cache_ok_def newSessionCache_def groups_ok_def)
  then have "groups_ok (sc_entries c)" using reach_ok [OF assms(1)] by (simp add: cache_ok_def)
  from groups_okD(1-3) [OF this assms(2)] show ?thesis
    using within_limits_length [of "se_aliases e"] unfolding entry_ok_def by blast
qed

lemma session_groups_consistent_witness:
  "m_get (sc_entries (sc_SetAliases 5 ''A'' [''x'', ''y''] (newSessionCache 10))) ''y'' =
     Some \<lparr>se_authID = ''A'', se_expiresAt = 15, se_aliases = [''x'', ''y'']\<rparr>
   \<and> m_get (sc_entries (sc_SetAliases 5 ''A'' [''x'', ''y''] (newSessionCache 10))) ''x'' =
     Some \<lparr>se_authID = ''A'', se_expiresAt = 15, se_aliases = [''x'', ''y'']\<rparr>"
proof -
  let ?c = "sc_SetAliases 5 ''A'' [''x'', ''y''] (newSessionCache 10)"
    and ?e = "\<lparr>se_authID = ''A'', se_expiresAt = 15, se_aliases = [''x'', ''y'']\<rparr>"
  have y: "m_get (sc_entries ?c) ''y'' = Some ?e" by code_simp
  have "cache_reach (newSessionCache 10) ?c" by (intro cache_reach.intros)
  from session_groups_consistent [OF this y] y show ?thesis by simp
qed

text \<open>
  binding identifiers to a credential moves the whole session. If the identifiers given and
  the live aliases already known for them fit the limits (64 stable identifiers and one prompt
  cache key), then until the time to live ends every one of them is bound to the new credential;
  in every case the first identifier is. Identifiers of other sessions keep their binding.
\<close>

theorem SetAliases_moves_session:
  assumes "cache_ok c" "a \<noteq> []" "s \<noteq> []" "t < now + sc_ttl c"
    and all: "all = set (s # ss) - {[]} \<union> live_aliases now (sc_entries c) (s # ss)"
  shows "bound (sc_SetAliases now a (s # ss) c) t s = Some a
    \<and> (card {k\<in>all. \<not> isLocalPromptCacheSessionAlias k} \<le> 64 \<and> card {k\<in>all. isLocalPromptCacheSessionAlias k} \<le> 1
        \<longrightarrow> (\<forall>k\<in>all. bound (sc_SetAliases now a (s # ss) c) t k = Some a))
    \<and> (\<forall>k. k \<notin> all \<and> m_get (sc_entries c) k \<notin> Some ` touched (sc_entries c) (s # ss)
        \<longrightarrow> bound (sc_SetAliases now a (s # ss) c) t k = bound c t k)"
proof -
  let ?d = "sc_SetAliases now a (s # ss) c"
  obtain full as where f: "as = compactSessionAliases full" "distinct full" "set full = all"
    and get: "\<And>k. m_get (sc_entries ?d) k =
           (if k \<in> set as then Some \<lparr>se_authID = a, se_expiresAt = now + sc_ttl c, se_aliases = as\<rparr>
            else if m_get (sc_entries c) k \<in> Some ` touched (sc_entries c) (s # ss) then None
            else m_get (sc_entries c) k)"
    using SetAliases_spec [OF assms(1-3), of ss now] unfolding all by blast
  have "as = full" if "card {k\<in>all. \<not> isLocalPromptCacheSessionAlias k} \<le> 64" "card {k\<in>all. isLocalPromptCacheSessionAlias k} \<le> 1"
    unfolding f(1) using that f(2,3)
    by (intro compact_id) (simp add: within_limits_def flip: distinct_card)
  moreover have "set as \<subseteq> all" using f compact_sub by blast
  ultimately show ?thesis
    using assms(4) f(3) by (intro conjI sc.bind_look [OF assms(1-4)]) (auto simp: bound_def get)
qed

lemma SetAliases_moves_session_witness:
  "bound (sc_SetAliases 12 ''B'' [''x''] (sc_SetAliases 5 ''A'' [''x'', ''y''] (newSessionCache 10))) 20 ''y'' = Some ''B''"
proof -
  let ?c = "sc_SetAliases 5 ''A'' [''x'', ''y''] (newSessionCache 10)"
  have c: "cache_ok ?c"
    by (intro wf_intros) (simp add: cache_ok_def newSessionCache_def groups_ok_def)
  have e: "sc_entries ?c = [(''x'', \<lparr>se_authID = ''A'', se_expiresAt = 15, se_aliases = [''x'', ''y'']\<rparr>),
      (''y'', \<lparr>se_authID = ''A'', se_expiresAt = 15, se_aliases = [''x'', ''y'']\<rparr>)]" by code_simp
  have t: "sc_ttl ?c = 10" by code_simp
  have "{''x'', ''y''} = set [''x''] - {[]} \<union> live_aliases 12 (sc_entries ?c) [''x'']"
    by (auto simp: e live_aliases_def touched_def)
  from SetAliases_moves_session [OF c, of "''B''" "''x''" 20 12, OF _ _ _ this]
  have "card {k\<in>{''x'', ''y''}. \<not> isLocalPromptCacheSessionAlias k} \<le> 64 \<and> card {k\<in>{''x'', ''y''}. isLocalPromptCacheSessionAlias k} \<le> 1
        \<longrightarrow> (\<forall>k\<in>{''x'', ''y''}. bound (sc_SetAliases 12 ''B'' [''x''] ?c) 20 k = Some ''B'')"
    using t by simp
  moreover have "\<not> isLocalPromptCacheSessionAlias ''x''" "\<not> isLocalPromptCacheSessionAlias ''y''" by code_simp+
  then have "{k\<in>{''x'', ''y''}. isLocalPromptCacheSessionAlias k} = {}"
    "{k\<in>{''x'', ''y''}. \<not> isLocalPromptCacheSessionAlias k} = {''x'', ''y''}" by blast+
  then have "card {k\<in>{''x'', ''y''}. \<not> isLocalPromptCacheSessionAlias k} \<le> 64"
    "card {k\<in>{''x'', ''y''}. isLocalPromptCacheSessionAlias k} \<le> 1" by (simp_all only:) simp_all
  ultimately show ?thesis by blast
qed

definition cache_reads :: "(gotime \<times> string) list \<Rightarrow> SessionCache \<Rightarrow> SessionCache" where
  "cache_reads rs c = foldl (\<lambda>c (now, k). sc_cleanup now (fst (sc_GetAndRefresh now k c))) c rs"

lemma reads_absent:
  assumes "cache_ok c" "m_get (sc_entries c) s = None"
  shows "m_get (sc_entries (cache_reads rs c)) s = None"
proof -
  have "cache_ok (sc_cleanup now (fst (sc_GetAndRefresh now k c)))
      \<and> m_get (sc_entries (sc_cleanup now (fst (sc_GetAndRefresh now k c)))) s = None"
    if c: "cache_ok c" and s: "m_get (sc_entries c) s = None" for c now k
  proof -
    have r: "cache_ok (fst (sc_GetAndRefresh now k c))" using sc.refresh_ok [OF c] by blast
    then have m: "m_ok (sc_entries (fst (sc_GetAndRefresh now k c)))" by (simp add: cache_ok_def groups_ok_def)
    have "s \<notin> set (se_aliases e)" if "m_get (sc_entries c) x = Some e" for x e
      using that s c groups_okD(3) [of "sc_entries c" x e s] by (auto simp: cache_ok_def)
    then have "separated {s} c" unfolding separated_def by blast
    from refresh_separated(2) [OF c this, of s k now] s
    have "m_get (sc_entries (fst (sc_GetAndRefresh now k c))) s = None"
      by (cases "k = s") (auto simp: sc_GetAndRefresh_def)
    with m have "m_get (sc_entries (sc_cleanup now (fst (sc_GetAndRefresh now k c)))) s = None"
      using m_get_filter [OF m, of "\<lambda>_ e. now < se_expiresAt e" s] by (simp add: sc_cleanup_def)
    with cleanup_ok [OF r] show ?thesis by blast
  qed
  with assms have "cache_ok (cache_reads rs c) \<and> m_get (sc_entries (cache_reads rs c)) s = None"
    unfolding cache_reads_def by (intro foldl_invariant [where I = "\<lambda>c. cache_ok c \<and> m_get (sc_entries c) s = None"]) auto
  then show ?thesis ..
qed

text \<open>
  an invalidated identifier stays invalidated: no read or refresh of another identifier of
  its session, nor a sweep, brings its binding back, and the other identifiers keep theirs.
\<close>

theorem Invalidate_stays:
  assumes "cache_ok c" "s \<noteq> []"
  shows "bound (cache_reads rs (sc_Invalidate s c)) t s = None
    \<and> (\<forall>k. k \<noteq> s \<longrightarrow> bound (sc_Invalidate s c) t k = bound c t k)"
proof -
  have "m_get (sc_entries (sc_Invalidate s c)) s = None" by (simp add: Invalidate_get [OF assms])
  from reads_absent [OF Invalidate_ok [OF assms(1)] this] show ?thesis
    by (auto simp: bound_def Invalidate_get [OF assms] split: option.splits)
qed

lemma Invalidate_stays_witness:
  "bound (cache_reads [(6, ''y'')] (sc_Invalidate ''x'' (sc_SetAliases 5 ''A'' [''x'', ''y''] (newSessionCache 10)))) 7 ''x'' = None
   \<and> bound (sc_Invalidate ''x'' (sc_SetAliases 5 ''A'' [''x'', ''y''] (newSessionCache 10))) 7 ''y'' = Some ''A''"
proof -
  let ?c = "sc_SetAliases 5 ''A'' [''x'', ''y''] (newSessionCache 10)"
  have c: "cache_ok ?c"
    by (intro wf_intros) (simp add: cache_ok_def newSessionCache_def groups_ok_def)
  have "bound ?c 7 ''y'' = Some ''A''" by code_simp
  with Invalidate_stays [OF c, of "''x''" "[(6, ''y'')]" 7] show ?thesis by simp
qed

end
