(* ===== verification/SessionAffinity.thy ===== *)
theory SessionAffinity
  imports Selector SessionCache
begin

text \<open>
  The session-affinity selector of \<open>backend/sdk/cliproxy/auth/selector.go\<close>
  (\<open>SessionAffinitySelector\<close>): it wraps another selector and keeps the requests of one session on
  one credential through the session cache. The wrapped selector is a parameter of \<open>affinityPick\<close>;
  the test of its dynamic type for the weighted strategy is the flag \<open>weighted\<close>.
\<close>

section \<open>The selector\<close>

definition newSessionAffinityCache :: "goduration \<Rightarrow> SessionCache" where
  "newSessionAffinityCache ttl = newSessionCache (if ttl \<le> 0 then hour else ttl)"

definition cacheKey :: "PickRequest \<Rightarrow> string" where
  "cacheKey r = pr_provider r @ ''::'' @ pr_primaryID r @ ''::'' @ pr_model r"

definition fallbackKey :: "PickRequest \<Rightarrow> string" where
  "fallbackKey r = (if pr_fallbackID r \<noteq> [] \<and> pr_fallbackID r \<noteq> pr_primaryID r
     then pr_provider r @ ''::'' @ pr_fallbackID r @ ''::'' @ pr_model r else [])"

definition bindSession :: "PickRequest \<Rightarrow> string \<Rightarrow> SessionCache \<Rightarrow> SessionCache" where
  "bindSession r authID c =
     (if fallbackKey r \<noteq> [] then sc_SetAliases (pr_now r) authID [cacheKey r, fallbackKey r] c
      else sc_Set (pr_now r) (cacheKey r) authID c)"

text \<open>Reselection through the wrapped selector, and the new binding.\<close>

definition reselect :: "('s \<Rightarrow> PickRequest \<Rightarrow> Auth option list \<Rightarrow> 's \<times> (PickError + Auth))
    \<Rightarrow> 's \<times> SessionCache \<Rightarrow> PickRequest \<Rightarrow> Auth option list \<Rightarrow> ('s \<times> SessionCache) \<times> (PickError + Auth)" where
  "reselect pick st r auths =
     (case pick (fst st) r auths of
        (s, Inl err) \<Rightarrow> ((s, snd st), Inl err)
      | (s, Inr auth) \<Rightarrow> ((s, bindSession r (a_ID auth) (snd st)), Inr auth))"

definition affinityPick :: "('s \<Rightarrow> PickRequest \<Rightarrow> Auth option list \<Rightarrow> 's \<times> (PickError + Auth)) \<Rightarrow> bool
    \<Rightarrow> 's \<times> SessionCache \<Rightarrow> PickRequest \<Rightarrow> Auth option list \<Rightarrow> ('s \<times> SessionCache) \<times> (PickError + Auth)" where
  "affinityPick pick weighted st r auths =
     (if pr_primaryID r = []
      then (let (s, res) = pick (fst st) r auths in ((s, snd st), res))
      else case getAvailableAuths (if weighted then positiveWeightAuths auths else auths)
             (pr_provider r) (pr_model r) (pr_now r) of
        Inl err \<Rightarrow> (st, Inl err)
      | Inr available \<Rightarrow>
          (case sc_GetAndRefresh (pr_now r) (cacheKey r) (snd st) of
             (c, Some cachedAuthID) \<Rightarrow>
               (case find (\<lambda>auth. a_ID auth = cachedAuthID) available of
                  Some auth \<Rightarrow> ((fst st, bindSession r (a_ID auth) c), Inr auth)
                | None \<Rightarrow> reselect pick (fst st, c) r auths)
           | (c, None) \<Rightarrow>
               (if fallbackKey r = [] then reselect pick (fst st, c) r auths
                else case sc_Get (pr_now r) (pr_now r) (fallbackKey r) c of
                  (c, Some cachedAuthID) \<Rightarrow>
                    (case find (\<lambda>auth. a_ID auth = cachedAuthID) available of
                       Some auth \<Rightarrow> ((fst st, bindSession r (a_ID auth) c), Inr auth)
                     | None \<Rightarrow> reselect pick (fst st, c) r auths)
                | (c, None) \<Rightarrow> reselect pick (fst st, c) r auths)))"

definition affinityInvalidateAuth :: "string \<Rightarrow> 's \<times> SessionCache \<Rightarrow> 's \<times> SessionCache" where
  "affinityInvalidateAuth authID st = (fst st, sc_InvalidateAuth authID (snd st))"

section \<open>Its cases\<close>

lemma cacheKey_ne [simp]: "cacheKey r \<noteq> []"
  by (simp add: cacheKey_def)

definition sessionKeys :: "PickRequest \<Rightarrow> string set" where
  "sessionKeys r = (if pr_primaryID r = [] then {}
     else {cacheKey r} \<union> (if fallbackKey r = [] then {} else {fallbackKey r}))"

lemma bindSession_keys:
  "\<exists>ks. bindSession r a c = sc_SetAliases (pr_now r) a (cacheKey r # ks) c
    \<and> (pr_primaryID r \<noteq> [] \<longrightarrow> set (cacheKey r # ks) = sessionKeys r)"
  by (cases "fallbackKey r = []") (auto simp: bindSession_def sc_Set_def sessionKeys_def)

text \<open>What a pick with a session does: it reads the cache (\<open>c\<close> is the cache after the reads),
  then binds the session to the credential it returns, a cached one among the available ones or
  the choice of the wrapped selector.\<close>

definition cacheReads :: "PickRequest \<Rightarrow> SessionCache \<Rightarrow> SessionCache" where
  "cacheReads r c = (case sc_GetAndRefresh (pr_now r) (cacheKey r) c of
       (c, Some _) \<Rightarrow> c
     | (c, None) \<Rightarrow> if fallbackKey r = [] then c else fst (sc_Get (pr_now r) (pr_now r) (fallbackKey r) c))"

definition eligible :: "bool \<Rightarrow> Auth option \<Rightarrow> bool" where
  "eligible weighted c \<longleftrightarrow> (weighted \<longrightarrow> positiveWeight c)"

lemma getAvailable_best:
  assumes "getAvailableAuths (if weighted then positiveWeightAuths cs else cs)
      (pr_provider r) (pr_model r) (pr_now r) = Inr av"
  shows "a \<in> set av \<longleftrightarrow> bestCandidate (eligible weighted) r cs a"
proof -
  let ?cs = "if weighted then positiveWeightAuths cs else cs"
  let ?f = "freeAuths (pr_model r) (pr_now r) ?cs"
  let ?m = "Max ((\<lambda>a. authPriority (Some a)) ` set ?f)"
  have f: "?f \<noteq> []" using assms getAvailable_none [of "pr_model r" "pr_now r" ?cs "pr_provider r"] by auto
  then have av: "av = sort_key a_ID (filter (\<lambda>a. authPriority (Some a) = ?m) ?f)"
    using assms by (simp add: getAvailable_some)
  have "a \<in> set av \<longleftrightarrow> a \<in> set ?f \<and> (\<forall>b\<in>set ?f. authPriority (Some b) \<le> authPriority (Some a))"
    unfolding av using f by (auto intro!: antisym Max.coboundedI Max.boundedI)
  also have "\<dots> \<longleftrightarrow> bestCandidate (eligible weighted) r cs a"
    by (auto simp: freeAuths_set bestCandidate_def eligible_def positiveWeightAuths_def)
  finally show ?thesis .
qed

lemma getAvailable_no_best:
  assumes "getAvailableAuths (if weighted then positiveWeightAuths cs else cs)
      (pr_provider r) (pr_model r) (pr_now r) = Inl e"
  shows "\<not> bestCandidate (eligible weighted) r cs a"
proof
  let ?cs = "if weighted then positiveWeightAuths cs else cs"
  assume "bestCandidate (eligible weighted) r cs a"
  then have "a \<in> set (freeAuths (pr_model r) (pr_now r) ?cs)"
    unfolding freeAuths_set bestCandidate_def eligible_def positiveWeightAuths_def by auto
  then have "freeAuths (pr_model r) (pr_now r) ?cs \<noteq> []" by auto
  then show False using assms by (simp add: getAvailable_some)
qed

lemma affinityPick_cases:
  assumes "pr_primaryID r \<noteq> []"
  obtains (err) e where "affinityPick pick weighted st r cs = (st, Inl e)"
      "\<And>a. \<not> bestCandidate (eligible weighted) r cs a"
    | (hit) a where "affinityPick pick weighted st r cs =
        ((fst st, bindSession r (a_ID a) (cacheReads r (snd st))), Inr a)" "bestCandidate (eligible weighted) r cs a"
    | (miss) "affinityPick pick weighted st r cs = reselect pick (fst st, cacheReads r (snd st)) r cs"
      "\<And>a. bound (snd st) (pr_now r) (cacheKey r) = Some (a_ID a) \<Longrightarrow> cache_ok (snd st) \<Longrightarrow>
         \<not> bestCandidate (eligible weighted) r cs a"
proof (cases "getAvailableAuths (if weighted then positiveWeightAuths cs else cs)
      (pr_provider r) (pr_model r) (pr_now r)")
  case (Inl e)
  then show ?thesis using assms getAvailable_no_best [OF Inl] by (intro err) (simp_all add: affinityPick_def)
next
  case (Inr av)
  note best = getAvailable_best [OF Inr]
  obtain c h where g: "sc_GetAndRefresh (pr_now r) (cacheKey r) (snd st) = (c, h)" by force
  have found: "bestCandidate (eligible weighted) r cs a" if "find P av = Some a" for P a
    using find_Some_filter [OF that] best by blast
  have absent: "\<not> bestCandidate (eligible weighted) r cs a"
    if "find (\<lambda>auth. a_ID auth = i) av = None" "a_ID a = i" for a i
    using that best by (auto simp: find_None_iff)
  have look: "h = bound (snd st) (pr_now r) (cacheKey r)" if "cache_ok (snd st)"
    using sc.refresh_look [OF that cacheKey_ne, of "pr_now r" r] g by simp
  show ?thesis
  proof (cases h)
    case (Some i)
    then have reads: "cacheReads r (snd st) = c" by (simp add: cacheReads_def g)
    show ?thesis
    proof (cases "find (\<lambda>auth. a_ID auth = i) av")
      case None
      then show ?thesis using assms Inr g Some reads look absent [OF None]
        by (intro miss) (auto simp: affinityPick_def)
    next
      case (Some a)
      then show ?thesis using assms Inr g \<open>h = Some i\<close> reads found [OF Some]
        by (intro hit [of a]) (simp_all add: affinityPick_def)
    qed
  next
    case None
    obtain d p where p: "sc_Get (pr_now r) (pr_now r) (fallbackKey r) c = (d, p)" by force
    have reads: "cacheReads r (snd st) = (if fallbackKey r = [] then c else d)"
      by (simp add: cacheReads_def g None p)
    have none: "bound (snd st) (pr_now r) (cacheKey r) = Some x \<Longrightarrow> cache_ok (snd st) \<Longrightarrow> False" for x
      using look None by simp
    show ?thesis
    proof (cases "\<exists>i a. fallbackKey r \<noteq> [] \<and> p = Some i \<and> find (\<lambda>auth. a_ID auth = i) av = Some a")
      case True
      then obtain i a where "fallbackKey r \<noteq> []" "p = Some i" "find (\<lambda>auth. a_ID auth = i) av = Some a" by blast
      then show ?thesis using assms Inr g None p reads found
        by (intro hit [of a]) (auto simp: affinityPick_def)
    next
      case False
      then show ?thesis using assms Inr g None p reads none
        by (intro miss) (auto simp: affinityPick_def split: option.splits)
    qed
  qed
qed

section \<open>Affinity over any selector is a selector\<close>

lemma bindSession_ok: "cache_ok c \<Longrightarrow> cache_ok (bindSession r a c) \<and> sc_ttl (bindSession r a c) = sc_ttl c"
proof -
  assume c: "cache_ok c"
  obtain ks where "bindSession r a c = sc_SetAliases (pr_now r) a (cacheKey r # ks) c"
    using bindSession_keys [of r a c] by blast
  then show ?thesis using sc.bind_ok [OF c cacheKey_ne, where now = "pr_now r" and a = a and ks = ks] by simp
qed

lemma cacheReads_cases:
  "cacheReads r c = fst (sc_GetAndRefresh (pr_now r) (cacheKey r) c)
   \<or> fallbackKey r \<noteq> [] \<and> cacheReads r c =
       fst (sc_Get (pr_now r) (pr_now r) (fallbackKey r) (fst (sc_GetAndRefresh (pr_now r) (cacheKey r) c)))"
  by (auto simp: cacheReads_def split: prod.splits option.splits)

lemma cacheReads_ok: "cache_ok c \<Longrightarrow> cache_ok (cacheReads r c) \<and> sc_ttl (cacheReads r c) = sc_ttl c"
  using cacheReads_cases [of r c] sc.refresh_ok sc.peek_ok by metis

lemma cacheReads_sep: "cache_ok c \<Longrightarrow> separated S c \<Longrightarrow> separated S (cacheReads r c)"
  using cacheReads_cases [of r c] sc.refresh_ok sc.refresh_sep sc.peek_sep by metis

lemma cacheReads_frame:
  assumes "cache_ok c" "separated S c" "x \<in> S" "pr_primaryID r \<noteq> []" "sessionKeys r \<inter> S = {}"
  shows "bound (cacheReads r c) t x = bound c t x"
proof -
  let ?d = "fst (sc_GetAndRefresh (pr_now r) (cacheKey r) c)"
  have "cacheKey r \<notin> S" "fallbackKey r = [] \<or> fallbackKey r \<notin> S"
    using assms(4,5) by (auto simp: sessionKeys_def split: if_splits)
  moreover have "bound ?d t x = bound c t x"
    using assms(1-3) calculation(1) by (rule sc.refresh_frame)
  moreover have "bound (fst (sc_Get (pr_now r) (pr_now r) (fallbackKey r) ?d)) t x = bound ?d t x"
    if "fallbackKey r \<notin> S"
    using sc.refresh_ok [OF assms(1)] sc.refresh_sep [OF assms(1,2)] assms(3) that
    by (intro sc.peek_frame [of _ S]) blast+
  ultimately show ?thesis using cacheReads_cases [of r c] by metis
qed

locale affinity = selector inv pick elig
  for inv :: "'s \<Rightarrow> bool" and pick and elig +
  fixes weighted :: bool
  assumes elig_weighted: "elig = eligible weighted"
begin

definition aff_inv :: "'s \<times> SessionCache \<Rightarrow> bool" where
  "aff_inv st \<longleftrightarrow> inv (fst st) \<and> cache_ok (snd st)"

lemma reselect_cases:
  obtains (err) e where "reselect pick st r cs = ((fst (pick (fst st) r cs), snd st), Inl e)"
      "snd (pick (fst st) r cs) = Inl e"
    | (ok) a where "reselect pick st r cs = ((fst (pick (fst st) r cs), bindSession r (a_ID a) (snd st)), Inr a)"
      "snd (pick (fst st) r cs) = Inr a"
  by (cases "pick (fst st) r cs"; cases "snd (pick (fst st) r cs)") (auto simp: reselect_def)

text \<open>Every pick with a session reads the cache and then, unless it fails, binds the session to
  the credential it returns.\<close>

lemma pick_result:
  assumes "aff_inv st" "pr_primaryID r \<noteq> []"
  shows "inv (fst (fst (affinityPick pick weighted st r cs)))
    \<and> (case snd (affinityPick pick weighted st r cs) of
         Inr a \<Rightarrow> bestCandidate elig r cs a
           \<and> snd (fst (affinityPick pick weighted st r cs)) = bindSession r (a_ID a) (cacheReads r (snd st))
       | Inl _ \<Rightarrow> (\<forall>a. \<not> bestCandidate elig r cs a)
           \<and> snd (fst (affinityPick pick weighted st r cs)) \<in> {snd st, cacheReads r (snd st)})"
proof -
  have i: "inv (fst st)" using assms(1) by (simp add: aff_inv_def)
  note p = pick_inv [OF i, of r cs] pick_best [OF i, of r cs] pick_total [OF i, of r cs]
  show ?thesis
  proof (cases rule: affinityPick_cases [OF assms(2), of pick weighted st cs])
    case 3
    then show ?thesis
      by (cases rule: reselect_cases [of "(fst st, cacheReads r (snd st))" r cs]) (use p in auto)
  qed (use i in \<open>auto simp: elig_weighted\<close>)
qed

lemma no_session: "pr_primaryID r = [] \<Longrightarrow> affinityPick pick weighted st r cs =
    ((fst (pick (fst st) r cs), snd st), snd (pick (fst st) r cs))"
  by (simp add: affinityPick_def split_def Let_def)

lemma aff_step_inv: "aff_inv st \<Longrightarrow> aff_inv (fst (affinityPick pick weighted st r cs))
    \<and> sc_ttl (snd (fst (affinityPick pick weighted st r cs))) = sc_ttl (snd st)"
  using pick_result [of st r cs] no_session [of r st cs] pick_inv [of "fst st" r cs]
    cacheReads_ok [of "snd st" r] bindSession_ok [of "cacheReads r (snd st)" r]
  by (cases "pr_primaryID r = []") (auto simp: aff_inv_def split: sum.splits)

end

sublocale affinity \<subseteq> aff: selector aff_inv "affinityPick pick weighted" elig
proof
  fix st :: "'s \<times> SessionCache" and r cs a e
  assume st: "aff_inv st"
  show "aff_inv (fst (affinityPick pick weighted st r cs))" using aff_step_inv [OF st] by blast
  have i: "inv (fst st)" using st by (simp add: aff_inv_def)
  show "bestCandidate elig r cs a" if "snd (affinityPick pick weighted st r cs) = Inr a"
    using that pick_result [OF st, of r cs] no_session [of r st cs] pick_best [OF i, of r cs]
    by (cases "pr_primaryID r = []") auto
  show "\<not> bestCandidate elig r cs a" if "snd (affinityPick pick weighted st r cs) = Inl e"
    using that pick_result [OF st, of r cs] no_session [of r st cs] pick_total [OF i, of r cs]
    by (cases "pr_primaryID r = []") auto
qed

section \<open>Stickiness\<close>

context affinity
begin

text \<open>A pick binds its session to what it returns, a pick of another session leaves the binding
  alone, and a bound credential that is still a best candidate is picked again.\<close>

lemma pick_binds:
  assumes st: "aff_inv st" and r: "pr_primaryID r \<noteq> []"
    and a: "snd (affinityPick pick weighted st r cs) = Inr a" "a_ID a \<noteq> []" and t: "t < pr_now r + sc_ttl (snd st)"
  shows "bound (snd (fst (affinityPick pick weighted st r cs))) t (cacheKey r) = Some (a_ID a)"
proof -
  have c: "cache_ok (cacheReads r (snd st))" "sc_ttl (cacheReads r (snd st)) = sc_ttl (snd st)"
    using st cacheReads_ok by (auto simp: aff_inv_def)
  obtain ks where "bindSession r (a_ID a) (cacheReads r (snd st)) =
      sc_SetAliases (pr_now r) (a_ID a) (cacheKey r # ks) (cacheReads r (snd st))"
    using bindSession_keys by blast
  with pick_result [OF st r, of cs] a sc.bind_look [OF c(1) a(2) cacheKey_ne, of t "pr_now r" r ks] t c(2)
  show ?thesis by simp
qed

lemma pick_separated:
  assumes st: "aff_inv st" and S: "separated S (snd st)" and side: "sessionKeys r \<subseteq> S \<or> sessionKeys r \<inter> S = {}"
  shows "separated S (snd (fst (affinityPick pick weighted st r cs)))"
    and "x \<in> S \<Longrightarrow> sessionKeys r \<inter> S = {} \<Longrightarrow>
      bound (snd (fst (affinityPick pick weighted st r cs))) t x = bound (snd st) t x"
proof -
  let ?c = "cacheReads r (snd st)"
  have "separated S (snd (fst (affinityPick pick weighted st r cs))) \<and> (x \<in> S \<longrightarrow> sessionKeys r \<inter> S = {} \<longrightarrow>
      bound (snd (fst (affinityPick pick weighted st r cs))) t x = bound (snd st) t x)"
  proof (cases "pr_primaryID r = []")
    case True
    then show ?thesis using S by (simp add: no_session)
  next
    case False
    have ok: "cache_ok (snd st)" using st by (simp add: aff_inv_def)
    note c = conjunct1 [OF cacheReads_ok [OF ok]] cacheReads_sep [OF ok S]
    have frame: "bound ?c t x = bound (snd st) t x" if "x \<in> S" "sessionKeys r \<inter> S = {}"
      using cacheReads_frame [OF ok S that(1) False that(2)] .
    have "separated S (bindSession r a ?c) \<and> (x \<in> S \<longrightarrow> sessionKeys r \<inter> S = {} \<longrightarrow>
        bound (bindSession r a ?c) t x = bound ?c t x)" for a
    proof -
      obtain ks where ks: "bindSession r a ?c = sc_SetAliases (pr_now r) a (cacheKey r # ks) ?c"
          "set (cacheKey r # ks) = sessionKeys r"
        using bindSession_keys [of r a ?c] False by blast
      show ?thesis
        using sc.bind_sep [OF c cacheKey_ne, of r ks] sc.bind_frame [OF c _ cacheKey_ne, of x r ks] side
        unfolding ks by blast
    qed
    with pick_result [OF st False, of cs] frame c(2) S show ?thesis
      by (cases "snd (affinityPick pick weighted st r cs)") auto
  qed
  then show "separated S (snd (fst (affinityPick pick weighted st r cs)))"
    "x \<in> S \<Longrightarrow> sessionKeys r \<inter> S = {} \<Longrightarrow>
      bound (snd (fst (affinityPick pick weighted st r cs))) t x = bound (snd st) t x" by auto
qed

lemma run_separated:
  assumes "aff_inv st" "separated S (snd st)"
    and "\<forall>(r, cs)\<in>set reqs. sessionKeys r \<subseteq> S \<or> sessionKeys r \<inter> S = {}"
  shows "aff_inv (fst (runPicks (affinityPick pick weighted) st reqs))
    \<and> sc_ttl (snd (fst (runPicks (affinityPick pick weighted) st reqs))) = sc_ttl (snd st)
    \<and> separated S (snd (fst (runPicks (affinityPick pick weighted) st reqs)))
    \<and> (x \<in> S \<and> (\<forall>(r, cs)\<in>set reqs. sessionKeys r \<inter> S = {}) \<longrightarrow>
        bound (snd (fst (runPicks (affinityPick pick weighted) st reqs))) t x = bound (snd st) t x)"
  using assms
proof (induction reqs arbitrary: st)
  case (Cons q reqs)
  obtain r cs where q: "q = (r, cs)" by force
  let ?st = "fst (affinityPick pick weighted st r cs)"
  have side: "sessionKeys r \<subseteq> S \<or> sessionKeys r \<inter> S = {}" using Cons.prems(3) q by simp
  note step = aff_step_inv [OF Cons.prems(1), of r cs] pick_separated [OF Cons.prems(1,2) side, where cs = cs]
  from Cons.IH [of ?st] step Cons.prems(3) show ?case by (auto simp: q split_def Let_def)
qed simp

lemma pick_hit:
  assumes st: "aff_inv st" and r: "pr_primaryID r \<noteq> []"
    and b: "bound (snd st) (pr_now r) (cacheKey r) = Some (a_ID a)" and a: "bestCandidate elig r cs a"
  shows "\<exists>b. snd (affinityPick pick weighted st r cs) = Inr b \<and> a_ID b = a_ID a"
proof -
  have ok: "cache_ok (snd st)" using st by (simp add: aff_inv_def)
  obtain c where g: "sc_GetAndRefresh (pr_now r) (cacheKey r) (snd st) = (c, Some (a_ID a))"
    using sc.refresh_look [OF ok cacheKey_ne, of "pr_now r" r] b by (metis prod.collapse)
  obtain av where av: "getAvailableAuths (if weighted then positiveWeightAuths cs else cs)
      (pr_provider r) (pr_model r) (pr_now r) = Inr av"
    using a getAvailable_no_best [of weighted cs r _ a] elig_weighted
    by (cases "getAvailableAuths (if weighted then positiveWeightAuths cs else cs) (pr_provider r) (pr_model r) (pr_now r)") auto
  have "a \<in> set av" using getAvailable_best [OF av] a elig_weighted by simp
  then obtain b where "find (\<lambda>x. a_ID x = a_ID a) av = Some b"
    by (cases "find (\<lambda>x. a_ID x = a_ID a) av") (auto simp: find_None_iff)
  moreover from find_Some_filter [OF this] have "a_ID b = a_ID a" by simp
  ultimately show ?thesis using r av g by (simp add: affinityPick_def)
qed

end

text \<open>Two requests of one session with other requests before and between them: the results of the
  two.\<close>

definition servedTwice :: "('s \<Rightarrow> PickRequest \<Rightarrow> Auth option list \<Rightarrow> 's \<times> (PickError + Auth)) \<Rightarrow> 's
    \<Rightarrow> (PickRequest \<times> Auth option list) list \<Rightarrow> PickRequest \<times> Auth option list
    \<Rightarrow> (PickRequest \<times> Auth option list) list \<Rightarrow> PickRequest \<times> Auth option list
    \<Rightarrow> (PickError + Auth) \<times> (PickError + Auth)" where
  "servedTwice pick st before q between q' =
     (let (st, res) = pick (fst (runPicks pick st before)) (fst q) (snd q)
      in (res, snd (pick (fst (runPicks pick st between)) (fst q') (snd q'))))"

context affinity
begin

lemma sticky:
  assumes st: "aff_inv st" "sc_entries (snd st) = []"
    and before: "\<forall>(q, _)\<in>set before. sessionKeys q \<subseteq> S \<or> sessionKeys q \<inter> S = {}"
    and between: "\<forall>(q, _)\<in>set between. sessionKeys q \<inter> S = {}"
    and r: "pr_primaryID r \<noteq> []" "sessionKeys r \<subseteq> S" and r': "pr_primaryID r' \<noteq> []" "cacheKey r' = cacheKey r"
    and t: "pr_now r' < pr_now r + sc_ttl (snd st)"
    and a: "fst (servedTwice (affinityPick pick weighted) st before (r, cs) between (r', cs')) = Inr a"
      "a_ID a \<noteq> []" "bestCandidate elig r' cs' a"
  shows "\<exists>b. snd (servedTwice (affinityPick pick weighted) st before (r, cs) between (r', cs')) = Inr b \<and> a_ID b = a_ID a"
proof -
  let ?P = "affinityPick pick weighted"
  define st1 where "st1 = fst (runPicks ?P st before)"
  define st2 where "st2 = fst (?P st1 r cs)"
  define st3 where "st3 = fst (runPicks ?P st2 between)"
  have S: "separated S (snd st)" by (simp add: separated_def st(2))
  have 1: "aff_inv st1" "sc_ttl (snd st1) = sc_ttl (snd st)" "separated S (snd st1)"
    using run_separated [OF st(1) S, of before] before by (auto simp: st1_def)
  have res: "snd (?P st1 r cs) = Inr a" using a(1) by (simp add: servedTwice_def st1_def split_def Let_def)
  have 2: "aff_inv st2" "separated S (snd st2)"
    using aff_step_inv [OF 1(1)] pick_separated(1) [OF 1(1,3) disjI1 [OF r(2)]] by (auto simp: st2_def)
  have k: "cacheKey r \<in> S" using r by (auto simp: sessionKeys_def split: if_splits)
  have "bound (snd st2) (pr_now r') (cacheKey r) = Some (a_ID a)"
    unfolding st2_def using t 1(2) by (intro pick_binds [OF 1(1) r(1) res a(2)]) simp
  then have "bound (snd st3) (pr_now r') (cacheKey r') = Some (a_ID a)" and 3: "aff_inv st3"
    using run_separated [OF 2, of between "cacheKey r" "pr_now r'"] between k r'(2) by (auto simp: st3_def)
  from pick_hit [OF 3 r'(1) this(1) a(3)] show ?thesis
    by (simp add: servedTwice_def st1_def [symmetric] split_def Let_def st2_def [symmetric] st3_def [symmetric])
qed

end

interpretation rra: affinity cursors_ok roundRobinPick "\<lambda>_. True" False
  by unfold_locales (simp add: eligible_def fun_eq_iff)

interpretation ffa: affinity "\<lambda>_. True" fillFirstPick "\<lambda>_. True" False
  by unfold_locales (simp add: eligible_def fun_eq_iff)

interpretation wra: affinity "\<lambda>_. True" weightedPick positiveWeight True
  by unfold_locales (simp add: eligible_def fun_eq_iff)

lemmas aff_inv_defs = rra.aff_inv_def ffa.aff_inv_def wra.aff_inv_def

section \<open>Properties\<close>

lemma fresh_cache_ok: "cache_ok (newSessionAffinityCache ttl)"
  "sc_entries (newSessionAffinityCache ttl) = []"
  by (simp_all add: newSessionAffinityCache_def cache_ok_def newSessionCache_def groups_ok_def)

text \<open>
  C21: affinity changes which of the best candidates a session gets, never whether the candidate
  is a best one: over every strategy, from the initial state and on every sequence of requests,
  the affinity selector still returns an unblocked candidate of the greatest priority (of
  positive weight over the weighted strategy) and an error only when there is none.
\<close>

theorem affinity_serves_best:
  "list_all2 (\<lambda>(r, cs) res. case res of
       Inr a \<Rightarrow> bestCandidate (\<lambda>_. True) r cs a
     | Inl _ \<Rightarrow> \<not> (\<exists>a. bestCandidate (\<lambda>_. True) r cs a))
     reqs (snd (runPicks (affinityPick roundRobinPick False)
       (\<lparr>rr_cursors = [], rr_maxKeys = k\<rparr>, newSessionAffinityCache ttl) reqs))
   \<and> list_all2 (\<lambda>(r, cs) res. case res of
       Inr a \<Rightarrow> bestCandidate (\<lambda>_. True) r cs a
     | Inl _ \<Rightarrow> \<not> (\<exists>a. bestCandidate (\<lambda>_. True) r cs a))
     reqs (snd (runPicks (affinityPick fillFirstPick False) ((), newSessionAffinityCache ttl) reqs))
   \<and> list_all2 (\<lambda>(r, cs) res. case res of
       Inr a \<Rightarrow> bestCandidate (\<lambda>c. 0 < authWeight c) r cs a
     | Inl _ \<Rightarrow> \<not> (\<exists>a. bestCandidate (\<lambda>c. 0 < authWeight c) r cs a))
     reqs (snd (runPicks (affinityPick weightedPick True)
       (\<lparr>wr_states = [], wr_maxKeys = k\<rparr>, newSessionAffinityCache ttl) reqs))"
  by (intro conjI rra.aff.run_best ffa.aff.run_best wra.aff.run_best)
    (simp_all add: aff_inv_defs cursors_ok_def fresh_cache_ok)

text \<open>
  C29: a session sticks to its credential. Let \<open>S\<close> hold the cache keys of the session. After a
  request of the session is served by a credential, and whatever requests of other sessions come
  in between, the next request of the session within the time to live is served by the same
  credential, as long as that credential is still one of the best candidates; over every strategy
  and after any history.
\<close>

theorem session_sticks:
  assumes "\<forall>(q, _)\<in>set before. sessionKeys q \<subseteq> S \<or> sessionKeys q \<inter> S = {}"
    and "\<forall>(q, _)\<in>set between. sessionKeys q \<inter> S = {}"
    and "pr_primaryID r \<noteq> []" "sessionKeys r \<subseteq> S" "pr_primaryID r' \<noteq> []" "cacheKey r' = cacheKey r"
    and "pr_now r' < pr_now r + sc_ttl (newSessionAffinityCache ttl)" "a_ID a \<noteq> []"
  shows "(fst (servedTwice (affinityPick roundRobinPick False)
        (\<lparr>rr_cursors = [], rr_maxKeys = k\<rparr>, newSessionAffinityCache ttl) before (r, cs) between (r', cs')) = Inr a
      \<and> bestCandidate (\<lambda>_. True) r' cs' a \<longrightarrow>
      (\<exists>b. snd (servedTwice (affinityPick roundRobinPick False)
        (\<lparr>rr_cursors = [], rr_maxKeys = k\<rparr>, newSessionAffinityCache ttl) before (r, cs) between (r', cs')) = Inr b
        \<and> a_ID b = a_ID a))
    \<and> (fst (servedTwice (affinityPick fillFirstPick False)
        ((), newSessionAffinityCache ttl) before (r, cs) between (r', cs')) = Inr a
      \<and> bestCandidate (\<lambda>_. True) r' cs' a \<longrightarrow>
      (\<exists>b. snd (servedTwice (affinityPick fillFirstPick False)
        ((), newSessionAffinityCache ttl) before (r, cs) between (r', cs')) = Inr b \<and> a_ID b = a_ID a))
    \<and> (fst (servedTwice (affinityPick weightedPick True)
        (\<lparr>wr_states = [], wr_maxKeys = k\<rparr>, newSessionAffinityCache ttl) before (r, cs) between (r', cs')) = Inr a
      \<and> bestCandidate (\<lambda>c. 0 < authWeight c) r' cs' a \<longrightarrow>
      (\<exists>b. snd (servedTwice (affinityPick weightedPick True)
        (\<lparr>wr_states = [], wr_maxKeys = k\<rparr>, newSessionAffinityCache ttl) before (r, cs) between (r', cs')) = Inr b
        \<and> a_ID b = a_ID a))"
proof -
  have "rra.aff_inv (\<lparr>rr_cursors = [], rr_maxKeys = k\<rparr>, newSessionAffinityCache ttl)"
    "ffa.aff_inv ((), newSessionAffinityCache ttl)"
    "wra.aff_inv (\<lparr>wr_states = [], wr_maxKeys = k\<rparr>, newSessionAffinityCache ttl)"
    by (simp_all add: aff_inv_defs cursors_ok_def fresh_cache_ok)
  note init = this
  show ?thesis
    using rra.sticky [OF init(1) _ assms(1-6)] ffa.sticky [OF init(2) _ assms(1-6)]
      wra.sticky [OF init(3) _ assms(1-6)] assms(7,8)
    by (intro conjI impI) (simp_all add: fresh_cache_ok)
qed

abbreviation session_request :: "string \<Rightarrow> gotime \<Rightarrow> PickRequest" where
  "session_request i now \<equiv> \<lparr>pr_provider = ''codex'', pr_model = ''m'', pr_now = now, pr_websocket = False,
     pr_routeModel = None, pr_primaryID = i, pr_fallbackID = []\<rparr>"

lemma session_sticks_witness:
  "map_sum id a_ID (fst (servedTwice (affinityPick roundRobinPick False)
     (\<lparr>rr_cursors = [], rr_maxKeys = 0\<rparr>, newSessionAffinityCache 100) []
     (session_request ''s'' 5, [Some (new_auth ''a'' ''codex''), Some (new_auth ''b'' ''codex'')])
     [(session_request ''u'' 6, [Some (new_auth ''a'' ''codex''), Some (new_auth ''b'' ''codex'')])]
     (session_request ''s'' 7, [Some (new_auth ''a'' ''codex''), Some (new_auth ''b'' ''codex'')]))) = Inr ''a''
   \<and> (\<exists>b. snd (servedTwice (affinityPick roundRobinPick False)
     (\<lparr>rr_cursors = [], rr_maxKeys = 0\<rparr>, newSessionAffinityCache 100) []
     (session_request ''s'' 5, [Some (new_auth ''a'' ''codex''), Some (new_auth ''b'' ''codex'')])
     [(session_request ''u'' 6, [Some (new_auth ''a'' ''codex''), Some (new_auth ''b'' ''codex'')])]
     (session_request ''s'' 7, [Some (new_auth ''a'' ''codex''), Some (new_auth ''b'' ''codex'')])) = Inr b
     \<and> a_ID b = ''a'')"
proof -
  let ?a = "new_auth ''a'' ''codex''" and ?cs = "[Some (new_auth ''a'' ''codex''), Some (new_auth ''b'' ''codex'')]"
  let ?s = "servedTwice (affinityPick roundRobinPick False)
     (\<lparr>rr_cursors = [], rr_maxKeys = 0\<rparr>, newSessionAffinityCache 100) []
     (session_request ''s'' 5, ?cs) [(session_request ''u'' 6, ?cs)] (session_request ''s'' 7, ?cs)"
  have f: "fst ?s = Inr ?a" by code_simp
  have "getAvailableAuths (if False then positiveWeightAuths ?cs else ?cs) ''codex'' ''m'' 7 = Inr [?a, new_auth ''b'' ''codex'']"
    by code_simp
  then have "getAvailableAuths (if False then positiveWeightAuths ?cs else ?cs) (pr_provider (session_request ''s'' 7))
      (pr_model (session_request ''s'' 7)) (pr_now (session_request ''s'' 7)) = Inr [?a, new_auth ''b'' ''codex'']" by simp
  from getAvailable_best [OF this, of ?a] have b: "bestCandidate (\<lambda>_. True) (session_request ''s'' 7) ?cs ?a"
    by (simp add: eligible_def [abs_def])
  have k: "sessionKeys (session_request ''s'' 5) = {''codex::s::m''}" "sessionKeys (session_request ''u'' 6) = {''codex::u::m''}"
    "cacheKey (session_request ''s'' 7) = cacheKey (session_request ''s'' 5)"
    by (simp_all add: sessionKeys_def cacheKey_def fallbackKey_def)
  have "sc_ttl (newSessionAffinityCache 100) = 100" by code_simp
  with session_sticks [of "[]" "{''codex::s::m''}" "[(session_request ''u'' 6, ?cs)]" "session_request ''s'' 5"
      "session_request ''s'' 7" 100 ?a 0 ?cs ?cs] k f b
  show ?thesis by (simp add: new_auth_def)
qed

end
