(* ===== verification/RedisQueue.thy ===== *)
theory RedisQueue
  imports Prelude "HOL-Library.Word"
begin

text \<open>
  The in-process usage queue of \<open>backend/internal/redisqueue/queue.go\<close>: a first-in first-out queue
  with a retention window, kept in a slice with a moving head, and the subscribers that take
  payloads instead of the queue. The channels a queue has handed out form a store addressed by
  number, since a reader keeps its channel after the queue has dropped it. A send or close that
  would panic in Go is the result \<open>None\<close>.
\<close>

section \<open>State\<close>

record queueItem =
  qi_enqueuedAt :: gotime
  qi_payload :: string

record channel =
  ch_cap :: nat
  ch_buf :: "string list"
  ch_closed :: bool

record queue =
  q_items :: "queueItem list"
  q_head :: nat
  q_subscribers :: "(64 word, nat) gomap"
  q_nextSubscriberID :: "64 word"
  q_chans :: "channel list"

record Module =
  mo_enabled :: bool
  mo_retentionSeconds :: int
  mo_global :: queue
  mo_errorGlobal :: queue

abbreviation defaultRetentionSeconds :: int where "defaultRetentionSeconds \<equiv> 60"
abbreviation maxRetentionSeconds :: int where "maxRetentionSeconds \<equiv> 3600"
abbreviation usageSubscriberBuffer :: nat where "usageSubscriberBuffer \<equiv> 256"
abbreviation errorSubscriberBuffer :: nat where "errorSubscriberBuffer \<equiv> 256"

definition usageSupportRefreshPayload :: string where
  "usageSupportRefreshPayload = ''{'' @ [CHR 0x22] @ ''support_refresh'' @ [CHR 0x22] @ '':true}''"

definition usageRefreshPayload :: string where
  "usageRefreshPayload = ''{'' @ [CHR 0x22] @ ''refresh'' @ [CHR 0x22] @ '':true}''"

section \<open>The slice\<close>

text \<open>The loop of \<open>pruneLocked\<close> that moves the head over the expired items.\<close>

function pruneLoop :: "gotime \<Rightarrow> queueItem list \<Rightarrow> nat \<Rightarrow> nat" where
  "pruneLoop cutoff items head =
     (if head < length items \<and> qi_enqueuedAt (items ! head) < cutoff
      then pruneLoop cutoff items (head + 1) else head)"
  by pat_completeness auto
termination by (relation "measure (\<lambda>(_, items, head). length items - head)") auto

declare pruneLoop.simps [simp del]

definition pruneLocked :: "int \<Rightarrow> gotime \<Rightarrow> queue \<Rightarrow> queue" where
  "pruneLocked retentionSeconds now q =
     (if q_head q \<ge> length (q_items q) then q\<lparr>q_items := [], q_head := 0\<rparr>
      else let windowSeconds = (if retentionSeconds \<le> 0 then defaultRetentionSeconds else retentionSeconds);
               cutoff = now - windowSeconds * second
        in q\<lparr>q_head := pruneLoop cutoff (q_items q) (q_head q)\<rparr>)"

definition maybeCompactLocked :: "queue \<Rightarrow> queue" where
  "maybeCompactLocked q =
     (if q_head q = 0 then q
      else if q_head q \<ge> length (q_items q) then q\<lparr>q_items := [], q_head := 0\<rparr>
      else if q_head q < 1024 \<and> q_head q * 2 < length (q_items q) then q
      else q\<lparr>q_items := drop (q_head q) (q_items q), q_head := 0\<rparr>)"

definition enqueue :: "int \<Rightarrow> gotime \<Rightarrow> string \<Rightarrow> queue \<Rightarrow> queue" where
  "enqueue retentionSeconds now payload q =
     (let q = pruneLocked retentionSeconds now q;
          q = q\<lparr>q_items := q_items q @ [\<lparr>qi_enqueuedAt = now, qi_payload = payload\<rparr>]\<rparr>
      in maybeCompactLocked q)"

definition popOldest :: "int \<Rightarrow> gotime \<Rightarrow> int \<Rightarrow> queue \<Rightarrow> queue \<times> string list" where
  "popOldest retentionSeconds now count q =
     (let q = pruneLocked retentionSeconds now q;
          available = int (length (q_items q)) - int (q_head q)
      in if available \<le> 0 then (q\<lparr>q_items := [], q_head := 0\<rparr>, [])
         else let count = (if count > available then available else count);
                  out = map (\<lambda>i. qi_payload (q_items q ! (q_head q + i))) [0..<nat count]
           in (maybeCompactLocked (q\<lparr>q_head := q_head q + nat count\<rparr>), out))"

section \<open>Subscribers\<close>

text \<open>A \<open>select\<close> that sends or falls through to \<open>default\<close>, and \<open>close\<close>; both panic on a closed
  channel.\<close>

definition trySend :: "channel \<Rightarrow> string \<Rightarrow> (channel \<times> bool) option" where
  "trySend ch payload =
     (if ch_closed ch then None
      else if length (ch_buf ch) < ch_cap ch then Some (ch\<lparr>ch_buf := ch_buf ch @ [payload]\<rparr>, True)
      else Some (ch, False))"

definition closeChan :: "nat \<Rightarrow> channel list \<Rightarrow> channel list option" where
  "closeChan a chans = (if ch_closed (chans ! a) then None
     else Some (chans[a := (chans ! a)\<lparr>ch_closed := True\<rparr>]))"

text \<open>The loop of \<open>publishToSubscribers\<close>: the channels and the subscribers that are kept.\<close>

fun publishLoop :: "string \<Rightarrow> (64 word, nat) gomap \<Rightarrow> channel list \<Rightarrow> ((64 word, nat) gomap \<times> channel list) option" where
  "publishLoop payload [] chans = Some ([], chans)"
| "publishLoop payload ((i, a) # subs) chans =
     (case trySend (chans ! a) payload of
        None \<Rightarrow> None
      | Some (ch, True) \<Rightarrow>
          map_option (\<lambda>(kept, chans). ((i, a) # kept, chans)) (publishLoop payload subs (chans[a := ch]))
      | Some (_, False) \<Rightarrow>
          (case closeChan a chans of None \<Rightarrow> None | Some chans \<Rightarrow> publishLoop payload subs chans))"

definition publishToSubscribers :: "string \<Rightarrow> queue \<Rightarrow> (queue \<times> bool) option" where
  "publishToSubscribers payload q =
     (if q_subscribers q = [] then Some (q, False)
      else map_option (\<lambda>(subs, chans). (q\<lparr>q_subscribers := subs, q_chans := chans\<rparr>, True))
             (publishLoop payload (q_subscribers q) (q_chans q)))"

text \<open>The result is the identifier the \<open>unsubscribe\<close> closure captures and the address of the
  channel the reader gets.\<close>

definition subscribe :: "nat \<Rightarrow> string \<Rightarrow> queue \<Rightarrow> queue \<times> 64 word \<times> nat" where
  "subscribe buffer initialPayload q =
     (let subscriber = \<lparr>ch_cap = buffer, ch_buf = (if initialPayload \<noteq> [] then [initialPayload] else []),
            ch_closed = False\<rparr>;
          a = length (q_chans q);
          i = q_nextSubscriberID q + 1
      in (q\<lparr>q_subscribers := m_put i a (q_subscribers q), q_nextSubscriberID := i,
            q_chans := q_chans q @ [subscriber]\<rparr>, i, a))"

text \<open>\<open>unsubscribe\<close> and \<open>clear\<close> take their channels out of the map under the lock and close them after
  they have released it: the locked part returns the channels it owns from then on.\<close>

definition unsubscribeLocked :: "64 word \<Rightarrow> queue \<Rightarrow> queue \<times> nat list" where
  "unsubscribeLocked i q =
     (case m_get (q_subscribers q) i of
        Some a \<Rightarrow> (q\<lparr>q_subscribers := m_del i (q_subscribers q)\<rparr>, [a])
      | None \<Rightarrow> (q, []))"

definition clearLocked :: "queue \<Rightarrow> queue \<times> nat list" where
  "clearLocked q = (q\<lparr>q_items := [], q_head := 0, q_subscribers := []\<rparr>, map snd (q_subscribers q))"

definition closeOne :: "nat \<Rightarrow> queue \<Rightarrow> queue option" where
  "closeOne a q = map_option (\<lambda>chans. q\<lparr>q_chans := chans\<rparr>) (closeChan a (q_chans q))"

fun closeAll :: "nat list \<Rightarrow> queue \<Rightarrow> queue option" where
  "closeAll [] q = Some q"
| "closeAll (a # as) q = (case closeOne a q of None \<Rightarrow> None | Some q \<Rightarrow> closeAll as q)"

definition unsubscribe :: "64 word \<Rightarrow> queue \<Rightarrow> queue option" where
  "unsubscribe i q = (let (q, owned) = unsubscribeLocked i q in closeAll owned q)"

definition clear :: "queue \<Rightarrow> queue option" where
  "clear q = (let (q, owned) = clearLocked q in closeAll owned q)"

text \<open>A reader takes the next payload of its channel; \<open>None\<close> when there is none.\<close>

definition receive :: "nat \<Rightarrow> queue \<Rightarrow> queue \<times> string option" where
  "receive a q =
     (case ch_buf (q_chans q ! a) of
        [] \<Rightarrow> (q, None)
      | p # ps \<Rightarrow> (q\<lparr>q_chans := (q_chans q)[a := (q_chans q ! a)\<lparr>ch_buf := ps\<rparr>]\<rparr>, Some p))"

section \<open>The package\<close>

definition emptyQueue :: queue where
  "emptyQueue = \<lparr>q_items = [], q_head = 0, q_subscribers = [], q_nextSubscriberID = 0, q_chans = []\<rparr>"

definition initModule :: Module where
  "initModule = \<lparr>mo_enabled = False, mo_retentionSeconds = defaultRetentionSeconds,
     mo_global = emptyQueue, mo_errorGlobal = emptyQueue\<rparr>"

definition SetEnabled :: "bool \<Rightarrow> Module \<Rightarrow> Module option" where
  "SetEnabled v m =
     (let m = m\<lparr>mo_enabled := v\<rparr>
      in if v then Some m
         else case clear (mo_global m) of
           None \<Rightarrow> None
         | Some g \<Rightarrow> (case clear (mo_errorGlobal m) of
               None \<Rightarrow> None
             | Some e \<Rightarrow> Some (m\<lparr>mo_global := g, mo_errorGlobal := e\<rparr>)))"

definition SetRetentionSeconds :: "int \<Rightarrow> Module \<Rightarrow> Module" where
  "SetRetentionSeconds v m =
     m\<lparr>mo_retentionSeconds := (if v \<le> 0 then defaultRetentionSeconds
        else if v > maxRetentionSeconds then maxRetentionSeconds else v)\<rparr>"

definition Enqueue :: "gotime \<Rightarrow> string \<Rightarrow> Module \<Rightarrow> Module option" where
  "Enqueue now payload m =
     (if \<not> mo_enabled m then Some m
      else if payload = [] then Some m
      else case publishToSubscribers payload (mo_global m) of
        None \<Rightarrow> None
      | Some (g, True) \<Rightarrow> Some (m\<lparr>mo_global := g\<rparr>)
      | Some (g, False) \<Rightarrow> Some (m\<lparr>mo_global := enqueue (mo_retentionSeconds m) now payload g\<rparr>))"

definition EnqueueError :: "string \<Rightarrow> Module \<Rightarrow> Module option" where
  "EnqueueError payload m =
     (if \<not> mo_enabled m then Some m
      else if payload = [] then Some m
      else map_option (\<lambda>(g, _). m\<lparr>mo_errorGlobal := g\<rparr>) (publishToSubscribers payload (mo_errorGlobal m)))"

definition PopOldest :: "gotime \<Rightarrow> int \<Rightarrow> Module \<Rightarrow> Module \<times> string list" where
  "PopOldest now count m =
     (if \<not> mo_enabled m then (m, [])
      else if count \<le> 0 then (m, [])
      else let (g, out) = popOldest (mo_retentionSeconds m) now count (mo_global m)
        in (m\<lparr>mo_global := g\<rparr>, out))"

definition SubscribeUsage :: "Module \<Rightarrow> Module \<times> 64 word \<times> nat" where
  "SubscribeUsage m = (let (g, h) = subscribe usageSubscriberBuffer usageSupportRefreshPayload (mo_global m)
     in (m\<lparr>mo_global := g\<rparr>, h))"

definition SubscribeErrors :: "Module \<Rightarrow> Module \<times> 64 word \<times> nat" where
  "SubscribeErrors m = (let (g, h) = subscribe errorSubscriberBuffer [] (mo_errorGlobal m)
     in (m\<lparr>mo_errorGlobal := g\<rparr>, h))"

definition NotifyUsageRefresh :: "Module \<Rightarrow> Module option" where
  "NotifyUsageRefresh m =
     map_option (\<lambda>(g, _). m\<lparr>mo_global := g\<rparr>) (publishToSubscribers usageRefreshPayload (mo_global m))"

section \<open>The abstract queue\<close>

text \<open>The waiting items, oldest first, and the part of them inside the retention window.\<close>

definition waiting :: "queue \<Rightarrow> queueItem list" where
  "waiting q = drop (q_head q) (q_items q)"

definition windowOf :: "int \<Rightarrow> goduration" where
  "windowOf retentionSeconds = (if retentionSeconds \<le> 0 then defaultRetentionSeconds else retentionSeconds) * second"

definition fresh :: "int \<Rightarrow> gotime \<Rightarrow> queueItem list \<Rightarrow> queueItem list" where
  "fresh retentionSeconds now = dropWhile (\<lambda>i. qi_enqueuedAt i < now - windowOf retentionSeconds)"

lemma pruneLoop_drop: "drop (pruneLoop cutoff items head) items =
    dropWhile (\<lambda>i. qi_enqueuedAt i < cutoff) (drop head items)"
proof (induction cutoff items head rule: pruneLoop.induct)
  case (1 cutoff items head)
  then show ?case
    by (cases "head < length items")
      (simp_all add: pruneLoop.simps [of cutoff items head] Cons_nth_drop_Suc [symmetric])
qed

lemma prune_waiting: "waiting (pruneLocked ret now q) = fresh ret now (waiting q)"
  by (simp add: waiting_def pruneLocked_def fresh_def windowOf_def pruneLoop_drop Let_def)

lemma compact_waiting [simp]: "waiting (maybeCompactLocked q) = waiting q"
  by (simp add: waiting_def maybeCompactLocked_def)

text \<open>The layout of the slice: less than half of it and fewer than 1024 places are dead.\<close>

definition slice_ok :: "queue \<Rightarrow> bool" where
  "slice_ok q \<longleftrightarrow> q_head q < 1024 \<and> (q_head q = 0 \<or> q_head q * 2 < length (q_items q))"

lemma compact_ok: "slice_ok (maybeCompactLocked q)"
  by (auto simp: slice_ok_def maybeCompactLocked_def)

lemma pruneLoop_bound: "head \<le> length items \<Longrightarrow> pruneLoop cutoff items head \<le> length items"
  by (induction cutoff items head rule: pruneLoop.induct) (subst pruneLoop.simps, simp)

lemma prune_bound: "q_head (pruneLocked ret now q) \<le> length (q_items (pruneLocked ret now q))"
  by (auto simp: pruneLocked_def Let_def intro: pruneLoop_bound)

lemma enqueue_refines:
  "waiting (enqueue ret now p q) = fresh ret now (waiting q) @ [\<lparr>qi_enqueuedAt = now, qi_payload = p\<rparr>]"
  "slice_ok (enqueue ret now p q)"
proof -
  show "waiting (enqueue ret now p q) = fresh ret now (waiting q) @ [\<lparr>qi_enqueuedAt = now, qi_payload = p\<rparr>]"
    using prune_bound [of ret now q] prune_waiting [of ret now q]
    by (simp add: enqueue_def Let_def) (simp add: waiting_def)
qed (simp add: enqueue_def Let_def compact_ok)

lemma popOldest_refines:
  assumes "0 < count"
  shows "snd (popOldest ret now count q) = map qi_payload (take (nat count) (fresh ret now (waiting q)))"
    "waiting (fst (popOldest ret now count q)) = drop (nat count) (fresh ret now (waiting q))"
    "slice_ok (fst (popOldest ret now count q))"
proof -
  let ?q = "pruneLocked ret now q"
  have w: "fresh ret now (waiting q) = drop (q_head ?q) (q_items ?q)"
    using prune_waiting [of ret now q] by (simp add: waiting_def)
  have "snd (popOldest ret now count q) = map qi_payload (take (nat count) (fresh ret now (waiting q)))
    \<and> waiting (fst (popOldest ret now count q)) = drop (nat count) (fresh ret now (waiting q))
    \<and> slice_ok (fst (popOldest ret now count q))"
  proof (cases "length (q_items ?q) \<le> q_head ?q")
    case True
    then show ?thesis unfolding w by (simp add: popOldest_def Let_def waiting_def slice_ok_def)
  next
    case False
    define n where "n = min (nat count) (length (q_items ?q) - q_head ?q)"
    have n: "nat (if count > int (length (q_items ?q)) - int (q_head ?q)
        then int (length (q_items ?q)) - int (q_head ?q) else count) = n"
      using False assms by (auto simp: n_def)
    have "popOldest ret now count q = (maybeCompactLocked (?q\<lparr>q_head := q_head ?q + n\<rparr>),
        map (\<lambda>i. qi_payload (q_items ?q ! (q_head ?q + i))) [0..<n])"
      unfolding popOldest_def Let_def n using False by simp
    moreover have "map (\<lambda>i. qi_payload (q_items ?q ! (q_head ?q + i))) [0..<n] =
        map qi_payload (take (nat count) (drop (q_head ?q) (q_items ?q)))"
      by (rule nth_equalityI) (auto simp: n_def)
    moreover have "drop (q_head ?q + n) (q_items ?q) = drop (nat count) (drop (q_head ?q) (q_items ?q))"
      by (auto simp: n_def min_def add.commute)
    ultimately show ?thesis unfolding w by (simp add: compact_ok) (simp add: waiting_def)
  qed
  then show "snd (popOldest ret now count q) = map qi_payload (take (nat count) (fresh ret now (waiting q)))"
    "waiting (fst (popOldest ret now count q)) = drop (nat count) (fresh ret now (waiting q))"
    "slice_ok (fst (popOldest ret now count q))" by auto
qed

section \<open>The interface of the queue\<close>

text \<open>
  What the usage pipeline relies on: putting appends, taking removes from the front, and both drop
  what has left the retention window. \<open>held\<close> is the abstract content.
\<close>

locale retained_queue =
  fixes held :: "'q \<Rightarrow> queueItem list"
    and put :: "gotime \<Rightarrow> string \<Rightarrow> 'q \<Rightarrow> 'q"
    and take_some :: "gotime \<Rightarrow> int \<Rightarrow> 'q \<Rightarrow> 'q \<times> string list"
    and window :: goduration
  assumes window_pos: "0 < window"
    and put_held: "held (put now p q) =
      dropWhile (\<lambda>i. qi_enqueuedAt i < now - window) (held q) @ [\<lparr>qi_enqueuedAt = now, qi_payload = p\<rparr>]"
    and take_out: "0 < n \<Longrightarrow> snd (take_some now n q) =
      map qi_payload (take (nat n) (dropWhile (\<lambda>i. qi_enqueuedAt i < now - window) (held q)))"
    and take_held: "0 < n \<Longrightarrow> held (fst (take_some now n q)) =
      drop (nat n) (dropWhile (\<lambda>i. qi_enqueuedAt i < now - window) (held q))"

datatype QueueOp = OpPut gotime string | OpPop gotime int

fun opTime :: "QueueOp \<Rightarrow> gotime" where
  "opTime (OpPut t _) = t" | "opTime (OpPop t _) = t"

fun putPayloads :: "QueueOp list \<Rightarrow> string list" where
  "putPayloads [] = []"
| "putPayloads (OpPut _ p # ops) = p # putPayloads ops"
| "putPayloads (OpPop _ _ # ops) = putPayloads ops"

text \<open>A run of operations: the final queue and all the payloads taken, in order. A take of no
  positive count is refused by the package.\<close>

fun runOps :: "(gotime \<Rightarrow> string \<Rightarrow> 'q \<Rightarrow> 'q) \<Rightarrow> (gotime \<Rightarrow> int \<Rightarrow> 'q \<Rightarrow> 'q \<times> string list) \<Rightarrow> 'q \<Rightarrow> QueueOp list
    \<Rightarrow> 'q \<times> string list" where
  "runOps put pop q [] = (q, [])"
| "runOps put pop q (OpPut t p # ops) = runOps put pop (put t p q) ops"
| "runOps put pop q (OpPop t n # ops) =
     (if n \<le> 0 then runOps put pop q ops
      else let (q, out) = pop t n q; (q, rest) = runOps put pop q ops in (q, out @ rest))"

lemma subseq_dropWhile: "subseq (dropWhile P xs) xs"
  by (metis suffix_dropWhile suffix_imp_subseq)

context retained_queue
begin

lemma run_fifo:
  "subseq (snd (runOps put take_some q ops) @ map qi_payload (held (fst (runOps put take_some q ops))))
     (map qi_payload (held q) @ putPayloads ops)"
proof (induction ops arbitrary: q)
  case (Cons x ops)
  show ?case
  proof (cases x)
    case (OpPut t p)
    have "subseq (map qi_payload (held (put t p q)) @ putPayloads ops)
        (map qi_payload (held q) @ p # putPayloads ops)"
      using subseq_dropWhile [of "\<lambda>i. qi_enqueuedAt i < t - window" "held q"]
      by (simp add: put_held list_emb_append_mono subseq_map)
    with Cons.IH [of "put t p q"] show ?thesis by (auto simp: OpPut intro: subseq_order.trans)
  next
    case (OpPop t n)
    let ?f = "dropWhile (\<lambda>i. qi_enqueuedAt i < t - window) (held q)"
    show ?thesis
    proof (cases "n \<le> 0")
      case True
      then show ?thesis using Cons.IH by (simp add: OpPop)
    next
      case False
      let ?q = "fst (take_some t n q)"
      have "subseq (map qi_payload (take (nat n) ?f) @ snd (runOps put take_some ?q ops)
            @ map qi_payload (held (fst (runOps put take_some ?q ops))))
          (map qi_payload (take (nat n) ?f) @ map qi_payload (held ?q) @ putPayloads ops)"
        using Cons.IH [of ?q] by (simp add: list_emb_append_mono)
      also have "\<dots> = map qi_payload ?f @ putPayloads ops"
        using False by (simp add: take_held flip: map_append append_assoc)
      also have "subseq \<dots> (map qi_payload (held q) @ putPayloads ops)"
        by (intro list_emb_append_mono subseq_map subseq_dropWhile) simp_all
      finally show ?thesis using False take_out [of n t q] by (simp add: OpPop split_def Let_def)
    qed
  qed
qed simp

lemma run_lossless:
  assumes "\<forall>x\<in>set ops. \<forall>y\<in>set ops. opTime y - opTime x \<le> window"
    and "\<forall>x\<in>set ops. \<forall>i\<in>set (held q). opTime x - qi_enqueuedAt i \<le> window"
  shows "snd (runOps put take_some q ops) @ map qi_payload (held (fst (runOps put take_some q ops))) =
     map qi_payload (held q) @ putPayloads ops"
  using assms
proof (induction ops arbitrary: q)
  case (Cons x ops)
  have f: "dropWhile (\<lambda>i. qi_enqueuedAt i < opTime x - window) (held q) = held q"
    using Cons.prems(2) by (intro dropWhile_none) (fastforce simp: list_all_iff)
  show ?case
  proof (cases x)
    case (OpPut t p)
    have "\<forall>y\<in>set ops. \<forall>i\<in>set (held (put t p q)). opTime y - qi_enqueuedAt i \<le> window"
      using Cons.prems f by (auto simp: put_held OpPut)
    with Cons.IH [of "put t p q"] Cons.prems(1) f show ?thesis by (simp add: OpPut put_held)
  next
    case (OpPop t n)
    show ?thesis
    proof (cases "n \<le> 0")
      case True
      then show ?thesis using Cons by (simp add: OpPop)
    next
      case False
      let ?q = "fst (take_some t n q)"
      have h: "held ?q = drop (nat n) (held q)" "snd (take_some t n q) = map qi_payload (take (nat n) (held q))"
        using False f by (simp_all add: take_held take_out OpPop)
      have "\<forall>y\<in>set ops. \<forall>i\<in>set (held ?q). opTime y - qi_enqueuedAt i \<le> window"
        using Cons.prems(2) by (auto simp: h dest: in_set_dropD)
      moreover have "map qi_payload (held q) = map qi_payload (take (nat n) (held q)) @ map qi_payload (drop (nat n) (held q))"
        by (simp flip: map_append)
      ultimately show ?thesis
        using Cons.IH [of ?q] Cons.prems(1) False h by (simp add: OpPop split_def Let_def)
    qed
  qed
qed simp

end

interpretation uq: retained_queue waiting "enqueue ret" "popOldest ret" "windowOf ret" for ret
  by unfold_locales (auto simp: enqueue_refines popOldest_refines fresh_def windowOf_def)

section \<open>Subscriber channels\<close>

text \<open>A queue with the channels whose close is still due after the lock was released. The
  channels in the map and those are distinct, exist and are open, and no buffer is over its
  capacity.\<close>

definition chans_ok :: "queue \<Rightarrow> nat list \<Rightarrow> bool" where
  "chans_ok q due \<longleftrightarrow> distinct (map snd (q_subscribers q) @ due)
     \<and> (\<forall>a\<in>set (map snd (q_subscribers q) @ due). a < length (q_chans q) \<and> \<not> ch_closed (q_chans q ! a))
     \<and> (\<forall>ch\<in>set (q_chans q). length (ch_buf ch) \<le> ch_cap ch)"

lemma list_update_subset: "x \<in> set (xs[i := v]) \<Longrightarrow> x = v \<or> x \<in> set xs"
  using set_update_subset_insert by fastforce

text \<open>What a publication does to the channels: a subscriber with room gets the payload, a full one
  is dropped and closed.\<close>

definition delivered :: "string \<Rightarrow> channel \<Rightarrow> channel" where
  "delivered p ch = (if length (ch_buf ch) < ch_cap ch then ch\<lparr>ch_buf := ch_buf ch @ [p]\<rparr> else ch\<lparr>ch_closed := True\<rparr>)"

lemma publishLoop_spec:
  assumes "distinct (map snd subs)" "\<forall>a\<in>set (map snd subs). a < length chans \<and> \<not> ch_closed (chans ! a)"
  shows "\<exists>chans'. publishLoop p subs chans =
      Some (filter (\<lambda>(_, a). length (ch_buf (chans ! a)) < ch_cap (chans ! a)) subs, chans')
    \<and> length chans' = length chans
    \<and> (\<forall>a < length chans. chans' ! a = (if a \<in> set (map snd subs) then delivered p (chans ! a) else chans ! a))"
  using assms
proof (induction subs arbitrary: chans)
  case (Cons s subs)
  obtain i a where s: "s = (i, a)" by force
  have a: "a < length chans" "\<not> ch_closed (chans ! a)" "a \<notin> set (map snd subs)" using Cons.prems s by auto
  let ?c = "chans[a := delivered p (chans ! a)]"
  have prem: "\<forall>b\<in>set (map snd subs). b < length ?c \<and> \<not> ch_closed (?c ! b)"
    using Cons.prems a(3) s by (auto simp: nth_list_update)
  obtain c' where c': "publishLoop p subs ?c =
      Some (filter (\<lambda>(_, b). length (ch_buf (?c ! b)) < ch_cap (?c ! b)) subs, c')" "length c' = length ?c"
      "\<forall>b < length ?c. c' ! b = (if b \<in> set (map snd subs) then delivered p (?c ! b) else ?c ! b)"
    using Cons.IH [OF _ prem] Cons.prems(1) s by auto
  have f: "filter (\<lambda>(_, b). length (ch_buf (?c ! b)) < ch_cap (?c ! b)) subs =
      filter (\<lambda>(_, b). length (ch_buf (chans ! b)) < ch_cap (chans ! b)) subs"
    using a(3) by (intro filter_cong) (auto simp: nth_list_update image_iff)
  have "publishLoop p (s # subs) chans =
      Some (filter (\<lambda>(_, b). length (ch_buf (chans ! b)) < ch_cap (chans ! b)) (s # subs), c')"
    using c'(1) a f by (auto simp: s trySend_def closeChan_def delivered_def)
  moreover have "c' ! b = (if b \<in> set (map snd (s # subs)) then delivered p (chans ! b) else chans ! b)"
    if "b < length chans" for b
    using c'(3) that a by (auto simp: s nth_list_update)
  ultimately show ?case using c'(2) by auto
qed simp

inductive chan_step :: "queue \<times> nat list \<Rightarrow> queue \<times> nat list \<Rightarrow> bool" where
  subscribe: "0 < buffer \<Longrightarrow> chan_step (q, due) (fst (subscribe buffer p q), due)"
| publish: "publishToSubscribers p q = Some (q', b) \<Longrightarrow> chan_step (q, due) (q', due)"
| unsubscribe: "unsubscribeLocked i q = (q', owned) \<Longrightarrow> chan_step (q, due) (q', due @ owned)"
| clear: "clearLocked q = (q', owned) \<Longrightarrow> chan_step (q, due) (q', due @ owned)"
| close_one: "closeOne a q = Some q' \<Longrightarrow> chan_step (q, xs @ a # ys) (q', xs @ ys)"
| receive: "chan_step (q, due) (fst (receive a q), due)"
| enqueue: "chan_step (q, due) (enqueue ret now p q, due)"
| pop: "chan_step (q, due) (fst (popOldest ret now n q), due)"

inductive_cases chan_stepE: "chan_step (q, due) s"

inductive chan_reach :: "queue \<times> nat list \<Rightarrow> bool" where
  init: "chan_reach (emptyQueue, [])"
| step: "chan_reach s \<Longrightarrow> chan_step s s' \<Longrightarrow> chan_reach s'"

text \<open>The operations on the slice leave the channels alone.\<close>

lemma slice_frame [simp]:
  "q_subscribers (maybeCompactLocked q) = q_subscribers q" "q_chans (maybeCompactLocked q) = q_chans q"
  "q_subscribers (pruneLocked ret now q) = q_subscribers q" "q_chans (pruneLocked ret now q) = q_chans q"
  by (simp_all add: maybeCompactLocked_def pruneLocked_def Let_def)

lemma slice_ops_frame [simp]:
  "q_subscribers (enqueue ret now p q) = q_subscribers q" "q_chans (enqueue ret now p q) = q_chans q"
  "q_subscribers (fst (popOldest ret now n q)) = q_subscribers q" "q_chans (fst (popOldest ret now n q)) = q_chans q"
  by (simp_all add: enqueue_def popOldest_def Let_def)

lemma subscribe_ok:
  assumes "chans_ok q due" "0 < buffer"
  shows "chans_ok (fst (subscribe buffer p q)) due"
proof -
  let ?a = "length (q_chans q)" and ?i = "q_nextSubscriberID q + 1"
  have new: "?a \<notin> set (map snd (q_subscribers q) @ due)" using assms(1) by (auto simp: chans_ok_def)
  have "set (map snd (AList.update i a m)) \<subseteq> insert a (set (map snd m))" for i a and m :: "(64 word, nat) gomap"
    using m_put_subset [of i a m] by auto
  note sub = this [of ?i ?a "q_subscribers q"]
  have "distinct (map snd m @ due) \<Longrightarrow> a \<notin> set (map snd m @ due) \<Longrightarrow> distinct (map snd (AList.update i a m) @ due)"
    for i a and m :: "(64 word, nat) gomap"
  proof (induction m)
    case (Cons x m)
    have "set (map snd (AList.update i a m)) \<subseteq> insert a (set (map snd m))" using m_put_subset [of i a m] by auto
    with Cons show ?case by (cases x) auto
  qed auto
  with new assms(1) have "distinct (map snd (AList.update ?i ?a (q_subscribers q)) @ due)"
    by (simp add: chans_ok_def)
  moreover let ?c = "\<lparr>ch_cap = buffer, ch_buf = (if p \<noteq> [] then [p] else []), ch_closed = False\<rparr>"
  have "a < length (q_chans q @ [?c]) \<and> \<not> ch_closed ((q_chans q @ [?c]) ! a)"
    if "a \<in> set (map snd (AList.update ?i ?a (q_subscribers q)) @ due)" for a
  proof -
    have "a = ?a \<or> a \<in> set (map snd (q_subscribers q) @ due)" using that sub by auto
    then show ?thesis using assms(1) by (auto simp: chans_ok_def nth_append)
  qed
  moreover have "\<forall>ch\<in>set (q_chans q @ [?c]). length (ch_buf ch) \<le> ch_cap ch"
    using assms by (simp add: chans_ok_def)
  ultimately show ?thesis
    unfolding chans_ok_def by (simp add: subscribe_def Let_def)
qed

lemma publish_spec:
  assumes "chans_ok q due"
  obtains chans where "publishToSubscribers p q =
      Some (q\<lparr>q_subscribers := filter (\<lambda>(_, a). length (ch_buf (q_chans q ! a)) < ch_cap (q_chans q ! a)) (q_subscribers q),
          q_chans := chans\<rparr>, q_subscribers q \<noteq> [])"
    "length chans = length (q_chans q)"
    "\<forall>a < length chans. chans ! a = (if a \<in> snd ` set (q_subscribers q) then delivered p (q_chans q ! a) else q_chans q ! a)"
proof -
  obtain c where "publishLoop p (q_subscribers q) (q_chans q) =
      Some (filter (\<lambda>(_, a). length (ch_buf (q_chans q ! a)) < ch_cap (q_chans q ! a)) (q_subscribers q), c)"
    "length c = length (q_chans q)"
    "\<forall>a < length (q_chans q). c ! a = (if a \<in> set (map snd (q_subscribers q)) then delivered p (q_chans q ! a) else q_chans q ! a)"
    using publishLoop_spec [of "q_subscribers q" "q_chans q" p] assms by (auto simp: chans_ok_def)
  then show ?thesis
    by (intro that [of c]) (auto simp: publishToSubscribers_def)
qed

lemma publish_ok:
  assumes ok: "chans_ok q due" and pub: "publishToSubscribers p q = Some (q', b)"
  shows "chans_ok q' due"
proof -
  let ?room = "\<lambda>(_, a). length (ch_buf (q_chans q ! a)) < ch_cap (q_chans q ! a)"
  obtain chans where eq: "publishToSubscribers p q =
      Some (q\<lparr>q_subscribers := filter ?room (q_subscribers q), q_chans := chans\<rparr>, q_subscribers q \<noteq> [])"
    and len: "length chans = length (q_chans q)"
    and nth: "\<forall>a < length chans. chans ! a = (if a \<in> snd ` set (q_subscribers q) then delivered p (q_chans q ! a) else q_chans q ! a)"
    using publish_spec [OF ok] .
  have "q' = q\<lparr>q_subscribers := filter ?room (q_subscribers q), q_chans := chans\<rparr>" using eq pub by simp
  note c = this len nth
  have "length (ch_buf ch) \<le> ch_cap ch" if ch: "ch \<in> set chans" for ch
  proof -
    obtain a where "a < length chans" "ch = chans ! a" using ch by (auto simp: in_set_conv_nth)
    moreover have "length (ch_buf (q_chans q ! a)) \<le> ch_cap (q_chans q ! a)"
      using ok calculation(1) c(2) by (simp add: chans_ok_def)
    ultimately show ?thesis using c(3) by (auto simp: delivered_def)
  qed
  moreover have "distinct (map snd (filter ?room (q_subscribers q)) @ due)"
    using ok distinct_map_filter [of snd "q_subscribers q" ?room] by (auto simp: chans_ok_def)
  moreover have "a < length chans \<and> \<not> ch_closed (chans ! a)"
    if mem: "a \<in> set (map snd (filter ?room (q_subscribers q)) @ due)" for a
  proof (cases "a \<in> set due")
    case True
    then have "a \<notin> snd ` set (q_subscribers q)" using ok by (auto simp: chans_ok_def)
    then show ?thesis using True ok c(2,3) by (auto simp: chans_ok_def)
  next
    case False
    then obtain i where "(i, a) \<in> set (q_subscribers q)" "length (ch_buf (q_chans q ! a)) < ch_cap (q_chans q ! a)"
      using mem by auto
    moreover have "a < length (q_chans q) \<and> \<not> ch_closed (q_chans q ! a)"
      using ok calculation(1) by (force simp: chans_ok_def)
    ultimately show ?thesis using c(2,3) by (force simp: delivered_def)
  qed
  ultimately show ?thesis by (simp add: c(1) chans_ok_def)
qed

lemma delete_value:
  assumes "m_ok m" "m_get m i = Some a" "distinct (map snd m)"
  shows "set (map snd (AList.delete i m)) = set (map snd m) - {a} \<and> distinct (map snd (AList.delete i m))"
proof -
  have mem: "(i, a) \<in> set m" using assms(2) by (rule map_of_SomeD)
  have "set (AList.delete i m) = set m - {(i, a)}"
    using assms(1) mem by (auto simp: AList.delete_eq dest: eq_key_imp_eq_value)
  moreover have "inj_on snd (set m)" using assms(3) by (simp add: distinct_map)
  ultimately have "snd ` set (AList.delete i m) = snd ` set m - snd ` {(i, a)}"
    using mem by (simp add: inj_on_image_set_diff [of snd "set m"])
  moreover have "distinct (map snd (AList.delete i m))"
    using assms(3) by (simp add: AList.delete_eq distinct_map_filter)
  ultimately show ?thesis by simp
qed

lemma close_ok:
  assumes "chans_ok q (xs @ a # ys)"
  shows "\<exists>q'. closeOne a q = Some q' \<and> chans_ok q' (xs @ ys) \<and> q_subscribers q' = q_subscribers q"
proof -
  let ?c = "(q_chans q)[a := (q_chans q ! a)\<lparr>ch_closed := True\<rparr>]"
  have a: "a < length (q_chans q)" "\<not> ch_closed (q_chans q ! a)" using assms by (auto simp: chans_ok_def)
  then have "closeOne a q = Some (q\<lparr>q_chans := ?c\<rparr>)" by (simp add: closeOne_def closeChan_def)
  moreover have "length (ch_buf ch) \<le> ch_cap ch" if "ch \<in> set ?c" for ch
    using list_update_subset [OF that] assms a(1) by (auto simp: chans_ok_def)
  moreover have "b \<noteq> a" if "b \<in> set (map snd (q_subscribers q) @ xs @ ys)" for b
    using that assms by (auto simp: chans_ok_def)
  ultimately show ?thesis using assms a by (auto simp: chans_ok_def nth_list_update)
qed

lemma closeAll_ok: "chans_ok q (due @ owned) \<Longrightarrow> \<exists>q'. closeAll owned q = Some q' \<and> chans_ok q' due"
proof (induction owned arbitrary: q)
  case (Cons a owned)
  obtain q' where "closeOne a q = Some q'" "chans_ok q' (due @ owned)" using close_ok [OF Cons.prems] by auto
  with Cons.IH [of q'] show ?case by auto
qed simp

lemma clear_locked_ok: "chans_ok q due \<Longrightarrow> chans_ok (fst (clearLocked q)) (due @ snd (clearLocked q))"
  by (auto simp: chans_ok_def clearLocked_def)

text \<open>The keys of the subscriber map are kept distinct as well.\<close>

definition queue_inv :: "queue \<times> nat list \<Rightarrow> bool" where
  "queue_inv s \<longleftrightarrow> chans_ok (fst s) (snd s) \<and> m_ok (q_subscribers (fst s))"

lemma unsubscribe_locked_ok:
  assumes "chans_ok q due" "m_ok (q_subscribers q)"
  shows "chans_ok (fst (unsubscribeLocked i q)) (due @ snd (unsubscribeLocked i q))"
proof (cases "m_get (q_subscribers q) i")
  case None
  then show ?thesis using assms by (simp add: unsubscribeLocked_def)
next
  case (Some a)
  have "distinct (map snd (q_subscribers q))" using assms(1) by (simp add: chans_ok_def)
  note del = delete_value [OF assms(2) Some this]
  have "a \<in> set (map snd (q_subscribers q))" using map_of_SomeD [OF Some] by force
  with assms(1) del Some show ?thesis by (auto simp: chans_ok_def unsubscribeLocked_def)
qed

lemma receive_ok: "chans_ok q due \<Longrightarrow> chans_ok (fst (receive a q)) due"
proof (cases "ch_buf (q_chans q ! a)")
  case (Cons p ps)
  assume ok: "chans_ok q due"
  let ?c = "(q_chans q)[a := (q_chans q ! a)\<lparr>ch_buf := ps\<rparr>]"
  have "length (ch_buf ch) \<le> ch_cap ch" if "ch \<in> set ?c" for ch
  proof (cases "a < length (q_chans q)")
    case True
    then have "length (ch_buf (q_chans q ! a)) \<le> ch_cap (q_chans q ! a)" using ok by (simp add: chans_ok_def)
    with list_update_subset [OF that] Cons ok show ?thesis by (auto simp: chans_ok_def)
  next
    case False
    then show ?thesis using that ok by (simp add: chans_ok_def list_update_beyond)
  qed
  moreover have "ch_closed (?c ! b) = ch_closed (q_chans q ! b)" for b
    by (cases "b = a"; cases "a < length (q_chans q)") (simp_all add: list_update_beyond)
  ultimately show ?thesis
    using ok Cons by (simp add: chans_ok_def receive_def)
qed (simp add: receive_def)

lemma queue_inv_step:
  assumes "chan_step s s'" "queue_inv s"
  shows "queue_inv s'"
  using assms
proof (induction rule: chan_step.induct)
  case (subscribe buffer q due p)
  then show ?case
    using subscribe_ok [of q due buffer p] by (simp add: queue_inv_def subscribe_def Let_def m_ok_put)
next
  case (publish p q q' b due)
  then have ok: "chans_ok q due" "m_ok (q_subscribers q)" by (auto simp: queue_inv_def)
  have "m_ok (q_subscribers q')"
  proof (rule publish_spec [OF ok(1), of p])
    fix chans
    assume "publishToSubscribers p q =
      Some (q\<lparr>q_subscribers := filter (\<lambda>(_, a). length (ch_buf (q_chans q ! a)) < ch_cap (q_chans q ! a)) (q_subscribers q),
          q_chans := chans\<rparr>, q_subscribers q \<noteq> [])"
    with publish(1) ok(2) show ?thesis by (auto intro: m_ok_filter)
  qed
  with publish_ok [OF ok(1) publish(1)] show ?case by (simp add: queue_inv_def)
next
  case (unsubscribe i q q' owned due)
  then show ?case using unsubscribe_locked_ok [of q due i]
    by (auto simp: queue_inv_def unsubscribeLocked_def intro: m_ok_del split: option.splits)
next
  case (clear q q' owned due)
  then show ?case using clear_locked_ok [of q due] by (auto simp: queue_inv_def clearLocked_def)
next
  case (close_one a q q' xs ys)
  then show ?case using close_ok [of q xs a ys] by (auto simp: queue_inv_def)
next
  case (receive q due a)
  then show ?case using receive_ok [of q due a]
    by (auto simp: queue_inv_def receive_def split: list.splits)
qed (simp_all add: queue_inv_def chans_ok_def)

lemma reach_inv: "chan_reach s \<Longrightarrow> queue_inv s"
proof (induction rule: chan_reach.induct)
  case init
  show ?case by (simp add: queue_inv_def chans_ok_def emptyQueue_def)
qed (rule queue_inv_step)

section \<open>Properties\<close>

text \<open>
  C27: the usage queue is first in, first out. On every sequence of puts and takes from the empty
  queue, what is taken, followed by what still waits, is a subsequence of what was put: nothing
  is invented, duplicated or reordered. When the sequence spans no more than the retention
  window, nothing is lost either: it is exactly what was put. The moving head never wastes half
  of the slice nor 1024 places.
\<close>

theorem usage_queue_fifo:
  "subseq (snd (runOps (enqueue ret) (popOldest ret) emptyQueue ops)
      @ map qi_payload (waiting (fst (runOps (enqueue ret) (popOldest ret) emptyQueue ops)))) (putPayloads ops)
   \<and> ((\<forall>x\<in>set ops. \<forall>y\<in>set ops. opTime y - opTime x \<le> windowOf ret) \<longrightarrow>
      snd (runOps (enqueue ret) (popOldest ret) emptyQueue ops)
        @ map qi_payload (waiting (fst (runOps (enqueue ret) (popOldest ret) emptyQueue ops))) = putPayloads ops)
   \<and> slice_ok (fst (runOps (enqueue ret) (popOldest ret) emptyQueue ops))"
proof -
  have e: "waiting emptyQueue = []" "slice_ok emptyQueue" by (simp_all add: emptyQueue_def waiting_def slice_ok_def)
  have "slice_ok q \<Longrightarrow> slice_ok (fst (runOps (enqueue ret) (popOldest ret) q ops))" for q
  proof (induction ops arbitrary: q)
    case (Cons x ops)
    then show ?case by (cases x) (simp_all add: enqueue_refines popOldest_refines split_def Let_def)
  qed simp
  then show ?thesis
    using uq.run_fifo [of ret emptyQueue ops] uq.run_lossless [of ops ret emptyQueue] e by simp
qed

lemma usage_queue_fifo_witness:
  "snd (runOps (enqueue 60) (popOldest 60) emptyQueue
      [OpPut 5 ''a'', OpPut 6 ''b'', OpPop 7 1, OpPut 8 ''c'', OpPop 9 5]) = [''a'', ''b'', ''c'']"
proof -
  let ?ops = "[OpPut 5 ''a'', OpPut 6 ''b'', OpPop 7 1, OpPut 8 ''c'', OpPop 9 5]"
  have w: "windowOf 60 = 60000000000" by (simp add: windowOf_def)
  have "waiting (fst (runOps (enqueue 60) (popOldest 60) emptyQueue ?ops)) = []" by code_simp
  with usage_queue_fifo [of 60 ?ops] w show ?thesis by simp
qed

text \<open>
  taking returns exactly the oldest of the payloads that are inside the retention window, as
  many as asked for: under a clock that does not go back, no expired payload is ever handed out and
  no unexpired one is skipped.
\<close>

theorem PopOldest_within_window:
  assumes "mo_enabled m" "0 < count" "sorted (map qi_enqueuedAt (waiting (mo_global m)))"
  shows "snd (PopOldest now count m) = map qi_payload (take (nat count)
      (filter (\<lambda>i. now - qi_enqueuedAt i \<le> windowOf (mo_retentionSeconds m)) (waiting (mo_global m))))
    \<and> sorted (map qi_enqueuedAt (waiting (mo_global (fst (PopOldest now count m)))))"
proof -
  let ?w = "windowOf (mo_retentionSeconds m)" and ?g = "mo_global m"
  have "dropWhile (\<lambda>i. qi_enqueuedAt i < now - ?w) is = filter (\<lambda>i. now - qi_enqueuedAt i \<le> ?w) is"
    if "sorted (map qi_enqueuedAt is)" for "is"
    using that
  proof (induction "is")
    case (Cons i "is")
    show ?case
    proof (cases "qi_enqueuedAt i < now - ?w")
      case True
      with Cons show ?thesis by simp
    next
      case False
      then have "filter (\<lambda>i. now - qi_enqueuedAt i \<le> ?w) is = is"
        using Cons.prems by (intro filter_True) force
      with False show ?thesis by simp
    qed
  qed simp
  with assms(3) have f: "fresh (mo_retentionSeconds m) now (waiting ?g) =
      filter (\<lambda>i. now - qi_enqueuedAt i \<le> ?w) (waiting ?g)" by (simp add: fresh_def)
  have "sorted (map qi_enqueuedAt (drop (nat count) (filter P (waiting ?g))))" for P
    using assms(3) by (simp add: drop_map [symmetric] sorted_wrt_drop sorted_filter)
  then show ?thesis
    using assms popOldest_refines [OF assms(2), of "mo_retentionSeconds m" now ?g] f
    by (simp add: PopOldest_def split_def Let_def)
qed

lemma PopOldest_within_window_witness:
  "snd (PopOldest 100000000000 9 (initModule\<lparr>mo_enabled := True, mo_global :=
      enqueue 60 50000000000 ''b'' (enqueue 60 10000000000 ''a'' emptyQueue)\<rparr>)) = [''b'']"
proof -
  let ?m = "initModule\<lparr>mo_enabled := True, mo_global :=
      enqueue 60 50000000000 ''b'' (enqueue 60 10000000000 ''a'' emptyQueue)\<rparr>"
  have w: "waiting (mo_global ?m) = [\<lparr>qi_enqueuedAt = 10000000000, qi_payload = ''a''\<rparr>,
      \<lparr>qi_enqueuedAt = 50000000000, qi_payload = ''b''\<rparr>]" by code_simp
  show ?thesis
    using PopOldest_within_window [of ?m 9 100000000000, unfolded w]
    by (simp add: initModule_def windowOf_def)
qed

text \<open>
  C28: the subscriber channels are used safely under every interleaving of subscribing, publishing,
  unsubscribing, clearing (with their closes after the lock), receiving and queueing: no send to
  a closed channel and no second close ever happens, so no operation panics; no buffer exceeds its
  capacity; and a publication reaches every subscriber with room and drops and closes the others,
  without ever blocking.
\<close>

theorem subscriber_channels_safe:
  assumes "chan_reach (q, due)"
  shows "(\<forall>a\<in>set due. closeOne a q \<noteq> None) \<and> clear q \<noteq> None \<and> unsubscribe i q \<noteq> None
    \<and> (\<forall>ch\<in>set (q_chans q). length (ch_buf ch) \<le> ch_cap ch)
    \<and> (\<exists>q'. publishToSubscribers p q = Some (q', q_subscribers q \<noteq> [])
        \<and> (\<forall>(j, a)\<in>set (q_subscribers q).
             if length (ch_buf (q_chans q ! a)) < ch_cap (q_chans q ! a)
             then (j, a) \<in> set (q_subscribers q') \<and> ch_buf (q_chans q' ! a) = ch_buf (q_chans q ! a) @ [p]
             else (j, a) \<notin> set (q_subscribers q') \<and> ch_closed (q_chans q' ! a)))"
proof -
  have ok: "chans_ok q due" "m_ok (q_subscribers q)" using reach_inv [OF assms] by (auto simp: queue_inv_def)
  have "closeOne a q \<noteq> None" if "a \<in> set due" for a
    using that ok(1) by (simp add: closeOne_def closeChan_def chans_ok_def)
  moreover have "clear q \<noteq> None" "unsubscribe i q \<noteq> None"
    using closeAll_ok [OF clear_locked_ok [OF ok(1)]] closeAll_ok [OF unsubscribe_locked_ok [OF ok, of i]]
    by (auto simp: clear_def unsubscribe_def split_def Let_def)
  moreover have "\<exists>q'. publishToSubscribers p q = Some (q', q_subscribers q \<noteq> [])
        \<and> (\<forall>(j, a)\<in>set (q_subscribers q).
             if length (ch_buf (q_chans q ! a)) < ch_cap (q_chans q ! a)
             then (j, a) \<in> set (q_subscribers q') \<and> ch_buf (q_chans q' ! a) = ch_buf (q_chans q ! a) @ [p]
             else (j, a) \<notin> set (q_subscribers q') \<and> ch_closed (q_chans q' ! a))"
  proof (rule publish_spec [OF ok(1), of p])
    fix chans
    assume pub: "publishToSubscribers p q =
      Some (q\<lparr>q_subscribers := filter (\<lambda>(_, a). length (ch_buf (q_chans q ! a)) < ch_cap (q_chans q ! a)) (q_subscribers q),
          q_chans := chans\<rparr>, q_subscribers q \<noteq> [])"
      and nth: "\<forall>a < length chans. chans ! a =
          (if a \<in> snd ` set (q_subscribers q) then delivered p (q_chans q ! a) else q_chans q ! a)"
      and len: "length chans = length (q_chans q)"
    let ?q = "q\<lparr>q_subscribers := filter (\<lambda>(_, a). length (ch_buf (q_chans q ! a)) < ch_cap (q_chans q ! a)) (q_subscribers q),
          q_chans := chans\<rparr>"
    have "chans ! a = delivered p (q_chans q ! a)" if "(j, a) \<in> set (q_subscribers q)" for j a
    proof -
      have m: "a \<in> snd ` set (q_subscribers q)" using that by force
      then have "a < length chans" using ok(1) len by (simp add: chans_ok_def)
      with nth m show ?thesis by simp
    qed
    then have "\<forall>(j, a)\<in>set (q_subscribers q).
             if length (ch_buf (q_chans q ! a)) < ch_cap (q_chans q ! a)
             then (j, a) \<in> set (q_subscribers ?q) \<and> ch_buf (q_chans ?q ! a) = ch_buf (q_chans q ! a) @ [p]
             else (j, a) \<notin> set (q_subscribers ?q) \<and> ch_closed (q_chans ?q ! a)"
      by (clarsimp simp: delivered_def)
    with pub show ?thesis by blast
  qed
  ultimately show ?thesis using ok(1) unfolding chans_ok_def by blast
qed

lemma subscriber_channels_safe_witness:
  "map ch_buf (q_chans (fst (subscribe 2 ''r'' emptyQueue))) = [[''r'']]
   \<and> clear (fst (subscribe 2 ''r'' emptyQueue)) \<noteq> None"
proof -
  have "chan_reach (fst (subscribe 2 ''r'' emptyQueue), [])"
    by (intro chan_reach.step [OF chan_reach.init] chan_step.subscribe) simp
  from subscriber_channels_safe [OF this] have "clear (fst (subscribe 2 ''r'' emptyQueue)) \<noteq> None" by blast
  moreover have "map ch_buf (q_chans (fst (subscribe 2 ''r'' emptyQueue))) = [[''r'']]" by code_simp
  ultimately show ?thesis by blast
qed

end
