(* ===== verification/ExecRegistry.thy ===== *)
theory ExecRegistry
  imports Prelude
begin

text \<open>
  The execution registry of \<open>backend/sdk/cliproxy/executionregistry\<close>: it tracks the dispatches and
  executions of one subscriber lifetime, drains and closes them, counts releases, and takes
  snapshots with a barrier. Tokens and scopes are objects addressed by the identifier they get;
  \<open>rg_pending\<close> and \<open>rg_scopes\<close> are the keys of the two maps. The bound close function of a scope is
  the flag \<open>sp_closeFn\<close>. The 64-bit counters (identifiers, revisions, release sequences) are taken
  unbounded: they grow by one per dispatch. Operations are given as their locked sections, which
  the step relation interleaves.
\<close>

section \<open>Data\<close>

datatype State = StateAccepting | StateDraining | StateClosed

datatype RegistryError =
    ErrRegistryNotAccepting | ErrRegistryClosed | ErrInvalidPendingDispatch
  | ErrInvalidExecutionResource | ErrExecutionResourceAlreadyBound

record ScopeSpec =
  ss_RequestID :: string
  ss_CredentialID :: string
  ss_Model :: string
  ss_Kind :: string
  ss_StartedAt :: gotime
  ss_Accounted :: bool

record ReleaseGroup =
  gr_CredentialID :: string
  gr_Model :: string

record ReleaseTicket =
  rt_Group :: ReleaseGroup
  rt_Sequence :: int

type_synonym ReleaseSink = "ReleaseGroup \<Rightarrow> int \<Rightarrow> ReleaseTicket option"

text \<open>How far \<open>EndWithRelease\<close> has run for a scope; \<open>Running\<close> is \<open>ended\<close> not fired.\<close>

datatype EndPhase = Running | Inactive | Closing | Released "ReleaseTicket option option" | Acked | Ended

text \<open>\<open>sp_closeDone\<close> is the channel: nil, open, or closed.\<close>

record Scope =
  sp_spec :: ScopeSpec
  sp_closeFn :: bool
  sp_closeDone :: "bool option"
  sp_releaseTicket :: "ReleaseTicket option"
  sp_active :: bool
  sp_phase :: EndPhase

record Registry =
  rg_state :: State
  rg_next :: nat
  rg_snapshotRevision :: int
  rg_observedBarrier :: int
  rg_pendingBarrierSequence :: nat
  rg_publishedBarrier :: int
  rg_pending :: "nat list"
  rg_scopes :: "nat list"
  rg_once :: "nat list"
  rg_objs :: "nat \<Rightarrow> Scope option"
  rg_releaseSequences :: "(ReleaseGroup, int) gomap"
  rg_releaseSink :: "ReleaseSink option"

definition newRegistry :: Registry where
  "newRegistry = \<lparr>rg_state = StateAccepting, rg_next = 0, rg_snapshotRevision = 0, rg_observedBarrier = 0,
     rg_pendingBarrierSequence = 0, rg_publishedBarrier = 0, rg_pending = [], rg_scopes = [], rg_once = [],
     rg_objs = (\<lambda>_. None), rg_releaseSequences = [], rg_releaseSink = None\<rparr>"

section \<open>Dispatching\<close>

definition reserve :: "'a Registry_scheme \<Rightarrow> 'a Registry_scheme" where
  "reserve r = r\<lparr>rg_next := rg_next r + 1, rg_pending := (rg_next r + 1) # rg_pending r\<rparr>"

definition BeginDispatch :: "'a Registry_scheme \<Rightarrow> 'a Registry_scheme \<times> (RegistryError + nat)" where
  "BeginDispatch r =
     (if rg_state r \<noteq> StateAccepting then (r, Inl ErrRegistryNotAccepting)
      else (reserve r, Inr (rg_next r + 1)))"

definition dropPending :: "nat \<Rightarrow> 'a Registry_scheme \<Rightarrow> 'a Registry_scheme" where
  "dropPending i r = r\<lparr>rg_once := List.insert i (rg_once r), rg_pending := filter (\<lambda>j. j \<noteq> i) (rg_pending r)\<rparr>"

definition PendingEnd :: "nat \<Rightarrow> 'a Registry_scheme \<Rightarrow> 'a Registry_scheme" where
  "PendingEnd i r = (if i \<in> set (rg_once r) then r else dropPending i r)"

definition installLocked :: "bool \<Rightarrow> nat \<Rightarrow> ScopeSpec \<Rightarrow> 'a Registry_scheme \<Rightarrow> 'a Registry_scheme \<times> (RegistryError + nat)" where
  "installLocked accepting i spec r =
     (if \<not> accepting then (dropPending i r, Inl ErrRegistryNotAccepting)
      else if i \<notin> set (rg_pending r) then (r, Inl ErrInvalidPendingDispatch)
      else let scope = \<lparr>sp_spec = spec, sp_closeFn = False, sp_closeDone = None, sp_releaseTicket = None,
                 sp_active = True, sp_phase = Running\<rparr>;
               r = dropPending i r
           in (r\<lparr>rg_scopes := i # rg_scopes r, rg_objs := (rg_objs r)(i \<mapsto> scope)\<rparr>, Inr i))"

text \<open>\<open>None\<close> is a nil token or one of another registry.\<close>

definition Install :: "nat option \<Rightarrow> ScopeSpec \<Rightarrow> 'a Registry_scheme \<Rightarrow> 'a Registry_scheme \<times> (RegistryError + nat)" where
  "Install pending spec r =
     (case pending of
        None \<Rightarrow> (r, Inl ErrInvalidPendingDispatch)
      | Some i \<Rightarrow> installLocked (rg_state r = StateAccepting) i spec r)"

section \<open>Resources\<close>

definition updScope :: "nat \<Rightarrow> (Scope \<Rightarrow> Scope) \<Rightarrow> 'a Registry_scheme \<Rightarrow> 'a Registry_scheme" where
  "updScope i f r = r\<lparr>rg_objs := (rg_objs r)(i := map_option f (rg_objs r i))\<rparr>"

definition bindLocked :: "bool \<Rightarrow> nat \<Rightarrow> 'a Registry_scheme \<Rightarrow> 'a Registry_scheme \<times> RegistryError option" where
  "bindLocked accepting i r =
     (case rg_objs r i of
        None \<Rightarrow> (r, Some ErrInvalidExecutionResource)
      | Some s \<Rightarrow>
          if \<not> accepting \<or> \<not> sp_active s then (r, Some ErrRegistryNotAccepting)
          else if sp_closeFn s \<or> sp_closeDone s \<noteq> None then (r, Some ErrExecutionResourceAlreadyBound)
          else (updScope i (\<lambda>s. s\<lparr>sp_closeFn := True\<rparr>) r, None))"

text \<open>\<open>closeFn\<close> tells whether the function given is not nil.\<close>

definition Bind :: "nat option \<Rightarrow> bool \<Rightarrow> 'a Registry_scheme \<Rightarrow> 'a Registry_scheme \<times> RegistryError option" where
  "Bind scope closeFn r =
     (case scope of
        None \<Rightarrow> (r, Some ErrInvalidExecutionResource)
      | Some i \<Rightarrow> if \<not> closeFn then (r, Some ErrInvalidExecutionResource)
          else bindLocked (rg_state r = StateAccepting) i r)"

definition startClose :: "Scope \<Rightarrow> Scope" where
  "startClose s =
     (if sp_closeDone s \<noteq> None then s
      else if \<not> sp_closeFn s then s
      else s\<lparr>sp_closeFn := False, sp_closeDone := Some False\<rparr>)"

definition startBoundResourceClose :: "nat \<Rightarrow> 'a Registry_scheme \<Rightarrow> 'a Registry_scheme" where
  "startBoundResourceClose i r = updScope i startClose r"

text \<open>The goroutine of \<open>startBoundResourceClose\<close> after the close function has returned.\<close>

definition closeReturned :: "nat \<Rightarrow> 'a Registry_scheme \<Rightarrow> 'a Registry_scheme" where
  "closeReturned i r = updScope i (\<lambda>s. s\<lparr>sp_closeDone := Some True\<rparr>) r"

definition closeAwaited :: "Scope \<Rightarrow> bool" where
  "closeAwaited s \<longleftrightarrow> sp_closeDone s \<noteq> Some False"

section \<open>Ending a scope\<close>

definition groupOf :: "ScopeSpec \<Rightarrow> ReleaseGroup" where
  "groupOf spec = \<lparr>gr_CredentialID = ss_CredentialID spec, gr_Model = ss_Model spec\<rparr>"

definition markReleasedLocked :: "ScopeSpec \<Rightarrow> 'a Registry_scheme
    \<Rightarrow> 'a Registry_scheme \<times> (ReleaseSink option \<times> ReleaseGroup \<times> int)" where
  "markReleasedLocked spec r =
     (let group = groupOf spec
      in if \<not> ss_Accounted spec then (r, (None, \<lparr>gr_CredentialID = [], gr_Model = []\<rparr>, 0))
         else let n = m_get0 0 (rg_releaseSequences r) group + 1
              in (r\<lparr>rg_releaseSequences := m_put group n (rg_releaseSequences r)\<rparr>, (rg_releaseSink r, group, n)))"

text \<open>The sections of \<open>EndWithRelease\<close>, in order. The sink is called with no lock held; \<open>Released\<close>
  carries the pending call (\<open>None\<close> for no call, \<open>Some t\<close> for a call that returns \<open>t\<close>).\<close>

definition endDeactivate :: "nat \<Rightarrow> 'a Registry_scheme \<Rightarrow> 'a Registry_scheme" where
  "endDeactivate i r = updScope i (\<lambda>s. s\<lparr>sp_active := False, sp_phase := Inactive\<rparr>) r"

definition endStartClose :: "nat \<Rightarrow> 'a Registry_scheme \<Rightarrow> 'a Registry_scheme" where
  "endStartClose i r = updScope i (\<lambda>s. (startClose s)\<lparr>sp_phase := Closing\<rparr>) r"

definition endRelease :: "nat \<Rightarrow> Scope \<Rightarrow> 'a Registry_scheme \<Rightarrow> 'a Registry_scheme" where
  "endRelease i s r =
     (let (r, (sink, group, n)) = markReleasedLocked (sp_spec s) r;
          call = (case sink of Some f \<Rightarrow> if n > 0 then Some (f group n) else None | None \<Rightarrow> None)
      in updScope i (\<lambda>s. s\<lparr>sp_phase := Released call\<rparr>) r)"

definition endTicket :: "nat \<Rightarrow> ReleaseTicket option option \<Rightarrow> 'a Registry_scheme \<Rightarrow> 'a Registry_scheme" where
  "endTicket i call r =
     updScope i (\<lambda>s. s\<lparr>sp_releaseTicket := (case call of Some t \<Rightarrow> t | None \<Rightarrow> None), sp_phase := Acked\<rparr>) r"

definition endDelete :: "nat \<Rightarrow> 'a Registry_scheme \<Rightarrow> 'a Registry_scheme" where
  "endDelete i r = updScope i (\<lambda>s. s\<lparr>sp_phase := Ended\<rparr>)
     (r\<lparr>rg_scopes := filter (\<lambda>j. j \<noteq> i) (rg_scopes r)\<rparr>)"

text \<open>The whole of \<open>EndWithRelease\<close> run without interference, the close function returning.\<close>

definition EndWithRelease :: "nat \<Rightarrow> 'a Registry_scheme \<Rightarrow> 'a Registry_scheme \<times> ReleaseTicket option" where
  "EndWithRelease i r =
     (case rg_objs r i of
        None \<Rightarrow> (r, None)
      | Some s \<Rightarrow>
          (let r = (if sp_phase s = Running
               then let r = endStartClose i (endDeactivate i r);
                        r = (if map_option closeAwaited (rg_objs r i) = Some True then r else closeReturned i r);
                        r = endRelease i s r;
                        call = (case rg_objs r i of Some s \<Rightarrow> (case sp_phase s of Released c \<Rightarrow> c | _ \<Rightarrow> None) | None \<Rightarrow> None)
                    in endDelete i (endTicket i call r)
               else r)
           in (r, (case rg_objs r i of Some s \<Rightarrow> sp_releaseTicket s | None \<Rightarrow> None))))"

definition SetReleaseSink :: "ReleaseSink option \<Rightarrow> 'a Registry_scheme \<Rightarrow> 'a Registry_scheme \<times> (ReleaseGroup \<times> int) list" where
  "SetReleaseSink sink r =
     (r\<lparr>rg_releaseSink := sink\<rparr>,
      case sink of None \<Rightarrow> [] | Some _ \<Rightarrow> filter (\<lambda>(_, n). n > 0) (rg_releaseSequences r))"

section \<open>Snapshots\<close>

record Observation =
  ob_RequestID :: string
  ob_CredentialID :: string
  ob_Model :: string
  ob_RequestKind :: string
  ob_StartedAt :: gotime
  ob_Accounted :: bool

record Freeze =
  fr_Revision :: int
  fr_BarrierRevision :: int
  fr_Executions :: "Observation list"

definition ObserveBarrier :: "int \<Rightarrow> 'a Registry_scheme \<Rightarrow> 'a Registry_scheme" where
  "ObserveBarrier revision r =
     (if revision \<le> 0 then r
      else if revision > rg_observedBarrier r
      then r\<lparr>rg_observedBarrier := revision, rg_pendingBarrierSequence := rg_next r\<rparr>
      else r)"

definition observe :: "ScopeSpec \<Rightarrow> Observation" where
  "observe spec = \<lparr>ob_RequestID = ss_RequestID spec, ob_CredentialID = ss_CredentialID spec,
     ob_Model = ss_Model spec, ob_RequestKind = ss_Kind spec, ob_StartedAt = ss_StartedAt spec,
     ob_Accounted = ss_Accounted spec\<rparr>"

definition publishBarrier :: "'a Registry_scheme \<Rightarrow> 'a Registry_scheme" where
  "publishBarrier r =
     (if rg_observedBarrier r > rg_publishedBarrier r
      then let blocked = (\<exists>s\<in>set (rg_pending r). s \<le> rg_pendingBarrierSequence r)
           in if \<not> blocked then r\<lparr>rg_publishedBarrier := rg_observedBarrier r\<rparr> else r
      else r)"

definition FreezeInFlight :: "'a Registry_scheme \<Rightarrow> 'a Registry_scheme \<times> Freeze" where
  "FreezeInFlight r =
     (let r = publishBarrier r;
          r = r\<lparr>rg_snapshotRevision := rg_snapshotRevision r + 1\<rparr>
      in (r, \<lparr>fr_Revision = rg_snapshotRevision r, fr_BarrierRevision = rg_publishedBarrier r,
             fr_Executions = map (\<lambda>i. observe (sp_spec (the (rg_objs r i)))) (rg_scopes r)\<rparr>))"

section \<open>Draining and closing\<close>

text \<open>The compare-and-swap of \<open>Drain\<close>; \<open>None\<close> is the error \<open>ErrRegistryClosed\<close>.\<close>

definition drainSwap :: "'a Registry_scheme \<Rightarrow> 'a Registry_scheme option" where
  "drainSwap r = (case rg_state r of
     StateAccepting \<Rightarrow> Some (r\<lparr>rg_state := StateDraining\<rparr>) | StateDraining \<Rightarrow> Some r | StateClosed \<Rightarrow> None)"

definition drainFinish :: "'a Registry_scheme \<Rightarrow> 'a Registry_scheme option" where
  "drainFinish r = (if rg_pending r \<noteq> [] \<or> rg_scopes r \<noteq> [] then None else Some (r\<lparr>rg_state := StateClosed\<rparr>))"

definition closeSwap :: "'a Registry_scheme \<Rightarrow> 'a Registry_scheme" where
  "closeSwap r = r\<lparr>rg_state := StateClosed\<rparr>"

text \<open>
  The registry with its goroutines: the section that holds the registry lock after its check of the
  state (the state word is swapped without the lock), the program counters of the calls of \<open>Drain\<close>
  and \<open>Close\<close>, whether a \<open>Drain\<close> has returned without error, and the scopes whose close function
  has returned. Every call of \<open>Close\<close> runs the whole body, also where the code waits for the first.
\<close>

datatype Section = SecBegin | SecInstall nat ScopeSpec | SecBind nat

datatype Pc = DrainCollect | DrainClose "nat list" | DrainWait | CloseCollect | CloseClose "nat list" | CloseAwait nat "nat list"

record World = Registry +
  w_lock :: "Section option"
  w_threads :: "Pc list"
  w_drained :: bool
  w_closes :: "nat list"

abbreviation unlocked :: "World \<Rightarrow> bool" where "unlocked w \<equiv> w_lock w = None"

abbreviation issued :: "World \<Rightarrow> nat \<Rightarrow> bool" where "issued w i \<equiv> 1 \<le> i \<and> i \<le> rg_next w"

definition initWorld :: World where
  "initWorld = Registry.extend newRegistry \<lparr>w_lock = None, w_threads = [], w_drained = False, w_closes = []\<rparr>"

inductive exec_step :: "World \<Rightarrow> World \<Rightarrow> bool" where
  begin_check: "unlocked w \<Longrightarrow> rg_state w = StateAccepting \<Longrightarrow> exec_step w (w\<lparr>w_lock := Some SecBegin\<rparr>)"
| begin_commit: "w_lock w = Some SecBegin \<Longrightarrow> exec_step w ((reserve w)\<lparr>w_lock := None\<rparr>)"
| pending_end: "unlocked w \<Longrightarrow> issued w i \<Longrightarrow> exec_step w (PendingEnd i w)"
| install_check: "unlocked w \<Longrightarrow> rg_state w = StateAccepting \<Longrightarrow> issued w i \<Longrightarrow>
    exec_step w (w\<lparr>w_lock := Some (SecInstall i spec)\<rparr>)"
| install_refuse: "unlocked w \<Longrightarrow> rg_state w \<noteq> StateAccepting \<Longrightarrow> issued w i \<Longrightarrow>
    exec_step w (fst (installLocked False i spec w))"
| install_commit: "w_lock w = Some (SecInstall i spec) \<Longrightarrow>
    exec_step w ((fst (installLocked True i spec w))\<lparr>w_lock := None\<rparr>)"
| bind_check: "unlocked w \<Longrightarrow> rg_state w = StateAccepting \<Longrightarrow> rg_objs w i = Some s \<Longrightarrow>
    exec_step w (w\<lparr>w_lock := Some (SecBind i)\<rparr>)"
| bind_commit: "w_lock w = Some (SecBind i) \<Longrightarrow> exec_step w ((fst (bindLocked True i w))\<lparr>w_lock := None\<rparr>)"
| end_deactivate: "unlocked w \<Longrightarrow> rg_objs w i = Some s \<Longrightarrow> sp_phase s = Running \<Longrightarrow> exec_step w (endDeactivate i w)"
| end_start_close: "rg_objs w i = Some s \<Longrightarrow> sp_phase s = Inactive \<Longrightarrow> exec_step w (endStartClose i w)"
| end_release: "unlocked w \<Longrightarrow> rg_objs w i = Some s \<Longrightarrow> sp_phase s = Closing \<Longrightarrow> closeAwaited s \<Longrightarrow>
    exec_step w (endRelease i s w)"
| end_ticket: "rg_objs w i = Some s \<Longrightarrow> sp_phase s = Released c \<Longrightarrow> exec_step w (endTicket i c w)"
| end_delete: "unlocked w \<Longrightarrow> rg_objs w i = Some s \<Longrightarrow> sp_phase s = Acked \<Longrightarrow> exec_step w (endDelete i w)"
| close_returns: "rg_objs w i = Some s \<Longrightarrow> sp_closeDone s = Some False \<Longrightarrow>
    exec_step w ((closeReturned i w)\<lparr>w_closes := i # w_closes w\<rparr>)"
| drain_start: "drainSwap w = Some w' \<Longrightarrow> exec_step w (w'\<lparr>w_threads := DrainCollect # w_threads w\<rparr>)"
| drain_collect: "w_threads w = xs @ DrainCollect # ys \<Longrightarrow> unlocked w \<Longrightarrow>
    exec_step w (w\<lparr>w_threads := xs @ DrainClose (rg_scopes w) # ys\<rparr>)"
| drain_close: "w_threads w = xs @ DrainClose (i # js) # ys \<Longrightarrow>
    exec_step w ((startBoundResourceClose i w)\<lparr>w_threads := xs @ DrainClose js # ys\<rparr>)"
| drain_closed: "w_threads w = xs @ DrainClose [] # ys \<Longrightarrow> exec_step w (w\<lparr>w_threads := xs @ DrainWait # ys\<rparr>)"
| drain_done: "w_threads w = xs @ DrainWait # ys \<Longrightarrow> unlocked w \<Longrightarrow> drainFinish w = Some w' \<Longrightarrow>
    exec_step w (w'\<lparr>w_threads := xs @ ys, w_drained := True\<rparr>)"
| drain_cancelled: "w_threads w = xs @ DrainWait # ys \<Longrightarrow> exec_step w (w\<lparr>w_threads := xs @ ys\<rparr>)"
| close_start: "exec_step w ((closeSwap w)\<lparr>w_threads := CloseCollect # w_threads w\<rparr>)"
| close_collect: "w_threads w = xs @ CloseCollect # ys \<Longrightarrow> unlocked w \<Longrightarrow>
    exec_step w (w\<lparr>w_threads := xs @ CloseClose (rg_scopes w) # ys\<rparr>)"
| close_close: "w_threads w = xs @ CloseClose (i # js) # ys \<Longrightarrow>
    exec_step w ((startBoundResourceClose i w)\<lparr>w_threads := xs @ CloseAwait i js # ys\<rparr>)"
| close_await: "w_threads w = xs @ CloseAwait i js # ys \<Longrightarrow> rg_objs w i = Some s \<Longrightarrow> closeAwaited s \<Longrightarrow>
    exec_step w (w\<lparr>w_threads := xs @ CloseClose js # ys\<rparr>)"
| close_end: "w_threads w = xs @ CloseClose [] # ys \<Longrightarrow> exec_step w (w\<lparr>w_threads := xs @ ys\<rparr>)"
| observe: "unlocked w \<Longrightarrow> exec_step w (ObserveBarrier b w)"
| freeze: "unlocked w \<Longrightarrow> exec_step w (fst (FreezeInFlight w))"
| set_sink: "unlocked w \<Longrightarrow> exec_step w (fst (SetReleaseSink sink w))"

inductive exec_reach :: "World \<Rightarrow> bool" where
  init: "exec_reach initWorld"
| step: "exec_reach w \<Longrightarrow> exec_step w w' \<Longrightarrow> exec_reach w'"

lemma exec_invariant:
  assumes "I initWorld" "\<And>w w'. exec_reach w \<Longrightarrow> I w \<Longrightarrow> exec_step w w' \<Longrightarrow> I w'" "exec_reach w"
  shows "I w"
  using assms(3) by (induction rule: exec_reach.induct) (use assms(1,2) in blast)+

section \<open>Frames\<close>

lemma updScope_frame [simp]:
  "rg_state (updScope i f r) = rg_state r" "rg_next (updScope i f r) = rg_next r"
  "rg_observedBarrier (updScope i f r) = rg_observedBarrier r"
  "rg_pendingBarrierSequence (updScope i f r) = rg_pendingBarrierSequence r"
  "rg_publishedBarrier (updScope i f r) = rg_publishedBarrier r"
  "rg_pending (updScope i f r) = rg_pending r" "rg_scopes (updScope i f r) = rg_scopes r"
  "rg_once (updScope i f r) = rg_once r" "rg_releaseSequences (updScope i f r) = rg_releaseSequences r"
  "rg_objs (updScope i f r) j = (if j = i then map_option f (rg_objs r i) else rg_objs r j)"
  by (simp_all add: updScope_def)

lemma updScope_world [simp]:
  "w_lock (updScope i f w) = w_lock w" "w_threads (updScope i f w) = w_threads w"
  "w_drained (updScope i f w) = w_drained w" "w_closes (updScope i f w) = w_closes w"
  by (simp_all add: updScope_def)

lemma initWorld_simps [simp]:
  "rg_state initWorld = StateAccepting" "rg_next initWorld = 0" "rg_observedBarrier initWorld = 0"
  "rg_pendingBarrierSequence initWorld = 0" "rg_publishedBarrier initWorld = 0" "rg_pending initWorld = []"
  "rg_scopes initWorld = []" "rg_once initWorld = []" "rg_objs initWorld = (\<lambda>_. None)"
  "rg_releaseSequences initWorld = []" "w_lock initWorld = None" "w_threads initWorld = []"
  "w_drained initWorld = False" "w_closes initWorld = []"
  by (simp_all add: initWorld_def newRegistry_def Registry.extend_def)

lemmas section_defs = reserve_def PendingEnd_def dropPending_def installLocked_def bindLocked_def endDeactivate_def
  endStartClose_def endRelease_def endTicket_def endDelete_def closeReturned_def startBoundResourceClose_def
  drainSwap_def drainFinish_def closeSwap_def ObserveBarrier_def FreezeInFlight_def publishBarrier_def
  SetReleaseSink_def markReleasedLocked_def Let_def

section \<open>Identifiers\<close>

text \<open>Every issued identifier is pending, or a scope in the map, or finished, and only one of them.\<close>

definition alive :: "(nat \<Rightarrow> Scope option) \<Rightarrow> nat set" where
  "alive objs = {i. \<exists>s. objs i = Some s \<and> sp_phase s \<noteq> Ended}"

definition ids_ok :: "'a Registry_scheme \<Rightarrow> bool" where
  "ids_ok w \<longleftrightarrow> distinct (rg_pending w) \<and> distinct (rg_scopes w)
     \<and> set (rg_pending w) \<subseteq> {1..rg_next w} \<and> set (rg_pending w) \<inter> dom (rg_objs w) = {}
     \<and> set (rg_pending w) \<inter> set (rg_once w) = {} \<and> {1..rg_next w} \<subseteq> set (rg_pending w) \<union> set (rg_once w)
     \<and> set (rg_once w) \<subseteq> {1..rg_next w} \<and> set (rg_scopes w) = alive (rg_objs w)
     \<and> dom (rg_objs w) \<subseteq> {1..rg_next w}"

lemma ids_ok_cong:
  "ids_ok w \<Longrightarrow> rg_pending w' = rg_pending w \<Longrightarrow> rg_scopes w' = rg_scopes w \<Longrightarrow> rg_once w' = rg_once w \<Longrightarrow>
    alive (rg_objs w') = alive (rg_objs w) \<Longrightarrow> dom (rg_objs w') = dom (rg_objs w) \<Longrightarrow>
    rg_next w' = rg_next w \<Longrightarrow> ids_ok w'"
  unfolding ids_ok_def by simp

lemma ids_reserve: "ids_ok w \<Longrightarrow> ids_ok (reserve w)"
  unfolding ids_ok_def reserve_def by (auto simp: atLeastAtMostSuc_conv)

lemma ids_dropPending: "ids_ok w \<Longrightarrow> i \<in> {1..rg_next w} \<Longrightarrow> ids_ok (dropPending i w)"
  unfolding ids_ok_def dropPending_def by auto

lemma dom_updScope [simp]: "dom (rg_objs (updScope i f w)) = dom (rg_objs w)"
  by (auto simp: updScope_def split: if_splits)

lemma alive_updScope:
  "(\<And>s. rg_objs w i = Some s \<Longrightarrow> sp_phase (f s) = Ended \<longleftrightarrow> sp_phase s = Ended) \<Longrightarrow>
    alive (rg_objs (updScope i f w)) = alive (rg_objs w)"
  by (auto simp: alive_def split: if_splits)

lemma ids_updScope:
  "ids_ok w \<Longrightarrow> (\<And>s. rg_objs w i = Some s \<Longrightarrow> sp_phase (f s) = Ended \<longleftrightarrow> sp_phase s = Ended) \<Longrightarrow>
    ids_ok (updScope i f w)"
  by (rule ids_ok_cong) (simp_all add: alive_updScope)

lemma ids_install:
  assumes ok: "ids_ok w" and i: "i \<in> {1..rg_next w}"
  shows "ids_ok (fst (installLocked acc i spec w))"
proof (cases "acc \<and> i \<in> set (rg_pending w)")
  case True
  then have n: "rg_objs w i = None" using ok by (auto simp: ids_ok_def)
  then have "i \<notin> set (rg_scopes w)" using ok by (auto simp: ids_ok_def alive_def)
  moreover have "alive ((rg_objs w)(i \<mapsto> s)) = insert i (alive (rg_objs w))" if "sp_phase s = Running" for s
    using that n by (auto simp: alive_def)
  ultimately show ?thesis
    using ids_dropPending [OF ok i] True i
    by (simp add: ids_ok_def installLocked_def Let_def) (auto simp: dropPending_def)
qed (use ids_dropPending [OF ok i] ok in \<open>auto simp: installLocked_def Let_def\<close>)

lemma ids_delete:
  assumes ok: "ids_ok w"
  shows "ids_ok (endDelete i w)"
proof -
  have "alive (rg_objs (endDelete i w)) = alive (rg_objs w) - {i}"
    by (auto simp: alive_def endDelete_def split: if_splits)
  then show ?thesis using ok unfolding ids_ok_def by (auto simp: endDelete_def)
qed

lemma startClose_phase [simp]: "sp_phase (startClose s) = sp_phase s" "sp_active (startClose s) = sp_active s"
  "sp_spec (startClose s) = sp_spec s"
  by (simp_all add: startClose_def)

lemma markReleased_frame [simp]:
  "rg_pending (fst (markReleasedLocked spec w)) = rg_pending w" "rg_scopes (fst (markReleasedLocked spec w)) = rg_scopes w"
  "rg_once (fst (markReleasedLocked spec w)) = rg_once w" "rg_objs (fst (markReleasedLocked spec w)) = rg_objs w"
  "rg_next (fst (markReleasedLocked spec w)) = rg_next w" "rg_state (fst (markReleasedLocked spec w)) = rg_state w"
  "rg_observedBarrier (fst (markReleasedLocked spec w)) = rg_observedBarrier w"
  "rg_publishedBarrier (fst (markReleasedLocked spec w)) = rg_publishedBarrier w"
  "rg_pendingBarrierSequence (fst (markReleasedLocked spec w)) = rg_pendingBarrierSequence w"
  by (simp_all add: markReleasedLocked_def Let_def)

lemma markReleased_world [simp]:
  "w_lock (fst (markReleasedLocked spec w)) = w_lock w" "w_threads (fst (markReleasedLocked spec w)) = w_threads w"
  "w_drained (fst (markReleasedLocked spec w)) = w_drained w" "w_closes (fst (markReleasedLocked spec w)) = w_closes w"
  by (simp_all add: markReleasedLocked_def Let_def)

lemma ids_release: "ids_ok w \<Longrightarrow> rg_objs w i = Some s \<Longrightarrow> sp_phase s = Closing \<Longrightarrow> ids_ok (endRelease i s w)"
  unfolding endRelease_def Let_def split_def
  by (rule ids_updScope) (auto intro: ids_ok_cong)

definition lock_ok :: "World \<Rightarrow> bool" where
  "lock_ok w \<longleftrightarrow> (\<forall>i spec. w_lock w = Some (SecInstall i spec) \<longrightarrow> i \<in> {1..rg_next w})"

lemma endRelease_frame [simp]:
  "rg_pending (endRelease i s w) = rg_pending w" "rg_scopes (endRelease i s w) = rg_scopes w"
  "rg_next (endRelease i s w) = rg_next w" "rg_state (endRelease i s w) = rg_state w"
  "rg_observedBarrier (endRelease i s w) = rg_observedBarrier w"
  "rg_publishedBarrier (endRelease i s w) = rg_publishedBarrier w"
  "rg_pendingBarrierSequence (endRelease i s w) = rg_pendingBarrierSequence w"
  by (simp_all add: endRelease_def Let_def split_def)

lemma endRelease_world [simp]:
  "w_lock (endRelease i s w) = w_lock w" "w_threads (endRelease i s w) = w_threads w"
  "w_drained (endRelease i s w) = w_drained w" "w_closes (endRelease i s w) = w_closes w"
  by (simp_all add: endRelease_def Let_def split_def)

lemmas small_defs = reserve_def PendingEnd_def dropPending_def endDeactivate_def
  endStartClose_def endTicket_def endDelete_def closeReturned_def startBoundResourceClose_def
  drainSwap_def drainFinish_def closeSwap_def ObserveBarrier_def FreezeInFlight_def publishBarrier_def
  SetReleaseSink_def Let_def

lemma installLocked_frame [simp]:
  "rg_next (fst (installLocked acc i spec w)) = rg_next w" "rg_state (fst (installLocked acc i spec w)) = rg_state w"
  "rg_observedBarrier (fst (installLocked acc i spec w)) = rg_observedBarrier w"
  "rg_publishedBarrier (fst (installLocked acc i spec w)) = rg_publishedBarrier w"
  "rg_pendingBarrierSequence (fst (installLocked acc i spec w)) = rg_pendingBarrierSequence w"
  "rg_releaseSequences (fst (installLocked acc i spec w)) = rg_releaseSequences w"
  by (simp_all add: installLocked_def dropPending_def Let_def)

lemma installLocked_world [simp]:
  "w_lock (fst (installLocked acc i spec w)) = w_lock w" "w_threads (fst (installLocked acc i spec w)) = w_threads w"
  "w_drained (fst (installLocked acc i spec w)) = w_drained w" "w_closes (fst (installLocked acc i spec w)) = w_closes w"
  by (simp_all add: installLocked_def dropPending_def Let_def)

lemma bindLocked_frame [simp]:
  "rg_next (fst (bindLocked acc i w)) = rg_next w" "rg_state (fst (bindLocked acc i w)) = rg_state w"
  "rg_pending (fst (bindLocked acc i w)) = rg_pending w" "rg_scopes (fst (bindLocked acc i w)) = rg_scopes w"
  "rg_observedBarrier (fst (bindLocked acc i w)) = rg_observedBarrier w"
  "rg_publishedBarrier (fst (bindLocked acc i w)) = rg_publishedBarrier w"
  "rg_pendingBarrierSequence (fst (bindLocked acc i w)) = rg_pendingBarrierSequence w"
  "rg_releaseSequences (fst (bindLocked acc i w)) = rg_releaseSequences w"
  by (simp_all add: bindLocked_def split: option.split)

lemma bindLocked_world [simp]:
  "w_lock (fst (bindLocked acc i w)) = w_lock w" "w_threads (fst (bindLocked acc i w)) = w_threads w"
  "w_drained (fst (bindLocked acc i w)) = w_drained w" "w_closes (fst (bindLocked acc i w)) = w_closes w"
  by (simp_all add: bindLocked_def split: option.split)

lemma lock_ok_step: "exec_step w w' \<Longrightarrow> lock_ok w \<Longrightarrow> lock_ok w'"
  by (induction rule: exec_step.induct)
    (auto simp: lock_ok_def small_defs split: option.splits State.splits if_splits)

lemma ids_ok_step: "exec_step w w' \<Longrightarrow> lock_ok w \<Longrightarrow> ids_ok w \<Longrightarrow> ids_ok w'"
proof (induction rule: exec_step.induct)
  case (pending_end w i)
  then show ?case using ids_dropPending [of w i] by (simp add: PendingEnd_def)
next
  case (install_refuse w i spec)
  then show ?case by (intro ids_install) simp_all
next
  case (install_commit w i spec)
  then show ?case using ids_install [of w i True spec] by (auto simp: lock_ok_def elim: ids_ok_cong)
next
  case (bind_commit w i)
  then show ?case using ids_updScope [of w i "\<lambda>s. s\<lparr>sp_closeFn := True\<rparr>"]
    by (auto simp: bindLocked_def split: option.splits elim: ids_ok_cong)
next
  case (drain_close w xs i js ys)
  then show ?case using ids_updScope [of w i startClose]
    by (auto simp: startBoundResourceClose_def elim: ids_ok_cong)
next
  case (close_close w xs i js ys)
  then show ?case using ids_updScope [of w i startClose]
    by (auto simp: startBoundResourceClose_def elim: ids_ok_cong)
next
  case (close_returns w i s)
  then show ?case using ids_updScope [of w i "\<lambda>s. s\<lparr>sp_closeDone := Some True\<rparr>"]
    by (auto simp: closeReturned_def elim: ids_ok_cong)
next
  case (begin_commit w)
  then show ?case using ids_reserve [of w] by (auto elim: ids_ok_cong)
qed (auto simp: endDeactivate_def endStartClose_def endTicket_def drainSwap_def drainFinish_def closeSwap_def
    ObserveBarrier_def FreezeInFlight_def publishBarrier_def SetReleaseSink_def Let_def
    intro: ids_updScope ids_delete ids_release elim: ids_ok_cong split: option.splits State.splits if_splits)

lemma reach_ids: "exec_reach w \<Longrightarrow> lock_ok w \<and> ids_ok w"
proof (rule exec_invariant)
  show "lock_ok initWorld \<and> ids_ok initWorld" by (simp add: lock_ok_def ids_ok_def alive_def)
qed (use lock_ok_step ids_ok_step in blast)+

section \<open>Resources\<close>

definition released :: "EndPhase \<Rightarrow> bool" where
  "released ph \<longleftrightarrow> (case ph of Released _ \<Rightarrow> True | Acked \<Rightarrow> True | Ended \<Rightarrow> True | _ \<Rightarrow> False)"

lemma released_simps [simp]:
  "\<not> released Running" "\<not> released Inactive" "\<not> released Closing" "released (Released c)" "released Acked" "released Ended"
  by (simp_all add: released_def)

definition scope_ok :: "Scope \<Rightarrow> bool" where
  "scope_ok s \<longleftrightarrow> (sp_phase s \<noteq> Running \<longrightarrow> \<not> sp_active s)
     \<and> (sp_phase s \<noteq> Running \<and> sp_phase s \<noteq> Inactive \<longrightarrow> \<not> sp_closeFn s)
     \<and> (released (sp_phase s) \<longrightarrow> sp_closeDone s \<noteq> Some False)
     \<and> (sp_closeFn s \<longrightarrow> sp_closeDone s = None)"

definition scopes_ok :: "'a Registry_scheme \<Rightarrow> bool" where
  "scopes_ok w \<longleftrightarrow> (\<forall>i s. rg_objs w i = Some s \<longrightarrow> scope_ok s)"

lemma scopes_updScope:
  "scopes_ok w \<Longrightarrow> (\<And>s. rg_objs w i = Some s \<Longrightarrow> scope_ok s \<Longrightarrow> scope_ok (f s)) \<Longrightarrow> scopes_ok (updScope i f w)"
  by (auto simp: scopes_ok_def split: if_splits)

lemma scopes_ok_cong: "scopes_ok w \<Longrightarrow> rg_objs w' = rg_objs w \<Longrightarrow> scopes_ok w'"
  by (simp add: scopes_ok_def)

lemma scope_ok_startClose: "scope_ok s \<Longrightarrow> scope_ok (startClose s)"
  by (auto simp: scope_ok_def startClose_def)

lemma scope_ok_close: "scope_ok s \<Longrightarrow> sp_phase s = Inactive \<Longrightarrow> scope_ok ((startClose s)\<lparr>sp_phase := Closing\<rparr>)"
  by (auto simp: scope_ok_def startClose_def)

lemma scopes_ok_step: "exec_step w w' \<Longrightarrow> scopes_ok w \<Longrightarrow> scopes_ok w'"
proof (induction rule: exec_step.induct)
  case (install_commit w i spec)
  then show ?case
    by (auto simp: installLocked_def dropPending_def Let_def scopes_ok_def scope_ok_def)
next
  case (bind_commit w i)
  then show ?case
    by (auto simp: bindLocked_def scopes_ok_def scope_ok_def split: option.splits)
next
  case (end_start_close w i s)
  then show ?case
    unfolding endStartClose_def by (intro scopes_updScope) (auto intro: scope_ok_close)
next
  case (end_release w i s)
  then show ?case
    unfolding endRelease_def Let_def split_def
    by (intro scopes_updScope) (auto simp: scope_ok_def closeAwaited_def elim: scopes_ok_cong)
next
  case (close_returns w i s)
  then have "scopes_ok (closeReturned i w)"
    unfolding closeReturned_def by (intro scopes_updScope) (auto simp: scope_ok_def)
  then show ?case by (rule scopes_ok_cong) simp
next
  case (drain_close w xs i js ys)
  then have "scopes_ok (startBoundResourceClose i w)"
    unfolding startBoundResourceClose_def by (intro scopes_updScope scope_ok_startClose)
  then show ?case by (rule scopes_ok_cong) simp
next
  case (close_close w xs i js ys)
  then have "scopes_ok (startBoundResourceClose i w)"
    unfolding startBoundResourceClose_def by (intro scopes_updScope scope_ok_startClose)
  then show ?case by (rule scopes_ok_cong) simp
next
  case (end_deactivate w i s)
  then show ?case unfolding endDeactivate_def by (intro scopes_updScope) (auto simp: scope_ok_def)
next
  case (end_ticket w i s c)
  then show ?case unfolding endTicket_def by (intro scopes_updScope) (auto simp: scope_ok_def)
next
  case (end_delete w i s)
  then show ?case unfolding endDelete_def
    by (intro scopes_updScope) (auto simp: scope_ok_def elim: scopes_ok_cong)
qed (auto simp: reserve_def PendingEnd_def dropPending_def installLocked_def drainSwap_def drainFinish_def closeSwap_def
    ObserveBarrier_def FreezeInFlight_def publishBarrier_def SetReleaseSink_def Let_def
    elim: scopes_ok_cong split: option.splits State.splits if_splits)

text \<open>The close function of a scope returns at most once.\<close>

definition closes_ok :: "World \<Rightarrow> bool" where
  "closes_ok w \<longleftrightarrow> (\<forall>i. count_list (w_closes w) i =
     (case rg_objs w i of Some s \<Rightarrow> if sp_closeDone s = Some True then 1 else 0 | None \<Rightarrow> 0))"

lemma closes_cong:
  "closes_ok w \<Longrightarrow> w_closes w' = w_closes w \<Longrightarrow>
    (\<And>i. map_option (\<lambda>s. sp_closeDone s = Some True) (rg_objs w' i) =
      map_option (\<lambda>s. sp_closeDone s = Some True) (rg_objs w i)) \<Longrightarrow> closes_ok w'"
  unfolding closes_ok_def
proof
  fix i
  assume c: "\<forall>i. count_list (w_closes w) i =
     (case rg_objs w i of Some s \<Rightarrow> if sp_closeDone s = Some True then 1 else 0 | None \<Rightarrow> 0)"
    and w: "w_closes w' = w_closes w"
    and m: "\<And>i. map_option (\<lambda>s. sp_closeDone s = Some True) (rg_objs w' i) =
      map_option (\<lambda>s. sp_closeDone s = Some True) (rg_objs w i)"
  show "count_list (w_closes w') i =
     (case rg_objs w' i of Some s \<Rightarrow> if sp_closeDone s = Some True then 1 else 0 | None \<Rightarrow> 0)"
    using c m [of i] by (cases "rg_objs w i"; cases "rg_objs w' i") (auto simp: w)
qed

lemma startClose_done: "sp_closeDone (startClose s) = Some True \<longleftrightarrow> sp_closeDone s = Some True"
  by (auto simp: startClose_def)

lemma closes_updScope:
  "closes_ok w \<Longrightarrow> (\<And>s. rg_objs w i = Some s \<Longrightarrow> sp_closeDone (f s) = Some True \<longleftrightarrow> sp_closeDone s = Some True) \<Longrightarrow>
    closes_ok (updScope i f w)"
  by (rule closes_cong) (auto simp: option.map_comp o_def intro: option.map_cong)

lemma closes_same: "closes_ok w \<Longrightarrow> w_closes w' = w_closes w \<Longrightarrow> rg_objs w' = rg_objs w \<Longrightarrow> closes_ok w'"
  by (rule closes_cong) simp_all

lemma closes_ok_step:
  assumes "exec_step w w'" "ids_ok w" "closes_ok w"
  shows "closes_ok w'"
  using assms
proof (induction rule: exec_step.induct)
  case (install_commit w i spec)
  then have "i \<in> set (rg_pending w) \<Longrightarrow> rg_objs w i = None" by (auto simp: ids_ok_def)
  with install_commit show ?case
    by (auto simp: installLocked_def dropPending_def Let_def closes_ok_def)
next
  case (close_returns w i s)
  then show ?case by (auto simp: closes_ok_def closeReturned_def split: option.splits)
next
  case (bind_commit w i)
  then have "closes_ok (fst (bindLocked True i w))"
    by (auto simp: bindLocked_def split: option.split intro: closes_updScope)
  then show ?case by (rule closes_same) simp_all
next
  case (end_release w i s)
  then show ?case
    unfolding endRelease_def Let_def split_def by (intro closes_updScope) (auto intro: closes_same)
next
  case (drain_close w xs i js ys)
  then have "closes_ok (startBoundResourceClose i w)"
    unfolding startBoundResourceClose_def by (intro closes_updScope) (simp_all add: startClose_done)
  then show ?case by (rule closes_same) simp_all
next
  case (close_close w xs i js ys)
  then have "closes_ok (startBoundResourceClose i w)"
    unfolding startBoundResourceClose_def by (intro closes_updScope) (simp_all add: startClose_done)
  then show ?case by (rule closes_same) simp_all
next
  case (end_delete w i s)
  then show ?case unfolding endDelete_def by (intro closes_updScope) (auto intro: closes_same)
qed (auto simp: reserve_def PendingEnd_def dropPending_def installLocked_def endDeactivate_def endStartClose_def
    endTicket_def drainSwap_def drainFinish_def closeSwap_def startClose_done
    ObserveBarrier_def FreezeInFlight_def publishBarrier_def SetReleaseSink_def Let_def
    intro: closes_same closes_updScope split: option.splits State.splits if_splits)

lemma reach_resources: "exec_reach w \<Longrightarrow> scopes_ok w \<and> closes_ok w"
proof (rule exec_invariant)
  show "scopes_ok initWorld \<and> closes_ok initWorld" by (simp add: scopes_ok_def closes_ok_def)
qed (use scopes_ok_step closes_ok_step reach_ids in blast)+

section \<open>Release accounting\<close>

text \<open>The accounted scopes of a group that have been released.\<close>

definition releasedIds :: "(nat \<Rightarrow> Scope option) \<Rightarrow> ReleaseGroup \<Rightarrow> nat set" where
  "releasedIds objs g = {i. \<exists>s. objs i = Some s \<and> ss_Accounted (sp_spec s) \<and> groupOf (sp_spec s) = g
     \<and> released (sp_phase s)}"

definition acct_ok :: "'a Registry_scheme \<Rightarrow> bool" where
  "acct_ok w \<longleftrightarrow> (\<forall>g. m_get0 0 (rg_releaseSequences w) g = int (card (releasedIds (rg_objs w) g)))"

lemma acct_cong:
  "acct_ok w \<Longrightarrow> rg_releaseSequences w' = rg_releaseSequences w \<Longrightarrow>
    (\<And>g. releasedIds (rg_objs w') g = releasedIds (rg_objs w) g) \<Longrightarrow> acct_ok w'"
  by (simp add: acct_ok_def)

lemma released_updScope:
  "(\<And>s. rg_objs w i = Some s \<Longrightarrow> sp_spec (f s) = sp_spec s \<and> (released (sp_phase (f s)) \<longleftrightarrow> released (sp_phase s))) \<Longrightarrow>
    releasedIds (rg_objs (updScope i f w)) g = releasedIds (rg_objs w) g"
  by (auto simp: releasedIds_def split: if_splits)

lemma acct_updScope:
  "acct_ok w \<Longrightarrow> (\<And>s. rg_objs w i = Some s \<Longrightarrow>
      sp_spec (f s) = sp_spec s \<and> (released (sp_phase (f s)) \<longleftrightarrow> released (sp_phase s))) \<Longrightarrow>
    acct_ok (updScope i f w)"
  by (rule acct_cong) (simp_all add: released_updScope)

lemma acct_release:
  assumes ids: "ids_ok w" and ok: "acct_ok w" and s: "rg_objs w i = Some s" "sp_phase s = Closing"
  shows "acct_ok (endRelease i s w)"
proof -
  let ?w = "endRelease i s w" and ?g = "groupOf (sp_spec s)"
  have fin: "finite (releasedIds (rg_objs w) g)" for g
    by (rule finite_subset [of _ "{1..rg_next w}"]) (use ids in \<open>auto simp: ids_ok_def releasedIds_def\<close>)
  have objs: "\<exists>c. rg_objs ?w = (rg_objs w)(i \<mapsto> s\<lparr>sp_phase := Released c\<rparr>)"
    using s by (auto simp: endRelease_def Let_def split_def updScope_def)
  have i: "i \<notin> releasedIds (rg_objs w) g" for g using s by (simp add: releasedIds_def)
  have set: "releasedIds (rg_objs ?w) g =
      (if ss_Accounted (sp_spec s) \<and> g = ?g then insert i (releasedIds (rg_objs w) g) else releasedIds (rg_objs w) g)" for g
    using objs s by (auto simp: releasedIds_def split: if_splits)
  have "m_get0 0 (rg_releaseSequences ?w) g =
      (if ss_Accounted (sp_spec s) \<and> g = ?g then m_get0 0 (rg_releaseSequences w) g + 1
       else m_get0 0 (rg_releaseSequences w) g)" for g
    by (simp add: endRelease_def markReleasedLocked_def Let_def split_def)
  with ok fin i show ?thesis by (simp add: acct_ok_def set)
qed

lemma acct_ok_step:
  assumes "exec_step w w'" "ids_ok w" "acct_ok w"
  shows "acct_ok w'"
  using assms
proof (induction rule: exec_step.induct)
  case (install_commit w i spec)
  have "releasedIds ((rg_objs w)(i \<mapsto> s)) g = releasedIds (rg_objs w) g"
    if "rg_objs w i = None" "sp_phase s = Running" for s g
    using that by (auto simp: releasedIds_def)
  moreover have "i \<in> set (rg_pending w) \<Longrightarrow> rg_objs w i = None" using install_commit by (auto simp: ids_ok_def)
  ultimately show ?case
    using install_commit by (auto simp: installLocked_def dropPending_def Let_def intro: acct_cong)
next
  case (bind_commit w i)
  then show ?case using released_updScope [of w i "\<lambda>s. s\<lparr>sp_closeFn := True\<rparr>"]
    by (auto simp: bindLocked_def intro: acct_cong split: option.splits)
next
  case (end_release w i s)
  then show ?case by (intro acct_release)
next
  case (close_returns w i s)
  then show ?case using released_updScope [of w i "\<lambda>s. s\<lparr>sp_closeDone := Some True\<rparr>"]
    by (auto simp: closeReturned_def intro: acct_cong)
next
  case (drain_close w xs i js ys)
  then show ?case using released_updScope [of w i startClose]
    by (auto simp: startBoundResourceClose_def intro: acct_cong)
next
  case (close_close w xs i js ys)
  then show ?case using released_updScope [of w i startClose]
    by (auto simp: startBoundResourceClose_def intro: acct_cong)
next
  case (end_delete w i s)
  have "acct_ok (w\<lparr>rg_scopes := filter (\<lambda>j. j \<noteq> i) (rg_scopes w)\<rparr>)" using end_delete by (auto intro: acct_cong)
  then show ?case unfolding endDelete_def using end_delete by (intro acct_updScope) auto
qed (auto simp: reserve_def PendingEnd_def dropPending_def installLocked_def endDeactivate_def endStartClose_def
    endTicket_def drainSwap_def drainFinish_def closeSwap_def
    ObserveBarrier_def FreezeInFlight_def publishBarrier_def SetReleaseSink_def Let_def
    intro: acct_cong acct_updScope split: option.splits State.splits if_splits)

lemma reach_acct: "exec_reach w \<Longrightarrow> acct_ok w"
proof (rule exec_invariant)
  show "acct_ok initWorld" by (simp add: acct_ok_def releasedIds_def)
qed (use acct_ok_step reach_ids in blast)+

section \<open>The barrier\<close>

text \<open>A barrier is published only when every dispatch begun before it was observed is resolved.\<close>

definition barrier_ok :: "'a Registry_scheme \<Rightarrow> bool" where
  "barrier_ok w \<longleftrightarrow> rg_publishedBarrier w \<le> rg_observedBarrier w \<and> rg_pendingBarrierSequence w \<le> rg_next w
     \<and> (rg_publishedBarrier w = rg_observedBarrier w \<longrightarrow> (\<forall>p\<in>set (rg_pending w). rg_pendingBarrierSequence w < p))"

lemma barrier_cong:
  "barrier_ok w \<Longrightarrow> rg_publishedBarrier w' = rg_publishedBarrier w \<Longrightarrow> rg_observedBarrier w' = rg_observedBarrier w \<Longrightarrow>
    rg_pendingBarrierSequence w' = rg_pendingBarrierSequence w \<Longrightarrow> rg_next w' = rg_next w \<Longrightarrow>
    set (rg_pending w') \<subseteq> set (rg_pending w) \<Longrightarrow> barrier_ok w'"
  unfolding barrier_ok_def by auto

lemma installLocked_pending: "set (rg_pending (fst (installLocked acc i spec w))) \<subseteq> set (rg_pending w)"
  by (auto simp: installLocked_def dropPending_def Let_def)

lemma publishBarrier_ok: "barrier_ok w \<Longrightarrow> barrier_ok (publishBarrier w)"
  by (auto simp: barrier_ok_def publishBarrier_def Let_def)

lemma barrier_ok_step: "exec_step w w' \<Longrightarrow> barrier_ok w \<Longrightarrow> barrier_ok w'"
proof (induction rule: exec_step.induct)
  case (begin_commit w)
  then show ?case by (auto simp: barrier_ok_def reserve_def)
next
  case (observe w b)
  then show ?case by (auto simp: barrier_ok_def ObserveBarrier_def)
next
  case (freeze w)
  from publishBarrier_ok [OF freeze(2)] show ?case by (rule barrier_cong) (simp_all add: FreezeInFlight_def Let_def)
next
  case (install_refuse w i spec)
  from install_refuse(4) show ?case by (rule barrier_cong) (simp_all add: installLocked_pending)
next
  case (install_commit w i spec)
  from install_commit(2) show ?case by (rule barrier_cong) (simp_all add: installLocked_pending)
qed (auto simp: PendingEnd_def dropPending_def endDeactivate_def endStartClose_def endTicket_def endDelete_def
    closeReturned_def startBoundResourceClose_def drainSwap_def drainFinish_def closeSwap_def SetReleaseSink_def Let_def
    intro: barrier_cong split: option.splits State.splits if_splits)

lemma reach_barrier: "exec_reach w \<Longrightarrow> barrier_ok w"
proof (rule exec_invariant)
  show "barrier_ok initWorld" by (simp add: barrier_ok_def)
qed (use barrier_ok_step in blast)+

section \<open>Draining\<close>

definition boundIds :: "'a Registry_scheme \<Rightarrow> nat set" where
  "boundIds w = {i. \<exists>s. rg_objs w i = Some s \<and> sp_closeFn s}"

text \<open>What holds at each program point of \<open>Drain\<close> and \<open>Close\<close>: once they have collected the scopes,
  no section that passed its check is left, and only collected scopes still hold a bound resource.\<close>

fun pc_ok :: "World \<Rightarrow> Pc \<Rightarrow> bool" where
  "pc_ok w DrainCollect \<longleftrightarrow> rg_state w \<noteq> StateAccepting"
| "pc_ok w CloseCollect \<longleftrightarrow> rg_state w \<noteq> StateAccepting"
| "pc_ok w (DrainClose js) \<longleftrightarrow> rg_state w \<noteq> StateAccepting \<and> unlocked w \<and> boundIds w \<subseteq> set js"
| "pc_ok w (CloseClose js) \<longleftrightarrow> rg_state w \<noteq> StateAccepting \<and> unlocked w \<and> boundIds w \<subseteq> set js"
| "pc_ok w (CloseAwait i js) \<longleftrightarrow> rg_state w \<noteq> StateAccepting \<and> unlocked w \<and> boundIds w \<subseteq> set js"
| "pc_ok w DrainWait \<longleftrightarrow> rg_state w \<noteq> StateAccepting \<and> unlocked w \<and> boundIds w = {}"

definition drain_ok :: "World \<Rightarrow> bool" where
  "drain_ok w \<longleftrightarrow> (\<forall>pc\<in>set (w_threads w). pc_ok w pc)
     \<and> (w_drained w \<longrightarrow> rg_state w = StateClosed \<and> unlocked w \<and> rg_pending w = [] \<and> rg_scopes w = [])"

text \<open>Once the registry has stopped accepting it never accepts again, and with no section in
  flight none starts, nothing is added and no resource is bound.\<close>

definition quieter :: "World \<Rightarrow> World \<Rightarrow> bool" where
  "quieter w w' \<longleftrightarrow> (rg_state w \<noteq> StateAccepting \<longrightarrow> rg_state w' \<noteq> StateAccepting
     \<and> (rg_state w = StateClosed \<longrightarrow> rg_state w' = StateClosed)
     \<and> (unlocked w \<longrightarrow> unlocked w' \<and> boundIds w' \<subseteq> boundIds w
         \<and> set (rg_pending w') \<subseteq> set (rg_pending w) \<and> set (rg_scopes w') \<subseteq> set (rg_scopes w)))"

lemma bound_updScope:
  "(\<And>s. rg_objs w i = Some s \<Longrightarrow> sp_closeFn (f s) \<Longrightarrow> sp_closeFn s) \<Longrightarrow> boundIds (updScope i f w) \<subseteq> boundIds w"
  by (auto simp: boundIds_def split: if_splits)

lemma bound_cong [simp]: "boundIds (r\<lparr>rg_state := x\<rparr>) = boundIds r" "boundIds (r\<lparr>rg_scopes := y\<rparr>) = boundIds r"
  "boundIds (w\<lparr>w_threads := t\<rparr>) = boundIds w" "boundIds (w\<lparr>w_lock := l\<rparr>) = boundIds w"
  "boundIds (w\<lparr>w_closes := c\<rparr>) = boundIds w" "boundIds (w\<lparr>w_drained := d\<rparr>) = boundIds w"
  by (simp_all add: boundIds_def)

lemma startClose_fn: "sp_closeFn (startClose s) \<Longrightarrow> sp_closeFn s"
  by (auto simp: startClose_def split: if_splits)

lemma step_quieter: "exec_step w w' \<Longrightarrow> quieter w w'"
proof (induction rule: exec_step.induct)
  case (end_start_close w i s)
  then show ?case using bound_updScope [of w i "\<lambda>s. (startClose s)\<lparr>sp_phase := Closing\<rparr>"]
    by (auto simp: quieter_def endStartClose_def dest: startClose_fn)
next
  case (end_release w i s)
  have "boundIds (endRelease i s w) \<subseteq> boundIds w"
    by (auto simp: endRelease_def Let_def split_def boundIds_def split: if_splits)
  then show ?case by (auto simp: quieter_def)
next
  case (drain_close w xs i js ys)
  then show ?case using bound_updScope [of w i startClose] startClose_fn
    by (auto simp: quieter_def startBoundResourceClose_def)
next
  case (close_close w xs i js ys)
  then show ?case using bound_updScope [of w i startClose] startClose_fn
    by (auto simp: quieter_def startBoundResourceClose_def)
next
  case (install_refuse w i spec)
  have "boundIds (fst (installLocked False i spec w)) \<subseteq> boundIds w"
    by (simp add: installLocked_def dropPending_def boundIds_def)
  with install_refuse show ?case by (auto simp: quieter_def installLocked_def dropPending_def)
qed (auto simp: quieter_def reserve_def PendingEnd_def dropPending_def endDeactivate_def
    endTicket_def endDelete_def closeReturned_def drainSwap_def drainFinish_def closeSwap_def
    ObserveBarrier_def FreezeInFlight_def publishBarrier_def SetReleaseSink_def Let_def boundIds_def
    split: option.splits State.splits if_splits)

lemma pc_ok_mono: "quieter w w' \<Longrightarrow> pc_ok w pc \<Longrightarrow> pc_ok w' pc"
  by (cases pc) (auto simp: quieter_def)

lemma bound_alive:
  assumes "ids_ok w" "scopes_ok w"
  shows "boundIds w \<subseteq> set (rg_scopes w)"
proof
  fix i
  assume "i \<in> boundIds w"
  then obtain s where s: "rg_objs w i = Some s" "sp_closeFn s" by (auto simp: boundIds_def)
  with assms(2) have "scope_ok s" by (simp add: scopes_ok_def)
  with s(2) have "sp_phase s \<noteq> Ended" by (auto simp: scope_ok_def)
  with s(1) assms(1) show "i \<in> set (rg_scopes w)" by (auto simp: ids_ok_def alive_def)
qed

lemma bound_startClose:
  assumes "scopes_ok w"
  shows "boundIds (startBoundResourceClose i w) \<subseteq> boundIds w - {i}"
proof -
  have "\<not> sp_closeFn (startClose s)" if "scope_ok s" for s
    using that by (auto simp: startClose_def scope_ok_def)
  with assms show ?thesis
    by (auto simp: boundIds_def startBoundResourceClose_def scopes_ok_def split: if_splits)
qed

text \<open>The program point a step puts a call of \<open>Drain\<close> or \<open>Close\<close> at.\<close>

lemma new_pc_ok:
  assumes "exec_step w w'" "drain_ok w" "ids_ok w" "scopes_ok w"
  shows "\<forall>pc\<in>set (w_threads w'). pc \<in> set (w_threads w) \<or> pc_ok w' pc"
  using assms
proof (induction rule: exec_step.induct)
  case (drain_start w w')
  then show ?case by (auto simp: drainSwap_def split: State.splits)
next
  case (drain_collect w xs ys)
  then have "pc_ok w DrainCollect" by (simp add: drain_ok_def)
  with drain_collect bound_alive [of w] show ?case by auto
next
  case (drain_close w xs i js ys)
  then have "pc_ok w (DrainClose (i # js))" by (simp add: drain_ok_def)
  with drain_close bound_startClose [of w i] show ?case by (auto simp: startBoundResourceClose_def)
next
  case (drain_closed w xs ys)
  then have "pc_ok w (DrainClose [])" by (simp add: drain_ok_def)
  with drain_closed show ?case by auto
next
  case (close_collect w xs ys)
  then have "pc_ok w CloseCollect" by (simp add: drain_ok_def)
  with close_collect bound_alive [of w] show ?case by auto
next
  case (close_close w xs i js ys)
  then have "pc_ok w (CloseClose (i # js))" by (simp add: drain_ok_def)
  with close_close bound_startClose [of w i] show ?case by (auto simp: startBoundResourceClose_def)
next
  case (close_await w xs i js ys s)
  then have "pc_ok w (CloseAwait i js)" by (simp add: drain_ok_def)
  with close_await show ?case by auto
qed (auto simp: small_defs split: option.splits if_splits)

lemma new_drained:
  assumes "exec_step w w'" "w_drained w'"
  shows "w_drained w \<or> rg_state w' = StateClosed \<and> unlocked w' \<and> rg_pending w' = [] \<and> rg_scopes w' = []"
  using assms
  by (induction rule: exec_step.induct) (auto simp: small_defs split: option.splits State.splits if_splits)

lemma drain_ok_step:
  assumes step: "exec_step w w'" and ok: "drain_ok w" "ids_ok w" "scopes_ok w"
  shows "drain_ok w'"
proof -
  have q: "quieter w w'" by (rule step_quieter [OF step])
  have "pc_ok w' pc" if "pc \<in> set (w_threads w')" for pc
    using new_pc_ok [OF step ok] ok(1) pc_ok_mono [OF q] that by (auto simp: drain_ok_def)
  moreover have "rg_state w' = StateClosed \<and> unlocked w' \<and> rg_pending w' = [] \<and> rg_scopes w' = []" if "w_drained w'"
    using new_drained [OF step that] ok(1) q by (auto simp: drain_ok_def quieter_def)
  ultimately show ?thesis by (simp add: drain_ok_def)
qed

lemma reach_drain: "exec_reach w \<Longrightarrow> drain_ok w"
proof (rule exec_invariant)
  show "drain_ok initWorld" by (simp add: drain_ok_def)
qed (use drain_ok_step reach_ids reach_resources in blast)+

text \<open>A run of one accounted execution with a bound resource, up to its release.\<close>

definition sampleSpec :: ScopeSpec where
  "sampleSpec = \<lparr>ss_RequestID = ''r'', ss_CredentialID = ''c'', ss_Model = ''m'', ss_Kind = ''k'',
     ss_StartedAt = 5, ss_Accounted = True\<rparr>"

definition sampleInstalled :: World where
  "sampleInstalled = (let w = (reserve (initWorld\<lparr>w_lock := Some SecBegin\<rparr>))\<lparr>w_lock := None\<rparr>
     in (fst (installLocked True 1 sampleSpec (w\<lparr>w_lock := Some (SecInstall 1 sampleSpec)\<rparr>)))\<lparr>w_lock := None\<rparr>)"

definition sampleClosed :: World where
  "sampleClosed = (let w = (fst (bindLocked True 1 (sampleInstalled\<lparr>w_lock := Some (SecBind 1)\<rparr>)))\<lparr>w_lock := None\<rparr>;
       w = endStartClose 1 (endDeactivate 1 w)
     in (closeReturned 1 w)\<lparr>w_closes := 1 # w_closes w\<rparr>)"

definition sampleReleased :: World where
  "sampleReleased = endRelease 1 (the (rg_objs sampleClosed 1)) sampleClosed"

lemma reach_installed: "exec_reach sampleInstalled"
proof -
  let ?a = "initWorld\<lparr>w_lock := Some SecBegin\<rparr>"
  let ?b = "(reserve ?a)\<lparr>w_lock := None\<rparr>"
  have "exec_reach ?a" by (rule exec_reach.step [OF exec_reach.init exec_step.begin_check]) simp_all
  then have "exec_reach ?b" by (rule exec_reach.step [OF _ exec_step.begin_commit]) simp
  then have "exec_reach (?b\<lparr>w_lock := Some (SecInstall 1 sampleSpec)\<rparr>)"
    by (rule exec_reach.step [OF _ exec_step.install_check]) (simp_all add: reserve_def)
  from exec_reach.step [OF this exec_step.install_commit [of _ 1 sampleSpec]] show ?thesis
    by (simp add: sampleInstalled_def Let_def)
qed

lemma sampleInstalled_simps [simp]:
  "rg_state sampleInstalled = StateAccepting" "w_lock sampleInstalled = None" "w_closes sampleInstalled = []"
  "rg_scopes sampleInstalled = [1]" "rg_pending sampleInstalled = []" "rg_next sampleInstalled = 1"
  "rg_releaseSequences sampleInstalled = []" "rg_observedBarrier sampleInstalled = 0"
  "rg_publishedBarrier sampleInstalled = 0"
  "rg_objs sampleInstalled = [1 \<mapsto> \<lparr>sp_spec = sampleSpec, sp_closeFn = False, sp_closeDone = None,
     sp_releaseTicket = None, sp_active = True, sp_phase = Running\<rparr>]"
  by (simp_all add: sampleInstalled_def reserve_def installLocked_def dropPending_def)

lemma reach_closed: "exec_reach sampleClosed"
proof -
  let ?a = "sampleInstalled\<lparr>w_lock := Some (SecBind 1)\<rparr>"
  let ?b = "(fst (bindLocked True 1 ?a))\<lparr>w_lock := None\<rparr>"
  have "exec_reach ?a" by (rule exec_reach.step [OF reach_installed exec_step.bind_check]) simp_all
  then have "exec_reach ?b" by (rule exec_reach.step [OF _ exec_step.bind_commit]) simp
  then have "exec_reach (endDeactivate 1 ?b)"
    by (rule exec_reach.step [OF _ exec_step.end_deactivate]) (simp add: bindLocked_def)+
  then have "exec_reach (endStartClose 1 (endDeactivate 1 ?b))"
    by (rule exec_reach.step [OF _ exec_step.end_start_close]) (simp add: bindLocked_def endDeactivate_def)+
  from exec_reach.step [OF this exec_step.close_returns [of _ 1]] show ?thesis
    by (simp add: sampleClosed_def Let_def bindLocked_def endDeactivate_def endStartClose_def startClose_def)
qed

lemma sampleClosed_simps [simp]:
  "w_lock sampleClosed = None" "w_closes sampleClosed = [1]" "rg_releaseSequences sampleClosed = []"
  "rg_objs sampleClosed = [1 \<mapsto> \<lparr>sp_spec = sampleSpec, sp_closeFn = False, sp_closeDone = Some True,
     sp_releaseTicket = None, sp_active = False, sp_phase = Closing\<rparr>]"
  by (auto simp: sampleClosed_def Let_def bindLocked_def endDeactivate_def endStartClose_def startClose_def
      closeReturned_def fun_eq_iff)

lemma reach_released: "exec_reach sampleReleased"
  unfolding sampleReleased_def
  by (rule exec_reach.step [OF reach_closed exec_step.end_release]) (simp add: closeAwaited_def)+

section \<open>Properties\<close>

text \<open>
  C8: a drain that returns has left nothing behind, whatever other goroutines did meanwhile: the
  registry is closed for good, no dispatch is pending and no execution is registered, every scope
  ever installed has run its end to the last section and its resource is not open; and while a
  drain waits, every resource still bound has been told to close. New work is refused.
\<close>

theorem drain_leaves_nothing:
  assumes "exec_reach w"
  shows "(w_drained w \<longrightarrow> rg_state w = StateClosed \<and> rg_pending w = [] \<and> rg_scopes w = []
        \<and> snd (BeginDispatch w) = Inl ErrRegistryNotAccepting
        \<and> (\<forall>i s. rg_objs w i = Some s \<longrightarrow> sp_phase s = Ended \<and> \<not> sp_closeFn s \<and> sp_closeDone s \<noteq> Some False))
    \<and> (DrainWait \<in> set (w_threads w) \<longrightarrow> boundIds w = {} \<and> snd (BeginDispatch w) = Inl ErrRegistryNotAccepting)"
proof -
  have d: "drain_ok w" and i: "ids_ok w" and r: "scopes_ok w"
    using reach_drain reach_ids reach_resources assms by blast+
  have "sp_phase s = Ended \<and> \<not> sp_closeFn s \<and> sp_closeDone s \<noteq> Some False"
    if dr: "w_drained w" and s: "rg_objs w j = Some s" for j s
  proof -
    have "alive (rg_objs w) = {}" using d i dr by (auto simp: drain_ok_def ids_ok_def)
    with s have "sp_phase s = Ended" by (auto simp: alive_def)
    moreover have "scope_ok s" using r s by (simp add: scopes_ok_def)
    ultimately show ?thesis by (simp add: scope_ok_def)
  qed
  moreover have "pc_ok w DrainWait" if "DrainWait \<in> set (w_threads w)"
    using d that unfolding drain_ok_def by blast
  ultimately show ?thesis using d by (auto simp: drain_ok_def BeginDispatch_def)
qed

lemma drain_leaves_nothing_witness:
  "snd (BeginDispatch (initWorld\<lparr>rg_state := StateClosed, w_threads := [], w_drained := True\<rparr>)) =
     Inl ErrRegistryNotAccepting"
proof -
  let ?w = "initWorld\<lparr>rg_state := StateClosed, w_threads := [], w_drained := True\<rparr>"
  let ?a = "initWorld\<lparr>rg_state := StateDraining, w_threads := [DrainCollect]\<rparr>"
  have "exec_reach ?a"
    using exec_step.drain_start [of initWorld "initWorld\<lparr>rg_state := StateDraining\<rparr>"]
    by (intro exec_reach.step [OF exec_reach.init]) (simp add: drainSwap_def)
  then have "exec_reach (?a\<lparr>w_threads := [DrainClose []]\<rparr>)"
    using exec_step.drain_collect [of ?a "[]" "[]"] by (auto intro: exec_reach.step)
  then have b: "exec_reach (?a\<lparr>w_threads := [DrainWait]\<rparr>)"
    using exec_step.drain_closed [of "?a\<lparr>w_threads := [DrainClose []]\<rparr>" "[]" "[]"] by (auto intro: exec_reach.step)
  have "exec_step (?a\<lparr>w_threads := [DrainWait]\<rparr>) ((?a\<lparr>w_threads := [DrainWait], rg_state := StateClosed\<rparr>)
      \<lparr>w_threads := [] @ [], w_drained := True\<rparr>)"
    by (rule exec_step.drain_done [where xs = "[]" and ys = "[]"]) (simp_all add: drainFinish_def)
  with b have "exec_reach ?w" by (auto intro: exec_reach.step)
  from drain_leaves_nothing [OF this] show ?thesis by simp
qed

text \<open>
  the resource bound to an execution is closed exactly once. In every reachable state the
  close function of a scope has returned at most once, although the end of the scope, a drain and
  a close of the registry may all try; and when the scope has ended, a resource that was bound
  has been closed, exactly once.
\<close>

theorem resource_closed_once:
  assumes "exec_reach w"
  shows "count_list (w_closes w) i \<le> 1
    \<and> (\<forall>s. rg_objs w i = Some s \<and> sp_phase s = Ended \<longrightarrow>
         \<not> sp_closeFn s \<and> (sp_closeDone s \<noteq> None \<longrightarrow> count_list (w_closes w) i = 1))"
proof -
  have r: "scopes_ok w" "closes_ok w" using reach_resources [OF assms] by auto
  have c: "count_list (w_closes w) i =
     (case rg_objs w i of Some s \<Rightarrow> if sp_closeDone s = Some True then 1 else 0 | None \<Rightarrow> 0)"
    using r(2) by (simp add: closes_ok_def)
  have "\<not> sp_closeFn s \<and> (sp_closeDone s \<noteq> None \<longrightarrow> sp_closeDone s = Some True)"
    if "rg_objs w i = Some s" "sp_phase s = Ended" for s
  proof -
    have "scope_ok s" using r(1) that(1) by (simp add: scopes_ok_def)
    with that(2) show ?thesis by (cases "sp_closeDone s") (auto simp: scope_ok_def)
  qed
  then show ?thesis using c by (auto split: option.splits)
qed

lemma resource_closed_once_witness: "count_list (w_closes sampleClosed) 1 \<le> 1 \<and> w_closes sampleClosed = [1]"
  using resource_closed_once [OF reach_closed, of 1] by simp

text \<open>
  releases are counted exactly once. In every reachable state the cumulative release sequence
  of a credential and model is the number of its accounted executions that have been released: an
  execution is never counted twice, however many callers end it, and never before its resource has
  been closed.
\<close>

theorem release_sequence_exact:
  assumes "exec_reach w"
  shows "m_get0 0 (rg_releaseSequences w) g = int (card {i. \<exists>s. rg_objs w i = Some s
        \<and> ss_Accounted (sp_spec s) \<and> groupOf (sp_spec s) = g \<and> released (sp_phase s)})
    \<and> (\<forall>i s. rg_objs w i = Some s \<and> released (sp_phase s) \<longrightarrow> \<not> sp_closeFn s \<and> sp_closeDone s \<noteq> Some False)"
proof -
  have "scope_ok s" if "rg_objs w i = Some s" for i s
    using reach_resources [OF assms] that by (simp add: scopes_ok_def)
  then show ?thesis
    using reach_acct [OF assms] by (fastforce simp: acct_ok_def releasedIds_def scope_ok_def)
qed

lemma release_sequence_exact_witness:
  "int (card {i. \<exists>s. rg_objs sampleReleased i = Some s \<and> ss_Accounted (sp_spec s)
     \<and> groupOf (sp_spec s) = \<lparr>gr_CredentialID = ''c'', gr_Model = ''m''\<rparr> \<and> released (sp_phase s)}) = 1"
proof -
  have "m_get0 0 (rg_releaseSequences sampleReleased) \<lparr>gr_CredentialID = ''c'', gr_Model = ''m''\<rparr> = 1"
    by (simp add: sampleReleased_def endRelease_def markReleasedLocked_def sampleSpec_def groupOf_def split_def Let_def m_get0_def)
  with release_sequence_exact [OF reach_released, of "\<lparr>gr_CredentialID = ''c'', gr_Model = ''m''\<rparr>"] show ?thesis
    by simp
qed

text \<open>
  C26: a snapshot that reports the barrier last observed misses no earlier dispatch: every dispatch
  begun before that barrier was observed is in the snapshot, or was given up, or has ended.
\<close>

theorem barrier_covers_dispatches:
  assumes "exec_reach w" "fr_BarrierRevision (snd (FreezeInFlight w)) = rg_observedBarrier w"
    and "1 \<le> i" "i \<le> rg_pendingBarrierSequence w"
  shows "(\<exists>s. rg_objs w i = Some s \<and> observe (sp_spec s) \<in> set (fr_Executions (snd (FreezeInFlight w))))
    \<or> rg_objs w i = None \<and> i \<notin> set (rg_pending w) \<or> (\<exists>s. rg_objs w i = Some s \<and> sp_phase s = Ended)"
proof -
  have ok: "barrier_ok (publishBarrier w)" and ids: "ids_ok w"
    using publishBarrier_ok [OF reach_barrier [OF assms(1)]] reach_ids [OF assms(1)] by auto
  have f: "rg_pending (publishBarrier w) = rg_pending w" "rg_scopes (publishBarrier w) = rg_scopes w"
    "rg_objs (publishBarrier w) = rg_objs w" "rg_observedBarrier (publishBarrier w) = rg_observedBarrier w"
    "rg_pendingBarrierSequence (publishBarrier w) = rg_pendingBarrierSequence w"
    by (simp_all add: publishBarrier_def Let_def)
  have "rg_publishedBarrier (publishBarrier w) = rg_observedBarrier w"
    using assms(2) by (simp add: FreezeInFlight_def Let_def)
  with ok f assms(4) have p: "i \<notin> set (rg_pending w)" by (auto simp: barrier_ok_def)
  show ?thesis
  proof (cases "rg_objs w i")
    case None
    then show ?thesis using p by simp
  next
    case (Some s)
    show ?thesis
    proof (cases "sp_phase s = Ended")
      case False
      with Some have "i \<in> set (rg_scopes w)" using ids by (auto simp: ids_ok_def alive_def)
      then have "observe (sp_spec s) \<in> set (fr_Executions (snd (FreezeInFlight w)))"
        using Some by (auto simp: FreezeInFlight_def Let_def f image_iff intro!: bexI [of _ i])
      with Some show ?thesis by blast
    qed (use Some in simp)
  qed
qed

lemma barrier_covers_dispatches_witness:
  "observe sampleSpec \<in> set (fr_Executions (snd (FreezeInFlight (ObserveBarrier 7 sampleInstalled))))"
proof -
  let ?w = "ObserveBarrier 7 sampleInstalled"
  have "exec_reach ?w" by (rule exec_reach.step [OF reach_installed exec_step.observe]) simp
  moreover have "fr_BarrierRevision (snd (FreezeInFlight ?w)) = rg_observedBarrier ?w"
    "1 \<le> rg_pendingBarrierSequence ?w"
    by (simp_all add: FreezeInFlight_def publishBarrier_def ObserveBarrier_def)
  ultimately have "(\<exists>s. rg_objs ?w 1 = Some s \<and> observe (sp_spec s) \<in> set (fr_Executions (snd (FreezeInFlight ?w))))
    \<or> rg_objs ?w 1 = None \<and> 1 \<notin> set (rg_pending ?w) \<or> (\<exists>s. rg_objs ?w 1 = Some s \<and> sp_phase s = Ended)"
    by (intro barrier_covers_dispatches) simp_all
  moreover have "rg_objs ?w = rg_objs sampleInstalled" by (simp add: ObserveBarrier_def)
  ultimately show ?thesis by auto
qed

end
