(* ===== verification/ModelRegistry.thy ===== *)
theory ModelRegistry
  imports Thinking
begin

text \<open>
  The model registry of \<open>backend/internal/registry/model_registry.go\<close>: which clients (credentials)
  supply which models, with reference counts per model and per provider, and the transient marks
  (quota exceeded, suspended) of a client for a model. A nil inner map reads and behaves as the
  empty one, so both are the empty map; the deep copies of \<open>cloneModelInfo\<close> are the values
  themselves. The asynchronous notifications of the hook are not part of the state. The cache of
  the model lists is kept by its handler type; \<open>'c\<close> is what a cached list holds.
\<close>

section \<open>State\<close>

record ModelRegistration =
  mr_Info :: ModelInfo
  mr_InfoByProvider :: "(string, ModelInfo) gomap"
  mr_Count :: int
  mr_LastUpdated :: gotime
  mr_QuotaExceededClients :: "(string, gotime) gomap"
  mr_Providers :: "(string, int) gomap"
  mr_SuspendedClients :: "(string, string) gomap"

record 'c ModelRegistry =
  re_models :: "(string, ModelRegistration) gomap"
  re_clientModels :: "(string, string list) gomap"
  re_clientModelInfos :: "(string, (string, ModelInfo) gomap) gomap"
  re_clientProviders :: "(string, string) gomap"
  re_availableModelsCache :: "(string, 'c) gomap"

abbreviation modelQuotaExceededWindow :: goduration where "modelQuotaExceededWindow \<equiv> 300000000000"

definition newModelRegistry :: "'c ModelRegistry" where
  "newModelRegistry = \<lparr>re_models = [], re_clientModels = [], re_clientModelInfos = [], re_clientProviders = [],
     re_availableModelsCache = []\<rparr>"

definition invalidateAvailableModelsCacheLocked :: "'c ModelRegistry \<Rightarrow> 'c ModelRegistry" where
  "invalidateAvailableModelsCacheLocked r = r\<lparr>re_availableModelsCache := []\<rparr>"

section \<open>One registration\<close>

text \<open>What \<open>addModelRegistration\<close> and \<open>removeModelRegistration\<close> make of the registration of a model,
  \<open>None\<close> being absence from the map.\<close>

definition addReg :: "string \<Rightarrow> ModelInfo \<Rightarrow> gotime \<Rightarrow> ModelRegistration option \<Rightarrow> ModelRegistration option" where
  "addReg provider model now reg = Some
     (case reg of
        Some existing \<Rightarrow>
          (let existing = existing\<lparr>mr_Count := mr_Count existing + 1, mr_LastUpdated := now, mr_Info := model\<rparr>
           in if provider \<noteq> []
              then existing\<lparr>mr_Providers := m_put provider (m_get0 0 (mr_Providers existing) provider + 1) (mr_Providers existing),
                     mr_InfoByProvider := m_put provider model (mr_InfoByProvider existing)\<rparr>
              else existing)
      | None \<Rightarrow>
          \<lparr>mr_Info = model, mr_InfoByProvider = (if provider \<noteq> [] then [(provider, model)] else []),
           mr_Count = 1, mr_LastUpdated = now, mr_QuotaExceededClients = [],
           mr_Providers = (if provider \<noteq> [] then [(provider, 1)] else []), mr_SuspendedClients = []\<rparr>)"

definition dropProvider :: "string \<Rightarrow> ModelRegistration \<Rightarrow> ModelRegistration" where
  "dropProvider provider g =
     (case m_get (mr_Providers g) provider of
        None \<Rightarrow> g
      | Some count \<Rightarrow>
          if count \<le> 1
          then g\<lparr>mr_Providers := m_del provider (mr_Providers g), mr_InfoByProvider := m_del provider (mr_InfoByProvider g)\<rparr>
          else g\<lparr>mr_Providers := m_put provider (count - 1) (mr_Providers g)\<rparr>)"

definition removeReg :: "string \<Rightarrow> string \<Rightarrow> gotime \<Rightarrow> ModelRegistration option \<Rightarrow> ModelRegistration option" where
  "removeReg clientID provider now reg =
     (case reg of
        None \<Rightarrow> None
      | Some g \<Rightarrow>
          (let g = g\<lparr>mr_Count := mr_Count g - 1, mr_LastUpdated := now,
                 mr_QuotaExceededClients := m_del clientID (mr_QuotaExceededClients g),
                 mr_SuspendedClients := m_del clientID (mr_SuspendedClients g)\<rparr>;
               g = (if mr_Count g < 0 then g\<lparr>mr_Count := 0\<rparr> else g);
               g = (if provider \<noteq> [] then dropProvider provider g else g)
           in if mr_Count g \<le> 0 then None else Some g))"

text \<open>The body of the loop of \<open>unregisterClientInternal\<close>; \<open>provider\<close> is \<open>None\<close> when the client has
  none recorded.\<close>

definition unregisterReg :: "string \<Rightarrow> string option \<Rightarrow> gotime \<Rightarrow> ModelRegistration option \<Rightarrow> ModelRegistration option" where
  "unregisterReg clientID provider now reg =
     (case reg of
        None \<Rightarrow> None
      | Some g \<Rightarrow>
          (let g = g\<lparr>mr_Count := mr_Count g - 1, mr_LastUpdated := now,
                 mr_QuotaExceededClients := m_del clientID (mr_QuotaExceededClients g),
                 mr_SuspendedClients := m_del clientID (mr_SuspendedClients g)\<rparr>;
               g = (case provider of Some p \<Rightarrow> dropProvider p g | None \<Rightarrow> g)
           in if mr_Count g \<le> 0 then None else Some g))"

definition updModel :: "string \<Rightarrow> (ModelRegistration option \<Rightarrow> ModelRegistration option) \<Rightarrow> 'c ModelRegistry \<Rightarrow> 'c ModelRegistry" where
  "updModel modelID f r =
     r\<lparr>re_models := (case f (m_get (re_models r) modelID) of
         Some g \<Rightarrow> m_put modelID g (re_models r) | None \<Rightarrow> m_del modelID (re_models r))\<rparr>"

definition addModelRegistration :: "string \<Rightarrow> string \<Rightarrow> ModelInfo option \<Rightarrow> gotime \<Rightarrow> 'c ModelRegistry \<Rightarrow> 'c ModelRegistry" where
  "addModelRegistration modelID provider model now r =
     (case model of
        None \<Rightarrow> r
      | Some model \<Rightarrow> if modelID = [] then r else updModel modelID (addReg provider model now) r)"

definition removeModelRegistration :: "string \<Rightarrow> string \<Rightarrow> string \<Rightarrow> gotime \<Rightarrow> 'c ModelRegistry \<Rightarrow> 'c ModelRegistry" where
  "removeModelRegistration clientID modelID provider now r = updModel modelID (removeReg clientID provider now) r"

section \<open>Unregistering\<close>

definition unregisterClientInternal :: "string \<Rightarrow> gotime \<Rightarrow> 'c ModelRegistry \<Rightarrow> 'c ModelRegistry" where
  "unregisterClientInternal clientID now r =
     (let provider = m_get (re_clientProviders r) clientID
      in case m_get (re_clientModels r) clientID of
           None \<Rightarrow> r\<lparr>re_clientProviders := m_del clientID (re_clientProviders r)\<rparr>
         | Some models \<Rightarrow>
             (let r = foldl (\<lambda>r modelID. updModel modelID (unregisterReg clientID provider now) r) r models
              in r\<lparr>re_clientModels := m_del clientID (re_clientModels r),
                   re_clientModelInfos := m_del clientID (re_clientModelInfos r),
                   re_clientProviders := m_del clientID (re_clientProviders r)\<rparr>))"

definition UnregisterClient :: "string \<Rightarrow> gotime \<Rightarrow> 'c ModelRegistry \<Rightarrow> 'c ModelRegistry" where
  "UnregisterClient clientID now r = invalidateAvailableModelsCacheLocked (unregisterClientInternal clientID now r)"

section \<open>Registering\<close>

text \<open>The first loop of \<open>RegisterClient\<close>: the identifiers without and with repetitions, the infos and
  the multiplicities.\<close>

record Supplied =
  su_unique :: "string list"
  su_raw :: "string list"
  su_models :: "(string, ModelInfo) gomap"
  su_counts :: "(string, int) gomap"

definition countStep :: "(string, int) gomap \<Rightarrow> string \<Rightarrow> (string, int) gomap" where
  "countStep counts i = m_put i (m_get0 0 counts i + 1) counts"

definition supplyStep :: "Supplied \<Rightarrow> ModelInfo option \<Rightarrow> Supplied" where
  "supplyStep s model =
     (case model of
        None \<Rightarrow> s
      | Some m \<Rightarrow>
          if mi_ID m = [] then s
          else let s = s\<lparr>su_raw := su_raw s @ [mi_ID m], su_counts := countStep (su_counts s) (mi_ID m)\<rparr>
               in if m_get (su_models s) (mi_ID m) \<noteq> None then s
                  else s\<lparr>su_models := m_put (mi_ID m) m (su_models s), su_unique := su_unique s @ [mi_ID m]\<rparr>)"

definition supplied :: "ModelInfo option list \<Rightarrow> Supplied" where
  "supplied models = foldl supplyStep \<lparr>su_unique = [], su_raw = [], su_models = [], su_counts = []\<rparr> models"

definition oldCountsOf :: "string list \<Rightarrow> (string, int) gomap" where
  "oldCountsOf oldModels = foldl countStep [] oldModels"

text \<open>The phases of the reconciliation of a client that is registered already.\<close>

definition shiftReg :: "string \<Rightarrow> int \<Rightarrow> ModelRegistration option \<Rightarrow> ModelRegistration option" where
  "shiftReg oldProvider toRemove reg =
     map_option (\<lambda>g. case m_get (mr_Providers g) oldProvider of
         None \<Rightarrow> g
       | Some count \<Rightarrow>
           if count \<le> toRemove
           then g\<lparr>mr_Providers := m_del oldProvider (mr_Providers g),
                  mr_InfoByProvider := m_del oldProvider (mr_InfoByProvider g)\<rparr>
           else g\<lparr>mr_Providers := m_put oldProvider (count - toRemove) (mr_Providers g)\<rparr>) reg"

definition shiftProviders :: "string \<Rightarrow> (string, int) gomap \<Rightarrow> (string, int) gomap \<Rightarrow> 'c ModelRegistry \<Rightarrow> 'c ModelRegistry" where
  "shiftProviders oldProvider newCounts oldCounts r =
     foldl (\<lambda>r (i, newCount).
       if newCount = 0 then r
       else let oldCount = m_get0 0 oldCounts i
         in if oldCount = 0 then r
            else let toRemove = (if oldCount < newCount then oldCount else newCount)
              in updModel i (shiftReg oldProvider toRemove) r) r newCounts"

definition repeatUpd :: "int \<Rightarrow> ('r \<Rightarrow> 'r) \<Rightarrow> 'r \<Rightarrow> 'r" where
  "repeatUpd n f = (f ^^ nat n)"

definition removeGone :: "string \<Rightarrow> string \<Rightarrow> gotime \<Rightarrow> (string, int) gomap \<Rightarrow> (string, int) gomap
    \<Rightarrow> 'c ModelRegistry \<Rightarrow> 'c ModelRegistry" where
  "removeGone clientID oldProvider now newCounts oldCounts r =
     foldl (\<lambda>r i. repeatUpd (m_get0 0 oldCounts i) (removeModelRegistration clientID i oldProvider now) r) r
       (filter (\<lambda>i. m_get0 0 newCounts i = 0) (m_keys oldCounts))"

definition removeOverage :: "string \<Rightarrow> string \<Rightarrow> gotime \<Rightarrow> (string, int) gomap \<Rightarrow> (string, int) gomap
    \<Rightarrow> 'c ModelRegistry \<Rightarrow> 'c ModelRegistry" where
  "removeOverage clientID oldProvider now newCounts oldCounts r =
     foldl (\<lambda>r (i, oldCount).
       let newCount = m_get0 0 newCounts i
       in if newCount = 0 \<or> oldCount \<le> newCount then r
          else repeatUpd (oldCount - newCount) (removeModelRegistration clientID i oldProvider now) r) r oldCounts"

definition addMissing :: "string \<Rightarrow> (string, ModelInfo) gomap \<Rightarrow> gotime \<Rightarrow> (string, int) gomap \<Rightarrow> (string, int) gomap
    \<Rightarrow> 'c ModelRegistry \<Rightarrow> 'c ModelRegistry" where
  "addMissing provider newModels now newCounts oldCounts r =
     foldl (\<lambda>r (i, newCount).
       let oldCount = m_get0 0 oldCounts i
       in if newCount \<le> oldCount then r
          else repeatUpd (newCount - oldCount) (addModelRegistration i provider (m_get newModels i) now) r) r newCounts"

definition metaReg :: "string \<Rightarrow> string \<Rightarrow> bool \<Rightarrow> ModelInfo \<Rightarrow> gotime \<Rightarrow> int \<Rightarrow> int \<Rightarrow> ModelRegistration option
    \<Rightarrow> ModelRegistration option" where
  "metaReg clientID provider providerChanged model now newCount oldCount reg =
     map_option (\<lambda>g.
       let g = g\<lparr>mr_Info := model,
             mr_InfoByProvider := (if provider \<noteq> [] then m_put provider model (mr_InfoByProvider g) else mr_InfoByProvider g),
             mr_LastUpdated := now,
             mr_QuotaExceededClients := m_del clientID (mr_QuotaExceededClients g),
             mr_SuspendedClients := m_del clientID (mr_SuspendedClients g)\<rparr>
       in if providerChanged \<and> provider \<noteq> []
          then if oldCount = 0 then g
               else let overlapCount = (if oldCount < newCount then oldCount else newCount)
                 in if overlapCount \<le> 0 then g
                    else g\<lparr>mr_Providers := m_put provider (m_get0 0 (mr_Providers g) provider + overlapCount) (mr_Providers g)\<rparr>
          else g) reg"

definition updateMeta :: "string \<Rightarrow> string \<Rightarrow> bool \<Rightarrow> Supplied \<Rightarrow> gotime \<Rightarrow> (string, int) gomap
    \<Rightarrow> 'c ModelRegistry \<Rightarrow> 'c ModelRegistry" where
  "updateMeta clientID provider providerChanged s now oldCounts r =
     foldl (\<lambda>r i. case m_get (su_models s) i of
         None \<Rightarrow> r
       | Some model \<Rightarrow> updModel i (metaReg clientID provider providerChanged model now
           (m_get0 0 (su_counts s) i) (m_get0 0 oldCounts i)) r) r (su_unique s)"

definition bookkeep :: "string \<Rightarrow> string \<Rightarrow> Supplied \<Rightarrow> 'c ModelRegistry \<Rightarrow> 'c ModelRegistry" where
  "bookkeep clientID provider s r =
     invalidateAvailableModelsCacheLocked
       (r\<lparr>re_clientModels := m_put clientID (su_raw s) (re_clientModels r),
          re_clientModelInfos := m_put clientID (su_models s) (re_clientModelInfos r),
          re_clientProviders := (if provider \<noteq> [] then m_put clientID provider (re_clientProviders r)
            else m_del clientID (re_clientProviders r))\<rparr>)"

definition RegisterClient :: "string \<Rightarrow> string \<Rightarrow> ModelInfo option list \<Rightarrow> gotime \<Rightarrow> 'c ModelRegistry \<Rightarrow> 'c ModelRegistry" where
  "RegisterClient clientID clientProvider models now r =
     (let provider = to_lower clientProvider;
          s = supplied models
      in if su_unique s = []
         then (let r = unregisterClientInternal clientID now r
               in invalidateAvailableModelsCacheLocked
                    (r\<lparr>re_clientModels := m_del clientID (re_clientModels r),
                       re_clientModelInfos := m_del clientID (re_clientModelInfos r),
                       re_clientProviders := m_del clientID (re_clientProviders r)\<rparr>))
         else let oldProvider = m_get0 [] (re_clientProviders r) clientID;
                  providerChanged = (oldProvider \<noteq> provider)
           in case m_get (re_clientModels r) clientID of
                None \<Rightarrow> bookkeep clientID provider s
                  (foldl (\<lambda>r i. addModelRegistration i provider (m_get (su_models s) i) now r) r (su_raw s))
              | Some oldModels \<Rightarrow>
                  (let oldCounts = oldCountsOf oldModels;
                       r = (if providerChanged \<and> oldProvider \<noteq> []
                            then shiftProviders oldProvider (su_counts s) oldCounts r else r);
                       r = removeGone clientID oldProvider now (su_counts s) oldCounts r;
                       r = removeOverage clientID oldProvider now (su_counts s) oldCounts r;
                       r = addMissing provider (su_models s) now (su_counts s) oldCounts r;
                       r = updateMeta clientID provider providerChanged s now oldCounts r
                   in bookkeep clientID provider s r))"

section \<open>Transient marks\<close>

definition updReg :: "string \<Rightarrow> (ModelRegistration \<Rightarrow> ModelRegistration) \<Rightarrow> 'c ModelRegistry \<Rightarrow> 'c ModelRegistry" where
  "updReg modelID f r = (case m_get (re_models r) modelID of
     None \<Rightarrow> r | Some g \<Rightarrow> invalidateAvailableModelsCacheLocked (r\<lparr>re_models := m_put modelID (f g) (re_models r)\<rparr>))"

definition SetModelQuotaExceeded :: "string \<Rightarrow> string \<Rightarrow> gotime \<Rightarrow> 'c ModelRegistry \<Rightarrow> 'c ModelRegistry" where
  "SetModelQuotaExceeded clientID modelID now r =
     updReg modelID (\<lambda>g. g\<lparr>mr_QuotaExceededClients := m_put clientID now (mr_QuotaExceededClients g)\<rparr>) r"

definition ClearModelQuotaExceeded :: "string \<Rightarrow> string \<Rightarrow> 'c ModelRegistry \<Rightarrow> 'c ModelRegistry" where
  "ClearModelQuotaExceeded clientID modelID r =
     updReg modelID (\<lambda>g. g\<lparr>mr_QuotaExceededClients := m_del clientID (mr_QuotaExceededClients g)\<rparr>) r"

definition SuspendClientModel :: "string \<Rightarrow> string \<Rightarrow> string \<Rightarrow> gotime \<Rightarrow> 'c ModelRegistry \<Rightarrow> 'c ModelRegistry" where
  "SuspendClientModel clientID modelID reason now r =
     (if clientID = [] \<or> modelID = [] then r
      else case m_get (re_models r) modelID of
        None \<Rightarrow> r
      | Some g \<Rightarrow>
          if m_get (mr_SuspendedClients g) clientID \<noteq> None then r
          else updReg modelID (\<lambda>g. g\<lparr>mr_SuspendedClients := m_put clientID reason (mr_SuspendedClients g),
                 mr_LastUpdated := now\<rparr>) r)"

definition ResumeClientModel :: "string \<Rightarrow> string \<Rightarrow> gotime \<Rightarrow> 'c ModelRegistry \<Rightarrow> 'c ModelRegistry" where
  "ResumeClientModel clientID modelID now r =
     (if clientID = [] \<or> modelID = [] then r
      else case m_get (re_models r) modelID of
        None \<Rightarrow> r
      | Some g \<Rightarrow>
          if m_get (mr_SuspendedClients g) clientID = None then r
          else updReg modelID (\<lambda>g. g\<lparr>mr_SuspendedClients := m_del clientID (mr_SuspendedClients g),
                 mr_LastUpdated := now\<rparr>) r)"

definition CleanupExpiredQuotas :: "gotime \<Rightarrow> 'c ModelRegistry \<Rightarrow> 'c ModelRegistry" where
  "CleanupExpiredQuotas now r =
     (let expired = (\<lambda>quotaTime. time_sub now quotaTime \<ge> modelQuotaExceededWindow);
          invalidated = list_ex (\<lambda>(_, g). list_ex (\<lambda>(_, t). expired t) (mr_QuotaExceededClients g)) (re_models r);
          r = r\<lparr>re_models := map (\<lambda>(i, g). (i, g\<lparr>mr_QuotaExceededClients :=
                filter (\<lambda>(_, t). \<not> expired t) (mr_QuotaExceededClients g)\<rparr>)) (re_models r)\<rparr>
      in if invalidated then invalidateAvailableModelsCacheLocked r else r)"

section \<open>Queries\<close>

definition ClientSupportsModel :: "string \<Rightarrow> string \<Rightarrow> 'c ModelRegistry \<Rightarrow> bool" where
  "ClientSupportsModel clientID modelID r \<longleftrightarrow>
     (let clientID = trim_space clientID; modelID = trim_space modelID
      in if clientID = [] \<or> modelID = [] then False
         else case m_get (re_clientModels r) clientID of
           None \<Rightarrow> False
         | Some models \<Rightarrow> list_ex (\<lambda>i. equal_fold (trim_space i) modelID) models)"

definition GetModelCount :: "string \<Rightarrow> gotime \<Rightarrow> 'c ModelRegistry \<Rightarrow> int" where
  "GetModelCount modelID now r =
     (case m_get (re_models r) modelID of
        None \<Rightarrow> 0
      | Some g \<Rightarrow>
          (let expiredClients = length (filter (\<lambda>(_, t). time_sub now t < modelQuotaExceededWindow) (mr_QuotaExceededClients g));
               suspendedClients = length (mr_SuspendedClients g);
               result = mr_Count g - int expiredClients - int suspendedClients
           in if result < 0 then 0 else result))"

definition GetModelProviders :: "string \<Rightarrow> 'c ModelRegistry \<Rightarrow> string list" where
  "GetModelProviders modelID r =
     (case m_get (re_models r) modelID of
        None \<Rightarrow> []
      | Some g \<Rightarrow> map fst (sort_key (\<lambda>(name, count). (- count, name)) (filter (\<lambda>(_, count). count > 0) (mr_Providers g))))"

definition GetModelInfo :: "string \<Rightarrow> string \<Rightarrow> 'c ModelRegistry \<Rightarrow> ModelInfo option" where
  "GetModelInfo modelID provider r =
     (case m_get (re_models r) modelID of
        None \<Rightarrow> None
      | Some g \<Rightarrow>
          if provider \<noteq> [] \<and> m_get0 0 (mr_Providers g) provider > 0 \<and> m_get (mr_InfoByProvider g) provider \<noteq> None
          then m_get (mr_InfoByProvider g) provider
          else Some (mr_Info g))"

fun uniqueInfos :: "(string, ModelInfo) gomap \<Rightarrow> (string, ModelRegistration) gomap \<Rightarrow> string list \<Rightarrow> string list \<Rightarrow> ModelInfo list" where
  "uniqueInfos clientInfos models seen [] = []"
| "uniqueInfos clientInfos models seen (i # is) =
     (if i \<in> set seen then uniqueInfos clientInfos models seen is
      else case m_get clientInfos i of
        Some info \<Rightarrow> info # uniqueInfos clientInfos models (i # seen) is
      | None \<Rightarrow>
          (case m_get models i of
             Some g \<Rightarrow> mr_Info g # uniqueInfos clientInfos models (i # seen) is
           | None \<Rightarrow> uniqueInfos clientInfos models (i # seen) is))"

definition GetModelsForClient :: "string \<Rightarrow> 'c ModelRegistry \<Rightarrow> ModelInfo list" where
  "GetModelsForClient clientID r =
     (case m_get (re_clientModels r) clientID of
        None \<Rightarrow> []
      | Some modelIDs \<Rightarrow> uniqueInfos (m_get0 [] (re_clientModelInfos r) clientID) (re_models r) [] modelIDs)"

section \<open>Sequences of operations\<close>

datatype RegistryOp =
    Register string string "ModelInfo option list" gotime
  | Unregister string gotime
  | SetQuota string string gotime
  | ClearQuota string string
  | Suspend string string string gotime
  | Resume string string gotime
  | Cleanup gotime

fun runRegistryOp :: "'c ModelRegistry \<Rightarrow> RegistryOp \<Rightarrow> 'c ModelRegistry" where
  "runRegistryOp r (Register c p models now) = RegisterClient c p models now r"
| "runRegistryOp r (Unregister c now) = UnregisterClient c now r"
| "runRegistryOp r (SetQuota c m now) = SetModelQuotaExceeded c m now r"
| "runRegistryOp r (ClearQuota c m) = ClearModelQuotaExceeded c m r"
| "runRegistryOp r (Suspend c m reason now) = SuspendClientModel c m reason now r"
| "runRegistryOp r (Resume c m now) = ResumeClientModel c m now r"
| "runRegistryOp r (Cleanup now) = CleanupExpiredQuotas now r"

definition runRegistry :: "RegistryOp list \<Rightarrow> 'c ModelRegistry" where
  "runRegistry ops = foldl runRegistryOp newModelRegistry ops"

section \<open>The accounting of one model\<close>

text \<open>
  \<open>regOK N P J i t reg\<close>: the registration stands for \<open>N\<close> references, \<open>P p\<close> of them from provider \<open>p\<close>, with
  the info \<open>J p\<close> for each such provider, the newest info \<open>i\<close> and the time \<open>t\<close>; the model is absent
  exactly when nothing refers to it.
\<close>

definition present :: "(string \<Rightarrow> int) \<Rightarrow> (string \<Rightarrow> 'v) \<Rightarrow> string \<Rightarrow> 'v option" where
  "present P J p = (if P p = 0 then None else Some (J p))"

definition regOK :: "int \<Rightarrow> (string \<Rightarrow> int) \<Rightarrow> (string \<Rightarrow> ModelInfo) \<Rightarrow> ModelInfo \<Rightarrow> gotime \<Rightarrow> ModelRegistration option \<Rightarrow> bool" where
  "regOK N P J i t reg \<longleftrightarrow> (\<forall>p. 0 \<le> P p) \<and> (case reg of
       None \<Rightarrow> N = 0 \<and> (\<forall>p. P p = 0)
     | Some g \<Rightarrow> mr_Count g = N \<and> 0 < N \<and> mr_Info g = i \<and> mr_LastUpdated g = t \<and>
         m_get (mr_Providers g) = present P P \<and> m_get (mr_InfoByProvider g) = present P J)"

lemma present_del: "(present P J)(p := None) = present (P(p := 0)) J"
  by (auto simp: present_def)

lemma present_off: "present (P(p := 0)) (J(p := v)) = present (P(p := 0)) J"
  by (auto simp: present_def)

lemma present_put: "k \<noteq> 0 \<Longrightarrow> (present P J)(p \<mapsto> v) = present (P(p := k)) (J(p := v))"
  by (auto simp: present_def)

lemma present_keep: "k \<noteq> 0 \<Longrightarrow> P p \<noteq> 0 \<Longrightarrow> present P J = present (P(p := k)) J"
  by (auto simp: present_def)

lemma present_zero: "\<forall>p. P p = 0 \<Longrightarrow> present P J = Map.empty"
  by (auto simp: present_def)

definition bump :: "string \<Rightarrow> int \<Rightarrow> (string \<Rightarrow> int) \<Rightarrow> string \<Rightarrow> int" where
  "bump p k P = (if p = [] then P else P(p := P p + k))"

definition putInfo :: "string \<Rightarrow> ModelInfo \<Rightarrow> (string \<Rightarrow> ModelInfo) \<Rightarrow> string \<Rightarrow> ModelInfo" where
  "putInfo p model J = (if p = [] then J else J(p := model))"

lemma bump_0 [simp]: "bump p 0 P = P"
  by (simp add: bump_def)

lemma bump_bump [simp]: "bump p k (bump p l P) = bump p (l + k) P"
  by (simp add: bump_def add.assoc)

lemma bump_nonneg: "(\<And>q. 0 \<le> P q) \<Longrightarrow> 0 \<le> k \<Longrightarrow> 0 \<le> bump p k P q"
  by (simp add: bump_def)

lemma bump_commute: "bump p k (bump q l P) = bump q l (bump p k P)"
  by (auto simp: bump_def)

lemma putInfo_idem [simp]: "putInfo p m (putInfo p m J) = putInfo p m J"
  by (simp add: putInfo_def)

lemma regOK_None: "regOK N P J i t None \<longleftrightarrow> N = 0 \<and> P = (\<lambda>_. 0)"
  by (auto simp: regOK_def)

lemma regOK_Some:
  "regOK N P J i t (Some g) \<longleftrightarrow> (\<forall>p. 0 \<le> P p) \<and> mr_Count g = N \<and> 0 < N \<and> mr_Info g = i \<and> mr_LastUpdated g = t \<and>
     m_get (mr_Providers g) = present P P \<and> m_get (mr_InfoByProvider g) = present P J"
  by (simp add: regOK_def)

lemma regOK_nonneg: "regOK N P J i t reg \<Longrightarrow> 0 \<le> N \<and> 0 \<le> P p"
  by (auto simp: regOK_def split: option.splits)

lemma m_get0_present: "m_get m = present P P \<Longrightarrow> m_get0 0 m p = P p"
  by (simp add: m_get0_def present_def)

lemma regOK_addReg:
  assumes "regOK N P J i t reg"
  shows "regOK (N + 1) (bump provider 1 P) (putInfo provider model J) model now (addReg provider model now reg)"
proof (cases reg)
  case None
  with assms show ?thesis
    by (auto simp: regOK_None regOK_Some addReg_def bump_def putInfo_def fun_eq_iff present_def)
next
  case (Some g)
  with assms have g: "regOK N P J i t (Some g)" by simp
  have "P provider + 1 \<noteq> 0" using regOK_nonneg [OF assms, of provider] by simp
  then show ?thesis using g Some
    by (auto simp: regOK_Some addReg_def bump_def putInfo_def m_get0_present present_put Let_def)
qed

text \<open>Taking \<open>k\<close> references of a provider away, all in one step as the shift of \<open>RegisterClient\<close>
  does or one by one.\<close>

lemma dropProvider_maps:
  assumes "m_get (mr_Providers g) = present P P" and "m_get (mr_InfoByProvider g) = present P J"
    and "\<forall>p. 0 \<le> P p" and "1 \<le> P p"
  shows "m_get (mr_Providers (dropProvider p g)) = present (P(p := P p - 1)) (P(p := P p - 1)) \<and>
    m_get (mr_InfoByProvider (dropProvider p g)) = present (P(p := P p - 1)) J \<and>
    mr_Count (dropProvider p g) = mr_Count g \<and> mr_Info (dropProvider p g) = mr_Info g \<and>
    mr_LastUpdated (dropProvider p g) = mr_LastUpdated g"
proof -
  have get: "m_get (mr_Providers g) p = Some (P p)" using assms by (simp add: present_def)
  show ?thesis
  proof (cases "P p = 1")
    case True
    then show ?thesis using assms get by (simp add: dropProvider_def present_del present_off)
  next
    case False
    then show ?thesis using assms get present_keep [of "P p - 1" P p J]
      by (simp add: dropProvider_def) (auto simp: present_def)
  qed
qed

lemma regOK_take:
  assumes "regOK N P J i t (Some g)" and "1 \<le> N" and "provider \<noteq> [] \<Longrightarrow> 1 \<le> P provider"
    and "N = 1 \<Longrightarrow> bump provider (- 1) P = (\<lambda>_. 0)"
    and g': "g' = (if provider \<noteq> [] then dropProvider provider
      (g\<lparr>mr_Count := N - 1, mr_LastUpdated := now, mr_QuotaExceededClients := q, mr_SuspendedClients := s\<rparr>)
      else g\<lparr>mr_Count := N - 1, mr_LastUpdated := now, mr_QuotaExceededClients := q, mr_SuspendedClients := s\<rparr>)"
  shows "regOK (N - 1) (bump provider (- 1) P) J i now (if N - 1 \<le> 0 then None else Some g')"
proof -
  define g1 where "g1 = g\<lparr>mr_Count := N - 1, mr_LastUpdated := now, mr_QuotaExceededClients := q, mr_SuspendedClients := s\<rparr>"
  have P: "\<forall>p. 0 \<le> P p" and "m_get (mr_Providers g1) = present P P" "m_get (mr_InfoByProvider g1) = present P J"
    using assms(1) by (auto simp: regOK_Some g1_def)
  note drop = dropProvider_maps [OF this(2,3) P, of provider]
  have P': "0 \<le> bump provider (- 1) P p" for p
    using P assms(3) by (cases "provider = []") (auto simp: bump_def)
  show ?thesis
  proof (cases "N = 1")
    case True
    with assms(4) show ?thesis by (simp add: regOK_None)
  next
    case False
    then show ?thesis
      using assms(1-3) drop P' unfolding g' g1_def [symmetric]
      by (auto simp: regOK_Some bump_def g1_def)
  qed
qed

lemma regOK_removeReg:
  assumes "regOK N P J i t reg" and "1 \<le> N" and "provider \<noteq> [] \<Longrightarrow> 1 \<le> P provider"
    and "N = 1 \<Longrightarrow> bump provider (- 1) P = (\<lambda>_. 0)"
  shows "regOK (N - 1) (bump provider (- 1) P) J i now (removeReg clientID provider now reg)"
proof (cases reg)
  case None
  with assms show ?thesis by (simp add: regOK_None)
next
  case (Some g)
  have "mr_Count g = N" using assms(1) by (simp add: Some regOK_Some)
  moreover have "mr_Count (dropProvider p g') = mr_Count g'" for p g'
    by (simp add: dropProvider_def split: option.splits)
  ultimately show ?thesis
    using regOK_take [OF assms(1) [unfolded Some] assms(2-4) refl] assms(2)
    by (auto simp: removeReg_def Some Let_def)
qed

lemma regOK_unregisterReg:
  assumes "regOK N P J i t reg" and "1 \<le> N" and "provider \<noteq> [] \<Longrightarrow> 1 \<le> P provider"
    and "N = 1 \<Longrightarrow> bump provider (- 1) P = (\<lambda>_. 0)"
  shows "regOK (N - 1) (bump provider (- 1) P) J i now
    (unregisterReg clientID (if provider = [] then None else Some provider) now reg)"
proof (cases reg)
  case None
  with assms show ?thesis by (simp add: regOK_None)
next
  case (Some g)
  have "mr_Count g = N" using assms(1) by (simp add: Some regOK_Some)
  moreover have "mr_Count (dropProvider p g') = mr_Count g'" for p g'
    by (simp add: dropProvider_def split: option.splits)
  ultimately show ?thesis
    using regOK_take [OF assms(1) [unfolded Some] assms(2-4) refl] assms(2)
    by (auto simp: unregisterReg_def Some Let_def)
qed

lemma regOK_shiftReg:
  assumes "regOK N P J i t reg" and "0 < k" and "k \<le> P provider" and "provider \<noteq> []"
  shows "regOK N (bump provider (- k) P) J i t (shiftReg provider k reg)"
proof (cases reg)
  case None
  with assms show ?thesis by (auto simp: regOK_None)
next
  case (Some g)
  have ok: "regOK N P J i t (Some g)" using assms(1) Some by simp
  then have get: "m_get (mr_Providers g) provider = Some (P provider)"
    using assms(2,3) by (auto simp: regOK_Some present_def)
  show ?thesis
  proof (cases "P provider = k")
    case True
    then show ?thesis using ok get assms
      by (auto simp: Some regOK_Some shiftReg_def bump_def present_del present_off)
  next
    case False
    then show ?thesis using ok get assms present_keep [of "P provider - k" P provider J]
      by (simp add: Some regOK_Some shiftReg_def bump_def) (auto simp: present_def)
  qed
qed

lemma regOK_metaReg:
  assumes "regOK N P J i t reg" and "0 < N" and "0 \<le> k" and "provider \<noteq> [] \<Longrightarrow> 0 < P provider + k"
    and k: "k = (if providerChanged \<and> provider \<noteq> [] then min oldCount newCount else 0)"
  shows "regOK N (bump provider k P) (putInfo provider model J) model now
    (metaReg clientID provider providerChanged model now newCount oldCount reg)"
proof (cases reg)
  case None
  with assms(1,2) show ?thesis by (simp add: regOK_None)
next
  case (Some g)
  have ok: "regOK N P J i t (Some g)" using assms(1) Some by simp
  have info: "provider \<noteq> [] \<Longrightarrow> (present P J)(provider \<mapsto> model) = present (P(provider := P provider + k)) (J(provider := model))"
    and prov: "provider \<noteq> [] \<Longrightarrow> (present P P)(provider \<mapsto> P provider + k)
      = present (P(provider := P provider + k)) (P(provider := P provider + k))"
    using assms(4) by (auto simp: present_put)
  show ?thesis
  proof (cases "k = 0")
    case True
    then show ?thesis using ok info prov k assms(2)
      by (auto simp: Some regOK_Some metaReg_def bump_def putInfo_def Let_def min_def split: if_splits)
  next
    case False
    then show ?thesis using ok info prov k assms(2,3)
      by (auto simp: Some regOK_Some metaReg_def bump_def putInfo_def Let_def m_get0_present min_def split: if_splits)
  qed
qed

section \<open>Loops seen from one model\<close>

lemma m_get_updModel:
  "m_get (re_models (updModel i f r)) m = (if m = i then f (m_get (re_models r) m) else m_get (re_models r) m)"
  by (auto simp: updModel_def split: option.splits)

lemma updModel_keeps [simp]:
  "re_clientModels (updModel i f r) = re_clientModels r"
  "re_clientModelInfos (updModel i f r) = re_clientModelInfos r"
  "re_clientProviders (updModel i f r) = re_clientProviders r"
  by (simp_all add: updModel_def)

text \<open>\<open>clients\<close> are the tables no update of a model touches.\<close>

definition clients :: "'c ModelRegistry \<Rightarrow> (string, string list) gomap \<times> (string, (string, ModelInfo) gomap) gomap \<times> (string, string) gomap" where
  "clients r = (re_clientModels r, re_clientModelInfos r, re_clientProviders r)"

lemma clients_updModel [simp]: "clients (updModel i f r) = clients r"
  by (simp add: clients_def)

lemma foldl_view:
  assumes "\<And>r x. view (f r x) = g (view r) x"
  shows "view (foldl f r xs) = foldl g (view r) xs"
  using assms by (induction xs arbitrary: r) simp_all

lemma foldl_const: "foldl (\<lambda>v x. v) v xs = v"
  by (induction xs) simp_all

lemma foldl_same_view:
  assumes "\<And>r x. view (f r x) = view r"
  shows "view (foldl f r xs) = view r"
  using foldl_view [of view f "\<lambda>v x. v" r xs] assms by (simp add: foldl_const)

lemma foldl_at_key:
  "m_ok al \<Longrightarrow> foldl (\<lambda>v (k, x). if m = k then h x v else v) v al = (case m_get al m of None \<Rightarrow> v | Some x \<Rightarrow> h x v)"
proof (induction al arbitrary: v)
  case (Cons a al)
  have "m \<notin> set (map fst al) \<Longrightarrow> foldl (\<lambda>v (k, x). if m = k then h x v else v) v al = v" for v
    by (induction al) auto
  with Cons show ?case by (cases a) auto
qed simp

lemma foldl_at_elem:
  "distinct xs \<Longrightarrow> foldl (\<lambda>v k. if m = k then h v else v) v xs = (if m \<in> set xs then h v else v)"
proof (induction xs arbitrary: v)
  case (Cons a xs)
  have "m \<notin> set xs \<Longrightarrow> foldl (\<lambda>v k. if m = k then h v else v) v xs = v" for v
    by (induction xs) auto
  with Cons show ?case by auto
qed simp

lemma foldl_count:
  "foldl (\<lambda>v k. if m = k then h v else v) v xs = (h ^^ count_list xs m) v"
  by (induction xs arbitrary: v) (auto simp: funpow_swap1)

lemma repeatUpd_view:
  assumes "\<And>r. view (f r) = g (view r)"
  shows "view (repeatUpd n f r) = (g ^^ nat n) (view r)"
proof -
  have "view ((f ^^ k) r) = (g ^^ k) (view r)" for k
    using assms by (induction k) simp_all
  then show ?thesis by (simp add: repeatUpd_def)
qed

lemma funpow_if: "((\<lambda>v. if b then h v else v) ^^ k) v = (if b then (h ^^ k) v else v)"
  by (induction k) auto

abbreviation at :: "string \<Rightarrow> 'c ModelRegistry \<Rightarrow> ModelRegistration option" where
  "at m r \<equiv> m_get (re_models r) m"

lemma at_addModelRegistration:
  "at m (addModelRegistration i provider model now r) =
     (if m = i then (if i = [] then at m r else case model of None \<Rightarrow> at m r | Some x \<Rightarrow> addReg provider x now (at m r)) else at m r)"
  by (auto simp: addModelRegistration_def m_get_updModel split: option.splits)

lemma at_removeModelRegistration:
  "at m (removeModelRegistration clientID i provider now r) = (if m = i then removeReg clientID provider now (at m r) else at m r)"
  by (simp add: removeModelRegistration_def m_get_updModel)

lemma clients_addModelRegistration [simp]: "clients (addModelRegistration i provider model now r) = clients r"
  by (simp add: addModelRegistration_def split: option.splits)

lemma clients_removeModelRegistration [simp]: "clients (removeModelRegistration c i provider now r) = clients r"
  by (simp add: removeModelRegistration_def)

lemma clients_repeatUpd: "(\<And>r. clients (f r) = clients r) \<Longrightarrow> clients (repeatUpd n f r) = clients r"
  using repeatUpd_view [of clients f id n r] by simp

section \<open>Multiplicities\<close>

definition countsOK :: "(string, int) gomap \<Rightarrow> string list \<Rightarrow> bool" where
  "countsOK counts xs \<longleftrightarrow> m_ok counts \<and> (\<forall>i. m_get counts i = (if i \<in> set xs then Some (int (count_list xs i)) else None))"

lemma countStep_ok: "countsOK counts xs \<Longrightarrow> countsOK (countStep counts i) (xs @ [i])"
  by (auto simp: countsOK_def countStep_def m_get0_def distinct_update)

lemma countsOK_get0: "countsOK counts xs \<Longrightarrow> m_get0 0 counts i = int (count_list xs i)"
  by (auto simp: countsOK_def m_get0_def count_list_0_iff)

lemma oldCountsOf_ok: "countsOK (oldCountsOf xs) xs"
proof (induction xs rule: rev_induct)
  case (snoc x xs)
  then show ?case using countStep_ok by (simp add: oldCountsOf_def)
qed (simp add: countsOK_def oldCountsOf_def)

definition suppliedOK :: "Supplied \<Rightarrow> bool" where
  "suppliedOK s \<longleftrightarrow> countsOK (su_counts s) (su_raw s) \<and> [] \<notin> set (su_raw s) \<and> distinct (su_unique s) \<and>
     set (su_unique s) = set (su_raw s) \<and> dom (m_get (su_models s)) = set (su_raw s)"

lemma supplyStep_ok: "suppliedOK s \<Longrightarrow> suppliedOK (supplyStep s model)"
  by (auto simp: suppliedOK_def supplyStep_def Let_def intro: countStep_ok split: option.splits)

lemma supplied_ok: "suppliedOK (supplied models)"
  unfolding supplied_def
  by (rule foldl_invariant [where I = suppliedOK]) (simp add: suppliedOK_def countsOK_def, rule supplyStep_ok)

section \<open>The phases of a registration, seen from one model\<close>

abbreviation occ :: "string list \<Rightarrow> string \<Rightarrow> int" where
  "occ xs m \<equiv> int (count_list xs m)"

lemma countsOK_foldl:
  assumes "countsOK counts xs"
  shows "foldl (\<lambda>v (k, x). if m = k then h x v else v) v counts = (if m \<in> set xs then h (occ xs m) v else v)"
  using assms foldl_at_key [of counts m h v] by (simp add: countsOK_def)

lemma occ_pos: "0 < occ xs m \<longleftrightarrow> m \<in> set xs"
  using count_list_0_iff [of xs m] by auto

lemma at_shiftProviders:
  assumes "countsOK nc new" and "countsOK oc old"
  shows "at m (shiftProviders oldProvider nc oc r) =
    (if 0 < occ new m \<and> 0 < occ old m then shiftReg oldProvider (min (occ old m) (occ new m)) (at m r) else at m r)"
proof -
  define h where "h n v = (if n = 0 \<or> occ old m = 0 then v else shiftReg oldProvider (if occ old m < n then occ old m else n) v)" for n v
  have "at m (shiftProviders oldProvider nc oc r) = foldl (\<lambda>v (k, x). if m = k then h x v else v) (at m r) nc"
    unfolding shiftProviders_def
    by (rule foldl_view) (auto simp: h_def Let_def m_get_updModel countsOK_get0 [OF assms(2)])
  also have "\<dots> = (if m \<in> set new then h (occ new m) (at m r) else at m r)"
    by (rule countsOK_foldl [OF assms(1)])
  finally show ?thesis by (auto simp: h_def min_def occ_pos)
qed

lemma at_removeGone:
  assumes "countsOK nc new" and "countsOK oc old"
  shows "at m (removeGone clientID oldProvider now nc oc r) =
    (if occ new m = 0 then (removeReg clientID oldProvider now ^^ count_list old m) (at m r) else at m r)"
proof -
  let ?h = "\<lambda>v. (removeReg clientID oldProvider now ^^ count_list old m) v"
  have "at m (repeatUpd (m_get0 0 oc i) (removeModelRegistration clientID i oldProvider now) r)
      = (if m = i then ?h (at m r) else at m r)" for i and r :: "'a ModelRegistry"
    by (subst repeatUpd_view [where view = "at m" and g = "\<lambda>v. if m = i then removeReg clientID oldProvider now v else v"])
      (auto simp: at_removeModelRegistration funpow_if countsOK_get0 [OF assms(2)])
  then have "at m (removeGone clientID oldProvider now nc oc r) =
      foldl (\<lambda>v k. if m = k then ?h v else v) (at m r) (filter (\<lambda>i. m_get0 0 nc i = 0) (m_keys oc))"
    unfolding removeGone_def by (rule foldl_view)
  also have "\<dots> = (if m \<in> set (filter (\<lambda>i. m_get0 0 nc i = 0) (m_keys oc)) then ?h (at m r) else at m r)"
    using assms(2) by (intro foldl_at_elem) (simp add: countsOK_def distinct_filter)
  also have "m \<in> set (filter (\<lambda>i. m_get0 0 nc i = 0) (m_keys oc)) \<longleftrightarrow> m \<in> set old \<and> occ new m = 0"
    using assms(2) unfolding countsOK_def set_filter countsOK_get0 [OF assms(1)] set_map dom_map_of_conv_image_fst [symmetric]
    by (auto simp: dom_def)
  finally show ?thesis using count_list_0_iff [of old m] by auto
qed

lemma at_removeOverage:
  assumes "countsOK nc new" and "countsOK oc old"
  shows "at m (removeOverage clientID oldProvider now nc oc r) =
    (if occ new m = 0 then at m r
     else (removeReg clientID oldProvider now ^^ (count_list old m - count_list new m)) (at m r))"
proof -
  define h where "h x v = (if occ new m = 0 \<or> x \<le> occ new m then v
    else (removeReg clientID oldProvider now ^^ nat (x - occ new m)) v)" for x v
  have rep: "at m (repeatUpd k (removeModelRegistration clientID i oldProvider now) r)
      = (if m = i then (removeReg clientID oldProvider now ^^ nat k) (at m r) else at m r)" for i k and r :: "'a ModelRegistry"
    by (subst repeatUpd_view [where view = "at m" and g = "\<lambda>v. if m = i then removeReg clientID oldProvider now v else v"])
      (auto simp: at_removeModelRegistration funpow_if)
  have "at m (removeOverage clientID oldProvider now nc oc r) = foldl (\<lambda>v (k, x). if m = k then h x v else v) (at m r) oc"
    unfolding removeOverage_def
    by (rule foldl_view) (auto simp: h_def Let_def rep countsOK_get0 [OF assms(1)])
  also have "\<dots> = (if m \<in> set old then h (occ old m) (at m r) else at m r)"
    by (rule countsOK_foldl [OF assms(2)])
  finally show ?thesis using count_list_0_iff [of old m] by (auto simp: h_def nat_diff_distrib)
qed

lemma funpow_ident: "((\<lambda>v. v) ^^ k) x = x"
  by (induction k) simp_all

lemma suppliedOK_cases:
  assumes "suppliedOK s"
  shows "m_get (su_models s) m = None \<Longrightarrow> count_list (su_raw s) m = 0"
    and "m_get (su_models s) m = Some model \<Longrightarrow> m \<noteq> [] \<and> 0 < count_list (su_raw s) m"
proof -
  have dom: "dom (m_get (su_models s)) = set (su_raw s)" and "[] \<notin> set (su_raw s)"
    using assms by (auto simp: suppliedOK_def)
  show "count_list (su_raw s) m = 0" if "m_get (su_models s) m = None"
    using that dom by (auto simp: count_list_0_iff)
  show "m \<noteq> [] \<and> 0 < count_list (su_raw s) m" if "m_get (su_models s) m = Some model"
  proof -
    have "m \<in> set (su_raw s)" using that dom by blast
    then show ?thesis using \<open>[] \<notin> set (su_raw s)\<close> count_list_0_iff [of "su_raw s" m] by auto
  qed
qed

lemma at_addMissing:
  assumes "suppliedOK s" and "countsOK oc old"
  shows "at m (addMissing provider (su_models s) now (su_counts s) oc r) =
    (case m_get (su_models s) m of None \<Rightarrow> at m r
     | Some model \<Rightarrow> (addReg provider model now ^^ (count_list (su_raw s) m - count_list old m)) (at m r))"
proof -
  have new: "countsOK (su_counts s) (su_raw s)" using assms(1) by (simp add: suppliedOK_def)
  define g where "g = (case m_get (su_models s) m of Some model \<Rightarrow> addReg provider model now | None \<Rightarrow> (\<lambda>v. v))"
  define h where "h x v = (if x \<le> occ old m then v else (g ^^ nat (x - occ old m)) v)" for x v
  have add: "at m (addModelRegistration i provider (m_get (su_models s) i) now r) = (if m = i then g (at m r) else at m r)"
    for i and r :: "'a ModelRegistry"
    using suppliedOK_cases(2) [OF assms(1), of m] by (auto simp: at_addModelRegistration g_def split: option.splits)
  have rep: "at m (repeatUpd k (addModelRegistration i provider (m_get (su_models s) i) now) r)
      = (if m = i then (g ^^ nat k) (at m r) else at m r)" for i k and r :: "'a ModelRegistry"
    by (subst repeatUpd_view [where view = "at m" and g = "\<lambda>v. if m = i then g v else v"]) (simp_all add: add funpow_if)
  have "at m (addMissing provider (su_models s) now (su_counts s) oc r)
      = foldl (\<lambda>v (k, x). if m = k then h x v else v) (at m r) (su_counts s)"
    unfolding addMissing_def
    by (rule foldl_view) (auto simp: h_def Let_def rep countsOK_get0 [OF assms(2)])
  also have "\<dots> = h (occ (su_raw s) m) (at m r)"
    using countsOK_foldl [OF new, of m h] count_list_0_iff [of "su_raw s" m] by (auto simp: h_def)
  finally show ?thesis
    by (auto simp: h_def g_def funpow_ident nat_diff_distrib split: option.splits)
qed

lemma at_updateMeta:
  assumes "suppliedOK s" and "countsOK oc old"
  shows "at m (updateMeta clientID provider changed s now oc r) =
    (case m_get (su_models s) m of None \<Rightarrow> at m r
     | Some model \<Rightarrow> metaReg clientID provider changed model now (occ (su_raw s) m) (occ old m) (at m r))"
proof -
  have s: "countsOK (su_counts s) (su_raw s)" "distinct (su_unique s)" "dom (m_get (su_models s)) = set (su_unique s)"
    using assms(1) by (auto simp: suppliedOK_def)
  define h where "h v = (case m_get (su_models s) m of None \<Rightarrow> v
    | Some model \<Rightarrow> metaReg clientID provider changed model now (occ (su_raw s) m) (occ old m) v)" for v
  have "at m (updateMeta clientID provider changed s now oc r) = foldl (\<lambda>v k. if m = k then h v else v) (at m r) (su_unique s)"
    unfolding updateMeta_def
    by (rule foldl_view) (auto simp: h_def m_get_updModel countsOK_get0 [OF assms(2)] countsOK_get0 [OF s(1)] split: option.splits)
  also have "\<dots> = h (at m r)"
    using s(3) by (simp add: foldl_at_elem [OF s(2)] h_def) (auto simp: dom_def split: option.splits)
  finally show ?thesis by (simp add: h_def)
qed

text \<open>All phases of the reconciliation together, for one model the client held \<open>o'\<close> times and is to
  hold \<open>n\<close> times.\<close>

definition reconcile :: "string \<Rightarrow> string \<Rightarrow> string \<Rightarrow> gotime \<Rightarrow> nat \<Rightarrow> nat \<Rightarrow> ModelInfo option \<Rightarrow> ModelRegistration option
    \<Rightarrow> ModelRegistration option" where
  "reconcile clientID oldProvider provider now o' n model reg =
     (let changed = (oldProvider \<noteq> provider);
          reg = (if changed \<and> oldProvider \<noteq> [] \<and> 0 < n \<and> 0 < o' then shiftReg oldProvider (min (int o') (int n)) reg else reg);
          reg = (removeReg clientID oldProvider now ^^ (o' - n)) reg
      in case model of
           None \<Rightarrow> reg
         | Some model \<Rightarrow> metaReg clientID provider changed model now (int n) (int o') ((addReg provider model now ^^ (n - o')) reg))"

lemma at_bookkeep [simp]: "at m (bookkeep clientID provider s r) = at m r"
  by (simp add: bookkeep_def invalidateAvailableModelsCacheLocked_def)

lemma at_RegisterClient_reconcile:
  assumes "su_unique (supplied models) \<noteq> []" and "m_get (re_clientModels r) clientID = Some old"
  shows "at m (RegisterClient clientID clientProvider models now r) =
    reconcile clientID (m_get0 [] (re_clientProviders r) clientID) (to_lower clientProvider) now
      (count_list old m) (count_list (su_raw (supplied models)) m) (m_get (su_models (supplied models)) m) (at m r)"
proof -
  let ?s = "supplied models"
  have s: "suppliedOK ?s" by (rule supplied_ok)
  then have new: "countsOK (su_counts ?s) (su_raw ?s)" by (simp add: suppliedOK_def)
  note phases = at_shiftProviders [OF new oldCountsOf_ok] at_removeGone [OF new oldCountsOf_ok]
    at_removeOverage [OF new oldCountsOf_ok] at_addMissing [OF s oldCountsOf_ok] at_updateMeta [OF s oldCountsOf_ok]
  show ?thesis
  proof (cases "m_get (su_models ?s) m")
    case None
    then show ?thesis using assms suppliedOK_cases(1) [OF s, of m]
      by (simp add: RegisterClient_def Let_def phases reconcile_def)
  next
    case (Some model)
    then show ?thesis using assms suppliedOK_cases(2) [OF s, of m]
      by (simp add: RegisterClient_def Let_def phases reconcile_def)
  qed
qed

lemma at_RegisterClient_fresh:
  assumes "su_unique (supplied models) \<noteq> []" and "m_get (re_clientModels r) clientID = None"
  shows "at m (RegisterClient clientID clientProvider models now r) =
    (case m_get (su_models (supplied models)) m of None \<Rightarrow> at m r
     | Some model \<Rightarrow> (addReg (to_lower clientProvider) model now ^^ count_list (su_raw (supplied models)) m) (at m r))"
proof -
  let ?s = "supplied models" and ?p = "to_lower clientProvider"
  have s: "suppliedOK ?s" by (rule supplied_ok)
  define g where "g = (case m_get (su_models ?s) m of Some model \<Rightarrow> addReg ?p model now | None \<Rightarrow> (\<lambda>v. v))"
  have "at m (foldl (\<lambda>r i. addModelRegistration i ?p (m_get (su_models ?s) i) now r) r (su_raw ?s))
      = foldl (\<lambda>v i. if m = i then g v else v) (at m r) (su_raw ?s)"
    by (rule foldl_view)
      (use suppliedOK_cases(2) [OF s, of m] in \<open>auto simp: at_addModelRegistration g_def split: option.splits\<close>)
  then show ?thesis
    using assms by (simp add: RegisterClient_def Let_def foldl_count g_def funpow_ident split: option.splits)
qed

lemma at_unregisterClientInternal:
  "at m (unregisterClientInternal clientID now r) =
    (case m_get (re_clientModels r) clientID of None \<Rightarrow> at m r
     | Some old \<Rightarrow> (unregisterReg clientID (m_get (re_clientProviders r) clientID) now ^^ count_list old m) (at m r))"
proof (cases "m_get (re_clientModels r) clientID")
  case None
  then show ?thesis by (simp add: unregisterClientInternal_def)
next
  case (Some old)
  let ?f = "unregisterReg clientID (m_get (re_clientProviders r) clientID) now"
  have "at m (foldl (\<lambda>r i. updModel i ?f r) r old) = foldl (\<lambda>v i. if m = i then ?f v else v) (at m r) old"
    by (rule foldl_view) (simp add: m_get_updModel)
  then show ?thesis using Some by (simp add: unregisterClientInternal_def Let_def foldl_count)
qed

section \<open>Iterating the steps\<close>

lemma regOK_addReg_funpow:
  assumes "regOK N P J i t reg" and "0 < k"
  shows "regOK (N + int k) (bump provider (int k) P) (putInfo provider model J) model now ((addReg provider model now ^^ k) reg)"
  using assms(2)
proof (induction k)
  case (Suc k)
  show ?case
  proof (cases "k = 0")
    case True
    then show ?thesis using regOK_addReg [OF assms(1), of provider model now] by simp
  next
    case False
    then have ih: "regOK (N + int k) (bump provider (int k) P) (putInfo provider model J) model now ((addReg provider model now ^^ k) reg)"
      using Suc by simp
    show ?thesis using regOK_addReg [OF ih, of provider model now] by (simp add: ac_simps)
  qed
qed simp

text \<open>The references \<open>N0\<close> and \<open>P0\<close> of the other clients stay; \<open>k\<close> of the \<open>a\<close> of this client go. The last
  reference of all takes the last reference of the provider with it.\<close>

lemma regOK_take_funpow:
  fixes step :: "ModelRegistration option \<Rightarrow> ModelRegistration option"
  assumes step: "\<And>N P J i t reg. regOK N P J i t reg \<Longrightarrow> 1 \<le> N \<Longrightarrow> (provider \<noteq> [] \<Longrightarrow> 1 \<le> P provider) \<Longrightarrow>
      (N = 1 \<Longrightarrow> bump provider (- 1) P = (\<lambda>_. 0)) \<Longrightarrow> regOK (N - 1) (bump provider (- 1) P) J i now (step reg)"
    and "regOK (N0 + int a) (bump provider (int b) P0) J i t reg" and others: "\<And>p. 0 \<le> P0 p \<and> P0 p \<le> N0"
    and "k \<le> b" and "b \<le> a" and "b < a \<Longrightarrow> k < a"
  shows "regOK (N0 + int (a - k)) (bump provider (int (b - k)) P0) J i (if k = 0 then t else now) ((step ^^ k) reg)"
  using assms(4-)
proof (induction k)
  case 0
  then show ?case using assms(2) by simp
next
  case (Suc k)
  then have ih: "regOK (N0 + int (a - k)) (bump provider (int (b - k)) P0) J i (if k = 0 then t else now) ((step ^^ k) reg)"
    by simp
  have held: "provider \<noteq> [] \<Longrightarrow> 1 \<le> bump provider (int (b - k)) P0 provider"
    using Suc.prems others [of provider] by (simp add: bump_def)
  have some: "1 \<le> N0 + int (a - k)" using Suc.prems others [of "[]"] by simp
  have last: "bump provider (- 1) (bump provider (int (b - k)) P0) = (\<lambda>_. 0)" if one: "N0 + int (a - k) = 1"
  proof -
    have "N0 = 0 \<and> a - k = 1" using one Suc.prems others [of "[]"] by auto
    moreover from this have "P0 = (\<lambda>_. 0)" using others by (auto simp: fun_eq_iff intro: antisym)
    moreover have "b - k = 1" using Suc.prems \<open>N0 = 0 \<and> a - k = 1\<close> by auto
    ultimately show ?thesis by simp
  qed
  have "regOK (N0 + int (a - k) - 1) (bump provider (int (b - k) + - 1) P0) J i now (step ((step ^^ k) reg))"
    unfolding bump_bump [symmetric] by (rule step [OF ih]) (rule some, erule held, erule last)
  moreover have "N0 + int (a - k) - 1 = N0 + int (a - Suc k)" "int (b - k) + - 1 = int (b - Suc k)"
    using Suc.prems by auto
  ultimately show ?case by (simp only: funpow.simps comp_apply nat.distinct if_False)
qed

lemma regOK_removeReg_funpow:
  assumes "regOK (N0 + int a) (bump provider (int b) P0) J i t reg" and "\<And>p. 0 \<le> P0 p \<and> P0 p \<le> N0"
    and "k \<le> b" and "b \<le> a" and "b < a \<Longrightarrow> k < a"
  shows "regOK (N0 + int (a - k)) (bump provider (int (b - k)) P0) J i (if k = 0 then t else now) ((removeReg clientID provider now ^^ k) reg)"
proof (rule regOK_take_funpow [OF _ assms])
  show "regOK (N - 1) (bump provider (- 1) P) J i now (removeReg clientID provider now reg)"
    if "regOK N P J i t reg" "1 \<le> N" "provider \<noteq> [] \<Longrightarrow> 1 \<le> P provider" "N = 1 \<Longrightarrow> bump provider (- 1) P = (\<lambda>_. 0)"
    for N P J i t reg using that by (rule regOK_removeReg)
qed

lemma regOK_unregisterReg_funpow:
  assumes "regOK (N0 + int a) (bump provider (int b) P0) J i t reg" and "\<And>p. 0 \<le> P0 p \<and> P0 p \<le> N0"
    and "k \<le> b" and "b \<le> a" and "b < a \<Longrightarrow> k < a"
  shows "regOK (N0 + int (a - k)) (bump provider (int (b - k)) P0) J i (if k = 0 then t else now) ((unregisterReg clientID (if provider = [] then None else Some provider) now ^^ k) reg)"
proof (rule regOK_take_funpow [OF _ assms])
  show "regOK (N - 1) (bump provider (- 1) P) J i now (unregisterReg clientID (if provider = [] then None else Some provider) now reg)"
    if "regOK N P J i t reg" "1 \<le> N" "provider \<noteq> [] \<Longrightarrow> 1 \<le> P provider" "N = 1 \<Longrightarrow> bump provider (- 1) P = (\<lambda>_. 0)"
    for N P J i t reg using that by (rule regOK_unregisterReg)
qed

lemma regOK_addReg_some:
  assumes "regOK N P J i t reg"
  obtains J' i' t' where "regOK (N + int k) (bump provider (int k) P) J' i' t' ((addReg provider model now ^^ k) reg)"
    and "putInfo provider model J' = putInfo provider model J"
proof (cases "k = 0")
  case True
  then show ?thesis using assms that [of J i t] by simp
next
  case False
  then show ?thesis using that [OF regOK_addReg_funpow [OF assms]] by simp
qed

lemma regOK_reconcile_removals:
  assumes reg: "regOK (N0 + int o') (bump oldProvider (int o') P0) J i t reg"
    and others: "\<And>p. 0 \<le> P0 p \<and> P0 p \<le> N0" and n: "0 < n"
    and reg': "reg' = (if oldProvider \<noteq> provider \<and> oldProvider \<noteq> [] \<and> 0 < n \<and> 0 < o'
      then shiftReg oldProvider (min (int o') (int n)) reg else reg)"
  shows "regOK (N0 + int (min o' n)) (bump oldProvider (if oldProvider = provider then int (min o' n) else 0) P0) J i
    (if o' \<le> n then t else now) ((removeReg clientID oldProvider now ^^ (o' - n)) reg')"
proof (cases "oldProvider = provider \<or> oldProvider = [] \<or> o' = 0")
  case True
  have "regOK (N0 + int (o' - (o' - n))) (bump oldProvider (int (o' - (o' - n))) P0) J i (if o' - n = 0 then t else now)
      ((removeReg clientID oldProvider now ^^ (o' - n)) reg)"
    by (rule regOK_removeReg_funpow [OF reg others]) auto
  moreover have "o' - (o' - n) = min o' n" by auto
  moreover have "bump oldProvider (int (min o' n)) P0 = bump oldProvider (if oldProvider = provider then int (min o' n) else 0) P0"
    using True by (auto simp: bump_def)
  ultimately show ?thesis using True reg' by auto
next
  case False
  have shift: "regOK (N0 + int o') (bump oldProvider (int o' + - min (int o') (int n)) P0) J i t
      (shiftReg oldProvider (min (int o') (int n)) reg)"
    unfolding bump_bump [symmetric] using False n others [of oldProvider]
    by (intro regOK_shiftReg [OF reg]) (auto simp: bump_def)
  moreover have "int o' + - min (int o') (int n) = int (o' - n)" by auto
  ultimately have "regOK (N0 + int o') (bump oldProvider (int (o' - n)) P0) J i t reg'"
    using False n by (simp add: reg')
  then have "regOK (N0 + int (o' - (o' - n))) (bump oldProvider (int (o' - n - (o' - n))) P0) J i (if o' - n = 0 then t else now)
      ((removeReg clientID oldProvider now ^^ (o' - n)) reg')"
    by (rule regOK_removeReg_funpow [OF _ others]) (use False n in auto)
  moreover have "o' - (o' - n) = min o' n" by auto
  ultimately show ?thesis using False by auto
qed

lemma regOK_reconcile_Some:
  assumes reg: "regOK (N0 + int o') (bump oldProvider (int o') P0) J i t reg"
    and others: "\<And>p. 0 \<le> P0 p \<and> P0 p \<le> N0" and n: "0 < n"
  shows "regOK (N0 + int n) (bump provider (int n) P0) (putInfo provider model J) model now
    (reconcile clientID oldProvider provider now o' n (Some model) reg)"
proof -
  let ?chg = "oldProvider \<noteq> provider"
  let ?P1 = "bump oldProvider (if oldProvider = provider then int (min o' n) else 0) P0"
  define reg1 where "reg1 = (removeReg clientID oldProvider now ^^ (o' - n)) (if ?chg \<and> oldProvider \<noteq> [] \<and> 0 < n \<and> 0 < o'
    then shiftReg oldProvider (min (int o') (int n)) reg else reg)"
  have r1: "regOK (N0 + int (min o' n)) ?P1 J i (if o' \<le> n then t else now) reg1"
    unfolding reg1_def by (rule regOK_reconcile_removals [OF reg others n refl])
  obtain J' i' t' where r2: "regOK (N0 + int (min o' n) + int (n - o')) (bump provider (int (n - o')) ?P1) J' i' t'
      ((addReg provider model now ^^ (n - o')) reg1)"
    and J': "putInfo provider model J' = putInfo provider model J"
    by (rule regOK_addReg_some [OF r1])
  let ?k = "if ?chg \<and> provider \<noteq> [] then min (int o') (int n) else 0"
  have sum: "N0 + int (min o' n) + int (n - o') = N0 + int n" by auto
  have "0 < bump provider (int (n - o')) ?P1 provider + ?k" if "provider \<noteq> []"
    using that n others [of provider] by (auto simp: bump_def)
  then have "regOK (N0 + int n) (bump provider ?k (bump provider (int (n - o')) ?P1)) (putInfo provider model J') model now
      (metaReg clientID provider ?chg model now (int n) (int o') ((addReg provider model now ^^ (n - o')) reg1))"
    using n others [of "[]"] by (intro regOK_metaReg [OF r2 [unfolded sum]]) auto
  moreover have "bump provider ?k (bump provider (int (n - o')) ?P1) = bump provider (int n) P0"
    by (auto simp: bump_def fun_eq_iff)
  ultimately show ?thesis unfolding J' by (simp add: reconcile_def Let_def reg1_def)
qed

lemma regOK_reconcile_None:
  assumes reg: "regOK (N0 + int o') (bump oldProvider (int o') P0) J i t reg" and others: "\<And>p. 0 \<le> P0 p \<and> P0 p \<le> N0"
  shows "regOK N0 P0 J i (if o' = 0 then t else now) (reconcile clientID oldProvider provider now o' 0 None reg)"
  using regOK_removeReg_funpow [OF reg others, of o' now clientID] by (simp add: reconcile_def Let_def)

lemma regOK_unregistered:
  assumes reg: "regOK (N0 + int o') (bump oldProvider (int o') P0) J i t reg" and others: "\<And>p. 0 \<le> P0 p \<and> P0 p \<le> N0"
  shows "regOK N0 P0 J i (if o' = 0 then t else now)
    ((unregisterReg clientID (if oldProvider = [] then None else Some oldProvider) now ^^ o') reg)"
  using regOK_unregisterReg_funpow [OF reg others, of o' now clientID] by simp

section \<open>References of the clients\<close>

text \<open>The specification of the counters: how often the clients refer to a model, in all and by
  provider; \<open>refsBut\<close> and \<open>providerRefsBut\<close> leave one client out.\<close>

definition refs :: "'c ModelRegistry \<Rightarrow> string \<Rightarrow> int" where
  "refs r m = (\<Sum>(c, ms)\<leftarrow>re_clientModels r. occ ms m)"

definition providerRefs :: "'c ModelRegistry \<Rightarrow> string \<Rightarrow> string \<Rightarrow> int" where
  "providerRefs r m p = (\<Sum>(c, ms)\<leftarrow>re_clientModels r. if m_get (re_clientProviders r) c = Some p then occ ms m else 0)"

definition without :: "string \<Rightarrow> 'c ModelRegistry \<Rightarrow> 'c ModelRegistry" where
  "without c r = r\<lparr>re_clientModels := m_del c (re_clientModels r)\<rparr>"

definition held :: "string \<Rightarrow> 'c ModelRegistry \<Rightarrow> string \<Rightarrow> nat" where
  "held c r m = (case m_get (re_clientModels r) c of None \<Rightarrow> 0 | Some ms \<Rightarrow> count_list ms m)"

abbreviation providerOf :: "string \<Rightarrow> 'c ModelRegistry \<Rightarrow> string" where
  "providerOf c r \<equiv> m_get0 [] (re_clientProviders r) c"

lemma sum_split:
  fixes f :: "string \<Rightarrow> 'v \<Rightarrow> int"
  assumes "m_ok al"
  shows "(\<Sum>(k, v)\<leftarrow>al. f k v) = (\<Sum>(k, v)\<leftarrow>m_del c al. f k v) + (case m_get al c of None \<Rightarrow> 0 | Some v \<Rightarrow> f c v)"
  using assms
proof (induction al)
  case (Cons a al)
  obtain k v where a: "a = (k, v)" by (cases a)
  show ?case
  proof (cases "k = c")
    case True
    then have "m_del c al = al" "m_get al c = None"
      using Cons.prems a by (simp_all add: delete_id map_of_eq_None_iff)
    then show ?thesis using True a by simp
  next
    case False
    then show ?thesis using Cons a by simp
  qed
qed simp

lemma refs_split: "m_ok (re_clientModels r) \<Longrightarrow> refs r m = refs (without c r) m + int (held c r m)"
  by (simp add: refs_def without_def held_def sum_split [of _ "\<lambda>c ms. occ ms m" c] split: option.splits)

lemma providerRefs_split:
  assumes "m_ok (re_clientModels r)" and "m_get (re_clientProviders r) c \<noteq> Some []"
  shows "providerRefs r m = bump (providerOf c r) (int (held c r m)) (providerRefs (without c r) m)"
proof
  fix p
  show "providerRefs r m p = bump (providerOf c r) (int (held c r m)) (providerRefs (without c r) m) p"
    using assms(2)
    by (simp add: providerRefs_def without_def held_def bump_def m_get0_def
        sum_split [OF assms(1), of "\<lambda>c ms. if m_get (re_clientProviders r) c = Some p then occ ms m else 0" c]
        split: option.splits)
qed

lemma refs_bounds: "0 \<le> providerRefs r m p \<and> providerRefs r m p \<le> refs r m"
proof -
  have "0 \<le> (\<Sum>(c, ms)\<leftarrow>al. if Q c then occ ms m else 0) \<and> (\<Sum>(c, ms)\<leftarrow>al. if Q c then occ ms m else 0) \<le> (\<Sum>(c, ms)\<leftarrow>al. occ ms m)"
    for Q :: "string \<Rightarrow> bool" and al :: "(string, string list) gomap"
    by (induction al) auto
  then show ?thesis unfolding refs_def providerRefs_def .
qed

text \<open>An operation on client \<open>c\<close> leaves the references of the others.\<close>

definition onlyClient :: "string \<Rightarrow> 'c ModelRegistry \<Rightarrow> 'c ModelRegistry \<Rightarrow> bool" where
  "onlyClient c r r' \<longleftrightarrow> m_del c (re_clientModels r') = m_del c (re_clientModels r) \<and>
     (\<forall>d. d \<noteq> c \<longrightarrow> m_get (re_clientProviders r') d = m_get (re_clientProviders r) d)"

lemma refs_without: "onlyClient c r r' \<Longrightarrow> refs (without c r') = refs (without c r)"
  by (simp add: onlyClient_def refs_def without_def fun_eq_iff)

lemma providerRefs_without:
  assumes "onlyClient c r r'"
  shows "providerRefs (without c r') = providerRefs (without c r)"
proof -
  have "(\<Sum>(d, ms)\<leftarrow>m_del c (re_clientModels r). if m_get (re_clientProviders r') d = Some p then occ ms m else 0) =
    (\<Sum>(d, ms)\<leftarrow>m_del c (re_clientModels r). if m_get (re_clientProviders r) d = Some p then occ ms m else 0)" for p m
    using assms by (intro arg_cong [where f = sum_list] map_cong) (auto simp: onlyClient_def AList.delete_eq)
  then show ?thesis using assms by (simp add: onlyClient_def providerRefs_def without_def fun_eq_iff)
qed

definition registryOK :: "'c ModelRegistry \<Rightarrow> bool" where
  "registryOK r \<longleftrightarrow> m_ok (re_clientModels r) \<and> (\<forall>c. m_get (re_clientProviders r) c \<noteq> Some []) \<and>
     (\<forall>m. \<exists>J i t. regOK (refs r m) (providerRefs r m) J i t (at m r))"

lemma registryOK_at:
  assumes "registryOK r"
  obtains J i t where "regOK (refs (without c r) m + int (held c r m))
    (bump (providerOf c r) (int (held c r m)) (providerRefs (without c r) m)) J i t (at m r)"
proof -
  have "m_ok (re_clientModels r)" "m_get (re_clientProviders r) c \<noteq> Some []"
    "\<exists>J i t. regOK (refs r m) (providerRefs r m) J i t (at m r)"
    using assms by (auto simp: registryOK_def)
  then show thesis using that refs_split [of r m c] providerRefs_split [of r c m] by force
qed

section \<open>What registering and unregistering make of every model\<close>

lemma clients_phases [simp]:
  "clients (shiftProviders oldProvider nc oc r) = clients r"
  "clients (removeGone clientID oldProvider now nc oc r) = clients r"
  "clients (removeOverage clientID oldProvider now nc oc r) = clients r"
  "clients (addMissing provider models now nc oc r) = clients r"
  "clients (updateMeta clientID provider changed s now oc r) = clients r"
  unfolding shiftProviders_def removeGone_def removeOverage_def addMissing_def updateMeta_def
  by (rule foldl_same_view, auto simp: Let_def clients_repeatUpd split: option.splits)+

lemma clients_fresh [simp]:
  "clients (foldl (\<lambda>r i. addModelRegistration i provider (f i) now r) r xs) = clients r"
  "clients (foldl (\<lambda>r i. updModel i g r) r xs) = clients r"
  by (rule foldl_same_view, simp)+

lemma clients_bookkeep:
  "clients (bookkeep clientID provider s r) = (case clients r of (cm, ci, cp) \<Rightarrow>
     (m_put clientID (su_raw s) cm, m_put clientID (su_models s) ci,
      if provider \<noteq> [] then m_put clientID provider cp else m_del clientID cp))"
  by (simp add: bookkeep_def invalidateAvailableModelsCacheLocked_def clients_def)

lemma clients_RegisterClient:
  assumes "su_unique (supplied models) \<noteq> []"
  shows "clients (RegisterClient clientID clientProvider models now r) = (case clients r of (cm, ci, cp) \<Rightarrow>
     (m_put clientID (su_raw (supplied models)) cm, m_put clientID (su_models (supplied models)) ci,
      if to_lower clientProvider \<noteq> [] then m_put clientID (to_lower clientProvider) cp else m_del clientID cp))"
  using assms by (simp add: RegisterClient_def Let_def clients_bookkeep split: option.splits)

lemma clients_unregisterClientInternal:
  "clients (unregisterClientInternal clientID now r) = (case m_get (re_clientModels r) clientID of
       None \<Rightarrow> (re_clientModels r, re_clientModelInfos r, m_del clientID (re_clientProviders r))
     | Some _ \<Rightarrow> (m_del clientID (re_clientModels r), m_del clientID (re_clientModelInfos r), m_del clientID (re_clientProviders r)))"
proof (cases "m_get (re_clientModels r) clientID")
  case (Some old)
  let ?r = "foldl (\<lambda>r i. updModel i (unregisterReg clientID (m_get (re_clientProviders r) clientID) now) r) r old"
  have "clients (foldl (\<lambda>r' i. updModel i (unregisterReg clientID (m_get (re_clientProviders r) clientID) now) r') r old) = clients r"
    by simp
  then show ?thesis using Some by (simp add: unregisterClientInternal_def clients_def Let_def)
qed (simp add: unregisterClientInternal_def clients_def)

lemma at_UnregisterClient: "at m (UnregisterClient clientID now r) = at m (unregisterClientInternal clientID now r)"
  by (simp add: UnregisterClient_def invalidateAvailableModelsCacheLocked_def)

lemma clients_UnregisterClient: "clients (UnregisterClient clientID now r) = clients (unregisterClientInternal clientID now r)"
  by (simp add: UnregisterClient_def invalidateAvailableModelsCacheLocked_def clients_def)

text \<open>A client has a provider only when it is registered; its entries in the three tables come
  and go together.\<close>

lemma clientTables:
  "re_clientModels r = fst (clients r)" "re_clientModelInfos r = fst (snd (clients r))"
  "re_clientProviders r = snd (snd (clients r))"
  by (simp_all add: clients_def)

lemma UnregisterClient_at:
  assumes r: "registryOK r" and reg: "regOK (refs (without c r) m + int (held c r m))
    (bump (providerOf c r) (int (held c r m)) (providerRefs (without c r) m)) J i t (at m r)"
  shows "regOK (refs (without c r) m) (providerRefs (without c r) m) J i (if held c r m = 0 then t else now) (at m (UnregisterClient c now r))"
proof (cases "m_get (re_clientModels r) c")
  case None
  then show ?thesis using reg
    by (simp add: at_UnregisterClient at_unregisterClientInternal held_def)
next
  case (Some old)
  have "m_get (re_clientProviders r) c = (if providerOf c r = [] then None else Some (providerOf c r))"
    using r by (auto simp: registryOK_def m_get0_def split: option.splits)
  then show ?thesis
    using regOK_unregistered [OF reg refs_bounds, of now c] Some
    by (simp add: at_UnregisterClient at_unregisterClientInternal held_def)
qed

lemma RegisterClient_at:
  assumes reg: "regOK (refs (without c r) m + int (held c r m))
      (bump (providerOf c r) (int (held c r m)) (providerRefs (without c r) m)) J i t (at m r)"
    and some: "su_unique (supplied models) \<noteq> []"
    and r'_def: "r' = RegisterClient c clientProvider models now r"
  shows "m_get (su_models (supplied models)) m = None \<Longrightarrow>
      regOK (refs (without c r) m) (providerRefs (without c r) m) J i (if held c r m = 0 then t else now) (at m r')"
    and "m_get (su_models (supplied models)) m = Some model \<Longrightarrow>
      regOK (refs (without c r) m + int (count_list (su_raw (supplied models)) m))
        (bump (to_lower clientProvider) (int (count_list (su_raw (supplied models)) m)) (providerRefs (without c r) m))
        (putInfo (to_lower clientProvider) model J) model now (at m r')"
proof -
  let ?s = "supplied models"
  note cases = suppliedOK_cases [OF supplied_ok, of models m]
  show "regOK (refs (without c r) m) (providerRefs (without c r) m) J i (if held c r m = 0 then t else now) (at m r')"
    if none: "m_get (su_models ?s) m = None"
  proof (cases "m_get (re_clientModels r) c")
    case None
    then show ?thesis using reg none some by (simp add: r'_def at_RegisterClient_fresh held_def)
  next
    case (Some old)
    then show ?thesis using regOK_reconcile_None [OF reg refs_bounds] none cases(1) some
      by (simp add: r'_def at_RegisterClient_reconcile held_def)
  qed
  show "regOK (refs (without c r) m + int (count_list (su_raw ?s) m))
      (bump (to_lower clientProvider) (int (count_list (su_raw ?s) m)) (providerRefs (without c r) m))
      (putInfo (to_lower clientProvider) model J) model now (at m r')" if one: "m_get (su_models ?s) m = Some model"
  proof (cases "m_get (re_clientModels r) c")
    case None
    then show ?thesis using regOK_addReg_funpow [of _ _ J i t "at m r" "count_list (su_raw ?s) m"] reg one some cases(2)
      by (simp add: r'_def at_RegisterClient_fresh held_def)
  next
    case (Some old)
    then show ?thesis using regOK_reconcile_Some [OF reg refs_bounds] one cases(2) some
      by (simp add: r'_def at_RegisterClient_reconcile held_def)
  qed
qed

text \<open>An operation that changes one client keeps the counters exact when every model ends up with
  the references of the others and those of the client.\<close>

lemma registryOK_client:
  assumes r: "registryOK r" and only: "onlyClient c r r'" and ok: "m_ok (re_clientModels r')"
    and nonempty: "m_get (re_clientProviders r') c \<noteq> Some []"
    and at: "\<And>m. \<exists>J i t. regOK (refs (without c r) m + int (held c r' m))
      (bump (providerOf c r') (int (held c r' m)) (providerRefs (without c r) m)) J i t (at m r')"
  shows "registryOK r'"
proof -
  have prov: "m_get (re_clientProviders r') d \<noteq> Some []" for d
    using r only nonempty by (cases "d = c") (auto simp: registryOK_def onlyClient_def)
  have "refs r' m = refs (without c r) m + int (held c r' m)"
    "providerRefs r' m = bump (providerOf c r') (int (held c r' m)) (providerRefs (without c r) m)" for m
    using refs_split [OF ok, of m c] providerRefs_split [OF ok nonempty, of m] refs_without [OF only] providerRefs_without [OF only] by auto
  then show ?thesis using ok prov at by (simp add: registryOK_def)
qed

lemma registryOK_new: "registryOK newModelRegistry"
  by (simp add: registryOK_def newModelRegistry_def refs_def providerRefs_def regOK_None fun_eq_iff)

lemma registryOK_UnregisterClient:
  assumes "registryOK r"
  shows "registryOK (UnregisterClient c now r)"
proof (rule registryOK_client [OF assms])
  let ?r = "UnregisterClient c now r"
  have ok: "m_ok (re_clientModels r)" using assms by (simp add: registryOK_def)
  note tables = clientTables [of ?r] clients_UnregisterClient clients_unregisterClientInternal
  show "onlyClient c r ?r" "m_ok (re_clientModels ?r)" "m_get (re_clientProviders ?r) c \<noteq> Some []"
    using ok by (auto simp: onlyClient_def tables AList.delete_idem distinct_delete split: option.splits)
  have none: "held c ?r m = 0" for m
    by (auto simp: held_def tables split: option.splits)
  fix m
  obtain J i t where "regOK (refs (without c r) m + int (held c r m))
      (bump (providerOf c r) (int (held c r m)) (providerRefs (without c r) m)) J i t (at m r)"
    by (rule registryOK_at [OF assms])
  from UnregisterClient_at [OF assms this]
  show "\<exists>J i t. regOK (refs (without c r) m + int (held c ?r m))
      (bump (providerOf c ?r) (int (held c ?r m)) (providerRefs (without c r) m)) J i t (at m ?r)"
    by (auto simp: none)
qed

lemma RegisterClient_empty:
  assumes "su_unique (supplied models) = []"
  shows "at m (RegisterClient c clientProvider models now r) = at m (UnregisterClient c now r)"
    and "clients (RegisterClient c clientProvider models now r) =
      (m_del c (re_clientModels r), m_del c (re_clientModelInfos r), m_del c (re_clientProviders r))"
  using assms clients_unregisterClientInternal [of c now r]
  by (auto simp: RegisterClient_def UnregisterClient_def invalidateAvailableModelsCacheLocked_def clients_def
      AList.delete_idem split: option.splits)

lemma registryOK_cong:
  assumes "registryOK r" and "re_clientModels r' = re_clientModels r"
    and "m_get (re_clientProviders r') = m_get (re_clientProviders r)"
    and "\<And>m J i t. regOK (refs r m) (providerRefs r m) J i t (at m r) \<Longrightarrow> \<exists>J i t. regOK (refs r m) (providerRefs r m) J i t (at m r')"
  shows "registryOK r'"
proof -
  have "refs r' = refs r" "providerRefs r' = providerRefs r"
    using assms(2,3) by (simp_all add: refs_def providerRefs_def fun_eq_iff)
  then show ?thesis using assms by (fastforce simp: registryOK_def)
qed

lemma registryOK_RegisterClient:
  assumes r: "registryOK r"
  shows "registryOK (RegisterClient c clientProvider models now r)"
proof (cases "su_unique (supplied models) = []")
  case True
  let ?r = "RegisterClient c clientProvider models now r" and ?u = "UnregisterClient c now r"
  have ok: "m_ok (re_clientModels r)" using r by (simp add: registryOK_def)
  have u: "registryOK ?u" by (rule registryOK_UnregisterClient [OF r])
  have "re_clientModels ?r = re_clientModels ?u"
    by (auto simp: clientTables RegisterClient_empty(2) [OF True] clients_UnregisterClient
        clients_unregisterClientInternal [of c now r] map_of_eq_None_iff split: option.splits)
  moreover have "re_clientProviders ?r = re_clientProviders ?u"
    by (simp add: clientTables RegisterClient_empty(2) [OF True] clients_UnregisterClient
        clients_unregisterClientInternal [of c now r] split: option.splits)
  moreover have "\<exists>J i t. regOK (refs ?u m) (providerRefs ?u m) J i t (at m ?r)"
    if "regOK (refs ?u m) (providerRefs ?u m) J i t (at m ?u)" for m J i t
    using that unfolding RegisterClient_empty(1) [OF True] by blast
  ultimately show ?thesis by (intro registryOK_cong [OF u]) simp_all
next
  case False
  let ?r = "RegisterClient c clientProvider models now r" and ?s = "supplied models"
  have "clients r = (re_clientModels r, re_clientModelInfos r, re_clientProviders r)" by (simp add: clients_def)
  then have tables: "re_clientModels ?r = m_put c (su_raw ?s) (re_clientModels r)"
    "re_clientProviders ?r = (if to_lower clientProvider \<noteq> [] then m_put c (to_lower clientProvider) (re_clientProviders r)
      else m_del c (re_clientProviders r))"
    by (simp_all add: clientTables [of ?r] clients_RegisterClient [OF False])
  show ?thesis
  proof (rule registryOK_client [OF r])
    have ok: "m_ok (re_clientModels r)" using r by (simp add: registryOK_def)
    show "onlyClient c r ?r" "m_ok (re_clientModels ?r)" "m_get (re_clientProviders ?r) c \<noteq> Some []"
      using ok by (auto simp: onlyClient_def tables AList.delete_update_same distinct_update)
    have held: "held c ?r m = count_list (su_raw ?s) m" for m
      by (simp add: held_def tables)
    have prov: "providerOf c ?r = to_lower clientProvider"
      by (simp add: tables)
    fix m
    obtain J i t where reg: "regOK (refs (without c r) m + int (held c r m))
        (bump (providerOf c r) (int (held c r m)) (providerRefs (without c r) m)) J i t (at m r)"
      by (rule registryOK_at [OF r])
    show "\<exists>J i t. regOK (refs (without c r) m + int (held c ?r m))
        (bump (providerOf c ?r) (int (held c ?r m)) (providerRefs (without c r) m)) J i t (at m ?r)"
      using RegisterClient_at [OF reg False refl] suppliedOK_cases(1) [OF supplied_ok, of models m]
      unfolding held prov by (cases "m_get (su_models ?s) m") force+
  qed
qed

text \<open>The marks leave the counters.\<close>

lemma registryOK_updReg:
  assumes "registryOK r" and "\<And>g. mr_Count (f g) = mr_Count g \<and> mr_Providers (f g) = mr_Providers g \<and> mr_InfoByProvider (f g) = mr_InfoByProvider g"
  shows "registryOK (updReg m f r)"
proof (rule registryOK_cong [OF assms(1)])
  show "re_clientModels (updReg m f r) = re_clientModels r" "m_get (re_clientProviders (updReg m f r)) = m_get (re_clientProviders r)"
    by (simp_all add: updReg_def invalidateAvailableModelsCacheLocked_def split: option.splits)
  show "\<exists>J i t. regOK (refs r m') (providerRefs r m') J i t (at m' (updReg m f r))"
    if reg: "regOK (refs r m') (providerRefs r m') J i t (at m' r)" for m' J i t
  proof (cases "at m' (updReg m f r) = at m' r")
    case False
    then obtain g where g: "at m' r = Some g" "at m' (updReg m f r) = Some (f g)"
      by (auto simp: updReg_def invalidateAvailableModelsCacheLocked_def split: option.splits if_splits)
    have "regOK (refs r m') (providerRefs r m') J (mr_Info (f g)) (mr_LastUpdated (f g)) (at m' (updReg m f r))"
      using reg assms(2) [of g] unfolding g regOK_Some by simp
    then show ?thesis by blast
  qed (use reg in auto)
qed

lemma registryOK_marks:
  assumes "registryOK r"
  shows "registryOK (SetModelQuotaExceeded c m now r)" "registryOK (ClearModelQuotaExceeded c m r)"
    "registryOK (SuspendClientModel c m reason now r)" "registryOK (ResumeClientModel c m now r)"
  using assms
  by (auto simp: SetModelQuotaExceeded_def ClearModelQuotaExceeded_def SuspendClientModel_def ResumeClientModel_def
      intro!: registryOK_updReg split: option.splits)

lemma registryOK_CleanupExpiredQuotas:
  assumes "registryOK r"
  shows "registryOK (CleanupExpiredQuotas now r)"
proof (rule registryOK_cong [OF assms])
  let ?r = "CleanupExpiredQuotas now r"
  show "re_clientModels ?r = re_clientModels r" "m_get (re_clientProviders ?r) = m_get (re_clientProviders r)"
    by (simp_all add: CleanupExpiredQuotas_def invalidateAvailableModelsCacheLocked_def Let_def)
  have at: "at m ?r = map_option (\<lambda>g. g\<lparr>mr_QuotaExceededClients :=
      filter (\<lambda>(_, t). \<not> time_sub now t \<ge> modelQuotaExceededWindow) (mr_QuotaExceededClients g)\<rparr>) (at m r)" for m
    by (simp add: CleanupExpiredQuotas_def invalidateAvailableModelsCacheLocked_def Let_def
        m_get_map_snd [where f = "\<lambda>_ g. g\<lparr>mr_QuotaExceededClients :=
          filter (\<lambda>(_, t). \<not> time_sub now t \<ge> modelQuotaExceededWindow) (mr_QuotaExceededClients g)\<rparr>"])
  show "\<exists>J i t. regOK (refs r m) (providerRefs r m) J i t (at m ?r)"
    if "regOK (refs r m) (providerRefs r m) J i t (at m r)" for m J i t
    using that by (intro exI [of _ J] exI [of _ i] exI [of _ t]) (auto simp: at regOK_def split: option.splits)
qed

lemma registryOK_run: "registryOK (runRegistry ops)"
  unfolding runRegistry_def
proof (rule foldl_invariant [where I = registryOK])
  show "registryOK (runRegistryOp r x)" if "registryOK r" for r :: "'a ModelRegistry" and x
    using that registryOK_RegisterClient registryOK_UnregisterClient registryOK_marks registryOK_CleanupExpiredQuotas
    by (cases x) auto
qed (rule registryOK_new)

text \<open>
  C7: Whatever sequence of registrations, re-registrations, unregistrations, marks and clean-ups
  has run, the counters of the registry are exact. A model is in the table exactly when some
  client refers to it; its \<open>Count\<close> is the number of references of all clients, and its \<open>Providers\<close>
  table holds, for exactly the providers with a reference, the number of theirs.\<close>
theorem registry_counts_exact:
  "let r = runRegistry ops :: 'c ModelRegistry
   in case m_get (re_models r) m of
        None \<Rightarrow> refs r m = 0
      | Some g \<Rightarrow> mr_Count g = refs r m \<and> 0 < mr_Count g \<and>
          (\<forall>p. m_get (mr_Providers g) p = (if providerRefs r m p = 0 then None else Some (providerRefs r m p)))"
proof -
  let ?r = "runRegistry ops :: 'c ModelRegistry"
  have "registryOK ?r" by (rule registryOK_run)
  then obtain J i t where "regOK (refs ?r m) (providerRefs ?r m) J i t (at m ?r)"
    unfolding registryOK_def by blast
  then show ?thesis by (auto simp: regOK_def present_def Let_def split: option.splits)
qed

text \<open>What the operations and the queries read of a registration apart from the transient marks.\<close>

definition regView :: "string \<Rightarrow> 'c ModelRegistry \<Rightarrow>
    (ModelInfo \<times> (string \<rightharpoonup> ModelInfo) \<times> int \<times> gotime \<times> (string \<rightharpoonup> int)) option" where
  "regView m r = map_option (\<lambda>g. (mr_Info g, m_get (mr_InfoByProvider g), mr_Count g, mr_LastUpdated g, m_get (mr_Providers g)))
     (m_get (re_models r) m)"

lemma regOK_unique:
  assumes "regOK N P J i t (at m r)" and "regOK N P J i t (at m r')"
  shows "regView m r = regView m r'"
  using assms by (auto simp: regOK_def regView_def split: option.splits)

lemma reregister_view:
  assumes r: "registryOK r" and some: "su_unique (supplied models) \<noteq> []"
  shows "regView m (RegisterClient c p models now r) = regView m (RegisterClient c p models now (UnregisterClient c now r))"
proof -
  let ?u = "UnregisterClient c now r"
  obtain J i t where reg: "regOK (refs (without c r) m + int (held c r m))
      (bump (providerOf c r) (int (held c r m)) (providerRefs (without c r) m)) J i t (at m r)"
    by (rule registryOK_at [OF r])
  have only: "onlyClient c r ?u" and none: "held c ?u m = 0"
    by (auto simp: onlyClient_def held_def clientTables [of ?u] clients_UnregisterClient clients_unregisterClientInternal
        AList.delete_idem split: option.splits)
  let ?t = "if held c r m = 0 then t else now"
  have u: "regOK (refs (without c ?u) m + int (held c ?u m))
      (bump (providerOf c ?u) (int (held c ?u m)) (providerRefs (without c ?u) m)) J i ?t (at m ?u)"
    using UnregisterClient_at [OF r reg] by (simp add: none refs_without [OF only] providerRefs_without [OF only])
  note direct = RegisterClient_at [OF reg some refl] and twice = RegisterClient_at [OF u some refl]
  show ?thesis
  proof (cases "m_get (su_models (supplied models)) m")
    case None
    then show ?thesis using direct(1) twice(1)
      by (intro regOK_unique) (auto simp: none refs_without [OF only] providerRefs_without [OF only])
  next
    case (Some model)
    show ?thesis using direct(2) [OF Some] twice(2) [OF Some]
      by (intro regOK_unique) (auto simp: refs_without [OF only] providerRefs_without [OF only])
  qed
qed

text \<open>The lookups of the tables of the clients.\<close>

definition clientView :: "string \<Rightarrow> 'c ModelRegistry \<Rightarrow> string list option \<times> (string, ModelInfo) gomap option \<times> string option" where
  "clientView d r = (m_get (re_clientModels r) d, m_get (re_clientModelInfos r) d, m_get (re_clientProviders r) d)"

lemma clientView_clients: "clientView d r = (case clients r of (cm, ci, cp) \<Rightarrow> (m_get cm d, m_get ci d, m_get cp d))"
  by (simp add: clientView_def clients_def)

lemma clientView_Unregister: "d \<noteq> c \<Longrightarrow> clientView d (UnregisterClient c now r) = clientView d r"
  by (simp add: clientView_clients clients_UnregisterClient clients_unregisterClientInternal split: option.splits)
    (simp add: clients_def)

lemma clientView_Register:
  "clientView d (RegisterClient c p models now r) =
    (if d \<noteq> c then clientView d r
     else if su_unique (supplied models) = [] then (None, None, None)
     else (Some (su_raw (supplied models)), Some (su_models (supplied models)),
           if to_lower p = [] then None else Some (to_lower p)))"
proof -
  have "clientView d r = (m_get (re_clientModels r) d, m_get (re_clientModelInfos r) d, m_get (re_clientProviders r) d)"
    "clients r = (re_clientModels r, re_clientModelInfos r, re_clientProviders r)"
    by (simp_all add: clientView_def clients_def)
  then show ?thesis
    by (cases "su_unique (supplied models) = []")
      (simp_all add: clientView_clients [of d "RegisterClient c p models now r"] RegisterClient_empty(2) clients_RegisterClient)
qed


end
