(* ===== verification/ModelListing.thy ===== *)
theory ModelListing
  imports ModelRegistry
begin

text \<open>
  The model lists of \<open>backend/internal/registry/model_registry.go\<close>: the maps handed to the API handlers
  (\<open>convertModelToMap\<close>), the list of available models with its cache per handler type, and the list
  of one provider. A list follows the order in which the loop over the model table visits it.
\<close>

section \<open>The map of a model\<close>

datatype ModelValue = StringValue string | Int64Value int | IntValue int | StringsValue "string list"

type_synonym ModelMap = "(string, ModelValue) gomap"

abbreviation DefaultClaudeMaxInputTokens :: int where "DefaultClaudeMaxInputTokens \<equiv> 200000"
abbreviation DefaultClaudeMaxOutputTokens :: int where "DefaultClaudeMaxOutputTokens \<equiv> 64000"

text \<open>\<open>time.Unix(sec, 0).UTC().Format(time.RFC3339)\<close>: the civil date of a number of days since 1 January
  1970 in the proleptic Gregorian calendar, and the padded decimal fields.\<close>

definition civilFromDays :: "int \<Rightarrow> int \<times> int \<times> int" where
  "civilFromDays days =
     (let z = days + 719468;
          era = z div 146097;
          doe = z mod 146097;
          yoe = (doe - doe div 1460 + doe div 36524 - doe div 146096) div 365;
          doy = doe - (365 * yoe + yoe div 4 - yoe div 100);
          mp = (5 * doy + 2) div 153;
          d = doy - (153 * mp + 2) div 5 + 1;
          m = (if mp < 10 then mp + 3 else mp - 9);
          y = yoe + era * 400 + (if m \<le> 2 then 1 else 0)
      in (y, m, d))"

definition digitChar :: "int \<Rightarrow> char" where
  "digitChar n = char_of (48 + nat n)"

function decimalDigits :: "int \<Rightarrow> string" where
  "decimalDigits n = (if n < 10 then [digitChar n] else decimalDigits (n div 10) @ [digitChar (n mod 10)])"
  by auto
termination by (relation "measure nat") auto

definition padded :: "nat \<Rightarrow> int \<Rightarrow> string" where
  "padded width n = (let s = decimalDigits n in replicate (width - length s) (CHR ''0'') @ s)"

definition formatRFC3339 :: "int \<Rightarrow> string" where
  "formatRFC3339 sec =
     (let (y, m, d) = civilFromDays (sec div 86400); t = sec mod 86400
      in padded 4 y @ ''-'' @ padded 2 m @ ''-'' @ padded 2 d @ ''T'' @
         padded 2 (t div 3600) @ '':'' @ padded 2 (t mod 3600 div 60) @ '':'' @ padded 2 (t mod 60) @ ''Z'')"

definition entryIf :: "bool \<Rightarrow> string \<Rightarrow> ModelValue \<Rightarrow> ModelMap" where
  "entryIf b k v = (if b then [(k, v)] else [])"

definition convertModelToMap :: "ModelInfo \<Rightarrow> string \<Rightarrow> ModelMap" where
  "convertModelToMap model handlerType =
     (if handlerType = ''openai'' then
        [(''id'', StringValue (mi_ID model)), (''object'', StringValue ''model''), (''owned_by'', StringValue (mi_OwnedBy model))] @
        entryIf (mi_Created model > 0) ''created'' (Int64Value (mi_Created model)) @
        entryIf (mi_Type model \<noteq> []) ''type'' (StringValue (mi_Type model)) @
        entryIf (mi_DisplayName model \<noteq> []) ''display_name'' (StringValue (mi_DisplayName model)) @
        entryIf (mi_Version model \<noteq> []) ''version'' (StringValue (mi_Version model)) @
        entryIf (mi_Description model \<noteq> []) ''description'' (StringValue (mi_Description model)) @
        entryIf (mi_ContextLength model > 0) ''context_length'' (IntValue (mi_ContextLength model)) @
        entryIf (mi_MaxCompletionTokens model > 0) ''max_completion_tokens'' (IntValue (mi_MaxCompletionTokens model)) @
        entryIf (mi_SupportedParameters model \<noteq> []) ''supported_parameters'' (StringsValue (mi_SupportedParameters model))
      else if handlerType = ''claude'' then
        [(''id'', StringValue (mi_ID model)), (''object'', StringValue ''model''), (''owned_by'', StringValue (mi_OwnedBy model))] @
        entryIf (mi_Created model > 0) ''created_at'' (StringValue (formatRFC3339 (mi_Created model))) @
        [(''type'', StringValue ''model''),
         (''display_name'', StringValue (if mi_DisplayName model \<noteq> [] then mi_DisplayName model else mi_ID model)),
         (''max_input_tokens'', IntValue (if mi_ContextLength model \<le> 0 then DefaultClaudeMaxInputTokens else mi_ContextLength model)),
         (''max_tokens'', IntValue (if mi_MaxCompletionTokens model \<le> 0 then DefaultClaudeMaxOutputTokens else mi_MaxCompletionTokens model))]
      else if handlerType = ''gemini'' then
        [(''name'', StringValue (if mi_Name model \<noteq> [] then mi_Name model else mi_ID model))] @
        entryIf (mi_Version model \<noteq> []) ''version'' (StringValue (mi_Version model)) @
        entryIf (mi_DisplayName model \<noteq> []) ''displayName'' (StringValue (mi_DisplayName model)) @
        entryIf (mi_Description model \<noteq> []) ''description'' (StringValue (mi_Description model)) @
        entryIf (mi_InputTokenLimit model > 0) ''inputTokenLimit'' (IntValue (mi_InputTokenLimit model)) @
        entryIf (mi_OutputTokenLimit model > 0) ''outputTokenLimit'' (IntValue (mi_OutputTokenLimit model)) @
        entryIf (mi_SupportedGenerationMethods model \<noteq> []) ''supportedGenerationMethods'' (StringsValue (mi_SupportedGenerationMethods model)) @
        entryIf (mi_SupportedInputModalities model \<noteq> []) ''supportedInputModalities'' (StringsValue (mi_SupportedInputModalities model)) @
        entryIf (mi_SupportedOutputModalities model \<noteq> []) ''supportedOutputModalities'' (StringsValue (mi_SupportedOutputModalities model))
      else
        [(''id'', StringValue (mi_ID model)), (''object'', StringValue ''model'')] @
        entryIf (mi_OwnedBy model \<noteq> []) ''owned_by'' (StringValue (mi_OwnedBy model)) @
        entryIf (mi_Type model \<noteq> []) ''type'' (StringValue (mi_Type model)) @
        entryIf (mi_Created model \<noteq> 0) ''created'' (Int64Value (mi_Created model)))"

section \<open>The list of available models\<close>

record availableModelsCacheEntry =
  ce_models :: "ModelMap list"
  ce_expiresAt :: gotime

type_synonym ListingRegistry = "availableModelsCacheEntry ModelRegistry"

text \<open>The loop over the quota marks of one model: the marks still in their window, and the earliest
  recovery.\<close>

definition quotaStep :: "gotime \<Rightarrow> int \<times> gotime \<Rightarrow> string \<times> gotime \<Rightarrow> int \<times> gotime" where
  "quotaStep now acc mark =
     (let (expiredClients, expiresAt) = acc;
          recoveryAt = snd mark + modelQuotaExceededWindow
      in if now < recoveryAt
         then (expiredClients + 1, if is_zero expiresAt \<or> recoveryAt < expiresAt then recoveryAt else expiresAt)
         else (expiredClients, expiresAt))"

definition isQuotaReason :: "string \<times> string \<Rightarrow> bool" where
  "isQuotaReason s \<longleftrightarrow> equal_fold (snd s) ''quota''"

definition shownWith :: "int \<Rightarrow> int \<Rightarrow> int \<Rightarrow> int \<Rightarrow> bool" where
  "shownWith availableClients expiredClients cooldownSuspended otherSuspended \<longleftrightarrow>
     (let effectiveClients = max 0 (availableClients - expiredClients - otherSuspended)
      in effectiveClients > 0 \<or>
         (availableClients > 0 \<and> (expiredClients > 0 \<or> cooldownSuspended > 0) \<and> otherSuspended = 0))"

definition buildStep :: "string \<Rightarrow> gotime \<Rightarrow> ModelMap list \<times> gotime \<Rightarrow> string \<times> ModelRegistration \<Rightarrow> ModelMap list \<times> gotime" where
  "buildStep handlerType now acc entry =
     (let (models, expiresAt) = acc;
          g = snd entry;
          (expiredClients, expiresAt) = foldl (quotaStep now) (0, expiresAt) (mr_QuotaExceededClients g);
          cooldownSuspended = int (length (filter isQuotaReason (mr_SuspendedClients g)));
          otherSuspended = int (length (filter (\<lambda>s. \<not> isQuotaReason s) (mr_SuspendedClients g)))
      in (if shownWith (mr_Count g) expiredClients cooldownSuspended otherSuspended
          then models @ [convertModelToMap (mr_Info g) handlerType] else models, expiresAt))"

definition buildAvailableModelsLocked :: "string \<Rightarrow> gotime \<Rightarrow> 'c ModelRegistry \<Rightarrow> ModelMap list \<times> gotime" where
  "buildAvailableModelsLocked handlerType now r = foldl (buildStep handlerType now) ([], zero_time) (re_models r)"

definition cachedModels :: "string \<Rightarrow> gotime \<Rightarrow> ListingRegistry \<Rightarrow> ModelMap list option" where
  "cachedModels handlerType now r =
     (case m_get (re_availableModelsCache r) handlerType of
        Some cache \<Rightarrow> if is_zero (ce_expiresAt cache) \<or> now < ce_expiresAt cache then Some (ce_models cache) else None
      | None \<Rightarrow> None)"

definition getAvailableModelsLocked :: "string \<Rightarrow> gotime \<Rightarrow> ListingRegistry \<Rightarrow> ModelMap list \<times> ListingRegistry" where
  "getAvailableModelsLocked handlerType now r =
     (case cachedModels handlerType now r of
        Some models \<Rightarrow> (models, r)
      | None \<Rightarrow>
          (let (models, expiresAt) = buildAvailableModelsLocked handlerType now r
           in (models, r\<lparr>re_availableModelsCache := m_put handlerType
                 \<lparr>ce_models = models, ce_expiresAt = expiresAt\<rparr> (re_availableModelsCache r)\<rparr>)))"

definition GetAvailableModels :: "string \<Rightarrow> gotime \<Rightarrow> ListingRegistry \<Rightarrow> ModelMap list \<times> ListingRegistry" where
  "GetAvailableModels handlerType now r =
     (case cachedModels handlerType now r of
        Some models \<Rightarrow> (models, r)
      | None \<Rightarrow> getAvailableModelsLocked handlerType now r)"

section \<open>The models of one provider\<close>

record providerModel =
  pm_count :: int
  pm_info :: "ModelInfo option"

definition providerModelStep :: "(string, ModelInfo) gomap \<Rightarrow> (string, ModelRegistration) gomap
    \<Rightarrow> (string, providerModel) gomap \<Rightarrow> string \<Rightarrow> (string, providerModel) gomap" where
  "providerModelStep clientInfos models pms modelID =
     (let modelID = trim_space modelID
      in if modelID = [] then pms
         else let entry = (case m_get pms modelID of Some e \<Rightarrow> e | None \<Rightarrow> \<lparr>pm_count = 0, pm_info = None\<rparr>);
                  info = (case pm_info entry of
                      Some i \<Rightarrow> Some i
                    | None \<Rightarrow> (case m_get clientInfos modelID of
                          Some i \<Rightarrow> Some i
                        | None \<Rightarrow> map_option mr_Info (m_get models modelID)))
           in m_put modelID \<lparr>pm_count = pm_count entry + 1, pm_info = info\<rparr> pms)"

definition providerModels :: "string \<Rightarrow> 'c ModelRegistry \<Rightarrow> (string, providerModel) gomap" where
  "providerModels provider r =
     foldl (\<lambda>pms (clientID, clientProvider).
        if clientProvider \<noteq> provider then pms
        else foldl (providerModelStep (m_get0 [] (re_clientModelInfos r) clientID) (re_models r)) pms
               (m_get0 [] (re_clientModels r) clientID))
      [] (re_clientProviders r)"

definition marksOfProvider :: "string \<Rightarrow> 'c ModelRegistry \<Rightarrow> (string, 'v) gomap \<Rightarrow> (string, 'v) gomap" where
  "marksOfProvider provider r marks =
     filter (\<lambda>(clientID, _). clientID \<noteq> [] \<and> m_get (re_clientProviders r) clientID = Some provider) marks"

definition providerModelShown :: "string \<Rightarrow> gotime \<Rightarrow> 'c ModelRegistry \<Rightarrow> string \<times> providerModel \<Rightarrow> ModelInfo option" where
  "providerModelShown provider now r entry =
     (let (modelID, e) = entry
      in if pm_count e \<le> 0 then None
         else let registration = m_get (re_models r) modelID;
                  quota = (case registration of None \<Rightarrow> [] | Some g \<Rightarrow> marksOfProvider provider r (mr_QuotaExceededClients g));
                  suspended = (case registration of None \<Rightarrow> [] | Some g \<Rightarrow> marksOfProvider provider r (mr_SuspendedClients g));
                  expiredClients = int (length (filter (\<lambda>(_, t). time_sub now t < modelQuotaExceededWindow) quota));
                  cooldownSuspended = int (length (filter isQuotaReason suspended));
                  otherSuspended = int (length (filter (\<lambda>s. \<not> isQuotaReason s) suspended))
           in if shownWith (pm_count e) expiredClients cooldownSuspended otherSuspended
              then (case pm_info e of Some i \<Rightarrow> Some i | None \<Rightarrow> map_option mr_Info registration)
              else None)"

definition GetAvailableModelsByProvider :: "string \<Rightarrow> gotime \<Rightarrow> 'c ModelRegistry \<Rightarrow> ModelInfo list" where
  "GetAvailableModelsByProvider provider now r =
     (let provider = to_lower (trim_space provider)
      in if provider = [] then [] else List.map_filter (providerModelShown provider now r) (providerModels provider r))"

section \<open>Reachable registries with their cache\<close>

text \<open>The clock of the calls that list models does not go backwards: \<open>listing_reach t r\<close> means that the
  last of them read \<open>t\<close>.\<close>

inductive listing_reach :: "gotime \<Rightarrow> ListingRegistry \<Rightarrow> bool" where
  start: "listing_reach 0 newModelRegistry"
| update: "listing_reach t r \<Longrightarrow> listing_reach t (runRegistryOp r x)"
| list: "listing_reach t r \<Longrightarrow> t \<le> now \<Longrightarrow> listing_reach now (snd (GetAvailableModels handlerType now r))"

section \<open>The cached list is the current one\<close>

lemma quotaStep_expiry:
  assumes "0 \<le> now" and "now \<le> now'"
  shows "snd (foldl (quotaStep now) (n, e) marks) = 0 \<or> now' < snd (foldl (quotaStep now) (n, e) marks) \<Longrightarrow>
    (e = 0 \<or> now' < e) \<and> (\<forall>mark\<in>set marks. (now < snd mark + modelQuotaExceededWindow) = (now' < snd mark + modelQuotaExceededWindow))"
proof (induction marks arbitrary: n e)
  case (Cons mark marks)
  let ?acc = "quotaStep now (n, e) mark"
  have "(snd ?acc = 0 \<or> now' < snd ?acc) \<and>
      (\<forall>mark\<in>set marks. (now < snd mark + modelQuotaExceededWindow) = (now' < snd mark + modelQuotaExceededWindow))"
    using Cons.IH [of "fst ?acc" "snd ?acc"] Cons.prems by simp
  with assms show ?case by (auto simp: quotaStep_def Let_def split: if_splits)
qed simp

lemma quotaStep_count:
  "fst (foldl (quotaStep now) (n, e) marks) = n + int (length (filter (\<lambda>mark. now < snd mark + modelQuotaExceededWindow) marks))"
  by (induction marks arbitrary: n e) (auto simp: quotaStep_def Let_def)

text \<open>Which models a build at time \<open>now\<close> shows, apart from the expiry it computes.\<close>

definition shownAt :: "gotime \<Rightarrow> ModelRegistration \<Rightarrow> bool" where
  "shownAt now g = shownWith (mr_Count g)
     (int (length (filter (\<lambda>mark. now < snd mark + modelQuotaExceededWindow) (mr_QuotaExceededClients g))))
     (int (length (filter isQuotaReason (mr_SuspendedClients g))))
     (int (length (filter (\<lambda>s. \<not> isQuotaReason s) (mr_SuspendedClients g))))"

lemma buildStep_eq:
  "buildStep h now (ms, e) entry =
    (if shownAt now (snd entry) then ms @ [convertModelToMap (mr_Info (snd entry)) h] else ms,
     snd (foldl (quotaStep now) (0, e) (mr_QuotaExceededClients (snd entry))))"
  using quotaStep_count [of now 0 e "mr_QuotaExceededClients (snd entry)"]
  by (simp add: buildStep_def shownAt_def Let_def case_prod_beta)

lemma build_fst:
  "fst (foldl (buildStep h now) (ms, e) regs) = ms @ map (\<lambda>(_, g). convertModelToMap (mr_Info g) h) (filter (\<lambda>(_, g). shownAt now g) regs)"
  by (induction regs arbitrary: ms e) (auto simp: buildStep_eq)

lemma build_expiry:
  assumes "0 \<le> now" and "now \<le> now'"
  shows "snd (foldl (buildStep h now) (ms, e) regs) = 0 \<or> now' < snd (foldl (buildStep h now) (ms, e) regs) \<Longrightarrow>
    (e = 0 \<or> now' < e) \<and> (\<forall>(_, g)\<in>set regs. shownAt now g = shownAt now' g)"
proof (induction regs arbitrary: ms e)
  case (Cons entry regs)
  let ?e = "snd (foldl (quotaStep now) (0, e) (mr_QuotaExceededClients (snd entry)))"
  have IH: "(?e = 0 \<or> now' < ?e) \<and> (\<forall>(_, g)\<in>set regs. shownAt now g = shownAt now' g)"
    using Cons.prems by (intro Cons.IH) (simp add: buildStep_eq)
  then have q: "(e = 0 \<or> now' < e) \<and> (\<forall>mark\<in>set (mr_QuotaExceededClients (snd entry)).
      (now < snd mark + modelQuotaExceededWindow) = (now' < snd mark + modelQuotaExceededWindow))"
    using quotaStep_expiry [OF assms] by blast
  then have "shownAt now (snd entry) = shownAt now' (snd entry)"
    by (simp add: shownAt_def cong: filter_cong)
  with IH q show ?case by (cases entry) auto
qed simp

lemma build_current:
  assumes "0 \<le> now" and "now \<le> now'"
    and "snd (buildAvailableModelsLocked h now r) = 0 \<or> now' < snd (buildAvailableModelsLocked h now r)"
  shows "fst (buildAvailableModelsLocked h now r) = fst (buildAvailableModelsLocked h now' r)"
proof -
  have "\<forall>(_, g)\<in>set (re_models r). shownAt now g = shownAt now' g"
    using build_expiry [OF assms(1,2)] assms(3) unfolding buildAvailableModelsLocked_def by blast
  then have "filter (\<lambda>(_, g). shownAt now g) (re_models r) = filter (\<lambda>(_, g). shownAt now' g) (re_models r)"
    by (intro filter_cong) auto
  then show ?thesis by (simp add: buildAvailableModelsLocked_def build_fst)
qed

text \<open>Every cached list is a build over the current models at an earlier time.\<close>

definition cacheOK :: "gotime \<Rightarrow> ListingRegistry \<Rightarrow> bool" where
  "cacheOK t r \<longleftrightarrow> 0 \<le> t \<and> (\<forall>h cache. m_get (re_availableModelsCache r) h = Some cache \<longrightarrow>
     (\<exists>now. 0 \<le> now \<and> now \<le> t \<and> (ce_models cache, ce_expiresAt cache) = buildAvailableModelsLocked h now r))"

lemma cacheOK_invalidated: "0 \<le> t \<Longrightarrow> re_availableModelsCache r = [] \<Longrightarrow> cacheOK t r"
  by (simp add: cacheOK_def)

lemma cacheOK_same: "cacheOK t r \<Longrightarrow> re_models r' = re_models r \<Longrightarrow> re_availableModelsCache r' = re_availableModelsCache r \<Longrightarrow> cacheOK t r'"
  by (simp add: cacheOK_def buildAvailableModelsLocked_def)

lemma updReg_cache: "re_availableModelsCache (updReg m f r) = [] \<or> updReg m f r = r"
  by (simp add: updReg_def invalidateAvailableModelsCacheLocked_def split: option.splits)

lemma cleanup_cache: "re_availableModelsCache (CleanupExpiredQuotas now r) = [] \<or> CleanupExpiredQuotas now r = r"
proof (cases "list_ex (\<lambda>(_, g). list_ex (\<lambda>(_, t). time_sub now t \<ge> modelQuotaExceededWindow) (mr_QuotaExceededClients g)) (re_models r)")
  case False
  have "(i, g\<lparr>mr_QuotaExceededClients := filter (\<lambda>(_, t). \<not> time_sub now t \<ge> modelQuotaExceededWindow) (mr_QuotaExceededClients g)\<rparr>) = (i, g)"
    if "(i, g) \<in> set (re_models r)" for i g
  proof -
    have "filter (\<lambda>(_, t). \<not> time_sub now t \<ge> modelQuotaExceededWindow) (mr_QuotaExceededClients g) = mr_QuotaExceededClients g"
      using False that by (intro filter_True) (fastforce simp: list_ex_iff)
    then show ?thesis by simp
  qed
  then have "map (\<lambda>(i, g). (i, g\<lparr>mr_QuotaExceededClients :=
      filter (\<lambda>(_, t). \<not> time_sub now t \<ge> modelQuotaExceededWindow) (mr_QuotaExceededClients g)\<rparr>)) (re_models r) = re_models r"
    by (intro map_idI) auto
  with False show ?thesis by (simp add: CleanupExpiredQuotas_def Let_def)
qed (simp add: CleanupExpiredQuotas_def invalidateAvailableModelsCacheLocked_def Let_def)

lemma runRegistryOp_cache: "re_availableModelsCache (runRegistryOp r x) = [] \<or> runRegistryOp r x = r"
proof (cases x)
  case (Register c p models now)
  then show ?thesis
    by (simp add: RegisterClient_def bookkeep_def invalidateAvailableModelsCacheLocked_def Let_def split: option.splits)
next
  case (Unregister c now)
  then show ?thesis by (simp add: UnregisterClient_def invalidateAvailableModelsCacheLocked_def)
next
  case (Cleanup now)
  then show ?thesis using cleanup_cache by simp
qed (use updReg_cache in \<open>auto simp: SetModelQuotaExceeded_def ClearModelQuotaExceeded_def SuspendClientModel_def
      ResumeClientModel_def split: option.splits\<close>)

lemma GetAvailableModels_build:
  assumes "cacheOK t r" and "t \<le> now"
  shows "fst (GetAvailableModels h now r) = fst (buildAvailableModelsLocked h now r)"
    and "cacheOK now (snd (GetAvailableModels h now r))"
proof -
  have t: "0 \<le> t" using assms(1) by (simp add: cacheOK_def)
  show "fst (GetAvailableModels h now r) = fst (buildAvailableModelsLocked h now r)"
  proof (cases "cachedModels h now r")
    case None
    then show ?thesis by (simp add: GetAvailableModels_def getAvailableModelsLocked_def split: prod.splits)
  next
    case (Some models)
    then obtain cache where c: "m_get (re_availableModelsCache r) h = Some cache" "models = ce_models cache"
        "ce_expiresAt cache = 0 \<or> now < ce_expiresAt cache"
      by (auto simp: cachedModels_def split: option.splits if_splits)
    then obtain t0 where "0 \<le> t0" "t0 \<le> t" "(ce_models cache, ce_expiresAt cache) = buildAvailableModelsLocked h t0 r"
      using assms(1) unfolding cacheOK_def by blast
    then have "fst (buildAvailableModelsLocked h t0 r) = fst (buildAvailableModelsLocked h now r)"
        "models = fst (buildAvailableModelsLocked h t0 r)"
      using assms(2) c(2,3) build_current [of t0 now h r] by (auto simp: prod_eq_iff)
    then show ?thesis using Some by (simp add: GetAvailableModels_def)
  qed
  have r: "cacheOK now r" using assms unfolding cacheOK_def by (meson order_trans)
  show "cacheOK now (snd (GetAvailableModels h now r))"
  proof (cases "cachedModels h now r")
    case None
    let ?b = "buildAvailableModelsLocked h now r"
    let ?r = "r\<lparr>re_availableModelsCache := m_put h \<lparr>ce_models = fst ?b, ce_expiresAt = snd ?b\<rparr> (re_availableModelsCache r)\<rparr>"
    have same: "buildAvailableModelsLocked h' t' ?r = buildAvailableModelsLocked h' t' r" for h' t'
      by (simp add: buildAvailableModelsLocked_def)
    have "snd (GetAvailableModels h now r) = ?r"
      using None by (simp add: GetAvailableModels_def getAvailableModelsLocked_def case_prod_beta)
    moreover have "cacheOK now ?r"
      using r unfolding cacheOK_def same by (auto split: if_splits)
    ultimately show ?thesis by simp
  qed (simp add: GetAvailableModels_def r)
qed

lemma listing_reach_cacheOK: "listing_reach t r \<Longrightarrow> cacheOK t r"
proof (induction rule: listing_reach.induct)
  case start
  show ?case by (rule cacheOK_invalidated) (simp_all add: newModelRegistry_def)
next
  case (update t r x)
  then show ?case using runRegistryOp_cache [of r x] by (auto intro: cacheOK_invalidated simp: cacheOK_def)
next
  case (list t r now handlerType)
  then show ?case by (intro GetAvailableModels_build(2))
qed

text \<open>
  C37: The cache of the model lists is never stale. In every registry reached by any operations and
  by listings whose clock does not go backwards, \<open>GetAvailableModels\<close> returns exactly the models a
  build from the current table at the current time gives, whether it was served from the cache or
  not: every change of the table drops the cache, and a cached list expires when the first of its
  quota marks does.\<close>
theorem available_models_current:
  assumes "listing_reach t r" and "t \<le> now"
  shows "fst (GetAvailableModels handlerType now r) = fst (buildAvailableModelsLocked handlerType now r)"
  by (rule GetAvailableModels_build(1) [OF listing_reach_cacheOK [OF assms(1)] assms(2)])

definition sampleModel :: ModelInfo where
  "sampleModel = \<lparr>mi_ID = ''gpt-5'', mi_Object = ''model'', mi_Created = 1700000000, mi_OwnedBy = ''openai'', mi_Type = ''openai'',
     mi_DisplayName = [], mi_Name = [], mi_Version = [], mi_Description = [], mi_InputTokenLimit = 0, mi_OutputTokenLimit = 0,
     mi_SupportedGenerationMethods = [], mi_ContextLength = 400000, mi_MaxCompletionTokens = 128000, mi_SupportedParameters = [],
     mi_SupportedInputModalities = [], mi_SupportedOutputModalities = [], mi_SupportsWebSearch = False, mi_Thinking = None,
     mi_OverrideHeader = None, mi_UserDefined = False\<rparr>"

text \<open>Two clients, one of them over quota, listed at 10 and again at 20.\<close>

definition sampleListing :: ListingRegistry where
  "sampleListing = snd (GetAvailableModels ''claude'' 10
     (runRegistryOp (runRegistryOp (runRegistryOp newModelRegistry
        (Register ''a'' ''codex'' [Some sampleModel, None] 1))
        (Register ''b'' ''openai'' [Some sampleModel] 2))
        (SetQuota ''a'' ''gpt-5'' 5)))"

theorem available_models_current_witness:
  "listing_reach 10 sampleListing \<and>
   fst (GetAvailableModels ''claude'' 20 sampleListing) = fst (buildAvailableModelsLocked ''claude'' 20 sampleListing) \<and>
   map (\<lambda>m. m_get m ''created_at'') (fst (GetAvailableModels ''claude'' 20 sampleListing)) =
     [Some (StringValue ''2023-11-14T22:13:20Z'')]"
proof -
  have reach: "listing_reach 10 sampleListing"
    unfolding sampleListing_def by (rule listing_reach.intros listing_reach.intros(3) [where t = 0] | simp)+
  moreover have "fst (GetAvailableModels ''claude'' 20 sampleListing) = fst (buildAvailableModelsLocked ''claude'' 20 sampleListing)"
    by (rule available_models_current [OF reach]) simp
  moreover have "map (\<lambda>m. m_get m ''created_at'') (fst (GetAvailableModels ''claude'' 20 sampleListing)) =
     [Some (StringValue ''2023-11-14T22:13:20Z'')]"
    by code_simp
  ultimately show ?thesis by blast
qed

end
