(* ===== verification/Scheduler.thy ===== *)
theory Scheduler
  imports Selector ModelRegistry
begin

text \<open>
  The incremental scheduler of \<open>backend/sdk/cliproxy/auth/scheduler.go\<close>: per provider the metadata of its
  credentials, per provider and model a shard that sorts the credentials into ready views by
  priority and a queue of blocked ones, and the picks for a single provider or for several.

  The entries of a shard are shared objects: the ready views and the blocked queue hold pointers to
  them, and an update through the entry table is seen through the views. A view therefore holds the
  identifiers of its entries and reads them in the entry table. Credentials are the snapshots the
  callers clone. Every clock reading is an argument, in the order the code makes them.
\<close>

section \<open>State\<close>

datatype schedulerStrategy =
    schedulerStrategyCurrent | schedulerStrategyCustom | schedulerStrategyRoundRobin
  | schedulerStrategyFillFirst | schedulerStrategyWeightedRoundRobin

datatype scheduledState =
    scheduledStateReady | scheduledStateCooldown | scheduledStateBlocked | scheduledStateDisabled

record scheduledAuthMeta =
  sm_auth :: Auth
  sm_providerKey :: string
  sm_priority :: int
  sm_weight :: int
  sm_websocketEnabled :: bool
  sm_supportedModelSet :: "string list"

record scheduledAuth =
  se_meta :: scheduledAuthMeta
  se_auth :: Auth
  se_state :: scheduledState
  se_nextRetryAt :: gotime

record readyView =
  rv_flat :: "string list"
  rv_cursor :: int
  rv_weightedState :: smoothWeightedState

record readyBucket =
  bk_all :: readyView
  bk_ws :: readyView

record modelScheduler =
  ms_modelKey :: string
  ms_entries :: "(string, scheduledAuth) gomap"
  ms_priorityOrder :: "int list"
  ms_readyByPriority :: "(int, readyBucket) gomap"
  ms_blocked :: "string list"

record providerScheduler =
  ps_providerKey :: string
  ps_auths :: "(string, scheduledAuthMeta) gomap"
  ps_modelShards :: "(string, modelScheduler) gomap"

record authScheduler =
  as_strategy :: schedulerStrategy
  as_providers :: "(string, providerScheduler) gomap"
  as_authProviders :: "(string, string) gomap"
  as_mixedCursors :: "(string, int) gomap"
  as_mixedWeightedStates :: "(string, smoothWeightedState) gomap"

abbreviation zeroWeightedState :: smoothWeightedState where
  "zeroWeightedState \<equiv> \<lparr>sw_current = None, sw_weights = []\<rparr>"

section \<open>Eligibility of a credential for a request\<close>

record authSelectionEligibility =
  el_requiredKind :: string
  el_disallowFreeAuth :: bool

definition isFreeCodexAuth :: "Auth \<Rightarrow> bool" where
  "isFreeCodexAuth auth \<longleftrightarrow> equal_fold (trim_space (a_Provider auth)) ''codex''
     \<and> equal_fold (trim_space (m_get0 [] (a_Attributes auth) ''plan_type'')) ''free''"

definition allows :: "authSelectionEligibility \<Rightarrow> Auth \<Rightarrow> bool" where
  "allows e auth \<longleftrightarrow> (if el_requiredKind e \<noteq> [] \<and> AuthKind auth \<noteq> el_requiredKind e then False
     else \<not> el_disallowFreeAuth e \<or> \<not> isFreeCodexAuth auth)"

text \<open>A byte slice in the metadata of a request reads as the string of its bytes.\<close>

definition pinnedAuthIDFromMetadata :: "(string, goany) gomap \<Rightarrow> string" where
  "pinnedAuthIDFromMetadata meta =
     (case m_get meta ''pinned_auth_id'' of Some (GoString val) \<Rightarrow> trim_space val | _ \<Rightarrow> [])"

definition disallowFreeAuthFromMetadata :: "(string, goany) gomap \<Rightarrow> bool" where
  "disallowFreeAuthFromMetadata meta =
     (case m_get meta ''disallow_free_auth'' of
        Some (GoBool val) \<Rightarrow> val
      | Some (GoString val) \<Rightarrow> parse_bool (trim_space val) = Some True
      | _ \<Rightarrow> False)"

text \<open>What a pick reads from the context and the options of a request: the required kind and the
  websocket flag of the context, the metadata, and the credentials tried already.\<close>

record SchedRequest =
  rq_requiredKind :: string
  rq_websocket :: bool
  rq_metadata :: "(string, goany) gomap"
  rq_tried :: "string list"

definition authSelectionEligibilityForRequest :: "SchedRequest \<Rightarrow> authSelectionEligibility" where
  "authSelectionEligibilityForRequest rq =
     \<lparr>el_requiredKind = rq_requiredKind rq, el_disallowFreeAuth = disallowFreeAuthFromMetadata (rq_metadata rq)\<rparr>"

definition scheduledAuthPredicate :: "authSelectionEligibility \<Rightarrow> string list \<Rightarrow> string \<Rightarrow> bool \<Rightarrow> scheduledAuth \<Rightarrow> bool" where
  "scheduledAuthPredicate eligibility tried pinnedAuthID requirePositiveWeight entry \<longleftrightarrow>
     (if \<not> allows eligibility (se_auth entry) then False
      else if requirePositiveWeight \<and> sm_weight (se_meta entry) \<le> 0 then False
      else if pinnedAuthID \<noteq> [] \<and> a_ID (se_auth entry) \<noteq> pinnedAuthID then False
      else a_ID (se_auth entry) \<notin> set tried)"

section \<open>Provider keys\<close>

definition OpenAICompatibleProviderKey :: "string \<Rightarrow> string" where
  "OpenAICompatibleProviderKey name =
     (let name = to_lower (trim_space name)
      in if name = [] \<or> name = ''openai-compatibility'' \<or> has_prefix name ''openai-compatible-''
         then (if name = [] then ''openai-compatibility'' else name)
         else ''openai-compatible-'' @ name)"

definition executorKeyFromAuth :: "Auth \<Rightarrow> string" where
  "executorKeyFromAuth auth =
     (let providerKey = trim_space (m_get0 [] (a_Attributes auth) ''provider_key'');
          compatName = trim_space (m_get0 [] (a_Attributes auth) ''compat_name'')
      in if compatName \<noteq> []
         then OpenAICompatibleProviderKey (if providerKey = [] then compatName else providerKey)
         else if equal_fold (trim_space (a_Provider auth)) ''openai-compatibility''
         then (let providerKey = trim_space (a_Label auth)
               in OpenAICompatibleProviderKey (if providerKey = [] then ''openai-compatibility'' else providerKey))
         else to_lower (trim_space (a_Provider auth)))"

definition normalizeStep :: "string list \<Rightarrow> string \<Rightarrow> string list" where
  "normalizeStep out provider =
     (let providerKey = to_lower (trim_space provider)
      in if providerKey = [] \<or> providerKey \<in> set out then out else out @ [providerKey])"

definition normalizeProviderKeys :: "string list \<Rightarrow> string list" where
  "normalizeProviderKeys providers = foldl normalizeStep [] providers"

definition containsProvider :: "string list \<Rightarrow> string \<Rightarrow> bool" where
  "containsProvider providers provider \<longleftrightarrow> list_ex (\<lambda>candidate. candidate = provider) providers"

definition providerPrefersWebsocketTransport :: "string \<Rightarrow> bool" where
  "providerPrefersWebsocketTransport providerKey \<longleftrightarrow>
     (let key = to_lower (trim_space providerKey) in key = ''codex'' \<or> key = ''xai'')"

section \<open>Ready views\<close>

text \<open>\<open>resolve\<close> follows the pointers of a view. Every identifier in a view is in the table.\<close>

definition resolve :: "(string, scheduledAuth) gomap \<Rightarrow> string list \<Rightarrow> scheduledAuth list" where
  "resolve entries ids = List.map_filter (m_get entries) ids"

definition pickFirst :: "(scheduledAuth \<Rightarrow> bool) \<Rightarrow> scheduledAuth list \<Rightarrow> scheduledAuth option" where
  "pickFirst predicate flat = find predicate flat"

definition pickRoundRobin :: "(scheduledAuth \<Rightarrow> bool) \<Rightarrow> scheduledAuth list \<Rightarrow> int \<Rightarrow> int \<times> scheduledAuth option" where
  "pickRoundRobin predicate flat cursor =
     (let n = length flat
      in if n = 0 then (cursor, None)
         else let start = nat (go_mod cursor (int n))
           in case find (\<lambda>index. predicate (flat ! index)) (map (\<lambda>offset. (start + offset) mod n) [0..<n]) of
                None \<Rightarrow> (cursor, None)
              | Some index \<Rightarrow> (int index + 1, Some (flat ! index)))"

definition scheduledWeightVectorMatching :: "scheduledAuth list \<Rightarrow> (scheduledAuth \<Rightarrow> bool) \<Rightarrow> (string, int) gomap" where
  "scheduledWeightVectorMatching entries predicate =
     foldl (\<lambda>weights e. if sm_weight (se_meta e) \<le> 0 then weights
        else if \<not> predicate e then weights
        else m_put (a_ID (se_auth e)) (sm_weight (se_meta e)) weights) [] entries"

definition scheduledWeightVector :: "scheduledAuth list \<Rightarrow> (string, int) gomap" where
  "scheduledWeightVector entries = scheduledWeightVectorMatching entries (\<lambda>_. True)"

text \<open>The locals of the second loop of \<open>pickSmoothWeightedScheduled\<close>, and its body.\<close>

record ScheduledLoop =
  sc_current :: "(string, int) gomap"
  sc_picked :: "scheduledAuth option"
  sc_pickedCurrent :: int
  sc_totalWeight :: int

definition scheduledStep :: "(scheduledAuth \<Rightarrow> bool) \<Rightarrow> ScheduledLoop \<Rightarrow> scheduledAuth \<Rightarrow> ScheduledLoop" where
  "scheduledStep predicate l e =
     (if sm_weight (se_meta e) \<le> 0 then l
      else if \<not> predicate e then l
      else let i = a_ID (se_auth e);
               cur = saturatingAddInt64 (m_get0 0 (sc_current l) i) (sm_weight (se_meta e));
               better = (sc_picked l = None \<or> cur > sc_pickedCurrent l)
        in \<lparr>sc_current = m_put i cur (sc_current l),
            sc_picked = (if better then Some e else sc_picked l),
            sc_pickedCurrent = (if better then cur else sc_pickedCurrent l),
            sc_totalWeight = saturatingAddInt64 (sc_totalWeight l) (sm_weight (se_meta e))\<rparr>)"

definition pickSmoothWeightedScheduled :: "scheduledAuth list \<Rightarrow> (string, int) gomap \<Rightarrow> (scheduledAuth \<Rightarrow> bool)
    \<Rightarrow> (string, int) gomap \<times> scheduledAuth option" where
  "pickSmoothWeightedScheduled entries current predicate =
     (let active = map (\<lambda>e. a_ID (se_auth e)) (filter (\<lambda>e. \<not> sm_weight (se_meta e) \<le> 0 \<and> predicate e) entries);
          current = filter (\<lambda>(authID, _). authID \<in> set active) current;
          l = foldl (scheduledStep predicate)
                \<lparr>sc_current = current, sc_picked = None, sc_pickedCurrent = 0, sc_totalWeight = 0\<rparr> entries
      in case sc_picked l of
           None \<Rightarrow> (sc_current l, None)
         | Some picked \<Rightarrow>
             (m_put (a_ID (se_auth picked))
               (saturatingAddInt64 (m_get0 0 (sc_current l) (a_ID (se_auth picked))) (- sc_totalWeight l)) (sc_current l),
              Some picked))"

definition pickWeighted :: "(scheduledAuth \<Rightarrow> bool) \<Rightarrow> scheduledAuth list \<Rightarrow> smoothWeightedState \<Rightarrow> smoothWeightedState \<times> scheduledAuth option" where
  "pickWeighted predicate flat weightedState =
     (if flat = [] then (weightedState, None)
      else let state = prepare weightedState (scheduledWeightVectorMatching flat predicate);
               (current, picked) = pickSmoothWeightedScheduled flat (the (sw_current state)) predicate
        in (state\<lparr>sw_current := Some current\<rparr>, picked))"

section \<open>Indexes of a shard\<close>

definition normalizeCursor :: "int \<Rightarrow> int \<Rightarrow> int" where
  "normalizeCursor cursor n =
     (if n \<le> 0 \<or> cursor \<le> 0 then 0
      else let cursor = go_mod cursor n in if cursor < 0 then cursor + n else cursor)"

definition snapshotReadyViewCursors :: "readyView \<Rightarrow> int \<times> smoothWeightedState" where
  "snapshotReadyViewCursors view =
     (rv_cursor view,
      \<lparr>sw_current = (case sw_current (rv_weightedState view) of Some (c # cs) \<Rightarrow> Some (c # cs) | _ \<Rightarrow> None),
       sw_weights = sw_weights (rv_weightedState view)\<rparr>)"

definition restoreReadyViewCursors :: "(string, scheduledAuth) gomap \<Rightarrow> readyView \<Rightarrow> int \<times> smoothWeightedState \<Rightarrow> readyView" where
  "restoreReadyViewCursors entries view state =
     (let view = (if rv_flat view \<noteq> []
            then view\<lparr>rv_cursor := normalizeCursor (fst state) (int (length (rv_flat view)))\<rparr> else view);
          weights = scheduledWeightVector (resolve entries (rv_flat view))
      in if sw_current (snd state) = None \<or> \<not> weightVectorsEqual (sw_weights (snd state)) weights then view
         else view\<lparr>rv_weightedState := \<lparr>sw_current = sw_current (snd state), sw_weights = weights\<rparr>\<rparr>)"

definition buildReadyView :: "string list \<Rightarrow> readyView" where
  "buildReadyView ids = \<lparr>rv_flat = ids, rv_cursor = 0, rv_weightedState = zeroWeightedState\<rparr>"

definition websocketOf :: "(string, scheduledAuth) gomap \<Rightarrow> string \<Rightarrow> bool" where
  "websocketOf entries i = (case m_get entries i of Some e \<Rightarrow> sm_websocketEnabled (se_meta e) | None \<Rightarrow> False)"

definition buildReadyBucket :: "(string, scheduledAuth) gomap \<Rightarrow> string list \<Rightarrow> readyBucket" where
  "buildReadyBucket entries ids =
     \<lparr>bk_all = buildReadyView ids, bk_ws = buildReadyView (filter (websocketOf entries) ids)\<rparr>"

text \<open>The loop that groups the entries of the table; the sort by identifier and the buckets follow.\<close>

definition groupStep :: "(int, (string \<times> scheduledAuth) list) gomap \<Rightarrow> string \<times> scheduledAuth \<Rightarrow> (int, (string \<times> scheduledAuth) list) gomap" where
  "groupStep buckets ie =
     (if se_state (snd ie) = scheduledStateReady
      then (let priority = sm_priority (se_meta (snd ie)) in m_put priority (m_get0 [] buckets priority @ [ie]) buckets)
      else buckets)"

definition rebuiltBucket :: "modelScheduler \<Rightarrow> int \<Rightarrow> (string \<times> scheduledAuth) list \<Rightarrow> readyBucket" where
  "rebuiltBucket m priority es =
     (let bucket = buildReadyBucket (ms_entries m) (map fst (sort_key (\<lambda>(_, e). a_ID (se_auth e)) es))
      in case m_get (ms_readyByPriority m) priority of
           None \<Rightarrow> bucket
         | Some old \<Rightarrow>
             \<lparr>bk_all = restoreReadyViewCursors (ms_entries m) (bk_all bucket) (snapshotReadyViewCursors (bk_all old)),
              bk_ws = restoreReadyViewCursors (ms_entries m) (bk_ws bucket) (snapshotReadyViewCursors (bk_ws old))\<rparr>)"

definition blockedKey :: "string \<times> scheduledAuth \<Rightarrow> bool \<times> gotime \<times> string" where
  "blockedKey ie = (is_zero (se_nextRetryAt (snd ie)), se_nextRetryAt (snd ie), a_ID (se_auth (snd ie)))"

definition rebuildIndexesLocked :: "modelScheduler \<Rightarrow> modelScheduler" where
  "rebuildIndexesLocked m =
     (let buckets = foldl groupStep [] (ms_entries m);
          blocked = filter (\<lambda>(_, e). se_state e = scheduledStateCooldown \<or> se_state e = scheduledStateBlocked) (ms_entries m)
      in m\<lparr>ms_readyByPriority := map (\<lambda>(priority, es). (priority, rebuiltBucket m priority es)) buckets,
           ms_priorityOrder := rev (sort (m_keys buckets)),
           ms_blocked := map fst (sort_key blockedKey blocked)\<rparr>)"

section \<open>Entries of a shard\<close>

text \<open>The state and the retry time the switch in \<open>upsertEntryLocked\<close> and \<open>promoteExpiredLocked\<close> gives.\<close>

definition classify :: "Auth \<Rightarrow> string \<Rightarrow> gotime \<Rightarrow> scheduledState \<times> gotime" where
  "classify auth modelKey now =
     (let (blocked, reason, nxt) = isAuthBlockedForModel (Some auth) modelKey now
      in if \<not> blocked then (scheduledStateReady, zero_time)
         else if reason = blockReasonCooldown then (scheduledStateCooldown, nxt)
         else if reason = blockReasonDisabled then (scheduledStateDisabled, zero_time)
         else (scheduledStateBlocked, nxt))"

definition upsertEntryLocked :: "scheduledAuthMeta \<Rightarrow> gotime \<Rightarrow> modelScheduler \<Rightarrow> modelScheduler" where
  "upsertEntryLocked meta now m =
     (let i = a_ID (sm_auth meta);
          (state, nxt) = classify (sm_auth meta) (ms_modelKey m) now;
          entry = \<lparr>se_meta = meta, se_auth = sm_auth meta, se_state = state, se_nextRetryAt = nxt\<rparr>;
          m' = m\<lparr>ms_entries := m_put i entry (ms_entries m)\<rparr>
      in case m_get (ms_entries m) i of
           None \<Rightarrow> rebuildIndexesLocked m'
         | Some previous \<Rightarrow>
             if se_state previous = state \<and> se_nextRetryAt previous = nxt
                \<and> sm_priority (se_meta previous) = sm_priority meta
                \<and> sm_websocketEnabled (se_meta previous) = sm_websocketEnabled meta
             then m' else rebuildIndexesLocked m')"

definition removeEntryLocked :: "string \<Rightarrow> modelScheduler \<Rightarrow> modelScheduler" where
  "removeEntryLocked authID m =
     (if authID = [] then m
      else if m_get (ms_entries m) authID = None then m
      else rebuildIndexesLocked (m\<lparr>ms_entries := m_del authID (ms_entries m)\<rparr>))"

definition promoteStep :: "string \<Rightarrow> gotime \<Rightarrow> (string, scheduledAuth) gomap \<times> bool \<Rightarrow> string \<Rightarrow> (string, scheduledAuth) gomap \<times> bool" where
  "promoteStep modelKey now acc i =
     (case m_get (fst acc) i of
        None \<Rightarrow> acc
      | Some e \<Rightarrow>
          if is_zero (se_nextRetryAt e) \<or> se_nextRetryAt e > now then acc
          else let (state, nxt) = classify (se_auth e) modelKey now
            in (m_put i (e\<lparr>se_state := state, se_nextRetryAt := nxt\<rparr>) (fst acc), True))"

definition promoteExpiredLocked :: "gotime \<Rightarrow> modelScheduler \<Rightarrow> modelScheduler" where
  "promoteExpiredLocked now m =
     (let (entries, changed) = foldl (promoteStep (ms_modelKey m) now) (ms_entries m, False) (ms_blocked m)
      in if changed then rebuildIndexesLocked (m\<lparr>ms_entries := entries\<rparr>) else m)"

section \<open>Picks of a shard\<close>

definition firstPriority :: "(readyBucket \<Rightarrow> readyView) \<Rightarrow> (scheduledAuth \<Rightarrow> bool) \<Rightarrow> modelScheduler \<Rightarrow> int option" where
  "firstPriority view predicate m =
     find (\<lambda>priority. case m_get (ms_readyByPriority m) priority of
        None \<Rightarrow> False
      | Some bucket \<Rightarrow> pickFirst predicate (resolve (ms_entries m) (rv_flat (view bucket))) \<noteq> None) (ms_priorityOrder m)"

definition highestReadyPriorityLocked :: "bool \<Rightarrow> (scheduledAuth \<Rightarrow> bool) \<Rightarrow> modelScheduler \<Rightarrow> int option" where
  "highestReadyPriorityLocked preferWebsocket predicate m =
     (case (if preferWebsocket then firstPriority bk_ws predicate m else None) of
        Some priority \<Rightarrow> Some priority
      | None \<Rightarrow> firstPriority bk_all predicate m)"

definition pickFromView :: "(string, scheduledAuth) gomap \<Rightarrow> schedulerStrategy \<Rightarrow> (scheduledAuth \<Rightarrow> bool) \<Rightarrow> readyView
    \<Rightarrow> readyView \<times> scheduledAuth option" where
  "pickFromView entries strategy predicate v =
     (let flat = resolve entries (rv_flat v)
      in case strategy of
           schedulerStrategyFillFirst \<Rightarrow> (v, pickFirst predicate flat)
         | schedulerStrategyWeightedRoundRobin \<Rightarrow>
             (let (state, picked) = pickWeighted predicate flat (rv_weightedState v) in (v\<lparr>rv_weightedState := state\<rparr>, picked))
         | _ \<Rightarrow>
             (let (cursor, picked) = pickRoundRobin predicate flat (rv_cursor v) in (v\<lparr>rv_cursor := cursor\<rparr>, picked)))"

definition usesWebsocketView :: "bool \<Rightarrow> (scheduledAuth \<Rightarrow> bool) \<Rightarrow> modelScheduler \<Rightarrow> readyBucket \<Rightarrow> bool" where
  "usesWebsocketView preferWebsocket predicate m bucket \<longleftrightarrow>
     preferWebsocket \<and> pickFirst predicate (resolve (ms_entries m) (rv_flat (bk_ws bucket))) \<noteq> None"

definition pickReadyAtPriorityLocked :: "bool \<Rightarrow> int \<Rightarrow> schedulerStrategy \<Rightarrow> (scheduledAuth \<Rightarrow> bool) \<Rightarrow> modelScheduler
    \<Rightarrow> modelScheduler \<times> Auth option" where
  "pickReadyAtPriorityLocked preferWebsocket priority strategy predicate m =
     (case m_get (ms_readyByPriority m) priority of
        None \<Rightarrow> (m, None)
      | Some bucket \<Rightarrow>
          (let ws = usesWebsocketView preferWebsocket predicate m bucket;
               (view, picked) = pickFromView (ms_entries m) strategy predicate (if ws then bk_ws bucket else bk_all bucket);
               bucket = (if ws then bucket\<lparr>bk_ws := view\<rparr> else bucket\<lparr>bk_all := view\<rparr>)
           in (m\<lparr>ms_readyByPriority := m_put priority bucket (ms_readyByPriority m)\<rparr>, map_option se_auth picked)))"

definition pickReadyLocked :: "gotime \<Rightarrow> bool \<Rightarrow> schedulerStrategy \<Rightarrow> (scheduledAuth \<Rightarrow> bool) \<Rightarrow> modelScheduler
    \<Rightarrow> modelScheduler \<times> Auth option" where
  "pickReadyLocked now preferWebsocket strategy predicate m =
     (let m = promoteExpiredLocked now m
      in case highestReadyPriorityLocked preferWebsocket predicate m of
           None \<Rightarrow> (m, None)
         | Some priority \<Rightarrow> pickReadyAtPriorityLocked preferWebsocket priority strategy predicate m)"

definition readyCountAtPriorityLocked :: "bool \<Rightarrow> int \<Rightarrow> (scheduledAuth \<Rightarrow> bool) \<Rightarrow> modelScheduler \<Rightarrow> int" where
  "readyCountAtPriorityLocked preferWebsocket priority predicate m =
     (case m_get (ms_readyByPriority m) priority of
        None \<Rightarrow> 0
      | Some bucket \<Rightarrow>
          (let view = (if usesWebsocketView preferWebsocket predicate m bucket then bk_ws bucket else bk_all bucket)
           in int (length (filter predicate (resolve (ms_entries m) (rv_flat view))))))"

definition summaryStep :: "(scheduledAuth \<Rightarrow> bool) \<Rightarrow> int \<times> int \<times> gotime \<Rightarrow> string \<times> scheduledAuth \<Rightarrow> int \<times> int \<times> gotime" where
  "summaryStep predicate acc ie =
     (let (total, cooldownCount, earliest) = acc; e = snd ie
      in if \<not> predicate e then acc
         else if se_state e \<noteq> scheduledStateCooldown then (total + 1, cooldownCount, earliest)
         else (total + 1, cooldownCount + 1,
               if \<not> is_zero (se_nextRetryAt e) \<and> (is_zero earliest \<or> se_nextRetryAt e < earliest)
               then se_nextRetryAt e else earliest))"

definition availabilitySummaryLocked :: "(scheduledAuth \<Rightarrow> bool) \<Rightarrow> modelScheduler \<Rightarrow> int \<times> int \<times> gotime" where
  "availabilitySummaryLocked predicate m = foldl (summaryStep predicate) (0, 0, zero_time) (ms_entries m)"

definition summaryError :: "string \<Rightarrow> string \<Rightarrow> gotime \<Rightarrow> int \<times> int \<times> gotime \<Rightarrow> PickError" where
  "summaryError model providerForError now summary =
     (let (total, cooldownCount, earliest) = summary
      in if total = 0 then ErrAuthNotFound
         else if cooldownCount = total \<and> \<not> is_zero earliest
         then (let resetIn = time_sub earliest now; resetIn = (if resetIn < 0 then 0 else resetIn)
               in newModelCooldownError model providerForError resetIn)
         else ErrAuthUnavailable ''no auth available'')"

definition unavailableErrorLocked :: "string \<Rightarrow> string \<Rightarrow> gotime \<Rightarrow> (scheduledAuth \<Rightarrow> bool) \<Rightarrow> modelScheduler \<Rightarrow> PickError" where
  "unavailableErrorLocked provider model now predicate m =
     summaryError model (if provider = ''mixed'' then [] else provider) now (availabilitySummaryLocked predicate m)"

section \<open>Providers\<close>

definition supportsModel :: "scheduledAuthMeta \<Rightarrow> string \<Rightarrow> bool" where
  "supportsModel meta modelKey \<longleftrightarrow>
     (let modelKey = canonicalModelKey modelKey
      in if modelKey = [] then True
         else if sm_supportedModelSet meta = [] then False
         else modelKey \<in> set (sm_supportedModelSet meta))"

definition supportedModelSetForAuth :: "'c ModelRegistry \<Rightarrow> string \<Rightarrow> string list" where
  "supportedModelSetForAuth reg authID =
     (let authID = trim_space authID
      in if authID = [] then []
         else remdups (filter (\<lambda>k. k \<noteq> []) (map (\<lambda>model. canonicalModelKey (mi_ID model)) (GetModelsForClient authID reg))))"

definition buildScheduledAuthMeta :: "'c ModelRegistry \<Rightarrow> Auth \<Rightarrow> scheduledAuthMeta" where
  "buildScheduledAuthMeta reg auth =
     \<lparr>sm_auth = auth, sm_providerKey = executorKeyFromAuth auth, sm_priority = authPriority (Some auth),
      sm_weight = authWeight (Some auth), sm_websocketEnabled = authWebsocketsEnabled (Some auth),
      sm_supportedModelSet = supportedModelSetForAuth reg (a_ID auth)\<rparr>"

definition providerUpsertAuthLocked :: "scheduledAuthMeta \<Rightarrow> gotime \<Rightarrow> providerScheduler \<Rightarrow> providerScheduler" where
  "providerUpsertAuthLocked meta now p =
     p\<lparr>ps_auths := m_put (a_ID (sm_auth meta)) meta (ps_auths p),
       ps_modelShards := map (\<lambda>(modelKey, shard). (modelKey,
           if \<not> supportsModel meta modelKey then removeEntryLocked (a_ID (sm_auth meta)) shard
           else upsertEntryLocked meta now shard)) (ps_modelShards p)\<rparr>"

definition providerRemoveAuthLocked :: "string \<Rightarrow> providerScheduler \<Rightarrow> providerScheduler" where
  "providerRemoveAuthLocked authID p =
     (if authID = [] then p
      else p\<lparr>ps_auths := m_del authID (ps_auths p),
             ps_modelShards := map (\<lambda>(modelKey, shard). (modelKey, removeEntryLocked authID shard)) (ps_modelShards p)\<rparr>)"

definition newModelScheduler :: "string \<Rightarrow> modelScheduler" where
  "newModelScheduler modelKey = \<lparr>ms_modelKey = modelKey, ms_entries = [], ms_priorityOrder = [], ms_readyByPriority = [], ms_blocked = []\<rparr>"

definition buildShard :: "string \<Rightarrow> gotime \<Rightarrow> providerScheduler \<Rightarrow> modelScheduler" where
  "buildShard modelKey now p =
     foldl (\<lambda>shard (_, meta). if \<not> supportsModel meta modelKey then shard else upsertEntryLocked meta now shard)
       (newModelScheduler modelKey) (ps_auths p)"

definition ensureModelLocked :: "string \<Rightarrow> gotime \<Rightarrow> providerScheduler \<Rightarrow> providerScheduler \<times> modelScheduler" where
  "ensureModelLocked modelKey now p =
     (let modelKey = canonicalModelKey modelKey;
          shard = (case m_get (ps_modelShards p) modelKey of
              Some shard \<Rightarrow> promoteExpiredLocked now shard
            | None \<Rightarrow> buildShard modelKey now p)
      in (p\<lparr>ps_modelShards := m_put modelKey shard (ps_modelShards p)\<rparr>, shard))"

section \<open>The scheduler\<close>

datatype SelectorKind = NilSelector | RoundRobinKind | WeightedRoundRobinKind | FillFirstKind | OtherSelector

definition selectorStrategy :: "SelectorKind \<Rightarrow> schedulerStrategy" where
  "selectorStrategy sel =
     (case sel of
        FillFirstKind \<Rightarrow> schedulerStrategyFillFirst
      | WeightedRoundRobinKind \<Rightarrow> schedulerStrategyWeightedRoundRobin
      | NilSelector \<Rightarrow> schedulerStrategyRoundRobin
      | RoundRobinKind \<Rightarrow> schedulerStrategyRoundRobin
      | OtherSelector \<Rightarrow> schedulerStrategyCustom)"

definition newAuthScheduler :: "SelectorKind \<Rightarrow> authScheduler" where
  "newAuthScheduler sel =
     \<lparr>as_strategy = selectorStrategy sel, as_providers = [], as_authProviders = [], as_mixedCursors = [],
      as_mixedWeightedStates = []\<rparr>"

definition setSelector :: "SelectorKind \<Rightarrow> authScheduler \<Rightarrow> authScheduler" where
  "setSelector sel s = s\<lparr>as_strategy := selectorStrategy sel, as_mixedCursors := [], as_mixedWeightedStates := []\<rparr>"

definition removeAuthLocked :: "string \<Rightarrow> authScheduler \<Rightarrow> authScheduler" where
  "removeAuthLocked authID s =
     (if authID = [] then s
      else let providerKey = m_get0 [] (as_authProviders s) authID
        in if providerKey = [] then s
           else let s = (case m_get (as_providers s) providerKey of
                      None \<Rightarrow> s
                    | Some p \<Rightarrow> s\<lparr>as_providers := m_put providerKey (providerRemoveAuthLocked authID p) (as_providers s)\<rparr>)
             in s\<lparr>as_authProviders := m_del authID (as_authProviders s)\<rparr>)"

definition removeAuth :: "string \<Rightarrow> authScheduler \<Rightarrow> authScheduler" where
  "removeAuth authID s = (let authID = trim_space authID in if authID = [] then s else removeAuthLocked authID s)"

definition ensureProviderLocked :: "string \<Rightarrow> authScheduler \<Rightarrow> providerScheduler" where
  "ensureProviderLocked providerKey s =
     (case m_get (as_providers s) providerKey of
        Some p \<Rightarrow> p | None \<Rightarrow> \<lparr>ps_providerKey = providerKey, ps_auths = [], ps_modelShards = []\<rparr>)"

definition upsertAuthLocked :: "'c ModelRegistry \<Rightarrow> Auth option \<Rightarrow> gotime \<Rightarrow> authScheduler \<Rightarrow> authScheduler" where
  "upsertAuthLocked reg auth now s =
     (case auth of
        None \<Rightarrow> s
      | Some auth \<Rightarrow>
          (let authID = trim_space (a_ID auth); providerKey = executorKeyFromAuth auth
           in if authID = [] \<or> providerKey = [] \<or> a_Disabled auth then removeAuthLocked authID s
              else let previousProvider = m_get0 [] (as_authProviders s) authID;
                       s = (if previousProvider \<noteq> [] \<and> previousProvider \<noteq> providerKey
                            then (case m_get (as_providers s) previousProvider of
                                    None \<Rightarrow> s
                                  | Some p \<Rightarrow> s\<lparr>as_providers := m_put previousProvider (providerRemoveAuthLocked authID p) (as_providers s)\<rparr>)
                            else s);
                       meta = buildScheduledAuthMeta reg auth;
                       s = s\<lparr>as_authProviders := m_put authID providerKey (as_authProviders s)\<rparr>
                in s\<lparr>as_providers := m_put providerKey (providerUpsertAuthLocked meta now (ensureProviderLocked providerKey s)) (as_providers s)\<rparr>))"

abbreviation upsertAuth :: "'c ModelRegistry \<Rightarrow> Auth option \<Rightarrow> gotime \<Rightarrow> authScheduler \<Rightarrow> authScheduler" where
  "upsertAuth \<equiv> upsertAuthLocked"

definition rebuild :: "'c ModelRegistry \<Rightarrow> Auth option list \<Rightarrow> gotime \<Rightarrow> authScheduler \<Rightarrow> authScheduler" where
  "rebuild reg auths now s =
     foldl (\<lambda>s auth. upsertAuthLocked reg auth now s)
       (s\<lparr>as_providers := [], as_authProviders := [], as_mixedCursors := [], as_mixedWeightedStates := []\<rparr>) auths"

section \<open>Picking\<close>

text \<open>The shard of a provider, created or promoted, and the shard written back after a pick.\<close>

definition ensureShard :: "string \<Rightarrow> string \<Rightarrow> gotime \<Rightarrow> authScheduler \<Rightarrow> authScheduler \<times> modelScheduler option" where
  "ensureShard providerKey modelKey now s =
     (case m_get (as_providers s) providerKey of
        None \<Rightarrow> (s, None)
      | Some p \<Rightarrow>
          (let (p, shard) = ensureModelLocked modelKey now p
           in (s\<lparr>as_providers := m_put providerKey p (as_providers s)\<rparr>, Some shard)))"

definition storeShard :: "string \<Rightarrow> modelScheduler \<Rightarrow> authScheduler \<Rightarrow> authScheduler" where
  "storeShard providerKey shard s =
     (case m_get (as_providers s) providerKey of
        None \<Rightarrow> s
      | Some p \<Rightarrow> s\<lparr>as_providers := m_put providerKey
          (p\<lparr>ps_modelShards := m_put (ms_modelKey shard) shard (ps_modelShards p)\<rparr>) (as_providers s)\<rparr>)"

definition effectiveStrategy :: "schedulerStrategy \<Rightarrow> authScheduler \<Rightarrow> schedulerStrategy" where
  "effectiveStrategy strategy s = (if strategy = schedulerStrategyCurrent then as_strategy s else strategy)"

definition requestPredicate :: "SchedRequest \<Rightarrow> string \<Rightarrow> schedulerStrategy \<Rightarrow> scheduledAuth \<Rightarrow> bool" where
  "requestPredicate rq pinnedAuthID strategy =
     scheduledAuthPredicate (authSelectionEligibilityForRequest rq) (rq_tried rq) pinnedAuthID
       (strategy = schedulerStrategyWeightedRoundRobin)"

text \<open>The pick inside one shard, with its error; \<open>now2\<close> is the reading of \<open>pickReadyLocked\<close>, \<open>now3\<close> the one
  of \<open>unavailableErrorLocked\<close>.\<close>

definition pickInShard :: "string \<Rightarrow> string \<Rightarrow> string \<Rightarrow> bool \<Rightarrow> schedulerStrategy \<Rightarrow> (scheduledAuth \<Rightarrow> bool) \<Rightarrow> gotime \<Rightarrow> gotime
    \<Rightarrow> modelScheduler \<Rightarrow> authScheduler \<Rightarrow> authScheduler \<times> (PickError + Auth)" where
  "pickInShard providerKey provider model preferWebsocket strategy predicate now2 now3 shard s =
     (let (shard, picked) = pickReadyLocked now2 preferWebsocket strategy predicate shard;
          s = storeShard providerKey shard s
      in case picked of
           Some auth \<Rightarrow> (s, Inr auth)
         | None \<Rightarrow> (s, Inl (unavailableErrorLocked provider model now3 predicate shard)))"

definition pickSingleWithStrategy :: "string \<Rightarrow> string \<Rightarrow> SchedRequest \<Rightarrow> schedulerStrategy \<Rightarrow> gotime \<Rightarrow> gotime \<Rightarrow> gotime
    \<Rightarrow> authScheduler \<Rightarrow> authScheduler \<times> (PickError + Auth)" where
  "pickSingleWithStrategy provider model rq strategy now1 now2 now3 s =
     (let providerKey = to_lower (trim_space provider);
          modelKey = canonicalModelKey model;
          pinnedAuthID = pinnedAuthIDFromMetadata (rq_metadata rq);
          preferWebsocket = (rq_websocket rq \<and> providerPrefersWebsocketTransport providerKey \<and> pinnedAuthID = []);
          strategy = effectiveStrategy strategy s
      in case ensureShard providerKey modelKey now1 s of
           (s, None) \<Rightarrow> (s, Inl ErrAuthNotFound)
         | (s, Some shard) \<Rightarrow>
             pickInShard providerKey provider model preferWebsocket strategy (requestPredicate rq pinnedAuthID strategy) now2 now3 shard s)"

definition pickSingle :: "string \<Rightarrow> string \<Rightarrow> SchedRequest \<Rightarrow> gotime \<Rightarrow> gotime \<Rightarrow> gotime \<Rightarrow> authScheduler \<Rightarrow> authScheduler \<times> (PickError + Auth)" where
  "pickSingle provider model rq now1 now2 now3 s =
     pickSingleWithStrategy provider model rq schedulerStrategyCurrent now1 now2 now3 s"

section \<open>Picking from several providers\<close>

datatype MixedError = ErrProviderNotFound | MixedPickError PickError

definition shardAt :: "string \<Rightarrow> string \<Rightarrow> authScheduler \<Rightarrow> modelScheduler option" where
  "shardAt providerKey modelKey s =
     Option.bind (m_get (as_providers s) providerKey) (\<lambda>p. m_get (ps_modelShards p) (canonicalModelKey modelKey))"

definition ensureShards :: "string list \<Rightarrow> string \<Rightarrow> gotime \<Rightarrow> authScheduler \<Rightarrow> authScheduler" where
  "ensureShards providers modelKey now s = foldl (\<lambda>s providerKey. fst (ensureShard providerKey modelKey now s)) s providers"

definition mergeSummary :: "int \<times> int \<times> gotime \<Rightarrow> int \<times> int \<times> gotime \<Rightarrow> int \<times> int \<times> gotime" where
  "mergeSummary acc local =
     (let (total, cooldownCount, earliest) = acc; (localTotal, localCooldownCount, localEarliest) = local
      in (total + localTotal, cooldownCount + localCooldownCount,
          if \<not> is_zero localEarliest \<and> (is_zero earliest \<or> localEarliest < earliest) then localEarliest else earliest))"

definition mixedUnavailableErrorLocked :: "string list \<Rightarrow> string \<Rightarrow> gotime \<Rightarrow> (scheduledAuth \<Rightarrow> bool) \<Rightarrow> authScheduler
    \<Rightarrow> authScheduler \<times> PickError" where
  "mixedUnavailableErrorLocked providers model now predicate s =
     (let modelKey = canonicalModelKey model;
          s = ensureShards providers modelKey now s;
          shards = List.map_filter (\<lambda>providerKey. shardAt providerKey modelKey s) providers;
          summary = foldl mergeSummary (0, 0, zero_time) (map (availabilitySummaryLocked predicate) shards)
      in (s, summaryError model [] now summary))"

definition mixedError :: "string list \<Rightarrow> string \<Rightarrow> gotime \<Rightarrow> (scheduledAuth \<Rightarrow> bool) \<Rightarrow> authScheduler
    \<Rightarrow> authScheduler \<times> (MixedError + Auth \<times> string)" where
  "mixedError providers model now predicate s =
     (let (s, err) = mixedUnavailableErrorLocked providers model now predicate s in (s, Inl (MixedPickError err)))"

text \<open>A loop over providers that takes the first credential a shard has at a priority.\<close>

fun pickAtPriority :: "int \<Rightarrow> schedulerStrategy \<Rightarrow> (scheduledAuth \<Rightarrow> bool) \<Rightarrow> string \<Rightarrow> string list \<Rightarrow> authScheduler
    \<Rightarrow> authScheduler \<times> (Auth \<times> string) option" where
  "pickAtPriority priority strategy predicate modelKey [] s = (s, None)"
| "pickAtPriority priority strategy predicate modelKey (providerKey # providers) s =
     (case shardAt providerKey modelKey s of
        None \<Rightarrow> pickAtPriority priority strategy predicate modelKey providers s
      | Some shard \<Rightarrow>
          (case pickReadyAtPriorityLocked False priority strategy predicate shard of
             (shard, Some auth) \<Rightarrow> (storeShard providerKey shard s, Some (auth, providerKey))
           | (shard, None) \<Rightarrow> pickAtPriority priority strategy predicate modelKey providers (storeShard providerKey shard s)))"

text \<open>The entries of the best priority of all shards, in the order of their identifiers.\<close>

definition mixedEntries :: "int \<Rightarrow> string \<Rightarrow> string list \<Rightarrow> authScheduler \<Rightarrow> scheduledAuth list" where
  "mixedEntries priority modelKey providers s =
     sort_key (\<lambda>e. a_ID (se_auth e)) (concat (map (\<lambda>providerKey. case shardAt providerKey modelKey s of
         None \<Rightarrow> []
       | Some shard \<Rightarrow> (case m_get (ms_readyByPriority shard) priority of
             None \<Rightarrow> [] | Some bucket \<Rightarrow> resolve (ms_entries shard) (rv_flat (bk_all bucket)))) providers))"

definition pickMixedWeighted :: "string \<Rightarrow> int \<Rightarrow> string list \<Rightarrow> string \<Rightarrow> (scheduledAuth \<Rightarrow> bool) \<Rightarrow> authScheduler
    \<Rightarrow> authScheduler \<times> (Auth \<times> string) option" where
  "pickMixedWeighted cursorKey priority providers modelKey predicate s =
     (let entries = mixedEntries priority modelKey providers s;
          state = m_get0 zeroWeightedState (as_mixedWeightedStates s) cursorKey;
          state = prepare state (scheduledWeightVectorMatching entries predicate);
          (current, picked) = pickSmoothWeightedScheduled entries (the (sw_current state)) predicate
      in (s\<lparr>as_mixedWeightedStates := m_put cursorKey (state\<lparr>sw_current := Some current\<rparr>) (as_mixedWeightedStates s)\<rparr>,
          map_option (\<lambda>e. (se_auth e, sm_providerKey (se_meta e))) picked))"

definition segmentStart :: "int list \<Rightarrow> nat \<Rightarrow> int" where
  "segmentStart weights providerIndex = sum_list (take providerIndex weights)"

fun pickMixedRotation :: "int \<Rightarrow> (scheduledAuth \<Rightarrow> bool) \<Rightarrow> string \<Rightarrow> string \<Rightarrow> string list \<Rightarrow> int list \<Rightarrow> nat \<Rightarrow> int \<Rightarrow> nat list
    \<Rightarrow> authScheduler \<Rightarrow> authScheduler \<times> (Auth \<times> string) option" where
  "pickMixedRotation priority predicate cursorKey modelKey providers weights start startSlot [] s = (s, None)"
| "pickMixedRotation priority predicate cursorKey modelKey providers weights start startSlot (providerIndex # rest) s =
     (if weights ! providerIndex = 0
      then pickMixedRotation priority predicate cursorKey modelKey providers weights start startSlot rest s
      else let slot = (if providerIndex \<noteq> start then segmentStart weights providerIndex else startSlot)
        in case pickAtPriority priority schedulerStrategyRoundRobin predicate modelKey [providers ! providerIndex] s of
             (s, Some picked) \<Rightarrow> (s\<lparr>as_mixedCursors := m_put cursorKey (slot + 1) (as_mixedCursors s)\<rparr>, Some picked)
           | (s, None) \<Rightarrow> pickMixedRotation priority predicate cursorKey modelKey providers weights start startSlot rest s)"

definition pickMixedRoundRobin :: "string \<Rightarrow> int \<Rightarrow> string list \<Rightarrow> string \<Rightarrow> (scheduledAuth \<Rightarrow> bool) \<Rightarrow> authScheduler
    \<Rightarrow> authScheduler \<times> (Auth \<times> string) option" where
  "pickMixedRoundRobin cursorKey priority providers modelKey predicate s =
     (let n = length providers;
          weights = map (\<lambda>providerKey. case shardAt providerKey modelKey s of
              None \<Rightarrow> 0 | Some shard \<Rightarrow> readyCountAtPriorityLocked False priority predicate shard) providers;
          totalWeight = sum_list weights
      in if totalWeight = 0 then (s, None)
         else let startSlot = go_mod (m_get0 0 (as_mixedCursors s) cursorKey) totalWeight
           in case find (\<lambda>providerIndex. weights ! providerIndex \<noteq> 0 \<and> startSlot < segmentStart weights (Suc providerIndex)) [0..<n] of
                None \<Rightarrow> (s, None)
              | Some start \<Rightarrow>
                  pickMixedRotation priority predicate cursorKey modelKey providers weights start startSlot
                    (map (\<lambda>offset. (start + offset) mod n) [0..<n]) s)"

definition joinKeys :: "string list \<Rightarrow> string" where
  "joinKeys keys = concat (case keys of [] \<Rightarrow> [] | k # ks \<Rightarrow> k # map (\<lambda>k. '','' @ k) ks)"

text \<open>The pick over two or more providers without a pinned credential; \<open>now1\<close> is the reading of the first
  loop, \<open>now3\<close> the one of the error.\<close>

definition pickMixedBest :: "string list \<Rightarrow> string \<Rightarrow> SchedRequest \<Rightarrow> schedulerStrategy \<Rightarrow> gotime \<Rightarrow> gotime \<Rightarrow> authScheduler
    \<Rightarrow> authScheduler \<times> (MixedError + Auth \<times> string)" where
  "pickMixedBest normalized model rq strategy now1 now3 s =
     (let modelKey = canonicalModelKey model;
          predicate = requestPredicate rq [] strategy;
          s = ensureShards normalized modelKey now1 s;
          priorities = List.map_filter (\<lambda>providerKey. Option.bind (shardAt providerKey modelKey s)
            (highestReadyPriorityLocked False predicate)) normalized
      in case bestPriority priorities of
           None \<Rightarrow> mixedError normalized model now3 predicate s
         | Some best \<Rightarrow>
             (let cursorKey = joinKeys normalized @ '':'' @ modelKey;
                  (s, picked) =
                    (if strategy = schedulerStrategyFillFirst then pickAtPriority best strategy predicate modelKey normalized s
                     else if strategy = schedulerStrategyWeightedRoundRobin
                     then pickMixedWeighted cursorKey best normalized modelKey predicate s
                     else pickMixedRoundRobin cursorKey best normalized modelKey predicate s)
              in case picked of
                   Some picked \<Rightarrow> (s, Inr picked)
                 | None \<Rightarrow> mixedError normalized model now3 predicate s))"

definition liftPick :: "string \<Rightarrow> authScheduler \<times> (PickError + Auth) \<Rightarrow> authScheduler \<times> (MixedError + Auth \<times> string)" where
  "liftPick providerKey r = (fst r, map_sum MixedPickError (\<lambda>auth. (auth, providerKey)) (snd r))"

definition pickMixedWithStrategy :: "string list \<Rightarrow> string \<Rightarrow> SchedRequest \<Rightarrow> schedulerStrategy \<Rightarrow> gotime \<Rightarrow> gotime \<Rightarrow> gotime
    \<Rightarrow> authScheduler \<Rightarrow> authScheduler \<times> (MixedError + Auth \<times> string)" where
  "pickMixedWithStrategy providers model rq strategy now1 now2 now3 s =
     (case normalizeProviderKeys providers of
        [] \<Rightarrow> (s, Inl ErrProviderNotFound)
      | [providerKey] \<Rightarrow> liftPick providerKey (pickSingleWithStrategy providerKey model rq strategy now1 now2 now3 s)
      | normalized \<Rightarrow>
          (let pinnedAuthID = pinnedAuthIDFromMetadata (rq_metadata rq);
               strategy = effectiveStrategy strategy s
           in if pinnedAuthID \<noteq> []
              then (let providerKey = m_get0 [] (as_authProviders s) pinnedAuthID
                    in if providerKey = [] \<or> \<not> containsProvider normalized providerKey
                       then (s, Inl (MixedPickError ErrAuthNotFound))
                       else (case ensureShard providerKey (canonicalModelKey model) now1 s of
                               (s, None) \<Rightarrow> (s, Inl (MixedPickError ErrAuthNotFound))
                             | (s, Some shard) \<Rightarrow> liftPick providerKey
                                 (pickInShard providerKey ''mixed'' model False strategy
                                   (requestPredicate rq pinnedAuthID strategy) now2 now3 shard s)))
              else pickMixedBest normalized model rq strategy now1 now3 s))"

definition pickMixed :: "string list \<Rightarrow> string \<Rightarrow> SchedRequest \<Rightarrow> gotime \<Rightarrow> gotime \<Rightarrow> gotime \<Rightarrow> authScheduler
    \<Rightarrow> authScheduler \<times> (MixedError + Auth \<times> string)" where
  "pickMixed providers model rq now1 now2 now3 s =
     pickMixedWithStrategy providers model rq schedulerStrategyCurrent now1 now2 now3 s"

end
