(* ===== verification/SchedulerIndex.thy ===== *)
theory SchedulerIndex
  imports Scheduler
begin

text \<open>
  The incremental indexes of the scheduler against their definition from scratch: in every reachable
  scheduler the ready views of a shard hold exactly the credentials of the provider that support
  the model and are not blocked, ordered by identifier, for each priority.
\<close>

section \<open>Classification over time\<close>

lemma isAuthBlocked_cases:
  obtains (fixed) b where "\<And>now. isAuthBlockedForModel (Some a) k now = b" and "b = (True, blockReasonDisabled, 0) \<or> b = (False, blockReasonNone, 0)"
  | (timed) u q r c where "\<And>now. isAuthBlockedForModel (Some a) k now = availabilityBlock u q r c now"
proof (cases "a_Disabled a \<or> a_Status a = StatusDisabled")
  case True
  then show ?thesis using fixed [of "(True, blockReasonDisabled, 0)"] by (simp add: isAuthBlockedForModel_def)
next
  case False
  show ?thesis
  proof (cases "k \<noteq> [] \<and> a_ModelStates a \<noteq> []")
    case no: False
    have "isAuthBlockedForModel (Some a) k now = availabilityBlock (a_Unavailable a) (q_Exceeded (a_Quota a))
        (a_NextRetryAfter a) (q_NextRecoverAt (a_Quota a)) now" for now
      using False no by (auto simp: isAuthBlockedForModel_def authBlock_def)
    then show ?thesis by (rule timed)
  next
    case yes: True
    show ?thesis
    proof (cases "stateForModel a k")
      case None
      then show ?thesis using False yes fixed [of "(False, blockReasonNone, 0)"] by (simp add: isAuthBlockedForModel_def)
    next
      case (Some state)
      then have "isAuthBlockedForModel (Some a) k now = (if s_Status state = StatusDisabled then (True, blockReasonDisabled, 0)
          else availabilityBlock (s_Unavailable state) (q_Exceeded (s_Quota state)) (s_NextRetryAfter state) (q_NextRecoverAt (s_Quota state)) now)" for now
        using False yes by (simp add: isAuthBlockedForModel_def stateBlock_def)
      then show ?thesis using fixed [of "(True, blockReasonDisabled, 0)"] timed
        by (cases "s_Status state = StatusDisabled") auto
    qed
  qed
qed

lemma availabilityBlock_classes:
  assumes "0 \<le> now"
  shows "availabilityBlock u q r c now =
    (if \<not> u \<and> \<not> q then (False, blockReasonNone, 0)
     else if now < max r c then (True, if q then blockReasonCooldown else blockReasonOther, max r c)
     else if r = 0 \<and> c = 0 then (True, blockReasonOther, 0)
     else (False, blockReasonNone, 0))"
  using assms by (auto simp: availabilityBlock_def laterCandidate_def Let_def max_def)

text \<open>A credential found free stays free; one found blocked stays blocked until its retry time, if it
  has one.\<close>

lemma classify_free:
  assumes "0 \<le> t0" and "t0 \<le> now" and "fst (classify a k t0) = scheduledStateReady"
  shows "\<not> fst (isAuthBlockedForModel (Some a) k now)"
proof (cases rule: isAuthBlocked_cases [of a k])
  case (fixed b)
  then show ?thesis using assms(3) by (auto simp: classify_def)
next
  case (timed u q r c)
  then show ?thesis using assms
    by (auto simp: classify_def availabilityBlock_classes split: if_splits)
qed

lemma classify_blocked:
  assumes "0 \<le> t0" and "t0 \<le> now" and "fst (classify a k t0) \<noteq> scheduledStateReady"
    and "snd (classify a k t0) = 0 \<or> now < snd (classify a k t0)"
  shows "fst (isAuthBlockedForModel (Some a) k now)"
proof (cases rule: isAuthBlocked_cases [of a k])
  case (fixed b)
  then show ?thesis using assms(3) by (auto simp: classify_def)
next
  case (timed u q r c)
  then show ?thesis using assms
    by (auto simp: classify_def availabilityBlock_classes split: if_splits)
qed

lemma classify_now: "fst (classify a k now) = scheduledStateReady \<longleftrightarrow> \<not> fst (isAuthBlockedForModel (Some a) k now)"
  by (auto simp: classify_def split: prod.splits)

lemma classify_ready_zero: "fst (classify a k now) = scheduledStateReady \<Longrightarrow> snd (classify a k now) = 0"
  by (auto simp: classify_def split: prod.splits if_splits)

lemma classify_disabled_zero: "fst (classify a k now) = scheduledStateDisabled \<Longrightarrow> snd (classify a k now) = 0"
  by (auto simp: classify_def split: prod.splits if_splits)

section \<open>The indexes of a shard\<close>

abbreviation entry :: "modelScheduler \<Rightarrow> string \<Rightarrow> scheduledAuth option" where
  "entry m i \<equiv> m_get (ms_entries m) i"

definition readySet :: "modelScheduler \<Rightarrow> int \<Rightarrow> string set" where
  "readySet m p = {i. \<exists>e. entry m i = Some e \<and> se_state e = scheduledStateReady \<and> sm_priority (se_meta e) = p}"

definition readyIds :: "modelScheduler \<Rightarrow> int \<Rightarrow> string list" where
  "readyIds m p = sorted_list_of_set (readySet m p)"

definition blockedSet :: "modelScheduler \<Rightarrow> string set" where
  "blockedSet m = {i. \<exists>e. entry m i = Some e \<and> (se_state e = scheduledStateCooldown \<or> se_state e = scheduledStateBlocked)}"

definition entriesOK :: "modelScheduler \<Rightarrow> bool" where
  "entriesOK m \<longleftrightarrow> m_ok (ms_entries m) \<and> (\<forall>i e. entry m i = Some e \<longrightarrow> a_ID (se_auth e) = i)"

definition bucketOK :: "modelScheduler \<Rightarrow> int \<Rightarrow> readyBucket \<Rightarrow> bool" where
  "bucketOK m p b \<longleftrightarrow> readySet m p \<noteq> {} \<and> rv_flat (bk_all b) = readyIds m p \<and>
     rv_flat (bk_ws b) = filter (websocketOf (ms_entries m)) (readyIds m p) \<and> 0 \<le> rv_cursor (bk_all b) \<and> 0 \<le> rv_cursor (bk_ws b)"

definition indexOK :: "modelScheduler \<Rightarrow> bool" where
  "indexOK m \<longleftrightarrow>
     (\<forall>p. case m_get (ms_readyByPriority m) p of None \<Rightarrow> readySet m p = {} | Some b \<Rightarrow> bucketOK m p b) \<and>
     set (ms_priorityOrder m) = {p. readySet m p \<noteq> {}} \<and> sorted_wrt (>) (ms_priorityOrder m) \<and>
     set (ms_blocked m) = blockedSet m \<and> distinct (ms_blocked m)"

lemma readySet_finite [simp]: "finite (readySet m p)"
  by (rule finite_subset [of _ "dom (map_of (ms_entries m))"]) (auto simp: readySet_def finite_dom_map_of)

lemma readyIds_set [simp]: "set (readyIds m p) = readySet m p"
  by (simp add: readyIds_def)

lemma groupStep_ok: "m_ok B \<Longrightarrow> m_ok (groupStep B ie)"
  by (simp add: groupStep_def Let_def distinct_update)

lemma groupStep_get:
  "m_get (groupStep B ie) p = (if se_state (snd ie) = scheduledStateReady \<and> sm_priority (se_meta (snd ie)) = p
     then Some (m_get0 [] B p @ [ie]) else m_get B p)"
  by (simp add: groupStep_def Let_def)

lemma groups_ok: "m_ok (foldl groupStep [] es)"
  by (rule foldl_invariant [where I = "\<lambda>B. m_ok B"]) (simp, rule groupStep_ok)

lemma groups_get:
  "m_get (foldl groupStep [] es) p =
    (let fs = filter (\<lambda>ie. se_state (snd ie) = scheduledStateReady \<and> sm_priority (se_meta (snd ie)) = p) es
     in if fs = [] then None else Some fs)"
proof (induction es rule: rev_induct)
  case (snoc ie es)
  then show ?case by (simp add: groupStep_get m_get0_def Let_def)
qed simp

lemma sorted_ids:
  assumes ok: "m_ok es" and key: "\<forall>ie\<in>set es. a_ID (se_auth (snd ie)) = fst ie" and "distinct (map fst fs)" and "set fs \<subseteq> set es"
  shows "map fst (sort_key (\<lambda>(_, e). a_ID (se_auth e)) fs) = sorted_list_of_set (fst ` set fs)"
proof -
  have "map (\<lambda>(_, e). a_ID (se_auth e)) (sort_key (\<lambda>(_, e). a_ID (se_auth e)) fs) = map fst (sort_key (\<lambda>(_, e). a_ID (se_auth e)) fs)"
    using key assms(4) by (intro map_cong) force+
  then have "sorted (map fst (sort_key (\<lambda>(_, e). a_ID (se_auth e)) fs))"
    by (metis sorted_sort_key)
  moreover have "distinct (map fst (sort_key (\<lambda>(_, e). a_ID (se_auth e)) fs))"
    using assms(3) by (simp add: distinct_map inj_on_def)
  ultimately show ?thesis
    by (metis set_map set_sort sorted_list_of_set.idem_if_sorted_distinct)
qed

lemma normalizeCursor_nonneg: "0 \<le> normalizeCursor c n"
  by (auto simp: normalizeCursor_def Let_def go_mod_nonneg)

lemma rebuiltBucket_views:
  "rv_flat (bk_all (rebuiltBucket m p es)) = map fst (sort_key (\<lambda>(_, e). a_ID (se_auth e)) es)"
  "rv_flat (bk_ws (rebuiltBucket m p es)) = filter (websocketOf (ms_entries m)) (map fst (sort_key (\<lambda>(_, e). a_ID (se_auth e)) es))"
  "0 \<le> rv_cursor (bk_all (rebuiltBucket m p es))" "0 \<le> rv_cursor (bk_ws (rebuiltBucket m p es))"
  by (auto simp: rebuiltBucket_def Let_def buildReadyBucket_def buildReadyView_def restoreReadyViewCursors_def
      normalizeCursor_nonneg split: option.splits)

lemma sort_key_rev_sorted: "distinct ks \<Longrightarrow> sorted_wrt (>) (rev (sort ks))" for ks :: "int list"
  by (simp add: sorted_wrt_rev strict_sorted_iff flip: sorted_wrt_iff_nth_less)

lemma rebuild_entries [simp]:
  "ms_entries (rebuildIndexesLocked m) = ms_entries m" "ms_modelKey (rebuildIndexesLocked m) = ms_modelKey m"
  by (simp_all add: rebuildIndexesLocked_def Let_def)

lemma sets_cong: "ms_entries m' = ms_entries m \<Longrightarrow> readySet m' p = readySet m p \<and> readyIds m' p = readyIds m p \<and> blockedSet m' = blockedSet m"
  by (simp add: readySet_def readyIds_def blockedSet_def)

lemma entriesOK_cong: "ms_entries m' = ms_entries m \<Longrightarrow> entriesOK m' = entriesOK m"
  by (simp add: entriesOK_def)

lemma entries_set:
  assumes "entriesOK m"
  shows "(i, e) \<in> set (ms_entries m) \<longleftrightarrow> entry m i = Some e"
  using assms by (simp add: entriesOK_def)

lemma readyGroup:
  assumes "entriesOK m"
  defines "fs \<equiv> \<lambda>p. filter (\<lambda>ie. se_state (snd ie) = scheduledStateReady \<and> sm_priority (se_meta (snd ie)) = p) (ms_entries m)"
  shows "fst ` set (fs p) = readySet m p"
    and "map fst (sort_key (\<lambda>(_, e). a_ID (se_auth e)) (fs p)) = readyIds m p"
proof -
  show 1: "fst ` set (fs p) = readySet m p"
    using entries_set [OF assms(1)] by (force simp: fs_def readySet_def)
  have "\<forall>ie\<in>set (ms_entries m). a_ID (se_auth (snd ie)) = fst ie"
    using entries_set [OF assms(1)] assms(1) by (auto simp: entriesOK_def)
  moreover have "m_ok (ms_entries m)" using assms(1) by (simp add: entriesOK_def)
  moreover have "distinct (map fst (fs p))"
    using \<open>m_ok (ms_entries m)\<close> unfolding fs_def by (simp add: m_ok_filter)
  ultimately show "map fst (sort_key (\<lambda>(_, e). a_ID (se_auth e)) (fs p)) = readyIds m p"
    unfolding readyIds_def 1 [symmetric] by (intro sorted_ids) (auto simp: fs_def)
qed

lemma rebuild_indexOK:
  assumes "entriesOK m"
  shows "indexOK (rebuildIndexesLocked m)"
proof -
  let ?m = "rebuildIndexesLocked m"
  let ?g = "foldl groupStep [] (ms_entries m)"
  have sets: "readySet ?m p = readySet m p" "readyIds ?m p = readyIds m p" "blockedSet ?m = blockedSet m" for p
    using sets_cong [of ?m m] by auto
  let ?fs = "\<lambda>p. filter (\<lambda>ie. se_state (snd ie) = scheduledStateReady \<and> sm_priority (se_meta (snd ie)) = p) (ms_entries m)"
  have none: "readySet m p = {} \<longleftrightarrow> ?fs p = []" for p
    unfolding readyGroup(1) [OF assms, of p, symmetric] by (simp only: image_is_empty set_empty)
  then have group: "m_get ?g p = (if readySet m p = {} then None else Some (?fs p))" for p
    by (simp add: groups_get Let_def del: filter_empty_conv)
  then have get: "m_get (ms_readyByPriority ?m) p = (if readySet m p = {} then None else Some (rebuiltBucket m p (?fs p)))" for p
    by (simp add: rebuildIndexesLocked_def Let_def m_get_map_snd)
  have "case m_get (ms_readyByPriority ?m) p of None \<Rightarrow> readySet ?m p = {} | Some b \<Rightarrow> bucketOK ?m p b" for p
    using readyGroup(2) [OF assms, of p] by (simp add: get sets bucketOK_def rebuiltBucket_views)
  moreover have "set (ms_priorityOrder ?m) = {p. readySet ?m p \<noteq> {}}"
  proof -
    have "set (ms_priorityOrder ?m) = dom (m_get ?g)"
      by (simp add: rebuildIndexesLocked_def Let_def dom_map_of_conv_image_fst)
    also have "\<dots> = {p. readySet m p \<noteq> {}}"
      by (simp add: dom_def group)
    finally show ?thesis by (simp add: sets)
  qed
  moreover have "sorted_wrt (>) (ms_priorityOrder ?m)"
    using groups_ok by (simp add: rebuildIndexesLocked_def Let_def sort_key_rev_sorted)
  moreover have "set (ms_blocked ?m) = blockedSet ?m \<and> distinct (ms_blocked ?m)"
  proof -
    have ok: "m_ok (ms_entries m)" using assms by (simp add: entriesOK_def)
    let ?f = "filter (\<lambda>(_, e). se_state e = scheduledStateCooldown \<or> se_state e = scheduledStateBlocked) (ms_entries m)"
    have "fst ` set ?f = blockedSet m"
      using entries_set [OF assms] by (force simp: blockedSet_def)
    moreover have "distinct (map fst ?f)" using ok by (rule m_ok_filter)
    ultimately show ?thesis unfolding sets
      by (simp add: rebuildIndexesLocked_def Let_def distinct_map)
  qed
  ultimately show ?thesis by (simp add: indexOK_def)
qed

section \<open>Updates of one entry\<close>

lemma upsertEntry_entries:
  "ms_entries (upsertEntryLocked meta now m) = m_put (a_ID (sm_auth meta))
     \<lparr>se_meta = meta, se_auth = sm_auth meta, se_state = fst (classify (sm_auth meta) (ms_modelKey m) now),
      se_nextRetryAt = snd (classify (sm_auth meta) (ms_modelKey m) now)\<rparr> (ms_entries m)"
  "ms_modelKey (upsertEntryLocked meta now m) = ms_modelKey m"
  by (auto simp: upsertEntryLocked_def Let_def split: prod.splits option.splits)

lemma entriesOK_put: "entriesOK m \<Longrightarrow> a_ID (se_auth e) = i \<Longrightarrow> ms_entries m' = m_put i e (ms_entries m) \<Longrightarrow> entriesOK m'"
  by (auto simp: entriesOK_def distinct_update split: if_splits)

lemma upsertEntry_ok:
  assumes "entriesOK m" and "indexOK m"
  shows "entriesOK (upsertEntryLocked meta now m) \<and> indexOK (upsertEntryLocked meta now m)"
proof -
  let ?i = "a_ID (sm_auth meta)" and ?c = "classify (sm_auth meta) (ms_modelKey m) now"
  define e where "e = \<lparr>se_meta = meta, se_auth = sm_auth meta, se_state = fst ?c, se_nextRetryAt = snd ?c\<rparr>"
  define m' where "m' = m\<lparr>ms_entries := m_put ?i e (ms_entries m)\<rparr>"
  have m': "entriesOK m'" by (rule entriesOK_put [OF assms(1), of e ?i]) (simp_all add: e_def m'_def)
  have cases: "upsertEntryLocked meta now m = rebuildIndexesLocked m' \<or>
      upsertEntryLocked meta now m = m' \<and> (\<exists>old. entry m ?i = Some old \<and> se_state old = se_state e \<and>
        sm_priority (se_meta old) = sm_priority meta \<and> sm_websocketEnabled (se_meta old) = sm_websocketEnabled meta)"
    by (auto simp: upsertEntryLocked_def Let_def m'_def e_def split: prod.splits option.splits)
  show ?thesis
  proof (cases "upsertEntryLocked meta now m = rebuildIndexesLocked m'")
    case True
    then show ?thesis using m' rebuild_indexOK [OF m'] entriesOK_cong [of "rebuildIndexesLocked m'" m'] by simp
  next
    case False
    with cases obtain old where same: "upsertEntryLocked meta now m = m'" "entry m ?i = Some old" "se_state old = se_state e"
        "sm_priority (se_meta old) = sm_priority meta" "sm_websocketEnabled (se_meta old) = sm_websocketEnabled meta" by blast
    have ready: "readySet m' p = readySet m p" and blocked: "blockedSet m' = blockedSet m" for p
      using same by (auto simp: readySet_def blockedSet_def m'_def e_def)
    note sets = ready blocked and ids = ready [THEN arg_cong [where f = sorted_list_of_set], folded readyIds_def]
    have "websocketOf (ms_entries m') = websocketOf (ms_entries m)"
      using same by (auto simp: websocketOf_def m'_def e_def fun_eq_iff split: option.splits)
    then have "bucketOK m' p b = bucketOK m p b" for p b
      by (simp add: bucketOK_def sets ids)
    moreover have "ms_readyByPriority m' = ms_readyByPriority m" "ms_priorityOrder m' = ms_priorityOrder m" "ms_blocked m' = ms_blocked m"
      by (simp_all add: m'_def)
    ultimately have "indexOK m'" using assms(2) unfolding indexOK_def sets by (simp cong: option.case_cong)
    then show ?thesis using m' same(1) by simp
  qed
qed

lemma removeEntry_entries:
  "i \<noteq> [] \<Longrightarrow> m_get (ms_entries (removeEntryLocked i m)) = (m_get (ms_entries m))(i := None)"
  "ms_modelKey (removeEntryLocked i m) = ms_modelKey m"
  by (auto simp: removeEntryLocked_def)

lemma removeEntry_ok:
  assumes "entriesOK m" and "indexOK m"
  shows "entriesOK (removeEntryLocked i m) \<and> indexOK (removeEntryLocked i m)"
proof -
  let ?m = "m\<lparr>ms_entries := m_del i (ms_entries m)\<rparr>"
  have "entriesOK ?m" using assms(1) by (auto simp: entriesOK_def distinct_delete)
  then show ?thesis using assms rebuild_indexOK [of ?m] entriesOK_cong [of "rebuildIndexesLocked ?m" ?m]
    by (simp add: removeEntryLocked_def)
qed

section \<open>Promotion\<close>

definition due :: "gotime \<Rightarrow> scheduledAuth \<Rightarrow> bool" where
  "due now e \<longleftrightarrow> se_nextRetryAt e \<noteq> 0 \<and> se_nextRetryAt e \<le> now"

definition promoted :: "string \<Rightarrow> gotime \<Rightarrow> scheduledAuth \<Rightarrow> scheduledAuth" where
  "promoted k now e = (if due now e
     then e\<lparr>se_state := fst (classify (se_auth e) k now), se_nextRetryAt := snd (classify (se_auth e) k now)\<rparr> else e)"

lemma promoteStep_eq:
  "promoteStep k now acc i = (case m_get (fst acc) i of
     None \<Rightarrow> acc | Some e \<Rightarrow> if due now e then (m_put i (promoted k now e) (fst acc), True) else acc)"
  by (auto simp: promoteStep_def due_def promoted_def not_le split: option.splits prod.splits)

lemma promote_fold:
  assumes "distinct bl"
  shows "m_get (fst (foldl (promoteStep k now) (es, ch) bl)) i = (if i \<in> set bl then map_option (promoted k now) (m_get es i) else m_get es i)"
    and "snd (foldl (promoteStep k now) (es, ch) bl) \<longleftrightarrow> ch \<or> (\<exists>i\<in>set bl. \<exists>e. m_get es i = Some e \<and> due now e)"
  using assms
proof (induction bl arbitrary: es ch)
  case (Cons j bl)
  have get: "m_get (fst (promoteStep k now (es, ch) j)) i = (if i = j then map_option (promoted k now) (m_get es i) else m_get es i)" for es ch i
    by (auto simp: promoteStep_eq promoted_def split: option.splits)
  have ch: "snd (promoteStep k now (es, ch) j) \<longleftrightarrow> ch \<or> (\<exists>e. m_get es j = Some e \<and> due now e)" for es ch
    by (auto simp: promoteStep_eq split: option.splits)
  {
    case 1
    then show ?case
      using Cons.IH(1) [of "fst (promoteStep k now (es, ch) j)" "snd (promoteStep k now (es, ch) j)"] by (auto simp: get)
  next
    case 2
    obtain es' ch' where acc: "promoteStep k now (es, ch) j = (es', ch')" by (cases "promoteStep k now (es, ch) j")
    have "m_get es' i = m_get es i" if "i \<in> set bl" for i
      using get [of es ch i] that 2 by (auto simp: acc)
    moreover have "ch' \<longleftrightarrow> ch \<or> (\<exists>e. m_get es j = Some e \<and> due now e)" using ch [of es ch] by (simp add: acc)
    ultimately show ?case using Cons.IH(2) [of es' ch'] 2 by (simp add: acc)
  }
qed simp_all

lemma promote_m_ok: "m_ok es \<Longrightarrow> m_ok (fst (foldl (promoteStep k now) (es, ch) bl))"
proof (induction bl arbitrary: es ch)
  case (Cons j bl)
  have "m_ok (fst (promoteStep k now (es, ch) j))"
    using Cons.prems by (auto simp: promoteStep_eq distinct_update split: option.splits)
  then show ?case using Cons.IH [of "fst (promoteStep k now (es, ch) j)" "snd (promoteStep k now (es, ch) j)"] by simp
qed simp

text \<open>Only entries in the blocked queue have a retry time.\<close>

definition timesOK :: "modelScheduler \<Rightarrow> bool" where
  "timesOK m \<longleftrightarrow> (\<forall>i e. entry m i = Some e \<longrightarrow> i \<notin> blockedSet m \<longrightarrow> se_nextRetryAt e = 0)"

lemma promote_entries:
  assumes "indexOK m" and "timesOK m"
  shows "entry (promoteExpiredLocked now m) i = map_option (promoted (ms_modelKey m) now) (entry m i)"
    and "ms_modelKey (promoteExpiredLocked now m) = ms_modelKey m"
proof -
  let ?f = "foldl (promoteStep (ms_modelKey m) now) (ms_entries m, False) (ms_blocked m)"
  have bl: "distinct (ms_blocked m)" "set (ms_blocked m) = blockedSet m" using assms(1) by (auto simp: indexOK_def)
  have stay: "promoted (ms_modelKey m) now e = e" if "entry m i = Some e" "i \<notin> blockedSet m" for i e
    using assms(2) that by (simp add: timesOK_def promoted_def due_def)
  have all: "m_get (fst ?f) i = map_option (promoted (ms_modelKey m) now) (entry m i)" for i
    using stay by (cases "entry m i") (auto simp: promote_fold(1) [OF bl(1)] bl(2))
  have "entry m i = map_option (promoted (ms_modelKey m) now) (entry m i)" if "\<not> snd ?f" for i
    using that stay promote_fold(2) [OF bl(1), of "ms_modelKey m" now "ms_entries m" False]
    by (cases "entry m i"; cases "i \<in> blockedSet m") (auto simp: promoted_def bl(2))
  then show "entry (promoteExpiredLocked now m) i = map_option (promoted (ms_modelKey m) now) (entry m i)"
    using all by (auto simp: promoteExpiredLocked_def split: prod.splits)
  show "ms_modelKey (promoteExpiredLocked now m) = ms_modelKey m"
    by (simp add: promoteExpiredLocked_def split: prod.splits)
qed

lemma promote_ok:
  assumes "entriesOK m" and "indexOK m" and "timesOK m"
  shows "entriesOK (promoteExpiredLocked now m) \<and> indexOK (promoteExpiredLocked now m)"
proof -
  let ?f = "foldl (promoteStep (ms_modelKey m) now) (ms_entries m, False) (ms_blocked m)"
  let ?m = "m\<lparr>ms_entries := fst ?f\<rparr>"
  show ?thesis
  proof (cases "snd ?f")
    case False
    then show ?thesis using assms by (simp add: promoteExpiredLocked_def case_prod_beta)
  next
    case True
    then have eq: "promoteExpiredLocked now m = rebuildIndexesLocked ?m"
      by (simp add: promoteExpiredLocked_def case_prod_beta)
    have "m_ok (fst ?f)" using assms(1) by (intro promote_m_ok) (simp add: entriesOK_def)
    moreover have "a_ID (se_auth e) = i" if "m_get (fst ?f) i = Some e" for i e
    proof -
      have "entry (promoteExpiredLocked now m) i = Some e" unfolding eq using that by simp
      then show ?thesis using assms(1) promote_entries(1) [OF assms(2,3), of now i]
        by (auto simp: entriesOK_def promoted_def split: if_splits)
    qed
    ultimately have "entriesOK ?m" by (simp add: entriesOK_def)
    then show ?thesis using rebuild_indexOK [of ?m] entriesOK_cong [of "rebuildIndexesLocked ?m" ?m] by (simp add: eq)
  qed
qed

section \<open>Shards, providers and the scheduler\<close>

text \<open>\<open>shardOK A k t m\<close>: the shard of model \<open>k\<close> has an entry for exactly the credentials of the table \<open>A\<close>
  that support the model, each classified at some time up to \<open>t\<close>, and its indexes are right.\<close>

definition entryOK :: "(string \<rightharpoonup> scheduledAuthMeta) \<Rightarrow> string \<Rightarrow> gotime \<Rightarrow> string \<Rightarrow> scheduledAuth \<Rightarrow> bool" where
  "entryOK A k t i e \<longleftrightarrow> A i = Some (se_meta e) \<and> supportsModel (se_meta e) k \<and> se_auth e = sm_auth (se_meta e) \<and>
     (\<exists>t0. 0 \<le> t0 \<and> t0 \<le> t \<and> (se_state e, se_nextRetryAt e) = classify (se_auth e) k t0)"

definition shardOK :: "(string \<rightharpoonup> scheduledAuthMeta) \<Rightarrow> string \<Rightarrow> gotime \<Rightarrow> modelScheduler \<Rightarrow> bool" where
  "shardOK A k t m \<longleftrightarrow> ms_modelKey m = k \<and> entriesOK m \<and> indexOK m \<and>
     (\<forall>i e. entry m i = Some e \<longrightarrow> entryOK A k t i e) \<and>
     (\<forall>i meta. A i = Some meta \<longrightarrow> supportsModel meta k \<longrightarrow> entry m i \<noteq> None)"

lemma entryOK_mono: "entryOK A k t i e \<Longrightarrow> t \<le> t' \<Longrightarrow> entryOK A k t' i e"
  unfolding entryOK_def by (meson order_trans)

lemma entryOK_table: "entryOK A k t i e \<Longrightarrow> A' i = A i \<Longrightarrow> entryOK A' k t i e"
  unfolding entryOK_def by metis

lemma shardOK_mono: "shardOK A k t m \<Longrightarrow> t \<le> t' \<Longrightarrow> shardOK A k t' m"
  unfolding shardOK_def using entryOK_mono by blast

lemma shardOK_times:
  assumes "shardOK A k t m"
  shows "timesOK m"
  unfolding timesOK_def
proof (intro allI impI)
  fix i e assume e: "entry m i = Some e" and nb: "i \<notin> blockedSet m"
  obtain t0 where c: "(se_state e, se_nextRetryAt e) = classify (se_auth e) k t0"
    using assms e unfolding shardOK_def entryOK_def by blast
  have "se_state e = scheduledStateReady \<or> se_state e = scheduledStateDisabled"
    using e nb by (cases "se_state e") (auto simp: blockedSet_def)
  then show "se_nextRetryAt e = 0"
    using c classify_ready_zero [of "se_auth e" k t0] classify_disabled_zero [of "se_auth e" k t0] by (auto simp: prod_eq_iff)
qed

lemma newModelScheduler_ok: "shardOK Map.empty k t (newModelScheduler k)"
  by (simp add: shardOK_def newModelScheduler_def entriesOK_def indexOK_def readySet_def blockedSet_def)

lemma shardOK_upsert:
  assumes m: "shardOK A k t m" and "a_ID (sm_auth meta) = i" and "supportsModel meta k" and "0 \<le> now" and "t \<le> now"
  shows "shardOK (A(i \<mapsto> meta)) k now (upsertEntryLocked meta now m)"
proof -
  let ?m = "upsertEntryLocked meta now m"
  have key: "ms_modelKey m = k" and ok: "entriesOK m" "indexOK m" using m by (auto simp: shardOK_def)
  have get: "entry ?m j = (if j = i then Some \<lparr>se_meta = meta, se_auth = sm_auth meta, se_state = fst (classify (sm_auth meta) k now),
      se_nextRetryAt = snd (classify (sm_auth meta) k now)\<rparr> else entry m j)" for j
    using assms(2) key by (simp add: upsertEntry_entries)
  have "entryOK (A(i \<mapsto> meta)) k now j e" if "entry ?m j = Some e" for j e
  proof (cases "j = i")
    case True
    then show ?thesis using that assms(3,4) by (auto simp: get entryOK_def intro: exI [of _ now])
  next
    case False
    then have "entryOK A k t j e" using that m by (simp add: get shardOK_def)
    then have "entryOK A k now j e" using assms(5) by (rule entryOK_mono)
    then show ?thesis using False by (auto intro: entryOK_table)
  qed
  moreover have "entry ?m j \<noteq> None" if "(A(i \<mapsto> meta)) j = Some x" "supportsModel x k" for j x
    using that m by (auto simp: get shardOK_def split: if_splits)
  ultimately show ?thesis
    using upsertEntry_ok [OF ok, of meta now] key upsertEntry_entries(2) by (simp add: shardOK_def)
qed

lemma shardOK_drop:
  assumes m: "shardOK A k t m" and "i \<noteq> []" and A': "\<And>j. j \<noteq> i \<Longrightarrow> A' j = A j"
    and none: "\<And>meta. A' i = Some meta \<Longrightarrow> \<not> supportsModel meta k"
  shows "shardOK A' k t (removeEntryLocked i m)"
proof -
  let ?m = "removeEntryLocked i m"
  have ok: "entriesOK m" "indexOK m" using m by (auto simp: shardOK_def)
  have get: "entry ?m j = (if j = i then None else entry m j)" for j
    using removeEntry_entries(1) [OF assms(2), of m] by simp
  have "entryOK A' k t j e" if "entry ?m j = Some e" for j e
    using that m A' [of j] by (auto simp: get shardOK_def intro: entryOK_table split: if_splits)
  moreover have "entry ?m j \<noteq> None" if "A' j = Some x" "supportsModel x k" for j x
    using that m none A' [of j] by (cases "j = i") (auto simp: get shardOK_def)
  ultimately show ?thesis
    using removeEntry_ok [OF ok, of i] m by (simp add: shardOK_def removeEntry_entries(2))
qed

text \<open>After a promotion at \<open>now\<close> the shard is current: an entry is ready exactly when its credential is
  free.\<close>

definition currentAt :: "gotime \<Rightarrow> modelScheduler \<Rightarrow> bool" where
  "currentAt now m \<longleftrightarrow> (\<forall>i e. entry m i = Some e \<longrightarrow>
     (se_state e = scheduledStateReady \<longleftrightarrow> \<not> fst (isAuthBlockedForModel (Some (se_auth e)) (ms_modelKey m) now)))"

lemma promoted_current:
  assumes "entryOK A k t i e" and "t \<le> now"
  shows "entryOK A k now i (promoted k now e)"
    and "se_state (promoted k now e) = scheduledStateReady \<longleftrightarrow> \<not> fst (isAuthBlockedForModel (Some (se_auth e)) k now)"
proof -
  obtain t0 where t0: "0 \<le> t0" "t0 \<le> t" and c: "classify (se_auth e) k t0 = (se_state e, se_nextRetryAt e)"
    using assms(1) unfolding entryOK_def by metis
  have now: "0 \<le> now" "t0 \<le> now" using t0 assms(2) by auto
  show "entryOK A k now i (promoted k now e)"
    using assms(1) entryOK_mono [OF assms] now(1)
    by (cases "due now e") (auto simp: promoted_def entryOK_def intro: exI [of _ now])
  show "se_state (promoted k now e) = scheduledStateReady \<longleftrightarrow> \<not> fst (isAuthBlockedForModel (Some (se_auth e)) k now)"
  proof (cases "due now e")
    case True
    then show ?thesis by (simp add: promoted_def classify_now)
  next
    case False
    then show ?thesis
      using classify_free [OF t0(1) now(2), of "se_auth e" k] classify_blocked [OF t0(1) now(2), of "se_auth e" k] c
      by (cases "se_state e = scheduledStateReady") (auto simp: promoted_def due_def)
  qed
qed

lemma shardOK_promote:
  assumes m: "shardOK A k t m" and "t \<le> now"
  shows "shardOK A k now (promoteExpiredLocked now m)" and "currentAt now (promoteExpiredLocked now m)"
proof -
  let ?m = "promoteExpiredLocked now m"
  have key: "ms_modelKey m = k" and ok: "entriesOK m" "indexOK m" using m by (auto simp: shardOK_def)
  note get = promote_entries [OF ok(2) shardOK_times [OF m], of now, unfolded key]
  have "entryOK A k now i e" if "entry ?m i = Some e" for i e
    using that m promoted_current(1) [OF _ assms(2)] by (auto simp: get shardOK_def)
  then show "shardOK A k now ?m"
    using promote_ok [OF ok shardOK_times [OF m], of now] m get by (auto simp: shardOK_def)
  show "currentAt now ?m"
    unfolding currentAt_def
  proof (intro allI impI)
    fix i e assume "entry ?m i = Some e"
    then obtain e0 where e0: "entry m i = Some e0" "e = promoted k now e0" by (auto simp: get)
    then have "entryOK A k t i e0" using m by (auto simp: shardOK_def)
    from promoted_current(2) [OF this assms(2)]
    show "se_state e = scheduledStateReady \<longleftrightarrow> \<not> fst (isAuthBlockedForModel (Some (se_auth e)) (ms_modelKey ?m) now)"
      by (simp add: e0(2) get(2) promoted_def)
  qed
qed

section \<open>What the views pick\<close>

text \<open>A strategy picks an admitted entry of the view, and finds one when there is one. For the weighted
  strategy the predicate admits positive weights only, as \<open>scheduledAuthPredicate\<close> does.\<close>

definition picksFrom :: "(scheduledAuth \<Rightarrow> bool) \<Rightarrow> scheduledAuth list \<Rightarrow> scheduledAuth option \<Rightarrow> bool" where
  "picksFrom predicate flat picked \<longleftrightarrow> (case picked of
     Some e \<Rightarrow> e \<in> set flat \<and> predicate e | None \<Rightarrow> (\<forall>e\<in>set flat. \<not> predicate e))"

lemma find_picks: "picksFrom predicate flat (find predicate flat)"
  by (auto simp: picksFrom_def find_None_iff dest: find_Some_filter split: option.splits)

lemma pickFirst_picks: "picksFrom predicate flat (pickFirst predicate flat)"
  by (simp add: pickFirst_def find_picks)

lemma rotation_covers: "0 < n \<Longrightarrow> set (map (\<lambda>offset. (start + offset) mod n) [0..<n]) = {0..<n}" for n start :: nat
proof -
  assume n: "0 < n"
  have "j \<in> (\<lambda>offset. (start + offset) mod n) ` {0..<n}" if "j < n" for j
  proof (rule image_eqI [where x = "(j + (n - start mod n)) mod n"])
    have "(start + (j + (n - start mod n)) mod n) mod n = (start mod n + (j + (n - start mod n))) mod n"
      by (simp add: mod_simps)
    also have "start mod n + (j + (n - start mod n)) = j + n" using mod_less_divisor [OF n, of start] by linarith
    finally show "j = (start + (j + (n - start mod n)) mod n) mod n" using that by simp
  qed (use n in simp)
  then show ?thesis using n by auto
qed

lemma pickRoundRobin_picks: "picksFrom predicate flat (snd (pickRoundRobin predicate flat cursor))"
proof (cases "flat = []")
  case True
  then show ?thesis by (simp add: pickRoundRobin_def picksFrom_def)
next
  case False
  let ?n = "length flat" and ?s = "nat (go_mod cursor (int (length flat)))"
  let ?is = "map (\<lambda>offset. (?s + offset) mod ?n) [0..<?n]"
  have cover: "set ?is = {0..<?n}" using False by (intro rotation_covers) simp
  show ?thesis
  proof (cases "find (\<lambda>index. predicate (flat ! index)) ?is")
    case None
    then have "\<forall>j\<in>set ?is. \<not> predicate (flat ! j)" unfolding find_None_iff by blast
    then have "\<forall>j<?n. \<not> predicate (flat ! j)" unfolding cover by simp
    then show ?thesis using False None by (auto simp: pickRoundRobin_def picksFrom_def in_set_conv_nth)
  next
    case (Some j)
    then have "j \<in> set ?is \<and> predicate (flat ! j)" by (rule find_Some_filter)
    then show ?thesis using False Some cover by (simp add: pickRoundRobin_def picksFrom_def Let_def)
  qed
qed

lemma scheduledLoop_picks:
  "case sc_picked (foldl (scheduledStep predicate) l flat) of
     Some e \<Rightarrow> e \<in> set flat \<and> predicate e \<and> 0 < sm_weight (se_meta e) \<or> sc_picked l = Some e
   | None \<Rightarrow> sc_picked l = None \<and> (\<forall>e\<in>set flat. \<not> predicate e \<or> sm_weight (se_meta e) \<le> 0)"
proof (induction flat arbitrary: l)
  case Nil
  then show ?case by (simp split: option.splits)
next
  case (Cons e flat)
  have step: "sc_picked (scheduledStep predicate l e) = None \<longleftrightarrow> sc_picked l = None \<and> (\<not> predicate e \<or> sm_weight (se_meta e) \<le> 0)"
    "sc_picked (scheduledStep predicate l e) = Some e' \<Longrightarrow> e' = e \<and> predicate e \<and> 0 < sm_weight (se_meta e) \<or> sc_picked l = Some e'" for e'
    by (auto simp: scheduledStep_def Let_def split: if_splits)
  show ?case
    using Cons.IH [of "scheduledStep predicate l e"] step by (auto split: option.splits)
qed

lemma pickSmooth_picks:
  assumes "\<And>e. predicate e \<Longrightarrow> 0 < sm_weight (se_meta e)"
  shows "picksFrom predicate flat (snd (pickSmoothWeightedScheduled flat current predicate))"
proof -
  define l where "l = foldl (scheduledStep predicate) \<lparr>sc_current = filter (\<lambda>(authID, _). authID \<in> set (map (\<lambda>e. a_ID (se_auth e))
      (filter (\<lambda>e. \<not> sm_weight (se_meta e) \<le> 0 \<and> predicate e) flat))) current, sc_picked = None, sc_pickedCurrent = 0, sc_totalWeight = 0\<rparr> flat"
  have "snd (pickSmoothWeightedScheduled flat current predicate) = sc_picked l"
    unfolding pickSmoothWeightedScheduled_def Let_def l_def [symmetric] by (simp split: option.splits)
  then show ?thesis
    using scheduledLoop_picks [where predicate = predicate and flat = flat, of "\<lparr>sc_current = filter (\<lambda>(authID, _). authID \<in> set (map (\<lambda>e. a_ID (se_auth e))
      (filter (\<lambda>e. \<not> sm_weight (se_meta e) \<le> 0 \<and> predicate e) flat))) current, sc_picked = None, sc_pickedCurrent = 0, sc_totalWeight = 0\<rparr>",
      folded l_def] assms unfolding picksFrom_def
    by (fastforce split: option.splits)
qed

lemma pickFromView_picks:
  assumes "strategy = schedulerStrategyWeightedRoundRobin \<Longrightarrow> (\<And>e. predicate e \<Longrightarrow> 0 < sm_weight (se_meta e))"
  shows "picksFrom predicate (resolve es (rv_flat v)) (snd (pickFromView es strategy predicate v))"
proof (cases strategy)
  case schedulerStrategyFillFirst
  then show ?thesis by (simp add: pickFromView_def pickFirst_picks)
next
  case schedulerStrategyWeightedRoundRobin
  have "picksFrom predicate [] None" by (simp add: picksFrom_def)
  then show ?thesis using schedulerStrategyWeightedRoundRobin pickSmooth_picks [OF assms]
    by (auto simp: pickFromView_def pickWeighted_def Let_def case_prod_beta)
qed (use pickRoundRobin_picks in \<open>simp_all add: pickFromView_def case_prod_beta Let_def\<close>)

lemma pickFromView_view:
  "rv_flat (fst (pickFromView es strategy predicate v)) = rv_flat v"
  "0 \<le> rv_cursor v \<Longrightarrow> 0 \<le> rv_cursor (fst (pickFromView es strategy predicate v))"
  by (cases strategy; auto simp: pickFromView_def Let_def case_prod_beta pickRoundRobin_def split: option.splits)+

section \<open>Picks of a shard\<close>

lemma resolve_set: "set (resolve es ids) = {e. \<exists>i\<in>set ids. m_get es i = Some e}"
  by (force simp: resolve_def List.map_filter_def image_iff)

definition readyEntry :: "modelScheduler \<Rightarrow> scheduledAuth \<Rightarrow> bool" where
  "readyEntry m e \<longleftrightarrow> (\<exists>i. entry m i = Some e) \<and> se_state e = scheduledStateReady"

lemma bucket_entries:
  assumes "bucketOK m p b"
  shows "set (resolve (ms_entries m) (rv_flat (bk_all b))) = {e. readyEntry m e \<and> sm_priority (se_meta e) = p}"
    and "set (resolve (ms_entries m) (rv_flat (bk_ws b))) = {e. readyEntry m e \<and> sm_priority (se_meta e) = p \<and> sm_websocketEnabled (se_meta e)}"
  using assms by (auto simp: bucketOK_def resolve_set readySet_def readyEntry_def websocketOf_def split: option.splits)

lemma bucketOK_update:
  assumes "bucketOK m p b" and "rv_flat v = rv_flat (if ws then bk_ws b else bk_all b)" and "0 \<le> rv_cursor v"
    and "ms_entries m' = ms_entries m"
  shows "bucketOK m' p (if ws then b\<lparr>bk_ws := v\<rparr> else b\<lparr>bk_all := v\<rparr>)"
  using assms sets_cong [of m' m p] by (cases ws) (simp_all add: bucketOK_def)

lemma pickAt_shard:
  assumes "indexOK m" and m'_def: "m' = fst (pickReadyAtPriorityLocked pw p strategy predicate m)"
  shows "indexOK m' \<and> ms_entries m' = ms_entries m \<and> ms_modelKey m' = ms_modelKey m"
proof (cases "m_get (ms_readyByPriority m) p")
  case None
  then show ?thesis using assms(1) by (simp add: m'_def pickReadyAtPriorityLocked_def)
next
  case (Some b)
  define ws where "ws = usesWebsocketView pw predicate m b"
  define v where "v = fst (pickFromView (ms_entries m) strategy predicate (if ws then bk_ws b else bk_all b))"
  have m': "m' = m\<lparr>ms_readyByPriority := m_put p (if ws then b\<lparr>bk_ws := v\<rparr> else b\<lparr>bk_all := v\<rparr>) (ms_readyByPriority m)\<rparr>"
    using Some by (simp add: m'_def pickReadyAtPriorityLocked_def ws_def v_def Let_def case_prod_beta)
  have b: "bucketOK m p b" using assms(1) Some unfolding indexOK_def by (metis option.simps(5))
  have es: "ms_entries m' = ms_entries m" by (simp add: m')
  have "bucketOK m' p (if ws then b\<lparr>bk_ws := v\<rparr> else b\<lparr>bk_all := v\<rparr>)"
    using b pickFromView_view [where v = "if ws then bk_ws b else bk_all b"]
    by (intro bucketOK_update [OF b _ _ es]) (auto simp: v_def bucketOK_def)
  moreover have "bucketOK m' q c = bucketOK m q c" for q c
    using sets_cong [OF es] by (simp add: bucketOK_def es)
  ultimately have "case m_get (ms_readyByPriority m') q of None \<Rightarrow> readySet m' q = {} | Some c \<Rightarrow> bucketOK m' q c" for q
    using assms(1) sets_cong [OF es, of q] unfolding indexOK_def by (cases "q = p") (simp_all add: m' cong: option.case_cong)
  moreover have rest: "ms_priorityOrder m' = ms_priorityOrder m" "ms_blocked m' = ms_blocked m" "ms_modelKey m' = ms_modelKey m"
    by (simp_all add: m')
  moreover have "readySet m' = readySet m" "blockedSet m' = blockedSet m" using sets_cong [OF es] by auto
  ultimately show ?thesis using assms(1) es unfolding indexOK_def by simp
qed

text \<open>The first priority with an admitted entry is the greatest one.\<close>

lemma find_greatest:
  fixes ps :: "int list"
  assumes "sorted_wrt (>) ps"
  shows "(find P ps = None \<longleftrightarrow> (\<forall>p\<in>set ps. \<not> P p)) \<and> (find P ps = Some p \<longrightarrow> p \<in> set ps \<and> P p \<and> (\<forall>q\<in>set ps. P q \<longrightarrow> q \<le> p))"
  using assms by (induction ps) (auto simp: less_imp_le)

lemma firstPriority_spec:
  assumes m: "indexOK m" and view: "\<And>p b. bucketOK m p b \<Longrightarrow>
      set (resolve (ms_entries m) (rv_flat (view b))) = {e. readyEntry m e \<and> sm_priority (se_meta e) = p \<and> Q e}"
  shows "firstPriority view predicate m = None \<Longrightarrow> readyEntry m e \<Longrightarrow> Q e \<Longrightarrow> \<not> predicate e"
    and "firstPriority view predicate m = Some p \<Longrightarrow> \<exists>e. readyEntry m e \<and> Q e \<and> predicate e \<and> sm_priority (se_meta e) = p"
    and "firstPriority view predicate m = Some p \<Longrightarrow> readyEntry m e \<Longrightarrow> Q e \<Longrightarrow> predicate e \<Longrightarrow> sm_priority (se_meta e) \<le> p"
proof -
  define P where "P q \<longleftrightarrow> (case m_get (ms_readyByPriority m) q of None \<Rightarrow> False
      | Some bucket \<Rightarrow> pickFirst predicate (resolve (ms_entries m) (rv_flat (view bucket))) \<noteq> None)" for q
  have P: "P q \<longleftrightarrow> (\<exists>e. readyEntry m e \<and> Q e \<and> predicate e \<and> sm_priority (se_meta e) = q)" for q
  proof (cases "m_get (ms_readyByPriority m) q")
    case None
    then have "readySet m q = {}" using m unfolding indexOK_def by (metis option.simps(4))
    then show ?thesis using None by (auto simp: P_def readySet_def readyEntry_def)
  next
    case (Some b)
    then have "bucketOK m q b" using m unfolding indexOK_def by (metis option.simps(5))
    from view [OF this] show ?thesis
      using Some by (auto simp: P_def pickFirst_def find_None_iff)
  qed
  have order: "sorted_wrt (>) (ms_priorityOrder m)" "set (ms_priorityOrder m) = {p. readySet m p \<noteq> {}}"
    using m by (auto simp: indexOK_def)
  have mem: "sm_priority (se_meta e) \<in> set (ms_priorityOrder m)" if "readyEntry m e" for e
    using that order(2) by (auto simp: readyEntry_def readySet_def)
  have first: "firstPriority view predicate m = find P (ms_priorityOrder m)"
    by (simp add: firstPriority_def P_def [abs_def])
  note g = find_greatest [OF order(1), of P]
  show "\<not> predicate e" if "firstPriority view predicate m = None" "readyEntry m e" "Q e"
    using that g P mem unfolding first by blast
  show "\<exists>e. readyEntry m e \<and> Q e \<and> predicate e \<and> sm_priority (se_meta e) = p" if "firstPriority view predicate m = Some p"
    using that g P unfolding first by blast
  show "sm_priority (se_meta e) \<le> p" if "firstPriority view predicate m = Some p" "readyEntry m e" "Q e" "predicate e"
    using that g P mem unfolding first by blast
qed

text \<open>What a pick promises: the credential of an admitted ready entry; among the entries with
  websockets if they are preferred and one is admitted, else among all, of the greatest priority.\<close>

definition pickOK :: "bool \<Rightarrow> (scheduledAuth \<Rightarrow> bool) \<Rightarrow> (scheduledAuth \<Rightarrow> bool) \<Rightarrow> Auth option \<Rightarrow> bool" where
  "pickOK preferWebsocket cand predicate picked \<longleftrightarrow>
     (case picked of
        None \<Rightarrow> (\<forall>e. cand e \<longrightarrow> \<not> predicate e)
      | Some a \<Rightarrow> (\<exists>e. a = se_auth e \<and> cand e \<and> predicate e \<and>
          (if preferWebsocket \<and> (\<exists>e. cand e \<and> predicate e \<and> sm_websocketEnabled (se_meta e))
           then sm_websocketEnabled (se_meta e) \<and>
             (\<forall>e'. cand e' \<and> predicate e' \<and> sm_websocketEnabled (se_meta e') \<longrightarrow> sm_priority (se_meta e') \<le> sm_priority (se_meta e))
           else \<forall>e'. cand e' \<and> predicate e' \<longrightarrow> sm_priority (se_meta e') \<le> sm_priority (se_meta e))))"

lemma pickAt_picks:
  assumes m: "indexOK m" and weights: "strategy = schedulerStrategyWeightedRoundRobin \<Longrightarrow> (\<And>e. predicate e \<Longrightarrow> 0 < sm_weight (se_meta e))"
    and some: "\<exists>e. readyEntry m e \<and> predicate e \<and> sm_priority (se_meta e) = p"
    and ws_def: "ws \<longleftrightarrow> pw \<and> (\<exists>e. readyEntry m e \<and> predicate e \<and> sm_priority (se_meta e) = p \<and> sm_websocketEnabled (se_meta e))"
  shows "\<exists>e. snd (pickReadyAtPriorityLocked pw p strategy predicate m) = Some (se_auth e) \<and> readyEntry m e \<and> predicate e \<and>
    sm_priority (se_meta e) = p \<and> (ws \<longrightarrow> sm_websocketEnabled (se_meta e))"
proof -
  obtain b where b: "m_get (ms_readyByPriority m) p = Some b" "bucketOK m p b"
  proof (cases "m_get (ms_readyByPriority m) p")
    case None
    then have "readySet m p = {}" using m unfolding indexOK_def by (metis option.simps(4))
    then show thesis using some by (auto simp: readySet_def readyEntry_def)
  next
    case (Some b)
    then have "bucketOK m p b" using m unfolding indexOK_def by (metis option.simps(5))
    then show thesis using that Some by blast
  qed
  note es = bucket_entries [OF b(2)]
  have ws: "usesWebsocketView pw predicate m b = ws"
    unfolding usesWebsocketView_def ws_def pickFirst_def using es(2) by (auto simp: find_None_iff)
  let ?v = "if ws then bk_ws b else bk_all b"
  have "picksFrom predicate (resolve (ms_entries m) (rv_flat ?v)) (snd (pickFromView (ms_entries m) strategy predicate ?v))"
    using weights by (rule pickFromView_picks)
  moreover have "\<exists>e\<in>set (resolve (ms_entries m) (rv_flat ?v)). predicate e"
    using es some by (cases ws) (auto simp: ws_def)
  ultimately obtain e where e: "snd (pickFromView (ms_entries m) strategy predicate ?v) = Some e"
      "e \<in> set (resolve (ms_entries m) (rv_flat ?v))" "predicate e"
    by (auto simp: picksFrom_def split: option.splits)
  then have "snd (pickReadyAtPriorityLocked pw p strategy predicate m) = Some (se_auth e)"
    using b(1) ws by (simp add: pickReadyAtPriorityLocked_def Let_def case_prod_beta)
  then show ?thesis using e(2,3) es by (cases ws) (auto intro: exI [of _ e])
qed

lemma highest_picks:
  assumes m: "indexOK m" and weights: "strategy = schedulerStrategyWeightedRoundRobin \<Longrightarrow> (\<And>e. predicate e \<Longrightarrow> 0 < sm_weight (se_meta e))"
  shows "pickOK pw (readyEntry m) predicate (case highestReadyPriorityLocked pw predicate m of
      None \<Rightarrow> None | Some p \<Rightarrow> snd (pickReadyAtPriorityLocked pw p strategy predicate m))"
proof -
  note all = firstPriority_spec [where view = bk_all and Q = "\<lambda>_. True" and predicate = predicate, OF m]
  note wss = firstPriority_spec [where view = bk_ws and Q = "\<lambda>e. sm_websocketEnabled (se_meta e)" and predicate = predicate, OF m]
  have A: "set (resolve (ms_entries m) (rv_flat (bk_all b))) = {e. readyEntry m e \<and> sm_priority (se_meta e) = p \<and> True}" if "bucketOK m p b" for p b
    using bucket_entries(1) [OF that] by simp
  show ?thesis
  proof (cases "pw \<and> firstPriority bk_ws predicate m \<noteq> None")
    case True
    then obtain p where p: "firstPriority bk_ws predicate m = Some p" by blast
    have h: "highestReadyPriorityLocked pw predicate m = Some p" using True p by (simp add: highestReadyPriorityLocked_def)
    from wss(2) [OF bucket_entries(2) p] obtain w where w: "readyEntry m w" "sm_websocketEnabled (se_meta w)" "predicate w" "sm_priority (se_meta w) = p" by blast
    with pickAt_picks [OF m weights _ refl, where p = p and pw = pw] True
    obtain e where e: "snd (pickReadyAtPriorityLocked pw p strategy predicate m) = Some (se_auth e)" "readyEntry m e" "predicate e"
        "sm_priority (se_meta e) = p" "sm_websocketEnabled (se_meta e)" by blast
    have "sm_priority (se_meta e') \<le> sm_priority (se_meta e)" if "readyEntry m e'" "predicate e'" "sm_websocketEnabled (se_meta e')" for e'
      using wss(3) [OF bucket_entries(2) p] that e(4) by blast
    then show ?thesis using True h e w by (auto simp: pickOK_def intro!: exI [of _ e])
  next
    case False
    then have h: "highestReadyPriorityLocked pw predicate m = firstPriority bk_all predicate m"
      by (auto simp: highestReadyPriorityLocked_def)
    have nows: "\<not> (pw \<and> (\<exists>e. readyEntry m e \<and> predicate e \<and> sm_websocketEnabled (se_meta e)))"
      using False wss(1) [OF bucket_entries(2)] by blast
    show ?thesis
    proof (cases "firstPriority bk_all predicate m")
      case None
      then show ?thesis using all(1) [OF A None] by (auto simp: h pickOK_def)
    next
      case (Some p)
      from all(2) [OF A Some] have "\<exists>e. readyEntry m e \<and> predicate e \<and> sm_priority (se_meta e) = p" by blast
      from pickAt_picks [OF m weights this refl, where pw = pw] obtain e where e: "snd (pickReadyAtPriorityLocked pw p strategy predicate m) = Some (se_auth e)"
          "readyEntry m e" "predicate e" "sm_priority (se_meta e) = p" by blast
      have "sm_priority (se_meta e') \<le> sm_priority (se_meta e)" if "readyEntry m e'" "predicate e'" for e'
        using all(3) [OF A Some] that e(4) by blast
      then show ?thesis using h Some e nows by (auto simp: pickOK_def intro!: exI [of _ e])
    qed
  qed
qed

end
