(* ===== verification/SchedulerPick.thy ===== *)
theory SchedulerPick
  imports SchedulerIndex ModelListing
begin

text \<open>
  The scheduler as its callers see it: in every reachable state a pick returns the best credential
  that can serve the request at that instant and fails only when there is none, for one provider
  and across providers, although its views are maintained incrementally.
\<close>

section \<open>The invariant of a provider\<close>

definition metaOK :: "string \<Rightarrow> scheduledAuthMeta \<Rightarrow> bool" where
  "metaOK i meta \<longleftrightarrow> i \<noteq> [] \<and> a_ID (sm_auth meta) = i \<and> sm_priority meta = authPriority (Some (sm_auth meta)) \<and>
     sm_weight meta = authWeight (Some (sm_auth meta)) \<and> sm_websocketEnabled meta = authWebsocketsEnabled (Some (sm_auth meta)) \<and>
     sm_providerKey meta = executorKeyFromAuth (sm_auth meta)"

definition providerOK :: "gotime \<Rightarrow> providerScheduler \<Rightarrow> bool" where
  "providerOK t p \<longleftrightarrow> m_ok (ps_auths p) \<and> (\<forall>i meta. m_get (ps_auths p) i = Some meta \<longrightarrow> metaOK i meta \<and> sm_providerKey meta = ps_providerKey p) \<and>
     (\<forall>k m. m_get (ps_modelShards p) k = Some m \<longrightarrow> shardOK (m_get (ps_auths p)) k t m)"

lemma providerOK_mono: "providerOK t p \<Longrightarrow> t \<le> t' \<Longrightarrow> providerOK t' p"
  unfolding providerOK_def using shardOK_mono by blast

lemma providerOK_new: "providerOK t \<lparr>ps_providerKey = k, ps_auths = [], ps_modelShards = []\<rparr>"
  by (simp add: providerOK_def)

lemma providerOK_upsert:
  assumes p: "providerOK t p" and meta: "metaOK i meta" and "0 \<le> now" and "t \<le> now" and key: "sm_providerKey meta = ps_providerKey p"
  shows "providerOK now (providerUpsertAuthLocked meta now p)"
proof -
  let ?p = "providerUpsertAuthLocked meta now p"
  have i: "a_ID (sm_auth meta) = i" "i \<noteq> []" using meta by (auto simp: metaOK_def)
  have auths: "ps_auths ?p = m_put i meta (ps_auths p)" by (simp add: providerUpsertAuthLocked_def i)
  have shards: "m_get (ps_modelShards ?p) k = map_option (\<lambda>m. if \<not> supportsModel meta k then removeEntryLocked i m else upsertEntryLocked meta now m)
      (m_get (ps_modelShards p) k)" for k
    unfolding i(1) [symmetric] by (simp add: providerUpsertAuthLocked_def
        m_get_map_snd [where f = "\<lambda>k m. if \<not> supportsModel meta k then removeEntryLocked (a_ID (sm_auth meta)) m else upsertEntryLocked meta now m"])
  have "shardOK (m_get (ps_auths ?p)) k now m'" if get: "m_get (ps_modelShards ?p) k = Some m'" for k m'
  proof -
    obtain m where m: "m_get (ps_modelShards p) k = Some m"
        and m': "m' = (if \<not> supportsModel meta k then removeEntryLocked i m else upsertEntryLocked meta now m)"
      using get by (auto simp: shards)
    have ok: "shardOK (m_get (ps_auths p)) k t m" using p m by (auto simp: providerOK_def)
    show ?thesis
    proof (cases "supportsModel meta k")
      case True
      then show ?thesis using shardOK_upsert [OF ok i(1) True assms(3,4)] by (simp add: m' auths del: fun_upd_apply)
    next
      case False
      have "shardOK (m_get (ps_auths ?p)) k t (removeEntryLocked i m)"
        by (rule shardOK_drop [OF ok i(2)]) (use False in \<open>auto simp: auths\<close>)
      then show ?thesis using False shardOK_mono [OF _ assms(4)] by (simp add: m')
    qed
  qed
  moreover have "metaOK j x \<and> sm_providerKey x = ps_providerKey ?p" if "m_get (ps_auths ?p) j = Some x" for j x
  proof -
    have "ps_providerKey ?p = ps_providerKey p" by (simp add: providerUpsertAuthLocked_def)
    then show ?thesis using that p meta key by (auto simp: auths providerOK_def split: if_splits)
  qed
  ultimately show ?thesis using p by (simp add: providerOK_def auths distinct_update)
qed

lemma providerOK_remove:
  assumes p: "providerOK t p"
  shows "providerOK t (providerRemoveAuthLocked i p)"
proof (cases "i = []")
  case True
  then show ?thesis using p by (simp add: providerRemoveAuthLocked_def)
next
  case False
  let ?p = "providerRemoveAuthLocked i p"
  have auths: "ps_auths ?p = m_del i (ps_auths p)" using False by (simp add: providerRemoveAuthLocked_def)
  have "shardOK (m_get (ps_auths ?p)) k t m'" if get: "m_get (ps_modelShards ?p) k = Some m'" for k m'
  proof -
    obtain m where m: "m_get (ps_modelShards p) k = Some m" and m': "m' = removeEntryLocked i m"
      using get False by (auto simp: providerRemoveAuthLocked_def m_get_map_snd [where f = "\<lambda>_ m. removeEntryLocked i m"])
    have ok: "shardOK (m_get (ps_auths p)) k t m" using p m by (auto simp: providerOK_def)
    show ?thesis unfolding m' by (rule shardOK_drop [OF ok False]) (auto simp: auths)
  qed
  moreover have "metaOK j x \<and> sm_providerKey x = ps_providerKey ?p" if "m_get (ps_auths ?p) j = Some x" for j x
    using that p by (auto simp: auths providerOK_def providerRemoveAuthLocked_def split: if_splits)
  ultimately show ?thesis using p by (simp add: providerOK_def auths distinct_delete)
qed

lemma shardOK_ignore:
  assumes m: "shardOK A k t m" and "A i = None" and "\<not> supportsModel meta k"
  shows "shardOK (A(i \<mapsto> meta)) k t m"
proof -
  have "entryOK (A(i \<mapsto> meta)) k t j e" if "entry m j = Some e" for j e
  proof -
    have "entryOK A k t j e" using m that by (auto simp: shardOK_def)
    moreover from this have "j \<noteq> i" using assms(2) by (auto simp: entryOK_def)
    ultimately show ?thesis by (auto intro: entryOK_table)
  qed
  then show ?thesis using m assms(3) by (auto simp: shardOK_def split: if_splits)
qed

definition classifiedAt :: "gotime \<Rightarrow> modelScheduler \<Rightarrow> bool" where
  "classifiedAt now m \<longleftrightarrow> (\<forall>i e. entry m i = Some e \<longrightarrow> (se_state e, se_nextRetryAt e) = classify (se_auth e) (ms_modelKey m) now)"

lemma classified_current: "classifiedAt now m \<Longrightarrow> currentAt now m"
  using classify_now unfolding classifiedAt_def currentAt_def by (metis fst_conv)

lemma buildShard_ok:
  assumes p: "providerOK t p" and now: "0 \<le> now"
  shows "shardOK (m_get (ps_auths p)) k now (buildShard k now p) \<and> classifiedAt now (buildShard k now p)"
proof -
  let ?f = "\<lambda>shard (_ :: string, meta). if \<not> supportsModel meta k then shard else upsertEntryLocked meta now shard"
  have "shardOK (m_get xs) k now (foldl ?f (newModelScheduler k) xs) \<and> classifiedAt now (foldl ?f (newModelScheduler k) xs)"
    if "m_ok xs" "\<forall>(i, meta)\<in>set xs. metaOK i meta" for xs
    using that
  proof (induction xs rule: rev_induct)
    case Nil
    show ?case using newModelScheduler_ok by (simp add: classifiedAt_def newModelScheduler_def)
  next
    case (snoc x xs)
    obtain i meta where x: "x = (i, meta)" by (cases x)
    let ?m = "foldl ?f (newModelScheduler k) xs"
    have ih: "shardOK (m_get xs) k now ?m" "classifiedAt now ?m" using snoc by auto
    have fresh: "m_get xs i = None" using snoc.prems(1) by (auto simp: x map_of_eq_None_iff)
    then have get: "m_get (xs @ [x]) = (m_get xs)(i \<mapsto> meta)" by (auto simp: x fun_eq_iff map_add_def split: option.splits)
    have i: "a_ID (sm_auth meta) = i" using snoc.prems(2) by (auto simp: x metaOK_def)
    show ?case
    proof (cases "supportsModel meta k")
      case True
      have "classifiedAt now (upsertEntryLocked meta now ?m)"
        using ih(2) by (auto simp: classifiedAt_def upsertEntry_entries split: if_splits)
      then show ?thesis unfolding get using True shardOK_upsert [OF ih(1) i True now] by (simp add: x del: fun_upd_apply)
    next
      case False
      then show ?thesis unfolding get using shardOK_ignore [OF ih(1) fresh False] ih(2) by (simp add: x del: fun_upd_apply)
    qed
  qed
  moreover have "m_ok (ps_auths p)" "\<forall>(i, meta)\<in>set (ps_auths p). metaOK i meta"
    using p by (auto simp: providerOK_def)
  ultimately show ?thesis unfolding buildShard_def by blast
qed

lemma ensureModel_ok:
  assumes p: "providerOK t p" and "0 \<le> now" and "t \<le> now" and r_def: "r = ensureModelLocked k now p"
  shows "providerOK now (fst r)" and "shardOK (m_get (ps_auths p)) (canonicalModelKey k) now (snd r)" and "currentAt now (snd r)"
    and "ps_auths (fst r) = ps_auths p" and "m_get (ps_modelShards (fst r)) (canonicalModelKey k) = Some (snd r)"
    and "ps_providerKey (fst r) = ps_providerKey p"
proof -
  have "shardOK (m_get (ps_auths p)) (canonicalModelKey k) now (snd r) \<and> currentAt now (snd r)"
  proof (cases "m_get (ps_modelShards p) (canonicalModelKey k)")
    case None
    then show ?thesis using buildShard_ok [OF p assms(2), of "canonicalModelKey k"] classified_current
      by (simp add: r_def ensureModelLocked_def Let_def)
  next
    case (Some m)
    then have "shardOK (m_get (ps_auths p)) (canonicalModelKey k) t m" using p by (simp add: providerOK_def)
    from shardOK_promote [OF this assms(3)] Some show ?thesis by (simp add: r_def ensureModelLocked_def Let_def)
  qed
  then show s: "shardOK (m_get (ps_auths p)) (canonicalModelKey k) now (snd r)" and "currentAt now (snd r)" by auto
  show auths: "ps_auths (fst r) = ps_auths p" and "m_get (ps_modelShards (fst r)) (canonicalModelKey k) = Some (snd r)"
    and key: "ps_providerKey (fst r) = ps_providerKey p"
    by (simp_all add: r_def ensureModelLocked_def Let_def)
  have "m_get (ps_modelShards (fst r)) = (m_get (ps_modelShards p))(canonicalModelKey k \<mapsto> snd r)"
    unfolding r_def ensureModelLocked_def Let_def fst_conv snd_conv by (simp del: fun_upd_apply)
  then show "providerOK now (fst r)"
    using s providerOK_mono [OF p assms(3)] by (auto simp: providerOK_def auths key split: if_splits)
qed

section \<open>The invariant of the scheduler\<close>

definition schedOK :: "gotime \<Rightarrow> authScheduler \<Rightarrow> bool" where
  "schedOK t s \<longleftrightarrow> 0 \<le> t \<and> (\<forall>k p. m_get (as_providers s) k = Some p \<longrightarrow> providerOK t p \<and> ps_providerKey p = k)"

lemma schedOK_mono: "schedOK t s \<Longrightarrow> t \<le> t' \<Longrightarrow> schedOK t' s"
  unfolding schedOK_def using providerOK_mono by (meson order_trans)

lemma schedOK_put:
  "schedOK t s \<Longrightarrow> providerOK t p \<Longrightarrow> ps_providerKey p = k \<Longrightarrow> as_providers s' = m_put k p (as_providers s) \<Longrightarrow> schedOK t s'"
  by (auto simp: schedOK_def split: if_splits)

lemma schedOK_cong: "schedOK t s \<Longrightarrow> as_providers s' = as_providers s \<Longrightarrow> schedOK t s'"
  by (simp add: schedOK_def)

lemma schedOK_provider: "schedOK t s \<Longrightarrow> m_get (as_providers s) k = Some p \<Longrightarrow> providerOK t p"
  by (simp add: schedOK_def)

lemma schedOK_key: "schedOK t s \<Longrightarrow> m_get (as_providers s) k = Some p \<Longrightarrow> ps_providerKey p = k"
  by (simp add: schedOK_def)

lemma schedOK_new: "schedOK 0 (newAuthScheduler sel)"
  by (simp add: schedOK_def newAuthScheduler_def)

lemma schedOK_setSelector: "schedOK t s \<Longrightarrow> schedOK t (setSelector sel s)"
  by (simp add: schedOK_def setSelector_def)

lemma schedOK_dropAuth:
  assumes "schedOK t s"
  shows "schedOK t (case m_get (as_providers s) k of None \<Rightarrow> s
    | Some p \<Rightarrow> s\<lparr>as_providers := m_put k (providerRemoveAuthLocked i p) (as_providers s)\<rparr>)"
proof (cases "m_get (as_providers s) k")
  case (Some p)
  have "providerOK t (providerRemoveAuthLocked i p)"
    using schedOK_provider [OF assms Some] by (rule providerOK_remove)
  moreover have "ps_providerKey (providerRemoveAuthLocked i p) = k"
    using schedOK_key [OF assms Some] by (simp add: providerRemoveAuthLocked_def)
  ultimately show ?thesis using schedOK_put [OF assms] Some by simp
qed (use assms in simp)

lemma schedOK_removeAuthLocked: "schedOK t s \<Longrightarrow> schedOK t (removeAuthLocked i s)"
  using schedOK_dropAuth [of t s "m_get0 [] (as_authProviders s) i" i]
  by (auto simp: removeAuthLocked_def Let_def intro: schedOK_cong)

lemma schedOK_removeAuth: "schedOK t s \<Longrightarrow> schedOK t (removeAuth i s)"
  by (simp add: removeAuth_def Let_def schedOK_removeAuthLocked)

lemma buildScheduledAuthMeta_ok: "trim_space (a_ID a) \<noteq> [] \<Longrightarrow> metaOK (a_ID a) (buildScheduledAuthMeta reg a)"
  by (auto simp: metaOK_def buildScheduledAuthMeta_def)

lemma schedOK_upsertAuthLocked:
  assumes s: "schedOK t s" and now: "t \<le> now"
  shows "schedOK now (upsertAuthLocked reg auth now s)"
proof (cases auth)
  case None
  then show ?thesis using schedOK_mono [OF s now] by (simp add: upsertAuthLocked_def)
next
  case (Some a)
  let ?i = "trim_space (a_ID a)" and ?k = "executorKeyFromAuth a"
  have t: "0 \<le> now" using s now by (auto simp: schedOK_def)
  show ?thesis
  proof (cases "?i = [] \<or> ?k = [] \<or> a_Disabled a")
    case True
    then show ?thesis
      using schedOK_mono [OF schedOK_removeAuthLocked [OF s] now, of ?i] by (auto simp: upsertAuthLocked_def Some Let_def)
  next
    case False
    define s1 where "s1 = (if m_get0 [] (as_authProviders s) ?i \<noteq> [] \<and> m_get0 [] (as_authProviders s) ?i \<noteq> ?k
      then (case m_get (as_providers s) (m_get0 [] (as_authProviders s) ?i) of None \<Rightarrow> s
        | Some p \<Rightarrow> s\<lparr>as_providers := m_put (m_get0 [] (as_authProviders s) ?i) (providerRemoveAuthLocked ?i p) (as_providers s)\<rparr>) else s)"
    define s2 where "s2 = s1\<lparr>as_authProviders := m_put ?i ?k (as_authProviders s1)\<rparr>"
    have s1: "schedOK t s1" using schedOK_dropAuth [OF s] s by (simp add: s1_def)
    then have s2: "schedOK t s2" by (simp add: s2_def schedOK_def)
    have "providerOK t (ensureProviderLocked ?k s2)"
      using schedOK_provider [OF s2] providerOK_new by (auto simp: ensureProviderLocked_def split: option.splits)
    moreover have key: "ps_providerKey (ensureProviderLocked ?k s2) = ?k"
      using schedOK_key [OF s2] by (auto simp: ensureProviderLocked_def split: option.splits)
    ultimately have up: "providerOK now (providerUpsertAuthLocked (buildScheduledAuthMeta reg a) now (ensureProviderLocked ?k s2))"
      using False by (intro providerOK_upsert [OF _ buildScheduledAuthMeta_ok t now]) (auto simp: buildScheduledAuthMeta_def)
    have "ps_providerKey (providerUpsertAuthLocked (buildScheduledAuthMeta reg a) now (ensureProviderLocked ?k s2)) = ?k"
      using key by (simp add: providerUpsertAuthLocked_def)
    from schedOK_put [OF schedOK_mono [OF s2 now] up this] show ?thesis
      using False by (simp add: upsertAuthLocked_def Some Let_def s1_def s2_def)
  qed
qed

lemma schedOK_rebuild:
  assumes "0 \<le> now"
  shows "schedOK now (rebuild reg auths now s)"
  unfolding rebuild_def
  by (rule foldl_invariant [where I = "schedOK now"]) (simp add: schedOK_def assms, erule schedOK_upsertAuthLocked, simp)

section \<open>Picks keep the invariant\<close>

lemma schedOK_ensureShard:
  assumes s: "schedOK t s" and now: "t \<le> now" and e: "ensureShard providerKey k now s = (s', shard)"
  shows "schedOK now s'"
    and "shard = Some m \<Longrightarrow> \<exists>p. m_get (as_providers s) providerKey = Some p \<and>
      shardOK (m_get (ps_auths p)) (canonicalModelKey k) now m \<and> currentAt now m"
    and "shard = None \<longleftrightarrow> m_get (as_providers s) providerKey = None"
proof -
  have t: "0 \<le> now" using s now by (auto simp: schedOK_def)
  show none: "shard = None \<longleftrightarrow> m_get (as_providers s) providerKey = None"
    using e by (auto simp: ensureShard_def split: option.splits prod.splits)
  show "schedOK now s'"
  proof (cases "m_get (as_providers s) providerKey")
    case None
    then show ?thesis using e schedOK_mono [OF s now] by (simp add: ensureShard_def)
  next
    case (Some p)
    note en = ensureModel_ok [OF schedOK_provider [OF s Some] t now refl, of k]
    show ?thesis using schedOK_put [OF schedOK_mono [OF s now] en(1)] e Some en(6) schedOK_key [OF s Some]
      by (auto simp: ensureShard_def case_prod_beta)
  qed
  show "\<exists>p. m_get (as_providers s) providerKey = Some p \<and> shardOK (m_get (ps_auths p)) (canonicalModelKey k) now m \<and> currentAt now m"
    if sh: "shard = Some m"
  proof -
    obtain p where p: "m_get (as_providers s) providerKey = Some p" using none sh by auto
    note en = ensureModel_ok [OF schedOK_provider [OF s p] t now refl, of k]
    then show ?thesis using e p sh by (auto simp: ensureShard_def case_prod_beta)
  qed
qed

lemma schedOK_storeShard:
  assumes s: "schedOK t s"
    and "\<And>p. m_get (as_providers s) providerKey = Some p \<Longrightarrow> shardOK (m_get (ps_auths p)) (ms_modelKey m) t m"
  shows "schedOK t (storeShard providerKey m s)"
proof (cases "m_get (as_providers s) providerKey")
  case (Some p)
  have "providerOK t (p\<lparr>ps_modelShards := m_put (ms_modelKey m) m (ps_modelShards p)\<rparr>)"
    using schedOK_provider [OF s Some] assms(2) [OF Some] by (auto simp: providerOK_def split: if_splits)
  from schedOK_put [OF s this] Some schedOK_key [OF s Some] show ?thesis by (simp add: storeShard_def)
qed (use s in \<open>simp add: storeShard_def\<close>)

lemma shardOK_pickAt:
  assumes "shardOK A k t m"
  shows "shardOK A k t (fst (pickReadyAtPriorityLocked pw p strategy predicate m))"
  using assms pickAt_shard [OF _ refl, of m pw p strategy predicate]
    entriesOK_cong [of "fst (pickReadyAtPriorityLocked pw p strategy predicate m)" m]
  by (simp add: shardOK_def)

lemma shardOK_pickReady:
  assumes "shardOK A k t m" and "t \<le> now"
  shows "shardOK A k now (fst (pickReadyLocked now pw strategy predicate m))"
  using shardOK_promote(1) [OF assms] shardOK_pickAt by (auto simp: pickReadyLocked_def Let_def split: option.splits)

lemma storeShard_providers:
  "m_get (as_providers (storeShard k m s)) j = (if j = k then map_option (\<lambda>p. p\<lparr>ps_modelShards := m_put (ms_modelKey m) m (ps_modelShards p)\<rparr>)
     (m_get (as_providers s) k) else m_get (as_providers s) j)"
  by (auto simp: storeShard_def split: option.splits)

lemma ensureShard_auths:
  assumes "ensureShard providerKey k now s = (s', shard)"
  shows "map_option ps_auths (m_get (as_providers s') j) = map_option ps_auths (m_get (as_providers s) j)"
proof (cases "m_get (as_providers s) providerKey")
  case (Some p)
  have "ps_auths (fst (ensureModelLocked k now p)) = ps_auths p" by (simp add: ensureModelLocked_def Let_def)
  then show ?thesis using assms Some by (auto simp: ensureShard_def case_prod_beta)
qed (use assms in \<open>auto simp: ensureShard_def\<close>)

lemma pickInShard_ok:
  assumes s: "schedOK t s" and p: "m_get (as_providers s) providerKey = Some p" and m: "shardOK (m_get (ps_auths p)) k t m"
    and now: "t \<le> now2" "now2 \<le> now3"
  shows "schedOK now3 (fst (pickInShard providerKey provider model pw strategy predicate now2 now3 m s))"
proof -
  let ?m = "fst (pickReadyLocked now2 pw strategy predicate m)"
  have m': "shardOK (m_get (ps_auths p)) k now2 ?m" by (rule shardOK_pickReady [OF m now(1)])
  then have "ms_modelKey ?m = k" by (simp add: shardOK_def)
  with m' p have "schedOK now2 (storeShard providerKey ?m s)"
    by (intro schedOK_storeShard schedOK_mono [OF s now(1)]) auto
  from schedOK_mono [OF this now(2)] show ?thesis
    by (simp add: pickInShard_def case_prod_beta Let_def split: option.splits)
qed

lemma schedOK_single:
  assumes s: "schedOK t s" and now: "t \<le> now1" "now1 \<le> now2" "now2 \<le> now3"
  shows "schedOK now3 (fst (pickSingleWithStrategy provider model rq strategy now1 now2 now3 s))"
proof -
  let ?k = "to_lower (trim_space provider)"
  obtain s' shard where e: "ensureShard ?k (canonicalModelKey model) now1 s = (s', shard)" by fastforce
  note en = schedOK_ensureShard [OF s now(1) e]
  show ?thesis
  proof (cases shard)
    case None
    then show ?thesis using e schedOK_mono [OF en(1)] now by (simp add: pickSingleWithStrategy_def Let_def)
  next
    case (Some m)
    from en(2) [OF Some] obtain p where p: "m_get (as_providers s) ?k = Some p"
        "shardOK (m_get (ps_auths p)) (canonicalModelKey (canonicalModelKey model)) now1 m" by blast
    obtain p' where p': "m_get (as_providers s') ?k = Some p'" "ps_auths p' = ps_auths p"
      using ensureShard_auths [OF e, of ?k] p(1) by auto
    show ?thesis
      using pickInShard_ok [OF en(1) p'(1) p(2) [folded p'(2)] now(2,3)] e Some
      by (simp add: pickSingleWithStrategy_def Let_def)
  qed
qed

section \<open>The best credential of one provider\<close>

text \<open>The credentials of a provider that can serve a model at an instant, by the table of the scheduler,
  and those a request admits.\<close>

definition servable :: "authScheduler \<Rightarrow> string \<Rightarrow> string \<Rightarrow> gotime \<Rightarrow> Auth \<Rightarrow> bool" where
  "servable s providerKey modelKey now a \<longleftrightarrow> (\<exists>p i meta. m_get (as_providers s) providerKey = Some p \<and>
     m_get (ps_auths p) i = Some meta \<and> sm_auth meta = a \<and> supportsModel meta modelKey \<and>
     \<not> fst (isAuthBlockedForModel (Some a) modelKey now))"

definition admitted :: "SchedRequest \<Rightarrow> string \<Rightarrow> schedulerStrategy \<Rightarrow> Auth \<Rightarrow> bool" where
  "admitted rq pinned strategy a \<longleftrightarrow> allows (authSelectionEligibilityForRequest rq) a \<and>
     (strategy = schedulerStrategyWeightedRoundRobin \<longrightarrow> 0 < authWeight (Some a)) \<and>
     (pinned \<noteq> [] \<longrightarrow> a_ID a = pinned) \<and> a_ID a \<notin> set (rq_tried rq)"

definition bestOf :: "bool \<Rightarrow> (Auth \<Rightarrow> bool) \<Rightarrow> Auth \<Rightarrow> bool" where
  "bestOf preferWebsocket C a \<longleftrightarrow> C a \<and>
     (if preferWebsocket \<and> (\<exists>b. C b \<and> authWebsocketsEnabled (Some b))
      then authWebsocketsEnabled (Some a) \<and>
        (\<forall>b. C b \<and> authWebsocketsEnabled (Some b) \<longrightarrow> authPriority (Some b) \<le> authPriority (Some a))
      else \<forall>b. C b \<longrightarrow> authPriority (Some b) \<le> authPriority (Some a))"

lemma requestPredicate_admitted:
  "sm_weight (se_meta e) = authWeight (Some (se_auth e)) \<Longrightarrow> requestPredicate rq pinned strategy e \<longleftrightarrow> admitted rq pinned strategy (se_auth e)"
  by (auto simp: requestPredicate_def scheduledAuthPredicate_def admitted_def)

lemma requestPredicate_weight:
  "strategy = schedulerStrategyWeightedRoundRobin \<Longrightarrow> requestPredicate rq pinned strategy e \<Longrightarrow> 0 < sm_weight (se_meta e)"
  by (auto simp: requestPredicate_def scheduledAuthPredicate_def split: if_splits)

text \<open>The ready entries of a current shard are the servable credentials.\<close>

lemma current_entries:
  assumes p: "providerOK t p" and m: "shardOK (m_get (ps_auths p)) k now m" and c: "currentAt now m"
  shows "readyEntry m e \<Longrightarrow> se_auth e = sm_auth (se_meta e) \<and> sm_priority (se_meta e) = authPriority (Some (se_auth e)) \<and>
      sm_weight (se_meta e) = authWeight (Some (se_auth e)) \<and> sm_websocketEnabled (se_meta e) = authWebsocketsEnabled (Some (se_auth e))"
    and "(\<exists>e. readyEntry m e \<and> se_auth e = a) \<longleftrightarrow> (\<exists>i meta. m_get (ps_auths p) i = Some meta \<and> sm_auth meta = a \<and> supportsModel meta k \<and>
      \<not> fst (isAuthBlockedForModel (Some a) k now))"
proof -
  have entry: "m_get (ps_auths p) i = Some (se_meta e)" "supportsModel (se_meta e) k" "se_auth e = sm_auth (se_meta e)" "metaOK i (se_meta e)"
    if "entry m i = Some e" for i e
  proof -
    have "entryOK (m_get (ps_auths p)) k now i e" using m that unfolding shardOK_def by blast
    then show "m_get (ps_auths p) i = Some (se_meta e)" "supportsModel (se_meta e) k" "se_auth e = sm_auth (se_meta e)"
      unfolding entryOK_def by auto
    then show "metaOK i (se_meta e)" using p by (auto simp: providerOK_def)
  qed
  have key: "ms_modelKey m = k" using m by (simp add: shardOK_def)
  have ready: "se_state e = scheduledStateReady \<longleftrightarrow> \<not> fst (isAuthBlockedForModel (Some (se_auth e)) k now)" if "entry m i = Some e" for i e
    using c that key unfolding currentAt_def by blast
  show "se_auth e = sm_auth (se_meta e) \<and> sm_priority (se_meta e) = authPriority (Some (se_auth e)) \<and>
      sm_weight (se_meta e) = authWeight (Some (se_auth e)) \<and> sm_websocketEnabled (se_meta e) = authWebsocketsEnabled (Some (se_auth e))"
    if "readyEntry m e" using that entry by (auto simp: readyEntry_def metaOK_def)
  show "(\<exists>e. readyEntry m e \<and> se_auth e = a) \<longleftrightarrow> (\<exists>i meta. m_get (ps_auths p) i = Some meta \<and> sm_auth meta = a \<and> supportsModel meta k \<and>
      \<not> fst (isAuthBlockedForModel (Some a) k now))"
  proof
    assume "\<exists>e. readyEntry m e \<and> se_auth e = a"
    then obtain i e where "entry m i = Some e" "se_state e = scheduledStateReady" "se_auth e = a" by (auto simp: readyEntry_def)
    with entry [of i e] ready [of i e] show "\<exists>i meta. m_get (ps_auths p) i = Some meta \<and> sm_auth meta = a \<and> supportsModel meta k \<and>
      \<not> fst (isAuthBlockedForModel (Some a) k now)" by auto
  next
    assume "\<exists>i meta. m_get (ps_auths p) i = Some meta \<and> sm_auth meta = a \<and> supportsModel meta k \<and> \<not> fst (isAuthBlockedForModel (Some a) k now)"
    then obtain i meta where i: "m_get (ps_auths p) i = Some meta" "sm_auth meta = a" "supportsModel meta k"
        "\<not> fst (isAuthBlockedForModel (Some a) k now)" by blast
    then have "entry m i \<noteq> None" using m unfolding shardOK_def by blast
    then obtain e where e: "entry m i = Some e" by auto
    with entry [OF e] i have "se_auth e = a" by auto
    then show "\<exists>e. readyEntry m e \<and> se_auth e = a" using e i(4) ready [OF e] by (auto simp: readyEntry_def)
  qed
qed

lemma pickOK_best:
  assumes p: "providerOK t p" and m: "shardOK (m_get (ps_auths p)) k now m" and c: "currentAt now m"
    and s: "m_get (as_providers s) providerKey = Some p"
    and ok: "pickOK pw (readyEntry m) (requestPredicate rq pinned strategy) picked"
  defines "C \<equiv> \<lambda>a. servable s providerKey k now a \<and> admitted rq pinned strategy a"
  shows "case picked of Some a \<Rightarrow> bestOf pw C a | None \<Rightarrow> \<forall>a. \<not> C a"
proof -
  note ce = current_entries [OF p m c]
  have C: "C a \<longleftrightarrow> (\<exists>e. readyEntry m e \<and> se_auth e = a \<and> requestPredicate rq pinned strategy e)" for a
  proof -
    have "servable s providerKey k now a \<longleftrightarrow> (\<exists>e. readyEntry m e \<and> se_auth e = a)"
      using ce(2) [of a] s by (auto simp: servable_def)
    then show ?thesis using ce(1) requestPredicate_admitted unfolding C_def by blast
  qed
  show ?thesis
  proof (cases picked)
    case None
    then show ?thesis using ok C by (auto simp: pickOK_def)
  next
    case (Some a)
    let ?P = "requestPredicate rq pinned strategy" and ?W = "\<lambda>e. sm_websocketEnabled (se_meta e)"
    from ok Some obtain e where e: "a = se_auth e" "readyEntry m e" "?P e"
      and best: "if pw \<and> (\<exists>e. readyEntry m e \<and> ?P e \<and> ?W e)
        then ?W e \<and> (\<forall>e'. readyEntry m e' \<and> ?P e' \<and> ?W e' \<longrightarrow> sm_priority (se_meta e') \<le> sm_priority (se_meta e))
        else \<forall>e'. readyEntry m e' \<and> ?P e' \<longrightarrow> sm_priority (se_meta e') \<le> sm_priority (se_meta e)"
      unfolding pickOK_def by auto
    have "(\<exists>b. C b \<and> authWebsocketsEnabled (Some b)) \<longleftrightarrow> (\<exists>e. readyEntry m e \<and> ?P e \<and> ?W e)"
      using C ce(1) by metis
    moreover have "C a" using C e by blast
    moreover have "\<exists>e'. readyEntry m e' \<and> ?P e' \<and> authPriority (Some b) = sm_priority (se_meta e') \<and> authWebsocketsEnabled (Some b) = ?W e'"
      if "C b" for b using C that ce(1) by metis
    moreover have "authPriority (Some a) = sm_priority (se_meta e)" "authWebsocketsEnabled (Some a) = ?W e"
      using ce(1) [OF e(2)] e(1) by auto
    ultimately show ?thesis using best unfolding Some bestOf_def option.simps(5) by (simp split: if_splits) metis+
  qed
qed

lemma pickReady_best:
  assumes p: "providerOK t p" and m: "shardOK (m_get (ps_auths p)) k t m" and now: "t \<le> now"
    and s: "m_get (as_providers s) providerKey = Some p"
    and C_def: "C = (\<lambda>a. servable s providerKey k now a \<and> admitted rq pinned strategy a)"
  shows "case snd (pickReadyLocked now pw strategy (requestPredicate rq pinned strategy) m) of
    Some a \<Rightarrow> bestOf pw C a | None \<Rightarrow> \<forall>a. \<not> C a"
proof -
  let ?m = "promoteExpiredLocked now m" and ?P = "requestPredicate rq pinned strategy"
  note pr = shardOK_promote [OF m now]
  have "indexOK ?m" using pr(1) by (simp add: shardOK_def)
  then have "pickOK pw (readyEntry ?m) ?P (case highestReadyPriorityLocked pw ?P ?m of
      None \<Rightarrow> None | Some p \<Rightarrow> snd (pickReadyAtPriorityLocked pw p strategy ?P ?m))"
    by (rule highest_picks) (rule requestPredicate_weight)
  then have "pickOK pw (readyEntry ?m) ?P (snd (pickReadyLocked now pw strategy ?P m))"
    by (simp add: pickReadyLocked_def Let_def split: option.splits)
  from pickOK_best [OF p pr s this] show ?thesis unfolding C_def .
qed

lemma servable_alt:
  "servable s k m now a \<longleftrightarrow> (\<exists>A i meta. map_option ps_auths (m_get (as_providers s) k) = Some A \<and> m_get A i = Some meta \<and>
     sm_auth meta = a \<and> supportsModel meta m \<and> \<not> fst (isAuthBlockedForModel (Some a) m now))"
  unfolding servable_def map_option_eq_Some by blast

lemma servable_auths:
  assumes "map_option ps_auths (m_get (as_providers s') k) = map_option ps_auths (m_get (as_providers s) k)"
  shows "servable s' k m now a = servable s k m now a"
  by (simp only: servable_alt assms)

lemma pickInShard_result:
  "snd (pickInShard providerKey provider model pw strategy predicate now2 now3 m s) =
    (case snd (pickReadyLocked now2 pw strategy predicate m) of Some a \<Rightarrow> Inr a
     | None \<Rightarrow> Inl (unavailableErrorLocked provider model now3 predicate (fst (pickReadyLocked now2 pw strategy predicate m))))"
  by (simp add: pickInShard_def case_prod_beta Let_def split: option.splits)

lemma single_best:
  assumes s: "schedOK t s" and now: "t \<le> now1" "now1 \<le> now2"
  shows "let providerKey = to_lower (trim_space provider); k = canonicalModelKey (canonicalModelKey model);
      pinned = pinnedAuthIDFromMetadata (rq_metadata rq); st = effectiveStrategy strategy s;
      pw = (rq_websocket rq \<and> providerPrefersWebsocketTransport providerKey \<and> pinned = []);
      C = (\<lambda>a. servable s providerKey k now2 a \<and> admitted rq pinned st a)
    in case snd (pickSingleWithStrategy provider model rq strategy now1 now2 now3 s) of Inr a \<Rightarrow> bestOf pw C a | Inl _ \<Rightarrow> \<forall>a. \<not> C a"
proof -
  define key where "key = to_lower (trim_space provider)"
  define pinned where "pinned = pinnedAuthIDFromMetadata (rq_metadata rq)"
  define pw where "pw \<longleftrightarrow> rq_websocket rq \<and> providerPrefersWebsocketTransport key \<and> pinned = []"
  define st where "st = effectiveStrategy strategy s"
  obtain s' shard where e: "ensureShard key (canonicalModelKey model) now1 s = (s', shard)" by fastforce
  note en = schedOK_ensureShard [OF s now(1) e]
  show ?thesis
  proof (cases shard)
    case None
    then have "m_get (as_providers s) key = None" using en(3) by simp
    then show ?thesis using e None by (simp add: pickSingleWithStrategy_def Let_def key_def servable_def)
  next
    case (Some m)
    from en(2) [OF Some] obtain p where p: "m_get (as_providers s) key = Some p"
        "shardOK (m_get (ps_auths p)) (canonicalModelKey (canonicalModelKey model)) now1 m" by blast
    have pk: "providerOK now1 p" using schedOK_provider [OF s p(1)] now(1) by (rule providerOK_mono)
    have "snd (pickSingleWithStrategy provider model rq strategy now1 now2 now3 s) =
        snd (pickInShard key provider model pw st (requestPredicate rq pinned st) now2 now3 m s')"
      using e Some by (simp add: pickSingleWithStrategy_def Let_def key_def pinned_def pw_def st_def)
    then show ?thesis
      using pickReady_best [OF pk p(2) now(2) p(1) refl, where pw = pw and rq = rq and pinned = pinned and strategy = st]
      by (simp add: Let_def pickInShard_result key_def pinned_def pw_def st_def split: option.splits)
  qed
qed

end
