(* ===== verification/SchedulerMixed.thy ===== *)
theory SchedulerMixed
  imports SchedulerPick
begin

text \<open>
  Picks over several providers: they keep the invariant of the scheduler, and without a pinned
  credential they return one of the best credentials of all providers. Then the reachable
  schedulers and the properties of the picks.
\<close>

section \<open>Mixed picks keep the invariant\<close>

lemma shardAt_ok:
  assumes "schedOK t s" and "shardAt k m s = Some shard"
  obtains p where "m_get (as_providers s) k = Some p" and "shardOK (m_get (ps_auths p)) (canonicalModelKey m) t shard"
  using assms by (auto simp: shardAt_def schedOK_def providerOK_def split: bind_splits)

lemma schedOK_ensureShards: "schedOK t s \<Longrightarrow> t \<le> now \<Longrightarrow> schedOK now (ensureShards ks m now s)"
proof -
  assume s: "schedOK t s" "t \<le> now"
  show ?thesis unfolding ensureShards_def
  proof (rule foldl_invariant [where I = "schedOK now"])
    show "schedOK now s" using s by (rule schedOK_mono)
    show "schedOK now (fst (ensureShard k m now s'))" if "schedOK now s'" for s' k
      using schedOK_ensureShard(1) [OF that order_refl] by (metis prod.collapse)
  qed
qed

lemma schedOK_mixedError: "schedOK t s \<Longrightarrow> t \<le> now \<Longrightarrow> schedOK now (fst (mixedError ks model now predicate s))"
  by (simp add: mixedError_def mixedUnavailableErrorLocked_def Let_def schedOK_ensureShards)

lemma schedOK_storePick:
  assumes s: "schedOK t s" and sh: "shardAt k m s = Some shard"
  shows "schedOK t (storeShard k (fst (pickReadyAtPriorityLocked pw p strategy predicate shard)) s)"
proof -
  obtain q where q: "m_get (as_providers s) k = Some q" "shardOK (m_get (ps_auths q)) (canonicalModelKey m) t shard"
    by (rule shardAt_ok [OF s sh])
  then have "shardOK (m_get (ps_auths q)) (canonicalModelKey m) t (fst (pickReadyAtPriorityLocked pw p strategy predicate shard))"
    by (intro shardOK_pickAt)
  then show ?thesis using q(1) by (intro schedOK_storeShard [OF s]) (auto simp: shardOK_def)
qed

lemma schedOK_pickAtPriority: "schedOK t s \<Longrightarrow> schedOK t (fst (pickAtPriority p strategy predicate m ks s))"
proof (induction ks arbitrary: s)
  case (Cons k ks)
  show ?case
  proof (cases "shardAt k m s")
    case (Some shard)
    then show ?thesis
      using Cons.IH schedOK_storePick [OF Cons.prems Some, of False p strategy predicate]
      by (auto simp: case_prod_beta split: option.splits prod.splits)
  qed (use Cons in simp)
qed simp

lemma schedOK_rotation:
  "schedOK t s \<Longrightarrow> schedOK t (fst (pickMixedRotation p predicate ck m ks ws st sl is s))"
proof (induction "is" arbitrary: s)
  case (Cons i "is")
  obtain s1 r where pk: "pickAtPriority p schedulerStrategyRoundRobin predicate m [ks ! i] s = (s1, r)" by fastforce
  have "schedOK t s1" using schedOK_pickAtPriority [OF Cons.prems, of p schedulerStrategyRoundRobin predicate m "[ks ! i]"] by (simp only: pk fst_conv)
  moreover from this have "schedOK t (s1\<lparr>as_mixedCursors := c\<rparr>)" for c by (simp add: schedOK_def)
  ultimately show ?case using Cons pk by (cases r) (auto simp: Let_def simp del: pickAtPriority.simps)
qed simp

lemma schedOK_mixedBest:
  assumes s: "schedOK t s" and now: "t \<le> now1" "now1 \<le> now3"
  shows "schedOK now3 (fst (pickMixedBest ks model rq strategy now1 now3 s))"
proof -
  let ?k = "canonicalModelKey model" and ?P = "requestPredicate rq [] strategy"
  let ?s = "ensureShards ks ?k now1 s"
  have s1: "schedOK now1 ?s" by (rule schedOK_ensureShards [OF s now(1)])
  have w: "schedOK now1 (fst (pickMixedWeighted ck p ks ?k ?P ?s))" for ck p
    using s1 by (simp add: pickMixedWeighted_def Let_def case_prod_beta schedOK_def)
  have r: "schedOK now1 (fst (pickMixedRoundRobin ck p ks ?k ?P ?s))" for ck p
    using s1 schedOK_rotation [OF s1] by (auto simp: pickMixedRoundRobin_def Let_def split: option.splits)
  note all = s1 w r schedOK_pickAtPriority [OF s1] schedOK_mono [OF _ now(2)] schedOK_mixedError [OF _ now(2)]
  show ?thesis
    using all by (auto simp: pickMixedBest_def Let_def case_prod_beta split: option.splits)
qed

lemma schedOK_mixed:
  assumes s: "schedOK t s" and now: "t \<le> now1" "now1 \<le> now2" "now2 \<le> now3"
  shows "schedOK now3 (fst (pickMixedWithStrategy providers model rq strategy now1 now2 now3 s))"
proof -
  have s3: "schedOK now3 s" using s now by (meson order_trans schedOK_mono)
  have single: "schedOK now3 (fst (liftPick k (pickSingleWithStrategy k model rq strategy now1 now2 now3 s)))" for k
    using schedOK_single [OF s now] by (simp add: liftPick_def)
  have best: "schedOK now3 (fst (pickMixedBest ks model rq st now1 now3 s))" for ks st
    using now by (intro schedOK_mixedBest [OF s]) auto
  have pinned: "schedOK now3 (fst (case ensureShard k (canonicalModelKey model) now1 s of
      (s, None) \<Rightarrow> (s, Inl (MixedPickError ErrAuthNotFound))
    | (s, Some shard) \<Rightarrow> liftPick k (pickInShard k ''mixed'' model False st P now2 now3 shard s)))" for k st P
  proof -
    obtain s' shard where e: "ensureShard k (canonicalModelKey model) now1 s = (s', shard)" by fastforce
    note en = schedOK_ensureShard [OF s now(1) e]
    show ?thesis
    proof (cases shard)
      case None
      then show ?thesis using e schedOK_mono [OF en(1)] now by simp
    next
      case (Some m)
      from en(2) [OF Some] obtain p where p: "m_get (as_providers s) k = Some p"
          "shardOK (m_get (ps_auths p)) (canonicalModelKey (canonicalModelKey model)) now1 m" by blast
      obtain p' where p': "m_get (as_providers s') k = Some p'" "ps_auths p' = ps_auths p"
        using ensureShard_auths [OF e, of k] p(1) by auto
      show ?thesis using pickInShard_ok [OF en(1) p'(1) p(2) [folded p'(2)] now(2,3)] e Some by (simp add: liftPick_def)
    qed
  qed
  show ?thesis
    using s3 single best pinned by (auto simp: pickMixedWithStrategy_def Let_def split: list.splits)
qed

section \<open>The best credential of several providers\<close>

lemma ensureShard_other: "ensureShard k m now s = (s', shard) \<Longrightarrow> j \<noteq> k \<Longrightarrow> m_get (as_providers s') j = m_get (as_providers s) j"
  by (auto simp: ensureShard_def case_prod_beta split: option.splits)

lemma ensureShard_at:
  assumes "ensureShard k m now s = (s', shard)"
  shows "shardAt k m s' = shard"
proof (cases "m_get (as_providers s) k")
  case (Some p)
  have "m_get (ps_modelShards (fst (ensureModelLocked m now p))) (canonicalModelKey m) = Some (snd (ensureModelLocked m now p))"
    by (simp add: ensureModelLocked_def Let_def)
  then show ?thesis using assms Some by (auto simp: ensureShard_def shardAt_def case_prod_beta)
qed (use assms in \<open>auto simp: ensureShard_def shardAt_def\<close>)

text \<open>\<open>mixOK\<close>: every listed provider of the scheduler has a current shard.\<close>

definition mixOK :: "gotime \<Rightarrow> string \<Rightarrow> string list \<Rightarrow> authScheduler \<Rightarrow> bool" where
  "mixOK now m ks s \<longleftrightarrow> schedOK now s \<and> (\<forall>k\<in>set ks. case shardAt k m s of
     None \<Rightarrow> m_get (as_providers s) k = None | Some shard \<Rightarrow> currentAt now shard)"

lemma ensureShards_mix:
  assumes s: "schedOK t s" and now: "t \<le> now"
  shows "mixOK now m ks (ensureShards ks m now s)"
    and "map_option ps_auths (m_get (as_providers (ensureShards ks m now s)) j) = map_option ps_auths (m_get (as_providers s) j)"
proof (induction ks rule: rev_induct)
  case Nil
  { case 1 then show ?case using schedOK_mono [OF s now] by (simp add: mixOK_def ensureShards_def) }
  { case 2 then show ?case by (simp add: ensureShards_def) }
next
  case (snoc k ks)
  let ?s = "ensureShards ks m now s"
  obtain s' shard where e: "ensureShard k m now ?s = (s', shard)" by fastforce
  have s': "ensureShards (ks @ [k]) m now s = s'" using e by (simp add: ensureShards_def)
  note en = schedOK_ensureShard [OF _ order_refl e]
  have ok: "schedOK now ?s" using snoc(1) by (simp add: mixOK_def)
  have at: "shardAt k m s' = shard" by (rule ensureShard_at [OF e])
  have other: "shardAt j m s' = shardAt j m ?s" if "j \<noteq> k" for j
    using ensureShard_other [OF e that] by (simp add: shardAt_def)
  {
    case 1
    have "case shardAt j m s' of None \<Rightarrow> m_get (as_providers s') j = None | Some shard \<Rightarrow> currentAt now shard"
      if "j \<in> set (ks @ [k])" for j
    proof (cases "j = k")
      case True
      have "m_get (as_providers s') k = None" if "shard = None"
        using that en(3) [OF ok] ensureShard_auths [OF e, of k] by auto
      then show ?thesis using True at en(2) [OF ok] by (auto split: option.splits)
    next
      case False
      then show ?thesis using that snoc(1) unfolding mixOK_def other [OF False] ensureShard_other [OF e False] by auto
    qed
    then show ?case using en(1) [OF ok] unfolding s' by (simp add: mixOK_def)
  next
    case 2
    then show ?case using snoc(2) ensureShard_auths [OF e] unfolding s' by simp
  }
qed

definition candidate :: "authScheduler \<Rightarrow> string \<Rightarrow> string \<Rightarrow> (scheduledAuth \<Rightarrow> bool) \<Rightarrow> scheduledAuth \<Rightarrow> bool" where
  "candidate s m k P e \<longleftrightarrow> (\<exists>shard. shardAt k m s = Some shard \<and> readyEntry shard e) \<and> P e"

lemma mix_index: "schedOK t s \<Longrightarrow> shardAt k m s = Some shard \<Longrightarrow> indexOK shard"
  by (erule (1) shardAt_ok) (simp add: shardOK_def)

lemma mix_servable:
  assumes mix: "mixOK now m ks s" and k: "k \<in> set ks" and P_def: "P = requestPredicate rq [] strategy"
  shows "servable s k (canonicalModelKey m) now a \<and> admitted rq [] strategy a \<longleftrightarrow> (\<exists>e. candidate s m k P e \<and> se_auth e = a)"
    and "candidate s m k P e \<Longrightarrow> sm_priority (se_meta e) = authPriority (Some (se_auth e)) \<and> sm_providerKey (se_meta e) = k"
proof -
  have ok: "schedOK now s" using mix by (simp add: mixOK_def)
  show "servable s k (canonicalModelKey m) now a \<and> admitted rq [] strategy a \<longleftrightarrow> (\<exists>e. candidate s m k P e \<and> se_auth e = a)"
  proof (cases "shardAt k m s")
    case None
    then have "m_get (as_providers s) k = None" using mix k unfolding mixOK_def by (metis option.simps(4))
    then show ?thesis using None by (simp add: servable_def candidate_def)
  next
    case (Some shard)
    obtain p where p: "m_get (as_providers s) k = Some p" "shardOK (m_get (ps_auths p)) (canonicalModelKey m) now shard"
      by (rule shardAt_ok [OF ok Some])
    have "currentAt now shard" using mix k Some unfolding mixOK_def by (metis option.simps(5))
    note ce = current_entries [OF schedOK_provider [OF ok p(1)] p(2) this]
    have "servable s k (canonicalModelKey m) now a \<longleftrightarrow> (\<exists>e. readyEntry shard e \<and> se_auth e = a)"
      using ce(2) [of a] p(1) by (auto simp: servable_def)
    then show ?thesis using ce(1) requestPredicate_admitted Some unfolding candidate_def P_def by auto
  qed
  show "sm_priority (se_meta e) = authPriority (Some (se_auth e)) \<and> sm_providerKey (se_meta e) = k" if c: "candidate s m k P e"
  proof -
    obtain shard i where sh: "shardAt k m s = Some shard" "entry shard i = Some e" using c by (auto simp: candidate_def readyEntry_def)
    obtain p where p: "m_get (as_providers s) k = Some p" "shardOK (m_get (ps_auths p)) (canonicalModelKey m) now shard"
      by (rule shardAt_ok [OF ok sh(1)])
    have "entryOK (m_get (ps_auths p)) (canonicalModelKey m) now i e" using p(2) sh(2) unfolding shardOK_def by blast
    then have "m_get (ps_auths p) i = Some (se_meta e)" "se_auth e = sm_auth (se_meta e)" by (auto simp: entryOK_def)
    moreover from this have "metaOK i (se_meta e)" "sm_providerKey (se_meta e) = ps_providerKey p"
      using schedOK_provider [OF ok p(1)] unfolding providerOK_def by blast+
    ultimately show ?thesis using schedOK_key [OF ok p(1)] by (simp add: metaOK_def)
  qed
qed

lemma pickAt_result:
  assumes m: "indexOK m" and weights: "strategy = schedulerStrategyWeightedRoundRobin \<Longrightarrow> (\<And>e. P e \<Longrightarrow> 0 < sm_weight (se_meta e))"
  shows "case snd (pickReadyAtPriorityLocked False p strategy P m) of
      Some a \<Rightarrow> \<exists>e. a = se_auth e \<and> readyEntry m e \<and> P e \<and> sm_priority (se_meta e) = p
    | None \<Rightarrow> \<forall>e. readyEntry m e \<and> P e \<longrightarrow> sm_priority (se_meta e) \<noteq> p"
proof (cases "m_get (ms_readyByPriority m) p")
  case None
  then have "readySet m p = {}" using m unfolding indexOK_def by (metis option.simps(4))
  then show ?thesis using None by (auto simp: pickReadyAtPriorityLocked_def readySet_def readyEntry_def)
next
  case (Some b)
  then have "bucketOK m p b" using m unfolding indexOK_def by (metis option.simps(5))
  note es = bucket_entries(1) [OF this]
  have "picksFrom P (resolve (ms_entries m) (rv_flat (bk_all b))) (snd (pickFromView (ms_entries m) strategy P (bk_all b)))"
    using weights by (rule pickFromView_picks)
  then show ?thesis using Some es
    by (auto simp: pickReadyAtPriorityLocked_def usesWebsocketView_def picksFrom_def Let_def case_prod_beta split: option.splits)
qed

lemma pickAtPriority_spec:
  assumes weights: "strategy = schedulerStrategyWeightedRoundRobin \<Longrightarrow> (\<And>e. P e \<Longrightarrow> 0 < sm_weight (se_meta e))"
  shows "\<lbrakk>\<And>k shard. k \<in> set ks \<Longrightarrow> shardAt k m s = Some shard \<Longrightarrow> indexOK shard; distinct ks\<rbrakk> \<Longrightarrow>
    case snd (pickAtPriority p strategy P m ks s) of
      Some (a, k) \<Rightarrow> k \<in> set ks \<and> (\<exists>e. a = se_auth e \<and> candidate s m k P e \<and> sm_priority (se_meta e) = p)
    | None \<Rightarrow> \<forall>k\<in>set ks. \<forall>e. candidate s m k P e \<longrightarrow> sm_priority (se_meta e) \<noteq> p"
proof (induction ks arbitrary: s)
  case (Cons k ks)
  show ?case
  proof (cases "shardAt k m s")
    case None
    have "case snd (pickAtPriority p strategy P m ks s) of
        Some (a, k) \<Rightarrow> k \<in> set ks \<and> (\<exists>e. a = se_auth e \<and> candidate s m k P e \<and> sm_priority (se_meta e) = p)
      | None \<Rightarrow> \<forall>k\<in>set ks. \<forall>e. candidate s m k P e \<longrightarrow> sm_priority (se_meta e) \<noteq> p"
      using Cons.prems by (intro Cons.IH) auto
    then show ?thesis using None by (auto simp: candidate_def [of s m k] split: option.splits)
  next
    case (Some shard)
    obtain shard' r where r: "pickReadyAtPriorityLocked False p strategy P shard = (shard', r)" by fastforce
    have res: "case r of Some a \<Rightarrow> \<exists>e. a = se_auth e \<and> readyEntry shard e \<and> P e \<and> sm_priority (se_meta e) = p
        | None \<Rightarrow> \<forall>e. readyEntry shard e \<and> P e \<longrightarrow> sm_priority (se_meta e) \<noteq> p"
      using pickAt_result [where m = shard and p = p and strategy = strategy and P = P, OF _ weights] Cons.prems(1) [of k shard] Some r
      by simp
    show ?thesis
    proof (cases r)
      case (Some a)
      then show ?thesis using r res \<open>shardAt k m s = Some shard\<close> by (auto simp: candidate_def)
    next
      case None
      let ?s = "storeShard k shard' s"
      have other: "shardAt j m ?s = shardAt j m s" if "j \<in> set ks" for j
        using that Cons.prems(2) by (auto simp: shardAt_def storeShard_providers)
      then have cand: "candidate ?s m j P e \<longleftrightarrow> candidate s m j P e" if "j \<in> set ks" for j e
        using that by (simp add: candidate_def)
      have "case snd (pickAtPriority p strategy P m ks ?s) of
          Some (a, k) \<Rightarrow> k \<in> set ks \<and> (\<exists>e. a = se_auth e \<and> candidate ?s m k P e \<and> sm_priority (se_meta e) = p)
        | None \<Rightarrow> \<forall>k\<in>set ks. \<forall>e. candidate ?s m k P e \<longrightarrow> sm_priority (se_meta e) \<noteq> p"
        using Cons.prems other by (intro Cons.IH) auto
      then show ?thesis using None r res \<open>shardAt k m s = Some shard\<close> cand
        by (auto simp: candidate_def [of s m k] split: option.splits)
    qed
  qed
qed simp

text \<open>The priorities the first loop collects.\<close>

lemma highest_spec:
  assumes "indexOK m"
  shows "highestReadyPriorityLocked False P m = None \<Longrightarrow> readyEntry m e \<Longrightarrow> \<not> P e"
    and "highestReadyPriorityLocked False P m = Some p \<Longrightarrow> \<exists>e. readyEntry m e \<and> P e \<and> sm_priority (se_meta e) = p"
    and "highestReadyPriorityLocked False P m = Some p \<Longrightarrow> readyEntry m e \<Longrightarrow> P e \<Longrightarrow> sm_priority (se_meta e) \<le> p"
proof -
  have A: "set (resolve (ms_entries m) (rv_flat (bk_all b))) = {e. readyEntry m e \<and> sm_priority (se_meta e) = p \<and> True}" if "bucketOK m p b" for p b
    using bucket_entries(1) [OF that] by simp
  note all = firstPriority_spec [where view = bk_all and Q = "\<lambda>_. True" and predicate = P, OF assms A]
  show "highestReadyPriorityLocked False P m = None \<Longrightarrow> readyEntry m e \<Longrightarrow> \<not> P e"
    and "highestReadyPriorityLocked False P m = Some p \<Longrightarrow> \<exists>e. readyEntry m e \<and> P e \<and> sm_priority (se_meta e) = p"
    and "highestReadyPriorityLocked False P m = Some p \<Longrightarrow> readyEntry m e \<Longrightarrow> P e \<Longrightarrow> sm_priority (se_meta e) \<le> p"
    using all by (auto simp: highestReadyPriorityLocked_def)
qed

lemma mixed_priority:
  assumes ok: "schedOK t s"
    and ps: "ps = List.map_filter (\<lambda>k. Option.bind (shardAt k m s) (highestReadyPriorityLocked False P)) ks"
  shows "bestPriority ps = None \<Longrightarrow> k \<in> set ks \<Longrightarrow> \<not> candidate s m k P e"
    and "bestPriority ps = Some b \<Longrightarrow> \<exists>k\<in>set ks. \<exists>e. candidate s m k P e \<and> sm_priority (se_meta e) = b"
    and "bestPriority ps = Some b \<Longrightarrow> k \<in> set ks \<Longrightarrow> candidate s m k P e \<Longrightarrow> sm_priority (se_meta e) \<le> b"
proof -
  have mem: "p \<in> set ps \<longleftrightarrow> (\<exists>k\<in>set ks. \<exists>shard. shardAt k m s = Some shard \<and> highestReadyPriorityLocked False P shard = Some p)" for p
    unfolding ps List.map_filter_def by (force split: bind_splits)
  note h = highest_spec [OF mix_index [OF ok], where P = P]
  have top: "\<exists>p\<in>set ps. sm_priority (se_meta e) \<le> p" if k: "k \<in> set ks" "candidate s m k P e" for k e
  proof -
    obtain shard where sh: "shardAt k m s = Some shard" "readyEntry shard e" "P e" using k(2) by (auto simp: candidate_def)
    then obtain p where p: "highestReadyPriorityLocked False P shard = Some p"
      using h(1) [OF sh(1)] by (cases "highestReadyPriorityLocked False P shard") auto
    then show ?thesis using mem k(1) sh h(3) [OF sh(1) p sh(2,3)] by blast
  qed
  show "\<not> candidate s m k P e" if "bestPriority ps = None" "k \<in> set ks"
    using that top [of k e] by (auto simp: bestPriority_Max split: if_splits)
  show "\<exists>k\<in>set ks. \<exists>e. candidate s m k P e \<and> sm_priority (se_meta e) = b" if "bestPriority ps = Some b"
  proof -
    have "b \<in> set ps" using that Max_in [of "set ps"] by (auto simp: bestPriority_Max split: if_splits)
    then show ?thesis using mem h(2) unfolding candidate_def by blast
  qed
  show "sm_priority (se_meta e) \<le> b" if b: "bestPriority ps = Some b" and k: "k \<in> set ks" "candidate s m k P e"
  proof -
    obtain p where "p \<in> set ps" "sm_priority (se_meta e) \<le> p" using top [OF k] by blast
    moreover have "p \<le> b" if "p \<in> set ps" for p
      using that b Max_ge [of "set ps" p] by (auto simp: bestPriority_Max split: if_splits)
    ultimately show ?thesis by (meson order_trans)
  qed
qed

text \<open>What each strategy returns at the best priority.\<close>

definition picksMixed :: "authScheduler \<Rightarrow> string \<Rightarrow> (scheduledAuth \<Rightarrow> bool) \<Rightarrow> int \<Rightarrow> string list \<Rightarrow> (Auth \<times> string) option \<Rightarrow> bool" where
  "picksMixed s m P b ks r \<longleftrightarrow> (\<exists>e k. k \<in> set ks \<and> candidate s m k P e \<and> sm_priority (se_meta e) = b \<and> r = Some (se_auth e, k))"

lemma mixedEntries_set:
  assumes ok: "schedOK t s"
  shows "e \<in> set (mixedEntries b m ks s) \<longleftrightarrow> (\<exists>k\<in>set ks. candidate s m k (\<lambda>_. True) e \<and> sm_priority (se_meta e) = b)"
proof -
  have shard: "e \<in> set (case shardAt k m s of None \<Rightarrow> []
      | Some shard \<Rightarrow> (case m_get (ms_readyByPriority shard) b of
          None \<Rightarrow> [] | Some bucket \<Rightarrow> resolve (ms_entries shard) (rv_flat (bk_all bucket))))
    \<longleftrightarrow> candidate s m k (\<lambda>_. True) e \<and> sm_priority (se_meta e) = b" for k
  proof (cases "shardAt k m s")
    case (Some shard)
    have idx: "indexOK shard" by (rule mix_index [OF ok Some])
    show ?thesis
    proof (cases "m_get (ms_readyByPriority shard) b")
      case None
      then have "readySet shard b = {}" using idx unfolding indexOK_def by (metis option.simps(4))
      then show ?thesis using None Some by (auto simp: candidate_def readySet_def readyEntry_def)
    next
      case (Some bk)
      then have "bucketOK shard b bk" using idx unfolding indexOK_def by (metis option.simps(5))
      from bucket_entries(1) [OF this] show ?thesis using Some \<open>shardAt k m s = Some shard\<close> by (auto simp: candidate_def)
    qed
  qed (simp add: candidate_def)
  show ?thesis unfolding mixedEntries_def set_sort set_concat set_map UN_iff image_image using shard by auto
qed

lemma weighted_mixed:
  assumes mix: "mixOK now m ks s" and P: "P = requestPredicate rq [] schedulerStrategyWeightedRoundRobin"
    and some: "\<exists>k\<in>set ks. \<exists>e. candidate s m k P e \<and> sm_priority (se_meta e) = b"
  shows "picksMixed s m P b ks (snd (pickMixedWeighted ck b ks m P s))"
proof -
  have ok: "schedOK now s" using mix by (simp add: mixOK_def)
  define es where "es = mixedEntries b m ks s"
  define cur where "cur = the (sw_current (prepare (m_get0 zeroWeightedState (as_mixedWeightedStates s) ck) (scheduledWeightVectorMatching es P)))"
  have snd: "snd (pickMixedWeighted ck b ks m P s) =
      map_option (\<lambda>e. (se_auth e, sm_providerKey (se_meta e))) (snd (pickSmoothWeightedScheduled es cur P))"
    by (simp add: pickMixedWeighted_def Let_def case_prod_beta es_def cur_def)
  have picks: "picksFrom P es (snd (pickSmoothWeightedScheduled es cur P))"
    unfolding P by (rule pickSmooth_picks) (rule requestPredicate_weight [OF refl])
  have "\<exists>e\<in>set es. P e" using some mixedEntries_set [OF ok, of _ b m ks] unfolding es_def candidate_def by blast
  then obtain e where e: "snd (pickSmoothWeightedScheduled es cur P) = Some e" "e \<in> set es" "P e"
    using picks by (auto simp: picksFrom_def split: option.splits)
  then obtain k where k: "k \<in> set ks" "candidate s m k P e" "sm_priority (se_meta e) = b"
    using mixedEntries_set [OF ok, of e b m ks] unfolding es_def candidate_def by blast
  have "sm_providerKey (se_meta e) = k" using mix_servable(2) [OF mix k(1) P k(2)] by simp
  then show ?thesis using snd e(1) k unfolding picksMixed_def by auto
qed

lemma go_mod_less: "0 < n \<Longrightarrow> go_mod c n < n"
proof -
  assume n: "0 < n"
  have "\<bar>c\<bar> mod n < n" using n by simp
  moreover have "go_mod c n = sgn c * (\<bar>c\<bar> mod n)"
  proof (cases "0 \<le> c")
    case True
    then show ?thesis using n by (cases "c = 0") (simp_all add: go_mod_nonneg)
  next
    case False
    then show ?thesis using n
      by (simp add: go_mod_def go_div_def minus_mult_div_eq_mod [symmetric] algebra_simps)
  qed
  ultimately show ?thesis using n by (cases "c < 0"; cases "c = 0") (auto simp: sgn_if intro: le_less_trans [of _ 0])
qed

lemma start_exists:
  fixes ws :: "int list"
  assumes nonneg: "\<forall>w\<in>set ws. 0 \<le> w" and slot: "slot < sum_list ws" and pos: "0 < sum_list ws"
  shows "\<exists>i<length ws. ws ! i \<noteq> 0 \<and> slot < segmentStart ws (Suc i)"
  using assms
proof (induction ws rule: rev_induct)
  case (snoc w ws)
  have nn: "0 \<le> sum_list ws" using snoc.prems(1) by (intro sum_list_nonneg) auto
  show ?case
  proof (cases "w = 0")
    case True
    then obtain i where "i < length ws" "ws ! i \<noteq> 0" "slot < segmentStart ws (Suc i)" using snoc by auto
    then show ?thesis by (intro exI [of _ i]) (auto simp: segmentStart_def nth_append)
  next
    case False
    then show ?thesis using snoc.prems by (intro exI [of _ "length ws"]) (auto simp: segmentStart_def)
  qed
qed simp

lemma readyCount_spec:
  assumes "indexOK m"
  shows "0 \<le> readyCountAtPriorityLocked False b P m"
    and "readyCountAtPriorityLocked False b P m \<noteq> 0 \<longleftrightarrow> (\<exists>e. readyEntry m e \<and> P e \<and> sm_priority (se_meta e) = b)"
proof -
  show "0 \<le> readyCountAtPriorityLocked False b P m"
    by (simp add: readyCountAtPriorityLocked_def Let_def split: option.splits)
  show "readyCountAtPriorityLocked False b P m \<noteq> 0 \<longleftrightarrow> (\<exists>e. readyEntry m e \<and> P e \<and> sm_priority (se_meta e) = b)"
  proof (cases "m_get (ms_readyByPriority m) b")
    case None
    then have "readySet m b = {}" using assms unfolding indexOK_def by (metis option.simps(4))
    then show ?thesis using None by (auto simp: readyCountAtPriorityLocked_def readySet_def readyEntry_def)
  next
    case (Some bk)
    then have "bucketOK m b bk" using assms unfolding indexOK_def by (metis option.simps(5))
    note es = bucket_entries(1) [OF this]
    have "readyCountAtPriorityLocked False b P m = int (length (filter P (resolve (ms_entries m) (rv_flat (bk_all bk)))))"
      using Some by (simp add: readyCountAtPriorityLocked_def usesWebsocketView_def)
    moreover have "filter P xs = [] \<longleftrightarrow> (\<forall>x\<in>set xs. \<not> P x)" for xs by (auto simp: filter_empty_conv)
    ultimately show ?thesis using es by auto
  qed
qed

lemma round_robin_mixed:
  assumes ok: "schedOK t s" and d: "distinct ks"
    and some: "\<exists>k\<in>set ks. \<exists>e. candidate s m k P e \<and> sm_priority (se_meta e) = b"
  shows "picksMixed s m P b ks (snd (pickMixedRoundRobin ck b ks m P s))"
proof -
  let ?n = "length ks"
  define wf where "wf k = (case shardAt k m s of None \<Rightarrow> 0 | Some shard \<Rightarrow> readyCountAtPriorityLocked False b P shard)" for k
  define ws where "ws = map wf ks"
  have cnt: "0 \<le> wf k" "wf k \<noteq> 0 \<longleftrightarrow> (\<exists>e. candidate s m k P e \<and> sm_priority (se_meta e) = b)" for k
    using readyCount_spec [OF mix_index [OF ok]] by (auto simp: wf_def candidate_def split: option.splits)
  have nonneg: "\<forall>w\<in>set ws. 0 \<le> w" using cnt(1) by (auto simp: ws_def)
  have "\<exists>w\<in>set ws. w \<noteq> 0" using some cnt(2) by (auto simp: ws_def)
  then have pos: "0 < sum_list ws" using nonneg
    by (metis less_le sum_list_nonneg sum_list_nonneg_eq_0_iff)
  define slot where "slot = go_mod (m_get0 0 (as_mixedCursors s) ck) (sum_list ws)"
  have "slot < sum_list ws" unfolding slot_def using pos by (rule go_mod_less)
  then obtain i where "i < ?n" "ws ! i \<noteq> 0 \<and> slot < segmentStart ws (Suc i)"
    using start_exists [OF nonneg _ pos, of slot] by (auto simp: ws_def)
  then have "find (\<lambda>i. ws ! i \<noteq> 0 \<and> slot < segmentStart ws (Suc i)) [0..<?n] \<noteq> None"
    unfolding find_None_iff by auto
  then obtain start where st: "find (\<lambda>i. ws ! i \<noteq> 0 \<and> slot < segmentStart ws (Suc i)) [0..<?n] = Some start" by auto
  then have start: "start < ?n" "ws ! start \<noteq> 0" by (auto dest!: find_Some_filter)
  let ?k = "ks ! start"
  have "wf ?k \<noteq> 0" using start by (simp add: ws_def)
  then obtain e where e: "candidate s m ?k P e" "sm_priority (se_meta e) = b" using cnt(2) by blast
  obtain s1 r where pk: "pickAtPriority b schedulerStrategyRoundRobin P m [?k] s = (s1, r)" by fastforce
  have "case snd (pickAtPriority b schedulerStrategyRoundRobin P m [?k] s) of
      Some (a, k) \<Rightarrow> k \<in> set [?k] \<and> (\<exists>e. a = se_auth e \<and> candidate s m k P e \<and> sm_priority (se_meta e) = b)
    | None \<Rightarrow> \<forall>k\<in>set [?k]. \<forall>e. candidate s m k P e \<longrightarrow> sm_priority (se_meta e) \<noteq> b"
    by (rule pickAtPriority_spec) (use mix_index [OF ok] in auto)
  then obtain e' where e': "r = Some (se_auth e', ?k)" "candidate s m ?k P e'" "sm_priority (se_meta e') = b"
    using e unfolding pk by (auto split: option.splits)
  have "map (\<lambda>offset. (start + offset) mod ?n) [0..<?n] = start # map (\<lambda>offset. (start + offset) mod ?n) [1..<?n]"
    using start(1) by (subst upt_conv_Cons) auto
  then have "snd (pickMixedRotation b P ck m ks ws start slot (map (\<lambda>offset. (start + offset) mod ?n) [0..<?n]) s) = r"
    using start(2) pk e'(1) by (simp add: Let_def del: pickAtPriority.simps)
  moreover have "snd (pickMixedRoundRobin ck b ks m P s) =
      snd (pickMixedRotation b P ck m ks ws start slot (map (\<lambda>offset. (start + offset) mod ?n) [0..<?n]) s)"
    using pos st unfolding slot_def ws_def wf_def by (simp add: pickMixedRoundRobin_def Let_def)
  ultimately show ?thesis using e' start(1) unfolding picksMixed_def by auto
qed

text \<open>A credential of the listed providers that can serve the request.\<close>

definition mixedCandidate :: "authScheduler \<Rightarrow> string list \<Rightarrow> string \<Rightarrow> gotime \<Rightarrow> SchedRequest \<Rightarrow> schedulerStrategy \<Rightarrow> string \<Rightarrow> Auth \<Rightarrow> bool" where
  "mixedCandidate s ks modelKey now rq strategy k a \<longleftrightarrow> k \<in> set ks \<and> servable s k modelKey now a \<and> admitted rq [] strategy a"

lemma mixed_best:
  assumes s: "schedOK t s" and now: "t \<le> now1" and d: "distinct ks"
    and C: "C = mixedCandidate s ks (canonicalModelKey (canonicalModelKey model)) now1 rq strategy"
  shows "case snd (pickMixedBest ks model rq strategy now1 now3 s) of
      Inr (a, k) \<Rightarrow> C k a \<and> (\<forall>k' b. C k' b \<longrightarrow> authPriority (Some b) \<le> authPriority (Some a))
    | Inl _ \<Rightarrow> \<forall>k a. \<not> C k a"
proof -
  let ?m = "canonicalModelKey model"
  define P where "P = requestPredicate rq [] strategy"
  define s1 where "s1 = ensureShards ks ?m now1 s"
  define ps where "ps = List.map_filter (\<lambda>k. Option.bind (shardAt k ?m s1) (highestReadyPriorityLocked False P)) ks"
  have mix: "mixOK now1 ?m ks s1" unfolding s1_def by (rule ensureShards_mix(1) [OF s now])
  then have ok: "schedOK now1 s1" by (simp add: mixOK_def)
  have C': "C k a \<longleftrightarrow> k \<in> set ks \<and> (\<exists>e. candidate s1 ?m k P e \<and> se_auth e = a)" for k a
  proof -
    have "servable s k (canonicalModelKey ?m) now1 a = servable s1 k (canonicalModelKey ?m) now1 a"
      unfolding s1_def by (rule servable_auths [symmetric]) (rule ensureShards_mix(2) [OF s now])
    then show ?thesis using mix_servable(1) [OF mix _ P_def, of k a] unfolding C mixedCandidate_def by blast
  qed
  note pr = mixed_priority [OF ok ps_def]
  show ?thesis
  proof (cases "bestPriority ps")
    case None
    have "snd (pickMixedBest ks model rq strategy now1 now3 s) = snd (mixedError ks model now3 P s1)"
      using None unfolding ps_def s1_def P_def by (simp add: pickMixedBest_def Let_def)
    then have "\<exists>e. snd (pickMixedBest ks model rq strategy now1 now3 s) = Inl e" by (simp add: mixedError_def case_prod_beta)
    moreover have "\<not> C k a" for k a using pr(1) [OF None] C' by blast
    ultimately show ?thesis by auto
  next
    case (Some b)
    let ?ck = "joinKeys ks @ '':'' @ ?m"
    have some: "\<exists>k\<in>set ks. \<exists>e. candidate s1 ?m k P e \<and> sm_priority (se_meta e) = b" by (rule pr(2) [OF Some])
    define r where "r = (if strategy = schedulerStrategyFillFirst then pickAtPriority b strategy P ?m ks s1
      else if strategy = schedulerStrategyWeightedRoundRobin then pickMixedWeighted ?ck b ks ?m P s1
      else pickMixedRoundRobin ?ck b ks ?m P s1)"
    have picks: "picksMixed s1 ?m P b ks (snd r)"
    proof (cases "strategy = schedulerStrategyFillFirst")
      case True
      have "case snd (pickAtPriority b strategy P ?m ks s1) of
          Some (a, k) \<Rightarrow> k \<in> set ks \<and> (\<exists>e. a = se_auth e \<and> candidate s1 ?m k P e \<and> sm_priority (se_meta e) = b)
        | None \<Rightarrow> \<forall>k\<in>set ks. \<forall>e. candidate s1 ?m k P e \<longrightarrow> sm_priority (se_meta e) \<noteq> b"
        by (rule pickAtPriority_spec) (use True mix_index [OF ok] d in auto)
      then show ?thesis using True some by (auto simp: r_def picksMixed_def split: option.splits)
    next
      case False
      then show ?thesis
        using weighted_mixed [OF mix _ some] round_robin_mixed [OF ok d some] by (simp add: r_def P_def)
    qed
    then obtain e k where e: "k \<in> set ks" "candidate s1 ?m k P e" "sm_priority (se_meta e) = b" "snd r = Some (se_auth e, k)"
      by (auto simp: picksMixed_def)
    have "pickMixedBest ks model rq strategy now1 now3 s = (case r of (s, picked) \<Rightarrow>
        (case picked of Some picked \<Rightarrow> (s, Inr picked) | None \<Rightarrow> mixedError ks model now3 P s))"
      using Some unfolding pickMixedBest_def Let_def P_def [symmetric] s1_def [symmetric] ps_def [symmetric] r_def
      by (simp only: option.simps)
    then have "snd (pickMixedBest ks model rq strategy now1 now3 s) = Inr (se_auth e, k)"
      using e(4) by (simp add: case_prod_beta)
    moreover have "C k (se_auth e)" using C' e by blast
    moreover have "authPriority (Some x) \<le> authPriority (Some (se_auth e))" if cx: "C k' x" for k' x
    proof -
      obtain e' where e': "k' \<in> set ks" "candidate s1 ?m k' P e'" "se_auth e' = x" using cx C' by blast
      have "sm_priority (se_meta e') \<le> b" by (rule pr(3) [OF Some e'(1,2)])
      then show ?thesis
        using mix_servable(2) [OF mix e'(1) P_def e'(2)] mix_servable(2) [OF mix e(1) P_def e(2)] e(3) e'(3) by simp
    qed
    ultimately show ?thesis by auto
  qed
qed

section \<open>Reachable schedulers\<close>

text \<open>\<open>sched_reach t s\<close>: the scheduler \<open>s\<close> is reached by operations whose clock readings do not go backwards
  and end at \<open>t\<close>. The registry an update reads is the one of that moment.\<close>

inductive sched_reach :: "gotime \<Rightarrow> authScheduler \<Rightarrow> bool" where
  new: "sched_reach 0 (newAuthScheduler sel)"
| set_selector: "sched_reach t s \<Longrightarrow> sched_reach t (setSelector sel s)"
| rebuilt: "sched_reach t s \<Longrightarrow> t \<le> now \<Longrightarrow> sched_reach now (rebuild (reg :: ListingRegistry) auths now s)"
| upserted: "sched_reach t s \<Longrightarrow> t \<le> now \<Longrightarrow> sched_reach now (upsertAuth (reg :: ListingRegistry) auth now s)"
| removed: "sched_reach t s \<Longrightarrow> sched_reach t (removeAuth authID s)"
| single: "sched_reach t s \<Longrightarrow> t \<le> now1 \<Longrightarrow> now1 \<le> now2 \<Longrightarrow> now2 \<le> now3 \<Longrightarrow>
    sched_reach now3 (fst (pickSingleWithStrategy provider model rq strategy now1 now2 now3 s))"
| mixed: "sched_reach t s \<Longrightarrow> t \<le> now1 \<Longrightarrow> now1 \<le> now2 \<Longrightarrow> now2 \<le> now3 \<Longrightarrow>
    sched_reach now3 (fst (pickMixedWithStrategy providers model rq strategy now1 now2 now3 s))"

lemma sched_reach_ok: "sched_reach t s \<Longrightarrow> schedOK t s"
proof (induction rule: sched_reach.induct)
  case (rebuilt t s now reg auths)
  then have "0 \<le> now" by (simp add: schedOK_def)
  then show ?case by (rule schedOK_rebuild)
qed (simp_all add: schedOK_new schedOK_setSelector schedOK_upsertAuthLocked schedOK_removeAuth schedOK_single schedOK_mixed)

section \<open>Properties\<close>

text \<open>
  C1: A pick for one provider returns the best credential of that instant. In every reachable
  scheduler, with a clock that does not go backwards, \<open>pickSingle\<close> returns a credential of the
  provider's table that supports the model, is not blocked for it at the time of the pick, and
  that the request admits (kind, free tier, pinned identifier, not tried yet, and a positive weight
  for the weighted strategy); it has the greatest priority of all such credentials, or, when
  websockets are preferred and such a credential has them, it has them and the greatest priority
  among those. It returns an error only when there is no such credential. So the views the
  scheduler maintains incrementally give what a scan of all credentials would give.\<close>
theorem scheduler_single_best:
  assumes "sched_reach t s" and "t \<le> now1" and "now1 \<le> now2"
  shows "let providerKey = to_lower (trim_space provider); k = canonicalModelKey (canonicalModelKey model);
      pinned = pinnedAuthIDFromMetadata (rq_metadata rq); st = effectiveStrategy strategy s;
      pw = (rq_websocket rq \<and> providerPrefersWebsocketTransport providerKey \<and> pinned = []);
      C = (\<lambda>a. servable s providerKey k now2 a \<and> admitted rq pinned st a)
    in case snd (pickSingleWithStrategy provider model rq strategy now1 now2 now3 s) of
         Inr a \<Rightarrow> bestOf pw C a | Inl _ \<Rightarrow> \<forall>a. \<not> C a"
  by (rule single_best [OF sched_reach_ok [OF assms(1)] assms(2,3)])

lemma normalizeProviderKeys_distinct: "distinct (normalizeProviderKeys ps)"
  unfolding normalizeProviderKeys_def
  by (rule foldl_invariant [where I = distinct]) (auto simp: normalizeStep_def Let_def)

text \<open>
  C13: A pick over two or more providers, without a pinned credential, returns a credential of one
  of these providers together with that provider: one that can serve the request at that instant,
  of the greatest priority over all these providers; and it returns an error only when no provider
  has a credential that can serve it. This holds for each of the strategies, although fill first
  walks the providers, round robin rotates over segments of ready counts and weighted round robin
  merges the shards.\<close>
theorem scheduler_mixed_best:
  assumes "sched_reach t s" and "t \<le> now1" and "2 \<le> length (normalizeProviderKeys providers)"
    and "pinnedAuthIDFromMetadata (rq_metadata rq) = []"
  shows "let C = mixedCandidate s (normalizeProviderKeys providers) (canonicalModelKey (canonicalModelKey model)) now1 rq
        (effectiveStrategy strategy s)
    in case snd (pickMixedWithStrategy providers model rq strategy now1 now2 now3 s) of
         Inr (a, k) \<Rightarrow> C k a \<and> (\<forall>k' b. C k' b \<longrightarrow> authPriority (Some b) \<le> authPriority (Some a))
       | Inl _ \<Rightarrow> \<forall>k a. \<not> C k a"
proof -
  obtain k1 k2 ks where ks: "normalizeProviderKeys providers = k1 # k2 # ks"
    using assms(3) by (cases "normalizeProviderKeys providers" rule: remdups_adj.cases) auto
  have "pickMixedWithStrategy providers model rq strategy now1 now2 now3 s =
      pickMixedBest (normalizeProviderKeys providers) model rq (effectiveStrategy strategy s) now1 now3 s"
    using assms(4) by (simp add: pickMixedWithStrategy_def ks Let_def)
  then show ?thesis
    using mixed_best [OF sched_reach_ok [OF assms(1)] assms(2) normalizeProviderKeys_distinct refl] by (simp add: Let_def)
qed

section \<open>Every ready credential is served\<close>

text \<open>A series of round-robin picks from one view.\<close>

fun roundRobinPicks :: "nat \<Rightarrow> (scheduledAuth \<Rightarrow> bool) \<Rightarrow> scheduledAuth list \<Rightarrow> int \<Rightarrow> scheduledAuth option list" where
  "roundRobinPicks 0 predicate flat cursor = []"
| "roundRobinPicks (Suc n) predicate flat cursor =
     (let (cursor', picked) = pickRoundRobin predicate flat cursor in picked # roundRobinPicks n predicate flat cursor')"

lemma nth_rotation: "start < length flat \<Longrightarrow> j < length flat \<Longrightarrow> rotate start flat ! j = flat ! ((start + j) mod length flat)"
  by (simp add: nth_rotate)

text \<open>One pick takes the first admitted entry of the view rotated to the cursor; the next round starts
  with that entry moved to the end.\<close>

lemma pick_rotates:
  assumes n: "flat \<noteq> []" and c: "0 \<le> cursor" and some: "filter P (rotate (nat cursor) flat) = x # xs"
  obtains c' where "pickRoundRobin P flat cursor = (c', Some x)" and "0 \<le> c'" and "filter P (rotate (nat c') flat) = xs @ [x]"
proof -
  let ?n = "length flat"
  define start where "start = nat cursor mod ?n"
  have start: "start < ?n" using n by (simp add: start_def)
  have gm: "nat (go_mod cursor (int ?n)) = start"
    using n c by (simp add: go_mod_nonneg start_def nat_mod_distrib)
  have rot: "rotate (nat cursor) flat = rotate start flat" unfolding start_def by (rule rotate_conv_mod)
  obtain ys zs where split: "rotate start flat = ys @ x # zs" "\<forall>y\<in>set ys. \<not> P y" "P x" "xs = filter P zs"
    using some unfolding rot filter_eq_Cons_iff by blast
  define j where "j = length ys"
  define index where "index = (start + j) mod ?n"
  have "length (rotate start flat) = length (ys @ x # zs)" using split(1) by simp
  then have j: "j < ?n" by (simp add: j_def)
  have at: "flat ! ((start + i) mod ?n) = (ys @ x # zs) ! i" if "i < ?n" for i
    using nth_rotation [OF start that] split(1) by simp
  have "find (\<lambda>i. P (flat ! i)) (map (\<lambda>offset. (start + offset) mod ?n) [0..<?n]) = Some index"
    unfolding find_Some_iff
  proof (intro exI [of _ j] conjI allI impI)
    fix i assume "i < j"
    then have "\<not> P (ys ! i)" using split(2) by (simp add: j_def)
    moreover have "flat ! ((start + i) mod ?n) = ys ! i" using at [of i] \<open>i < j\<close> j by (simp add: j_def nth_append)
    ultimately show "\<not> P (flat ! (map (\<lambda>offset. (start + offset) mod ?n) [0..<?n] ! i))" using \<open>i < j\<close> j by simp
  qed (use at [OF j] split(3) j in \<open>auto simp: index_def j_def\<close>)
  then have pick: "pickRoundRobin P flat cursor = (int index + 1, Some x)"
    using n at [OF j] by (simp add: pickRoundRobin_def gm index_def j_def)
  have "rotate (nat (int index + 1)) flat = rotate (start + j + 1) flat"
  proof -
    have "(index + 1) mod ?n = (start + j + 1) mod ?n" by (simp add: index_def mod_simps)
    then show ?thesis by (metis Suc_eq_plus1 nat_int_add of_nat_1 rotate_conv_mod)
  qed
  also have "\<dots> = rotate (j + 1) (rotate start flat)" by (simp add: rotate_rotate ac_simps)
  also have "\<dots> = zs @ ys @ [x]" using rotate_append [of "ys @ [x]" zs] by (simp add: split(1) j_def)
  finally have "filter P (rotate (nat (int index + 1)) flat) = xs @ [x]" using split by simp
  with pick show thesis by (intro that [of "int index + 1"]) auto
qed

lemma picks_round:
  assumes n: "flat \<noteq> []"
  shows "0 \<le> cursor \<Longrightarrow> filter P (rotate (nat cursor) flat) = xs @ ys \<Longrightarrow> roundRobinPicks (length xs) P flat cursor = map Some xs"
proof (induction xs arbitrary: cursor ys)
  case (Cons x xs)
  obtain c' where c': "pickRoundRobin P flat cursor = (c', Some x)" "0 \<le> c'" "filter P (rotate (nat c') flat) = (xs @ ys) @ [x]"
    by (rule pick_rotates [OF n Cons.prems(1)]) (use Cons.prems(2) in auto)
  then have "roundRobinPicks (length xs) P flat c' = map Some xs" by (intro Cons.IH [of c' "ys @ [x]"]) auto
  then show ?case using c'(1) by simp
qed simp

text \<open>
  C40: Round robin starves no credential. From any cursor, as many consecutive picks as there are
  ready entries the request admits return each of these entries exactly once, in the order of the
  view rotated to the cursor; in particular an admitted credential waits for fewer picks than there
  are admitted credentials.\<close>
theorem round_robin_serves_all:
  assumes "0 \<le> cursor"
  shows "roundRobinPicks (length (filter P flat)) P flat cursor = map Some (filter P (rotate (nat cursor) flat))"
proof (cases "flat = []")
  case False
  have "length (filter P (rotate k xs)) = length (filter P xs)" for k and xs :: "scheduledAuth list"
  proof (induction k)
    case (Suc k)
    have "length (filter P (rotate1 ys)) = length (filter P ys)" for ys :: "scheduledAuth list" by (cases ys) auto
    then show ?case using Suc by simp
  qed simp
  then show ?thesis using picks_round [OF False assms, of P "filter P (rotate (nat cursor) flat)" "[]"] by simp
qed simp

section \<open>Examples\<close>

text \<open>Two credentials of different providers serve the same model; the first is cooling down until the
  instant 20.\<close>

definition sampleAuthA :: Auth where
  "sampleAuthA = (new_auth ''a'' ''codex'')\<lparr>a_Attributes := [(''priority'', ''5'')], a_Unavailable := True, a_NextRetryAfter := 20\<rparr>"

definition sampleAuthB :: Auth where
  "sampleAuthB = new_auth ''b'' ''xai''"

definition sampleRequest :: SchedRequest where
  "sampleRequest = \<lparr>rq_requiredKind = [], rq_websocket = False, rq_metadata = [], rq_tried = []\<rparr>"

definition sampleScheduler :: authScheduler where
  "sampleScheduler = fst (pickSingleWithStrategy ''codex'' ''gpt-5'' sampleRequest schedulerStrategyCurrent 10 11 12
     (upsertAuth sampleListing (Some sampleAuthB) 5 (upsertAuth sampleListing (Some sampleAuthA) 4 (newAuthScheduler NilSelector))))"

lemma sampleScheduler_reach: "sched_reach 12 sampleScheduler"
proof -
  have "sched_reach 4 (upsertAuth sampleListing (Some sampleAuthA) 4 (newAuthScheduler NilSelector))"
    by (rule upserted [OF new]) simp
  then have "sched_reach 5 (upsertAuth sampleListing (Some sampleAuthB) 5 (upsertAuth sampleListing (Some sampleAuthA) 4 (newAuthScheduler NilSelector)))"
    by (rule upserted) simp
  then show ?thesis unfolding sampleScheduler_def by (rule single) simp_all
qed

theorem scheduler_single_best_witness:
  "sched_reach 12 sampleScheduler \<and>
   snd (pickSingleWithStrategy ''codex'' ''gpt-5'' sampleRequest schedulerStrategyCurrent 25 25 25 sampleScheduler) = Inr sampleAuthA \<and>
   bestOf False (\<lambda>a. servable sampleScheduler ''codex'' ''gpt-5'' 25 a \<and> admitted sampleRequest [] schedulerStrategyRoundRobin a) sampleAuthA"
proof -
  have pick: "snd (pickSingleWithStrategy ''codex'' ''gpt-5'' sampleRequest schedulerStrategyCurrent 25 25 25 sampleScheduler) = Inr sampleAuthA"
    by code_simp
  have keys: "to_lower (trim_space ''codex'') = ''codex''" "canonicalModelKey (canonicalModelKey ''gpt-5'') = ''gpt-5''"
    "pinnedAuthIDFromMetadata (rq_metadata sampleRequest) = []" "rq_websocket sampleRequest = False"
    "effectiveStrategy schedulerStrategyCurrent sampleScheduler = schedulerStrategyRoundRobin"
    by code_simp+
  show ?thesis
    using scheduler_single_best [OF sampleScheduler_reach, of 25 25 "''codex''" "''gpt-5''" sampleRequest schedulerStrategyCurrent 25]
      sampleScheduler_reach pick by (simp add: Let_def keys)
qed

theorem scheduler_mixed_best_witness:
  "sched_reach 12 sampleScheduler \<and>
   snd (pickMixedWithStrategy [''codex'', '' XAI''] ''gpt-5'' sampleRequest schedulerStrategyCurrent 15 15 15 sampleScheduler) = Inr (sampleAuthB, ''xai'') \<and>
   mixedCandidate sampleScheduler [''codex'', ''xai''] ''gpt-5'' 15 sampleRequest schedulerStrategyRoundRobin ''xai'' sampleAuthB"
proof -
  have pick: "snd (pickMixedWithStrategy [''codex'', '' XAI''] ''gpt-5'' sampleRequest schedulerStrategyCurrent 15 15 15 sampleScheduler) = Inr (sampleAuthB, ''xai'')"
    by code_simp
  have keys: "normalizeProviderKeys [''codex'', '' XAI''] = [''codex'', ''xai'']" "canonicalModelKey (canonicalModelKey ''gpt-5'') = ''gpt-5''"
    "pinnedAuthIDFromMetadata (rq_metadata sampleRequest) = []"
    "effectiveStrategy schedulerStrategyCurrent sampleScheduler = schedulerStrategyRoundRobin"
    by code_simp+
  show ?thesis
    using scheduler_mixed_best [OF sampleScheduler_reach, of 15 "[''codex'', '' XAI'']" sampleRequest "''gpt-5''" schedulerStrategyCurrent 15 15]
      sampleScheduler_reach pick by (simp add: Let_def keys)
qed

definition sampleEntry :: "Auth \<Rightarrow> scheduledAuth" where
  "sampleEntry a = \<lparr>se_meta = buildScheduledAuthMeta sampleListing a, se_auth = a, se_state = scheduledStateReady, se_nextRetryAt = 0\<rparr>"

theorem round_robin_serves_all_witness:
  "roundRobinPicks 2 (\<lambda>_. True) [sampleEntry sampleAuthA, sampleEntry sampleAuthB] 3 =
     [Some (sampleEntry sampleAuthB), Some (sampleEntry sampleAuthA)]"
proof -
  have "rotate 3 [sampleEntry sampleAuthA, sampleEntry sampleAuthB] = [sampleEntry sampleAuthB, sampleEntry sampleAuthA]"
    by (simp add: numeral_3_eq_3)
  then show ?thesis
    using round_robin_serves_all [of 3 "\<lambda>_. True" "[sampleEntry sampleAuthA, sampleEntry sampleAuthB]"] by (simp add: numeral_2_eq_2)
qed

end
