(* ===== verification/SchedulerWeighted.thy ===== *)
theory SchedulerWeighted
  imports SchedulerMixed
begin

text \<open>
  The weighted picks of the scheduler against those of the weighted selector: the scheduler's routine
  works on its entries with a predicate and drops stale accumulators before its loop, the
  selector's works on a list of credentials and drops them after; both make the same choice and
  leave the same accumulators.
\<close>

lemma filter_put: "k \<in> A \<Longrightarrow> filter (\<lambda>(i, _). i \<in> A) (m_put k v m) = m_put k v (filter (\<lambda>(i, _). i \<in> A) m)"
  by (induction m) auto

lemma get_filter_key: "m_get (filter (\<lambda>(i, _). i \<in> A) m) k = (if k \<in> A then m_get m k else None)"
  by (induction m) auto

text \<open>The loop of the selector on the admitted credentials simulates the loop of the scheduler.\<close>

definition loopSim :: "string set \<Rightarrow> SmoothLoop \<Rightarrow> ScheduledLoop \<Rightarrow> bool" where
  "loopSim A l sc \<longleftrightarrow> sc_current sc = filter (\<lambda>(i, _). i \<in> A) (sl_current l) \<and> map_option se_auth (sc_picked sc) = sl_picked l \<and>
     sc_pickedCurrent sc = sl_pickedCurrent l \<and> sc_totalWeight sc = sl_totalWeight l"

lemma loopSim_step:
  assumes sim: "loopSim A l sc" and w: "sm_weight (se_meta e) = authWeight (Some (se_auth e))"
    and A: "0 < sm_weight (se_meta e) \<Longrightarrow> a_ID (se_auth e) \<in> A" and P: "P e"
  shows "loopSim A (smoothStep l (se_auth e)) (scheduledStep P sc e)"
proof (cases "sm_weight (se_meta e) \<le> 0")
  case True
  then show ?thesis using sim w by (simp add: smoothStep_def scheduledStep_def)
next
  case False
  let ?i = "a_ID (se_auth e)"
  have "m_get0 0 (sc_current sc) ?i = m_get0 0 (sl_current l) ?i"
    using sim A False by (simp add: loopSim_def m_get0_def get_filter_key)
  moreover have "sc_picked sc = None \<longleftrightarrow> sl_picked l = None" using sim by (auto simp: loopSim_def)
  ultimately show ?thesis using sim w A False P
    by (auto simp: loopSim_def smoothStep_def scheduledStep_def Let_def filter_put)
qed

lemma loopSim_fold:
  "\<lbrakk>loopSim A l sc; \<And>e. e \<in> set es \<Longrightarrow> sm_weight (se_meta e) = authWeight (Some (se_auth e));
    \<And>e. e \<in> set es \<Longrightarrow> P e \<Longrightarrow> 0 < sm_weight (se_meta e) \<Longrightarrow> a_ID (se_auth e) \<in> A\<rbrakk> \<Longrightarrow>
   loopSim A (foldl smoothStep l (map se_auth (filter P es))) (foldl (scheduledStep P) sc es)"
proof (induction es arbitrary: l sc)
  case (Cons e es)
  show ?case
  proof (cases "P e")
    case True
    have "loopSim A (smoothStep l (se_auth e)) (scheduledStep P sc e)"
      using Cons.prems True by (intro loopSim_step) auto
    then show ?thesis using Cons True by simp
  next
    case False
    then have "scheduledStep P sc e = sc" by (simp add: scheduledStep_def)
    then show ?thesis using Cons False by simp
  qed
qed simp

lemma smooth_active:
  "set (sl_active (foldl smoothStep l as)) = set (sl_active l) \<union> a_ID ` {a \<in> set as. 0 < authWeight (Some a)}"
  by (induction as arbitrary: l) (auto simp: smoothStep_def Let_def)

text \<open>
  C31: The weighted pick of the scheduler is the weighted pick of the selector on the credentials
  the request admits: the same credential is chosen and the same accumulators remain, whatever
  the accumulators were. So what holds of the selector's smooth weighted round robin (every
  credential gets its share of each cycle) holds of the scheduler's.\<close>
theorem scheduled_weighted_is_selector:
  assumes weights: "list_all (\<lambda>e. sm_weight (se_meta e) = authWeight (Some (se_auth e))) es"
  shows "map_prod id (map_option se_auth) (pickSmoothWeightedScheduled es current P) = pickSmoothWeightedAuth (map se_auth (filter P es)) current"
proof -
  define A where "A = set (map (\<lambda>e. a_ID (se_auth e)) (filter (\<lambda>e. \<not> sm_weight (se_meta e) \<le> 0 \<and> P e) es))"
  define l where "l = foldl smoothStep \<lparr>sl_active = [], sl_current = current, sl_picked = None, sl_pickedCurrent = 0, sl_totalWeight = 0\<rparr>
    (map se_auth (filter P es))"
  define sc where "sc = foldl (scheduledStep P) \<lparr>sc_current = filter (\<lambda>(authID, _). authID \<in> A) current, sc_picked = None,
    sc_pickedCurrent = 0, sc_totalWeight = 0\<rparr> es"
  have w: "sm_weight (se_meta e) = authWeight (Some (se_auth e))" if "e \<in> set es" for e
    using weights that by (simp add: list_all_iff)
  have sim: "loopSim A l sc" unfolding l_def sc_def
    by (rule loopSim_fold) (auto simp: loopSim_def A_def w not_le)
  have active: "set (sl_active l) = A"
    unfolding l_def smooth_active A_def using w by (auto simp: not_le image_iff)
  have sched: "pickSmoothWeightedScheduled es current P = (case sc_picked sc of None \<Rightarrow> (sc_current sc, None)
      | Some picked \<Rightarrow> (m_put (a_ID (se_auth picked)) (saturatingAddInt64 (m_get0 0 (sc_current sc) (a_ID (se_auth picked))) (- sc_totalWeight sc))
          (sc_current sc), Some picked))"
    unfolding pickSmoothWeightedScheduled_def Let_def A_def [symmetric] sc_def [symmetric] ..
  have sel: "pickSmoothWeightedAuth (map se_auth (filter P es)) current =
      (case sl_picked l of None \<Rightarrow> (filter (\<lambda>(i, _). i \<in> A) (sl_current l), None)
       | Some picked \<Rightarrow> (m_put (a_ID picked) (saturatingAddInt64 (m_get0 0 (filter (\<lambda>(i, _). i \<in> A) (sl_current l)) (a_ID picked)) (- sl_totalWeight l))
          (filter (\<lambda>(i, _). i \<in> A) (sl_current l)), Some picked))"
    unfolding pickSmoothWeightedAuth_def Let_def l_def [symmetric] active ..
  have picked: "sl_picked l = map_option se_auth (sc_picked sc)"
    and current: "filter (\<lambda>(i, _). i \<in> A) (sl_current l) = sc_current sc"
    and total: "sl_totalWeight l = sc_totalWeight sc"
    using sim by (simp_all add: loopSim_def)
  show ?thesis unfolding sched sel picked current total by (cases "sc_picked sc") simp_all
qed

theorem scheduled_weighted_is_selector_witness:
  "let es = [sampleEntry sampleAuthA, sampleEntry sampleAuthB]; P = (\<lambda>_. True); current = [(''old'', 7), (''b'', 1)]
   in list_all (\<lambda>e. sm_weight (se_meta e) = authWeight (Some (se_auth e))) es \<and>
      map_prod id (map_option se_auth) (pickSmoothWeightedScheduled es current P) = pickSmoothWeightedAuth (map se_auth (filter P es)) current \<and>
      snd (pickSmoothWeightedAuth (map se_auth (filter P es)) current) = Some sampleAuthB"
proof -
  let ?es = "[sampleEntry sampleAuthA, sampleEntry sampleAuthB]"
  have w: "list_all (\<lambda>e. sm_weight (se_meta e) = authWeight (Some (se_auth e))) ?es"
    by (simp add: sampleEntry_def buildScheduledAuthMeta_def)
  have "snd (pickSmoothWeightedAuth (map se_auth (filter (\<lambda>_. True) ?es)) [(''old'', 7), (''b'', 1)]) = Some sampleAuthB"
    by code_simp
  then show ?thesis
    using w scheduled_weighted_is_selector [OF w, of "[(''old'', 7), (''b'', 1)]" "\<lambda>_. True"] by (simp add: Let_def)
qed

end
