(* ===== verification/Resp.thy ===== *)
theory Resp
  imports AnyValue
begin

text \<open>
  The RESP wire format on both sides of the usage queue: the reader and the writers of the server
  in \<open>backend/internal/api/redis_queue_protocol.go\<close> and the reader and the command encoder of the client in
  \<open>backend/internal/core/resp/client.go\<close>.

  A buffered reader is the list of the bytes that are still to come before the peer closes. A
  function that reads returns its outcome with the rest of the input; the outcome is a value, an
  error, or a panic of the runtime. A slice allocation panics when its length is negative or its
  size is above \<open>maxAlloc\<close>, the runtime's limit, which is a parameter. An \<open>int\<close> sum wraps.
\<close>

section \<open>Outcomes\<close>

datatype RespError =
    ErrEOF
  | ErrUnexpectedEOF
  | ErrProtocol
  | ErrRemote string
  | ErrNumber string string
  | ErrPrefix char
  | ErrClosed
  | ErrSubscribeMode
  | ErrNotSubscribed
  | ErrUnsupportedSubscribe
  | ErrUnexpected
  | ErrIO

datatype 'a outcome = Return 'a | Fail RespError | Panic

type_synonym 'a reading = "'a outcome \<times> string"

fun andThen :: "'a reading \<Rightarrow> ('a \<Rightarrow> string \<Rightarrow> 'b reading) \<Rightarrow> 'b reading" where
  "andThen (Return x, s) f = f x s"
| "andThen (Fail e, s) f = (Fail e, s)"
| "andThen (Panic, s) f = (Panic, s)"

fun mapReading :: "('a \<Rightarrow> 'b) \<Rightarrow> 'a reading \<Rightarrow> 'b reading" where
  "mapReading f (Return x, s) = (Return (f x), s)"
| "mapReading f (Fail e, s) = (Fail e, s)"
| "mapReading f (Panic, s) = (Panic, s)"

text \<open>The text of an error, with the quoted part of a number error written without escapes
  and without the reason.\<close>

fun respErrorText :: "RespError \<Rightarrow> string" where
  "respErrorText ErrEOF = ''EOF''"
| "respErrorText ErrUnexpectedEOF = ''unexpected EOF''"
| "respErrorText ErrProtocol = ''protocol error''"
| "respErrorText (ErrRemote line) = line"
| "respErrorText (ErrNumber f s) = ''strconv.'' @ f @ '': parsing '' @ [CHR 0x22] @ s @ [CHR 0x22]"
| "respErrorText (ErrPrefix c) = ''unsupported RESP prefix '' @ [CHR 0x27, c, CHR 0x27]"
| "respErrorText ErrClosed = ''RESP client is closed''"
| "respErrorText ErrSubscribeMode = ''RESP client is in subscribe mode''"
| "respErrorText ErrNotSubscribed = ''RESP client is not in subscribe mode''"
| "respErrorText ErrUnsupportedSubscribe = ''RESP server does not support SUBSCRIBE''"
| "respErrorText ErrUnexpected = ''unexpected RESP value''"
| "respErrorText ErrIO = ''i/o error''"

section \<open>The buffered reader\<close>

abbreviation CR :: char where "CR \<equiv> CHR 0x0D"
abbreviation LF :: char where "LF \<equiv> CHR 0x0A"
abbreviation CRLF :: string where "CRLF \<equiv> [CR, LF]"

definition trim_suffix :: "string \<Rightarrow> string \<Rightarrow> string" where
  "trim_suffix s suf = (if has_suffix s suf then take (length s - length suf) s else s)"

fun ReadByte :: "string \<Rightarrow> char reading" where
  "ReadByte [] = (Fail ErrEOF, [])"
| "ReadByte (c # s) = (Return c, s)"

fun ReadString :: "char \<Rightarrow> string \<Rightarrow> string reading" where
  "ReadString d [] = (Fail ErrEOF, [])"
| "ReadString d (c # s) = (if c = d then (Return [c], s) else mapReading ((#) c) (ReadString d s))"

definition ReadFull :: "nat \<Rightarrow> string \<Rightarrow> string reading" where
  "ReadFull n s =
     (if n \<le> length s then (Return (take n s), drop n s)
      else if s = [] then (Fail ErrEOF, []) else (Fail ErrUnexpectedEOF, []))"

definition makeSlice :: "int \<Rightarrow> int \<Rightarrow> int \<Rightarrow> bool" where
  "makeSlice maxAlloc elemSize n \<longleftrightarrow> 0 \<le> n \<and> elemSize * n \<le> maxAlloc"

abbreviation stringSize :: int where "stringSize \<equiv> 16"
abbreviation interfaceSize :: int where "interfaceSize \<equiv> 16"

section \<open>The server's reader\<close>

definition readRESPLine :: "string \<Rightarrow> string reading" where
  "readRESPLine s = mapReading (\<lambda>line. trim_suffix (trim_suffix line [LF]) [CR]) (ReadString LF s)"

definition readRESPBulkString :: "int \<Rightarrow> string \<Rightarrow> string reading" where
  "readRESPBulkString maxAlloc s = andThen (readRESPLine s) (\<lambda>line s.
     (case parse_int64 line of
        None \<Rightarrow> (Fail ErrProtocol, s)
      | Some len \<Rightarrow>
          if len < 0 then (Return [], s)
          else if \<not> makeSlice maxAlloc 1 (wrap64 (len + 2)) then (Panic, s)
          else andThen (ReadFull (nat (wrap64 (len + 2))) s) (\<lambda>buf s.
            if wrap64 (len + 2) < 2 \<or> buf ! nat len \<noteq> CR \<or> buf ! nat (len + 1) \<noteq> LF
            then (Fail ErrProtocol, s) else (Return (take (nat len) buf), s))))"

definition readRESPString :: "int \<Rightarrow> string \<Rightarrow> string reading" where
  "readRESPString maxAlloc s = andThen (ReadByte s) (\<lambda>prefix s.
     if prefix = CHR ''$'' then readRESPBulkString maxAlloc s
     else if prefix = CHR ''+'' \<or> prefix = CHR '':'' then readRESPLine s
     else (Fail ErrProtocol, s))"

primrec readRESPArgs :: "int \<Rightarrow> nat \<Rightarrow> string \<Rightarrow> string list reading" where
  "readRESPArgs maxAlloc 0 s = (Return [], s)"
| "readRESPArgs maxAlloc (Suc n) s = andThen (readRESPString maxAlloc s) (\<lambda>value s.
     mapReading ((#) value) (readRESPArgs maxAlloc n s))"

definition readRESPArray :: "int \<Rightarrow> string \<Rightarrow> string list reading" where
  "readRESPArray maxAlloc s = andThen (ReadByte s) (\<lambda>prefix s.
     if prefix \<noteq> CHR ''*'' then (Fail ErrProtocol, s)
     else andThen (readRESPLine s) (\<lambda>line s.
       case parse_int64 line of
         None \<Rightarrow> (Fail ErrProtocol, s)
       | Some count \<Rightarrow>
           if count < 0 then (Fail ErrProtocol, s)
           else if \<not> makeSlice maxAlloc stringSize count then (Panic, s)
           else readRESPArgs maxAlloc (nat count) s))"

section \<open>The server's writers\<close>

text \<open>A writer yields the bytes it appends; a payload that may be nil is an option.\<close>

definition writeRedisSimpleString :: "string \<Rightarrow> string" where
  "writeRedisSimpleString value = ''+'' @ value @ CRLF"

definition writeRedisError :: "string \<Rightarrow> string" where
  "writeRedisError message = ''-'' @ message @ CRLF"

definition writeRedisNilBulkString :: string where
  "writeRedisNilBulkString = ''$-1'' @ CRLF"

definition writeRedisBulkString :: "string option \<Rightarrow> string" where
  "writeRedisBulkString payload =
     (case payload of
        None \<Rightarrow> writeRedisNilBulkString
      | Some p \<Rightarrow> ''$'' @ format_int (int (length p)) @ CRLF @ p @ CRLF)"

definition writeRedisArrayHeader :: "int \<Rightarrow> string" where
  "writeRedisArrayHeader count = ''*'' @ format_int count @ CRLF"

definition writeRedisInteger :: "int \<Rightarrow> string" where
  "writeRedisInteger value = '':'' @ format_int value @ CRLF"

definition writeRedisArrayOfBulkStrings :: "string list \<Rightarrow> string" where
  "writeRedisArrayOfBulkStrings items =
     ''*'' @ format_int (int (length items)) @ CRLF @ concat (map (\<lambda>p. writeRedisBulkString (Some p)) items)"

definition writeRedisPubSubSubscribe :: "string \<Rightarrow> int \<Rightarrow> string" where
  "writeRedisPubSubSubscribe channel count =
     writeRedisArrayHeader 3 @ writeRedisBulkString (Some ''subscribe'') @ writeRedisBulkString (Some channel) @ writeRedisInteger count"

definition writeRedisPubSubUnsubscribe :: "string \<Rightarrow> int \<Rightarrow> string" where
  "writeRedisPubSubUnsubscribe channel count =
     writeRedisArrayHeader 3 @ writeRedisBulkString (Some ''unsubscribe'') @ writeRedisBulkString (Some channel) @ writeRedisInteger count"

definition writeRedisPubSubMessage :: "string \<Rightarrow> string \<Rightarrow> string" where
  "writeRedisPubSubMessage channel payload =
     writeRedisArrayHeader 3 @ writeRedisBulkString (Some ''message'') @ writeRedisBulkString (Some channel) @ writeRedisBulkString (Some payload)"

definition writeRedisPubSubPong :: "string option \<Rightarrow> string" where
  "writeRedisPubSubPong payload =
     writeRedisArrayHeader 2 @ writeRedisBulkString (Some ''pong'') @ writeRedisBulkString payload"

section \<open>The client's encoder and reader\<close>

definition encodeCommand :: "string list \<Rightarrow> string" where
  "encodeCommand args =
     ''*'' @ format_int (int (length args)) @ CRLF
     @ concat (map (\<lambda>arg. ''$'' @ format_int (int (length arg)) @ CRLF @ arg @ CRLF) args)"

datatype respValue = VNil | VStr string | VInt int | VArr "respValue list"

definition readLine :: "string \<Rightarrow> string reading" where
  "readLine s = mapReading (\<lambda>line. trim_suffix (trim_suffix line [LF]) [CR]) (ReadString LF s)"

definition readLength :: "string \<Rightarrow> int reading" where
  "readLength s = andThen (readLine s) (\<lambda>line s.
     case parse_int64 line of None \<Rightarrow> (Fail (ErrNumber ''Atoi'' line), s) | Some n \<Rightarrow> (Return n, s))"

definition readBulkString :: "int \<Rightarrow> string \<Rightarrow> respValue reading" where
  "readBulkString maxAlloc s = andThen (readLength s) (\<lambda>len s.
     if len < 0 then (Return VNil, s)
     else if \<not> makeSlice maxAlloc 1 (wrap64 (len + 2)) then (Panic, s)
     else mapReading (\<lambda>data. VStr (take (nat len) data)) (ReadFull (nat (wrap64 (len + 2))) s))"

text \<open>\<open>readValue\<close> and the loop of \<open>readArray\<close> call each other. The recursion ends because every value
  consumes its prefix.\<close>

function (sequential) readValue :: "int \<Rightarrow> string \<Rightarrow> respValue reading"
  and readElements :: "int \<Rightarrow> nat \<Rightarrow> string \<Rightarrow> respValue list reading" where
  "readValue maxAlloc [] = (Fail ErrEOF, [])"
| "readValue maxAlloc (tag # s) =
     (if tag = CHR ''+'' then mapReading VStr (readLine s)
      else if tag = CHR ''-'' then andThen (readLine s) (\<lambda>line s. (Fail (ErrRemote line), s))
      else if tag = CHR '':'' then andThen (readLine s) (\<lambda>line s.
        case parse_int64 line of None \<Rightarrow> (Fail (ErrNumber ''ParseInt'' line), s) | Some n \<Rightarrow> (Return (VInt n), s))
      else if tag = CHR ''$'' then readBulkString maxAlloc s
      else if tag = CHR ''*'' then
        (case readLength s of
           (Fail e, s) \<Rightarrow> (Fail e, s)
         | (Panic, s) \<Rightarrow> (Panic, s)
         | (Return n, s) \<Rightarrow>
             if n < 0 then (Return VNil, s)
             else if \<not> makeSlice maxAlloc interfaceSize n then (Panic, s)
             else mapReading VArr (readElements maxAlloc (nat n) s))
      else if tag = CHR ''_'' then mapReading (\<lambda>_. VNil) (readLine s)
      else (Fail (ErrPrefix tag), s))"
| "readElements maxAlloc 0 s = (Return [], s)"
| "readElements maxAlloc (Suc n) s =
     (case readValue maxAlloc s of
        (Fail e, s) \<Rightarrow> (Fail e, s)
      | (Panic, s) \<Rightarrow> (Panic, s)
      | (Return v, s) \<Rightarrow> mapReading ((#) v) (readElements maxAlloc n s))"
  by pat_completeness auto

text \<open>No reader gives back more than it got.\<close>

lemma rest_mapReading [simp]: "snd (mapReading f r) = snd r"
  by (cases r; cases "fst r") auto

lemma rest_andThen: "(\<And>x s. length (snd (f x s)) \<le> length s) \<Longrightarrow> length (snd r) \<le> n \<Longrightarrow> length (snd (andThen r f)) \<le> n"
  by (cases r; cases "fst r") (auto intro: order_trans)

lemma rest_ReadString: "length (snd (ReadString d s)) \<le> length s"
  by (induction s) auto

lemma rest_ReadFull: "length (snd (ReadFull n s)) \<le> length s"
  by (simp add: ReadFull_def)

lemma rest_readLine: "length (snd (readLine s)) \<le> length s"
  by (simp add: readLine_def rest_ReadString)

lemma rest_readLength: "length (snd (readLength s)) \<le> length s"
  unfolding readLength_def by (intro rest_andThen rest_readLine) (auto split: option.split)

lemma rest_readBulkString: "length (snd (readBulkString maxAlloc s)) \<le> length s"
  unfolding readBulkString_def by (intro rest_andThen rest_readLength) (auto simp: rest_ReadFull)

lemma rest_psimps:
  "readValue_readElements_dom (Inl (m, s)) \<Longrightarrow> length (snd (readValue m s)) \<le> length s"
  "readValue_readElements_dom (Inr (m, n, s')) \<Longrightarrow> length (snd (readElements m n s')) \<le> length s'"
proof (induction m s and m n s' rule: readValue_readElements.pinduct)
  case (1 m)
  then show ?case by (simp add: readValue.psimps)
next
  case (2 m tag s)
  show ?case
  proof (cases "tag = CHR ''*''")
    case True
    show ?thesis
    proof (cases "readLength s")
      case (Pair r s1)
      have le: "length s1 \<le> length s" using rest_readLength [of s] Pair by simp
      show ?thesis
      proof (cases "\<exists>k. r = Return k \<and> \<not> k < 0 \<and> makeSlice m interfaceSize k")
        case True
        then obtain k where k: "r = Return k" "\<not> k < 0" "makeSlice m interfaceSize k" by blast
        with 2 Pair \<open>tag = CHR ''*''\<close> have "length (snd (readElements m (nat k) s1)) \<le> length s1" by simp
        with 2(1) Pair k le \<open>tag = CHR ''*''\<close> show ?thesis by (simp add: readValue.psimps)
      next
        case False
        with 2(1) Pair le \<open>tag = CHR ''*''\<close> show ?thesis by (cases r) (auto simp: readValue.psimps)
      qed
    qed
  next
    case False
    have "length (snd (andThen (readLine s) f)) \<le> Suc (length s)" if "\<And>x s. length (snd (f x s)) \<le> length s" for f :: "string \<Rightarrow> string \<Rightarrow> respValue reading"
      using that rest_readLine [of s] by (intro rest_andThen) auto
    with 2(1) False rest_readLine [of s] rest_readBulkString [of m s] show ?thesis
      by (auto simp: readValue.psimps split: option.split)
  qed
next
  case (3 m s)
  then show ?case by (simp add: readElements.psimps)
next
  case (4 m n s)
  show ?case
  proof (cases "readValue m s")
    case (Pair r s1)
    with 4 have le: "length s1 \<le> length s" by simp
    show ?thesis
    proof (cases r)
      case (Return v)
      with 4 Pair have "length (snd (readElements m n s1)) \<le> length s1" by simp
      with 4(1) Pair Return le show ?thesis by (simp add: readElements.psimps)
    qed (use 4(1) Pair le in \<open>simp_all add: readElements.psimps\<close>)
  qed
qed

lemma readValue_total: "All readValue_readElements_dom"
proof (relation "measures [\<lambda>x. case x of Inl (_, s) \<Rightarrow> length s | Inr (_, _, s) \<Rightarrow> length s,
    \<lambda>x. case x of Inl _ \<Rightarrow> 0 | Inr (_, n, _) \<Rightarrow> Suc n]", goal_cases)
  case (2 m tag s r s1 n)
  then have "snd (readLength s) = s1" by (metis snd_conv)
  with rest_readLength [of s] show ?case by simp
next
  case (4 m n s r s1 v)
  then have "snd (readValue m s) = s1" by (metis snd_conv)
  with 4 rest_psimps(1) [of m s] show ?case by auto
qed simp_all

termination readValue
  by (rule readValue_total)

lemma rest_readValue: "length (snd (readValue m s)) \<le> length s"
  by (rule rest_psimps(1)) (rule readValue_total [THEN spec])

lemma rest_readElements: "length (snd (readElements m n s)) \<le> length s"
  by (rule rest_psimps(2)) (rule readValue_total [THEN spec])

text \<open>A read of a value consumes input, so a loop over values ends when the input does.\<close>

lemma readValue_consumes: "s \<noteq> [] \<Longrightarrow> length (snd (readValue m s)) < length s"
proof (cases s)
  case (Cons tag t)
  have "length (snd (andThen (readLine t) f)) \<le> length t" if "\<And>x s. length (snd (f x s)) \<le> length s" for f :: "string \<Rightarrow> string \<Rightarrow> respValue reading"
    using that rest_readLine [of t] by (intro rest_andThen) auto
  moreover have "length (snd (case readLength t of (Fail e, s) \<Rightarrow> (Fail e, s) | (Panic, s) \<Rightarrow> (Panic, s)
      | (Return n, s) \<Rightarrow> if n < 0 then (Return VNil, s) else if \<not> makeSlice m interfaceSize n then (Panic, s)
          else mapReading VArr (readElements m (nat n) s))) \<le> length t"
    using rest_readLength [of t] by (auto split: prod.splits outcome.splits intro: order_trans [OF rest_readElements])
  ultimately show ?thesis using Cons rest_readLine [of t] rest_readBulkString [of m t]
    by (auto simp: less_Suc_eq_le split: option.split)
qed simp

section \<open>Round trips\<close>

lemma format_int_no_LF [simp]: "LF \<notin> set (format_int n)" and format_int_no_CR [simp]: "CR \<notin> set (format_int n)"
proof -
  have "CHR 0x0A \<notin> set (format_nat k) \<and> CHR 0x0D \<notin> set (format_nat k)" for k
    using format_nat_digits [of k] by (auto simp: list_all_iff is_digit_def less_eq_char_def)
  then show "LF \<notin> set (format_int n)" and "CR \<notin> set (format_int n)" by (simp_all add: format_int_def)
qed

lemma ReadString_line: "LF \<notin> set line \<Longrightarrow> ReadString LF (line @ LF # rest) = (Return (line @ [LF]), rest)"
  by (induction line) auto

lemma trim_suffix_append [simp]: "trim_suffix (s @ suf) suf = s"
  by (simp add: trim_suffix_def suffix_def)

lemma readLine_CRLF [simp]: "LF \<notin> set line \<Longrightarrow> readLine (line @ CR # LF # rest) = (Return line, rest)"
  using ReadString_line [of "line @ [CR]" rest] trim_suffix_append [of "line @ [CR]" "[LF]"]
  by (simp add: readLine_def)

lemma readRESPLine_is_readLine: "readRESPLine = readLine"
  by (simp add: fun_eq_iff readRESPLine_def readLine_def)

lemma readRESPLine_CRLF [simp]: "LF \<notin> set line \<Longrightarrow> readRESPLine (line @ CR # LF # rest) = (Return line, rest)"
  by (simp add: readRESPLine_is_readLine)

lemma ReadFull_payload [simp]:
  "ReadFull (Suc (Suc (length p))) (p @ CR # LF # rest) = (Return (p @ CRLF), rest)"
  by (simp add: ReadFull_def)

text \<open>What fits the limits of the runtime: a payload with its terminator, a list of elements.\<close>

definition fits :: "int \<Rightarrow> string \<Rightarrow> bool" where
  "fits maxAlloc p \<longleftrightarrow> maxAlloc \<le> max_int64 \<and> int (length p) + 2 \<le> maxAlloc"

definition fitsAll :: "int \<Rightarrow> string list \<Rightarrow> bool" where
  "fitsAll maxAlloc ps \<longleftrightarrow> maxAlloc \<le> max_int64 \<and> list_all (fits maxAlloc) ps \<and> stringSize * int (length ps) \<le> maxAlloc"

lemma fits_length:
  assumes "fits maxAlloc p"
  shows "parse_int64 (format_int (int (length p))) = Some (int (length p))"
    and "wrap64 (int (length p) + 2) = int (length p) + 2" and "makeSlice maxAlloc 1 (int (length p) + 2)"
  using assms by (simp_all add: fits_def parse_format_int wrap64_id in64_def makeSlice_def)

lemma nat_len2: "nat (int n + 2) = Suc (Suc n)"
  by simp

lemma server_reads_bulk:
  assumes "fits maxAlloc p"
  shows "readRESPBulkString maxAlloc (format_int (int (length p)) @ CR # LF # p @ CR # LF # rest) = (Return p, rest)"
  using fits_length [OF assms] by (simp add: readRESPBulkString_def nat_len2 nth_append nat_add_distrib)

lemma server_reads_args:
  assumes "list_all (fits maxAlloc) args"
  shows "readRESPArgs maxAlloc (length args)
     (concat (map (\<lambda>arg. ''$'' @ format_int (int (length arg)) @ CRLF @ arg @ CRLF) args) @ rest) = (Return args, rest)"
  using assms by (induction args) (simp_all add: readRESPString_def server_reads_bulk)

text \<open>The server reads the commands of the client as they were given, whatever bytes they hold.\<close>

lemma server_reads_command:
  assumes "fitsAll maxAlloc args"
  shows "readRESPArray maxAlloc (encodeCommand args @ rest) = (Return args, rest)"
proof -
  have "parse_int64 (format_int (int (length args))) = Some (int (length args))"
    using assms by (intro parse_format_int) (simp add: fitsAll_def in64_def)
  then show ?thesis
    using assms server_reads_args [of maxAlloc args rest]
    by (simp add: readRESPArray_def encodeCommand_def fitsAll_def makeSlice_def)
qed

text \<open>The client reads what the server writes.\<close>

lemma client_reads_length [simp]:
  "in64 n \<Longrightarrow> readLength (format_int n @ CR # LF # rest) = (Return n, rest)"
  by (simp add: readLength_def parse_format_int)

lemma client_reads_bulk:
  assumes "fits maxAlloc p"
  shows "readValue maxAlloc (writeRedisBulkString (Some p) @ rest) = (Return (VStr p), rest)"
proof -
  have "in64 (int (length p))" using assms by (simp add: fits_def in64_def)
  then show ?thesis
    using fits_length [OF assms] by (simp add: writeRedisBulkString_def readBulkString_def nat_len2)
qed

lemma client_reads_nil [simp]: "readValue maxAlloc (writeRedisNilBulkString @ rest) = (Return VNil, rest)"
proof -
  have "format_int (-1) = ''-1''" by code_simp
  then have "readLength (''-1'' @ CR # LF # rest) = (Return (-1), rest)"
    using client_reads_length [of "-1" rest] by (simp add: in64_def)
  then show ?thesis by (simp add: writeRedisNilBulkString_def readBulkString_def)
qed

lemma client_reads_integer: "in64 n \<Longrightarrow> readValue maxAlloc (writeRedisInteger n @ rest) = (Return (VInt n), rest)"
  by (simp add: writeRedisInteger_def parse_format_int)

lemma client_reads_simple: "LF \<notin> set t \<Longrightarrow> readValue maxAlloc (writeRedisSimpleString t @ rest) = (Return (VStr t), rest)"
  by (simp add: writeRedisSimpleString_def)

lemma client_reads_error: "LF \<notin> set t \<Longrightarrow> readValue maxAlloc (writeRedisError t @ rest) = (Fail (ErrRemote t), rest)"
  by (simp add: writeRedisError_def)

lemma client_reads_elements:
  assumes "list_all (fits maxAlloc) items"
  shows "readElements maxAlloc (length items) (concat (map (\<lambda>p. writeRedisBulkString (Some p)) items) @ rest)
     = (Return (map VStr items), rest)"
  using assms by (induction items) (simp_all add: client_reads_bulk del: readValue.simps)

lemma client_reads_array:
  assumes "fitsAll maxAlloc items"
  shows "readValue maxAlloc (writeRedisArrayOfBulkStrings items @ rest) = (Return (VArr (map VStr items)), rest)"
proof -
  have "in64 (int (length items))" using assms by (simp add: fitsAll_def in64_def)
  then show ?thesis
    using assms client_reads_elements [of maxAlloc items rest]
    by (simp add: writeRedisArrayOfBulkStrings_def fitsAll_def makeSlice_def)
qed

end
