(* ===== verification/ManagementAuth.thy ===== *)
theory ManagementAuth
  imports AnyValue
begin

text \<open>
  The management key check of \<open>backend/internal/api/handlers/management/handler.go\<close>: per client
  address a count of failed attempts, a ban after five of them, and the sweep that forgets idle
  addresses. The Go check runs in two locked sections, one at the start that reads and expires a
  ban and one at the end that records the outcome; each is a definition here. The comparison of a
  key with a bcrypt hash is code of a package outside the repository and the parameter \<open>bcrypt\<close>.
\<close>

section \<open>State\<close>

record attemptInfo =
  at_count :: int
  at_blockedUntil :: gotime
  at_lastActivity :: gotime

text \<open>The fields of the handler the check reads. \<open>mh_cfg\<close> holds the two settings of the remote
  management section, if there is a configuration.\<close>

record MgmtHandler =
  mh_cfg :: "(bool \<times> string) option"
  mh_failedAttempts :: "(string, attemptInfo) gomap"
  mh_localPassword :: string
  mh_allowRemoteOverride :: bool
  mh_envSecret :: string

abbreviation attemptMaxIdleTime :: goduration where "attemptMaxIdleTime \<equiv> 2 * hour"
abbreviation maxFailures :: int where "maxFailures \<equiv> 5"
abbreviation banDuration :: goduration where "banDuration \<equiv> 30 * minute"

abbreviation StatusUnauthorized :: int where "StatusUnauthorized \<equiv> 401"
abbreviation StatusForbidden :: int where "StatusForbidden \<equiv> 403"

definition newAttempt :: attemptInfo where
  "newAttempt = \<lparr>at_count = 0, at_blockedUntil = zero_time, at_lastActivity = zero_time\<rparr>"

section \<open>Durations as text\<close>

text \<open>\<open>Duration.Round(time.Second)\<close> of a positive duration, and \<open>Duration.String\<close> of whole seconds.\<close>

definition roundToSecond :: "goduration \<Rightarrow> goduration" where
  "roundToSecond d = (let r = d mod second in if 2 * r < second then d - r else d + (second - r))"

definition durationString :: "goduration \<Rightarrow> string" where
  "durationString d =
     (let s = d div second; m = s div 60; h = m div 60;
          seconds = format_int (s mod 60) @ ''s''
      in if m = 0 then seconds
         else if h = 0 then format_int (m mod 60) @ ''m'' @ seconds
         else format_int h @ ''h'' @ format_int (m mod 60) @ ''m'' @ seconds)"

section \<open>The operations\<close>

definition purgeStaleAttempts :: "gotime \<Rightarrow> MgmtHandler \<Rightarrow> MgmtHandler" where
  "purgeStaleAttempts now h =
     h\<lparr>mh_failedAttempts := filter (\<lambda>(ip, ai).
         (\<not> is_zero (at_blockedUntil ai) \<and> now < at_blockedUntil ai)
         \<or> \<not> time_sub now (at_lastActivity ai) > attemptMaxIdleTime) (mh_failedAttempts h)\<rparr>"

text \<open>The first locked section: the remaining ban, or the state with an expired ban reset.\<close>

definition banCheckLocked :: "string \<Rightarrow> gotime \<Rightarrow> MgmtHandler \<Rightarrow> MgmtHandler \<times> goduration option" where
  "banCheckLocked clientIP now h =
     (case m_get (mh_failedAttempts h) clientIP of
        None \<Rightarrow> (h, None)
      | Some ai \<Rightarrow>
          if is_zero (at_blockedUntil ai) then (h, None)
          else if now < at_blockedUntil ai then (h, Some (time_sub (at_blockedUntil ai) now))
          else (h\<lparr>mh_failedAttempts := m_put clientIP (ai\<lparr>at_blockedUntil := zero_time, at_count := 0\<rparr>)
                 (mh_failedAttempts h)\<rparr>, None))"

text \<open>The closures \<open>fail\<close>, with its two clock readings, and \<open>reset\<close>.\<close>

definition failLocked :: "string \<Rightarrow> gotime \<Rightarrow> gotime \<Rightarrow> MgmtHandler \<Rightarrow> MgmtHandler" where
  "failLocked clientIP now1 now2 h =
     (let aip = (case m_get (mh_failedAttempts h) clientIP of None \<Rightarrow> newAttempt | Some aip \<Rightarrow> aip);
          aip = aip\<lparr>at_count := at_count aip + 1, at_lastActivity := now1\<rparr>;
          aip = (if at_count aip \<ge> maxFailures
                 then aip\<lparr>at_blockedUntil := now2 + banDuration, at_count := 0\<rparr> else aip)
      in h\<lparr>mh_failedAttempts := m_put clientIP aip (mh_failedAttempts h)\<rparr>)"

definition resetLocked :: "string \<Rightarrow> MgmtHandler \<Rightarrow> MgmtHandler" where
  "resetLocked clientIP h =
     (case m_get (mh_failedAttempts h) clientIP of
        None \<Rightarrow> h
      | Some ai \<Rightarrow> h\<lparr>mh_failedAttempts := m_put clientIP (ai\<lparr>at_count := 0, at_blockedUntil := zero_time\<rparr>)
          (mh_failedAttempts h)\<rparr>)"

text \<open>What the code decides between the two sections: a refusal that records nothing, a failed
  attempt, or an accepted key.\<close>

datatype KeyDecision = Refuse int string | FailAttempt int string | AcceptKey

definition keyDecision :: "(string \<Rightarrow> string \<Rightarrow> bool) \<Rightarrow> bool \<Rightarrow> string \<Rightarrow> MgmtHandler \<Rightarrow> KeyDecision" where
  "keyDecision bcrypt localClient provided h =
     (let allowRemote = ((case mh_cfg h of None \<Rightarrow> False | Some (a, _) \<Rightarrow> a) \<or> mh_allowRemoteOverride h);
          secretHash = (case mh_cfg h of None \<Rightarrow> [] | Some (_, s) \<Rightarrow> s)
      in if \<not> localClient \<and> \<not> allowRemote then Refuse StatusForbidden ''remote management disabled''
         else if secretHash = [] \<and> mh_envSecret h = [] then Refuse StatusForbidden ''remote management key not set''
         else if provided = [] then FailAttempt StatusUnauthorized ''missing management key''
         else if localClient \<and> mh_localPassword h \<noteq> [] \<and> provided = mh_localPassword h then AcceptKey
         else if mh_envSecret h \<noteq> [] \<and> provided = mh_envSecret h then AcceptKey
         else if secretHash = [] \<or> \<not> bcrypt secretHash provided
         then FailAttempt StatusUnauthorized ''invalid management key''
         else AcceptKey)"

definition bannedMessage :: "goduration \<Rightarrow> string" where
  "bannedMessage remaining =
     ''IP banned due to too many failed attempts. Try again in '' @ durationString (roundToSecond remaining)"

text \<open>The clock is read at the start and twice in \<open>fail\<close>. A nil handler refuses.\<close>

record AuthClock =
  ac_now :: gotime
  ac_fail1 :: gotime
  ac_fail2 :: gotime

definition AuthenticateManagementKey :: "(string \<Rightarrow> string \<Rightarrow> bool) \<Rightarrow> string \<Rightarrow> bool \<Rightarrow> string \<Rightarrow> AuthClock
    \<Rightarrow> MgmtHandler option \<Rightarrow> MgmtHandler option \<times> bool \<times> int \<times> string" where
  "AuthenticateManagementKey bcrypt clientIP localClient provided clock handler =
     (case handler of
        None \<Rightarrow> (None, False, StatusForbidden, ''remote management disabled'')
      | Some h \<Rightarrow>
          (case banCheckLocked clientIP (ac_now clock) h of
             (h, Some remaining) \<Rightarrow> (Some h, False, StatusForbidden, bannedMessage remaining)
           | (h, None) \<Rightarrow>
               (case keyDecision bcrypt localClient provided h of
                  Refuse status msg \<Rightarrow> (Some h, False, status, msg)
                | FailAttempt status msg \<Rightarrow> (Some (failLocked clientIP (ac_fail1 clock) (ac_fail2 clock) h), False, status, msg)
                | AcceptKey \<Rightarrow> (Some (resetLocked clientIP h), True, 0, []))))"

section \<open>Outcomes\<close>

definition bannedAt :: "gotime \<Rightarrow> string \<Rightarrow> MgmtHandler \<Rightarrow> bool" where
  "bannedAt now clientIP h \<longleftrightarrow> (case m_get (mh_failedAttempts h) clientIP of
     None \<Rightarrow> False | Some ai \<Rightarrow> \<not> is_zero (at_blockedUntil ai) \<and> now < at_blockedUntil ai)"

lemma banCheck_None: "snd (banCheckLocked ip now h) = None \<longleftrightarrow> \<not> bannedAt now ip h"
  by (simp add: banCheckLocked_def bannedAt_def split: option.splits)

lemma banCheck_banned: "bannedAt now ip h \<Longrightarrow> fst (banCheckLocked ip now h) = h"
  by (auto simp: banCheckLocked_def bannedAt_def split: option.splits)

lemma banCheck_fields [simp]:
  "mh_cfg (fst (banCheckLocked ip now h)) = mh_cfg h"
  "mh_localPassword (fst (banCheckLocked ip now h)) = mh_localPassword h"
  "mh_allowRemoteOverride (fst (banCheckLocked ip now h)) = mh_allowRemoteOverride h"
  "mh_envSecret (fst (banCheckLocked ip now h)) = mh_envSecret h"
  by (simp_all add: banCheckLocked_def split: option.splits)

lemma banCheck_settings [simp]:
  "keyDecision b l p (fst (banCheckLocked ip now h)) = keyDecision b l p h"
  by (simp add: keyDecision_def cong: if_cong)

lemma banCheck_other [simp]:
  "ip' \<noteq> ip \<Longrightarrow> m_get (mh_failedAttempts (fst (banCheckLocked ip now h))) ip' = m_get (mh_failedAttempts h) ip'"
  by (simp add: banCheckLocked_def split: option.splits)

lemma fail_other [simp]:
  "ip' \<noteq> ip \<Longrightarrow> m_get (mh_failedAttempts (failLocked ip t1 t2 h)) ip' = m_get (mh_failedAttempts h) ip'"
  by (simp add: failLocked_def Let_def)

lemma reset_other [simp]:
  "ip' \<noteq> ip \<Longrightarrow> m_get (mh_failedAttempts (resetLocked ip h)) ip' = m_get (mh_failedAttempts h) ip'"
  by (simp add: resetLocked_def split: option.splits)

text \<open>The check as one case distinction over the state before it.\<close>

lemma authenticate_cases:
  "AuthenticateManagementKey b ip l p c (Some h) =
     (if bannedAt (ac_now c) ip h
      then (Some h, False, StatusForbidden, bannedMessage (the (snd (banCheckLocked ip (ac_now c) h))))
      else let h' = fst (banCheckLocked ip (ac_now c) h)
        in case keyDecision b l p h of
             Refuse status msg \<Rightarrow> (Some h', False, status, msg)
           | FailAttempt status msg \<Rightarrow> (Some (failLocked ip (ac_fail1 c) (ac_fail2 c) h'), False, status, msg)
           | AcceptKey \<Rightarrow> (Some (resetLocked ip h'), True, 0, []))"
proof (cases "banCheckLocked ip (ac_now c) h")
  case (Pair h' r)
  have n: "r = None \<longleftrightarrow> \<not> bannedAt (ac_now c) ip h" using banCheck_None [of ip "ac_now c" h] Pair by simp
  have k: "keyDecision b l p h' = keyDecision b l p h" using banCheck_settings [of b l p ip "ac_now c" h] Pair by simp
  have e: "bannedAt (ac_now c) ip h \<Longrightarrow> h' = h" using banCheck_banned [of "ac_now c" ip h] Pair by simp
  show ?thesis using n k e Pair
    by (cases r) (simp_all add: AuthenticateManagementKey_def Let_def)
qed

section \<open>Guessing keys\<close>

text \<open>The events the handler sees: checks, sweeps of the background loop, and new settings. A check
  yields its address, whether it was allowed and its status.\<close>

datatype AuthEvent =
    Attempt string bool string AuthClock
  | Sweep gotime
  | SetConfig "(bool \<times> string) option"
  | SetLocalPassword string

type_synonym AuthAnswer = "string \<times> bool \<times> int"

definition NewHandler :: "(bool \<times> string) option \<Rightarrow> string \<Rightarrow> MgmtHandler" where
  "NewHandler cfg env =
     (let envSecret = trim_space env
      in \<lparr>mh_cfg = cfg, mh_failedAttempts = [], mh_localPassword = [],
          mh_allowRemoteOverride = (envSecret \<noteq> []), mh_envSecret = envSecret\<rparr>)"

fun authStep :: "(string \<Rightarrow> string \<Rightarrow> bool) \<Rightarrow> AuthEvent \<Rightarrow> MgmtHandler \<Rightarrow> MgmtHandler \<times> AuthAnswer list" where
  "authStep bcrypt (Attempt ip localClient provided clock) h =
     (case AuthenticateManagementKey bcrypt ip localClient provided clock (Some h) of
        (h', allowed, status, _) \<Rightarrow> (the h', [(ip, allowed, status)]))"
| "authStep bcrypt (Sweep now) h = (purgeStaleAttempts now h, [])"
| "authStep bcrypt (SetConfig cfg) h = (h\<lparr>mh_cfg := cfg\<rparr>, [])"
| "authStep bcrypt (SetLocalPassword p) h = (h\<lparr>mh_localPassword := p\<rparr>, [])"

fun runAuth :: "(string \<Rightarrow> string \<Rightarrow> bool) \<Rightarrow> AuthEvent list \<Rightarrow> MgmtHandler \<Rightarrow> MgmtHandler \<times> AuthAnswer list" where
  "runAuth bcrypt [] h = (h, [])"
| "runAuth bcrypt (e # es) h =
     (let (h, out) = authStep bcrypt e h; (h, outs) = runAuth bcrypt es h in (h, out @ outs))"

text \<open>The keys of an address that were compared and refused, and those that were accepted.\<close>

definition wrongKeys :: "string \<Rightarrow> AuthAnswer list \<Rightarrow> nat" where
  "wrongKeys ip log = length (filter (\<lambda>(i, _, status). i = ip \<and> status = StatusUnauthorized) log)"

definition accepted :: "string \<Rightarrow> AuthAnswer list \<Rightarrow> bool" where
  "accepted ip log \<longleftrightarrow> list_ex (\<lambda>(i, allowed, _). i = ip \<and> allowed) log"

lemma wrongKeys_simps [simp]:
  "wrongKeys ip [] = 0"
  "wrongKeys ip ((i, a, s) # log) = (if i = ip \<and> s = StatusUnauthorized then 1 else 0) + wrongKeys ip log"
  "wrongKeys ip (xs @ ys) = wrongKeys ip xs + wrongKeys ip ys"
  by (simp_all add: wrongKeys_def)

lemma accepted_simps [simp]:
  "\<not> accepted ip []"
  "accepted ip ((i, a, s) # log) \<longleftrightarrow> i = ip \<and> a \<or> accepted ip log"
  "accepted ip (xs @ ys) \<longleftrightarrow> accepted ip xs \<or> accepted ip ys"
  by (simp_all add: accepted_def)

text \<open>The clock readings of an event lie in the window.\<close>

fun within :: "gotime \<Rightarrow> gotime \<Rightarrow> AuthEvent \<Rightarrow> bool" where
  "within a b (Attempt _ _ _ c) \<longleftrightarrow> list_all (\<lambda>t. a \<le> t \<and> t < b) [ac_now c, ac_fail1 c, ac_fail2 c]"
| "within a b (Sweep now) \<longleftrightarrow> a \<le> now \<and> now < b"
| "within a b _ \<longleftrightarrow> True"

subsection \<open>The counters\<close>

definition countsOK :: "MgmtHandler \<Rightarrow> bool" where
  "countsOK h \<longleftrightarrow> m_ok (mh_failedAttempts h) \<and>
     (\<forall>ip. pred_option (\<lambda>ai. 0 \<le> at_count ai \<and> at_count ai < maxFailures) (m_get (mh_failedAttempts h) ip))"

lemma get_sweep: "m_ok (mh_failedAttempts h) \<Longrightarrow> m_get (mh_failedAttempts (purgeStaleAttempts now h)) ip =
    (case m_get (mh_failedAttempts h) ip of None \<Rightarrow> None | Some ai \<Rightarrow>
       if (\<not> is_zero (at_blockedUntil ai) \<and> now < at_blockedUntil ai)
          \<or> \<not> time_sub now (at_lastActivity ai) > attemptMaxIdleTime then Some ai else None)"
  by (simp add: purgeStaleAttempts_def m_get_filter cong: option.case_cong)

lemma countsOK_ops:
  assumes "countsOK h"
  shows "countsOK (fst (banCheckLocked ip now h))" and "countsOK (failLocked ip t1 t2 h)"
    and "countsOK (resetLocked ip h)" and "countsOK (purgeStaleAttempts now h)"
proof -
  have ok: "m_ok (mh_failedAttempts h)"
    and c: "pred_option (\<lambda>ai. 0 \<le> at_count ai \<and> at_count ai < maxFailures) (m_get (mh_failedAttempts h) i)" for i
    using assms by (auto simp: countsOK_def)
  show "countsOK (fst (banCheckLocked ip now h))"
    using ok c [of ip] c by (simp add: countsOK_def banCheckLocked_def distinct_update split: option.split)
  show "countsOK (failLocked ip t1 t2 h)"
    using ok c [of ip] c
    by (cases "m_get (mh_failedAttempts h) ip") (simp_all add: countsOK_def failLocked_def newAttempt_def Let_def distinct_update)
  show "countsOK (resetLocked ip h)"
    using ok c [of ip] c by (simp add: countsOK_def resetLocked_def distinct_update split: option.split)
  have "pred_option (\<lambda>ai. 0 \<le> at_count ai \<and> at_count ai < maxFailures) (m_get (mh_failedAttempts (purgeStaleAttempts now h)) i)" for i
    using c [of i] by (cases "m_get (mh_failedAttempts h) i") (simp_all add: get_sweep [OF ok])
  moreover have "m_ok (mh_failedAttempts (purgeStaleAttempts now h))"
    using ok by (simp add: purgeStaleAttempts_def m_ok_filter)
  ultimately show "countsOK (purgeStaleAttempts now h)" by (simp add: countsOK_def)
qed

lemma countsOK_step: "countsOK h \<Longrightarrow> countsOK (fst (authStep b e h))"
proof (cases e)
  case (Attempt ip l p c)
  assume "countsOK h"
  then show ?thesis unfolding Attempt
    by (auto simp: authenticate_cases Let_def countsOK_ops split: KeyDecision.splits)
next
  case (SetConfig cfg)
  assume "countsOK h"
  then show ?thesis unfolding SetConfig by (simp add: countsOK_def)
next
  case (SetLocalPassword p)
  assume "countsOK h"
  then show ?thesis unfolding SetLocalPassword by (simp add: countsOK_def)
qed (simp add: countsOK_ops)

lemma countsOK_run: "countsOK h \<Longrightarrow> countsOK (fst (runAuth b es h))"
  by (induction es arbitrary: h) (auto simp: split_beta Let_def countsOK_step)

lemma countsOK_new [simp]: "countsOK (NewHandler cfg env)"
  by (simp add: countsOK_def NewHandler_def Let_def)

text \<open>After \<open>k\<close> wrong keys of an address inside a window: the address is banned to the end of the
  window, or its count is at least \<open>k\<close> and, as it is not idle, will not be forgotten.\<close>

definition tally :: "gotime \<Rightarrow> string \<Rightarrow> nat \<Rightarrow> MgmtHandler \<Rightarrow> bool" where
  "tally t0 ip k h \<longleftrightarrow> countsOK h \<and>
     (case m_get (mh_failedAttempts h) ip of
        None \<Rightarrow> k = 0
      | Some ai \<Rightarrow> (t0 + banDuration \<le> at_blockedUntil ai \<and> k \<le> 5)
          \<or> (int k \<le> at_count ai \<and> (0 < k \<longrightarrow> t0 \<le> at_lastActivity ai \<and> is_zero (at_blockedUntil ai))))"

lemma tally_sweep:
  assumes "tally t0 ip k h" and "0 \<le> t0" and "t0 \<le> now" and "now < t0 + banDuration"
  shows "tally t0 ip k (purgeStaleAttempts now h)"
proof -
  have ok: "m_ok (mh_failedAttempts h)" using assms(1) by (simp add: tally_def countsOK_def)
  show ?thesis
    using assms by (auto simp: tally_def countsOK_ops get_sweep [OF ok] time_sub_def split: option.splits)
qed

lemma tally_attempt:
  assumes t: "tally t0 ip k h" and "0 \<le> t0" and w: "within t0 (t0 + banDuration) (Attempt ip l p c)"
    and no: "\<not> accepted ip (snd (authStep b (Attempt ip l p c) h))"
  shows "tally t0 ip (k + wrongKeys ip (snd (authStep b (Attempt ip l p c) h))) (fst (authStep b (Attempt ip l p c) h))"
proof (cases "bannedAt (ac_now c) ip h")
  case True
  then show ?thesis using t by (simp add: authenticate_cases Let_def)
next
  case False
  define h' where "h' = fst (banCheckLocked ip (ac_now c) h)"
  have t': "tally t0 ip k h' \<and> (case m_get (mh_failedAttempts h') ip of None \<Rightarrow> True | Some ai \<Rightarrow> is_zero (at_blockedUntil ai))"
    using t False w assms(2) countsOK_ops(1) [of h ip "ac_now c"] unfolding h'_def
    by (auto simp: tally_def bannedAt_def banCheckLocked_def split: option.splits if_splits)
  show ?thesis
  proof (cases "keyDecision b l p h")
    case (Refuse status msg)
    then have "status \<noteq> StatusUnauthorized" by (auto simp: keyDecision_def Let_def split: if_splits)
    with Refuse False t' show ?thesis by (simp add: authenticate_cases h'_def)
  next
    case (FailAttempt status msg)
    then have s: "status = StatusUnauthorized" by (auto simp: keyDecision_def Let_def split: if_splits)
    have "tally t0 ip (Suc k) (failLocked ip (ac_fail1 c) (ac_fail2 c) h')"
    proof (cases "m_get (mh_failedAttempts h') ip")
      case None
      then show ?thesis
        using t' w assms(2) countsOK_ops(2) [of h' ip "ac_fail1 c" "ac_fail2 c"]
        by (simp add: tally_def) (simp add: failLocked_def Let_def newAttempt_def)
    next
      case (Some ai)
      then have "pred_option (\<lambda>ai. 0 \<le> at_count ai \<and> at_count ai < maxFailures) (Some ai)"
        using t' unfolding tally_def countsOK_def by metis
      then show ?thesis
        using Some t' w assms(2) countsOK_ops(2) [of h' ip "ac_fail1 c" "ac_fail2 c"]
        by (simp add: tally_def) (auto simp: failLocked_def Let_def)
    qed
    with FailAttempt False s show ?thesis by (simp add: authenticate_cases h'_def)
  next
    case AcceptKey
    with False no show ?thesis by (simp add: authenticate_cases Let_def)
  qed
qed

lemma tally_step:
  assumes "tally t0 ip k h" and "0 \<le> t0" and "within t0 (t0 + banDuration) e"
    and "\<not> accepted ip (snd (authStep b e h))"
  shows "tally t0 ip (k + wrongKeys ip (snd (authStep b e h))) (fst (authStep b e h))"
proof (cases e)
  case (Attempt ip' l p c)
  show ?thesis
  proof (cases "ip' = ip")
    case True
    then show ?thesis using tally_attempt [of t0 ip k h l p c b] assms Attempt by simp
  next
    case False
    have "m_get (mh_failedAttempts (fst (authStep b e h))) ip = m_get (mh_failedAttempts h) ip
        \<and> wrongKeys ip (snd (authStep b e h)) = 0"
      using False unfolding Attempt by (simp add: authenticate_cases Let_def split: KeyDecision.split)
    then show ?thesis using assms(1) countsOK_step [of h b e] by (simp add: tally_def)
  qed
qed (use assms tally_sweep in \<open>auto simp: tally_def countsOK_def\<close>)

lemma tally_run:
  assumes "tally t0 ip k h" and "0 \<le> t0" and "list_all (within t0 (t0 + banDuration)) es"
    and "\<not> accepted ip (snd (runAuth b es h))"
  shows "tally t0 ip (k + wrongKeys ip (snd (runAuth b es h))) (fst (runAuth b es h))"
  using assms
proof (induction es arbitrary: k h)
  case (Cons e es)
  have "tally t0 ip (k + wrongKeys ip (snd (authStep b e h))) (fst (authStep b e h))"
    using Cons.prems by (intro tally_step) (auto simp: split_beta Let_def)
  from Cons.IH [OF this] Cons.prems show ?case by (simp add: split_beta Let_def add.assoc)
qed simp

lemma tally_bound: "tally t0 ip k h \<Longrightarrow> k \<le> 5"
proof (cases "m_get (mh_failedAttempts h) ip")
  case (Some ai)
  assume t: "tally t0 ip k h"
  then have "pred_option (\<lambda>ai. 0 \<le> at_count ai \<and> at_count ai < maxFailures) (Some ai)"
    unfolding tally_def countsOK_def using Some by metis
  then show ?thesis using t Some by (auto simp: tally_def)
qed (simp add: tally_def)

lemma tally_start: "countsOK h \<Longrightarrow> tally t0 ip 0 h"
proof (cases "m_get (mh_failedAttempts h) ip")
  case (Some ai)
  assume c: "countsOK h"
  then have "pred_option (\<lambda>ai. 0 \<le> at_count ai \<and> at_count ai < maxFailures) (Some ai)"
    unfolding countsOK_def using Some by metis
  then show ?thesis using c Some by (simp add: tally_def)
qed (simp add: tally_def)

section \<open>The property\<close>


definition sampleClock :: "gotime \<Rightarrow> AuthClock" where
  "sampleClock t = \<lparr>ac_now = t, ac_fail1 = t, ac_fail2 = t\<rparr>"

definition sampleAttempts :: "AuthEvent list" where
  "sampleAttempts = map (\<lambda>t. Attempt ''10.0.0.1'' False ''guess'' (sampleClock (1000 + t * second))) [0, 1, 2, 3, 4, 5, 6]"


end
