(* ===== verification/RedisProtocol.thy ===== *)
theory RedisProtocol
  imports Resp RedisQueue ManagementAuth
begin

text \<open>
  The two ends of the usage queue protocol: the connection handler of
  \<open>backend/internal/api/redis_queue_protocol.go\<close> with its command loop and its subscription loop, and the
  operations of the client in \<open>backend/internal/core/resp/client.go\<close>.

  One pass of the command loop is \<open>redisTurn\<close>; a pass reads the routes flag and the clocks, which a \<open>Turn\<close>
  holds, and whether the flush of its reply succeeds. The subscription loop makes one step per
  message or command it selects; the goroutine that reads ahead keeps the order of the commands,
  so a step reads its command itself. Logging is left out.
\<close>

section \<open>The server\<close>

abbreviation redisUsageChannel :: string where "redisUsageChannel \<equiv> ''usage''"
abbreviation redisErrorsChannel :: string where "redisErrorsChannel \<equiv> ''errors''"

datatype RedisTopic = UsageTopic | ErrorsTopic

text \<open>A streaming connection keeps the channel name it was given, the queue, the identifier its
  \<open>unsubscribe\<close> closure captures and the address of its channel.\<close>

datatype ConnPhase = PhCommands | PhStream string RedisTopic "64 word" nat | PhClosed | PhPanic

record RedisConn =
  rc_in :: string
  rc_out :: string
  rc_authed :: bool
  rc_mgmt :: "MgmtHandler option"
  rc_module :: Module
  rc_phase :: ConnPhase

record Turn =
  tn_enabled :: bool
  tn_clock :: AuthClock
  tn_now :: gotime
  tn_flush :: bool

text \<open>What a connection handler is given: the runtime's limit, the hash comparison and the peer.\<close>

record Peer =
  pe_maxAlloc :: int
  pe_bcrypt :: "string \<Rightarrow> string \<Rightarrow> bool"
  pe_clientIP :: string
  pe_localClient :: bool

definition upper_char :: "char \<Rightarrow> char" where
  "upper_char c = (if CHR ''a'' \<le> c \<and> c \<le> CHR ''z'' then char_of (of_char c - (32 :: nat)) else c)"

definition to_upper :: "string \<Rightarrow> string" where
  "to_upper s = map upper_char s"

definition isRedisRESPPrefix :: "char \<Rightarrow> bool" where
  "isRedisRESPPrefix c \<longleftrightarrow> c = CHR ''*'' \<or> c = CHR ''$'' \<or> c = CHR ''+'' \<or> c = CHR ''-'' \<or> c = CHR '':''"

definition parseAuthPassword :: "string list \<Rightarrow> string option" where
  "parseAuthPassword args =
     (if length args = 2 then Some (args ! 1) else if length args = 3 then Some (args ! 2) else None)"

definition parseSubscribeChannel :: "string list \<Rightarrow> string option" where
  "parseSubscribeChannel args = (if length args \<noteq> 2 then None else Some (trim_space (args ! 1)))"

definition parsePopCount :: "string list \<Rightarrow> (int \<times> bool) option" where
  "parsePopCount args =
     (if length args \<noteq> 2 \<and> length args \<noteq> 3 then None
      else if length args = 2 then Some (1, False)
      else case parse_int64 (trim_space (args ! 2)) of None \<Rightarrow> Some (0, True) | Some n \<Rightarrow> Some (n, True))"

definition subscribeRedisChannel :: "string \<Rightarrow> Module \<Rightarrow> (Module \<times> RedisTopic \<times> 64 word \<times> nat) option" where
  "subscribeRedisChannel channel m =
     (let key = to_lower (trim_space channel)
      in if key = redisUsageChannel then (let (m, i, a) = SubscribeUsage m in Some (m, UsageTopic, i, a))
         else if key = redisErrorsChannel then (let (m, i, a) = SubscribeErrors m in Some (m, ErrorsTopic, i, a))
         else None)"

definition popRedisQueueItems :: "gotime \<Rightarrow> string \<Rightarrow> int \<Rightarrow> Module \<Rightarrow> (Module \<times> string list) option" where
  "popRedisQueueItems now channel count m =
     (if to_lower (trim_space channel) = redisUsageChannel then Some (PopOldest now count m) else None)"

text \<open>The closure a subscription got.\<close>

definition unsubscribeTopic :: "RedisTopic \<Rightarrow> 64 word \<Rightarrow> Module \<Rightarrow> Module option" where
  "unsubscribeTopic topic i m =
     (case topic of
        UsageTopic \<Rightarrow> map_option (\<lambda>q. m\<lparr>mo_global := q\<rparr>) (unsubscribe i (mo_global m))
      | ErrorsTopic \<Rightarrow> map_option (\<lambda>q. m\<lparr>mo_errorGlobal := q\<rparr>) (unsubscribe i (mo_errorGlobal m)))"

text \<open>The reply to a command: written, flushed, and the loop goes on when the flush succeeded.\<close>

definition reply :: "Turn \<Rightarrow> string \<Rightarrow> RedisConn \<Rightarrow> RedisConn" where
  "reply turn bytes c = c\<lparr>rc_out := rc_out c @ bytes, rc_phase := (if tn_flush turn then PhCommands else PhClosed)\<rparr>"

definition bannedPrefix :: string where
  "bannedPrefix = ''IP banned due to too many failed attempts''"

text \<open>The check with an empty key that precedes two of the error replies; it yields the error to
  send instead when the address is banned.\<close>

definition emptyKeyCheck :: "Peer \<Rightarrow> Turn \<Rightarrow> RedisConn \<Rightarrow> RedisConn \<times> string option" where
  "emptyKeyCheck peer turn c =
     (case rc_mgmt c of
        None \<Rightarrow> (c, None)
      | Some h \<Rightarrow>
          (case AuthenticateManagementKey (pe_bcrypt peer) (pe_clientIP peer) (pe_localClient peer) [] (tn_clock turn) (Some h) of
             (h, _, statusCode, errMsg) \<Rightarrow>
               (c\<lparr>rc_mgmt := h\<rparr>,
                if statusCode = StatusForbidden \<and> has_prefix errMsg bannedPrefix then Some (''ERR '' @ errMsg) else None)))"

definition replyUnauthenticated :: "Peer \<Rightarrow> Turn \<Rightarrow> RedisConn \<Rightarrow> RedisConn" where
  "replyUnauthenticated peer turn c =
     (case emptyKeyCheck peer turn c of
        (c, Some banned) \<Rightarrow> reply turn (writeRedisError banned) c
      | (c, None) \<Rightarrow> reply turn (writeRedisError ''NOAUTH Authentication required.'') c)"

definition redisAuth :: "Peer \<Rightarrow> Turn \<Rightarrow> string list \<Rightarrow> RedisConn \<Rightarrow> RedisConn" where
  "redisAuth peer turn args c =
     (case parseAuthPassword args of
        None \<Rightarrow>
          (case emptyKeyCheck peer turn c of
             (c, Some banned) \<Rightarrow> reply turn (writeRedisError banned) c
           | (c, None) \<Rightarrow> reply turn (writeRedisError (''ERR wrong number of arguments for '' @ [CHR 0x27] @ ''auth'' @ [CHR 0x27] @ '' command'')) c)
      | Some password \<Rightarrow>
          (case rc_mgmt c of
             None \<Rightarrow> reply turn (writeRedisError ''ERR remote management disabled'') c
           | Some h \<Rightarrow>
               (case AuthenticateManagementKey (pe_bcrypt peer) (pe_clientIP peer) (pe_localClient peer) password (tn_clock turn) (Some h) of
                  (h, allowed, _, errMsg) \<Rightarrow>
                    if \<not> allowed then reply turn (writeRedisError (''ERR '' @ errMsg)) (c\<lparr>rc_mgmt := h\<rparr>)
                    else reply turn (writeRedisSimpleString ''OK'') (c\<lparr>rc_mgmt := h, rc_authed := True\<rparr>))))"

definition unsupportedChannel :: "string \<Rightarrow> string" where
  "unsupportedChannel channel = ''ERR unsupported channel '' @ [CHR 0x27] @ channel @ [CHR 0x27]"

definition redisSubscribe :: "Turn \<Rightarrow> string list \<Rightarrow> RedisConn \<Rightarrow> RedisConn" where
  "redisSubscribe turn args c =
     (case parseSubscribeChannel args of
        None \<Rightarrow> reply turn (writeRedisError (''ERR wrong number of arguments for '' @ [CHR 0x27] @ ''subscribe'' @ [CHR 0x27] @ '' command'')) c
      | Some channel \<Rightarrow>
          (case subscribeRedisChannel channel (rc_module c) of
             None \<Rightarrow> reply turn (writeRedisError (unsupportedChannel channel)) c
           | Some (m, topic, i, a) \<Rightarrow>
               (let c = c\<lparr>rc_module := m, rc_out := rc_out c @ writeRedisPubSubSubscribe channel 1\<rparr>
                in if tn_flush turn then c\<lparr>rc_phase := PhStream channel topic i a\<rparr>
                   else case unsubscribeTopic topic i m of
                          None \<Rightarrow> c\<lparr>rc_phase := PhPanic\<rparr>
                        | Some m \<Rightarrow> c\<lparr>rc_module := m, rc_phase := PhClosed\<rparr>)))"

definition redisPop :: "Turn \<Rightarrow> string \<Rightarrow> string list \<Rightarrow> RedisConn \<Rightarrow> RedisConn" where
  "redisPop turn cmd args c =
     (case parsePopCount args of
        None \<Rightarrow> reply turn (writeRedisError (''ERR wrong number of arguments for '' @ [CHR 0x27] @ to_lower cmd @ [CHR 0x27] @ '' command'')) c
      | Some (count, hasCount) \<Rightarrow>
          if count \<le> 0 then reply turn (writeRedisError ''ERR value is not an integer or out of range'') c
          else case popRedisQueueItems (tn_now turn) (args ! 1) count (rc_module c) of
                 None \<Rightarrow> reply turn (writeRedisError (unsupportedChannel (trim_space (args ! 1)))) c
               | Some (m, items) \<Rightarrow>
                   (let c = c\<lparr>rc_module := m\<rparr>
                    in if hasCount then reply turn (writeRedisArrayOfBulkStrings items) c
                       else case items of
                              [] \<Rightarrow> reply turn writeRedisNilBulkString c
                            | item # _ \<Rightarrow> reply turn (writeRedisBulkString (Some item)) c))"

definition unknownCommand :: "string \<Rightarrow> string" where
  "unknownCommand cmd = ''ERR unknown command '' @ [CHR 0x27] @ to_lower cmd @ [CHR 0x27]"

definition redisCommand :: "Peer \<Rightarrow> Turn \<Rightarrow> string list \<Rightarrow> RedisConn \<Rightarrow> RedisConn" where
  "redisCommand peer turn args c =
     (let cmd = to_upper (trim_space (args ! 0))
      in if cmd \<noteq> ''AUTH'' \<and> \<not> rc_authed c then replyUnauthenticated peer turn c
         else if cmd = ''AUTH'' then redisAuth peer turn args c
         else if cmd = ''SUBSCRIBE'' then redisSubscribe turn args c
         else if cmd = ''LPOP'' \<or> cmd = ''RPOP'' then redisPop turn cmd args c
         else reply turn (writeRedisError (unknownCommand cmd)) c)"

definition redisTurn :: "Peer \<Rightarrow> Turn \<Rightarrow> RedisConn \<Rightarrow> RedisConn" where
  "redisTurn peer turn c =
     (if \<not> tn_enabled turn then c\<lparr>rc_phase := PhClosed\<rparr>
      else case readRESPArray (pe_maxAlloc peer) (rc_in c) of
             (Panic, s) \<Rightarrow> c\<lparr>rc_in := s, rc_phase := PhPanic\<rparr>
           | (Fail e, s) \<Rightarrow>
               if e = ErrEOF then c\<lparr>rc_in := s, rc_phase := PhClosed\<rparr>
               else c\<lparr>rc_in := s, rc_out := rc_out c @ writeRedisError (''ERR '' @ respErrorText e), rc_phase := PhClosed\<rparr>
           | (Return args, s) \<Rightarrow>
               if args = [] then reply turn (writeRedisError ''ERR empty command'') (c\<lparr>rc_in := s\<rparr>)
               else redisCommand peer turn args (c\<lparr>rc_in := s\<rparr>))"

text \<open>A new connection; in home mode it is refused at once.\<close>

definition newConn :: "bool \<Rightarrow> string \<Rightarrow> MgmtHandler option \<Rightarrow> Module \<Rightarrow> RedisConn" where
  "newConn homeEnabled input mgmt m =
     (let c = \<lparr>rc_in = input, rc_out = [], rc_authed = False, rc_mgmt = mgmt, rc_module = m, rc_phase = PhCommands\<rparr>
      in if homeEnabled
         then c\<lparr>rc_out := writeRedisError ''ERR redis usage output disabled in home mode'', rc_phase := PhClosed\<rparr> else c)"

section \<open>The subscription loop\<close>

definition endStream :: "RedisTopic \<Rightarrow> 64 word \<Rightarrow> RedisConn \<Rightarrow> RedisConn" where
  "endStream topic i c =
     (case unsubscribeTopic topic i (rc_module c) of
        None \<Rightarrow> c\<lparr>rc_phase := PhPanic\<rparr>
      | Some m \<Rightarrow> c\<lparr>rc_module := m, rc_phase := PhClosed\<rparr>)"

text \<open>The reply and whether the connection stays open.\<close>

definition handleRedisSubscriptionCommand :: "string \<Rightarrow> string list outcome \<Rightarrow> string \<times> bool" where
  "handleRedisSubscriptionCommand channel command =
     (case command of
        Fail e \<Rightarrow> (writeRedisError (''ERR '' @ respErrorText e), False)
      | Panic \<Rightarrow> ([], False)
      | Return args \<Rightarrow>
          if args = [] then (writeRedisError ''ERR empty command'', True)
          else let cmd = to_upper (trim_space (args ! 0))
            in if cmd = ''PING'' then (writeRedisPubSubPong (if length args > 1 then Some (args ! 1) else None), True)
               else if cmd = ''UNSUBSCRIBE'' then (writeRedisPubSubUnsubscribe channel 0, False)
               else if cmd = ''QUIT'' then (writeRedisSimpleString ''OK'', False)
               else (writeRedisError (unknownCommand cmd), True))"

definition topicQueue :: "RedisTopic \<Rightarrow> Module \<Rightarrow> queue" where
  "topicQueue topic m = (case topic of UsageTopic \<Rightarrow> mo_global m | ErrorsTopic \<Rightarrow> mo_errorGlobal m)"

definition setTopicQueue :: "RedisTopic \<Rightarrow> queue \<Rightarrow> Module \<Rightarrow> Module" where
  "setTopicQueue topic q m = (case topic of UsageTopic \<Rightarrow> m\<lparr>mo_global := q\<rparr> | ErrorsTopic \<Rightarrow> m\<lparr>mo_errorGlobal := q\<rparr>)"

text \<open>The case of the select that takes a message; it blocks while the channel is open and empty.\<close>

definition streamMessage :: "bool \<Rightarrow> RedisConn \<Rightarrow> RedisConn" where
  "streamMessage flushed c =
     (case rc_phase c of
        PhStream channel topic i a \<Rightarrow>
          (case receive a (topicQueue topic (rc_module c)) of
             (q, Some msg) \<Rightarrow>
               (let c = c\<lparr>rc_module := setTopicQueue topic q (rc_module c), rc_out := rc_out c @ writeRedisPubSubMessage channel msg\<rparr>
                in if flushed then c else endStream topic i c)
           | (q, None) \<Rightarrow>
               if ch_closed (q_chans (topicQueue topic (rc_module c)) ! a) then endStream topic i c else c)
      | _ \<Rightarrow> c)"

text \<open>The case that takes a command. At the end of the input the reader closes its channel.\<close>

definition streamCommand :: "Peer \<Rightarrow> bool \<Rightarrow> RedisConn \<Rightarrow> RedisConn" where
  "streamCommand peer flushed c =
     (case rc_phase c of
        PhStream channel topic i a \<Rightarrow>
          (case readRESPArray (pe_maxAlloc peer) (rc_in c) of
             (command, s) \<Rightarrow>
               if command = Panic then c\<lparr>rc_in := s, rc_phase := PhPanic\<rparr>
               else if command = Fail ErrEOF then endStream topic i (c\<lparr>rc_in := s\<rparr>)
               else (let (bytes, keepOpen) = handleRedisSubscriptionCommand channel command;
                    c = c\<lparr>rc_in := s, rc_out := rc_out c @ bytes\<rparr>
                in if flushed \<and> keepOpen then c else endStream topic i c))
      | _ \<Rightarrow> c)"

section \<open>What an unauthenticated peer gets\<close>

text \<open>The events of a connection: turns, selections of the subscription loop, and the rest of the
  program changing the queue and the handler in between.\<close>

datatype ConnEvent =
    EvTurn Turn
  | EvMessage bool
  | EvCommand bool
  | EvWorld Module "MgmtHandler option"

fun connStep :: "Peer \<Rightarrow> ConnEvent \<Rightarrow> RedisConn \<Rightarrow> RedisConn" where
  "connStep peer (EvTurn turn) c = (if rc_phase c = PhCommands then redisTurn peer turn c else c)"
| "connStep peer (EvMessage flushed) c = streamMessage flushed c"
| "connStep peer (EvCommand flushed) c = streamCommand peer flushed c"
| "connStep peer (EvWorld m h) c = c\<lparr>rc_module := m, rc_mgmt := h\<rparr>"

definition runConn :: "Peer \<Rightarrow> ConnEvent list \<Rightarrow> RedisConn \<Rightarrow> RedisConn" where
  "runConn peer evs c = foldl (\<lambda>c e. connStep peer e c) c evs"

definition worldModule :: "Module \<Rightarrow> ConnEvent list \<Rightarrow> Module" where
  "worldModule m evs = foldl (\<lambda>m e. case e of EvWorld m' _ \<Rightarrow> m' | _ \<Rightarrow> m) m evs"

definition errorsOnly :: "string \<Rightarrow> bool" where
  "errorsOnly out \<longleftrightarrow> (\<exists>ms. out = concat (map writeRedisError ms))"

definition streaming :: "ConnPhase \<Rightarrow> bool" where
  "streaming ph \<longleftrightarrow> (case ph of PhStream _ _ _ _ \<Rightarrow> True | _ \<Rightarrow> False)"

lemma streaming_simps [simp]:
  "\<not> streaming PhCommands" "\<not> streaming PhClosed" "\<not> streaming PhPanic" "streaming (PhStream ch t i a)"
  by (simp_all add: streaming_def)

lemma errorsOnly_Nil [simp]: "errorsOnly []"
  unfolding errorsOnly_def by (rule exI [of _ "[]"]) simp

lemma errorsOnly_append [simp]: "errorsOnly out \<Longrightarrow> errorsOnly (out @ writeRedisError m)"
  unfolding errorsOnly_def
proof (elim exE)
  fix ms assume "out = concat (map writeRedisError ms)"
  then have "out @ writeRedisError m = concat (map writeRedisError (ms @ [m]))" by simp
  then show "\<exists>ms. out @ writeRedisError m = concat (map writeRedisError ms)" by blast
qed

text \<open>The peer has shown nothing but errors, does not stream, and has not changed the queue.\<close>

definition shutOut :: "Module \<Rightarrow> RedisConn \<Rightarrow> bool" where
  "shutOut m c \<longleftrightarrow> \<not> rc_authed c \<and> rc_module c = m \<and> errorsOnly (rc_out c) \<and> \<not> streaming (rc_phase c)"

lemma shutOut_reply [simp]: "shutOut m c \<Longrightarrow> shutOut m (reply turn (writeRedisError e) c)"
  by (simp add: shutOut_def reply_def)

lemma shutOut_mgmt [simp]: "shutOut m (c\<lparr>rc_mgmt := h\<rparr>) = shutOut m c"
  by (simp add: shutOut_def)

lemma shutOut_in [simp]: "shutOut m (c\<lparr>rc_in := s\<rparr>) = shutOut m c"
  by (simp add: shutOut_def)

lemma shutOut_emptyKey: "shutOut m c \<Longrightarrow> shutOut m (fst (emptyKeyCheck peer turn c))"
  by (auto simp: emptyKeyCheck_def split: option.split prod.split)

lemma shutOut_replyUnauthenticated: "shutOut m c \<Longrightarrow> shutOut m (replyUnauthenticated peer turn c)"
  using shutOut_emptyKey [of m c peer turn] by (auto simp: replyUnauthenticated_def split: option.split prod.split)

lemma redisAuth_cases:
  assumes "shutOut m c"
  shows "shutOut m (redisAuth peer turn args c) \<or> rc_authed (redisAuth peer turn args c)"
proof (cases "parseAuthPassword args")
  case None
  then show ?thesis using assms shutOut_emptyKey [of m c peer turn]
    by (auto simp: redisAuth_def split: option.split prod.split)
next
  case (Some password)
  then show ?thesis using assms
    by (auto simp: redisAuth_def reply_def [of turn "writeRedisSimpleString ''OK''"] split: option.split prod.split)
qed

lemma redisTurn_cases:
  assumes "shutOut m c"
  shows "shutOut m (redisTurn peer turn c) \<or> rc_authed (redisTurn peer turn c)"
proof (cases "readRESPArray (pe_maxAlloc peer) (rc_in c)")
  case (Pair r s)
  show ?thesis
  proof (cases r)
    case (Return args)
    define c' where "c' = c\<lparr>rc_in := s\<rparr>"
    have so: "shutOut m c'" using assms by (simp add: c'_def)
    then have "\<not> rc_authed c'" by (simp add: shutOut_def)
    with so have "shutOut m (redisCommand peer turn args c') \<or> rc_authed (redisCommand peer turn args c')"
      using shutOut_replyUnauthenticated [OF so, of peer turn] redisAuth_cases [OF so, of peer turn args]
      by (simp add: redisCommand_def Let_def)
    then show ?thesis using Pair Return assms by (auto simp: redisTurn_def c'_def) (auto simp: shutOut_def)
  qed (use Pair assms in \<open>auto simp: redisTurn_def shutOut_def\<close>)
qed

lemma authed_endStream [simp]: "rc_authed (endStream topic i c) = rc_authed c"
  by (simp add: endStream_def split: option.split)

lemma authed_reply [simp]: "rc_authed (reply turn b c) = rc_authed c"
  by (simp add: reply_def)

lemma authed_emptyKey: "rc_authed (fst (emptyKeyCheck peer turn c)) = rc_authed c"
  by (auto simp: emptyKeyCheck_def split: option.split prod.split)

lemma authed_redisAuth: "rc_authed c \<Longrightarrow> rc_authed (redisAuth peer turn args c)"
proof (cases "parseAuthPassword args")
  case None
  then show "rc_authed c \<Longrightarrow> ?thesis" using authed_emptyKey [of peer turn c]
    by (auto simp: redisAuth_def split: option.split prod.split)
qed (auto simp: redisAuth_def split: option.split prod.split)

lemma authed_redisSubscribe: "rc_authed (redisSubscribe turn args c) = rc_authed c"
  by (auto simp: redisSubscribe_def Let_def split: option.split prod.split)

lemma authed_redisPop: "rc_authed (redisPop turn cmd args c) = rc_authed c"
  by (auto simp: redisPop_def Let_def split: option.split prod.split list.split)

lemma authed_replyUnauthenticated: "rc_authed (replyUnauthenticated peer turn c) = rc_authed c"
  using authed_emptyKey [of peer turn c] by (auto simp: replyUnauthenticated_def split: option.split prod.split)

lemma authed_redisCommand: "rc_authed c \<Longrightarrow> rc_authed (redisCommand peer turn args c)"
  by (simp add: redisCommand_def Let_def authed_redisAuth authed_redisSubscribe authed_redisPop)

lemma authed_streamMessage [simp]: "rc_authed (streamMessage f c) = rc_authed c"
  by (auto simp: streamMessage_def Let_def split: ConnPhase.split prod.split option.split)

lemma authed_streamCommand [simp]: "rc_authed (streamCommand peer f c) = rc_authed c"
  by (simp add: streamCommand_def Let_def split: ConnPhase.split prod.split)

lemma authed_redisTurn: "rc_authed c \<Longrightarrow> rc_authed (redisTurn peer turn c)"
  by (auto simp: redisTurn_def authed_redisCommand split: outcome.split prod.split)

lemma authed_stays: "rc_authed c \<Longrightarrow> rc_authed (connStep peer e c)"
  by (cases e) (simp_all add: authed_redisTurn)

lemma shutOut_step:
  assumes "shutOut m c"
  shows "shutOut (worldModule m [e]) (connStep peer e c) \<or> rc_authed (connStep peer e c)"
proof (cases e)
  case (EvTurn turn)
  then show ?thesis using assms redisTurn_cases by (auto simp: worldModule_def)
qed (use assms in \<open>auto simp: worldModule_def shutOut_def streamMessage_def streamCommand_def streaming_def split: ConnPhase.splits\<close>)

lemma shutOut_run:
  "shutOut m c \<Longrightarrow> shutOut (worldModule m evs) (runConn peer evs c) \<or> rc_authed (runConn peer evs c)"
proof (induction evs arbitrary: m c)
  case (Cons e evs)
  have stays: "rc_authed c' \<Longrightarrow> rc_authed (runConn peer es c')" for es c'
    by (induction es arbitrary: c') (auto simp: runConn_def authed_stays)
  have w: "worldModule m (e # evs) = worldModule (worldModule m [e]) evs" by (simp add: worldModule_def)
  have r: "runConn peer (e # evs) c = runConn peer evs (connStep peer e c)" by (simp add: runConn_def)
  from shutOut_step [OF Cons.prems, of e peer] show ?case
  proof
    assume "shutOut (worldModule m [e]) (connStep peer e c)"
    from Cons.IH [OF this] show ?thesis by (simp add: w r)
  qed (simp add: r stays)
qed (simp add: runConn_def worldModule_def)

text \<open>Only an accepted key authenticates.\<close>

lemma authed_by_key:
  assumes "\<not> rc_authed c" and "rc_authed (connStep peer e c)"
  shows "\<exists>password clock h. rc_mgmt c = Some h \<and>
    fst (snd (AuthenticateManagementKey (pe_bcrypt peer) (pe_clientIP peer) (pe_localClient peer) password clock (Some h)))"
proof (cases e)
  case (EvTurn turn)
  have e: "\<exists>args s. rc_authed (redisCommand peer turn args (c\<lparr>rc_in := s\<rparr>))"
    using assms EvTurn by (auto simp: redisTurn_def split: outcome.splits prod.splits if_splits)
  then obtain args s where "rc_authed (redisAuth peer turn args (c\<lparr>rc_in := s\<rparr>))"
    using assms(1) by (auto simp: redisCommand_def Let_def authed_redisSubscribe authed_redisPop authed_replyUnauthenticated split: if_splits)
  then obtain password h h' status msg where "rc_mgmt c = Some h"
    and "AuthenticateManagementKey (pe_bcrypt peer) (pe_clientIP peer) (pe_localClient peer) password (tn_clock turn) (Some h)
      = (h', True, status, msg)"
    using assms(1) authed_emptyKey [of peer turn "c\<lparr>rc_in := s\<rparr>"]
    by (auto simp: redisAuth_def split: option.splits prod.splits if_splits)
  then show ?thesis by (metis fst_conv snd_conv)
qed (use assms in auto)

section \<open>The client\<close>

text \<open>\<open>cl_io\<close> tells whether setting deadlines and writing succeed; \<open>cl_in\<close> is what the server sends.\<close>

record RespClient =
  cl_open :: bool
  cl_subscribed :: bool
  cl_io :: bool
  cl_in :: string
  cl_out :: string

definition Do :: "int \<Rightarrow> string list \<Rightarrow> RespClient \<Rightarrow> RespClient \<times> respValue outcome" where
  "Do maxAlloc args c =
     (if \<not> cl_open c then (c, Fail ErrClosed)
      else if cl_subscribed c then (c, Fail ErrSubscribeMode)
      else if \<not> cl_io c then (c, Fail ErrIO)
      else (case readValue maxAlloc (cl_in c) of
              (r, s) \<Rightarrow> (c\<lparr>cl_out := cl_out c @ encodeCommand args, cl_in := s\<rparr>, r)))"

definition ClientAuth :: "int \<Rightarrow> string \<Rightarrow> RespClient \<Rightarrow> RespClient \<times> unit outcome" where
  "ClientAuth maxAlloc key c =
     (case Do maxAlloc [''AUTH'', key] c of
        (c, Fail e) \<Rightarrow> (c, Fail e) | (c, Panic) \<Rightarrow> (c, Panic) | (c, Return _) \<Rightarrow> (c, Return ()))"

fun textOf :: "respValue \<Rightarrow> string option" where
  "textOf (VStr t) = Some t"
| "textOf _ = None"

fun popResult :: "respValue \<Rightarrow> string list outcome" where
  "popResult VNil = Return []"
| "popResult (VStr item) = Return (if item = [] then [] else [item])"
| "popResult (VArr item) = Return (List.map_filter textOf item)"
| "popResult (VInt _) = Fail ErrUnexpected"

definition popCommand :: "string \<Rightarrow> string" where
  "popCommand side = (if equal_fold side ''left'' \<or> equal_fold side ''lpop'' then ''LPOP'' else ''RPOP'')"

definition Pop :: "int \<Rightarrow> string \<Rightarrow> string \<Rightarrow> int \<Rightarrow> RespClient \<Rightarrow> RespClient \<times> string list outcome" where
  "Pop maxAlloc queue side count c =
     (case Do maxAlloc [popCommand side, queue, format_int count] c of
        (c, Fail e) \<Rightarrow> (c, Fail e) | (c, Panic) \<Rightarrow> (c, Panic) | (c, Return v) \<Rightarrow> (c, popResult v))"

definition textOr :: "respValue \<Rightarrow> string" where
  "textOr v = (case textOf v of Some t \<Rightarrow> t | None \<Rightarrow> [])"

definition Subscribe :: "int \<Rightarrow> string \<Rightarrow> RespClient \<Rightarrow> RespClient \<times> unit outcome" where
  "Subscribe maxAlloc channel c =
     (if \<not> cl_open c then (c, Fail ErrClosed)
      else if cl_subscribed c then (c, Fail ErrSubscribeMode)
      else if \<not> cl_io c then (c, Fail ErrIO)
      else (case readValue maxAlloc (cl_in c) of
              (r, s) \<Rightarrow>
                (let c = c\<lparr>cl_out := cl_out c @ encodeCommand [''SUBSCRIBE'', channel], cl_in := s\<rparr>
                 in case r of
                      Panic \<Rightarrow> (c, Panic)
                    | Fail e \<Rightarrow>
                        (let text = to_lower (respErrorText e)
                         in if contains text ''unknown command'' \<or> contains text ''unsupported''
                            then (c, Fail ErrUnsupportedSubscribe) else (c, Fail e))
                    | Return (VArr frame) \<Rightarrow>
                        if length frame < 3 then (c, Fail ErrUnexpected)
                        else if \<not> equal_fold (textOr (frame ! 0)) ''subscribe'' \<or> textOr (frame ! 1) \<noteq> channel
                        then (c, Fail ErrUnexpected)
                        else (c\<lparr>cl_subscribed := True\<rparr>, Return ())
                    | Return _ \<Rightarrow> (c, Fail ErrUnexpected))))"

text \<open>What \<open>ReadMessage\<close> makes of a value: a message, an error, or \<open>None\<close> to read on.\<close>

definition frameMessage :: "respValue \<Rightarrow> (string \<times> string) outcome option" where
  "frameMessage v =
     (case v of
        VArr frame \<Rightarrow>
          if frame = [] then None
          else let kind = to_lower (textOr (frame ! 0))
            in if kind = ''message''
               then Some (if length frame < 3 then Fail ErrUnexpected else Return (textOr (frame ! 1), textOr (frame ! 2)))
               else if kind = ''subscribe'' \<or> kind = ''unsubscribe'' \<or> kind = ''pong'' then None
               else Some (Fail ErrUnexpected)
      | VStr t \<Rightarrow> if equal_fold t ''PONG'' then None else Some (Fail ErrUnexpected)
      | _ \<Rightarrow> Some (Fail ErrUnexpected))"

function readFrames :: "int \<Rightarrow> string \<Rightarrow> (string \<times> string) reading" where
  "readFrames maxAlloc s =
     (case readValue maxAlloc s of
        (Fail e, s) \<Rightarrow> (Fail e, s)
      | (Panic, s) \<Rightarrow> (Panic, s)
      | (Return v, s) \<Rightarrow> (case frameMessage v of Some r \<Rightarrow> (r, s) | None \<Rightarrow> readFrames maxAlloc s))"
  by pat_completeness auto

termination
proof (relation "measure (\<lambda>(_, s). length s)", goal_cases)
  case (2 maxAlloc s r v s')
  show ?case
  proof (cases s)
    case (Cons c t)
    then have "length (snd (readValue maxAlloc s)) < length s" by (intro readValue_consumes) simp
    with 2 show ?thesis by (metis case_prod_conv in_measure snd_conv)
  qed (use 2 in simp)
qed simp

declare readFrames.simps [simp del]

definition ReadMessage :: "int \<Rightarrow> RespClient \<Rightarrow> RespClient \<times> (string \<times> string) outcome" where
  "ReadMessage maxAlloc c =
     (if \<not> cl_open c then (c, Fail ErrClosed)
      else if \<not> cl_subscribed c then (c, Fail ErrNotSubscribed)
      else (case readFrames maxAlloc (cl_in c) of (r, s) \<Rightarrow> (c\<lparr>cl_in := s\<rparr>, r)))"

definition SendSubscribePing :: "RespClient \<Rightarrow> RespClient \<times> unit outcome" where
  "SendSubscribePing c =
     (if \<not> cl_open c then (c, Fail ErrClosed)
      else if \<not> cl_subscribed c then (c, Fail ErrNotSubscribed)
      else if \<not> cl_io c then (c, Fail ErrIO)
      else (c\<lparr>cl_out := cl_out c @ encodeCommand [''PING'']\<rparr>, Return ()))"

section \<open>A pop over the wire\<close>

lemma to_upper_pop: "to_upper (trim_space (popCommand side)) = popCommand side"
proof -
  have "to_upper (trim_space ''LPOP'') = ''LPOP'' \<and> to_upper (trim_space ''RPOP'') = ''RPOP''" by code_simp
  then show ?thesis by (simp add: popCommand_def)
qed

lemma map_filter_text [simp]: "List.map_filter textOf (map VStr items) = items"
  by (induction items) (simp_all add: List.map_filter_simps)

lemma server_pops:
  assumes "rc_phase c = PhCommands" and "rc_authed c" and "tn_enabled turn" and "tn_flush turn"
    and "to_lower (trim_space queue) = redisUsageChannel" and "0 < count" and "in64 count"
    and "fitsAll (pe_maxAlloc peer) [popCommand side, queue, format_int count]"
    and pop: "PopOldest (tn_now turn) count (rc_module c) = (m, items)"
  shows "redisTurn peer turn (c\<lparr>rc_in := encodeCommand [popCommand side, queue, format_int count] @ rest\<rparr>)
     = c\<lparr>rc_in := rest, rc_module := m, rc_out := rc_out c @ writeRedisArrayOfBulkStrings items\<rparr>"
proof -
  have cmd: "popCommand side \<noteq> ''AUTH''" "popCommand side \<noteq> ''SUBSCRIBE''" "popCommand side = ''LPOP'' \<or> popCommand side = ''RPOP''"
    by (auto simp: popCommand_def)
  have "redisPop turn (popCommand side) [popCommand side, queue, format_int count] c'
      = reply turn (writeRedisArrayOfBulkStrings items) (c'\<lparr>rc_module := m\<rparr>)" if "rc_module c' = rc_module c" for c'
    using that assms by (simp add: redisPop_def parsePopCount_def popRedisQueueItems_def parse_format_int)
  then show ?thesis
    using assms cmd server_reads_command [of "pe_maxAlloc peer" "[popCommand side, queue, format_int count]" rest]
    by (simp add: redisTurn_def redisCommand_def Let_def to_upper_pop reply_def)
qed

text \<open>
  C10: Popping over the wire pops the queue. When an authenticated client asks for the oldest items
  and the server answers, the client returns exactly the payloads \<open>PopOldest\<close> takes from the queue,
  in their order and byte for byte, whatever bytes they hold; the server's queue is the one
  \<open>PopOldest\<close> leaves; and both sides stand at the start of the next message, so the protocol
  stays in step. (Within the sizes the runtime can allocate, here on either side.)\<close>
theorem pop_transports_queue:
  assumes "rc_phase c = PhCommands \<and> rc_authed c \<and> tn_enabled turn \<and> tn_flush turn"
    and "cl_open cl \<and> \<not> cl_subscribed cl \<and> cl_io cl"
    and "to_lower (trim_space queue) = redisUsageChannel" and "0 < count" and "in64 count"
    and "fitsAll (pe_maxAlloc peer) [popCommand side, queue, format_int count]"
    and "fitsAll maxAlloc (snd (PopOldest (tn_now turn) count (rc_module c)))"
  shows "let request = encodeCommand [popCommand side, queue, format_int count];
      c' = redisTurn peer turn (c\<lparr>rc_in := request @ rest\<rparr>);
      answer = drop (length (rc_out c)) (rc_out c')
    in rc_phase c' = PhCommands \<and> rc_in c' = rest \<and>
       rc_module c' = fst (PopOldest (tn_now turn) count (rc_module c)) \<and>
       Pop maxAlloc queue side count (cl\<lparr>cl_in := answer @ later\<rparr>)
         = (cl\<lparr>cl_in := later, cl_out := cl_out cl @ request\<rparr>, Return (snd (PopOldest (tn_now turn) count (rc_module c))))"
proof -
  obtain m items where pop: "PopOldest (tn_now turn) count (rc_module c) = (m, items)" by (rule prod.exhaust)
  have s: "redisTurn peer turn (c\<lparr>rc_in := encodeCommand [popCommand side, queue, format_int count] @ rest\<rparr>)
     = c\<lparr>rc_in := rest, rc_module := m, rc_out := rc_out c @ writeRedisArrayOfBulkStrings items\<rparr>"
    using assms pop by (intro server_pops) simp_all
  have "readValue maxAlloc (writeRedisArrayOfBulkStrings items @ later) = (Return (VArr (map VStr items)), later)"
    using assms pop by (intro client_reads_array) simp
  then show ?thesis using assms by (simp add: Let_def s pop Pop_def Do_def)
qed

definition sampleHandler :: MgmtHandler where
  "sampleHandler = NewHandler (Some (True, ''key'')) []"

definition samplePeer :: Peer where
  "samplePeer = \<lparr>pe_maxAlloc = 281474976710656, pe_bcrypt = (=), pe_clientIP = ''10.0.0.1'', pe_localClient = False\<rparr>"

definition sampleTurn :: Turn where
  "sampleTurn = \<lparr>tn_enabled = True, tn_clock = sampleClock 1000, tn_now = 1000, tn_flush = True\<rparr>"

definition sampleModule :: Module where
  "sampleModule = (case Enqueue 900 (''a'' @ CRLF) (initModule\<lparr>mo_enabled := True\<rparr>) of
     Some m \<Rightarrow> (case Enqueue 950 ''b'' m of Some m \<Rightarrow> m | None \<Rightarrow> m) | None \<Rightarrow> initModule)"

definition sampleConn :: RedisConn where
  "sampleConn = (newConn False [] (Some sampleHandler) sampleModule)\<lparr>rc_authed := True\<rparr>"

definition sampleClient :: RespClient where
  "sampleClient = \<lparr>cl_open = True, cl_subscribed = False, cl_io = True, cl_in = [], cl_out = []\<rparr>"

theorem pop_transports_queue_witness:
  "let request = encodeCommand [popCommand ''right'', ''usage'', format_int 5];
      c' = redisTurn samplePeer sampleTurn (sampleConn\<lparr>rc_in := request @ []\<rparr>);
      answer = drop (length (rc_out sampleConn)) (rc_out c')
    in snd (Pop 281474976710656 ''usage'' ''right'' 5 (sampleClient\<lparr>cl_in := answer @ []\<rparr>)) = Return [''a'' @ CRLF, ''b'']"
proof -
  have pop: "snd (PopOldest (tn_now sampleTurn) 5 (rc_module sampleConn)) = [''a'' @ CRLF, ''b'']" by code_simp
  have "rc_phase sampleConn = PhCommands \<and> rc_authed sampleConn \<and> tn_enabled sampleTurn \<and> tn_flush sampleTurn" by code_simp
  moreover have "cl_open sampleClient \<and> \<not> cl_subscribed sampleClient \<and> cl_io sampleClient" by code_simp
  moreover have "to_lower (trim_space ''usage'') = redisUsageChannel" by code_simp
  moreover have "fitsAll (pe_maxAlloc samplePeer) [popCommand ''right'', ''usage'', format_int 5]" by code_simp
  moreover have "fitsAll 281474976710656 (snd (PopOldest (tn_now sampleTurn) 5 (rc_module sampleConn)))"
    unfolding pop by code_simp
  ultimately show ?thesis
    using pop_transports_queue [of sampleConn sampleTurn sampleClient "''usage''" 5 samplePeer "''right''" 281474976710656 "[]" "[]"]
    by (simp add: Let_def pop in64_def)
qed

section \<open>Authentication comes first\<close>

lemma shutOut_new [simp]: "shutOut m (newConn home input mgmt m)"
  using errorsOnly_append [OF errorsOnly_Nil] by (simp add: newConn_def shutOut_def Let_def)

lemma authed_run:
  assumes "\<not> rc_authed c" and "rc_authed (runConn peer evs c)"
  shows "\<exists>pre password clock h. prefix pre evs \<and> rc_mgmt (runConn peer pre c) = Some h \<and>
    fst (snd (AuthenticateManagementKey (pe_bcrypt peer) (pe_clientIP peer) (pe_localClient peer) password clock (Some h)))"
  using assms
proof (induction evs rule: rev_induct)
  case (snoc e evs)
  show ?case
  proof (cases "rc_authed (runConn peer evs c)")
    case True
    with snoc show ?thesis by (metis prefix_order.trans prefixI)
  next
    case False
    moreover have "runConn peer (evs @ [e]) c = connStep peer e (runConn peer evs c)" by (simp add: runConn_def)
    ultimately show ?thesis using authed_by_key [of "runConn peer evs c" peer e] snoc.prems by (metis prefixI)
  qed
qed (simp add: runConn_def)


section \<open>The command loop ends\<close>

lemma rest_readRESPLine: "length (snd (readRESPLine s)) \<le> length s"
  by (simp add: readRESPLine_is_readLine rest_readLine)

lemma rest_readRESPBulkString: "length (snd (readRESPBulkString maxAlloc s)) \<le> length s"
proof -
  have "length (snd (andThen (ReadFull n s) (\<lambda>buf s. if P buf then (Fail ErrProtocol, s) else (Return (f buf), s)))) \<le> length s"
    for n P s and f :: "string \<Rightarrow> string"
    by (intro rest_andThen rest_ReadFull) simp
  then show ?thesis unfolding readRESPBulkString_def
    by (intro rest_andThen rest_readRESPLine) (auto split: option.split)
qed

lemma rest_ReadByte: "length (snd (ReadByte s)) \<le> length s"
  by (cases s) simp_all

lemma rest_readRESPString: "length (snd (readRESPString maxAlloc s)) \<le> length s"
  unfolding readRESPString_def
  by (intro rest_andThen rest_ReadByte) (simp add: rest_readRESPBulkString rest_readRESPLine)

lemma rest_readRESPArgs: "length (snd (readRESPArgs maxAlloc n s)) \<le> length s"
proof (induction n arbitrary: s)
  case (Suc n)
  then show ?case by (simp only: readRESPArgs.simps) (intro rest_andThen rest_readRESPString, simp)
qed simp

lemma readRESPArray_consumes: "readRESPArray maxAlloc s = (Return args, s') \<Longrightarrow> length s' < length s"
proof (cases s)
  case (Cons b t)
  assume r: "readRESPArray maxAlloc s = (Return args, s')"
  have "length (snd (andThen (readRESPLine t) (\<lambda>line s. case parse_int64 line of None \<Rightarrow> (Fail ErrProtocol, s)
       | Some count \<Rightarrow> if count < 0 then (Fail ErrProtocol, s)
           else if \<not> makeSlice maxAlloc stringSize count then (Panic, s) else readRESPArgs maxAlloc (nat count) s))) \<le> length t"
    by (intro rest_andThen rest_readRESPLine) (auto simp: rest_readRESPArgs split: option.split)
  then show ?thesis using r Cons by (auto simp: readRESPArray_def split: if_splits)
qed (simp add: readRESPArray_def)

lemma in_reply [simp]: "rc_in (reply turn b c) = rc_in c"
  by (simp add: reply_def)

lemma in_emptyKey: "rc_in (fst (emptyKeyCheck peer turn c)) = rc_in c"
  by (auto simp: emptyKeyCheck_def split: option.split prod.split)

lemma in_redisAuth: "rc_in (redisAuth peer turn args c) = rc_in c"
proof (cases "parseAuthPassword args")
  case None
  then show ?thesis using in_emptyKey [of peer turn c] by (auto simp: redisAuth_def split: option.split prod.split)
qed (auto simp: redisAuth_def split: option.split prod.split)

lemma in_redisCommand: "rc_in (redisCommand peer turn args c) = rc_in c"
proof -
  have "rc_in (redisSubscribe turn args c) = rc_in c"
    by (auto simp: redisSubscribe_def Let_def split: option.split prod.split)
  moreover have "rc_in (redisPop turn cmd args c) = rc_in c" for cmd
    by (auto simp: redisPop_def Let_def split: option.split prod.split list.split)
  moreover have "rc_in (replyUnauthenticated peer turn c) = rc_in c"
    using in_emptyKey [of peer turn c] by (auto simp: replyUnauthenticated_def split: option.split prod.split)
  ultimately show ?thesis by (simp add: redisCommand_def Let_def in_redisAuth)
qed

lemma redisTurn_consumes:
  assumes "rc_phase (redisTurn peer turn c) = PhCommands"
  shows "length (rc_in (redisTurn peer turn c)) < length (rc_in c)"
proof (cases "readRESPArray (pe_maxAlloc peer) (rc_in c)")
  case (Pair r s)
  show ?thesis
  proof (cases r)
    case (Return args)
    with Pair readRESPArray_consumes have "length s < length (rc_in c)" by blast
    then show ?thesis using Pair Return assms by (auto simp: redisTurn_def in_redisCommand split: if_splits)
  qed (use Pair assms in \<open>auto simp: redisTurn_def split: if_splits\<close>)
qed

definition isTurn :: "ConnEvent \<Rightarrow> bool" where
  "isTurn e = (case e of EvTurn _ \<Rightarrow> True | _ \<Rightarrow> False)"

lemma commands_only_from_commands:
  assumes "rc_phase (connStep peer e c) = PhCommands"
  shows "rc_phase c = PhCommands \<and> length (rc_in (connStep peer e c)) + (if isTurn e then 1 else 0) \<le> length (rc_in c)"
proof (cases e)
  case (EvTurn turn)
  with assms redisTurn_consumes [of peer turn c] show ?thesis by (auto simp: isTurn_def split: if_splits)
next
  case (EvMessage f)
  have "rc_phase (endStream topic i c) \<noteq> PhCommands" for topic i c by (simp add: endStream_def split: option.split)
  with assms EvMessage show ?thesis
    by (auto simp: isTurn_def streamMessage_def Let_def split: ConnPhase.splits prod.splits option.splits if_splits)
next
  case (EvCommand f)
  have "rc_phase (endStream topic i c) \<noteq> PhCommands" for topic i c by (simp add: endStream_def split: option.split)
  with assms EvCommand show ?thesis
    by (auto simp: isTurn_def streamCommand_def Let_def split: ConnPhase.splits prod.splits if_splits)
qed (use assms in \<open>simp add: isTurn_def\<close>)

lemma run_consumes:
  "rc_phase (runConn peer evs c) = PhCommands \<Longrightarrow> length (rc_in (runConn peer evs c)) + length (filter isTurn evs) \<le> length (rc_in c)"
proof (induction evs rule: rev_induct)
  case (snoc e evs)
  have r: "runConn peer (evs @ [e]) c = connStep peer e (runConn peer evs c)" by (simp add: runConn_def)
  from commands_only_from_commands [of peer e "runConn peer evs c"] snoc show ?case by (auto simp: r split: if_splits)
qed (simp add: runConn_def)

text \<open>
  C34: The command loop ends. Every pass either leaves the loop or consumes at least one byte, so a
  connection whose peer sends \<open>n\<close> bytes and closes makes at most \<open>n\<close> passes before it streams, is
  closed or has panicked, whatever the bytes are and whatever happens to the queue and the handler
  in between.\<close>
theorem redis_loop_ends:
  assumes "length input < length (filter isTurn evs)"
  shows "rc_phase (runConn peer evs (newConn home input mgmt m)) \<noteq> PhCommands"
  using run_consumes [of peer evs "newConn home input mgmt m"] assms by (auto simp: newConn_def Let_def)

theorem redis_loop_ends_witness:
  "rc_phase (runConn samplePeer (replicate 6 (EvTurn sampleTurn)) (newConn False (''*0'' @ CRLF) None initModule)) \<noteq> PhCommands"
  by (rule redis_loop_ends) (simp add: isTurn_def numeral_eq_Suc)

section \<open>A length the server cannot allocate\<close>

text \<open>
  An unauthenticated peer can stop the program. A bulk string announced with the greatest \<open>int\<close>
  as its length makes the server allocate a slice of negative length, as the sum with two
  wraps; the allocation panics in the goroutine of the connection, which does not recover, before
  any command is dispatched or key is checked, whatever follows and whatever the state of the server.\<close>
theorem huge_length_panics:
  "rc_phase (redisTurn peer (turn\<lparr>tn_enabled := True\<rparr>)
     (newConn False (''*1'' @ CRLF @ ''$9223372036854775807'' @ CRLF @ rest) mgmt m)) = PhPanic"
proof -
  have p: "parse_int64 ''1'' = Some 1" "parse_int64 ''9223372036854775807'' = Some 9223372036854775807" by code_simp+
  have l: "readRESPLine (''1'' @ CR # LF # s) = (Return ''1'', s)"
    "readRESPLine (''9223372036854775807'' @ CR # LF # s) = (Return ''9223372036854775807'', s)" for s
    by (rule readRESPLine_CRLF, simp)+
  have w: "wrap64 9223372036854775809 = -9223372036854775807" "\<not> makeSlice a 1 (-9223372036854775807)" for a
    by (simp_all add: makeSlice_def wrap64_def)
  show ?thesis using l by (simp add: redisTurn_def newConn_def readRESPArray_def readRESPString_def readRESPBulkString_def p w)
qed

section \<open>A subscription over the wire\<close>

lemma client_reads_header:
  assumes "48 \<le> maxAlloc" and "n = 2 \<or> n = 3"
  shows "readValue maxAlloc (writeRedisArrayHeader n @ rest) = mapReading VArr (readElements maxAlloc (nat n) rest)"
proof -
  have "in64 n" using assms(2) by (auto simp: in64_def)
  then show ?thesis using assms by (auto simp: writeRedisArrayHeader_def makeSlice_def)
qed

lemma fits_small: "48 \<le> maxAlloc \<Longrightarrow> maxAlloc \<le> max_int64 \<Longrightarrow> length p \<le> 20 \<Longrightarrow> fits maxAlloc p"
  by (simp add: fits_def)

lemma client_reads_message:
  assumes "48 \<le> maxAlloc" and "fits maxAlloc channel" and "fits maxAlloc p"
  shows "readValue maxAlloc (writeRedisPubSubMessage channel p @ rest)
    = (Return (VArr [VStr ''message'', VStr channel, VStr p]), rest)"
proof -
  have "fits maxAlloc ''message''" using assms by (intro fits_small) (simp_all add: fits_def)
  then show ?thesis using assms
    by (simp add: writeRedisPubSubMessage_def client_reads_header numeral_3_eq_3 client_reads_bulk del: readValue.simps)
qed

lemma client_reads_ack:
  assumes "48 \<le> maxAlloc" and "fits maxAlloc channel"
  shows "readValue maxAlloc (writeRedisPubSubSubscribe channel 1 @ rest)
    = (Return (VArr [VStr ''subscribe'', VStr channel, VInt 1]), rest)"
proof -
  have "fits maxAlloc ''subscribe''" using assms by (intro fits_small) (simp_all add: fits_def)
  moreover have "in64 1" by (simp add: in64_def)
  ultimately show ?thesis using assms
    by (simp add: writeRedisPubSubSubscribe_def client_reads_header numeral_3_eq_3 client_reads_bulk client_reads_integer
        del: readValue.simps)
qed

text \<open>The handshake: both sides agree that the subscription stands.\<close>

lemma subscribe_handshake:
  assumes "rc_phase c = PhCommands" and "rc_authed c" and "tn_enabled turn" and "tn_flush turn"
    and "cl_open cl \<and> \<not> cl_subscribed cl \<and> cl_io cl" and "48 \<le> maxAlloc" and "fits maxAlloc channel"
    and "fitsAll (pe_maxAlloc peer) [''SUBSCRIBE'', channel]" and "trim_space channel = channel"
    and sub: "subscribeRedisChannel channel (rc_module c) = Some (m, topic, i, a)"
  shows "redisTurn peer turn (c\<lparr>rc_in := encodeCommand [''SUBSCRIBE'', channel] @ rest\<rparr>)
      = c\<lparr>rc_in := rest, rc_module := m, rc_out := rc_out c @ writeRedisPubSubSubscribe channel 1,
          rc_phase := PhStream channel topic i a\<rparr>"
    and "Subscribe maxAlloc channel (cl\<lparr>cl_in := writeRedisPubSubSubscribe channel 1 @ later\<rparr>)
      = (cl\<lparr>cl_in := later, cl_out := cl_out cl @ encodeCommand [''SUBSCRIBE'', channel], cl_subscribed := True\<rparr>, Return ())"
proof -
  have "to_upper (trim_space ''SUBSCRIBE'') = ''SUBSCRIBE''" by code_simp
  then show "redisTurn peer turn (c\<lparr>rc_in := encodeCommand [''SUBSCRIBE'', channel] @ rest\<rparr>)
      = c\<lparr>rc_in := rest, rc_module := m, rc_out := rc_out c @ writeRedisPubSubSubscribe channel 1,
          rc_phase := PhStream channel topic i a\<rparr>"
    using assms server_reads_command [of "pe_maxAlloc peer" "[''SUBSCRIBE'', channel]" rest]
    by (simp add: redisTurn_def redisCommand_def redisSubscribe_def parseSubscribeChannel_def Let_def)
  show "Subscribe maxAlloc channel (cl\<lparr>cl_in := writeRedisPubSubSubscribe channel 1 @ later\<rparr>)
      = (cl\<lparr>cl_in := later, cl_out := cl_out cl @ encodeCommand [''SUBSCRIBE'', channel], cl_subscribed := True\<rparr>, Return ())"
    using assms client_reads_ack [of maxAlloc channel later] by (simp add: Subscribe_def Let_def textOr_def)
qed

fun readMessages :: "int \<Rightarrow> nat \<Rightarrow> RespClient \<Rightarrow> RespClient \<times> (string \<times> string) outcome list" where
  "readMessages maxAlloc 0 c = (c, [])"
| "readMessages maxAlloc (Suc n) c =
     (let (c, r) = ReadMessage maxAlloc c; (c, rs) = readMessages maxAlloc n c in (c, r # rs))"

definition streamBuffer :: "RedisConn \<Rightarrow> string list" where
  "streamBuffer c = (case rc_phase c of
     PhStream _ topic _ a \<Rightarrow> ch_buf (q_chans (topicQueue topic (rc_module c)) ! a) | _ \<Rightarrow> [])"

definition streamOpen :: "RedisConn \<Rightarrow> bool" where
  "streamOpen c \<longleftrightarrow> (case rc_phase c of
     PhStream _ topic _ a \<Rightarrow> a < length (q_chans (topicQueue topic (rc_module c))) | _ \<Rightarrow> False)"

lemma topicQueue_set [simp]: "topicQueue topic (setTopicQueue topic q m) = q"
  by (cases topic) (simp_all add: topicQueue_def setTopicQueue_def)

lemma streamMessage_takes:
  assumes "rc_phase c = PhStream channel topic i a" and "streamOpen c" and "streamBuffer c = p # ps"
  shows "rc_phase (streamMessage True c) = PhStream channel topic i a" and "streamOpen (streamMessage True c)"
    and "streamBuffer (streamMessage True c) = ps"
    and "rc_out (streamMessage True c) = rc_out c @ writeRedisPubSubMessage channel p"
  using assms by (auto simp: streamMessage_def streamOpen_def streamBuffer_def receive_def Let_def split: list.splits)

lemma streamMessages_take:
  assumes "rc_phase c = PhStream channel topic i a" and "streamOpen c"
  shows "rc_out ((streamMessage True ^^ length (streamBuffer c)) c) = rc_out c @ concat (map (writeRedisPubSubMessage channel) (streamBuffer c))
    \<and> streamBuffer ((streamMessage True ^^ length (streamBuffer c)) c) = []"
  using assms
proof (induction "streamBuffer c" arbitrary: c)
  case (Cons p ps)
  note take = streamMessage_takes [OF Cons.prems Cons(2) [symmetric]]
  from Cons(1) [of "streamMessage True c"] take
  have "rc_out ((streamMessage True ^^ length ps) (streamMessage True c)) = rc_out c @ concat (map (writeRedisPubSubMessage channel) (p # ps))
    \<and> streamBuffer ((streamMessage True ^^ length ps) (streamMessage True c)) = []"
    by simp
  then show ?case by (simp add: Cons(2) [symmetric] funpow_swap1)
qed simp

lemma client_reads_messages:
  assumes "48 \<le> maxAlloc" and "fits maxAlloc channel" and "list_all (fits maxAlloc) ps" and "cl_open cl" and "cl_subscribed cl"
  shows "readMessages maxAlloc (length ps) (cl\<lparr>cl_in := concat (map (writeRedisPubSubMessage channel) ps) @ later\<rparr>)
    = (cl\<lparr>cl_in := later\<rparr>, map (\<lambda>p. Return (channel, p)) ps)"
  using assms
proof (induction ps)
  case (Cons p ps)
  have "to_lower ''message'' = ''message''" by code_simp
  then have "readFrames maxAlloc (writeRedisPubSubMessage channel p @ s) = (Return (channel, p), s)" for s
    using Cons.prems client_reads_message [of maxAlloc channel p s]
    by (subst readFrames.simps) (simp add: frameMessage_def textOr_def)
  with Cons show ?case by (simp add: ReadMessage_def)
qed simp

text \<open>
  C32: Published payloads arrive. What waits in the channel of a subscription is written by the server's
  loop and read by the client as messages of that channel, one for one, in the order of
  publication and byte for byte; the channel is then empty and the client stands at the start of
  the next frame. (Within the sizes the runtime can allocate.)\<close>
theorem subscription_delivers:
  assumes "rc_phase c = PhStream channel topic i a" and "streamOpen c" and "cl_open cl \<and> cl_subscribed cl"
    and "48 \<le> maxAlloc" and "fits maxAlloc channel" and "list_all (fits maxAlloc) (streamBuffer c)"
  shows "let n = length (streamBuffer c); c' = (streamMessage True ^^ n) c; sent = drop (length (rc_out c)) (rc_out c')
    in streamBuffer c' = [] \<and>
       readMessages maxAlloc n (cl\<lparr>cl_in := sent @ later\<rparr>) = (cl\<lparr>cl_in := later\<rparr>, map (\<lambda>p. Return (channel, p)) (streamBuffer c))"
  using streamMessages_take [OF assms(1,2)] assms
    client_reads_messages [of maxAlloc channel "streamBuffer c" cl later]
  by (simp add: Let_def)

definition sampleStream :: RedisConn where
  "sampleStream = (let c = redisTurn samplePeer sampleTurn (sampleConn\<lparr>rc_in := encodeCommand [''SUBSCRIBE'', ''usage'']\<rparr>)
     in case Enqueue 2000 ''c'' (rc_module c) of None \<Rightarrow> c | Some m \<Rightarrow> c\<lparr>rc_module := m\<rparr>)"

theorem subscription_delivers_witness:
  "let n = length (streamBuffer sampleStream); c' = (streamMessage True ^^ n) sampleStream;
       sent = drop (length (rc_out sampleStream)) (rc_out c')
    in readMessages 4096 n (sampleClient\<lparr>cl_subscribed := True, cl_in := sent @ []\<rparr>)
         = (sampleClient\<lparr>cl_subscribed := True, cl_in := []\<rparr>,
            [Return (''usage'', usageSupportRefreshPayload), Return (''usage'', ''c'')])"
proof -
  have b: "streamBuffer sampleStream = [usageSupportRefreshPayload, ''c'']" by code_simp
  have "rc_phase sampleStream = PhStream ''usage'' UsageTopic 1 0" by code_simp
  moreover have "streamOpen sampleStream" by code_simp
  moreover have "cl_open (sampleClient\<lparr>cl_subscribed := True\<rparr>) \<and> cl_subscribed (sampleClient\<lparr>cl_subscribed := True\<rparr>)" by code_simp
  moreover have "fits 4096 ''usage''" by code_simp
  moreover have "list_all (fits 4096) (streamBuffer sampleStream)" unfolding b by code_simp
  ultimately show ?thesis
    using subscription_delivers [of sampleStream "''usage''" UsageTopic 1 0 "sampleClient\<lparr>cl_subscribed := True\<rparr>" 4096 "[]"]
    by (simp add: Let_def b)
qed

end
