(* ===== verification/RefreshHeap.thy ===== *)
theory RefreshHeap
  imports Prelude "HOL-Library.Multiset"
begin

text \<open>
  The queue of the refresh loop in \<open>backend/sdk/cliproxy/auth/auto_refresh_loop.go\<close>: the binary heap
  \<open>refreshMinHeap\<close> under the algorithms of \<open>container/heap\<close>, the items with the positions they keep of
  themselves, and the index from identifiers to items. Items are shared by pointer between the heap
  and the index, so they live in a store and both hold addresses. The lemmas show that the heap
  with its index is a finite map from identifiers to times that yields its due entries in order.
\<close>

section \<open>State\<close>

record refreshHeapItem =
  hi_id :: string
  hi_next :: gotime
  hi_index :: int

record refreshQueue =
  hq_heap :: "nat list"
  hq_index :: "(string, nat) gomap"
  hq_items :: "refreshHeapItem list"

definition itemAt :: "refreshQueue \<Rightarrow> nat \<Rightarrow> refreshHeapItem" where
  "itemAt q p = hq_items q ! (hq_heap q ! p)"

definition nextAt :: "refreshQueue \<Rightarrow> nat \<Rightarrow> gotime" where
  "nextAt q p = hi_next (itemAt q p)"

abbreviation heapLen :: "refreshQueue \<Rightarrow> nat" where
  "heapLen q \<equiv> length (hq_heap q)"

section \<open>The heap\<close>

definition heapLess :: "refreshQueue \<Rightarrow> nat \<Rightarrow> nat \<Rightarrow> bool" where
  "heapLess q i j \<longleftrightarrow> nextAt q i < nextAt q j"

definition setIndex :: "nat \<Rightarrow> int \<Rightarrow> refreshQueue \<Rightarrow> refreshQueue" where
  "setIndex a i q = q\<lparr>hq_items := (hq_items q)[a := (hq_items q ! a)\<lparr>hi_index := i\<rparr>]\<rparr>"

definition heapSwap :: "nat \<Rightarrow> nat \<Rightarrow> refreshQueue \<Rightarrow> refreshQueue" where
  "heapSwap i j q =
     (let q = q\<lparr>hq_heap := (hq_heap q)[i := hq_heap q ! j, j := hq_heap q ! i]\<rparr>
      in setIndex (hq_heap q ! j) (int j) (setIndex (hq_heap q ! i) (int i) q))"

text \<open>\<open>up\<close>, \<open>down\<close>, \<open>Push\<close>, \<open>Pop\<close>, \<open>Remove\<close> and \<open>Fix\<close> of \<open>container/heap\<close>; \<open>down\<close> also yields where it stopped.\<close>

function heapUp :: "nat \<Rightarrow> refreshQueue \<Rightarrow> refreshQueue" where
  "heapUp j q = (let i = (j - 1) div 2 in if i = j \<or> \<not> heapLess q j i then q else heapUp i (heapSwap i j q))"
  by pat_completeness auto
termination by (relation "measure fst") auto

function heapDown :: "nat \<Rightarrow> nat \<Rightarrow> refreshQueue \<Rightarrow> nat \<times> refreshQueue" where
  "heapDown i n q =
     (let j1 = 2 * i + 1
      in if j1 \<ge> n then (i, q)
         else let j2 = j1 + 1; j = (if j2 < n \<and> heapLess q j2 j1 then j2 else j1)
           in if \<not> heapLess q j i then (i, q) else heapDown j n (heapSwap i j q))"
  by pat_completeness auto
termination by (relation "measure (\<lambda>(i, n, q). n - i)") auto

declare heapUp.simps [simp del] heapDown.simps [simp del]

text \<open>The methods of \<open>refreshMinHeap\<close> that grow and shrink the slice.\<close>

definition slicePush :: "nat \<Rightarrow> refreshQueue \<Rightarrow> refreshQueue" where
  "slicePush a q = (let q = setIndex a (int (heapLen q)) q in q\<lparr>hq_heap := hq_heap q @ [a]\<rparr>)"

definition slicePop :: "refreshQueue \<Rightarrow> refreshQueue \<times> nat option" where
  "slicePop q =
     (if hq_heap q = [] then (q, None)
      else let a = last (hq_heap q); q = setIndex a (-1) q in (q\<lparr>hq_heap := butlast (hq_heap q)\<rparr>, Some a))"

definition heapPush :: "nat \<Rightarrow> refreshQueue \<Rightarrow> refreshQueue" where
  "heapPush a q = (let q = slicePush a q in heapUp (heapLen q - 1) q)"

definition heapPop :: "refreshQueue \<Rightarrow> refreshQueue \<times> nat option" where
  "heapPop q = (let n = heapLen q - 1; q = heapSwap 0 n q; (_, q) = heapDown 0 n q in slicePop q)"

definition heapSettle :: "nat \<Rightarrow> nat \<Rightarrow> refreshQueue \<Rightarrow> refreshQueue" where
  "heapSettle i n q = (let (i', q) = heapDown i n q in if \<not> i' > i then heapUp i q else q)"

definition heapRemove :: "nat \<Rightarrow> refreshQueue \<Rightarrow> refreshQueue \<times> nat option" where
  "heapRemove i q =
     (let n = heapLen q - 1; q = (if n \<noteq> i then heapSettle i n (heapSwap i n q) else q) in slicePop q)"

definition heapFix :: "nat \<Rightarrow> refreshQueue \<Rightarrow> refreshQueue" where
  "heapFix i q = heapSettle i (heapLen q) q"

section \<open>The operations of the loop\<close>

definition newItem :: "string \<Rightarrow> gotime \<Rightarrow> refreshQueue \<Rightarrow> refreshQueue \<times> nat" where
  "newItem authID nxt q =
     (q\<lparr>hq_items := hq_items q @ [\<lparr>hi_id = authID, hi_next = nxt, hi_index = 0\<rparr>]\<rparr>, length (hq_items q))"

definition insertItem :: "string \<Rightarrow> gotime \<Rightarrow> refreshQueue \<Rightarrow> refreshQueue" where
  "insertItem authID nxt q =
     (let (q, a) = newItem authID nxt q; q = heapPush a q in q\<lparr>hq_index := m_put authID a (hq_index q)\<rparr>)"

definition upsert :: "string \<Rightarrow> gotime \<Rightarrow> refreshQueue \<Rightarrow> refreshQueue" where
  "upsert authID nxt q =
     (if authID = [] \<or> is_zero nxt then q
      else case m_get (hq_index q) authID of
             Some a \<Rightarrow>
               (let q = q\<lparr>hq_items := (hq_items q)[a := (hq_items q ! a)\<lparr>hi_next := nxt\<rparr>]\<rparr>
                in heapFix (nat (hi_index (hq_items q ! a))) q)
           | None \<Rightarrow> insertItem authID nxt q)"

definition removeID :: "string \<Rightarrow> refreshQueue \<Rightarrow> refreshQueue" where
  "removeID authID q =
     (if authID = [] then q
      else case m_get (hq_index q) authID of
             None \<Rightarrow> q
           | Some a \<Rightarrow>
               (let (q, _) = heapRemove (nat (hi_index (hq_items q ! a))) q
                in q\<lparr>hq_index := m_del authID (hq_index q)\<rparr>))"

definition peek :: "refreshQueue \<Rightarrow> gotime option" where
  "peek q = (if hq_heap q = [] then None else Some (nextAt q 0))"

text \<open>One pass of the loop of \<open>popDue\<close>; the loop ends as every pass shortens the heap.\<close>

definition popFirst :: "refreshQueue \<Rightarrow> refreshQueue \<times> string" where
  "popFirst q =
     (case heapPop q of
        (q, None) \<Rightarrow> (q, [])
      | (q, Some a) \<Rightarrow> (q\<lparr>hq_index := m_del (hi_id (hq_items q ! a)) (hq_index q)\<rparr>, hi_id (hq_items q ! a)))"

lemma nth_upd: "xs[a := x] ! b = (if b = a \<and> a < length xs then x else xs ! b)"
  by (cases "a < length xs") (auto simp: nth_list_update list_update_beyond)

lemma setIndex_fields [simp]:
  "hq_heap (setIndex a k q) = hq_heap q" "hq_index (setIndex a k q) = hq_index q"
  "length (hq_items (setIndex a k q)) = length (hq_items q)"
  "hi_id (hq_items (setIndex a k q) ! b) = hi_id (hq_items q ! b)"
  "hi_next (hq_items (setIndex a k q) ! b) = hi_next (hq_items q ! b)"
  by (simp_all add: setIndex_def nth_upd)

lemma heapSwap_fields [simp]:
  "heapLen (heapSwap i j q) = heapLen q" "hq_index (heapSwap i j q) = hq_index q"
  "length (hq_items (heapSwap i j q)) = length (hq_items q)"
  "hi_id (hq_items (heapSwap i j q) ! a) = hi_id (hq_items q ! a)"
  "hi_next (hq_items (heapSwap i j q) ! a) = hi_next (hq_items q ! a)"
  "hq_heap (heapSwap i j q) = (hq_heap q)[i := hq_heap q ! j, j := hq_heap q ! i]"
  by (simp_all add: heapSwap_def Let_def)

lemma heapDown_len [simp]: "heapLen (snd (heapDown i n q)) = heapLen q"
proof (induction i n q rule: heapDown.induct)
  case (1 i n q)
  then show ?case by (subst heapDown.simps) (auto simp: Let_def)
qed

lemma slicePop_len: "heapLen (fst (slicePop q)) = heapLen q - 1"
  by (simp add: slicePop_def Let_def)

lemma heapPop_len: "heapLen (fst (heapPop q)) = heapLen q - 1"
proof -
  obtain i r where d: "heapDown 0 (heapLen q - 1) (heapSwap 0 (heapLen q - 1) q) = (i, r)" by (rule prod.exhaust)
  have "heapLen r = heapLen q" using arg_cong [OF d, of "\<lambda>x. heapLen (snd x)"] by simp
  then show ?thesis by (simp only: heapPop_def Let_def d case_prod_conv slicePop_len)
qed

function popDue :: "gotime \<Rightarrow> refreshQueue \<Rightarrow> refreshQueue \<times> string list" where
  "popDue now q =
     (if hq_heap q = [] \<or> nextAt q 0 > now then (q, [])
      else let (q, authID) = popFirst q; (q, due) = popDue now q in (q, authID # due))"
  by pat_completeness auto
termination
proof (relation "measure (\<lambda>(now, q). heapLen q)", goal_cases)
  case (2 now q x q' authID)
  then have "q' = fst (popFirst q)" by (metis fst_conv)
  moreover have "heapLen (fst (popFirst q)) = heapLen (fst (heapPop q))"
    by (simp add: popFirst_def split: prod.split option.split)
  ultimately show ?case using 2 heapPop_len [of q] by (simp add: not_le)
qed simp

declare popDue.simps [simp del]

text \<open>The second part of \<open>rebuild\<close>: the scheduled entries become the queue.\<close>

definition rebuildQueue :: "(string \<times> gotime) list \<Rightarrow> refreshQueue \<Rightarrow> refreshQueue" where
  "rebuildQueue entries q =
     foldl (\<lambda>q (authID, nxt). insertItem authID nxt q) (q\<lparr>hq_heap := [], hq_index := []\<rparr>) entries"

definition emptyQueueState :: refreshQueue where
  "emptyQueueState = \<lparr>hq_heap = [], hq_index = [], hq_items = []\<rparr>"

section \<open>The links between heap and items\<close>

text \<open>Every slot of the heap holds an item of the store, no item twice, and an item knows its slot.\<close>

definition linked :: "refreshQueue \<Rightarrow> bool" where
  "linked q \<longleftrightarrow> distinct (hq_heap q) \<and> (\<forall>p < heapLen q. hq_heap q ! p < length (hq_items q) \<and> hi_index (itemAt q p) = int p)"

text \<open>What sifting leaves alone: the items up to their positions, the index, the items of the heap.\<close>

definition samePool :: "refreshQueue \<Rightarrow> refreshQueue \<Rightarrow> bool" where
  "samePool q r \<longleftrightarrow> mset (hq_heap r) = mset (hq_heap q) \<and> hq_index r = hq_index q
     \<and> length (hq_items r) = length (hq_items q)
     \<and> (\<forall>a. hi_id (hq_items r ! a) = hi_id (hq_items q ! a) \<and> hi_next (hq_items r ! a) = hi_next (hq_items q ! a))"

lemma samePool_refl [simp]: "samePool q q"
  by (simp add: samePool_def)

lemma samePool_trans: "samePool q r \<Longrightarrow> samePool r s \<Longrightarrow> samePool q s"
  by (simp add: samePool_def)

lemma samePoolD:
  assumes "samePool q r"
  shows "heapLen r = heapLen q" "set (hq_heap r) = set (hq_heap q)" "hq_index r = hq_index q"
    "length (hq_items r) = length (hq_items q)" "hi_id (hq_items r ! a) = hi_id (hq_items q ! a)"
    "hi_next (hq_items r ! a) = hi_next (hq_items q ! a)"
  using assms mset_eq_length [of "hq_heap r" "hq_heap q"] mset_eq_setD [of "hq_heap r" "hq_heap q"]
  by (auto simp: samePool_def)

lemma nextAt_swap:
  "i < heapLen q \<Longrightarrow> j < heapLen q \<Longrightarrow>
   nextAt (heapSwap i j q) p = (if p = j then nextAt q i else if p = i then nextAt q j else nextAt q p)"
  by (simp add: nextAt_def itemAt_def nth_upd)

lemma heapSwap_pool:
  assumes "i < heapLen q" and "j < heapLen q"
  shows "samePool q (heapSwap i j q)"
  using assms by (simp add: samePool_def mset_swap)

lemma linked_inj: "linked q \<Longrightarrow> p < heapLen q \<Longrightarrow> p' < heapLen q \<Longrightarrow> hq_heap q ! p = hq_heap q ! p' \<longleftrightarrow> p = p'"
  by (simp add: linked_def nth_eq_iff_index_eq)

lemma heapSwap_linked:
  assumes l: "linked q" and i: "i < heapLen q" and j: "j < heapLen q"
  shows "linked (heapSwap i j q)"
proof -
  let ?h = "(hq_heap q)[i := hq_heap q ! j, j := hq_heap q ! i]"
  have d: "distinct ?h" using l i j by (simp add: linked_def distinct_swap)
  have h: "?h ! p = hq_heap q ! (if p = j then i else if p = i then j else p)" for p using i j by (simp add: nth_upd)
  have ix: "hi_index (hq_items (heapSwap i j q) ! (?h ! p)) = int p \<and> ?h ! p < length (hq_items q)"
    if p: "p < heapLen q" for p
    using l p i j linked_inj [OF l p i] linked_inj [OF l p j] linked_inj [OF l i j]
    by (auto simp: heapSwap_def Let_def setIndex_def nth_upd h linked_def itemAt_def)
  show ?thesis unfolding linked_def itemAt_def using d ix by simp
qed

section \<open>The heap order\<close>

definition par :: "nat \<Rightarrow> nat" where
  "par p = (p - 1) div 2"

lemma par_less: "0 < p \<Longrightarrow> par p < p"
  by (simp add: par_def)

lemma par_eq_iff: "0 < p \<Longrightarrow> par p = i \<longleftrightarrow> p = 2 * i + 1 \<or> p = 2 * i + 2"
  by (auto simp: par_def)

lemma par_self: "par p = p \<longleftrightarrow> p = 0"
  using par_less [of p] by (cases "p = 0") (auto simp: par_def)

lemma par_child [simp]: "par (Suc (2 * i)) = i" "par (Suc (Suc (2 * i))) = i"
  by (simp_all add: par_def)

lemma heapUp_par: "heapUp j q = (if par j = j \<or> \<not> heapLess q j (par j) then q else heapUp (par j) (heapSwap (par j) j q))"
  by (subst heapUp.simps) (simp add: Let_def par_def)

definition heapTo :: "nat \<Rightarrow> refreshQueue \<Rightarrow> bool" where
  "heapTo n q \<longleftrightarrow> (\<forall>p < n. 0 < p \<longrightarrow> nextAt q (par p) \<le> nextAt q p)"

text \<open>
  The order holds but at \<open>i\<close>: towards its parent, its children, or both. The children of \<open>i\<close> stay
  below the parent of \<open>i\<close>, so that moving \<open>i\<close> away restores the order behind it.
\<close>

definition bypass :: "nat \<Rightarrow> nat \<Rightarrow> refreshQueue \<Rightarrow> bool" where
  "bypass i n q \<longleftrightarrow> (\<forall>p < n. 0 < p \<and> 0 < i \<and> par p = i \<longrightarrow> nextAt q (par i) \<le> nextAt q p)"

definition exceptUp :: "nat \<Rightarrow> nat \<Rightarrow> refreshQueue \<Rightarrow> bool" where
  "exceptUp i n q \<longleftrightarrow> (\<forall>p < n. 0 < p \<and> p \<noteq> i \<longrightarrow> nextAt q (par p) \<le> nextAt q p) \<and> bypass i n q"

definition exceptAt :: "nat \<Rightarrow> nat \<Rightarrow> refreshQueue \<Rightarrow> bool" where
  "exceptAt i n q \<longleftrightarrow> (\<forall>p < n. 0 < p \<and> p \<noteq> i \<and> par p \<noteq> i \<longrightarrow> nextAt q (par p) \<le> nextAt q p) \<and> bypass i n q"

lemma heapUp_correct:
  "linked q \<Longrightarrow> j < n \<Longrightarrow> n \<le> heapLen q \<Longrightarrow> exceptUp j n q \<Longrightarrow>
   linked (heapUp j q) \<and> samePool q (heapUp j q) \<and> heapTo n (heapUp j q) \<and> (\<forall>p. n \<le> p \<longrightarrow> hq_heap (heapUp j q) ! p = hq_heap q ! p)"
proof (induction j q rule: heapUp.induct)
  case (1 j q)
  let ?i = "par j" and ?q = "heapSwap (par j) j q"
  show ?case
  proof (cases "?i = j \<or> \<not> heapLess q j ?i")
    case True
    then have "heapTo n q" using 1 by (auto simp: heapTo_def exceptUp_def heapLess_def not_less)
    with True 1 show ?thesis by (simp add: heapUp_par [of j])
  next
    case False
    then have pos: "0 < j" and lt: "nextAt q j < nextAt q ?i" by (auto simp: heapLess_def par_self)
    have i: "?i < j" using pos by (rule par_less)
    have b: "?i < heapLen q" "j < heapLen q" using 1 i by auto
    note sw = nextAt_swap [OF b]
    have "exceptUp ?i n ?q"
      unfolding exceptUp_def bypass_def
    proof (intro conjI allI impI)
      fix p assume p: "p < n" "0 < p \<and> p \<noteq> ?i"
      have up: "p \<noteq> j \<Longrightarrow> nextAt q (par p) \<le> nextAt q p" using p 1 by (auto simp: exceptUp_def)
      have under: "par p = j \<Longrightarrow> nextAt q ?i \<le> nextAt q p" using p pos 1 by (auto simp: exceptUp_def bypass_def)
      show "nextAt ?q (par p) \<le> nextAt ?q p"
        using up under lt p i unfolding sw by (auto dest: par_less)
    next
      fix p assume p: "p < n" "0 < p \<and> 0 < ?i \<and> par p = ?i"
      have a: "nextAt q (par ?i) \<le> nextAt q ?i" using 1 i p by (auto simp: exceptUp_def)
      have c: "p \<noteq> j \<Longrightarrow> nextAt q ?i \<le> nextAt q p" using 1 p by (auto simp: exceptUp_def)
      have g: "par ?i < ?i" "?i < p" using p par_less [of ?i] par_less [of p] by auto
      then have g: "par ?i \<noteq> j" "par ?i \<noteq> ?i" "p \<noteq> ?i" using i by auto
      then show "nextAt ?q (par ?i) \<le> nextAt ?q p"
        using a c lt p unfolding sw by auto
    qed
    then have ih: "linked (heapUp ?i ?q) \<and> samePool ?q (heapUp ?i ?q) \<and> heapTo n (heapUp ?i ?q)
        \<and> (\<forall>p. n \<le> p \<longrightarrow> hq_heap (heapUp ?i ?q) ! p = hq_heap ?q ! p)"
      using 1(1) [of ?i] 1(2-4) False b i heapSwap_linked [OF _ b] by (simp add: par_def)
    have u: "heapUp j q = heapUp ?i ?q" using False by (simp add: heapUp_par [of j])
    show ?thesis
      unfolding u using ih samePool_trans [OF heapSwap_pool [OF b]] 1(3) i by (auto simp: nth_upd)
  qed
qed

text \<open>A step down: the smaller child comes up and the hole goes to its place.\<close>

lemma swap_down:
  assumes e: "exceptAt i n q" and i: "i < n" and n: "n \<le> heapLen q"
    and j: "j < n" "0 < j" "par j = i" and least: "\<And>k. k < n \<Longrightarrow> 0 < k \<Longrightarrow> par k = i \<Longrightarrow> nextAt q j \<le> nextAt q k"
    and lt: "nextAt q j < nextAt q i"
  shows "exceptAt j n (heapSwap i j q)"
    and "0 < i \<Longrightarrow> nextAt (heapSwap i j q) (par i) \<le> nextAt (heapSwap i j q) i"
    and "nextAt (heapSwap i j q) i \<le> nextAt (heapSwap i j q) j"
    and "\<And>p. p < n \<Longrightarrow> 0 < p \<Longrightarrow> par p = i \<Longrightarrow> nextAt (heapSwap i j q) i \<le> nextAt (heapSwap i j q) p"
proof -
  have ij: "i < j" using j par_less [of j] by simp
  have b: "i < heapLen q" "j < heapLen q" using i j n by auto
  note sw = nextAt_swap [OF b]
  show up: "nextAt (heapSwap i j q) (par i) \<le> nextAt (heapSwap i j q) i" if "0 < i"
    using e j that ij par_less [of i] unfolding sw exceptAt_def bypass_def by auto
  show mid: "nextAt (heapSwap i j q) i \<le> nextAt (heapSwap i j q) j" using lt ij unfolding sw by simp
  show kids: "nextAt (heapSwap i j q) i \<le> nextAt (heapSwap i j q) p" if "p < n" "0 < p" "par p = i" for p
    using least [OF that] lt ij par_less [of p] that unfolding sw by auto
  show "exceptAt j n (heapSwap i j q)"
    unfolding exceptAt_def bypass_def
  proof (intro conjI allI impI)
    fix p assume p: "p < n" "0 < p \<and> p \<noteq> j \<and> par p \<noteq> j"
    show "nextAt (heapSwap i j q) (par p) \<le> nextAt (heapSwap i j q) p"
    proof (cases "par p = i \<or> p = i")
      case True
      then show ?thesis using p kids up by auto
    next
      case False
      then show ?thesis using e p unfolding sw exceptAt_def by auto
    qed
  next
    fix p assume p: "p < n" "0 < p \<and> 0 < j \<and> par p = j"
    then have "j < p" using par_less [of p] by simp
    then have "nextAt q j \<le> nextAt q p" using e p ij unfolding exceptAt_def by auto
    then show "nextAt (heapSwap i j q) (par j) \<le> nextAt (heapSwap i j q) p"
      using \<open>j < p\<close> ij j unfolding sw by auto
  qed
qed

lemma heapDown_correct:
  assumes "linked q" and "i < n" and "n \<le> heapLen q" and "exceptAt i n q" and "heapDown i n q = (i', r)"
  shows "linked r \<and> samePool q r \<and> (\<forall>p. n \<le> p \<longrightarrow> hq_heap r ! p = hq_heap q ! p) \<and> i \<le> i'
    \<and> (i' = i \<longrightarrow> r = q \<and> exceptUp i n q)
    \<and> (i' \<noteq> i \<or> (0 < i \<longrightarrow> nextAt q (par i) \<le> nextAt q i) \<longrightarrow> heapTo n r)"
  using assms
proof (induction i n q arbitrary: i' r rule: heapDown.induct)
  case (1 i n q)
  let ?j1 = "2 * i + 1" and ?j2 = "2 * i + 2"
  define j where "j = (if ?j2 < n \<and> heapLess q ?j2 ?j1 then ?j2 else ?j1)"
  have eq: "heapDown i n q = (if ?j1 \<ge> n \<or> \<not> heapLess q j i then (i, q) else heapDown j n (heapSwap i j q))"
    by (subst heapDown.simps) (simp add: Let_def j_def)
  have jp: "0 < j" "par j = i" by (simp_all add: j_def)
  show ?case
  proof (cases "?j1 \<ge> n \<or> \<not> heapLess q j i")
    case True
    have kids: "nextAt q i \<le> nextAt q p" if p: "p < n" "0 < p" "par p = i" for p
      using True p(1) par_eq_iff [OF p(2), of i] p(3) by (auto simp: j_def heapLess_def not_less split: if_splits)
    have "exceptUp i n q" using 1(5) kids by (auto simp: exceptAt_def exceptUp_def)
    then show ?thesis using True 1 by (auto simp: eq heapTo_def exceptUp_def)
  next
    case False
    have j: "j < n" and lt: "nextAt q j < nextAt q i" using False by (auto simp: j_def heapLess_def)
    have least: "nextAt q j \<le> nextAt q k" if k: "k < n" "0 < k" "par k = i" for k
      using k(1) par_eq_iff [OF k(2), of i] k(3) by (auto simp: j_def heapLess_def not_less)
    note sd = swap_down [OF 1(5,3,4) j jp least lt]
    have ij: "i < j" using jp par_less [of j] by simp
    have b: "i < heapLen q" "j < heapLen q" using 1(4) j ij by auto
    have rec: "heapDown j n (heapSwap i j q) = (i', r)" using False 1(6) eq by simp
    have ih: "linked r \<and> samePool (heapSwap i j q) r \<and> (\<forall>p. n \<le> p \<longrightarrow> hq_heap r ! p = hq_heap (heapSwap i j q) ! p) \<and> j \<le> i'
      \<and> (i' = j \<longrightarrow> r = heapSwap i j q \<and> exceptUp j n (heapSwap i j q))
      \<and> (i' \<noteq> j \<or> (0 < j \<longrightarrow> nextAt (heapSwap i j q) (par j) \<le> nextAt (heapSwap i j q) j) \<longrightarrow> heapTo n r)"
    proof (rule 1(1) [of ?j1 ?j2 j i' r])
      show "j = (if ?j2 < n \<and> heapLess q ?j2 ?j1 then ?j2 else ?j1)" by (rule j_def)
      show "n \<le> heapLen (heapSwap i j q)" using 1(4) by simp
      show "\<not> n \<le> ?j1" "\<not> \<not> heapLess q j i" using False by blast+
    qed (rule heapSwap_linked [OF 1(2) b] sd(1) rec j | simp)+
    have "heapTo n r" using ih sd(3) unfolding jp(2) by blast
    moreover have "samePool q r" using ih samePool_trans [OF heapSwap_pool [OF b]] by blast
    moreover have "i < i'" using ih ij by linarith
    moreover have "hq_heap r ! p = hq_heap q ! p" if p: "n \<le> p" for p
    proof -
      have "p \<noteq> i" "p \<noteq> j" using p j ij by linarith+
      then show ?thesis using ih p by (simp add: nth_upd)
    qed
    ultimately show ?thesis using ih by simp
  qed
qed

lemma heapSettle_correct:
  assumes "linked q" and "i < n" and "n \<le> heapLen q" and "exceptAt i n q"
  shows "linked (heapSettle i n q)" and "samePool q (heapSettle i n q)" and "heapTo n (heapSettle i n q)"
    and "\<And>p. n \<le> p \<Longrightarrow> hq_heap (heapSettle i n q) ! p = hq_heap q ! p"
proof -
  obtain i' r where d: "heapDown i n q = (i', r)" by (rule prod.exhaust)
  have eq: "heapSettle i n q = (if \<not> i' > i then heapUp i r else r)" by (simp add: heapSettle_def d)
  note down = heapDown_correct [OF assms d]
  have "linked (heapSettle i n q) \<and> samePool q (heapSettle i n q) \<and> heapTo n (heapSettle i n q)
    \<and> (\<forall>p. n \<le> p \<longrightarrow> hq_heap (heapSettle i n q) ! p = hq_heap q ! p)"
  proof (cases "i' > i")
    case True
    then show ?thesis using down by (simp add: eq)
  next
    case False
    then have "r = q" "exceptUp i n q" using down by auto
    then show ?thesis using False heapUp_correct [OF assms(1-3)] by (simp add: eq)
  qed
  then show "linked (heapSettle i n q)" "samePool q (heapSettle i n q)" "heapTo n (heapSettle i n q)"
    "\<And>p. n \<le> p \<Longrightarrow> hq_heap (heapSettle i n q) ! p = hq_heap q ! p" by blast+
qed

lemma heapTo_mono: "heapTo n q \<Longrightarrow> m \<le> n \<Longrightarrow> heapTo m q"
  by (simp add: heapTo_def)

lemma heapTo_cong: "heapTo n q \<Longrightarrow> (\<And>p. p < n \<Longrightarrow> nextAt r p = nextAt q p) \<Longrightarrow> heapTo n r"
  using par_less by (metis (no_types, lifting) heapTo_def less_trans)

lemma heapTo_trans: "heapTo n q \<Longrightarrow> 0 < p \<Longrightarrow> p < n \<Longrightarrow> par (par p) < n \<Longrightarrow> nextAt q (par (par p)) \<le> nextAt q p"
  using par_less [of p] unfolding heapTo_def by (metis less_trans order_trans neq0_conv par_self)

lemma heapTo_root:
  assumes "heapTo n q"
  shows "p < n \<Longrightarrow> nextAt q 0 \<le> nextAt q p"
proof (induction p rule: less_induct)
  case (less p)
  show ?case
  proof (cases "p = 0")
    case False
    then have "par p < p" by (simp add: par_less)
    then have "nextAt q 0 \<le> nextAt q (par p)" using less by simp
    also have "\<dots> \<le> nextAt q p" using assms less(2) False by (simp add: heapTo_def)
    finally show ?thesis .
  qed simp
qed

text \<open>Overwriting the time of one slot leaves the order everywhere but at that slot.\<close>

lemma exceptAt_change:
  assumes h: "heapTo n q" and i: "i < n" and n: "m \<le> n"
    and same: "\<And>p. p < m \<Longrightarrow> p \<noteq> i \<Longrightarrow> nextAt r p = nextAt q p"
  shows "exceptAt i m r"
  unfolding exceptAt_def bypass_def
proof (intro conjI allI impI)
  fix p assume p: "p < m" "0 < p \<and> p \<noteq> i \<and> par p \<noteq> i"
  then have "par p < m" using par_less [of p] by simp
  then show "nextAt r (par p) \<le> nextAt r p" using p h n by (simp add: same heapTo_def)
next
  fix p assume p: "p < m" "0 < p \<and> 0 < i \<and> par p = i"
  then have lt: "i < p" "par i < i" using par_less [of p] par_less [of i] by auto
  then have "nextAt q (par (par p)) \<le> nextAt q p" using p n by (intro heapTo_trans [OF h]) auto
  moreover have "nextAt r p = nextAt q p" "nextAt r (par i) = nextAt q (par i)" using p lt by (auto intro!: same)
  ultimately show "nextAt r (par i) \<le> nextAt r p" using p by simp
qed

section \<open>Growing and shrinking\<close>

text \<open>The outcome of taking the item \<open>a\<close> out of the heap, and of adding it.\<close>

definition takenOut :: "nat \<Rightarrow> refreshQueue \<Rightarrow> refreshQueue \<Rightarrow> bool" where
  "takenOut a q r \<longleftrightarrow> linked r \<and> heapTo (heapLen r) r \<and> mset (hq_heap q) = add_mset a (mset (hq_heap r))
     \<and> hq_index r = hq_index q \<and> length (hq_items r) = length (hq_items q)
     \<and> (\<forall>b. hi_id (hq_items r ! b) = hi_id (hq_items q ! b) \<and> hi_next (hq_items r ! b) = hi_next (hq_items q ! b))"

lemma takenOut_pool: "samePool q q' \<Longrightarrow> takenOut a q' r \<Longrightarrow> takenOut a q r"
  by (simp add: takenOut_def samePool_def)

lemma slicePop_correct:
  assumes l: "linked q" and ne: "hq_heap q \<noteq> []" and h: "heapTo (heapLen q - 1) q"
  shows "\<exists>r. slicePop q = (r, Some (last (hq_heap q))) \<and> takenOut (last (hq_heap q)) q r"
proof -
  let ?a = "last (hq_heap q)" and ?r = "fst (slicePop q)"
  have e: "hq_heap q = butlast (hq_heap q) @ [?a]" using ne by simp
  have r: "hq_heap ?r = butlast (hq_heap q)" "hq_items ?r = hq_items (setIndex ?a (-1) q)" "hq_index ?r = hq_index q"
    using ne by (simp_all add: slicePop_def Let_def setIndex_def)
  have na: "hq_heap q ! p \<noteq> ?a" if "p < heapLen q - 1" for p
    using linked_inj [OF l, of p "heapLen q - 1"] that ne by (simp add: last_conv_nth)
  have at: "itemAt ?r p = itemAt q p" if "p < heapLen q - 1" for p
    using na [OF that] that by (simp add: itemAt_def r nth_butlast setIndex_def)
  have "distinct (butlast (hq_heap q))" using l by (simp add: linked_def distinct_butlast)
  then have "linked ?r" using l at unfolding linked_def by (simp add: r nth_butlast)
  moreover have "heapTo (heapLen ?r) ?r" using h at by (auto simp: r nextAt_def intro: heapTo_cong)
  moreover have "mset (hq_heap q) = add_mset ?a (mset (hq_heap ?r))" unfolding r by (subst e) simp
  ultimately have "takenOut ?a q ?r" unfolding takenOut_def by (simp add: r)
  then show ?thesis using ne by (simp add: slicePop_def Let_def)
qed

lemma heapRemove_correct:
  assumes l: "linked q" and h: "heapTo (heapLen q) q" and i: "i < heapLen q"
  shows "\<exists>r. heapRemove i q = (r, Some (hq_heap q ! i)) \<and> takenOut (hq_heap q ! i) q r"
proof (cases "heapLen q - 1 = i")
  case True
  moreover have ne: "hq_heap q \<noteq> []" using i by auto
  ultimately have "last (hq_heap q) = hq_heap q ! i" by (simp add: last_conv_nth)
  then show ?thesis using slicePop_correct [OF l ne heapTo_mono [OF h]] True by (simp add: heapRemove_def)
next
  case False
  let ?n = "heapLen q - 1"
  let ?s = "heapSwap i ?n q" and ?r = "heapSettle i ?n (heapSwap i ?n q)"
  have b: "?n < heapLen q" "i < ?n" using i False by auto
  have ls: "linked ?s" by (rule heapSwap_linked [OF l i b(1)])
  have "exceptAt i ?n ?s"
    using b i by (intro exceptAt_change [OF h]) (auto simp: nextAt_swap)
  note st = heapSettle_correct [OF ls b(2) _ this]
  have len: "heapLen ?r = heapLen q" using samePoolD(1) [OF st(2)] by simp
  have ne: "hq_heap ?r \<noteq> []" using len i by auto
  have la: "last (hq_heap ?r) = hq_heap q ! i"
    using st(4) [of ?n] ne b i by (simp add: last_conv_nth len nth_upd del: One_nat_def)
  have pool: "samePool q ?r" using samePool_trans [OF heapSwap_pool [OF i b(1)] st(2)] by simp
  have "heapTo (heapLen ?r - 1) ?r" unfolding len using st(3) by simp
  from slicePop_correct [OF _ ne this] st(1) show ?thesis
    using takenOut_pool [OF pool] False by (auto simp: heapRemove_def Let_def la simp del: One_nat_def)
qed

lemma heapPop_correct:
  assumes l: "linked q" and h: "heapTo (heapLen q) q" and ne: "hq_heap q \<noteq> []"
  shows "\<exists>r. heapPop q = (r, Some (hq_heap q ! 0)) \<and> takenOut (hq_heap q ! 0) q r"
proof -
  let ?n = "heapLen q - 1"
  have i: "0 < heapLen q" "?n < heapLen q" using ne by auto
  let ?s = "heapSwap 0 ?n q"
  obtain i' r where d: "heapDown 0 ?n ?s = (i', r)" by (rule prod.exhaust)
  have ls: "linked ?s" by (rule heapSwap_linked [OF l i])
  have "linked r \<and> samePool ?s r \<and> heapTo ?n r \<and> hq_heap r ! ?n = hq_heap ?s ! ?n"
  proof (cases "?n = 0")
    case True
    then have "r = ?s" using d by (subst (asm) heapDown.simps) simp
    then show ?thesis using ls True by (simp add: heapTo_def)
  next
    case False
    have "exceptAt 0 ?n ?s" using i by (intro exceptAt_change [OF h]) (auto simp: nextAt_swap)
    then show ?thesis using heapDown_correct [OF ls _ _ _ d] False by simp
  qed
  moreover from this have "samePool q r" using samePool_trans [OF heapSwap_pool [OF i]] by blast
  moreover from this have len: "heapLen r = heapLen q" by (rule samePoolD(1))
  moreover have rn: "hq_heap r \<noteq> []" using len i by auto
  ultimately have r: "linked r" "samePool q r" "heapTo (heapLen r - 1) r" "last (hq_heap r) = hq_heap q ! 0"
    using i by (simp_all add: last_conv_nth nth_upd)
  show ?thesis
    using slicePop_correct [OF r(1) rn r(3)] takenOut_pool [OF r(2)] d by (auto simp: heapPop_def r(4))
qed

lemma heapPush_correct:
  assumes l: "linked q" and h: "heapTo (heapLen q) q" and a: "a < length (hq_items q)" "a \<notin> set (hq_heap q)"
  shows "takenOut a (heapPush a q) q" and "linked (heapPush a q)" and "heapTo (heapLen (heapPush a q)) (heapPush a q)"
proof -
  let ?s = "slicePush a q" and ?n = "heapLen q"
  have f: "hq_heap ?s = hq_heap q @ [a]" "hq_index ?s = hq_index q" "length (hq_items ?s) = length (hq_items q)"
    "hi_id (hq_items ?s ! b) = hi_id (hq_items q ! b)" "hi_next (hq_items ?s ! b) = hi_next (hq_items q ! b)" for b
    by (simp_all add: slicePush_def Let_def)
  have at: "itemAt ?s p = itemAt q p" if "p < ?n" for p
    using a(2) that nth_mem [of p "hq_heap q"]
    by (auto simp: itemAt_def slicePush_def Let_def setIndex_def nth_append nth_upd)
  have new: "hi_index (itemAt ?s ?n) = int ?n"
    using a(1) by (simp add: itemAt_def slicePush_def Let_def setIndex_def)
  have ls: "linked ?s"
    using l a at new unfolding linked_def by (auto simp: f nth_append less_Suc_eq)
  have "exceptUp ?n (Suc ?n) ?s"
    unfolding exceptUp_def bypass_def
  proof (intro conjI allI impI)
    fix p assume p: "p < Suc ?n" "0 < p \<and> p \<noteq> ?n"
    then have "p < ?n" "par p < ?n" using par_less [of p] by auto
    then show "nextAt ?s (par p) \<le> nextAt ?s p" using h p by (simp add: nextAt_def at heapTo_def)
  next
    fix p assume "p < Suc ?n" "0 < p \<and> 0 < ?n \<and> par p = ?n"
    then show "nextAt ?s (par ?n) \<le> nextAt ?s p" using par_less [of p] by auto
  qed
  then have r: "linked (heapPush a q)" "samePool ?s (heapPush a q)" "heapTo (Suc ?n) (heapPush a q)"
    using heapUp_correct [OF ls, of ?n "Suc ?n"] by (simp_all add: heapPush_def Let_def f)
  have "heapLen (heapPush a q) = Suc ?n" using samePoolD(1) [OF r(2)] by (simp add: f)
  then show "linked (heapPush a q)" "heapTo (heapLen (heapPush a q)) (heapPush a q)" using r by simp_all
  show "takenOut a (heapPush a q) q" using l h samePoolD(3-) [OF r(2)] r(2)
    by (simp add: takenOut_def f samePool_def)
qed

section \<open>The queue as a map from identifiers to times\<close>

definition queueInv :: "refreshQueue \<Rightarrow> bool" where
  "queueInv q \<longleftrightarrow> linked q \<and> heapTo (heapLen q) q \<and> m_ok (hq_index q)
     \<and> (\<forall>k a. m_get (hq_index q) k = Some a \<longleftrightarrow> a \<in> set (hq_heap q) \<and> hi_id (hq_items q ! a) = k)"

definition scheduleOf :: "refreshQueue \<Rightarrow> string \<Rightarrow> gotime option" where
  "scheduleOf q k = map_option (\<lambda>a. hi_next (hq_items q ! a)) (m_get (hq_index q) k)"

lemma queueInvD:
  assumes "queueInv q"
  shows "linked q" "heapTo (heapLen q) q" "m_ok (hq_index q)"
    "m_get (hq_index q) k = Some a \<longleftrightarrow> a \<in> set (hq_heap q) \<and> hi_id (hq_items q ! a) = k"
  using assms by (auto simp: queueInv_def)

lemma queueInv_empty: "queueInv emptyQueueState"
  by (simp add: queueInv_def emptyQueueState_def linked_def heapTo_def)

lemma scheduleOf_empty: "scheduleOf emptyQueueState k = None"
  by (simp add: scheduleOf_def emptyQueueState_def)

text \<open>The index entry of an item taken out is deleted, of one added is stored.\<close>

lemma queueInv_takenOut:
  assumes q: "queueInv q" and t: "takenOut a q r" and k: "hi_id (hq_items q ! a) = k"
  shows "queueInv (r\<lparr>hq_index := m_del k (hq_index r)\<rparr>)"
    and "scheduleOf (r\<lparr>hq_index := m_del k (hq_index r)\<rparr>) = (scheduleOf q)(k := None)"
proof -
  let ?r = "r\<lparr>hq_index := m_del k (hq_index r)\<rparr>"
  have t': "linked r" "heapTo (heapLen r) r" "mset (hq_heap q) = add_mset a (mset (hq_heap r))" "hq_index r = hq_index q"
    "hi_id (hq_items r ! b) = hi_id (hq_items q ! b)" "hi_next (hq_items r ! b) = hi_next (hq_items q ! b)" for b
    using t by (auto simp: takenOut_def)
  have s: "set (hq_heap q) = insert a (set (hq_heap r))" using arg_cong [OF t'(3), of set_mset] by simp
  have "distinct (hq_heap q)" using queueInvD(1) [OF q] by (simp add: linked_def)
  then have na: "a \<notin> set (hq_heap r)"
    using mset_eq_imp_distinct_iff [of "hq_heap q" "a # hq_heap r"] t'(3) by simp
  have g: "m_get (hq_index ?r) j = Some b \<longleftrightarrow> b \<in> set (hq_heap ?r) \<and> hi_id (hq_items ?r ! b) = j" for j b
    using queueInvD(4) [OF q, of k a] queueInvD(4) [OF q, of k b] queueInvD(4) [OF q, of j b] k na
    by (auto simp: t' s)
  have li: "linked ?r" "heapTo (heapLen ?r) ?r" using t'(1,2) by (simp_all add: linked_def heapTo_def nextAt_def itemAt_def)
  have "m_ok (hq_index ?r)" using queueInvD(3) [OF q] by (simp add: t' m_ok_del)
  then show "queueInv ?r" unfolding queueInv_def using li g by blast
  show "scheduleOf ?r = (scheduleOf q)(k := None)" by (rule ext) (simp add: scheduleOf_def t')
qed

lemma queueInv_slot: "queueInv q \<Longrightarrow> m_get (hq_index q) k = Some a \<Longrightarrow>
    \<exists>p < heapLen q. hq_heap q ! p = a \<and> hi_index (hq_items q ! a) = int p"
  using queueInvD(4) [of q k a] queueInvD(1) [of q] by (auto simp: in_set_conv_nth linked_def itemAt_def)

lemma insertItem_correct:
  assumes q: "queueInv q" and new: "scheduleOf q k = None"
  shows "queueInv (insertItem k t q)" and "scheduleOf (insertItem k t q) = (scheduleOf q)(k \<mapsto> t)"
proof -
  let ?a = "length (hq_items q)" and ?q = "fst (newItem k t q)"
  have f: "hq_heap ?q = hq_heap q" "hq_index ?q = hq_index q"
    "hq_items ?q = hq_items q @ [\<lparr>hi_id = k, hi_next = t, hi_index = 0\<rparr>]" by (simp_all add: newItem_def)
  have lt: "\<forall>p < heapLen q. hq_heap q ! p < ?a" using queueInvD(1) [OF q] by (simp add: linked_def)
  have in_lt: "b < ?a" if "b \<in> set (hq_heap q)" for b using lt that by (auto simp: in_set_conv_nth)
  have at: "itemAt ?q p = itemAt q p" if "p < heapLen q" for p using lt that by (simp add: itemAt_def f nth_append)
  have l: "linked ?q" using queueInvD(1) [OF q] at lt by (auto simp: linked_def f less_SucI)
  have h: "heapTo (heapLen ?q) ?q" using queueInvD(2) [OF q] at by (auto simp: f nextAt_def intro: heapTo_cong)
  have a: "?a < length (hq_items ?q)" "?a \<notin> set (hq_heap ?q)" using in_lt by (auto simp: f)
  let ?p = "heapPush ?a ?q"
  have ins: "insertItem k t q = ?p\<lparr>hq_index := m_put k ?a (hq_index ?p)\<rparr>"
    by (simp add: insertItem_def newItem_def Let_def)
  note push = heapPush_correct [OF l h a]
  have p: "mset (hq_heap ?p) = add_mset ?a (mset (hq_heap q))" "hq_index ?p = hq_index q"
    "hi_id (hq_items ?p ! b) = hi_id (hq_items ?q ! b)" "hi_next (hq_items ?p ! b) = hi_next (hq_items ?q ! b)" for b
    using push(1) by (simp_all add: takenOut_def f)
  have s: "set (hq_heap ?p) = insert ?a (set (hq_heap q))" using arg_cong [OF p(1), of set_mset] by simp
  have none: "m_get (hq_index q) k = None" using new by (simp add: scheduleOf_def)
  have old: "hi_id (hq_items ?p ! b) = hi_id (hq_items q ! b) \<and> hi_next (hq_items ?p ! b) = hi_next (hq_items q ! b)"
    if "b \<in> set (hq_heap q)" for b using in_lt [OF that] by (simp add: p f nth_append)
  have self: "hi_id (hq_items ?p ! ?a) = k" "hi_next (hq_items ?p ! ?a) = t" by (simp_all add: p f)
  have g: "m_get (hq_index (insertItem k t q)) j = Some b
      \<longleftrightarrow> b \<in> set (hq_heap (insertItem k t q)) \<and> hi_id (hq_items (insertItem k t q) ! b) = j" for j b
  proof (cases "b = ?a")
    case True
    moreover have "m_get (hq_index q) j \<noteq> Some ?a" using queueInvD(4) [OF q, of j ?a] in_lt by auto
    ultimately show ?thesis using self by (auto simp: ins p s)
  next
    case False
    then show ?thesis using queueInvD(4) [OF q, of j b] old [of b] none by (auto simp: ins p s)
  qed
  have "linked (insertItem k t q)" "heapTo (heapLen (insertItem k t q)) (insertItem k t q)"
    using push(2,3) by (simp_all add: ins linked_def heapTo_def nextAt_def itemAt_def)
  moreover have "m_ok (hq_index (insertItem k t q))" using queueInvD(3) [OF q] by (simp add: ins p m_ok_put)
  ultimately show "queueInv (insertItem k t q)" unfolding queueInv_def using g by blast
  show "scheduleOf (insertItem k t q) = (scheduleOf q)(k \<mapsto> t)"
  proof (rule ext)
    fix j
    show "scheduleOf (insertItem k t q) j = ((scheduleOf q)(k \<mapsto> t)) j"
      using queueInvD(4) [OF q, of j] old self
      by (cases "m_get (hq_index q) j") (auto simp: scheduleOf_def ins p)
  qed
qed

lemma upsert_correct:
  assumes q: "queueInv q" and k: "k \<noteq> []" and t: "\<not> is_zero t"
  shows "queueInv (upsert k t q)" and "scheduleOf (upsert k t q) = (scheduleOf q)(k \<mapsto> t)"
proof -
  have "queueInv (upsert k t q) \<and> scheduleOf (upsert k t q) = (scheduleOf q)(k \<mapsto> t)"
  proof (cases "m_get (hq_index q) k")
    case None
    then show ?thesis using insertItem_correct [OF q, of k t] k t by (simp add: upsert_def scheduleOf_def)
  next
    case (Some a)
    obtain i where i: "i < heapLen q" "hq_heap q ! i = a" "hi_index (hq_items q ! a) = int i"
      using queueInv_slot [OF q Some] by blast
    let ?c = "q\<lparr>hq_items := (hq_items q)[a := (hq_items q ! a)\<lparr>hi_next := t\<rparr>]\<rparr>"
    let ?r = "heapFix i ?c"
    have al: "a < length (hq_items q)" using queueInvD(1) [OF q] i by (auto simp: linked_def)
    have up: "upsert k t q = ?r" using k t Some al i by (simp add: upsert_def Let_def)
    have lc: "linked ?c" using queueInvD(1) [OF q] by (auto simp: linked_def itemAt_def nth_upd)
    have "exceptAt i (heapLen q) ?c"
      using linked_inj [OF queueInvD(1) [OF q]] i
      by (intro exceptAt_change [OF queueInvD(2) [OF q] i(1)]) (auto simp: nextAt_def itemAt_def nth_upd)
    then have st: "linked ?r" "samePool ?c ?r" "heapTo (heapLen q) ?r"
      using heapSettle_correct [OF lc, of i "heapLen q"] i(1) by (simp_all add: heapFix_def)
    note pool = samePoolD [OF st(2)]
    have r: "heapLen ?r = heapLen q" "set (hq_heap ?r) = set (hq_heap q)" "hq_index ?r = hq_index q"
      "hi_id (hq_items ?r ! b) = hi_id (hq_items q ! b)"
      "hi_next (hq_items ?r ! b) = (if b = a then t else hi_next (hq_items q ! b))" for b
      using pool al by (simp_all add: nth_upd)
    have "queueInv ?r"
      unfolding queueInv_def r using st(1,3) queueInvD(3,4) [OF q] by blast
    moreover have "scheduleOf ?r = (scheduleOf q)(k \<mapsto> t)"
    proof (rule ext)
      fix j
      show "scheduleOf ?r j = ((scheduleOf q)(k \<mapsto> t)) j"
        using queueInvD(4) [OF q, of j a] queueInvD(4) [OF q, of k a] Some
        by (cases "m_get (hq_index q) j") (auto simp: scheduleOf_def r)
    qed
    ultimately show ?thesis unfolding up by blast
  qed
  then show "queueInv (upsert k t q)" "scheduleOf (upsert k t q) = (scheduleOf q)(k \<mapsto> t)" by blast+
qed

lemma removeID_correct:
  assumes q: "queueInv q" and k: "k \<noteq> []"
  shows "queueInv (removeID k q)" and "scheduleOf (removeID k q) = (scheduleOf q)(k := None)"
proof -
  have "queueInv (removeID k q) \<and> scheduleOf (removeID k q) = (scheduleOf q)(k := None)"
  proof (cases "m_get (hq_index q) k")
    case None
    then show ?thesis using q by (auto simp: removeID_def scheduleOf_def)
  next
    case (Some a)
    obtain i where i: "i < heapLen q" "hq_heap q ! i = a" "hi_index (hq_items q ! a) = int i"
      using queueInv_slot [OF q Some] by blast
    obtain r where r: "heapRemove i q = (r, Some a)" "takenOut a q r"
      using heapRemove_correct [OF queueInvD(1,2) [OF q] i(1)] i(2) by blast
    have "hi_id (hq_items q ! a) = k" using queueInvD(4) [OF q, of k a] Some by simp
    from queueInv_takenOut [OF q r(2) this] show ?thesis using k Some i r(1) by (simp add: removeID_def)
  qed
  then show "queueInv (removeID k q)" "scheduleOf (removeID k q) = (scheduleOf q)(k := None)" by blast+
qed

section \<open>The entries that are due\<close>

lemma scheduleOf_root:
  assumes q: "queueInv q" and ne: "hq_heap q \<noteq> []"
  shows "scheduleOf q (hi_id (itemAt q 0)) = Some (nextAt q 0)"
proof -
  have "hq_heap q ! 0 \<in> set (hq_heap q)" using ne by simp
  then have "m_get (hq_index q) (hi_id (itemAt q 0)) = Some (hq_heap q ! 0)"
    using queueInvD(4) [OF q] by (simp add: itemAt_def)
  then show ?thesis by (simp add: scheduleOf_def nextAt_def itemAt_def)
qed

lemma scheduleOf_least:
  assumes q: "queueInv q" and k: "scheduleOf q k = Some t"
  shows "hq_heap q \<noteq> [] \<and> nextAt q 0 \<le> t"
proof -
  obtain a where a: "m_get (hq_index q) k = Some a" "t = hi_next (hq_items q ! a)" using k by (auto simp: scheduleOf_def)
  obtain p where "p < heapLen q" "hq_heap q ! p = a" using queueInv_slot [OF q a(1)] by blast
  then show ?thesis using heapTo_root [OF queueInvD(2) [OF q], of p] a(2) by (auto simp: nextAt_def itemAt_def)
qed

lemma popFirst_correct:
  assumes q: "queueInv q" and ne: "hq_heap q \<noteq> []"
  shows "queueInv (fst (popFirst q))" and "snd (popFirst q) = hi_id (itemAt q 0)"
    and "scheduleOf (fst (popFirst q)) = (scheduleOf q)(hi_id (itemAt q 0) := None)"
proof -
  obtain r where r: "heapPop q = (r, Some (hq_heap q ! 0))" "takenOut (hq_heap q ! 0) q r"
    using heapPop_correct [OF queueInvD(1,2) [OF q] ne] by blast
  have i: "hi_id (hq_items r ! (hq_heap q ! 0)) = hi_id (itemAt q 0)" using r(2) by (simp add: takenOut_def itemAt_def)
  have e: "popFirst q = (r\<lparr>hq_index := m_del (hi_id (itemAt q 0)) (hq_index r)\<rparr>, hi_id (itemAt q 0))"
    by (simp add: popFirst_def r(1) i)
  note t = queueInv_takenOut [OF q r(2), of "hi_id (itemAt q 0)"]
  show "queueInv (fst (popFirst q))" "snd (popFirst q) = hi_id (itemAt q 0)"
    "scheduleOf (fst (popFirst q)) = (scheduleOf q)(hi_id (itemAt q 0) := None)"
    using t by (simp_all add: e itemAt_def)
qed

lemma popDue_step: "\<not> (hq_heap q = [] \<or> nextAt q 0 > now) \<Longrightarrow>
    popDue now q = (fst (popDue now (fst (popFirst q))), snd (popFirst q) # snd (popDue now (fst (popFirst q))))"
  by (subst popDue.simps) (simp add: split_beta Let_def)

lemma popDue_stop: "hq_heap q = [] \<or> nextAt q 0 > now \<Longrightarrow> popDue now q = (q, [])"
  by (subst popDue.simps) simp

lemma popDue_correct:
  "queueInv q \<Longrightarrow> queueInv (fst (popDue now q))
     \<and> distinct (snd (popDue now q)) \<and> sorted (map (\<lambda>k. the (scheduleOf q k)) (snd (popDue now q)))
     \<and> set (snd (popDue now q)) = {k. \<exists>t \<le> now. scheduleOf q k = Some t}
     \<and> scheduleOf (fst (popDue now q)) = (\<lambda>k. case scheduleOf q k of Some t \<Rightarrow> if t \<le> now then None else Some t | None \<Rightarrow> None)"
proof (induction "heapLen q" arbitrary: q rule: less_induct)
  case less
  show ?case
  proof (cases "hq_heap q = [] \<or> nextAt q 0 > now")
    case True
    then have late: "scheduleOf q k = Some t \<Longrightarrow> \<not> t \<le> now" for k t
      using scheduleOf_least [OF less(2), of k t] by auto
    then show ?thesis using less(2) by (auto simp: popDue_stop [OF True] split: option.splits)
  next
    case False
    let ?k = "hi_id (itemAt q 0)" and ?r = "fst (popFirst q)"
    let ?d = "snd (popDue now ?r)"
    have ne: "hq_heap q \<noteq> []" using False by simp
    note pf = popFirst_correct [OF less(2) ne]
    have "heapLen ?r = heapLen (fst (heapPop q))" by (simp add: popFirst_def split: prod.split option.split)
    then have "heapLen ?r < heapLen q" using heapPop_len [of q] ne by (simp add: length_greater_0_conv)
    from less(1) [OF this pf(1)] have ih: "queueInv (fst (popDue now ?r))" "distinct ?d"
      "sorted (map (\<lambda>k. the (scheduleOf ?r k)) ?d)" "set ?d = {k. \<exists>t \<le> now. scheduleOf ?r k = Some t}"
      "scheduleOf (fst (popDue now ?r)) = (\<lambda>k. case scheduleOf ?r k of Some t \<Rightarrow> if t \<le> now then None else Some t | None \<Rightarrow> None)"
      by blast+
    have root: "scheduleOf q ?k = Some (nextAt q 0)" by (rule scheduleOf_root [OF less(2) ne])
    have mem: "k \<in> set ?d \<longleftrightarrow> k \<noteq> ?k \<and> (\<exists>t \<le> now. scheduleOf q k = Some t)" for k
      unfolding ih(4) pf(3) by auto
    have same: "map (\<lambda>k. the (scheduleOf ?r k)) ?d = map (\<lambda>k. the (scheduleOf q k)) ?d"
      by (rule map_cong) (auto simp: mem pf(3))
    have first: "\<forall>k \<in> set ?d. nextAt q 0 \<le> the (scheduleOf q k)"
      using scheduleOf_least [OF less(2)] by (auto dest!: mem [THEN iffD1])
    show ?thesis
      unfolding popDue_step [OF False] fst_conv snd_conv pf(2) ih(5)
      using ih(1,2) ih(3) [unfolded same] first root False by (auto simp: mem pf(3) fun_eq_iff split: option.splits)
  qed
qed

lemma peek_correct:
  assumes q: "queueInv q"
  shows "peek q = None \<longleftrightarrow> (\<forall>k. scheduleOf q k = None)"
    and "peek q = Some t \<Longrightarrow> (\<exists>k. scheduleOf q k = Some t) \<and> (\<forall>k u. scheduleOf q k = Some u \<longrightarrow> t \<le> u)"
  using scheduleOf_root [OF q] scheduleOf_least [OF q] by (auto simp: peek_def split: if_splits) (metis not_Some_eq)+

lemma rebuildQueue_correct:
  assumes d: "distinct (map fst entries)"
  shows "queueInv (rebuildQueue entries q) \<and> scheduleOf (rebuildQueue entries q) = map_of entries"
  using d
proof (induction entries rule: rev_induct)
  case Nil
  show ?case by (simp add: rebuildQueue_def queueInv_def linked_def heapTo_def scheduleOf_def fun_eq_iff)
next
  case (snoc e entries)
  obtain k t where e: "e = (k, t)" by (rule prod.exhaust)
  have step: "rebuildQueue (entries @ [e]) q = insertItem k t (rebuildQueue entries q)"
    by (simp add: rebuildQueue_def e)
  have ih: "queueInv (rebuildQueue entries q)" "scheduleOf (rebuildQueue entries q) = map_of entries"
    using snoc by auto
  have new: "k \<notin> fst ` set entries" using snoc(2) by (auto simp: e)
  then have "map_of entries k = None" by (simp add: map_of_eq_None_iff)
  note ins = insertItem_correct [OF ih(1), of k t, unfolded ih(2), OF this]
  have "map_of (entries @ [e]) = (map_of entries)(k \<mapsto> t)"
    using \<open>map_of entries k = None\<close> by (auto simp: e map_add_def split: option.split)
  then show ?case unfolding step using ins by simp
qed

section \<open>The schedule as an interface\<close>

text \<open>
  What the loop needs of its queue: entries are stored and deleted by identifier, and the due
  ones come out once, in order. The client part is the loop's pass over a list of identifiers,
  each of which gets a new time or loses its entry.
\<close>

locale refreshSchedule =
  fixes inv :: "'q \<Rightarrow> bool"
    and times :: "'q \<Rightarrow> string \<Rightarrow> gotime option"
    and putAt :: "string \<Rightarrow> gotime \<Rightarrow> 'q \<Rightarrow> 'q"
    and dropId :: "string \<Rightarrow> 'q \<Rightarrow> 'q"
    and takeDue :: "gotime \<Rightarrow> 'q \<Rightarrow> 'q \<times> string list"
  assumes put_inv: "inv q \<Longrightarrow> k \<noteq> [] \<Longrightarrow> t \<noteq> 0 \<Longrightarrow> inv (putAt k t q)"
    and put_times: "inv q \<Longrightarrow> k \<noteq> [] \<Longrightarrow> t \<noteq> 0 \<Longrightarrow> times (putAt k t q) = (times q)(k \<mapsto> t)"
    and drop_inv: "inv q \<Longrightarrow> k \<noteq> [] \<Longrightarrow> inv (dropId k q)"
    and drop_times: "inv q \<Longrightarrow> k \<noteq> [] \<Longrightarrow> times (dropId k q) = (times q)(k := None)"
    and due_inv: "inv q \<Longrightarrow> inv (fst (takeDue now q))"
    and due_set: "inv q \<Longrightarrow> set (snd (takeDue now q)) = {k. \<exists>t \<le> now. times q k = Some t}"
    and due_times: "inv q \<Longrightarrow> times (fst (takeDue now q)) k =
        (case times q k of Some t \<Rightarrow> if t \<le> now then None else Some t | None \<Rightarrow> None)"
begin

abbreviation settleOne :: "string \<Rightarrow> gotime option \<Rightarrow> 'q \<Rightarrow> 'q" where
  "settleOne k nxt q \<equiv> (case nxt of None \<Rightarrow> dropId k q | Some t \<Rightarrow> putAt k t q)"

lemma settle_one:
  assumes "inv q" and "k \<noteq> []" and "nxt \<noteq> Some 0"
  shows "inv (settleOne k nxt q)" and "times (settleOne k nxt q) = (times q)(k := nxt)"
  using assms put_inv [of q k] put_times [of q k] drop_inv [of q k] drop_times [of q k]
  by (cases nxt; fastforce)+

lemma settle_all:
  assumes "inv q" and "\<And>k. k \<in> set ks \<Longrightarrow> k \<noteq> [] \<and> f k \<noteq> Some 0"
  shows "inv (foldl (\<lambda>q k. settleOne k (f k) q) q ks)
    \<and> times (foldl (\<lambda>q k. settleOne k (f k) q) q ks) = (\<lambda>k. if k \<in> set ks then f k else times q k)"
  using assms
proof (induction ks arbitrary: q)
  case (Cons k ks)
  have s: "inv (settleOne k (f k) q)" "times (settleOne k (f k) q) = (times q)(k := f k)"
    using Cons(2,3) by (auto intro!: settle_one)
  show ?case using Cons(1) [OF s(1)] Cons(3) s(2) by auto
qed simp

text \<open>Nothing is due any more once every due entry got a later time or none.\<close>

lemma settled_not_due:
  assumes q: "inv q" and f: "\<And>k. k \<in> set (snd (takeDue now q)) \<Longrightarrow> k \<noteq> [] \<and> f k \<noteq> Some 0 \<and> (\<forall>t. f k = Some t \<longrightarrow> now < t)"
  shows "snd (takeDue now (foldl (\<lambda>q k. settleOne k (f k) q) (fst (takeDue now q)) (snd (takeDue now q)))) = []"
proof -
  let ?d = "snd (takeDue now q)"
  let ?r = "foldl (\<lambda>q k. settleOne k (f k) q) (fst (takeDue now q)) ?d"
  have r: "inv ?r" "times ?r = (\<lambda>k. if k \<in> set ?d then f k else times (fst (takeDue now q)) k)"
    using settle_all [OF due_inv [OF q], of ?d f] f by auto
  have "set (snd (takeDue now ?r)) = {}"
    unfolding due_set [OF r(1)] r(2)
    using f [unfolded leD] by (auto simp: due_times [OF q] dest!: f split: option.splits if_splits)
  then show ?thesis by simp
qed

end

interpretation rsched: refreshSchedule queueInv scheduleOf upsert removeID popDue
  by unfold_locales (simp_all add: upsert_correct removeID_correct popDue_correct)

section \<open>Every history of the queue\<close>

datatype queueOp = OpUpsert string gotime | OpRemove string | OpPopDue gotime | OpRebuild "(string \<times> gotime) list"

fun queueStep :: "queueOp \<Rightarrow> refreshQueue \<Rightarrow> refreshQueue" where
  "queueStep (OpUpsert k t) q = upsert k t q"
| "queueStep (OpRemove k) q = removeID k q"
| "queueStep (OpPopDue now) q = fst (popDue now q)"
| "queueStep (OpRebuild entries) q = rebuildQueue entries q"

text \<open>The specification: a finite map from identifiers to times.\<close>

fun mapStep :: "queueOp \<Rightarrow> (string \<Rightarrow> gotime option) \<Rightarrow> string \<Rightarrow> gotime option" where
  "mapStep (OpUpsert k t) m = (if k = [] \<or> t = 0 then m else m(k \<mapsto> t))"
| "mapStep (OpRemove k) m = (if k = [] then m else m(k := None))"
| "mapStep (OpPopDue now) m = (\<lambda>k. case m k of Some t \<Rightarrow> if t \<le> now then None else Some t | None \<Rightarrow> None)"
| "mapStep (OpRebuild entries) m = map_of entries"

fun queueOpOK :: "queueOp \<Rightarrow> bool" where
  "queueOpOK (OpRebuild entries) \<longleftrightarrow> distinct (map fst entries)"
| "queueOpOK _ \<longleftrightarrow> True"

lemma queueStep_refines:
  "queueInv q \<Longrightarrow> queueOpOK p \<Longrightarrow> queueInv (queueStep p q) \<and> scheduleOf (queueStep p q) = mapStep p (scheduleOf q)"
proof (cases p)
  case (OpUpsert k t)
  then show "queueInv q \<Longrightarrow> ?thesis" using upsert_correct [of q k t] by (auto simp: upsert_def)
next
  case (OpRemove k)
  then show "queueInv q \<Longrightarrow> ?thesis" using removeID_correct [of q k] by (auto simp: removeID_def)
next
  case (OpPopDue now)
  then show "queueInv q \<Longrightarrow> ?thesis" using popDue_correct [of q now] by simp
next
  case (OpRebuild entries)
  then show "queueOpOK p \<Longrightarrow> ?thesis" using rebuildQueue_correct [of entries q] by simp
qed

lemma queue_history:
  "list_all queueOpOK ops \<Longrightarrow> queueInv q \<Longrightarrow>
   queueInv (fold queueStep ops q) \<and> scheduleOf (fold queueStep ops q) = fold mapStep ops (scheduleOf q)"
proof (induction ops arbitrary: q)
  case (Cons p ops)
  then show ?case using queueStep_refines [of q p] by auto
qed simp

text \<open>
  C23: The binary heap with its index and the positions stored in its items behaves as a map from
  identifiers to times: after any history of upserts, removals, rebuilds and pops the entries are
  those of the map, the earliest time is the one shown to the timer, and a pop takes out exactly the
  identifiers that are due, each once and in order of their times.
\<close>

theorem refresh_queue_refines_map:
  assumes "list_all queueOpOK ops" and q: "q = fold queueStep ops emptyQueueState" and m: "m = fold mapStep ops (\<lambda>_. None)"
  shows "scheduleOf q = m
    \<and> (peek q = None \<longleftrightarrow> m = (\<lambda>_. None)) \<and> (\<forall>t. peek q = Some t \<longrightarrow> t \<in> ran m \<and> (\<forall>u \<in> ran m. t \<le> u))
    \<and> set (snd (popDue now q)) = {k. \<exists>t \<le> now. m k = Some t}
    \<and> distinct (snd (popDue now q)) \<and> sorted (map (\<lambda>k. the (m k)) (snd (popDue now q)))"
proof -
  have h: "queueInv q" "scheduleOf q = m"
    using queue_history [OF assms(1) queueInv_empty] scheduleOf_empty unfolding q m
    by (simp_all add: fun_eq_iff cong: fold_cong) (metis ext)+
  show ?thesis
    using popDue_correct [OF h(1), of now] peek_correct [OF h(1)] h(2) by (auto simp: ran_def fun_eq_iff)
qed

lemma refresh_queue_refines_map_witness:
  "snd (popDue 5 (fold queueStep [OpUpsert ''a'' 4, OpUpsert ''b'' 2, OpUpsert ''c'' 9, OpUpsert ''a'' 1] emptyQueueState)) = [''a'', ''b'']
    \<and> scheduleOf (fold queueStep [OpUpsert ''a'' 4, OpUpsert ''b'' 2, OpUpsert ''c'' 9, OpUpsert ''a'' 1] emptyQueueState) ''c'' = Some 9"
proof -
  let ?ops = "[OpUpsert ''a'' 4, OpUpsert ''b'' 2, OpUpsert ''c'' 9, OpUpsert ''a'' 1]"
  have "snd (popDue 5 (fold queueStep ?ops emptyQueueState)) = [''a'', ''b'']" by code_simp
  then show ?thesis using refresh_queue_refines_map [of ?ops _ _ 5] by simp
qed

end
