(* ===== verification/GoTime.thy ===== *)
theory GoTime
  imports AnyValue
begin

text \<open>
  The reading of times from auth-file metadata (\<open>backend/sdk/cliproxy/auth/types.go\<close>):
  \<open>parseTimeValue\<close>, \<open>normaliseUnix\<close> and the search for an expiry in nested maps. The layouts the code
  passes to \<open>time.Parse\<close> are lists of elements, and one function reads an element the way the
  standard library does; the lemmas show that a text in the usual form is read as its instant.
\<close>

section \<open>The calendar\<close>

definition isLeap :: "int \<Rightarrow> bool" where
  "isLeap y \<longleftrightarrow> y mod 4 = 0 \<and> (y mod 100 \<noteq> 0 \<or> y mod 400 = 0)"

definition daysIn :: "int \<Rightarrow> int \<Rightarrow> int" where
  "daysIn m y = (if m = 2 then (if isLeap y then 29 else 28) else if m \<in> {4, 6, 9, 11} then 30 else 31)"

definition daysBeforeMonth :: "int \<Rightarrow> int \<Rightarrow> int" where
  "daysBeforeMonth y m = sum_list (map (\<lambda>k. daysIn k y) [1..m - 1])"

text \<open>The number of days from 1 January of year 1, the day of the zero time.\<close>

definition dayNumber :: "int \<Rightarrow> int \<Rightarrow> int \<Rightarrow> int" where
  "dayNumber y m d =
     (let p = y - 1 in 365 * p + p div 4 - p div 100 + p div 400 + daysBeforeMonth y m + (d - 1))"

section \<open>Layouts\<close>

text \<open>The elements of the layouts in use: \<open>2006\<close>, \<open>01\<close>, \<open>02\<close>, \<open>15\<close>, \<open>04\<close>, \<open>05\<close>, a fraction of nines,
  \<open>Z07:00\<close>, and literal text.\<close>

datatype layoutItem =
    StdLongYear | StdZeroMonth | StdZeroDay | StdHour | StdZeroMinute | StdZeroSecond | StdFracSecond9
  | StdISO8601ColonTZ | LayoutText string

record timeFields =
  tf_year :: int
  tf_month :: int
  tf_day :: int
  tf_hour :: int
  tf_min :: int
  tf_sec :: int
  tf_nsec :: int
  tf_offset :: int

definition dateLayout :: "layoutItem list" where
  "dateLayout = [StdLongYear, LayoutText ''-'', StdZeroMonth, LayoutText ''-'', StdZeroDay]"

definition layoutRFC3339 :: "layoutItem list" where
  "layoutRFC3339 = dateLayout @ [LayoutText ''T'', StdHour, LayoutText '':'', StdZeroMinute, LayoutText '':'',
     StdZeroSecond, StdISO8601ColonTZ]"

definition layoutRFC3339Nano :: "layoutItem list" where
  "layoutRFC3339Nano = dateLayout @ [LayoutText ''T'', StdHour, LayoutText '':'', StdZeroMinute, LayoutText '':'',
     StdZeroSecond, StdFracSecond9, StdISO8601ColonTZ]"

definition layoutSeconds :: "layoutItem list" where
  "layoutSeconds = dateLayout @ [LayoutText '' '', StdHour, LayoutText '':'', StdZeroMinute, LayoutText '':'', StdZeroSecond]"

definition layoutMinutes :: "layoutItem list" where
  "layoutMinutes = dateLayout @ [LayoutText '' '', StdHour, LayoutText '':'', StdZeroMinute]"

section \<open>Reading the elements\<close>

definition digitAt :: "string \<Rightarrow> nat \<Rightarrow> bool" where
  "digitAt s i \<longleftrightarrow> i < length s \<and> is_digit (s ! i)"

text \<open>\<open>getnum\<close>: one or two digits, two when \<open>fixed\<close>.\<close>

definition getnum :: "string \<Rightarrow> bool \<Rightarrow> (int \<times> string) option" where
  "getnum s fixed =
     (if \<not> digitAt s 0 then None
      else if \<not> digitAt s 1 then (if fixed then None else Some (digits_val (take 1 s), drop 1 s))
      else Some (digits_val (take 2 s), drop 2 s))"

text \<open>\<open>skip\<close>: a space of the layout takes any run of spaces, none only at the end of the value.\<close>

definition cutSpace :: "string \<Rightarrow> string" where
  "cutSpace s = dropWhile (\<lambda>c. c = CHR '' '') s"

function skipText :: "string \<Rightarrow> string \<Rightarrow> string option" where
  "skipText [] v = Some v"
| "skipText (p # ps) v =
     (if p = CHR '' ''
      then (if v \<noteq> [] \<and> v ! 0 \<noteq> CHR '' '' then None else skipText (cutSpace (p # ps)) (cutSpace v))
      else (case v of [] \<Rightarrow> None | c # v \<Rightarrow> if c \<noteq> p then None else skipText ps v))"
  by pat_completeness auto
termination
  by (relation "measure (\<lambda>(ps, v). length ps)") (auto simp: cutSpace_def le_imp_less_Suc length_dropWhile_le)

definition commaOrPeriod :: "char \<Rightarrow> bool" where
  "commaOrPeriod c \<longleftrightarrow> c = CHR ''.'' \<or> c = CHR '',''"

text \<open>\<open>parseNanoseconds\<close> on the digits after the separator, of which nine count.\<close>

definition nanosOf :: "string \<Rightarrow> int" where
  "nanosOf digits = (let ds = take 9 digits in digits_val ds * 10 ^ (9 - length ds))"

text \<open>A fraction of a second: the separator and all digits after it.\<close>

definition takeFraction :: "string \<Rightarrow> (int \<times> string) option" where
  "takeFraction v =
     (if v \<noteq> [] \<and> commaOrPeriod (v ! 0) \<and> digitAt v 1
      then Some (nanosOf (takeWhile is_digit (drop 1 v)), dropWhile is_digit (drop 1 v)) else None)"

definition readZone :: "string \<Rightarrow> (int \<times> string) option" where
  "readZone v =
     (if v \<noteq> [] \<and> v ! 0 = CHR ''Z'' then Some (0, drop 1 v)
      else if length v < 6 \<or> v ! 3 \<noteq> CHR '':'' then None
      else (case (getnum (take 2 (drop 1 v)) True, getnum (take 2 (drop 4 v)) True) of
              (Some (hr, _), Some (mm, _)) \<Rightarrow>
                if hr > 24 \<or> mm > 60 then None
                else let zoneOffset = (hr * 60 + mm) * 60
                  in if v ! 0 = CHR ''+'' then Some (zoneOffset, drop 6 v)
                     else if v ! 0 = CHR ''-'' then Some (- zoneOffset, drop 6 v) else None
            | _ \<Rightarrow> None))"

definition readRange :: "bool \<Rightarrow> int \<Rightarrow> int \<Rightarrow> string \<Rightarrow> (int \<times> string) option" where
  "readRange fixed lo hi v =
     (case getnum v fixed of Some (n, r) \<Rightarrow> if n < lo \<or> hi < n then None else Some (n, r) | None \<Rightarrow> None)"

text \<open>One pass of the loop of \<open>parse\<close>; \<open>rest\<close> is the layout after the element.\<close>

definition readItem :: "layoutItem \<Rightarrow> layoutItem list \<Rightarrow> string \<Rightarrow> timeFields \<Rightarrow> (timeFields \<times> string) option" where
  "readItem item rest v t =
     (case item of
        LayoutText p \<Rightarrow> map_option (\<lambda>v. (t, v)) (skipText p v)
      | StdLongYear \<Rightarrow>
          (if length v < 4 \<or> \<not> list_all is_digit (take 4 v) then None
           else Some (t\<lparr>tf_year := digits_val (take 4 v)\<rparr>, drop 4 v))
      | StdZeroMonth \<Rightarrow> map_option (\<lambda>(n, v). (t\<lparr>tf_month := n\<rparr>, v)) (readRange True 1 12 v)
      | StdZeroDay \<Rightarrow> map_option (\<lambda>(n, v). (t\<lparr>tf_day := n\<rparr>, v)) (getnum v True)
      | StdHour \<Rightarrow> map_option (\<lambda>(n, v). (t\<lparr>tf_hour := n\<rparr>, v)) (readRange False 0 23 v)
      | StdZeroMinute \<Rightarrow> map_option (\<lambda>(n, v). (t\<lparr>tf_min := n\<rparr>, v)) (readRange True 0 59 v)
      | StdZeroSecond \<Rightarrow>
          (case readRange True 0 59 v of
             None \<Rightarrow> None
           | Some (n, v) \<Rightarrow>
               let t = t\<lparr>tf_sec := n\<rparr>
               in if (case rest of i # _ \<Rightarrow> i = StdFracSecond9 | [] \<Rightarrow> False) then Some (t, v)
                  else (case takeFraction v of Some (ns, v) \<Rightarrow> Some (t\<lparr>tf_nsec := ns\<rparr>, v) | None \<Rightarrow> Some (t, v)))
      | StdFracSecond9 \<Rightarrow>
          (case takeFraction v of Some (ns, v) \<Rightarrow> Some (t\<lparr>tf_nsec := ns\<rparr>, v) | None \<Rightarrow> Some (t, v))
      | StdISO8601ColonTZ \<Rightarrow> map_option (\<lambda>(z, v). (t\<lparr>tf_offset := z\<rparr>, v)) (readZone v))"

fun readItems :: "layoutItem list \<Rightarrow> string \<Rightarrow> timeFields \<Rightarrow> (timeFields \<times> string) option" where
  "readItems [] v t = Some (t, v)"
| "readItems (item # rest) v t =
     (case readItem item rest v t of None \<Rightarrow> None | Some (t, v) \<Rightarrow> readItems rest v t)"

definition instantOf :: "timeFields \<Rightarrow> gotime" where
  "instantOf t =
     ((dayNumber (tf_year t) (tf_month t) (tf_day t) * 86400 + tf_hour t * 3600 + tf_min t * 60 + tf_sec t - tf_offset t)
        * second + tf_nsec t)"

definition noFields :: timeFields where
  "noFields = \<lparr>tf_year = 0, tf_month = 1, tf_day = 1, tf_hour = 0, tf_min = 0, tf_sec = 0, tf_nsec = 0, tf_offset = 0\<rparr>"

text \<open>\<open>time.Parse\<close>: no text may be left, and the day must exist in its month.\<close>

definition timeParse :: "layoutItem list \<Rightarrow> string \<Rightarrow> gotime option" where
  "timeParse layout v =
     (case readItems layout v noFields of
        Some (t, []) \<Rightarrow>
          if tf_day t < 1 \<or> tf_day t > daysIn (tf_month t) (tf_year t) then None else Some (instantOf t)
      | _ \<Rightarrow> None)"

section \<open>The values of metadata\<close>

text \<open>Seconds and milliseconds since 1 January 1970.\<close>

definition unixEpoch :: gotime where
  "unixEpoch = 62135596800 * second"

definition normaliseUnix :: "int \<Rightarrow> gotime" where
  "normaliseUnix raw =
     (if raw \<le> 0 then 0
      else if raw > 1000000000000 then unixEpoch + raw * millisecond
      else unixEpoch + raw * second)"

text \<open>The loop over the layouts.\<close>

fun parseLayouts :: "layoutItem list list \<Rightarrow> string \<Rightarrow> gotime option" where
  "parseLayouts [] s = None"
| "parseLayouts (layout # layouts) s =
     (case timeParse layout s of Some ts \<Rightarrow> Some ts | None \<Rightarrow> parseLayouts layouts s)"

definition timeLayouts :: "layoutItem list list" where
  "timeLayouts = [layoutRFC3339, layoutRFC3339Nano, layoutSeconds, layoutMinutes, layoutRFC3339]"

text \<open>\<open>json.Number\<close> that is no \<open>int64\<close> is read by \<open>strconv.ParseFloat\<close>, the parameter \<open>pf\<close>.\<close>

definition parseTimeString :: "string \<Rightarrow> gotime option" where
  "parseTimeString raw =
     (let s = trim_space raw
      in if s = [] then None
         else (case parseLayouts timeLayouts s of Some ts \<Rightarrow> Some ts | None \<Rightarrow> map_option normaliseUnix (parse_int64 s)))"

fun parseTimeValue :: "(string \<Rightarrow> gofloat option) \<Rightarrow> goany \<Rightarrow> gotime option" where
  "parseTimeValue pf (GoString value) = parseTimeString value"
| "parseTimeValue pf (GoFloat64 value) = Some (normaliseUnix (float_to_int64 value))"
| "parseTimeValue pf (GoInt64 value) = Some (normaliseUnix (sint value))"
| "parseTimeValue pf (GoNumber value) =
     (case parse_int64 value of
        Some i \<Rightarrow> Some (normaliseUnix i)
      | None \<Rightarrow> map_option (\<lambda>f. normaliseUnix (float_to_int64 f)) (pf value))"
| "parseTimeValue pf _ = None"

section \<open>The expiry in nested maps\<close>

text \<open>A measure for the descent into the values under \<open>token\<close>.\<close>

fun anyWeight :: "goany \<Rightarrow> nat" where
  "anyWeight (GoMap m) = Suc (sum_list (map (\<lambda>p. anyWeight (snd p)) m))"
| "anyWeight (GoStringMap m) = 2 + length m"
| "anyWeight _ = 1"

lemma anyWeight_pos: "0 < anyWeight v"
  by (cases v) auto

definition mapWeight :: "(string, goany) gomap \<Rightarrow> nat" where
  "mapWeight m = sum_list (map (\<lambda>p. anyWeight (snd p)) m)"

lemma mapWeight_get: "m_get m k = Some v \<Longrightarrow> anyWeight v \<le> mapWeight m"
  by (induction m) (auto simp: mapWeight_def split: if_splits)

definition stringsAsAny :: "(string, string) gomap \<Rightarrow> (string, goany) gomap" where
  "stringsAsAny val = map (\<lambda>(k, v). (k, GoString v)) val"

lemma mapWeight_strings: "mapWeight (stringsAsAny val) = length val"
  by (induction val) (auto simp: mapWeight_def stringsAsAny_def)

text \<open>The loop over the spellings of a metadata key that stops at the first value that parses as a time.\<close>

fun lookupMetadataTime :: "(string \<Rightarrow> gofloat option) \<Rightarrow> (string, goany) gomap \<Rightarrow> string list \<Rightarrow> gotime option" where
  "lookupMetadataTime pf m [] = None"
| "lookupMetadataTime pf m (key # keys) =
     (case m_get m key of
        None \<Rightarrow> lookupMetadataTime pf m keys
      | Some v \<Rightarrow> (case parseTimeValue pf v of None \<Rightarrow> lookupMetadataTime pf m keys | Some ts \<Rightarrow> Some ts))"

definition expireKeys :: "string list" where
  "expireKeys = [''expired'', ''expire'', ''expires_at'', ''expiresAt'', ''expiry'', ''expires'']"

text \<open>The map stored under a nested key, if it is one; \<open>map[string]string\<close> is copied into a \<open>map[string]any\<close>.\<close>

definition nestedMap :: "(string, goany) gomap \<Rightarrow> string \<Rightarrow> (string, goany) gomap option" where
  "nestedMap m key =
     (case m_get m key of
        Some (GoMap val) \<Rightarrow> Some val
      | Some (GoStringMap val) \<Rightarrow> Some (stringsAsAny val)
      | _ \<Rightarrow> None)"

lemma nestedMap_weight: "nestedMap m key = Some val \<Longrightarrow> mapWeight val < mapWeight m"
  using mapWeight_get [of m key]
  by (auto simp: nestedMap_def mapWeight_strings Suc_le_eq mapWeight_def [symmetric] split: option.splits goany.splits)

function expirationFromMap :: "(string \<Rightarrow> gofloat option) \<Rightarrow> (string, goany) gomap \<Rightarrow> gotime option" where
  "expirationFromMap pf m =
     (case lookupMetadataTime pf m expireKeys of
        Some ts \<Rightarrow> Some ts
      | None \<Rightarrow>
          (case (case nestedMap m ''token'' of Some val \<Rightarrow> expirationFromMap pf val | None \<Rightarrow> None) of
             Some ts \<Rightarrow> Some ts
           | None \<Rightarrow> (case nestedMap m ''Token'' of Some val \<Rightarrow> expirationFromMap pf val | None \<Rightarrow> None)))"
  by pat_completeness auto
termination
  by (relation "measure (\<lambda>(pf, m). mapWeight m)") (auto dest: nestedMap_weight)

declare expirationFromMap.simps [simp del]

section \<open>Texts in the usual form\<close>

lemma parseTime_samples:
  "timeParse layoutRFC3339 ''2024-02-29T23:59:58.25+08:00'' = Some (unixEpoch + 1709222398 * second + 250000000)"
  "timeParse layoutRFC3339 ''2023-02-29T00:00:00Z'' = None"
  "timeParse layoutMinutes ''1970-01-01   0:00'' = Some unixEpoch"
  by code_simp+

end
