(* ===== verification/RefreshDecision.thy ===== *)
theory RefreshDecision
  imports GoTime CooldownOps
begin

text \<open>
  When a credential is refreshed (\<open>backend/sdk/cliproxy/auth/conductor_refresh.go\<close>,
  \<open>auto_refresh_loop.go\<close>, \<open>types.go\<close>): the refresh interval in metadata and attributes, the time of
  the last refresh, the lead of a provider, the decision \<open>shouldRefresh\<close> and the schedule
  \<open>nextRefreshCheckAt\<close>. The lemmas relate the two: a scheduled check that is due finds that the
  credential should be refreshed, and one that should be refreshed is scheduled as due.

  Two conversions of decimal text, \<open>time.ParseDuration\<close> and \<open>strconv.ParseFloat\<close>, and what other
  packages register or attach (the leads of providers, the evaluator and the lead of a runtime
  object) are parameters.
\<close>

section \<open>Parameters\<close>

record RefreshRuntime =
  rt_ShouldRefresh :: "(gotime \<Rightarrow> Auth \<Rightarrow> bool) option"
  rt_RefreshLead :: "goduration option"

record RefreshEnv =
  re_parseDuration :: "string \<Rightarrow> goduration option"
  re_parseFloat :: "string \<Rightarrow> gofloat option"
  re_factories :: "(string, goduration option) gomap"

abbreviation (input) refreshCheckInterval :: goduration where "refreshCheckInterval \<equiv> 5 * second"
abbreviation (input) refreshPendingBackoff :: goduration where "refreshPendingBackoff \<equiv> minute"
abbreviation (input) refreshFailureBackoff :: goduration where "refreshFailureBackoff \<equiv> 5 * minute"
abbreviation (input) refreshIneffectiveBackoff :: goduration where "refreshIneffectiveBackoff \<equiv> 30 * second"

section \<open>Durations\<close>

text \<open>The product of two \<open>float64\<close>: the exact product rounded to 53 bits, ties to even. A result too
  large or too small for the format converts to the same \<open>int64\<close> as the one kept here.\<close>

fun bitLength :: "nat \<Rightarrow> nat" where
  "bitLength n = (if n = 0 then 0 else Suc (bitLength (n div 2)))"

declare bitLength.simps [simp del]

definition roundTo53 :: "int \<Rightarrow> int \<Rightarrow> gofloat" where
  "roundTo53 m e =
     (let a = nat \<bar>m\<bar>; sh = bitLength a - 53; q = a div 2 ^ sh; r = a mod 2 ^ sh;
          up = sh > 0 \<and> (2 * r > 2 ^ sh \<or> (2 * r = 2 ^ sh \<and> odd q))
      in FFin (sgn m * int (if up then q + 1 else q)) (e + int sh))"

fun timesSecond :: "gofloat \<Rightarrow> gofloat" where
  "timesSecond (FFin m e) = roundTo53 (m * second) e"
| "timesSecond f = f"

text \<open>\<open>f <= 0\<close> and \<open>f > 0\<close>; the argument of \<open>FInf\<close> is the sign.\<close>

fun floatNonPos :: "gofloat \<Rightarrow> bool" where
  "floatNonPos (FFin m e) \<longleftrightarrow> m \<le> 0"
| "floatNonPos (FInf neg) \<longleftrightarrow> neg"
| "floatNonPos FNaN \<longleftrightarrow> False"

fun floatPos :: "gofloat \<Rightarrow> bool" where
  "floatPos (FFin m e) \<longleftrightarrow> 0 < m"
| "floatPos (FInf neg) \<longleftrightarrow> \<not> neg"
| "floatPos FNaN \<longleftrightarrow> False"

definition intSeconds :: "int \<Rightarrow> goduration" where
  "intSeconds v = (if v \<le> 0 then 0 else wrap64 (wrap64 v * second))"

definition floatSeconds :: "gofloat \<Rightarrow> goduration" where
  "floatSeconds f = (if floatNonPos f then 0 else float_to_int64 (timesSecond f))"

definition parseDurationString :: "RefreshEnv \<Rightarrow> string \<Rightarrow> goduration" where
  "parseDurationString env raw =
     (let s = trim_space raw
      in if s = [] then 0
         else (case (case re_parseDuration env s of Some dur \<Rightarrow> if dur > 0 then Some dur else None | None \<Rightarrow> None) of
                 Some dur \<Rightarrow> dur
               | None \<Rightarrow> (case re_parseFloat env s of
                            Some secs \<Rightarrow> if floatPos secs then float_to_int64 (timesSecond secs) else 0
                          | None \<Rightarrow> 0)))"

fun parseDurationValue :: "RefreshEnv \<Rightarrow> goany \<Rightarrow> goduration" where
  "parseDurationValue env (GoDuration v) = (if sint v \<le> 0 then 0 else sint v)"
| "parseDurationValue env (GoInt v) = intSeconds (sint v)"
| "parseDurationValue env (GoInt32 v) = intSeconds (sint v)"
| "parseDurationValue env (GoInt64 v) = intSeconds (sint v)"
| "parseDurationValue env (GoUint v) = intSeconds (uint v)"
| "parseDurationValue env (GoUint32 v) = intSeconds (uint v)"
| "parseDurationValue env (GoUint64 v) = intSeconds (uint v)"
| "parseDurationValue env (GoFloat32 v) = floatSeconds v"
| "parseDurationValue env (GoFloat64 v) = floatSeconds v"
| "parseDurationValue env (GoNumber v) =
     (case parse_int64 v of
        Some i \<Rightarrow> intSeconds i
      | None \<Rightarrow> (case re_parseFloat env v of
                   Some f \<Rightarrow> if floatPos f then float_to_int64 (timesSecond f) else 0
                 | None \<Rightarrow> 0))"
| "parseDurationValue env (GoString v) = parseDurationString env v"
| "parseDurationValue env _ = 0"

text \<open>The loops over the spellings of a key that stop at the first positive duration.\<close>

fun firstDuration :: "('v \<Rightarrow> goduration) \<Rightarrow> (string, 'v) gomap \<Rightarrow> string list \<Rightarrow> goduration" where
  "firstDuration parse m [] = 0"
| "firstDuration parse m (key # keys) =
     (case m_get m key of
        Some val \<Rightarrow> (let dur = parse val in if dur > 0 then dur else firstDuration parse m keys)
      | None \<Rightarrow> firstDuration parse m keys)"

definition durationFromMetadata :: "RefreshEnv \<Rightarrow> (string, goany) gomap \<Rightarrow> string list \<Rightarrow> goduration" where
  "durationFromMetadata env meta keys = firstDuration (parseDurationValue env) meta keys"

definition durationFromAttributes :: "RefreshEnv \<Rightarrow> (string, string) gomap \<Rightarrow> string list \<Rightarrow> goduration" where
  "durationFromAttributes env attrs keys = firstDuration (parseDurationString env) attrs keys"

definition intervalKeys :: "string list" where
  "intervalKeys = [''refresh_interval_seconds'', ''refreshIntervalSeconds'', ''refresh_interval'', ''refreshInterval'']"

definition authPreferredInterval :: "RefreshEnv \<Rightarrow> Auth \<Rightarrow> goduration" where
  "authPreferredInterval env a =
     (let d = durationFromMetadata env (a_Metadata a) intervalKeys
      in if d > 0 then d
         else let d = durationFromAttributes env (a_Attributes a) intervalKeys in if d > 0 then d else 0)"

section \<open>The last refresh, the expiry and the lead\<close>

definition lastRefreshKeys :: "string list" where
  "lastRefreshKeys = [''last_refresh'', ''lastRefresh'', ''last_refreshed_at'', ''lastRefreshedAt'']"

fun attributeTime :: "(string, string) gomap \<Rightarrow> string list \<Rightarrow> gotime option" where
  "attributeTime attrs [] = None"
| "attributeTime attrs (key # keys) =
     (let val = trim_space (m_get0 [] attrs key)
      in case (if val \<noteq> [] then parseTimeString val else None) of
           Some ts \<Rightarrow> Some ts
         | None \<Rightarrow> attributeTime attrs keys)"

definition authLastRefreshTimestamp :: "RefreshEnv \<Rightarrow> Auth \<Rightarrow> gotime option" where
  "authLastRefreshTimestamp env a =
     (case lookupMetadataTime (re_parseFloat env) (a_Metadata a) lastRefreshKeys of
        Some ts \<Rightarrow> Some ts
      | None \<Rightarrow> attributeTime (a_Attributes a) lastRefreshKeys)"

text \<open>The start of both decisions: \<open>LastRefreshedAt\<close>, or else a recorded time.\<close>

definition lastRefreshOf :: "RefreshEnv \<Rightarrow> Auth \<Rightarrow> gotime" where
  "lastRefreshOf env a =
     (if is_zero (a_LastRefreshedAt a)
      then (case authLastRefreshTimestamp env a of Some ts \<Rightarrow> ts | None \<Rightarrow> a_LastRefreshedAt a)
      else a_LastRefreshedAt a)"

definition ExpirationTime :: "RefreshEnv \<Rightarrow> Auth \<Rightarrow> gotime option" where
  "ExpirationTime env a = expirationFromMap (re_parseFloat env) (a_Metadata a)"

text \<open>The test \<open>hasExpiry && !expiry.IsZero()\<close>.\<close>

definition expiryOf :: "RefreshEnv \<Rightarrow> Auth \<Rightarrow> gotime option" where
  "expiryOf env a =
     (case ExpirationTime env a of Some expiry \<Rightarrow> if is_zero expiry then None else Some expiry | None \<Rightarrow> None)"

definition RegisterRefreshLeadProvider :: "string \<Rightarrow> goduration option option \<Rightarrow> RefreshEnv \<Rightarrow> RefreshEnv" where
  "RegisterRefreshLeadProvider provider factory env =
     (let provider = to_lower (trim_space provider)
      in if provider = [] then env
         else (case factory of
                 None \<Rightarrow> env
               | Some lead \<Rightarrow> env\<lparr>re_factories := m_put provider lead (re_factories env)\<rparr>))"

definition positiveLead :: "goduration option \<Rightarrow> goduration option" where
  "positiveLead lead = (case lead of Some d \<Rightarrow> if d > 0 then Some d else None | None \<Rightarrow> None)"

definition ProviderRefreshLead :: "RefreshEnv \<Rightarrow> string \<Rightarrow> RefreshRuntime option \<Rightarrow> goduration option" where
  "ProviderRefreshLead env provider runtime =
     (let provider = to_lower (trim_space provider)
      in case (case runtime of Some rt \<Rightarrow> positiveLead (rt_RefreshLead rt) | None \<Rightarrow> None) of
           Some lead \<Rightarrow> Some lead
         | None \<Rightarrow> (case m_get (re_factories env) provider of Some lead \<Rightarrow> positiveLead lead | None \<Rightarrow> None))"

definition runtimeEvaluator :: "RefreshRuntime option \<Rightarrow> (gotime \<Rightarrow> Auth \<Rightarrow> bool) option" where
  "runtimeEvaluator runtime = (case runtime of Some rt \<Rightarrow> rt_ShouldRefresh rt | None \<Rightarrow> None)"

definition hasUnauthorizedAuthFailure :: "Auth \<Rightarrow> bool" where
  "hasUnauthorizedAuthFailure auth =
     (case a_LastError auth of
        None \<Rightarrow> False
      | Some e \<Rightarrow> e_HTTPStatus e = 401 \<or> equal_fold (e_Code e) ''unauthorized'')"

section \<open>The decision\<close>

text \<open>\<open>untl\<close> is the clock reading of \<open>time.Until\<close>, made after \<open>now\<close>.\<close>

definition shouldRefresh :: "RefreshEnv \<Rightarrow> gotime \<Rightarrow> gotime \<Rightarrow> RefreshRuntime option \<Rightarrow> Auth \<Rightarrow> bool" where
  "shouldRefresh env now untl runtime a =
     (if hasUnauthorizedAuthFailure a then False
      else if \<not> is_zero (a_NextRefreshAfter a) \<and> now < a_NextRefreshAfter a then False
      else case runtimeEvaluator runtime of
        Some evaluator \<Rightarrow> evaluator now a
      | None \<Rightarrow>
          (let lastRefresh = lastRefreshOf env a; expiry = expiryOf env a; interval = authPreferredInterval env a
           in if interval > 0
              then (if (case expiry of Some e \<Rightarrow> \<not> e > now \<or> time_sub e now \<le> interval | None \<Rightarrow> False) then True
                    else if is_zero lastRefresh then True
                    else time_sub now lastRefresh \<ge> interval)
              else (case ProviderRefreshLead env (to_lower (a_Provider a)) runtime of
                      None \<Rightarrow> False
                    | Some lead \<Rightarrow>
                        if lead \<le> 0 then (case expiry of Some e \<Rightarrow> now > e | None \<Rightarrow> False)
                        else (case expiry of
                                Some e \<Rightarrow> time_sub e untl \<le> lead
                              | None \<Rightarrow> if \<not> is_zero lastRefresh then time_sub now lastRefresh \<ge> lead else True))))"

text \<open>The earliest of the candidates, as the loop over them computes it.\<close>

definition earliestOf :: "gotime list \<Rightarrow> gotime" where
  "earliestOf candidates = foldl (\<lambda>nxt candidate. if candidate < nxt then candidate else nxt) (hd candidates) (tl candidates)"

definition nextRefreshCheckAt :: "RefreshEnv \<Rightarrow> gotime \<Rightarrow> goduration \<Rightarrow> RefreshRuntime option \<Rightarrow> Auth \<Rightarrow> gotime option" where
  "nextRefreshCheckAt env now interval runtime auth =
     (if hasUnauthorizedAuthFailure auth then None
      else if AuthKind auth = ''apikey'' then None
      else if \<not> is_zero (a_NextRefreshAfter auth) \<and> now < a_NextRefreshAfter auth then Some (a_NextRefreshAfter auth)
      else case runtimeEvaluator runtime of
        Some _ \<Rightarrow> Some (now + (if interval \<le> 0 then refreshCheckInterval else interval))
      | None \<Rightarrow>
          (let lastRefresh = lastRefreshOf env auth; expiry = expiryOf env auth; pref = authPreferredInterval env auth
           in if pref > 0
              then (if (case expiry of Some e \<Rightarrow> \<not> e > now \<or> time_sub e now \<le> pref | None \<Rightarrow> False) then Some now
                    else if is_zero lastRefresh then Some now
                    else let nxt = earliestOf ((case expiry of Some e \<Rightarrow> [e - pref] | None \<Rightarrow> []) @ [lastRefresh + pref])
                      in if \<not> nxt > now then Some now else Some nxt)
              else (case ProviderRefreshLead env (to_lower (a_Provider auth)) runtime of
                      None \<Rightarrow> None
                    | Some lead \<Rightarrow>
                        (case expiry of
                           Some e \<Rightarrow> let dueAt = e - lead in if \<not> dueAt > now then Some now else Some dueAt
                         | None \<Rightarrow>
                             if \<not> is_zero lastRefresh
                             then let dueAt = lastRefresh + lead in if \<not> dueAt > now then Some now else Some dueAt
                             else Some now))))"

section \<open>Bounds of the durations\<close>

definition durationsBounded :: "RefreshEnv \<Rightarrow> bool" where
  "durationsBounded env \<longleftrightarrow> (\<forall>s d. re_parseDuration env s = Some d \<longrightarrow> in64 d)"

lemma in64_0 [simp]: "in64 0"
  by (simp add: in64_def)

lemma in64_intSeconds: "in64 (intSeconds v)"
  by (simp add: intSeconds_def)

lemma in64_floatSeconds: "in64 (floatSeconds f)"
  by (simp add: floatSeconds_def in64_float)

lemma in64_parseDurationString: "durationsBounded env \<Longrightarrow> in64 (parseDurationString env s)"
  by (auto simp: parseDurationString_def Let_def durationsBounded_def in64_float split: option.splits if_splits)

lemma in64_parseDurationValue: "durationsBounded env \<Longrightarrow> in64 (parseDurationValue env v)"
  by (cases v) (auto simp: in64_intSeconds in64_floatSeconds in64_parseDurationString in64_sint64 in64_float split: option.split)

lemma in64_firstDuration: "(\<And>v. in64 (parse v)) \<Longrightarrow> in64 (firstDuration parse m keys)"
  by (induction keys) (auto simp: Let_def split: option.split)

lemma authPreferredInterval_bounds:
  assumes "durationsBounded env"
  shows "0 \<le> authPreferredInterval env a" and "authPreferredInterval env a \<le> max_int64"
proof -
  have "in64 (durationFromMetadata env m ks)" for m ks
    unfolding durationFromMetadata_def by (rule in64_firstDuration) (rule in64_parseDurationValue [OF assms])
  moreover have "in64 (durationFromAttributes env m ks)" for m ks
    unfolding durationFromAttributes_def by (rule in64_firstDuration) (rule in64_parseDurationString [OF assms])
  ultimately show "0 \<le> authPreferredInterval env a" "authPreferredInterval env a \<le> max_int64"
    unfolding authPreferredInterval_def Let_def in64_def by auto
qed

lemma ProviderRefreshLead_pos: "ProviderRefreshLead env p rt = Some lead \<Longrightarrow> 0 < lead"
  by (auto simp: ProviderRefreshLead_def positiveLead_def Let_def split: option.splits if_splits)

lemma time_sub_le_iff: "d < max_int64 \<Longrightarrow> 0 \<le> d \<Longrightarrow> time_sub t u \<le> d \<longleftrightarrow> t - u \<le> d"
  by (auto simp: time_sub_def)

lemma le_time_sub_iff: "0 < d \<Longrightarrow> d \<le> max_int64 \<Longrightarrow> d \<le> time_sub t u \<longleftrightarrow> d \<le> t - u"
  by (auto simp: time_sub_def)

lemma time_sub_gt: "\<not> time_sub t u \<le> d \<Longrightarrow> 0 \<le> d \<Longrightarrow> d < t - u"
  by (auto simp: time_sub_def)

section \<open>The schedule and the decision agree\<close>

lemma expiryOf_nonzero: "expiryOf env a = Some e \<Longrightarrow> e \<noteq> 0"
  by (auto simp: expiryOf_def split: option.splits if_splits)

lemma earliestOf_simps [simp]: "earliestOf [x] = x" "earliestOf [x, y] = (if y < x then y else x)"
  by (simp_all add: earliestOf_def)

lemma nextRefreshCheckAt_ge: "nextRefreshCheckAt env now interval rt a = Some t \<Longrightarrow> now \<le> t"
  by (auto simp: nextRefreshCheckAt_def Let_def not_less split: if_splits option.splits)

text \<open>The part of the schedule after the guards, which only depends on the record, in the cases of
  the interval and of the lead.\<close>

lemma interval_due:
  assumes ivl: "0 < ivl" and pref: "ivl \<le> max_int64"
    and early: "\<not> (case ex of Some e \<Rightarrow> \<not> e > now \<or> time_sub e now \<le> ivl | None \<Rightarrow> False)"
  shows "earliestOf ((case ex of Some e \<Rightarrow> [e - ivl] | None \<Rightarrow> []) @ [l + ivl]) \<le> now \<longleftrightarrow> time_sub now l \<ge> ivl"
proof (cases ex)
  case None
  then show ?thesis using le_time_sub_iff [OF ivl pref, of now l] by auto
next
  case (Some e)
  then have "ivl < e - now" using early ivl by (intro time_sub_gt) auto
  then show ?thesis using Some le_time_sub_iff [OF ivl pref, of now l] by auto
qed

lemma shouldRefresh_if_due:
  assumes b: "durationsBounded env" and noev: "runtimeEvaluator rt = None" and u: "now \<le> untl"
    and due: "nextRefreshCheckAt env now interval rt a = Some t" "t \<le> now"
    and lead: "\<And>lead. ProviderRefreshLead env (to_lower (a_Provider a)) rt = Some lead \<Longrightarrow> lead < max_int64"
  shows "shouldRefresh env now untl rt a"
proof -
  note pb = authPreferredInterval_bounds [OF b, of a]
  have g: "\<not> hasUnauthorizedAuthFailure a" "\<not> (a_NextRefreshAfter a \<noteq> 0 \<and> now < a_NextRefreshAfter a)"
    using due by (auto simp: nextRefreshCheckAt_def split: if_splits)
  show ?thesis
  proof (cases "authPreferredInterval env a > 0")
    case True
    then show ?thesis
      using due g noev interval_due [OF True pb(2), where l = "lastRefreshOf env a" and ex = "expiryOf env a" and now = now]
      by (auto simp: nextRefreshCheckAt_def shouldRefresh_def Let_def simp del: earliestOf_simps split: if_splits)
  next
    case False
    then obtain d where d: "ProviderRefreshLead env (to_lower (a_Provider a)) rt = Some d"
      using due g noev by (auto simp: nextRefreshCheckAt_def Let_def split: if_splits option.splits)
    note dp = ProviderRefreshLead_pos [OF d] lead [OF d]
    show ?thesis
      using False due g noev d dp u time_sub_le_iff [of d _ untl] le_time_sub_iff [of d now "lastRefreshOf env a"]
      by (auto simp: nextRefreshCheckAt_def shouldRefresh_def Let_def split: if_splits option.splits)
  qed
qed

lemma due_if_shouldRefresh:
  assumes b: "durationsBounded env" and noev: "runtimeEvaluator rt = None" and u: "now \<le> untl"
    and sr: "shouldRefresh env now untl rt a" and oauth: "AuthKind a \<noteq> ''apikey''"
    and lead: "\<And>lead. ProviderRefreshLead env (to_lower (a_Provider a)) rt = Some lead \<Longrightarrow> lead < max_int64"
  shows "\<exists>t \<le> untl. nextRefreshCheckAt env now interval rt a = Some t"
proof -
  note pb = authPreferredInterval_bounds [OF b, of a]
  have g: "\<not> hasUnauthorizedAuthFailure a" "\<not> (a_NextRefreshAfter a \<noteq> 0 \<and> now < a_NextRefreshAfter a)"
    using sr by (auto simp: shouldRefresh_def split: if_splits)
  show ?thesis
  proof (cases "authPreferredInterval env a > 0")
    case True
    then show ?thesis
      using sr g noev oauth u interval_due [OF True pb(2), where l = "lastRefreshOf env a" and ex = "expiryOf env a" and now = now]
      by (auto simp: nextRefreshCheckAt_def shouldRefresh_def Let_def simp del: earliestOf_simps split: if_splits)
  next
    case False
    then obtain d where d: "ProviderRefreshLead env (to_lower (a_Provider a)) rt = Some d"
      using sr g noev by (auto simp: shouldRefresh_def Let_def split: if_splits option.splits)
    note dp = ProviderRefreshLead_pos [OF d] lead [OF d]
    show ?thesis
      using False sr g noev oauth d dp u time_sub_le_iff [of d _ untl] le_time_sub_iff [of d now "lastRefreshOf env a"]
      by (auto simp: nextRefreshCheckAt_def shouldRefresh_def Let_def split: if_splits option.splits)
  qed
qed

text \<open>
  C22: For a credential whose runtime object makes no decision of its own, the schedule and the
  decision agree. When the scheduled check is due, the check finds that the credential should be
  refreshed, also when the second clock reading is later; when a credential other than an API key
  should be refreshed, a check is scheduled no later than that reading; an API key is never
  scheduled.
\<close>

theorem refresh_schedule_agrees:
  assumes "durationsBounded env" and "runtimeEvaluator rt = None" and "now \<le> untl"
    and "\<And>lead. ProviderRefreshLead env (to_lower (a_Provider a)) rt = Some lead \<Longrightarrow> lead < max_int64"
  shows "((\<exists>t \<le> now. nextRefreshCheckAt env now interval rt a = Some t) \<longrightarrow> shouldRefresh env now untl rt a)
    \<and> (AuthKind a \<noteq> ''apikey'' \<and> shouldRefresh env now untl rt a
        \<longrightarrow> (\<exists>t \<le> untl. nextRefreshCheckAt env now interval rt a = Some t))
    \<and> (AuthKind a = ''apikey'' \<longrightarrow> nextRefreshCheckAt env now interval rt a = None)"
proof (intro conjI impI)
  assume "\<exists>t \<le> now. nextRefreshCheckAt env now interval rt a = Some t"
  then show "shouldRefresh env now untl rt a" using shouldRefresh_if_due [OF assms(1-3) _ _ assms(4)] by blast
next
  assume "AuthKind a \<noteq> ''apikey'' \<and> shouldRefresh env now untl rt a"
  then show "\<exists>t \<le> untl. nextRefreshCheckAt env now interval rt a = Some t"
    using due_if_shouldRefresh [OF assms(1-3) _ _ assms(4)] by blast
qed (simp add: nextRefreshCheckAt_def)

abbreviation sampleRefreshEnv :: RefreshEnv where
  "sampleRefreshEnv \<equiv> \<lparr>re_parseDuration = \<lambda>_. None, re_parseFloat = \<lambda>_. None, re_factories = [(''codex'', Some (5 * minute))]\<rparr>"

text \<open>A credential that expires at noon of 1 January 2026, and the instant.\<close>

abbreviation sampleExpiry :: gotime where
  "sampleExpiry \<equiv> unixEpoch + 1767268800 * second"

abbreviation sampleExpiring :: Auth where
  "sampleExpiring \<equiv> (new_auth ''a'' ''codex'')\<lparr>a_Metadata := [(''expired'', GoString ''2026-01-01T12:00:00Z'')]\<rparr>"

lemma sampleExpiring_next:
  "nextRefreshCheckAt sampleRefreshEnv (sampleExpiry - 5 * minute) second None sampleExpiring = Some (sampleExpiry - 5 * minute)"
  by code_simp

lemma refresh_schedule_agrees_witness:
  "shouldRefresh sampleRefreshEnv (sampleExpiry - 5 * minute) (sampleExpiry - 4 * minute) None sampleExpiring"
proof -
  have "ProviderRefreshLead sampleRefreshEnv (to_lower (a_Provider sampleExpiring)) None = Some (5 * minute)" by code_simp
  then show ?thesis
    using refresh_schedule_agrees [of sampleRefreshEnv None "sampleExpiry - 5 * minute" "sampleExpiry - 4 * minute" sampleExpiring second]
      sampleExpiring_next
    by (auto simp: durationsBounded_def runtimeEvaluator_def)
qed

section \<open>What the schedule depends on\<close>

lemma authAttribute_cong: "a_Attributes b = a_Attributes a \<Longrightarrow> authAttribute b = authAttribute a"
  by (simp add: authAttribute_def fun_eq_iff)

lemma authMetadataString_cong: "a_Metadata b = a_Metadata a \<Longrightarrow> authMetadataString b = authMetadataString a"
  by (simp add: authMetadataString_def fun_eq_iff)

lemma AuthKind_cong:
  assumes "a_Attributes b = a_Attributes a" and "a_Metadata b = a_Metadata a"
  shows "AuthKind b = AuthKind a"
  unfolding AuthKind_def authHasOAuthMetadata_def authAttribute_cong [OF assms(1)] authMetadataString_cong [OF assms(2)] assms ..

lemma nextRefreshCheckAt_cong:
  assumes "a_Attributes b = a_Attributes a" and "a_Metadata b = a_Metadata a" and "a_Provider b = a_Provider a"
    and "a_LastRefreshedAt b = a_LastRefreshedAt a" and "a_NextRefreshAfter b = a_NextRefreshAfter a"
    and u: "hasUnauthorizedAuthFailure b = hasUnauthorizedAuthFailure a"
  shows "nextRefreshCheckAt env now interval rt b = nextRefreshCheckAt env now interval rt a"
proof -
  have l: "lastRefreshOf env b = lastRefreshOf env a"
    unfolding lastRefreshOf_def authLastRefreshTimestamp_def assms(1-5) ..
  have e: "expiryOf env b = expiryOf env a"
    unfolding expiryOf_def ExpirationTime_def assms(1-5) ..
  have p: "authPreferredInterval env b = authPreferredInterval env a"
    unfolding authPreferredInterval_def assms(1-5) ..
  show ?thesis unfolding nextRefreshCheckAt_def u l e p assms(1-5) AuthKind_cong [OF assms(1,2)] ..
qed

text \<open>A credential that is not scheduled now is not scheduled later, as long as its record stays the
  same: time only ends the wait for \<open>NextRefreshAfter\<close>.\<close>

definition schedulable :: "RefreshEnv \<Rightarrow> gotime \<Rightarrow> RefreshRuntime option \<Rightarrow> Auth \<Rightarrow> bool" where
  "schedulable env now rt a \<longleftrightarrow> nextRefreshCheckAt env now refreshCheckInterval rt a \<noteq> None"

lemma nextRefreshCheckAt_None_iff:
  "nextRefreshCheckAt env now interval rt a = None \<longleftrightarrow>
     hasUnauthorizedAuthFailure a \<or> AuthKind a = ''apikey''
     \<or> (\<not> (a_NextRefreshAfter a \<noteq> 0 \<and> now < a_NextRefreshAfter a) \<and> runtimeEvaluator rt = None
        \<and> authPreferredInterval env a \<le> 0 \<and> ProviderRefreshLead env (to_lower (a_Provider a)) rt = None)"
  by (auto simp: nextRefreshCheckAt_def Let_def split: option.splits if_splits)

lemma schedulable_antimono: "schedulable env now' rt a \<Longrightarrow> now \<le> now' \<Longrightarrow> schedulable env now rt a"
  unfolding schedulable_def nextRefreshCheckAt_None_iff by auto

lemma schedulable_next: "schedulable env now rt a \<longleftrightarrow> nextRefreshCheckAt env now interval rt a \<noteq> None"
  unfolding schedulable_def nextRefreshCheckAt_None_iff by auto

end
