(* ===== verification/AuthManager.thy ===== *)
theory AuthManager
  imports CooldownOps
begin

text \<open>
  The life cycle of credentials in the manager (\<open>backend/sdk/cliproxy/auth/conductor_lifecycle.go\<close> and
  the index of \<open>types.go\<close>): registration, update, removal and loading, the executors by provider, the
  retry settings, and what is persisted. An operation is its locked section on the maps together
  with the calls it makes afterwards, in order. The lemmas show that the maps stay well formed and
  that an update keeps what the runtime has counted.

  Parameters: the digest behind \<open>stableAuthIndex\<close> (the hexadecimal form of the first eight bytes of
  SHA-256) and the absolute, cleaned form of a path.
\<close>

section \<open>The index of a credential\<close>

record IndexEnv =
  ie_digest :: "string \<Rightarrow> string"
  ie_absClean :: "string \<Rightarrow> string"

definition stableAuthIndex :: "IndexEnv \<Rightarrow> string \<Rightarrow> string" where
  "stableAuthIndex env seed = (let seed = trim_space seed in if seed = [] then [] else ie_digest env seed)"

definition seedFilePath :: "Auth \<Rightarrow> string" where
  "seedFilePath a =
     (let filePath = trim_space (m_get0 [] (a_Attributes a) ''path'');
          filePath = (if filePath = [] then trim_space (m_get0 [] (a_Attributes a) ''source'') else filePath);
          filePath = (if filePath = [] then trim_space (a_FileName a) else filePath)
      in if filePath = [] then trim_space (a_ID a) else filePath)"

definition seedAuthType :: "Auth \<Rightarrow> string" where
  "seedAuthType a =
     (let authType = (case m_get (a_Metadata a) ''type'' of Some (GoString rawType) \<Rightarrow> trim_space rawType | _ \<Rightarrow> []);
          authType = (if authType = [] then trim_space (to_lower (trim_space (a_Provider a))) else authType)
      in to_lower (trim_space authType))"

definition seedApiPrefix :: "Auth \<Rightarrow> string" where
  "seedApiPrefix a =
     (let provider = to_lower (trim_space (a_Provider a));
          compatName = trim_space (m_get0 [] (a_Attributes a) ''compat_name'');
          apiKey = trim_space (m_get0 [] (a_Attributes a) ''api_key'')
      in if apiKey = [] then []
         else if compatName \<noteq> [] \<or> equal_fold provider ''openai-compatibility'' then ''openai-compatibility''
         else if equal_fold provider ''gemini'' then ''gemini-api-key''
         else if equal_fold provider ''gemini-interactions'' then ''interactions-api-key''
         else if equal_fold provider ''codex'' then ''codex-api-key''
         else if equal_fold provider ''xai'' then ''xai-api-key''
         else if equal_fold provider ''claude'' then ''claude-api-key'' else [])"

definition indexSeed :: "IndexEnv \<Rightarrow> Auth \<Rightarrow> string" where
  "indexSeed env a =
     (let seed = trim_space (m_get0 [] (a_Attributes a) ''auth_index_seed'')
      in if seed \<noteq> [] then ''auth_index_seed:'' @ seed
         else let filePath = seedFilePath a; authType = seedAuthType a; apiPrefix = seedApiPrefix a
           in if filePath \<noteq> [] \<and> has_suffix (to_lower filePath) ''.json'' \<and> authType \<noteq> []
              then authType @ '':'' @ ie_absClean env filePath
              else if apiPrefix \<noteq> []
              then apiPrefix @ '':'' @ trim_space (m_get0 [] (a_Attributes a) ''base_url'') @ ''+''
                @ trim_space (m_get0 [] (a_Attributes a) ''api_key'')
              else if trim_space (a_ID a) \<noteq> [] then ''id:'' @ trim_space (a_ID a) else [])"

definition EnsureIndex :: "IndexEnv \<Rightarrow> Auth \<Rightarrow> Auth" where
  "EnsureIndex env a =
     (let existingIndex = trim_space (a_Index a)
      in if existingIndex \<noteq> [] then a\<lparr>a_Index := existingIndex, a_indexAssigned := True\<rparr>
         else let seed = indexSeed env a
           in if seed = [] then a else a\<lparr>a_Index := stableAuthIndex env seed, a_indexAssigned := True\<rparr>)"

section \<open>The manager\<close>

text \<open>Executors are opaque; the code compares two of them for identity.\<close>

record 'x AuthManager =
  am_auths :: "(string, Auth) gomap"
  am_executors :: "(string, 'x) gomap"
  am_modelPoolOffsets :: "(string, int) gomap"
  am_homeRuntimeAuths :: "(string, (string, Auth) gomap) gomap"
  am_requestRetry :: int
  am_maxRetryCredentials :: int
  am_maxRetryInterval :: int

datatype ManagerCall =
    RebuildAliases | SchedulerUpsert Auth | SchedulerRemove string | SchedulerSync
  | QueueReschedule string | QueueUnschedule string | SaveAuth Auth | OnRegistered Auth | OnUpdated Auth
  | InvalidateAffinity string | CloseSessions string | PersistCooldowns

text \<open>What the context and the configuration decide for a call.\<close>

record CallEnv =
  ce_cooling :: CoolingEnv
  ce_index :: IndexEnv
  ce_deferRebuild :: bool
  ce_skipPersist :: bool
  ce_hasScheduler :: bool
  ce_hasStore :: bool

definition IsConfigAPIKeyAuth :: "Auth \<Rightarrow> bool" where
  "IsConfigAPIKeyAuth auth \<longleftrightarrow> AuthKind auth = ''apikey'' \<and> AuthSourceKind auth = ''config'' \<and> authAttribute auth ''api_key'' \<noteq> []"

text \<open>Whether \<open>persist\<close> reaches the store. A nil metadata map is an empty one here.\<close>

definition persistsAuth :: "CallEnv \<Rightarrow> Auth \<Rightarrow> bool" where
  "persistsAuth env auth \<longleftrightarrow> ce_hasStore env \<and> ValidateAuthWeight auth = None \<and> \<not> ce_skipPersist env
     \<and> \<not> IsConfigAPIKeyAuth auth
     \<and> to_lower (trim_space (m_get0 [] (a_Attributes auth) ''runtime_only'')) \<noteq> ''true''
     \<and> \<not> IsPluginVirtualAuth auth \<and> a_Metadata auth \<noteq> []"

definition callsWhen :: "bool \<Rightarrow> ManagerCall list \<Rightarrow> ManagerCall list" where
  "callsWhen b calls = (if b then calls else [])"

text \<open>The clearing of cooldowns for a credential that must not carry any.\<close>

definition clearIfDisabled :: "CallEnv \<Rightarrow> gotime \<Rightarrow> Auth \<Rightarrow> Auth \<times> bool" where
  "clearIfDisabled env now auth =
     (if cooldownDisabledForAuth (ce_cooling env) auth \<or> a_Disabled auth \<or> a_Status auth = StatusDisabled
      then clearCooldownStateForAuth auth now else (auth, False))"

definition Register :: "CallEnv \<Rightarrow> gotime \<Rightarrow> string \<Rightarrow> Auth \<Rightarrow> 'x AuthManager
    \<Rightarrow> weight_source_error + (Auth \<times> 'x AuthManager \<times> ManagerCall list)" where
  "Register env now newID auth m =
     (case ValidateAuthWeight auth of
        Some errWeight \<Rightarrow> Inl errWeight
      | None \<Rightarrow>
          (let auth = (if a_ID auth = [] then auth\<lparr>a_ID := newID\<rparr> else auth);
               (auth, clearedCooldown) = clearIfDisabled env now auth;
               auth = EnsureIndex (ce_index env) auth
           in Inr (auth, m\<lparr>am_auths := m_put (a_ID auth) auth (am_auths m)\<rparr>,
                callsWhen (\<not> ce_deferRebuild env) [RebuildAliases] @ callsWhen (ce_hasScheduler env) [SchedulerUpsert auth]
                @ [QueueReschedule (a_ID auth)] @ callsWhen (persistsAuth env auth) [SaveAuth auth]
                @ [OnRegistered auth] @ callsWhen clearedCooldown [PersistCooldowns])))"

text \<open>What an update keeps of the entry it replaces.\<close>

definition mergeExisting :: "Auth \<Rightarrow> Auth \<Rightarrow> Auth" where
  "mergeExisting existing auth =
     (let auth = (if \<not> a_indexAssigned auth \<and> a_Index auth = []
            then auth\<lparr>a_Index := a_Index existing, a_indexAssigned := a_indexAssigned existing\<rparr> else auth);
          auth = auth\<lparr>a_Success := a_Success existing, a_Failed := a_Failed existing,
            a_recentRequests := a_recentRequests existing\<rparr>
      in if \<not> a_Disabled existing \<and> a_Status existing \<noteq> StatusDisabled \<and> \<not> a_Disabled auth \<and> a_Status auth \<noteq> StatusDisabled
            \<and> a_ModelStates auth = [] \<and> a_ModelStates existing \<noteq> []
         then auth\<lparr>a_ModelStates := a_ModelStates existing\<rparr> else auth)"

definition UpdateAuth :: "CallEnv \<Rightarrow> gotime \<Rightarrow> Auth \<Rightarrow> 'x AuthManager
    \<Rightarrow> weight_source_error + (Auth option \<times> 'x AuthManager \<times> ManagerCall list)" where
  "UpdateAuth env now auth m =
     (if a_ID auth = [] then Inr (None, m, [])
      else case ValidateAuthWeight auth of
        Some errWeight \<Rightarrow> Inl errWeight
      | None \<Rightarrow>
          (case m_get (am_auths m) (a_ID auth) of
             None \<Rightarrow> Inr (None, m, [])
           | Some existing \<Rightarrow>
               (let (auth, clearedCooldown) = clearIfDisabled env now (mergeExisting existing auth);
                    auth = EnsureIndex (ce_index env) auth
                in Inr (Some auth, m\<lparr>am_auths := m_put (a_ID auth) auth (am_auths m)\<rparr>,
                     callsWhen (\<not> ce_deferRebuild env) [RebuildAliases] @ callsWhen (ce_hasScheduler env) [SchedulerUpsert auth]
                     @ [QueueReschedule (a_ID auth)] @ callsWhen (persistsAuth env auth) [SaveAuth auth]
                     @ [OnUpdated auth] @ callsWhen clearedCooldown [PersistCooldowns]))))"

text \<open>The loop over the sessions deletes the credential from each and drops the sessions left empty.\<close>

definition dropSessionAuth :: "string \<Rightarrow> (string, (string, Auth) gomap) gomap \<Rightarrow> (string, (string, Auth) gomap) gomap" where
  "dropSessionAuth ident sessions =
     filter (\<lambda>(_, sessionAuths). sessionAuths \<noteq> []) (map (\<lambda>(sessionID, sessionAuths). (sessionID, m_del ident sessionAuths)) sessions)"

definition RemoveAuth :: "CallEnv \<Rightarrow> string \<Rightarrow> 'x AuthManager \<Rightarrow> 'x AuthManager \<times> ManagerCall list" where
  "RemoveAuth env ident m =
     (let ident = trim_space ident
      in case (if ident = [] then None else m_get (am_auths m) ident) of
           None \<Rightarrow> (m, [])
         | Some existing \<Rightarrow>
             (let provider = trim_space (a_Provider existing)
              in (m\<lparr>am_auths := m_del ident (am_auths m), am_modelPoolOffsets := m_del ident (am_modelPoolOffsets m),
                    am_homeRuntimeAuths := dropSessionAuth ident (am_homeRuntimeAuths m)\<rparr>,
                  callsWhen (\<not> ce_deferRebuild env) [RebuildAliases] @ callsWhen (ce_hasScheduler env) [SchedulerRemove ident]
                  @ [QueueUnschedule ident, InvalidateAffinity ident]
                  @ callsWhen (provider \<noteq> [] \<and> m_get (am_executors m) provider \<noteq> None) [CloseSessions provider]
                  @ [PersistCooldowns])))"

text \<open>\<open>items\<close> is what the store lists, \<open>None\<close> standing for a nil entry.\<close>

definition loadOne :: "IndexEnv \<Rightarrow> (string, Auth) gomap \<Rightarrow> Auth option \<Rightarrow> (string, Auth) gomap" where
  "loadOne env auths item =
     (case item of
        None \<Rightarrow> auths
      | Some auth \<Rightarrow>
          if a_ID auth = [] then auths
          else if ValidateAuthWeight auth \<noteq> None then auths
          else let auth = EnsureIndex env auth in m_put (a_ID auth) auth auths)"

definition LoadAuths :: "CallEnv \<Rightarrow> 'e + Auth option list \<Rightarrow> 'x AuthManager \<Rightarrow> 'e + ('x AuthManager \<times> ManagerCall list)" where
  "LoadAuths env listed m =
     (if \<not> ce_hasStore env then Inr (m, [])
      else case listed of
        Inl err \<Rightarrow> Inl err
      | Inr items \<Rightarrow> Inr (m\<lparr>am_auths := foldl (loadOne (ce_index env)) [] items\<rparr>, [RebuildAliases, SchedulerSync]))"

section \<open>Executors and settings\<close>

definition RegisterExecutor :: "string \<Rightarrow> 'x \<Rightarrow> 'x AuthManager \<Rightarrow> 'x AuthManager \<times> 'x option" where
  "RegisterExecutor identifier executor m =
     (let provider = trim_space identifier
      in if provider = [] then (m, None)
         else let replaced = m_get (am_executors m) provider
           in (m\<lparr>am_executors := m_put provider executor (am_executors m)\<rparr>,
               if replaced = Some executor then None else replaced))"

definition UnregisterExecutor :: "string \<Rightarrow> 'x AuthManager \<Rightarrow> 'x AuthManager" where
  "UnregisterExecutor provider m =
     (let provider = to_lower (trim_space provider)
      in if provider = [] then m else m\<lparr>am_executors := m_del provider (am_executors m)\<rparr>)"

definition wrap32 :: "int \<Rightarrow> int" where
  "wrap32 x = (x + 2147483648) mod 4294967296 - 2147483648"

definition SetRetryConfig :: "int \<Rightarrow> goduration \<Rightarrow> int \<Rightarrow> 'x AuthManager \<Rightarrow> 'x AuthManager" where
  "SetRetryConfig retry maxRetryInterval maxRetryCredentials m =
     m\<lparr>am_requestRetry := wrap32 (if retry < 0 then 0 else retry),
       am_maxRetryCredentials := wrap32 (if maxRetryCredentials < 0 then 0 else maxRetryCredentials),
       am_maxRetryInterval := (if maxRetryInterval < 0 then 0 else maxRetryInterval)\<rparr>"

text \<open>The rotation of the models behind an alias, whose offsets are kept per credential and model.\<close>

definition nextModelPoolOffset :: "string \<Rightarrow> int \<Rightarrow> 'x AuthManager \<Rightarrow> int \<times> 'x AuthManager" where
  "nextModelPoolOffset key sz m =
     (if sz \<le> 1 then (0, m)
      else let key = trim_space key
        in if key = [] then (0, m)
           else let offset = m_get0 0 (am_modelPoolOffsets m) key;
                    offset = (if offset \<ge> 2147483640 then 0 else offset)
             in (go_mod offset sz, m\<lparr>am_modelPoolOffsets := m_put key (offset + 1) (am_modelPoolOffsets m)\<rparr>))"

definition rotateStrings :: "string list \<Rightarrow> int \<Rightarrow> string list" where
  "rotateStrings values offset =
     (if length values \<le> 1 then values
      else if offset \<le> 0 then values
      else let k = nat (go_mod offset (int (length values))) in drop k values @ take k values)"

section \<open>What the cooldown operations leave alone\<close>

text \<open>The identity of a credential, its configuration and its refresh times.\<close>

definition sameCredential :: "Auth \<Rightarrow> Auth \<Rightarrow> bool" where
  "sameCredential a b \<longleftrightarrow> a_ID b = a_ID a \<and> a_Index b = a_Index a \<and> a_Provider b = a_Provider a
     \<and> a_Prefix b = a_Prefix a \<and> a_Label b = a_Label a \<and> a_Attributes b = a_Attributes a \<and> a_Metadata b = a_Metadata a \<and> a_Disabled b = a_Disabled a
     \<and> a_LastRefreshedAt b = a_LastRefreshedAt a \<and> a_NextRefreshAfter b = a_NextRefreshAfter a
     \<and> a_indexAssigned b = a_indexAssigned a"

lemma sameCredential_refl [simp]: "sameCredential a a"
  by (simp add: sameCredential_def)

lemma sameCredential_trans: "sameCredential a b \<Longrightarrow> sameCredential b c \<Longrightarrow> sameCredential a c"
  by (simp add: sameCredential_def)

lemma sameCredential_update: "sameCredential a (updateAggregatedAvailability a now)"
  by (simp add: sameCredential_def updateAggregatedAvailability_def clearAggregatedAvailability_def Let_def)

lemma sameCredential_ensure: "sameCredential a (snd (ensureModelState a model))"
  by (simp add: sameCredential_def ensureModelState_def split: option.split)

lemma sameCredential_put: "sameCredential a (putModelState model st a)"
  by (simp add: sameCredential_def putModelState_def)

lemma sameCredential_count: "sameCredential a (countRequest now ok a)"
  by (simp add: sameCredential_def countRequest_def recordRecentRequest_def Let_def)

lemma sameCredential_success: "sameCredential a (clearAuthStateOnSuccess a now)"
  by (simp add: sameCredential_def clearAuthStateOnSuccess_def)

lemma sameCredential_failByKind: "sameCredential a (authFailureByKind env e r now d a)"
  by (simp add: sameCredential_def authFailureByKind_def Let_def split: prod.split)

lemma sameCredential_fail: "sameCredential a (applyAuthFailureState env a e r now d)"
proof -
  let ?b = "(case e of None \<Rightarrow> a\<lparr>a_Unavailable := True, a_Status := StatusError, a_UpdatedAt := now\<rparr>
    | Some x \<Rightarrow> a\<lparr>a_Unavailable := True, a_Status := StatusError, a_UpdatedAt := now, a_LastError := Some x,
        a_StatusMessage := (if e_Message x \<noteq> [] then e_Message x else a_StatusMessage a)\<rparr>)"
  have "sameCredential a ?b" by (simp add: sameCredential_def split: option.split)
  then have "sameCredential a (authFailureByKind env e r now d ?b)" by (rule sameCredential_trans) (rule sameCredential_failByKind)
  then show ?thesis by (cases e) (auto simp: applyAuthFailureState_def Let_def sameCredential_def)
qed

lemma sameCredential_markSuccess: "sameCredential a (markModelSuccess model now a)"
proof -
  obtain st b where e: "ensureModelState a model = (st, b)" by (rule prod.exhaust)
  have "sameCredential a b" using sameCredential_ensure [of a model] by (simp add: e)
  then have "sameCredential a (updateAggregatedAvailability (putModelState model (resetModelState st now) b) now)"
    using sameCredential_put sameCredential_update sameCredential_trans by blast
  then show ?thesis by (simp add: markModelSuccess_def e Let_def sameCredential_def)
qed

lemma sameCredential_markFailure: "sameCredential a (fst (markModelFailure env result now a))"
proof -
  obtain st b where e: "ensureModelState a (res_Model result) = (st, b)" by (rule prod.exhaust)
  have b: "sameCredential a b" using sameCredential_ensure [of a "res_Model result"] by (simp add: e)
  have "\<exists>c. fst (markModelFailure env result now a) = updateAggregatedAvailability c now \<and> sameCredential b c"
    unfolding markModelFailure_def Let_def e
    by (cases "res_Error result") (auto simp: sameCredential_def putModelState_def split: prod.splits)
  then show ?thesis using b sameCredential_trans sameCredential_update by metis
qed

lemma MarkResult_same:
  assumes "m_get (out_auths (MarkResult env now result auths)) k = Some b"
  shows "\<exists>a. m_get auths k = Some a \<and> sameCredential a b"
proof (cases "if res_AuthID result = [] then None else m_get auths (res_AuthID result)")
  case None
  then have "out_auths (MarkResult env now result auths) = auths" by (simp add: MarkResult_def split: option.split)
  then show ?thesis using assms by auto
next
  case (Some a)
  then have a: "res_AuthID result \<noteq> []" "m_get auths (res_AuthID result) = Some a" by (auto split: if_splits)
  let ?c = "countRequest now (res_Success result) a"
  have "\<exists>c. out_auths (MarkResult env now result auths) = m_put (res_AuthID result) c auths \<and> sameCredential a c"
    using a by (simp add: MarkResult_def Let_def split_beta)
      (intro conjI impI; rule exI, rule conjI, rule refl,
        (rule sameCredential_count sameCredential_trans [OF sameCredential_count sameCredential_markSuccess]
           sameCredential_trans [OF sameCredential_count sameCredential_success]
           sameCredential_trans [OF sameCredential_count sameCredential_markFailure]
           sameCredential_trans [OF sameCredential_count sameCredential_fail]))
  then show ?thesis using assms a by (auto split: if_splits)
qed

lemma sameCredential_update_iff: "sameCredential a (updateAggregatedAvailability b now) \<longleftrightarrow> sameCredential a b"
  by (simp add: sameCredential_def updateAggregatedAvailability_def clearAggregatedAvailability_def Let_def)

lemma clearCooldown_same: "sameCredential a (fst (clearCooldownStateForAuth a now))"
  by (simp add: clearCooldownStateForAuth_def Let_def sameCredential_update_iff) (simp add: sameCredential_def)

section \<open>Well-formed maps\<close>

text \<open>Every entry sits under its own, non-empty identifier and carries a valid weight.\<close>

definition entryOK :: "string \<Rightarrow> Auth \<Rightarrow> bool" where
  "entryOK k a \<longleftrightarrow> k \<noteq> [] \<and> a_ID a = k \<and> ValidateAuthWeight a = None"

definition managerOK :: "'x AuthManager \<Rightarrow> bool" where
  "managerOK m \<longleftrightarrow> m_ok (am_auths m) \<and> (\<forall>k. pred_option (entryOK k) (m_get (am_auths m) k))"

lemma managerOKD: "managerOK m \<Longrightarrow> m_get (am_auths m) k = Some a \<Longrightarrow> entryOK k a"
  unfolding managerOK_def by (metis option.pred_inject(2))

lemma ValidateAuthWeight_cong:
  "a_Attributes b = a_Attributes a \<Longrightarrow> a_Metadata b = a_Metadata a \<Longrightarrow> ValidateAuthWeight b = ValidateAuthWeight a"
  by (simp add: ValidateAuthWeight_def cong: option.case_cong)

lemma EnsureIndex_fields [simp]:
  "a_ID (EnsureIndex env a) = a_ID a" "a_Attributes (EnsureIndex env a) = a_Attributes a"
  "a_Metadata (EnsureIndex env a) = a_Metadata a" "ValidateAuthWeight (EnsureIndex env a) = ValidateAuthWeight a"
  "a_Success (EnsureIndex env a) = a_Success a" "a_Failed (EnsureIndex env a) = a_Failed a"
  "a_recentRequests (EnsureIndex env a) = a_recentRequests a"
  by (simp_all add: EnsureIndex_def Let_def ValidateAuthWeight_def cong: option.case_cong)

lemma clearIfDisabled_same: "sameCredential a (fst (clearIfDisabled env now a))"
  by (simp add: clearIfDisabled_def clearCooldown_same)

lemma sameCredential_valid: "sameCredential a b \<Longrightarrow> ValidateAuthWeight b = ValidateAuthWeight a"
  by (rule ValidateAuthWeight_cong) (simp_all add: sameCredential_def)

lemma managerOK_put:
  assumes "managerOK m" and "a_ID a \<noteq> []" and "ValidateAuthWeight a = None"
  shows "managerOK (m\<lparr>am_auths := m_put (a_ID a) a (am_auths m)\<rparr>)"
  using assms by (simp add: managerOK_def m_ok_put entryOK_def)

lemma mergeExisting_fields [simp]:
  "a_ID (mergeExisting e a) = a_ID a" "a_Attributes (mergeExisting e a) = a_Attributes a"
  "a_Metadata (mergeExisting e a) = a_Metadata a" "ValidateAuthWeight (mergeExisting e a) = ValidateAuthWeight a"
  "a_Success (mergeExisting e a) = a_Success e" "a_Failed (mergeExisting e a) = a_Failed e"
  "a_recentRequests (mergeExisting e a) = a_recentRequests e"
  by (simp_all add: mergeExisting_def Let_def ValidateAuthWeight_def cong: option.case_cong)

lemma Register_OK:
  assumes m: "managerOK m" and new: "newID \<noteq> []" and r: "Register env now newID auth m = Inr (a, m', cs)"
  shows "managerOK m'"
proof -
  let ?b = "if a_ID auth = [] then auth\<lparr>a_ID := newID\<rparr> else auth"
  let ?c = "fst (clearIfDisabled env now ?b)"
  have v: "ValidateAuthWeight auth = None" using r by (simp add: Register_def split: option.splits)
  have m': "m' = m\<lparr>am_auths := m_put (a_ID (EnsureIndex (ce_index env) ?c)) (EnsureIndex (ce_index env) ?c) (am_auths m)\<rparr>"
    using r v unfolding Register_def Let_def split_beta by (metis (no_types, lifting) fst_conv option.case(1) snd_conv sum.inject(2))
  note same = clearIfDisabled_same [of ?b env now]
  have b: "a_ID ?b \<noteq> []" "ValidateAuthWeight ?b = None" using v new by (auto simp: ValidateAuthWeight_def cong: option.case_cong)
  then have "a_ID ?c \<noteq> []" "ValidateAuthWeight ?c = None"
    using same sameCredential_valid [OF same] by (simp_all add: sameCredential_def)
  then show ?thesis unfolding m' by (intro managerOK_put [OF m]) simp_all
qed

lemma UpdateAuth_cases:
  assumes "UpdateAuth env now auth m = Inr (saved, m', cs)"
  shows "(saved = None \<and> m' = m \<and> cs = [])
    \<or> (\<exists>e a. m_get (am_auths m) (a_ID auth) = Some e \<and> a_ID auth \<noteq> [] \<and> ValidateAuthWeight auth = None
        \<and> a = EnsureIndex (ce_index env) (fst (clearIfDisabled env now (mergeExisting e auth)))
        \<and> saved = Some a \<and> m' = m\<lparr>am_auths := m_put (a_ID a) a (am_auths m)\<rparr>)"
  using assms by (auto simp: UpdateAuth_def Let_def split_beta split: if_splits option.splits)

lemma UpdateAuth_OK:
  assumes m: "managerOK m" and u: "UpdateAuth env now auth m = Inr (saved, m', cs)"
  shows "managerOK m'"
  using UpdateAuth_cases [OF u]
proof (elim disjE exE conjE)
  fix e a assume h: "a_ID auth \<noteq> []" "ValidateAuthWeight auth = None"
    "a = EnsureIndex (ce_index env) (fst (clearIfDisabled env now (mergeExisting e auth)))"
    "m' = m\<lparr>am_auths := m_put (a_ID a) a (am_auths m)\<rparr>"
  note same = clearIfDisabled_same [of "mergeExisting e auth" env now]
  have "a_ID a = a_ID auth" "ValidateAuthWeight a = None"
    using same sameCredential_valid [OF same] h by (simp_all add: sameCredential_def)
  then show ?thesis unfolding h(4) using h(1) by (intro managerOK_put [OF m]) simp_all
qed (use m in simp)

lemma RemoveAuth_auths:
  "am_auths (fst (RemoveAuth env ident m)) = am_auths m \<or> am_auths (fst (RemoveAuth env ident m)) = m_del (trim_space ident) (am_auths m)"
  by (simp add: RemoveAuth_def Let_def split: option.split)

lemma managerOK_cong: "am_auths m' = am_auths m \<Longrightarrow> managerOK m \<Longrightarrow> managerOK m'"
  by (simp add: managerOK_def)

lemma managerOK_del: "managerOK m \<Longrightarrow> am_auths m' = m_del k (am_auths m) \<Longrightarrow> managerOK m'"
  by (simp add: managerOK_def m_ok_del)

lemma RemoveAuth_OK: "managerOK m \<Longrightarrow> managerOK (fst (RemoveAuth env ident m))"
  using RemoveAuth_auths managerOK_cong managerOK_del by blast

lemma loadOne_OK:
  assumes "managerOK (m\<lparr>am_auths := auths\<rparr>)"
  shows "managerOK (m\<lparr>am_auths := foldl (loadOne env) auths items\<rparr>)"
  using assms
proof (induction items arbitrary: auths)
  case (Cons item items)
  have "managerOK (m\<lparr>am_auths := loadOne env auths item\<rparr>)"
    using Cons(2) by (simp add: loadOne_def Let_def managerOK_def m_ok_put entryOK_def split: option.split)
  then show ?case using Cons(1) by simp
qed simp

lemma LoadAuths_OK:
  assumes m: "managerOK m" and l: "LoadAuths env listed m = Inr (m', cs)"
  shows "managerOK m'"
proof (cases "m' = m")
  case False
  then obtain items where "m' = m\<lparr>am_auths := foldl (loadOne (ce_index env)) [] items\<rparr>"
    using l by (auto simp: LoadAuths_def split: if_splits sum.splits)
  then show ?thesis using loadOne_OK [where m = m and auths = "[]"] by (simp add: managerOK_def)
qed (use m in simp)

lemma MarkResult_OK:
  assumes m: "managerOK m"
  shows "managerOK (m\<lparr>am_auths := out_auths (MarkResult cenv now result (am_auths m))\<rparr>)"
proof -
  have ok: "m_ok (out_auths (MarkResult cenv now result (am_auths m)))"
    using m by (simp add: managerOK_def MarkResult_def Let_def split_beta m_ok_put split: option.split)
  have "pred_option (entryOK k) (m_get (out_auths (MarkResult cenv now result (am_auths m))) k)" for k
  proof (cases "m_get (out_auths (MarkResult cenv now result (am_auths m))) k")
    case (Some b)
    obtain a where a: "m_get (am_auths m) k = Some a" "sameCredential a b" using MarkResult_same [OF Some] by blast
    have "entryOK k a" by (rule managerOKD [OF m a(1)])
    then show ?thesis using Some sameCredential_valid [OF a(2)] a(2) by (simp add: entryOK_def sameCredential_def)
  qed simp
  then show ?thesis using ok by (simp add: managerOK_def)
qed

section \<open>Every history of operations\<close>

definition newManager :: "'x AuthManager" where
  "newManager = \<lparr>am_auths = [], am_executors = [], am_modelPoolOffsets = [], am_homeRuntimeAuths = [],
     am_requestRetry = 0, am_maxRetryCredentials = 0, am_maxRetryInterval = 0\<rparr>"

text \<open>A generated identifier is never empty.\<close>

inductive manager_step :: "'x AuthManager \<Rightarrow> 'x AuthManager \<Rightarrow> bool" where
  step_register: "newID \<noteq> [] \<Longrightarrow> Register env now newID auth m = Inr (a, m', cs) \<Longrightarrow> manager_step m m'"
| step_update: "UpdateAuth env now auth m = Inr (saved, m', cs) \<Longrightarrow> manager_step m m'"
| step_remove: "manager_step m (fst (RemoveAuth env ident m))"
| step_load: "LoadAuths env (listed :: string + Auth option list) m = Inr (m', cs) \<Longrightarrow> manager_step m m'"
| step_result: "manager_step m (m\<lparr>am_auths := out_auths (MarkResult cenv now result (am_auths m))\<rparr>)"
| step_executor: "manager_step m (fst (RegisterExecutor ident x m))"
| step_unexecutor: "manager_step m (UnregisterExecutor ident m)"
| step_retry: "manager_step m (SetRetryConfig retry ivl creds m)"
| step_offset: "manager_step m (snd (nextModelPoolOffset key sz m))"

inductive manager_reachable :: "'x AuthManager \<Rightarrow> bool" where
  reach_new: "manager_reachable newManager"
| reach_step: "manager_reachable m \<Longrightarrow> manager_step m m' \<Longrightarrow> manager_reachable m'"

lemma manager_step_OK: "manager_step m m' \<Longrightarrow> managerOK m \<Longrightarrow> managerOK m'"
proof (induction rule: manager_step.induct)
  case step_register
  then show ?case by (blast intro: Register_OK)
next
  case step_update
  then show ?case by (blast intro: UpdateAuth_OK)
next
  case step_remove
  then show ?case by (rule RemoveAuth_OK)
next
  case step_load
  then show ?case by (blast intro: LoadAuths_OK)
next
  case step_result
  then show ?case by (rule MarkResult_OK)
next
  case (step_executor m ident x)
  then show ?case by (rule managerOK_cong [rotated]) (simp add: RegisterExecutor_def Let_def)
next
  case (step_unexecutor m ident)
  then show ?case by (rule managerOK_cong [rotated]) (simp add: UnregisterExecutor_def Let_def)
next
  case (step_retry m retry ivl creds)
  then show ?case by (rule managerOK_cong [rotated]) (simp add: SetRetryConfig_def)
next
  case (step_offset m key sz)
  then show ?case by (rule managerOK_cong [rotated]) (simp add: nextModelPoolOffset_def Let_def)
qed

text \<open>
  C35: In every history of registrations, updates, removals, loads and request results, starting from
  a new manager, the map of credentials is well formed: its keys are distinct, every credential sits
  under its own non-empty identifier, and no stored credential carries an invalid weight.
\<close>

theorem manager_well_formed:
  assumes "manager_reachable m"
  shows "managerOK m"
  using assms
proof (induction rule: manager_reachable.induct)
  case reach_new
  show ?case by (simp add: managerOK_def newManager_def)
next
  case (reach_step m m')
  then show ?case by (blast intro: manager_step_OK)
qed

abbreviation sampleCallEnv :: CallEnv where
  "sampleCallEnv \<equiv> \<lparr>ce_cooling = \<lparr>ce_config = None, ce_quotaCooldownDisabled = False,
       ce_transientErrorCooldownSeconds = 0, ce_hasCooldownStore = False\<rparr>,
     ce_index = \<lparr>ie_digest = \<lambda>s. s, ie_absClean = \<lambda>s. s\<rparr>,
     ce_deferRebuild = False, ce_skipPersist = False, ce_hasScheduler = True, ce_hasStore = True\<rparr>"

abbreviation sampleManaged :: Auth where
  "sampleManaged \<equiv> (new_auth ''a'' ''codex'')\<lparr>a_Metadata := [(''weight'', GoNumber ''3'')]\<rparr>"

lemma manager_well_formed_witness:
  "\<exists>a m cs. Register sampleCallEnv 5 ''u'' sampleManaged (newManager :: nat AuthManager) = Inr (a, m, cs)
     \<and> managerOK m \<and> m_keys (am_auths m) = [''a'']"
proof -
  obtain a m cs where r: "Register sampleCallEnv 5 ''u'' sampleManaged (newManager :: nat AuthManager) = Inr (a, m, cs)"
      "m_keys (am_auths m) = [''a'']"
  proof -
    have "case Register sampleCallEnv 5 ''u'' sampleManaged (newManager :: nat AuthManager) of
        Inl _ \<Rightarrow> False | Inr (a, m, cs) \<Rightarrow> m_keys (am_auths m) = [''a'']" by code_simp
    then show ?thesis using that by (auto split: sum.splits)
  qed
  have "manager_reachable m" by (rule reach_step [OF reach_new step_register [OF _ r(1)]]) simp
  then have "managerOK m" by (rule manager_well_formed)
  then show ?thesis by (intro exI conjI) (rule r(1), assumption, rule r(2))
qed

section \<open>Updates\<close>

text \<open>
  An update of a stored credential replaces that entry only, keeps its request counters and
  recent requests, keeps the index it was known by when the new record brings none, and has the
  refresh loop look at it again.
\<close>

theorem update_keeps_runtime:
  assumes u: "UpdateAuth env now auth m = Inr (Some a, m', cs)" and e: "m_get (am_auths m) (a_ID auth) = Some e"
  shows "am_auths m' = m_put (a_ID auth) a (am_auths m)
    \<and> a_Success a = a_Success e \<and> a_Failed a = a_Failed e \<and> a_recentRequests a = a_recentRequests e
    \<and> (\<not> a_indexAssigned auth \<and> a_Index auth = [] \<and> trim_space (a_Index e) \<noteq> [] \<longrightarrow> a_Index a = trim_space (a_Index e))
    \<and> QueueReschedule (a_ID auth) \<in> set cs"
proof -
  let ?c = "fst (clearIfDisabled env now (mergeExisting e auth))"
  have a: "a = EnsureIndex (ce_index env) ?c" "m' = m\<lparr>am_auths := m_put (a_ID a) a (am_auths m)\<rparr>"
    using UpdateAuth_cases [OF u] e by auto
  have same: "sameCredential (mergeExisting e auth) ?c" by (rule clearIfDisabled_same)
  then have id: "a_ID a = a_ID auth" by (simp add: a(1) sameCredential_def)
  have upd: "a_Success (updateAggregatedAvailability b now) = a_Success b"
    "a_Failed (updateAggregatedAvailability b now) = a_Failed b"
    "a_recentRequests (updateAggregatedAvailability b now) = a_recentRequests b" for b
    by (simp_all add: updateAggregatedAvailability_def clearAggregatedAvailability_def Let_def)
  have counts: "a_Success ?c = a_Success e" "a_Failed ?c = a_Failed e" "a_recentRequests ?c = a_recentRequests e"
    by (simp_all add: clearIfDisabled_def clearCooldownStateForAuth_def Let_def upd)
  have "a_Index a = trim_space (a_Index e)"
    if "\<not> a_indexAssigned auth" "a_Index auth = []" "trim_space (a_Index e) \<noteq> []"
  proof -
    have "a_Index (mergeExisting e auth) = a_Index e" using that by (simp add: mergeExisting_def Let_def)
    then show ?thesis using same that(3) by (simp add: a(1) EnsureIndex_def Let_def sameCredential_def)
  qed
  moreover have "QueueReschedule (a_ID auth) \<in> set cs"
    using u e id by (auto simp: UpdateAuth_def Let_def split_beta split: if_splits option.splits)
  ultimately show ?thesis using a(2) id counts by (simp add: a(1))
qed

abbreviation sampleStored :: "nat AuthManager" where
  "sampleStored \<equiv> newManager\<lparr>am_auths := [(''a'', (new_auth ''a'' ''codex'')\<lparr>a_Index := ''7'', a_Success := 4\<rparr>)]\<rparr>"

lemma update_keeps_runtime_witness:
  "\<exists>a m cs. UpdateAuth sampleCallEnv 5 sampleManaged sampleStored = Inr (Some a, m, cs) \<and> a_Success a = 4 \<and> a_Index a = ''7''"
proof -
  have "case UpdateAuth sampleCallEnv 5 sampleManaged sampleStored of Inr (Some a, _) \<Rightarrow> True | _ \<Rightarrow> False" by code_simp
  then obtain a m cs where u: "UpdateAuth sampleCallEnv 5 sampleManaged sampleStored = Inr (Some a, m, cs)"
    by (auto split: sum.splits option.splits)
  have e: "m_get (am_auths sampleStored) (a_ID sampleManaged) = Some ((new_auth ''a'' ''codex'')\<lparr>a_Index := ''7'', a_Success := 4\<rparr>)"
    by (simp add: new_auth_def)
  have "trim_space ''7'' = ''7''" by code_simp
  then show ?thesis using update_keeps_runtime [OF u e] u by (auto simp: new_auth_def)
qed

end
