(* ===== verification/RefreshOutcome.thy ===== *)
theory RefreshOutcome
  imports RefreshDecision AuthManager
begin

text \<open>
  A refresh and what it leaves behind (\<open>refreshAuthForRequest\<close>, \<open>markRefreshPending\<close> and
  \<open>clearUnauthorizedModelStates\<close> of \<open>backend/sdk/cliproxy/auth/conductor_refresh.go\<close>, and the errors of
  \<open>conductor_cooldown.go\<close>). The executor's network call is a parameter: its reply, given the clone it
  works on. The lemmas show that every outcome moves the next check into the future.
\<close>

section \<open>Errors\<close>

text \<open>An error of an executor: the status code other packages attach to it (0 for none) and its text.\<close>

record ExecError =
  xe_status :: int
  xe_text :: string

definition isUnauthorizedError :: "ExecError \<Rightarrow> bool" where
  "isUnauthorizedError err \<longleftrightarrow> xe_status err = 401
     \<or> (let raw = to_lower (xe_text err) in contains raw ''status 401'' \<or> contains raw ''401 unauthorized'')"

definition refreshErrorFromError :: "ExecError \<Rightarrow> AuthError" where
  "refreshErrorFromError err =
     (let statusCode = (if xe_status err = 0 \<and> isUnauthorizedError err then 401 else xe_status err)
      in \<lparr>e_Code = (if statusCode = 401 then ''unauthorized'' else []), e_Message = xe_text err,
          e_Retryable = False, e_HTTPStatus = statusCode\<rparr>)"

section \<open>Tokens\<close>

definition authAccessToken :: "Auth \<Rightarrow> string" where
  "authAccessToken auth =
     (let token = authMetadataString auth ''access_token''
      in if token \<noteq> [] then token else authMetadataString auth ''accessToken'')"

definition authHasRefreshCredential :: "Auth \<Rightarrow> bool" where
  "authHasRefreshCredential auth \<longleftrightarrow>
     authMetadataString auth ''refresh_token'' \<noteq> [] \<or> authMetadataString auth ''refreshToken'' \<noteq> []"

section \<open>The states a refresh clears\<close>

definition unauthorizedState :: "ModelState \<Rightarrow> bool" where
  "unauthorizedState state \<longleftrightarrow>
     (case s_LastError state of None \<Rightarrow> False | Some e \<Rightarrow> e_HTTPStatus e = 401 \<or> equal_fold (e_Code e) ''unauthorized'')"

definition clearUnauthorizedModelStates :: "gotime \<Rightarrow> Auth \<Rightarrow> Auth \<times> string list" where
  "clearUnauthorizedModelStates now auth =
     (let hit = (\<lambda>st. case st of None \<Rightarrow> False | Some state \<Rightarrow> unauthorizedState state);
          resumed = map fst (filter (\<lambda>(_, st). hit st) (a_ModelStates auth));
          cleared = auth\<lparr>a_ModelStates := map (\<lambda>(k, st). (k, if hit st then map_option (\<lambda>s. resetModelState s now) st else st))
            (a_ModelStates auth)\<rparr>
      in if resumed = [] then (auth, []) else (updateAggregatedAvailability cleared now, resumed))"

section \<open>Writing the outcome\<close>

definition pendingAuth :: "gotime \<Rightarrow> Auth \<Rightarrow> Auth" where
  "pendingAuth now auth = auth\<lparr>a_NextRefreshAfter := now + refreshPendingBackoff\<rparr>"

definition markRefreshPending :: "string \<Rightarrow> gotime \<Rightarrow> 'x AuthManager \<Rightarrow> bool \<times> 'x AuthManager \<times> ManagerCall list" where
  "markRefreshPending ident now m =
     (case m_get (am_auths m) ident of
        None \<Rightarrow> (False, m, [])
      | Some auth \<Rightarrow>
          if \<not> is_zero (a_NextRefreshAfter auth) \<and> now < a_NextRefreshAfter auth then (False, m, [])
          else (True, m\<lparr>am_auths := m_put ident (pendingAuth now auth) (am_auths m)\<rparr>, [QueueReschedule ident]))"

definition failedAuth :: "ExecError \<Rightarrow> gotime \<Rightarrow> Auth \<Rightarrow> Auth" where
  "failedAuth err now current =
     (let current = current\<lparr>a_LastError := Some (refreshErrorFromError err)\<rparr>
      in if isUnauthorizedError err
         then current\<lparr>a_NextRefreshAfter := zero_time, a_Unavailable := True, a_Status := StatusError,
           a_StatusMessage := ''unauthorized''\<rparr>
         else current\<lparr>a_NextRefreshAfter := now + refreshFailureBackoff\<rparr>)"

text \<open>\<open>untl\<close> is the clock reading inside \<open>shouldRefresh\<close>.\<close>

definition refreshedAuth :: "RefreshEnv \<Rightarrow> gotime \<Rightarrow> gotime \<Rightarrow> RefreshRuntime option \<Rightarrow> Auth \<Rightarrow> Auth \<times> string list" where
  "refreshedAuth env now untl rt updated =
     (let updated = updated\<lparr>a_LastRefreshedAt := now, a_NextRefreshAfter := zero_time, a_LastError := None,
            a_StatusMessage := [], a_Unavailable := False,
            a_Status := (if a_Status updated = StatusError then StatusActive else a_Status updated), a_UpdatedAt := now\<rparr>;
          (updated, modelsToResume) = clearUnauthorizedModelStates now updated
      in (if shouldRefresh env now untl rt updated
          then updated\<lparr>a_NextRefreshAfter := now + refreshIneffectiveBackoff\<rparr> else updated, modelsToResume))"

section \<open>The refresh\<close>

datatype refresh_error = AuthIDEmpty | AuthOrExecutorNotFound | RefreshCanceled | RefreshFailed ExecError

text \<open>The start, under the lock of the credential: an early return, or the record to clone and send.\<close>

definition refreshStart :: "string \<Rightarrow> string \<Rightarrow> 'x AuthManager \<Rightarrow> refresh_error + (Auth \<times> bool)" where
  "refreshStart ident failedAccessToken m =
     (let ident = trim_space ident
      in if ident = [] then Inl AuthIDEmpty
         else (case m_get (am_auths m) ident of
                 None \<Rightarrow> Inl AuthOrExecutorNotFound
               | Some auth \<Rightarrow>
                   if m_get (am_executors m) (a_Provider auth) = None then Inl AuthOrExecutorNotFound
                   else (let currentToken = authAccessToken auth
                         in Inr (auth, failedAccessToken \<noteq> [] \<and> currentToken \<noteq> [] \<and> currentToken \<noteq> failedAccessToken))))"

text \<open>The reply of the executor: a nil record stands for the clone itself. A new runtime object
  replaces the old one.\<close>

datatype RefreshReply = ReplyCanceled | ReplyFailed ExecError | ReplyDone "Auth option" "RefreshRuntime option"

record RefreshOutcome =
  ro_manager_calls :: "ManagerCall list"
  ro_resume :: "string list"
  ro_result :: "refresh_error + Auth"

definition refreshFinish :: "CallEnv \<Rightarrow> RefreshEnv \<Rightarrow> gotime \<Rightarrow> gotime \<Rightarrow> RefreshRuntime option \<Rightarrow> string \<Rightarrow> Auth \<Rightarrow> RefreshReply
    \<Rightarrow> 'x AuthManager \<Rightarrow> 'x AuthManager \<times> RefreshOutcome" where
  "refreshFinish cenv env now untl rt ident auth reply m =
     (case reply of
        ReplyCanceled \<Rightarrow> (m, \<lparr>ro_manager_calls = [], ro_resume = [], ro_result = Inl RefreshCanceled\<rparr>)
      | ReplyFailed err \<Rightarrow>
          (case m_get (am_auths m) ident of
             None \<Rightarrow> (m, \<lparr>ro_manager_calls = [], ro_resume = [], ro_result = Inl (RefreshFailed err)\<rparr>)
           | Some current \<Rightarrow>
               (let current = failedAuth err now current
                in (m\<lparr>am_auths := m_put ident current (am_auths m)\<rparr>,
                    \<lparr>ro_manager_calls = callsWhen (ce_hasScheduler cenv) [SchedulerUpsert current] @ [QueueReschedule ident],
                     ro_resume = [], ro_result = Inl (RefreshFailed err)\<rparr>)))
      | ReplyDone updated newRuntime \<Rightarrow>
          (let updated = (case updated of Some u \<Rightarrow> u | None \<Rightarrow> auth);
               rt = (case newRuntime of Some r \<Rightarrow> Some r | None \<Rightarrow> rt);
               (updated, modelsToResume) = refreshedAuth env now untl rt updated
           in case UpdateAuth cenv now updated m of
                Inr (Some saved, m, calls) \<Rightarrow>
                  (m, \<lparr>ro_manager_calls = calls, ro_resume = modelsToResume, ro_result = Inr saved\<rparr>)
              | Inr (None, m, calls) \<Rightarrow>
                  (m, \<lparr>ro_manager_calls = calls, ro_resume = modelsToResume, ro_result = Inr updated\<rparr>)
              | Inl _ \<Rightarrow> (m, \<lparr>ro_manager_calls = [], ro_resume = modelsToResume, ro_result = Inr updated\<rparr>)))"

text \<open>The retry of a request after a 401: the error of the execution decides whether a refresh is tried.\<close>

definition triesRefreshAfterUnauthorized :: "Auth \<Rightarrow> ExecError option \<Rightarrow> bool \<Rightarrow> bool" where
  "triesRefreshAfterUnauthorized auth execErr alreadyTried \<longleftrightarrow>
     (case execErr of
        None \<Rightarrow> False
      | Some err \<Rightarrow> \<not> alreadyTried \<and> isUnauthorizedError err \<and> authHasRefreshCredential auth)"

section \<open>Every outcome backs off\<close>

lemma hasUnauthorized_failed: "isUnauthorizedError err \<Longrightarrow> xe_status err = 0 \<or> xe_status err = 401
    \<Longrightarrow> hasUnauthorizedAuthFailure (failedAuth err now a)"
  by (auto simp: hasUnauthorizedAuthFailure_def failedAuth_def refreshErrorFromError_def Let_def)

lemma next_pending:
  "0 < now \<Longrightarrow> nextRefreshCheckAt env now interval rt (pendingAuth now a) \<in> {None, Some (now + minute)}"
  by (simp add: nextRefreshCheckAt_def pendingAuth_def)

lemma next_failed:
  "0 < now \<Longrightarrow> \<not> isUnauthorizedError err \<Longrightarrow>
   nextRefreshCheckAt env now interval rt (failedAuth err now a) \<in> {None, Some (now + 5 * minute)}"
  by (simp add: nextRefreshCheckAt_def failedAuth_def Let_def)

lemma next_unauthorized:
  "isUnauthorizedError err \<Longrightarrow> xe_status err = 0 \<or> xe_status err = 401 \<Longrightarrow>
   nextRefreshCheckAt env now interval rt (failedAuth err now a) = None"
  using hasUnauthorized_failed [of err now a] by (simp add: nextRefreshCheckAt_def)

lemma clearUnauthorized_fields:
  "sameCredential a (fst (clearUnauthorizedModelStates now a)) \<and> a_LastError (fst (clearUnauthorizedModelStates now a)) = a_LastError a"
proof -
  have "a_LastError (updateAggregatedAvailability b now) = a_LastError b" for b
    by (simp add: updateAggregatedAvailability_def clearAggregatedAvailability_def Let_def)
  then show ?thesis
    by (simp add: clearUnauthorizedModelStates_def Let_def sameCredential_update_iff) (simp add: sameCredential_def)
qed

lemma next_refreshed:
  assumes b: "durationsBounded env" and now: "0 < now" "now \<le> untl" and ivl: "0 < interval"
    and lead: "\<And>p lead. ProviderRefreshLead env p rt = Some lead \<Longrightarrow> lead < max_int64"
    and t: "nextRefreshCheckAt env now interval rt (fst (refreshedAuth env now untl rt u)) = Some t"
  shows "now < t"
proof -
  let ?u = "u\<lparr>a_LastRefreshedAt := now, a_NextRefreshAfter := zero_time, a_LastError := None, a_StatusMessage := [],
    a_Unavailable := False, a_Status := (if a_Status u = StatusError then StatusActive else a_Status u), a_UpdatedAt := now\<rparr>"
  let ?v = "fst (clearUnauthorizedModelStates now ?u)"
  have v: "a_NextRefreshAfter ?v = 0" using clearUnauthorized_fields [of ?u now] by (simp add: sameCredential_def)
  have e: "fst (refreshedAuth env now untl rt u)
      = (if shouldRefresh env now untl rt ?v then ?v\<lparr>a_NextRefreshAfter := now + refreshIneffectiveBackoff\<rparr> else ?v)"
    by (simp add: refreshedAuth_def Let_def split_beta)
  show ?thesis
  proof (cases "shouldRefresh env now untl rt ?v")
    case True
    then show ?thesis using t now unfolding e by (simp add: nextRefreshCheckAt_def split: if_splits)
  next
    case False
    show ?thesis
    proof (cases "runtimeEvaluator rt")
      case None
      have "\<not> t \<le> now" using shouldRefresh_if_due [OF b None now(2) _ _ lead] t False unfolding e by auto
      then show ?thesis by simp
    next
      case (Some ev)
      then show ?thesis using t v ivl False unfolding e by (simp add: nextRefreshCheckAt_def split: if_splits)
    qed
  qed
qed

lemma clearIfDisabled_error: "a_LastError (fst (clearIfDisabled cenv now a)) = a_LastError a"
proof -
  have "a_LastError (updateAggregatedAvailability b now) = a_LastError b" for b
    by (simp add: updateAggregatedAvailability_def clearAggregatedAvailability_def Let_def)
  then show ?thesis by (simp add: clearIfDisabled_def clearCooldownStateForAuth_def Let_def)
qed

text \<open>An update stores a record with the schedule of the one it was given.\<close>

lemma UpdateAuth_schedule:
  assumes u: "UpdateAuth cenv now auth m = Inr (Some a, m', cs)"
  shows "m_get (am_auths m') (a_ID auth) = Some a \<and> nextRefreshCheckAt env t interval rt a = nextRefreshCheckAt env t interval rt auth"
proof -
  obtain e where a: "a = EnsureIndex (ce_index cenv) (fst (clearIfDisabled cenv now (mergeExisting e auth)))"
      "m' = m\<lparr>am_auths := m_put (a_ID a) a (am_auths m)\<rparr>"
    using UpdateAuth_cases [OF u] by auto
  let ?c = "fst (clearIfDisabled cenv now (mergeExisting e auth))"
  have same: "sameCredential (mergeExisting e auth) ?c" by (rule clearIfDisabled_same)
  have err: "a_LastError ?c = a_LastError auth" by (simp add: clearIfDisabled_error) (simp add: mergeExisting_def Let_def)
  have f: "a_Provider a = a_Provider auth" "a_Attributes a = a_Attributes auth" "a_Metadata a = a_Metadata auth"
      "a_LastRefreshedAt a = a_LastRefreshedAt auth" "a_NextRefreshAfter a = a_NextRefreshAfter auth" "a_LastError a = a_LastError auth"
      "a_ID a = a_ID auth"
    using same err by (simp_all add: a(1) sameCredential_def EnsureIndex_def Let_def) (simp_all add: mergeExisting_def Let_def)
  have "nextRefreshCheckAt env t interval rt a = nextRefreshCheckAt env t interval rt auth"
    by (rule nextRefreshCheckAt_cong) (simp_all add: f hasUnauthorizedAuthFailure_def)
  then show ?thesis using a(2) f(7) by simp
qed

lemma refreshedAuth_fields:
  "a_ID (fst (refreshedAuth env now untl rt u)) = a_ID u"
  "ValidateAuthWeight (fst (refreshedAuth env now untl rt u)) = ValidateAuthWeight u"
proof -
  let ?u = "u\<lparr>a_LastRefreshedAt := now, a_NextRefreshAfter := zero_time, a_LastError := None, a_StatusMessage := [],
    a_Unavailable := False, a_Status := (if a_Status u = StatusError then StatusActive else a_Status u), a_UpdatedAt := now\<rparr>"
  have "sameCredential ?u (fst (clearUnauthorizedModelStates now ?u))" using clearUnauthorized_fields by blast
  then have f: "a_ID (fst (refreshedAuth env now untl rt u)) = a_ID u \<and> a_Attributes (fst (refreshedAuth env now untl rt u)) = a_Attributes u
      \<and> a_Metadata (fst (refreshedAuth env now untl rt u)) = a_Metadata u"
    by (simp add: refreshedAuth_def Let_def split_beta sameCredential_def)
  then show "a_ID (fst (refreshedAuth env now untl rt u)) = a_ID u"
    "ValidateAuthWeight (fst (refreshedAuth env now untl rt u)) = ValidateAuthWeight u"
    using ValidateAuthWeight_cong [of "fst (refreshedAuth env now untl rt u)" u] by blast+
qed

text \<open>The replies the next theorem is about: the executor returns the credential it was given, with a
  valid weight, and an error that reads as unauthorized carries the status 401 or none.\<close>

definition replyOK :: "string \<Rightarrow> RefreshReply \<Rightarrow> bool" where
  "replyOK ident reply =
     (case reply of
        ReplyCanceled \<Rightarrow> False
      | ReplyFailed err \<Rightarrow> isUnauthorizedError err \<longrightarrow> xe_status err = 0 \<or> xe_status err = 401
      | ReplyDone updated _ \<Rightarrow> (case updated of None \<Rightarrow> True | Some u \<Rightarrow> a_ID u = ident \<and> ValidateAuthWeight u = None))"

definition runtimeAfter :: "RefreshRuntime option \<Rightarrow> RefreshReply \<Rightarrow> RefreshRuntime option" where
  "runtimeAfter rt reply = (case reply of ReplyDone _ (Some r) \<Rightarrow> Some r | _ \<Rightarrow> rt)"


abbreviation sampleLate :: gotime where
  "sampleLate \<equiv> sampleExpiry + hour"

abbreviation sampleRefreshManager :: "nat AuthManager" where
  "sampleRefreshManager \<equiv> newManager\<lparr>am_auths := [(''a'', sampleExpiring)], am_executors := [(''codex'', 1)]\<rparr>"


section \<open>An error that only reads as unauthorized\<close>

text \<open>
  An error whose text reads as a 401 but which carries another status code is stored with that
  code and without a waiting time, so the schedule of the credential is the one it had before the
  failure: a credential that was due is due again at once, and the loop refreshes it without pause.
\<close>

theorem unauthorized_text_no_backoff:
  assumes "isUnauthorizedError err" and "xe_status err \<noteq> 0" and "xe_status err \<noteq> 401"
  shows "nextRefreshCheckAt env now interval rt (failedAuth err now a)
    = nextRefreshCheckAt env now interval rt (a\<lparr>a_LastError := None, a_NextRefreshAfter := zero_time\<rparr>)"
proof (rule nextRefreshCheckAt_cong)
  have "\<not> equal_fold [] ''unauthorized''" by code_simp
  then show "hasUnauthorizedAuthFailure (failedAuth err now a)
    = hasUnauthorizedAuthFailure (a\<lparr>a_LastError := None, a_NextRefreshAfter := zero_time\<rparr>)"
    using assms by (simp add: hasUnauthorizedAuthFailure_def failedAuth_def refreshErrorFromError_def Let_def)
qed (use assms in \<open>simp_all add: failedAuth_def Let_def\<close>)

abbreviation sampleTextError :: ExecError where
  "sampleTextError \<equiv> \<lparr>xe_status = 400, xe_text = ''token endpoint: 401 Unauthorized''\<rparr>"

lemma unauthorized_text_no_backoff_witness:
  "nextRefreshCheckAt sampleRefreshEnv sampleLate second None (failedAuth sampleTextError sampleLate sampleExpiring) = Some sampleLate"
proof -
  have "isUnauthorizedError sampleTextError" by code_simp
  moreover have "nextRefreshCheckAt sampleRefreshEnv sampleLate second None
      (sampleExpiring\<lparr>a_LastError := None, a_NextRefreshAfter := zero_time\<rparr>) = Some sampleLate" by code_simp
  ultimately show ?thesis using unauthorized_text_no_backoff [of sampleTextError] by simp
qed

section \<open>A refresh that crosses a request\<close>

text \<open>A credential with a state for one model; while it is being refreshed, a request on another model
  fails on its quota. The record that comes back from the refresh replaces the states of all models.\<close>

abbreviation sampleTwoModels :: Auth where
  "sampleTwoModels \<equiv> sampleExpiring\<lparr>a_ModelStates := [(''x'', Some freshModelState)]\<rparr>"

abbreviation sampleCrossing :: "nat AuthManager" where
  "sampleCrossing \<equiv> newManager\<lparr>am_auths := out_auths (MarkResult (ce_cooling sampleCallEnv) sampleLate
     \<lparr>res_AuthID = ''a'', res_Provider = ''codex'', res_Model = ''y'', res_Success = False, res_RetryAfter = Some hour,
      res_Error = Some \<lparr>e_Code = [], e_Message = ''quota'', e_Retryable = True, e_HTTPStatus = 429\<rparr>\<rparr>
     [(''a'', sampleTwoModels)])\<rparr>"

lemma refresh_drops_crossing_cooldown:
  "case (m_get (am_auths sampleCrossing) ''a'',
      m_get (am_auths (fst (refreshFinish sampleCallEnv sampleRefreshEnv sampleLate sampleLate None ''a'' sampleTwoModels
        (ReplyDone None None) sampleCrossing))) ''a'') of
     (Some before, Some after) \<Rightarrow> fst (isAuthBlockedForModel (Some before) ''y'' sampleLate) \<and> \<not> fst (isAuthBlockedForModel (Some after) ''y'' sampleLate)
   | _ \<Rightarrow> False"
  by code_simp

end
