(* ===== verification/AutoRefresh.thy ===== *)
theory AutoRefresh
  imports RefreshHeap RefreshOutcome
begin

text \<open>
  The refresh loop (\<open>backend/sdk/cliproxy/auth/auto_refresh_loop.go\<close>): one goroutine that waits for its
  timer or a wake-up, the workers that refresh, and the callers that mark credentials for another
  look. Every locked section and every channel operation is one step of a relation; the program
  counter of the loop says where it stands between them. The lemmas show that no credential that
  has a next check is forgotten and no wake-up is lost, under every interleaving.
\<close>

section \<open>State\<close>

type_synonym refreshEntry = "Auth \<times> RefreshRuntime option"

record refreshLoop =
  rl_queue :: refreshQueue
  rl_dirty :: "string list"
  rl_wake :: bool
  rl_jobs :: "string list"

record loopConfig =
  lc_interval :: goduration
  lc_concurrency :: int
  lc_jobBuffer :: int

definition newAuthAutoRefreshLoop :: "goduration \<Rightarrow> int \<Rightarrow> loopConfig \<times> refreshLoop" where
  "newAuthAutoRefreshLoop interval concurrency =
     (let interval = (if interval \<le> 0 then refreshCheckInterval else interval);
          concurrency = (if concurrency \<le> 0 then 16 else concurrency);
          jobBuffer = wrap64 (concurrency * 4);
          jobBuffer = (if jobBuffer < 64 then 64 else jobBuffer)
      in (\<lparr>lc_interval = interval, lc_concurrency = concurrency, lc_jobBuffer = jobBuffer\<rparr>,
          \<lparr>rl_queue = emptyQueueState, rl_dirty = [], rl_wake = False, rl_jobs = []\<rparr>))"

section \<open>Locked sections\<close>

text \<open>The two parts of \<open>queueReschedule\<close>; the channel of wake-ups holds one token.\<close>

definition markDirty :: "string \<Rightarrow> refreshLoop \<Rightarrow> refreshLoop" where
  "markDirty authID l = (if authID = [] then l else l\<lparr>rl_dirty := List.insert authID (rl_dirty l)\<rparr>)"

definition sendWake :: "refreshLoop \<Rightarrow> refreshLoop" where
  "sendWake l = l\<lparr>rl_wake := True\<rparr>"

definition drainDirty :: "refreshLoop \<Rightarrow> refreshLoop \<times> string list" where
  "drainDirty l = (l\<lparr>rl_dirty := []\<rparr>, rl_dirty l)"

text \<open>The next check of an identifier: the read that \<open>applyDirty\<close> and \<open>handleDueAuth\<close> make under the
  lock of the manager, with a missing credential as nil.\<close>

definition nextOf :: "RefreshEnv \<Rightarrow> gotime \<Rightarrow> goduration \<Rightarrow> (string, refreshEntry) gomap \<Rightarrow> string \<Rightarrow> gotime option" where
  "nextOf env now interval auths authID =
     (case m_get auths authID of None \<Rightarrow> None | Some (auth, rt) \<Rightarrow> nextRefreshCheckAt env now interval rt auth)"

text \<open>The write that follows: a new time, or removal.\<close>

definition settleIn :: "string \<Rightarrow> gotime option \<Rightarrow> refreshLoop \<Rightarrow> refreshLoop" where
  "settleIn authID nxt l =
     l\<lparr>rl_queue := (case nxt of None \<Rightarrow> removeID authID (rl_queue l) | Some t \<Rightarrow> upsert authID t (rl_queue l))\<rparr>"

definition rebuildEntries :: "RefreshEnv \<Rightarrow> gotime \<Rightarrow> goduration \<Rightarrow> (string, refreshEntry) gomap \<Rightarrow> (string \<times> gotime) list" where
  "rebuildEntries env now interval auths =
     List.map_filter (\<lambda>(ident, auth, rt). map_option (\<lambda>nxt. (ident, nxt)) (nextRefreshCheckAt env now interval rt auth)) auths"

definition rebuildSchedule :: "RefreshEnv \<Rightarrow> gotime \<Rightarrow> goduration \<Rightarrow> (string, refreshEntry) gomap \<Rightarrow> refreshLoop \<Rightarrow> refreshLoop" where
  "rebuildSchedule env now interval auths l = l\<lparr>rl_queue := rebuildQueue (rebuildEntries env now interval auths) (rl_queue l)\<rparr>"

text \<open>What the first locked section of \<open>handleDueAuth\<close> decides.\<close>

datatype dueDecision = DueGone | DueSettle "gotime option" | DueRefresh

definition decideDue :: "RefreshEnv \<Rightarrow> gotime \<Rightarrow> gotime \<Rightarrow> goduration \<Rightarrow> string list \<Rightarrow> (string, refreshEntry) gomap
    \<Rightarrow> string \<Rightarrow> dueDecision" where
  "decideDue env now untl interval executors auths authID =
     (if authID = [] then DueGone
      else case m_get auths authID of
        None \<Rightarrow> DueGone
      | Some (auth, rt) \<Rightarrow>
          (case nextRefreshCheckAt env now interval rt auth of
             None \<Rightarrow> DueSettle None
           | Some nxt \<Rightarrow>
               if \<not> shouldRefresh env now untl rt auth then DueSettle (Some nxt)
               else if a_Provider auth \<notin> set executors then DueSettle (Some (now + interval))
               else DueRefresh))"

text \<open>\<open>resetTimer\<close>: the deadline of the timer, set at \<open>clock\<close>, or none.\<close>

definition timerDeadline :: "gotime \<Rightarrow> gotime \<Rightarrow> refreshQueue \<Rightarrow> gotime option" where
  "timerDeadline clock now q =
     (case peek q of
        None \<Rightarrow> None
      | Some nxt \<Rightarrow> let wait = time_sub nxt now; wait = (if wait < 0 then 0 else wait) in Some (clock + wait))"

section \<open>The program counter of the loop\<close>

text \<open>
  \<open>LoopWait\<close> is the select; \<open>LoopDrain\<close> stands before \<open>drainDirty\<close>; \<open>LoopDirty\<close> and \<open>LoopHandle\<close> before the
  locked read for the first identifier left; \<open>LoopDirtySet\<close> and \<open>LoopHandleSet\<close> between that read and
  the write; \<open>LoopMark\<close>, \<open>LoopAgain\<close> and \<open>LoopSend\<close> before \<open>markRefreshPending\<close>, the second read of
  \<open>handleDueAuth\<close> and the send to the workers.
\<close>

datatype loopPc =
    LoopWait
  | LoopReset gotime
  | LoopDrain gotime
  | LoopDirty gotime "string list"
  | LoopDirtySet gotime string "gotime option" "string list"
  | LoopDue gotime
  | LoopHandle gotime "string list"
  | LoopHandleSet gotime string "gotime option" "string list"
  | LoopMark gotime string "string list"
  | LoopAgain gotime string "string list"
  | LoopSend gotime string "string list"

text \<open>Calls under way in other goroutines: \<open>queueReschedule\<close> before its two parts, and
  \<open>queueRefreshUnschedule\<close>.\<close>

datatype refreshNotice = NoticeMark string | NoticeWake | NoticeRemove string

record refreshSys =
  rs_clock :: gotime
  rs_auths :: "(string, refreshEntry) gomap"
  rs_executors :: "string list"
  rs_loop :: refreshLoop
  rs_pc :: loopPc
  rs_timer :: "gotime option"
  rs_notices :: "refreshNotice list"
  rs_workers :: "string list"

text \<open>A result of a request as \<open>MarkResult\<close> writes it into the record of its credential.\<close>

definition markOn :: "CoolingEnv \<Rightarrow> gotime \<Rightarrow> Result \<Rightarrow> Auth \<Rightarrow> Auth" where
  "markOn cenv now result auth =
     (case m_get (out_auths (MarkResult cenv now result [(res_AuthID result, auth)])) (res_AuthID result) of
        Some b \<Rightarrow> b | None \<Rightarrow> auth)"

section \<open>Steps\<close>

text \<open>
  \<open>strict\<close> excludes the results of requests that give a credential a next check it did not have; the
  code does not tell the loop of them. An identifier is registered again only when no removal of it
  is under way. The reschedule that \<open>markRefreshPending\<close> makes is a notice like those of other callers,
  which only adds interleavings.
\<close>

inductive refresh_step :: "bool \<Rightarrow> RefreshEnv \<Rightarrow> loopConfig \<Rightarrow> refreshSys \<Rightarrow> refreshSys \<Rightarrow> bool"
  for strict :: bool and env :: RefreshEnv and lc :: loopConfig where
  tick: "rs_clock s \<le> t \<Longrightarrow> refresh_step strict env lc s (s\<lparr>rs_clock := t\<rparr>)"
| executors: "refresh_step strict env lc s (s\<lparr>rs_executors := xs\<rparr>)"
| store: "ident \<noteq> [] \<Longrightarrow> NoticeRemove ident \<notin> set (rs_notices s) \<Longrightarrow>
    refresh_step strict env lc s (s\<lparr>rs_auths := m_put ident (auth, rt) (rs_auths s),
      rs_notices := NoticeMark ident # rs_notices s\<rparr>)"
| delete: "ident \<noteq> [] \<Longrightarrow> refresh_step strict env lc s (s\<lparr>rs_auths := m_del ident (rs_auths s),
      rs_notices := NoticeRemove ident # rs_notices s\<rparr>)"
| result: "m_get (rs_auths s) (res_AuthID result) = Some (auth, rt) \<Longrightarrow> auth' = markOn cenv (rs_clock s) result auth \<Longrightarrow>
    (strict \<Longrightarrow> schedulable env (rs_clock s) rt auth' \<Longrightarrow> schedulable env (rs_clock s) rt auth) \<Longrightarrow>
    refresh_step strict env lc s (s\<lparr>rs_auths := m_put (res_AuthID result) (auth', rt) (rs_auths s)\<rparr>)"
| mark: "NoticeMark ident \<in> set (rs_notices s) \<Longrightarrow>
    refresh_step strict env lc s (s\<lparr>rs_loop := markDirty ident (rs_loop s),
      rs_notices := NoticeWake # remove1 (NoticeMark ident) (rs_notices s)\<rparr>)"
| wake: "NoticeWake \<in> set (rs_notices s) \<Longrightarrow>
    refresh_step strict env lc s (s\<lparr>rs_loop := sendWake (rs_loop s), rs_notices := remove1 NoticeWake (rs_notices s)\<rparr>)"
| unschedule: "NoticeRemove ident \<in> set (rs_notices s) \<Longrightarrow>
    refresh_step strict env lc s (s\<lparr>rs_loop := settleIn ident None (rs_loop s),
      rs_notices := remove1 (NoticeRemove ident) (rs_notices s)\<rparr>)"
| worker_start: "rl_jobs (rs_loop s) = ident # jobs \<Longrightarrow> int (length (rs_workers s)) < lc_concurrency lc \<Longrightarrow>
    refresh_step strict env lc s (s\<lparr>rs_loop := (rs_loop s)\<lparr>rl_jobs := jobs\<rparr>, rs_workers := ident # rs_workers s\<rparr>)"
| worker_done: "ident \<in> set (rs_workers s) \<Longrightarrow>
    refresh_step strict env lc s (s\<lparr>rs_workers := remove1 ident (rs_workers s), rs_notices := NoticeMark ident # rs_notices s\<rparr>)"
| loop_wake: "rs_pc s = LoopWait \<Longrightarrow> rl_wake (rs_loop s) \<Longrightarrow>
    refresh_step strict env lc s (s\<lparr>rs_loop := (rs_loop s)\<lparr>rl_wake := False\<rparr>, rs_pc := LoopDrain (rs_clock s)\<rparr>)"
| loop_timer: "rs_pc s = LoopWait \<Longrightarrow> rs_timer s = Some d \<Longrightarrow> d \<le> rs_clock s \<Longrightarrow>
    refresh_step strict env lc s (s\<lparr>rs_timer := None, rs_pc := LoopDue (rs_clock s)\<rparr>)"
| loop_drain: "rs_pc s = LoopDrain now \<Longrightarrow> drainDirty (rs_loop s) = (l, ids) \<Longrightarrow>
    refresh_step strict env lc s (s\<lparr>rs_loop := l, rs_pc := LoopDirty now ids\<rparr>)"
| loop_dirty_end: "rs_pc s = LoopDirty now [] \<Longrightarrow> refresh_step strict env lc s (s\<lparr>rs_pc := LoopReset now\<rparr>)"
| loop_dirty: "rs_pc s = LoopDirty now (ident # ids) \<Longrightarrow> nxt = nextOf env now (lc_interval lc) (rs_auths s) ident \<Longrightarrow>
    refresh_step strict env lc s (s\<lparr>rs_pc := LoopDirtySet now ident nxt ids\<rparr>)"
| loop_dirty_set: "rs_pc s = LoopDirtySet now ident nxt ids \<Longrightarrow>
    refresh_step strict env lc s (s\<lparr>rs_loop := settleIn ident nxt (rs_loop s), rs_pc := LoopDirty now ids\<rparr>)"
| loop_due: "rs_pc s = LoopDue now \<Longrightarrow> popDue now (rl_queue (rs_loop s)) = (q, ids) \<Longrightarrow>
    refresh_step strict env lc s (s\<lparr>rs_loop := (rs_loop s)\<lparr>rl_queue := q\<rparr>, rs_pc := LoopHandle now ids\<rparr>)"
| loop_handle_end: "rs_pc s = LoopHandle now [] \<Longrightarrow> refresh_step strict env lc s (s\<lparr>rs_pc := LoopDrain now\<rparr>)"
| loop_handle: "rs_pc s = LoopHandle now (ident # ids) \<Longrightarrow> rs_clock s \<le> untl \<Longrightarrow>
    pc = (case decideDue env now untl (lc_interval lc) (rs_executors s) (rs_auths s) ident of
            DueGone \<Rightarrow> LoopHandle now ids
          | DueSettle nxt \<Rightarrow> LoopHandleSet now ident nxt ids
          | DueRefresh \<Rightarrow> LoopMark now ident ids) \<Longrightarrow>
    refresh_step strict env lc s (s\<lparr>rs_clock := untl, rs_pc := pc\<rparr>)"
| loop_handle_set: "rs_pc s = LoopHandleSet now ident nxt ids \<Longrightarrow>
    refresh_step strict env lc s (s\<lparr>rs_loop := settleIn ident nxt (rs_loop s), rs_pc := LoopHandle now ids\<rparr>)"
| loop_mark_no: "rs_pc s = LoopMark now ident ids \<Longrightarrow>
    (case m_get (rs_auths s) ident of None \<Rightarrow> True
     | Some (auth, rt) \<Rightarrow> \<not> is_zero (a_NextRefreshAfter auth) \<and> now < a_NextRefreshAfter auth) \<Longrightarrow>
    refresh_step strict env lc s (s\<lparr>rs_pc := LoopAgain now ident ids\<rparr>)"
| loop_mark: "rs_pc s = LoopMark now ident ids \<Longrightarrow> m_get (rs_auths s) ident = Some (auth, rt) \<Longrightarrow>
    \<not> (\<not> is_zero (a_NextRefreshAfter auth) \<and> now < a_NextRefreshAfter auth) \<Longrightarrow>
    refresh_step strict env lc s (s\<lparr>rs_auths := m_put ident (pendingAuth now auth, rt) (rs_auths s),
      rs_notices := NoticeMark ident # rs_notices s, rs_pc := LoopSend now ident ids\<rparr>)"
| loop_again: "rs_pc s = LoopAgain now ident ids \<Longrightarrow> nxt = nextOf env now (lc_interval lc) (rs_auths s) ident \<Longrightarrow>
    refresh_step strict env lc s (s\<lparr>rs_pc := LoopHandleSet now ident nxt ids\<rparr>)"
| loop_send: "rs_pc s = LoopSend now ident ids \<Longrightarrow> int (length (rl_jobs (rs_loop s))) < lc_jobBuffer lc \<Longrightarrow>
    refresh_step strict env lc s (s\<lparr>rs_loop := (rs_loop s)\<lparr>rl_jobs := rl_jobs (rs_loop s) @ [ident]\<rparr>, rs_pc := LoopHandle now ids\<rparr>)"
| loop_reset: "rs_pc s = LoopReset now \<Longrightarrow>
    refresh_step strict env lc s (s\<lparr>rs_timer := timerDeadline (rs_clock s) now (rl_queue (rs_loop s)), rs_pc := LoopWait\<rparr>)"

text \<open>\<open>StartAutoRefresh\<close>: the queue is built from the credentials of the manager, then the loop starts.\<close>

definition startAutoRefresh :: "RefreshEnv \<Rightarrow> loopConfig \<Rightarrow> refreshLoop \<Rightarrow> gotime \<Rightarrow> (string, refreshEntry) gomap \<Rightarrow> string list \<Rightarrow> refreshSys" where
  "startAutoRefresh env lc l now auths executors =
     \<lparr>rs_clock = now, rs_auths = auths, rs_executors = executors, rs_loop = rebuildSchedule env now (lc_interval lc) auths l,
      rs_pc = LoopReset now, rs_timer = None, rs_notices = [], rs_workers = []\<rparr>"

inductive refresh_reachable :: "bool \<Rightarrow> RefreshEnv \<Rightarrow> loopConfig \<Rightarrow> refreshSys \<Rightarrow> bool"
  for strict :: bool and env :: RefreshEnv and lc :: loopConfig where
  started: "newAuthAutoRefreshLoop interval concurrency = (lc, l) \<Longrightarrow> 0 < now \<Longrightarrow> m_ok auths \<Longrightarrow>
    refresh_reachable strict env lc (startAutoRefresh env lc l now auths executors)"
| stepped: "refresh_reachable strict env lc s \<Longrightarrow> refresh_step strict env lc s s' \<Longrightarrow> refresh_reachable strict env lc s'"

section \<open>Where a credential is kept track of\<close>

fun pcIds :: "loopPc \<Rightarrow> string set" where
  "pcIds (LoopDirty now ids) = set ids"
| "pcIds (LoopDirtySet now ident nxt ids) = set ids \<union> (if nxt = None then {} else {ident})"
| "pcIds (LoopHandle now ids) = set ids"
| "pcIds (LoopHandleSet now ident nxt ids) = set ids \<union> (if nxt = None then {} else {ident})"
| "pcIds (LoopMark now ident ids) = insert ident (set ids)"
| "pcIds (LoopAgain now ident ids) = insert ident (set ids)"
| "pcIds (LoopSend now ident ids) = insert ident (set ids)"
| "pcIds _ = {}"

text \<open>The identifier whose entry is about to be deleted, the time about to be stored, the loop's own
  reading of the clock, and the states before a drain.\<close>

fun pcDrops :: "loopPc \<Rightarrow> string option" where
  "pcDrops (LoopDirtySet now ident nxt ids) = (if nxt = None then Some ident else None)"
| "pcDrops (LoopHandleSet now ident nxt ids) = (if nxt = None then Some ident else None)"
| "pcDrops _ = None"

fun pcNext :: "loopPc \<Rightarrow> gotime option" where
  "pcNext (LoopDirtySet now ident nxt ids) = nxt"
| "pcNext (LoopHandleSet now ident nxt ids) = nxt"
| "pcNext _ = None"

fun pcNow :: "loopPc \<Rightarrow> gotime option" where
  "pcNow LoopWait = None"
| "pcNow (LoopReset now) = Some now"
| "pcNow (LoopDrain now) = Some now"
| "pcNow (LoopDirty now ids) = Some now"
| "pcNow (LoopDirtySet now ident nxt ids) = Some now"
| "pcNow (LoopDue now) = Some now"
| "pcNow (LoopHandle now ids) = Some now"
| "pcNow (LoopHandleSet now ident nxt ids) = Some now"
| "pcNow (LoopMark now ident ids) = Some now"
| "pcNow (LoopAgain now ident ids) = Some now"
| "pcNow (LoopSend now ident ids) = Some now"

fun drainAhead :: "loopPc \<Rightarrow> bool" where
  "drainAhead LoopWait = False"
| "drainAhead (LoopReset now) = False"
| "drainAhead (LoopDirty now ids) = False"
| "drainAhead (LoopDirtySet now ident nxt ids) = False"
| "drainAhead _ = True"

definition heldIds :: "refreshSys \<Rightarrow> string set" where
  "heldIds s = set (rl_dirty (rs_loop s)) \<union> {k. NoticeMark k \<in> set (rs_notices s)} \<union> set (rl_jobs (rs_loop s))
     \<union> set (rs_workers s) \<union> pcIds (rs_pc s)"

definition scheduledIds :: "refreshSys \<Rightarrow> string set" where
  "scheduledIds s = {k. scheduleOf (rl_queue (rs_loop s)) k \<noteq> None}"

text \<open>The credentials that have a next check now.\<close>

definition wantedIds :: "RefreshEnv \<Rightarrow> refreshSys \<Rightarrow> string set" where
  "wantedIds env s = {k. k \<noteq> [] \<and> nextOf env (rs_clock s) refreshCheckInterval (rs_auths s) k \<noteq> None}"

definition refreshInv :: "RefreshEnv \<Rightarrow> loopConfig \<Rightarrow> refreshSys \<Rightarrow> bool" where
  "refreshInv env lc s \<longleftrightarrow>
     queueInv (rl_queue (rs_loop s)) \<and> 0 < lc_interval lc \<and> 0 < rs_clock s
     \<and> pred_option (\<lambda>now. 0 < now \<and> now \<le> rs_clock s) (pcNow (rs_pc s))
     \<and> pred_option (\<lambda>t. 0 < t) (pcNext (rs_pc s))
     \<and> (\<forall>k. NoticeRemove k \<in> set (rs_notices s) \<longrightarrow> m_get (rs_auths s) k = None)
     \<and> wantedIds env s \<subseteq> scheduledIds s \<union> heldIds s
     \<and> pred_option (\<lambda>k. k \<in> wantedIds env s \<longrightarrow> k \<in> heldIds s) (pcDrops (rs_pc s))
     \<and> (rl_dirty (rs_loop s) \<noteq> [] \<longrightarrow> rl_wake (rs_loop s) \<or> NoticeWake \<in> set (rs_notices s) \<or> drainAhead (rs_pc s))
     \<and> (rs_pc s = LoopWait \<and> scheduledIds s \<noteq> {} \<longrightarrow> rs_timer s \<noteq> None)"

section \<open>The locked sections and the schedule\<close>

lemma settleIn_correct:
  assumes "queueInv (rl_queue l)" and "pred_option (\<lambda>t. 0 < t) nxt"
  shows "queueInv (rl_queue (settleIn ident nxt l))"
    and "k \<noteq> [] \<Longrightarrow> scheduleOf (rl_queue (settleIn ident nxt l)) k
      = (if k = ident then nxt else scheduleOf (rl_queue l) k)"
proof -
  have e: "rl_queue (settleIn ident nxt l) = (case nxt of None \<Rightarrow> removeID ident (rl_queue l) | Some t \<Rightarrow> upsert ident t (rl_queue l))"
    by (simp add: settleIn_def)
  show "queueInv (rl_queue (settleIn ident nxt l))"
    "k \<noteq> [] \<Longrightarrow> scheduleOf (rl_queue (settleIn ident nxt l)) k = (if k = ident then nxt else scheduleOf (rl_queue l) k)"
  proof -
    show "queueInv (rl_queue (settleIn ident nxt l))"
    proof (cases "ident = []")
      case True
      then show ?thesis using assms(1) unfolding e by (cases nxt) (simp_all add: removeID_def upsert_def)
    next
      case False
      then show ?thesis using rsched.settle_one(1) [OF assms(1) False, of nxt] assms(2) unfolding e by (cases nxt) auto
    qed
    assume k: "k \<noteq> []"
    show "scheduleOf (rl_queue (settleIn ident nxt l)) k = (if k = ident then nxt else scheduleOf (rl_queue l) k)"
    proof (cases "ident = []")
      case True
      then show ?thesis using k unfolding e by (cases nxt) (auto simp: removeID_def upsert_def)
    next
      case False
      then show ?thesis using rsched.settle_one(2) [OF assms(1) False, of nxt] assms(2) unfolding e by (cases nxt) auto
    qed
  qed
qed

lemma settleIn_fields [simp]:
  "rl_dirty (settleIn ident nxt l) = rl_dirty l" "rl_wake (settleIn ident nxt l) = rl_wake l" "rl_jobs (settleIn ident nxt l) = rl_jobs l"
  by (simp_all add: settleIn_def)

lemma nextOf_pos: "0 < now \<Longrightarrow> pred_option (\<lambda>t. 0 < t) (nextOf env now ivl auths k)"
proof (cases "nextOf env now ivl auths k")
  case (Some t)
  then have "now \<le> t" by (auto simp: nextOf_def dest: nextRefreshCheckAt_ge split: option.splits)
  then show "0 < now \<Longrightarrow> ?thesis" by (simp add: Some)
qed simp

text \<open>A missing next check at an earlier reading means that the credential has none now.\<close>

lemma nextOf_None_later:
  assumes "nextOf env now ivl auths k = None" and "now \<le> now'"
  shows "nextOf env now' ivl' auths k = None"
  using assms unfolding nextOf_def
  by (auto simp: nextRefreshCheckAt_None_iff split: option.splits)

lemma nextOf_None_wanted: "nextOf env now ivl (rs_auths s) k = None \<Longrightarrow> now \<le> rs_clock s \<Longrightarrow> k \<notin> wantedIds env s"
  by (simp add: wantedIds_def nextOf_None_later)

lemma wantedIds_tick: "rs_clock s \<le> t \<Longrightarrow> wantedIds env (s\<lparr>rs_clock := t\<rparr>) \<subseteq> wantedIds env s"
  using nextOf_None_later by (fastforce simp: wantedIds_def)

lemma wantedIds_cong: "rs_auths s' = rs_auths s \<Longrightarrow> rs_clock s' = rs_clock s \<Longrightarrow> wantedIds env s' = wantedIds env s"
  by (simp add: wantedIds_def)

lemma rebuildEntries_Cons:
  "rebuildEntries env now ivl ((k, a, rt) # auths) =
     (case nextRefreshCheckAt env now ivl rt a of None \<Rightarrow> rebuildEntries env now ivl auths
      | Some t \<Rightarrow> (k, t) # rebuildEntries env now ivl auths)"
  by (simp add: rebuildEntries_def List.map_filter_simps split: option.split)

lemma rebuildEntries_Nil: "rebuildEntries env now ivl [] = []"
  by (simp add: rebuildEntries_def List.map_filter_simps)

lemma rebuildEntries_keys: "fst ` set (rebuildEntries env now ivl auths) \<subseteq> fst ` set auths"
proof (induction auths)
  case (Cons x auths)
  then show ?case by (cases x) (auto simp: rebuildEntries_Cons split: option.splits)
qed (simp add: rebuildEntries_Nil)

lemma rebuildEntries_map:
  "m_ok auths \<Longrightarrow> distinct (map fst (rebuildEntries env now ivl auths)) \<and> map_of (rebuildEntries env now ivl auths) k = nextOf env now ivl auths k"
proof (induction auths)
  case (Cons x auths)
  obtain i a rt where x: "x = (i, a, rt)" by (metis prod_cases3)
  have new: "i \<notin> fst ` set auths" using Cons(2) by (simp add: x)
  then have "i \<notin> fst ` set (rebuildEntries env now ivl auths)" using rebuildEntries_keys [of env now ivl auths] by blast
  moreover from this have "map_of (rebuildEntries env now ivl auths) i = None" by (simp add: map_of_eq_None_iff)
  ultimately show ?case using Cons new
    by (auto simp: x rebuildEntries_Cons nextOf_def split: option.split)
qed (simp add: rebuildEntries_Nil nextOf_def)

lemma startAutoRefresh_inv:
  assumes l: "newAuthAutoRefreshLoop interval concurrency = (lc, l)" and now: "0 < now" and ok: "m_ok auths"
  shows "refreshInv env lc (startAutoRefresh env lc l now auths executors)"
proof -
  let ?s = "startAutoRefresh env lc l now auths executors"
  note m = rebuildEntries_map [OF ok, of env now "lc_interval lc"]
  note rb = rebuildQueue_correct [OF m [THEN conjunct1], of "rl_queue l"]
  have f: "rl_dirty l = []" "0 < lc_interval lc" using l by (auto simp: newAuthAutoRefreshLoop_def Let_def split: if_splits)
  have sch: "scheduleOf (rl_queue (rs_loop ?s)) k = nextOf env now (lc_interval lc) auths k" for k
    using rb m [of k] by (simp add: startAutoRefresh_def rebuildSchedule_def)
  have "k \<in> scheduledIds ?s" if "k \<in> wantedIds env ?s" for k
    using that nextOf_None_later [of env now "lc_interval lc" auths k now refreshCheckInterval] sch [of k]
    by (cases "nextOf env now (lc_interval lc) auths k") (simp_all add: wantedIds_def scheduledIds_def startAutoRefresh_def)
  moreover have "queueInv (rl_queue (rs_loop ?s))" using rb by (simp add: startAutoRefresh_def rebuildSchedule_def)
  ultimately show ?thesis
    using f now by (auto simp: refreshInv_def startAutoRefresh_def rebuildSchedule_def)
qed

section \<open>The invariant\<close>

lemma refreshInvD:
  assumes "refreshInv env lc s"
  shows "queueInv (rl_queue (rs_loop s))" "0 < lc_interval lc" "0 < rs_clock s"
    "pred_option (\<lambda>now. 0 < now \<and> now \<le> rs_clock s) (pcNow (rs_pc s))" "pred_option (\<lambda>t. 0 < t) (pcNext (rs_pc s))"
    "NoticeRemove k \<in> set (rs_notices s) \<Longrightarrow> m_get (rs_auths s) k = None"
    "wantedIds env s \<subseteq> scheduledIds s \<union> heldIds s"
    "pcDrops (rs_pc s) = Some k \<Longrightarrow> k \<in> wantedIds env s \<Longrightarrow> k \<in> heldIds s"
    "rl_dirty (rs_loop s) \<noteq> [] \<Longrightarrow> rl_wake (rs_loop s) \<or> NoticeWake \<in> set (rs_notices s) \<or> drainAhead (rs_pc s)"
    "rs_pc s = LoopWait \<Longrightarrow> scheduledIds s \<noteq> {} \<Longrightarrow> rs_timer s \<noteq> None"
  using assms by (auto simp: refreshInv_def)

text \<open>Steps that leave the loop goroutine, its queue and the timer alone.\<close>

lemma inv_outside:
  assumes inv: "refreshInv env lc s" and pc: "rs_pc s' = rs_pc s" and t: "rs_timer s' = rs_timer s" and q: "rl_queue (rs_loop s') = rl_queue (rs_loop s)"
    and clock: "rs_clock s \<le> rs_clock s'"
    and rem: "\<And>k. NoticeRemove k \<in> set (rs_notices s') \<Longrightarrow> m_get (rs_auths s') k = None"
    and want: "wantedIds env s' \<subseteq> wantedIds env s \<union> heldIds s'" and held: "heldIds s - {[]} \<subseteq> heldIds s'"
    and wake: "rl_dirty (rs_loop s') \<noteq> [] \<Longrightarrow> rl_wake (rs_loop s') \<or> NoticeWake \<in> set (rs_notices s') \<or> drainAhead (rs_pc s')"
  shows "refreshInv env lc s'"
proof -
  note D = refreshInvD [OF inv]
  have ne: "[] \<notin> wantedIds env s" by (simp add: wantedIds_def)
  have sch: "scheduledIds s' = scheduledIds s" by (simp add: scheduledIds_def q)
  have now: "pred_option (\<lambda>now. 0 < now \<and> now \<le> rs_clock s') (pcNow (rs_pc s'))"
    using D(4) clock unfolding pc by (cases "pcNow (rs_pc s)") auto
  have drops: "pred_option (\<lambda>k. k \<in> wantedIds env s' \<longrightarrow> k \<in> heldIds s') (pcDrops (rs_pc s'))"
  proof (cases "pcDrops (rs_pc s)")
    case (Some k)
    then show ?thesis using D(8) [of k] want held ne unfolding pc by auto
  qed (simp add: pc)
  have cover: "wantedIds env s' \<subseteq> scheduledIds s' \<union> heldIds s'" using D(7) want held ne unfolding sch by blast
  have "0 < rs_clock s'" using D(3) clock by linarith
  then show ?thesis
    using D(1,2,5,10) now drops cover rem wake unfolding refreshInv_def q pc t sch by blast
qed

lemma set_remove1_others: "y \<noteq> x \<Longrightarrow> y \<in> set (remove1 x xs) \<longleftrightarrow> y \<in> set xs"
  using in_set_remove1 by fastforce

lemma in_remove1_subset: "x \<in> set (remove1 y xs) \<Longrightarrow> x \<in> set xs"
  using set_remove1_subset by fastforce

lemma heldIds_notices:
  "heldIds (s\<lparr>rs_notices := NoticeMark k # rs_notices s\<rparr>) = insert k (heldIds s)"
  by (auto simp: heldIds_def)

lemma nextOf_put: "nextOf env now ivl (m_put k v auths) j
    = (if j = k then nextRefreshCheckAt env now ivl (snd v) (fst v) else nextOf env now ivl auths j)"
  by (cases v) (simp add: nextOf_def)

lemma nextOf_del: "nextOf env now ivl (m_del k auths) j = (if j = k then None else nextOf env now ivl auths j)"
  by (simp add: nextOf_def)

lemma inv_store:
  assumes inv: "refreshInv env lc s" and rem: "NoticeRemove ident \<notin> set (rs_notices s)"
  shows "refreshInv env lc (s\<lparr>rs_auths := m_put ident v (rs_auths s), rs_notices := NoticeMark ident # rs_notices s\<rparr>)"
proof (rule inv_outside [OF inv])
  fix k
  show "NoticeRemove k \<in> set (rs_notices (s\<lparr>rs_auths := m_put ident v (rs_auths s), rs_notices := NoticeMark ident # rs_notices s\<rparr>))
    \<Longrightarrow> m_get (rs_auths (s\<lparr>rs_auths := m_put ident v (rs_auths s), rs_notices := NoticeMark ident # rs_notices s\<rparr>)) k = None"
    using refreshInvD(6) [OF inv, of k] rem by (cases "k = ident") auto
next
  show "wantedIds env (s\<lparr>rs_auths := m_put ident v (rs_auths s), rs_notices := NoticeMark ident # rs_notices s\<rparr>)
    \<subseteq> wantedIds env s \<union> heldIds (s\<lparr>rs_auths := m_put ident v (rs_auths s), rs_notices := NoticeMark ident # rs_notices s\<rparr>)"
    by (auto simp: wantedIds_def nextOf_put heldIds_def split: if_splits)
qed (use refreshInvD(9) [OF inv] in \<open>auto simp: heldIds_def\<close>)

lemma inv_delete:
  assumes inv: "refreshInv env lc s"
  shows "refreshInv env lc (s\<lparr>rs_auths := m_del ident (rs_auths s), rs_notices := NoticeRemove ident # rs_notices s\<rparr>)"
proof (rule inv_outside [OF inv])
  fix k
  show "NoticeRemove k \<in> set (rs_notices (s\<lparr>rs_auths := m_del ident (rs_auths s), rs_notices := NoticeRemove ident # rs_notices s\<rparr>))
    \<Longrightarrow> m_get (rs_auths (s\<lparr>rs_auths := m_del ident (rs_auths s), rs_notices := NoticeRemove ident # rs_notices s\<rparr>)) k = None"
    using refreshInvD(6) [OF inv, of k] by (cases "k = ident") auto
qed (use refreshInvD(9) [OF inv] in \<open>auto simp: heldIds_def wantedIds_def nextOf_del split: if_splits\<close>)

lemma inv_result:
  assumes inv: "refreshInv env lc s" and a: "m_get (rs_auths s) k = Some (a, rt)"
    and strict: "schedulable env (rs_clock s) rt b \<Longrightarrow> schedulable env (rs_clock s) rt a"
  shows "refreshInv env lc (s\<lparr>rs_auths := m_put k (b, rt) (rs_auths s)\<rparr>)"
proof (rule inv_outside [OF inv])
  fix j
  show "NoticeRemove j \<in> set (rs_notices (s\<lparr>rs_auths := m_put k (b, rt) (rs_auths s)\<rparr>))
    \<Longrightarrow> m_get (rs_auths (s\<lparr>rs_auths := m_put k (b, rt) (rs_auths s)\<rparr>)) j = None"
    using refreshInvD(6) [OF inv, of j] a by (cases "j = k") auto
next
  have "nextOf env (rs_clock s) refreshCheckInterval (rs_auths s) k \<noteq> None \<longleftrightarrow> schedulable env (rs_clock s) rt a"
    by (simp add: nextOf_def a schedulable_def)
  then show "wantedIds env (s\<lparr>rs_auths := m_put k (b, rt) (rs_auths s)\<rparr>)
    \<subseteq> wantedIds env s \<union> heldIds (s\<lparr>rs_auths := m_put k (b, rt) (rs_auths s)\<rparr>)"
    using strict by (auto simp: wantedIds_def nextOf_put schedulable_def split: if_splits)
qed (use refreshInvD(9) [OF inv] in \<open>auto simp: heldIds_def\<close>)

lemma inv_mark:
  assumes inv: "refreshInv env lc s" and n: "NoticeMark ident \<in> set (rs_notices s)"
  shows "refreshInv env lc (s\<lparr>rs_loop := markDirty ident (rs_loop s), rs_notices := NoticeWake # remove1 (NoticeMark ident) (rs_notices s)\<rparr>)"
    (is "refreshInv env lc ?t")
proof (rule inv_outside [OF inv])
  show "heldIds s - {[]} \<subseteq> heldIds ?t"
    by (cases "ident = []") (auto simp: heldIds_def markDirty_def set_remove1_others)
  show "rl_queue (rs_loop ?t) = rl_queue (rs_loop s)" by (simp add: markDirty_def)
  show "wantedIds env ?t \<subseteq> wantedIds env s \<union> heldIds ?t" by (simp add: wantedIds_def)
  show "NoticeRemove k \<in> set (rs_notices ?t) \<Longrightarrow> m_get (rs_auths ?t) k = None" for k
    using refreshInvD(6) [OF inv, of k] by (simp add: set_remove1_others)
qed simp_all

lemma inv_wake:
  assumes inv: "refreshInv env lc s"
  shows "refreshInv env lc (s\<lparr>rs_loop := sendWake (rs_loop s), rs_notices := remove1 NoticeWake (rs_notices s)\<rparr>)"
    (is "refreshInv env lc ?t")
proof (rule inv_outside [OF inv])
  show "heldIds s - {[]} \<subseteq> heldIds ?t"
    by (auto simp: heldIds_def sendWake_def set_remove1_others)
  show "wantedIds env ?t \<subseteq> wantedIds env s \<union> heldIds ?t" by (simp add: wantedIds_def)
  show "NoticeRemove k \<in> set (rs_notices ?t) \<Longrightarrow> m_get (rs_auths ?t) k = None" for k
    using refreshInvD(6) [OF inv, of k] by (simp add: set_remove1_others)
qed (simp_all add: sendWake_def)

lemma inv_tick:
  assumes inv: "refreshInv env lc s" and t: "rs_clock s \<le> t"
  shows "refreshInv env lc (s\<lparr>rs_clock := t\<rparr>)"
  using refreshInvD(6,9) [OF inv] wantedIds_tick [OF t] t
  by (intro inv_outside [OF inv]) (auto simp: heldIds_def)

lemma inv_executors:
  assumes inv: "refreshInv env lc s"
  shows "refreshInv env lc (s\<lparr>rs_executors := xs\<rparr>)"
  using refreshInvD(6,9) [OF inv] by (intro inv_outside [OF inv]) (auto simp: heldIds_def wantedIds_def)

lemma inv_worker_start:
  assumes inv: "refreshInv env lc s" and j: "rl_jobs (rs_loop s) = ident # jobs"
  shows "refreshInv env lc (s\<lparr>rs_loop := (rs_loop s)\<lparr>rl_jobs := jobs\<rparr>, rs_workers := ident # rs_workers s\<rparr>)"
  using refreshInvD(6,9) [OF inv] j by (intro inv_outside [OF inv]) (auto simp: heldIds_def wantedIds_def)

lemma inv_worker_done:
  assumes inv: "refreshInv env lc s"
  shows "refreshInv env lc (s\<lparr>rs_workers := remove1 ident (rs_workers s), rs_notices := NoticeMark ident # rs_notices s\<rparr>)"
proof (rule inv_outside [OF inv])
  have "x \<in> set (rs_workers s) \<Longrightarrow> x = ident \<or> x \<in> set (remove1 ident (rs_workers s))" for x
    using set_remove1_others by fastforce
  then show "heldIds s - {[]} \<subseteq> heldIds (s\<lparr>rs_workers := remove1 ident (rs_workers s), rs_notices := NoticeMark ident # rs_notices s\<rparr>)"
    by (auto simp: heldIds_def)
qed (use refreshInvD(6,9) [OF inv] in \<open>auto simp: wantedIds_def\<close>)

section \<open>The steps of the loop\<close>

text \<open>Steps of the loop goroutine leave credentials, notices and workers alone.\<close>

lemma inv_loop:
  assumes inv: "refreshInv env lc s"
    and same: "rs_auths s' = rs_auths s" "rs_notices s' = rs_notices s" "rs_workers s' = rs_workers s" "rs_clock s \<le> rs_clock s'"
    and q: "queueInv (rl_queue (rs_loop s'))"
    and now: "pred_option (\<lambda>now. 0 < now \<and> now \<le> rs_clock s') (pcNow (rs_pc s'))" "pred_option (\<lambda>t. 0 < t) (pcNext (rs_pc s'))"
    and cover: "\<And>k. k \<in> wantedIds env s \<Longrightarrow> k \<noteq> [] \<Longrightarrow> k \<in> scheduledIds s \<union> heldIds s \<Longrightarrow> k \<in> scheduledIds s' \<union> heldIds s'"
    and drops: "\<And>k. pcDrops (rs_pc s') = Some k \<Longrightarrow> k \<in> wantedIds env s \<Longrightarrow> k \<in> heldIds s'"
    and wake: "rl_dirty (rs_loop s') \<noteq> [] \<Longrightarrow> rl_wake (rs_loop s') \<or> NoticeWake \<in> set (rs_notices s) \<or> drainAhead (rs_pc s')"
    and timer: "rs_pc s' = LoopWait \<Longrightarrow> scheduledIds s' \<noteq> {} \<Longrightarrow> rs_timer s' \<noteq> None"
  shows "refreshInv env lc s'"
proof -
  note D = refreshInvD [OF inv]
  have want: "wantedIds env s' \<subseteq> wantedIds env s"
    using wantedIds_tick [OF same(4), of env] same by (simp add: wantedIds_def)
  have ne: "[] \<notin> wantedIds env s" by (simp add: wantedIds_def)
  have "wantedIds env s' \<subseteq> scheduledIds s' \<union> heldIds s'"
  proof
    fix k assume "k \<in> wantedIds env s'"
    then have "k \<in> wantedIds env s" using want by blast
    then show "k \<in> scheduledIds s' \<union> heldIds s'" using cover ne D(7) by blast
  qed
  moreover have "pred_option (\<lambda>k. k \<in> wantedIds env s' \<longrightarrow> k \<in> heldIds s') (pcDrops (rs_pc s'))"
    using drops want by (cases "pcDrops (rs_pc s')") auto
  moreover have "0 < rs_clock s'" using D(3) same(4) by linarith
  ultimately show ?thesis using q now D(2,6) wake timer unfolding refreshInv_def same by blast
qed

lemma inv_loop_wake:
  assumes inv: "refreshInv env lc s" and pc: "rs_pc s = LoopWait"
  shows "refreshInv env lc (s\<lparr>rs_loop := (rs_loop s)\<lparr>rl_wake := False\<rparr>, rs_pc := LoopDrain (rs_clock s)\<rparr>)"
  by (rule inv_loop [OF inv]) (use refreshInvD(1,3) [OF inv] pc in \<open>auto simp: heldIds_def scheduledIds_def\<close>)

lemma inv_loop_timer:
  assumes inv: "refreshInv env lc s" and pc: "rs_pc s = LoopWait"
  shows "refreshInv env lc (s\<lparr>rs_timer := None, rs_pc := LoopDue (rs_clock s)\<rparr>)"
  by (rule inv_loop [OF inv]) (use refreshInvD(1,3) [OF inv] pc in \<open>auto simp: heldIds_def scheduledIds_def\<close>)

lemma inv_loop_drain:
  assumes inv: "refreshInv env lc s" and pc: "rs_pc s = LoopDrain now" and d: "drainDirty (rs_loop s) = (l, ids)"
  shows "refreshInv env lc (s\<lparr>rs_loop := l, rs_pc := LoopDirty now ids\<rparr>)"
  by (rule inv_loop [OF inv]) (use refreshInvD(1,4) [OF inv] pc d in \<open>auto simp: heldIds_def scheduledIds_def drainDirty_def\<close>)

lemma inv_loop_dirty_end:
  assumes inv: "refreshInv env lc s" and pc: "rs_pc s = LoopDirty now []"
  shows "refreshInv env lc (s\<lparr>rs_pc := LoopReset now\<rparr>)"
  by (rule inv_loop [OF inv]) (use refreshInvD(1,4,9) [OF inv] pc in \<open>auto simp: heldIds_def scheduledIds_def\<close>)

lemma inv_loop_handle_end:
  assumes inv: "refreshInv env lc s" and pc: "rs_pc s = LoopHandle now []"
  shows "refreshInv env lc (s\<lparr>rs_pc := LoopDrain now\<rparr>)"
  by (rule inv_loop [OF inv]) (use refreshInvD(1,4) [OF inv] pc in \<open>auto simp: heldIds_def scheduledIds_def\<close>)

text \<open>A read that plans a deletion has found no next check, so the credential is not wanted.\<close>

lemma inv_loop_read:
  assumes inv: "refreshInv env lc s" and clock: "rs_clock s \<le> untl" and pcn: "pcNow (rs_pc s) = Some now"
    and pc: "pcIds (rs_pc s) = insert ident (set ids)" "pcDrops (rs_pc s) = None" "drainAhead pc = drainAhead (rs_pc s)" "pc \<noteq> LoopWait"
    and new: "pcNow pc = Some now" "pred_option (\<lambda>t. 0 < t) (pcNext pc)" "set ids \<subseteq> pcIds pc"
    and gone: "ident \<in> pcIds pc \<or> nextOf env now (lc_interval lc) (rs_auths s) ident = None"
    and drop: "pcDrops pc \<noteq> None \<Longrightarrow> pcDrops pc = Some ident \<and> nextOf env now (lc_interval lc) (rs_auths s) ident = None"
  shows "refreshInv env lc (s\<lparr>rs_clock := untl, rs_pc := pc\<rparr>)"
proof -
  note D = refreshInvD [OF inv]
  have now: "0 < now" "now \<le> rs_clock s" using D(4) pcn by auto
  have unwanted: "nextOf env now (lc_interval lc) (rs_auths s) ident = None \<Longrightarrow> ident \<notin> wantedIds env s"
    using nextOf_None_wanted now(2) by blast
  show ?thesis
  proof (rule inv_loop [OF inv])
    show "k \<in> scheduledIds (s\<lparr>rs_clock := untl, rs_pc := pc\<rparr>) \<union> heldIds (s\<lparr>rs_clock := untl, rs_pc := pc\<rparr>)"
      if "k \<in> wantedIds env s" "k \<in> scheduledIds s \<union> heldIds s" for k
      using that gone unwanted new(3) unfolding heldIds_def scheduledIds_def pc(1) by auto
    show "k \<in> heldIds (s\<lparr>rs_clock := untl, rs_pc := pc\<rparr>)"
      if "pcDrops (rs_pc (s\<lparr>rs_clock := untl, rs_pc := pc\<rparr>)) = Some k" "k \<in> wantedIds env s" for k
      using that drop unwanted by auto
    show "rl_wake (rs_loop (s\<lparr>rs_clock := untl, rs_pc := pc\<rparr>)) \<or> NoticeWake \<in> set (rs_notices s) \<or> drainAhead (rs_pc (s\<lparr>rs_clock := untl, rs_pc := pc\<rparr>))"
      if "rl_dirty (rs_loop (s\<lparr>rs_clock := untl, rs_pc := pc\<rparr>)) \<noteq> []"
      using that D(9) pc(3) by auto
  qed (use D(1) clock new now pc(4) in auto)
qed

text \<open>A write of the outcome: the planned time or the deletion.\<close>

lemma inv_loop_write:
  assumes inv: "refreshInv env lc s" and pcn: "pcNow (rs_pc s) = Some now" "pcNext (rs_pc s) = nxt"
    and pc: "pcIds (rs_pc s) = set ids \<union> (if nxt = None then {} else {ident})" "pcDrops (rs_pc s) = (if nxt = None then Some ident else None)"
    and new: "pcNow pc = Some now" "pcNext pc = None" "pcIds pc = set ids" "pcDrops pc = None" "drainAhead pc = drainAhead (rs_pc s)" "pc \<noteq> LoopWait"
  shows "refreshInv env lc (s\<lparr>rs_loop := settleIn ident nxt (rs_loop s), rs_pc := pc\<rparr>)" (is "refreshInv env lc ?t")
proof (rule inv_loop [OF inv])
  note D = refreshInvD [OF inv]
  have pos: "pred_option (\<lambda>t. 0 < t) nxt" using D(5) pcn by simp
  note set = settleIn_correct [OF D(1) pos]
  show "queueInv (rl_queue (rs_loop ?t))" using set(1) by simp
  show "k \<in> scheduledIds ?t \<union> heldIds ?t" if w: "k \<in> wantedIds env s" "k \<noteq> []" "k \<in> scheduledIds s \<union> heldIds s" for k
  proof (cases "k = ident")
    case True
    show ?thesis
    proof (cases nxt)
      case None
      then have "k \<in> heldIds s" using D(8) [of k] w True pc(2) by simp
      then show ?thesis using None by (auto simp: heldIds_def pc(1) new(3))
    next
      case (Some t)
      then show ?thesis using set(2) [OF w(2), of ident] True by (simp add: scheduledIds_def)
    qed
  next
    case False
    then show ?thesis using set(2) [OF w(2), of ident] w by (auto simp: scheduledIds_def heldIds_def pc(1) new(3) split: if_splits)
  qed
qed (use refreshInvD(4,9) [OF inv] pcn new in auto)

lemma inv_unschedule:
  assumes inv: "refreshInv env lc s" and n: "NoticeRemove ident \<in> set (rs_notices s)"
  shows "refreshInv env lc (s\<lparr>rs_loop := settleIn ident None (rs_loop s), rs_notices := remove1 (NoticeRemove ident) (rs_notices s)\<rparr>)"
    (is "refreshInv env lc ?t")
proof -
  note D = refreshInvD [OF inv]
  have unwanted: "ident \<notin> wantedIds env s" using D(6) [OF n] by (simp add: wantedIds_def nextOf_def)
  note set = settleIn_correct [OF D(1), of None]
  have held: "heldIds ?t = heldIds s" by (auto simp: heldIds_def set_remove1_others)
  have want: "wantedIds env ?t = wantedIds env s" by (simp add: wantedIds_def)
  have sch: "k \<noteq> [] \<Longrightarrow> k \<in> scheduledIds ?t \<longleftrightarrow> k \<noteq> ident \<and> k \<in> scheduledIds s" for k
    using set(2) [of k ident] by (auto simp: scheduledIds_def)
  have "k \<in> scheduledIds ?t \<union> heldIds ?t" if "k \<in> wantedIds env ?t" for k
  proof -
    have "k \<noteq> []" using that by (simp add: wantedIds_def)
    then show ?thesis using that D(7) unwanted sch [of k] unfolding want held by blast
  qed
  moreover have "scheduledIds s \<noteq> {}" if e: "scheduledIds ?t \<noteq> {}"
  proof -
    obtain k where k: "k \<in> scheduledIds ?t" using e by blast
    show ?thesis
    proof (cases "k = []")
      case False
      then show ?thesis using sch k by blast
    next
      case True
      then have "scheduleOf (removeID ident (rl_queue (rs_loop s))) [] \<noteq> None" using k by (simp add: scheduledIds_def settleIn_def)
      moreover have "scheduleOf (removeID ident (rl_queue (rs_loop s))) [] = scheduleOf (rl_queue (rs_loop s)) []"
        using removeID_correct(2) [OF D(1), of ident] by (cases "ident = []") (auto simp: removeID_def)
      ultimately show ?thesis by (auto simp: scheduledIds_def)
    qed
  qed
  moreover have "NoticeRemove k \<in> set (rs_notices ?t) \<Longrightarrow> m_get (rs_auths ?t) k = None" for k
    using D(6) [of k] in_remove1_subset [of "NoticeRemove k" "NoticeRemove ident" "rs_notices s"] by auto
  moreover have "queueInv (rl_queue (rs_loop ?t))" using set(1) by simp
  moreover have "NoticeWake \<in> set (rs_notices ?t) \<longleftrightarrow> NoticeWake \<in> set (rs_notices s)" by (simp add: set_remove1_others)
  ultimately show ?thesis
    using D(2-5,8-10) inv unfolding refreshInv_def want held by auto
qed

lemma inv_loop_due:
  assumes inv: "refreshInv env lc s" and pc: "rs_pc s = LoopDue now" and d: "popDue now (rl_queue (rs_loop s)) = (q, ids)"
  shows "refreshInv env lc (s\<lparr>rs_loop := (rs_loop s)\<lparr>rl_queue := q\<rparr>, rs_pc := LoopHandle now ids\<rparr>)"
proof (rule inv_loop [OF inv])
  let ?t = "s\<lparr>rs_loop := (rs_loop s)\<lparr>rl_queue := q\<rparr>, rs_pc := LoopHandle now ids\<rparr>"
  note D = refreshInvD [OF inv]
  note due = rsched.due_inv [OF D(1), of now] rsched.due_set [OF D(1), of now] rsched.due_times [OF D(1), of now]
  show "queueInv (rl_queue (rs_loop ?t))" using due(1) d by simp
  show "k \<in> scheduledIds ?t \<union> heldIds ?t" if "k \<in> scheduledIds s \<union> heldIds s" for k
    using that due(2) due(3) [of k] d pc by (auto simp: scheduledIds_def heldIds_def)
qed (use refreshInvD(4) [OF inv] pc in auto)

lemma inv_loop_dirty:
  assumes inv: "refreshInv env lc s" and pc: "rs_pc s = LoopDirty now (ident # ids)"
    and nxt: "nxt = nextOf env now (lc_interval lc) (rs_auths s) ident"
  shows "refreshInv env lc (s\<lparr>rs_pc := LoopDirtySet now ident nxt ids\<rparr>)"
proof -
  have "0 < now" using refreshInvD(4) [OF inv] pc by simp
  then have "refreshInv env lc (s\<lparr>rs_clock := rs_clock s, rs_pc := LoopDirtySet now ident nxt ids\<rparr>)"
    using nextOf_pos [of now env "lc_interval lc" "rs_auths s" ident] nxt
    by (intro inv_loop_read [OF inv, where now = now and ident = ident and ids = ids]) (auto simp: pc split: if_splits)
  then show ?thesis by simp
qed

lemma inv_loop_handle:
  assumes inv: "refreshInv env lc s" and pc: "rs_pc s = LoopHandle now (ident # ids)" and untl: "rs_clock s \<le> untl"
    and pc': "pc' = (case decideDue env now untl (lc_interval lc) (rs_executors s) (rs_auths s) ident of
            DueGone \<Rightarrow> LoopHandle now ids
          | DueSettle nxt \<Rightarrow> LoopHandleSet now ident nxt ids
          | DueRefresh \<Rightarrow> LoopMark now ident ids)"
  shows "refreshInv env lc (s\<lparr>rs_clock := untl, rs_pc := pc'\<rparr>)"
proof -
  have now: "0 < now" "0 < lc_interval lc" using refreshInvD(2,4) [OF inv] pc by simp_all
  let ?n = "nextOf env now (lc_interval lc) (rs_auths s) ident"
  have "(pc' = LoopHandle now ids \<and> (ident = [] \<or> ?n = None)) \<or> (pc' = LoopHandleSet now ident None ids \<and> ?n = None)
      \<or> (\<exists>t. pc' = LoopHandleSet now ident (Some t) ids \<and> 0 < t) \<or> pc' = LoopMark now ident ids"
    using nextOf_pos [OF now(1), of env "lc_interval lc" "rs_auths s" ident] now
    by (auto simp: pc' decideDue_def nextOf_def split: option.split)
  then show ?thesis
  proof (elim disjE exE conjE)
    assume "pc' = LoopHandle now ids" and "ident = []"
    then show ?thesis
      by (intro inv_loop [OF inv]) (use refreshInvD(1,4) [OF inv] pc untl in \<open>auto simp: heldIds_def scheduledIds_def\<close>)
  qed (use pc untl now in \<open>auto intro!: inv_loop_read [OF inv, where now = now and ident = ident and ids = ids]\<close>)
qed

lemma inv_loop_mark_no:
  assumes inv: "refreshInv env lc s" and pc: "rs_pc s = LoopMark now ident ids"
  shows "refreshInv env lc (s\<lparr>rs_pc := LoopAgain now ident ids\<rparr>)"
  by (rule inv_loop [OF inv]) (use refreshInvD(1,4) [OF inv] pc in \<open>auto simp: heldIds_def scheduledIds_def\<close>)

lemma inv_loop_mark:
  assumes inv: "refreshInv env lc s" and pc: "rs_pc s = LoopMark now ident ids" and a: "m_get (rs_auths s) ident = Some (a, rt)"
  shows "refreshInv env lc (s\<lparr>rs_auths := m_put ident v (rs_auths s), rs_notices := NoticeMark ident # rs_notices s,
    rs_pc := LoopSend now ident ids\<rparr>)"
proof -
  have "NoticeRemove ident \<notin> set (rs_notices s)" using refreshInvD(6) [OF inv, of ident] a by auto
  from inv_store [OF inv this, of v] have st: "refreshInv env lc (s\<lparr>rs_auths := m_put ident v (rs_auths s), rs_notices := NoticeMark ident # rs_notices s\<rparr>)" .
  show ?thesis
    by (rule inv_loop [OF st]) (use refreshInvD(1,4) [OF st] pc in \<open>auto simp: heldIds_def scheduledIds_def\<close>)
qed

lemma inv_loop_again:
  assumes inv: "refreshInv env lc s" and pc: "rs_pc s = LoopAgain now ident ids"
    and nxt: "nxt = nextOf env now (lc_interval lc) (rs_auths s) ident"
  shows "refreshInv env lc (s\<lparr>rs_pc := LoopHandleSet now ident nxt ids\<rparr>)"
proof -
  have "0 < now" using refreshInvD(4) [OF inv] pc by simp
  then have "refreshInv env lc (s\<lparr>rs_clock := rs_clock s, rs_pc := LoopHandleSet now ident nxt ids\<rparr>)"
    using nextOf_pos [of now env "lc_interval lc" "rs_auths s" ident] nxt
    by (intro inv_loop_read [OF inv, where now = now and ident = ident and ids = ids]) (auto simp: pc split: if_splits)
  then show ?thesis by simp
qed

lemma inv_loop_send:
  assumes inv: "refreshInv env lc s" and pc: "rs_pc s = LoopSend now ident ids"
  shows "refreshInv env lc (s\<lparr>rs_loop := (rs_loop s)\<lparr>rl_jobs := rl_jobs (rs_loop s) @ [ident]\<rparr>, rs_pc := LoopHandle now ids\<rparr>)"
  by (rule inv_loop [OF inv]) (use refreshInvD(1,4) [OF inv] pc in \<open>auto simp: heldIds_def scheduledIds_def\<close>)

lemma inv_loop_reset:
  assumes inv: "refreshInv env lc s" and pc: "rs_pc s = LoopReset now"
  shows "refreshInv env lc (s\<lparr>rs_timer := timerDeadline (rs_clock s) now (rl_queue (rs_loop s)), rs_pc := LoopWait\<rparr>)" (is "refreshInv env lc ?t")
proof (rule inv_loop [OF inv])
  note D = refreshInvD [OF inv]
  show "rs_timer ?t \<noteq> None" if "scheduledIds ?t \<noteq> {}"
    using that peek_correct(1) [OF D(1)] by (cases "peek (rl_queue (rs_loop s))") (auto simp: timerDeadline_def scheduledIds_def Let_def)
qed (use refreshInvD(1,9) [OF inv] pc in \<open>auto simp: heldIds_def scheduledIds_def\<close>)

lemma refresh_step_inv:
  assumes s: "refresh_step True env lc s s'" and inv: "refreshInv env lc s"
  shows "refreshInv env lc s'"
  using s
proof cases
  case tick then show ?thesis using inv_tick [OF inv] by simp
next
  case executors then show ?thesis using inv_executors [OF inv] by simp
next
  case store then show ?thesis using inv_store [OF inv] by simp
next
  case delete then show ?thesis using inv_delete [OF inv] by simp
next
  case result then show ?thesis using inv_result [OF inv] by simp
next
  case mark then show ?thesis using inv_mark [OF inv] by simp
next
  case wake then show ?thesis using inv_wake [OF inv] by simp
next
  case unschedule then show ?thesis using inv_unschedule [OF inv] by simp
next
  case worker_start then show ?thesis using inv_worker_start [OF inv] by simp
next
  case worker_done then show ?thesis using inv_worker_done [OF inv] by simp
next
  case loop_wake then show ?thesis using inv_loop_wake [OF inv] by simp
next
  case loop_timer then show ?thesis using inv_loop_timer [OF inv] by simp
next
  case loop_drain then show ?thesis using inv_loop_drain [OF inv] by simp
next
  case loop_dirty_end then show ?thesis using inv_loop_dirty_end [OF inv] by simp
next
  case loop_dirty then show ?thesis using inv_loop_dirty [OF inv] by simp
next
  case loop_dirty_set
  then show ?thesis using inv_loop_write [OF inv, where pc = "LoopDirty _ _"] by simp
next
  case loop_due then show ?thesis using inv_loop_due [OF inv] by simp
next
  case loop_handle_end then show ?thesis using inv_loop_handle_end [OF inv] by simp
next
  case loop_handle then show ?thesis using inv_loop_handle [OF inv] by simp
next
  case loop_handle_set
  then show ?thesis using inv_loop_write [OF inv, where pc = "LoopHandle _ _"] by simp
next
  case loop_mark_no then show ?thesis using inv_loop_mark_no [OF inv] by simp
next
  case loop_mark then show ?thesis using inv_loop_mark [OF inv] by simp
next
  case loop_again then show ?thesis using inv_loop_again [OF inv] by simp
next
  case loop_send then show ?thesis using inv_loop_send [OF inv] by simp
next
  case loop_reset then show ?thesis using inv_loop_reset [OF inv] by simp
qed

lemma refresh_reachable_inv: "refresh_reachable True env lc s \<Longrightarrow> refreshInv env lc s"
proof (induction rule: refresh_reachable.induct)
  case started
  then show ?case by (rule startAutoRefresh_inv)
next
  case stepped
  then show ?case by (blast intro: refresh_step_inv)
qed


abbreviation sampleLoop :: "loopConfig \<times> refreshLoop" where
  "sampleLoop \<equiv> newAuthAutoRefreshLoop 0 0"

abbreviation sampleStart :: "Auth \<Rightarrow> refreshSys" where
  "sampleStart a \<equiv> startAutoRefresh sampleRefreshEnv (fst sampleLoop) (snd sampleLoop) sampleLate [(''a'', a, None)] [''codex'']"

lemma sampleStart_reachable: "refresh_reachable strict sampleRefreshEnv (fst sampleLoop) (sampleStart a)"
  by (rule started [of 0 0]) (simp_all add: unixEpoch_def)


section \<open>A recovery the loop is not told of\<close>

text \<open>A credential whose last error is a 401 has no next check, so the loop does not schedule it. A
  successful request clears the error and nothing else.\<close>

abbreviation sampleRejected :: Auth where
  "sampleRejected \<equiv> sampleExpiring\<lparr>a_LastError := Some \<lparr>e_Code = ''unauthorized'', e_Message = [], e_Retryable = False, e_HTTPStatus = 401\<rparr>\<rparr>"

abbreviation sampleSuccess :: Result where
  "sampleSuccess \<equiv> \<lparr>res_AuthID = ''a'', res_Provider = ''codex'', res_Model = [], res_Success = True, res_RetryAfter = None, res_Error = None\<rparr>"

abbreviation sampleIdle :: refreshSys where
  "sampleIdle \<equiv> (sampleStart sampleRejected)\<lparr>rs_timer := timerDeadline sampleLate sampleLate (rl_queue (rs_loop (sampleStart sampleRejected))),
     rs_pc := LoopWait\<rparr>"

abbreviation sampleForgotten :: refreshSys where
  "sampleForgotten \<equiv> sampleIdle\<lparr>rs_auths := m_put ''a'' (markOn (ce_cooling sampleCallEnv) sampleLate sampleSuccess sampleRejected, None) (rs_auths sampleIdle)\<rparr>"

lemma sampleForgotten_reachable: "refresh_reachable False sampleRefreshEnv (fst sampleLoop) sampleForgotten"
proof -
  have "refresh_step False sampleRefreshEnv (fst sampleLoop) (sampleStart sampleRejected) sampleIdle"
    using loop_reset [of "sampleStart sampleRejected" sampleLate False sampleRefreshEnv "fst sampleLoop"]
    by (simp add: startAutoRefresh_def)
  then have idle: "refresh_reachable False sampleRefreshEnv (fst sampleLoop) sampleIdle"
    using sampleStart_reachable stepped by blast
  have "m_get (rs_auths sampleIdle) (res_AuthID sampleSuccess) = Some (sampleRejected, None)" by (simp add: startAutoRefresh_def)
  from result [OF this refl, where strict = False and env = sampleRefreshEnv and lc = "fst sampleLoop" and cenv = "ce_cooling sampleCallEnv"]
  have "refresh_step False sampleRefreshEnv (fst sampleLoop) sampleIdle sampleForgotten" by (simp add: startAutoRefresh_def)
  then show ?thesis using idle stepped by blast
qed

text \<open>
  The exception is real: there is a history in which a credential should be refreshed and the loop
  sleeps with no timer, no wake-up, no mark, no job and no notice for it. A 401 took the credential
  out of the schedule, and the success that cleared the error told the loop nothing.
\<close>

theorem recovered_credential_forgotten:
  "\<exists>env lc s a. refresh_reachable False env lc s \<and> m_get (rs_auths s) ''a'' = Some (a, None)
     \<and> shouldRefresh env (rs_clock s) (rs_clock s) None a
     \<and> (\<forall>k. scheduleOf (rl_queue (rs_loop s)) k = None) \<and> rs_pc s = LoopWait \<and> rs_timer s = None
     \<and> \<not> rl_wake (rs_loop s) \<and> rl_dirty (rs_loop s) = [] \<and> rl_jobs (rs_loop s) = [] \<and> rs_notices s = [] \<and> rs_workers s = []"
proof (intro exI conjI)
  show "refresh_reachable False sampleRefreshEnv (fst sampleLoop) sampleForgotten" by (rule sampleForgotten_reachable)
  show "m_get (rs_auths sampleForgotten) ''a'' = Some (markOn (ce_cooling sampleCallEnv) sampleLate sampleSuccess sampleRejected, None)" by simp
  show "shouldRefresh sampleRefreshEnv (rs_clock sampleForgotten) (rs_clock sampleForgotten) None
      (markOn (ce_cooling sampleCallEnv) sampleLate sampleSuccess sampleRejected)" by code_simp
  have "hq_index (rl_queue (rs_loop sampleForgotten)) = []" by code_simp
  then show "\<forall>k. scheduleOf (rl_queue (rs_loop sampleForgotten)) k = None" by (simp only: scheduleOf_def) simp
qed code_simp+

end
