(* ===== verification/ModelAlias.thy ===== *)
theory ModelAlias
  imports CooldownState
begin

text \<open>
  Aliases of model names (\<open>backend/sdk/cliproxy/auth/oauth_model_alias.go\<close>, the sanitising of
  \<open>backend/internal/config/config_normalization.go\<close>): a client asks for an alias, the credential's
  channel or its own list of aliases names the upstream model, and a thinking suffix of the request is
  carried over. The same aliases are read in two forms, a list scanned in order and a table indexed by
  the lower-case alias; the lemmas compare the two.

  Parameters: the JSON form of a list of aliases in an attribute (\<open>decode\<close> and \<open>encode\<close>, \<open>None\<close> being an
  error).
\<close>

section \<open>Data\<close>

record OAuthModelAlias =
  oa_Name :: string
  oa_Alias :: string
  oa_Fork :: bool
  oa_DisplayName :: string
  oa_ForceMapping :: bool

record oauthModelAliasEntry =
  ae_upstreamModel :: string
  ae_configAlias :: string
  ae_forceMapping :: bool

type_synonym oauthModelAliasTable = "(string, (string, oauthModelAliasEntry) gomap) gomap"

record OAuthModelAliasResult =
  ar_UpstreamModel :: string
  ar_ForceMapping :: bool
  ar_OriginalAlias :: string

abbreviation noAlias :: OAuthModelAliasResult where
  "noAlias \<equiv> \<lparr>ar_UpstreamModel = [], ar_ForceMapping = False, ar_OriginalAlias = []\<rparr>"

abbreviation plainModel :: "string \<Rightarrow> OAuthModelAliasResult" where
  "plainModel model \<equiv> \<lparr>ar_UpstreamModel = model, ar_ForceMapping = False, ar_OriginalAlias = []\<rparr>"

section \<open>Sanitising and compiling\<close>

text \<open>One channel: entries without a name or an alias, entries that alias a name to itself and repeated
  aliases are dropped.\<close>

definition aliasEntryUsable :: "OAuthModelAlias \<Rightarrow> bool" where
  "aliasEntryUsable entry \<longleftrightarrow>
     (let name = trim_space (oa_Name entry); alias = trim_space (oa_Alias entry)
      in name \<noteq> [] \<and> alias \<noteq> [] \<and> \<not> equal_fold name alias)"

definition sanitizeEntry :: "OAuthModelAlias \<Rightarrow> OAuthModelAlias" where
  "sanitizeEntry entry = \<lparr>oa_Name = trim_space (oa_Name entry), oa_Alias = trim_space (oa_Alias entry),
     oa_Fork = oa_Fork entry, oa_DisplayName = trim_space (oa_DisplayName entry),
     oa_ForceMapping = oa_ForceMapping entry\<rparr>"

definition sanitizeStep :: "string list \<times> OAuthModelAlias list \<Rightarrow> OAuthModelAlias \<Rightarrow> string list \<times> OAuthModelAlias list" where
  "sanitizeStep acc entry =
     (let (seenAlias, clean) = acc; aliasKey = to_lower (trim_space (oa_Alias entry))
      in if \<not> aliasEntryUsable entry \<or> aliasKey \<in> set seenAlias then acc
         else (aliasKey # seenAlias, clean @ [sanitizeEntry entry]))"

definition sanitizeChannel :: "OAuthModelAlias list \<Rightarrow> OAuthModelAlias list" where
  "sanitizeChannel aliases = snd (foldl sanitizeStep ([], []) aliases)"

definition SanitizeOAuthModelAlias :: "(string, OAuthModelAlias list) gomap \<Rightarrow> (string, OAuthModelAlias list) gomap" where
  "SanitizeOAuthModelAlias config =
     foldl (\<lambda>out (rawChannel, aliases).
         let channel = to_lower (trim_space rawChannel); clean = sanitizeChannel aliases
         in if channel = [] \<or> aliases = [] \<or> clean = [] then out else m_put channel clean out) [] config"

definition compileStep :: "(string, oauthModelAliasEntry) gomap \<Rightarrow> OAuthModelAlias \<Rightarrow> (string, oauthModelAliasEntry) gomap" where
  "compileStep byAlias entry =
     (let aliasKey = to_lower (trim_space (oa_Alias entry))
      in if \<not> aliasEntryUsable entry \<or> m_get byAlias aliasKey \<noteq> None then byAlias
         else m_put aliasKey \<lparr>ae_upstreamModel = trim_space (oa_Name entry), ae_configAlias = trim_space (oa_Alias entry),
           ae_forceMapping = oa_ForceMapping entry\<rparr> byAlias)"

definition compileChannel :: "OAuthModelAlias list \<Rightarrow> (string, oauthModelAliasEntry) gomap" where
  "compileChannel entries = foldl compileStep [] entries"

definition compileOAuthModelAliasTable :: "(string, OAuthModelAlias list) gomap \<Rightarrow> oauthModelAliasTable" where
  "compileOAuthModelAliasTable aliases =
     foldl (\<lambda>out (rawChannel, entries).
         let channel = to_lower (trim_space rawChannel); byAlias = compileChannel entries
         in if channel = [] \<or> entries = [] \<or> byAlias = [] then out else m_put channel byAlias out) [] aliases"

section \<open>Suffixes of a request\<close>

definition modelAliasLookupCandidates :: "string \<Rightarrow> SuffixResult \<times> string list" where
  "modelAliasLookupCandidates requestedModel =
     (let requestedModel = trim_space requestedModel
      in if requestedModel = [] then (\<lparr>sr_ModelName = [], sr_HasSuffix = False, sr_RawSuffix = []\<rparr>, [])
         else let requestResult = ParseSuffix requestedModel;
                  base = (if sr_ModelName requestResult = [] then requestedModel else sr_ModelName requestResult)
           in (requestResult, if base \<noteq> requestedModel then [base, requestedModel] else [base]))"

definition preserveResolvedModelSuffix :: "string \<Rightarrow> SuffixResult \<Rightarrow> string" where
  "preserveResolvedModelSuffix resolved requestResult =
     (let resolved = trim_space resolved
      in if resolved = [] then []
         else if sr_HasSuffix (ParseSuffix resolved) then resolved
         else if sr_HasSuffix requestResult \<and> sr_RawSuffix requestResult \<noteq> []
         then resolved @ ''('' @ sr_RawSuffix requestResult @ '')''
         else resolved)"

definition oauthModelAliasForceMappingResponseModel :: "string \<Rightarrow> string" where
  "oauthModelAliasForceMappingResponseModel configAlias = trim_space configAlias"

section \<open>Resolving in a list\<close>

text \<open>The entry a scan stops at: the first with a name whose alias is one of the candidates. The result
  does not depend on which candidate matched.\<close>

definition aliasMatches :: "string list \<Rightarrow> string \<Rightarrow> string \<Rightarrow> bool" where
  "aliasMatches candidates original alias \<longleftrightarrow> original \<noteq> [] \<and> alias \<noteq> []
     \<and> list_ex (\<lambda>candidate. let key = trim_space candidate in key \<noteq> [] \<and> equal_fold alias key) candidates"

definition aliasHit :: "string \<Rightarrow> string \<Rightarrow> SuffixResult \<Rightarrow> string \<Rightarrow> string \<Rightarrow> bool \<Rightarrow> OAuthModelAliasResult" where
  "aliasHit requestedModel baseModel requestResult original alias force =
     (if equal_fold original baseModel
      then (if \<not> force then noAlias
            else \<lparr>ar_UpstreamModel = preserveResolvedModelSuffix original requestResult, ar_ForceMapping = force,
              ar_OriginalAlias = oauthModelAliasForceMappingResponseModel alias\<rparr>)
      else \<lparr>ar_UpstreamModel = preserveResolvedModelSuffix original requestResult, ar_ForceMapping = force,
        ar_OriginalAlias = (if force then oauthModelAliasForceMappingResponseModel alias else requestedModel)\<rparr>)"

definition resolveUpstreamModelFromAliases :: "OAuthModelAlias list \<Rightarrow> string \<Rightarrow> OAuthModelAliasResult" where
  "resolveUpstreamModelFromAliases aliases requestedModel =
     (if aliases = [] then noAlias
      else case modelAliasLookupCandidates requestedModel of
        (requestResult, candidates) \<Rightarrow>
          if candidates = [] then noAlias
          else let baseModel = (if sr_ModelName requestResult = [] then trim_space requestedModel else sr_ModelName requestResult)
            in (case find (\<lambda>entry. aliasMatches candidates (trim_space (oa_Name entry)) (trim_space (oa_Alias entry))) aliases of
                  None \<Rightarrow> noAlias
                | Some entry \<Rightarrow> aliasHit requestedModel baseModel requestResult (trim_space (oa_Name entry))
                    (trim_space (oa_Alias entry)) (oa_ForceMapping entry)))"

definition resolveModelAliasResultFromConfigModels :: "string \<Rightarrow> ConfigModel list \<Rightarrow> OAuthModelAliasResult" where
  "resolveModelAliasResultFromConfigModels requestedModel models =
     (let requestedModel = trim_space requestedModel
      in if requestedModel = [] \<or> models = [] then noAlias
         else case modelAliasLookupCandidates requestedModel of
           (requestResult, candidates) \<Rightarrow>
             if candidates = [] then noAlias
             else let baseModel = (if sr_ModelName requestResult = [] then requestedModel else sr_ModelName requestResult)
               in (case find (\<lambda>m. aliasMatches candidates (trim_space (cm_Name m)) (trim_space (cm_Alias m))) models of
                     None \<Rightarrow> noAlias
                   | Some m \<Rightarrow> aliasHit requestedModel baseModel requestResult (trim_space (cm_Name m))
                       (trim_space (cm_Alias m)) (cm_ForceMapping m)))"

text \<open>The pool of upstream models behind an alias: every entry with that alias, without repetitions, or
  else the one entry of that name.\<close>

definition poolStep :: "SuffixResult \<Rightarrow> string list \<Rightarrow> string list \<times> string list \<Rightarrow> ConfigModel \<Rightarrow> string list \<times> string list" where
  "poolStep requestResult candidates acc m =
     (let (seen, out) = acc; name = trim_space (cm_Name m); alias = trim_space (cm_Alias m)
      in case find (\<lambda>candidate. candidate \<noteq> [] \<and> alias \<noteq> [] \<and> equal_fold alias candidate) candidates of
           None \<Rightarrow> acc
         | Some candidate \<Rightarrow>
             (let resolved = preserveResolvedModelSuffix (if name \<noteq> [] then name else candidate) requestResult;
                  key = to_lower (trim_space resolved)
              in if key = [] \<or> key \<in> set seen then acc else (key # seen, out @ [resolved])))"

definition resolveModelAliasPoolFromConfigModels :: "string \<Rightarrow> ConfigModel list \<Rightarrow> string list" where
  "resolveModelAliasPoolFromConfigModels requestedModel models =
     (let requestedModel = trim_space requestedModel
      in if requestedModel = [] \<or> models = [] then []
         else case modelAliasLookupCandidates requestedModel of
           (requestResult, candidates) \<Rightarrow>
             if candidates = [] then []
             else let out = snd (foldl (poolStep requestResult candidates) ([], []) models)
               in if out \<noteq> [] then out
                  else (case find (\<lambda>m. let name = trim_space (cm_Name m)
                              in list_ex (\<lambda>candidate. candidate \<noteq> [] \<and> name \<noteq> [] \<and> equal_fold name candidate) candidates) models of
                          None \<Rightarrow> []
                        | Some m \<Rightarrow> [preserveResolvedModelSuffix (trim_space (cm_Name m)) requestResult]))"

definition resolveModelAliasFromConfigModels :: "string \<Rightarrow> ConfigModel list \<Rightarrow> string" where
  "resolveModelAliasFromConfigModels requestedModel models =
     (case resolveModelAliasPoolFromConfigModels requestedModel models of [] \<Rightarrow> [] | resolved # _ \<Rightarrow> resolved)"

section \<open>Resolving in the table\<close>

definition tableHit :: "string \<Rightarrow> string \<Rightarrow> SuffixResult \<Rightarrow> oauthModelAliasEntry \<Rightarrow> OAuthModelAliasResult" where
  "tableHit requestedModel baseModel requestResult entry =
     (let targetModel = ae_upstreamModel entry
      in if equal_fold targetModel baseModel
         then (if \<not> ae_forceMapping entry then noAlias
               else \<lparr>ar_UpstreamModel = preserveResolvedModelSuffix targetModel requestResult,
                 ar_ForceMapping = ae_forceMapping entry,
                 ar_OriginalAlias = oauthModelAliasForceMappingResponseModel (ae_configAlias entry)\<rparr>)
         else \<lparr>ar_UpstreamModel =
             (if sr_HasSuffix (ParseSuffix targetModel) then targetModel
              else if sr_HasSuffix requestResult \<and> sr_RawSuffix requestResult \<noteq> []
              then targetModel @ ''('' @ sr_RawSuffix requestResult @ '')''
              else targetModel),
           ar_ForceMapping = ae_forceMapping entry,
           ar_OriginalAlias = (if ae_forceMapping entry
             then oauthModelAliasForceMappingResponseModel (ae_configAlias entry) else requestedModel)\<rparr>)"

definition tableLookup :: "(string, oauthModelAliasEntry) gomap \<Rightarrow> string \<Rightarrow> oauthModelAliasEntry option" where
  "tableLookup byAlias candidate =
     (let key = to_lower (trim_space candidate)
      in if key = [] then None
         else case m_get byAlias key of
           None \<Rightarrow> None | Some entry \<Rightarrow> if ae_upstreamModel entry = [] then None else Some entry)"

definition resolveUpstreamModelFromAliasTable :: "oauthModelAliasTable \<Rightarrow> string \<Rightarrow> string \<Rightarrow> OAuthModelAliasResult" where
  "resolveUpstreamModelFromAliasTable table requestedModel channel =
     (if channel = [] then noAlias
      else let requestResult = ParseSuffix requestedModel;
               baseModel = sr_ModelName requestResult;
               candidates = (if baseModel \<noteq> requestedModel then [baseModel, requestedModel] else [baseModel])
        in case m_get table channel of
             None \<Rightarrow> noAlias
           | Some byAlias \<Rightarrow>
               (case List.map_filter (tableLookup byAlias) candidates of
                  [] \<Rightarrow> noAlias
                | entry # _ \<Rightarrow> tableHit requestedModel baseModel requestResult entry))"

section \<open>Resolving for a credential\<close>

definition normalizeOAuthModelAliasAuthKind :: "string \<Rightarrow> string" where
  "normalizeOAuthModelAliasAuthKind authKind =
     (let authKind = to_lower (trim_space authKind)
      in if authKind = ''api_key'' \<or> authKind = ''api-key'' then ''apikey'' else authKind)"

definition OAuthModelAliasChannel :: "string \<Rightarrow> string \<Rightarrow> string" where
  "OAuthModelAliasChannel provider authKind =
     (let provider = to_lower (trim_space provider)
      in if normalizeOAuthModelAliasAuthKind authKind = ''apikey'' then []
         else if provider = ''gemini'' then [] else provider)"

definition modelAliasChannel :: "Auth \<Rightarrow> string" where
  "modelAliasChannel auth = OAuthModelAliasChannel (to_lower (trim_space (a_Provider auth))) (AuthKind auth)"

definition sanitizeOAuthModelAliases :: "OAuthModelAlias list \<Rightarrow> OAuthModelAlias list" where
  "sanitizeOAuthModelAliases aliases = m_get0 [] (SanitizeOAuthModelAlias [(''auth'', aliases)]) ''auth''"

definition OAuthModelAliasesFromAttributes :: "(string \<Rightarrow> OAuthModelAlias list option) \<Rightarrow> (string, string) gomap \<Rightarrow> OAuthModelAlias list" where
  "OAuthModelAliasesFromAttributes decode attributes =
     (let raw = trim_space (m_get0 [] attributes ''model_aliases'')
      in if raw = [] then []
         else case decode raw of None \<Rightarrow> [] | Some aliases \<Rightarrow> sanitizeOAuthModelAliases aliases)"

definition SetOAuthModelAliasesAttribute :: "(OAuthModelAlias list \<Rightarrow> string option) \<Rightarrow> OAuthModelAlias list \<Rightarrow> Auth \<Rightarrow> Auth" where
  "SetOAuthModelAliasesAttribute encode aliases auth =
     (let aliases = sanitizeOAuthModelAliases aliases
      in if aliases = [] then auth
         else case encode aliases of
           None \<Rightarrow> auth
         | Some data \<Rightarrow> auth\<lparr>a_Attributes := m_put ''model_aliases'' data (a_Attributes auth)\<rparr>)"

text \<open>What resolving reads: the decoder of the attribute and the table of the manager.\<close>

record AliasEnv =
  al_decode :: "string \<Rightarrow> OAuthModelAlias list option"
  al_table :: oauthModelAliasTable

definition resolveOAuthModelAliasWithResult :: "AliasEnv \<Rightarrow> Auth \<Rightarrow> string \<Rightarrow> OAuthModelAliasResult" where
  "resolveOAuthModelAliasWithResult env auth requestedModel =
     (let channel = modelAliasChannel auth
      in if channel = [] then noAlias
         else let result = resolveUpstreamModelFromAliases
               (OAuthModelAliasesFromAttributes (al_decode env) (a_Attributes auth)) requestedModel
           in if ar_UpstreamModel result \<noteq> [] then result
              else resolveUpstreamModelFromAliasTable (al_table env) requestedModel channel)"

definition resolveOAuthUpstreamModel :: "AliasEnv \<Rightarrow> Auth \<Rightarrow> string \<Rightarrow> string" where
  "resolveOAuthUpstreamModel env auth requestedModel = ar_UpstreamModel (resolveOAuthModelAliasWithResult env auth requestedModel)"

definition applyOAuthModelAlias :: "AliasEnv \<Rightarrow> Auth \<Rightarrow> string \<Rightarrow> string" where
  "applyOAuthModelAlias env auth requestedModel =
     (let upstreamModel = resolveOAuthUpstreamModel env auth requestedModel
      in if upstreamModel = [] then requestedModel else upstreamModel)"

definition applyOAuthModelAliasWithResult :: "AliasEnv \<Rightarrow> Auth \<Rightarrow> string \<Rightarrow> OAuthModelAliasResult" where
  "applyOAuthModelAliasWithResult env auth requestedModel =
     (let result = resolveOAuthModelAliasWithResult env auth requestedModel
      in if ar_UpstreamModel result = [] then plainModel requestedModel else result)"

section \<open>Suffixes and case\<close>

lemma lower_char_eq: "d < CHR ''A'' \<Longrightarrow> lower_char c = d \<longleftrightarrow> c = d"
proof (cases "CHR ''A'' \<le> c \<and> c \<le> CHR ''Z''")
  case True
  assume d: "d < CHR ''A''"
  from True have b: "65 \<le> (of_char c :: nat) \<and> (of_char c :: nat) \<le> 90"
    by (auto simp: less_eq_char_def)
  then have "(of_char (lower_char c) :: nat) = of_char c + 32"
    using True by (simp add: lower_char_def)
  with b d True show ?thesis by (auto simp: less_char_def less_eq_char_def)
next
  case False
  then show ?thesis by (auto simp: lower_char_def)
qed

lemma last_index_to_lower: "last_index (to_lower s) CHR ''('' = last_index s CHR ''(''"
proof -
  have "lower_char c = CHR ''('' \<longleftrightarrow> c = CHR ''(''" for c by (rule lower_char_eq) (simp add: less_char_def)
  then show ?thesis by (induction s) (auto simp: to_lower_def split: option.splits)
qed

lemma suffix_to_lower: "has_suffix (to_lower s) '')'' \<longleftrightarrow> has_suffix s '')''"
proof (cases s rule: rev_cases)
  case (snoc xs x)
  have "lower_char x = CHR '')'' \<longleftrightarrow> x = CHR '')''" by (rule lower_char_eq) (simp add: less_char_def)
  then show ?thesis by (auto simp: snoc to_lower_def)
qed simp

lemma ParseSuffix_to_lower [simp]: "sr_HasSuffix (ParseSuffix (to_lower s)) = sr_HasSuffix (ParseSuffix s)"
  by (simp add: ParseSuffix_def last_index_to_lower suffix_to_lower split: option.split)

lemma ParseSuffix_fold: "equal_fold a b \<Longrightarrow> sr_HasSuffix (ParseSuffix a) = sr_HasSuffix (ParseSuffix b)"
  unfolding equal_fold_def by (metis ParseSuffix_to_lower)

lemma ParseSuffix_plain: "\<not> sr_HasSuffix (ParseSuffix m) \<Longrightarrow> sr_ModelName (ParseSuffix m) = m"
  by (auto simp: ParseSuffix_def split: option.splits if_splits)

section \<open>The two forms of a list of aliases\<close>

definition aliasKeyOf :: "OAuthModelAlias \<Rightarrow> string" where
  "aliasKeyOf entry = to_lower (trim_space (oa_Alias entry))"

definition compiledEntry :: "OAuthModelAlias \<Rightarrow> oauthModelAliasEntry" where
  "compiledEntry entry = \<lparr>ae_upstreamModel = trim_space (oa_Name entry), ae_configAlias = trim_space (oa_Alias entry),
     ae_forceMapping = oa_ForceMapping entry\<rparr>"

definition firstUsable :: "string \<Rightarrow> OAuthModelAlias list \<Rightarrow> OAuthModelAlias option" where
  "firstUsable k es = find (\<lambda>e. aliasEntryUsable e \<and> aliasKeyOf e = k) es"

lemma compile_get:
  "m_get (foldl compileStep byAlias es) k = (case m_get byAlias k of Some x \<Rightarrow> Some x | None \<Rightarrow> map_option compiledEntry (firstUsable k es))"
  by (induction es arbitrary: byAlias)
    (auto simp: compileStep_def firstUsable_def aliasKeyOf_def compiledEntry_def Let_def split: option.splits)

lemma compileChannel_get: "m_get (compileChannel es) k = map_option compiledEntry (firstUsable k es)"
  by (simp add: compileChannel_def compile_get)

lemma sanitizeEntry_key [simp]: "aliasKeyOf (sanitizeEntry e) = aliasKeyOf e"
  by (simp add: aliasKeyOf_def sanitizeEntry_def)

lemma find_append: "find P (xs @ ys) = (case find P xs of Some x \<Rightarrow> Some x | None \<Rightarrow> find P ys)"
  by (induction xs) auto

lemma sanitize_find:
  assumes "set seen = aliasKeyOf ` set clean"
  shows "find (\<lambda>e. aliasKeyOf e = k) (snd (foldl sanitizeStep (seen, clean) es)) =
    (case find (\<lambda>e. aliasKeyOf e = k) clean of Some x \<Rightarrow> Some x | None \<Rightarrow> map_option sanitizeEntry (firstUsable k es))"
  using assms
proof (induction es arbitrary: seen clean)
  case Nil
  then show ?case by (auto simp: firstUsable_def split: option.split)
next
  case (Cons e es)
  show ?case
  proof (cases "\<not> aliasEntryUsable e \<or> aliasKeyOf e \<in> set seen")
    case True
    then have step: "sanitizeStep (seen, clean) e = (seen, clean)"
      by (simp add: sanitizeStep_def aliasKeyOf_def)
    have "firstUsable k (e # es) = firstUsable k es" if "find (\<lambda>e. aliasKeyOf e = k) clean = None"
      using True that Cons.prems by (auto simp: firstUsable_def find_None_iff)
    then show ?thesis using Cons.IH [OF Cons.prems] by (auto simp: step split: option.splits)
  next
    case False
    then have step: "sanitizeStep (seen, clean) e = (aliasKeyOf e # seen, clean @ [sanitizeEntry e])"
      by (simp add: sanitizeStep_def aliasKeyOf_def)
    have "set (aliasKeyOf e # seen) = aliasKeyOf ` set (clean @ [sanitizeEntry e])" using Cons.prems by auto
    from Cons.IH [OF this] show ?thesis using False
      by (auto simp: step find_append firstUsable_def split: option.splits)
  qed
qed

lemma sanitizeChannel_find: "find (\<lambda>e. aliasKeyOf e = k) (sanitizeChannel es) = map_option sanitizeEntry (firstUsable k es)"
  using sanitize_find [of "[]" "[]"] by (simp add: sanitizeChannel_def)

lemma usable_sanitizeEntry: "aliasEntryUsable e \<Longrightarrow> aliasEntryUsable (sanitizeEntry e)"
  by (simp add: aliasEntryUsable_def sanitizeEntry_def Let_def)

lemma sanitizeChannel_set: "e \<in> set (sanitizeChannel es) \<Longrightarrow> \<exists>d\<in>set es. e = sanitizeEntry d \<and> aliasEntryUsable d"
proof -
  have "e \<in> set (snd (foldl sanitizeStep (seen, clean) es)) \<Longrightarrow>
      e \<in> set clean \<or> (\<exists>d\<in>set es. e = sanitizeEntry d \<and> aliasEntryUsable d)" for seen clean
  proof (induction es arbitrary: seen clean)
    case (Cons a as)
    obtain seen' clean' where st: "sanitizeStep (seen, clean) a = (seen', clean')" by (rule prod.exhaust)
    have "set clean' \<subseteq> insert (sanitizeEntry a) (set clean)" "sanitizeEntry a \<in> set clean' \<Longrightarrow> \<not> aliasEntryUsable a \<Longrightarrow> sanitizeEntry a \<in> set clean"
      using st by (auto simp: sanitizeStep_def Let_def split: if_splits)
    then show ?case using Cons.IH [of seen' clean'] Cons.prems st by auto
  qed simp
  from this [of "[]" "[]"] show "e \<in> set (sanitizeChannel es) \<Longrightarrow> \<exists>d\<in>set es. e = sanitizeEntry d \<and> aliasEntryUsable d"
    by (simp add: sanitizeChannel_def)
qed

lemma trim_to_lower_Nil [simp]: "to_lower s = [] \<longleftrightarrow> s = []"
  by (simp add: to_lower_def)

lemma firstUsable_usable: "firstUsable k es = Some e \<Longrightarrow> aliasEntryUsable e \<and> aliasKeyOf e = k \<and> e \<in> set es"
  unfolding firstUsable_def by (auto dest: find_Some_filter)

text \<open>A scan of the sanitised list that looks for one key.\<close>

lemma scan_one:
  assumes "k \<noteq> []" and "\<And>e. e \<in> set (sanitizeChannel es) \<Longrightarrow>
      aliasMatches candidates (trim_space (oa_Name e)) (trim_space (oa_Alias e)) \<longleftrightarrow> aliasKeyOf e = k"
  shows "find (\<lambda>e. aliasMatches candidates (trim_space (oa_Name e)) (trim_space (oa_Alias e))) (sanitizeChannel es)
    = map_option sanitizeEntry (firstUsable k es)"
proof -
  have "find (\<lambda>e. aliasMatches candidates (trim_space (oa_Name e)) (trim_space (oa_Alias e))) (sanitizeChannel es)
    = find (\<lambda>e. aliasKeyOf e = k) (sanitizeChannel es)"
    using assms(2) by (intro find_cong) auto
  then show ?thesis by (simp add: sanitizeChannel_find)
qed

lemma sanitizedAlias:
  assumes "e \<in> set (sanitizeChannel es)"
  shows "oa_Name e \<noteq> []" "oa_Alias e \<noteq> []" "trim_space (oa_Name e) = oa_Name e" "trim_space (oa_Alias e) = oa_Alias e"
  using sanitizeChannel_set [OF assms] by (auto simp: sanitizeEntry_def aliasEntryUsable_def Let_def)

lemma tableHit_eq:
  assumes "aliasEntryUsable d"
  shows "tableHit m b r (compiledEntry d) = aliasHit m b r (trim_space (oa_Name (sanitizeEntry d)))
      (trim_space (oa_Alias (sanitizeEntry d))) (oa_ForceMapping (sanitizeEntry d))"
  using assms
  by (simp add: tableHit_def aliasHit_def compiledEntry_def sanitizeEntry_def aliasEntryUsable_def Let_def
      preserveResolvedModelSuffix_def oauthModelAliasForceMappingResponseModel_def)

lemma tableLookup_compiled: "tableLookup (compileChannel es) c =
    (let k = to_lower (trim_space c) in if k = [] then None else map_option compiledEntry (firstUsable k es))"
  by (auto simp: tableLookup_def Let_def compileChannel_get compiledEntry_def aliasEntryUsable_def dest!: firstUsable_usable
      split: option.split)

text \<open>No alias of the list carries a suffix of its own.\<close>

definition plainAliases :: "OAuthModelAlias list \<Rightarrow> bool" where
  "plainAliases es \<longleftrightarrow> list_all (\<lambda>e. \<not> sr_HasSuffix (ParseSuffix (trim_space (oa_Alias e)))) es"

lemma plain_no_match:
  assumes "plainAliases es" and "sr_HasSuffix (ParseSuffix m)"
  shows "firstUsable (to_lower m) es = None"
proof (cases "firstUsable (to_lower m) es")
  case (Some e)
  from firstUsable_usable [OF this] assms(1) have "to_lower (trim_space (oa_Alias e)) = to_lower m"
      "\<not> sr_HasSuffix (ParseSuffix (trim_space (oa_Alias e)))"
    by (auto simp: aliasKeyOf_def plainAliases_def list_all_iff)
  then have False using assms(2) ParseSuffix_fold [of "trim_space (oa_Alias e)" m] by (simp add: equal_fold_def)
  then show ?thesis ..
qed simp

lemma matches_key:
  assumes "e \<in> set (sanitizeChannel es)"
  shows "aliasMatches cs (trim_space (oa_Name e)) (trim_space (oa_Alias e)) \<longleftrightarrow>
    list_ex (\<lambda>c. to_lower (trim_space c) = aliasKeyOf e) cs"
  using sanitizedAlias [OF assms] trim_to_lower_Nil [of "oa_Alias e"]
  unfolding aliasMatches_def list_ex_iff equal_fold_def aliasKeyOf_def Let_def by (metis trim_to_lower_Nil)

lemma scan_key:
  assumes "k \<noteq> []" and "\<And>e. e \<in> set (sanitizeChannel es) \<Longrightarrow>
      list_ex (\<lambda>c. to_lower (trim_space c) = aliasKeyOf e) cs \<longleftrightarrow> aliasKeyOf e = k"
  shows "find (\<lambda>e. aliasMatches cs (trim_space (oa_Name e)) (trim_space (oa_Alias e))) (sanitizeChannel es)
    = map_option sanitizeEntry (firstUsable k es)"
  using assms matches_key by (intro scan_one) auto

lemma sanitized_plain:
  assumes "plainAliases es" and "e \<in> set (sanitizeChannel es)" and "sr_HasSuffix (ParseSuffix m)"
  shows "aliasKeyOf e \<noteq> to_lower m"
proof
  assume k: "aliasKeyOf e = to_lower m"
  from sanitizeChannel_set [OF assms(2)] obtain d where d: "d \<in> set es" "e = sanitizeEntry d" by blast
  then have "\<not> sr_HasSuffix (ParseSuffix (trim_space (oa_Alias d)))" using assms(1) by (auto simp: plainAliases_def list_all_iff)
  moreover have "to_lower (trim_space (oa_Alias d)) = to_lower m" using k d by (simp add: aliasKeyOf_def sanitizeEntry_def)
  ultimately show False using assms(3) ParseSuffix_fold [of "trim_space (oa_Alias d)" m] by (simp add: equal_fold_def)
qed

lemma sanitize_Nil: "sanitizeChannel es = [] \<longleftrightarrow> compileChannel es = []"
proof -
  have "sanitizeChannel es = [] \<longleftrightarrow> (\<forall>k. find (\<lambda>e. aliasKeyOf e = k) (sanitizeChannel es) = None)"
    by (cases "sanitizeChannel es") auto
  also have "\<dots> \<longleftrightarrow> (\<forall>k. m_get (compileChannel es) k = None)"
    by (simp add: sanitizeChannel_find compileChannel_get)
  also have "\<dots> \<longleftrightarrow> compileChannel es = []" by (cases "compileChannel es") auto
  finally show ?thesis .
qed

text \<open>The two resolvers, with the scan replaced by the lookup of a key.\<close>

lemma resolve_list_key:
  assumes "trim_space m = m" "m \<noteq> []" "plainAliases es"
  shows "resolveUpstreamModelFromAliases (sanitizeChannel es) m =
    (let b = (if sr_ModelName (ParseSuffix m) = [] then m else sr_ModelName (ParseSuffix m)); k = to_lower (trim_space b)
     in case (if k = [] then None else firstUsable k es) of None \<Rightarrow> noAlias
        | Some d \<Rightarrow> aliasHit m b (ParseSuffix m) (trim_space (oa_Name d)) (trim_space (oa_Alias d)) (oa_ForceMapping d))"
proof -
  define b where "b = (if sr_ModelName (ParseSuffix m) = [] then m else sr_ModelName (ParseSuffix m))"
  define k where "k = to_lower (trim_space b)"
  define cs where "cs = (if b \<noteq> m then [b, m] else [b])"
  have cand: "modelAliasLookupCandidates m = (ParseSuffix m, cs)"
    using assms(1,2) by (simp add: modelAliasLookupCandidates_def Let_def b_def cs_def)
  have "sr_HasSuffix (ParseSuffix m)" if "b \<noteq> m" using that ParseSuffix_plain [of m] assms(2) by (auto simp: b_def split: if_splits)
  then have keys: "list_ex (\<lambda>c. to_lower (trim_space c) = aliasKeyOf e) cs \<longleftrightarrow> aliasKeyOf e = k" if "e \<in> set (sanitizeChannel es)" for e
    using sanitized_plain [OF assms(3) that, of m] assms(1) by (auto simp: cs_def k_def)
  have "find (\<lambda>e. aliasMatches cs (trim_space (oa_Name e)) (trim_space (oa_Alias e))) (sanitizeChannel es)
    = map_option sanitizeEntry (if k = [] then None else firstUsable k es)"
  proof (cases "k = []")
    case True
    have "aliasKeyOf e \<noteq> []" if "e \<in> set (sanitizeChannel es)" for e
      using sanitizedAlias [OF that] by (simp add: aliasKeyOf_def)
    with keys True matches_key show ?thesis by (auto simp: find_None_iff)
  next
    case False
    with scan_key [OF False keys] show ?thesis by simp
  qed
  moreover have "(if k = [] then None else firstUsable k es) = None" if "sanitizeChannel es = []"
    using that sanitizeChannel_find [of k es] by simp
  ultimately show ?thesis
    unfolding Let_def b_def [symmetric] k_def [symmetric]
    using assms(1,2) cand
    by (auto simp: resolveUpstreamModelFromAliases_def cs_def sanitizeEntry_def b_def Let_def split: option.split)
qed

lemma resolve_table_key:
  assumes "trim_space m = m" "m \<noteq> []" "plainAliases es" "channel \<noteq> []" "m_get table channel = Some (compileChannel es)"
  shows "resolveUpstreamModelFromAliasTable table m channel =
    (let b = (if sr_ModelName (ParseSuffix m) = [] then m else sr_ModelName (ParseSuffix m)); k = to_lower (trim_space b)
     in case (if k = [] then None else firstUsable k es) of None \<Rightarrow> noAlias
        | Some d \<Rightarrow> aliasHit m b (ParseSuffix m) (trim_space (oa_Name d)) (trim_space (oa_Alias d)) (oa_ForceMapping d))"
proof -
  let ?n = "sr_ModelName (ParseSuffix m)"
  have none: "tableLookup (compileChannel es) m = None" if "?n \<noteq> m"
    using plain_no_match [OF assms(3), of m] ParseSuffix_plain [of m] that assms(1) by (auto simp: tableLookup_compiled Let_def)
  have empty: "tableLookup (compileChannel es) [] = None" by (simp add: tableLookup_def)
  have hit: "tableHit m ?n (ParseSuffix m) (compiledEntry d) =
      aliasHit m ?n (ParseSuffix m) (trim_space (oa_Name d)) (trim_space (oa_Alias d)) (oa_ForceMapping d)"
    if "firstUsable k es = Some d" for k d
    using tableHit_eq [of d m ?n "ParseSuffix m"] firstUsable_usable [OF that] by (simp add: sanitizeEntry_def)
  consider (plain) "?n = m" | (bare) "?n = []" "?n \<noteq> m" | (both) "?n \<noteq> []" "?n \<noteq> m" by blast
  then show ?thesis
  proof cases
    case plain
    then show ?thesis using assms hit
      by (auto simp: resolveUpstreamModelFromAliasTable_def Let_def List.map_filter_simps tableLookup_compiled split: option.split)
  next
    case bare
    then have "sr_HasSuffix (ParseSuffix m)" using ParseSuffix_plain [of m] by auto
    with plain_no_match [OF assms(3)] have "firstUsable (to_lower (trim_space m)) es = None" using assms(1) by simp
    then show ?thesis using bare assms none empty
      by (simp add: resolveUpstreamModelFromAliasTable_def Let_def List.map_filter_simps)
  next
    case both
    then show ?thesis using assms none hit
      by (auto simp: resolveUpstreamModelFromAliasTable_def Let_def List.map_filter_simps tableLookup_compiled split: option.split)
  qed
qed

lemma table_is_list:
  assumes "trim_space m = m" "plainAliases es" "channel \<noteq> []" "m_get table channel = Some (compileChannel es)"
  shows "resolveUpstreamModelFromAliasTable table m channel = resolveUpstreamModelFromAliases (sanitizeChannel es) m"
proof (cases "m = []")
  case True
  have "tableLookup t [] = None" for t by (simp add: tableLookup_def)
  then show ?thesis using True assms
    by (simp add: resolveUpstreamModelFromAliasTable_def resolveUpstreamModelFromAliases_def Let_def List.map_filter_simps
        modelAliasLookupCandidates_def ParseSuffix_def)
next
  case False
  show ?thesis unfolding resolve_table_key [OF assms(1) False assms(2,3,4)] resolve_list_key [OF assms(1) False assms(2)] ..
qed

lemma compiled_channels:
  "\<forall>es\<in>snd ` set config. P es \<Longrightarrow>
   (m_get (compileOAuthModelAliasTable config) ch = None \<and> m_get (SanitizeOAuthModelAlias config) ch = None)
   \<or> (\<exists>es. P es \<and> m_get (compileOAuthModelAliasTable config) ch = Some (compileChannel es)
        \<and> m_get (SanitizeOAuthModelAlias config) ch = Some (sanitizeChannel es))"
proof -
  let ?R = "\<lambda>t c. (m_get t ch = None \<and> m_get c ch = None)
    \<or> (\<exists>es. P es \<and> m_get t ch = Some (compileChannel es) \<and> m_get c ch = Some (sanitizeChannel es))"
  have "\<forall>es\<in>snd ` set config. P es \<Longrightarrow> ?R t c \<Longrightarrow>
    ?R (foldl (\<lambda>out (rawChannel, entries). let channel = to_lower (trim_space rawChannel); tab = compileChannel entries
          in if channel = [] \<or> entries = [] \<or> tab = [] then out else m_put channel tab out) t config)
       (foldl (\<lambda>out (rawChannel, aliases). let channel = to_lower (trim_space rawChannel); clean = sanitizeChannel aliases
          in if channel = [] \<or> aliases = [] \<or> clean = [] then out else m_put channel clean out) c config)" for t c
  proof (induction config arbitrary: t c)
    case (Cons x config)
    obtain raw es where x: "x = (raw, es)" by (rule prod.exhaust)
    have "P es" using Cons.prems(1) x by auto
    then show ?case using Cons.prems unfolding foldl_Cons
      by (intro Cons.IH) (auto simp: x Let_def sanitize_Nil)
  qed simp
  from this [of "[]" "[]"] show "\<forall>es\<in>snd ` set config. P es \<Longrightarrow> ?thesis"
    by (simp add: compileOAuthModelAliasTable_def SanitizeOAuthModelAlias_def)
qed

section \<open>The properties\<close>

text \<open>
  The aliases of a channel give the same answer in both forms the code reads them in: the table
  compiled from the configuration, and the list it would be as the attribute of a credential. For every
  configuration whose aliases carry no suffix of their own, every channel and every model name without
  surrounding spaces, resolving in the table compiled from the configuration equals scanning the
  sanitised list of that channel: the upstream model with the suffix of the request carried over, the
  mapping flag and the name shown to the client.\<close>
theorem alias_table_is_list:
  assumes "list_all (\<lambda>(_, es). plainAliases es) config" and "trim_space m = m" and "channel \<noteq> []"
  shows "resolveUpstreamModelFromAliasTable (compileOAuthModelAliasTable config) m channel =
    resolveUpstreamModelFromAliases (m_get0 [] (SanitizeOAuthModelAlias config) channel) m"
proof -
  have "\<forall>es\<in>snd ` set config. plainAliases es" using assms(1) by (auto simp: list_all_iff)
  from compiled_channels [OF this, of channel] show ?thesis
  proof (elim disjE exE conjE)
    fix es assume "plainAliases es" "m_get (compileOAuthModelAliasTable config) channel = Some (compileChannel es)"
      "m_get (SanitizeOAuthModelAlias config) channel = Some (sanitizeChannel es)"
    then show ?thesis using table_is_list [OF assms(2) _ assms(3)] by (simp add: m_get0_def)
  qed (use assms(3) in \<open>simp add: resolveUpstreamModelFromAliasTable_def resolveUpstreamModelFromAliases_def m_get0_def Let_def\<close>)
qed

abbreviation sampleAlias :: "string \<Rightarrow> string \<Rightarrow> OAuthModelAlias" where
  "sampleAlias name alias \<equiv> \<lparr>oa_Name = name, oa_Alias = alias, oa_Fork = False, oa_DisplayName = [], oa_ForceMapping = False\<rparr>"

lemma alias_table_is_list_witness:
  "resolveUpstreamModelFromAliasTable (compileOAuthModelAliasTable [('' Kimi'', [sampleAlias ''kimi-k2.5'' ''K2.5''])]) ''k2.5(high)'' ''kimi''
     = \<lparr>ar_UpstreamModel = ''kimi-k2.5(high)'', ar_ForceMapping = False, ar_OriginalAlias = ''k2.5(high)''\<rparr>"
proof -
  have "list_all (\<lambda>(_, es). plainAliases es) [('' Kimi'', [sampleAlias ''kimi-k2.5'' ''K2.5''])]" "trim_space ''k2.5(high)'' = ''k2.5(high)''"
    by code_simp+
  moreover have "resolveUpstreamModelFromAliases (m_get0 [] (SanitizeOAuthModelAlias [('' Kimi'', [sampleAlias ''kimi-k2.5'' ''K2.5''])]) ''kimi'') ''k2.5(high)''
     = \<lparr>ar_UpstreamModel = ''kimi-k2.5(high)'', ar_ForceMapping = False, ar_OriginalAlias = ''k2.5(high)''\<rparr>"
    by code_simp
  ultimately show ?thesis using alias_table_is_list [of "[('' Kimi'', [sampleAlias ''kimi-k2.5'' ''K2.5''])]" "''k2.5(high)''" "''kimi''"] by simp
qed

text \<open>With an alias that carries a suffix the two forms differ: the list takes the entry written first,
  the table the entry for the base name.\<close>

theorem suffixed_alias_forms_differ:
  "let es = [sampleAlias ''big'' ''m(high)'', sampleAlias ''small'' ''m'']
   in ar_UpstreamModel (resolveUpstreamModelFromAliasTable (compileOAuthModelAliasTable [(''kimi'', es)]) ''m(high)'' ''kimi'') = ''small(high)''
    \<and> ar_UpstreamModel (resolveUpstreamModelFromAliases (sanitizeChannel es) ''m(high)'') = ''big(high)''"
  by code_simp

end
