(* ===== verification/ModelPools.thy ===== *)
theory ModelPools
  imports ModelAlias AuthManager Scheduler
begin

text \<open>
  From the model a client asks for to the models a credential is sent
  (\<open>backend/sdk/cliproxy/auth/conductor_models.go\<close>, and the model key of \<open>home_concurrency.go\<close>): the
  configuration entry of an API key, the table of its aliases and the slower scan of the configuration,
  the pools behind an alias, and the name a result is recorded under. The lemmas compare the table with
  the scan, and the name recorded with the name selection reads.
\<close>

section \<open>Keys of models at Home\<close>

definition contByte :: "nat \<Rightarrow> nat \<Rightarrow> char \<Rightarrow> bool" where
  "contByte lo hi c \<longleftrightarrow> lo \<le> (of_char c :: nat) \<and> (of_char c :: nat) \<le> hi"

text \<open>\<open>utf8.ValidString\<close>: the well-formed byte sequences of the Unicode standard.\<close>

fun utf8_valid :: "string \<Rightarrow> bool" where
  "utf8_valid [] \<longleftrightarrow> True"
| "utf8_valid (c # s) \<longleftrightarrow>
     (if contByte 0x00 0x7F c then utf8_valid s
      else if contByte 0xC2 0xDF c
      then (case s of c1 # s' \<Rightarrow> contByte 0x80 0xBF c1 \<and> utf8_valid s' | [] \<Rightarrow> False)
      else if contByte 0xE0 0xEF c
      then (case s of c1 # c2 # s' \<Rightarrow>
              contByte (if contByte 0xE0 0xE0 c then 0xA0 else 0x80) (if contByte 0xED 0xED c then 0x9F else 0xBF) c1
              \<and> contByte 0x80 0xBF c2 \<and> utf8_valid s' | _ \<Rightarrow> False)
      else if contByte 0xF0 0xF4 c
      then (case s of c1 # c2 # c3 # s' \<Rightarrow>
              contByte (if contByte 0xF0 0xF0 c then 0x90 else 0x80) (if contByte 0xF4 0xF4 c then 0x8F else 0xBF) c1
              \<and> contByte 0x80 0xBF c2 \<and> contByte 0x80 0xBF c3 \<and> utf8_valid s' | _ \<Rightarrow> False)
      else False)"

definition recognizedHomeConcurrencySuffix :: "string \<Rightarrow> bool" where
  "recognizedHomeConcurrencySuffix val \<longleftrightarrow> val = ''-1''
     \<or> to_lower val \<in> set [''none'', ''auto'', ''minimal'', ''low'', ''medium'', ''high'', ''xhigh'', ''max'']
     \<or> (val \<noteq> [] \<and> length val \<le> 10 \<and> list_all is_digit val \<and> digits_val val \<le> 2147483647)"

definition canonicalHomeConcurrencyModelKey :: "string \<Rightarrow> string" where
  "canonicalHomeConcurrencyModelKey model =
     (if \<not> utf8_valid model then []
      else let trimmed = to_lower (trim_space model)
        in if \<not> has_suffix trimmed '')'' then trimmed
           else case last_index trimmed CHR ''('' of
             None \<Rightarrow> trimmed
           | Some opn \<Rightarrow>
               if \<not> recognizedHomeConcurrencySuffix (drop (opn + 1) (take (length trimmed - 1) trimmed)) then trimmed
               else let base = trim_space (take opn trimmed) in if base = [] then trimmed else base)"

section \<open>The configuration entry of an API key\<close>

text \<open>The key types of the providers differ in fields the lookup does not read.\<close>

record ProviderKey =
  pk_APIKey :: string
  pk_BaseURL :: string
  pk_Models :: "ConfigModel list"

record RouteConfig = CoolingConfig +
  rc_GeminiKey :: "ProviderKey list"
  rc_InteractionsKey :: "ProviderKey list"
  rc_ClaudeKey :: "ProviderKey list"
  rc_CodexKey :: "ProviderKey list"
  rc_XAIKey :: "ProviderKey list"
  rc_VertexCompatAPIKey :: "ProviderKey list"
  rc_HomeEnabled :: bool

definition apiKeyEntryMatches :: "string \<Rightarrow> string \<Rightarrow> ProviderKey \<Rightarrow> bool" where
  "apiKeyEntryMatches attrKey attrBase entry \<longleftrightarrow>
     (let cfgKey = trim_space (pk_APIKey entry); cfgBase = trim_space (pk_BaseURL entry)
      in if attrKey \<noteq> [] \<and> attrBase \<noteq> [] then equal_fold cfgKey attrKey \<and> equal_fold cfgBase attrBase
         else (attrKey \<noteq> [] \<and> equal_fold cfgKey attrKey \<and> (cfgBase = [] \<or> equal_fold cfgBase attrBase))
           \<or> (attrKey = [] \<and> attrBase \<noteq> [] \<and> equal_fold cfgBase attrBase))"

definition resolveAPIKeyConfig :: "ProviderKey list \<Rightarrow> Auth \<Rightarrow> ProviderKey option" where
  "resolveAPIKeyConfig entries auth =
     (let attrKey = trim_space (m_get0 [] (a_Attributes auth) ''api_key'');
          attrBase = trim_space (m_get0 [] (a_Attributes auth) ''base_url'')
      in case find (apiKeyEntryMatches attrKey attrBase) entries of
           Some entry \<Rightarrow> Some entry
         | None \<Rightarrow> if attrKey \<noteq> [] then find (\<lambda>entry. equal_fold (trim_space (pk_APIKey entry)) attrKey) entries else None)"

definition compatEntryFor :: "RouteConfig \<Rightarrow> Auth \<Rightarrow> OpenAICompat option" where
  "compatEntryFor cfg auth =
     resolveOpenAICompatConfig cfg (trim_space (m_get0 [] (a_Attributes auth) ''provider_key''))
       (trim_space (m_get0 [] (a_Attributes auth) ''compat_name'')) (a_Provider auth)"

text \<open>The switch over the provider that three functions share: the models of the entry, \<open>None\<close> when there
  is no entry.\<close>

definition configuredModels :: "RouteConfig \<Rightarrow> Auth \<Rightarrow> ConfigModel list option" where
  "configuredModels cfg auth =
     (let provider = to_lower (trim_space (a_Provider auth));
          fromKeys = (\<lambda>entries. map_option pk_Models (resolveAPIKeyConfig entries auth))
      in if provider = ''gemini'' then fromKeys (rc_GeminiKey cfg)
         else if provider = ''gemini-interactions'' then fromKeys (rc_InteractionsKey cfg)
         else if provider = ''claude'' then fromKeys (rc_ClaudeKey cfg)
         else if provider = ''codex'' then fromKeys (rc_CodexKey cfg)
         else if provider = ''xai'' then fromKeys (rc_XAIKey cfg)
         else if provider = ''vertex'' then fromKeys (rc_VertexCompatAPIKey cfg)
         else if trim_space (m_get0 [] (a_Attributes auth) ''compat_name'') \<noteq> []
           \<or> equal_fold (trim_space (a_Provider auth)) ''openai-compatibility''
         then map_option oc_Models (compatEntryFor cfg auth) else None)"

section \<open>The table of API key aliases\<close>

definition suffixKey :: "string \<Rightarrow> string" where
  "suffixKey name =
     (let k = to_lower (sr_ModelName (ParseSuffix name)) in if k = [] then to_lower name else k)"

definition putNew :: "'k \<Rightarrow> 'v \<Rightarrow> ('k, 'v) gomap \<Rightarrow> ('k, 'v) gomap" where
  "putNew k v m = (if m_get m k = None then m_put k v m else m)"

definition compileAPIKeyStep :: "(string, string) gomap \<Rightarrow> ConfigModel \<Rightarrow> (string, string) gomap" where
  "compileAPIKeyStep out m =
     (let alias = trim_space (cm_Alias m); name = trim_space (cm_Name m); aliasKey = suffixKey alias
      in if alias = [] \<or> name = [] then out
         else if m_get out aliasKey \<noteq> None then out
         else let out = m_put aliasKey name out;
                  nameKey = suffixKey name;
                  out = (if nameKey \<noteq> [] then putNew nameKey name out else out);
                  nameResult = ParseSuffix name;
                  baseKey = to_lower (trim_space (sr_ModelName nameResult))
           in if sr_HasSuffix nameResult \<and> baseKey \<noteq> [] then putNew baseKey name out else out)"

definition compileAPIKeyModelAliasForModels :: "(string, string) gomap \<Rightarrow> ConfigModel list \<Rightarrow> (string, string) gomap" where
  "compileAPIKeyModelAliasForModels out models = foldl compileAPIKeyStep out models"

type_synonym apiKeyModelAliasTable = "(string, (string, string) gomap) gomap"

definition rebuildAPIKeyModelAliasLocked :: "RouteConfig \<Rightarrow> (string, Auth) gomap \<Rightarrow> apiKeyModelAliasTable" where
  "rebuildAPIKeyModelAliasLocked cfg auths =
     foldl (\<lambda>out (_, auth).
         if trim_space (a_ID auth) = [] \<or> AuthKind auth \<noteq> ''apikey'' then out
         else let byAlias = compileAPIKeyModelAliasForModels [] (case configuredModels cfg auth of None \<Rightarrow> [] | Some ms \<Rightarrow> ms)
           in if byAlias = [] then out else m_put (a_ID auth) byAlias out) [] auths"

definition preserveRequestedModelSuffix :: "string \<Rightarrow> string \<Rightarrow> string" where
  "preserveRequestedModelSuffix requestedModel resolved = preserveResolvedModelSuffix resolved (ParseSuffix requestedModel)"

definition lookupAPIKeyUpstreamModel :: "apiKeyModelAliasTable \<Rightarrow> string \<Rightarrow> string \<Rightarrow> string" where
  "lookupAPIKeyUpstreamModel table authID requestedModel =
     (let authID = trim_space authID; requestedModel = trim_space requestedModel
      in if authID = [] \<or> requestedModel = [] then []
         else let byAlias = m_get0 [] table authID;
                  resolved = trim_space (m_get0 [] byAlias (suffixKey requestedModel))
           in if resolved = [] then [] else preserveRequestedModelSuffix requestedModel resolved)"

section \<open>Resolving a model\<close>

text \<open>What resolving reads; a nil configuration is an empty one.\<close>

record RouteEnv =
  rt_config :: RouteConfig
  rt_alias :: AliasEnv
  rt_apiKeyModelAlias :: apiKeyModelAliasTable

definition rewriteModelForAuth :: "string \<Rightarrow> Auth \<Rightarrow> string" where
  "rewriteModelForAuth model auth =
     (let pre = trim_space (a_Prefix auth)
      in if model = [] \<or> pre = [] then model
         else if has_prefix model (pre @ ''/'') then drop (length (pre @ ''/'')) model else model)"

definition applyAPIKeyModelAlias :: "RouteEnv \<Rightarrow> Auth \<Rightarrow> string \<Rightarrow> string" where
  "applyAPIKeyModelAlias env auth requestedModel =
     (if AuthKind auth \<noteq> ''apikey'' then requestedModel
      else let requestedModel = trim_space requestedModel
        in if requestedModel = [] then requestedModel
           else let resolved = lookupAPIKeyUpstreamModel (rt_apiKeyModelAlias env) (a_ID auth) requestedModel
             in if resolved \<noteq> [] then resolved
                else let upstreamModel = (case configuredModels (rt_config env) auth of
                           None \<Rightarrow> [] | Some models \<Rightarrow> resolveModelAliasFromConfigModels requestedModel models)
                  in if upstreamModel \<noteq> [] then upstreamModel else requestedModel)"

definition resolveAPIKeyModelAliasWithResult :: "RouteEnv \<Rightarrow> Auth \<Rightarrow> string \<Rightarrow> OAuthModelAliasResult" where
  "resolveAPIKeyModelAliasWithResult env auth requestedModel =
     (let requestedModel = trim_space requestedModel
      in if requestedModel = [] then noAlias
         else let models = (case configuredModels (rt_config env) auth of None \<Rightarrow> [] | Some ms \<Rightarrow> ms)
           in if models = [] then plainModel requestedModel
              else let result = resolveModelAliasResultFromConfigModels requestedModel models
                in if trim_space (ar_UpstreamModel result) = [] then plainModel requestedModel else result)"

definition isOpenAICompatAPIKeyAuth :: "Auth \<Rightarrow> bool" where
  "isOpenAICompatAPIKeyAuth auth \<longleftrightarrow> AuthKind auth = ''apikey''
     \<and> (equal_fold (trim_space (a_Provider auth)) ''openai-compatibility''
        \<or> trim_space (m_get0 [] (a_Attributes auth) ''compat_name'') \<noteq> [])"

definition openAICompatProviderKey :: "Auth \<Rightarrow> string" where
  "openAICompatProviderKey auth =
     (let providerKey = trim_space (m_get0 [] (a_Attributes auth) ''provider_key'');
          compatName = trim_space (m_get0 [] (a_Attributes auth) ''compat_name'')
      in OpenAICompatibleProviderKey (if providerKey \<noteq> [] then providerKey else if compatName \<noteq> [] then compatName else a_Provider auth))"

definition openAICompatModelPoolKey :: "Auth \<Rightarrow> string \<Rightarrow> string" where
  "openAICompatModelPoolKey auth requestedModel =
     (let base = trim_space (sr_ModelName (ParseSuffix requestedModel));
          base = (if base = [] then trim_space requestedModel else base)
      in to_lower (trim_space (a_ID auth)) @ ''|'' @ openAICompatProviderKey auth @ ''|'' @ to_lower base)"

definition resolveOpenAICompatUpstreamModelPool :: "RouteEnv \<Rightarrow> Auth \<Rightarrow> string \<Rightarrow> string list" where
  "resolveOpenAICompatUpstreamModelPool env auth requestedModel =
     (if \<not> isOpenAICompatAPIKeyAuth auth then []
      else let requestedModel = trim_space requestedModel
        in if requestedModel = [] then []
           else case compatEntryFor (rt_config env) auth of
             None \<Rightarrow> [] | Some entry \<Rightarrow> resolveModelAliasPoolFromConfigModels requestedModel (oc_Models entry))"

definition homeUpstreamModel :: "Auth \<Rightarrow> string" where
  "homeUpstreamModel auth = trim_space (m_get0 [] (a_Attributes auth) ''home_upstream_model'')"

definition homeForceMappingAliasResult :: "Auth \<Rightarrow> string \<Rightarrow> OAuthModelAliasResult" where
  "homeForceMappingAliasResult auth requestedModel =
     (if \<not> equal_fold (trim_space (m_get0 [] (a_Attributes auth) ''home_force_mapping'')) ''true'' then noAlias
      else let original = m_get0 [] (a_Attributes auth) ''home_original_alias'';
               canonicalOriginalAlias = canonicalHomeConcurrencyModelKey original
        in if canonicalOriginalAlias = [] \<or> canonicalOriginalAlias \<noteq> canonicalHomeConcurrencyModelKey requestedModel then noAlias
           else \<lparr>ar_UpstreamModel = (if homeUpstreamModel auth = [] then trim_space requestedModel else homeUpstreamModel auth),
             ar_ForceMapping = True, ar_OriginalAlias = trim_space original\<rparr>)"

definition resolveExecutionAliasResultForRequested :: "RouteEnv \<Rightarrow> Auth \<Rightarrow> string \<Rightarrow> OAuthModelAliasResult" where
  "resolveExecutionAliasResultForRequested env auth requestedModel =
     (let result = homeForceMappingAliasResult auth requestedModel
      in if ar_ForceMapping result then result
         else if AuthKind auth = ''apikey'' then resolveAPIKeyModelAliasWithResult env auth requestedModel
         else applyOAuthModelAliasWithResult (rt_alias env) auth requestedModel)"

definition executionAliasPoolModel :: "Auth \<Rightarrow> string \<Rightarrow> OAuthModelAliasResult \<Rightarrow> string" where
  "executionAliasPoolModel auth requestedModel aliasResult =
     (if AuthKind auth = ''apikey'' \<and> trim_space requestedModel \<noteq> [] then requestedModel
      else if trim_space (ar_UpstreamModel aliasResult) \<noteq> [] then ar_UpstreamModel aliasResult
      else requestedModel)"

text \<open>The candidates for a resolved model: a pool rotates, a single model does not.\<close>

definition poolCandidates :: "RouteEnv \<Rightarrow> Auth \<Rightarrow> string \<Rightarrow> 'x AuthManager \<Rightarrow> string list \<times> 'x AuthManager" where
  "poolCandidates env auth model m =
     (case resolveOpenAICompatUpstreamModelPool env auth model of
        [] \<Rightarrow> (let resolved = applyAPIKeyModelAlias env auth model
               in ([if trim_space resolved = [] then model else resolved], m))
      | [single] \<Rightarrow> ([single], m)
      | pool \<Rightarrow> (let (offset, m) = nextModelPoolOffset (openAICompatModelPoolKey auth model) (int (length pool)) m
                 in (rotateStrings pool offset, m)))"

definition executionModelCandidates :: "RouteEnv \<Rightarrow> Auth \<Rightarrow> string \<Rightarrow> 'x AuthManager \<Rightarrow> string list \<times> 'x AuthManager" where
  "executionModelCandidates env auth routeModel m =
     (if homeUpstreamModel auth \<noteq> [] then ([homeUpstreamModel auth], m)
      else poolCandidates env auth (applyOAuthModelAlias (rt_alias env) auth (rewriteModelForAuth routeModel auth)) m)"

definition executionModelCandidatesWithAlias :: "RouteEnv \<Rightarrow> Auth \<Rightarrow> string \<Rightarrow> 'x AuthManager
    \<Rightarrow> (string list \<times> bool \<times> OAuthModelAliasResult) \<times> 'x AuthManager" where
  "executionModelCandidatesWithAlias env auth routeModel m =
     (let requestedModel = rewriteModelForAuth routeModel auth;
          aliasResult = resolveExecutionAliasResultForRequested env auth requestedModel;
          aliasResult = (if ar_ForceMapping aliasResult
              \<and> equal_fold (trim_space (m_get0 [] (a_Attributes auth) ''home_force_mapping'')) ''true''
            then aliasResult\<lparr>ar_OriginalAlias := trim_space routeModel\<rparr> else aliasResult);
          upstreamModel = executionAliasPoolModel auth requestedModel aliasResult;
          (candidates, m) = (if homeUpstreamModel auth \<noteq> [] then ([homeUpstreamModel auth], m)
            else poolCandidates env auth upstreamModel m)
      in ((candidates, 1 < length candidates, aliasResult), m))"

section \<open>The name of a result, and the models that are not blocked\<close>

definition selectionModelForAuth :: "RouteEnv \<Rightarrow> Auth \<Rightarrow> string \<Rightarrow> string" where
  "selectionModelForAuth env auth routeModel =
     (let requestedModel = rewriteModelForAuth routeModel auth;
          requestedModel = (if trim_space requestedModel = [] then trim_space routeModel else requestedModel);
          resolvedModel = applyOAuthModelAlias (rt_alias env) auth requestedModel
      in if trim_space resolvedModel = [] then requestedModel else resolvedModel)"

definition selectionModelKeyForAuth :: "RouteEnv \<Rightarrow> Auth \<Rightarrow> string \<Rightarrow> string" where
  "selectionModelKeyForAuth env auth routeModel = canonicalModelKey (selectionModelForAuth env auth routeModel)"

definition executionResultModel :: "string \<Rightarrow> string \<Rightarrow> bool \<Rightarrow> string" where
  "executionResultModel routeModel upstreamModel pooled =
     (if pooled \<and> trim_space upstreamModel \<noteq> [] then trim_space upstreamModel
      else if trim_space routeModel \<noteq> [] then trim_space routeModel
      else trim_space upstreamModel)"

definition stateModelForExecution :: "RouteEnv \<Rightarrow> Auth \<Rightarrow> string \<Rightarrow> string \<Rightarrow> bool \<Rightarrow> string" where
  "stateModelForExecution env auth routeModel upstreamModel pooled =
     (if homeUpstreamModel auth \<noteq> []
      then (if trim_space upstreamModel \<noteq> [] then trim_space upstreamModel else homeUpstreamModel auth)
      else let stateModel = executionResultModel routeModel upstreamModel pooled;
               selectionModel = selectionModelForAuth env auth routeModel
        in if canonicalModelKey selectionModel = canonicalModelKey upstreamModel \<and> trim_space selectionModel \<noteq> []
           then trim_space upstreamModel else stateModel)"

definition filterExecutionModels :: "RouteEnv \<Rightarrow> gotime \<Rightarrow> Auth \<Rightarrow> string \<Rightarrow> string list \<Rightarrow> bool \<Rightarrow> string list" where
  "filterExecutionModels env now auth routeModel candidates pooled =
     filter (\<lambda>upstreamModel. \<not> fst (isAuthBlockedForModel (Some auth)
       (stateModelForExecution env auth routeModel upstreamModel pooled) now)) candidates"

definition preparedExecutionModels :: "RouteEnv \<Rightarrow> gotime \<Rightarrow> Auth \<Rightarrow> string \<Rightarrow> 'x AuthManager
    \<Rightarrow> (string list \<times> bool) \<times> 'x AuthManager" where
  "preparedExecutionModels env now auth routeModel m =
     (let (candidates, m) = executionModelCandidates env auth routeModel m; pooled = (1 < length candidates)
      in ((filterExecutionModels env now auth routeModel candidates pooled, pooled), m))"

definition preparedExecutionModelsWithAlias :: "RouteEnv \<Rightarrow> gotime \<Rightarrow> Auth \<Rightarrow> string \<Rightarrow> 'x AuthManager
    \<Rightarrow> (string list \<times> bool \<times> OAuthModelAliasResult) \<times> 'x AuthManager" where
  "preparedExecutionModelsWithAlias env now auth routeModel m =
     (let ((candidates, pooled, aliasResult), m) = executionModelCandidatesWithAlias env auth routeModel m
      in ((filterExecutionModels env now auth routeModel candidates pooled, pooled, aliasResult), m))"

section \<open>The table of aliases against the scan\<close>

definition nameOf :: "ConfigModel \<Rightarrow> string" where "nameOf m = trim_space (cm_Name m)"
definition aliasOf :: "ConfigModel \<Rightarrow> string" where "aliasOf m = trim_space (cm_Alias m)"

text \<open>Every entry has a name and an alias without suffixes; an alias that is also a name leads to that
  name; a name is written in one way.\<close>

definition unambiguous :: "ConfigModel list \<Rightarrow> bool" where
  "unambiguous ms \<longleftrightarrow>
     list_all (\<lambda>m. nameOf m \<noteq> [] \<and> aliasOf m \<noteq> [] \<and> \<not> sr_HasSuffix (ParseSuffix (nameOf m))
       \<and> \<not> sr_HasSuffix (ParseSuffix (aliasOf m))) ms
     \<and> list_all (\<lambda>a. list_all (\<lambda>b. (\<not> equal_fold (aliasOf a) (nameOf b) \<or> equal_fold (nameOf a) (nameOf b))
         \<and> (\<not> equal_fold (nameOf a) (nameOf b) \<or> nameOf a = nameOf b)) ms) ms"

lemma unambiguousD:
  assumes "unambiguous ms" "m \<in> set ms"
  shows "nameOf m \<noteq> []" "aliasOf m \<noteq> []" "\<not> sr_HasSuffix (ParseSuffix (nameOf m))" "\<not> sr_HasSuffix (ParseSuffix (aliasOf m))"
    and "n \<in> set ms \<Longrightarrow> to_lower (aliasOf m) = to_lower (nameOf n) \<Longrightarrow> nameOf m = nameOf n"
    and "n \<in> set ms \<Longrightarrow> to_lower (nameOf m) = to_lower (nameOf n) \<Longrightarrow> nameOf m = nameOf n"
  using assms unfolding unambiguous_def list_all_iff equal_fold_def by blast+

lemma suffixKey_plain: "\<not> sr_HasSuffix (ParseSuffix n) \<Longrightarrow> suffixKey n = to_lower n"
  by (simp add: suffixKey_def ParseSuffix_plain Let_def)

text \<open>What the table may hold under a key: the name of the first entry with that alias, or else the
  name it stands for.\<close>

definition tableRight :: "ConfigModel list \<Rightarrow> string \<Rightarrow> string \<Rightarrow> bool" where
  "tableRight ms k v \<longleftrightarrow>
     (case find (\<lambda>m. to_lower (aliasOf m) = k) ms of
        Some m \<Rightarrow> v = nameOf m
      | None \<Rightarrow> \<exists>m\<in>set ms. to_lower (nameOf m) = k \<and> v = nameOf m)"

lemma tableRight_snoc_old:
  assumes "unambiguous (ms @ [m])" "tableRight ms k v"
  shows "tableRight (ms @ [m]) k v"
proof (cases "find (\<lambda>m. to_lower (aliasOf m) = k) ms")
  case None
  with assms(2) obtain n where n: "n \<in> set ms" "to_lower (nameOf n) = k" "v = nameOf n"
    by (auto simp: tableRight_def)
  have "nameOf m = nameOf n" if "to_lower (aliasOf m) = k"
    using unambiguousD(5) [OF assms(1), of m n] that n by simp
  then show ?thesis using None n by (auto simp: tableRight_def find_append)
next
  case (Some n)
  then show ?thesis using assms(2) by (simp add: tableRight_def find_append)
qed

lemma tableRight_snoc_new:
  assumes "unambiguous (ms @ [m])" "k = to_lower (aliasOf m) \<or> k = to_lower (nameOf m)"
  shows "tableRight (ms @ [m]) k (nameOf m) \<or> find (\<lambda>m. to_lower (aliasOf m) = k) ms \<noteq> None \<and> k = to_lower (aliasOf m)"
proof (cases "find (\<lambda>m. to_lower (aliasOf m) = k) ms")
  case None
  then show ?thesis using assms(2) by (auto simp: tableRight_def find_append)
next
  case (Some n)
  then have n: "n \<in> set ms" "to_lower (aliasOf n) = k" by (auto dest: find_Some_filter)
  show ?thesis
  proof (cases "k = to_lower (aliasOf m)")
    case False
    then have "k = to_lower (nameOf m)" using assms(2) by simp
    then have "nameOf n = nameOf m" using unambiguousD(5) [OF assms(1), of n m] n by simp
    then show ?thesis using Some by (simp add: tableRight_def find_append)
  qed (use Some in simp)
qed

lemma compileAPIKeyStep_plain:
  assumes "nameOf m \<noteq> []" "aliasOf m \<noteq> []" "\<not> sr_HasSuffix (ParseSuffix (nameOf m))" "\<not> sr_HasSuffix (ParseSuffix (aliasOf m))"
  shows "compileAPIKeyStep out m =
    (if m_get out (to_lower (aliasOf m)) \<noteq> None then out
     else putNew (to_lower (nameOf m)) (nameOf m) (m_put (to_lower (aliasOf m)) (nameOf m) out))"
  using assms by (simp add: compileAPIKeyStep_def nameOf_def aliasOf_def suffixKey_plain Let_def)

lemma compile_right:
  assumes "unambiguous ms"
  shows "(\<forall>k v. m_get (compileAPIKeyModelAliasForModels [] ms) k = Some v \<longrightarrow> tableRight ms k v)
    \<and> (\<forall>m\<in>set ms. m_get (compileAPIKeyModelAliasForModels [] ms) (to_lower (aliasOf m)) \<noteq> None)"
  using assms
proof (induction ms rule: rev_induct)
  case (snoc m ms)
  let ?t = "compileAPIKeyModelAliasForModels [] ms"
  have u: "unambiguous ms" using snoc.prems by (auto simp: unambiguous_def list_all_iff)
  note IH = snoc.IH [OF u] and pm = unambiguousD [OF snoc.prems, of m]
  have step: "compileAPIKeyModelAliasForModels [] (ms @ [m]) =
    (if m_get ?t (to_lower (aliasOf m)) \<noteq> None then ?t
     else putNew (to_lower (nameOf m)) (nameOf m) (m_put (to_lower (aliasOf m)) (nameOf m) ?t))"
    using compileAPIKeyStep_plain [OF pm(1-4)] by (simp add: compileAPIKeyModelAliasForModels_def)
  show ?case
  proof (cases "m_get ?t (to_lower (aliasOf m)) = None")
    case False
    then show ?thesis using IH tableRight_snoc_old [OF snoc.prems] by (auto simp: step)
  next
    case True
    then have fresh: "find (\<lambda>n. to_lower (aliasOf n) = to_lower (aliasOf m)) ms = None"
      using IH by (auto simp: find_None_iff)
    have new: "tableRight (ms @ [m]) k (nameOf m)" if "k = to_lower (aliasOf m) \<or> k = to_lower (nameOf m)" for k
      using tableRight_snoc_new [OF snoc.prems that] fresh by auto
    have "tableRight (ms @ [m]) k v" if "m_get (compileAPIKeyModelAliasForModels [] (ms @ [m])) k = Some v" for k v
      using that True IH new tableRight_snoc_old [OF snoc.prems]
      by (auto simp: step putNew_def split: if_splits)
    then show ?thesis using True IH by (auto simp: step putNew_def)
  qed
qed (simp add: compileAPIKeyModelAliasForModels_def)

lemma trim_space_Nil_iff: "trim_space s = [] \<longleftrightarrow> list_all is_space s"
proof -
  have "trim_space s = [] \<longleftrightarrow> (\<forall>x\<in>set (dropWhile is_space s). is_space x)"
    by (simp add: trim_space_def trim_right_def trim_left_def)
  also have "\<dots> \<longleftrightarrow> dropWhile is_space s = []"
    using hd_dropWhile_not [of is_space s] by (cases "dropWhile is_space s") (auto simp del: dropWhile_eq_Nil_conv)
  also have "\<dots> \<longleftrightarrow> list_all is_space s" by (simp add: list_all_iff)
  finally show ?thesis .
qed

lemma nameOf_not_space: "nameOf m \<noteq> [] \<Longrightarrow> \<not> list_all is_space (nameOf m)"
  unfolding nameOf_def trim_space_Nil_iff [symmetric] by simp

lemma preserve_ne:
  assumes "nameOf m \<noteq> []"
  shows "trim_space (preserveResolvedModelSuffix (nameOf m) r) \<noteq> []" "preserveResolvedModelSuffix (nameOf m) r \<noteq> []"
proof -
  have t: "trim_space (nameOf m) = nameOf m" by (simp add: nameOf_def)
  then show "trim_space (preserveResolvedModelSuffix (nameOf m) r) \<noteq> []"
    using assms nameOf_not_space [OF assms] by (auto simp: preserveResolvedModelSuffix_def Let_def trim_space_Nil_iff)
  then show "preserveResolvedModelSuffix (nameOf m) r \<noteq> []" by auto
qed

definition aliasHits :: "string list \<Rightarrow> ConfigModel \<Rightarrow> bool" where
  "aliasHits cs m \<longleftrightarrow> list_ex (\<lambda>c. c \<noteq> [] \<and> aliasOf m \<noteq> [] \<and> equal_fold (aliasOf m) c) cs"

lemma poolStep_case:
  assumes "nameOf m \<noteq> []"
  shows "poolStep r cs (seen, out) m =
    (if aliasHits cs m
     then (let resolved = preserveResolvedModelSuffix (nameOf m) r; key = to_lower (trim_space resolved)
           in if key \<in> set seen then (seen, out) else (key # seen, out @ [resolved]))
     else (seen, out))"
proof (cases "find (\<lambda>c. c \<noteq> [] \<and> aliasOf m \<noteq> [] \<and> equal_fold (aliasOf m) c) cs")
  case None
  moreover from None have "\<not> aliasHits cs m" by (auto simp: aliasHits_def list_ex_iff find_None_iff)
  ultimately show ?thesis by (simp add: poolStep_def aliasOf_def)
next
  case (Some c)
  then have "aliasHits cs m" by (auto simp: aliasHits_def list_ex_iff dest: find_Some_filter)
  then show ?thesis using Some assms preserve_ne [OF assms, of r]
    by (simp add: poolStep_def aliasOf_def nameOf_def Let_def)
qed

lemma pool_keep: "out \<noteq> [] \<Longrightarrow> \<exists>t. snd (foldl (poolStep r cs) (seen, out) ms) = hd out # t"
proof (induction ms arbitrary: seen out)
  case Nil
  then show ?case by (cases out) auto
next
  case (Cons m ms)
  obtain seen' out' where st: "poolStep r cs (seen, out) m = (seen', out')" by (rule prod.exhaust)
  have "out' \<noteq> [] \<and> hd out' = hd out"
    using Cons.prems st by (auto simp: poolStep_def Let_def split: option.splits if_splits)
  then show ?case using Cons.IH [of out' seen'] st by simp
qed

lemma pool_first:
  assumes "\<forall>m\<in>set ms. nameOf m \<noteq> []"
  shows "case find (aliasHits cs) ms of
      None \<Rightarrow> snd (foldl (poolStep r cs) ([], []) ms) = []
    | Some m \<Rightarrow> \<exists>t. snd (foldl (poolStep r cs) ([], []) ms) = preserveResolvedModelSuffix (nameOf m) r # t"
  using assms
proof (induction ms)
  case (Cons m ms)
  then have m: "nameOf m \<noteq> []" by simp
  show ?case
  proof (cases "aliasHits cs m")
    case True
    then have "poolStep r cs ([], []) m = ([to_lower (trim_space (preserveResolvedModelSuffix (nameOf m) r))], [preserveResolvedModelSuffix (nameOf m) r])"
      by (simp add: poolStep_case [OF m] Let_def)
    then show ?thesis using True pool_keep [of "[preserveResolvedModelSuffix (nameOf m) r]" r cs] by simp
  next
    case False
    then have "poolStep r cs ([], []) m = ([], [])" by (simp add: poolStep_case [OF m])
    moreover have "\<forall>m\<in>set ms. nameOf m \<noteq> []" using Cons.prems by simp
    ultimately show ?thesis using False Cons.IH by (auto split: option.splits)
  qed
qed simp

text \<open>The scan of an unambiguous configuration, as the lookup of one key.\<close>

definition scanKey :: "ConfigModel list \<Rightarrow> string \<Rightarrow> ConfigModel option" where
  "scanKey ms k = (case find (\<lambda>m. to_lower (aliasOf m) = k) ms of Some m \<Rightarrow> Some m | None \<Rightarrow> find (\<lambda>m. to_lower (nameOf m) = k) ms)"

lemma hits_plain:
  assumes "trim_space q = q" "q \<noteq> []" "n \<noteq> []" "\<not> sr_HasSuffix (ParseSuffix n)"
  shows "list_ex (\<lambda>c. c \<noteq> [] \<and> n \<noteq> [] \<and> equal_fold n c) (snd (modelAliasLookupCandidates q)) \<longleftrightarrow> to_lower n = suffixKey q"
proof -
  let ?b = "if sr_ModelName (ParseSuffix q) = [] then q else sr_ModelName (ParseSuffix q)"
  have k: "suffixKey q = to_lower ?b" by (simp add: suffixKey_def Let_def)
  have c: "snd (modelAliasLookupCandidates q) = (if ?b \<noteq> q then [?b, q] else [?b])"
    using assms(1,2) by (simp add: modelAliasLookupCandidates_def Let_def)
  have "sr_HasSuffix (ParseSuffix q)" if "?b \<noteq> q" using that ParseSuffix_plain [of q] by (auto split: if_splits)
  then have "\<not> equal_fold n q" if "?b \<noteq> q" using ParseSuffix_fold [of n q] assms(4) that by auto
  then show ?thesis using assms(2,3) unfolding c k by (auto simp: equal_fold_def)
qed

lemma scan_is_key:
  assumes "unambiguous ms" "trim_space q = q" "q \<noteq> []"
  shows "resolveModelAliasFromConfigModels q ms =
    (case scanKey ms (suffixKey q) of None \<Rightarrow> [] | Some m \<Rightarrow> preserveResolvedModelSuffix (nameOf m) (ParseSuffix q))"
proof (cases "ms = []")
  case True
  then show ?thesis by (simp add: resolveModelAliasFromConfigModels_def resolveModelAliasPoolFromConfigModels_def scanKey_def Let_def)
next
  case False
  obtain cs where cs: "modelAliasLookupCandidates q = (ParseSuffix q, cs)" "cs \<noteq> []"
    using assms(2,3) by (simp add: modelAliasLookupCandidates_def Let_def)
  note um = unambiguousD [OF assms(1)]
  have ali: "aliasHits cs m \<longleftrightarrow> to_lower (aliasOf m) = suffixKey q" if "m \<in> set ms" for m
    using hits_plain [OF assms(2,3), of "aliasOf m"] um(2,4) [OF that] cs by (simp add: aliasHits_def)
  have nam: "list_ex (\<lambda>c. c \<noteq> [] \<and> nameOf m \<noteq> [] \<and> equal_fold (nameOf m) c) cs \<longleftrightarrow> to_lower (nameOf m) = suffixKey q" if "m \<in> set ms" for m
    using hits_plain [OF assms(2,3), of "nameOf m"] um(1,3) [OF that] cs by simp
  have f1: "find (aliasHits cs) ms = find (\<lambda>m. to_lower (aliasOf m) = suffixKey q) ms" using ali by (intro find_cong) auto
  have f2: "find (\<lambda>m. list_ex (\<lambda>c. c \<noteq> [] \<and> nameOf m \<noteq> [] \<and> equal_fold (nameOf m) c) cs) ms
      = find (\<lambda>m. to_lower (nameOf m) = suffixKey q) ms"
    using nam by (intro find_cong) auto
  have "\<forall>m\<in>set ms. nameOf m \<noteq> []" using um(1) by blast
  from pool_first [OF this, of "ParseSuffix q" cs] show ?thesis
    unfolding resolveModelAliasFromConfigModels_def resolveModelAliasPoolFromConfigModels_def scanKey_def Let_def nameOf_def [symmetric]
    using assms(2,3) False cs by (auto simp: f1 f2 split: option.splits)
qed

definition aliasTableOf :: "RouteConfig \<Rightarrow> Auth \<Rightarrow> (string, string) gomap" where
  "aliasTableOf cfg auth = compileAPIKeyModelAliasForModels [] (case configuredModels cfg auth of None \<Rightarrow> [] | Some ms \<Rightarrow> ms)"

lemma rebuild_get:
  assumes "m_ok auths" "\<forall>(k, a)\<in>set auths. a_ID a = k"
  shows "m_get0 [] (rebuildAPIKeyModelAliasLocked cfg auths) ident =
    (case m_get auths ident of
       Some a \<Rightarrow> if trim_space ident = [] \<or> AuthKind a \<noteq> ''apikey'' then [] else aliasTableOf cfg a
     | None \<Rightarrow> [])"
proof -
  let ?f = "\<lambda>out (_, auth). if trim_space (a_ID auth) = [] \<or> AuthKind auth \<noteq> ''apikey'' then out
         else let byAlias = aliasTableOf cfg auth in if byAlias = [] then out else m_put (a_ID auth) byAlias out"
  have "m_ok auths \<Longrightarrow> \<forall>(k, a)\<in>set auths. a_ID a = k \<Longrightarrow> \<forall>k\<in>set (m_keys auths). m_get out k = None \<Longrightarrow>
    m_get0 [] (foldl ?f out auths) ident =
    (case m_get auths ident of
       Some a \<Rightarrow> if trim_space ident = [] \<or> AuthKind a \<noteq> ''apikey'' then [] else aliasTableOf cfg a
     | None \<Rightarrow> m_get0 [] out ident)" for out
  proof (induction auths arbitrary: out)
    case (Cons x auths)
    obtain k a where x: "x = (k, a)" by (rule prod.exhaust)
    with Cons.prems have a: "a_ID a = k" by simp
    define out' where "out' = ?f out x"
    have out': "m_get0 [] out' k = (if trim_space k = [] \<or> AuthKind a \<noteq> ''apikey'' then [] else aliasTableOf cfg a)"
      "\<And>j. j \<noteq> k \<Longrightarrow> m_get out' j = m_get out j"
      using Cons.prems(3) by (auto simp: out'_def x a Let_def m_get0_def)
    have IH: "m_get0 [] (foldl ?f out' auths) ident =
      (case m_get auths ident of
         Some a \<Rightarrow> if trim_space ident = [] \<or> AuthKind a \<noteq> ''apikey'' then [] else aliasTableOf cfg a
       | None \<Rightarrow> m_get0 [] out' ident)"
    proof (rule Cons.IH)
      show "m_ok auths" using Cons.prems(1) by simp
      show "\<forall>(k, a)\<in>set auths. a_ID a = k" using Cons.prems(2) by simp
      have "m_get out j = None \<and> j \<noteq> k" if "j \<in> set (m_keys auths)" for j using Cons.prems(1,3) x that by auto
      then show "\<forall>j\<in>set (m_keys auths). m_get out' j = None" using out'(2) by simp
    qed
    have none: "m_get auths k = None" using Cons.prems(1) x by (auto simp: map_of_eq_None_iff)
    have fold: "foldl ?f out (x # auths) = foldl ?f out' auths" unfolding out'_def by (rule foldl_Cons)
    show ?case
    proof (cases "ident = k")
      case True
      then show ?thesis unfolding fold IH using none out'(1) by (simp add: x)
    next
      case False
      then have "m_get0 [] out' ident = m_get0 [] out ident" using out'(2) by (simp add: m_get0_def)
      then show ?thesis unfolding fold IH using False by (simp add: x split: option.split)
    qed
  qed simp
  from this [of "[]"] assms show ?thesis unfolding rebuildAPIKeyModelAliasLocked_def aliasTableOf_def [symmetric] by (simp split: option.split)
qed

lemma lookup_is_key:
  assumes "unambiguous ms" "trim_space q = q" "q \<noteq> []" "trim_space ident = ident" "ident \<noteq> []"
    and "m_get0 [] table ident = compileAPIKeyModelAliasForModels [] ms"
  shows "lookupAPIKeyUpstreamModel table ident q =
    (case m_get (compileAPIKeyModelAliasForModels [] ms) (suffixKey q) of None \<Rightarrow> []
     | Some v \<Rightarrow> preserveResolvedModelSuffix v (ParseSuffix q))"
proof (cases "m_get (compileAPIKeyModelAliasForModels [] ms) (suffixKey q)")
  case None
  then show ?thesis using assms by (simp add: lookupAPIKeyUpstreamModel_def Let_def m_get0_def [of _ "compileAPIKeyModelAliasForModels [] ms"])
next
  case (Some v)
  with compile_right [OF assms(1)] have "tableRight ms (suffixKey q) v" by blast
  then obtain m where m: "m \<in> set ms" "v = nameOf m"
    by (auto simp: tableRight_def split: option.splits dest: find_Some_filter)
  then have "trim_space v = v" "v \<noteq> []" using unambiguousD(1) [OF assms(1)] by (auto simp: nameOf_def)
  then show ?thesis using Some assms
    by (simp add: lookupAPIKeyUpstreamModel_def Let_def m_get0_def [of _ "compileAPIKeyModelAliasForModels [] ms"] preserveRequestedModelSuffix_def)
qed

lemma table_agrees:
  assumes "unambiguous ms" "m_get (compileAPIKeyModelAliasForModels [] ms) k = Some v"
  shows "\<exists>m. scanKey ms k = Some m \<and> v = nameOf m"
proof -
  have r: "tableRight ms k v" using compile_right [OF assms(1)] assms(2) by blast
  show ?thesis
  proof (cases "find (\<lambda>m. to_lower (aliasOf m) = k) ms")
    case None
    with r obtain m where m: "m \<in> set ms" "to_lower (nameOf m) = k" "v = nameOf m" by (auto simp: tableRight_def)
    then obtain n where n: "find (\<lambda>m. to_lower (nameOf m) = k) ms = Some n"
      by (cases "find (\<lambda>m. to_lower (nameOf m) = k) ms") (auto simp: find_None_iff)
    then have "n \<in> set ms" "to_lower (nameOf n) = k" by (auto dest: find_Some_filter)
    then show ?thesis using n None m unambiguousD(6) [OF assms(1), of n m] by (simp add: scanKey_def)
  qed (use r in \<open>simp add: tableRight_def scanKey_def\<close>)
qed

text \<open>
  C25: For an API key, the table of aliases, rebuilt whenever the configuration or the credentials
  change, answers as the scan of the configuration would. When the configured models of the key are
  unambiguous (names and aliases without suffixes, an alias that is also a name leads to that name),
  resolving a requested model through the rebuilt table gives exactly what scanning the models gives: the
  upstream name with the suffix of the request, or the request itself when nothing matches.\<close>
theorem api_key_table_is_scan:
  assumes "m_ok auths" and "\<forall>(k, a)\<in>set auths. a_ID a = k" and "m_get auths (a_ID auth) = Some auth"
    and "trim_space (a_ID auth) = a_ID auth" and "a_ID auth \<noteq> []" and "AuthKind auth = ''apikey''"
    and "configuredModels (rt_config env) auth = Some ms" and "unambiguous ms"
    and "rt_apiKeyModelAlias env = rebuildAPIKeyModelAliasLocked (rt_config env) auths"
  shows "applyAPIKeyModelAlias env auth requestedModel =
    (let q = trim_space requestedModel; scanned = resolveModelAliasFromConfigModels q ms
     in if scanned = [] then q else scanned)"
proof (cases "trim_space requestedModel = []")
  case True
  then show ?thesis using assms(6)
    by (simp add: applyAPIKeyModelAlias_def resolveModelAliasFromConfigModels_def resolveModelAliasPoolFromConfigModels_def)
next
  case False
  let ?q = "trim_space requestedModel"
  have t: "m_get0 [] (rt_apiKeyModelAlias env) (a_ID auth) = compileAPIKeyModelAliasForModels [] ms"
    using rebuild_get [OF assms(1,2), of "rt_config env" "a_ID auth"] assms(3-7,9) by (simp add: aliasTableOf_def)
  have l: "lookupAPIKeyUpstreamModel (rt_apiKeyModelAlias env) (a_ID auth) ?q =
    (case m_get (compileAPIKeyModelAliasForModels [] ms) (suffixKey ?q) of None \<Rightarrow> []
     | Some v \<Rightarrow> preserveResolvedModelSuffix v (ParseSuffix ?q))"
    by (rule lookup_is_key [OF assms(8) trim_space_idem False assms(4,5) t])
  note sc = scan_is_key [OF assms(8) trim_space_idem False]
  have "lookupAPIKeyUpstreamModel (rt_apiKeyModelAlias env) (a_ID auth) ?q = [] \<or>
      lookupAPIKeyUpstreamModel (rt_apiKeyModelAlias env) (a_ID auth) ?q = resolveModelAliasFromConfigModels ?q ms"
    by (auto simp: l sc dest: table_agrees [OF assms(8)] split: option.split)
  then show ?thesis using False assms(6,7) by (auto simp: applyAPIKeyModelAlias_def Let_def)
qed

text \<open>An alias that is the upstream name of an earlier entry is shadowed in the table, not in the scan.\<close>

abbreviation configModel :: "string \<Rightarrow> string \<Rightarrow> ConfigModel" where
  "configModel name alias \<equiv> \<lparr>cm_Name = name, cm_Alias = alias, cm_ForceMapping = False\<rparr>"

theorem shadowed_alias_differs:
  "let ms = [configModel ''gpt-a'' ''fast'', configModel ''gpt-b'' ''gpt-a'']
   in m_get (compileAPIKeyModelAliasForModels [] ms) ''gpt-a'' = Some ''gpt-a''
    \<and> resolveModelAliasFromConfigModels ''gpt-a'' ms = ''gpt-b''"
  by code_simp

definition plainKey :: Auth where
  "plainKey = (new_auth ''k'' ''codex'')\<lparr>a_Attributes := [(''api_key'', ''s'')]\<rparr>"

definition plainKeyModels :: "ConfigModel list" where
  "plainKeyModels = [configModel ''gpt-5'' ''fast'', configModel ''gpt-6'' ''slow'']"

definition plainKeyRoute :: RouteEnv where
  "plainKeyRoute = (let cfg = \<lparr>cc_DisableCooling = False, cc_OpenAICompatibility = [], rc_GeminiKey = [], rc_InteractionsKey = [],
       rc_ClaudeKey = [], rc_CodexKey = [\<lparr>pk_APIKey = ''S'', pk_BaseURL = [], pk_Models = plainKeyModels\<rparr>], rc_XAIKey = [],
       rc_VertexCompatAPIKey = [], rc_HomeEnabled = False\<rparr>
     in \<lparr>rt_config = cfg, rt_alias = \<lparr>al_decode = \<lambda>_. None, al_table = []\<rparr>,
          rt_apiKeyModelAlias = rebuildAPIKeyModelAliasLocked cfg [(''k'', plainKey)]\<rparr>)"

lemma api_key_table_is_scan_witness:
  "applyAPIKeyModelAlias plainKeyRoute plainKey '' Fast(high)'' = ''gpt-5(high)''"
proof -
  have "m_ok [(''k'', plainKey)]" "\<forall>(k, a)\<in>set [(''k'', plainKey)]. a_ID a = k" "m_get [(''k'', plainKey)] (a_ID plainKey) = Some plainKey"
    "trim_space (a_ID plainKey) = a_ID plainKey" "a_ID plainKey \<noteq> []" "AuthKind plainKey = ''apikey''"
    "configuredModels (rt_config plainKeyRoute) plainKey = Some plainKeyModels" "unambiguous plainKeyModels"
    by code_simp+
  moreover have "rt_apiKeyModelAlias plainKeyRoute = rebuildAPIKeyModelAliasLocked (rt_config plainKeyRoute) [(''k'', plainKey)]"
    by (simp add: plainKeyRoute_def Let_def)
  ultimately have "applyAPIKeyModelAlias plainKeyRoute plainKey '' Fast(high)'' =
    (let q = trim_space '' Fast(high)''; scanned = resolveModelAliasFromConfigModels q plainKeyModels
     in if scanned = [] then q else scanned)"
    by (rule api_key_table_is_scan)
  also have "\<dots> = ''gpt-5(high)''" by code_simp
  finally show ?thesis .
qed

section \<open>The name of a result\<close>

lemma canonicalModelKey_trim [simp]: "canonicalModelKey (trim_space m) = canonicalModelKey m"
  by (simp add: canonicalModelKey_def)

lemma selectionModel_same: "sameCredential a b \<Longrightarrow> selectionModelForAuth env b route = selectionModelForAuth env a route"
proof -
  assume s: "sameCredential a b"
  then have attr: "authAttribute b = authAttribute a" "authMetadataString b = authMetadataString a" "authHasOAuthMetadata b = authHasOAuthMetadata a"
    by (auto simp: sameCredential_def authAttribute_def authMetadataString_def authHasOAuthMetadata_def fun_eq_iff)
  then have "AuthKind b = AuthKind a" by (simp only: AuthKind_def)
  moreover have "a_Provider b = a_Provider a" "a_Prefix b = a_Prefix a" "a_Attributes b = a_Attributes a"
    using s by (simp_all add: sameCredential_def)
  ultimately show ?thesis
    by (simp only: selectionModelForAuth_def rewriteModelForAuth_def applyOAuthModelAlias_def
        resolveOAuthUpstreamModel_def resolveOAuthModelAliasWithResult_def modelAliasChannel_def)
qed

lemma stateModel_same: "sameCredential a b \<Longrightarrow> stateModelForExecution env b route u pooled = stateModelForExecution env a route u pooled"
  by (simp add: stateModelForExecution_def selectionModel_same) (simp add: sameCredential_def homeUpstreamModel_def)

text \<open>
  A result is recorded under the name that selection reads. For a credential that is no API key and
  was not sent by Home, whatever aliases apply: the model list of an execution is one model, and the key of
  the name its result is recorded under is the key selection computes for the same request, so that a
  failure recorded for the request blocks the credential for the next one.\<close>
theorem result_name_is_selection_name:
  assumes "AuthKind auth \<noteq> ''apikey''" and "homeUpstreamModel auth = []"
    and "\<not> equal_fold (trim_space (m_get0 [] (a_Attributes auth) ''home_force_mapping'')) ''true''"
    and "trim_space (rewriteModelForAuth routeModel auth) \<noteq> []"
  shows "\<exists>u r. fst (executionModelCandidatesWithAlias env auth routeModel m) = ([u], False, r)
     \<and> canonicalModelKey (stateModelForExecution env auth routeModel u False) = selectionModelKeyForAuth env auth routeModel"
proof -
  let ?q = "rewriteModelForAuth routeModel auth"
  let ?u = "selectionModelForAuth env auth routeModel"
  have home: "homeForceMappingAliasResult auth ?q = noAlias" using assms(3) by (simp add: homeForceMappingAliasResult_def)
  have pool: "executionAliasPoolModel auth ?q (applyOAuthModelAliasWithResult (rt_alias env) auth ?q) = ?u"
    using assms(1,4) by (simp add: executionAliasPoolModel_def selectionModelForAuth_def applyOAuthModelAliasWithResult_def
        applyOAuthModelAlias_def resolveOAuthUpstreamModel_def Let_def)
  have ne: "trim_space ?u \<noteq> []" using assms(4) by (simp add: selectionModelForAuth_def Let_def)
  have cands: "poolCandidates env auth ?u m = ([?u], m)"
    using assms(1) by (simp add: poolCandidates_def resolveOpenAICompatUpstreamModelPool_def isOpenAICompatAPIKeyAuth_def
        applyAPIKeyModelAlias_def)
  have "fst (executionModelCandidatesWithAlias env auth routeModel m) =
      ([?u], False, applyOAuthModelAliasWithResult (rt_alias env) auth ?q)"
    using assms(1,2,3) by (simp add: executionModelCandidatesWithAlias_def resolveExecutionAliasResultForRequested_def home Let_def pool cands)
  moreover have "canonicalModelKey (stateModelForExecution env auth routeModel ?u False) = selectionModelKeyForAuth env auth routeModel"
    using assms(2) ne by (simp add: stateModelForExecution_def selectionModelKeyForAuth_def)
  ultimately show ?thesis by blast
qed

abbreviation emptyRouteConfig :: RouteConfig where
  "emptyRouteConfig \<equiv> \<lparr>cc_DisableCooling = False, cc_OpenAICompatibility = [], rc_GeminiKey = [], rc_InteractionsKey = [],
     rc_ClaudeKey = [], rc_CodexKey = [], rc_XAIKey = [], rc_VertexCompatAPIKey = [], rc_HomeEnabled = False\<rparr>"

abbreviation sampleRoute :: RouteEnv where
  "sampleRoute \<equiv> \<lparr>rt_config = emptyRouteConfig, rt_alias = \<lparr>al_decode = \<lambda>_. None,
     al_table = compileOAuthModelAliasTable [(''codex'', [sampleAlias ''gpt-5'' ''fast''])]\<rparr>, rt_apiKeyModelAlias = []\<rparr>"

lemma result_name_is_selection_name_witness:
  "\<exists>u r. fst (executionModelCandidatesWithAlias sampleRoute (new_auth ''a'' ''codex'') ''fast(high)'' (newManager :: nat AuthManager)) = ([u], False, r)
     \<and> canonicalModelKey (stateModelForExecution sampleRoute (new_auth ''a'' ''codex'') ''fast(high)'' u False)
        = selectionModelKeyForAuth sampleRoute (new_auth ''a'' ''codex'') ''fast(high)''"
proof -
  have "AuthKind (new_auth ''a'' ''codex'') \<noteq> ''apikey''" "homeUpstreamModel (new_auth ''a'' ''codex'') = []"
    "\<not> equal_fold (trim_space (m_get0 [] (a_Attributes (new_auth ''a'' ''codex'')) ''home_force_mapping'')) ''true''"
    "trim_space (rewriteModelForAuth ''fast(high)'' (new_auth ''a'' ''codex'')) \<noteq> []"
    by code_simp+
  then show ?thesis by (rule result_name_is_selection_name)
qed

text \<open>An API key with a prefix and an alias: the result is recorded under the name with the prefix, which
  selection does not read.\<close>

definition prefixedKey :: Auth where
  "prefixedKey = (new_auth ''k'' ''codex'')\<lparr>a_Prefix := ''team'', a_Attributes := [(''api_key'', ''s'')]\<rparr>"

definition prefixedRoute :: RouteEnv where
  "prefixedRoute = sampleRoute\<lparr>rt_config := emptyRouteConfig\<lparr>rc_CodexKey :=
     [\<lparr>pk_APIKey = ''s'', pk_BaseURL = [], pk_Models = [configModel ''gpt-5'' ''fast'']\<rparr>]\<rparr>\<rparr>"

theorem prefixed_alias_recorded_apart:
  "fst (executionModelCandidates prefixedRoute prefixedKey ''team/fast'' (newManager :: nat AuthManager)) = [''gpt-5'']
   \<and> stateModelForExecution prefixedRoute prefixedKey ''team/fast'' ''gpt-5'' False = ''team/fast''
   \<and> selectionModelForAuth prefixedRoute prefixedKey ''team/fast'' = ''fast''"
  by code_simp

section \<open>After a quota failure\<close>

text \<open>
  C11: After a quota failure the model that failed is left out of the executions of that credential
  exactly until the deadline. Whatever request brought the failure and whichever of its upstream models
  failed, for every later instant the models prepared for the same request contain that model if and only
  if it is a candidate and the deadline has passed.\<close>
theorem failed_model_left_out:
  assumes "res_AuthID result \<noteq> []" "m_get auths (res_AuthID result) = Some a"
    and "\<not> res_Success result" "res_Model result = stateModelForExecution env a route u pooled"
    and "res_Model result \<noteq> []" "\<not> a_Disabled a"
    and "res_Error result = Some e" "e_HTTPStatus e = 429" "e_Code e \<noteq> ''request_scoped''"
    and "\<not> isCloudflareChallengeErrorMessage (e_Message e)" "\<not> cooldownDisabledForAuth cenv a"
    and "d = (case res_RetryAfter result of Some r \<Rightarrow> now + r
      | None \<Rightarrow> fst (quotaCooldownAfterFailure (s_Quota (currentState a (res_Model result))) now))"
    and "0 \<le> now" "now < d" "now \<le> t"
  shows "\<exists>a'. m_get (out_auths (MarkResult cenv now result auths)) (res_AuthID result) = Some a'
     \<and> (u \<in> set (filterExecutionModels env t a' route candidates pooled) \<longleftrightarrow> u \<in> set candidates \<and> d \<le> t)"
proof -
  from quota_failure [OF assms(1,2,3,5,6-14)] obtain a' where
    a': "m_get (out_auths (MarkResult cenv now result auths)) (res_AuthID result) = Some a'"
      "\<forall>t\<ge>now. isAuthBlockedForModel (Some a') (res_Model result) t = (if t < d then (True, blockReasonCooldown, d) else (False, blockReasonNone, 0))"
    by blast
  from MarkResult_same [OF a'(1)] assms(2) have "sameCredential a a'" by auto
  then have "stateModelForExecution env a' route u pooled = res_Model result" using assms(4) by (simp add: stateModel_same)
  then show ?thesis using a' assms(15) by (auto simp: filterExecutionModels_def)
qed


definition sampleLimit :: AuthError where
  "sampleLimit = \<lparr>e_Code = [], e_Message = ''limit'', e_Retryable = False, e_HTTPStatus = 429\<rparr>"

abbreviation limitResult :: "string \<Rightarrow> Result" where
  "limitResult model \<equiv> \<lparr>res_AuthID = ''a'', res_Provider = ''codex'', res_Model = model,
     res_Success = False, res_RetryAfter = None, res_Error = Some sampleLimit\<rparr>"

lemma failed_model_left_out_witness:
  "\<exists>a'. m_get (out_auths (MarkResult sample_env 5 (limitResult ''gpt-5(high)'') sample_pool)) ''a'' = Some a'
     \<and> ''gpt-5(high)'' \<notin> set (filterExecutionModels sampleRoute 9 a' ''fast(high)'' [''gpt-5(high)''] False)"
proof -
  have c: "e_HTTPStatus sampleLimit = 429" "e_Code sampleLimit \<noteq> ''request_scoped''"
      "\<not> isCloudflareChallengeErrorMessage (e_Message sampleLimit)"
      "\<not> cooldownDisabledForAuth sample_env (new_auth ''a'' ''codex'')"
      "''gpt-5(high)'' = stateModelForExecution sampleRoute (new_auth ''a'' ''codex'') ''fast(high)'' ''gpt-5(high)'' False"
      "1000000005 = fst (quotaCooldownAfterFailure (s_Quota (currentState (new_auth ''a'' ''codex'') ''gpt-5(high)'')) 5)"
    by code_simp+
  show ?thesis
    using failed_model_left_out [of "limitResult ''gpt-5(high)''" sample_pool "new_auth ''a'' ''codex''" sampleRoute
      "''fast(high)''" "''gpt-5(high)''" False sampleLimit sample_env 1000000005 5 9 "[''gpt-5(high)'']"] c sample_pool_active by auto
qed


end
