(* ===== verification/RequestErrors.thy ===== *)
theory RequestErrors
  imports RefreshOutcome
begin

text \<open>
  The errors of executions (\<open>backend/sdk/cliproxy/auth/conductor_cooldown.go\<close>, \<open>errors.go\<close>): what a chain of
  wrapped errors says of its status, its scope and the time to wait, which errors are the fault
  of the request, which not-found errors name the requested model, and the error that a result
  records. The lemmas show that a request at fault never blocks the credential that served it.
\<close>

section \<open>Errors\<close>

text \<open>An error value is seen through the methods its type has: \<open>StatusCode\<close>, \<open>IsRequestScoped\<close>,
  \<open>RetryAfter\<close>; \<open>None\<close> stands for a type without the method. The kind names the types that the
  conductor looks for. \<open>JoinErr\<close> is a type whose \<open>Unwrap\<close> returns a list; an \<open>Unwrap\<close> that returns nil
  is a \<open>PlainErr\<close>. No error type of the repository defines \<open>Is\<close> or \<open>As\<close> of its own.\<close>

datatype errKind = OtherErr | HomeBusyErr | TerminatedErr | CooldownErr | BootstrapErr

record ErrView =
  ev_kind :: errKind
  ev_text :: string
  ev_status :: "int option"
  ev_scoped :: "bool option"
  ev_retryAfter :: "goduration option option"

datatype goerror = AuthErr AuthError | PlainErr ErrView | WrapErr ErrView goerror | JoinErr ErrView "goerror list"

fun viewOf :: "goerror \<Rightarrow> ErrView" where
  "viewOf (AuthErr e) = \<lparr>ev_kind = OtherErr, ev_text = errorText e, ev_status = Some (e_HTTPStatus e),
     ev_scoped = Some (IsRequestScoped e), ev_retryAfter = None\<rparr>"
| "viewOf (PlainErr v) = v"
| "viewOf (WrapErr v _) = v"
| "viewOf (JoinErr v _) = v"

definition errText :: "goerror \<Rightarrow> string" where
  "errText err = ev_text (viewOf err)"

text \<open>The order in which \<open>errors.As\<close> walks an error.\<close>

fun errChain :: "goerror \<Rightarrow> goerror list" where
  "errChain (WrapErr v inner) = WrapErr v inner # errChain inner"
| "errChain (JoinErr v es) = JoinErr v es # concat (map errChain es)"
| "errChain err = [err]"

definition errAs :: "(goerror \<Rightarrow> 'a option) \<Rightarrow> goerror \<Rightarrow> 'a option" where
  "errAs target err = (case List.map_filter target (errChain err) of [] \<Rightarrow> None | x # _ \<Rightarrow> Some x)"

fun asAuthErr :: "goerror \<Rightarrow> AuthError option" where
  "asAuthErr (AuthErr e) = Some e"
| "asAuthErr _ = None"

definition isKind :: "errKind \<Rightarrow> goerror \<Rightarrow> bool" where
  "isKind kind err \<longleftrightarrow> list_ex (\<lambda>e. ev_kind (viewOf e) = kind) (errChain err)"

definition isRequestTerminatedError :: "goerror \<Rightarrow> bool" where
  "isRequestTerminatedError err \<longleftrightarrow> isKind TerminatedErr err"

definition statusCodeFromError :: "goerror \<Rightarrow> int" where
  "statusCodeFromError err = (case errAs (\<lambda>e. ev_status (viewOf e)) err of None \<Rightarrow> 0 | Some s \<Rightarrow> s)"

definition isRequestScopedError :: "goerror \<Rightarrow> bool" where
  "isRequestScopedError err \<longleftrightarrow> errAs (\<lambda>e. ev_scoped (viewOf e)) err = Some True"

definition retryAfterFromError :: "goerror \<Rightarrow> goduration option" where
  "retryAfterFromError err = (case errAs (\<lambda>e. ev_retryAfter (viewOf e)) err of None \<Rightarrow> None | Some ra \<Rightarrow> ra)"

text \<open>What the refresh after a 401 reads of an error.\<close>

definition execErrorOf :: "goerror \<Rightarrow> ExecError" where
  "execErrorOf err = \<lparr>xe_status = statusCodeFromError err, xe_text = errText err\<rparr>"

section \<open>Errors of the request\<close>

definition isModelSupportError :: "goerror \<Rightarrow> bool" where
  "isModelSupportError err \<longleftrightarrow> statusCodeFromError err \<in> {400, 422} \<and> isModelSupportErrorMessage (errText err)"

definition isInvalidGrantError :: "goerror \<Rightarrow> bool" where
  "isInvalidGrantError err \<longleftrightarrow> statusCodeFromError err \<in> {400, 401} \<and> isInvalidGrantErrorMessage (errText err)"

definition isCloudflareChallengeError :: "goerror \<Rightarrow> bool" where
  "isCloudflareChallengeError err \<longleftrightarrow> isCloudflareChallengeErrorMessage (errText err)"

definition quotedText :: "char \<Rightarrow> string \<Rightarrow> string" where
  "quotedText q s = q # s @ [q]"

definition isRequestInvalidError :: "goerror \<Rightarrow> bool" where
  "isRequestInvalidError err \<longleftrightarrow>
     (if isRequestScopedError err then True
      else if isCloudflareChallengeError err then False
      else if isInvalidGrantError err then False
      else if isModelSupportError err then False
      else let status = statusCodeFromError err; msg = errText err
        in if status = 400
           then contains msg ''invalid_request_error'' \<or> contains msg ''bad_request_error''
             \<or> contains msg ''INVALID_ARGUMENT'' \<or> contains msg ''FAILED_PRECONDITION''
           else if status = 404 then isRequestScopedNotFoundMessage msg
           else if status = 422 then True
           else if status = 500
           then contains msg (quotedText CHR 0x22 ''status'' @ '':'' @ quotedText CHR 0x22 ''UNKNOWN'')
             \<or> contains msg (quotedText CHR 0x22 ''status'' @ '': '' @ quotedText CHR 0x22 ''UNKNOWN'')
           else False)"

definition resultErrorFromError :: "goerror \<Rightarrow> AuthError" where
  "resultErrorFromError err =
     (let resultErr = (case errAs asAuthErr err of
            Some sourceErr \<Rightarrow> sourceErr
          | None \<Rightarrow> \<lparr>e_Code = [], e_Message = errText err, e_Retryable = False, e_HTTPStatus = 0\<rparr>);
          resultErr = (if e_HTTPStatus resultErr = 0
            then resultErr\<lparr>e_HTTPStatus := statusCodeFromError err\<rparr> else resultErr)
      in if isRequestScopedError err \<or> isRequestInvalidError err
         then resultErr\<lparr>e_Code := ''request_scoped''\<rparr> else resultErr)"

section \<open>Errors that name the model\<close>

definition underscored :: "string \<Rightarrow> string" where
  "underscored s = map (\<lambda>c. if c = CHR ''-'' \<or> c = CHR '' '' then CHR ''_'' else c) s"

text \<open>The part after the last byte with a property; all of it when there is none.\<close>

definition afterLast :: "(char \<Rightarrow> bool) \<Rightarrow> string \<Rightarrow> string" where
  "afterLast P s = rev (takeWhile (\<lambda>c. \<not> P c) (rev s))"

definition isModelNotFoundIdentifier :: "string \<Rightarrow> bool" where
  "isModelNotFoundIdentifier val \<longleftrightarrow>
     (let candidate = to_lower (trim_space val);
          fragment = afterLast (\<lambda>c. c = CHR ''#'') candidate;
          candidate =
            (if CHR ''#'' \<in> set candidate \<and> fragment \<noteq> [] then fragment
             else let candidate = takeWhile (\<lambda>c. c \<noteq> CHR ''?'') candidate;
                      candidate = trim_right (\<lambda>c. c = CHR ''/'') candidate
               in afterLast (\<lambda>c. c = CHR ''/'' \<or> c = CHR '':'') candidate)
      in underscored candidate \<in> set [''model_not_found'', ''model_not_found_error'', ''unknown_model'',
           ''model_does_not_exist'', ''model_not_exist''])"

definition isNotFoundErrorIdentifier :: "string \<Rightarrow> bool" where
  "isNotFoundErrorIdentifier val \<longleftrightarrow>
     underscored (to_lower (trim_space val)) \<in> set [''not_found'', ''not_found_error'']"

definition isMessageEdge :: "char \<Rightarrow> bool" where
  "isMessageEdge c \<longleftrightarrow> c \<in> set [CHR '' '', CHR ''.'', CHR ''!'', CHR '';'', CHR 0x09, CHR 0x0D, CHR 0x0A]"

definition trimMessage :: "string \<Rightarrow> string" where
  "trimMessage s = trim_right isMessageEdge (trim_left isMessageEdge s)"

definition isMissingModelPhrase :: "string \<Rightarrow> bool" where
  "isMissingModelPhrase val \<longleftrightarrow>
     trimMessage val \<in> set [''not found'', ''was not found'', ''could not be found'', ''does not exist'',
       ''doesn'' @ CHR 0x27 # ''t exist'', ''not exist'', ''is unknown'']"

definition isReferenceEnd :: "char \<Rightarrow> bool" where
  "isReferenceEnd c \<longleftrightarrow> c \<in> set [CHR '' '', CHR '':'', CHR '','']"

fun firstReference :: "string \<Rightarrow> string list \<Rightarrow> string option" where
  "firstReference val [] = None"
| "firstReference val (candidate # candidates) =
     (if val = candidate then Some []
      else if \<not> has_prefix val candidate then firstReference val candidates
      else let remainder = drop (length candidate) val
        in if remainder = [] \<or> isReferenceEnd (hd remainder)
           then Some (trim_left isReferenceEnd remainder)
           else firstReference val candidates)"

text \<open>\<open>None\<close> is a result that does not match.\<close>

definition trimRequestedModelReference :: "string \<Rightarrow> string \<Rightarrow> string option" where
  "trimRequestedModelReference val requestedModel =
     (let model = to_lower (trim_space requestedModel)
      in if model = [] then None
         else firstReference val [model, quotedText CHR 0x27 model, quotedText CHR 0x22 model, quotedText CHR 0x60 model])"

definition trimPrefix :: "string \<Rightarrow> string \<Rightarrow> string" where
  "trimPrefix s p = (if has_prefix s p then drop (length p) s else s)"

definition opensWith :: "string \<Rightarrow> string \<Rightarrow> bool" where
  "opensWith lower p \<longleftrightarrow> lower = p \<or> has_prefix lower (p @ '' '') \<or> has_prefix lower (p @ '':'')"

definition afterOpening :: "string \<Rightarrow> string \<Rightarrow> string" where
  "afterOpening lower p = trim_space (trimPrefix (trim_space (trimPrefix lower p)) '':'')"

definition modelOpenings :: "string list" where
  "modelOpenings = [''the requested model'', ''requested model'', ''the model'', ''model'']"

definition isExplicitModelNotFoundMessage :: "string \<Rightarrow> string \<Rightarrow> bool" where
  "isExplicitModelNotFoundMessage message requestedModel \<longleftrightarrow>
     (let lower = trimMessage (to_lower (trim_space message))
      in if lower = [] then False
         else let normalized = underscored lower
           in if contains normalized ''model_not_found'' \<or> contains normalized ''unknown_model'' then True
              else (case find (opensWith lower) [''no such model'', ''unknown model''] of
                      Some p \<Rightarrow>
                        (let remainder = afterOpening lower p
                         in if remainder = [] then True
                            else trimRequestedModelReference remainder requestedModel = Some [])
                    | None \<Rightarrow>
                        (case find (opensWith lower) modelOpenings of
                           None \<Rightarrow> False
                         | Some p \<Rightarrow>
                             (let remainder = afterOpening lower p
                              in if isMissingModelPhrase remainder then True
                                 else (case trimRequestedModelReference remainder requestedModel of
                                         None \<Rightarrow> False
                                       | Some missingSuffix \<Rightarrow> isMissingModelPhrase missingSuffix)))))"

definition isExactRequestedModelReference :: "string \<Rightarrow> string \<Rightarrow> bool" where
  "isExactRequestedModelReference message requestedModel \<longleftrightarrow>
     (let lower = trimMessage (to_lower (trim_space message))
      in (case find (opensWith lower) modelOpenings of
            None \<Rightarrow> False
          | Some p \<Rightarrow> trimRequestedModelReference (afterOpening lower p) requestedModel = Some []))"

text \<open>What \<open>json.Unmarshal\<close> makes of a message; numbers, booleans and null are never looked at.\<close>

datatype gojson = JOther | JString string | JArray "gojson list" | JObject "(string \<times> gojson) list"

fun jsonText :: "gojson \<Rightarrow> string option" where
  "jsonText (JString s) = Some s"
| "jsonText _ = None"

text \<open>The switch on the key of a member whose value is a text: whether it settles the answer, whether it
  is a not-found type, and whether it is a reference to the model and nothing else.\<close>

definition memberNamesModel :: "string \<Rightarrow> string \<Rightarrow> string \<Rightarrow> bool" where
  "memberNamesModel requestedModel key text \<longleftrightarrow>
     (let key = to_lower (trim_space key)
      in if key = ''code'' \<or> key = ''type'' then isModelNotFoundIdentifier text
         else key \<in> set [''error'', ''message'', ''detail'', ''error_description'', ''title'']
           \<and> isExplicitModelNotFoundMessage text requestedModel)"

definition memberIsNotFoundType :: "string \<Rightarrow> string \<Rightarrow> bool" where
  "memberIsNotFoundType key text \<longleftrightarrow> to_lower (trim_space key) = ''type'' \<and> isNotFoundErrorIdentifier text"

definition memberIsReference :: "string \<Rightarrow> string \<Rightarrow> string \<Rightarrow> bool" where
  "memberIsReference requestedModel key text \<longleftrightarrow>
     to_lower (trim_space key) \<in> set [''error'', ''message'', ''detail'', ''error_description'', ''title'']
     \<and> isExactRequestedModelReference text requestedModel"

fun containsStructuredModelNotFound :: "gojson \<Rightarrow> string \<Rightarrow> bool" where
  "containsStructuredModelNotFound (JObject members) requestedModel \<longleftrightarrow>
     list_ex (\<lambda>(key, item). (case jsonText item of Some text \<Rightarrow> memberNamesModel requestedModel key text | None \<Rightarrow> False)
        \<or> containsStructuredModelNotFound item requestedModel) members
     \<or> list_ex (\<lambda>(key, item). case jsonText item of Some text \<Rightarrow> memberIsNotFoundType key text | None \<Rightarrow> False) members
       \<and> list_ex (\<lambda>(key, item). case jsonText item of Some text \<Rightarrow> memberIsReference requestedModel key text | None \<Rightarrow> False) members"
| "containsStructuredModelNotFound (JArray items) requestedModel \<longleftrightarrow>
     list_ex (\<lambda>item. (case jsonText item of Some text \<Rightarrow> isExplicitModelNotFoundMessage text requestedModel | None \<Rightarrow> False)
       \<or> containsStructuredModelNotFound item requestedModel) items"
| "containsStructuredModelNotFound _ requestedModel \<longleftrightarrow> False"

text \<open>\<open>decode\<close> is \<open>json.Unmarshal\<close> into an empty interface, \<open>None\<close> its error.\<close>

definition isStructuredModelNotFoundError :: "(string \<Rightarrow> gojson option) \<Rightarrow> string \<Rightarrow> string \<Rightarrow> bool" where
  "isStructuredModelNotFoundError decode message requestedModel \<longleftrightarrow>
     (case decode (trim_space message) of
        None \<Rightarrow> False | Some payload \<Rightarrow> containsStructuredModelNotFound payload requestedModel)"

fun isExplicitModelNotFoundError :: "(string \<Rightarrow> gojson option) \<Rightarrow> goerror \<Rightarrow> string \<Rightarrow> bool" where
  "isExplicitModelNotFoundError decode (AuthErr e) requestedModel \<longleftrightarrow>
     isModelNotFoundIdentifier (e_Code e) \<or> isStructuredModelNotFoundError decode (e_Message e) requestedModel"
| "isExplicitModelNotFoundError decode (PlainErr v) requestedModel \<longleftrightarrow>
     isStructuredModelNotFoundError decode (ev_text v) requestedModel"
| "isExplicitModelNotFoundError decode (WrapErr v inner) requestedModel \<longleftrightarrow>
     isStructuredModelNotFoundError decode (ev_text v) requestedModel
     \<or> isExplicitModelNotFoundError decode inner requestedModel"
| "isExplicitModelNotFoundError decode (JoinErr v es) requestedModel \<longleftrightarrow>
     isStructuredModelNotFoundError decode (ev_text v) requestedModel
     \<or> list_ex (\<lambda>nested. isExplicitModelNotFoundError decode nested requestedModel) es"

definition isCountTokensEndpointNotFoundError :: "(string \<Rightarrow> gojson option) \<Rightarrow> goerror \<Rightarrow> string \<Rightarrow> bool" where
  "isCountTokensEndpointNotFoundError decode err requestedModel \<longleftrightarrow>
     statusCodeFromError err = 404
     \<and> \<not> isExplicitModelNotFoundError decode err (sr_ModelName (ParseSuffix requestedModel))"

end
