(* ===== verification/RouteSelection.thy ===== *)
theory RouteSelection
  imports RequestErrors ModelPools SchedulerMixed
begin

text \<open>
  The choice of a credential for a request (\<open>backend/sdk/cliproxy/auth/conductor_selection.go\<close>): the
  candidates of a route, the plugin scheduler, the selector or the built-in scheduler, and the
  decision to wait for a cooldown and try again. The control plane (\<open>HomeEnabled\<close>) is off.
\<close>

section \<open>Providers\<close>

definition providerStep :: "string list \<Rightarrow> string \<Rightarrow> string list" where
  "providerStep result provider =
     (let p = trim_space (to_lower provider) in if p = [] \<or> p \<in> set result then result else result @ [p])"

definition normalizeProviders :: "string list \<Rightarrow> string list" where
  "normalizeProviders providers = foldl providerStep [] providers"

definition usableAuth :: "Auth \<Rightarrow> bool" where
  "usableAuth auth \<longleftrightarrow> \<not> a_Disabled auth \<and> a_Status auth \<noteq> StatusDisabled"

definition AvailableProviders :: "'x AuthManager \<Rightarrow> string list" where
  "AvailableProviders m = sort (normalizeProviderKeys (map a_Provider (filter usableAuth (map snd (am_auths m)))))"

definition HasProviderAuth :: "string \<Rightarrow> 'x AuthManager \<Rightarrow> bool" where
  "HasProviderAuth provider m \<longleftrightarrow>
     (let provider = to_lower (trim_space provider)
      in provider \<noteq> [] \<and> list_ex (\<lambda>(_, auth). usableAuth auth \<and> to_lower (trim_space (a_Provider auth)) = provider) (am_auths m))"

text \<open>The executor under a key, or under its lower case.\<close>

definition lookupExecutor :: "string \<Rightarrow> 'x AuthManager \<Rightarrow> 'x option" where
  "lookupExecutor provider m =
     (let provider = trim_space provider
      in if provider = [] then None
         else (case m_get (am_executors m) provider of
                 Some executor \<Rightarrow> Some executor
               | None \<Rightarrow> m_get (am_executors m) (to_lower provider)))"

section \<open>Waiting for a cooldown\<close>

definition retrySettings :: "'x AuthManager \<Rightarrow> int \<times> int \<times> goduration" where
  "retrySettings m = (am_requestRetry m, am_maxRetryCredentials m, am_maxRetryInterval m)"

text \<open>The number of retries a credential allows: its override or the default.\<close>

definition effectiveRetry :: "'x AuthManager \<Rightarrow> Auth \<Rightarrow> int" where
  "effectiveRetry m auth =
     (let defaultRetry = (if am_requestRetry m < 0 then 0 else am_requestRetry m);
          (override, ok) = RequestRetryOverride auth;
          effective = (if ok then override else defaultRetry)
      in if effective < 0 then 0 else effective)"

definition servesProviders :: "string list \<Rightarrow> Auth \<Rightarrow> bool" where
  "servesProviders providers auth \<longleftrightarrow> executorKeyFromAuth auth \<in> set (normalizeProviders providers)"

definition routeCheckModel :: "RouteEnv \<Rightarrow> Auth \<Rightarrow> string \<Rightarrow> string" where
  "routeCheckModel env auth model = (if trim_space model \<noteq> [] then selectionModelForAuth env auth model else model)"

definition waitStep :: "RouteEnv \<Rightarrow> gotime \<Rightarrow> string list \<Rightarrow> string \<Rightarrow> int \<Rightarrow> 'x AuthManager \<Rightarrow> goduration option \<Rightarrow> Auth
    \<Rightarrow> goduration option" where
  "waitStep env now providers model attempt m minWait auth =
     (if \<not> servesProviders providers auth then minWait
      else if attempt \<ge> effectiveRetry m auth then minWait
      else let (blocked, reason, nxt) = isAuthBlockedForModel (Some auth) (routeCheckModel env auth model) now
        in if \<not> blocked \<or> is_zero nxt \<or> reason = blockReasonDisabled then minWait
           else let wait = time_sub nxt now
             in if wait < 0 then minWait
                else (case minWait of
                        None \<Rightarrow> Some wait
                      | Some w \<Rightarrow> if wait < w then Some wait else Some w))"

definition closestCooldownWait :: "RouteEnv \<Rightarrow> gotime \<Rightarrow> string list \<Rightarrow> string \<Rightarrow> int \<Rightarrow> 'x AuthManager \<Rightarrow> goduration option" where
  "closestCooldownWait env now providers model attempt m =
     (if providers = [] then None
      else foldl (waitStep env now providers model attempt m) None (map snd (am_auths m)))"

definition retryAllowed :: "int \<Rightarrow> string list \<Rightarrow> 'x AuthManager \<Rightarrow> bool" where
  "retryAllowed attempt providers m \<longleftrightarrow>
     (if attempt < 0 \<or> providers = [] then False
      else if normalizeProviders providers = [] then False
      else list_ex (\<lambda>(_, auth). servesProviders providers auth \<and> attempt < effectiveRetry m auth) (am_auths m))"

definition shouldRetryAfterError :: "RouteEnv \<Rightarrow> gotime \<Rightarrow> goerror \<Rightarrow> int \<Rightarrow> string list \<Rightarrow> string \<Rightarrow> goduration \<Rightarrow> 'x AuthManager
    \<Rightarrow> goduration option" where
  "shouldRetryAfterError env now err attempt providers model maxWait m =
     (if isKind HomeBusyErr err then None
      else if maxWait \<le> 0 then None
      else let status = statusCodeFromError err
        in if status = 200 then None
           else if isRequestInvalidError err then None
           else (case closestCooldownWait env now providers model attempt m of
                   Some wait \<Rightarrow> if wait > maxWait then None else Some wait
                 | None \<Rightarrow>
                     if status \<noteq> 429 then None
                     else if \<not> retryAllowed attempt providers m then None
                     else (case retryAfterFromError err of
                             None \<Rightarrow> None
                           | Some ra \<Rightarrow> if ra \<le> 0 \<or> ra > maxWait then None else Some ra)))"

definition cooldownWaitJitterCap :: goduration where
  "cooldownWaitJitterCap = 2 * second"

text \<open>\<open>rand n\<close> is the reading of \<open>rand.N(n)\<close>.\<close>

definition jitteredCooldownWait :: "(int \<Rightarrow> int) \<Rightarrow> goduration \<Rightarrow> goduration \<Rightarrow> goduration" where
  "jitteredCooldownWait rand wait maxWait =
     (if wait \<le> 0 then wait
      else let jitterRange = go_div wait 4;
               jitterRange = (if jitterRange > cooldownWaitJitterCap then cooldownWaitJitterCap else jitterRange);
               jitterRange = (if maxWait > 0 \<and> jitterRange > maxWait - wait then maxWait - wait else jitterRange)
        in if jitterRange \<le> 0 then wait else wait + rand jitterRange)"

section \<open>Errors of a pick\<close>

definition newAuthError :: "string \<Rightarrow> string \<Rightarrow> goerror" where
  "newAuthError code message = AuthErr \<lparr>e_Code = code, e_Message = message, e_Retryable = False, e_HTTPStatus = 0\<rparr>"

text \<open>The errors of the selectors and the scheduler as error values; \<open>notFound\<close> is the message of the
  place that raised a missing credential, \<open>cooldownText\<close> the JSON text of a cooldown error.\<close>

definition pickErrorOf :: "(string \<Rightarrow> string \<Rightarrow> goduration \<Rightarrow> string) \<Rightarrow> string \<Rightarrow> PickError \<Rightarrow> goerror" where
  "pickErrorOf cooldownText notFound err =
     (case err of
        ErrAuthNotFound \<Rightarrow> newAuthError ''auth_not_found'' notFound
      | ErrAuthUnavailable message \<Rightarrow> newAuthError ''auth_unavailable'' message
      | ErrModelCooldown model provider resetIn \<Rightarrow>
          PlainErr \<lparr>ev_kind = CooldownErr, ev_text = cooldownText model provider resetIn, ev_status = Some 429,
            ev_scoped = None, ev_retryAfter = None\<rparr>)"

definition mixedErrorOf :: "(string \<Rightarrow> string \<Rightarrow> goduration \<Rightarrow> string) \<Rightarrow> MixedError \<Rightarrow> goerror" where
  "mixedErrorOf cooldownText err =
     (case err of
        ErrProviderNotFound \<Rightarrow> newAuthError ''provider_not_found'' ''no provider supplied''
      | MixedPickError e \<Rightarrow> pickErrorOf cooldownText ''no auth available'' e)"

definition shouldRetrySchedulerPick :: "goerror \<Rightarrow> bool" where
  "shouldRetrySchedulerPick err \<longleftrightarrow>
     isKind CooldownErr err
     \<or> (case errAs asAuthErr err of None \<Rightarrow> False | Some e \<Rightarrow> e_Code e = ''auth_not_found'' \<or> e_Code e = ''auth_unavailable'')"

section \<open>Candidates of a route\<close>

definition availableAuthsForRouteModel :: "RouteEnv \<Rightarrow> gotime \<Rightarrow> Auth list \<Rightarrow> string \<Rightarrow> string \<Rightarrow> PickError + Auth list" where
  "availableAuthsForRouteModel env now auths provider routeModel =
     (if auths = [] then Inl ErrAuthNotFound
      else let (available, cooldownCount, earliest) =
                 foldl (\<lambda>acc candidate. collectStep (selectionModelForAuth env candidate routeModel) now acc (Some candidate))
                   ([], 0, zero_time) auths
        in (case bestPriority (m_keys available) of
              None \<Rightarrow>
                if cooldownCount = int (length auths) \<and> \<not> is_zero earliest
                then Inl (newModelCooldownError routeModel (if provider = ''mixed'' then [] else provider)
                  (time_sub earliest now))
                else Inl (ErrAuthUnavailable ''no auth available'')
            | Some best \<Rightarrow> Inr (sort_key a_ID (m_get0 [] available best))))"

definition authSupportsRouteModel :: "RouteEnv \<Rightarrow> 'c ModelRegistry \<Rightarrow> Auth \<Rightarrow> string \<Rightarrow> bool" where
  "authSupportsRouteModel env reg auth routeModel \<longleftrightarrow>
     (let routeKey = canonicalModelKey routeModel
      in if routeKey = [] then True
         else if ClientSupportsModel (a_ID auth) routeKey reg then True
         else let selectionKey = selectionModelKeyForAuth env auth routeModel
           in selectionKey \<noteq> [] \<and> selectionKey \<noteq> routeKey \<and> ClientSupportsModel (a_ID auth) selectionKey reg)"

definition routeAwareSelectionRequired :: "RouteEnv \<Rightarrow> Auth \<Rightarrow> string \<Rightarrow> bool" where
  "routeAwareSelectionRequired env auth routeModel \<longleftrightarrow>
     trim_space routeModel \<noteq> [] \<and> selectionModelKeyForAuth env auth routeModel \<noteq> canonicalModelKey routeModel"

text \<open>The model key a pick requires support for; empty for none.\<close>

definition routeModelKey :: "string \<Rightarrow> string" where
  "routeModelKey model =
     (let modelKey = trim_space model
      in if modelKey = [] then []
         else let parsed = ParseSuffix modelKey
           in if sr_ModelName parsed \<noteq> [] then trim_space (sr_ModelName parsed) else modelKey)"

section \<open>Requests and the state of a pick\<close>

text \<open>A request as a pick sees it: besides what the scheduler reads, the session identifiers of its
  headers and body, and whether it streams.\<close>

record RouteRequest = SchedRequest +
  rq_primaryID :: string
  rq_fallbackID :: string
  rq_stream :: bool

definition schedOf :: "RouteRequest \<Rightarrow> SchedRequest" where
  "schedOf rq = \<lparr>rq_requiredKind = rq_requiredKind rq, rq_websocket = rq_websocket rq, rq_metadata = rq_metadata rq,
     rq_tried = rq_tried rq\<rparr>"

record SchedulerAuthCandidate =
  pc_ID :: string
  pc_Provider :: string
  pc_Priority :: int
  pc_Status :: Status
  pc_Attributes :: "(string, string) gomap"

record SchedulerPickRequest =
  pq_Provider :: string
  pq_Providers :: "string list"
  pq_Model :: string
  pq_Stream :: bool
  pq_Metadata :: "(string, goany) gomap"
  pq_Candidates :: "SchedulerAuthCandidate list"

record SchedulerPickResponse =
  pp_AuthID :: string
  pp_DelegateBuiltin :: string
  pp_Handled :: bool

text \<open>A plugin scheduler outside the program: whether it holds a scheduler, and its reply to the
  request at a moment.\<close>

record PluginScheduler =
  pl_hasScheduler :: bool
  pl_pick :: "nat \<Rightarrow> SchedulerPickRequest \<Rightarrow> goerror + (SchedulerPickResponse \<times> bool)"

text \<open>The state a pick reads and writes. \<open>cd_tick\<close> counts the observations of the outside, so that the
  clock and the plugin are functions of it.\<close>

record ('x, 'c, 's) Conductor =
  cd_manager :: "'x AuthManager"
  cd_registry :: "'c ModelRegistry"
  cd_scheduler :: authScheduler
  cd_selector :: 's
  cd_tick :: nat

record 's SelectEnv =
  sv_route :: RouteEnv
  sv_index :: IndexEnv
  sv_selectorKind :: SelectorKind
  sv_pick :: "'s \<Rightarrow> PickRequest \<Rightarrow> Auth option list \<Rightarrow> 's \<times> (PickError + Auth)"
  sv_plugin :: "PluginScheduler option"
  sv_clock :: "nat \<Rightarrow> gotime"
  sv_cooldownText :: "string \<Rightarrow> string \<Rightarrow> goduration \<Rightarrow> string"

definition ticked :: "nat \<Rightarrow> ('x, 'c, 's) Conductor \<Rightarrow> ('x, 'c, 's) Conductor" where
  "ticked n st = st\<lparr>cd_tick := cd_tick st + n\<rparr>"

definition isBuiltInSelector :: "SelectorKind \<Rightarrow> bool" where
  "isBuiltInSelector kind \<longleftrightarrow> kind \<in> {RoundRobinKind, WeightedRoundRobinKind, FillFirstKind}"

definition selectionArgForSelector :: "SelectorKind \<Rightarrow> string \<Rightarrow> string" where
  "selectionArgForSelector kind routeModel = (if isBuiltInSelector kind then [] else routeModel)"

definition selectorRouteModel :: "SelectorKind \<Rightarrow> string \<Rightarrow> string option" where
  "selectorRouteModel kind routeModel =
     (if kind \<noteq> WeightedRoundRobinKind \<or> trim_space routeModel = [] then None else Some routeModel)"

definition hasPluginScheduler :: "'s SelectEnv \<Rightarrow> bool" where
  "hasPluginScheduler env \<longleftrightarrow> (case sv_plugin env of None \<Rightarrow> False | Some p \<Rightarrow> pl_hasScheduler p)"

definition useSchedulerFastPath :: "'s SelectEnv \<Rightarrow> bool" where
  "useSchedulerFastPath env \<longleftrightarrow> isBuiltInSelector (sv_selectorKind env)"

section \<open>The built-in scheduler\<close>

definition syncScheduler :: "'s SelectEnv \<Rightarrow> ('x, 'c, 's) Conductor \<Rightarrow> ('x, 'c, 's) Conductor" where
  "syncScheduler env st =
     (ticked 1 st)\<lparr>cd_scheduler := rebuild (cd_registry st) (map (\<lambda>(_, a). Some a) (am_auths (cd_manager st)))
       (sv_clock env (cd_tick st)) (cd_scheduler st)\<rparr>"

definition RefreshSchedulerEntry :: "'s SelectEnv \<Rightarrow> string \<Rightarrow> ('x, 'c, 's) Conductor \<Rightarrow> ('x, 'c, 's) Conductor" where
  "RefreshSchedulerEntry env authID st =
     (if authID = [] then st
      else (case m_get (am_auths (cd_manager st)) authID of
              None \<Rightarrow> st
            | Some auth \<Rightarrow> (ticked 1 st)\<lparr>cd_scheduler := upsertAuth (cd_registry st) (Some auth)
                (sv_clock env (cd_tick st)) (cd_scheduler st)\<rparr>))"

definition RefreshSchedulerAll :: "'s SelectEnv \<Rightarrow> ('x, 'c, 's) Conductor \<Rightarrow> ('x, 'c, 's) Conductor" where
  "RefreshSchedulerAll env st = foldl (\<lambda>st authID. RefreshSchedulerEntry env authID st) st (m_keys (am_auths (cd_manager st)))"

text \<open>One pick of the scheduler, over one provider or over several.\<close>

definition schedulerPick :: "'s SelectEnv \<Rightarrow> bool \<Rightarrow> string \<Rightarrow> string list \<Rightarrow> string \<Rightarrow> RouteRequest \<Rightarrow> schedulerStrategy
    \<Rightarrow> ('x, 'c, 's) Conductor \<Rightarrow> ('x, 'c, 's) Conductor \<times> (goerror + Auth \<times> string)" where
  "schedulerPick env mixed provider providers model rq strategy st =
     (let t = cd_tick st; now1 = sv_clock env t; now2 = sv_clock env (t + 1); now3 = sv_clock env (t + 2);
          (s, r) = (if mixed
            then map_prod id (map_sum (mixedErrorOf (sv_cooldownText env)) id)
              (pickMixedWithStrategy providers model (schedOf rq) strategy now1 now2 now3 (cd_scheduler st))
            else map_prod id (map_sum (pickErrorOf (sv_cooldownText env) ''no auth available'') (\<lambda>a. (a, provider)))
              (pickSingleWithStrategy provider model (schedOf rq) strategy now1 now2 now3 (cd_scheduler st)))
      in ((ticked 3 st)\<lparr>cd_scheduler := s\<rparr>, r))"

text \<open>The pick, tried again on a scheduler rebuilt from the credentials.\<close>

definition schedulerPickSynced :: "'s SelectEnv \<Rightarrow> bool \<Rightarrow> string \<Rightarrow> string list \<Rightarrow> string \<Rightarrow> RouteRequest \<Rightarrow> schedulerStrategy
    \<Rightarrow> ('x, 'c, 's) Conductor \<Rightarrow> ('x, 'c, 's) Conductor \<times> (goerror + Auth \<times> string)" where
  "schedulerPickSynced env mixed provider providers model rq strategy st =
     (case schedulerPick env mixed provider providers model rq strategy st of
        (st, Inl errPick) \<Rightarrow>
          if model \<noteq> [] \<and> shouldRetrySchedulerPick errPick
          then schedulerPick env mixed provider providers model rq strategy (syncScheduler env st)
          else (st, Inl errPick)
      | (st, Inr selected) \<Rightarrow> (st, Inr selected))"

definition pickViaBuiltinScheduler :: "'s SelectEnv \<Rightarrow> schedulerStrategy \<Rightarrow> string \<Rightarrow> string list \<Rightarrow> string \<Rightarrow> RouteRequest
    \<Rightarrow> ('x, 'c, 's) Conductor \<Rightarrow> ('x, 'c, 's) Conductor \<times> (goerror + Auth)" where
  "pickViaBuiltinScheduler env strategy provider providers model rq st =
     (let providerKey = to_lower (trim_space provider)
      in map_prod id (map_sum id fst)
           (schedulerPickSynced env (providerKey = ''mixed'') providerKey providers model rq strategy st))"

section \<open>The plugin scheduler\<close>

definition schedulerAttributeSensitive :: "string \<Rightarrow> bool" where
  "schedulerAttributeSensitive key \<longleftrightarrow>
     (let key = to_lower (trim_space key);
          normalized = map (\<lambda>c. if c \<in> set ''-. '' then CHR ''_'' else c) key;
          compact = filter (\<lambda>c. c \<notin> set ''_-. '') key
      in list_ex (\<lambda>fragment. contains key fragment \<or> contains normalized fragment \<or> contains compact fragment)
           [''api_key'', ''apikey'', ''token'', ''secret'', ''cookie'', ''credential'', ''password'', ''storage'',
            ''authorization'', ''auth_header'', ''proxy_url''])"

definition schedulerSafeAttributes :: "(string, string) gomap \<Rightarrow> (string, string) gomap" where
  "schedulerSafeAttributes src = filter (\<lambda>(key, _). \<not> schedulerAttributeSensitive key) src"

definition schedulerAuthCandidates :: "Auth list \<Rightarrow> SchedulerAuthCandidate list" where
  "schedulerAuthCandidates auths = map (\<lambda>auth. \<lparr>pc_ID = a_ID auth, pc_Provider = to_lower (trim_space (a_Provider auth)),
     pc_Priority = authPriority (Some auth), pc_Status = a_Status auth,
     pc_Attributes = schedulerSafeAttributes (a_Attributes auth)\<rparr>) auths"

definition addProvider :: "string list \<Rightarrow> string \<Rightarrow> string list" where
  "addProvider out val =
     (let val = to_lower (trim_space val) in if val = [] \<or> val = ''mixed'' \<or> val \<in> set out then out else out @ [val])"

definition schedulerProviders :: "string \<Rightarrow> string list \<Rightarrow> string list" where
  "schedulerProviders provider providers = foldl addProvider (addProvider [] provider) providers"

definition pickSchedulerAuthByID :: "Auth list \<Rightarrow> string \<Rightarrow> Auth option" where
  "pickSchedulerAuthByID candidates authID =
     (let authID = trim_space authID
      in if authID = [] then None else find (\<lambda>candidate. a_ID candidate = authID) candidates)"

definition builtinSchedulerStrategy :: "string \<Rightarrow> schedulerStrategy option" where
  "builtinSchedulerStrategy delegate =
     (let delegate = trim_space delegate
      in if delegate = ''round-robin'' then Some schedulerStrategyRoundRobin
         else if delegate = ''fill-first'' then Some schedulerStrategyFillFirst else None)"

text \<open>\<open>None\<close> is a plugin that does not handle the request.\<close>

definition pickViaPluginScheduler :: "'s SelectEnv \<Rightarrow> string \<Rightarrow> string list \<Rightarrow> string \<Rightarrow> RouteRequest \<Rightarrow> Auth list
    \<Rightarrow> ('x, 'c, 's) Conductor \<Rightarrow> ('x, 'c, 's) Conductor \<times> (goerror + Auth) option" where
  "pickViaPluginScheduler env provider providers model rq candidates st =
     (case sv_plugin env of
        None \<Rightarrow> (st, None)
      | Some plugin \<Rightarrow>
          if candidates = [] then (st, None)
          else let providerKey = to_lower (trim_space provider);
                   req = \<lparr>pq_Provider = (if providerKey = ''mixed'' then [] else providerKey),
                     pq_Providers = schedulerProviders providerKey providers, pq_Model = model,
                     pq_Stream = rq_stream rq, pq_Metadata = rq_metadata rq,
                     pq_Candidates = schedulerAuthCandidates candidates\<rparr>
            in (case pl_pick plugin (cd_tick st) req of
                  Inl errPick \<Rightarrow> (ticked 1 st, Some (Inl errPick))
                | Inr (resp, handled) \<Rightarrow>
                    if \<not> handled \<or> \<not> pp_Handled resp then (ticked 1 st, None)
                    else (case pickSchedulerAuthByID candidates (pp_AuthID resp) of
                            Some selected \<Rightarrow> (ticked 1 st, Some (Inr selected))
                          | None \<Rightarrow>
                              (case builtinSchedulerStrategy (pp_DelegateBuiltin resp) of
                                 None \<Rightarrow> (ticked 1 st, None)
                               | Some strategy \<Rightarrow> map_prod id Some
                                   (pickViaBuiltinScheduler env strategy providerKey providers model rq (ticked 1 st))))))"

section \<open>The pick over the credentials\<close>

text \<open>The conditions on a candidate that do not depend on its provider.\<close>

definition routeCandidate :: "'s SelectEnv \<Rightarrow> string \<Rightarrow> RouteRequest \<Rightarrow> ('x, 'c, 's) Conductor \<Rightarrow> Auth \<Rightarrow> bool" where
  "routeCandidate env model rq st auth \<longleftrightarrow>
     (let pinnedAuthID = pinnedAuthIDFromMetadata (rq_metadata rq)
      in \<not> a_Disabled auth \<and> (pinnedAuthID = [] \<or> a_ID auth = pinnedAuthID)
         \<and> allows (authSelectionEligibilityForRequest (schedOf rq)) auth
         \<and> a_ID auth \<notin> set (rq_tried rq)
         \<and> (routeModelKey model = [] \<or> authSupportsRouteModel (sv_route env) (cd_registry st) auth model))"

definition legacyCandidates :: "'s SelectEnv \<Rightarrow> string \<Rightarrow> string \<Rightarrow> RouteRequest \<Rightarrow> ('x, 'c, 's) Conductor \<Rightarrow> Auth list" where
  "legacyCandidates env provider model rq st =
     filter (\<lambda>auth. executorKeyFromAuth auth = provider \<and> routeCandidate env model rq st auth)
       (map snd (am_auths (cd_manager st)))"

definition mixedCandidates :: "'s SelectEnv \<Rightarrow> string list \<Rightarrow> string \<Rightarrow> RouteRequest \<Rightarrow> ('x, 'c, 's) Conductor \<Rightarrow> Auth list" where
  "mixedCandidates env providers model rq st =
     filter (\<lambda>auth. routeCandidate env model rq st auth
         \<and> (let providerKey = executorKeyFromAuth auth
            in providerKey \<noteq> [] \<and> providerKey \<in> set (normalizeProviders providers)
               \<and> m_get (am_executors (cd_manager st)) providerKey \<noteq> None))
       (map snd (am_auths (cd_manager st)))"

text \<open>The selector's pick among the available candidates, after the plugin's.\<close>

definition selectAmong :: "'s SelectEnv \<Rightarrow> string \<Rightarrow> string list \<Rightarrow> string \<Rightarrow> RouteRequest \<Rightarrow> Auth list
    \<Rightarrow> ('x, 'c, 's) Conductor \<Rightarrow> ('x, 'c, 's) Conductor \<times> (goerror + Auth)" where
  "selectAmong env provider providers model rq candidates st =
     (if candidates = [] then (st, Inl (newAuthError ''auth_not_found'' ''no auth available''))
      else (case availableAuthsForRouteModel (sv_route env) (sv_clock env (cd_tick st)) candidates provider model of
              Inl err \<Rightarrow> (ticked 1 st, Inl (pickErrorOf (sv_cooldownText env) ''no auth candidates'' err))
            | Inr available \<Rightarrow>
                (case pickViaPluginScheduler env provider providers model rq available (ticked 1 st) of
                   (st, Some r) \<Rightarrow> (st, r)
                 | (st, None) \<Rightarrow>
                     (let req = \<lparr>pr_provider = provider, pr_model = selectionArgForSelector (sv_selectorKind env) model,
                            pr_now = sv_clock env (cd_tick st), pr_websocket = rq_websocket rq,
                            pr_routeModel = selectorRouteModel (sv_selectorKind env) model,
                            pr_primaryID = rq_primaryID rq, pr_fallbackID = rq_fallbackID rq\<rparr>;
                          (sel, r) = sv_pick env (cd_selector st) req (map Some available)
                      in ((ticked 1 st)\<lparr>cd_selector := sel\<rparr>,
                          map_sum (pickErrorOf (sv_cooldownText env) ''no auth candidates'') id r)))))"

text \<open>The clone given to the caller; a credential without an index gets it under the lock.\<close>

definition assignIndex :: "'s SelectEnv \<Rightarrow> Auth \<Rightarrow> ('x, 'c, 's) Conductor \<Rightarrow> ('x, 'c, 's) Conductor \<times> Auth" where
  "assignIndex env selected st =
     (if a_indexAssigned selected then (st, selected)
      else (case m_get (am_auths (cd_manager st)) (a_ID selected) of
              None \<Rightarrow> (st, selected)
            | Some current \<Rightarrow>
                if a_indexAssigned current then (st, selected)
                else let current = EnsureIndex (sv_index env) current; m = cd_manager st
                  in (st\<lparr>cd_manager := m\<lparr>am_auths := m_put (a_ID selected) current (am_auths m)\<rparr>\<rparr>, current)))"

type_synonym ('x, 'c, 's) picked = "('x, 'c, 's) Conductor \<times> (goerror + Auth \<times> 'x \<times> string)"

definition executorNotFound :: goerror where
  "executorNotFound = newAuthError ''executor_not_found'' ''executor not registered''"

definition pickNextLegacy :: "'s SelectEnv \<Rightarrow> string \<Rightarrow> string \<Rightarrow> RouteRequest \<Rightarrow> ('x, 'c, 's) Conductor \<Rightarrow> ('x, 'c, 's) picked" where
  "pickNextLegacy env provider model rq st =
     (case m_get (am_executors (cd_manager st)) provider of
        None \<Rightarrow> (st, Inl executorNotFound)
      | Some executor \<Rightarrow>
          (case selectAmong env provider [provider] model rq (legacyCandidates env provider model rq st) st of
             (st, Inl err) \<Rightarrow> (st, Inl err)
           | (st, Inr selected) \<Rightarrow>
               (let (st, auth) = assignIndex env selected st in (st, Inr (auth, executor, provider)))))"

text \<open>The end of a pick over several providers: the executor of the credential picked.\<close>

definition pickedWith :: "'s SelectEnv \<Rightarrow> string \<Rightarrow> Auth \<Rightarrow> ('x, 'c, 's) Conductor \<Rightarrow> ('x, 'c, 's) picked" where
  "pickedWith env providerKey selected st =
     (case lookupExecutor providerKey (cd_manager st) of
        None \<Rightarrow> (st, Inl executorNotFound)
      | Some executor \<Rightarrow> (let (st, auth) = assignIndex env selected st in (st, Inr (auth, executor, providerKey))))"

definition pickNextMixedLegacy :: "'s SelectEnv \<Rightarrow> string list \<Rightarrow> string \<Rightarrow> RouteRequest \<Rightarrow> ('x, 'c, 's) Conductor \<Rightarrow> ('x, 'c, 's) picked" where
  "pickNextMixedLegacy env providers model rq st =
     (if normalizeProviders providers = [] then (st, Inl (newAuthError ''provider_not_found'' ''no provider supplied''))
      else (case selectAmong env ''mixed'' providers model rq (mixedCandidates env providers model rq st) st of
              (st, Inl err) \<Rightarrow> (st, Inl err)
            | (st, Inr selected) \<Rightarrow> pickedWith env (executorKeyFromAuth selected) selected st))"

text \<open>A candidate whose upstream model differs from the route's forces the pick over the credentials.\<close>

definition someRouteAware :: "'s SelectEnv \<Rightarrow> (string \<Rightarrow> bool) \<Rightarrow> string \<Rightarrow> RouteRequest \<Rightarrow> ('x, 'c, 's) Conductor \<Rightarrow> bool" where
  "someRouteAware env serves model rq st \<longleftrightarrow>
     trim_space model \<noteq> []
     \<and> list_ex (\<lambda>(_, auth). \<not> a_Disabled auth \<and> serves (executorKeyFromAuth auth)
          \<and> allows (authSelectionEligibilityForRequest (schedOf rq)) auth \<and> a_ID auth \<notin> set (rq_tried rq)
          \<and> routeAwareSelectionRequired (sv_route env) auth model) (am_auths (cd_manager st))"

definition pickNext :: "'s SelectEnv \<Rightarrow> string \<Rightarrow> string \<Rightarrow> RouteRequest \<Rightarrow> ('x, 'c, 's) Conductor \<Rightarrow> ('x, 'c, 's) picked" where
  "pickNext env provider model rq st =
     (if hasPluginScheduler env \<or> \<not> useSchedulerFastPath env then pickNextLegacy env provider model rq st
      else if someRouteAware env (\<lambda>key. key = provider) model rq st then pickNextLegacy env provider model rq st
      else (case lookupExecutor provider (cd_manager st) of
              None \<Rightarrow> (st, Inl executorNotFound)
            | Some executor \<Rightarrow>
                (case schedulerPickSynced env False provider [provider] model rq schedulerStrategyCurrent st of
                   (st, Inl err) \<Rightarrow> (st, Inl err)
                 | (st, Inr (selected, _)) \<Rightarrow>
                     (let (st, auth) = assignIndex env selected st in (st, Inr (auth, executor, provider))))))"

definition eligibleProviders :: "string list \<Rightarrow> 'x AuthManager \<Rightarrow> string list" where
  "eligibleProviders providers m = filter (\<lambda>key. lookupExecutor key m \<noteq> None) (normalizeProviders providers)"

definition pickNextMixed :: "'s SelectEnv \<Rightarrow> string list \<Rightarrow> string \<Rightarrow> RouteRequest \<Rightarrow> ('x, 'c, 's) Conductor \<Rightarrow> ('x, 'c, 's) picked" where
  "pickNextMixed env providers model rq st =
     (if hasPluginScheduler env \<or> \<not> useSchedulerFastPath env then pickNextMixedLegacy env providers model rq st
      else let eligible = eligibleProviders providers (cd_manager st)
        in if eligible = [] then (st, Inl (newAuthError ''auth_not_found'' ''no auth available''))
           else if someRouteAware env (\<lambda>key. key \<in> set eligible) model rq st
           then pickNextMixedLegacy env providers model rq st
           else (case schedulerPickSynced env True ''mixed'' eligible model rq schedulerStrategyCurrent st of
                   (st, Inl err) \<Rightarrow> (st, Inl err)
                 | (st, Inr (selected, providerKey)) \<Rightarrow> pickedWith env providerKey selected st))"

text \<open>\<open>SelectAuth\<close> and \<open>SelectAuthByKind\<close>: a pick whose credential is not executed.\<close>

definition SelectAuth :: "'s SelectEnv \<Rightarrow> string \<Rightarrow> string \<Rightarrow> RouteRequest \<Rightarrow> ('x, 'c, 's) Conductor
    \<Rightarrow> ('x, 'c, 's) Conductor \<times> (goerror + Auth)" where
  "SelectAuth env provider model rq st =
     map_prod id (map_sum id fst) (pickNextLegacy env provider model (rq\<lparr>rq_tried := []\<rparr>) st)"

definition SelectAuthByKind :: "'s SelectEnv \<Rightarrow> string \<Rightarrow> string \<Rightarrow> string \<Rightarrow> RouteRequest \<Rightarrow> ('x, 'c, 's) Conductor
    \<Rightarrow> ('x, 'c, 's) Conductor \<times> (goerror + Auth)" where
  "SelectAuthByKind env provider model requiredKind rq st =
     (let requiredKind = normalizeAuthKind requiredKind
      in if requiredKind = []
         then (st, Inl (AuthErr \<lparr>e_Code = ''invalid_auth_kind'', e_Message = ''required auth kind is invalid'',
           e_Retryable = False, e_HTTPStatus = 400\<rparr>))
         else SelectAuth env provider model (rq\<lparr>rq_requiredKind := requiredKind\<rparr>) st)"

section \<open>States of models against the registry\<close>

text \<open>\<open>ReconcileRegistryModelStates\<close>: \<open>supportedIDs\<close> are the models the registry lists for the credential.\<close>

definition reconcileKey :: "string \<Rightarrow> string" where
  "reconcileKey modelKey =
     (let baseModel = canonicalModelKey modelKey in if baseModel = [] then trim_space modelKey else baseModel)"

definition reconcileStates :: "string list \<Rightarrow> gotime \<Rightarrow> (string, ModelState option) gomap \<Rightarrow> (string, ModelState option) gomap \<times> bool" where
  "reconcileStates supportedIDs now states =
     (let supported = filter (\<lambda>k. k \<noteq> []) (map canonicalModelKey supportedIDs);
          kept = filter (\<lambda>(k, _). reconcileKey k \<in> set supported) states;
          dirty = (\<lambda>st. \<not> modelStateIsClean st);
          changed = (length kept \<noteq> length states \<or> list_ex (\<lambda>(_, st). st \<noteq> None \<and> dirty st) kept)
      in (map (\<lambda>(k, st). (k, if dirty st then map_option (\<lambda>s. resetModelState s now) st else st)) kept, changed))"

definition ReconcileRegistryModelStates :: "string \<Rightarrow> string list \<Rightarrow> gotime \<Rightarrow> (string, Auth) gomap
    \<Rightarrow> (string, Auth) gomap \<times> Auth option" where
  "ReconcileRegistryModelStates authID supportedIDs now auths =
     (case (if authID = [] then None else m_get auths authID) of
        None \<Rightarrow> (auths, None)
      | Some auth \<Rightarrow>
          if a_ModelStates auth = [] then (auths, None)
          else let (states, changed) = reconcileStates supportedIDs now (a_ModelStates auth);
                   auth = auth\<lparr>a_ModelStates := states\<rparr>
            in if \<not> changed then (m_put authID auth auths, None)
               else let auth = updateAggregatedAvailability auth now;
                        auth = (if \<not> hasModelError auth now
                          then auth\<lparr>a_LastError := None, a_StatusMessage := [], a_Status := StatusActive\<rparr> else auth);
                        auth = auth\<lparr>a_UpdatedAt := now\<rparr>
                 in (m_put authID auth auths, Some auth))"

end
