(* ===== verification/Execution.thy ===== *)
theory Execution
  imports RouteSelection "HOL-Library.While_Combinator"
begin

text \<open>
  The execution of a request (\<open>backend/sdk/cliproxy/auth/conductor_execution.go\<close>, the fallback to
  credits of \<open>conductor_home.go\<close>): a credential is picked, prepared and called for each of its
  upstream models, a rejected token is refreshed once, the results are recorded, and the request
  goes on to the next credential or waits for a cooldown. The control plane (\<open>HomeEnabled\<close>) is off.
  The upstream executors, the interceptor of plugins and the context are parameters, functions of
  the moment; what other requests do to the shared state happens while a call or a wait blocks.
\<close>

section \<open>Requests\<close>

text \<open>A byte slice in the metadata of a request reads as the string of its bytes.\<close>

definition metadataText :: "(string, goany) gomap \<Rightarrow> string \<Rightarrow> string" where
  "metadataText meta key = (case m_get meta key of Some (GoString val) \<Rightarrow> trim_space val | _ \<Rightarrow> [])"

definition authSelectionModelFromOptions :: "(string, goany) gomap \<Rightarrow> string \<Rightarrow> string" where
  "authSelectionModelFromOptions meta fallback =
     (let val = metadataText meta ''auth_selection_model'' in if val \<noteq> [] then val else trim_space fallback)"

definition executionModelForAuthSelection :: "(string, goany) gomap \<Rightarrow> string \<Rightarrow> string option" where
  "executionModelForAuthSelection meta model =
     (let model = trim_space model
      in if model = [] then None
         else if authSelectionModelFromOptions meta model = model then None else Some model)"

definition hasRequestedModelMetadata :: "(string, goany) gomap \<Rightarrow> bool" where
  "hasRequestedModelMetadata meta \<longleftrightarrow> metadataText meta ''requested_model'' \<noteq> []"

definition ensureRequestedModelMetadata :: "(string, goany) gomap \<Rightarrow> string \<Rightarrow> (string, goany) gomap" where
  "ensureRequestedModelMetadata meta requestedModel =
     (let requestedModel = trim_space requestedModel
      in if requestedModel = [] then meta
         else if hasRequestedModelMetadata meta then meta
         else m_put ''requested_model'' (GoString requestedModel) meta)"

definition requestedModelAliasFromOptions :: "(string, goany) gomap \<Rightarrow> string \<Rightarrow> string" where
  "requestedModelAliasFromOptions meta fallback =
     (let val = metadataText meta ''requested_model'' in if val \<noteq> [] then val else trim_space fallback)"

record ExecRequest = RouteRequest +
  rq_model :: string

section \<open>The outside\<close>

text \<open>The executors of the upstream providers at a moment: a call for a model, a refresh, and the
  preparation of a credential, which returns a credential, an error or nil.\<close>

record ('x, 'r) Upstream =
  up_execute :: "nat \<Rightarrow> 'x \<Rightarrow> Auth \<Rightarrow> string \<Rightarrow> goerror + 'r"
  up_count :: "nat \<Rightarrow> 'x \<Rightarrow> Auth \<Rightarrow> string \<Rightarrow> goerror + 'r"
  up_refresh :: "nat \<Rightarrow> 'x \<Rightarrow> Auth \<Rightarrow> RefreshReply"
  up_runtime :: "Auth \<Rightarrow> RefreshRuntime option"
  up_shouldPrepare :: "'x \<Rightarrow> Auth \<Rightarrow> bool"
  up_prepare :: "nat \<Rightarrow> 'x \<Rightarrow> Auth \<Rightarrow> Auth option \<times> goerror option"

text \<open>\<open>xv_others\<close> is what other requests do at a moment, \<open>xv_ctxErr\<close> the error of the context, \<open>xv_intercept\<close>
  the interceptor's verdict on the model of a call, \<open>xv_hint\<close> what is known of the credits of a
  credential (known, available), \<open>xv_rewrite\<close> the rewriting of the model in a response.\<close>

record ('x, 'c, 's, 'r) ExecEnv =
  xv_select :: "'s SelectEnv"
  xv_call :: CallEnv
  xv_refreshEnv :: RefreshEnv
  xv_upstream :: "('x, 'r) Upstream"
  xv_others :: "nat \<Rightarrow> ('x, 'c, 's) Conductor \<Rightarrow> ('x, 'c, 's) Conductor"
  xv_ctxErr :: "nat \<Rightarrow> goerror option"
  xv_intercept :: "nat \<Rightarrow> string \<Rightarrow> string \<Rightarrow> goerror option"
  xv_decode :: "string \<Rightarrow> gojson option"
  xv_weightText :: "weight_source_error \<Rightarrow> string"
  xv_rewrite :: "OAuthModelAliasResult \<Rightarrow> 'r \<Rightarrow> 'r"
  xv_credits :: bool
  xv_hint :: "string \<Rightarrow> goerror + (bool \<times> bool) option"
  xv_rand :: "int \<Rightarrow> int"

abbreviation xv_route :: "('x, 'c, 's, 'r) ExecEnv \<Rightarrow> RouteEnv" where
  "xv_route env \<equiv> sv_route (xv_select env)"

abbreviation xv_now :: "('x, 'c, 's, 'r) ExecEnv \<Rightarrow> ('x, 'c, 's) Conductor \<Rightarrow> gotime" where
  "xv_now env st \<equiv> sv_clock (xv_select env) (cd_tick st)"

definition awaitUpstream :: "('x, 'c, 's, 'r) ExecEnv \<Rightarrow> ('x, 'c, 's) Conductor \<Rightarrow> ('x, 'c, 's) Conductor" where
  "awaitUpstream env st = (xv_others env (cd_tick st) st)\<lparr>cd_tick := cd_tick st + 1\<rparr>"

section \<open>Results\<close>

definition applyRegistryCall :: "gotime \<Rightarrow> 'c ModelRegistry \<Rightarrow> RegistryCall \<Rightarrow> 'c ModelRegistry" where
  "applyRegistryCall now reg call =
     (case call of
        ClearQuotaCall c m \<Rightarrow> ClearModelQuotaExceeded c m reg
      | SetQuotaCall c m \<Rightarrow> SetModelQuotaExceeded c m now reg
      | ResumeCall c m \<Rightarrow> ResumeClientModel c m now reg
      | SuspendCall c m reason \<Rightarrow> SuspendClientModel c m reason now reg)"

definition upsertSnapshot :: "'s SelectEnv \<Rightarrow> Auth \<Rightarrow> ('x, 'c, 's) Conductor \<Rightarrow> ('x, 'c, 's) Conductor" where
  "upsertSnapshot env auth st =
     (ticked 1 st)\<lparr>cd_scheduler := upsertAuth (cd_registry st) (Some auth) (sv_clock env (cd_tick st)) (cd_scheduler st)\<rparr>"

text \<open>\<open>MarkResult\<close> with its effects on the scheduler and the registry.\<close>

definition markResult :: "('x, 'c, 's, 'r) ExecEnv \<Rightarrow> Result \<Rightarrow> ('x, 'c, 's) Conductor \<Rightarrow> ('x, 'c, 's) Conductor" where
  "markResult env result st =
     (let m = cd_manager st;
          out = MarkResult (ce_cooling (xv_call env)) (xv_now env st) result (am_auths m);
          st = (ticked 1 st)\<lparr>cd_manager := m\<lparr>am_auths := out_auths out\<rparr>\<rparr>;
          st = (case out_snapshot out of None \<Rightarrow> st | Some auth \<Rightarrow> upsertSnapshot (xv_select env) auth st)
      in (ticked 1 st)\<lparr>cd_registry := foldl (applyRegistryCall (xv_now env st)) (cd_registry st) (out_registry out)\<rparr>)"

definition recordNeutral :: "('x, 'c, 's, 'r) ExecEnv \<Rightarrow> Result \<Rightarrow> ('x, 'c, 's) Conductor \<Rightarrow> ('x, 'c, 's) Conductor" where
  "recordNeutral env result st =
     (ticked 1 st)\<lparr>cd_manager := (cd_manager st)\<lparr>am_auths :=
        recordAvailabilityNeutralResult (xv_now env st) result (am_auths (cd_manager st))\<rparr>\<rparr>"

text \<open>The calls of the manager that reach the scheduler; the others go to the queue, the store and
  the hooks.\<close>

definition applyManagerCall :: "'s SelectEnv \<Rightarrow> ('x, 'c, 's) Conductor \<Rightarrow> ManagerCall \<Rightarrow> ('x, 'c, 's) Conductor" where
  "applyManagerCall env st call =
     (case call of
        SchedulerUpsert auth \<Rightarrow> upsertSnapshot env auth st
      | SchedulerRemove authID \<Rightarrow> st\<lparr>cd_scheduler := removeAuth authID (cd_scheduler st)\<rparr>
      | SchedulerSync \<Rightarrow> syncScheduler env st
      | _ \<Rightarrow> st)"

definition applyManagerCalls :: "'s SelectEnv \<Rightarrow> ManagerCall list \<Rightarrow> ('x, 'c, 's) Conductor \<Rightarrow> ('x, 'c, 's) Conductor" where
  "applyManagerCalls env calls st = foldl (applyManagerCall env) st calls"

text \<open>What an execution does, in order: a call of a credential for a model, a result recorded with the
  error it stands for, and a result recorded for a credential that could not be prepared. A run is
  what is done with one credential, under the identifier it was picked with.\<close>

datatype execEvent = Called string string | Marked Result "goerror option" | MarkedUnprepared Result

type_synonym credentialRun = "string \<times> execEvent list"

definition successResult :: "string \<Rightarrow> string \<Rightarrow> string \<Rightarrow> Result" where
  "successResult ident provider model = \<lparr>res_AuthID = ident, res_Provider = provider, res_Model = model,
     res_Success = True, res_RetryAfter = None, res_Error = None\<rparr>"

definition failureResult :: "string \<Rightarrow> string \<Rightarrow> string \<Rightarrow> goerror \<Rightarrow> Result" where
  "failureResult ident provider model err = \<lparr>res_AuthID = ident, res_Provider = provider, res_Model = model,
     res_Success = False, res_RetryAfter = retryAfterFromError err, res_Error = Some (resultErrorFromError err)\<rparr>"

section \<open>Refresh and preparation\<close>

definition refreshAuthForRequest :: "('x, 'c, 's, 'r) ExecEnv \<Rightarrow> string \<Rightarrow> string \<Rightarrow> ('x, 'c, 's) Conductor
    \<Rightarrow> ('x, 'c, 's) Conductor \<times> (refresh_error + Auth)" where
  "refreshAuthForRequest env ident failedAccessToken st =
     (case refreshStart ident failedAccessToken (cd_manager st) of
        Inl err \<Rightarrow> (st, Inl err)
      | Inr (auth, reuse) \<Rightarrow>
          if reuse then (st, Inr auth)
          else (case m_get (am_executors (cd_manager st)) (a_Provider auth) of
                  None \<Rightarrow> (st, Inl AuthOrExecutorNotFound)
                | Some executor \<Rightarrow>
                    (let reply = up_refresh (xv_upstream env) (cd_tick st) executor auth;
                         st = awaitUpstream env st;
                         now = xv_now env st; untl = sv_clock (xv_select env) (cd_tick st + 1);
                         (m, out) = refreshFinish (xv_call env) (xv_refreshEnv env) now untl
                           (up_runtime (xv_upstream env) auth) (trim_space ident) auth reply (cd_manager st);
                         st = applyManagerCalls (xv_select env) (ro_manager_calls out) ((ticked 2 st)\<lparr>cd_manager := m\<rparr>);
                         reg = foldl (\<lambda>reg model. ResumeClientModel (trim_space ident) model (xv_now env st) reg)
                           (cd_registry st) (ro_resume out)
                     in ((ticked 1 st)\<lparr>cd_registry := reg\<rparr>, ro_result out))))"

definition tryRefreshAfterUnauthorized :: "('x, 'c, 's, 'r) ExecEnv \<Rightarrow> Auth \<Rightarrow> goerror \<Rightarrow> bool \<Rightarrow> ('x, 'c, 's) Conductor
    \<Rightarrow> ('x, 'c, 's) Conductor \<times> Auth option" where
  "tryRefreshAfterUnauthorized env auth execErr alreadyTried st =
     (if \<not> triesRefreshAfterUnauthorized auth (Some (execErrorOf execErr)) alreadyTried then (st, None)
      else (case refreshAuthForRequest env (a_ID auth) (authAccessToken auth) st of
              (st, Inl _) \<Rightarrow> (st, None)
            | (st, Inr refreshed) \<Rightarrow> (st, Some refreshed)))"

text \<open>The prepared credential, \<open>None\<close> being nil, and the error.\<close>

definition prepareRequestAuth :: "('x, 'c, 's, 'r) ExecEnv \<Rightarrow> 'x \<Rightarrow> Auth \<Rightarrow> ('x, 'c, 's) Conductor
    \<Rightarrow> ('x, 'c, 's) Conductor \<times> Auth option \<times> goerror option" where
  "prepareRequestAuth env executor auth st =
     (let up = xv_upstream env
      in if \<not> up_shouldPrepare up executor auth then (st, Some auth, None)
         else let ident = trim_space (a_ID auth)
           in if ident = [] then (awaitUpstream env st, up_prepare up (cd_tick st) executor auth)
              else let target = (case m_get (am_auths (cd_manager st)) ident of Some current \<Rightarrow> current | None \<Rightarrow> auth)
                in if \<not> up_shouldPrepare up executor target then (st, Some target, None)
                   else (case (awaitUpstream env st, up_prepare up (cd_tick st) executor target) of
                           (st, _, Some err) \<Rightarrow> (st, Some auth, Some err)
                         | (st, None, None) \<Rightarrow> (st, Some target, None)
                         | (st, Some updated, None) \<Rightarrow>
                             (case UpdateAuth (xv_call env) (xv_now env st) updated (cd_manager st) of
                                Inl errWeight \<Rightarrow> (ticked 1 st, Some updated,
                                  Some (PlainErr \<lparr>ev_kind = OtherErr, ev_text = xv_weightText env errWeight,
                                    ev_status = None, ev_scoped = None, ev_retryAfter = None\<rparr>))
                              | Inr (saved, m, calls) \<Rightarrow>
                                  (applyManagerCalls (xv_select env) calls ((ticked 1 st)\<lparr>cd_manager := m\<rparr>),
                                   Some (case saved of Some s \<Rightarrow> s | None \<Rightarrow> updated), None))))"

section \<open>One credential\<close>

datatype execMode = ExecuteMode | CountMode

datatype 'r onceOutcome = OnceReply 'r | OnceError goerror | OncePanic

datatype 'r callOutcome = CallCanceled goerror | CallDone "goerror + 'r"

definition upstreamCall :: "('x, 'c, 's, 'r) ExecEnv \<Rightarrow> execMode \<Rightarrow> nat \<Rightarrow> 'x \<Rightarrow> Auth \<Rightarrow> string \<Rightarrow> goerror + 'r" where
  "upstreamCall env mode =
     (case mode of ExecuteMode \<Rightarrow> up_execute (xv_upstream env) | CountMode \<Rightarrow> up_count (xv_upstream env))"

text \<open>The call of one model, repeated once after a refresh of a rejected token. The boolean says
  whether the credential was refreshed for this request.\<close>

definition callAndRefresh :: "('x, 'c, 's, 'e) ExecEnv \<Rightarrow> (nat \<Rightarrow> 'x \<Rightarrow> Auth \<Rightarrow> string \<Rightarrow> goerror + 'r) \<Rightarrow> 'x \<Rightarrow> Auth \<Rightarrow> bool \<Rightarrow> string \<Rightarrow> ('x, 'c, 's) Conductor
    \<Rightarrow> ('x, 'c, 's) Conductor \<times> Auth \<times> bool \<times> execEvent list \<times> 'r callOutcome" where
  "callAndRefresh env call executor auth didRefresh model st =
     (case (awaitUpstream env st, call (cd_tick st) executor auth model) of
        (st, Inr resp) \<Rightarrow> (st, auth, didRefresh, [Called (a_ID auth) model], CallDone (Inr resp))
      | (st, Inl errExec) \<Rightarrow>
          (case xv_ctxErr env (cd_tick st) of
             Some errCtx \<Rightarrow> (st, auth, didRefresh, [Called (a_ID auth) model], CallCanceled errCtx)
           | None \<Rightarrow>
               (case tryRefreshAfterUnauthorized env auth errExec didRefresh st of
                  (st, None) \<Rightarrow> (st, auth, didRefresh, [Called (a_ID auth) model], CallDone (Inl errExec))
                | (st, Some refreshed) \<Rightarrow>
                    (let calls = [Called (a_ID auth) model, Called (a_ID refreshed) model]
                     in case (awaitUpstream env st, call (cd_tick st) executor refreshed model) of
                          (st, Inr resp) \<Rightarrow> (st, refreshed, True, calls, CallDone (Inr resp))
                        | (st, Inl errExec) \<Rightarrow>
                            (st, refreshed, True, calls,
                             case xv_ctxErr env (cd_tick st) of
                               Some errCtx \<Rightarrow> CallCanceled errCtx | None \<Rightarrow> CallDone (Inl errExec))))))"

definition executeModel :: "('x, 'c, 's, 'r) ExecEnv \<Rightarrow> execMode \<Rightarrow> 'x \<Rightarrow> Auth \<Rightarrow> bool \<Rightarrow> string \<Rightarrow> ('x, 'c, 's) Conductor
    \<Rightarrow> ('x, 'c, 's) Conductor \<times> Auth \<times> bool \<times> execEvent list \<times> 'r callOutcome" where
  "executeModel env mode = callAndRefresh env (upstreamCall env mode)"

text \<open>A failed count of tokens whose endpoint does not exist leaves the model available.\<close>

definition recordModelFailure :: "('x, 'c, 's, 'r) ExecEnv \<Rightarrow> execMode \<Rightarrow> string \<Rightarrow> goerror \<Rightarrow> Result \<Rightarrow> ('x, 'c, 's) Conductor
    \<Rightarrow> ('x, 'c, 's) Conductor" where
  "recordModelFailure env mode model err result st =
     (if mode = CountMode \<and> isCountTokensEndpointNotFoundError (xv_decode env) err model
      then recordNeutral env result st else markResult env result st)"

text \<open>The loop over the upstream models of a credential. The first component after the state is the
  outcome that ends the request, the second the error to go on with.\<close>

fun tryModels :: "('x, 'c, 's, 'r) ExecEnv \<Rightarrow> execMode \<Rightarrow> 'x \<Rightarrow> string \<Rightarrow> ExecRequest \<Rightarrow> bool \<Rightarrow> OAuthModelAliasResult
    \<Rightarrow> string list \<Rightarrow> Auth \<Rightarrow> bool \<Rightarrow> goerror option \<Rightarrow> ('x, 'c, 's) Conductor
    \<Rightarrow> ('x, 'c, 's) Conductor \<times> 'r onceOutcome option \<times> goerror option \<times> execEvent list" where
  "tryModels env mode executor provider rq pooled aliasResult [] auth didRefresh authErr st = (st, None, authErr, [])"
| "tryModels env mode executor provider rq pooled aliasResult (upstreamModel # models) auth didRefresh authErr st =
     (let routeModel = authSelectionModelFromOptions (rq_metadata rq) (rq_model rq);
          resultModel = stateModelForExecution (xv_route env) auth routeModel upstreamModel pooled;
          callModel = (case executionModelForAuthSelection (rq_metadata rq) (rq_model rq) of
              Some executionModel \<Rightarrow> executionModel | None \<Rightarrow> upstreamModel)
      in case xv_intercept env (cd_tick st) callModel (requestedModelAliasFromOptions (rq_metadata rq) routeModel) of
           Some errIntercept \<Rightarrow> (ticked 1 st, Some (OnceError errIntercept), authErr, [])
         | None \<Rightarrow>
             (case executeModel env mode executor auth didRefresh callModel (ticked 1 st) of
                (st, auth, didRefresh, calls, CallCanceled errCtx) \<Rightarrow> (st, Some (OnceError errCtx), authErr, calls)
              | (st, auth, didRefresh, calls, CallDone (Inr resp)) \<Rightarrow>
                  (let result = successResult (a_ID auth) provider resultModel
                   in (markResult env result st, Some (OnceReply (xv_rewrite env aliasResult resp)), authErr,
                       calls @ [Marked result None]))
              | (st, auth, didRefresh, calls, CallDone (Inl errExec)) \<Rightarrow>
                  (let result = failureResult (a_ID auth) provider resultModel errExec;
                       st = recordModelFailure env mode callModel errExec result st
                   in if isRequestInvalidError errExec
                      then (st, Some (OnceError errExec), authErr, calls @ [Marked result (Some errExec)])
                      else case tryModels env mode executor provider rq pooled aliasResult models auth didRefresh (Some errExec) st of
                             (st, out, authErr, events) \<Rightarrow> (st, out, authErr, calls @ Marked result (Some errExec) # events))))"


section \<open>The loop over credentials\<close>

record ('x, 'c, 's, 'r) OnceLoop =
  lo_state :: "('x, 'c, 's) Conductor"
  lo_tried :: "string list"
  lo_attempted :: "string list"
  lo_lastErr :: "goerror option"
  lo_runs :: "credentialRun list"
  lo_done :: "'r onceOutcome option"

definition noAuthAvailable :: goerror where
  "noAuthAvailable = newAuthError ''auth_not_found'' ''no auth available''"

text \<open>The error at the end of the loop: the last one of a credential, or else the one given.\<close>

definition lastErrorOr :: "goerror \<Rightarrow> goerror option \<Rightarrow> 'r onceOutcome" where
  "lastErrorOr err lastErr = OnceError (case lastErr of Some e \<Rightarrow> e | None \<Rightarrow> err)"

text \<open>What happens to a credential once it is picked and has models: its preparation, and then what \<open>run\<close> does.\<close>

definition withPrepared :: "('x, 'c, 's, 'e) ExecEnv \<Rightarrow> ExecRequest \<Rightarrow> 'x \<Rightarrow> string \<Rightarrow> Auth
    \<Rightarrow> (('x, 'c, 's) Conductor \<Rightarrow> Auth \<Rightarrow> ('x, 'c, 's, 'r) OnceLoop) \<Rightarrow> ('x, 'c, 's, 'r) OnceLoop \<Rightarrow> ('x, 'c, 's, 'r) OnceLoop" where
  "withPrepared env rq executor provider auth run l =
     (let routeModel = authSelectionModelFromOptions (rq_metadata rq) (rq_model rq)
      in case prepareRequestAuth env executor auth (lo_state l) of
           (st, None, _) \<Rightarrow> l\<lparr>lo_state := st, lo_done := Some OncePanic\<rparr>
         | (st, Some prepared, Some errPrepare) \<Rightarrow>
             (let result = (failureResult (a_ID prepared) provider routeModel errPrepare)\<lparr>res_RetryAfter := None\<rparr>
              in l\<lparr>lo_state := markResult env result st, lo_lastErr := Some errPrepare,
                   lo_runs := lo_runs l @ [(a_ID auth, [MarkedUnprepared result])]\<rparr>)
         | (st, Some prepared, None) \<Rightarrow> run st prepared)"

definition executeCredential :: "('x, 'c, 's, 'r) ExecEnv \<Rightarrow> execMode \<Rightarrow> ExecRequest \<Rightarrow> 'x \<Rightarrow> string \<Rightarrow> string list \<Rightarrow> bool
    \<Rightarrow> OAuthModelAliasResult \<Rightarrow> Auth \<Rightarrow> ('x, 'c, 's, 'r) OnceLoop \<Rightarrow> ('x, 'c, 's, 'r) OnceLoop" where
  "executeCredential env mode rq executor provider models pooled aliasResult auth l =
     withPrepared env rq executor provider auth
       (\<lambda>st prepared.
          (case tryModels env mode executor provider rq pooled aliasResult models prepared False None st of
             (st, Some out, _, events) \<Rightarrow> l\<lparr>lo_state := st, lo_done := Some out, lo_runs := lo_runs l @ [(a_ID auth, events)]\<rparr>
           | (st, None, Some authErr, events) \<Rightarrow>
               (let l = l\<lparr>lo_state := st, lo_runs := lo_runs l @ [(a_ID auth, events)]\<rparr>
                in if isRequestInvalidError authErr then l\<lparr>lo_done := Some (OnceError authErr)\<rparr>
                   else l\<lparr>lo_lastErr := Some authErr\<rparr>)
           | (st, None, None, events) \<Rightarrow> l\<lparr>lo_state := st, lo_runs := lo_runs l @ [(a_ID auth, events)]\<rparr>)) l"

text \<open>One round of the loop, the part that the calls, the counts of tokens and the streams share; \<open>handle\<close> is what
  happens to a credential with its models.\<close>

type_synonym ('x, 'c, 's, 'r) credentialHandler = "'x \<Rightarrow> string \<Rightarrow> string list \<Rightarrow> bool \<Rightarrow> OAuthModelAliasResult \<Rightarrow> Auth
    \<Rightarrow> ('x, 'c, 's, 'r) OnceLoop \<Rightarrow> ('x, 'c, 's, 'r) OnceLoop"

definition onceRound :: "('x, 'c, 's, 'e) ExecEnv \<Rightarrow> ('x, 'c, 's, 'r) credentialHandler \<Rightarrow> string list \<Rightarrow> ExecRequest \<Rightarrow> int
    \<Rightarrow> ('x, 'c, 's, 'r) OnceLoop \<Rightarrow> ('x, 'c, 's, 'r) OnceLoop" where
  "onceRound env handle providers rq maxRetryCredentials l =
     (let routeModel = authSelectionModelFromOptions (rq_metadata rq) (rq_model rq)
      in if maxRetryCredentials > 0 \<and> int (length (lo_attempted l)) \<ge> maxRetryCredentials
         then l\<lparr>lo_done := Some (lastErrorOr noAuthAvailable (lo_lastErr l))\<rparr>
         else (case pickNextMixed (xv_select env) providers routeModel ((RouteRequest.truncate rq)\<lparr>rq_tried := lo_tried l\<rparr>) (lo_state l) of
                 (st, Inl errPick) \<Rightarrow> l\<lparr>lo_state := st, lo_done := Some (lastErrorOr errPick (lo_lastErr l))\<rparr>
               | (st, Inr (auth, executor, provider)) \<Rightarrow>
                   (let ((models, pooled, aliasResult), m) =
                          preparedExecutionModelsWithAlias (xv_route env) (xv_now env st) auth routeModel (cd_manager st);
                        l = l\<lparr>lo_state := (ticked 1 st)\<lparr>cd_manager := m\<rparr>, lo_tried := a_ID auth # lo_tried l\<rparr>
                    in if models = [] then l
                       else handle executor provider models pooled aliasResult auth
                         (l\<lparr>lo_attempted := List.insert (a_ID auth) (lo_attempted l)\<rparr>))))"

definition onceStep :: "('x, 'c, 's, 'r) ExecEnv \<Rightarrow> execMode \<Rightarrow> string list \<Rightarrow> ExecRequest \<Rightarrow> int
    \<Rightarrow> ('x, 'c, 's, 'r) OnceLoop \<Rightarrow> ('x, 'c, 's, 'r) OnceLoop" where
  "onceStep env mode providers rq = onceRound env (executeCredential env mode rq) providers rq"

definition initLoop :: "('x, 'c, 's) Conductor \<Rightarrow> ('x, 'c, 's, 'r) OnceLoop" where
  "initLoop st = \<lparr>lo_state = st, lo_tried = [], lo_attempted = [], lo_lastErr = None, lo_runs = [], lo_done = None\<rparr>"

text \<open>\<open>None\<close> is a loop that does not end.\<close>

definition onceLoop :: "('x, 'c, 's, 'e) ExecEnv \<Rightarrow> (ExecRequest \<Rightarrow> ('x, 'c, 's, 'r) credentialHandler) \<Rightarrow> string list
    \<Rightarrow> ExecRequest \<Rightarrow> int \<Rightarrow> ('x, 'c, 's) Conductor \<Rightarrow> ('x, 'c, 's, 'r) OnceLoop option" where
  "onceLoop env handle providers rq maxRetryCredentials st =
     (if providers = []
      then Some ((initLoop st)\<lparr>lo_done := Some (OnceError (newAuthError ''provider_not_found'' ''no provider supplied''))\<rparr>)
      else let routeModel = authSelectionModelFromOptions (rq_metadata rq) (rq_model rq);
               rq = rq\<lparr>rq_metadata := ensureRequestedModelMetadata (rq_metadata rq) routeModel\<rparr>
        in while_option (\<lambda>l. lo_done l = None) (onceRound env (handle rq) providers rq maxRetryCredentials) (initLoop st))"

definition mixedOnce :: "('x, 'c, 's, 'r) ExecEnv \<Rightarrow> execMode \<Rightarrow> string list \<Rightarrow> ExecRequest \<Rightarrow> int \<Rightarrow> ('x, 'c, 's) Conductor
    \<Rightarrow> ('x, 'c, 's, 'r) OnceLoop option" where
  "mixedOnce env mode = onceLoop env (executeCredential env mode)"

definition executeMixedOnce :: "('x, 'c, 's, 'r) ExecEnv \<Rightarrow> string list \<Rightarrow> ExecRequest \<Rightarrow> int \<Rightarrow> ('x, 'c, 's) Conductor
    \<Rightarrow> ('x, 'c, 's, 'r) OnceLoop option" where
  "executeMixedOnce env = mixedOnce env ExecuteMode"

definition executeCountMixedOnce :: "('x, 'c, 's, 'r) ExecEnv \<Rightarrow> string list \<Rightarrow> ExecRequest \<Rightarrow> int \<Rightarrow> ('x, 'c, 's) Conductor
    \<Rightarrow> ('x, 'c, 's, 'r) OnceLoop option" where
  "executeCountMixedOnce env = mixedOnce env CountMode"

section \<open>The fallback to credits\<close>

definition hasAntigravityProvider :: "string list \<Rightarrow> bool" where
  "hasAntigravityProvider providers \<longleftrightarrow> list_ex (\<lambda>p. equal_fold (trim_space p) ''antigravity'') providers"

definition shouldAttemptAntigravityCreditsFallback :: "('x, 'c, 's, 'r) ExecEnv \<Rightarrow> goerror \<Rightarrow> bool" where
  "shouldAttemptAntigravityCreditsFallback env lastErr \<longleftrightarrow>
     (if isRequestTerminatedError lastErr then False
      else if \<not> xv_credits env then False
      else let status = statusCodeFromError lastErr
        in if status = 429 \<or> status = 503 then True
           else if status = 0
           then (case errAs asAuthErr lastErr of
                   Some e \<Rightarrow> e_Code e \<in> {''auth_not_found'', ''auth_unavailable'', ''model_cooldown''}
                 | None \<Rightarrow> isKind CooldownErr lastErr)
           else False)"

definition creditsCandidate :: "ExecRequest \<Rightarrow> Auth \<Rightarrow> bool" where
  "creditsCandidate rq auth \<longleftrightarrow>
     (let pinnedAuthID = pinnedAuthIDFromMetadata (rq_metadata rq)
      in usableAuth auth \<and> (pinnedAuthID = [] \<or> a_ID auth = pinnedAuthID)
         \<and> equal_fold (trim_space (a_Provider auth)) ''antigravity''
         \<and> contains (to_lower (trim_space (rq_model rq))) ''claude'')"

text \<open>The candidates whose credits are known to be available, then those not known.\<close>

fun splitHints :: "(string \<Rightarrow> goerror + (bool \<times> bool) option) \<Rightarrow> (Auth \<times> 'x) list
    \<Rightarrow> goerror + (Auth \<times> 'x) list \<times> (Auth \<times> 'x) list" where
  "splitHints hint [] = Inr ([], [])"
| "splitHints hint (c # cs) =
     (case hint (a_ID (fst c)) of
        Inl err \<Rightarrow> Inl (AuthErr \<lparr>e_Code = ''home_kv_unavailable'', e_Message = ''home kv store unavailable: '' @ errText err,
          e_Retryable = False, e_HTTPStatus = 503\<rparr>)
      | Inr h \<Rightarrow>
          (case splitHints hint cs of
             Inl err \<Rightarrow> Inl err
           | Inr (known, unknown) \<Rightarrow>
               Inr (case h of
                      Some (True, available) \<Rightarrow> if available then (c # known, unknown) else (known, unknown)
                    | _ \<Rightarrow> (known, c # unknown))))"

definition findAllAntigravityCreditsCandidateAuths :: "('x, 'c, 's, 'r) ExecEnv \<Rightarrow> ExecRequest \<Rightarrow> ('x, 'c, 's) Conductor
    \<Rightarrow> goerror + (Auth \<times> 'x) list" where
  "findAllAntigravityCreditsCandidateAuths env rq st =
     (let candidates = List.map_filter (\<lambda>(_, auth). if creditsCandidate rq auth
            then map_option (Pair auth) (m_get (am_executors (cd_manager st)) (executorKeyFromAuth auth)) else None)
          (am_auths (cd_manager st))
      in case splitHints (xv_hint env) candidates of
           Inl err \<Rightarrow> Inl err
         | Inr (known, unknown) \<Rightarrow> Inr (sort_key (a_ID \<circ> fst) known @ sort_key (a_ID \<circ> fst) unknown))"

text \<open>The loop over the models of one credential; it goes on after every error.\<close>

fun creditsModels :: "('x, 'c, 's, 'r) ExecEnv \<Rightarrow> 'x \<Rightarrow> string \<Rightarrow> ExecRequest \<Rightarrow> bool \<Rightarrow> OAuthModelAliasResult \<Rightarrow> string list \<Rightarrow> Auth
    \<Rightarrow> ('x, 'c, 's) Conductor \<Rightarrow> ('x, 'c, 's) Conductor \<times> 'r option \<times> execEvent list" where
  "creditsModels env executor provider rq pooled aliasResult [] auth st = (st, None, [])"
| "creditsModels env executor provider rq pooled aliasResult (upstreamModel # models) auth st =
     (let resultModel = stateModelForExecution (xv_route env) auth (rq_model rq) upstreamModel pooled
      in case (awaitUpstream env st, upstreamCall env ExecuteMode (cd_tick st) executor auth upstreamModel) of
           (st, Inr resp) \<Rightarrow>
             (let result = successResult (a_ID auth) provider resultModel
              in (markResult env result st, Some (xv_rewrite env aliasResult resp), [Called (a_ID auth) upstreamModel, Marked result None]))
         | (st, Inl errExec) \<Rightarrow>
             (let result = failureResult (a_ID auth) provider resultModel errExec
              in case creditsModels env executor provider rq pooled aliasResult models auth (markResult env result st) of
                   (st, out, events) \<Rightarrow> (st, out, Called (a_ID auth) upstreamModel # Marked result (Some errExec) # events)))"

fun creditsLoop :: "('x, 'c, 's, 'r) ExecEnv \<Rightarrow> ExecRequest \<Rightarrow> (Auth \<times> 'x) list \<Rightarrow> ('x, 'c, 's) Conductor
    \<Rightarrow> ('x, 'c, 's) Conductor \<times> 'r onceOutcome option \<times> credentialRun list" where
  "creditsLoop env rq [] st = (st, None, [])"
| "creditsLoop env rq ((auth, executor) # candidates) st =
     (if xv_ctxErr env (cd_tick st) \<noteq> None then (st, None, [])
      else (case prepareRequestAuth env executor auth st of
              (st, _, Some _) \<Rightarrow> creditsLoop env rq candidates st
            | (st, None, None) \<Rightarrow> (st, Some OncePanic, [])
            | (st, Some prepared, None) \<Rightarrow>
                (let ((models, pooled, aliasResult), m) =
                       executionModelCandidatesWithAlias (xv_route env) prepared (rq_model rq) (cd_manager st)
                 in case creditsModels env executor (executorKeyFromAuth auth) rq pooled aliasResult models prepared
                           (st\<lparr>cd_manager := m\<rparr>) of
                      (st, Some resp, events) \<Rightarrow> (st, Some (OnceReply resp), [(a_ID auth, events)])
                    | (st, None, events) \<Rightarrow>
                        (case creditsLoop env rq candidates st of (st, out, runs) \<Rightarrow> (st, out, (a_ID auth, events) # runs)))))"

definition tryAntigravityCreditsExecute :: "('x, 'c, 's, 'r) ExecEnv \<Rightarrow> ExecRequest \<Rightarrow> ('x, 'c, 's) Conductor
    \<Rightarrow> ('x, 'c, 's) Conductor \<times> 'r onceOutcome option \<times> credentialRun list" where
  "tryAntigravityCreditsExecute env rq st =
     (case findAllAntigravityCreditsCandidateAuths env rq st of
        Inl err \<Rightarrow> (st, Some (OnceError err), [])
      | Inr candidates \<Rightarrow> creditsLoop env rq candidates st)"

section \<open>The loop over attempts\<close>

datatype 'r executeEnd = Finished "'r onceOutcome" | GaveUp goerror | NoReturn

text \<open>\<open>ex_waits\<close> collects the waits between attempts, \<open>ex_decisions\<close> the manager at each decision to wait.\<close>

record ('x, 'c, 's, 'r) ExecuteLoop =
  ex_state :: "('x, 'c, 's) Conductor"
  ex_attempt :: int
  ex_runs :: "credentialRun list"
  ex_waits :: "goduration list"
  ex_decisions :: "'x AuthManager list"
  ex_end :: "'r executeEnd option"

text \<open>The wait for a cooldown: the timer with its jitter, or the end of the context.\<close>

definition waitForCooldown :: "('x, 'c, 's, 'r) ExecEnv \<Rightarrow> goduration \<Rightarrow> ('x, 'c, 's) Conductor
    \<Rightarrow> ('x, 'c, 's) Conductor \<times> goerror option" where
  "waitForCooldown env wait st =
     (if wait \<le> 0 then (st, None) else let st = awaitUpstream env st in (st, xv_ctxErr env (cd_tick st)))"

text \<open>\<open>attempt\<close> is the loop over credentials for these providers, this request and this bound.\<close>

definition attemptStep :: "('x, 'c, 's, 'e) ExecEnv \<Rightarrow> (('x, 'c, 's) Conductor \<Rightarrow> ('x, 'c, 's, 'r) OnceLoop option) \<Rightarrow> string list
    \<Rightarrow> ExecRequest \<Rightarrow> goduration \<Rightarrow> ('x, 'c, 's, 'r) ExecuteLoop \<Rightarrow> ('x, 'c, 's, 'r) ExecuteLoop" where
  "attemptStep env attempt normalized rq maxWait l =
     (case attempt (ex_state l) of
        None \<Rightarrow> l\<lparr>ex_end := Some NoReturn\<rparr>
      | Some once \<Rightarrow>
          (let st = lo_state once;
               l = l\<lparr>ex_state := ticked 1 st, ex_runs := ex_runs l @ lo_runs once\<rparr>
           in case lo_done once of
                Some (OnceError errExec) \<Rightarrow>
                  (if isRequestTerminatedError errExec then l\<lparr>ex_end := Some (Finished (OnceError errExec))\<rparr>
                   else let retryModel = authSelectionModelFromOptions (rq_metadata rq) (rq_model rq);
                            l = l\<lparr>ex_decisions := ex_decisions l @ [cd_manager st]\<rparr>
                     in case shouldRetryAfterError (xv_route env) (xv_now env st) errExec (ex_attempt l) normalized retryModel
                               maxWait (cd_manager st) of
                          None \<Rightarrow> l\<lparr>ex_end := Some (GaveUp errExec)\<rparr>
                        | Some wait \<Rightarrow>
                            (let (st, errWait) = waitForCooldown env (jitteredCooldownWait (xv_rand env) wait maxWait) (ex_state l);
                                 l = l\<lparr>ex_state := st, ex_attempt := ex_attempt l + 1,
                                   ex_waits := ex_waits l @ [jitteredCooldownWait (xv_rand env) wait maxWait]\<rparr>
                             in case errWait of
                                  Some err \<Rightarrow> l\<lparr>ex_end := Some (Finished (OnceError err))\<rparr>
                                | None \<Rightarrow> l))
              | Some out \<Rightarrow> l\<lparr>ex_end := Some (Finished out)\<rparr>
              | None \<Rightarrow> l\<lparr>ex_end := Some NoReturn\<rparr>))"

definition attemptLoop :: "('x, 'c, 's, 'e) ExecEnv \<Rightarrow> (string list \<Rightarrow> ExecRequest \<Rightarrow> int \<Rightarrow> ('x, 'c, 's) Conductor \<Rightarrow> ('x, 'c, 's, 'r) OnceLoop option)
    \<Rightarrow> string list \<Rightarrow> ExecRequest \<Rightarrow> ('x, 'c, 's) Conductor \<Rightarrow> ('x, 'c, 's, 'r) ExecuteLoop option" where
  "attemptLoop env attempt providers rq st =
     (let normalized = normalizeProviders providers;
          (_, maxRetryCredentials, maxWait) = retrySettings (cd_manager st);
          l = \<lparr>ex_state = st, ex_attempt = 0, ex_runs = [], ex_waits = [], ex_decisions = [], ex_end = None\<rparr>
      in if normalized = []
         then Some (l\<lparr>ex_end := Some (Finished (OnceError (newAuthError ''provider_not_found'' ''no provider supplied'')))\<rparr>)
         else while_option (\<lambda>l. ex_end l = None) (attemptStep env (attempt normalized rq maxRetryCredentials) normalized rq maxWait) l)"

definition executeLoop :: "('x, 'c, 's, 'r) ExecEnv \<Rightarrow> execMode \<Rightarrow> string list \<Rightarrow> ExecRequest \<Rightarrow> ('x, 'c, 's) Conductor
    \<Rightarrow> ('x, 'c, 's, 'r) ExecuteLoop option" where
  "executeLoop env mode = attemptLoop env (mixedOnce env mode)"

text \<open>The whole call: the state it leaves, its events, and its outcome.\<close>

definition Execute :: "('x, 'c, 's, 'r) ExecEnv \<Rightarrow> string list \<Rightarrow> ExecRequest \<Rightarrow> ('x, 'c, 's) Conductor
    \<Rightarrow> (('x, 'c, 's) Conductor \<times> credentialRun list \<times> 'r onceOutcome) option" where
  "Execute env providers rq st =
     (case executeLoop env ExecuteMode providers rq st of
        None \<Rightarrow> None
      | Some l \<Rightarrow>
          (case ex_end l of
             Some (Finished out) \<Rightarrow> Some (ex_state l, ex_runs l, out)
           | Some (GaveUp lastErr) \<Rightarrow>
               (if hasAntigravityProvider (normalizeProviders providers) \<and> shouldAttemptAntigravityCreditsFallback env lastErr
                then (case tryAntigravityCreditsExecute env rq (ex_state l) of
                        (st, Some out, events) \<Rightarrow> Some (st, ex_runs l @ events, out)
                      | (st, None, events) \<Rightarrow> Some (st, ex_runs l @ events, OnceError lastErr))
                else Some (ex_state l, ex_runs l, OnceError lastErr))
           | _ \<Rightarrow> None))"

definition ExecuteCount :: "('x, 'c, 's, 'r) ExecEnv \<Rightarrow> string list \<Rightarrow> ExecRequest \<Rightarrow> ('x, 'c, 's) Conductor
    \<Rightarrow> (('x, 'c, 's) Conductor \<times> credentialRun list \<times> 'r onceOutcome) option" where
  "ExecuteCount env providers rq st =
     (case executeLoop env CountMode providers rq st of
        None \<Rightarrow> None
      | Some l \<Rightarrow>
          (case ex_end l of
             Some (Finished out) \<Rightarrow> Some (ex_state l, ex_runs l, out)
           | Some (GaveUp lastErr) \<Rightarrow> Some (ex_state l, ex_runs l, OnceError lastErr)
           | _ \<Rightarrow> None))"

end
