(* ===== verification/StreamRewriter.thy ===== *)
theory StreamRewriter
  imports Prelude
begin

text \<open>
  The rewriting of the model's name in streamed responses
  (\<open>backend/sdk/cliproxy/auth/response_model_rewriter.go\<close>): server-sent events are cut into lines, the JSON
  of the data lines is rewritten, and an incomplete event waits in a buffer for the next chunk. Whether a
  text is JSON, whether it has a field, and setting a field are third-party code, the parameter
  \<open>JsonEnv\<close>. Byte slices are lists of bytes; where the code appends to a slice of the chunk itself, after an
  event line, it writes the bytes that stand there already, but for a chunk with a second
  incomplete data line, which the model leaves as it was.
\<close>

record JsonEnv =
  je_valid :: "string \<Rightarrow> bool"
  je_exists :: "string \<Rightarrow> string \<Rightarrow> bool"
  je_set :: "string \<Rightarrow> string \<Rightarrow> string \<Rightarrow> string"

abbreviation NL :: char where "NL \<equiv> CHR 0x0A"
abbreviation CR :: char where "CR \<equiv> CHR 0x0D"

section \<open>Lines\<close>

fun splitLines :: "string \<Rightarrow> string list" where
  "splitLines [] = [[]]"
| "splitLines (c # cs) =
     (if c = NL then [] # splitLines cs
      else (case splitLines cs of line # lines \<Rightarrow> (c # line) # lines | [] \<Rightarrow> [[c]]))"

fun joinLines :: "string list \<Rightarrow> string" where
  "joinLines [] = []"
| "joinLines [line] = line"
| "joinLines (line # lines) = line @ NL # joinLines lines"

fun firstIndex :: "string \<Rightarrow> string \<Rightarrow> nat option" where
  "firstIndex pat s =
     (if has_prefix s pat then Some 0
      else (case s of [] \<Rightarrow> None | _ # cs \<Rightarrow> map_option Suc (firstIndex pat cs)))"

fun lastIndex :: "string \<Rightarrow> string \<Rightarrow> nat option" where
  "lastIndex pat s =
     (case (case s of [] \<Rightarrow> None | _ # cs \<Rightarrow> lastIndex pat cs) of
        Some i \<Rightarrow> Some (Suc i)
      | None \<Rightarrow> if has_prefix s pat then Some 0 else None)"

text \<open>The prefix of a data line and its content.\<close>

definition extractSSEDataLine :: "string \<Rightarrow> (string \<times> string) option" where
  "extractSSEDataLine line =
     (if has_prefix line ''data: '' then Some (''data: '', drop 6 line)
      else if has_prefix line ''data:'' then Some (''data:'', drop 5 line) else None)"

definition isJSONStart :: "string \<Rightarrow> bool" where
  "isJSONStart s \<longleftrightarrow> s \<noteq> [] \<and> hd s = CHR ''{''"

definition extractLastDataPayload :: "string \<Rightarrow> string" where
  "extractLastDataPayload chunk =
     (case find (\<lambda>line. case extractSSEDataLine line of Some (_, json) \<Rightarrow> json \<noteq> [] | None \<Rightarrow> False) (rev (splitLines chunk)) of
        None \<Rightarrow> []
      | Some line \<Rightarrow> (case extractSSEDataLine line of Some (_, json) \<Rightarrow> json | None \<Rightarrow> []))"

definition modelFieldPaths :: "string list" where
  "modelFieldPaths = [''model'', ''modelVersion'', ''response.model'', ''response.modelVersion'', ''message.model'']"

definition rewriteModelInResponse :: "JsonEnv \<Rightarrow> string \<Rightarrow> string \<Rightarrow> string" where
  "rewriteModelInResponse env data targetModel =
     (if targetModel = [] \<or> data = [] then data
      else foldl (\<lambda>data path. if je_exists env data path then je_set env data path targetModel else data) data modelFieldPaths)"

definition rewriteSSELine :: "JsonEnv \<Rightarrow> string \<Rightarrow> string \<Rightarrow> string" where
  "rewriteSSELine env targetModel line =
     (case extractSSEDataLine line of
        Some (pre, jsonData) \<Rightarrow>
          if isJSONStart jsonData \<and> je_valid env jsonData then pre @ rewriteModelInResponse env jsonData targetModel else line
      | None \<Rightarrow> line)"

definition rewriteSSEPayloadLines :: "JsonEnv \<Rightarrow> string \<Rightarrow> string \<Rightarrow> string" where
  "rewriteSSEPayloadLines env targetModel payload =
     (if targetModel = [] \<or> payload = [] then payload
      else let joined = joinLines (map (rewriteSSELine env targetModel) (splitLines payload))
        in if last payload = NL \<and> (joined = [] \<or> last joined \<noteq> NL) then joined @ [NL] else joined)"

section \<open>Glued events\<close>

text \<open>The loop over the occurrences of \<open>old\<close>, which is not empty: each step drops at least its bytes.\<close>

function replaceGlued :: "JsonEnv \<Rightarrow> string \<Rightarrow> string \<Rightarrow> string \<Rightarrow> string" where
  "replaceGlued env old new remaining =
     (case firstIndex old remaining of
        None \<Rightarrow> remaining
      | Some idx \<Rightarrow>
          if old = [] then remaining
          else let line = last (splitLines (take idx remaining));
                   part = line @ take 1 (drop idx remaining);
                   glued = (case extractSSEDataLine part of
                       Some (_, jsonData) \<Rightarrow> jsonData \<noteq> [] \<and> je_valid env jsonData | None \<Rightarrow> False)
            in (if glued then take idx remaining @ new else take (idx + length old) remaining)
               @ replaceGlued env old new (drop (idx + length old) remaining))"
  by pat_completeness auto
termination
proof (relation "measure (\<lambda>(_, _, _, s). length s)")
  have "s \<noteq> []" if "firstIndex old s = Some idx" "old \<noteq> []" for old s :: string and idx
    using that by (cases s) (auto split: if_splits)
  then show "((env, old, new, drop (idx + length old) remaining), env, old, new, remaining) \<in> measure (\<lambda>(_, _, _, s). length s)"
    if "firstIndex old remaining = Some idx" "old \<noteq> []" for env :: JsonEnv and old new remaining idx
    using that by simp
qed simp

definition safeReplaceGlued :: "JsonEnv \<Rightarrow> string \<Rightarrow> string \<Rightarrow> string \<Rightarrow> string" where
  "safeReplaceGlued env chunk old new =
     (if old = [] \<or> chunk = [] then chunk
      else if \<not> contains chunk old then chunk else replaceGlued env old new chunk)"

definition normalizeGluedSSEEvents :: "JsonEnv \<Rightarrow> string \<Rightarrow> string" where
  "normalizeGluedSSEEvents env chunk =
     (if chunk = [] then chunk
      else let chunk = safeReplaceGlued env chunk ''}event:'' (''}'' @ [NL, NL] @ ''event:'');
               chunk = safeReplaceGlued env chunk (''}'' @ [CR, NL] @ ''event:'') (''}'' @ [CR, NL, CR, NL] @ ''event:'');
               chunk = safeReplaceGlued env chunk ''}data:'' (''}'' @ [NL] @ ''data:'')
        in safeReplaceGlued env chunk (''}'' @ [CR, NL] @ ''data:'') (''}'' @ [CR, NL] @ ''data:''))"

section \<open>One chunk\<close>

text \<open>The state of the loop over the lines: what is kept of them, an event line not yet followed by its
  data, and the buffer of incomplete data.\<close>

definition flushEvent :: "string list \<Rightarrow> string option \<Rightarrow> string list" where
  "flushEvent result pendingEvent = result @ (case pendingEvent of None \<Rightarrow> [] | Some ev \<Rightarrow> [ev])"

fun rewriteLines :: "JsonEnv \<Rightarrow> string \<Rightarrow> string list \<Rightarrow> string option \<Rightarrow> string \<Rightarrow> string list \<Rightarrow> string list \<times> string" where
  "rewriteLines env model result pendingEvent pendingBuf [] = (flushEvent result pendingEvent, pendingBuf)"
| "rewriteLines env model result pendingEvent pendingBuf (line # lines) =
     (if has_prefix line ''event:'' then rewriteLines env model result (Some line) pendingBuf lines
      else (case extractSSEDataLine line of
              Some (dataPrefix, jsonData) \<Rightarrow>
                if isJSONStart jsonData
                then if \<not> je_valid env jsonData
                  then rewriteLines env model result None
                    (case pendingEvent of Some ev \<Rightarrow> ev @ NL # line | None \<Rightarrow> pendingBuf @ line) lines
                  else rewriteLines env model (flushEvent result pendingEvent @ [dataPrefix @ rewriteModelInResponse env jsonData model]) None
                    pendingBuf lines
                else rewriteLines env model (flushEvent result pendingEvent @ [line]) None pendingBuf lines
            | None \<Rightarrow> rewriteLines env model (flushEvent result pendingEvent @ [line]) None pendingBuf lines))"

definition maxPendingBufSize :: nat where
  "maxPendingBufSize = 1048576"

text \<open>The part of the chunk that is rewritten now and the part that waits; \<open>None\<close> when all of it waits.\<close>

definition splitComplete :: "JsonEnv \<Rightarrow> string \<Rightarrow> (string \<times> string) option" where
  "splitComplete env chunk =
     (case lastIndex [NL, NL] chunk of
        Some i \<Rightarrow>
          (let afterComplete = drop (i + 2) chunk
           in if afterComplete \<noteq> [] \<and> afterComplete \<noteq> [NL] then Some (take (i + 2) chunk, afterComplete) else Some (chunk, []))
      | None \<Rightarrow> if je_valid env (extractLastDataPayload chunk) then Some (chunk, []) else None)"

text \<open>The buffer after the chunk, and what is given out for it.\<close>

definition RewriteChunk :: "JsonEnv \<Rightarrow> string \<Rightarrow> string \<Rightarrow> string \<Rightarrow> string \<times> string" where
  "RewriteChunk env model pendingBuf chunk =
     (if model = [] then (pendingBuf, chunk)
      else let chunk = (if pendingBuf = [] then chunk
                 else pendingBuf @ (if last pendingBuf \<noteq> NL then [NL] else []) @ chunk);
               chunk = normalizeGluedSSEEvents env chunk;
               trimmed = trim_space chunk
        in if length chunk > maxPendingBufSize then ([], chunk)
           else if isJSONStart trimmed \<and> je_valid env trimmed then ([], rewriteModelInResponse env trimmed model)
           else (case splitComplete env chunk of
                   None \<Rightarrow> if trimmed = [] then ([], chunk) else (chunk, [])
                 | Some (processChunk, rest) \<Rightarrow>
                     (let (result, pendingBuf) = rewriteLines env model [] None rest (splitLines processChunk);
                          joined = joinLines result
                      in (pendingBuf, if joined = [] \<and> chunk \<noteq> [] then rewriteSSEPayloadLines env model chunk else joined))))"

definition FinishRewrite :: "JsonEnv \<Rightarrow> string \<Rightarrow> string \<Rightarrow> string" where
  "FinishRewrite env model pendingBuf =
     (if pendingBuf = [] then []
      else let (pendingBuf, out) = RewriteChunk env model [] (normalizeGluedSSEEvents env (pendingBuf @ [NL, NL]))
        in out @ (if pendingBuf = [] then [] else rewriteSSEPayloadLines env model pendingBuf))"

section \<open>A forwarded chunk\<close>

text \<open>\<open>rewriteForceMappedStreamChunk\<close> (\<open>conductor_models.go\<close>).\<close>

definition rewriteForceMappedStreamChunk :: "JsonEnv \<Rightarrow> string \<Rightarrow> string \<Rightarrow> string \<Rightarrow> string \<times> string" where
  "rewriteForceMappedStreamChunk env model pendingBuf payload =
     (if payload = [] then (pendingBuf, payload)
      else let (pendingBuf, rewritten) = RewriteChunk env model pendingBuf payload
        in if rewritten \<noteq> [] then (pendingBuf, rewritten)
           else if contains payload ''data:'' then (pendingBuf, rewriteSSEPayloadLines env model payload)
           else (pendingBuf, []))"

section \<open>Complete events\<close>

lemma splitLines_nonempty [simp]: "splitLines s \<noteq> []"
  by (induction s) (auto split: list.splits)

lemma join_split [simp]: "joinLines (splitLines s) = s"
proof (induction s)
  case (Cons c s)
  obtain line lines where e: "splitLines s = line # lines" by (cases "splitLines s") auto
  show ?case
  proof (cases lines)
    case Nil
    then show ?thesis using Cons e by auto
  next
    case (Cons l ls)
    then show ?thesis using Cons.IH e by auto
  qed
qed simp

lemma splitLines_NL: "splitLines (s @ [NL]) = splitLines s @ [[]]"
  by (induction s) (auto split: list.splits)

lemma joinLines_NL: "xs \<noteq> [] \<Longrightarrow> joinLines (xs @ [[]]) = joinLines xs @ [NL]"
proof (induction xs rule: joinLines.induct)
  case (3 line l lines)
  then show ?case by simp
qed simp_all

lemma lastIndex_prefix: "pat \<noteq> [] \<Longrightarrow> length s < length pat \<Longrightarrow> lastIndex pat s = None"
  by (induction s) (auto dest: prefix_length_le)

lemma lastIndex_append: "pat \<noteq> [] \<Longrightarrow> lastIndex pat (s @ pat) = Some (length s)"
proof (induction s)
  case Nil
  obtain c cs where p: "pat = c # cs" using Nil by (cases pat) auto
  then have "lastIndex pat cs = None" using lastIndex_prefix [of pat cs] by simp
  then show ?case by (simp add: p)
qed simp

lemma no_glue: "\<not> contains chunk old \<Longrightarrow> safeReplaceGlued env chunk old new = chunk"
  by (simp add: safeReplaceGlued_def)

text \<open>The data lines that hold JSON objects hold whole ones, and no event line follows another.\<close>

definition dataWhole :: "JsonEnv \<Rightarrow> string \<Rightarrow> bool" where
  "dataWhole env line \<longleftrightarrow> (case extractSSEDataLine line of
     Some (_, jsonData) \<Rightarrow> isJSONStart jsonData \<longrightarrow> je_valid env jsonData | None \<Rightarrow> True)"

fun eventsApart :: "bool \<Rightarrow> string list \<Rightarrow> bool" where
  "eventsApart after [] \<longleftrightarrow> True"
| "eventsApart after (line # lines) \<longleftrightarrow>
     (if has_prefix line ''event:'' then \<not> after \<and> eventsApart True lines else eventsApart False lines)"

lemma event_no_data: "has_prefix line ''event:'' \<Longrightarrow> rewriteSSELine env model line = line"
  by (auto simp: rewriteSSELine_def extractSSEDataLine_def prefix_def)

lemma rewriteLines_map:
  "list_all (dataWhole env) lines \<Longrightarrow> eventsApart (pe \<noteq> None) lines \<Longrightarrow>
    rewriteLines env model result pe buf lines = (flushEvent result pe @ map (rewriteSSELine env model) lines, buf)"
proof (induction lines arbitrary: result pe)
  case (Cons line lines)
  show ?case
  proof (cases "has_prefix line ''event:''")
    case True
    then show ?thesis using Cons event_no_data [OF True] by (auto simp: flushEvent_def)
  next
    case False
    then show ?thesis using Cons
      by (auto simp: flushEvent_def dataWhole_def rewriteSSELine_def split: option.splits)
  qed
qed simp

text \<open>
  C17: Complete events are rewritten line by line. A chunk that ends in a blank line, whose data
  lines hold whole JSON objects, without glued events and without two event lines in a row, is given
  out at once with the model rewritten in each data line and every other byte unchanged; nothing is kept for
  later, so the end of the stream adds nothing.\<close>
theorem complete_events_rewritten:
  assumes "model \<noteq> []" and "chunk = body @ [NL, NL]" and "length chunk \<le> maxPendingBufSize"
    and "\<not> isJSONStart (trim_space chunk)"
    and "list_all (dataWhole env) (splitLines chunk)" and "eventsApart False (splitLines chunk)"
    and glue: "list_all (\<lambda>old. \<not> contains chunk old) [''}event:'', ''}'' @ [CR, NL] @ ''event:'', ''}data:'', ''}'' @ [CR, NL] @ ''data:'']"
  shows "rewriteForceMappedStreamChunk env model [] chunk = ([], joinLines (map (rewriteSSELine env model) (splitLines chunk)))
    \<and> rewriteSSEPayloadLines env model chunk = joinLines (map (rewriteSSELine env model) (splitLines chunk))
    \<and> FinishRewrite env model [] = []"
proof -
  let ?joined = "joinLines (map (rewriteSSELine env model) (splitLines chunk))"
  have "splitLines chunk = splitLines (body @ [NL]) @ [[]]" using splitLines_NL [of "body @ [NL]"] assms(2) by simp
  then have j: "?joined = joinLines (map (rewriteSSELine env model) (splitLines (body @ [NL]))) @ [NL]"
    by (simp add: joinLines_NL rewriteSSELine_def extractSSEDataLine_def)
  have ch: "chunk \<noteq> []" using assms(2) by simp
  have n: "normalizeGluedSSEEvents env chunk = chunk"
    using glue ch by (simp add: normalizeGluedSSEEvents_def Let_def no_glue)
  have "lastIndex [NL, NL] chunk = Some (length body)" using lastIndex_append [of "[NL, NL]" body] assms(2) by simp
  then have sp: "splitComplete env chunk = Some (chunk, [])" using assms(2) by (simp add: splitComplete_def)
  have "rewriteLines env model [] None [] (splitLines chunk) = (map (rewriteSSELine env model) (splitLines chunk), [])"
    using rewriteLines_map [OF assms(5), of None] assms(6) by (simp add: flushEvent_def)
  then have "RewriteChunk env model [] chunk = ([], ?joined)"
    using assms(1,3,4) n sp j by (simp add: RewriteChunk_def Let_def)
  moreover have "rewriteSSEPayloadLines env model chunk = ?joined" using assms(1) ch j
    by (simp add: rewriteSSEPayloadLines_def Let_def)
  ultimately show ?thesis using ch j by (simp add: rewriteForceMappedStreamChunk_def FinishRewrite_def)
qed

definition sampleJson :: JsonEnv where
  "sampleJson = \<lparr>je_valid = (\<lambda>s. s \<noteq> [] \<and> last s = CHR ''}''), je_exists = (\<lambda>s path. path = ''model''),
     je_set = (\<lambda>s path model. ''{'' @ model @ ''}'')\<rparr>"

lemma complete_events_rewritten_witness:
  "rewriteForceMappedStreamChunk sampleJson ''fast'' [] (''event: a'' @ NL # ''data: {x}'' @ [NL, NL]) =
     ([], ''event: a'' @ NL # ''data: {fast}'' @ [NL, NL])"
proof -
  let ?body = "''event: a'' @ NL # ''data: {x}''"
  have len: "length (?body @ [NL, NL]) \<le> maxPendingBufSize" by (simp add: maxPendingBufSize_def)
  have h: "(''fast'' :: string) \<noteq> []" "?body @ [NL, NL] = ?body @ [NL, NL]"
    "\<not> isJSONStart (trim_space (?body @ [NL, NL]))" "list_all (dataWhole sampleJson) (splitLines (?body @ [NL, NL]))"
    "eventsApart False (splitLines (?body @ [NL, NL]))"
    "list_all (\<lambda>old. \<not> contains (?body @ [NL, NL]) old) [''}event:'', ''}'' @ [CR, NL] @ ''event:'', ''}data:'', ''}'' @ [CR, NL] @ ''data:'']"
    by code_simp+
  have v: "joinLines (map (rewriteSSELine sampleJson ''fast'') (splitLines (?body @ [NL, NL]))) = ''event: a'' @ NL # ''data: {fast}'' @ [NL, NL]"
    by code_simp
  show ?thesis using complete_events_rewritten [OF h(1,2) len h(3-)] v by simp
qed

section \<open>Text given out twice\<close>

text \<open>
  A data line that is not JSON, such as the end mark of a stream, is given out at once but also kept,
  and given out again at the end.\<close>
theorem unfinished_text_repeated:
  assumes "\<not> je_valid env ''[DONE]''" and "model \<noteq> []"
  shows "rewriteForceMappedStreamChunk env model [] ''data: [DONE]'' = (''data: [DONE]'', ''data: [DONE]'')
    \<and> FinishRewrite env model ''data: [DONE]'' = ''data: [DONE]'' @ [NL, NL]"
proof -
  have l: "lastIndex [NL, NL] ''data: [DONE]'' = None" "lastIndex [NL, NL] (''data: [DONE]'' @ [NL, NL]) = Some 12"
    "extractLastDataPayload ''data: [DONE]'' = ''[DONE]''" "trim_space ''data: [DONE]'' = ''data: [DONE]''"
    "trim_space (''data: [DONE]'' @ [NL, NL]) = ''data: [DONE]''" "contains ''data: [DONE]'' ''data:''"
    "splitLines ''data: [DONE]'' = [''data: [DONE]'']" "splitLines (''data: [DONE]'' @ [NL, NL]) = [''data: [DONE]'', [], []]"
    "\<not> isJSONStart ''data: [DONE]''" "\<not> isJSONStart ''[DONE]''" "extractSSEDataLine ''data: [DONE]'' = Some (''data: '', ''[DONE]'')"
    "extractSSEDataLine [] = None" "\<not> has_prefix ''data: [DONE]'' ''event:''" "\<not> has_prefix [] ''event:''"
    "joinLines [''data: [DONE]'', [], []] = ''data: [DONE]'' @ [NL, NL]" by code_simp+
  have g: "list_all (\<lambda>old. \<not> contains ''data: [DONE]'' old \<and> \<not> contains (''data: [DONE]'' @ [NL, NL]) old)
    [''}event:'', ''}'' @ [CR, NL] @ ''event:'', ''}data:'', ''}'' @ [CR, NL] @ ''data:'']" by code_simp
  have n: "normalizeGluedSSEEvents env ''data: [DONE]'' = ''data: [DONE]''"
    "normalizeGluedSSEEvents env (''data: [DONE]'' @ [NL, NL]) = ''data: [DONE]'' @ [NL, NL]"
    using g by (simp_all add: normalizeGluedSSEEvents_def Let_def no_glue)
  define t where "t = ''data: [DONE]''"
  have "t \<noteq> []" "drop 14 (t @ [NL, NL]) = []" "length t \<le> maxPendingBufSize" "length (t @ [NL, NL]) \<le> maxPendingBufSize"
    by (simp_all add: t_def maxPendingBufSize_def)
  note f = l [folded t_def] n [folded t_def] this
  have "RewriteChunk env model [] t = (t, [])" using f assms by (simp add: RewriteChunk_def Let_def splitComplete_def)
  moreover have "rewriteSSEPayloadLines env model t = t" using f assms
    by (simp add: rewriteSSEPayloadLines_def Let_def rewriteSSELine_def)
  moreover have "RewriteChunk env model [] (t @ [NL, NL]) = ([], t @ [NL, NL])" using f assms
    by (simp add: RewriteChunk_def Let_def splitComplete_def flushEvent_def)
  ultimately show ?thesis using f by (simp add: t_def [symmetric] rewriteForceMappedStreamChunk_def FinishRewrite_def Let_def)
qed

end
