(* ===== verification/StreamExecution.thy ===== *)
theory StreamExecution
  imports Execution StreamRewriter
begin

text \<open>
  Streamed executions (\<open>backend/sdk/cliproxy/auth/conductor_stream.go\<close>, \<open>executeStreamMixedOnce\<close> and
  \<open>ExecuteStream\<close> of \<open>conductor_execution.go\<close>): the beginning of a stream is read before the stream is
  given to the client, so that an early failure goes to the next model or credential; the rest is
  forwarded while its outcome is recorded. Headers and the bodies of requests are left out.
\<close>

section \<open>Streams\<close>

record StreamChunk =
  ch_Payload :: string
  ch_Err :: "goerror option"

text \<open>What a reader of a channel sees, in order: a chunk, or the end of the context in the \<open>select\<close>; the
  channel is closed after the last one. \<open>None\<close> is a nil channel.\<close>

datatype streamEvent = Arrives StreamChunk | ContextEnds goerror

type_synonym streamSource = "streamEvent list option"

text \<open>The loop of \<open>readStreamBootstrap\<close>: the chunks read and whether the channel is closed, or the error; and
  what is left to read.\<close>

fun bootstrapLoop :: "StreamChunk list \<Rightarrow> streamEvent list \<Rightarrow> (goerror + StreamChunk list \<times> bool) \<times> streamEvent list" where
  "bootstrapLoop buffered [] = (Inr (buffered, True), [])"
| "bootstrapLoop buffered (ContextEnds err # evs) = (Inl err, evs)"
| "bootstrapLoop buffered (Arrives chunk # evs) =
     (case ch_Err chunk of
        Some err \<Rightarrow> (Inl err, evs)
      | None \<Rightarrow> if ch_Payload chunk \<noteq> [] then (Inr (buffered @ [chunk], False), evs)
                else bootstrapLoop (buffered @ [chunk]) evs)"

definition readStreamBootstrap :: "streamSource \<Rightarrow> (goerror + StreamChunk list \<times> bool) \<times> streamEvent list" where
  "readStreamBootstrap source = (case source of None \<Rightarrow> (Inr ([], True), []) | Some evs \<Rightarrow> bootstrapLoop [] evs)"

definition newStreamBootstrapError :: "goerror \<Rightarrow> goerror" where
  "newStreamBootstrapError err = WrapErr \<lparr>ev_kind = BootstrapErr, ev_text = errText err, ev_status = None,
     ev_scoped = None, ev_retryAfter = None\<rparr> err"

text \<open>The cause of the first bootstrap error in the chain.\<close>

fun bootstrapCauseOf :: "goerror \<Rightarrow> goerror option" where
  "bootstrapCauseOf (WrapErr v cause) = (if ev_kind v = BootstrapErr then Some cause else None)"
| "bootstrapCauseOf _ = None"

definition bootstrapCause :: "goerror \<Rightarrow> goerror option" where
  "bootstrapCause err = errAs bootstrapCauseOf err"

text \<open>A stream given to the client: what \<open>wrapStreamResult\<close> closes over.\<close>

record OpenStream =
  os_AuthID :: string
  os_Provider :: string
  os_Model :: string
  os_Alias :: OAuthModelAliasResult
  os_Buffered :: "StreamChunk list"
  os_Remaining :: "streamEvent list"

section \<open>Forwarding\<close>

text \<open>The goroutine that forwards: whether an error was seen, the buffer of the rewriter, the number of sends
  tried, what the client got, and the results recorded.\<close>

record Forward =
  fw_failed :: bool
  fw_pending :: string
  fw_sends :: nat
  fw_out :: "StreamChunk list"
  fw_results :: "Result list"

text \<open>The model name to write, when the responses are rewritten.\<close>

definition rewriteTarget :: "OAuthModelAliasResult \<Rightarrow> string option" where
  "rewriteTarget aliasResult =
     (if ar_ForceMapping aliasResult \<and> trim_space (ar_OriginalAlias aliasResult) \<noteq> [] then Some (ar_OriginalAlias aliasResult)
      else None)"

text \<open>A send to the client, which the end of the context may beat: \<open>taken k\<close> says whether the \<open>k\<close>-th is taken.
  The boolean is the one \<open>emit\<close> returns.\<close>

definition sendChunk :: "(nat \<Rightarrow> bool) \<Rightarrow> StreamChunk \<Rightarrow> Forward \<Rightarrow> Forward \<times> bool" where
  "sendChunk taken chunk f =
     (if taken (fw_sends f)
      then (f\<lparr>fw_sends := fw_sends f + 1, fw_out := fw_out f @ [chunk]\<rparr>, True)
      else (f\<lparr>fw_sends := fw_sends f + 1\<rparr>, False))"

definition streamFailure :: "OpenStream \<Rightarrow> goerror \<Rightarrow> Result" where
  "streamFailure s err = (failureResult (os_AuthID s) (os_Provider s) (os_Model s) err)\<lparr>res_RetryAfter := None\<rparr>"

definition emitChunk :: "JsonEnv \<Rightarrow> (nat \<Rightarrow> bool) \<Rightarrow> OpenStream \<Rightarrow> StreamChunk \<Rightarrow> Forward \<Rightarrow> Forward \<times> bool" where
  "emitChunk json taken s chunk f =
     (case ch_Err chunk of
        Some err \<Rightarrow>
          (let f = (if fw_failed f then f
                 else f\<lparr>fw_failed := True, fw_results := fw_results f @ [streamFailure s err]\<rparr>)
           in sendChunk taken chunk f)
      | None \<Rightarrow>
          if ch_Payload chunk = [] then (f, True)
          else let (pending, payload) = (case rewriteTarget (os_Alias s) of
                     None \<Rightarrow> (fw_pending f, ch_Payload chunk)
                   | Some model \<Rightarrow> rewriteForceMappedStreamChunk json model (fw_pending f) (ch_Payload chunk));
                   f = f\<lparr>fw_pending := pending\<rparr>
            in if payload = [] then (f, True) else sendChunk taken (chunk\<lparr>ch_Payload := payload\<rparr>) f)"

text \<open>The two loops, over the buffered chunks and over the channel, which is read without a look at the
  context; the boolean says that nobody gave up.\<close>

fun emitAll :: "JsonEnv \<Rightarrow> (nat \<Rightarrow> bool) \<Rightarrow> OpenStream \<Rightarrow> StreamChunk list \<Rightarrow> Forward \<Rightarrow> Forward \<times> bool" where
  "emitAll json taken s [] f = (f, True)"
| "emitAll json taken s (chunk # chunks) f =
     (case emitChunk json taken s chunk f of (f, ok) \<Rightarrow> if ok then emitAll json taken s chunks f else (f, False))"

definition arriving :: "streamEvent list \<Rightarrow> StreamChunk list" where
  "arriving evs = List.map_filter (\<lambda>ev. case ev of Arrives chunk \<Rightarrow> Some chunk | ContextEnds _ \<Rightarrow> None) evs"

definition startForward :: Forward where
  "startForward = \<lparr>fw_failed = False, fw_pending = [], fw_sends = 0, fw_out = [], fw_results = []\<rparr>"

definition wrapStreamResult :: "JsonEnv \<Rightarrow> (nat \<Rightarrow> bool) \<Rightarrow> OpenStream \<Rightarrow> Forward" where
  "wrapStreamResult json taken s =
     (case emitAll json taken s (os_Buffered s) startForward of
        (f, False) \<Rightarrow> f
      | (f, True) \<Rightarrow>
          (case emitAll json taken s (arriving (os_Remaining s)) f of
             (f, False) \<Rightarrow> f
           | (f, True) \<Rightarrow>
               (let tail = (case rewriteTarget (os_Alias s) of None \<Rightarrow> [] | Some model \<Rightarrow> FinishRewrite json model (fw_pending f));
                    f = (if rewriteTarget (os_Alias s) = None then f else f\<lparr>fw_pending := []\<rparr>);
                    (f, ok) = (if tail = [] then (f, True) else emitChunk json taken s \<lparr>ch_Payload = tail, ch_Err = None\<rparr> f)
                in if \<not> ok then f
                   else if fw_failed f then f
                   else f\<lparr>fw_results := fw_results f @ [successResult (os_AuthID s) (os_Provider s) (os_Model s)]\<rparr>)))"

section \<open>The models of one credential\<close>

definition emptyStreamError :: "string \<Rightarrow> goerror" where
  "emptyStreamError message = AuthErr \<lparr>e_Code = ''empty_stream'', e_Message = message, e_Retryable = True, e_HTTPStatus = 0\<rparr>"

text \<open>A reply to \<open>ExecuteStream\<close>: an error, a nil result, or a result with its channel.\<close>

type_synonym streamReply = "goerror + streamSource option"

type_synonym 'x streamCall = "nat \<Rightarrow> 'x \<Rightarrow> Auth \<Rightarrow> string \<Rightarrow> streamReply"

datatype bootOutcome = BootCanceled goerror | BootPanic | BootDone "goerror + StreamChunk list \<times> bool" "streamEvent list"

text \<open>Reading the beginning, with one refresh and a second stream when the token is rejected there.\<close>

definition bootstrapStream :: "('x, 'c, 's, 'r) ExecEnv \<Rightarrow> 'x streamCall \<Rightarrow> 'x \<Rightarrow> Auth \<Rightarrow> bool \<Rightarrow> string \<Rightarrow> streamSource
    \<Rightarrow> ('x, 'c, 's) Conductor \<Rightarrow> ('x, 'c, 's) Conductor \<times> Auth \<times> bool \<times> execEvent list \<times> bootOutcome" where
  "bootstrapStream env call executor auth didRefresh model source st =
     (case (awaitUpstream env st, readStreamBootstrap source) of
        (st, Inr opened, rest) \<Rightarrow> (st, auth, didRefresh, [], BootDone (Inr opened) rest)
      | (st, Inl errBoot, rest) \<Rightarrow>
          (case xv_ctxErr env (cd_tick st) of
             Some errCtx \<Rightarrow> (st, auth, didRefresh, [], BootCanceled errCtx)
           | None \<Rightarrow>
               (case tryRefreshAfterUnauthorized env auth errBoot didRefresh st of
                  (st, None) \<Rightarrow> (st, auth, didRefresh, [], BootDone (Inl errBoot) rest)
                | (st, Some refreshed) \<Rightarrow>
                    (case (awaitUpstream env st, call (cd_tick st) executor refreshed model) of
                       (st, Inl errRetry) \<Rightarrow>
                         (st, refreshed, True, [Called (a_ID refreshed) model],
                          case xv_ctxErr env (cd_tick st) of Some errCtx \<Rightarrow> BootCanceled errCtx | None \<Rightarrow> BootDone (Inl errRetry) [])
                     | (st, Inr None) \<Rightarrow> (st, refreshed, True, [Called (a_ID refreshed) model], BootPanic)
                     | (st, Inr (Some source)) \<Rightarrow>
                         (let (r, rest) = readStreamBootstrap source
                          in (awaitUpstream env st, refreshed, True, [Called (a_ID refreshed) model], BootDone r rest))))))"

text \<open>The loop over the models; the last error is the one of the last model left behind. A model is
  called under \<open>executionModel\<close> when there is one.\<close>

fun executeStreamWithModelPool :: "('x, 'c, 's, 'r) ExecEnv \<Rightarrow> 'x streamCall \<Rightarrow> 'x \<Rightarrow> string \<Rightarrow> ExecRequest \<Rightarrow> string \<Rightarrow> string option
    \<Rightarrow> bool \<Rightarrow> OAuthModelAliasResult \<Rightarrow> string list \<Rightarrow> Auth \<Rightarrow> bool \<Rightarrow> goerror option \<Rightarrow> ('x, 'c, 's) Conductor
    \<Rightarrow> ('x, 'c, 's) Conductor \<times> OpenStream onceOutcome \<times> execEvent list" where
  "executeStreamWithModelPool env call executor provider rq routeModel executionModel pooled aliasResult [] auth didRefresh lastErr st =
     (st, OnceError (case lastErr of Some err \<Rightarrow> err | None \<Rightarrow> newAuthError ''auth_not_found'' ''no upstream model available''), [])"
| "executeStreamWithModelPool env call executor provider rq routeModel executionModel pooled aliasResult (execModel # models) auth didRefresh lastErr st =
     (let resultModel = stateModelForExecution (xv_route env) auth routeModel execModel pooled;
          callModel = (case executionModel of Some m \<Rightarrow> m | None \<Rightarrow> execModel);
          goOn = executeStreamWithModelPool env call executor provider rq routeModel executionModel pooled aliasResult models
      in case xv_intercept env (cd_tick st) callModel (requestedModelAliasFromOptions (rq_metadata rq) routeModel) of
           Some errIntercept \<Rightarrow> (ticked 1 st, OnceError errIntercept, [])
         | None \<Rightarrow>
             (case xv_ctxErr env (cd_tick st + 1) of
                Some errCtx \<Rightarrow> (ticked 1 st, OnceError errCtx, [])
              | None \<Rightarrow>
                  (case callAndRefresh env call executor auth didRefresh callModel (ticked 1 st) of
                     (st, auth, didRefresh, calls, CallCanceled errCtx) \<Rightarrow> (st, OnceError errCtx, calls)
                   | (st, auth, didRefresh, calls, CallDone reply) \<Rightarrow>
                       (case (case reply of
                                Inl err \<Rightarrow> Inl err
                              | Inr None \<Rightarrow> Inl (emptyStreamError ''upstream stream has no source'')
                              | Inr (Some None) \<Rightarrow> Inl (emptyStreamError ''upstream stream has no source'')
                              | Inr (Some (Some evs)) \<Rightarrow> Inr evs) of
                          Inl errStream \<Rightarrow>
                            (let result = failureResult (a_ID auth) provider resultModel errStream;
                                 st = markResult env result st; done = calls @ [Marked result (Some errStream)]
                             in if isRequestInvalidError errStream then (st, OnceError errStream, done)
                                else case goOn auth didRefresh (Some errStream) st of (st, out, events) \<Rightarrow> (st, out, done @ events))
                        | Inr evs \<Rightarrow>
                            (case bootstrapStream env call executor auth didRefresh callModel (Some evs) st of
                               (st, auth, didRefresh, again, BootCanceled errCtx) \<Rightarrow> (st, OnceError errCtx, calls @ again)
                             | (st, auth, didRefresh, again, BootPanic) \<Rightarrow> (st, OncePanic, calls @ again)
                             | (st, auth, didRefresh, again, BootDone (Inl errBoot) rest) \<Rightarrow>
                                 (let result = failureResult (a_ID auth) provider resultModel errBoot;
                                      st = markResult env result st; done = calls @ again @ [Marked result (Some errBoot)]
                                  in if isRequestInvalidError errBoot then (st, OnceError errBoot, done)
                                     else if models = [] then (st, OnceError (newStreamBootstrapError errBoot), done)
                                     else case goOn auth didRefresh (Some errBoot) st of (st, out, events) \<Rightarrow> (st, out, done @ events))
                             | (st, auth, didRefresh, again, BootDone (Inr (buffered, closed)) rest) \<Rightarrow>
                                 if closed \<and> buffered = []
                                 then (let errEmpty = emptyStreamError ''upstream stream closed before first payload'';
                                           result = (failureResult (a_ID auth) provider resultModel errEmpty)\<lparr>res_RetryAfter := None,
                                             res_Error := asAuthErr errEmpty\<rparr>;
                                           st = markResult env result st; done = calls @ again @ [Marked result (Some errEmpty)]
                                       in if models = [] then (st, OnceError (newStreamBootstrapError errEmpty), done)
                                          else case goOn auth didRefresh (Some errEmpty) st of (st, out, events) \<Rightarrow> (st, out, done @ events))
                                 else (st, OnceReply \<lparr>os_AuthID = a_ID auth, os_Provider = provider, os_Model = resultModel,
                                         os_Alias = aliasResult, os_Buffered = buffered, os_Remaining = (if closed then [] else rest)\<rparr>,
                                       calls @ again))))))"

section \<open>The loops over credentials and attempts\<close>

definition executeStreamCredential :: "('x, 'c, 's, 'r) ExecEnv \<Rightarrow> 'x streamCall \<Rightarrow> ExecRequest
    \<Rightarrow> ('x, 'c, 's, OpenStream) credentialHandler" where
  "executeStreamCredential env call rq executor provider models pooled aliasResult auth l =
     withPrepared env rq executor provider auth
       (\<lambda>st prepared.
          (let routeModel = authSelectionModelFromOptions (rq_metadata rq) (rq_model rq)
           in case executeStreamWithModelPool env call executor provider rq routeModel
                     (executionModelForAuthSelection (rq_metadata rq) (rq_model rq)) pooled aliasResult models prepared False None st of
                (st, out, events) \<Rightarrow>
                  (let l = l\<lparr>lo_state := ticked 1 st, lo_runs := lo_runs l @ [(a_ID auth, events)]\<rparr>
                   in case out of
                        OnceError errStream \<Rightarrow>
                          (case xv_ctxErr env (cd_tick st) of
                             Some errCtx \<Rightarrow> l\<lparr>lo_done := Some (OnceError errCtx)\<rparr>
                           | None \<Rightarrow> if isRequestInvalidError errStream then l\<lparr>lo_done := Some (OnceError errStream)\<rparr>
                                     else l\<lparr>lo_lastErr := Some errStream\<rparr>)
                      | _ \<Rightarrow> l\<lparr>lo_done := Some out\<rparr>))) l"

definition executeStreamMixedOnce :: "('x, 'c, 's, 'r) ExecEnv \<Rightarrow> 'x streamCall \<Rightarrow> string list \<Rightarrow> ExecRequest \<Rightarrow> int \<Rightarrow> ('x, 'c, 's) Conductor
    \<Rightarrow> ('x, 'c, 's, OpenStream) OnceLoop option" where
  "executeStreamMixedOnce env call = onceLoop env (executeStreamCredential env call)"

fun creditsStreamLoop :: "('x, 'c, 's, 'r) ExecEnv \<Rightarrow> 'x streamCall \<Rightarrow> ExecRequest \<Rightarrow> (Auth \<times> 'x) list \<Rightarrow> ('x, 'c, 's) Conductor
    \<Rightarrow> ('x, 'c, 's) Conductor \<times> OpenStream onceOutcome option \<times> credentialRun list" where
  "creditsStreamLoop env call rq [] st = (st, None, [])"
| "creditsStreamLoop env call rq ((auth, executor) # candidates) st =
     (if xv_ctxErr env (cd_tick st) \<noteq> None then (st, None, [])
      else (case prepareRequestAuth env executor auth st of
              (st, _, Some _) \<Rightarrow> creditsStreamLoop env call rq candidates st
            | (st, None, None) \<Rightarrow> (st, Some OncePanic, [])
            | (st, Some prepared, None) \<Rightarrow>
                (let ((models, pooled, aliasResult), m) =
                       executionModelCandidatesWithAlias (xv_route env) prepared (rq_model rq) (cd_manager st)
                 in case executeStreamWithModelPool env call executor (executorKeyFromAuth auth) rq (rq_model rq) None pooled aliasResult
                           models prepared False None (st\<lparr>cd_manager := m\<rparr>) of
                      (st, OnceError _, events) \<Rightarrow>
                        (case creditsStreamLoop env call rq candidates st of (st, out, runs) \<Rightarrow> (st, out, (a_ID auth, events) # runs))
                    | (st, out, events) \<Rightarrow> (st, Some out, [(a_ID auth, events)]))))"

definition tryAntigravityCreditsExecuteStream :: "('x, 'c, 's, 'r) ExecEnv \<Rightarrow> 'x streamCall \<Rightarrow> ExecRequest \<Rightarrow> ('x, 'c, 's) Conductor
    \<Rightarrow> ('x, 'c, 's) Conductor \<times> OpenStream onceOutcome option \<times> credentialRun list" where
  "tryAntigravityCreditsExecuteStream env call rq st =
     (case findAllAntigravityCreditsCandidateAuths env rq st of
        Inl err \<Rightarrow> (st, Some (OnceError err), [])
      | Inr candidates \<Rightarrow> creditsStreamLoop env call rq candidates st)"

text \<open>The outcome of the whole call; an early failure is given to the client as a stream of that error.\<close>

datatype streamOutcome = StreamOpened OpenStream | StreamOfError goerror | StreamRefused goerror | StreamPanic

definition streamOutcomeOf :: "OpenStream onceOutcome \<Rightarrow> streamOutcome" where
  "streamOutcomeOf out = (case out of OnceReply s \<Rightarrow> StreamOpened s | OnceError err \<Rightarrow> StreamRefused err | OncePanic \<Rightarrow> StreamPanic)"

definition streamError :: "goerror \<Rightarrow> streamOutcome" where
  "streamError lastErr = (case bootstrapCause lastErr of Some cause \<Rightarrow> StreamOfError cause | None \<Rightarrow> StreamRefused lastErr)"

definition ExecuteStream :: "('x, 'c, 's, 'r) ExecEnv \<Rightarrow> 'x streamCall \<Rightarrow> string list \<Rightarrow> ExecRequest \<Rightarrow> ('x, 'c, 's) Conductor
    \<Rightarrow> (('x, 'c, 's) Conductor \<times> credentialRun list \<times> streamOutcome) option" where
  "ExecuteStream env call providers rq st =
     (case attemptLoop env (executeStreamMixedOnce env call) providers rq st of
        None \<Rightarrow> None
      | Some l \<Rightarrow>
          (case ex_end l of
             Some (Finished out) \<Rightarrow> Some (ex_state l, ex_runs l, streamOutcomeOf out)
           | Some (GaveUp lastErr) \<Rightarrow>
               (if hasAntigravityProvider (normalizeProviders providers) \<and> shouldAttemptAntigravityCreditsFallback env lastErr
                then (case tryAntigravityCreditsExecuteStream env call rq (ex_state l) of
                        (st, Some out, runs) \<Rightarrow> Some (st, ex_runs l @ runs, streamOutcomeOf out)
                      | (st, None, runs) \<Rightarrow> Some (st, ex_runs l @ runs, streamError lastErr))
                else Some (ex_state l, ex_runs l, streamError lastErr))
           | _ \<Rightarrow> None))"

end
