(* ===== verification/ExecutionLoop.thy ===== *)
theory ExecutionLoop
  imports Execution
begin

text \<open>
  What an execution does (theory Execution): the events of a run, the outcome they decide, and the
  bounds on credentials and attempts.
\<close>

section \<open>Runs\<close>

text \<open>An event after which nothing is called: a success, or an error that is the request's fault.\<close>

fun finalEvent :: "execEvent \<Rightarrow> bool" where
  "finalEvent (Marked r None) \<longleftrightarrow> True"
| "finalEvent (Marked r (Some e)) \<longleftrightarrow> isRequestInvalidError e"
| "finalEvent _ \<longleftrightarrow> False"

definition recorded :: "string \<Rightarrow> Result \<Rightarrow> goerror option \<Rightarrow> bool" where
  "recorded i r e \<longleftrightarrow> res_AuthID r = i \<and> (case e of
     None \<Rightarrow> r = successResult i (res_Provider r) (res_Model r)
   | Some err \<Rightarrow> r = failureResult i (res_Provider r) (res_Model r) err)"

text \<open>The events of one credential: every call is followed by its result, but that one call of a run may
  be repeated after a refresh (\<open>d\<close> says it was), and the last may be cancelled.\<close>

fun runOK :: "bool \<Rightarrow> execEvent list \<Rightarrow> bool" where
  "runOK d [] \<longleftrightarrow> True"
| "runOK d [Called i m] \<longleftrightarrow> True"
| "runOK d (Called i m # Marked r e # evs) \<longleftrightarrow> recorded i r e \<and> (finalEvent (Marked r e) \<longrightarrow> evs = []) \<and> runOK d evs"
| "runOK d [Called i m, Called j m'] \<longleftrightarrow> \<not> d \<and> m' = m"
| "runOK d (Called i m # Called j m' # Marked r e # evs) \<longleftrightarrow>
     \<not> d \<and> m' = m \<and> recorded j r e \<and> (finalEvent (Marked r e) \<longrightarrow> evs = []) \<and> runOK True evs"
| "runOK d _ \<longleftrightarrow> False"

lemma recorded_results [simp]:
  "recorded i (successResult i p m) None" "recorded i (failureResult i p m e) (Some e)"
  by (simp_all add: recorded_def successResult_def failureResult_def)

lemma callAndRefresh_calls:
  assumes "callAndRefresh env call x auth d m st = (st', auth', d', calls, out)"
  shows "calls = [Called (a_ID auth) m] \<and> auth' = auth \<and> d' = d \<or>
    calls = [Called (a_ID auth) m, Called (a_ID auth') m] \<and> \<not> d \<and> d'"
proof -
  have "tryRefreshAfterUnauthorized env auth e True s = (s, None)" for e s
    by (simp add: tryRefreshAfterUnauthorized_def triesRefreshAfterUnauthorized_def)
  then show ?thesis using assms
    by (cases d) (auto simp: callAndRefresh_def Let_def split: prod.splits sum.splits option.splits)
qed

text \<open>The outcome that a run with these events must have.\<close>

definition decided :: "'r onceOutcome option \<Rightarrow> execEvent list \<Rightarrow> bool" where
  "decided out evs \<longleftrightarrow>
     ((\<exists>resp. out = Some (OnceReply resp)) \<longleftrightarrow> evs \<noteq> [] \<and> (\<exists>r. last evs = Marked r None)) \<and>
     (\<forall>r e. evs \<noteq> [] \<and> last evs = Marked r (Some e) \<and> isRequestInvalidError e \<longrightarrow> out = Some (OnceError e)) \<and>
     (out = None \<longrightarrow> list_all (\<lambda>ev. \<not> finalEvent ev) evs)"

lemma decided_append: "evs \<noteq> [] \<Longrightarrow> decided out evs \<Longrightarrow> list_all (\<lambda>ev. \<not> finalEvent ev) pre \<Longrightarrow> decided out (pre @ evs)"
  by (auto simp: decided_def)

lemma tryModels_run:
  assumes "tryModels env mode x p rq pooled al models auth d err st = (st', out, err', evs)"
  shows "runOK d evs \<and> decided out evs \<and> (out = None \<longrightarrow> models \<noteq> [] \<longrightarrow>
    evs \<noteq> [] \<and> (\<exists>e r. err' = Some e \<and> \<not> isRequestInvalidError e \<and> last evs = Marked r (Some e)))"
  using assms
proof (induction models arbitrary: auth d err st st' out err' evs)
  case Nil
  then show ?case by (auto simp: decided_def)
next
  case (Cons u models)
  define model where "model = (case executionModelForAuthSelection (rq_metadata rq) (rq_model rq) of Some m \<Rightarrow> m | None \<Rightarrow> u)"
  define rm where "rm = stateModelForExecution (xv_route env) auth (authSelectionModelFromOptions (rq_metadata rq) (rq_model rq)) u pooled"
  define int where "int = xv_intercept env (cd_tick st) model
    (requestedModelAliasFromOptions (rq_metadata rq) (authSelectionModelFromOptions (rq_metadata rq) (rq_model rq)))"
  obtain st1 auth1 d1 calls o1 where ex: "executeModel env mode x auth d model (ticked 1 st) = (st1, auth1, d1, calls, o1)"
    by (cases "executeModel env mode x auth d model (ticked 1 st)") auto
  note calls = callAndRefresh_calls [OF ex [unfolded executeModel_def]]
  note eq = Cons.prems [simplified, unfolded Let_def, folded model_def rm_def, folded int_def, unfolded ex]
  show ?case
  proof (cases int)
    case (Some e)
    then show ?thesis using eq by (auto simp: decided_def)
  next
    case None
    show ?thesis
    proof (cases o1)
      case (CallCanceled e)
      then show ?thesis using eq None calls by (auto simp: decided_def)
    next
      case (CallDone r)
      show ?thesis
      proof (cases r)
        case (Inr resp)
        then have "evs = calls @ [Marked (successResult (a_ID auth1) p rm) None]" "\<exists>resp. out = Some (OnceReply resp)"
          using eq None CallDone by auto
        then show ?thesis using calls by (auto simp: decided_def)
      next
        case (Inl e)
        let ?r = "failureResult (a_ID auth1) p rm e"
        show ?thesis
        proof (cases "isRequestInvalidError e")
          case True
          then have "evs = calls @ [Marked ?r (Some e)]" "out = Some (OnceError e)"
            using eq None CallDone Inl by auto
          then show ?thesis using calls True by (auto simp: decided_def)
        next
          case False
          obtain st2 out2 err2 evs2 where rec: "tryModels env mode x p rq pooled al models auth1 d1 (Some e)
              (recordModelFailure env mode model e ?r st1) = (st2, out2, err2, evs2)"
            by (cases "tryModels env mode x p rq pooled al models auth1 d1 (Some e) (recordModelFailure env mode model e ?r st1)") auto
          have r: "evs = calls @ Marked ?r (Some e) # evs2" "out = out2" "err' = err2"
            using eq None CallDone Inl False rec by auto
          note ih = Cons.IH [OF rec]
          have "runOK d evs" using calls r(1) ih False by auto
          moreover have "decided out evs"
          proof (cases "evs2 = []")
            case True
            then have "decided out [Marked ?r (Some e)]" using ih r(2) False by (auto simp: decided_def)
            from decided_append [OF _ this, of calls] show ?thesis using r(1) True calls by (auto simp: decided_def)
          next
            case ne: False
            show ?thesis using decided_append [OF ne, of out "calls @ [Marked ?r (Some e)]"] ih r calls False by auto
          qed
          moreover have "evs \<noteq> [] \<and> (\<exists>e r. err' = Some e \<and> \<not> isRequestInvalidError e \<and> last evs = Marked r (Some e))" if "out = None"
          proof (cases "models = []")
            case True
            then show ?thesis using rec r False by auto
          next
            case ne: False
            then show ?thesis using ih r that by auto
          qed
          ultimately show ?thesis by blast
        qed
      qed
    qed
  qed
qed

section \<open>The events of the whole loop\<close>

definition eventsOf :: "credentialRun list \<Rightarrow> execEvent list" where
  "eventsOf runs = concat (map snd runs)"

lemma eventsOf_append [simp]: "eventsOf (runs @ [(i, evs)]) = eventsOf runs @ evs"
  by (simp add: eventsOf_def)

text \<open>Only the last event may be final.\<close>

definition finalLast :: "execEvent list \<Rightarrow> bool" where
  "finalLast evs \<longleftrightarrow> list_all (\<lambda>ev. \<not> finalEvent ev) (butlast evs)"

lemma runOK_final: "runOK d evs \<Longrightarrow> finalLast evs"
proof (induction d evs rule: runOK.induct)
  case (3 d i m r e evs)
  then show ?case by (cases "evs = []") (simp_all add: finalLast_def)
next
  case (5 d i m j m' r e evs)
  then show ?case by (cases "evs = []") (simp_all add: finalLast_def)
qed (simp_all add: finalLast_def)

text \<open>A run of the loop, and what the runs so far show of the outcome.\<close>

definition credentialRunOK :: "credentialRun \<Rightarrow> bool" where
  "credentialRunOK run \<longleftrightarrow> runOK False (snd run)
     \<or> (\<exists>r e. snd run = [MarkedUnprepared r] \<and> r = (failureResult (res_AuthID r) (res_Provider r) (res_Model r) e)\<lparr>res_RetryAfter := None\<rparr>)"

text \<open>What decides the outcome of a loop over credentials: a rule \<open>D\<close> between its outcome, if it has one, and
  its events. The rule looks at the end of the events, a final event ends the loop, and a loop
  may end without a reply whenever no event was final.\<close>

definition loopOK :: "('r onceOutcome option \<Rightarrow> execEvent list \<Rightarrow> bool) \<Rightarrow> int \<Rightarrow> ('x, 'c, 's, 'r) OnceLoop \<Rightarrow> bool" where
  "loopOK D n l \<longleftrightarrow> list_all credentialRunOK (lo_runs l) \<and> D (lo_done l) (eventsOf (lo_runs l))
     \<and> finalLast (eventsOf (lo_runs l))
     \<and> set (map fst (lo_runs l)) \<subseteq> set (lo_attempted l) \<and> distinct (lo_attempted l)
     \<and> (0 < n \<longrightarrow> int (length (lo_attempted l)) \<le> n)"

definition handlerRuns :: "('r onceOutcome option \<Rightarrow> execEvent list \<Rightarrow> bool) \<Rightarrow> int \<Rightarrow> ('x, 'c, 's, 'r) credentialHandler \<Rightarrow> bool" where
  "handlerRuns D n handle \<longleftrightarrow> (\<forall>x p models pooled al auth l. loopOK D n l \<longrightarrow> lo_done l = None \<longrightarrow> a_ID auth \<in> set (lo_attempted l)
     \<longrightarrow> loopOK D n (handle x p models pooled al auth l))"

lemma loopOK_cong:
  "loopOK D n l \<Longrightarrow> lo_runs l' = lo_runs l \<Longrightarrow> lo_attempted l' = lo_attempted l \<Longrightarrow> D (lo_done l') (eventsOf (lo_runs l))
    \<Longrightarrow> loopOK D n l'"
  by (simp add: loopOK_def)

lemma loopOK_done:
  "loopOK D n l \<Longrightarrow> D out (eventsOf (lo_runs l)) \<Longrightarrow>
    loopOK D n (l\<lparr>lo_done := out\<rparr>) \<and> loopOK D n (l\<lparr>lo_state := s, lo_done := out\<rparr>)"
  by (simp add: loopOK_def)

text \<open>A round of the loop: the limit, a failed pick, a credential without models, or one that is handled.\<close>

lemma onceRound_cases:
  fixes env :: "('x, 'c, 's, 'e) ExecEnv" and handle :: "('x, 'c, 's, 'r) credentialHandler"
  obtains (limit) "0 < n" "n \<le> int (length (lo_attempted l))"
      "onceRound env handle ps rq n l = l\<lparr>lo_done := Some (lastErrorOr noAuthAvailable (lo_lastErr l))\<rparr>"
  | (failed) st e where
      "pickNextMixed (xv_select env) ps (authSelectionModelFromOptions (rq_metadata rq) (rq_model rq))
        ((RouteRequest.truncate rq)\<lparr>rq_tried := lo_tried l\<rparr>) (lo_state l) = (st, Inl e)"
      "onceRound env handle ps rq n l = l\<lparr>lo_state := st, lo_done := Some (lastErrorOr e (lo_lastErr l))\<rparr>"
  | (picked) st auth x p models pooled al m where
      "pickNextMixed (xv_select env) ps (authSelectionModelFromOptions (rq_metadata rq) (rq_model rq))
        ((RouteRequest.truncate rq)\<lparr>rq_tried := lo_tried l\<rparr>) (lo_state l) = (st, Inr (auth, x, p))"
      "preparedExecutionModelsWithAlias (xv_route env) (xv_now env st) auth
        (authSelectionModelFromOptions (rq_metadata rq) (rq_model rq)) (cd_manager st) = ((models, pooled, al), m)"
      "0 < n \<longrightarrow> int (length (lo_attempted l)) < n"
      "onceRound env handle ps rq n l = (if models = []
        then l\<lparr>lo_state := (ticked 1 st)\<lparr>cd_manager := m\<rparr>, lo_tried := a_ID auth # lo_tried l\<rparr>
        else handle x p models pooled al auth (l\<lparr>lo_state := (ticked 1 st)\<lparr>cd_manager := m\<rparr>, lo_tried := a_ID auth # lo_tried l,
          lo_attempted := List.insert (a_ID auth) (lo_attempted l)\<rparr>))"
proof (cases "0 < n \<and> int (length (lo_attempted l)) \<ge> n")
  case True
  then show ?thesis using limit by (simp add: onceRound_def)
next
  case room: False
  obtain st r where pk: "pickNextMixed (xv_select env) ps (authSelectionModelFromOptions (rq_metadata rq) (rq_model rq))
      ((RouteRequest.truncate rq)\<lparr>rq_tried := lo_tried l\<rparr>) (lo_state l) = (st, r)" by fastforce
  show ?thesis
  proof (cases r)
    case (Inl e)
    show ?thesis
      by (rule failed) (use pk Inl room in \<open>unfold onceRound_def Let_def, simp_all only: if_False prod.case sum.case\<close>)
  next
    case (Inr y)
    obtain auth x p where y: "y = (auth, x, p)" by (cases y) auto
    obtain models pooled al m where mo: "preparedExecutionModelsWithAlias (xv_route env) (xv_now env st) auth
        (authSelectionModelFromOptions (rq_metadata rq) (rq_model rq)) (cd_manager st) = ((models, pooled, al), m)"
      by (metis prod.exhaust)
    have "onceRound env handle ps rq n l = (if models = []
        then l\<lparr>lo_state := (ticked 1 st)\<lparr>cd_manager := m\<rparr>, lo_tried := a_ID auth # lo_tried l\<rparr>
        else handle x p models pooled al auth (l\<lparr>lo_state := (ticked 1 st)\<lparr>cd_manager := m\<rparr>, lo_tried := a_ID auth # lo_tried l,
          lo_attempted := List.insert (a_ID auth) (lo_attempted l)\<rparr>))"
      using pk Inr y mo room unfolding onceRound_def Let_def by (simp only: if_False prod.case sum.case) simp
    moreover have "0 < n \<longrightarrow> int (length (lo_attempted l)) < n" using room by auto
    ultimately show ?thesis using picked [OF pk [unfolded Inr y] mo] by blast
  qed
qed

lemma insert_length: "length (List.insert i xs) \<le> Suc (length xs)"
  by (simp add: List.insert_def)

locale outcome_rule =
  fixes D :: "'r onceOutcome option \<Rightarrow> execEvent list \<Rightarrow> bool"
  assumes later: "evs \<noteq> [] \<Longrightarrow> D out evs \<Longrightarrow> list_all (\<lambda>ev. \<not> finalEvent ev) pre \<Longrightarrow> D out (pre @ evs)"
    and unfinished: "list_all (\<lambda>ev. \<not> finalEvent ev) evs \<Longrightarrow> \<not> (\<exists>resp. out = Some (OnceReply resp)) \<Longrightarrow> D out evs"
    and going_on: "D None evs \<Longrightarrow> list_all (\<lambda>ev. \<not> finalEvent ev) evs"
    and no_reply: "\<not> D (Some (OnceReply resp)) []"
begin

lemma run:
  assumes l: "loopOK D n l" "lo_done l = None"
    and run: "credentialRunOK (i, evs)" "i \<in> set (lo_attempted l)"
    and fin: "finalLast evs"
    and dec: "D (lo_done l') evs"
    and l': "lo_runs l' = lo_runs l @ [(i, evs)]" "lo_attempted l' = lo_attempted l"
  shows "loopOK D n l'"
proof -
  let ?pre = "eventsOf (lo_runs l)"
  have op: "list_all (\<lambda>ev. \<not> finalEvent ev) ?pre" using l going_on by (simp add: loopOK_def)
  have "D (lo_done l') (?pre @ evs)"
  proof (cases "evs = []")
    case True
    then have "\<not> (\<exists>resp. lo_done l' = Some (OnceReply resp))" using dec no_reply by auto
    then show ?thesis using True unfinished [OF op] by simp
  qed (use later [OF _ dec op] in simp)
  moreover have "finalLast (?pre @ evs)"
    using fin op l(1) by (cases "evs = []") (auto simp: finalLast_def loopOK_def butlast_append)
  ultimately show ?thesis using l(1) run l' by (auto simp: loopOK_def)
qed

lemma gives_up: "loopOK D n l \<Longrightarrow> lo_done l = None \<Longrightarrow> D (Some (lastErrorOr e le)) (eventsOf (lo_runs l))"
  by (rule unfinished) (use going_on in \<open>auto simp: loopOK_def lastErrorOr_def\<close>)

text \<open>A credential whose preparation fails, and one whose run is right.\<close>

lemma prepared:
  assumes l: "loopOK D n l" "lo_done l = None" and i: "a_ID auth \<in> set (lo_attempted l)"
    and ok: "\<And>st a. \<exists>evs. lo_runs (go st a) = lo_runs l @ [(a_ID auth, evs)] \<and> lo_attempted (go st a) = lo_attempted l
      \<and> runOK False evs \<and> D (lo_done (go st a)) evs"
  shows "loopOK D n (withPrepared env rq x p auth go l)"
proof -
  obtain st pr er where prep: "prepareRequestAuth env x auth (lo_state l) = (st, pr, er)"
    by (cases "prepareRequestAuth env x auth (lo_state l)") auto
  show ?thesis
  proof (cases pr)
    case None
    have "D (Some OncePanic) (eventsOf (lo_runs l))" using unfinished going_on l by (auto simp: loopOK_def)
    then show ?thesis using loopOK_done [OF l(1)] prep None by (simp add: withPrepared_def)
  next
    case (Some prepared)
    show ?thesis
    proof (cases er)
      case er: (Some e)
      define r where "r = (failureResult (a_ID prepared) p (authSelectionModelFromOptions (rq_metadata rq) (rq_model rq)) e)\<lparr>res_RetryAfter := None\<rparr>"
      have "credentialRunOK (a_ID auth, [MarkedUnprepared r])" by (auto simp: credentialRunOK_def r_def failureResult_def)
      moreover have "D None [MarkedUnprepared r]" by (rule unfinished) simp_all
      ultimately have "loopOK D n (l\<lparr>lo_state := markResult env r st, lo_lastErr := Some e,
          lo_runs := lo_runs l @ [(a_ID auth, [MarkedUnprepared r])]\<rparr>)"
        by (intro run [OF l _ i]) (use l in \<open>simp_all add: finalLast_def\<close>)
      then show ?thesis using prep Some er by (simp add: withPrepared_def r_def Let_def)
    next
      case er: None
      obtain evs where e: "lo_runs (go st prepared) = lo_runs l @ [(a_ID auth, evs)]" "lo_attempted (go st prepared) = lo_attempted l"
          "runOK False evs" "D (lo_done (go st prepared)) evs"
        using ok by metis
      have "credentialRunOK (a_ID auth, evs)" using e(3) by (simp add: credentialRunOK_def)
      from run [OF l this i runOK_final [OF e(3)] e(4,1,2)]
      show ?thesis using prep Some er by (simp add: withPrepared_def)
    qed
  qed
qed

lemma step:
  assumes h: "handlerRuns D n handle" and l: "loopOK D n l" "lo_done l = None"
  shows "loopOK D n (onceRound env handle providers rq n l)"
proof (cases rule: onceRound_cases [of n l env handle providers rq])
  case (picked st auth x p models pooled al m)
  define l1 where "l1 = l\<lparr>lo_state := (ticked 1 st)\<lparr>cd_manager := m\<rparr>, lo_tried := a_ID auth # lo_tried l\<rparr>"
  define l2 where "l2 = l1\<lparr>lo_attempted := List.insert (a_ID auth) (lo_attempted l1)\<rparr>"
  have l1: "loopOK D n l1" "lo_done l1 = None" using l by (simp_all add: l1_def loopOK_def)
  have l2: "loopOK D n l2" "lo_done l2 = None" "a_ID auth \<in> set (lo_attempted l2)"
    using l1 picked(3) insert_length [of "a_ID auth" "lo_attempted l"] by (auto simp: loopOK_def l2_def l1_def)
  have "onceRound env handle providers rq n l = (if models = [] then l1 else handle x p models pooled al auth l2)"
    using picked(4) by (simp add: l1_def l2_def)
  then show ?thesis using l1(1) h l2 by (simp add: handlerRuns_def)
qed (use loopOK_done [OF l(1) gives_up [OF l]] in simp_all)

lemma once:
  assumes h: "\<And>rq. handlerRuns D n (handle rq)" and r: "onceLoop env handle providers rq n st = Some l"
  shows "loopOK D n l \<and> lo_done l \<noteq> None"
proof -
  have init: "loopOK D n (initLoop st)" for st :: "('a, 'b, 'c) Conductor"
    using unfinished by (simp add: loopOK_def initLoop_def eventsOf_def finalLast_def)
  show ?thesis
  proof (cases "providers = []")
    case True
    have "D (Some (OnceError e)) []" for e using unfinished by simp
    then show ?thesis using r True by (auto simp: onceLoop_def initLoop_def loopOK_def eventsOf_def finalLast_def)
  next
    case False
    define rq' where "rq' = rq\<lparr>rq_metadata := ensureRequestedModelMetadata (rq_metadata rq) (authSelectionModelFromOptions (rq_metadata rq) (rq_model rq))\<rparr>"
    have w: "while_option (\<lambda>l. lo_done l = None) (onceRound env (handle rq') providers rq' n) (initLoop st) = Some l"
      using r False by (simp add: onceLoop_def rq'_def Let_def)
    have "loopOK D n l" by (rule while_option_rule [OF step [OF h] w init])
    then show ?thesis using while_option_stop [OF w] by simp
  qed
qed

text \<open>At most the number of credentials that the request may try was called.\<close>

lemma credentials_bounded:
  assumes "loopOK D n l" and "0 < n"
  shows "int (card (fst ` set (lo_runs l))) \<le> n"
proof -
  have "card (fst ` set (lo_runs l)) \<le> length (lo_attempted l)"
    using assms(1) card_mono [of "set (lo_attempted l)" "fst ` set (lo_runs l)"] distinct_card
    by (force simp: loopOK_def)
  then show ?thesis using assms by (simp add: loopOK_def)
qed

end

text \<open>The rule of the plain executions.\<close>

interpretation plain: outcome_rule decided
proof
  show "decided out evs" if "list_all (\<lambda>ev. \<not> finalEvent ev) evs" "\<not> (\<exists>resp. out = Some (OnceReply resp))"
    for evs and out :: "'a onceOutcome option"
    using that last_in_set [of evs] by (fastforce simp: decided_def list_all_iff)
qed (use decided_append in \<open>auto simp: decided_def\<close>)

lemma execute_keeps:
  assumes l: "loopOK decided n l" "lo_done l = None" "a_ID auth \<in> set (lo_attempted l)"
  shows "loopOK decided n (executeCredential env mode rq x p models pooled al auth l)"
  unfolding executeCredential_def
proof (rule plain.prepared [OF l], goal_cases)
  case (1 st a)
  obtain s out err evs where t: "tryModels env mode x p rq pooled al models a False None st = (s, out, err, evs)"
    by (cases "tryModels env mode x p rq pooled al models a False None st") auto
  note tr = tryModels_run [OF t]
  have "\<not> isRequestInvalidError e" if "out = None" "err = Some e" for e
    using tr t that by (cases "models = []") auto
  then show ?case unfolding t using tr l(2)
    by (intro exI [of _ evs]) (cases out; cases err; simp add: Let_def)
qed

lemma handlerRuns_execute: "handlerRuns decided n (executeCredential env mode rq)"
  by (simp add: handlerRuns_def execute_keeps)

lemma mixedOnce_ok: "mixedOnce env mode providers rq n st = Some l \<Longrightarrow> loopOK decided n l \<and> lo_done l \<noteq> None"
  unfolding mixedOnce_def by (rule plain.once [OF handlerRuns_execute])


section \<open>Attempts\<close>

lemma foldl_waitStep_none:
  "(\<And>a. a \<in> set as \<Longrightarrow> servesProviders ps a \<Longrightarrow> effectiveRetry m a \<le> n)
    \<Longrightarrow> foldl (waitStep env now ps model n m) w as = w"
proof (induction as arbitrary: w)
  case (Cons a as)
  then have "waitStep env now ps model n m w a = w" by (auto simp: waitStep_def)
  then show ?case using Cons by simp
qed simp

text \<open>The credentials of the providers allow at most \<open>n\<close> retries.\<close>

definition retriesAtMost :: "int \<Rightarrow> string list \<Rightarrow> 'x AuthManager \<Rightarrow> bool" where
  "retriesAtMost n providers m \<longleftrightarrow> list_all (\<lambda>(_, a). servesProviders providers a \<longrightarrow> effectiveRetry m a \<le> n) (am_auths m)"

lemma no_retry_after_limit:
  assumes "retriesAtMost n providers m" and "n \<le> attempt"
  shows "shouldRetryAfterError env now err attempt providers model maxWait m = None"
proof -
  have r: "effectiveRetry m a \<le> attempt" if "(k, a) \<in> set (am_auths m)" "servesProviders providers a" for k a
    using assms that by (fastforce simp: retriesAtMost_def list_all_iff)
  have wait: "closestCooldownWait env now providers model attempt m = None"
    using foldl_waitStep_none [of "map snd (am_auths m)" providers m attempt env now model None] r
    by (force simp: closestCooldownWait_def)
  have "\<not> retryAllowed attempt providers m"
    by (auto simp: retryAllowed_def list_ex_iff dest!: r)
  with wait show ?thesis by (simp add: shouldRetryAfterError_def Let_def)
qed

lemma waits_nonneg: "foldl (waitStep env now ps model n m) w as = Some d \<Longrightarrow> (\<forall>x. w = Some x \<longrightarrow> 0 \<le> x) \<Longrightarrow> 0 \<le> d"
proof (induction as arbitrary: w)
  case (Cons a as)
  have "\<forall>x. waitStep env now ps model n m w a = Some x \<longrightarrow> 0 \<le> x"
    using Cons.prems(2) by (auto simp: waitStep_def Let_def split: prod.splits option.splits)
  then show ?case using Cons.IH Cons.prems(1) by simp
qed simp

lemma retry_wait_bounds:
  assumes "shouldRetryAfterError env now err attempt providers model maxWait m = Some w"
  shows "0 \<le> w \<and> w \<le> maxWait"
proof -
  have "0 \<le> w" if "closestCooldownWait env now providers model attempt m = Some w"
    using that waits_nonneg [of env now providers model attempt m None] by (auto simp: closestCooldownWait_def split: if_splits)
  then show ?thesis using assms
    by (auto simp: shouldRetryAfterError_def Let_def split: if_splits option.splits)
qed

lemma jitter_bounds:
  assumes w: "0 \<le> w" "w \<le> maxWait" and rand: "\<And>n. 0 < n \<Longrightarrow> 0 \<le> rand n \<and> rand n < n"
  shows "w \<le> jitteredCooldownWait rand w maxWait \<and> jitteredCooldownWait rand w maxWait \<le> maxWait
    \<and> 4 * (jitteredCooldownWait rand w maxWait - w) \<le> w \<and> jitteredCooldownWait rand w maxWait - w \<le> 2 * second"
proof (cases "w = 0")
  case False
  then have pos: "0 < w" using w by simp
  define r1 where "r1 = (if go_div w 4 > cooldownWaitJitterCap then cooldownWaitJitterCap else go_div w 4)"
  define r2 where "r2 = (if r1 > maxWait - w then maxWait - w else r1)"
  have "4 * go_div w 4 \<le> w" using pos by (simp add: go_div_nonneg)
  then have r2: "4 * r2 \<le> w" "r2 \<le> 2 * second" "r2 \<le> maxWait - w"
    by (auto simp: r1_def r2_def cooldownWaitJitterCap_def)
  have eq: "jitteredCooldownWait rand w maxWait = (if r2 \<le> 0 then w else w + rand r2)"
    using pos w by (simp add: jitteredCooldownWait_def Let_def r1_def r2_def)
  show ?thesis
  proof (cases "0 < r2")
    case True
    then show ?thesis using eq r2 rand [OF True] by simp
  qed (use eq w pos in simp)
qed (use w in \<open>simp add: jitteredCooldownWait_def\<close>)

section \<open>The loop over attempts\<close>

text \<open>The waits so far: one per attempt, each within the limit, and no attempt past \<open>R\<close> while the credentials
  allow no more.\<close>

definition attemptsOK :: "int \<Rightarrow> string list \<Rightarrow> goduration \<Rightarrow> ('x, 'c, 's, 'r) ExecuteLoop \<Rightarrow> bool" where
  "attemptsOK R providers maxWait l \<longleftrightarrow> ex_attempt l = int (length (ex_waits l))
     \<and> list_all (\<lambda>w. 0 \<le> w \<and> w \<le> maxWait) (ex_waits l)
     \<and> (list_all (retriesAtMost R providers) (ex_decisions l) \<longrightarrow> ex_attempt l \<le> R)"

lemma attemptsOK_cong:
  "attemptsOK R ps mw l \<Longrightarrow> ex_attempt l' = ex_attempt l \<Longrightarrow> ex_waits l' = ex_waits l
    \<Longrightarrow> set (ex_decisions l) \<subseteq> set (ex_decisions l') \<Longrightarrow> attemptsOK R ps mw l'"
  by (auto simp: attemptsOK_def list_all_iff)

lemma attemptsOK_step:
  assumes l: "attemptsOK R ps maxWait l"
    and rand: "\<And>n. 0 < n \<Longrightarrow> 0 \<le> xv_rand env n \<and> xv_rand env n < n"
  shows "attemptsOK R ps maxWait (attemptStep env attempt ps rq maxWait l)"
proof -
  have same: "attemptsOK R ps maxWait l'"
    if "ex_attempt l' = ex_attempt l" "ex_waits l' = ex_waits l" "set (ex_decisions l) \<subseteq> set (ex_decisions l')"
    for l' :: "('a, 'b, 'c, 'd) ExecuteLoop" by (rule attemptsOK_cong [OF l that])
  show ?thesis
  proof (cases "attempt (ex_state l)")
    case None
    then show ?thesis using same by (simp add: attemptStep_def)
  next
    case (Some once)
    show ?thesis
    proof (cases "lo_done once")
      case None
      then show ?thesis using Some same by (simp add: attemptStep_def Let_def)
    next
      case out: (Some out)
      show ?thesis
      proof (cases out)
        case (OnceError e)
        define st where "st = lo_state once"
        define retry where "retry = shouldRetryAfterError (xv_route env) (xv_now env st) e (ex_attempt l) ps
          (authSelectionModelFromOptions (rq_metadata rq) (rq_model rq)) maxWait (cd_manager st)"
        note eq = attemptStep_def [of env attempt ps rq maxWait l, unfolded Some option.case out OnceError onceOutcome.case Let_def]
        show ?thesis
        proof (cases "isRequestTerminatedError e \<or> retry = None")
          case True
          have grow: "set xs \<subseteq> set (xs @ [m])" for xs and m :: "'a AuthManager" by auto
          show ?thesis
          proof (cases "isRequestTerminatedError e")
            case False
            with True show ?thesis using same grow by (simp add: eq retry_def st_def del: set_append)
          qed (use same in \<open>simp add: eq\<close>)
        next
          case False
          then obtain w where w: "retry = Some w" by auto
          define jit where "jit = jitteredCooldownWait (xv_rand env) w maxWait"
          have b: "0 \<le> w" "w \<le> maxWait" using retry_wait_bounds [OF w [unfolded retry_def]] by simp_all
          have j: "0 \<le> jit" "jit \<le> maxWait" using jitter_bounds [OF b, of "xv_rand env"] rand b by (auto simp: jit_def)
          have lim: "ex_attempt l + 1 \<le> R" if "retriesAtMost R ps (cd_manager st)"
            using no_retry_after_limit [OF that, of "ex_attempt l" "xv_route env" "xv_now env st" e] w by (force simp: retry_def)
          obtain s2 ew where wt: "waitForCooldown env jit (ticked 1 st) = (s2, ew)" by fastforce
          define l2 where "l2 = l\<lparr>ex_state := s2, ex_runs := ex_runs l @ lo_runs once, ex_decisions := ex_decisions l @ [cd_manager st],
            ex_attempt := ex_attempt l + 1, ex_waits := ex_waits l @ [jit]\<rparr>"
          have l2: "attemptsOK R ps maxWait l2" using l j lim by (auto simp: attemptsOK_def l2_def)
          have "attemptStep env attempt ps rq maxWait l = (case ew of Some err \<Rightarrow> l2\<lparr>ex_end := Some (Finished (OnceError err))\<rparr> | None \<Rightarrow> l2)"
            using False w wt by (simp add: eq retry_def st_def jit_def l2_def split: option.splits)
          then show ?thesis using l2 attemptsOK_cong [OF l2, of "l2\<lparr>ex_end := Some (Finished (OnceError e'))\<rparr>" for e']
            by (cases ew) simp_all
        qed
      qed (use Some out same in \<open>simp_all add: attemptStep_def Let_def\<close>)
    qed
  qed
qed

lemma attempts_bounded:
  assumes "attemptLoop env attempt providers rq st = Some l" and "0 \<le> R"
    and "list_all (retriesAtMost R (normalizeProviders providers)) (ex_decisions l)"
    and rand: "\<And>n. 0 < n \<Longrightarrow> 0 \<le> xv_rand env n \<and> xv_rand env n < n"
  shows "int (length (ex_waits l)) \<le> R \<and> list_all (\<lambda>w. 0 \<le> w \<and> w \<le> am_maxRetryInterval (cd_manager st)) (ex_waits l)"
proof (cases "normalizeProviders providers = []")
  case True
  then show ?thesis using assms by (auto simp: attemptLoop_def retrySettings_def)
next
  case False
  let ?l = "\<lparr>ex_state = st, ex_attempt = 0, ex_runs = [], ex_waits = [], ex_decisions = [], ex_end = None\<rparr>"
  let ?R = R and ?ps = "normalizeProviders providers" and ?mw = "am_maxRetryInterval (cd_manager st)"
  have w: "while_option (\<lambda>l. ex_end l = None) (attemptStep env (attempt ?ps rq (am_maxRetryCredentials (cd_manager st))) ?ps rq ?mw) ?l = Some l"
    using assms(1) False by (simp add: attemptLoop_def retrySettings_def Let_def)
  have "attemptsOK ?R ?ps ?mw ?l" using assms(2) by (simp add: attemptsOK_def)
  with while_option_rule [where P = "attemptsOK ?R ?ps ?mw", OF _ w] have "attemptsOK ?R ?ps ?mw l"
    using attemptsOK_step [OF _ rand] by blast
  then show ?thesis using assms(3) by (simp add: attemptsOK_def)
qed

text \<open>
  C14: Attempts are bounded. Whatever the executors, the other requests and the context do, an
  execution waits between attempts at most as often as the largest number of retries that a
  credential of its providers allows while it runs (the override of the credential or the configured
  default, negative ones counting as 0), and every wait, its random part included, is at least 0
  and at most the configured \<open>maxRetryInterval\<close>.\<close>
theorem retries_bounded:
  assumes "executeLoop env mode providers rq st = Some l" and "0 \<le> R"
    and "list_all (retriesAtMost R (normalizeProviders providers)) (ex_decisions l)"
    and rand: "\<And>n. 0 < n \<Longrightarrow> 0 \<le> xv_rand env n \<and> xv_rand env n < n"
  shows "int (length (ex_waits l)) \<le> R \<and> list_all (\<lambda>w. 0 \<le> w \<and> w \<le> am_maxRetryInterval (cd_manager st)) (ex_waits l)"
  using attempts_bounded [OF assms(1) [unfolded executeLoop_def] assms(2,3) rand] .

section \<open>Errors that are the request's fault\<close>

lemma count_block: "a_Unavailable (countRequest now ok a) = a_Unavailable a" "a_NextRetryAfter (countRequest now ok a) = a_NextRetryAfter a"
  by (simp_all add: countRequest_def recordRecentRequest_def Let_def)

lemma stateForModel_count: "stateForModel (countRequest now ok a) model = stateForModel a model"
  by (simp only: stateForModel_def countRequest_fields)

lemma isAuthBlocked_count [simp]:
  "isAuthBlockedForModel (Some (countRequest now ok a)) model t = isAuthBlockedForModel (Some a) model t"
  by (simp add: isAuthBlockedForModel_def Let_def stateForModel_count authBlock_def count_block)

lemma scoped_invalid: "isRequestScopedError err \<Longrightarrow> isRequestInvalidError err"
  by (simp add: isRequestInvalidError_def)

lemma invalid_result_scoped: "isRequestInvalidError err \<Longrightarrow> isRequestScopedResultError (Some (resultErrorFromError err))"
  by (simp add: resultErrorFromError_def Let_def isRequestScopedResultError_def IsRequestScoped_def)

text \<open>
  C15: The request's fault is not the credential's. When an execution ends in an error that is the
  fault of the request (an error scoped to it, or by its status and text an invalid request), the
  result it records for the credential, under any model or none, changes nothing but the counters:
  the credential keeps every model state and cooldown, is blocked for exactly the models it was
  blocked for, at every time, and the registry is not told anything.\<close>
theorem invalid_request_never_blocks:
  assumes "isRequestInvalidError err" and "i \<noteq> []" and "m_get auths i = Some a"
  shows "let out = MarkResult env now (failureResult i provider model err) auths
    in out_auths out = m_put i (countRequest now False a) auths \<and> out_registry out = []
      \<and> a_ModelStates (countRequest now False a) = a_ModelStates a
      \<and> (\<forall>m t. isAuthBlockedForModel (Some (countRequest now False a)) m t = isAuthBlockedForModel (Some a) m t)"
  using assms invalid_result_scoped [OF assms(1)]
  by (simp add: MarkResult_def failureResult_def Let_def applyAuthFailureState_def)

lemma invalid_request_never_blocks_witness:
  "let out = MarkResult sample_env 5 (failureResult ''a'' ''codex'' ''gpt-5''
      (PlainErr \<lparr>ev_kind = OtherErr, ev_text = ''bad field'', ev_status = Some 422, ev_scoped = None, ev_retryAfter = None\<rparr>))
      [(''a'', new_auth ''a'' ''codex'')]
   in out_auths out = [(''a'', countRequest 5 False (new_auth ''a'' ''codex''))]"
proof -
  have "isRequestInvalidError (PlainErr \<lparr>ev_kind = OtherErr, ev_text = ''bad field'', ev_status = Some 422, ev_scoped = None, ev_retryAfter = None\<rparr>)"
    by code_simp
  from invalid_request_never_blocks [OF this, of "''a''" "[(''a'', new_auth ''a'' ''codex'')]" "new_auth ''a'' ''codex''"]
  show ?thesis by (simp add: Let_def)
qed

text \<open>
  The two classifications agree. For an error that carries no authentication error, the result
  recorded for it is classified (unsupported model, revoked grant, challenge page) as the error
  itself is, so the cooldown that a failure leaves and the decision to go on with other credentials
  rest on the same reading.\<close>
theorem result_error_classified_alike:
  assumes "errAs asAuthErr err = None"
  shows "isModelSupportResultError (Some (resultErrorFromError err)) = isModelSupportError err
    \<and> isInvalidGrantResultError (Some (resultErrorFromError err)) = isInvalidGrantError err
    \<and> isCloudflareChallengeResultError (Some (resultErrorFromError err)) = isCloudflareChallengeError err"
proof -
  have "\<not> isInvalidGrantErrorMessage ''request_scoped''" "\<not> isInvalidGrantErrorMessage []" by code_simp+
  then show ?thesis using assms
    by (auto simp: resultErrorFromError_def Let_def isModelSupportResultError_def isModelSupportError_def isInvalidGrantResultError_def
        isInvalidGrantError_def isCloudflareChallengeResultError_def isCloudflareChallengeError_def statusCodeFromResult_def)
qed

lemma result_error_classified_alike_witness:
  "isInvalidGrantResultError (Some (resultErrorFromError
     (PlainErr \<lparr>ev_kind = OtherErr, ev_text = ''invalid_grant'', ev_status = Some 400, ev_scoped = None, ev_retryAfter = None\<rparr>)))"
proof -
  let ?e = "PlainErr \<lparr>ev_kind = OtherErr, ev_text = ''invalid_grant'', ev_status = Some 400, ev_scoped = None, ev_retryAfter = None\<rparr>"
  have "errAs asAuthErr ?e = None" "isInvalidGrantError ?e" by code_simp+
  then show ?thesis using result_error_classified_alike [of ?e] by simp
qed

end
