(* ===== verification/RoutePick.thy ===== *)
theory RoutePick
  imports RouteSelection
begin

text \<open>
  The picks of theory RouteSelection are sound: over one provider or several, by a plugin, a selector
  or the built-in scheduler, a pick returns a credential that the request admits and that was not
  tried before; and every pick keeps the scheduler and the credentials well formed.
\<close>

section \<open>The tables of the scheduler\<close>

definition sameTables :: "authScheduler \<Rightarrow> authScheduler \<Rightarrow> bool" where
  "sameTables s' s \<longleftrightarrow> (\<forall>j. map_option ps_auths (m_get (as_providers s') j) = map_option ps_auths (m_get (as_providers s) j))"

text \<open>Every credential in a table has its identifier in \<open>F\<close>.\<close>

definition tablesIn :: "string set \<Rightarrow> authScheduler \<Rightarrow> bool" where
  "tablesIn F s \<longleftrightarrow> (\<forall>k A i meta. map_option ps_auths (m_get (as_providers s) k) = Some A \<longrightarrow> m_get A i = Some meta
     \<longrightarrow> a_ID (sm_auth meta) \<in> F)"

lemma sameTables_refl [simp]: "sameTables s s"
  by (simp add: sameTables_def)

lemma sameTables_trans: "sameTables s3 s2 \<Longrightarrow> sameTables s2 s1 \<Longrightarrow> sameTables s3 s1"
  by (simp add: sameTables_def)

lemma sameTables_update [simp]:
  "sameTables (s'\<lparr>as_mixedCursors := c\<rparr>) s = sameTables s' s" "sameTables (s'\<lparr>as_mixedWeightedStates := w\<rparr>) s = sameTables s' s"
  by (simp_all add: sameTables_def)

lemma tablesIn_same: "sameTables s' s \<Longrightarrow> tablesIn F s' = tablesIn F s"
  by (simp add: tablesIn_def sameTables_def)

lemma servable_in: "servable s k m now a \<Longrightarrow> tablesIn F s \<Longrightarrow> a_ID a \<in> F"
  unfolding servable_def tablesIn_def by fastforce

lemma same_ensureShard: "ensureShard k m now s = (s', shard) \<Longrightarrow> sameTables s' s"
  using ensureShard_auths by (auto simp: sameTables_def)

lemma same_storeShard [simp]: "sameTables (storeShard k shard s) s"
  by (auto simp: sameTables_def storeShard_providers option.map_comp comp_def)

lemma same_ensureShards: "sameTables (ensureShards ks m now s) s"
  unfolding ensureShards_def
proof (rule foldl_invariant [where I = "\<lambda>s'. sameTables s' s"])
  show "sameTables (fst (ensureShard k m now s')) s" if "sameTables s' s" for s' k
    using sameTables_trans [OF same_ensureShard that] by (metis prod.collapse)
qed simp

lemma same_mixedError: "sameTables (fst (mixedError ks model now P s)) s"
  by (simp add: mixedError_def mixedUnavailableErrorLocked_def Let_def same_ensureShards)

lemma same_pickAtPriority: "sameTables (fst (pickAtPriority p strategy P m ks s)) s"
proof (induction ks arbitrary: s)
  case (Cons k ks)
  show ?case
    using Cons.IH sameTables_trans [OF Cons.IH same_storeShard]
    by (auto split: option.splits prod.splits)
qed simp

lemma same_rotation: "sameTables (fst (pickMixedRotation p P ck m ks ws st sl is s)) s"
proof (induction "is" arbitrary: s)
  case (Cons i "is")
  obtain s1 r where pk: "pickAtPriority p schedulerStrategyRoundRobin P m [ks ! i] s = (s1, r)" by fastforce
  have "sameTables s1 s" using same_pickAtPriority [of p schedulerStrategyRoundRobin P m "[ks ! i]" s] by (simp only: pk fst_conv)
  then show ?case using Cons.IH [of s] sameTables_trans [OF Cons.IH] pk
    by (cases r) (auto simp: Let_def simp del: pickAtPriority.simps)
qed simp

lemma same_mixedBest: "sameTables (fst (pickMixedBest ks model rq strategy now1 now3 s)) s"
proof -
  let ?k = "canonicalModelKey model" and ?P = "requestPredicate rq [] strategy"
  let ?s = "ensureShards ks ?k now1 s"
  have s1: "sameTables ?s s" by (rule same_ensureShards)
  have w: "sameTables (fst (pickMixedWeighted ck p ks ?k ?P ?s)) ?s" for ck p
    by (simp add: pickMixedWeighted_def Let_def case_prod_beta)
  have r: "sameTables (fst (pickMixedRoundRobin ck p ks ?k ?P ?s)) ?s" for ck p
    using same_rotation by (auto simp: pickMixedRoundRobin_def Let_def split: option.splits)
  have tr: "sameTables s' ?s \<Longrightarrow> sameTables s' s" for s' using sameTables_trans [OF _ s1] .
  have err: "sameTables s' ?s \<Longrightarrow> sameTables (fst (mixedError ks model now3 ?P s')) s" for s'
    using sameTables_trans [OF same_mixedError tr] .
  show ?thesis
    using s1 tr [OF w] tr [OF r] tr [OF same_pickAtPriority] err [OF w] err [OF r] err [OF same_pickAtPriority] err [OF sameTables_refl]
    by (auto simp: pickMixedBest_def Let_def case_prod_beta split: option.splits)
qed

lemma same_pickInShard: "sameTables (fst (pickInShard pk p model pw strategy P now2 now3 m s)) s"
  by (auto simp: pickInShard_def case_prod_beta Let_def split: option.splits)

lemma same_single: "sameTables (fst (pickSingleWithStrategy p model rq strategy now1 now2 now3 s)) s"
proof -
  obtain s' shard where e: "ensureShard (to_lower (trim_space p)) (canonicalModelKey model) now1 s = (s', shard)" by fastforce
  show ?thesis
    using e same_ensureShard [OF e] sameTables_trans [OF same_pickInShard same_ensureShard [OF e]]
    by (cases shard) (simp_all add: pickSingleWithStrategy_def Let_def)
qed

lemma same_mixed: "sameTables (fst (pickMixedWithStrategy ps model rq strategy now1 now2 now3 s)) s"
proof -
  have pinned: "sameTables (fst (case ensureShard k (canonicalModelKey model) now1 s of
      (s, None) \<Rightarrow> (s, Inl (MixedPickError ErrAuthNotFound))
    | (s, Some shard) \<Rightarrow> liftPick k (pickInShard k ''mixed'' model False st P now2 now3 shard s))) s" for k st P
  proof -
    obtain s' shard where e: "ensureShard k (canonicalModelKey model) now1 s = (s', shard)" by fastforce
    show ?thesis using e same_ensureShard [OF e] sameTables_trans [OF same_pickInShard same_ensureShard [OF e]]
      by (cases shard) (simp_all add: liftPick_def)
  qed
  have single: "sameTables (fst (liftPick k (pickSingleWithStrategy k model rq strategy now1 now2 now3 s))) s" for k
    using same_single by (simp add: liftPick_def)
  show ?thesis using pinned single same_mixedBest
    by (auto simp: pickMixedWithStrategy_def Let_def split: list.splits)
qed

section \<open>Changes of the tables\<close>

lemma tablesIn_put:
  "tablesIn F s \<Longrightarrow> (\<And>i meta. m_get (ps_auths p) i = Some meta \<Longrightarrow> a_ID (sm_auth meta) \<in> F)
    \<Longrightarrow> as_providers s' = m_put k p (as_providers s) \<Longrightarrow> tablesIn F s'"
  by (auto simp: tablesIn_def split: if_splits)

lemma tablesIn_get:
  "tablesIn F s \<Longrightarrow> m_get (as_providers s) k = Some p \<Longrightarrow> m_get (ps_auths p) i = Some meta \<Longrightarrow> a_ID (sm_auth meta) \<in> F"
  unfolding tablesIn_def by fastforce

lemma tablesIn_cong: "tablesIn F s \<Longrightarrow> as_providers s' = as_providers s \<Longrightarrow> tablesIn F s'"
  by (simp add: tablesIn_def)

lemma tablesIn_drop:
  assumes "tablesIn F s"
  shows "tablesIn F (case m_get (as_providers s) k of None \<Rightarrow> s
    | Some p \<Rightarrow> s\<lparr>as_providers := m_put k (providerRemoveAuthLocked i p) (as_providers s)\<rparr>)"
proof (cases "m_get (as_providers s) k")
  case (Some p)
  have "a_ID (sm_auth meta) \<in> F" if "m_get (ps_auths (providerRemoveAuthLocked i p)) j = Some meta" for j meta
    using that tablesIn_get [OF assms Some] by (auto simp: providerRemoveAuthLocked_def split: if_splits)
  then have "tablesIn F (s\<lparr>as_providers := m_put k (providerRemoveAuthLocked i p) (as_providers s)\<rparr>)"
    by (rule tablesIn_put [OF assms]) simp_all
  then show ?thesis using Some by simp
qed (use assms in simp)

lemma tablesIn_remove: "tablesIn F s \<Longrightarrow> tablesIn F (removeAuthLocked i s)"
  using tablesIn_drop [of F s "m_get0 [] (as_authProviders s) i" i]
  by (auto simp: removeAuthLocked_def Let_def intro: tablesIn_cong)

lemma tablesIn_upsert:
  assumes s: "tablesIn F s" and a: "a_ID a \<in> F"
  shows "tablesIn F (upsertAuthLocked reg (Some a) now s)"
proof -
  let ?i = "trim_space (a_ID a)" and ?k = "executorKeyFromAuth a"
  show ?thesis
  proof (cases "?i = [] \<or> ?k = [] \<or> a_Disabled a")
    case True
    then show ?thesis using tablesIn_remove [OF s, of ?i] by (auto simp: upsertAuthLocked_def Let_def)
  next
    case False
    define s1 where "s1 = (if m_get0 [] (as_authProviders s) ?i \<noteq> [] \<and> m_get0 [] (as_authProviders s) ?i \<noteq> ?k
      then (case m_get (as_providers s) (m_get0 [] (as_authProviders s) ?i) of None \<Rightarrow> s
        | Some p \<Rightarrow> s\<lparr>as_providers := m_put (m_get0 [] (as_authProviders s) ?i) (providerRemoveAuthLocked ?i p) (as_providers s)\<rparr>) else s)"
    define s2 where "s2 = s1\<lparr>as_authProviders := m_put ?i ?k (as_authProviders s1)\<rparr>"
    define p where "p = providerUpsertAuthLocked (buildScheduledAuthMeta reg a) now (ensureProviderLocked ?k s2)"
    have "tablesIn F s1" using tablesIn_drop [OF s] s by (simp add: s1_def)
    then have s2: "tablesIn F s2" by (rule tablesIn_cong) (simp add: s2_def)
    have ps: "as_providers s2 = as_providers s1" by (simp add: s2_def)
    have "a_ID (sm_auth meta) \<in> F" if "m_get (ps_auths p) j = Some meta" for j meta
      using that a tablesIn_get [OF s2, of ?k]
      by (auto simp: p_def providerUpsertAuthLocked_def buildScheduledAuthMeta_def ensureProviderLocked_def Let_def
          split: if_splits option.splits)
    then have "tablesIn F (s2\<lparr>as_providers := m_put ?k p (as_providers s2)\<rparr>)"
      by (rule tablesIn_put [OF s2, where k = ?k and p = p]) simp_all
    then show ?thesis using False
      by (simp add: upsertAuthLocked_def Let_def s1_def [symmetric] s2_def [symmetric] p_def [symmetric] ps)
  qed
qed

lemma tablesIn_rebuild:
  assumes "\<And>a. Some a \<in> set as \<Longrightarrow> a_ID a \<in> F"
  shows "tablesIn F (rebuild reg as now s)"
proof -
  have all: "tablesIn F (foldl (\<lambda>s a. upsertAuthLocked reg a now s) s0 as)" if "tablesIn F s0" for s0
    using that assms
  proof (induction as arbitrary: s0)
    case (Cons a as)
    have "tablesIn F (upsertAuthLocked reg a now s0)"
    proof (cases a)
      case None
      then show ?thesis using Cons.prems(1) by (simp add: upsertAuthLocked_def)
    next
      case (Some b)
      then show ?thesis using tablesIn_upsert [OF Cons.prems(1), of b] Cons.prems(2) [of b] by simp
    qed
    then show ?case using Cons by simp
  qed simp
  have "tablesIn F (s\<lparr>as_providers := [], as_authProviders := [], as_mixedCursors := [], as_mixedWeightedStates := []\<rparr>)"
    by (simp add: tablesIn_def)
  from all [OF this] show ?thesis by (simp add: rebuild_def)
qed

section \<open>Picks of the scheduler\<close>

text \<open>What a pick promises of the credential it returns.\<close>

definition freshPick :: "RouteRequest \<Rightarrow> Auth \<Rightarrow> bool" where
  "freshPick rq a \<longleftrightarrow> allows (authSelectionEligibilityForRequest (schedOf rq)) a \<and> a_ID a \<notin> set (rq_tried rq)
     \<and> (pinnedAuthIDFromMetadata (rq_metadata rq) \<noteq> [] \<longrightarrow> a_ID a = pinnedAuthIDFromMetadata (rq_metadata rq))"

lemma schedOf_sel [simp]:
  "rq_requiredKind (schedOf rq) = rq_requiredKind rq" "rq_websocket (schedOf rq) = rq_websocket rq"
  "rq_metadata (schedOf rq) = rq_metadata rq" "rq_tried (schedOf rq) = rq_tried rq"
  by (simp_all add: schedOf_def)

lemma admitted_fresh: "admitted (schedOf rq) (pinnedAuthIDFromMetadata (rq_metadata rq)) strategy a \<Longrightarrow> freshPick rq a"
  by (auto simp: admitted_def freshPick_def)

lemma single_fresh:
  assumes s: "schedOK t s" "t \<le> now1" "now1 \<le> now2" and F: "tablesIn F s"
    and r: "snd (pickSingleWithStrategy p model (schedOf rq) strategy now1 now2 now3 s) = Inr a"
  shows "freshPick rq a \<and> a_ID a \<in> F"
  using single_best [OF s, of p model "schedOf rq" strategy now3] r admitted_fresh servable_in [OF _ F]
  by (auto simp: Let_def bestOf_def)

lemma mixed_fresh:
  assumes s: "schedOK t s" "t \<le> now1" "now1 \<le> now2" and F: "tablesIn F s"
    and r: "snd (pickMixedWithStrategy ps model (schedOf rq) strategy now1 now2 now3 s) = Inr (a, k)"
  shows "freshPick rq a \<and> a_ID a \<in> F \<and> k \<in> set (normalizeProviderKeys ps)"
proof (cases "normalizeProviderKeys ps" rule: remdups_adj.cases)
  case 1
  then show ?thesis using r by (simp add: pickMixedWithStrategy_def)
next
  case (2 k1)
  then have "snd (pickSingleWithStrategy k1 model (schedOf rq) strategy now1 now2 now3 s) = Inr a" "k = k1"
    using r by (auto simp: pickMixedWithStrategy_def liftPick_def map_sum_def split: sum.splits)
  then show ?thesis using single_fresh [OF s F] 2 by simp
next
  case (3 k1 k2 ks)
  let ?ks = "normalizeProviderKeys ps" and ?pin = "pinnedAuthIDFromMetadata (rq_metadata rq)" and ?m = "canonicalModelKey model"
  show ?thesis
  proof (cases "?pin = []")
    case True
    then have "snd (pickMixedBest ?ks model (schedOf rq) (effectiveStrategy strategy s) now1 now3 s) = Inr (a, k)"
      using r 3 by (simp add: pickMixedWithStrategy_def Let_def)
    then have "mixedCandidate s ?ks (canonicalModelKey ?m) now1 (schedOf rq) (effectiveStrategy strategy s) k a"
      using mixed_best [OF s(1,2) normalizeProviderKeys_distinct refl, of ps model "schedOf rq" "effectiveStrategy strategy s" now3] by simp
    then show ?thesis
      using admitted_fresh servable_in [OF _ F] True by (auto simp: mixedCandidate_def)
  next
    case False
    define key where "key = m_get0 [] (as_authProviders s) ?pin"
    obtain s' shard where e: "ensureShard key ?m now1 s = (s', shard)" by fastforce
    note en = schedOK_ensureShard [OF s(1,2) e]
    have r': "key \<in> set ?ks"
        "snd (case shard of None \<Rightarrow> (s', Inl (MixedPickError ErrAuthNotFound))
        | Some m \<Rightarrow> liftPick key (pickInShard key ''mixed'' model False (effectiveStrategy strategy s)
            (requestPredicate (schedOf rq) ?pin (effectiveStrategy strategy s)) now2 now3 m s')) = Inr (a, k)"
      using r 3 False e
      by (auto simp: pickMixedWithStrategy_def Let_def key_def containsProvider_def list_ex_iff split: if_splits option.splits)
    then obtain m where m: "shard = Some m" by (cases shard) auto
    from en(2) [OF m] obtain q where q: "m_get (as_providers s) key = Some q"
        "shardOK (m_get (ps_auths q)) (canonicalModelKey ?m) now1 m" by blast
    have qk: "providerOK now1 q" using schedOK_provider [OF s(1) q(1)] s(2) by (rule providerOK_mono)
    have "snd (pickReadyLocked now2 False (effectiveStrategy strategy s)
        (requestPredicate (schedOf rq) ?pin (effectiveStrategy strategy s)) m) = Some a" "k = key"
      using r'(2) m by (auto simp: liftPick_def pickInShard_result map_sum_def split: sum.splits option.splits)
    then show ?thesis
      using pickReady_best [OF qk q(2) s(3) q(1) refl, where pw = False and rq = "schedOf rq" and pinned = ?pin
          and strategy = "effectiveStrategy strategy s"] admitted_fresh servable_in [OF _ F] r'(1)
      by (auto simp: bestOf_def)
  qed
qed

section \<open>The available credentials of a route\<close>

definition freeForRoute :: "RouteEnv \<Rightarrow> gotime \<Rightarrow> string \<Rightarrow> Auth \<Rightarrow> bool" where
  "freeForRoute env now model a \<longleftrightarrow> \<not> fst (isAuthBlockedForModel (Some a) (selectionModelForAuth env a model) now)"

lemma route_collect:
  "let acc = foldl (\<lambda>acc c. collectStep (selectionModelForAuth env c model) now acc (Some c)) ([], 0, zero_time) as
   in m_ok (fst acc) \<and> (\<forall>p. m_get0 [] (fst acc) p = filter (\<lambda>a. authPriority (Some a) = p) (filter (freeForRoute env now model) as))
    \<and> set (m_keys (fst acc)) = (\<lambda>a. authPriority (Some a)) ` set (filter (freeForRoute env now model) as)"
  unfolding Let_def
proof (induction as rule: rev_induct)
  case (snoc c as)
  let ?acc = "foldl (\<lambda>acc c. collectStep (selectionModelForAuth env c model) now acc (Some c)) ([], 0, zero_time) as"
  show ?case
  proof (cases "freeForRoute env now model c")
    case False
    then have "fst (collectStep (selectionModelForAuth env c model) now ?acc (Some c)) = fst ?acc"
      by (auto simp: collectStep_def split_def Let_def freeForRoute_def)
    with snoc False show ?thesis by simp
  next
    case True
    then have "fst (collectStep (selectionModelForAuth env c model) now ?acc (Some c)) =
        m_put (authPriority (Some c)) (m_get0 [] (fst ?acc) (authPriority (Some c)) @ [c]) (fst ?acc)"
      by (simp add: collectStep_def split_def Let_def freeForRoute_def)
    moreover have "set (m_keys (m_put k v m)) = insert k (set (m_keys m))" for k v and m :: "(int, Auth list) gomap"
      using dom_update [of k v m] by simp
    ultimately show ?thesis using snoc True by (simp only: foldl_append foldl.simps) (auto simp: m_ok_put)
  qed
qed simp

lemma availableAuths_spec:
  "(\<exists>e. availableAuthsForRouteModel env now as p model = Inl e) \<and> (\<forall>a\<in>set as. \<not> freeForRoute env now model a)
  \<or> (\<exists>av. availableAuthsForRouteModel env now as p model = Inr av \<and> av \<noteq> [] \<and> set av =
      {a \<in> set as. freeForRoute env now model a \<and>
        (\<forall>b\<in>set as. freeForRoute env now model b \<longrightarrow> authPriority (Some b) \<le> authPriority (Some a))})"
proof -
  define f where "f = filter (freeForRoute env now model) as"
  define acc where "acc = foldl (\<lambda>acc c. collectStep (selectionModelForAuth env c model) now acc (Some c)) ([], 0, zero_time) as"
  have sp: "m_get0 [] (fst acc) p = filter (\<lambda>a. authPriority (Some a) = p) f"
      "set (m_keys (fst acc)) = (\<lambda>a. authPriority (Some a)) ` set f" for p
    using route_collect [of env model now as] unfolding Let_def acc_def [symmetric] f_def [symmetric] by blast+
  have mem: "a \<in> set f \<longleftrightarrow> a \<in> set as \<and> freeForRoute env now model a" for a by (auto simp: f_def)
  have eq: "availableAuthsForRouteModel env now as p model =
      (if as = [] then Inl ErrAuthNotFound else case bestPriority (m_keys (fst acc)) of
         None \<Rightarrow> if fst (snd acc) = int (length as) \<and> \<not> is_zero (snd (snd acc))
           then Inl (newModelCooldownError model (if p = ''mixed'' then [] else p) (time_sub (snd (snd acc)) now))
           else Inl (ErrAuthUnavailable ''no auth available'')
       | Some best \<Rightarrow> Inr (sort_key a_ID (m_get0 [] (fst acc) best)))"
    by (simp add: availableAuthsForRouteModel_def acc_def [symmetric] case_prod_beta Let_def)
  show ?thesis
  proof (cases "f = []")
    case True
    then have "m_keys (fst acc) = []" using sp(2) by (metis image_empty set_empty)
    then have "\<exists>e. availableAuthsForRouteModel env now as p model = Inl e" by (simp add: eq bestPriority_Max)
    moreover have "\<forall>a\<in>set as. \<not> freeForRoute env now model a" using mem True by (metis empty_iff empty_set)
    ultimately show ?thesis by blast
  next
    case False
    define mx where "mx = Max ((\<lambda>a. authPriority (Some a)) ` set f)"
    have keys: "m_keys (fst acc) \<noteq> []" using sp(2) False by (metis image_is_empty set_empty)
    have "as \<noteq> []" using False by (auto simp: f_def)
    then have av: "availableAuthsForRouteModel env now as p model = Inr (sort_key a_ID (filter (\<lambda>a. authPriority (Some a) = mx) f))"
      using keys by (simp only: eq if_False bestPriority_Max option.case sp mx_def)
    have "mx \<in> (\<lambda>a. authPriority (Some a)) ` set f" unfolding mx_def using False by (intro Max_in) auto
    then obtain x where x: "x \<in> set f" "authPriority (Some x) = mx" by auto
    have le: "authPriority (Some b) \<le> mx" if "b \<in> set f" for b unfolding mx_def using that by (intro Max_ge) auto
    have "set (sort_key a_ID (filter (\<lambda>a. authPriority (Some a) = mx) f)) = {a \<in> set as. freeForRoute env now model a \<and>
        (\<forall>b\<in>set as. freeForRoute env now model b \<longrightarrow> authPriority (Some b) \<le> authPriority (Some a))}"
      using x le mem by (auto intro!: order_antisym)
    moreover have "sort_key a_ID (filter (\<lambda>a. authPriority (Some a) = mx) f) \<noteq> []"
    proof -
      have "x \<in> set (sort_key a_ID (filter (\<lambda>a. authPriority (Some a) = mx) f))" using x by simp
      then show ?thesis by (metis empty_iff empty_set)
    qed
    ultimately show ?thesis using av by blast
  qed
qed

section \<open>The state between picks\<close>

text \<open>The clock does not go back, the scheduler is well formed at its reading, every credential of the manager
  and of the scheduler has its identifier in \<open>F\<close>, and the selector keeps its invariant.\<close>

definition poolOK :: "string set \<Rightarrow> ('s \<Rightarrow> bool) \<Rightarrow> 's SelectEnv \<Rightarrow> ('x, 'c, 's) Conductor \<Rightarrow> bool" where
  "poolOK F I env st \<longleftrightarrow> schedOK (sv_clock env (cd_tick st)) (cd_scheduler st) \<and> tablesIn F (cd_scheduler st)
     \<and> list_all (\<lambda>(k, a). k \<in> F \<and> a_ID a = k) (am_auths (cd_manager st)) \<and> I (cd_selector st) \<and> mono (sv_clock env)"

lemma ticked_sel [simp]:
  "cd_manager (ticked n st) = cd_manager st" "cd_scheduler (ticked n st) = cd_scheduler st" "cd_registry (ticked n st) = cd_registry st"
  "cd_selector (ticked n st) = cd_selector st" "cd_tick (ticked n st) = cd_tick st + n"
  by (simp_all add: ticked_def)

lemma clock_le: "poolOK F I env st \<Longrightarrow> m \<le> n \<Longrightarrow> sv_clock env m \<le> sv_clock env n"
  by (simp add: poolOK_def monoD)

lemma pool_ticked: "poolOK F I env st \<Longrightarrow> poolOK F I env (ticked n st)"
  using clock_le [of F I env st "cd_tick st" "cd_tick st + n"] schedOK_mono by (auto simp: poolOK_def ticked_def)

lemma pool_scheduler:
  "poolOK F I env st \<Longrightarrow> schedOK (sv_clock env (cd_tick st + n)) s \<Longrightarrow> tablesIn F s
    \<Longrightarrow> poolOK F I env ((ticked n st)\<lparr>cd_scheduler := s\<rparr>)"
  by (simp add: poolOK_def ticked_def)

lemma pool_id: "poolOK F I env st \<Longrightarrow> (k, a) \<in> set (am_auths (cd_manager st)) \<Longrightarrow> k \<in> F \<and> a_ID a = k"
  by (auto simp: poolOK_def list_all_iff)

lemma pool_get: "poolOK F I env st \<Longrightarrow> m_get (am_auths (cd_manager st)) k = Some a \<Longrightarrow> k \<in> F \<and> a_ID a = k"
  using pool_id by (metis m_get_set)

lemma pool_sync:
  assumes "poolOK F I env st"
  shows "poolOK F I env (syncScheduler env st)"
proof -
  let ?t = "sv_clock env (cd_tick st)"
  let ?s = "rebuild (cd_registry st) (map (\<lambda>(_, a). Some a) (am_auths (cd_manager st))) ?t (cd_scheduler st)"
  have t: "0 \<le> ?t" using assms by (simp add: poolOK_def schedOK_def)
  have "schedOK ?t ?s" using t by (rule schedOK_rebuild)
  then have "schedOK (sv_clock env (cd_tick st + 1)) ?s" using clock_le [OF assms] schedOK_mono by simp
  moreover have "tablesIn F ?s" using pool_id [OF assms] by (intro tablesIn_rebuild) auto
  ultimately show ?thesis unfolding syncScheduler_def by (rule pool_scheduler [OF assms])
qed

lemma scheduler_pick:
  assumes st: "poolOK F I env st" and r: "schedulerPick env mixed p ps model rq strategy st = (st', r)"
  shows "poolOK F I env st' \<and> cd_manager st' = cd_manager st
    \<and> (\<forall>a k. r = Inr (a, k) \<longrightarrow> freshPick rq a \<and> a_ID a \<in> F \<and> (mixed \<longrightarrow> k \<in> set (normalizeProviderKeys ps)))"
proof -
  let ?t = "cd_tick st"
  have ok: "schedOK (sv_clock env ?t) (cd_scheduler st)" and F: "tablesIn F (cd_scheduler st)" using st by (simp_all add: poolOK_def)
  have le: "sv_clock env ?t \<le> sv_clock env ?t" "sv_clock env ?t \<le> sv_clock env (?t + 1)" "sv_clock env (?t + 1) \<le> sv_clock env (?t + 2)"
    "sv_clock env (?t + 2) \<le> sv_clock env (?t + 3)" by (auto intro: clock_le [OF st])
  let ?m = "pickMixedWithStrategy ps model (schedOf rq) strategy (sv_clock env ?t) (sv_clock env (?t + 1)) (sv_clock env (?t + 2)) (cd_scheduler st)"
  let ?s = "pickSingleWithStrategy p model (schedOf rq) strategy (sv_clock env ?t) (sv_clock env (?t + 1)) (sv_clock env (?t + 2)) (cd_scheduler st)"
  have pool: "poolOK F I env ((ticked 3 st)\<lparr>cd_scheduler := fst ?m\<rparr>)" "poolOK F I env ((ticked 3 st)\<lparr>cd_scheduler := fst ?s\<rparr>)"
    using schedOK_mono [OF schedOK_mixed [OF ok le(1,2,3)] le(4)] schedOK_mono [OF schedOK_single [OF ok le(1,2,3)] le(4)]
      F tablesIn_same [OF same_mixed] tablesIn_same [OF same_single]
    by (auto intro!: pool_scheduler [OF st])
  show ?thesis
  proof (cases mixed)
    case True
    have "st' = (ticked 3 st)\<lparr>cd_scheduler := fst ?m\<rparr>" "r = map_sum (mixedErrorOf (sv_cooldownText env)) id (snd ?m)"
      using r True by (auto simp: schedulerPick_def Let_def case_prod_beta)
    then show ?thesis
      using pool(1) mixed_fresh [OF ok le(1,2) F, of ps model rq strategy] True
      by (auto simp: ticked_def map_sum_def split: sum.splits)
  next
    case False
    have "st' = (ticked 3 st)\<lparr>cd_scheduler := fst ?s\<rparr>"
        "r = map_sum (pickErrorOf (sv_cooldownText env) ''no auth available'') (\<lambda>a. (a, p)) (snd ?s)"
      using r False by (auto simp: schedulerPick_def Let_def case_prod_beta)
    then show ?thesis
      using pool(2) single_fresh [OF ok le(1,2) F, of p model rq strategy] False
      by (auto simp: ticked_def map_sum_def split: sum.splits)
  qed
qed

lemma scheduler_synced:
  assumes st: "poolOK F I env st" and r: "schedulerPickSynced env mixed p ps model rq strategy st = (st', r)"
  shows "poolOK F I env st' \<and> cd_manager st' = cd_manager st
    \<and> (\<forall>a k. r = Inr (a, k) \<longrightarrow> freshPick rq a \<and> a_ID a \<in> F \<and> (mixed \<longrightarrow> k \<in> set (normalizeProviderKeys ps)))"
proof -
  obtain st1 r1 where p1: "schedulerPick env mixed p ps model rq strategy st = (st1, r1)" by fastforce
  note one = scheduler_pick [OF st p1]
  then have st1: "poolOK F I env (syncScheduler env st1)" using pool_sync by blast
  obtain st2 r2 where p2: "schedulerPick env mixed p ps model rq strategy (syncScheduler env st1) = (st2, r2)" by fastforce
  have "cd_manager (syncScheduler env st1) = cd_manager st1" by (simp add: syncScheduler_def ticked_def)
  then show ?thesis using one scheduler_pick [OF st1 p2] p1 p2 r
    by (auto simp: schedulerPickSynced_def split: sum.splits if_splits)
qed

text \<open>The candidates of a route are fresh credentials of the manager.\<close>

lemma candidate_fresh:
  "routeCandidate env model rq st a \<Longrightarrow> freshPick rq a"
  by (auto simp: routeCandidate_def freshPick_def Let_def)

lemma plugin_pick:
  assumes st: "poolOK F I env st" and r: "pickViaPluginScheduler env p ps model rq cs st = (st', r)"
    and cs: "\<And>a. a \<in> set cs \<Longrightarrow> freshPick rq a \<and> a_ID a \<in> F"
  shows "poolOK F I env st' \<and> cd_manager st' = cd_manager st
    \<and> (\<forall>a. r = Some (Inr a) \<longrightarrow> freshPick rq a \<and> a_ID a \<in> F)"
proof -
  have st1: "poolOK F I env (ticked 1 st)" "cd_manager (ticked 1 st) = cd_manager st"
    by (rule pool_ticked [OF st]) simp
  have byid: "freshPick rq a \<and> a_ID a \<in> F" if "pickSchedulerAuthByID cs i = Some a" for i a
  proof -
    have "find (\<lambda>c. a_ID c = trim_space i) cs = Some a" using that by (simp add: pickSchedulerAuthByID_def Let_def split: if_splits)
    then have "a \<in> set cs" by (auto simp: find_Some_iff)
    then show ?thesis by (rule cs)
  qed
  have deleg: "poolOK F I env st2 \<and> cd_manager st2 = cd_manager st \<and> (\<forall>a. r2 = Some (Inr a) \<longrightarrow> freshPick rq a \<and> a_ID a \<in> F)"
    if "map_prod id Some (pickViaBuiltinScheduler env strategy q ps model rq (ticked 1 st)) = (st2, r2)" for strategy q st2 r2
  proof -
    obtain st3 r3 where p3: "schedulerPickSynced env (to_lower (trim_space q) = ''mixed'') (to_lower (trim_space q)) ps model rq strategy (ticked 1 st) = (st3, r3)"
      by fastforce
    then have "st2 = st3" "r2 = Some (map_sum id fst r3)" using that by (simp_all add: pickViaBuiltinScheduler_def Let_def)
    then show ?thesis using scheduler_synced [OF st1(1) p3] st1(2) by (cases r3) auto
  qed
  show ?thesis
    using r st st1 byid deleg
    by (auto simp: pickViaPluginScheduler_def Let_def split: option.splits if_splits sum.splits prod.splits)
qed

text \<open>Assigning an index changes one entry and no identifier.\<close>

lemma EnsureIndex_id [simp]: "a_ID (EnsureIndex ienv a) = a_ID a"
  by (simp add: EnsureIndex_def Let_def)

lemma pool_put:
  assumes st: "poolOK F I env st" and k: "k \<in> F" "a_ID a = k"
  shows "poolOK F I env (st\<lparr>cd_manager := (cd_manager st)\<lparr>am_auths := m_put k a (am_auths (cd_manager st))\<rparr>\<rparr>)"
proof -
  have "set (m_put k a m) \<subseteq> insert (k, a) (set m)" for m :: "(string, Auth) gomap"
    by (induction m) auto
  then show ?thesis using st k by (fastforce simp: poolOK_def list_all_iff)
qed

lemma assign_index:
  assumes st: "poolOK F I env st" and r: "assignIndex env a st = (st', a')" and a: "a_ID a \<in> F"
  shows "poolOK F I env st' \<and> a_ID a' = a_ID a"
proof (cases "m_get (am_auths (cd_manager st)) (a_ID a)")
  case (Some b)
  then show ?thesis using r st a pool_get [OF st Some] pool_put [OF st a]
    by (auto simp: assignIndex_def Let_def split: if_splits)
qed (use r st a in \<open>auto simp: assignIndex_def split: if_splits\<close>)

text \<open>What a pick of a credential with its executor promises.\<close>

definition pickedOK :: "string set \<Rightarrow> RouteRequest \<Rightarrow> 'x AuthManager \<Rightarrow> goerror + Auth \<times> 'x \<times> string \<Rightarrow> bool" where
  "pickedOK F rq m r \<longleftrightarrow> (\<forall>a x k. r = Inr (a, x, k) \<longrightarrow> a_ID a \<in> F \<and> a_ID a \<notin> set (rq_tried rq)
     \<and> (pinnedAuthIDFromMetadata (rq_metadata rq) \<noteq> [] \<longrightarrow> a_ID a = pinnedAuthIDFromMetadata (rq_metadata rq))
     \<and> lookupExecutor k m = Some x)"

lemma picked_with:
  assumes st: "poolOK F I env st" and b: "freshPick rq b" "a_ID b \<in> F" and r: "pickedWith env key b st = (st', r)"
  shows "poolOK F I env st' \<and> pickedOK F rq (cd_manager st) r"
proof (cases "lookupExecutor key (cd_manager st)")
  case None
  then show ?thesis using st r by (auto simp: pickedWith_def pickedOK_def)
next
  case (Some x)
  obtain st1 b' where ai: "assignIndex env b st = (st1, b')" by fastforce
  show ?thesis using assign_index [OF st ai b(2)] r ai Some b
    by (auto simp: pickedWith_def freshPick_def pickedOK_def Let_def)
qed

context selector
begin

lemma select_among:
  assumes env: "sv_pick env = pick" and st: "poolOK F inv env st" and r: "selectAmong env p ps model rq cs st = (st', r)"
    and cs: "\<And>a. a \<in> set cs \<Longrightarrow> freshPick rq a \<and> a_ID a \<in> F"
  shows "poolOK F inv env st' \<and> cd_manager st' = cd_manager st \<and> (\<forall>a. r = Inr a \<longrightarrow> freshPick rq a \<and> a_ID a \<in> F)"
proof (cases "cs = []")
  case True
  then show ?thesis using r st by (auto simp: selectAmong_def)
next
  case False
  have st1: "poolOK F inv env (ticked 1 st)" "cd_manager (ticked 1 st) = cd_manager st"
    by (rule pool_ticked [OF st]) simp
  show ?thesis
  proof (cases "availableAuthsForRouteModel (sv_route env) (sv_clock env (cd_tick st)) cs p model")
    case (Inl e)
    then show ?thesis using r False st1 by (auto simp: selectAmong_def)
  next
    case (Inr av)
    then have av: "\<And>a. a \<in> set av \<Longrightarrow> freshPick rq a \<and> a_ID a \<in> F"
      using availableAuths_spec [of "sv_route env" "sv_clock env (cd_tick st)" cs p model] cs by auto
    obtain st2 r2 where p2: "pickViaPluginScheduler env p ps model rq av (ticked 1 st) = (st2, r2)" by fastforce
    note pl = plugin_pick [OF st1(1) p2 av]
    show ?thesis
    proof (cases r2)
      case (Some x)
      then show ?thesis using r False Inr p2 pl st1(2) by (auto simp: selectAmong_def)
    next
      case None
      define req where "req = \<lparr>pr_provider = p, pr_model = selectionArgForSelector (sv_selectorKind env) model,
        pr_now = sv_clock env (cd_tick st2), pr_websocket = rq_websocket rq,
        pr_routeModel = selectorRouteModel (sv_selectorKind env) model,
        pr_primaryID = rq_primaryID rq, pr_fallbackID = rq_fallbackID rq\<rparr>"
      obtain sel r3 where p3: "pick (cd_selector st2) req (map Some av) = (sel, r3)" by fastforce
      have "st' = (ticked 1 st2)\<lparr>cd_selector := sel\<rparr>" "r = map_sum (pickErrorOf (sv_cooldownText env) ''no auth candidates'') id r3"
        using r False Inr p2 None p3 by (simp_all add: selectAmong_def env req_def Let_def)
      moreover have iv: "inv (cd_selector st2)" using pl by (simp add: poolOK_def)
      have "inv sel" using iv pick_inv [of "cd_selector st2" req "map Some av"] p3 by simp
      moreover have "poolOK F inv env (ticked 1 st2)" using pl pool_ticked by blast
      with \<open>inv sel\<close> have "poolOK F inv env ((ticked 1 st2)\<lparr>cd_selector := sel\<rparr>)"
        by (simp add: poolOK_def)
      moreover have "a \<in> set av" if "r3 = Inr a" for a
        using pick_unblocked [OF iv, of req "map Some av" a] p3 that by auto
      ultimately show ?thesis using av pl st1(2) by (cases r3) (auto simp: ticked_def)
    qed
  qed
qed

lemma mixed_legacy:
  assumes env: "sv_pick env = pick" and st: "poolOK F inv env st" and r: "pickNextMixedLegacy env ps model rq st = (st', r)"
  shows "poolOK F inv env st' \<and> pickedOK F rq (cd_manager st) r"
proof (cases "normalizeProviders ps = []")
  case True
  then show ?thesis using r st by (auto simp: pickNextMixedLegacy_def pickedOK_def)
next
  case False
  have cs: "freshPick rq a \<and> a_ID a \<in> F" if "a \<in> set (mixedCandidates env ps model rq st)" for a
    using that candidate_fresh pool_id [OF st] by (fastforce simp: mixedCandidates_def)
  obtain st1 r1 where p1: "selectAmong env ''mixed'' ps model rq (mixedCandidates env ps model rq st) st = (st1, r1)" by fastforce
  note sa = select_among [OF env st p1 cs]
  show ?thesis
  proof (cases r1)
    case (Inl e)
    then show ?thesis using r False p1 sa by (auto simp: pickNextMixedLegacy_def pickedOK_def)
  next
    case (Inr a)
    then have "pickedWith env (executorKeyFromAuth a) a st1 = (st', r)" using r False p1 by (simp add: pickNextMixedLegacy_def)
    then show ?thesis using picked_with [of F inv env st1 rq a] sa Inr by simp
  qed
qed

lemma next_mixed:
  assumes env: "sv_pick env = pick" and st: "poolOK F inv env st" and r: "pickNextMixed env ps model rq st = (st', r)"
  shows "poolOK F inv env st' \<and> pickedOK F rq (cd_manager st) r"
proof -
  let ?el = "eligibleProviders ps (cd_manager st)"
  let ?leg = "hasPluginScheduler env \<or> \<not> useSchedulerFastPath env \<or> ?el \<noteq> [] \<and> someRouteAware env (\<lambda>key. key \<in> set ?el) model rq st"
  show ?thesis
  proof (cases "?leg \<or> ?el = []")
    case True
    then consider "pickNextMixedLegacy env ps model rq st = (st', r)" | "st' = st" "\<exists>e. r = Inl e"
      using r by (auto simp: pickNextMixed_def Let_def split: if_splits)
    then show ?thesis using mixed_legacy [OF env st] st by cases (auto simp: pickedOK_def)
  next
    case False
    then have fast: "(hasPluginScheduler env \<or> \<not> useSchedulerFastPath env) = False" "(?el = []) = False"
      "someRouteAware env (\<lambda>key. key \<in> set ?el) model rq st = False" by auto
    obtain st1 r1 where p1: "schedulerPickSynced env True ''mixed'' ?el model rq schedulerStrategyCurrent st = (st1, r1)" by fastforce
    note sy = scheduler_synced [OF st p1]
    show ?thesis
    proof (cases r1)
      case (Inl e)
      then show ?thesis using r fast p1 sy by (auto simp: pickNextMixed_def Let_def pickedOK_def)
    next
      case (Inr y)
      obtain a k where y: "y = (a, k)" by fastforce
      then have "pickedWith env k a st1 = (st', r)" using r fast p1 Inr by (simp add: pickNextMixed_def Let_def)
      then show ?thesis using picked_with [of F inv env st1 rq a k] sy Inr y by simp
    qed
  qed
qed

end

end
