(* ===== verification/ExecutionEnds.thy ===== *)
theory ExecutionEnds
  imports ExecutionLoop RoutePick
begin

text \<open>
  The loop over credentials (theory Execution) returns: every step of a request keeps the scheduler
  and the credentials well formed (theory RoutePick), and every round picks a credential that was not
  tried before.
\<close>

section \<open>The steps of a request keep the state well formed\<close>

definition managerIn :: "string set \<Rightarrow> 'x AuthManager \<Rightarrow> bool" where
  "managerIn F m \<longleftrightarrow> list_all (\<lambda>(k, a). k \<in> F \<and> a_ID a = k) (am_auths m)"

lemma managerIn_put: "managerIn F m \<Longrightarrow> k \<in> F \<Longrightarrow> a_ID a = k \<Longrightarrow> managerIn F (m\<lparr>am_auths := m_put k a (am_auths m)\<rparr>)"
proof -
  assume m: "managerIn F m" "k \<in> F" "a_ID a = k"
  have "set (m_put k a m') \<subseteq> insert (k, a) (set m')" for m' :: "(string, Auth) gomap"
    by (induction m') auto
  then show ?thesis using m by (fastforce simp: managerIn_def list_all_iff)
qed

lemma managerIn_get: "managerIn F m \<Longrightarrow> m_get (am_auths m) k = Some a \<Longrightarrow> k \<in> F \<and> a_ID a = k"
  by (drule m_get_set) (auto simp: managerIn_def list_all_iff)

lemma managerIn_cong: "am_auths m' = am_auths m \<Longrightarrow> managerIn F m' = managerIn F m"
  by (simp add: managerIn_def)

lemma pool_managerIn: "poolOK F I env st \<Longrightarrow> managerIn F (cd_manager st)"
  by (simp add: poolOK_def managerIn_def)

lemma pool_manager: "poolOK F I env st \<Longrightarrow> managerIn F m \<Longrightarrow> poolOK F I env (st\<lparr>cd_manager := m\<rparr>)"
  by (simp add: poolOK_def managerIn_def)

lemma pool_registry [simp]: "poolOK F I env (st\<lparr>cd_registry := r\<rparr>) = poolOK F I env st"
  by (simp add: poolOK_def)

lemma pool_upsert:
  assumes st: "poolOK F I env st" and a: "a_ID a \<in> F"
  shows "poolOK F I env (upsertSnapshot env a st)"
proof -
  have ok: "schedOK (sv_clock env (cd_tick st)) (cd_scheduler st)" "tablesIn F (cd_scheduler st)"
    using st by (simp_all add: poolOK_def)
  have "sv_clock env (cd_tick st) \<le> sv_clock env (cd_tick st + 1)" using clock_le [OF st] by simp
  from schedOK_mono [OF schedOK_upsertAuthLocked [OF ok(1) order_refl] this]
  show ?thesis unfolding upsertSnapshot_def
    by (intro pool_scheduler [OF st]) (simp_all add: tablesIn_upsert [OF ok(2) a])
qed

lemma MarkResult_entry:
  "out_auths (MarkResult env now result auths) = auths \<and> out_snapshot (MarkResult env now result auths) = None
   \<or> (\<exists>a c. m_get auths (res_AuthID result) = Some a \<and> a_ID c = a_ID a
        \<and> out_auths (MarkResult env now result auths) = m_put (res_AuthID result) c auths
        \<and> out_snapshot (MarkResult env now result auths) = Some c)"
proof (cases "if res_AuthID result = [] then None else m_get auths (res_AuthID result)")
  case None
  then show ?thesis by (simp add: MarkResult_def split: option.split)
next
  case (Some a)
  then have a: "res_AuthID result \<noteq> []" "m_get auths (res_AuthID result) = Some a" by (auto split: if_splits)
  have same: "a_ID c = a_ID a" if "sameCredential (countRequest now b a) c" for b c
    using that sameCredential_count [of a now b] by (simp add: sameCredential_def)
  note eq = same [OF sameCredential_markSuccess] same [OF sameCredential_success] same [OF sameCredential_markFailure]
    same [OF sameCredential_fail] same [OF sameCredential_refl]
  have "\<exists>c. a_ID c = a_ID a \<and> out_auths (MarkResult env now result auths) = m_put (res_AuthID result) c auths
      \<and> out_snapshot (MarkResult env now result auths) = Some c"
    using a eq by (simp add: MarkResult_def Let_def split_beta)
  then show ?thesis using a by blast
qed

lemma pool_mark:
  assumes st: "poolOK F I (xv_select env) st"
  shows "poolOK F I (xv_select env) (markResult env result st)"
proof -
  let ?out = "MarkResult (ce_cooling (xv_call env)) (xv_now env st) result (am_auths (cd_manager st))"
  let ?st1 = "(ticked 1 st)\<lparr>cd_manager := (cd_manager st)\<lparr>am_auths := out_auths ?out\<rparr>\<rparr>"
  note m = pool_managerIn [OF st]
  have "managerIn F ((cd_manager st)\<lparr>am_auths := out_auths ?out\<rparr>) \<and> (\<forall>a. out_snapshot ?out = Some a \<longrightarrow> a_ID a \<in> F)"
    using MarkResult_entry [of "ce_cooling (xv_call env)" "xv_now env st" result "am_auths (cd_manager st)"] m
      managerIn_get [OF m] managerIn_put [OF m] by auto
  then have "poolOK F I (xv_select env) ?st1" "\<forall>a. out_snapshot ?out = Some a \<longrightarrow> a_ID a \<in> F"
    using pool_manager [OF pool_ticked [OF st]] by auto
  then have "poolOK F I (xv_select env) (case out_snapshot ?out of None \<Rightarrow> ?st1 | Some a \<Rightarrow> upsertSnapshot (xv_select env) a ?st1)"
    using pool_upsert by (auto split: option.split)
  then show ?thesis unfolding markResult_def Let_def pool_registry by (rule pool_ticked)
qed

lemma pool_neutral:
  assumes st: "poolOK F I (xv_select env) st"
  shows "poolOK F I (xv_select env) (recordNeutral env result st)"
proof -
  note m = pool_managerIn [OF st]
  have "managerIn F ((cd_manager st)\<lparr>am_auths := recordAvailabilityNeutralResult now result (am_auths (cd_manager st))\<rparr>)" for now
    using m managerIn_get [OF m] managerIn_put [OF m] by (auto simp: recordAvailabilityNeutralResult_def split: option.split)
  then show ?thesis unfolding recordNeutral_def by (intro pool_manager pool_ticked st)
qed

text \<open>The calls of the manager name credentials in \<open>F\<close>.\<close>

definition callsIn :: "string set \<Rightarrow> ManagerCall list \<Rightarrow> bool" where
  "callsIn F calls \<longleftrightarrow> list_all (\<lambda>c. case c of SchedulerUpsert a \<Rightarrow> a_ID a \<in> F | _ \<Rightarrow> True) calls"

lemma pool_remove:
  assumes "poolOK F I env st"
  shows "poolOK F I env (st\<lparr>cd_scheduler := removeAuth i (cd_scheduler st)\<rparr>)"
proof -
  have "tablesIn F (removeAuth i (cd_scheduler st))" using assms tablesIn_remove by (simp add: poolOK_def removeAuth_def Let_def)
  then show ?thesis using assms schedOK_removeAuth by (simp add: poolOK_def)
qed

lemma pool_calls: "poolOK F I env st \<Longrightarrow> callsIn F calls \<Longrightarrow> poolOK F I env (applyManagerCalls env calls st)"
  unfolding applyManagerCalls_def
proof (induction calls arbitrary: st)
  case (Cons c calls)
  have "poolOK F I env (applyManagerCall env st c)"
    using Cons.prems pool_upsert pool_remove pool_sync by (cases c) (auto simp: applyManagerCall_def callsIn_def)
  then show ?case using Cons by (simp add: callsIn_def)
qed simp

lemma UpdateAuth_in:
  assumes m: "managerIn F m" and u: "UpdateAuth env now auth m = Inr (saved, m', calls)"
  shows "managerIn F m' \<and> callsIn F calls"
proof (cases "a_ID auth = [] \<or> m_get (am_auths m) (a_ID auth) = None")
  case True
  then show ?thesis using m u by (auto simp: UpdateAuth_def callsIn_def split: if_splits option.splits)
next
  case False
  then obtain e where e: "a_ID auth \<noteq> []" "m_get (am_auths m) (a_ID auth) = Some e" by auto
  define b where "b = EnsureIndex (ce_index env) (fst (clearIfDisabled env now (mergeExisting e auth)))"
  have "a_ID (fst (clearIfDisabled env now (mergeExisting e auth))) = a_ID auth"
    using clearIfDisabled_same [of "mergeExisting e auth" env now] by (simp add: sameCredential_def)
  then have b: "a_ID b = a_ID auth" by (simp add: b_def)
  have "m' = m\<lparr>am_auths := m_put (a_ID b) b (am_auths m)\<rparr>" "callsIn F calls \<longleftrightarrow> a_ID b \<in> F \<or> \<not> ce_hasScheduler env"
    using u e unfolding b_def
    by (auto simp: UpdateAuth_def Let_def split_beta callsIn_def callsWhen_def split: option.splits)
  then show ?thesis using managerIn_get [OF m e(2)] managerIn_put [OF m] b by auto
qed

lemma refreshFinish_in:
  assumes m: "managerIn F m" and r: "refreshFinish cenv env now untl rt i auth reply m = (m', out)"
  shows "managerIn F m' \<and> callsIn F (ro_manager_calls out)"
proof (cases reply)
  case ReplyCanceled
  then show ?thesis using m r by (auto simp: refreshFinish_def callsIn_def)
next
  case (ReplyFailed err)
  show ?thesis
  proof (cases "m_get (am_auths m) i")
    case None
    then show ?thesis using m r ReplyFailed by (auto simp: refreshFinish_def callsIn_def)
  next
    case (Some a)
    have "a_ID (failedAuth err now a) = a_ID a" by (simp add: failedAuth_def Let_def)
    then show ?thesis using m r ReplyFailed Some managerIn_get [OF m Some] managerIn_put [OF m]
      by (auto simp: refreshFinish_def Let_def callsIn_def callsWhen_def)
  qed
next
  case (ReplyDone u nrt)
  obtain b models where b: "refreshedAuth env now untl (case nrt of Some r \<Rightarrow> Some r | None \<Rightarrow> rt) (case u of Some u \<Rightarrow> u | None \<Rightarrow> auth) = (b, models)"
    by fastforce
  show ?thesis
  proof (cases "UpdateAuth cenv now b m")
    case (Inl e)
    then show ?thesis using m r ReplyDone b by (auto simp: refreshFinish_def Let_def callsIn_def)
  next
    case (Inr y)
    obtain saved m2 calls where y: "y = (saved, m2, calls)" by (cases y) auto
    note UpdateAuth_in [OF m Inr [unfolded y]]
    then show ?thesis using r ReplyDone b Inr y by (cases saved) (auto simp: refreshFinish_def Let_def)
  qed
qed

text \<open>What other requests do while this one waits: they add no credential outside \<open>F\<close>.\<close>

definition othersOK :: "string set \<Rightarrow> ('s \<Rightarrow> bool) \<Rightarrow> ('x, 'c, 's, 'r) ExecEnv \<Rightarrow> bool" where
  "othersOK F I env \<longleftrightarrow> (\<forall>st. poolOK F I (xv_select env) st \<longrightarrow> poolOK F I (xv_select env) (awaitUpstream env st))"

lemma pool_await: "othersOK F I env \<Longrightarrow> poolOK F I (xv_select env) st \<Longrightarrow> poolOK F I (xv_select env) (awaitUpstream env st)"
  by (simp add: othersOK_def)

lemma pool_refresh:
  assumes ot: "othersOK F I env" and st: "poolOK F I (xv_select env) st"
  shows "poolOK F I (xv_select env) (fst (refreshAuthForRequest env i tok st))"
proof (cases "refreshStart i tok (cd_manager st)")
  case (Inl e)
  then show ?thesis using st by (simp add: refreshAuthForRequest_def)
next
  case (Inr y)
  obtain auth reuse where y: "y = (auth, reuse)" by fastforce
  show ?thesis
  proof (cases "reuse \<or> m_get (am_executors (cd_manager st)) (a_Provider auth) = None")
    case True
    then show ?thesis using Inr y st by (auto simp: refreshAuthForRequest_def split: option.split)
  next
    case False
    then obtain x where x: "\<not> reuse" "m_get (am_executors (cd_manager st)) (a_Provider auth) = Some x" by auto
    define s1 where "s1 = awaitUpstream env st"
    obtain m out where f: "refreshFinish (xv_call env) (xv_refreshEnv env) (xv_now env s1) (sv_clock (xv_select env) (cd_tick s1 + 1))
        (up_runtime (xv_upstream env) auth) (trim_space i) auth (up_refresh (xv_upstream env) (cd_tick st) x auth) (cd_manager s1) = (m, out)"
      by fastforce
    have s1: "poolOK F I (xv_select env) s1" unfolding s1_def using ot st by (rule pool_await)
    note fin = refreshFinish_in [OF pool_managerIn [OF s1] f]
    have "poolOK F I (xv_select env) (applyManagerCalls (xv_select env) (ro_manager_calls out) ((ticked 2 s1)\<lparr>cd_manager := m\<rparr>))"
      using fin by (intro pool_calls pool_manager pool_ticked s1) simp_all
    then show ?thesis using Inr y x f pool_ticked by (simp add: refreshAuthForRequest_def Let_def s1_def)
  qed
qed

lemma pool_tryRefresh:
  "othersOK F I env \<Longrightarrow> poolOK F I (xv_select env) st \<Longrightarrow>
    poolOK F I (xv_select env) (fst (tryRefreshAfterUnauthorized env auth e tried st))"
  using pool_refresh [of F I env st "a_ID auth" "authAccessToken auth"]
  by (auto simp: tryRefreshAfterUnauthorized_def split: prod.split sum.split)

lemma pool_prepare:
  assumes ot: "othersOK F I env" and st: "poolOK F I (xv_select env) st"
    and r: "prepareRequestAuth env x auth st = (st', r')"
  shows "poolOK F I (xv_select env) st'"
proof -
  let ?s = "awaitUpstream env st"
  note s = pool_await [OF ot st]
  have upd: "poolOK F I (xv_select env) (applyManagerCalls (xv_select env) calls ((ticked 1 ?s)\<lparr>cd_manager := m\<rparr>))"
    if "UpdateAuth (xv_call env) (xv_now env ?s) u (cd_manager ?s) = Inr (saved, m, calls)" for u saved m calls
    using UpdateAuth_in [OF pool_managerIn [OF s] that] by (intro pool_calls pool_manager pool_ticked s) simp_all
  show ?thesis
    using r st s upd pool_ticked [OF s]
    by (auto simp: prepareRequestAuth_def Let_def split: if_splits option.splits sum.splits prod.splits)
qed

lemma pool_callAndRefresh:
  assumes ot: "othersOK F I env" and st: "poolOK F I (xv_select env) st"
    and r: "callAndRefresh env call x auth d m st = (st', r')"
  shows "poolOK F I (xv_select env) st'"
proof -
  let ?s = "awaitUpstream env st"
  have s: "poolOK F I (xv_select env) ?s" using ot st by (rule pool_await)
  have t: "poolOK F I (xv_select env) s2" "poolOK F I (xv_select env) (awaitUpstream env s2)"
    if "tryRefreshAfterUnauthorized env auth e d ?s = (s2, y)" for e s2 y
    using pool_tryRefresh [OF ot s, of auth e d] pool_await [OF ot] that by auto
  show ?thesis using r s t
    by (auto simp: callAndRefresh_def Let_def split: sum.splits option.splits prod.splits)
qed

lemma pool_failure: "poolOK F I (xv_select env) st \<Longrightarrow> poolOK F I (xv_select env) (recordModelFailure env mode m e r st)"
  by (simp add: recordModelFailure_def pool_neutral pool_mark)

lemma pool_tryModels:
  assumes ot: "othersOK F I env"
  shows "poolOK F I (xv_select env) st \<Longrightarrow>
    tryModels env mode x p rq pooled al models auth d err st = (st', r') \<Longrightarrow> poolOK F I (xv_select env) st'"
proof (induction models arbitrary: auth d err st st' r')
  case (Cons u models)
  define model where "model = (case executionModelForAuthSelection (rq_metadata rq) (rq_model rq) of Some m \<Rightarrow> m | None \<Rightarrow> u)"
  obtain st1 auth1 d1 calls o1 where ex: "executeModel env mode x auth d model (ticked 1 st) = (st1, auth1, d1, calls, o1)"
    by (cases "executeModel env mode x auth d model (ticked 1 st)") auto
  have st0: "poolOK F I (xv_select env) (ticked 1 st)" using Cons.prems(1) by (rule pool_ticked)
  have st1: "poolOK F I (xv_select env) st1" using ot st0 ex [unfolded executeModel_def] by (rule pool_callAndRefresh)
  note eq = Cons.prems(2) [simplified, unfolded Let_def, folded model_def, unfolded ex]
  have rec: "poolOK F I (xv_select env) st2"
    if "tryModels env mode x p rq pooled al models a d' e (recordModelFailure env mode m er r st1) = (st2, r2)" for a d' e m er r st2 r2
    using Cons.IH [OF pool_failure [OF st1] that] .
  show ?case
    using eq st0 st1 pool_mark [OF st1] pool_failure [OF st1] rec
    by (auto simp: Let_def split: option.splits callOutcome.splits sum.splits if_splits prod.splits)
qed simp

lemma pool_executeCredential:
  assumes ot: "othersOK F I env" and st: "poolOK F I (xv_select env) (lo_state l)"
  shows "poolOK F I (xv_select env) (lo_state (executeCredential env mode rq x p models pooled al auth l))
    \<and> lo_tried (executeCredential env mode rq x p models pooled al auth l) = lo_tried l"
proof -
  obtain s pr er where prep: "prepareRequestAuth env x auth (lo_state l) = (s, pr, er)"
    by (cases "prepareRequestAuth env x auth (lo_state l)") auto
  have s: "poolOK F I (xv_select env) s" using ot st prep by (rule pool_prepare)
  have t: "poolOK F I (xv_select env) s2" if "tryModels env mode x p rq pooled al models a False None s = (s2, r2)" for a s2 r2
    using pool_tryModels [OF ot s that] .
  show ?thesis using s t pool_mark [OF s]
    by (auto simp: executeCredential_def withPrepared_def prep Let_def split: option.splits prod.splits)
qed

lemma prepared_auths:
  "am_auths (snd (preparedExecutionModelsWithAlias env now auth model m)) = am_auths m"
proof -
  have "am_auths (snd (nextModelPoolOffset k n m)) = am_auths m" for k n
    by (auto simp: nextModelPoolOffset_def Let_def)
  then have "am_auths (snd (poolCandidates env auth u m)) = am_auths m" for u
    by (auto simp: poolCandidates_def Let_def split: list.split prod.split) (metis snd_conv)
  then show ?thesis
    by (auto simp: preparedExecutionModelsWithAlias_def executionModelCandidatesWithAlias_def Let_def split_beta)
qed

section \<open>Every round tries a new credential\<close>

text \<open>What the handling of a credential keeps: the state well formed, and the credentials tried.\<close>

definition handlerOK :: "string set \<Rightarrow> ('s \<Rightarrow> bool) \<Rightarrow> 's SelectEnv \<Rightarrow> ('x, 'c, 's, 'r) credentialHandler \<Rightarrow> bool" where
  "handlerOK F I env handle \<longleftrightarrow> (\<forall>x p models pooled al auth l. poolOK F I env (lo_state l) \<longrightarrow>
     poolOK F I env (lo_state (handle x p models pooled al auth l)) \<and> lo_tried (handle x p models pooled al auth l) = lo_tried l)"

lemma handler_execute: "othersOK F I env \<Longrightarrow> handlerOK F I (xv_select env) (executeCredential env mode rq)"
  unfolding handlerOK_def by (intro allI impI) (rule pool_executeCredential)

context selector
begin

lemma once_round:
  assumes env: "sv_pick (xv_select env) = pick" and h: "handlerOK F inv (xv_select env) handle"
    and l: "poolOK F inv (xv_select env) (lo_state l)"
  shows "poolOK F inv (xv_select env) (lo_state (onceRound env handle providers rq n l))
    \<and> (lo_done (onceRound env handle providers rq n l) \<noteq> None \<and> lo_tried (onceRound env handle providers rq n l) = lo_tried l
      \<or> (\<exists>i\<in>F. i \<notin> set (lo_tried l) \<and> lo_tried (onceRound env handle providers rq n l) = i # lo_tried l))"
proof (cases rule: onceRound_cases [of n l env handle providers rq])
  case limit
  then show ?thesis using l by simp
next
  case (failed st e)
  then show ?thesis using next_mixed [OF env l failed(1)] by simp
next
  case (picked st auth x p models pooled al m)
  note pk = next_mixed [OF env l picked(1)]
  define l1 where "l1 = l\<lparr>lo_state := (ticked 1 st)\<lparr>cd_manager := m\<rparr>, lo_tried := a_ID auth # lo_tried l\<rparr>"
  define l2 where "l2 = l1\<lparr>lo_attempted := List.insert (a_ID auth) (lo_attempted l1)\<rparr>"
  have new: "a_ID auth \<in> F" "a_ID auth \<notin> set (lo_tried l)" using pk by (simp_all add: pickedOK_def)
  have "am_auths m = am_auths (cd_manager st)"
    using prepared_auths [of "xv_route env" "xv_now env st" auth _ "cd_manager st"] picked(2) by (metis snd_conv)
  then have "managerIn F m" using pool_managerIn pk managerIn_cong by blast
  then have st1: "poolOK F inv (xv_select env) (lo_state l1)" "lo_state l2 = lo_state l1" "lo_tried l2 = lo_tried l1"
    using pool_manager [OF pool_ticked [OF conjunct1 [OF pk]]] by (simp_all add: l1_def l2_def)
  have "onceRound env handle providers rq n l = (if models = [] then l1 else handle x p models pooled al auth l2)"
    using picked(4) by (simp add: l1_def l2_def)
  then show ?thesis using st1 new h by (auto simp: handlerOK_def l1_def)
qed

lemma once_ends:
  assumes env: "sv_pick (xv_select env) = pick" and h: "\<And>rq. handlerOK F inv (xv_select env) (handle rq)" and fin: "finite F"
    and st: "poolOK F inv (xv_select env) st"
  shows "\<exists>l. onceLoop env handle providers rq n st = Some l \<and> distinct (lo_tried l) \<and> set (lo_tried l) \<subseteq> F"
proof (cases "providers = []")
  case False
  define rq' where "rq' = rq\<lparr>rq_metadata := ensureRequestedModelMetadata (rq_metadata rq) (authSelectionModelFromOptions (rq_metadata rq) (rq_model rq))\<rparr>"
  let ?step = "onceRound env (handle rq') providers rq' n"
  let ?P = "\<lambda>l. poolOK F inv (xv_select env) (lo_state l) \<and> distinct (lo_tried l) \<and> set (lo_tried l) \<subseteq> F"
  let ?f = "\<lambda>l. card (F - set (lo_tried l)) + (if lo_done l = None then 1 else 0)"
  have step: "?P (?step l) \<and> ?f (?step l) < ?f l" if l: "?P l" "lo_done l = None" for l
  proof -
    define l' where "l' = ?step l"
    have r: "poolOK F inv (xv_select env) (lo_state l')"
      "lo_done l' \<noteq> None \<and> lo_tried l' = lo_tried l \<or> (\<exists>i\<in>F. i \<notin> set (lo_tried l) \<and> lo_tried l' = i # lo_tried l)"
      using once_round [OF env h conjunct1 [OF l(1)], of rq' providers rq' n] by (simp_all only: l'_def)
    from r(2) have "?P l' \<and> ?f l' < ?f l"
    proof (elim disjE conjE bexE)
      fix i assume i: "i \<in> F" "i \<notin> set (lo_tried l)" "lo_tried l' = i # lo_tried l"
      have "card (F - set (i # lo_tried l)) < card (F - set (lo_tried l))"
        using i(1,2) fin by (intro psubset_card_mono) auto
      then show ?thesis using i l r(1) by simp
    qed (use l r(1) in simp)
    then show ?thesis by (simp only: l'_def)
  qed
  have init: "?P (initLoop st)" using st by (simp add: initLoop_def)
  obtain l where l: "while_option (\<lambda>l. lo_done l = None) ?step (initLoop st) = Some l"
    using measure_while_option_Some [where P = ?P and f = ?f, OF step init] by (rule exE)
  have "?P l"
  proof (rule while_option_rule [where P = ?P, OF _ l init])
    show "?P (?step s)" if "?P s" "lo_done s = None" for s using step [OF that] by (rule conjunct1)
  qed
  then show ?thesis using l False by (simp add: onceLoop_def rq'_def Let_def)
qed (simp add: onceLoop_def initLoop_def)

end

text \<open>
  C2: An execution returns. With a selector that keeps the contract of theory Selector, a clock that
  does not go back, finitely many credential identifiers, which other requests do not leave, and a
  well-formed state to start with, the loop over credentials ends, whatever the executors, the
  plugins, the interceptor and the context reply and however many credentials fail: it tries every
  credential at most once, and only known ones.\<close>
theorem execution_returns:
  assumes "selector I (sv_pick (xv_select env)) elig" and "finite F" and "othersOK F I env"
    and "poolOK F I (xv_select env) st"
  shows "\<exists>l. mixedOnce env mode providers rq maxRetryCredentials st = Some l
    \<and> distinct (lo_tried l) \<and> set (lo_tried l) \<subseteq> F"
  unfolding mixedOnce_def
  using selector.once_ends [OF assms(1) refl handler_execute [OF assms(3)] assms(2,4)] .


end
