(* ===== verification/StreamRuns.thy ===== *)
theory StreamRuns
  imports StreamExecution ExecutionEnds
begin

text \<open>
  What a streamed execution does (theory StreamExecution): the client of a stream gets what the
  upstream sent, one result is recorded for it, the calls before it are recorded like those of an
  execution, and the loop over credentials ends.
\<close>

section \<open>Forwarding\<close>

text \<open>The chunks that are forwarded when nothing is rewritten: errors, and payloads that are not empty.\<close>

definition forwarded :: "StreamChunk \<Rightarrow> bool" where
  "forwarded chunk \<longleftrightarrow> ch_Err chunk \<noteq> None \<or> ch_Payload chunk \<noteq> []"

definition firstError :: "StreamChunk list \<Rightarrow> goerror option" where
  "firstError chunks = (case List.map_filter ch_Err chunks of [] \<Rightarrow> None | err # _ \<Rightarrow> Some err)"

lemma firstError_simps [simp]:
  "firstError [] = None" "firstError (c # cs) = (case ch_Err c of Some e \<Rightarrow> Some e | None \<Rightarrow> firstError cs)"
  by (simp_all add: firstError_def List.map_filter_simps split: option.split)

lemma firstError_append: "firstError (cs @ ds) = (case firstError cs of Some e \<Rightarrow> Some e | None \<Rightarrow> firstError ds)"
  by (induction cs) (auto split: option.split)

text \<open>The results recorded so far are at most one, the failure of the first error seen.\<close>

definition forwardOK :: "OpenStream \<Rightarrow> StreamChunk list \<Rightarrow> Forward \<Rightarrow> bool" where
  "forwardOK s seen f \<longleftrightarrow> fw_failed f = (firstError seen \<noteq> None)
     \<and> fw_results f = (case firstError seen of Some e \<Rightarrow> [streamFailure s e] | None \<Rightarrow> [])"

lemma emit_ok:
  assumes "forwardOK s seen f"
  shows "forwardOK s (seen @ [c]) (fst (emitChunk json taken s c f))"
  using assms by (auto simp: emitChunk_def forwardOK_def sendChunk_def firstError_append Let_def split: option.splits prod.splits)

lemma emitAll_ok:
  "forwardOK s seen f \<Longrightarrow> emitAll json taken s cs f = (f', ok) \<Longrightarrow>
    \<exists>seen'. forwardOK s (seen @ seen') f' \<and> prefix seen' cs \<and> (ok \<longrightarrow> seen' = cs)"
proof (induction cs arbitrary: seen f)
  case Nil
  then show ?case by auto
next
  case (Cons c cs)
  obtain f1 ok1 where e: "emitChunk json taken s c f = (f1, ok1)" by fastforce
  have f1: "forwardOK s (seen @ [c]) f1" using emit_ok [OF Cons.prems(1), of c json taken] e by simp
  show ?case
  proof (cases ok1)
    case False
    then show ?thesis using Cons.prems(2) e f1 by (intro exI [of _ "[c]"]) simp
  next
    case True
    then have "emitAll json taken s cs f1 = (f', ok)" using Cons.prems(2) e by simp
    from Cons.IH [OF f1 this] obtain seen' where "forwardOK s (seen @ c # seen') f'" "prefix seen' cs" "ok \<longrightarrow> seen' = cs" by auto
    then show ?thesis by (intro exI [of _ "c # seen'"]) simp
  qed
qed

text \<open>Nothing rewritten and every send taken.\<close>

lemma emit_plain:
  assumes "rewriteTarget (os_Alias s) = None" and "\<And>k. taken k"
  shows "snd (emitChunk json taken s c f) \<and> fw_out (fst (emitChunk json taken s c f)) = fw_out f @ filter forwarded [c]"
  using assms by (auto simp: emitChunk_def sendChunk_def forwarded_def Let_def split: option.splits)

lemma emitAll_plain:
  assumes "rewriteTarget (os_Alias s) = None" and "\<And>k. taken k"
  shows "snd (emitAll json taken s cs f) \<and> fw_out (fst (emitAll json taken s cs f)) = fw_out f @ filter forwarded cs"
proof (induction cs arbitrary: f)
  case (Cons c cs)
  obtain f1 ok1 where e: "emitChunk json taken s c f = (f1, ok1)" by fastforce
  then have "ok1" "fw_out f1 = fw_out f @ filter forwarded [c]" using emit_plain [of s taken json c f] assms by simp_all
  then show ?case using Cons.IH [of f1] e by (simp add: forwarded_def split: if_splits)
qed simp

lemma forward_start: "forwardOK s [] startForward"
  by (simp add: forwardOK_def startForward_def)

text \<open>The beginning that is read ahead is not lost.\<close>

lemma arriving_simps [simp]:
  "arriving [] = []" "arriving (Arrives c # evs) = c # arriving evs" "arriving (ContextEnds e # evs) = arriving evs"
  by (simp_all add: arriving_def List.map_filter_simps)

lemma bootstrap_keeps:
  "bootstrapLoop buf evs = (Inr (buffered, closed), rest) \<Longrightarrow>
    buffered @ arriving rest = buf @ arriving evs \<and> (closed \<longrightarrow> rest = []) \<and> (firstError buf = None \<longrightarrow> firstError buffered = None)"
  by (induction buf evs rule: bootstrapLoop.induct) (auto simp: firstError_append split: option.splits if_splits)

definition streamOf :: "string \<Rightarrow> string \<Rightarrow> string \<Rightarrow> OAuthModelAliasResult \<Rightarrow> StreamChunk list \<Rightarrow> bool \<Rightarrow> streamEvent list \<Rightarrow> OpenStream" where
  "streamOf i p m al buffered closed rest = \<lparr>os_AuthID = i, os_Provider = p, os_Model = m, os_Alias = al,
     os_Buffered = buffered, os_Remaining = (if closed then [] else rest)\<rparr>"


section \<open>What is called and recorded before a stream is given to the client\<close>

text \<open>No success is recorded before the stream is forwarded; a stream that is given to the client comes from
  the last call, and nothing before it was final.\<close>

definition streamDecided :: "OpenStream onceOutcome option \<Rightarrow> execEvent list \<Rightarrow> bool" where
  "streamDecided out evs \<longleftrightarrow> (\<forall>r. Marked r None \<notin> set evs)
     \<and> (\<forall>s. out = Some (OnceReply s) \<longrightarrow> evs \<noteq> [] \<and> (\<exists>m. last evs = Called (os_AuthID s) m))
     \<and> (out = None \<or> (\<exists>s. out = Some (OnceReply s)) \<longrightarrow> list_all (\<lambda>ev. \<not> finalEvent ev) evs)"

interpretation streamed: outcome_rule streamDecided
  by unfold_locales (auto simp: streamDecided_def list_all_iff)

lemma bootstrap_calls:
  assumes "bootstrapStream env call x auth d m source st = (st', auth', d', again, out)"
  shows "again = [] \<and> auth' = auth \<and> d' = d \<or> again = [Called (a_ID auth') m] \<and> \<not> d \<and> d'"
proof -
  have n: "tryRefreshAfterUnauthorized env auth e True s = (s, None)" for e s
    by (simp add: tryRefreshAfterUnauthorized_def triesRefreshAfterUnauthorized_def)
  obtain r rest where "readStreamBootstrap source = (r, rest)" by fastforce
  then show ?thesis using assms n
    by (cases r; cases d) (auto simp: bootstrapStream_def Let_def split: prod.splits sum.splits option.splits)
qed

text \<open>The calls to one model, and the run they begin: what follows them is a recorded failure or nothing.\<close>

definition callGroup :: "bool \<Rightarrow> bool \<Rightarrow> string \<Rightarrow> execEvent list \<Rightarrow> bool" where
  "callGroup d d' i calls \<longleftrightarrow> (\<exists>m. calls = [Called i m] \<and> d' = d \<or> (\<exists>j. calls = [Called j m, Called i m] \<and> \<not> d \<and> d'))"

lemma callGroup_ends: "callGroup d d' i calls \<Longrightarrow> runOK d calls \<and> calls \<noteq> [] \<and> (\<exists>m. last calls = Called i m)
    \<and> list_all (\<lambda>ev. \<not> finalEvent ev) calls \<and> (\<forall>r e. Marked r e \<notin> set calls)"
  by (auto simp: callGroup_def)

lemma callGroup_fails:
  "callGroup d d' i calls \<Longrightarrow> recorded i r (Some e) \<Longrightarrow> runOK d' evs \<Longrightarrow> (isRequestInvalidError e \<longrightarrow> evs = [])
    \<Longrightarrow> runOK d (calls @ Marked r (Some e) # evs)"
  by (auto simp: callGroup_def)

lemma callGroup_calls:
  assumes "callAndRefresh env call x auth d m st = (st1, auth1, d1, calls, out1)"
  shows "callGroup d d1 (a_ID auth1) calls"
    and "bootstrapStream env call x auth1 d1 m source st1 = (st2, auth2, d2, again, out2) \<Longrightarrow> callGroup d d2 (a_ID auth2) (calls @ again)"
  using callAndRefresh_calls [OF assms] bootstrap_calls [of env call x auth1 d1 m source st1 st2 auth2 d2 again out2]
  by (auto simp: callGroup_def)

lemma streamDecided_fails:
  "streamDecided out evs \<Longrightarrow> callGroup d d' i calls \<Longrightarrow> \<not> isRequestInvalidError e
    \<Longrightarrow> streamDecided out (calls @ Marked r (Some e) # evs)"
  by (drule callGroup_ends) (auto simp: streamDecided_def)

lemma streamDecided_error:
  "callGroup d d' i calls \<Longrightarrow> streamDecided (Some (OnceError e)) calls \<and> streamDecided (Some OncePanic) calls
    \<and> streamDecided (Some (OnceError e)) (calls @ [Marked r (Some e')])"
  by (drule callGroup_ends) (auto simp: streamDecided_def)

lemma empty_views:
  "errChain (AuthErr e) = [AuthErr e]" "errAs f (AuthErr e) = f (AuthErr e)"
  by (simp_all add: errAs_def split: option.split)

lemma empty_result:
  assumes "\<not> isRequestInvalidError (emptyStreamError t)"
  shows "recorded i ((failureResult i p m (emptyStreamError t))\<lparr>res_RetryAfter := None, res_Error := asAuthErr (emptyStreamError t)\<rparr>)
    (Some (emptyStreamError t))"
proof -
  have "\<not> isRequestScopedError (emptyStreamError t)" using assms scoped_invalid by blast
  then show ?thesis using assms
    by (simp add: recorded_def failureResult_def emptyStreamError_def retryAfterFromError_def resultErrorFromError_def
      empty_views statusCodeFromError_def)
qed

lemma empty_valid: "\<not> isRequestInvalidError (emptyStreamError ''upstream stream closed before first payload'')"
  by code_simp

text \<open>A run of the models of a credential: its events, and the error that ends it when it is the request's fault.\<close>

definition streamRunOK :: "bool \<Rightarrow> OpenStream onceOutcome \<Rightarrow> execEvent list \<Rightarrow> bool" where
  "streamRunOK d out evs \<longleftrightarrow> runOK d evs \<and> streamDecided (Some out) evs
     \<and> (\<forall>r e. evs \<noteq> [] \<and> last evs = Marked r (Some e) \<and> isRequestInvalidError e \<longrightarrow> out = OnceError e)"

lemma streamRun_stops:
  assumes "callGroup d d' i calls"
  shows "streamRunOK d (OnceError e) calls" "streamRunOK d OncePanic calls"
    and "os_AuthID s = i \<Longrightarrow> streamRunOK d (OnceReply s) calls"
    and "recorded i r (Some e) \<Longrightarrow> streamRunOK d (OnceError e) (calls @ [Marked r (Some e)])"
    and "recorded i r (Some e) \<Longrightarrow> \<not> isRequestInvalidError e \<Longrightarrow> streamRunOK d (OnceError e') (calls @ [Marked r (Some e)])"
  using assms by (auto simp: callGroup_def streamRunOK_def streamDecided_def)

lemma streamRun_goes_on:
  assumes "callGroup d d' i calls" "recorded i r (Some e)" "\<not> isRequestInvalidError e" "streamRunOK d' out evs"
  shows "streamRunOK d out (calls @ Marked r (Some e) # evs)"
  using callGroup_fails [OF assms(1,2), of evs] streamDecided_fails [OF _ assms(1,3), of "Some out" evs r] assms(3,4)
  by (auto simp: streamRunOK_def)

lemma stream_run:
  "executeStreamWithModelPool env call x p rq rm em pooled al models auth d err st = (st', out, evs) \<Longrightarrow> streamRunOK d out evs"
proof (induction models arbitrary: auth d err st st' out evs)
  case Nil
  then show ?case by (auto simp: streamRunOK_def streamDecided_def)
next
  case (Cons u models)
  define model where "model = (case em of Some m \<Rightarrow> m | None \<Rightarrow> u)"
  define res where "res = stateModelForExecution (xv_route env) auth rm u pooled"
  define int where "int = xv_intercept env (cd_tick st) model (requestedModelAliasFromOptions (rq_metadata rq) rm)"
  obtain st1 auth1 d1 calls o1 where ex: "callAndRefresh env call x auth d model (ticked 1 st) = (st1, auth1, d1, calls, o1)"
    by (cases "callAndRefresh env call x auth d model (ticked 1 st)") auto
  note g1 = callGroup_calls(1) [OF ex]
  note eq = Cons.prems [simplified, unfolded Let_def, folded model_def res_def, folded int_def, unfolded ex]
  have fails: "streamRunOK d out evs"
    if "callGroup d d' i group" "recorded i r (Some e)" "\<not> isRequestInvalidError e"
      "(case executeStreamWithModelPool env call x p rq rm em pooled al models a d' (Some e) s of
          (st, out, events) \<Rightarrow> (st, out, (group @ [Marked r (Some e)]) @ events)) = (st', out, evs)" for d' i group r e a s
  proof -
    obtain st2 out2 evs2 where t: "executeStreamWithModelPool env call x p rq rm em pooled al models a d' (Some e) s = (st2, out2, evs2)"
      by (cases "executeStreamWithModelPool env call x p rq rm em pooled al models a d' (Some e) s") auto
    show ?thesis using streamRun_goes_on [OF that(1,2,3) Cons.IH [OF t]] that(4) t by simp
  qed
  show ?case
  proof (cases "int = None \<and> xv_ctxErr env (cd_tick st + 1) = None")
    case False
    then show ?thesis using eq by (auto simp: streamRunOK_def streamDecided_def split: option.splits)
  next
    case True
    show ?thesis
    proof (cases o1)
      case (CallCanceled e)
      then show ?thesis using eq True streamRun_stops(1) [OF g1] by auto
    next
      case (CallDone reply)
      define opened where "opened = (case reply of Inl err \<Rightarrow> Inl err
        | Inr None \<Rightarrow> Inl (emptyStreamError ''upstream stream has no source'')
        | Inr (Some None) \<Rightarrow> Inl (emptyStreamError ''upstream stream has no source'')
        | Inr (Some (Some evs)) \<Rightarrow> Inr evs)"
      have none: "int = None" "xv_ctxErr env (cd_tick st + 1) = None" using True by simp_all
      note eq1 = eq [unfolded CallDone none option.case prod.case callOutcome.case, folded opened_def]
      show ?thesis
      proof (cases opened)
        case (Inl e)
        show ?thesis
        proof (cases "isRequestInvalidError e")
          case True': True
          then show ?thesis using eq1 True Inl streamRun_stops(4) [OF g1 recorded_results(2)] by auto
        next
          case False
          show ?thesis
            by (rule fails [OF g1 recorded_results(2) False]) (use eq1 True Inl False in simp)
        qed
      next
        case (Inr source)
        obtain st2 auth2 d2 again b where bo: "bootstrapStream env call x auth1 d1 model (Some source) st1 = (st2, auth2, d2, again, b)"
          by (cases "bootstrapStream env call x auth1 d1 model (Some source) st1") auto
        note g2 = callGroup_calls(2) [OF ex bo]
        note eq2 = eq1 [unfolded Inr sum.case bo prod.case]
        show ?thesis
        proof (cases b)
          case (BootCanceled e)
          then show ?thesis using eq2 True streamRun_stops(1) [OF g2] by auto
        next
          case BootPanic
          then show ?thesis using eq2 True streamRun_stops(2) [OF g2] by auto
        next
          case (BootDone r rest)
          show ?thesis
          proof (cases r)
            case (Inl e)
            have stop: "streamRunOK d (OnceError e') ((calls @ again) @ [Marked (failureResult (a_ID auth2) p res e) (Some e)])"
              if "isRequestInvalidError e \<longrightarrow> e' = e" for e'
              using streamRun_stops(4,5) [OF g2 recorded_results(2)] that by metis
            show ?thesis
            proof (cases "isRequestInvalidError e \<or> models = []")
              case True': True
              then show ?thesis using eq2 True BootDone Inl stop by (auto split: if_splits)
            next
              case False
              show ?thesis
                by (rule fails [OF g2 recorded_results(2)]) (use eq2 True BootDone Inl False in simp_all)
            qed
          next
            case (Inr y)
            obtain buffered closed where y: "y = (buffered, closed)" by fastforce
            note none = empty_result [OF empty_valid]
            show ?thesis
            proof (cases "closed \<and> buffered = []")
              case empty: True
              show ?thesis
              proof (cases "models = []")
                case True': True
                then show ?thesis using eq2 True BootDone Inr y empty streamRun_stops(5) [OF g2 none empty_valid] by auto
              next
                case False
                show ?thesis
                  by (rule fails [OF g2 none empty_valid]) (use eq2 True BootDone Inr y empty False in simp)
              qed
            next
              case False
              then show ?thesis using eq2 True BootDone Inr y streamRun_stops(3) [OF g2] by auto
            qed
          qed
        qed
      qed
    qed
  qed
qed

text \<open>
  The loop over the credentials: the handling of one keeps the rule.\<close>

lemma stream_keeps:
  assumes l: "loopOK streamDecided n l" "lo_done l = None" "a_ID auth \<in> set (lo_attempted l)"
  shows "loopOK streamDecided n (executeStreamCredential env call rq x p models pooled al auth l)"
  unfolding executeStreamCredential_def Let_def
proof (rule streamed.prepared [OF l], goal_cases)
  case (1 st a)
  obtain s out evs where t: "executeStreamWithModelPool env call x p rq (authSelectionModelFromOptions (rq_metadata rq) (rq_model rq))
      (executionModelForAuthSelection (rq_metadata rq) (rq_model rq)) pooled al models a False None st = (s, out, evs)"
    by (cases "executeStreamWithModelPool env call x p rq (authSelectionModelFromOptions (rq_metadata rq) (rq_model rq))
      (executionModelForAuthSelection (rq_metadata rq) (rq_model rq)) pooled al models a False None st") auto
  have r: "runOK False evs" "streamDecided (Some out) evs"
      "\<And>r e. evs \<noteq> [] \<Longrightarrow> last evs = Marked r (Some e) \<Longrightarrow> isRequestInvalidError e \<Longrightarrow> out = OnceError e"
    using stream_run [OF t] by (auto simp: streamRunOK_def)
  have other: "streamDecided (Some (OnceError e')) evs" for e' using r(2) by (auto simp: streamDecided_def)
  have open_run: "streamDecided None evs" if "out = OnceError e" "\<not> isRequestInvalidError e" for e
  proof -
    have "list_all (\<lambda>ev. \<not> finalEvent ev) evs"
    proof (cases "evs = []")
      case False
      have "\<not> finalEvent (last evs)" using r(2,3) that False last_in_set [OF False]
        by (cases "last evs" rule: finalEvent.cases) (auto simp: streamDecided_def)
      then have "list_all (\<lambda>ev. \<not> finalEvent ev) (butlast evs @ [last evs])"
        using runOK_final [OF r(1)] by (simp add: finalLast_def)
      then show ?thesis using False by simp
    qed simp
    then show ?thesis using r(2) by (simp add: streamDecided_def)
  qed
  show ?case unfolding t using r(1,2) other open_run l(2)
    by (intro exI [of _ evs]) (cases out; simp split: option.split)
qed

text \<open>
  C5: What is recorded before a stream is given to the client. When the loop over credentials of a
  streamed execution returns, every call so far was followed by the record of its failure under the
  credential that was called, except a call repeated at most once per credential after a refresh of
  its token, a call that was cancelled and the call whose stream is given to the client; no success
  was recorded; nothing is called after an error that is the request's fault; the stream given to the
  client comes from the last call, so the results of that stream are recorded under the credential
  that sends it; and at most \<open>maxRetryCredentials\<close> credentials, when that is positive, were called.\<close>
theorem stream_decided_by_runs:
  assumes "executeStreamMixedOnce env call providers rq maxRetryCredentials st = Some l"
  shows "list_all credentialRunOK (lo_runs l)
    \<and> finalLast (eventsOf (lo_runs l)) \<and> streamDecided (lo_done l) (eventsOf (lo_runs l)) \<and> lo_done l \<noteq> None
    \<and> (0 < maxRetryCredentials \<longrightarrow> int (card (fst ` set (lo_runs l))) \<le> maxRetryCredentials)"
proof -
  have "handlerRuns streamDecided maxRetryCredentials (executeStreamCredential env call rq)" for rq
    by (simp add: handlerRuns_def stream_keeps)
  then have l: "loopOK streamDecided maxRetryCredentials l \<and> lo_done l \<noteq> None"
    using assms unfolding executeStreamMixedOnce_def by (rule streamed.once)
  moreover from this have "0 < maxRetryCredentials \<longrightarrow> int (card (fst ` set (lo_runs l))) \<le> maxRetryCredentials"
    using streamed.credentials_bounded by blast
  ultimately show ?thesis by (simp add: loopOK_def)
qed

section \<open>The loop over credentials ends\<close>

lemma pool_bootstrap:
  assumes ot: "othersOK F I env" and st: "poolOK F I (xv_select env) st"
    and r: "bootstrapStream env call x auth d model source st = (st', r')"
  shows "poolOK F I (xv_select env) st'"
proof -
  let ?s = "awaitUpstream env st"
  have s: "poolOK F I (xv_select env) ?s" using ot st by (rule pool_await)
  have t: "poolOK F I (xv_select env) s2" "poolOK F I (xv_select env) (awaitUpstream env s2)"
      "poolOK F I (xv_select env) (awaitUpstream env (awaitUpstream env s2))"
    if "tryRefreshAfterUnauthorized env auth e d ?s = (s2, y)" for e s2 y
    using pool_tryRefresh [OF ot s, of auth e d] pool_await [OF ot] that by auto
  obtain o1 rest where "readStreamBootstrap source = (o1, rest)" by fastforce
  with r s t show ?thesis
    by (cases o1) (auto simp: bootstrapStream_def Let_def split: sum.splits option.splits prod.splits)
qed

lemma pool_stream:
  assumes ot: "othersOK F I env"
  shows "poolOK F I (xv_select env) st \<Longrightarrow>
    executeStreamWithModelPool env call x p rq rm em pooled al models auth d err st = (st', r') \<Longrightarrow> poolOK F I (xv_select env) st'"
proof (induction models arbitrary: auth d err st st' r')
  case (Cons u models)
  define model where "model = (case em of Some m \<Rightarrow> m | None \<Rightarrow> u)"
  obtain st1 auth1 d1 calls o1 where ex: "callAndRefresh env call x auth d model (ticked 1 st) = (st1, auth1, d1, calls, o1)"
    by (cases "callAndRefresh env call x auth d model (ticked 1 st)") auto
  have st0: "poolOK F I (xv_select env) (ticked 1 st)" using Cons.prems(1) by (rule pool_ticked)
  have st1: "poolOK F I (xv_select env) st1" using ot st0 ex by (rule pool_callAndRefresh)
  have boot: "poolOK F I (xv_select env) st2" if "bootstrapStream env call x auth1 d1 model source st1 = (st2, y)" for source st2 y
    using ot st1 that by (rule pool_bootstrap)
  note eq = Cons.prems(2) [simplified, unfolded Let_def, folded model_def, unfolded ex]
  have rec1: "poolOK F I (xv_select env) st2"
    if "executeStreamWithModelPool env call x p rq rm em pooled al models a d' e (markResult env r st1) = (st2, r2)" for a d' e r st2 r2
    using Cons.IH [OF pool_mark [OF st1] that] .
  have rec2: "poolOK F I (xv_select env) st3"
    if "bootstrapStream env call x auth1 d1 model source st1 = (st2, y)"
      "executeStreamWithModelPool env call x p rq rm em pooled al models a d' e (markResult env r st2) = (st3, r2)" for source st2 y a d' e r st3 r2
    using Cons.IH [OF pool_mark [OF boot [OF that(1)]] that(2)] .
  show ?case
    using eq st0 st1 pool_mark [OF st1] boot pool_mark [OF boot] rec1 rec2
    by (auto simp: Let_def split: option.splits callOutcome.splits sum.splits if_splits prod.splits bootOutcome.splits)
qed simp

lemma pool_streamCredential:
  assumes ot: "othersOK F I env" and st: "poolOK F I (xv_select env) (lo_state l)"
  shows "poolOK F I (xv_select env) (lo_state (executeStreamCredential env call rq x p models pooled al auth l))
    \<and> lo_tried (executeStreamCredential env call rq x p models pooled al auth l) = lo_tried l"
proof -
  obtain s pr er where prep: "prepareRequestAuth env x auth (lo_state l) = (s, pr, er)"
    by (cases "prepareRequestAuth env x auth (lo_state l)") auto
  have s: "poolOK F I (xv_select env) s" using ot st prep by (rule pool_prepare)
  have t: "poolOK F I (xv_select env) s2" "poolOK F I (xv_select env) (ticked 1 s2)"
    if "executeStreamWithModelPool env call x p rq rm em pooled al models a False None s = (s2, r2)" for a rm em s2 r2
    using pool_stream [OF ot s that] pool_ticked by auto
  show ?thesis using s t pool_mark [OF s]
    by (auto simp: executeStreamCredential_def withPrepared_def prep Let_def split: option.splits prod.splits onceOutcome.splits)
qed

lemma handler_stream: "othersOK F I env \<Longrightarrow> handlerOK F I (xv_select env) (executeStreamCredential env call rq)"
  unfolding handlerOK_def by (intro allI impI) (rule pool_streamCredential)

text \<open>
  A streamed execution returns. Under the conditions that make an execution return, the loop over the
  credentials that looks for one whose stream begins well ends, whatever the upstream sends at the
  beginning of each stream, and it tries every credential at most once.\<close>
theorem stream_execution_returns:
  assumes "selector I (sv_pick (xv_select env)) elig" and "finite F" and "othersOK F I env"
    and "poolOK F I (xv_select env) st"
  shows "\<exists>l. executeStreamMixedOnce env call providers rq maxRetryCredentials st = Some l
    \<and> distinct (lo_tried l) \<and> set (lo_tried l) \<subseteq> F"
  unfolding executeStreamMixedOnce_def
  using selector.once_ends [OF assms(1) refl handler_stream [OF assms(3)] assms(2,4)] .

end
