(* ===== verification/ExecutionDemo.thy ===== *)
theory ExecutionDemo
  imports ExecutionEnds
begin

text \<open>
  Concrete executions (theory Execution): two credentials of different providers serve the same
  model and the first is out of quota upstream; and the first alone, with a retry.
\<close>

definition limitError :: goerror where
  "limitError = PlainErr \<lparr>ev_kind = OtherErr, ev_text = ''limit'', ev_status = Some 429, ev_scoped = None, ev_retryAfter = None\<rparr>"

definition demoEnv :: "(nat, unit, unit, string) ExecEnv" where
  "demoEnv = \<lparr>
     xv_select = \<lparr>sv_route = sampleRoute, sv_index = \<lparr>ie_digest = \<lambda>s. s, ie_absClean = \<lambda>s. s\<rparr>, sv_selectorKind = OtherSelector,
       sv_pick = fillFirstPick, sv_plugin = None, sv_clock = (\<lambda>n. 5 + int n), sv_cooldownText = (\<lambda>m p d. [])\<rparr>,
     xv_call = sampleCallEnv, xv_refreshEnv = sampleRefreshEnv,
     xv_upstream = \<lparr>up_execute = (\<lambda>t x auth model. if a_ID auth = ''a'' then Inl limitError else Inr ''reply''),
       up_count = (\<lambda>t x auth model. Inl limitError), up_refresh = (\<lambda>t x auth. ReplyCanceled), up_runtime = (\<lambda>auth. None),
       up_shouldPrepare = (\<lambda>x auth. False), up_prepare = (\<lambda>t x auth. (None, None))\<rparr>,
     xv_others = (\<lambda>t st. st), xv_ctxErr = (\<lambda>t. None), xv_intercept = (\<lambda>t m r. None), xv_decode = (\<lambda>s. None),
     xv_weightText = (\<lambda>e. []), xv_rewrite = (\<lambda>al r. r), xv_credits = False, xv_hint = (\<lambda>i. Inr None), xv_rand = (\<lambda>n. 0)\<rparr>"

definition demoAuthA :: Auth where
  "demoAuthA = (new_auth ''a'' ''codex'')\<lparr>a_Attributes := [(''priority'', ''5'')], a_indexAssigned := True\<rparr>"

definition demoAuthB :: Auth where
  "demoAuthB = (new_auth ''b'' ''xai'')\<lparr>a_indexAssigned := True\<rparr>"

definition demoState :: "(nat, unit, unit) Conductor" where
  "demoState = \<lparr>cd_manager = newManager\<lparr>am_auths := [(''a'', demoAuthA), (''b'', demoAuthB)],
       am_executors := [(''codex'', 1), (''xai'', 2)]\<rparr>,
     cd_registry = newModelRegistry\<lparr>re_clientModels := [(''a'', [''gpt-5'']), (''b'', [''gpt-5''])]\<rparr>,
     cd_scheduler = newAuthScheduler OtherSelector,
     cd_selector = (), cd_tick = 0\<rparr>"

definition demoRequest :: ExecRequest where
  "demoRequest = \<lparr>rq_requiredKind = [], rq_websocket = False, rq_metadata = [], rq_tried = [], rq_primaryID = [], rq_fallbackID = [],
     rq_stream = False, rq_model = ''gpt-5''\<rparr>"

lemma demo_once:
  "map_option (\<lambda>l. (lo_runs l, lo_done l)) (mixedOnce demoEnv ExecuteMode [''codex'', ''xai''] demoRequest 0 demoState) =
    Some ([(''a'', [Called ''a'' ''gpt-5'', Marked (failureResult ''a'' ''codex'' ''gpt-5'' limitError) (Some limitError)]),
      (''b'', [Called ''b'' ''gpt-5'', Marked (successResult ''b'' ''xai'' ''gpt-5'') None])], Some (OnceReply ''reply''))"
  by code_simp


text \<open>The first credential alone, with one retry and waits of at most ten seconds.\<close>

definition demoAlone :: "(nat, unit, unit) Conductor" where
  "demoAlone = demoState\<lparr>cd_manager := (cd_manager demoState)\<lparr>am_auths := [(''a'', demoAuthA)], am_requestRetry := 1,
       am_maxRetryInterval := 10 * second\<rparr>\<rparr>"

lemma demo_waits:
  "map_option (\<lambda>l. (ex_waits l, list_all (retriesAtMost 1 [''codex'']) (ex_decisions l)))
    (executeLoop demoEnv ExecuteMode [''codex''] demoRequest demoAlone) = Some ([999999997], True)"
  by code_simp

lemma retries_bounded_witness:
  "\<exists>l. executeLoop demoEnv ExecuteMode [''codex''] demoRequest demoAlone = Some l
     \<and> ex_waits l = [999999997] \<and> int (length (ex_waits l)) \<le> 1
     \<and> list_all (\<lambda>w. 0 \<le> w \<and> w \<le> am_maxRetryInterval (cd_manager demoAlone)) (ex_waits l)"
proof -
  obtain l where l: "executeLoop demoEnv ExecuteMode [''codex''] demoRequest demoAlone = Some l"
      "ex_waits l = [999999997]" "list_all (retriesAtMost 1 [''codex'']) (ex_decisions l)"
    using demo_waits by auto
  have n: "normalizeProviders [''codex''] = [''codex'']" by code_simp
  have r: "xv_rand demoEnv n = 0" for n by (simp add: demoEnv_def)
  show ?thesis using retries_bounded [OF l(1), of 1] l n r by auto
qed

section \<open>The state is well formed\<close>

lemma demo_others: "awaitUpstream demoEnv st = ticked 1 st"
  by (simp add: awaitUpstream_def demoEnv_def ticked_def)

lemma demo_pool: "poolOK {''a'', ''b''} (\<lambda>_. True) (xv_select demoEnv) demoState"
proof -
  have "schedOK 5 (newAuthScheduler OtherSelector)" by (rule schedOK_mono [OF schedOK_new]) simp
  moreover have "tablesIn {''a'', ''b''} (newAuthScheduler OtherSelector)" by (simp add: tablesIn_def newAuthScheduler_def)
  moreover have "mono (\<lambda>n::nat. 5 + int n)" by (rule monoI) simp
  ultimately show ?thesis
    by (simp add: poolOK_def demoState_def demoEnv_def demoAuthA_def demoAuthB_def new_auth_def)
qed

lemma execution_returns_witness:
  "\<exists>l. mixedOnce demoEnv ExecuteMode [''codex'', ''xai''] demoRequest 0 demoState = Some l \<and> set (lo_tried l) \<subseteq> {''a'', ''b''}"
proof -
  have sel: "selector (\<lambda>_. True) (sv_pick (xv_select demoEnv)) (\<lambda>_. True)"
    using ff.selector_axioms by (simp add: demoEnv_def)
  have ot: "othersOK {''a'', ''b''} (\<lambda>_. True) demoEnv" by (simp add: othersOK_def demo_others pool_ticked)
  show ?thesis using execution_returns [OF sel _ ot demo_pool, of ExecuteMode "[''codex'', ''xai'']" demoRequest 0] by auto
qed

lemma demo_pick:
  "case pickNextMixed (xv_select demoEnv) [''codex'', ''xai''] ''gpt-5'' (RouteRequest.truncate demoRequest) demoState of
     (st', Inr (a, x, k)) \<Rightarrow> a_ID a = ''a'' | _ \<Rightarrow> False"
  by code_simp


section \<open>A credential refused for the models it could serve\<close>

text \<open>The credential after a quota failure of one model.\<close>

definition limitedAuth :: Auth where
  "limitedAuth = (case m_get (out_auths (MarkResult sample_env 5 (limitResult ''gpt-5'') [(''a'', demoAuthA)])) ''a'' of
     Some a \<Rightarrow> a | None \<Rightarrow> demoAuthA)"

text \<open>
  After a quota failure of one model the credential is available for the route of another model, but
  the built-in selectors, to which the pick over the credentials passes an empty model, refuse it:
  they read the availability aggregated over all its models.\<close>
theorem other_models_refused:
  "availableAuthsForRouteModel sampleRoute 9 [limitedAuth] ''codex'' ''gpt-4'' = Inr [limitedAuth]
   \<and> isAuthBlockedForModel (Some limitedAuth) ''gpt-4'' 9 = (False, blockReasonNone, 0)
   \<and> list_all (\<lambda>kind. isAuthBlockedForModel (Some limitedAuth) (selectionArgForSelector kind ''gpt-4'') 9
       = (True, blockReasonCooldown, 1000000005)) [RoundRobinKind, WeightedRoundRobinKind, FillFirstKind]
   \<and> (case snd (selectAmong ((xv_select demoEnv)\<lparr>sv_selectorKind := FillFirstKind\<rparr>) ''codex'' [''codex''] ''gpt-4''
         (RouteRequest.truncate demoRequest) [limitedAuth] demoState) of Inl e \<Rightarrow> isKind CooldownErr e | Inr _ \<Rightarrow> False)"
proof (intro conjI)
  show "availableAuthsForRouteModel sampleRoute 9 [limitedAuth] ''codex'' ''gpt-4'' = Inr [limitedAuth]"
    by code_simp
  show "isAuthBlockedForModel (Some limitedAuth) ''gpt-4'' 9 = (False, blockReasonNone, 0)" by code_simp
  show "list_all (\<lambda>kind. isAuthBlockedForModel (Some limitedAuth) (selectionArgForSelector kind ''gpt-4'') 9
       = (True, blockReasonCooldown, 1000000005)) [RoundRobinKind, WeightedRoundRobinKind, FillFirstKind]"
    by code_simp
  show "case snd (selectAmong ((xv_select demoEnv)\<lparr>sv_selectorKind := FillFirstKind\<rparr>) ''codex'' [''codex''] ''gpt-4''
         (RouteRequest.truncate demoRequest) [limitedAuth] demoState) of Inl e \<Rightarrow> isKind CooldownErr e | Inr _ \<Rightarrow> False"
    by code_simp
qed

end
