(* ===== verification/StreamDemo.thy ===== *)
theory StreamDemo
  imports StreamRuns ExecutionDemo
begin

text \<open>
  Concrete streamed executions (theory StreamExecution), on the two credentials of theory ExecutionDemo:
  a stream that fails at its beginning, a client that goes away, and two cases in which the code does
  not do what the plain execution does.
\<close>

section \<open>The first stream fails at its beginning\<close>

abbreviation textChunk :: "string \<Rightarrow> StreamChunk" where
  "textChunk text \<equiv> \<lparr>ch_Payload = text, ch_Err = None\<rparr>"

abbreviation errorChunk :: "goerror \<Rightarrow> StreamChunk" where
  "errorChunk err \<equiv> \<lparr>ch_Payload = [], ch_Err = Some err\<rparr>"

definition demoStream :: "nat streamCall" where
  "demoStream t x auth model = Inr (Some (Some (if a_ID auth = ''a'' then [Arrives (textChunk []), Arrives (errorChunk limitError)]
     else [Arrives (textChunk []), Arrives (textChunk ''one''), Arrives (textChunk ''two'')])))"

lemma demo_stream:
  "map_option (\<lambda>l. (lo_runs l, lo_done l)) (executeStreamMixedOnce demoEnv demoStream [''codex'', ''xai''] demoRequest 0 demoState) =
    Some ([(''a'', [Called ''a'' ''gpt-5'', Marked (failureResult ''a'' ''codex'' ''gpt-5'' limitError) (Some limitError)]),
      (''b'', [Called ''b'' ''gpt-5''])],
      Some (OnceReply (streamOf ''b'' ''xai'' ''gpt-5'' (plainModel ''gpt-5'') [textChunk [], textChunk ''one''] False [Arrives (textChunk ''two'')])))"
  by code_simp

lemma stream_execution_returns_witness:
  "\<exists>l. executeStreamMixedOnce demoEnv demoStream [''codex'', ''xai''] demoRequest 0 demoState = Some l \<and> set (lo_tried l) \<subseteq> {''a'', ''b''}"
proof -
  have sel: "selector (\<lambda>_. True) (sv_pick (xv_select demoEnv)) (\<lambda>_. True)"
    using ff.selector_axioms by (simp add: demoEnv_def)
  have ot: "othersOK {''a'', ''b''} (\<lambda>_. True) demoEnv" by (simp add: othersOK_def demo_others pool_ticked)
  show ?thesis using stream_execution_returns [OF sel _ ot demo_pool, of demoStream "[''codex'', ''xai'']" demoRequest 0] by auto
qed

lemma stream_decided_by_runs_witness:
  "\<exists>l. executeStreamMixedOnce demoEnv demoStream [''codex'', ''xai''] demoRequest 0 demoState = Some l
     \<and> map fst (lo_runs l) = [''a'', ''b''] \<and> list_all credentialRunOK (lo_runs l)
     \<and> streamDecided (lo_done l) (eventsOf (lo_runs l))"
proof -
  obtain l where l: "executeStreamMixedOnce demoEnv demoStream [''codex'', ''xai''] demoRequest 0 demoState = Some l"
      "map fst (lo_runs l) = [''a'', ''b'']"
    using demo_stream by auto
  show ?thesis by (intro exI [of _ l] conjI) (use l stream_decided_by_runs [OF l(1)] in \<open>simp_all only:\<close>)
qed

section \<open>What the client gets\<close>


text \<open>
  A stream that closes after chunks without a payload is taken for one that began well: the client gets
  nothing and a success is recorded, where a stream that closes without any chunk is a failure.\<close>
theorem empty_chunks_succeed:
  "readStreamBootstrap (Some [Arrives (textChunk [])]) = (Inr ([textChunk []], True), [])
   \<and> (let f = wrapStreamResult json taken (streamOf i p m al [textChunk []] True []) in
        (rewriteTarget al = None \<longrightarrow> fw_out f = [] \<and> fw_results f = [successResult i p m]))"
  by (simp add: readStreamBootstrap_def wrapStreamResult_def streamOf_def emitChunk_def startForward_def Let_def)

text \<open>
  When the client has gone and the upstream reader sends the error of the context, the client gets
  nothing more, but a failure is recorded against the credential. Before the stream is given to the
  client the end of the context records nothing.\<close>
theorem client_gone_recorded:
  assumes "rewriteTarget al = None" and "text \<noteq> []"
  shows "let s = streamOf i p m al [textChunk text] False [Arrives (errorChunk canceled)];
      f = wrapStreamResult json (\<lambda>k. k = 0) s
    in fw_out f = [textChunk text] \<and> fw_results f = [streamFailure s canceled]"
  using assms by (simp add: wrapStreamResult_def streamOf_def emitChunk_def sendChunk_def startForward_def Let_def)

section \<open>A request that a plugin ends\<close>

definition endedError :: goerror where
  "endedError = PlainErr \<lparr>ev_kind = TerminatedErr, ev_text = ''ended'', ev_status = Some 429, ev_scoped = None, ev_retryAfter = None\<rparr>"

definition endingEnv :: "(nat, unit, unit, string) ExecEnv" where
  "endingEnv = demoEnv\<lparr>xv_intercept := \<lambda>t m r. Some endedError\<rparr>"

text \<open>
  A plugin that ends the request ends the plain execution at the first credential; the streamed
  execution goes on to the next credential, and shows the plugin the request again.\<close>
theorem ended_stream_goes_on:
  "map_option (\<lambda>l. (lo_tried l, lo_done l)) (mixedOnce endingEnv ExecuteMode [''codex'', ''xai''] demoRequest 0 demoState) =
     Some ([''a''], Some (OnceError endedError))
   \<and> map_option (\<lambda>l. (lo_tried l, lo_done l)) (executeStreamMixedOnce endingEnv demoStream [''codex'', ''xai''] demoRequest 0 demoState) =
     Some ([''b'', ''a''], Some (OnceError endedError))"
proof
  show "map_option (\<lambda>l. (lo_tried l, lo_done l)) (mixedOnce endingEnv ExecuteMode [''codex'', ''xai''] demoRequest 0 demoState) =
     Some ([''a''], Some (OnceError endedError))"
    by code_simp
  show "map_option (\<lambda>l. (lo_tried l, lo_done l)) (executeStreamMixedOnce endingEnv demoStream [''codex'', ''xai''] demoRequest 0 demoState) =
     Some ([''b'', ''a''], Some (OnceError endedError))"
    by code_simp
qed

end
