(* ===== verification/Spec2Isabelle.thy ===== *)
theory Spec2Isabelle
  imports TokenAccounting CooldownOps SmoothWeighted SessionAffinity RedisQueue ExecRegistry ModelListing SchedulerWeighted RedisProtocol AutoRefresh ModelPools StreamDemo
begin

text \<open>
  Verification library of the credential pool of the CLI proxy back end (the Go program under
  \<open>src/backend\<close>).

  The program. A proxy accepts API requests for language models and serves each with one of many
  upstream credentials. The registry (\<open>internal/registry\<close>) knows which credential offers which model; the
  conductor (\<open>sdk/cliproxy/auth\<close>) keeps the credentials with their cooldowns, picks one per request with a
  selector, the incremental scheduler or a session binding, and records the outcome, which may
  block the credential for the model and mark the model in the registry. Every attempt is an
  execution scope (\<open>sdk/cliproxy/executionregistry\<close>) whose usage is normalised
  (\<open>sdk/cliproxy/usage\<close>) and published to an in-process queue (\<open>internal/redisqueue\<close>); a collector reads the queue
  over a RESP connection (\<open>internal/api\<close>, \<open>internal/core/resp\<close>) after the management key check
  (\<open>internal/api/handlers/management\<close>). Credentials with tokens are refreshed ahead of their expiry by a loop
  of the conductor that keeps a heap of the next checks.

  How the code is modelled (theory Prelude). A struct is a record with prefixed fields, an enumeration
  or interface value a datatype, a Go map an association list with distinct keys whose order
  stands for any order of iteration, a pointer that may be nil an option, an \<open>int\<close> or \<open>int64\<close> an \<open>int\<close> with
  its wrap-around written out where a sum can overflow, a string its list of bytes, an instant
  the nanoseconds since the zero time. Every clock reading is an argument. A method on a shared
  object takes and returns its state. Errors and panics are values. Operations that hold one lock
  are single functions; where an operation releases its lock between sections, each section is a
  step and a relation interleaves them. Logs, traces and copies that only separate slices are
  left out.

  Theories, the files they model, and what their lemmas show.

  AnyValue: the dynamic values of metadata maps and decimal text.
  AuthTypes, CredentialWeight: \<open>auth/types.go\<close>, \<open>auth/classification.go\<close>, \<open>auth/weight.go\<close>,
  \<open>internal/credentialweight\<close>: the credential record; a weight survives its round trip through text and
  attributes; the ring of recent requests is a window over the request log.
  TokenAccounting: \<open>usage/accounting.go\<close>: every normalised breakdown is consistent, and normalising is
  idempotent; an overflow of the cache counters is exhibited.
  Thinking: \<open>internal/thinking\<close>: suffix parsing, conversion and clamping; the validated configuration is
  one the model accepts, the clamped level the nearest one.
  Availability: the block test of a credential for a model. CooldownState, CooldownOps:
  \<open>auth/conductor_cooldown.go\<close>, \<open>auth/cooldown_state.go\<close>: failures set cooldowns by kind with a bounded ladder of
  back-offs, success and reset lift them, no sequence of transient results blocks for ever, and
  the records that survive a restart give the state back.
  Selector, SmoothWeighted: \<open>auth/selector.go\<close>: every strategy is an instance of one locale of picks that
  serve an available credential of the best priority; round robin and smooth weighted round robin
  give each credential its exact share.
  SessionCache, SessionAffinity: \<open>auth/session_cache.go\<close> and the affinity selector: the alias groups stay
  consistent and bounded, a session sticks to its credential while it is available, and the
  affinity selector refines the one it wraps (a locale over any selector).
  RedisQueue: \<open>internal/redisqueue/queue.go\<close>: the slice with a moving head refines a list with a retention
  window; subscriber channels are never sent to or closed after their close.
  ExecRegistry: \<open>executionregistry/registry.go\<close>, \<open>observation.go\<close>: under every interleaving of the locked
  sections a drain leaves nothing behind, a resource is closed once, release sequences are exact,
  and a published barrier covers the dispatches before it.
  ModelRegistry, ModelListing: \<open>internal/registry/model_registry.go\<close>: the counters are the numbers of
  references, a reconciled registration equals a fresh one, the cached lists are current.
  Scheduler (definitions), SchedulerIndex, SchedulerPick, SchedulerMixed, SchedulerWeighted:
  \<open>auth/scheduler.go\<close>: the incrementally maintained shards give what a scan of all credentials gives, for
  one provider and for several; round robin starves nobody; the weighted pick is the selector's.
  AuthManager: \<open>auth/conductor_lifecycle.go\<close>, the index of \<open>auth/types.go\<close>: registration, update, removal and
  loading keep the map of credentials well formed; an update keeps counters and index.
  ModelAlias: \<open>auth/oauth_model_alias.go\<close>, ModelPools: \<open>auth/conductor_models.go\<close>: the upstream models behind the
  model a client names; the table of aliases and the scan of the configuration agree where the aliases are
  unambiguous; a failed model is left out exactly until its deadline, but a failure of a name with a
  thinking suffix blocks that name only.
  GoTime, RefreshDecision: the times and durations of metadata (\<open>auth/types.go\<close>), the next check and the
  decision to refresh (\<open>auth/auto_refresh_loop.go\<close>, \<open>auth/conductor_refresh.go\<close>), which agree with each other.
  RefreshOutcome: the record after each outcome of a refresh is not due at once; two cases where
  the code loses state or the back-off are exhibited.
  RefreshHeap: the heap with its index refines a map whose due entries come out in order; the queue
  is stated as a locale with the loop's pass over identifiers as its client. AutoRefresh: the loop,
  its workers and callers as steps: no credential with a next check is forgotten and no wake-up
  lost, but for a recovery the code does not report.
  RequestErrors, RouteSelection, RoutePick: the errors of \<open>auth/conductor_cooldown.go\<close> and the picks of
  \<open>auth/conductor_selection.go\<close>: the candidates of a route, the plugin scheduler, the selector or the
  built-in scheduler, and the decision to wait; a pick returns an untried, admitted credential with
  its executor and keeps the scheduler and the credentials well formed, for every instance of the
  locale of selectors.
  Execution, ExecutionLoop, ExecutionEnds, ExecutionDemo: \<open>Execute\<close> and \<open>ExecuteCount\<close> of
  \<open>auth/conductor_execution.go\<close> with the preparation and the refresh of a credential and the fallback to
  credits (\<open>auth/conductor_home.go\<close>): the loops end, what was called and recorded decides the outcome,
  attempts and waits are bounded, and a request at fault blocks no credential; concrete executions,
  one of which shows built-in selectors refusing a credential for the models it could serve. The loop
  over credentials is a round with the handling of a credential as its argument; what the runs say
  about the outcome is a locale of rules (\<open>outcome_rule\<close>), with an instance for replies and one for streams.
  StreamRewriter: \<open>auth/response_model_rewriter.go\<close>, the rewriting of the model's name in server-sent events:
  complete events are rewritten line by line and given out at once; text given out twice is exhibited.
  StreamExecution, StreamRuns, StreamDemo: \<open>auth/conductor_stream.go\<close>, \<open>ExecuteStream\<close> and the stream
  fallback to credits: a stream is read up to its first payload before the client gets it, and its goroutine
  is a function of what arrives and of which sends the client takes; the client gets what
  the upstream sent, one outcome is recorded, only failures are recorded before, the loop over
  credentials returns; concrete streams, among them cases where a stream is treated unlike a plain execution.
  ManagementAuth: the key check of \<open>handlers/management/handler.go\<close>: five wrong keys per ban.
  Resp, RedisProtocol: \<open>internal/api/redis_queue_protocol.go\<close>, \<open>internal/core/resp/client.go\<close>: the client's commands are read
  back by the server and its replies by the client; a pop over the wire is a pop of the queue; a
  peer without an accepted key gets nothing; the command loop ends; a length that the server
  cannot allocate panics it.

  Recursion. The loops are structural recursions or folds, except the pruning loop of the queue, the
  decimal printer, the RESP value reader and the frame loop of its client, the sifting and the due
  loop of the refresh heap, the replacing of glued events, the layout reader and the search for an expiry in nested maps, which
  are functions with termination proofs (the RESP reader is nested: it is proved that no read
  returns more input than it got), and the two loops of an execution, over credentials and over
  attempts, which are \<open>while_option\<close> loops: the value \<open>None\<close> is a loop that does not return, and the loop over
  credentials is proved to return. No definition uses fuel, so no bound on it is needed.

  Parameters. The bcrypt comparison and the allocation limit of the Go runtime in the protocol
  theories; SHA-256 and \<open>filepath.Abs\<close> in the index of a credential; \<open>time.ParseDuration\<close> and
  \<open>strconv.ParseFloat\<close>, the JSON form of the aliases in an attribute, the registered refresh leads, the runtime objects and the replies of executors in
  the refresh theories; in the execution theories the upstream executors, the interceptor of plugins,
  the plugin scheduler, the content of the channels of streams and the sends that the client takes, the context, the credit hints, the rewriting of responses, the decoding of
  JSON texts, validity, fields and the setting of a field in a JSON text, the random part of a wait and what other requests do to the shared state while a
  call or a wait blocks, all functions of the moment; the registry's hooks are left out as they do not feed back. The case and space functions act on
  ASCII bytes.

  Not modelled. SQL stores, HTTP handlers and routing, the executors and translators of the upstream
  protocols (network I/O and JSON rewriting through third-party packages), the plugin host, file
  watching, configuration decoding and the terminal interface: their content is calls of code
  outside the repository. Of modelled files: the extraction of thinking settings and session identifiers from JSON
  bodies, the headers of replies, the dispatch through the control plane (the model is the manager with
  the control plane off), the file store of the cooldown records, and \<open>GetFirstAvailableModel\<close>, whose comparison is
  not a strict weak order.
\<close>

end
